(* ===== verification/Prelude.thy ===== *)
theory Prelude
  imports Main "HOL-Library.Word"
begin

text \<open>
  Shared vocabulary of the development.

  A C function that may not return is modelled by a value of \<open>'a res\<close>: \<open>Ret\<close> is a normal
  return; \<open>Trap\<close> is a stop from which the firmware does not come back (an \<open>EXCEPTION\<close>, which
  prints and spins until the watchdog resets the chip, or an access that C leaves undefined);
  \<open>Diverge\<close> is a computation that did not finish within the fuel it was given.
  An \<open>act\<close> is a C function over a mutable state: it takes the state and gives the returned
  value with the new state. The combinators \<open>bindA\<close> and \<open>seqA\<close> sequence acts as the
  statements of a C body are sequenced.

  The second half is a small logic of acts: \<open>keeps R m\<close> says that every normal return of \<open>m\<close>
  relates the states before and after by \<open>R\<close>. Its rules are in the collection \<open>keeps\<close>, so that
  a frame or an invariant of a long C body is one call of the classical reasoner.
\<close>

unbundle bit_operations_syntax

section \<open>Outcomes and acts\<close>

datatype trap = Exception string | Fault string

datatype 'a res = Ret 'a | Trap trap | Diverge

type_synonym ('s, 'a) act = "'s \<Rightarrow> ('a \<times> 's) res"

fun res_bind :: "'a res \<Rightarrow> ('a \<Rightarrow> 'b res) \<Rightarrow> 'b res" where
  "res_bind (Ret x) f = f x"
| "res_bind (Trap t) f = Trap t"
| "res_bind Diverge f = Diverge"

definition retA :: "'a \<Rightarrow> ('s, 'a) act" where
  "retA x = (\<lambda>s. Ret (x, s))"

definition bindA :: "('s, 'a) act \<Rightarrow> ('a \<Rightarrow> ('s, 'b) act) \<Rightarrow> ('s, 'b) act" where
  "bindA m f = (\<lambda>s. res_bind (m s) (\<lambda>(x, s'). f x s'))"

definition seqA :: "('s, 'a) act \<Rightarrow> ('s, 'b) act \<Rightarrow> ('s, 'b) act" where
  "seqA m n = bindA m (\<lambda>_. n)"

definition getA :: "('s \<Rightarrow> 'a) \<Rightarrow> ('s, 'a) act" where
  "getA f = (\<lambda>s. Ret (f s, s))"

definition modA :: "('s \<Rightarrow> 's) \<Rightarrow> ('s, unit) act" where
  "modA f = (\<lambda>s. Ret ((), f s))"

definition trapA :: "trap \<Rightarrow> ('s, 'a) act" where
  "trapA t = (\<lambda>_. Trap t)"

definition excA :: "string \<Rightarrow> ('s, 'a) act" where
  "excA msg = trapA (Exception msg)"

definition liftA :: "'a res \<Rightarrow> ('s, 'a) act" where
  "liftA r = (\<lambda>s. res_bind r (\<lambda>x. Ret (x, s)))"

lemma retA_app [simp]: "retA x s = Ret (x, s)"
  by (simp add: retA_def)

lemma getA_app [simp]: "getA f s = Ret (f s, s)"
  by (simp add: getA_def)

lemma modA_app [simp]: "modA f s = Ret ((), f s)"
  by (simp add: modA_def)

lemma trapA_app [simp]: "trapA t s = Trap t"
  by (simp add: trapA_def)

lemma excA_app [simp]: "excA msg s = Trap (Exception msg)"
  by (simp add: excA_def)

lemma liftA_app [simp]: "liftA r s = res_bind r (\<lambda>x. Ret (x, s))"
  by (simp add: liftA_def)

lemma bindA_app [simp]: "bindA m f s = res_bind (m s) (\<lambda>(x, s'). f x s')"
  by (simp add: bindA_def)

lemma seqA_app [simp]: "seqA m n s = res_bind (m s) (\<lambda>(x, s'). n s')"
  by (simp add: seqA_def)

lemma if_act_app [simp]: "(if b then m else n) s = (if b then m s else n s)"
  by simp

lemma res_bind_Ret_iff [simp]:
  "(res_bind r f = Ret y) = (\<exists>x. r = Ret x \<and> f x = Ret y)"
  by (cases r) auto

lemma res_bind_cong [fundef_cong]:
  "r = r' \<Longrightarrow> (\<And>x. r' = Ret x \<Longrightarrow> f x = g x) \<Longrightarrow> res_bind r f = res_bind r' g"
  by (cases r') auto

text \<open>A normal return, as a test.\<close>

definition returns :: "'a res \<Rightarrow> bool" where
  "returns r = (case r of Ret x \<Rightarrow> True | _ \<Rightarrow> False)"

lemma returns_iff: "returns r \<longleftrightarrow> (\<exists>x. r = Ret x)"
  by (cases r) (auto simp: returns_def)

section \<open>Relating the states before and after an act\<close>

named_theorems keeps "introduction rules for keeps"

definition keeps :: "('s \<Rightarrow> 's \<Rightarrow> bool) \<Rightarrow> ('s, 'a) act \<Rightarrow> bool" where
  "keeps R m = (\<forall>s x s'. m s = Ret (x, s') \<longrightarrow> R s s')"

lemma keepsI: "(\<And>s x s'. m s = Ret (x, s') \<Longrightarrow> R s s') \<Longrightarrow> keeps R m"
  by (auto simp: keeps_def)

lemma keepsD: "keeps R m \<Longrightarrow> m s = Ret (x, s') \<Longrightarrow> R s s'"
  by (auto simp: keeps_def)

definition preorder_rel :: "('s \<Rightarrow> 's \<Rightarrow> bool) \<Rightarrow> bool" where
  "preorder_rel R = ((\<forall>s. R s s) \<and> (\<forall>s t u. R s t \<longrightarrow> R t u \<longrightarrow> R s u))"

lemma preorder_relI:
  "(\<And>s. R s s) \<Longrightarrow> (\<And>s t u. R s t \<Longrightarrow> R t u \<Longrightarrow> R s u) \<Longrightarrow> preorder_rel R"
  by (auto simp: preorder_rel_def)

lemma preorder_refl: "preorder_rel R \<Longrightarrow> R s s"
  by (auto simp: preorder_rel_def)

lemma preorder_trans: "preorder_rel R \<Longrightarrow> R s t \<Longrightarrow> R t u \<Longrightarrow> R s u"
  by (auto simp: preorder_rel_def)

lemma keeps_retA [keeps]: "preorder_rel R \<Longrightarrow> keeps R (retA x)"
  by (auto simp: keeps_def preorder_rel_def)

lemma keeps_getA [keeps]: "preorder_rel R \<Longrightarrow> keeps R (getA f)"
  by (auto simp: keeps_def preorder_rel_def)

lemma keeps_trapA [keeps]: "keeps R (trapA t)"
  by (auto simp: keeps_def)

lemma keeps_excA [keeps]: "keeps R (excA msg)"
  by (auto simp: keeps_def)

lemma keeps_liftA [keeps]: "preorder_rel R \<Longrightarrow> keeps R (liftA r)"
  by (cases r) (auto simp: keeps_def preorder_rel_def)

lemma keeps_modA: "(\<And>s. R s (f s)) \<Longrightarrow> keeps R (modA f)"
  by (auto simp: keeps_def)

lemma keeps_bindA [keeps]:
  assumes "preorder_rel R" "keeps R m" "\<And>x. keeps R (f x)"
  shows "keeps R (bindA m f)"
  using assms unfolding keeps_def preorder_rel_def by (fastforce split: prod.splits)

lemma keeps_seqA [keeps]:
  "preorder_rel R \<Longrightarrow> keeps R m \<Longrightarrow> keeps R n \<Longrightarrow> keeps R (seqA m n)"
  unfolding seqA_def by (intro keeps)

lemma keeps_if [keeps]:
  "keeps R m \<Longrightarrow> keeps R n \<Longrightarrow> keeps R (if b then m else n)"
  by simp

lemma keeps_option [keeps]:
  "keeps R m \<Longrightarrow> (\<And>x. keeps R (f x)) \<Longrightarrow> keeps R (case z of None \<Rightarrow> m | Some x \<Rightarrow> f x)"
  by (cases z) auto

lemma keeps_prod [keeps]:
  "(\<And>x y. keeps R (f x y)) \<Longrightarrow> keeps R (case z of (x, y) \<Rightarrow> f x y)"
  by (cases z) auto

lemma keeps_Let [keeps]: "(\<And>x. keeps R (f x)) \<Longrightarrow> keeps R (Let z f)"
  by simp

section \<open>Counted loops over a state\<close>

text \<open>
  A C \<open>for\<close> loop that visits a list of indices and may leave early: the body returns
  \<open>None\<close> to go on and \<open>Some r\<close> to leave the loop with \<open>r\<close>.
\<close>

fun loopA :: "('i \<Rightarrow> ('s, 'r option) act) \<Rightarrow> 'i list \<Rightarrow> ('s, 'r option) act" where
  "loopA body [] = retA None"
| "loopA body (i # is) =
     bindA (body i) (\<lambda>r. case r of None \<Rightarrow> loopA body is | Some x \<Rightarrow> retA (Some x))"

fun eachA :: "('i \<Rightarrow> ('s, unit) act) \<Rightarrow> 'i list \<Rightarrow> ('s, unit) act" where
  "eachA body [] = retA ()"
| "eachA body (i # is) = seqA (body i) (eachA body is)"

text \<open>
  The same with a local variable: the body goes on with a new value of it (\<open>Next\<close>), jumps to
  the label after the loop (\<open>Leave\<close>) or returns from the function (\<open>Return\<close>).
\<close>

datatype ('a, 'r) ctl = Next 'a | Leave 'a | Return 'r

fun forA :: "('i \<Rightarrow> 'a \<Rightarrow> ('s, ('a, 'r) ctl) act) \<Rightarrow> 'i list \<Rightarrow> 'a \<Rightarrow> ('s, ('a, 'r) ctl) act" where
  "forA body [] x = retA (Next x)"
| "forA body (i # is) x =
     bindA (body i x) (\<lambda>z. case z of Next y \<Rightarrow> forA body is y | Leave y \<Rightarrow> retA z | Return r \<Rightarrow> retA z)"

text \<open>What follows the loop: the label, unless the function has returned.\<close>

definition afterA :: "('s, ('a, 'r) ctl) act \<Rightarrow> ('a \<Rightarrow> ('s, 'r) act) \<Rightarrow> ('s, 'r) act" where
  "afterA m f = bindA m (\<lambda>z. case z of Next x \<Rightarrow> f x | Leave x \<Rightarrow> f x | Return r \<Rightarrow> retA r)"

lemma keeps_ctl [keeps]:
  "(\<And>x. keeps R (f x)) \<Longrightarrow> (\<And>x. keeps R (g x)) \<Longrightarrow> (\<And>x. keeps R (h x)) \<Longrightarrow>
   keeps R (case z of Next x \<Rightarrow> f x | Leave x \<Rightarrow> g x | Return r \<Rightarrow> h r)"
  by (cases z) auto

lemma keeps_forA [keeps]:
  assumes "preorder_rel R" "\<And>i x. keeps R (body i x)"
  shows "keeps R (forA body is x)"
  by (induction "is" arbitrary: x) (simp_all only: forA.simps, (intro keeps assms | assumption)+)

lemma keeps_afterA [keeps]:
  assumes "preorder_rel R" "keeps R m" "\<And>x. keeps R (f x)"
  shows "keeps R (afterA m f)"
  unfolding afterA_def by (intro keeps assms)

lemma keeps_loopA [keeps]:
  assumes "preorder_rel R" "\<And>i. keeps R (body i)"
  shows "keeps R (loopA body is)"
  by (induction "is") (simp_all only: loopA.simps, (intro keeps assms | assumption)+)

lemma keeps_eachA [keeps]:
  assumes "preorder_rel R" "\<And>i. keeps R (body i)"
  shows "keeps R (eachA body is)"
  by (induction "is") (simp_all only: eachA.simps, (intro keeps assms | assumption)+)

text \<open>
  A C \<open>while\<close> loop with its local variables as \<open>i\<close>: the body gives the next locals (\<open>Inl\<close>)
  or leaves the function with a result (\<open>Inr\<close>). The fuel bounds the iterations; every use
  gives a bound that the loop cannot exceed unless it runs forever. \<open>whileR\<close> is the same loop
  without a state.
\<close>

fun whileA :: "nat \<Rightarrow> ('i \<Rightarrow> bool) \<Rightarrow> ('i \<Rightarrow> ('s, 'i + 'r) act) \<Rightarrow> 'i \<Rightarrow> ('s, 'i + 'r) act" where
  "whileA n c body i =
     (if c i then
        if n = 0 then (\<lambda>_. Diverge)
        else bindA (body i) (\<lambda>x. case x of Inl j \<Rightarrow> whileA (n - 1) c body j | Inr r \<Rightarrow> retA (Inr r))
      else retA (Inl i))"

fun whileR :: "nat \<Rightarrow> ('i \<Rightarrow> bool) \<Rightarrow> ('i \<Rightarrow> ('i + 'r) res) \<Rightarrow> 'i \<Rightarrow> ('i + 'r) res" where
  "whileR n c body i =
     (if c i then
        if n = 0 then Diverge
        else res_bind (body i) (\<lambda>x. case x of Inl j \<Rightarrow> whileR (n - 1) c body j | Inr r \<Rightarrow> Ret (Inr r))
      else Ret (Inl i))"

declare whileA.simps [simp del] whileR.simps [simp del]

lemma whileR_stop: "\<not> c i \<Longrightarrow> whileR n c body i = Ret (Inl i)"
  by (simp add: whileR.simps)

lemma whileR_step:
  "c i \<Longrightarrow> 0 < n \<Longrightarrow> body i = Ret (Inl j) \<Longrightarrow> whileR n c body i = whileR (n - 1) c body j"
  by (simp add: whileR.simps [of n c body i])

lemma whileR_exit:
  "c i \<Longrightarrow> 0 < n \<Longrightarrow> body i = Ret (Inr r) \<Longrightarrow> whileR n c body i = Ret (Inr r)"
  by (simp add: whileR.simps [of n c body i])

lemma whileA_stop: "\<not> c i \<Longrightarrow> whileA n c body i s = Ret (Inl i, s)"
  by (simp add: whileA.simps)

lemma whileA_step:
  "c i \<Longrightarrow> 0 < n \<Longrightarrow> body i s = Ret (Inl j, s') \<Longrightarrow> whileA n c body i s = whileA (n - 1) c body j s'"
  by (simp add: whileA.simps [of n c body i])

lemma whileA_exit:
  "c i \<Longrightarrow> 0 < n \<Longrightarrow> body i s = Ret (Inr r, s') \<Longrightarrow> whileA n c body i s = Ret (Inr r, s')"
  by (simp add: whileA.simps [of n c body i])

lemma keeps_diverge [keeps]: "keeps R (\<lambda>_. Diverge)"
  by (simp add: keeps_def)

lemma keeps_sum [keeps]:
  "(\<And>x. keeps R (f x)) \<Longrightarrow> (\<And>y. keeps R (g y)) \<Longrightarrow> keeps R (case z of Inl x \<Rightarrow> f x | Inr y \<Rightarrow> g y)"
  by (cases z) auto

lemma keeps_whileA [keeps]:
  assumes "preorder_rel R" "\<And>i. keeps R (body i)"
  shows "keeps R (whileA n c body i)"
proof (induction n arbitrary: i)
  case 0
  show ?case by (subst whileA.simps) (use assms in \<open>auto intro: keeps\<close>)
next
  case (Suc n)
  have "keeps R (bindA (body i) (\<lambda>x. case x of Inl j \<Rightarrow> whileA n c body j | Inr r \<Rightarrow> retA (Inr r)))"
    by (intro keeps assms Suc)
  then show ?case by (subst whileA.simps) (use assms in \<open>auto intro: keeps\<close>)
qed

section \<open>Runs\<close>

text \<open>An act for every element of a list, with the returned values in order.\<close>

fun mapA :: "('i \<Rightarrow> ('s, 'a) act) \<Rightarrow> 'i list \<Rightarrow> ('s, 'a list) act" where
  "mapA body [] = retA []"
| "mapA body (i # is) = bindA (body i) (\<lambda>x. bindA (mapA body is) (\<lambda>xs. retA (x # xs)))"

lemma mapA_invariant:
  assumes "\<And>j s. j < length xs \<Longrightarrow> I j s \<Longrightarrow> \<exists>s'. body (xs ! j) s = Ret (r j, s') \<and> I (Suc j) s'" "I 0 s"
  shows "\<exists>s'. mapA body xs s = Ret (map r [0..<length xs], s') \<and> I (length xs) s'"
  using assms
proof (induction xs arbitrary: s I r)
  case (Cons x xs)
  from Cons.prems(1) [of 0] Cons.prems(2)
  obtain s1 where s1: "body x s = Ret (r 0, s1)" "I (Suc 0) s1" by auto
  have "\<exists>s'. mapA body xs s1 = Ret (map (\<lambda>j. r (Suc j)) [0..<length xs], s') \<and> I (Suc (length xs)) s'"
    by (rule Cons.IH [of "\<lambda>j. I (Suc j)" "\<lambda>j. r (Suc j)"])
      (use Cons.prems(1) [of "Suc _"] s1(2) in auto)
  then obtain s' where s': "mapA body xs s1 = Ret (map (\<lambda>j. r (Suc j)) [0..<length xs], s')"
    "I (Suc (length xs)) s'" by blast
  have "map r [0..<length (x # xs)] = r 0 # map (\<lambda>j. r (Suc j)) [0..<length xs]"
    by (simp add: upt_conv_Cons map_Suc_upt [symmetric] comp_def del: upt_Suc)
  with s1 s' show ?case by simp
qed simp

lemma eachA_invariant:
  assumes "\<And>j s. j < length xs \<Longrightarrow> I j s \<Longrightarrow> \<exists>s'. body (xs ! j) s = Ret ((), s') \<and> I (Suc j) s'" "I 0 s"
  shows "\<exists>s'. eachA body xs s = Ret ((), s') \<and> I (length xs) s'"
  using assms
proof (induction xs arbitrary: s I)
  case (Cons x xs)
  from Cons.prems(1) [of 0] Cons.prems(2)
  obtain s1 where s1: "body x s = Ret ((), s1)" "I (Suc 0) s1" by auto
  have "\<exists>s'. eachA body xs s1 = Ret ((), s') \<and> I (Suc (length xs)) s'"
    by (rule Cons.IH [of "\<lambda>j. I (Suc j)"]) (use Cons.prems(1) [of "Suc _"] s1(2) in auto)
  with s1(1) show ?case by auto
qed simp

section \<open>Sixteen-bit index arithmetic\<close>

text \<open>A \<open>uint16_t\<close> index is a natural number; an assignment to one truncates.\<close>

definition u16 :: "nat \<Rightarrow> nat" where
  "u16 n = n mod 65536"

definition UINT16_MAX :: nat where
  "UINT16_MAX = 65535"

lemma u16_id: "n < 65536 \<Longrightarrow> u16 n = n"
  by (simp add: u16_def)

lemma u16_less [simp]: "u16 n < 65536"
  by (simp add: u16_def)

end
