(* ===== verification/SE_Params.thy ===== *)
theory SE_Params
  imports Prelude
begin

text \<open>
  Data of the S-expression engine (\<open>s_engine/runtime/s_engine_types.h\<close>, in the 32-bit
  configuration \<open>MODULE_IS_64BIT = 0\<close> every chip port builds): result codes, the eight-byte
  parameter with its union, the opcodes and their predicates, the state of a node.

  A compiled tree is one flat array of parameters. A C pointer into it is a \<open>slice\<close>: the
  index of the parameter it points to, or none for \<open>NULL\<close>, with the count passed beside it.
  Reading past the array, or through \<open>NULL\<close>, is a \<open>Fault\<close>.
\<close>

section \<open>Result codes\<close>

text \<open>
  The enumeration \<open>s_expr_result_t\<close>. A user function can return any integer, so the codes
  past the last one are kept as \<open>SE_OTHER n\<close>, the code \<open>18 + n\<close>.
\<close>

datatype s_expr_result =
    SE_CONTINUE | SE_HALT | SE_TERMINATE | SE_RESET | SE_DISABLE | SE_SKIP_CONTINUE
  | SE_FUNCTION_CONTINUE | SE_FUNCTION_HALT | SE_FUNCTION_TERMINATE | SE_FUNCTION_RESET
  | SE_FUNCTION_DISABLE | SE_FUNCTION_SKIP_CONTINUE
  | SE_PIPELINE_CONTINUE | SE_PIPELINE_HALT | SE_PIPELINE_TERMINATE | SE_PIPELINE_RESET
  | SE_PIPELINE_DISABLE | SE_PIPELINE_SKIP_CONTINUE
  | SE_OTHER nat

fun rnum :: "s_expr_result \<Rightarrow> nat" where
  "rnum SE_CONTINUE = 0"
| "rnum SE_HALT = 1"
| "rnum SE_TERMINATE = 2"
| "rnum SE_RESET = 3"
| "rnum SE_DISABLE = 4"
| "rnum SE_SKIP_CONTINUE = 5"
| "rnum SE_FUNCTION_CONTINUE = 6"
| "rnum SE_FUNCTION_HALT = 7"
| "rnum SE_FUNCTION_TERMINATE = 8"
| "rnum SE_FUNCTION_RESET = 9"
| "rnum SE_FUNCTION_DISABLE = 10"
| "rnum SE_FUNCTION_SKIP_CONTINUE = 11"
| "rnum SE_PIPELINE_CONTINUE = 12"
| "rnum SE_PIPELINE_HALT = 13"
| "rnum SE_PIPELINE_TERMINATE = 14"
| "rnum SE_PIPELINE_RESET = 15"
| "rnum SE_PIPELINE_DISABLE = 16"
| "rnum SE_PIPELINE_SKIP_CONTINUE = 17"
| "rnum (SE_OTHER n) = 18 + n"

text \<open>A cast of an integer to the enumeration.\<close>

definition result_of :: "nat \<Rightarrow> s_expr_result" where
  "result_of n =
     (if n < 18 then
        [SE_CONTINUE, SE_HALT, SE_TERMINATE, SE_RESET, SE_DISABLE, SE_SKIP_CONTINUE,
         SE_FUNCTION_CONTINUE, SE_FUNCTION_HALT, SE_FUNCTION_TERMINATE, SE_FUNCTION_RESET,
         SE_FUNCTION_DISABLE, SE_FUNCTION_SKIP_CONTINUE,
         SE_PIPELINE_CONTINUE, SE_PIPELINE_HALT, SE_PIPELINE_TERMINATE, SE_PIPELINE_RESET,
         SE_PIPELINE_DISABLE, SE_PIPELINE_SKIP_CONTINUE] ! n
      else SE_OTHER (n - 18))"

text \<open>The comparison \<open>r < SE_PIPELINE_CONTINUE\<close> that every composite node starts with.\<close>

definition below_pipeline :: "s_expr_result \<Rightarrow> bool" where
  "below_pipeline r = (rnum r < rnum SE_PIPELINE_CONTINUE)"

lemma result_of_rnum [simp]: "result_of (rnum r) = r"
  by (cases r) (simp_all add: result_of_def)

lemma rnum_inject [simp]: "rnum r = rnum r' \<longleftrightarrow> r = r'"
  by (metis result_of_rnum)

lemma below_pipeline_simps [simp]:
  "below_pipeline SE_CONTINUE" "below_pipeline SE_HALT" "below_pipeline SE_TERMINATE"
  "below_pipeline SE_RESET" "below_pipeline SE_DISABLE" "below_pipeline SE_SKIP_CONTINUE"
  "below_pipeline SE_FUNCTION_CONTINUE" "below_pipeline SE_FUNCTION_HALT"
  "below_pipeline SE_FUNCTION_TERMINATE" "below_pipeline SE_FUNCTION_RESET"
  "below_pipeline SE_FUNCTION_DISABLE" "below_pipeline SE_FUNCTION_SKIP_CONTINUE"
  "\<not> below_pipeline SE_PIPELINE_CONTINUE" "\<not> below_pipeline SE_PIPELINE_HALT"
  "\<not> below_pipeline SE_PIPELINE_TERMINATE" "\<not> below_pipeline SE_PIPELINE_RESET"
  "\<not> below_pipeline SE_PIPELINE_DISABLE" "\<not> below_pipeline SE_PIPELINE_SKIP_CONTINUE"
  "\<not> below_pipeline (SE_OTHER n)"
  by (simp_all add: below_pipeline_def)

section \<open>Events\<close>

datatype s_expr_event_type = SE_EVENT_TICK | SE_EVENT_INIT | SE_EVENT_TERMINATE

text \<open>The number of the tick event, to which some functions compare the 16-bit event id.\<close>

abbreviation SE_EVENT_TICK_ID :: nat where
  "SE_EVENT_TICK_ID \<equiv> 4"

text \<open>A \<open>void *\<close> handed through the engine, never followed by it; 0 is \<open>NULL\<close>.\<close>

type_synonym cptr = nat

section \<open>Parameters\<close>

record s_expr_param =
  p_type :: "8 word"
  index_to_pointer :: "8 word"
  p_union :: "32 word"

text \<open>The members of the union, as the little-endian targets lay them out.\<close>

definition brace_idx :: "s_expr_param \<Rightarrow> nat" where
  "brace_idx p = unat (p_union p) mod 65536"

definition node_index :: "s_expr_param \<Rightarrow> nat" where
  "node_index p = unat (p_union p) mod 65536"

definition func_index :: "s_expr_param \<Rightarrow> nat" where
  "func_index p = unat (p_union p) div 65536"

definition field_offset :: "s_expr_param \<Rightarrow> nat" where
  "field_offset p = unat (p_union p) mod 65536"

definition field_size :: "s_expr_param \<Rightarrow> nat" where
  "field_size p = unat (p_union p) div 65536"

definition int_val :: "s_expr_param \<Rightarrow> int" where
  "int_val p = sint (p_union p)"

definition uint_val :: "s_expr_param \<Rightarrow> nat" where
  "uint_val p = unat (p_union p)"

abbreviation S_EXPR_PARAM_INT :: "8 word" where "S_EXPR_PARAM_INT \<equiv> 0x00"
abbreviation S_EXPR_PARAM_UINT :: "8 word" where "S_EXPR_PARAM_UINT \<equiv> 0x01"
abbreviation S_EXPR_PARAM_FLOAT :: "8 word" where "S_EXPR_PARAM_FLOAT \<equiv> 0x02"
abbreviation S_EXPR_PARAM_STR_HASH :: "8 word" where "S_EXPR_PARAM_STR_HASH \<equiv> 0x03"
abbreviation S_EXPR_PARAM_SLOT :: "8 word" where "S_EXPR_PARAM_SLOT \<equiv> 0x04"
abbreviation S_EXPR_PARAM_OPEN :: "8 word" where "S_EXPR_PARAM_OPEN \<equiv> 0x05"
abbreviation S_EXPR_PARAM_CLOSE :: "8 word" where "S_EXPR_PARAM_CLOSE \<equiv> 0x06"
abbreviation S_EXPR_PARAM_OPEN_CALL :: "8 word" where "S_EXPR_PARAM_OPEN_CALL \<equiv> 0x07"
abbreviation S_EXPR_PARAM_ONESHOT :: "8 word" where "S_EXPR_PARAM_ONESHOT \<equiv> 0x08"
abbreviation S_EXPR_PARAM_MAIN :: "8 word" where "S_EXPR_PARAM_MAIN \<equiv> 0x09"
abbreviation S_EXPR_PARAM_PRED :: "8 word" where "S_EXPR_PARAM_PRED \<equiv> 0x0A"
abbreviation S_EXPR_PARAM_FIELD :: "8 word" where "S_EXPR_PARAM_FIELD \<equiv> 0x0B"
abbreviation S_EXPR_PARAM_RESULT :: "8 word" where "S_EXPR_PARAM_RESULT \<equiv> 0x0C"
abbreviation S_EXPR_PARAM_OPEN_DICT :: "8 word" where "S_EXPR_PARAM_OPEN_DICT \<equiv> 0x10"
abbreviation S_EXPR_PARAM_CLOSE_DICT :: "8 word" where "S_EXPR_PARAM_CLOSE_DICT \<equiv> 0x11"
abbreviation S_EXPR_PARAM_OPEN_KEY :: "8 word" where "S_EXPR_PARAM_OPEN_KEY \<equiv> 0x12"
abbreviation S_EXPR_PARAM_CLOSE_KEY :: "8 word" where "S_EXPR_PARAM_CLOSE_KEY \<equiv> 0x13"
abbreviation S_EXPR_PARAM_OPEN_ARRAY :: "8 word" where "S_EXPR_PARAM_OPEN_ARRAY \<equiv> 0x14"
abbreviation S_EXPR_PARAM_CLOSE_ARRAY :: "8 word" where "S_EXPR_PARAM_CLOSE_ARRAY \<equiv> 0x15"
abbreviation S_EXPR_PARAM_OPEN_TUPLE :: "8 word" where "S_EXPR_PARAM_OPEN_TUPLE \<equiv> 0x16"
abbreviation S_EXPR_PARAM_CLOSE_TUPLE :: "8 word" where "S_EXPR_PARAM_CLOSE_TUPLE \<equiv> 0x17"

abbreviation S_EXPR_FLAG_SURVIVES_RESET :: "8 word" where "S_EXPR_FLAG_SURVIVES_RESET \<equiv> 0x40"
abbreviation S_EXPR_FLAG_POINTER :: "8 word" where "S_EXPR_FLAG_POINTER \<equiv> 0x80"
abbreviation S_EXPR_OPCODE_MASK :: "8 word" where "S_EXPR_OPCODE_MASK \<equiv> 0x3F"

definition opcode :: "s_expr_param \<Rightarrow> 8 word" where
  "opcode p = p_type p AND S_EXPR_OPCODE_MASK"

definition has_pointer :: "s_expr_param \<Rightarrow> bool" where
  "has_pointer p = (p_type p AND S_EXPR_FLAG_POINTER \<noteq> 0)"

definition survives_reset :: "s_expr_param \<Rightarrow> bool" where
  "survives_reset p = (p_type p AND S_EXPR_FLAG_SURVIVES_RESET \<noteq> 0)"

text \<open>The structured opens that the navigation functions skip over as one logical parameter.\<close>

definition is_brace_open :: "s_expr_param \<Rightarrow> bool" where
  "is_brace_open p =
     (opcode p = S_EXPR_PARAM_OPEN \<or> opcode p = S_EXPR_PARAM_OPEN_CALL \<or>
      opcode p = S_EXPR_PARAM_OPEN_DICT \<or> opcode p = S_EXPR_PARAM_OPEN_ARRAY \<or>
      opcode p = S_EXPR_PARAM_OPEN_TUPLE \<or> opcode p = S_EXPR_PARAM_OPEN_KEY)"

lemma brace_idx_less [simp]: "brace_idx p < 65536"
  by (simp add: brace_idx_def)

lemma node_index_less [simp]: "node_index p < 65536"
  by (simp add: node_index_def)

lemma func_index_less: "func_index p < 65536"
proof -
  have "unat (p_union p) < 2 ^ LENGTH(32)" by (rule unsigned_less)
  then show ?thesis by (simp add: func_index_def less_mult_imp_div_less)
qed

section \<open>Slices of the parameter array\<close>

record slice =
  s_base :: "nat option"
  s_count :: nat

definition rd :: "s_expr_param list \<Rightarrow> slice \<Rightarrow> nat \<Rightarrow> s_expr_param res" where
  "rd P a i =
     (case s_base a of
        None \<Rightarrow> Trap (Fault ''read through a NULL params pointer'')
      | Some b \<Rightarrow>
          if b + i < length P then Ret (P ! (b + i))
          else Trap (Fault ''params read out of bounds''))"

lemma rd_Ret:
  "rd P a i = Ret p \<longleftrightarrow> (\<exists>b. s_base a = Some b \<and> b + i < length P \<and> p = P ! (b + i))"
  by (auto simp: rd_def split: option.splits)

text \<open>\<open>s_expr_find_result\<close>: the last \<open>RESULT\<close> parameter, else the last integer one.\<close>

fun find_last_res :: "(s_expr_param \<Rightarrow> bool) \<Rightarrow> s_expr_param list \<Rightarrow> slice \<Rightarrow> nat \<Rightarrow>
    s_expr_param option res" where
  "find_last_res q P a 0 = Ret None"
| "find_last_res q P a (Suc i) =
     res_bind (rd P a i) (\<lambda>p. if q p then Ret (Some p) else find_last_res q P a i)"

definition s_expr_find_result :: "s_expr_param list \<Rightarrow> slice \<Rightarrow> s_expr_result res" where
  "s_expr_find_result P a =
     (let n = (if s_count a \<le> 32768 then s_count a else 0) in
      res_bind (find_last_res (\<lambda>p. opcode p = S_EXPR_PARAM_RESULT) P a n) (\<lambda>r.
      case r of
        Some p \<Rightarrow> Ret (result_of (uint_val p))
      | None \<Rightarrow>
          res_bind (find_last_res
            (\<lambda>p. opcode p = S_EXPR_PARAM_INT \<or> opcode p = S_EXPR_PARAM_UINT) P a n) (\<lambda>r'.
          case r' of
            Some p \<Rightarrow> Ret (result_of (uint_val p))
          | None \<Rightarrow> Ret SE_CONTINUE)))"

section \<open>Kinds of a parameter\<close>

text \<open>
  The helpers that look at the parameter behind an \<open>OPEN_CALL\<close> (\<open>(param + 1)->type\<close>): the
  index names the parameter in its slice.
\<close>

definition param_kind_is :: "(8 word \<Rightarrow> bool) \<Rightarrow> s_expr_param list \<Rightarrow> slice \<Rightarrow> nat \<Rightarrow> bool res" where
  "param_kind_is k P a i =
     res_bind (rd P a i) (\<lambda>p.
       if k (opcode p) then Ret True
       else if opcode p = S_EXPR_PARAM_OPEN_CALL then
         res_bind (rd P a (i + 1)) (\<lambda>f. Ret (k (opcode f)))
       else Ret False)"

definition s_expr_param_is_predicate :: "s_expr_param list \<Rightarrow> slice \<Rightarrow> nat \<Rightarrow> bool res" where
  "s_expr_param_is_predicate = param_kind_is (\<lambda>c. c = S_EXPR_PARAM_PRED)"

definition s_expr_param_is_oneshot :: "s_expr_param list \<Rightarrow> slice \<Rightarrow> nat \<Rightarrow> bool res" where
  "s_expr_param_is_oneshot = param_kind_is (\<lambda>c. c = S_EXPR_PARAM_ONESHOT)"

definition s_expr_param_is_main :: "s_expr_param list \<Rightarrow> slice \<Rightarrow> nat \<Rightarrow> bool res" where
  "s_expr_param_is_main = param_kind_is (\<lambda>c. c = S_EXPR_PARAM_MAIN)"

definition s_expr_param_is_action :: "s_expr_param list \<Rightarrow> slice \<Rightarrow> nat \<Rightarrow> bool res" where
  "s_expr_param_is_action =
     param_kind_is (\<lambda>c. c = S_EXPR_PARAM_MAIN \<or> c = S_EXPR_PARAM_ONESHOT)"

section \<open>Node states\<close>

record s_expr_node_state =
  ns_flags :: "8 word"
  ns_state :: "8 word"
  ns_user_data :: "16 word"

abbreviation S_EXPR_NODE_FLAG_ACTIVE :: "8 word" where "S_EXPR_NODE_FLAG_ACTIVE \<equiv> 0x01"
abbreviation S_EXPR_NODE_FLAG_INITIALIZED :: "8 word" where "S_EXPR_NODE_FLAG_INITIALIZED \<equiv> 0x02"
abbreviation S_EXPR_NODE_FLAG_EVER_INIT :: "8 word" where "S_EXPR_NODE_FLAG_EVER_INIT \<equiv> 0x04"

text \<open>The three assignments that appear at every reset and at every clear.\<close>

definition ns_reset :: "s_expr_node_state \<Rightarrow> s_expr_node_state" where
  "ns_reset n = \<lparr> ns_flags = S_EXPR_NODE_FLAG_ACTIVE OR (ns_flags n AND S_EXPR_NODE_FLAG_EVER_INIT),
                  ns_state = 0, ns_user_data = 0 \<rparr>"

definition ns_clear :: s_expr_node_state where
  "ns_clear = \<lparr> ns_flags = 0, ns_state = 0, ns_user_data = 0 \<rparr>"

definition is_active :: "s_expr_node_state \<Rightarrow> bool" where
  "is_active n = (ns_flags n AND S_EXPR_NODE_FLAG_ACTIVE \<noteq> 0)"

definition is_initialized :: "s_expr_node_state \<Rightarrow> bool" where
  "is_initialized n = (ns_flags n AND S_EXPR_NODE_FLAG_INITIALIZED \<noteq> 0)"

definition is_ever_init :: "s_expr_node_state \<Rightarrow> bool" where
  "is_ever_init n = (ns_flags n AND S_EXPR_NODE_FLAG_EVER_INIT \<noteq> 0)"

lemma flag_bit:
  "((w :: 8 word) AND 1 \<noteq> 0) = bit w 0"
  "(w AND 2 \<noteq> 0) = bit w 1"
  "(w AND 4 \<noteq> 0) = bit w 2"
  using and_exp_eq_0_iff_not_bit [of w 0] and_exp_eq_0_iff_not_bit [of w 1]
    and_exp_eq_0_iff_not_bit [of w 2]
  by auto

lemma ns_flag_simps [simp]:
  "is_active (ns_reset n)" "\<not> is_initialized (ns_reset n)"
  "is_ever_init (ns_reset n) = is_ever_init n"
  "\<not> is_active ns_clear" "\<not> is_initialized ns_clear" "\<not> is_ever_init ns_clear"
  "ns_state (ns_reset n) = 0" "ns_user_data (ns_reset n) = 0"
  "ns_state ns_clear = 0" "ns_user_data ns_clear = 0"
  by (simp_all add: is_active_def is_initialized_def is_ever_init_def ns_reset_def ns_clear_def
        flag_bit bit_simps)

lemma ns_reset_idem [simp]: "ns_reset (ns_reset n) = ns_reset n"
  by (simp add: ns_reset_def bit_eq_iff bit_simps) auto

end
