(* ===== verification/SE_Nav.thy ===== *)
theory SE_Nav
  imports SE_Params
begin

text \<open>
  Navigation of the flat parameter array: skipping one logical parameter, counting and finding
  the logical children of a slice, the arguments of a call (\<open>s_engine_node.c\<close>,
  \<open>s_engine_module.h\<close>, \<open>s_engine_eval.c\<close>, \<open>s_engine_types.h\<close>). The abstract view is a list of
  trees (\<open>sexp\<close>); \<open>flat\<close> is the array the DSL compiler emits for them, and the lemmas say that
  the index arithmetic finds on the array what the list operations find on the trees.
\<close>

section \<open>The code\<close>

text \<open>
  A loop over a \<open>uint16_t\<close> index whose only state is the index cannot run for more than 65536
  iterations without repeating one, and then it never ends.
\<close>

definition nav_fuel :: nat where
  "nav_fuel = 65536"

definition skip_logical_param :: "s_expr_param list \<Rightarrow> slice \<Rightarrow> nat \<Rightarrow> nat res" where
  "skip_logical_param P a idx =
     res_bind (rd P a idx) (\<lambda>p.
       if is_brace_open p then Ret (u16 (idx + brace_idx p + 1)) else Ret (u16 (idx + 1)))"

text \<open>\<open>s_expr_skip_param\<close> of the builtins is the same function under another name.\<close>

definition s_expr_skip_param :: "s_expr_param list \<Rightarrow> slice \<Rightarrow> nat \<Rightarrow> nat res" where
  "s_expr_skip_param P a idx =
     res_bind (rd P a idx) (\<lambda>p.
       if is_brace_open p then Ret (u16 (idx + brace_idx p + 1)) else Ret (u16 (idx + 1)))"

lemma s_expr_skip_param_eq: "s_expr_skip_param = skip_logical_param"
  by (simp add: fun_eq_iff s_expr_skip_param_def skip_logical_param_def)

definition s_expr_child_count :: "s_expr_param list \<Rightarrow> slice \<Rightarrow> nat res" where
  "s_expr_child_count P a =
     (case s_base a of
        None \<Rightarrow>
          if s_count a > 0 then
            Trap (Exception ''s_expr_child_count: NULL params with non-zero count'')
          else Ret 0
      | Some b \<Rightarrow>
          res_bind (whileR nav_fuel (\<lambda>(count, idx). idx < s_count a)
            (\<lambda>(count, idx). res_bind (skip_logical_param P a idx) (\<lambda>j.
               Ret (Inl (u16 (count + 1), j)))) (0, 0))
            (\<lambda>r. case r of Inl (count, idx) \<Rightarrow> Ret count | Inr x \<Rightarrow> Ret x))"

definition s_expr_child_index :: "s_expr_param list \<Rightarrow> slice \<Rightarrow> nat \<Rightarrow> nat res" where
  "s_expr_child_index P a logical_index =
     (case s_base a of
        None \<Rightarrow>
          if s_count a > 0 then
            Trap (Exception ''s_expr_child_index: NULL params with non-zero count'')
          else Ret UINT16_MAX
      | Some b \<Rightarrow>
          res_bind (whileR nav_fuel (\<lambda>(current, idx). idx < s_count a)
            (\<lambda>(current, idx).
               if current = logical_index then Ret (Inr idx)
               else res_bind (skip_logical_param P a idx) (\<lambda>j.
                 Ret (Inl (u16 (current + 1), j)))) (0, 0))
            (\<lambda>r. case r of Inl _ \<Rightarrow> Ret UINT16_MAX | Inr idx \<Rightarrow> Ret idx))"

text \<open>\<open>s_expr_count_params\<close> and \<open>s_expr_find_param\<close> of the evaluator.\<close>

definition s_expr_count_params :: "s_expr_param list \<Rightarrow> slice \<Rightarrow> nat res" where
  "s_expr_count_params P a =
     (case s_base a of
        None \<Rightarrow>
          if s_count a > 0 then
            Trap (Exception ''s_expr_count_params: NULL params with non-zero count'')
          else Ret 0
      | Some b \<Rightarrow>
          res_bind (whileR nav_fuel (\<lambda>(count, idx). idx < s_count a)
            (\<lambda>(count, idx). res_bind (s_expr_skip_param P a idx) (\<lambda>j.
               Ret (Inl (u16 (count + 1), j)))) (0, 0))
            (\<lambda>r. case r of Inl (count, idx) \<Rightarrow> Ret count | Inr x \<Rightarrow> Ret x))"

definition s_expr_find_param :: "s_expr_param list \<Rightarrow> slice \<Rightarrow> 8 word \<Rightarrow> nat res" where
  "s_expr_find_param P a opc =
     (case s_base a of
        None \<Rightarrow>
          if s_count a > 0 then
            Trap (Exception ''s_expr_find_param: NULL params with non-zero count'')
          else Ret UINT16_MAX
      | Some b \<Rightarrow>
          res_bind (whileR nav_fuel (\<lambda>idx. idx < s_count a)
            (\<lambda>idx. res_bind (rd P a idx) (\<lambda>p.
               if opcode p = opc then Ret (Inr idx)
               else res_bind (s_expr_skip_param P a idx) (\<lambda>j. Ret (Inl j)))) 0)
            (\<lambda>r. case r of Inl _ \<Rightarrow> Ret UINT16_MAX | Inr idx \<Rightarrow> Ret idx))"

text \<open>The arguments of the call whose \<open>OPEN_CALL\<close> is at \<open>open_idx\<close>.\<close>

definition s_expr_call_args :: "s_expr_param list \<Rightarrow> slice \<Rightarrow> nat \<Rightarrow> slice res" where
  "s_expr_call_args P a open_idx =
     res_bind (rd P a open_idx) (\<lambda>p.
       let close_idx = u16 (open_idx + brace_idx p);
           n = (if close_idx > open_idx + 2 then close_idx - open_idx - 2 else 0)
       in Ret \<lparr> s_base = (if n > 0 then map_option (\<lambda>b. b + open_idx + 2) (s_base a) else None),
                s_count = n \<rparr>)"

text \<open>
  \<open>s_expr_skip_structure\<close>: the matching close of an open token, by its relative index; the
  array ends at \<open>s_count\<close>. \<open>None\<close> is the \<open>NULL\<close> it returns on an error.
\<close>

definition close_opcode_of :: "8 word \<Rightarrow> 8 word option" where
  "close_opcode_of c =
     (if c = S_EXPR_PARAM_OPEN \<or> c = S_EXPR_PARAM_OPEN_CALL then Some S_EXPR_PARAM_CLOSE
      else if c = S_EXPR_PARAM_OPEN_DICT then Some S_EXPR_PARAM_CLOSE_DICT
      else if c = S_EXPR_PARAM_OPEN_KEY then Some S_EXPR_PARAM_CLOSE_KEY
      else if c = S_EXPR_PARAM_OPEN_ARRAY then Some S_EXPR_PARAM_CLOSE_ARRAY
      else if c = S_EXPR_PARAM_OPEN_TUPLE then Some S_EXPR_PARAM_CLOSE_TUPLE
      else None)"

definition s_expr_skip_structure :: "s_expr_param list \<Rightarrow> slice \<Rightarrow> nat \<Rightarrow> nat option res" where
  "s_expr_skip_structure P a i =
     (if s_base a = None \<or> i \<ge> s_count a then Ret None
      else res_bind (rd P a i) (\<lambda>p.
        case close_opcode_of (opcode p) of
          None \<Rightarrow> Ret None
        | Some c \<Rightarrow>
            let j = i + brace_idx p in
            if j < s_count a then
              res_bind (rd P a j) (\<lambda>q. Ret (if opcode q = c then Some j else None))
            else Ret None))"

text \<open>\<open>s_expr_array_get\<close>: the element of an array by its logical index.\<close>

definition s_expr_array_get :: "s_expr_param list \<Rightarrow> slice \<Rightarrow> nat \<Rightarrow> nat \<Rightarrow> nat option res" where
  "s_expr_array_get P a i index =
     (if s_base a = None \<or> i \<ge> s_count a then Ret None
      else res_bind (rd P a i) (\<lambda>p.
        if opcode p \<noteq> S_EXPR_PARAM_OPEN_ARRAY then Ret None
        else res_bind (s_expr_skip_structure P a i) (\<lambda>e.
          case e of
            None \<Rightarrow> Ret None
          | Some array_end \<Rightarrow>
              res_bind (whileR nav_fuel (\<lambda>(q, current). q < array_end)
                (\<lambda>(q, current).
                   if current = index then Ret (Inr (Some q))
                   else res_bind (rd P a q) (\<lambda>x.
                     if is_brace_open x then
                       res_bind (s_expr_skip_structure P a q) (\<lambda>z.
                         case z of None \<Rightarrow> Ret (Inr None)
                         | Some q' \<Rightarrow> Ret (Inl (q' + 1, u16 (current + 1))))
                     else Ret (Inl (q + 1, u16 (current + 1))))) (i + 1, 0))
                (\<lambda>r. case r of Inl _ \<Rightarrow> Ret None | Inr z \<Rightarrow> Ret z))))"

section \<open>The trees an array stands for\<close>

datatype sexp = Atom s_expr_param | Brace s_expr_param "sexp list" s_expr_param

fun flat :: "sexp \<Rightarrow> s_expr_param list" where
  "flat (Atom p) = [p]"
| "flat (Brace opn xs cls) = opn # concat (map flat xs) @ [cls]"

definition flats :: "sexp list \<Rightarrow> s_expr_param list" where
  "flats xs = concat (map flat xs)"

fun wf_sexp :: "sexp \<Rightarrow> bool" where
  "wf_sexp (Atom p) = (\<not> is_brace_open p)"
| "wf_sexp (Brace opn xs cls) =
     (is_brace_open opn \<and> \<not> is_brace_open cls \<and>
      brace_idx opn = Suc (length (concat (map flat xs))) \<and> list_all wf_sexp xs)"

lemma flats_simps [simp]: "flats [] = []" "flats (x # xs) = flat x @ flats xs"
  "flats (xs @ ys) = flats xs @ flats ys"
  by (simp_all add: flats_def)

lemma flat_not_Nil [simp]: "flat x \<noteq> []"
  by (cases x) auto

lemma length_flat_pos [simp]: "0 < length (flat x)"
  by simp

lemma length_le_flats: "length xs \<le> length (flats xs)"
  by (induction xs) (auto simp: Suc_le_eq intro: add_strict_increasing)

lemma flats_Nil_iff [simp]: "flats xs = [] \<longleftrightarrow> xs = []"
  by (cases xs) auto

text \<open>A slice of the array \<open>P\<close> holds exactly the trees \<open>xs\<close>.\<close>

definition holds :: "s_expr_param list \<Rightarrow> slice \<Rightarrow> sexp list \<Rightarrow> bool" where
  "holds P a xs =
     (list_all wf_sexp xs \<and> s_count a = length (flats xs) \<and> s_count a < 65536 \<and>
      (case s_base a of
         None \<Rightarrow> xs = []
       | Some b \<Rightarrow> \<exists>pre post. P = pre @ flats xs @ post \<and> length pre = b))"

lemma holdsI:
  "list_all wf_sexp xs \<Longrightarrow> P = pre @ flats xs @ post \<Longrightarrow> length (flats xs) < 65536 \<Longrightarrow>
   holds P \<lparr> s_base = Some (length pre), s_count = length (flats xs) \<rparr> xs"
  unfolding holds_def by (simp, blast)

lemma holds_rd:
  assumes "holds P a xs" "i < length (flats xs)"
  shows "rd P a i = Ret (flats xs ! i)"
  using assms by (auto simp: holds_def rd_def nth_append split: option.splits)

lemma holds_skip:
  assumes "holds P a (ys @ x # zs)"
  shows "skip_logical_param P a (length (flats ys)) = Ret (length (flats ys) + length (flat x))"
proof -
  have r: "rd P a (length (flats ys)) = Ret (flat x ! 0)"
    using holds_rd [OF assms, of "length (flats ys)"] by (simp add: nth_append)
  have b: "length (flats ys) + length (flat x) < 65536" and w: "wf_sexp x"
    using assms by (auto simp: holds_def)
  show ?thesis
    by (cases x) (use r b w in \<open>auto simp: skip_logical_param_def u16_id\<close>)
qed

section \<open>Counting and finding children\<close>

lemma count_loop:
  assumes "holds P a (ys @ zs)" "length zs \<le> n"
  shows "whileR n (\<lambda>(count, idx). idx < s_count a)
      (\<lambda>(count, idx). res_bind (skip_logical_param P a idx) (\<lambda>j.
         Ret (Inl (u16 (count + 1), j) :: (nat \<times> nat) + 'r))) (length ys, length (flats ys))
    = Ret (Inl (length ys + length zs, length (flats (ys @ zs))))"
  using assms
proof (induction zs arbitrary: ys n)
  case Nil
  then show ?case by (simp add: whileR_stop holds_def)
next
  case (Cons z zs)
  have sk: "skip_logical_param P a (length (flats ys)) = Ret (length (flats (ys @ [z])))"
    using holds_skip [OF Cons.prems(1)] by simp
  have lt: "length (flats ys) < s_count a" using Cons.prems(1) by (auto simp: holds_def)
  have "length (ys @ z # zs) < 65536"
    using Cons.prems(1) length_le_flats [of "ys @ z # zs"] by (auto simp: holds_def)
  then have u: "u16 (length ys + 1) = length (ys @ [z])" by (simp add: u16_id)
  have "holds P a ((ys @ [z]) @ zs)" using Cons.prems(1) by simp
  from Cons.IH [OF this, of "n - 1"] Cons.prems(2) lt sk u
  show ?case by (subst whileR_step) auto
qed

lemma child_count_holds:
  assumes "holds P a xs"
  shows "s_expr_child_count P a = Ret (length xs)"
proof (cases "s_base a")
  case None
  then show ?thesis using assms by (auto simp: s_expr_child_count_def holds_def)
next
  case (Some b)
  have "length xs \<le> nav_fuel"
    using assms length_le_flats [of xs] by (simp add: holds_def nav_fuel_def)
  then show ?thesis
    using count_loop [where 'r = nat, of P a "[]" xs nav_fuel] assms Some
    by (simp add: s_expr_child_count_def del: res_bind_Ret_iff)
qed

lemma index_loop:
  assumes "holds P a (ys @ zs)" "length zs \<le> n"
  shows "whileR n (\<lambda>(current, idx). idx < s_count a)
      (\<lambda>(current, idx).
         if current = length ys + k then Ret (Inr idx)
         else res_bind (skip_logical_param P a idx) (\<lambda>j.
           Ret (Inl (u16 (current + 1), j)))) (length ys, length (flats ys))
    = Ret (if k < length zs then Inr (length (flats (ys @ take k zs)))
           else Inl (length ys + length zs, length (flats (ys @ zs))))"
  using assms
proof (induction zs arbitrary: ys n k)
  case Nil
  then show ?case by (simp add: whileR_stop holds_def)
next
  case (Cons z zs)
  have sk: "skip_logical_param P a (length (flats ys)) = Ret (length (flats (ys @ [z])))"
    using holds_skip [OF Cons.prems(1)] by simp
  have lt: "length (flats ys) < s_count a" using Cons.prems(1) by (auto simp: holds_def)
  have "length (ys @ z # zs) < 65536"
    using Cons.prems(1) length_le_flats [of "ys @ z # zs"] by (auto simp: holds_def)
  then have u: "u16 (length ys + 1) = length (ys @ [z])" by (simp add: u16_id)
  have h: "holds P a ((ys @ [z]) @ zs)" using Cons.prems(1) by simp
  show ?case
  proof (cases k)
    case 0
    with lt Cons.prems(2) show ?thesis by (subst whileR_exit) auto
  next
    case (Suc k')
    with Cons.IH [OF h, of "n - 1" k'] Cons.prems(2) lt sk u
    show ?thesis by (subst whileR_step) auto
  qed
qed

lemma child_index_holds:
  assumes "holds P a xs"
  shows "s_expr_child_index P a k =
    Ret (if k < length xs then length (flats (take k xs)) else UINT16_MAX)"
proof (cases "s_base a")
  case None
  then show ?thesis using assms by (auto simp: s_expr_child_index_def holds_def)
next
  case (Some b)
  have "length xs \<le> nav_fuel"
    using assms length_le_flats [of xs] by (simp add: holds_def nav_fuel_def)
  then show ?thesis
    using index_loop [of P a "[]" xs nav_fuel k] assms Some
    by (simp add: s_expr_child_index_def del: res_bind_Ret_iff)
qed

text \<open>The arguments of a call: the inside of its braces without the function reference.\<close>

lemma holds_inside:
  assumes "holds P a (ys @ Brace opn (Atom f # args) cls # zs)"
  shows "\<exists>a'. s_expr_call_args P a (length (flats ys)) = Ret a' \<and> holds P a' args"
proof -
  let ?x = "Brace opn (Atom f # args) cls"
  from assms obtain pre post b where b: "s_base a = Some b" "length pre = b"
    and P: "P = pre @ flats (ys @ ?x # zs) @ post"
    by (auto simp: holds_def split: option.splits)
  have r: "rd P a (length (flats ys)) = Ret opn"
    using holds_rd [OF assms, of "length (flats ys)"] by (simp add: nth_append)
  have w: "brace_idx opn = length (flats args) + 2" "list_all wf_sexp args"
    and l: "length (flats ys) + length (flats args) + 3 < 65536"
    using assms by (auto simp: holds_def flats_def)
  then have "u16 (length (flats ys) + brace_idx opn) = length (flats ys) + length (flats args) + 2"
    by (simp add: u16_id)
  then have ca: "s_expr_call_args P a (length (flats ys)) =
      Ret (if args = [] then \<lparr> s_base = None, s_count = 0 \<rparr>
           else \<lparr> s_base = Some (length (pre @ flats ys @ [opn, f])), s_count = length (flats args) \<rparr>)"
    using r b by (simp add: s_expr_call_args_def Let_def)
  have "P = (pre @ flats ys @ [opn, f]) @ flats args @ (cls # flats zs @ post)"
    using P by (simp add: flats_def)
  with w l have "holds P \<lparr> s_base = Some (length (pre @ flats ys @ [opn, f])),
      s_count = length (flats args) \<rparr> args"
    by (intro holdsI) auto
  moreover have "holds P \<lparr> s_base = None, s_count = 0 \<rparr> []" by (simp add: holds_def)
  ultimately show ?thesis using ca by auto
qed

end
