(* ===== verification/Fifo.thy ===== *)
theory Fifo
  imports Prelude
begin

text \<open>
  The queue interface the firmware relies on in four places: the event queue of a tree
  instance (\<open>s_engine_event_queue.c\<close>), the event queue of the AVR engine (\<open>cfl_engine.c\<close>),
  the byte ring under the frame codec (\<open>frame.c\<close>) and the per-slave command queue of the bus
  controller (\<open>cmd_tracker.c\<close>). All four keep their elements in a ring of fixed capacity.
  \<open>ring_list\<close> is the list a ring stands for; the locale \<open>bounded_fifo\<close> is the contract, whose
  consequence for clients is that every element comes out once and in the order it went in.
\<close>

section \<open>The list a ring holds\<close>

definition ring_list :: "'a list \<Rightarrow> nat \<Rightarrow> nat \<Rightarrow> 'a list" where
  "ring_list buf h n = map (\<lambda>i. buf ! ((h + i) mod length buf)) [0..<n]"

lemma length_ring_list [simp]: "length (ring_list buf h n) = n"
  by (simp add: ring_list_def)

lemma ring_list_0 [simp]: "ring_list buf h 0 = []"
  by (simp add: ring_list_def)

lemma mod_add_inj:
  fixes h :: nat
  assumes "i < N" "j < N" "(h + i) mod N = (h + j) mod N"
  shows "i = j"
proof -
  have "int (h + i) mod int N = int (h + j) mod int N"
    using assms(3) by (metis zmod_int)
  then have "int N dvd int i - int j" by (simp add: mod_eq_dvd_iff)
  moreover have "\<bar>int i - int j\<bar> < int N" using assms(1,2) by linarith
  ultimately show ?thesis using dvd_imp_le_int [of "int i - int j" "int N"] by fastforce
qed

lemma ring_list_push:
  assumes "n < length buf"
  shows "ring_list (buf[(h + n) mod length buf := x]) h (Suc n) = ring_list buf h n @ [x]"
proof -
  let ?N = "length buf"
  have "(h + n) mod ?N < ?N" using assms by (intro mod_less_divisor) linarith
  moreover have "(h + n) mod ?N \<noteq> (h + i) mod ?N" if "i < n" for i
    using mod_add_inj [of i ?N n h] that assms by auto
  ultimately show ?thesis by (auto simp: ring_list_def nth_list_update_neq)
qed

lemma ring_list_pop:
  assumes "h < length buf"
  shows "ring_list buf h (Suc n) = buf ! h # ring_list buf ((h + 1) mod length buf) n"
proof -
  have "ring_list buf h (Suc n)
      = buf ! (h mod length buf) # map (\<lambda>i. buf ! ((h + Suc i) mod length buf)) [0..<n]"
    unfolding ring_list_def by (simp add: upt_conv_Cons map_Suc_upt [symmetric] del: upt_Suc)
  moreover have "(h + Suc i) mod length buf = ((h + 1) mod length buf + i) mod length buf" for i
    by (simp add: mod_simps)
  ultimately show ?thesis using assms by (simp add: ring_list_def)
qed

section \<open>The contract\<close>

locale bounded_fifo =
  fixes cap :: nat
    and inv :: "'q \<Rightarrow> bool"
    and elems :: "'q \<Rightarrow> 'a list"
    and push :: "'a \<Rightarrow> 'q \<Rightarrow> 'q option"
    and pop :: "'q \<Rightarrow> ('a \<times> 'q) option"
  assumes elems_bound: "inv q \<Longrightarrow> length (elems q) \<le> cap"
    and push_room: "inv q \<Longrightarrow> length (elems q) < cap \<Longrightarrow>
      \<exists>q'. push x q = Some q' \<and> inv q' \<and> elems q' = elems q @ [x]"
    and push_full: "inv q \<Longrightarrow> length (elems q) = cap \<Longrightarrow> push x q = None"
    and pop_empty: "inv q \<Longrightarrow> elems q = [] \<Longrightarrow> pop q = None"
    and pop_cons: "inv q \<Longrightarrow> elems q = x # xs \<Longrightarrow>
      \<exists>q'. pop q = Some (x, q') \<and> inv q' \<and> elems q' = xs"
begin

text \<open>A client run: \<open>Inl x\<close> pushes \<open>x\<close>, \<open>Inr ()\<close> pops; a refused operation stops the run.\<close>

fun fifo_run :: "('a + unit) list \<Rightarrow> 'q \<Rightarrow> ('a list \<times> 'q) option" where
  "fifo_run [] q = Some ([], q)"
| "fifo_run (Inl x # ops) q = (case push x q of None \<Rightarrow> None | Some q' \<Rightarrow> fifo_run ops q')"
| "fifo_run (Inr u # ops) q =
     (case pop q of None \<Rightarrow> None
      | Some (y, q') \<Rightarrow> map_option (\<lambda>(ys, q''). (y # ys, q'')) (fifo_run ops q'))"

fun pushed :: "('a + unit) list \<Rightarrow> 'a list" where
  "pushed [] = []"
| "pushed (Inl x # ops) = x # pushed ops"
| "pushed (Inr u # ops) = pushed ops"

lemma push_inv: "inv q \<Longrightarrow> push x q = Some q' \<Longrightarrow> inv q' \<and> elems q' = elems q @ [x]"
  using push_room [of q x] push_full [of q x] elems_bound [of q] by fastforce

lemma pop_inv: "inv q \<Longrightarrow> pop q = Some (y, q') \<Longrightarrow> inv q' \<and> elems q = y # elems q'"
  using pop_empty [of q] pop_cons [of q] by (cases "elems q") fastforce+

lemma push_Some_iff: "inv q \<Longrightarrow> (\<exists>q'. push x q = Some q') = (length (elems q) < cap)"
  using push_room [of q x] push_full [of q x] elems_bound [of q] by fastforce

lemma pop_Some_iff: "inv q \<Longrightarrow> (\<exists>y q'. pop q = Some (y, q')) = (elems q \<noteq> [])"
  using pop_empty [of q] pop_cons [of q] by (cases "elems q") fastforce+

text \<open>Everything that comes out, followed by what is left, is what was there and what went in.\<close>

lemma fifo_order:
  "inv q \<Longrightarrow> fifo_run ops q = Some (out, q') \<Longrightarrow>
     inv q' \<and> out @ elems q' = elems q @ pushed ops"
proof (induction ops q arbitrary: out rule: fifo_run.induct)
  case (2 x ops q)
  then show ?case by (fastforce split: option.splits dest: push_inv)
next
  case (3 u ops q)
  then show ?case by (fastforce split: option.splits dest: pop_inv)
qed simp

lemma fifo_run_bound:
  "inv q \<Longrightarrow> fifo_run ops q = Some (out, q') \<Longrightarrow> length (elems q') \<le> cap"
  using fifo_order elems_bound by blast

text \<open>A burst of pushes that fits is accepted whole.\<close>

lemma fifo_burst:
  "inv q \<Longrightarrow> length (elems q) + length xs \<le> cap \<Longrightarrow>
     \<exists>q'. fifo_run (map Inl xs) q = Some ([], q') \<and> inv q' \<and> elems q' = elems q @ xs"
proof (induction xs arbitrary: q)
  case (Cons x xs)
  then obtain q1 where "push x q = Some q1" "inv q1" "elems q1 = elems q @ [x]"
    using push_room [of q x] by fastforce
  moreover with Cons have "length (elems q1) + length xs \<le> cap" by simp
  ultimately show ?case using Cons.IH [of q1] by auto
qed simp

text \<open>Draining returns exactly the stored elements, oldest first.\<close>

lemma fifo_drain:
  "inv q \<Longrightarrow> \<exists>q'. fifo_run (replicate (length (elems q)) (Inr ())) q = Some (elems q, q')
     \<and> inv q' \<and> elems q' = []"
proof (induction "elems q" arbitrary: q)
  case (Cons x xs)
  then obtain q1 where "pop q = Some (x, q1)" "inv q1" "elems q1 = xs"
    using pop_cons [of q x xs] by metis
  with Cons.hyps(1) [of q1] Cons.hyps(2) show ?case by (auto simp flip: Cons.hyps(2))
qed auto

end

end
