(* ===== verification/SE_Queue.thy ===== *)
theory SE_Queue
  imports Fifo SE_Params
begin

text \<open>
  The event queue of a tree instance (\<open>s_engine_event_queue.c\<close>): sixteen slots, a head and a
  count, the tail computed from them. Overflow and underflow are an \<open>EXCEPTION\<close>. The queue
  fields of \<open>s_expr_tree_instance_t\<close> are the record \<open>evq\<close>, a part of the instance record.
\<close>

section \<open>The code\<close>

abbreviation S_EXPR_EVENT_QUEUE_SIZE :: nat where "S_EXPR_EVENT_QUEUE_SIZE \<equiv> 16"

record s_expr_queued_event =
  q_tick_type :: nat
  q_event_id :: nat
  q_event_data :: cptr

record evq =
  event_queue :: "s_expr_queued_event list"
  event_queue_head :: nat
  event_queue_count :: nat

definition s_expr_event_queue_init :: "(evq, unit) act" where
  "s_expr_event_queue_init = modA (\<lambda>q. q \<lparr> event_queue_head := 0, event_queue_count := 0 \<rparr>)"

definition s_expr_event_queue_destroy :: "(evq, unit) act" where
  "s_expr_event_queue_destroy = modA (\<lambda>q. q \<lparr> event_queue_head := 0, event_queue_count := 0 \<rparr>)"

definition s_expr_event_queue_count :: "(evq, nat) act" where
  "s_expr_event_queue_count = getA event_queue_count"

definition s_expr_event_push :: "nat \<Rightarrow> nat \<Rightarrow> cptr \<Rightarrow> (evq, unit) act" where
  "s_expr_event_push tick_type event_id event_data = (\<lambda>q.
     if event_queue_count q \<ge> S_EXPR_EVENT_QUEUE_SIZE then
       Trap (Exception ''s_expr_event_push: queue full'')
     else
       let tail = (event_queue_head q + event_queue_count q) mod S_EXPR_EVENT_QUEUE_SIZE in
       if tail < length (event_queue q) then
         Ret ((), q \<lparr> event_queue := (event_queue q)[tail := \<lparr> q_tick_type = tick_type,
                        q_event_id = event_id, q_event_data = event_data \<rparr>],
                      event_queue_count := event_queue_count q + 1 \<rparr>)
       else Trap (Fault ''event_queue written out of bounds''))"

definition s_expr_event_pop :: "(evq, s_expr_queued_event) act" where
  "s_expr_event_pop = (\<lambda>q.
     if event_queue_count q = 0 then Trap (Exception ''s_expr_event_pop: queue empty'')
     else if event_queue_head q < length (event_queue q) then
       Ret (event_queue q ! event_queue_head q,
            q \<lparr> event_queue_head := (event_queue_head q + 1) mod S_EXPR_EVENT_QUEUE_SIZE,
                event_queue_count := event_queue_count q - 1 \<rparr>)
     else Trap (Fault ''event_queue read out of bounds''))"

definition s_expr_event_queue_clear :: "(evq, unit) act" where
  "s_expr_event_queue_clear = modA (\<lambda>q. q \<lparr> event_queue_head := 0, event_queue_count := 0 \<rparr>)"

section \<open>The queue as a bounded FIFO\<close>

definition evq_ok :: "evq \<Rightarrow> bool" where
  "evq_ok q = (length (event_queue q) = S_EXPR_EVENT_QUEUE_SIZE \<and>
     event_queue_head q < S_EXPR_EVENT_QUEUE_SIZE \<and> event_queue_count q \<le> S_EXPR_EVENT_QUEUE_SIZE)"

definition evq_elems :: "evq \<Rightarrow> s_expr_queued_event list" where
  "evq_elems q = ring_list (event_queue q) (event_queue_head q) (event_queue_count q)"

text \<open>The operations with the EXCEPTION as a refusal.\<close>

definition evq_push :: "s_expr_queued_event \<Rightarrow> evq \<Rightarrow> evq option" where
  "evq_push e q = (case s_expr_event_push (q_tick_type e) (q_event_id e) (q_event_data e) q of
     Ret (u, q') \<Rightarrow> Some q' | _ \<Rightarrow> None)"

definition evq_pop :: "evq \<Rightarrow> (s_expr_queued_event \<times> evq) option" where
  "evq_pop q = (case s_expr_event_pop q of Ret r \<Rightarrow> Some r | _ \<Rightarrow> None)"

lemma event_push_room:
  assumes "evq_ok q" "event_queue_count q < S_EXPR_EVENT_QUEUE_SIZE"
  shows "\<exists>q'. s_expr_event_push t i d q = Ret ((), q') \<and> evq_ok q' \<and>
    evq_elems q' = evq_elems q @ [\<lparr> q_tick_type = t, q_event_id = i, q_event_data = d \<rparr>]"
  using assms ring_list_push [of "event_queue_count q" "event_queue q" "event_queue_head q"]
  by (auto simp: s_expr_event_push_def evq_ok_def evq_elems_def Let_def)

lemma event_pop_cons:
  assumes "evq_ok q" "evq_elems q = x # xs"
  shows "\<exists>q'. s_expr_event_pop q = Ret (x, q') \<and> evq_ok q' \<and> evq_elems q' = xs"
proof -
  obtain n where n: "event_queue_count q = Suc n"
    using assms by (cases "event_queue_count q") (auto simp: evq_elems_def)
  have "ring_list (event_queue q) (event_queue_head q) (Suc n) =
      event_queue q ! event_queue_head q #
      ring_list (event_queue q) ((event_queue_head q + 1) mod length (event_queue q)) n"
    by (rule ring_list_pop) (use assms in \<open>simp add: evq_ok_def\<close>)
  then show ?thesis
    using assms n by (auto simp: s_expr_event_pop_def evq_ok_def evq_elems_def)
qed

interpretation event_fifo: bounded_fifo S_EXPR_EVENT_QUEUE_SIZE evq_ok evq_elems evq_push evq_pop
proof (unfold_locales, goal_cases)
  case (1 q)
  then show ?case by (simp add: evq_elems_def evq_ok_def)
next
  case (2 q x)
  then have "event_queue_count q < S_EXPR_EVENT_QUEUE_SIZE" by (simp add: evq_elems_def)
  from event_push_room [OF 2(1) this, of "q_tick_type x" "q_event_id x" "q_event_data x"]
  show ?case by (auto simp: evq_push_def)
next
  case (3 q x)
  then show ?case by (simp add: evq_push_def s_expr_event_push_def evq_elems_def)
next
  case (4 q)
  then have "event_queue_count q = 0"
    by (metis evq_elems_def length_0_conv length_ring_list)
  then show ?case by (simp add: evq_pop_def s_expr_event_pop_def)
next
  case (5 q x xs)
  from event_pop_cons [OF this] show ?case by (auto simp: evq_pop_def)
qed

section \<open>Properties\<close>

definition empty_evq :: evq where
  "empty_evq = \<lparr> event_queue = replicate 16 \<lparr> q_tick_type = 0, q_event_id = 0, q_event_data = 0 \<rparr>,
     event_queue_head = 15, event_queue_count = 0 \<rparr>"

lemma empty_evq_ok [simp]: "evq_ok empty_evq" "evq_elems empty_evq = []"
  by (simp_all add: evq_ok_def empty_evq_def evq_elems_def)

text \<open>
  The tree event queue is first-in first-out across the wrap of its ring: over any run of
  pushes and pops that none refuses, what came out followed by what is left is what was
  queued at the start followed by what was pushed; and the queue never holds more than
  sixteen events.
\<close>

theorem event_queue_fifo:
  assumes "evq_ok q" "event_fifo.fifo_run ops q = Some (out, q')"
  shows "evq_ok q' \<and> out @ evq_elems q' = evq_elems q @ event_fifo.pushed ops \<and>
    length (evq_elems q') \<le> 16"
  using event_fifo.fifo_order [OF assms] event_fifo.fifo_run_bound [OF assms] by blast

definition demo_event :: "nat \<Rightarrow> s_expr_queued_event" where
  "demo_event k = \<lparr> q_tick_type = 0, q_event_id = k, q_event_data = 0 \<rparr>"

theorem event_queue_fifo_witness:
  "\<exists>out q'. event_fifo.fifo_run [Inl (demo_event 1), Inl (demo_event 2), Inr ()] empty_evq = Some (out, q') \<and>
     out @ evq_elems q' = [demo_event 1, demo_event 2]"
proof -
  have "\<exists>out q'. event_fifo.fifo_run [Inl (demo_event 1), Inl (demo_event 2), Inr ()] empty_evq = Some (out, q')"
    by (simp add: evq_push_def evq_pop_def s_expr_event_push_def s_expr_event_pop_def empty_evq_def Let_def)
  then show ?thesis
    using event_queue_fifo [OF empty_evq_ok(1), of "[Inl (demo_event 1), Inl (demo_event 2), Inr ()]"] by fastforce
qed

end
