(* ===== verification/SE_Stack.thy ===== *)
theory SE_Stack
  imports SE_Params
begin

text \<open>
  The parameter stack of a tree instance (\<open>s_engine_stack.c\<close>, \<open>s_engine_stack.h\<close>): a bounded
  array of parameters with Lua-style indices and call frames. A \<open>s_expr_stack_t *\<close> is an
  option, \<open>None\<close> for \<open>NULL\<close>, so that the guards of the code are branches; a returned
  \<open>const s_expr_param_t *\<close> is the index it points to. The abstract view is \<open>stk_elems\<close>, the
  list of the parameters below \<open>sp\<close>; the lemmas give every operation as a list operation.
\<close>

section \<open>State\<close>

record s_expr_stack_frame =
  base_ptr :: nat
  num_params :: nat
  num_locals :: nat
  scratch_base :: nat

record s_expr_stack =
  stk_data :: "s_expr_param list"
  capacity :: nat
  sp :: nat
  frames :: "s_expr_stack_frame list"
  frame_count :: nat

abbreviation S_EXPR_MAX_FRAMES :: nat where "S_EXPR_MAX_FRAMES \<equiv> 16"

definition zero_param :: s_expr_param where
  "zero_param = \<lparr> p_type = 0, index_to_pointer = 0, p_union = 0 \<rparr>"

definition zero_frame :: s_expr_stack_frame where
  "zero_frame = \<lparr> base_ptr = 0, num_params = 0, num_locals = 0, scratch_base = 0 \<rparr>"

text \<open>An operation on a stack pointer: \<open>nul\<close> is what the code does for \<open>NULL\<close>.\<close>

type_synonym 'a stack_op = "(s_expr_stack option, 'a) act"

definition on_stack :: "'a stack_op \<Rightarrow> (s_expr_stack \<Rightarrow> ('a \<times> s_expr_stack) res) \<Rightarrow> 'a stack_op" where
  "on_stack nul body = (\<lambda>z. case z of None \<Rightarrow> nul None
     | Some st \<Rightarrow> res_bind (body st) (\<lambda>(x, st'). Ret (x, Some st')))"

text \<open>The accesses of a body stay below \<open>n\<close>; past the allocation they are undefined in C.\<close>

definition within :: "nat \<Rightarrow> s_expr_stack \<Rightarrow> 'a res \<Rightarrow> 'a res" where
  "within n st r = (if n \<le> length (stk_data st) then r
     else Trap (Fault ''stack data accessed out of bounds''))"

section \<open>Creation\<close>

text \<open>
  The allocator is code outside the engine: \<open>fresh\<close> is the stack structure it hands out and
  \<open>arr\<close> the array, with whatever they contain (\<open>None\<close> for a failed allocation). The code
  sets \<open>capacity\<close> and \<open>sp\<close> and leaves \<open>frame_count\<close> and the frames as they are.
\<close>

definition s_expr_tree_create_stack ::
    "nat \<Rightarrow> s_expr_stack option \<Rightarrow> s_expr_param list option \<Rightarrow> bool stack_op" where
  "s_expr_tree_create_stack cap fresh arr = (\<lambda>z.
     if z \<noteq> None then Trap (Exception ''s_expr_tree_create_stack: stack already exists'')
     else if cap = 0 then Trap (Exception ''s_expr_tree_create_stack: capacity must be > 0'')
     else case fresh of
       None \<Rightarrow> Trap (Exception ''s_expr_tree_create_stack: failed to allocate stack'')
     | Some st \<Rightarrow>
         (case arr of
            None \<Rightarrow> Trap (Exception ''s_expr_tree_create_stack: failed to allocate stack data'')
          | Some d \<Rightarrow> Ret (True, Some (st \<lparr> stk_data := d, capacity := cap, sp := 0 \<rparr>))))"

definition s_expr_tree_free_stack :: "unit stack_op" where
  "s_expr_tree_free_stack = modA (\<lambda>_. None)"

definition s_expr_tree_reset_stack :: "unit stack_op" where
  "s_expr_tree_reset_stack = on_stack (retA ()) (\<lambda>st. Ret ((), st \<lparr> sp := 0, frame_count := 0 \<rparr>))"

section \<open>Indices\<close>

definition s_expr_stack_absindex :: "s_expr_stack \<Rightarrow> int \<Rightarrow> int" where
  "s_expr_stack_absindex st idx =
     (if sp st = 0 then 0
      else if idx > 0 then idx
      else if idx < 0 then int (sp st) + idx + 1
      else 0)"

definition stack_to_array_idx :: "s_expr_stack \<Rightarrow> int \<Rightarrow> nat option" where
  "stack_to_array_idx st idx =
     (if sp st = 0 then None
      else let abs_idx = s_expr_stack_absindex st idx in
        if abs_idx < 1 \<or> abs_idx > int (sp st) then None else Some (nat (abs_idx - 1)))"

definition s_expr_stack_get :: "s_expr_stack option \<Rightarrow> int \<Rightarrow> nat option" where
  "s_expr_stack_get z idx = (case z of None \<Rightarrow> None | Some st \<Rightarrow> stack_to_array_idx st idx)"

text \<open>The parameter a returned pointer designates.\<close>

definition s_expr_stack_at :: "s_expr_stack option \<Rightarrow> int \<Rightarrow> s_expr_param option" where
  "s_expr_stack_at z idx = (case z of None \<Rightarrow> None
     | Some st \<Rightarrow> map_option (\<lambda>i. stk_data st ! i) (stack_to_array_idx st idx))"

section \<open>Pushing\<close>

definition push_raw :: "string \<Rightarrow> s_expr_param \<Rightarrow> s_expr_stack \<Rightarrow> (bool \<times> s_expr_stack) res" where
  "push_raw msg p st =
     (if sp st \<ge> capacity st then Trap (Exception msg)
      else within (sp st + 1) st
        (Ret (True, st \<lparr> stk_data := (stk_data st)[sp st := p], sp := u16 (sp st + 1) \<rparr>)))"

definition s_expr_stack_push :: "s_expr_param option \<Rightarrow> bool stack_op" where
  "s_expr_stack_push param =
     on_stack (excA ''s_expr_stack_push: NULL stack'')
       (\<lambda>st. case param of None \<Rightarrow> Trap (Exception ''s_expr_stack_push: NULL param'')
         | Some p \<Rightarrow> push_raw ''s_expr_stack_push: overflow'' p st)"

definition s_expr_stack_push_int :: "32 word \<Rightarrow> bool stack_op" where
  "s_expr_stack_push_int val = on_stack (excA ''s_expr_stack_push_int: NULL stack'')
     (push_raw ''s_expr_stack_push_int: overflow''
       (zero_param \<lparr> p_type := S_EXPR_PARAM_INT, p_union := val \<rparr>))"

definition s_expr_stack_push_uint :: "32 word \<Rightarrow> bool stack_op" where
  "s_expr_stack_push_uint val = on_stack (excA ''s_expr_stack_push_uint: NULL stack'')
     (push_raw ''s_expr_stack_push_uint: overflow''
       (zero_param \<lparr> p_type := S_EXPR_PARAM_UINT, p_union := val \<rparr>))"

definition s_expr_stack_push_float :: "32 word \<Rightarrow> bool stack_op" where
  "s_expr_stack_push_float val = on_stack (excA ''s_expr_stack_push_float: NULL stack'')
     (push_raw ''s_expr_stack_push_float: overflow''
       (zero_param \<lparr> p_type := S_EXPR_PARAM_FLOAT, p_union := val \<rparr>))"

definition s_expr_stack_push_hash :: "32 word \<Rightarrow> bool stack_op" where
  "s_expr_stack_push_hash h = on_stack (excA ''s_expr_stack_push_hash: NULL stack'')
     (push_raw ''s_expr_stack_push_hash: overflow''
       (zero_param \<lparr> p_type := S_EXPR_PARAM_STR_HASH, p_union := h \<rparr>))"

definition s_expr_stack_push_ptr :: "32 word \<Rightarrow> bool stack_op" where
  "s_expr_stack_push_ptr ptr = on_stack (excA ''s_expr_stack_push_ptr: NULL stack'')
     (push_raw ''s_expr_stack_push_ptr: overflow''
       (zero_param \<lparr> p_type := S_EXPR_PARAM_SLOT OR S_EXPR_FLAG_POINTER, p_union := ptr \<rparr>))"

definition s_expr_stack_pushvalue :: "int \<Rightarrow> bool stack_op" where
  "s_expr_stack_pushvalue idx = on_stack (excA ''s_expr_stack_pushvalue: NULL stack'')
     (\<lambda>st. case stack_to_array_idx st idx of
        None \<Rightarrow> Trap (Exception ''s_expr_stack_pushvalue: invalid index'')
      | Some i \<Rightarrow> within (i + 1) st (push_raw ''s_expr_stack_push: overflow'' (stk_data st ! i) st))"

text \<open>Writing into the scratch area of the current frame; without a frame it reads \<open>frames[-1]\<close>.\<close>

definition s_expr_stack_poke :: "nat \<Rightarrow> s_expr_param option \<Rightarrow> bool stack_op" where
  "s_expr_stack_poke offset val = on_stack (retA False)
     (\<lambda>st. case val of None \<Rightarrow> Ret (False, st)
       | Some p \<Rightarrow>
          if frame_count st = 0 \<or> length (frames st) < frame_count st
          then Trap (Fault ''frames read out of bounds'')
          else let abs_idx = u16 (scratch_base (frames st ! (frame_count st - 1)) + offset) in
            if abs_idx \<ge> capacity st then Ret (False, st)
            else within (abs_idx + 1) st
              (Ret (True, st \<lparr> stk_data := (stk_data st)[abs_idx := p],
                 sp := (if abs_idx \<ge> sp st then u16 (abs_idx + 1) else sp st) \<rparr>)))"

section \<open>Popping\<close>

definition s_expr_stack_pop :: "nat stack_op" where
  "s_expr_stack_pop = on_stack (excA ''s_expr_stack_pop: NULL stack'')
     (\<lambda>st. if sp st = 0 then Trap (Exception ''s_expr_stack_pop: underflow'')
       else Ret (sp st - 1, st \<lparr> sp := sp st - 1 \<rparr>))"

definition s_expr_stack_popn :: "nat \<Rightarrow> unit stack_op" where
  "s_expr_stack_popn n = on_stack (excA ''s_expr_stack_popn: NULL stack'')
     (\<lambda>st. Ret ((), st \<lparr> sp := (if n > sp st then 0 else sp st - n) \<rparr>))"

section \<open>Type tests and conversions\<close>

definition s_expr_stack_type :: "s_expr_stack option \<Rightarrow> int \<Rightarrow> int" where
  "s_expr_stack_type z idx = (case s_expr_stack_at z idx of None \<Rightarrow> -1 | Some p \<Rightarrow> uint (opcode p))"

definition s_expr_stack_isint :: "s_expr_stack option \<Rightarrow> int \<Rightarrow> bool" where
  "s_expr_stack_isint z idx = (s_expr_stack_type z idx = uint S_EXPR_PARAM_INT)"

definition s_expr_stack_isuint :: "s_expr_stack option \<Rightarrow> int \<Rightarrow> bool" where
  "s_expr_stack_isuint z idx = (s_expr_stack_type z idx = uint S_EXPR_PARAM_UINT)"

definition s_expr_stack_isfloat :: "s_expr_stack option \<Rightarrow> int \<Rightarrow> bool" where
  "s_expr_stack_isfloat z idx = (s_expr_stack_type z idx = uint S_EXPR_PARAM_FLOAT)"

definition s_expr_stack_isnumeric :: "s_expr_stack option \<Rightarrow> int \<Rightarrow> bool" where
  "s_expr_stack_isnumeric z idx =
     (let type = s_expr_stack_type z idx in
      type = uint S_EXPR_PARAM_INT \<or> type = uint S_EXPR_PARAM_UINT \<or> type = uint S_EXPR_PARAM_FLOAT)"

definition s_expr_stack_ishash :: "s_expr_stack option \<Rightarrow> int \<Rightarrow> bool" where
  "s_expr_stack_ishash z idx = (s_expr_stack_type z idx = uint S_EXPR_PARAM_STR_HASH)"

definition s_expr_stack_isptr :: "s_expr_stack option \<Rightarrow> int \<Rightarrow> bool" where
  "s_expr_stack_isptr z idx = (case s_expr_stack_at z idx of None \<Rightarrow> False | Some p \<Rightarrow> has_pointer p)"

definition s_expr_stack_isfield :: "s_expr_stack option \<Rightarrow> int \<Rightarrow> bool" where
  "s_expr_stack_isfield z idx = (s_expr_stack_type z idx = uint S_EXPR_PARAM_FIELD)"

definition s_expr_stack_isresult :: "s_expr_stack option \<Rightarrow> int \<Rightarrow> bool" where
  "s_expr_stack_isresult z idx = (s_expr_stack_type z idx = uint S_EXPR_PARAM_RESULT)"

text \<open>
  The integer part of an IEEE single, none for an infinity or a not-a-number. A conversion
  whose integer part does not fit the integer type is undefined in C.
\<close>

definition float_trunc :: "32 word \<Rightarrow> int option" where
  "float_trunc w =
     (let e = unat (drop_bit 23 w AND 0xFF);
          m = unat (w AND 0x7FFFFF) + (if e = 0 then 0 else 2 ^ 23);
          v = (if e \<ge> 150 then m * 2 ^ (e - 150) else m div 2 ^ (150 - e))
      in if e = 255 then None else Some (if bit w 31 then - int v else int v))"

definition s_expr_stack_toint :: "s_expr_stack option \<Rightarrow> int \<Rightarrow> 32 word res" where
  "s_expr_stack_toint z idx =
     (case s_expr_stack_at z idx of None \<Rightarrow> Ret 0
      | Some p \<Rightarrow>
          if opcode p = S_EXPR_PARAM_INT \<or> opcode p = S_EXPR_PARAM_RESULT then Ret (p_union p)
          else if opcode p = S_EXPR_PARAM_UINT then Ret (p_union p)
          else if opcode p = S_EXPR_PARAM_FLOAT then
            (case float_trunc (p_union p) of
               None \<Rightarrow> Trap (Fault ''float out of the range of int32_t'')
             | Some v \<Rightarrow> if - (2 ^ 31) \<le> v \<and> v < 2 ^ 31 then Ret (word_of_int v)
                 else Trap (Fault ''float out of the range of int32_t''))
          else Ret 0)"

definition s_expr_stack_touint :: "s_expr_stack option \<Rightarrow> int \<Rightarrow> 32 word res" where
  "s_expr_stack_touint z idx =
     (case s_expr_stack_at z idx of None \<Rightarrow> Ret 0
      | Some p \<Rightarrow>
          if opcode p = S_EXPR_PARAM_UINT then Ret (p_union p)
          else if opcode p = S_EXPR_PARAM_INT then Ret (p_union p)
          else if opcode p = S_EXPR_PARAM_FLOAT then
            (case float_trunc (p_union p) of
               None \<Rightarrow> Trap (Fault ''float out of the range of uint32_t'')
             | Some v \<Rightarrow> if 0 \<le> v \<and> v < 2 ^ 32 then Ret (word_of_int v)
                 else Trap (Fault ''float out of the range of uint32_t''))
          else Ret 0)"

definition s_expr_stack_tohash :: "s_expr_stack option \<Rightarrow> int \<Rightarrow> 32 word" where
  "s_expr_stack_tohash z idx = (case s_expr_stack_at z idx of None \<Rightarrow> 0
     | Some p \<Rightarrow> if opcode p = S_EXPR_PARAM_STR_HASH then p_union p else 0)"

definition s_expr_stack_toptr :: "s_expr_stack option \<Rightarrow> int \<Rightarrow> 32 word" where
  "s_expr_stack_toptr z idx = (case s_expr_stack_at z idx of None \<Rightarrow> 0
     | Some p \<Rightarrow> if \<not> has_pointer p then 0 else p_union p)"

section \<open>Manipulation\<close>

definition s_expr_stack_gettop :: "s_expr_stack option \<Rightarrow> nat" where
  "s_expr_stack_gettop z = (case z of None \<Rightarrow> 0 | Some st \<Rightarrow> sp st)"

definition s_expr_stack_settop :: "int \<Rightarrow> unit stack_op" where
  "s_expr_stack_settop idx = on_stack (excA ''s_expr_stack_settop: NULL stack'')
     (\<lambda>st. if idx \<ge> 0 then
         (if nat (idx mod 65536) < sp st then Ret ((), st \<lparr> sp := nat (idx mod 65536) \<rparr>)
          else Ret ((), st))
       else
         let new_top = int (sp st) + idx + 1;
             new_top' = (if new_top < 0 then 0 else new_top)
         in Ret ((), st \<lparr> sp := u16 (nat new_top') \<rparr>))"

text \<open>
  The two loops that move a block of slots by one: downwards from \<open>hi\<close> to \<open>lo + 1\<close>, and upwards
  for \<open>n\<close> slots from \<open>lo\<close>.
\<close>

fun shift_up :: "nat \<Rightarrow> nat \<Rightarrow> 'a list \<Rightarrow> 'a list" where
  "shift_up lo 0 d = d"
| "shift_up lo (Suc hi) d = (if Suc hi > lo then shift_up lo hi (d[Suc hi := d ! hi]) else d)"

fun shift_down :: "nat \<Rightarrow> nat \<Rightarrow> 'a list \<Rightarrow> 'a list" where
  "shift_down lo 0 d = d"
| "shift_down lo (Suc n) d = shift_down (Suc lo) n (d[lo := d ! Suc lo])"

text \<open>One step of a rotation, to the right and to the left, of the slots from \<open>k\<close> up to \<open>n\<close>.\<close>

definition rot_right1 :: "nat \<Rightarrow> nat \<Rightarrow> 'a list \<Rightarrow> 'a list" where
  "rot_right1 k n d = (shift_up k (n - 1) d)[k := d ! (n - 1)]"

definition rot_left1 :: "nat \<Rightarrow> nat \<Rightarrow> 'a list \<Rightarrow> 'a list" where
  "rot_left1 k n d = (shift_down k (n - 1 - k) d)[n - 1 := d ! k]"

definition s_expr_stack_insert :: "int \<Rightarrow> bool stack_op" where
  "s_expr_stack_insert idx = on_stack (excA ''s_expr_stack_insert: NULL stack'')
     (\<lambda>st. if sp st = 0 then Trap (Exception ''s_expr_stack_insert: empty stack'')
       else case stack_to_array_idx st idx of
         None \<Rightarrow> Trap (Exception ''s_expr_stack_insert: invalid index'')
       | Some k \<Rightarrow> within (sp st) st
           (let top = stk_data st ! (sp st - 1) in
            Ret (True, st \<lparr> stk_data := (shift_up k (sp st - 1) (stk_data st))[k := top] \<rparr>)))"

definition s_expr_stack_remove :: "int \<Rightarrow> bool stack_op" where
  "s_expr_stack_remove idx = on_stack (excA ''s_expr_stack_remove: NULL stack'')
     (\<lambda>st. if sp st = 0 then Trap (Exception ''s_expr_stack_remove: empty stack'')
       else case stack_to_array_idx st idx of
         None \<Rightarrow> Trap (Exception ''s_expr_stack_remove: invalid index'')
       | Some k \<Rightarrow> within (sp st) st
           (Ret (True, st \<lparr> stk_data := shift_down k (sp st - 1 - k) (stk_data st), sp := sp st - 1 \<rparr>)))"

definition s_expr_stack_replace :: "int \<Rightarrow> bool stack_op" where
  "s_expr_stack_replace idx = on_stack (excA ''s_expr_stack_replace: NULL stack'')
     (\<lambda>st. if sp st = 0 then Trap (Exception ''s_expr_stack_replace: empty stack'')
       else case stack_to_array_idx st idx of
         None \<Rightarrow> Trap (Exception ''s_expr_stack_replace: invalid index'')
       | Some k \<Rightarrow> within (sp st) st
           (Ret (True, st \<lparr> stk_data := (stk_data st)[k := stk_data st ! (sp st - 1)], sp := sp st - 1 \<rparr>)))"

definition s_expr_stack_copy :: "int \<Rightarrow> int \<Rightarrow> bool stack_op" where
  "s_expr_stack_copy from_idx to_idx = on_stack (excA ''s_expr_stack_copy: NULL stack'')
     (\<lambda>st. case stack_to_array_idx st from_idx of
         None \<Rightarrow> Trap (Exception ''s_expr_stack_copy: invalid 'from' index'')
       | Some i \<Rightarrow>
          (case stack_to_array_idx st to_idx of
             None \<Rightarrow> Trap (Exception ''s_expr_stack_copy: invalid 'to' index'')
           | Some j \<Rightarrow> within (sp st) st
               (Ret (True, st \<lparr> stk_data := (stk_data st)[j := stk_data st ! i] \<rparr>))))"

text \<open>The remainder of C, which has the sign of the dividend.\<close>

definition c_rem :: "int \<Rightarrow> int \<Rightarrow> int" where
  "c_rem a b = (if a \<ge> 0 then a mod b else - ((- a) mod b))"

definition s_expr_stack_rotate :: "int \<Rightarrow> int \<Rightarrow> bool stack_op" where
  "s_expr_stack_rotate idx n = on_stack (excA ''s_expr_stack_rotate: NULL stack'')
     (\<lambda>st. if sp st = 0 then Trap (Exception ''s_expr_stack_rotate: empty stack'')
       else case stack_to_array_idx st idx of
         None \<Rightarrow> Trap (Exception ''s_expr_stack_rotate: invalid index'')
       | Some k \<Rightarrow>
           let count = sp st - k in
           if count \<le> 1 then Ret (True, st)
           else
             let n1 = c_rem n (int count);
                 n2 = (if n1 < 0 then n1 + int count else n1)
             in if n2 = 0 then Ret (True, st)
             else within (sp st) st
               (if n2 \<le> int (count div 2) then
                  Ret (True, st \<lparr> stk_data := (rot_right1 k (sp st) ^^ nat n2) (stk_data st) \<rparr>)
                else
                  Ret (True, st \<lparr> stk_data := (rot_left1 k (sp st) ^^ (count - nat n2)) (stk_data st) \<rparr>)))"

definition s_expr_stack_swap :: "bool stack_op" where
  "s_expr_stack_swap = on_stack (excA ''s_expr_stack_swap: NULL stack'')
     (\<lambda>st. if sp st < 2 then Trap (Exception ''s_expr_stack_swap: need at least 2 elements'')
       else within (sp st) st
         (let temp = stk_data st ! (sp st - 1) in
          Ret (True, st \<lparr> stk_data := (stk_data st)[sp st - 1 := stk_data st ! (sp st - 2), sp st - 2 := temp] \<rparr>)))"

definition s_expr_stack_dup :: "bool stack_op" where
  "s_expr_stack_dup = (\<lambda>z. if z = None then Trap (Exception ''s_expr_stack_dup: NULL stack'')
     else s_expr_stack_pushvalue (-1) z)"

section \<open>Frames\<close>

fun zero_slots :: "nat \<Rightarrow> s_expr_stack \<Rightarrow> s_expr_stack" where
  "zero_slots 0 st = st"
| "zero_slots (Suc n) st =
     zero_slots n (st \<lparr> stk_data := (stk_data st)[sp st := zero_param], sp := u16 (sp st + 1) \<rparr>)"

definition s_expr_stack_push_frame :: "nat \<Rightarrow> nat \<Rightarrow> bool stack_op" where
  "s_expr_stack_push_frame n_params n_locals = on_stack (excA ''s_expr_stack_push_frame: NULL stack'')
     (\<lambda>st. if frame_count st \<ge> S_EXPR_MAX_FRAMES then
         Trap (Exception ''s_expr_stack_push_frame: frame overflow'')
       else if sp st + n_locals > capacity st then
         Trap (Exception ''s_expr_stack_push_frame: stack overflow'')
       else if n_params > sp st then
         Trap (Exception ''s_expr_stack_push_frame: not enough params on stack'')
       else if length (frames st) \<le> frame_count st then
         Trap (Fault ''frames written out of bounds'')
       else within (sp st + n_locals) st
         (let fr = \<lparr> base_ptr = sp st - n_params, num_params = n_params, num_locals = n_locals,
                     scratch_base = u16 (sp st + n_locals) \<rparr>
          in Ret (True, zero_slots n_locals
               (st \<lparr> frames := (frames st)[frame_count st := fr], frame_count := frame_count st + 1 \<rparr>))))"

definition s_expr_stack_pop_frame :: "unit stack_op" where
  "s_expr_stack_pop_frame = on_stack (retA ())
     (\<lambda>st. if frame_count st = 0 then Ret ((), st)
       else if length (frames st) < frame_count st then Trap (Fault ''frames read out of bounds'')
       else Ret ((), st \<lparr> frame_count := frame_count st - 1,
                        sp := base_ptr (frames st ! (frame_count st - 1)) \<rparr>))"

definition s_expr_stack_current_frame :: "s_expr_stack option \<Rightarrow> nat option" where
  "s_expr_stack_current_frame z = (case z of None \<Rightarrow> None
     | Some st \<Rightarrow> if frame_count st = 0 then None else Some (frame_count st - 1))"

definition s_expr_stack_get_local :: "s_expr_stack option \<Rightarrow> nat \<Rightarrow> nat option res" where
  "s_expr_stack_get_local z index = (case z of None \<Rightarrow> Ret None
     | Some st \<Rightarrow>
        if frame_count st = 0 then Ret None
        else if length (frames st) < frame_count st then Trap (Fault ''frames read out of bounds'')
        else let fr = frames st ! (frame_count st - 1) in
          if index \<ge> num_params fr + num_locals fr then Ret None
          else Ret (Some (base_ptr fr + index)))"

definition s_expr_stack_set_local :: "nat \<Rightarrow> s_expr_param option \<Rightarrow> bool stack_op" where
  "s_expr_stack_set_local index val = on_stack (retA False)
     (\<lambda>st. if frame_count st = 0 \<or> val = None then Ret (False, st)
       else if length (frames st) < frame_count st then Trap (Fault ''frames read out of bounds'')
       else let fr = frames st ! (frame_count st - 1) in
         if index \<ge> num_params fr + num_locals fr then Ret (False, st)
         else within (base_ptr fr + index + 1) st
           (Ret (True, st \<lparr> stk_data := (stk_data st)[base_ptr fr + index := the val] \<rparr>)))"

definition s_expr_stack_peek_tos :: "s_expr_stack option \<Rightarrow> nat \<Rightarrow> nat option" where
  "s_expr_stack_peek_tos z offset = (case z of None \<Rightarrow> None
     | Some st \<Rightarrow> if offset \<ge> sp st then None else Some (sp st - 1 - offset))"

definition s_expr_stack_scratch_depth :: "s_expr_stack option \<Rightarrow> nat res" where
  "s_expr_stack_scratch_depth z = (case z of None \<Rightarrow> Ret 0
     | Some st \<Rightarrow>
        if frame_count st = 0 then Ret (sp st)
        else if length (frames st) < frame_count st then Trap (Fault ''frames read out of bounds'')
        else Ret (nat ((int (sp st) - int (scratch_base (frames st ! (frame_count st - 1)))) mod 65536)))"

section \<open>The invariant and the abstract stack\<close>

definition frame_ok :: "nat \<Rightarrow> s_expr_stack_frame \<Rightarrow> bool" where
  "frame_ok cap fr = (scratch_base fr = base_ptr fr + num_params fr + num_locals fr \<and> scratch_base fr \<le> cap)"

definition stk_ok :: "s_expr_stack \<Rightarrow> bool" where
  "stk_ok st =
     (length (stk_data st) = capacity st \<and> capacity st < 65536 \<and> sp st \<le> capacity st \<and>
      length (frames st) = S_EXPR_MAX_FRAMES \<and> frame_count st \<le> S_EXPR_MAX_FRAMES \<and>
      list_all (frame_ok (capacity st)) (take (frame_count st) (frames st)))"

definition stk_elems :: "s_expr_stack \<Rightarrow> s_expr_param list" where
  "stk_elems st = take (sp st) (stk_data st)"

lemma length_stk_elems [simp]: "stk_ok st \<Longrightarrow> length (stk_elems st) = sp st"
  by (simp add: stk_ok_def stk_elems_def)

lemma stk_elems_nth: "i < sp st \<Longrightarrow> stk_elems st ! i = stk_data st ! i"
  by (simp add: stk_elems_def)

lemma on_stack_simps [simp]:
  "on_stack nul body (Some st) = res_bind (body st) (\<lambda>(x, st'). Ret (x, Some st'))"
  "on_stack nul body None = nul None"
  by (simp_all add: on_stack_def)

lemma within_Ret_iff: "(within n st r = Ret x) = (n \<le> length (stk_data st) \<and> r = Ret x)"
  by (auto simp: within_def)

lemma array_idx_Some:
  "stack_to_array_idx st idx = Some k \<longleftrightarrow>
     (0 < idx \<and> idx \<le> int (sp st) \<and> k = nat (idx - 1)) \<or>
     (idx < 0 \<and> - int (sp st) \<le> idx \<and> k = nat (int (sp st) + idx))"
  by (auto simp: stack_to_array_idx_def s_expr_stack_absindex_def Let_def)

lemma array_idx_less: "stack_to_array_idx st idx = Some k \<Longrightarrow> k < sp st"
  by (auto simp: array_idx_Some)

subsection \<open>The moving loops\<close>

lemma length_shift_up [simp]: "length (shift_up lo hi d) = length d"
  by (induction lo hi d rule: shift_up.induct) auto

lemma length_shift_down [simp]: "length (shift_down lo n d) = length d"
  by (induction lo n d rule: shift_down.induct) auto

lemma shift_up_split:
  "shift_up (length a) (length a + length s) (a @ s @ x # b) = a @ hd (s @ [x]) # s @ b"
proof (induction s arbitrary: x b rule: rev_induct)
  case Nil
  show ?case by (cases "length a") auto
next
  case (snoc y s)
  have "(a @ (s @ [y]) @ x # b)[Suc (length a + length s) := y] = a @ s @ y # y # b"
    by (simp add: list_update_append)
  then show ?case using snoc.IH [of y "y # b"] by (simp add: nth_append hd_append)
qed

lemma shift_down_split:
  "shift_down (length a) (length s) (a @ x # s @ b) = a @ s @ last (x # s) # b"
proof (induction s arbitrary: a x)
  case (Cons y s)
  have "shift_down (length (a @ [y])) (length s) ((a @ [y]) @ y # s @ b) =
      (a @ [y]) @ s @ last (y # s) # b"
    by (rule Cons.IH)
  then show ?case by (simp add: nth_append list_update_append)
qed simp

lemma rot_right1_split:
  assumes "s \<noteq> []"
  shows "rot_right1 (length a) (length a + length s) (a @ s @ b) = a @ (last s # butlast s) @ b"
proof -
  from assms obtain t x where s: "s = t @ [x]" by (cases s rule: rev_cases) auto
  show ?thesis
    using shift_up_split [of a t x b] unfolding s
    by (simp add: rot_right1_def nth_append list_update_append)
qed

lemma rot_left1_split:
  assumes "s \<noteq> []"
  shows "rot_left1 (length a) (length a + length s) (a @ s @ b) = a @ rotate1 s @ b"
proof -
  from assms obtain x xs where s: "s = x # xs" by (cases s) auto
  show ?thesis
    using shift_down_split [of a xs x b] unfolding s
    by (simp add: rot_left1_def nth_append list_update_append)
qed

lemma rotate_last: "s \<noteq> [] \<Longrightarrow> last s # butlast s = rotate (length s - 1) s"
  by (cases s rule: rev_cases) (auto simp: rotate_append)

lemma rot_right_funpow:
  "s \<noteq> [] \<Longrightarrow> (rot_right1 (length a) (length a + length s) ^^ m) (a @ s @ b)
     = a @ rotate (m * (length s - 1)) s @ b"
proof (induction m)
  case (Suc m)
  let ?t = "rotate (m * (length s - 1)) s"
  have "rot_right1 (length a) (length a + length ?t) (a @ ?t @ b) = a @ (last ?t # butlast ?t) @ b"
    by (rule rot_right1_split) (simp add: Suc.prems)
  moreover have "last ?t # butlast ?t = rotate (length ?t - 1) ?t"
    by (rule rotate_last) (simp add: Suc.prems)
  ultimately show ?case using Suc by (simp add: rotate_rotate add.commute)
qed simp

lemma rot_left_funpow:
  "s \<noteq> [] \<Longrightarrow> (rot_left1 (length a) (length a + length s) ^^ m) (a @ s @ b) = a @ rotate m s @ b"
proof (induction m)
  case (Suc m)
  then show ?case using rot_left1_split [of "rotate m s" a b] by simp
qed simp

lemma rotate_cong: "m mod length s = n mod length s \<Longrightarrow> rotate m s = rotate n s"
  by (metis rotate_conv_mod)

text \<open>The data array around the slots a stack operation touches.\<close>

lemma data_split:
  assumes "stk_ok st" "k \<le> sp st"
  obtains b where "stk_data st = take k (stk_elems st) @ drop k (stk_elems st) @ b"
    "length (take k (stk_elems st)) = k" "length (drop k (stk_elems st)) = sp st - k"
    "stk_elems st = take k (stk_elems st) @ drop k (stk_elems st)"
proof -
  have "stk_data st = stk_elems st @ drop (sp st) (stk_data st)" by (simp add: stk_elems_def)
  with assms that show ?thesis by (metis append_assoc append_take_drop_id length_drop length_stk_elems
        length_take min.absorb2)
qed

subsection \<open>Operations as list operations\<close>

lemma stk_ok_update:
  "stk_ok st \<Longrightarrow> length d = capacity st \<Longrightarrow> n \<le> capacity st \<Longrightarrow> stk_ok (st \<lparr> stk_data := d, sp := n \<rparr>)"
  by (simp add: stk_ok_def)

lemma stk_ok_data: "stk_ok st \<Longrightarrow> length d = capacity st \<Longrightarrow> stk_ok (st \<lparr> stk_data := d \<rparr>)"
  by (simp add: stk_ok_def)

lemma stk_ok_sp: "stk_ok st \<Longrightarrow> n \<le> capacity st \<Longrightarrow> stk_ok (st \<lparr> sp := n \<rparr>)"
  by (simp add: stk_ok_def)

lemma stk_okD:
  assumes "stk_ok st"
  shows "length (stk_data st) = capacity st" "capacity st < 65536" "sp st \<le> capacity st"
    "sp st \<le> length (stk_data st)" "sp st < 65536"
    "length (frames st) = S_EXPR_MAX_FRAMES" "frame_count st \<le> S_EXPR_MAX_FRAMES"
  using assms by (simp_all add: stk_ok_def)

lemma within_ok: "n \<le> length (stk_data st) \<Longrightarrow> within n st r = r"
  by (simp add: within_def)

lemma push_raw_spec:
  assumes "stk_ok st" "sp st < capacity st"
  shows "push_raw msg p st =
      Ret (True, st \<lparr> stk_data := (stk_data st)[sp st := p], sp := Suc (sp st) \<rparr>)"
    and "stk_ok (st \<lparr> stk_data := (stk_data st)[sp st := p], sp := Suc (sp st) \<rparr>)"
    and "stk_elems (st \<lparr> stk_data := (stk_data st)[sp st := p], sp := Suc (sp st) \<rparr>) = stk_elems st @ [p]"
  using assms stk_okD [OF assms(1)]
  by (auto simp: push_raw_def within_def u16_id stk_ok_update stk_elems_def take_Suc_conv_app_nth)

lemma push_raw_full: "sp st \<ge> capacity st \<Longrightarrow> push_raw msg p st = Trap (Exception msg)"
  by (simp add: push_raw_def)

lemma stk_elems_data:
  "length e = sp st \<Longrightarrow> stk_elems (st \<lparr> stk_data := e @ b \<rparr>) = e"
  by (simp add: stk_elems_def)

lemma insert_spec:
  assumes "stk_ok st" "stack_to_array_idx st idx = Some k"
  shows "\<exists>st'. s_expr_stack_insert idx (Some st) = Ret (True, Some st') \<and> stk_ok st' \<and>
    stk_elems st' = take k (stk_elems st) @ last (stk_elems st) # butlast (drop k (stk_elems st))"
proof -
  have k: "k < sp st" using array_idx_less assms(2) .
  obtain b where d: "stk_data st = take k (stk_elems st) @ drop k (stk_elems st) @ b"
    and l: "length (take k (stk_elems st)) = k" "length (drop k (stk_elems st)) = sp st - k"
    using data_split [OF assms(1), of k] k by auto
  have "drop k (stk_elems st) \<noteq> []" using l k by auto
  from rot_right1_split [OF this, of "take k (stk_elems st)" b]
  have r: "rot_right1 k (sp st) (stk_data st) = take k (stk_elems st) @
      (last (drop k (stk_elems st)) # butlast (drop k (stk_elems st))) @ b"
    using l k d by simp
  have "s_expr_stack_insert idx (Some st) =
      Ret (True, Some (st \<lparr> stk_data := rot_right1 k (sp st) (stk_data st) \<rparr>))"
    using assms k stk_okD [OF assms(1)]
    by (simp add: s_expr_stack_insert_def within_ok rot_right1_def Let_def)
  moreover have "stk_elems (st \<lparr> stk_data := rot_right1 k (sp st) (stk_data st) \<rparr>) =
      take k (stk_elems st) @ last (drop k (stk_elems st)) # butlast (drop k (stk_elems st))"
    unfolding r using l k stk_elems_data [where b = b] by (simp flip: append_assoc append_Cons)
  ultimately show ?thesis
    using assms(1) stk_okD [OF assms(1)] k
    by (auto simp: rot_right1_def last_drop intro!: stk_ok_data)
qed

lemma remove_spec:
  assumes "stk_ok st" "stack_to_array_idx st idx = Some k"
  shows "\<exists>st'. s_expr_stack_remove idx (Some st) = Ret (True, Some st') \<and> stk_ok st' \<and>
    stk_elems st' = take k (stk_elems st) @ drop (Suc k) (stk_elems st)"
proof -
  have k: "k < sp st" using array_idx_less assms(2) .
  obtain b where d: "stk_data st = take k (stk_elems st) @ drop k (stk_elems st) @ b"
    and l: "length (take k (stk_elems st)) = k" "length (drop k (stk_elems st)) = sp st - k"
    using data_split [OF assms(1), of k] k by auto
  obtain x t where t: "drop k (stk_elems st) = x # t" using l k by (cases "drop k (stk_elems st)") auto
  have lt: "length t = sp st - 1 - k" using t l k by simp
  have t': "t = drop (Suc k) (stk_elems st)" using t by (metis drop_Suc list.sel(3) tl_drop)
  have r: "shift_down k (sp st - 1 - k) (stk_data st) = take k (stk_elems st) @ t @ last (x # t) # b"
    using shift_down_split [of "take k (stk_elems st)" t x b] d t lt l by simp
  have "s_expr_stack_remove idx (Some st) = Ret (True, Some (st \<lparr> stk_data :=
      shift_down k (sp st - 1 - k) (stk_data st), sp := sp st - 1 \<rparr>))"
    using assms k stk_okD [OF assms(1)] by (simp add: s_expr_stack_remove_def within_ok)
  moreover have "stk_elems (st \<lparr> stk_data := shift_down k (sp st - 1 - k) (stk_data st), sp := sp st - 1 \<rparr>)
      = take k (stk_elems st) @ t"
    unfolding r using l lt k by (simp add: stk_elems_def)
  ultimately show ?thesis
    using assms(1) stk_okD [OF assms(1)] t' by (auto intro!: stk_ok_update)
qed

lemma c_rem_norm:
  assumes "0 < c"
  shows "(if c_rem n c < 0 then c_rem n c + c else c_rem n c) = n mod c"
proof (cases "n \<ge> 0")
  case False
  then show ?thesis using assms zmod_zminus1_eq_if [of "- n" c]
    by (auto simp: c_rem_def) (smt (verit, best) pos_mod_sign)+
qed (use assms in \<open>simp add: c_rem_def not_less\<close>)

text \<open>Either loop of the rotation gives the same list: a right rotation by \<open>n mod count\<close>.\<close>

lemma rotate_spec:
  assumes "stk_ok st" "stack_to_array_idx st idx = Some k"
  shows "\<exists>st'. s_expr_stack_rotate idx n (Some st) = Ret (True, Some st') \<and> stk_ok st' \<and> sp st' = sp st \<and>
    stk_elems st' = take k (stk_elems st) @ rotate (nat ((- n) mod int (sp st - k))) (drop k (stk_elems st))"
proof -
  let ?c = "sp st - k" and ?s = "drop k (stk_elems st)" and ?a = "take k (stk_elems st)"
  let ?m = "n mod int ?c"
  have k: "k < sp st" using array_idx_less assms(2) .
  obtain b where d: "stk_data st = ?a @ ?s @ b" and l: "length ?a = k" "length ?s = ?c"
    and e: "stk_elems st = ?a @ ?s"
    using data_split [OF assms(1), of k] k by auto
  have ne: "?s \<noteq> []" using l k by auto
  have m: "0 \<le> ?m" "?m < int ?c" using k by auto
  have neg: "(- n) mod int ?c = (if ?m = 0 then 0 else int ?c - ?m)"
    using zmod_zminus1_eq_if [of n "int ?c"] k by auto
  have rr: "(rot_right1 k (sp st) ^^ j) (stk_data st) = ?a @ rotate (j * (?c - 1)) ?s @ b" for j
    using rot_right_funpow [where m = j and a = ?a and b = b, OF ne] l d k length_stk_elems [OF assms(1)]
    by simp
  have rl: "(rot_left1 k (sp st) ^^ j) (stk_data st) = ?a @ rotate j ?s @ b" for j
    using rot_left_funpow [where m = j and a = ?a and b = b, OF ne] l d k by simp
  have el: "stk_elems (st \<lparr> stk_data := ?a @ rotate j ?s @ b \<rparr>) = ?a @ rotate j ?s" for j
    unfolding stk_elems_def [of "st \<lparr> stk_data := ?a @ rotate j ?s @ b \<rparr>"] using l k by simp
  have ok: "stk_ok (st \<lparr> stk_data := ?a @ rotate j ?s @ b \<rparr>)" for j
    using assms(1) stk_okD(1) [OF assms(1)] d by (intro stk_ok_data) (auto dest: arg_cong [of _ _ length])
  have body: "s_expr_stack_rotate idx n (Some st) =
      (if ?c \<le> 1 \<or> ?m = 0 then Ret (True, Some st)
       else if ?m \<le> int (?c div 2) then
         Ret (True, Some (st \<lparr> stk_data := (rot_right1 k (sp st) ^^ nat ?m) (stk_data st) \<rparr>))
       else Ret (True, Some (st \<lparr> stk_data := (rot_left1 k (sp st) ^^ (?c - nat ?m)) (stk_data st) \<rparr>)))"
  proof -
    have cr: "(if c_rem n (int ?c) < 0 then c_rem n (int ?c) + int ?c else c_rem n (int ?c)) = ?m"
      using c_rem_norm [of "int ?c" n] k by simp
    show ?thesis
      unfolding s_expr_stack_rotate_def on_stack_simps Let_def assms(2) option.case cr
      using k stk_okD [OF assms(1)] by (simp add: within_ok del: res_bind_Ret_iff)
  qed
  consider "?c \<le> 1 \<or> ?m = 0" | "1 < ?c" "?m \<noteq> 0" "?m \<le> int (?c div 2)"
    | "1 < ?c" "?m \<noteq> 0" "\<not> ?m \<le> int (?c div 2)" by linarith
  then show ?thesis
  proof cases
    case 1
    then have "rotate (nat ((- n) mod int ?c)) ?s = ?s"
      using neg l k by (auto simp: rotate_id)
    then show ?thesis using 1 body e assms(1) by simp
  next
    case 2
    have "rotate (nat ?m * (?c - 1)) ?s = rotate (nat ((- n) mod int ?c)) ?s"
    proof (rule rotate_cong)
      have "int (nat ?m * (?c - 1)) mod int ?c = (?m * (int ?c - 1)) mod int ?c"
        using m k by (simp add: of_nat_diff diff_diff_eq add.commute)
      also have "\<dots> = (- ?m) mod int ?c"
      proof -
        have "?m * (int ?c - 1) = - ?m + ?m * int ?c" by (simp add: algebra_simps)
        then show ?thesis by (metis mod_mult_self1)
      qed
      also have "\<dots> = int (nat ((- n) mod int ?c)) mod int ?c" using m k by (simp add: mod_simps)
      finally show "(nat ?m * (?c - 1)) mod length ?s = nat ((- n) mod int ?c) mod length ?s"
        unfolding l(2) by (metis nat_int zmod_int)
    qed
    then show ?thesis using 2 body el ok rr by auto
  next
    case 3
    have "?c - nat ?m = nat ((- n) mod int ?c)" using neg 3 m by (simp add: nat_diff_distrib')
    then show ?thesis using 3 body el ok rl by auto
  qed
qed

section \<open>Any sequence of operations\<close>

text \<open>The operations a client of \<open>s_engine_stack.h\<close> calls on an existing stack.\<close>

datatype stk_cmd =
    Cpush "s_expr_param option" | Cpush_int "32 word" | Cpush_uint "32 word" | Cpush_float "32 word"
  | Cpush_hash "32 word" | Cpush_ptr "32 word" | Cpushvalue int | Cpoke nat "s_expr_param option"
  | Cpop | Cpopn nat | Csettop int | Cinsert int | Cremove int | Creplace int | Ccopy int int
  | Crotate int int | Cswap | Cdup | Cpush_frame nat nat | Cpop_frame
  | Cset_local nat "s_expr_param option" | Creset

definition ignoring :: "('s, 'a) act \<Rightarrow> ('s, unit) act" where
  "ignoring m = bindA m (\<lambda>_. retA ())"

fun stk_exec :: "stk_cmd \<Rightarrow> unit stack_op" where
  "stk_exec (Cpush p) = ignoring (s_expr_stack_push p)"
| "stk_exec (Cpush_int v) = ignoring (s_expr_stack_push_int v)"
| "stk_exec (Cpush_uint v) = ignoring (s_expr_stack_push_uint v)"
| "stk_exec (Cpush_float v) = ignoring (s_expr_stack_push_float v)"
| "stk_exec (Cpush_hash v) = ignoring (s_expr_stack_push_hash v)"
| "stk_exec (Cpush_ptr v) = ignoring (s_expr_stack_push_ptr v)"
| "stk_exec (Cpushvalue i) = ignoring (s_expr_stack_pushvalue i)"
| "stk_exec (Cpoke off p) = ignoring (s_expr_stack_poke off p)"
| "stk_exec Cpop = ignoring s_expr_stack_pop"
| "stk_exec (Cpopn n) = s_expr_stack_popn n"
| "stk_exec (Csettop i) = s_expr_stack_settop i"
| "stk_exec (Cinsert i) = ignoring (s_expr_stack_insert i)"
| "stk_exec (Cremove i) = ignoring (s_expr_stack_remove i)"
| "stk_exec (Creplace i) = ignoring (s_expr_stack_replace i)"
| "stk_exec (Ccopy i j) = ignoring (s_expr_stack_copy i j)"
| "stk_exec (Crotate i n) = ignoring (s_expr_stack_rotate i n)"
| "stk_exec Cswap = ignoring s_expr_stack_swap"
| "stk_exec Cdup = ignoring s_expr_stack_dup"
| "stk_exec (Cpush_frame np nl) = ignoring (s_expr_stack_push_frame np nl)"
| "stk_exec Cpop_frame = s_expr_stack_pop_frame"
| "stk_exec (Cset_local i p) = ignoring (s_expr_stack_set_local i p)"
| "stk_exec Creset = s_expr_tree_reset_stack"

text \<open>
  \<open>fine\<close> is the contract of one operation from a well-formed stack: it ends in a well-formed
  stack or raises an \<open>EXCEPTION\<close>; it never makes an access that C leaves undefined.
\<close>

definition fine :: "('a \<times> s_expr_stack) res \<Rightarrow> bool" where
  "fine r = (case r of Ret (x, st) \<Rightarrow> stk_ok st | Trap (Exception m) \<Rightarrow> True | _ \<Rightarrow> False)"

definition fine_op :: "('a \<times> s_expr_stack option) res \<Rightarrow> bool" where
  "fine_op r = (case r of Ret (x, z) \<Rightarrow> (\<exists>st. z = Some st \<and> stk_ok st)
     | Trap (Exception m) \<Rightarrow> True | _ \<Rightarrow> False)"

lemma fine_simps [simp]:
  "fine (Ret (x, st)) = stk_ok st" "fine (Trap (Exception m))" "\<not> fine (Trap (Fault m))" "\<not> fine Diverge"
  "fine_op (Ret (x, z)) = (\<exists>st. z = Some st \<and> stk_ok st)" "fine_op (Trap (Exception m))"
  "\<not> fine_op (Trap (Fault m))" "\<not> fine_op Diverge"
  by (simp_all add: fine_def fine_op_def)

lemma fine_on_stack: "fine (body st) \<Longrightarrow> fine_op (on_stack nul body (Some st))"
  by (cases "body st") (auto simp: fine_def fine_op_def split: trap.splits)

lemma fine_ignoring: "fine_op (m z) \<Longrightarrow> fine_op (ignoring m z)"
  by (cases "m z") (auto simp: ignoring_def fine_op_def split: trap.splits)

lemma fine_within: "stk_ok st \<Longrightarrow> n \<le> capacity st \<Longrightarrow> fine r \<Longrightarrow> fine (within n st r)"
  by (simp add: within_def stk_ok_def)

lemma fine_push_raw: "stk_ok st \<Longrightarrow> fine (push_raw msg p st)"
  using push_raw_spec(1) [of st msg p] push_raw_spec(2) [of st p] push_raw_full [of st msg p]
  by (cases "sp st < capacity st") auto

lemma frame_ok_top:
  assumes "stk_ok st" "frame_count st \<noteq> 0"
  shows "frame_ok (capacity st) (frames st ! (frame_count st - 1))"
proof -
  have "list_all (frame_ok (capacity st)) (take (frame_count st) (frames st))"
    using assms by (simp add: stk_ok_def)
  moreover have "frame_count st - 1 < length (take (frame_count st) (frames st))"
    using assms by (auto simp: stk_ok_def)
  ultimately show ?thesis by (auto simp: list_all_length)
qed

lemma zero_slots_spec:
  "sp st + n \<le> length (stk_data st) \<Longrightarrow> length (stk_data st) < 65536 \<Longrightarrow>
   zero_slots n st = st \<lparr> stk_data := take (sp st) (stk_data st) @ replicate n zero_param
        @ drop (sp st + n) (stk_data st), sp := sp st + n \<rparr>"
proof (induction n arbitrary: st)
  case (Suc n)
  let ?st = "st \<lparr> stk_data := (stk_data st)[sp st := zero_param], sp := Suc (sp st) \<rparr>"
  have "zero_slots (Suc n) st = zero_slots n ?st" using Suc.prems by (simp add: u16_id)
  also have "\<dots> = ?st \<lparr> stk_data := take (sp ?st) (stk_data ?st) @ replicate n zero_param
        @ drop (sp ?st + n) (stk_data ?st), sp := sp ?st + n \<rparr>"
    using Suc.prems by (intro Suc.IH) auto
  finally show ?case using Suc.prems by (simp add: take_Suc_conv_app_nth)
qed simp

lemma push_frame_spec:
  assumes "stk_ok st" "frame_count st < S_EXPR_MAX_FRAMES" "sp st + nl \<le> capacity st" "np \<le> sp st"
  shows "\<exists>st'. s_expr_stack_push_frame np nl (Some st) = Ret (True, Some st') \<and> stk_ok st' \<and>
    frame_count st' = Suc (frame_count st) \<and> sp st' = sp st + nl \<and> capacity st' = capacity st \<and>
    frames st' ! frame_count st = \<lparr> base_ptr = sp st - np, num_params = np, num_locals = nl,
      scratch_base = sp st + nl \<rparr> \<and>
    stk_elems st' = stk_elems st @ replicate nl zero_param"
proof -
  let ?fr = "\<lparr> base_ptr = sp st - np, num_params = np, num_locals = nl, scratch_base = sp st + nl \<rparr>"
  let ?s0 = "st \<lparr> frames := (frames st)[frame_count st := ?fr], frame_count := Suc (frame_count st) \<rparr>"
  let ?s1 = "?s0 \<lparr> stk_data := take (sp st) (stk_data st) @ replicate nl zero_param
        @ drop (sp st + nl) (stk_data st), sp := sp st + nl \<rparr>"
  note ok = stk_okD [OF assms(1)]
  have z: "zero_slots nl ?s0 = ?s1" using zero_slots_spec [of ?s0 nl] ok assms(3) by simp
  have "list_all (frame_ok (capacity st)) (take (frame_count st) (frames st))"
    using assms(1) by (simp add: stk_ok_def)
  then have "stk_ok ?s1"
    using ok assms by (simp add: stk_ok_def take_Suc_conv_app_nth frame_ok_def)
  moreover have "stk_elems ?s1 = stk_elems st @ replicate nl zero_param"
    using ok assms(3) by (simp add: stk_elems_def)
  moreover have "s_expr_stack_push_frame np nl (Some st) = Ret (True, Some ?s1)"
    using z ok assms by (simp add: s_expr_stack_push_frame_def within_ok u16_id Let_def)
  ultimately show ?thesis using ok assms(2) by auto
qed

text \<open>Every operation but a poke without a frame is fine.\<close>

lemma idx_le: "stk_ok st \<Longrightarrow> stack_to_array_idx st i = Some k \<Longrightarrow> k < capacity st"
  using array_idx_less [of st i k] stk_okD(3) [of st] by simp

lemma fine_ops:
  assumes "stk_ok st"
  shows "fine_op (s_expr_stack_push v (Some st))"
    "fine_op (s_expr_stack_push_int w (Some st))" "fine_op (s_expr_stack_push_uint w (Some st))"
    "fine_op (s_expr_stack_push_float w (Some st))" "fine_op (s_expr_stack_push_hash w (Some st))"
    "fine_op (s_expr_stack_push_ptr w (Some st))" "fine_op (s_expr_stack_pushvalue i (Some st))"
    "fine_op (s_expr_stack_pop (Some st))" "fine_op (s_expr_stack_popn n (Some st))"
    "fine_op (s_expr_stack_settop i (Some st))" "fine_op (s_expr_stack_replace i (Some st))"
    "fine_op (s_expr_stack_copy i j (Some st))" "fine_op (s_expr_stack_swap (Some st))"
    "fine_op (s_expr_stack_set_local n v (Some st))" "fine_op (s_expr_tree_reset_stack (Some st))"
    "fine_op (s_expr_stack_dup (Some st))"
proof -
  note ok = stk_okD [OF assms]
  show "fine_op (s_expr_stack_push v (Some st))"
    unfolding s_expr_stack_push_def
    by (rule fine_on_stack) (simp add: fine_push_raw assms split: option.splits)
  show "fine_op (s_expr_stack_push_int w (Some st))" "fine_op (s_expr_stack_push_uint w (Some st))"
    "fine_op (s_expr_stack_push_float w (Some st))" "fine_op (s_expr_stack_push_hash w (Some st))"
    "fine_op (s_expr_stack_push_ptr w (Some st))"
    unfolding s_expr_stack_push_int_def s_expr_stack_push_uint_def s_expr_stack_push_float_def
      s_expr_stack_push_hash_def s_expr_stack_push_ptr_def
    by (intro fine_on_stack fine_push_raw assms)+
  show pv: "fine_op (s_expr_stack_pushvalue i (Some st))" for i
    unfolding s_expr_stack_pushvalue_def
    by (rule fine_on_stack)
      (auto split: option.splits dest: idx_le [OF assms] intro!: fine_within fine_push_raw assms)
  then show "fine_op (s_expr_stack_dup (Some st))" by (simp add: s_expr_stack_dup_def)
  show "fine_op (s_expr_stack_pop (Some st))"
    unfolding s_expr_stack_pop_def
    by (rule fine_on_stack) (use assms ok in \<open>auto intro!: stk_ok_sp\<close>)
  show "fine_op (s_expr_stack_popn n (Some st))"
    unfolding s_expr_stack_popn_def
    by (rule fine_on_stack) (use assms ok in \<open>auto intro!: stk_ok_sp\<close>)
  show "fine_op (s_expr_stack_settop i (Some st))"
    unfolding s_expr_stack_settop_def
    by (rule fine_on_stack) (use assms ok in \<open>auto simp: Let_def u16_def intro!: stk_ok_sp\<close>)
  show "fine_op (s_expr_stack_replace i (Some st))"
    unfolding s_expr_stack_replace_def
    by (rule fine_on_stack)
      (use assms ok in \<open>auto split: option.splits intro!: fine_within stk_ok_update\<close>)
  show "fine_op (s_expr_stack_copy i j (Some st))"
    unfolding s_expr_stack_copy_def
    by (rule fine_on_stack)
      (use assms ok in \<open>auto split: option.splits intro!: fine_within stk_ok_data\<close>)
  show "fine_op (s_expr_stack_swap (Some st))"
    unfolding s_expr_stack_swap_def
    by (rule fine_on_stack) (use assms ok in \<open>auto simp: Let_def intro!: fine_within stk_ok_data\<close>)
  show "fine_op (s_expr_stack_set_local n v (Some st))"
    unfolding s_expr_stack_set_local_def
    by (rule fine_on_stack)
      (use assms ok frame_ok_top [OF assms] in
        \<open>auto simp: Let_def frame_ok_def intro!: fine_within stk_ok_data\<close>)
  show "fine_op (s_expr_tree_reset_stack (Some st))"
    unfolding s_expr_tree_reset_stack_def
    by (rule fine_on_stack) (use assms in \<open>simp add: stk_ok_def\<close>)
qed

lemma fine_moves:
  assumes "stk_ok st"
  shows "fine_op (s_expr_stack_insert i (Some st))" "fine_op (s_expr_stack_remove i (Some st))"
    "fine_op (s_expr_stack_rotate i r (Some st))"
proof -
  show "fine_op (s_expr_stack_insert i (Some st))"
    by (cases "stack_to_array_idx st i")
      (use insert_spec [OF assms, of i] in \<open>auto simp: s_expr_stack_insert_def\<close>)
  show "fine_op (s_expr_stack_remove i (Some st))"
    by (cases "stack_to_array_idx st i")
      (use remove_spec [OF assms, of i] in \<open>auto simp: s_expr_stack_remove_def\<close>)
  show "fine_op (s_expr_stack_rotate i r (Some st))"
    by (cases "stack_to_array_idx st i")
      (use rotate_spec [OF assms, of i _ r] in \<open>auto simp: s_expr_stack_rotate_def\<close>)
qed

lemma fine_frames:
  assumes "stk_ok st"
  shows "fine_op (s_expr_stack_push_frame np nl (Some st))" "fine_op (s_expr_stack_pop_frame (Some st))"
    "frame_count st \<noteq> 0 \<or> v = None \<Longrightarrow> fine_op (s_expr_stack_poke off v (Some st))"
proof -
  note ok = stk_okD [OF assms]
  show "fine_op (s_expr_stack_push_frame np nl (Some st))"
  proof (cases "frame_count st < S_EXPR_MAX_FRAMES \<and> sp st + nl \<le> capacity st \<and> np \<le> sp st")
    case True
    then show ?thesis using push_frame_spec [OF assms, of nl np] by auto
  next
    case False
    then show ?thesis by (auto simp: s_expr_stack_push_frame_def)
  qed
  show "fine_op (s_expr_stack_pop_frame (Some st))"
  proof (cases "frame_count st = 0")
    case True
    then show ?thesis using assms by (simp add: s_expr_stack_pop_frame_def)
  next
    case False
    have "list_all (frame_ok (capacity st)) (take (frame_count st - 1) (frames st))"
      using assms by (auto simp: stk_ok_def list_all_length)
    then show ?thesis
      using False assms ok frame_ok_top [OF assms False]
      by (auto simp: s_expr_stack_pop_frame_def stk_ok_def frame_ok_def)
  qed
  show "fine_op (s_expr_stack_poke off v (Some st))" if "frame_count st \<noteq> 0 \<or> v = None"
    unfolding s_expr_stack_poke_def
    by (rule fine_on_stack)
      (use assms ok that in \<open>auto simp: Let_def u16_id split: option.splits
        intro!: fine_within stk_ok_data stk_ok_update\<close>)
qed

lemma fine_exec:
  assumes "stk_ok st" "\<And>off p. c = Cpoke off (Some p) \<Longrightarrow> frame_count st \<noteq> 0"
  shows "fine_op (stk_exec c (Some st))"
proof (cases c)
  case (Cpoke off v)
  then show ?thesis using assms by (cases v) (auto intro!: fine_ignoring fine_frames)
qed (use assms in \<open>auto intro!: fine_ignoring fine_ops fine_moves fine_frames\<close>)

fun stk_run :: "stk_cmd list \<Rightarrow> unit stack_op" where
  "stk_run [] = retA ()"
| "stk_run (c # cs) = seqA (stk_exec c) (stk_run cs)"

lemma stk_run_append: "stk_run (cs @ ds) z = seqA (stk_run cs) (stk_run ds) z"
proof (induction cs arbitrary: z)
  case (Cons c cs)
  then show ?case by (cases "stk_exec c z") auto
qed simp

definition frameless_poke :: "stk_cmd list \<Rightarrow> s_expr_stack \<Rightarrow> bool" where
  "frameless_poke cs st = (\<exists>ds off p es st'. cs = ds @ Cpoke off (Some p) # es \<and>
     stk_run ds (Some st) = Ret ((), Some st') \<and> frame_count st' = 0)"

lemma stk_run_fine:
  assumes "stk_ok st"
  shows "fine_op (stk_run cs (Some st)) \<or>
    (frameless_poke cs st \<and> stk_run cs (Some st) = Trap (Fault ''frames read out of bounds''))"
  using assms
proof (induction cs arbitrary: st)
  case (Cons c cs)
  show ?case
  proof (cases "\<exists>off p. c = Cpoke off (Some p) \<and> frame_count st = 0")
    case True
    then obtain off p where c: "c # cs = [] @ Cpoke off (Some p) # cs" "frame_count st = 0" by auto
    moreover have "stk_run [] (Some st) = Ret ((), Some st)" by simp
    moreover have "stk_run (c # cs) (Some st) = Trap (Fault ''frames read out of bounds'')"
      using c by (simp add: ignoring_def s_expr_stack_poke_def)
    ultimately show ?thesis unfolding frameless_poke_def by blast
  next
    case False
    then have f: "fine_op (stk_exec c (Some st))" using Cons.prems by (intro fine_exec) auto
    show ?thesis
    proof (cases "stk_exec c (Some st)")
      case (Ret p)
      then obtain st1 where c: "stk_exec c (Some st) = Ret ((), Some st1)" "stk_ok st1"
        using f by (cases p) auto
      have run: "stk_run (c # ds) (Some st) = stk_run ds (Some st1)" for ds using c by simp
      have "frameless_poke (c # cs) st" if "frameless_poke cs st1"
        using that unfolding frameless_poke_def by (metis append_Cons run)
      with Cons.IH [OF c(2)] run [of cs] show ?thesis by metis
    qed (use f in \<open>auto simp: fine_op_def split: trap.splits\<close>)
  qed
qed simp

lemma stk_elems_sp: "n \<le> sp st \<Longrightarrow> stk_elems (st \<lparr> sp := n \<rparr>) = take n (stk_elems st)"
  by (simp add: stk_elems_def min.absorb1)

section \<open>Properties\<close>

text \<open>
  C8. Memory safety of the stack interface: from a well-formed stack, a run of any operations
  ends in a well-formed stack or in an EXCEPTION. The only way to an undefined access is a
  poke issued while no frame is open, which indexes \<open>frames[-1]\<close>.
\<close>

theorem stack_run_safe:
  assumes "stk_ok st"
  shows "(\<forall>z. stk_run cs (Some st) = Ret ((), z) \<longrightarrow> (\<exists>st'. z = Some st' \<and> stk_ok st')) \<and>
    (\<forall>m. stk_run cs (Some st) = Trap (Fault m) \<longrightarrow> frameless_poke cs st) \<and>
    stk_run cs (Some st) \<noteq> Diverge"
  using stk_run_fine [OF assms, of cs] by auto

definition demo_stack :: s_expr_stack where
  "demo_stack = \<lparr> stk_data = map (\<lambda>i. zero_param \<lparr> p_union := i \<rparr>) [10, 20, 30, 40, 0, 0],
     capacity = 6, sp = 4, frames = replicate 16 zero_frame, frame_count = 0 \<rparr>"

lemma demo_stack_ok: "stk_ok demo_stack"
  by (simp add: stk_ok_def demo_stack_def)

theorem stack_run_safe_witness:
  "\<exists>st'. stk_run [Cpop, Cpush_frame 1 2, Cpop_frame] (Some demo_stack) = Ret ((), Some st') \<and> stk_ok st'"
proof -
  have "returns (stk_run [Cpop, Cpush_frame 1 2, Cpop_frame] (Some demo_stack))"
    by (simp add: demo_stack_def ignoring_def s_expr_stack_pop_def s_expr_stack_push_frame_def
        s_expr_stack_pop_frame_def within_def Let_def numeral_2_eq_2 returns_def)
  then have "\<exists>z. stk_run [Cpop, Cpush_frame 1 2, Cpop_frame] (Some demo_stack) = Ret ((), z)"
    by (auto simp: returns_iff)
  then show ?thesis
    using stack_run_safe [OF demo_stack_ok, of "[Cpop, Cpush_frame 1 2, Cpop_frame]"] by blast
qed

text \<open>
  Rotation: whichever of its two loops runs, the slots from the index up are rotated to
  the right by \<open>n mod count\<close>, for every \<open>n\<close> of either sign; the slots below stay.
\<close>

theorem stack_rotate_list:
  assumes "stk_ok st" "stack_to_array_idx st idx = Some k"
  shows "\<exists>st'. s_expr_stack_rotate idx n (Some st) = Ret (True, Some st') \<and> stk_ok st' \<and>
    stk_elems st' = take k (stk_elems st) @ rotate (nat ((- n) mod int (sp st - k))) (drop k (stk_elems st))"
  using rotate_spec [OF assms, of n] by blast

theorem stack_rotate_list_witness:
  "\<exists>st'. s_expr_stack_rotate (-3) (-1) (Some demo_stack) = Ret (True, Some st') \<and> stk_ok st' \<and>
    map p_union (stk_elems st') = [10, 30, 40, 20]"
proof -
  have "stack_to_array_idx demo_stack (-3) = Some 1" by code_simp
  from stack_rotate_list [OF demo_stack_ok this, of "-1"]
  obtain st' where "s_expr_stack_rotate (-3) (-1) (Some demo_stack) = Ret (True, Some st')" "stk_ok st'"
    "stk_elems st' = take 1 (stk_elems demo_stack) @ rotate 1 (drop 1 (stk_elems demo_stack))"
    by (auto simp: demo_stack_def)
  then show ?thesis by (simp add: demo_stack_def stk_elems_def zero_param_def)
qed

text \<open>
  Inserting the top at an index is the rotation by one, and removing an index is the
  rotation by minus one followed by dropping the top, as the Lua interface they copy defines
  them.
\<close>

theorem stack_insert_remove_rotate:
  assumes "stk_ok st" "stack_to_array_idx st idx = Some k"
  shows "(\<exists>a b. s_expr_stack_insert idx (Some st) = Ret (True, Some a) \<and>
        s_expr_stack_rotate idx 1 (Some st) = Ret (True, Some b) \<and> stk_elems a = stk_elems b) \<and>
    (\<exists>a b c i. s_expr_stack_remove idx (Some st) = Ret (True, Some a) \<and>
        s_expr_stack_rotate idx (-1) (Some st) = Ret (True, Some b) \<and>
        s_expr_stack_pop (Some b) = Ret (i, Some c) \<and> stk_elems a = stk_elems c)"
proof -
  let ?s = "drop k (stk_elems st)"
  have k: "k < sp st" using array_idx_less assms(2) .
  have l: "length ?s = sp st - k" using assms(1) by simp
  then have ne: "?s \<noteq> []" using k by auto
  have m1: "nat ((- 1) mod int (sp st - k)) = sp st - k - 1"
    using k by (simp add: zmod_minus1 of_nat_diff nat_diff_distrib')
  have "last (stk_elems st) # butlast ?s = rotate (nat ((- 1) mod int (sp st - k))) ?s"
  proof -
    have "last ?s = last (stk_elems st)" using ne by (simp add: last_drop)
    then show ?thesis using rotate_last [OF ne] unfolding l m1 by simp
  qed
  then have "\<exists>a b. s_expr_stack_insert idx (Some st) = Ret (True, Some a) \<and>
        s_expr_stack_rotate idx 1 (Some st) = Ret (True, Some b) \<and> stk_elems a = stk_elems b"
    using insert_spec [OF assms] rotate_spec [OF assms, of 1] by auto
  moreover have "butlast (rotate (nat (- (- 1) mod int (sp st - k))) ?s) = drop (Suc k) (stk_elems st)"
  proof -
    obtain x t where t: "?s = x # t" using ne by (cases ?s) auto
    then have "t = drop (Suc k) (stk_elems st)" by (metis drop_Suc list.sel(3) tl_drop)
    moreover have "rotate (nat (1 mod int (sp st - k))) ?s = rotate 1 ?s"
    proof (rule rotate_cong)
      have "nat (1 mod int (sp st - k)) = 1 mod (sp st - k)"
        by (metis nat_int of_nat_1 zmod_int)
      then show "nat (1 mod int (sp st - k)) mod length ?s = 1 mod length ?s" unfolding l by simp
    qed
    ultimately show ?thesis using t by simp
  qed
  then obtain b where b: "s_expr_stack_rotate idx (-1) (Some st) = Ret (True, Some b)" "stk_ok b"
      "sp b = sp st" "butlast (stk_elems b) = take k (stk_elems st) @ drop (Suc k) (stk_elems st)"
    using rotate_spec [OF assms, of "-1"] ne by (auto simp: butlast_append)
  have "s_expr_stack_pop (Some b) = Ret (sp b - 1, Some (b \<lparr> sp := sp b - 1 \<rparr>))"
    using b k by (simp add: s_expr_stack_pop_def)
  moreover have "stk_elems (b \<lparr> sp := sp b - 1 \<rparr>) = butlast (stk_elems b)"
    using b by (simp add: stk_elems_sp butlast_conv_take)
  ultimately show ?thesis using remove_spec [OF assms] b by auto
qed

theorem stack_insert_remove_rotate_witness:
  "\<exists>a b. s_expr_stack_insert 2 (Some demo_stack) = Ret (True, Some a) \<and>
     s_expr_stack_rotate 2 1 (Some demo_stack) = Ret (True, Some b) \<and> stk_elems a = stk_elems b"
proof -
  have "stack_to_array_idx demo_stack 2 = Some 1" by code_simp
  from stack_insert_remove_rotate [OF demo_stack_ok this] show ?thesis by blast
qed

text \<open>
  A call through a frame: pushing a frame opens zeroed locals above the arguments, a
  local index reads the arguments first and the locals after them, and popping the frame
  leaves exactly what was below the arguments.
\<close>

theorem stack_frame_call:
  assumes "stk_ok st" "frame_count st < 16" "sp st + nl \<le> capacity st" "np \<le> sp st"
  shows "\<exists>st1 st2. s_expr_stack_push_frame np nl (Some st) = Ret (True, Some st1) \<and> stk_ok st1 \<and>
    (\<forall>i. s_expr_stack_get_local (Some st1) i =
        Ret (if i < np + nl then Some (sp st - np + i) else None)) \<and>
    drop (sp st - np) (stk_elems st1) = drop (sp st - np) (stk_elems st) @ replicate nl zero_param \<and>
    s_expr_stack_scratch_depth (Some st1) = Ret 0 \<and>
    s_expr_stack_pop_frame (Some st1) = Ret ((), Some st2) \<and> stk_ok st2 \<and>
    stk_elems st2 = take (sp st - np) (stk_elems st)"
proof -
  from push_frame_spec [OF assms(1), of nl np] assms
  obtain st1 where p: "s_expr_stack_push_frame np nl (Some st) = Ret (True, Some st1)" "stk_ok st1"
    "frame_count st1 = Suc (frame_count st)" "sp st1 = sp st + nl"
    "frames st1 ! frame_count st = \<lparr> base_ptr = sp st - np, num_params = np, num_locals = nl,
      scratch_base = sp st + nl \<rparr>"
    "stk_elems st1 = stk_elems st @ replicate nl zero_param" by auto
  have fl: "\<not> length (frames st1) < Suc (frame_count st)" using stk_okD [OF p(2)] p(3) by simp
  let ?st2 = "st1 \<lparr> frame_count := frame_count st, sp := sp st - np \<rparr>"
  have pop: "s_expr_stack_pop_frame (Some st1) = Ret ((), Some ?st2)"
    using p fl by (simp add: s_expr_stack_pop_frame_def)
  then have "stk_ok ?st2" using fine_frames(2) [OF p(2)] by simp
  moreover have "stk_elems ?st2 = take (sp st - np) (stk_elems st)"
  proof -
    have "stk_elems ?st2 = take (sp st - np) (take (sp st1) (stk_data st1))"
      using p(4) by (simp add: stk_elems_def min.absorb1)
    also have "\<dots> = take (sp st - np) (stk_elems st1)" by (simp add: stk_elems_def)
    also have "\<dots> = take (sp st - np) (stk_elems st)"
      unfolding p(6) using length_stk_elems [OF assms(1)] by simp
    finally show ?thesis .
  qed
  moreover have "drop (sp st - np) (stk_elems st1) =
      drop (sp st - np) (stk_elems st) @ replicate nl zero_param"
    using p(6) assms(1) by simp
  moreover have "s_expr_stack_get_local (Some st1) i =
        Ret (if i < np + nl then Some (sp st - np + i) else None)" for i
    using p fl by (simp add: s_expr_stack_get_local_def Let_def)
  moreover have "s_expr_stack_scratch_depth (Some st1) = Ret 0"
    using p fl by (simp add: s_expr_stack_scratch_depth_def)
  ultimately show ?thesis using p pop by blast
qed

theorem stack_frame_call_witness:
  "\<exists>st1 st2. s_expr_stack_push_frame 2 1 (Some demo_stack) = Ret (True, Some st1) \<and>
    s_expr_stack_pop_frame (Some st1) = Ret ((), Some st2) \<and> map p_union (stk_elems st2) = [10, 20]"
proof -
  have "frame_count demo_stack < 16" "sp demo_stack + 1 \<le> capacity demo_stack" "2 \<le> sp demo_stack"
    by (simp_all add: demo_stack_def)
  from stack_frame_call [OF demo_stack_ok this] obtain st1 st2 where
    "s_expr_stack_push_frame 2 1 (Some demo_stack) = Ret (True, Some st1)"
    "s_expr_stack_pop_frame (Some st1) = Ret ((), Some st2)"
    "stk_elems st2 = take (sp demo_stack - 2) (stk_elems demo_stack)" by blast
  then show ?thesis by (simp add: demo_stack_def stk_elems_def zero_param_def)
qed

end
