(* ===== verification/SE_Inst.thy ===== *)
theory SE_Inst
  imports SE_Nav SE_Queue SE_Stack
begin

text \<open>
  The tree instance (\<open>s_expr_tree_instance_t\<close>) and what a node function may do to it: the
  state of its own node, the pointer slots of a \<open>pt_m_call\<close>, the blackboard fields. The world
  outside the engine, which user functions reach through \<open>user_ctx\<close>, is the field \<open>user_ctx\<close>
  of an arbitrary type.

  A \<open>ctx\<close> is what stays fixed while a tree runs: its parameter array and the three function
  tables of its module, with \<open>None\<close> for a \<open>NULL\<close> entry. A node function is a C function
  pointer, so the tables hold functions over the instance.
\<close>

section \<open>The instance\<close>

record 'w inst =
  node_states :: "s_expr_node_state list"
  pointer_array :: "64 word list option"
  blackboard :: "8 word list option"
  current_node_index :: nat
  current_event_id :: nat
  current_event_data :: cptr
  in_pointer_call :: bool
  pointer_base :: nat
  evq_state :: evq
  inst_stack :: "s_expr_stack option"
  tick_type :: nat
  current_dict :: "nat option"
  user_ctx :: 'w

type_synonym ('w, 'a) iact = "('w inst, 'a) act"
type_synonym ('w, 'a) node_fn = "slice \<Rightarrow> s_expr_event_type \<Rightarrow> nat \<Rightarrow> cptr \<Rightarrow> ('w, 'a) iact"

record 'w ctx =
  tree_params :: "s_expr_param list"
  main_fns :: "('w, s_expr_result) node_fn option list"
  pred_fns :: "('w, bool) node_fn option list"
  oneshot_fns :: "('w, unit) node_fn option list"

text \<open>The slice of the whole tree, and one element of a slice.\<close>

definition tree_slice :: "'w ctx \<Rightarrow> slice" where
  "tree_slice c = \<lparr> s_base = (if tree_params c = [] then None else Some 0), s_count = length (tree_params c) \<rparr>"

definition rdA :: "'w ctx \<Rightarrow> slice \<Rightarrow> nat \<Rightarrow> ('w, s_expr_param) iact" where
  "rdA c a i = liftA (rd (tree_params c) a i)"

text \<open>Operations of the stack and of the queue, on the parts of the instance.\<close>

definition on_inst_stack :: "'a stack_op \<Rightarrow> ('w, 'a) iact" where
  "on_inst_stack m = (\<lambda>s. res_bind (m (inst_stack s)) (\<lambda>(x, z). Ret (x, s \<lparr> inst_stack := z \<rparr>)))"

definition on_inst_queue :: "(evq, 'a) act \<Rightarrow> ('w, 'a) iact" where
  "on_inst_queue m = (\<lambda>s. res_bind (m (evq_state s)) (\<lambda>(x, q). Ret (x, s \<lparr> evq_state := q \<rparr>)))"

section \<open>Node states by index\<close>

definition node_count :: "'w inst \<Rightarrow> nat" where
  "node_count s = length (node_states s)"

definition set_node :: "nat \<Rightarrow> s_expr_node_state \<Rightarrow> ('w, unit) iact" where
  "set_node i n = modA (\<lambda>s. s \<lparr> node_states := (node_states s)[i := n] \<rparr>)"

definition upd_node :: "nat \<Rightarrow> (s_expr_node_state \<Rightarrow> s_expr_node_state) \<Rightarrow> ('w, unit) iact" where
  "upd_node i f = modA (\<lambda>s. s \<lparr> node_states := (node_states s)[i := f (node_states s ! i)] \<rparr>)"

text \<open>\<open>get_node_state\<close> of the evaluator: the state is returned, its place is its index.\<close>

definition get_node_state :: "nat \<Rightarrow> ('w, s_expr_node_state) iact" where
  "get_node_state i = (\<lambda>s.
     if i \<ge> node_count s then Trap (Exception ''get_node_state: node_index out of range'')
     else Ret (node_states s ! i, s))"

section \<open>The current node\<close>

text \<open>The accessors of \<open>s_engine_types.h\<close>, which are silent when the index is out of range.\<close>

definition cur_node :: "'w inst \<Rightarrow> s_expr_node_state option" where
  "cur_node s = (if current_node_index s \<ge> node_count s then None
     else Some (node_states s ! current_node_index s))"

definition upd_cur :: "(s_expr_node_state \<Rightarrow> s_expr_node_state) \<Rightarrow> ('w, unit) iact" where
  "upd_cur f = modA (\<lambda>s. if current_node_index s \<ge> node_count s then s
     else s \<lparr> node_states := (node_states s)[current_node_index s :=
                f (node_states s ! current_node_index s)] \<rparr>)"

definition s_expr_get_state :: "('w, nat) iact" where
  "s_expr_get_state = getA (\<lambda>s. case cur_node s of None \<Rightarrow> 0 | Some n \<Rightarrow> unat (ns_state n))"

definition s_expr_set_state :: "nat \<Rightarrow> ('w, unit) iact" where
  "s_expr_set_state v = upd_cur (\<lambda>n. n \<lparr> ns_state := of_nat v \<rparr>)"

definition s_expr_get_user_flags :: "('w, nat) iact" where
  "s_expr_get_user_flags = getA (\<lambda>s. case cur_node s of None \<Rightarrow> 0 | Some n \<Rightarrow> unat (ns_user_data n))"

definition s_expr_set_user_flags :: "nat \<Rightarrow> ('w, unit) iact" where
  "s_expr_set_user_flags v = upd_cur (\<lambda>n. n \<lparr> ns_user_data := of_nat v \<rparr>)"

definition s_expr_get_system_flags :: "('w, 8 word) iact" where
  "s_expr_get_system_flags = getA (\<lambda>s. case cur_node s of None \<Rightarrow> 0 | Some n \<Rightarrow> ns_flags n)"

definition s_expr_set_system_flags :: "8 word \<Rightarrow> ('w, unit) iact" where
  "s_expr_set_system_flags v = upd_cur (\<lambda>n. n \<lparr> ns_flags := v \<rparr>)"

text \<open>The accessors of \<open>s_engine_module.c\<close>, which raise an \<open>EXCEPTION\<close> instead.\<close>

definition get_current_state :: "('w, s_expr_node_state) iact" where
  "get_current_state = (\<lambda>s. case cur_node s of
     None \<Rightarrow> Trap (Exception ''get_current_state: current_node_index out of range'')
   | Some n \<Rightarrow> Ret (n, s))"

definition s_expr_node_get_flags :: "('w, 8 word) iact" where
  "s_expr_node_get_flags = bindA get_current_state (\<lambda>n. retA (ns_flags n))"

abbreviation S_EXPR_NODE_FLAGS_SYSTEM :: "8 word" where "S_EXPR_NODE_FLAGS_SYSTEM \<equiv> 0x0F"
abbreviation S_EXPR_NODE_FLAGS_USER :: "8 word" where "S_EXPR_NODE_FLAGS_USER \<equiv> 0xF0"

definition s_expr_node_set_user_flags :: "8 word \<Rightarrow> ('w, unit) iact" where
  "s_expr_node_set_user_flags f = bindA get_current_state (\<lambda>n.
     upd_cur (\<lambda>n. n \<lparr> ns_flags := (ns_flags n AND S_EXPR_NODE_FLAGS_SYSTEM) OR (f AND S_EXPR_NODE_FLAGS_USER) \<rparr>))"

definition s_expr_node_get_state :: "('w, nat) iact" where
  "s_expr_node_get_state = bindA get_current_state (\<lambda>n. retA (unat (ns_state n)))"

definition s_expr_node_set_state :: "nat \<Rightarrow> ('w, unit) iact" where
  "s_expr_node_set_state v = bindA get_current_state (\<lambda>n. upd_cur (\<lambda>n. n \<lparr> ns_state := of_nat v \<rparr>))"

definition s_expr_node_get_user_data :: "('w, nat) iact" where
  "s_expr_node_get_user_data = bindA get_current_state (\<lambda>n. retA (unat (ns_user_data n)))"

definition s_expr_node_set_user_data :: "nat \<Rightarrow> ('w, unit) iact" where
  "s_expr_node_set_user_data v = bindA get_current_state (\<lambda>n. upd_cur (\<lambda>n. n \<lparr> ns_user_data := of_nat v \<rparr>))"

section \<open>Pointer slots\<close>

text \<open>
  \<open>s_expr_get_user_u64\<close> and its siblings of the evaluator, and \<open>s_expr_get_u64\<close> and its
  siblings of the module: a 64-bit slot at \<open>pointer_base\<close>, inside a \<open>pt_m_call\<close> only. The two
  families differ in the order of their guards.
\<close>

definition user_slot :: "string \<Rightarrow> ('w, nat) iact" where
  "user_slot who = (\<lambda>s. case pointer_array s of
     None \<Rightarrow> Trap (Exception (who @ '': NULL pointer_array''))
   | Some arr \<Rightarrow>
       if \<not> in_pointer_call s then Trap (Exception (who @ '': called outside pt_m_call context''))
       else if pointer_base s \<ge> length arr then Trap (Exception (who @ '': pointer_base out of range''))
       else Ret (pointer_base s, s))"

definition slot_get :: "nat \<Rightarrow> ('w, 64 word) iact" where
  "slot_get i = (\<lambda>s. case pointer_array s of
     None \<Rightarrow> Trap (Fault ''pointer_array read through NULL'')
   | Some arr \<Rightarrow> if i < length arr then Ret (arr ! i, s) else Trap (Fault ''pointer_array read out of bounds''))"

definition slot_set :: "nat \<Rightarrow> 64 word \<Rightarrow> ('w, unit) iact" where
  "slot_set i v = (\<lambda>s. case pointer_array s of
     None \<Rightarrow> Trap (Fault ''pointer_array written through NULL'')
   | Some arr \<Rightarrow> if i < length arr then Ret ((), s \<lparr> pointer_array := Some (arr[i := v]) \<rparr>)
       else Trap (Fault ''pointer_array written out of bounds''))"

definition s_expr_get_user_u64 :: "('w, 64 word) iact" where
  "s_expr_get_user_u64 = bindA (user_slot ''s_expr_get_user_u64'') slot_get"

definition s_expr_set_user_u64 :: "64 word \<Rightarrow> ('w, unit) iact" where
  "s_expr_set_user_u64 v = bindA (user_slot ''s_expr_set_user_u64'') (\<lambda>i. slot_set i v)"

definition s_expr_get_user_i64 :: "('w, 64 word) iact" where
  "s_expr_get_user_i64 = bindA (user_slot ''s_expr_get_user_i64'') slot_get"

definition s_expr_set_user_i64 :: "64 word \<Rightarrow> ('w, unit) iact" where
  "s_expr_set_user_i64 v = bindA (user_slot ''s_expr_set_user_i64'') (\<lambda>i. slot_set i v)"

definition s_expr_get_user_f64 :: "('w, 64 word) iact" where
  "s_expr_get_user_f64 = bindA (user_slot ''s_expr_get_user_f64'') slot_get"

definition s_expr_set_user_f64 :: "64 word \<Rightarrow> ('w, unit) iact" where
  "s_expr_set_user_f64 v = bindA (user_slot ''s_expr_set_user_f64'') (\<lambda>i. slot_set i v)"

definition module_slot :: "string \<Rightarrow> ('w, nat) iact" where
  "module_slot who = (\<lambda>s.
     if \<not> in_pointer_call s then
       Trap (Exception (who @ '': called outside pt_m_call context - use pt_m_call() in DSL''))
     else case pointer_array s of
       None \<Rightarrow> Trap (Exception (who @ '': pointer_base out of range''))
     | Some arr \<Rightarrow>
         if pointer_base s \<ge> length arr then Trap (Exception (who @ '': pointer_base out of range''))
         else Ret (pointer_base s, s))"

definition s_expr_get_u64 :: "('w, 64 word) iact" where
  "s_expr_get_u64 = bindA (module_slot ''s_expr_get_u64'') slot_get"

definition s_expr_set_u64 :: "64 word \<Rightarrow> ('w, unit) iact" where
  "s_expr_set_u64 v = bindA (module_slot ''s_expr_set_u64'') (\<lambda>i. slot_set i v)"

section \<open>Blackboard fields\<close>

text \<open>
  A field pointer is the blackboard plus the offset of the parameter: \<open>None\<close> when that is
  \<open>NULL\<close>. A 32-bit access is little-endian; outside the blackboard it is undefined.
\<close>

definition S_EXPR_GET_FIELD :: "'w inst \<Rightarrow> s_expr_param \<Rightarrow> nat option" where
  "S_EXPR_GET_FIELD s p =
     (if blackboard s = None \<and> field_offset p = 0 then None else Some (field_offset p))"

definition le32 :: "8 word list \<Rightarrow> nat \<Rightarrow> 32 word" where
  "le32 bb o1 = push_bit 24 (ucast (bb ! (o1 + 3))) OR push_bit 16 (ucast (bb ! (o1 + 2)))
     OR push_bit 8 (ucast (bb ! (o1 + 1))) OR ucast (bb ! o1)"

definition put32 :: "8 word list \<Rightarrow> nat \<Rightarrow> 32 word \<Rightarrow> 8 word list" where
  "put32 bb o1 v = bb[o1 := ucast v, o1 + 1 := ucast (drop_bit 8 v),
     o1 + 2 := ucast (drop_bit 16 v), o1 + 3 := ucast (drop_bit 24 v)]"

definition field_read :: "nat option \<Rightarrow> ('w, 32 word) iact" where
  "field_read ptr = (\<lambda>s. case (ptr, blackboard s) of
     (Some o1, Some bb) \<Rightarrow> if o1 + 4 \<le> length bb then Ret (le32 bb o1, s)
       else Trap (Fault ''blackboard read out of bounds'')
   | _ \<Rightarrow> Trap (Fault ''blackboard read through NULL''))"

definition field_write :: "nat option \<Rightarrow> 32 word \<Rightarrow> ('w, unit) iact" where
  "field_write ptr v = (\<lambda>s. case (ptr, blackboard s) of
     (Some o1, Some bb) \<Rightarrow> if o1 + 4 \<le> length bb then Ret ((), s \<lparr> blackboard := Some (put32 bb o1 v) \<rparr>)
       else Trap (Fault ''blackboard written out of bounds'')
   | _ \<Rightarrow> Trap (Fault ''blackboard written through NULL''))"

lemma le32_put32:
  assumes "o1 + 4 \<le> length bb"
  shows "le32 (put32 bb o1 v) o1 = v"
proof -
  have "le32 (put32 bb o1 v) o1 = push_bit 24 (ucast (ucast (drop_bit 24 v) :: 8 word))
      OR push_bit 16 (ucast (ucast (drop_bit 16 v) :: 8 word))
      OR push_bit 8 (ucast (ucast (drop_bit 8 v) :: 8 word)) OR ucast (ucast v :: 8 word)"
    using assms by (simp add: le32_def put32_def)
  also have "\<dots> = v"
  proof (rule bit_word_eqI)
    fix n assume "n < LENGTH(32)"
    then consider "n < 8" | "8 \<le> n" "n < 16" | "16 \<le> n" "n < 24" | "24 \<le> n" "n < 32" by force
    then show "bit ((push_bit 24 (ucast (ucast (drop_bit 24 v) :: 8 word))
      OR push_bit 16 (ucast (ucast (drop_bit 16 v) :: 8 word))
      OR push_bit 8 (ucast (ucast (drop_bit 8 v) :: 8 word)) OR ucast (ucast v :: 8 word) :: 32 word)) n = bit v n"
      by cases (auto simp: bit_simps)
  qed
  finally show ?thesis .
qed

end
