(* ===== verification/SE_Node.thy ===== *)
theory SE_Node
  imports SE_Inst
begin

text \<open>
  Dispatch and the node API (\<open>s_engine_eval.c\<close>, \<open>s_engine_node.c\<close> and
  \<open>s_engine_builtins_shared_helpers.h\<close>): how a callable parameter is turned into a call of
  its function with the node context set and restored, the life cycle INIT - event - TERMINATE
  of a \<open>MAIN\<close> node, the once-only flags of a \<open>ONESHOT\<close>, and the operations by which composite
  nodes count, invoke, reset and terminate their children. A \<open>NULL\<close> instance is not modelled;
  every other guard is.
\<close>

section \<open>Node context\<close>

text \<open>The three context fields that every call of a node function sets and restores.\<close>

type_synonym node_context = "nat \<times> bool \<times> nat"

definition node_context_of :: "'w inst \<Rightarrow> node_context" where
  "node_context_of s = (current_node_index s, in_pointer_call s, pointer_base s)"

definition restore_node_context :: "node_context \<Rightarrow> ('w, unit) iact" where
  "restore_node_context k = modA (\<lambda>s. s \<lparr> current_node_index := fst k,
     in_pointer_call := fst (snd k), pointer_base := snd (snd k) \<rparr>)"

definition enter_node :: "s_expr_param \<Rightarrow> ('w, unit) iact" where
  "enter_node fp = modA (\<lambda>s.
     let s1 = s \<lparr> current_node_index := node_index fp \<rparr> in
     if has_pointer fp then s1 \<lparr> in_pointer_call := True, pointer_base := unat (index_to_pointer fp) \<rparr>
     else s1)"

definition set_current_node :: "nat \<Rightarrow> ('w, unit) iact" where
  "set_current_node i = modA (\<lambda>s. s \<lparr> current_node_index := i \<rparr>)"

definition set_flag :: "8 word \<Rightarrow> s_expr_node_state \<Rightarrow> s_expr_node_state" where
  "set_flag f n = n \<lparr> ns_flags := ns_flags n OR f \<rparr>"

definition clear_active :: "s_expr_node_state \<Rightarrow> s_expr_node_state" where
  "clear_active n = n \<lparr> ns_flags := ns_flags n AND NOT S_EXPR_NODE_FLAG_ACTIVE \<rparr>"

section \<open>Dispatch\<close>

definition dispatch_oneshot ::
    "'w ctx \<Rightarrow> s_expr_param \<Rightarrow> slice \<Rightarrow> s_expr_event_type \<Rightarrow> nat \<Rightarrow> cptr \<Rightarrow> ('w, unit) iact" where
  "dispatch_oneshot c fp args ev event_id event_data =
     bindA (get_node_state (node_index fp)) (\<lambda>state.
     let check_flag = (if survives_reset fp then S_EXPR_NODE_FLAG_EVER_INIT
                       else S_EXPR_NODE_FLAG_INITIALIZED) in
     if ns_flags state AND check_flag \<noteq> 0 then retA ()
     else
       seqA (upd_node (node_index fp) (set_flag check_flag))
       (bindA (getA current_node_index) (\<lambda>saved_node.
       seqA (set_current_node (node_index fp))
       (if func_index fp \<ge> length (oneshot_fns c) then
          excA ''dispatch_oneshot: func_index out of range''
        else case oneshot_fns c ! func_index fp of
          None \<Rightarrow> excA ''dispatch_oneshot: NULL function pointer''
        | Some fn \<Rightarrow>
            seqA (fn args ev event_id event_data) (set_current_node saved_node)))))"

definition dispatch_pred ::
    "'w ctx \<Rightarrow> s_expr_param \<Rightarrow> slice \<Rightarrow> s_expr_event_type \<Rightarrow> nat \<Rightarrow> cptr \<Rightarrow> ('w, bool) iact" where
  "dispatch_pred c fp args ev event_id event_data =
     bindA (getA current_node_index) (\<lambda>saved_node.
     seqA (set_current_node (node_index fp))
     (if func_index fp \<ge> length (pred_fns c) then
        excA ''dispatch_pred: func_index out of range''
      else case pred_fns c ! func_index fp of
        None \<Rightarrow> excA ''dispatch_pred: NULL function pointer''
      | Some fn \<Rightarrow>
          bindA (fn args ev event_id event_data) (\<lambda>result.
          seqA (set_current_node saved_node) (retA result))))"

definition dispatch_main ::
    "'w ctx \<Rightarrow> s_expr_param \<Rightarrow> slice \<Rightarrow> s_expr_event_type \<Rightarrow> nat \<Rightarrow> cptr \<Rightarrow> ('w, s_expr_result) iact" where
  "dispatch_main c fp args ev event_id event_data =
     bindA (get_node_state (node_index fp)) (\<lambda>state.
     if \<not> is_active state then retA SE_PIPELINE_CONTINUE
     else
       bindA (getA node_context_of) (\<lambda>saved.
       seqA (enter_node fp)
       (if func_index fp \<ge> length (main_fns c) then
          excA ''dispatch_main: func_index out of range''
        else case main_fns c ! func_index fp of
          None \<Rightarrow> excA ''dispatch_main: NULL function pointer''
        | Some fn \<Rightarrow>
            seqA (if \<not> is_initialized state then
                    seqA (upd_node (node_index fp) (set_flag S_EXPR_NODE_FLAG_INITIALIZED))
                    (bindA (fn args SE_EVENT_INIT event_id event_data) (\<lambda>_. retA ()))
                  else retA ())
            (bindA (fn args ev event_id event_data) (\<lambda>result.
             seqA (if result = SE_PIPELINE_DISABLE then
                     bindA (fn args SE_EVENT_TERMINATE event_id event_data) (\<lambda>_.
                       upd_node (node_index fp) clear_active)
                   else retA ())
             (seqA (restore_node_context saved) (retA result)))))))"

section \<open>Invoking a callable parameter\<close>

definition s_expr_invoke_main :: "'w ctx \<Rightarrow> slice \<Rightarrow> nat \<Rightarrow> ('w, s_expr_result) iact" where
  "s_expr_invoke_main c a idx =
     (if s_base a = None then excA ''s_expr_invoke_main: NULL params''
      else bindA (rdA c a idx) (\<lambda>p.
        if opcode p = S_EXPR_PARAM_OPEN_CALL then
          bindA (rdA c a (idx + 1)) (\<lambda>fp.
          bindA (liftA (s_expr_call_args (tree_params c) a idx)) (\<lambda>args.
          bindA (getA (\<lambda>s. (current_event_id s, current_event_data s))) (\<lambda>(event_id, event_data).
          dispatch_main c fp args SE_EVENT_TICK event_id event_data)))
        else if opcode p = S_EXPR_PARAM_MAIN then
          bindA (getA (\<lambda>s. (current_event_id s, current_event_data s))) (\<lambda>(event_id, event_data).
          dispatch_main c p \<lparr> s_base = None, s_count = 0 \<rparr> SE_EVENT_TICK event_id event_data)
        else excA ''s_expr_invoke_main: param is not MAIN or OPEN_CALL''))"

definition s_expr_invoke_oneshot :: "'w ctx \<Rightarrow> slice \<Rightarrow> nat \<Rightarrow> ('w, unit) iact" where
  "s_expr_invoke_oneshot c a idx =
     (if s_base a = None then excA ''s_expr_invoke_oneshot: NULL params''
      else bindA (rdA c a idx) (\<lambda>p.
        if opcode p = S_EXPR_PARAM_OPEN_CALL then
          bindA (rdA c a (idx + 1)) (\<lambda>fp.
          bindA (liftA (s_expr_call_args (tree_params c) a idx)) (\<lambda>args.
          bindA (getA (\<lambda>s. (current_event_id s, current_event_data s))) (\<lambda>(event_id, event_data).
          dispatch_oneshot c fp args SE_EVENT_TICK event_id event_data)))
        else if opcode p = S_EXPR_PARAM_ONESHOT then
          bindA (getA (\<lambda>s. (current_event_id s, current_event_data s))) (\<lambda>(event_id, event_data).
          dispatch_oneshot c p \<lparr> s_base = None, s_count = 0 \<rparr> SE_EVENT_TICK event_id event_data)
        else excA ''s_expr_invoke_oneshot: param is not ONESHOT or OPEN_CALL''))"

definition s_expr_invoke_pred :: "'w ctx \<Rightarrow> slice \<Rightarrow> nat \<Rightarrow> ('w, bool) iact" where
  "s_expr_invoke_pred c a idx =
     (if s_base a = None then excA ''s_expr_invoke_pred: NULL params''
      else bindA (rdA c a idx) (\<lambda>p.
        if opcode p = S_EXPR_PARAM_OPEN_CALL then
          bindA (rdA c a (idx + 1)) (\<lambda>fp.
          bindA (liftA (s_expr_call_args (tree_params c) a idx)) (\<lambda>args.
          bindA (getA (\<lambda>s. (current_event_id s, current_event_data s))) (\<lambda>(event_id, event_data).
          dispatch_pred c fp args SE_EVENT_TICK event_id event_data)))
        else if opcode p = S_EXPR_PARAM_PRED then
          bindA (getA (\<lambda>s. (current_event_id s, current_event_data s))) (\<lambda>(event_id, event_data).
          dispatch_pred c p \<lparr> s_base = None, s_count = 0 \<rparr> SE_EVENT_TICK event_id event_data)
        else excA ''s_expr_invoke_pred: param is not PRED or OPEN_CALL''))"

definition invoke_as :: "'w ctx \<Rightarrow> 8 word \<Rightarrow> string \<Rightarrow> slice \<Rightarrow> nat \<Rightarrow> ('w, s_expr_result) iact" where
  "invoke_as c opc msg a idx =
     (if opc = S_EXPR_PARAM_MAIN then s_expr_invoke_main c a idx
      else if opc = S_EXPR_PARAM_ONESHOT then
        seqA (s_expr_invoke_oneshot c a idx) (retA SE_PIPELINE_CONTINUE)
      else if opc = S_EXPR_PARAM_PRED then
        bindA (s_expr_invoke_pred c a idx) (\<lambda>b.
          retA (if b then SE_PIPELINE_CONTINUE else SE_PIPELINE_HALT))
      else excA msg)"

definition s_expr_invoke_any :: "'w ctx \<Rightarrow> slice \<Rightarrow> nat \<Rightarrow> ('w, s_expr_result) iact" where
  "s_expr_invoke_any c a idx =
     (if s_base a = None then excA ''s_expr_invoke_any: NULL params''
      else bindA (rdA c a idx) (\<lambda>p.
        if opcode p = S_EXPR_PARAM_OPEN_CALL then
          bindA (rdA c a (idx + 1)) (\<lambda>fp.
            invoke_as c (opcode fp) ''s_expr_invoke_any: unknown function type in OPEN_CALL'' a idx)
        else invoke_as c (opcode p) ''s_expr_invoke_any: param is not a callable type'' a idx))"

section \<open>The states of callables\<close>

text \<open>\<open>get_callable_state\<close>: the returned pointer is the index of the node state.\<close>

definition get_callable_state :: "'w ctx \<Rightarrow> slice \<Rightarrow> nat \<Rightarrow> ('w, nat option) iact" where
  "get_callable_state c a i =
     bindA (rdA c a i) (\<lambda>p.
       if opcode p \<noteq> S_EXPR_PARAM_OPEN_CALL then retA None
       else bindA (rdA c a (i + 1)) (\<lambda>fp.
         bindA (getA node_count) (\<lambda>n.
           if node_index fp \<ge> n then excA ''get_callable_state: node_index out of range''
           else retA (Some (node_index fp)))))"

definition reset_callable :: "'w ctx \<Rightarrow> slice \<Rightarrow> nat \<Rightarrow> ('w, unit) iact" where
  "reset_callable c a i = bindA (get_callable_state c a i) (\<lambda>z.
     case z of None \<Rightarrow> retA () | Some k \<Rightarrow> upd_node k ns_reset)"

text \<open>
  Calling the function of the callable at an index with TERMINATE, its context around it, and
  clearing its state: the common tail of \<open>terminate_at_physical_index\<close> and
  \<open>terminate_action_at_index\<close>.
\<close>

definition call_terminate :: "'w ctx \<Rightarrow> slice \<Rightarrow> nat \<Rightarrow> s_expr_param \<Rightarrow> ('w, s_expr_result) node_fn \<Rightarrow> ('w, unit) iact" where
  "call_terminate c a i fp fn =
     bindA (liftA (s_expr_call_args (tree_params c) a i)) (\<lambda>args.
     bindA (getA node_context_of) (\<lambda>saved.
     seqA (enter_node fp)
     (bindA (fn args SE_EVENT_TERMINATE 0 0) (\<lambda>_.
     seqA (restore_node_context saved)
     (set_node (node_index fp) ns_clear)))))"

definition terminate_at_physical_index :: "'w ctx \<Rightarrow> slice \<Rightarrow> nat \<Rightarrow> ('w, unit) iact" where
  "terminate_at_physical_index c a i =
     bindA (rdA c a (i + 1)) (\<lambda>fp.
       if func_index fp \<ge> length (main_fns c) then
         excA ''terminate_at_physical_index: func_index out of range''
       else case main_fns c ! func_index fp of
         None \<Rightarrow> excA ''terminate_at_physical_index: NULL function pointer''
       | Some fn \<Rightarrow> call_terminate c a i fp fn)"

definition terminate_action_at_index :: "'w ctx \<Rightarrow> slice \<Rightarrow> nat \<Rightarrow> ('w, unit) iact" where
  "terminate_action_at_index c a i =
     bindA (rdA c a i) (\<lambda>p.
       if opcode p \<noteq> S_EXPR_PARAM_OPEN_CALL then retA ()
       else bindA (rdA c a (i + 1)) (\<lambda>fp.
         if opcode fp \<noteq> S_EXPR_PARAM_MAIN then retA ()
         else bindA (getA (\<lambda>s. node_index fp \<ge> node_count s \<or> \<not> is_initialized (node_states s ! node_index fp))) (\<lambda>skip.
           if skip \<or> func_index fp \<ge> length (main_fns c) then retA ()
           else case main_fns c ! func_index fp of
             None \<Rightarrow> retA ()
           | Some fn \<Rightarrow> call_terminate c a i fp fn)))"

section \<open>Resetting\<close>

text \<open>
  \<open>reset_all_recursive\<close>: every recursive call starts at least two parameters further into
  the tree and every call reads at its start, so its depth is below the length of the tree.
\<close>

fun reset_all_rec :: "nat \<Rightarrow> 'w ctx \<Rightarrow> slice \<Rightarrow> ('w, unit) iact" where
  "reset_all_rec 0 c a = (\<lambda>_. Diverge)"
| "reset_all_rec (Suc n) c a =
     bindA (whileA nav_fuel (\<lambda>idx. idx < s_count a)
       (\<lambda>idx. bindA (rdA c a idx) (\<lambda>p.
          seqA (if opcode p = S_EXPR_PARAM_OPEN_CALL then
                  seqA (reset_callable c a idx)
                  (bindA (liftA (s_expr_call_args (tree_params c) a idx)) (\<lambda>child_args.
                   if s_base child_args \<noteq> None \<and> s_count child_args > 0
                   then reset_all_rec n c child_args else retA ()))
                else retA ())
          (bindA (liftA (skip_logical_param (tree_params c) a idx)) (\<lambda>j. retA (Inl j :: nat + unit))))) 0)
       (\<lambda>_. retA ())"

definition reset_all_recursive :: "'w ctx \<Rightarrow> slice \<Rightarrow> ('w, unit) iact" where
  "reset_all_recursive c a = reset_all_rec (Suc (length (tree_params c))) c a"

definition s_expr_reset_recursive_at :: "'w ctx \<Rightarrow> slice \<Rightarrow> nat \<Rightarrow> ('w, unit) iact" where
  "s_expr_reset_recursive_at c a i =
     bindA (rdA c a i) (\<lambda>p.
       if opcode p \<noteq> S_EXPR_PARAM_OPEN_CALL then retA ()
       else seqA (reset_callable c a i)
         (bindA (liftA (s_expr_call_args (tree_params c) a i)) (\<lambda>child_args.
          if s_base child_args \<noteq> None \<and> s_count child_args > 0
          then reset_all_recursive c child_args else retA ())))"

definition reset_action_at_index :: "'w ctx \<Rightarrow> slice \<Rightarrow> nat \<Rightarrow> ('w, unit) iact" where
  "reset_action_at_index c a i = s_expr_reset_recursive_at c a i"

text \<open>The child of a slice by its logical index, or an exception.\<close>

definition child_at :: "string \<Rightarrow> 'w ctx \<Rightarrow> slice \<Rightarrow> nat \<Rightarrow> ('w, nat) iact" where
  "child_at msg c a k = bindA (liftA (s_expr_child_index (tree_params c) a k)) (\<lambda>i.
     if i = UINT16_MAX then excA msg else retA i)"

definition s_expr_child_reset :: "'w ctx \<Rightarrow> slice \<Rightarrow> nat \<Rightarrow> ('w, unit) iact" where
  "s_expr_child_reset c a k =
     bindA (child_at ''s_expr_child_reset: logical_index out of range'' c a k) (reset_callable c a)"

definition s_expr_child_reset_recursive :: "'w ctx \<Rightarrow> slice \<Rightarrow> nat \<Rightarrow> ('w, unit) iact" where
  "s_expr_child_reset_recursive c a k =
     bindA (child_at ''s_expr_child_reset_recursive: logical_index out of range'' c a k) (\<lambda>i.
     bindA (rdA c a i) (\<lambda>p.
       if opcode p \<noteq> S_EXPR_PARAM_OPEN_CALL then retA ()
       else seqA (reset_callable c a i)
         (bindA (liftA (s_expr_call_args (tree_params c) a i)) (\<lambda>child_args.
          if s_base child_args \<noteq> None \<and> s_count child_args > 0
          then reset_all_recursive c child_args else retA ()))))"

definition s_expr_children_reset_all :: "'w ctx \<Rightarrow> slice \<Rightarrow> ('w, unit) iact" where
  "s_expr_children_reset_all c a =
     (if s_base a = None \<and> s_count a > 0 then
        excA ''s_expr_children_reset_all: NULL params with non-zero count''
      else bindA (whileA nav_fuel (\<lambda>idx. idx < s_count a)
        (\<lambda>idx. seqA (reset_callable c a idx)
           (bindA (liftA (skip_logical_param (tree_params c) a idx)) (\<lambda>j. retA (Inl j :: nat + unit)))) 0)
        (\<lambda>_. retA ()))"

section \<open>Terminating\<close>

definition s_expr_child_terminate :: "'w ctx \<Rightarrow> slice \<Rightarrow> nat \<Rightarrow> ('w, unit) iact" where
  "s_expr_child_terminate c a k =
     bindA (child_at ''s_expr_child_terminate: logical_index out of range'' c a k) (\<lambda>i.
     bindA (rdA c a i) (\<lambda>p.
       if opcode p \<noteq> S_EXPR_PARAM_OPEN_CALL then retA ()
       else bindA (rdA c a (i + 1)) (\<lambda>fp.
         if opcode fp \<noteq> S_EXPR_PARAM_MAIN then retA ()
         else bindA (get_callable_state c a i) (\<lambda>z.
           case z of
             None \<Rightarrow> retA ()
           | Some n \<Rightarrow>
               bindA (getA (\<lambda>s. is_initialized (node_states s ! n))) (\<lambda>ini.
                 if \<not> ini then retA () else terminate_at_physical_index c a i)))))"

text \<open>
  The loop runs downwards over a signed 16-bit index; from 32769 children on, the
  initial index is negative and the loop does not run.
\<close>

definition s_expr_children_terminate_all :: "'w ctx \<Rightarrow> slice \<Rightarrow> ('w, unit) iact" where
  "s_expr_children_terminate_all c a =
     (if s_base a = None \<and> s_count a > 0 then
        excA ''s_expr_children_terminate_all: NULL params with non-zero count''
      else if s_count a = 0 then retA ()
      else bindA (liftA (s_expr_child_count (tree_params c) a)) (\<lambda>child_count.
        eachA (\<lambda>k.
          bindA (liftA (s_expr_child_index (tree_params c) a k)) (\<lambda>i.
          if i = UINT16_MAX then retA ()
          else bindA (rdA c a i) (\<lambda>p.
            if opcode p \<noteq> S_EXPR_PARAM_OPEN_CALL then retA ()
            else bindA (rdA c a (i + 1)) (\<lambda>fp.
              seqA (if opcode fp = S_EXPR_PARAM_MAIN then
                      bindA (getA (\<lambda>s. node_index fp < node_count s \<and>
                                       is_initialized (node_states s ! node_index fp))) (\<lambda>ini.
                      if ini then terminate_at_physical_index c a i else retA ())
                    else retA ())
              (reset_callable c a i)))))
          (if child_count \<le> 32768 then rev [0..<child_count] else [])))"

section \<open>Invoking children\<close>

definition s_expr_child_invoke :: "'w ctx \<Rightarrow> slice \<Rightarrow> nat \<Rightarrow> ('w, s_expr_result) iact" where
  "s_expr_child_invoke c a k =
     bindA (child_at ''s_expr_child_invoke: logical_index out of range'' c a k) (\<lambda>i.
     bindA (s_expr_invoke_any c a i) (\<lambda>result.
       if result = SE_DISABLE then seqA (s_expr_child_terminate c a k) (retA SE_CONTINUE)
       else retA result))"

definition s_expr_child_invoke_main :: "'w ctx \<Rightarrow> slice \<Rightarrow> nat \<Rightarrow> ('w, s_expr_result) iact" where
  "s_expr_child_invoke_main c a k =
     bindA (child_at ''s_expr_child_invoke_main: logical_index out of range'' c a k) (\<lambda>i.
     bindA (s_expr_invoke_main c a i) (\<lambda>result.
       if result = SE_PIPELINE_DISABLE then
         seqA (s_expr_child_terminate c a k) (retA SE_PIPELINE_CONTINUE)
       else retA result))"

definition s_expr_child_invoke_pred :: "'w ctx \<Rightarrow> slice \<Rightarrow> nat \<Rightarrow> ('w, bool) iact" where
  "s_expr_child_invoke_pred c a k =
     bindA (child_at ''s_expr_child_invoke_pred: logical_index out of range'' c a k) (s_expr_invoke_pred c a)"

definition s_expr_child_invoke_oneshot :: "'w ctx \<Rightarrow> slice \<Rightarrow> nat \<Rightarrow> ('w, unit) iact" where
  "s_expr_child_invoke_oneshot c a k =
     bindA (child_at ''s_expr_child_invoke_oneshot: logical_index out of range'' c a k) (s_expr_invoke_oneshot c a)"

section \<open>Looking at children\<close>

definition s_expr_child_is_callable :: "'w ctx \<Rightarrow> slice \<Rightarrow> nat \<Rightarrow> ('w, bool) iact" where
  "s_expr_child_is_callable c a k =
     bindA (liftA (s_expr_child_index (tree_params c) a k)) (\<lambda>i.
     if i = UINT16_MAX then retA False
     else bindA (rdA c a i) (\<lambda>p. retA (opcode p = S_EXPR_PARAM_OPEN_CALL)))"

definition s_expr_child_func_type :: "'w ctx \<Rightarrow> slice \<Rightarrow> nat \<Rightarrow> ('w, 8 word) iact" where
  "s_expr_child_func_type c a k =
     bindA (liftA (s_expr_child_index (tree_params c) a k)) (\<lambda>i.
     if i = UINT16_MAX then retA 0
     else bindA (rdA c a i) (\<lambda>p.
       if opcode p \<noteq> S_EXPR_PARAM_OPEN_CALL then retA 0
       else bindA (rdA c a (i + 1)) (\<lambda>fp. retA (opcode fp))))"

definition child_flag :: "(s_expr_node_state \<Rightarrow> bool) \<Rightarrow> 'w ctx \<Rightarrow> slice \<Rightarrow> nat \<Rightarrow> ('w, bool) iact" where
  "child_flag f c a k =
     bindA (liftA (s_expr_child_index (tree_params c) a k)) (\<lambda>i.
     if i = UINT16_MAX then retA False
     else bindA (get_callable_state c a i) (\<lambda>z.
       case z of None \<Rightarrow> retA False | Some n \<Rightarrow> getA (\<lambda>s. f (node_states s ! n))))"

definition s_expr_child_is_active :: "'w ctx \<Rightarrow> slice \<Rightarrow> nat \<Rightarrow> ('w, bool) iact" where
  "s_expr_child_is_active = child_flag is_active"

definition s_expr_child_is_initialized :: "'w ctx \<Rightarrow> slice \<Rightarrow> nat \<Rightarrow> ('w, bool) iact" where
  "s_expr_child_is_initialized = child_flag is_initialized"

section \<open>Explicit event context\<close>

type_synonym event_context = "nat \<times> cptr"

definition save_event_context :: "('w, event_context) iact" where
  "save_event_context = getA (\<lambda>s. (current_event_id s, current_event_data s))"

definition set_event_context :: "event_context \<Rightarrow> ('w, unit) iact" where
  "set_event_context e = modA (\<lambda>s. s \<lparr> current_event_id := fst e, current_event_data := snd e \<rparr>)"

definition restore_event_context :: "event_context \<Rightarrow> ('w, unit) iact" where
  "restore_event_context e = modA (\<lambda>s. s \<lparr> current_event_id := fst e, current_event_data := snd e \<rparr>)"

definition with_event :: "event_context \<Rightarrow> ('w, 'a) iact \<Rightarrow> ('w, 'a) iact" where
  "with_event e m =
     bindA save_event_context (\<lambda>saved.
     seqA (set_event_context e)
     (bindA m (\<lambda>result.
     seqA (restore_event_context saved) (retA result))))"

definition s_expr_child_invoke_ex :: "'w ctx \<Rightarrow> slice \<Rightarrow> nat \<Rightarrow> nat \<Rightarrow> cptr \<Rightarrow> ('w, s_expr_result) iact" where
  "s_expr_child_invoke_ex c a k event_id event_data =
     with_event (event_id, event_data) (s_expr_child_invoke c a k)"

definition s_expr_child_invoke_main_ex :: "'w ctx \<Rightarrow> slice \<Rightarrow> nat \<Rightarrow> nat \<Rightarrow> cptr \<Rightarrow> ('w, s_expr_result) iact" where
  "s_expr_child_invoke_main_ex c a k event_id event_data =
     with_event (event_id, event_data) (s_expr_child_invoke_main c a k)"

definition s_expr_child_invoke_pred_ex :: "'w ctx \<Rightarrow> slice \<Rightarrow> nat \<Rightarrow> nat \<Rightarrow> cptr \<Rightarrow> ('w, bool) iact" where
  "s_expr_child_invoke_pred_ex c a k event_id event_data =
     with_event (event_id, event_data) (s_expr_child_invoke_pred c a k)"

definition s_expr_child_invoke_oneshot_ex :: "'w ctx \<Rightarrow> slice \<Rightarrow> nat \<Rightarrow> nat \<Rightarrow> cptr \<Rightarrow> ('w, unit) iact" where
  "s_expr_child_invoke_oneshot_ex c a k event_id event_data =
     with_event (event_id, event_data) (s_expr_child_invoke_oneshot c a k)"

text \<open>The loop index is logical where it is tested and physical where it is invoked.\<close>

definition s_expr_invoke_params :: "'w ctx \<Rightarrow> slice \<Rightarrow> nat \<Rightarrow> cptr \<Rightarrow> ('w, s_expr_result) iact" where
  "s_expr_invoke_params c a event_id event_data =
     (if s_base a = None \<or> s_count a = 0 then excA ''s_expr_invoke_params: invalid params''
      else bindA (loopA (\<lambda>i.
          bindA (s_expr_child_is_callable c a i) (\<lambda>b.
          if b then bindA (with_event (event_id, event_data) (s_expr_invoke_any c a i)) (\<lambda>r. retA (Some r))
          else retA None)) [0..<s_count a])
        (\<lambda>r. case r of Some x \<Rightarrow> retA x
           | None \<Rightarrow> excA ''s_expr_invoke_params: no callable found''))"

section \<open>Tree life cycle\<close>

text \<open>The evaluator's own life cycle functions.\<close>

definition map_nodes :: "(s_expr_node_state \<Rightarrow> s_expr_node_state) \<Rightarrow> ('w, unit) iact" where
  "map_nodes f = modA (\<lambda>s. s \<lparr> node_states := map f (node_states s) \<rparr>)"

definition s_expr_tree_reset :: "('w, unit) iact" where
  "s_expr_tree_reset = map_nodes ns_reset"

definition ns_fresh :: s_expr_node_state where
  "ns_fresh = \<lparr> ns_flags = S_EXPR_NODE_FLAG_ACTIVE, ns_state = 0, ns_user_data = 0 \<rparr>"

definition s_expr_tree_init_states :: "('w, unit) iact" where
  "s_expr_tree_init_states = map_nodes (\<lambda>_. ns_fresh)"

text \<open>
  The walk of \<open>s_expr_tree_terminate\<close> over the whole array: only the outermost calls are
  visited, since each is skipped with its arguments.
\<close>

definition tree_terminate_step :: "'w ctx \<Rightarrow> nat \<Rightarrow> ('w, nat + unit) iact" where
  "tree_terminate_step c idx =
     (let a = tree_slice c in
      bindA (rdA c a idx) (\<lambda>p.
        if opcode p = S_EXPR_PARAM_OPEN_CALL then
          bindA (rdA c a (idx + 1)) (\<lambda>fp.
          seqA (if opcode fp = S_EXPR_PARAM_MAIN then
                  bindA (get_node_state (node_index fp)) (\<lambda>state.
                  if is_initialized state \<and> func_index fp < length (main_fns c) then
                    (case main_fns c ! func_index fp of
                       None \<Rightarrow> retA ()
                     | Some fn \<Rightarrow>
                         bindA (liftA (s_expr_call_args (tree_params c) a idx)) (\<lambda>args.
                         seqA (enter_node fp)
                         (bindA (fn args SE_EVENT_TERMINATE 0 0) (\<lambda>_.
                          modA (\<lambda>s. s \<lparr> in_pointer_call := False \<rparr>)))))
                  else retA ())
                else retA ())
          (retA (Inl (u16 (idx + brace_idx p + 1)))))
        else retA (Inl (u16 (idx + 1)))))"

definition s_expr_tree_terminate :: "'w ctx \<Rightarrow> ('w, unit) iact" where
  "s_expr_tree_terminate c =
     seqA (whileA nav_fuel (\<lambda>idx. idx < length (tree_params c)) (tree_terminate_step c) 0)
     (map_nodes (\<lambda>_. ns_clear))"

definition s_expr_tree_full_reset :: "'w ctx \<Rightarrow> ('w, unit) iact" where
  "s_expr_tree_full_reset c = seqA (s_expr_tree_terminate c) s_expr_tree_init_states"

text \<open>The node API's life cycle functions, which leave only the root active.\<close>

definition activate_root :: "'w ctx \<Rightarrow> (s_expr_node_state \<Rightarrow> s_expr_node_state) \<Rightarrow> ('w, unit) iact" where
  "activate_root c f =
     (if tree_params c = [] then retA ()
      else if opcode (tree_params c ! 0) = S_EXPR_PARAM_OPEN_CALL then
        bindA (rdA c (tree_slice c) 1) (\<lambda>fp.
          bindA (getA node_count) (\<lambda>n.
            if node_index fp < n then upd_node (node_index fp) f else retA ()))
      else retA ())"

definition s_expr_node_reset :: "'w ctx \<Rightarrow> ('w, unit) iact" where
  "s_expr_node_reset c =
     seqA (map_nodes (\<lambda>n. \<lparr> ns_flags = ns_flags n AND S_EXPR_NODE_FLAG_EVER_INIT, ns_state = 0, ns_user_data = 0 \<rparr>))
     (activate_root c (set_flag S_EXPR_NODE_FLAG_ACTIVE))"

definition s_expr_node_init_states :: "'w ctx \<Rightarrow> ('w, unit) iact" where
  "s_expr_node_init_states c =
     seqA (map_nodes (\<lambda>_. ns_clear))
     (activate_root c (\<lambda>n. n \<lparr> ns_flags := S_EXPR_NODE_FLAG_ACTIVE \<rparr>))"

definition s_expr_node_terminate :: "'w ctx \<Rightarrow> ('w, unit) iact" where
  "s_expr_node_terminate c =
     (if tree_params c = [] then retA ()
      else seqA (s_expr_children_terminate_all c (tree_slice c)) (map_nodes (\<lambda>_. ns_clear)))"

definition s_expr_node_full_reset :: "'w ctx \<Rightarrow> ('w, unit) iact" where
  "s_expr_node_full_reset c = seqA (s_expr_node_terminate c) (s_expr_node_init_states c)"

text \<open>One tick of a tree. The watchdog hook it starts with is a function of the chip port.\<close>

definition s_expr_node_tick :: "'w ctx \<Rightarrow> ('w, unit) iact \<Rightarrow> nat \<Rightarrow> cptr \<Rightarrow> ('w, s_expr_result) iact" where
  "s_expr_node_tick c wdt_pet event_id event_data =
     seqA wdt_pet
     (bindA (getA inst_stack) (\<lambda>z.
      seqA (if z \<noteq> None then on_inst_stack s_expr_tree_reset_stack else retA ())
      (if tree_params c = [] then excA ''s_expr_node_tick: empty tree''
       else bindA (rdA c (tree_slice c) 0) (\<lambda>p.
         if opcode p \<noteq> S_EXPR_PARAM_OPEN_CALL then excA ''s_expr_node_tick: root is not OPEN_CALL''
         else bindA (rdA c (tree_slice c) 1) (\<lambda>fp.
           bindA (getA node_count) (\<lambda>n.
           if node_index fp \<ge> n then excA ''s_expr_node_tick: root node_index out of range''
           else bindA (getA (\<lambda>s. is_active (node_states s ! node_index fp))) (\<lambda>act.
             if \<not> act then retA SE_FUNCTION_TERMINATE
             else seqA (set_event_context (event_id, event_data))
               (s_expr_invoke_main c (tree_slice c) 0))))))))"

end
