(* ===== verification/SE_Pred.thy ===== *)
theory SE_Pred
  imports SE_Node
begin

text \<open>
  The builtin predicates (\<open>s_engine_builtins_pred.h\<close>): the logical connectives over the
  predicate children of a slice, the event test, the comparisons of a blackboard field with a
  constant, the two counting predicates.
\<close>

section \<open>Connectives\<close>

text \<open>
  The loop they share: visit the parameters of the slice in order, evaluate those that are
  predicates, and hand each value to \<open>f\<close>, which goes on with a new local (\<open>Inl\<close>) or returns
  from the function (\<open>Inr\<close>); \<open>g\<close> is what follows the loop.
\<close>

definition pred_loop ::
    "'w ctx \<Rightarrow> slice \<Rightarrow> ('l \<Rightarrow> bool \<Rightarrow> 'l + bool) \<Rightarrow> ('l \<Rightarrow> bool) \<Rightarrow> 'l \<Rightarrow> ('w, bool) iact" where
  "pred_loop c a f g l0 =
     bindA (whileA nav_fuel (\<lambda>(i, l). i < s_count a)
       (\<lambda>(i, l).
          bindA (liftA (s_expr_param_is_predicate (tree_params c) a i)) (\<lambda>is_pred.
          bindA (if is_pred then bindA (s_expr_invoke_pred c a i) (\<lambda>b. retA (f l b)) else retA (Inl l)) (\<lambda>z.
          case z of
            Inr b \<Rightarrow> retA (Inr b)
          | Inl l' \<Rightarrow> bindA (liftA (s_expr_skip_param (tree_params c) a i)) (\<lambda>j. retA (Inl (j, l'))))))
       (0, l0))
       (\<lambda>r. case r of Inl (i, l) \<Rightarrow> retA (g l) | Inr b \<Rightarrow> retA b)"

definition se_pred_and :: "'w ctx \<Rightarrow> ('w, bool) node_fn" where
  "se_pred_and c a ev event_id event_data =
     pred_loop c a (\<lambda>_ b. if \<not> b then Inr False else Inl ()) (\<lambda>_. True) ()"

definition se_pred_or :: "'w ctx \<Rightarrow> ('w, bool) node_fn" where
  "se_pred_or c a ev event_id event_data =
     pred_loop c a (\<lambda>_ b. if b then Inr True else Inl ()) (\<lambda>_. False) ()"

definition se_pred_not :: "'w ctx \<Rightarrow> ('w, bool) node_fn" where
  "se_pred_not c a ev event_id event_data = pred_loop c a (\<lambda>_ b. Inr (\<not> b)) (\<lambda>_. True) ()"

definition se_pred_nor :: "'w ctx \<Rightarrow> ('w, bool) node_fn" where
  "se_pred_nor c a ev event_id event_data =
     bindA (se_pred_or c a ev event_id event_data) (\<lambda>b. retA (\<not> b))"

definition se_pred_nand :: "'w ctx \<Rightarrow> ('w, bool) node_fn" where
  "se_pred_nand c a ev event_id event_data =
     bindA (se_pred_and c a ev event_id event_data) (\<lambda>b. retA (\<not> b))"

definition se_pred_xor :: "'w ctx \<Rightarrow> ('w, bool) node_fn" where
  "se_pred_xor c a ev event_id event_data =
     pred_loop c a
       (\<lambda>true_count b. if b then (if true_count + 1 > 1 then Inr False else Inl (true_count + 1))
                      else Inl true_count)
       (\<lambda>true_count. true_count = (1 :: nat)) 0"

definition se_true :: "'w ctx \<Rightarrow> ('w, bool) node_fn" where
  "se_true c a ev event_id event_data = retA True"

definition se_false :: "'w ctx \<Rightarrow> ('w, bool) node_fn" where
  "se_false c a ev event_id event_data = retA False"

section \<open>Events and fields\<close>

text \<open>\<open>se_check_event\<close> walks the physical parameters, without skipping braces.\<close>

definition se_check_event :: "'w ctx \<Rightarrow> ('w, bool) node_fn" where
  "se_check_event c a ev event_id event_data =
     bindA (loopA (\<lambda>i. bindA (rdA c a i) (\<lambda>p.
       retA (if (opcode p = S_EXPR_PARAM_INT \<or> opcode p = S_EXPR_PARAM_UINT)
                \<and> uint_val p mod 65536 = event_id
             then Some True else None))) [0..<s_count a])
       (\<lambda>r. retA (r = Some True))"

text \<open>The comparisons of the signed field with the constant parameter.\<close>

definition field_compare :: "(int \<Rightarrow> int \<Rightarrow> bool) \<Rightarrow> 'w ctx \<Rightarrow> slice \<Rightarrow> ('w, bool) iact" where
  "field_compare r c a =
     (if s_count a < 2 then retA False
      else bindA (rdA c a 0) (\<lambda>p0.
        bindA (getA (\<lambda>s. S_EXPR_GET_FIELD s p0)) (\<lambda>ptr.
        if ptr = None then retA False
        else bindA (rdA c a 1) (\<lambda>p1.
          bindA (field_read ptr) (\<lambda>v. retA (r (sint v) (int_val p1)))))))"

definition se_field_eq :: "'w ctx \<Rightarrow> ('w, bool) node_fn" where
  "se_field_eq c a ev event_id event_data = field_compare (\<lambda>x y. x = y) c a"

definition se_field_ne :: "'w ctx \<Rightarrow> ('w, bool) node_fn" where
  "se_field_ne c a ev event_id event_data =
     bindA (se_field_eq c a ev event_id event_data) (\<lambda>b. retA (\<not> b))"

definition se_field_gt :: "'w ctx \<Rightarrow> ('w, bool) node_fn" where
  "se_field_gt c a ev event_id event_data = field_compare (\<lambda>x y. x > y) c a"

definition se_field_ge :: "'w ctx \<Rightarrow> ('w, bool) node_fn" where
  "se_field_ge c a ev event_id event_data = field_compare (\<lambda>x y. x \<ge> y) c a"

definition se_field_lt :: "'w ctx \<Rightarrow> ('w, bool) node_fn" where
  "se_field_lt c a ev event_id event_data = field_compare (\<lambda>x y. x < y) c a"

definition se_field_le :: "'w ctx \<Rightarrow> ('w, bool) node_fn" where
  "se_field_le c a ev event_id event_data = field_compare (\<lambda>x y. x \<le> y) c a"

definition se_field_in_range :: "'w ctx \<Rightarrow> ('w, bool) node_fn" where
  "se_field_in_range c a ev event_id event_data =
     (if s_count a < 3 then retA False
      else bindA (rdA c a 0) (\<lambda>p0.
        bindA (getA (\<lambda>s. S_EXPR_GET_FIELD s p0)) (\<lambda>ptr.
        if ptr = None then retA False
        else bindA (rdA c a 1) (\<lambda>p1. bindA (rdA c a 2) (\<lambda>p2.
          bindA (field_read ptr) (\<lambda>v.
          retA (sint v \<ge> int_val p1 \<and> sint v \<le> int_val p2)))))))"

section \<open>Counters\<close>

text \<open>A signed addition of 32 bits, undefined in C when it overflows.\<close>

definition add_i32 :: "32 word \<Rightarrow> 32 word \<Rightarrow> 32 word res" where
  "add_i32 x y = (if - (2 ^ 31) \<le> sint x + sint y \<and> sint x + sint y < 2 ^ 31 then Ret (x + y)
     else Trap (Fault ''signed integer overflow''))"

text \<open>The first evaluation since the node was reset clears the counter and marks the node.\<close>

definition first_time :: "('w, unit) iact \<Rightarrow> ('w, unit) iact" where
  "first_time m = bindA s_expr_get_system_flags (\<lambda>f.
     if f AND S_EXPR_NODE_FLAG_INITIALIZED = 0 then
       seqA (s_expr_set_system_flags (f OR S_EXPR_NODE_FLAG_INITIALIZED)) m
     else retA ())"

definition se_field_increment_and_test :: "'w ctx \<Rightarrow> ('w, bool) node_fn" where
  "se_field_increment_and_test c a ev event_id event_data =
     (if s_count a < 3 then excA ''SE_FIELD_INCREMENT_AND_TEST: param_count < 2''
      else bindA (rdA c a 0) (\<lambda>p0.
        if opcode p0 \<noteq> S_EXPR_PARAM_FIELD then excA ''SE_FIELD_INCREMENT_AND_TEST: params[0] is not a field''
        else bindA (rdA c a 1) (\<lambda>p1.
        if opcode p1 \<noteq> S_EXPR_PARAM_FIELD then excA ''SE_FIELD_INCREMENT_AND_TEST: params[1] is not a field''
        else bindA (rdA c a 2) (\<lambda>p2.
        if opcode p2 \<noteq> S_EXPR_PARAM_FIELD then excA ''SE_FIELD_INCREMENT_AND_TEST: params[2] is not a field''
        else bindA (getA blackboard) (\<lambda>bb.
        if bb = None then excA ''SE_FIELD_INCREMENT_AND_TEST: no blackboard bound''
        else bindA (getA (\<lambda>s. (S_EXPR_GET_FIELD s p0, S_EXPR_GET_FIELD s p1, S_EXPR_GET_FIELD s p2)))
          (\<lambda>(field, increment_field, limit_field).
          seqA (first_time (field_write field 0))
          (bindA (field_read field) (\<lambda>v.
           bindA (field_read increment_field) (\<lambda>d.
           bindA (liftA (add_i32 v d)) (\<lambda>v'.
           seqA (field_write field v')
           (bindA (field_read field) (\<lambda>x.
            bindA (field_read limit_field) (\<lambda>limit.
            retA (sint x \<le> sint limit))))))))))))))"

text \<open>The opcode of the first parameter decides how both are read; both casts truncate.\<close>

definition se_state_increment_and_test :: "'w ctx \<Rightarrow> ('w, bool) node_fn" where
  "se_state_increment_and_test c a ev event_id event_data =
     (if s_count a < 2 then excA ''SE_STATE_INCREMENT_AND_TEST: param_count < 1''
      else bindA (rdA c a 0) (\<lambda>p0.
        if opcode p0 \<noteq> S_EXPR_PARAM_INT \<and> opcode p0 \<noteq> S_EXPR_PARAM_UINT then
          excA ''SE_STATE_INCREMENT_AND_TEST: invalid parameter type''
        else bindA (rdA c a 1) (\<lambda>p1.
          let increment = uint_val p0 mod 65536; limit = uint_val p1 mod 65536 in
          seqA (first_time (s_expr_set_user_flags 0))
          (bindA s_expr_get_user_flags (\<lambda>n.
           let count = u16 (n + increment) in
           seqA (s_expr_set_user_flags count) (retA (count \<le> limit)))))))"

end
