(* ===== verification/SE_Flow.thy ===== *)
theory SE_Flow
  imports SE_Node
begin

text \<open>
  The control-flow composites of the builtin library (\<open>s_engine_builtins_flow_control.h\<close>):
  conditionals, edge triggers, sequences, forks, the chain pipeline, the loop. Each is a node
  function over its parameter slice; the event decides between INIT, TERMINATE and the tick.
\<close>

section \<open>Shared steps\<close>

definition child_count :: "'w ctx \<Rightarrow> slice \<Rightarrow> ('w, nat) iact" where
  "child_count c a = liftA (s_expr_child_count (tree_params c) a)"

definition child_index :: "'w ctx \<Rightarrow> slice \<Rightarrow> nat \<Rightarrow> ('w, nat) iact" where
  "child_index c a k = liftA (s_expr_child_index (tree_params c) a k)"

definition answer :: "('w, unit) iact \<Rightarrow> s_expr_result \<Rightarrow> ('w, s_expr_result) iact" where
  "answer m r = seqA m (retA r)"

definition terminate_reset :: "'w ctx \<Rightarrow> slice \<Rightarrow> nat \<Rightarrow> ('w, unit) iact" where
  "terminate_reset c a k = seqA (s_expr_child_terminate c a k) (s_expr_child_reset c a k)"

definition terminate_reset_rec :: "'w ctx \<Rightarrow> slice \<Rightarrow> nat \<Rightarrow> ('w, unit) iact" where
  "terminate_reset_rec c a k = seqA (s_expr_child_terminate c a k) (s_expr_child_reset_recursive c a k)"

section \<open>if-then-else\<close>

definition se_if_then_else :: "'w ctx \<Rightarrow> ('w, s_expr_result) node_fn" where
  "se_if_then_else c a ev event_id event_data =
     bindA (child_count c a) (\<lambda>count.
     if count < 2 then excA ''se_if_then_else: need at least predicate and then branch''
     else let has_else = (count \<ge> 3) in
       case ev of
         SE_EVENT_TERMINATE \<Rightarrow> answer (s_expr_children_terminate_all c a) SE_PIPELINE_CONTINUE
       | SE_EVENT_INIT \<Rightarrow> retA SE_PIPELINE_CONTINUE
       | SE_EVENT_TICK \<Rightarrow>
           bindA (bindA (child_index c a 0) (s_expr_invoke_pred c a)) (\<lambda>condition.
           if \<not> condition \<and> \<not> has_else then retA SE_PIPELINE_CONTINUE
           else
             bindA (bindA (child_index c a (if condition then 1 else 2)) (s_expr_invoke_any c a)) (\<lambda>r.
             let restart = seqA (terminate_reset c a 1) (if has_else then terminate_reset c a 2 else retA ()) in
             if below_pipeline r then retA r
             else case r of
               SE_PIPELINE_CONTINUE \<Rightarrow> retA r
             | SE_PIPELINE_HALT \<Rightarrow> retA r
             | SE_PIPELINE_RESET \<Rightarrow> answer restart SE_PIPELINE_RESET
             | SE_PIPELINE_DISABLE \<Rightarrow> answer restart SE_PIPELINE_CONTINUE
             | SE_PIPELINE_TERMINATE \<Rightarrow> answer restart SE_PIPELINE_CONTINUE
             | SE_PIPELINE_SKIP_CONTINUE \<Rightarrow> retA SE_PIPELINE_CONTINUE
             | _ \<Rightarrow> excA ''se_if_then_else: unexpected result code'')))"

section \<open>cond\<close>

text \<open>
  The search for the first true predicate: the physical index and the logical child index
  advance together; the result is the child index of the action, 0xFFFF when none matched.
\<close>

definition cond_search :: "'w ctx \<Rightarrow> slice \<Rightarrow> ('w, nat) iact" where
  "cond_search c a =
     bindA (whileA nav_fuel (\<lambda>(i, child). i < s_count a)
       (\<lambda>(i, child).
          bindA (liftA (s_expr_param_is_predicate (tree_params c) a i)) (\<lambda>is_pred.
          if is_pred then
            bindA (s_expr_invoke_pred c a i) (\<lambda>result.
            bindA (liftA (s_expr_skip_param (tree_params c) a i)) (\<lambda>i1.
            let child1 = u16 (child + 1) in
            if result then retA (Inr child1)
            else bindA (liftA (s_expr_skip_param (tree_params c) a i1)) (\<lambda>i2.
              retA (Inl (i2, u16 (child1 + 1))))))
          else
            bindA (liftA (s_expr_skip_param (tree_params c) a i)) (\<lambda>i1.
            retA (Inl (i1, u16 (child + 1)))))) (0, 0))
       (\<lambda>r. case r of Inl _ \<Rightarrow> retA 0xFFFF | Inr k \<Rightarrow> retA k)"

definition se_cond :: "'w ctx \<Rightarrow> ('w, s_expr_result) node_fn" where
  "se_cond c a ev event_id event_data =
     (case ev of
        SE_EVENT_TERMINATE \<Rightarrow>
          seqA (s_expr_children_terminate_all c a)
          (seqA (s_expr_set_user_flags 0xFFFF) (retA SE_PIPELINE_CONTINUE))
      | SE_EVENT_INIT \<Rightarrow> seqA (s_expr_set_user_flags 0xFFFF) (retA SE_PIPELINE_CONTINUE)
      | SE_EVENT_TICK \<Rightarrow>
          bindA s_expr_get_user_flags (\<lambda>active_child.
          bindA (cond_search c a) (\<lambda>matched.
          if matched = 0xFFFF then excA ''se_cond: no matching case (missing default)''
          else
            seqA (if matched \<noteq> active_child then
                    seqA (if active_child \<noteq> 0xFFFF then terminate_reset_rec c a active_child else retA ())
                    (seqA (terminate_reset_rec c a matched) (s_expr_set_user_flags matched))
                  else retA ())
            (bindA (s_expr_child_invoke c a matched) (\<lambda>r.
             if below_pipeline r then retA r
             else case r of
               SE_PIPELINE_CONTINUE \<Rightarrow> retA SE_PIPELINE_CONTINUE
             | SE_PIPELINE_HALT \<Rightarrow> retA SE_PIPELINE_CONTINUE
             | SE_PIPELINE_RESET \<Rightarrow> answer (terminate_reset_rec c a matched) SE_PIPELINE_CONTINUE
             | SE_PIPELINE_DISABLE \<Rightarrow> retA r
             | SE_PIPELINE_TERMINATE \<Rightarrow> retA r
             | SE_PIPELINE_SKIP_CONTINUE \<Rightarrow> retA r
             | _ \<Rightarrow> excA ''se_cond: unexpected result code'')))))"

section \<open>trigger-on-change\<close>

text \<open>The restart of one edge's action: the other one is stopped first.\<close>

definition fire_edge :: "'w ctx \<Rightarrow> slice \<Rightarrow> nat \<Rightarrow> ('w, s_expr_result) iact" where
  "fire_edge c a k =
     seqA (terminate_reset c a k)
     (bindA (bindA (child_index c a k) (s_expr_invoke_any c a)) (\<lambda>r.
      if below_pipeline r then retA r
      else case r of
        SE_PIPELINE_DISABLE \<Rightarrow> answer (terminate_reset c a k) SE_PIPELINE_CONTINUE
      | SE_PIPELINE_TERMINATE \<Rightarrow> answer (terminate_reset c a k) SE_PIPELINE_CONTINUE
      | SE_PIPELINE_RESET \<Rightarrow> answer (terminate_reset c a k) SE_PIPELINE_CONTINUE
      | _ \<Rightarrow> retA SE_PIPELINE_CONTINUE))"

definition se_trigger_on_change :: "'w ctx \<Rightarrow> ('w, s_expr_result) node_fn" where
  "se_trigger_on_change c a ev event_id event_data =
     bindA (child_count c a) (\<lambda>count.
     if count < 3 then excA ''se_trigger_on_change: need at least 3 children''
     else let has_falling = (count \<ge> 4) in
       case ev of
         SE_EVENT_TERMINATE \<Rightarrow> answer (s_expr_children_terminate_all c a) SE_PIPELINE_CONTINUE
       | SE_EVENT_INIT \<Rightarrow>
           bindA (bindA (child_index c a 0) (rdA c a)) (\<lambda>p.
           if opcode p \<noteq> S_EXPR_PARAM_INT \<and> opcode p \<noteq> S_EXPR_PARAM_UINT then
             excA ''se_trigger_on_change: child 0 must be INT or UINT''
           else answer (s_expr_set_state (if int_val p \<noteq> 0 then 1 else 0)) SE_PIPELINE_CONTINUE)
       | SE_EVENT_TICK \<Rightarrow>
           bindA (s_expr_child_invoke_pred c a 1) (\<lambda>current.
           bindA s_expr_get_state (\<lambda>prev.
           let rising = (prev = 0 \<and> current); falling = (prev \<noteq> 0 \<and> \<not> current) in
           seqA (s_expr_set_state (if current then 1 else 0))
           (if rising then
              seqA (if has_falling then terminate_reset c a 3 else retA ()) (fire_edge c a 2)
            else if falling \<and> has_falling then
              seqA (terminate_reset c a 2) (fire_edge c a 3)
            else retA SE_PIPELINE_CONTINUE))))"

section \<open>Sequences\<close>

text \<open>
  One iteration of the loop of \<open>se_sequence\<close>. The child index is a \<open>uint8_t\<close>; it is kept in
  the node state whenever it changes.
\<close>

definition seq_advance :: "nat \<Rightarrow> ('w, nat + s_expr_result) iact" where
  "seq_advance state = (let next = (state + 1) mod 256 in
     seqA (s_expr_set_state next) (retA (Inl next)))"

definition se_sequence_step :: "'w ctx \<Rightarrow> slice \<Rightarrow> nat \<Rightarrow> ('w, nat + s_expr_result) iact" where
  "se_sequence_step c a state =
     bindA (s_expr_child_is_callable c a state) (\<lambda>callable.
     if \<not> callable then seq_advance state
     else bindA (child_index c a state) (\<lambda>i.
       if i = UINT16_MAX then seq_advance state
       else bindA (s_expr_child_func_type c a state) (\<lambda>func_type.
         if func_type = S_EXPR_PARAM_ONESHOT then
           bindA (s_expr_invoke_any c a i) (\<lambda>_. seq_advance state)
         else if func_type = S_EXPR_PARAM_PRED then
           bindA (s_expr_invoke_any c a i) (\<lambda>_. seq_advance state)
         else bindA (s_expr_invoke_any c a i) (\<lambda>r.
           if rnum r \<le> rnum SE_SKIP_CONTINUE then retA (Inr r)
           else if rnum SE_FUNCTION_CONTINUE \<le> rnum r \<and> rnum r \<le> rnum SE_FUNCTION_SKIP_CONTINUE then
             retA (Inr (if r = SE_FUNCTION_HALT then SE_PIPELINE_HALT else r))
           else case r of
             SE_PIPELINE_CONTINUE \<Rightarrow> retA (Inr SE_PIPELINE_CONTINUE)
           | SE_PIPELINE_HALT \<Rightarrow> retA (Inr SE_PIPELINE_CONTINUE)
           | SE_PIPELINE_DISABLE \<Rightarrow> seqA (s_expr_child_terminate c a state) (seq_advance state)
           | SE_PIPELINE_TERMINATE \<Rightarrow> seqA (s_expr_child_terminate c a state) (seq_advance state)
           | SE_PIPELINE_RESET \<Rightarrow> seqA (s_expr_child_terminate c a state) (seq_advance state)
           | SE_PIPELINE_SKIP_CONTINUE \<Rightarrow> retA (Inr SE_PIPELINE_CONTINUE)
           | _ \<Rightarrow> excA ''se_sequence: unknown result code''))))"

definition se_sequence :: "'w ctx \<Rightarrow> ('w, s_expr_result) node_fn" where
  "se_sequence c a ev event_id event_data =
     bindA s_expr_get_state (\<lambda>state.
     bindA (child_count c a) (\<lambda>count.
     case ev of
       SE_EVENT_TERMINATE \<Rightarrow>
         seqA (if state < count then
                 bindA (s_expr_child_is_initialized c a state) (\<lambda>ini.
                   if ini then s_expr_child_terminate c a state else retA ())
               else retA ())
         (answer (s_expr_set_state 0) SE_PIPELINE_CONTINUE)
     | SE_EVENT_INIT \<Rightarrow> answer (s_expr_set_state 0) SE_PIPELINE_CONTINUE
     | SE_EVENT_TICK \<Rightarrow>
         bindA (whileA nav_fuel (\<lambda>state. state < count) (se_sequence_step c a) state) (\<lambda>r.
         case r of Inl _ \<Rightarrow> retA SE_PIPELINE_DISABLE | Inr x \<Rightarrow> retA x)))"

definition terminate_initialized :: "'w ctx \<Rightarrow> slice \<Rightarrow> nat \<Rightarrow> ('w, unit) iact" where
  "terminate_initialized c a count =
     eachA (\<lambda>k. bindA (s_expr_child_is_initialized c a k) (\<lambda>ini.
       if ini then s_expr_child_terminate c a k else retA ())) [0..<count]"

definition se_sequence_once :: "'w ctx \<Rightarrow> ('w, s_expr_result) node_fn" where
  "se_sequence_once c a ev event_id event_data =
     bindA (child_count c a) (\<lambda>count.
     case ev of
       SE_EVENT_TERMINATE \<Rightarrow>
         seqA (terminate_initialized c a count) (answer (s_expr_set_state 0) SE_PIPELINE_CONTINUE)
     | SE_EVENT_INIT \<Rightarrow> answer (s_expr_set_state 0) SE_PIPELINE_CONTINUE
     | SE_EVENT_TICK \<Rightarrow>
         afterA (forA (\<lambda>k u.
             bindA (s_expr_child_is_callable c a k) (\<lambda>callable.
             if \<not> callable then retA (Next ())
             else bindA (child_index c a k) (\<lambda>i.
               if i = UINT16_MAX then retA (Next ())
               else bindA (s_expr_child_func_type c a k) (\<lambda>func_type.
                 if func_type = S_EXPR_PARAM_ONESHOT \<or> func_type = S_EXPR_PARAM_PRED then
                   bindA (s_expr_invoke_any c a i) (\<lambda>_. retA (Next ()))
                 else bindA (s_expr_invoke_any c a i) (\<lambda>r.
                   if r \<noteq> SE_PIPELINE_CONTINUE \<and> r \<noteq> SE_PIPELINE_DISABLE
                   then retA (Leave ()) else retA (Next ())))))) [0..<count] ())
         (\<lambda>_. answer (terminate_initialized c a count) SE_PIPELINE_DISABLE))"

section \<open>Forks\<close>

abbreviation FORK_STATE_INIT :: nat where "FORK_STATE_INIT \<equiv> 0"
abbreviation FORK_STATE_RUNNING :: nat where "FORK_STATE_RUNNING \<equiv> 1"
abbreviation FORK_STATE_COMPLETE :: nat where "FORK_STATE_COMPLETE \<equiv> 2"

definition reset_callable_children :: "'w ctx \<Rightarrow> slice \<Rightarrow> nat \<Rightarrow> ('w, unit) iact" where
  "reset_callable_children c a count =
     eachA (\<lambda>k. bindA (s_expr_child_is_callable c a k) (\<lambda>b.
       if b then s_expr_child_reset c a k else retA ())) [0..<count]"

definition se_function_interface :: "'w ctx \<Rightarrow> ('w, s_expr_result) node_fn" where
  "se_function_interface c a ev event_id event_data =
     bindA (child_count c a) (\<lambda>count.
     case ev of
       SE_EVENT_INIT \<Rightarrow>
         seqA (s_expr_set_state FORK_STATE_RUNNING)
         (seqA (s_expr_set_user_flags 0)
         (answer (reset_callable_children c a count) SE_FUNCTION_CONTINUE))
     | SE_EVENT_TERMINATE \<Rightarrow>
         seqA (s_expr_children_terminate_all c a)
         (answer (s_expr_set_state FORK_STATE_COMPLETE) SE_FUNCTION_CONTINUE)
     | SE_EVENT_TICK \<Rightarrow>
         bindA s_expr_get_state (\<lambda>state.
         if state \<noteq> FORK_STATE_RUNNING then retA SE_FUNCTION_DISABLE
         else afterA (forA (\<lambda>k active.
             bindA (s_expr_child_is_callable c a k) (\<lambda>callable.
             if \<not> callable then retA (Next active)
             else bindA (s_expr_child_is_active c a k) (\<lambda>act.
               if \<not> act then retA (Next active)
               else bindA (bindA (child_index c a k) (s_expr_invoke_any c a)) (\<lambda>r.
                 if below_pipeline r then retA (Return r)
                 else case r of
                   SE_PIPELINE_CONTINUE \<Rightarrow> retA (Next (active + 1))
                 | SE_PIPELINE_HALT \<Rightarrow> retA (Next (active + 1))
                 | SE_PIPELINE_DISABLE \<Rightarrow> seqA (s_expr_child_terminate c a k) (retA (Next active))
                 | SE_PIPELINE_TERMINATE \<Rightarrow> seqA (s_expr_child_terminate c a k) (retA (Next active))
                 | SE_PIPELINE_RESET \<Rightarrow> seqA (terminate_reset c a k) (retA (Next (active + 1)))
                 | SE_PIPELINE_SKIP_CONTINUE \<Rightarrow> retA (Leave (active + 1))
                 | _ \<Rightarrow> retA (Next (active + 1)))))) [0..<count] (0 :: nat))
           (\<lambda>active. if active = 0 then answer (s_expr_set_state FORK_STATE_COMPLETE) SE_FUNCTION_DISABLE
              else retA SE_FUNCTION_CONTINUE)))"

text \<open>Counting the active \<open>MAIN\<close> children, the second loop of both forks.\<close>

definition active_main_count :: "'w ctx \<Rightarrow> slice \<Rightarrow> nat \<Rightarrow> ('w, nat) iact" where
  "active_main_count c a count =
     afterA (forA (\<lambda>k n.
       bindA (s_expr_child_is_callable c a k) (\<lambda>callable.
       if \<not> callable then retA (Next n)
       else bindA (s_expr_child_func_type c a k) (\<lambda>func_type.
         if func_type \<noteq> S_EXPR_PARAM_MAIN then retA (Next n)
         else bindA (s_expr_child_is_active c a k) (\<lambda>act.
           retA (Next (if act then n + 1 else n)))))) [0..<count] 0) retA"

text \<open>
  The part of a fork's loop body before the invocation of a \<open>MAIN\<close> child: other callables
  are invoked here unless they are initialized; \<open>Some i\<close> is the physical index of a \<open>MAIN\<close>
  child that is still active.
\<close>

definition fork_select :: "'w ctx \<Rightarrow> slice \<Rightarrow> nat \<Rightarrow> ('w, nat option) iact" where
  "fork_select c a k =
     bindA (s_expr_child_is_callable c a k) (\<lambda>callable.
     if \<not> callable then retA None
     else bindA (child_index c a k) (\<lambda>i.
       if i = UINT16_MAX then retA None
       else bindA (s_expr_child_func_type c a k) (\<lambda>func_type.
         if func_type = S_EXPR_PARAM_ONESHOT \<or> func_type = S_EXPR_PARAM_PRED then
           bindA (s_expr_child_is_initialized c a k) (\<lambda>ini.
           if \<not> ini then bindA (s_expr_invoke_any c a i) (\<lambda>_. retA None) else retA None)
         else bindA (s_expr_child_is_active c a k) (\<lambda>act.
           retA (if act then Some i else None)))))"

definition se_fork_body :: "'w ctx \<Rightarrow> slice \<Rightarrow> nat \<Rightarrow> unit \<Rightarrow> ('w, (unit, s_expr_result) ctl) iact" where
  "se_fork_body c a k u =
     bindA (fork_select c a k) (\<lambda>sel. case sel of
       None \<Rightarrow> retA (Next ())
     | Some i \<Rightarrow>
         bindA (s_expr_invoke_any c a i) (\<lambda>r0.
         let r = (if r0 = SE_FUNCTION_HALT then SE_PIPELINE_HALT else r0) in
         if below_pipeline r then retA (Return r)
         else case r of
           SE_PIPELINE_DISABLE \<Rightarrow> seqA (s_expr_child_terminate c a k) (retA (Next ()))
         | SE_PIPELINE_TERMINATE \<Rightarrow> seqA (s_expr_child_terminate c a k) (retA (Next ()))
         | SE_PIPELINE_RESET \<Rightarrow> seqA (terminate_reset_rec c a k) (retA (Next ()))
         | SE_PIPELINE_SKIP_CONTINUE \<Rightarrow> retA (Leave ())
         | _ \<Rightarrow> retA (Next ())))"

definition se_fork :: "'w ctx \<Rightarrow> ('w, s_expr_result) node_fn" where
  "se_fork c a ev event_id event_data =
     bindA (child_count c a) (\<lambda>count.
     case ev of
       SE_EVENT_TERMINATE \<Rightarrow>
         seqA (s_expr_children_terminate_all c a)
         (answer (s_expr_set_state FORK_STATE_COMPLETE) SE_PIPELINE_CONTINUE)
     | SE_EVENT_INIT \<Rightarrow>
         seqA (s_expr_set_state FORK_STATE_RUNNING)
         (seqA (s_expr_set_user_flags 0)
         (answer (reset_callable_children c a count) SE_PIPELINE_CONTINUE))
     | SE_EVENT_TICK \<Rightarrow>
         bindA s_expr_get_state (\<lambda>state.
         if state \<noteq> FORK_STATE_RUNNING then retA SE_PIPELINE_DISABLE
         else afterA (forA (se_fork_body c a) [0..<count] ()) (\<lambda>_.
           bindA (active_main_count c a count) (\<lambda>n.
           if n = 0 then answer (s_expr_set_state FORK_STATE_COMPLETE) SE_PIPELINE_DISABLE
           else retA SE_PIPELINE_CONTINUE))))"

definition se_fork_join_body :: "'w ctx \<Rightarrow> slice \<Rightarrow> nat \<Rightarrow> unit \<Rightarrow> ('w, (unit, s_expr_result) ctl) iact" where
  "se_fork_join_body c a k u =
     bindA (fork_select c a k) (\<lambda>sel. case sel of
       None \<Rightarrow> retA (Next ())
     | Some i \<Rightarrow>
         bindA (s_expr_invoke_any c a i) (\<lambda>r0.
         let r = (if r0 = SE_FUNCTION_HALT then SE_PIPELINE_HALT else r0) in
         if below_pipeline r then retA (Return r)
         else case r of
           SE_PIPELINE_CONTINUE \<Rightarrow> retA (Next ())
         | SE_PIPELINE_HALT \<Rightarrow> retA (Next ())
         | SE_PIPELINE_DISABLE \<Rightarrow> seqA (terminate_action_at_index c a i) (retA (Next ()))
         | SE_PIPELINE_TERMINATE \<Rightarrow> seqA (terminate_action_at_index c a i) (retA (Next ()))
         | SE_PIPELINE_RESET \<Rightarrow> seqA (terminate_action_at_index c a i)
             (seqA (s_expr_reset_recursive_at c a i) (retA (Next ())))
         | SE_PIPELINE_SKIP_CONTINUE \<Rightarrow> retA (Leave ())
         | _ \<Rightarrow> excA ''se_fork_join: unknown result code''))"

definition se_fork_join :: "'w ctx \<Rightarrow> ('w, s_expr_result) node_fn" where
  "se_fork_join c a ev event_id event_data =
     (case ev of
       SE_EVENT_TERMINATE \<Rightarrow> answer (s_expr_children_terminate_all c a) SE_PIPELINE_CONTINUE
     | SE_EVENT_INIT \<Rightarrow> retA SE_PIPELINE_CONTINUE
     | SE_EVENT_TICK \<Rightarrow>
         bindA (child_count c a) (\<lambda>count.
         afterA (forA (se_fork_join_body c a) [0..<count] ()) (\<lambda>_.
           bindA (active_main_count c a count) (\<lambda>n.
           retA (if n = 0 then SE_PIPELINE_DISABLE else SE_FUNCTION_HALT)))))"

section \<open>The chain pipeline\<close>

definition se_chain_flow_body :: "'w ctx \<Rightarrow> slice \<Rightarrow> nat \<Rightarrow> nat \<Rightarrow> ('w, (nat, s_expr_result) ctl) iact" where
  "se_chain_flow_body c a k active =
     bindA (s_expr_child_is_callable c a k) (\<lambda>callable.
     if \<not> callable then retA (Next active)
     else bindA (s_expr_child_is_active c a k) (\<lambda>act.
       if \<not> act then retA (Next active)
       else bindA (child_index c a k) (\<lambda>i.
         if i = UINT16_MAX then retA (Next active)
         else bindA (s_expr_child_func_type c a k) (\<lambda>func_type.
           if func_type = S_EXPR_PARAM_ONESHOT \<or> func_type = S_EXPR_PARAM_PRED then
             bindA (s_expr_invoke_any c a i) (\<lambda>_.
             seqA (s_expr_child_terminate c a k) (retA (Next active)))
           else bindA (s_expr_invoke_any c a i) (\<lambda>r.
             if r = SE_FUNCTION_HALT then retA (Return SE_PIPELINE_HALT)
             else if below_pipeline r then retA (Return r)
             else case r of
               SE_PIPELINE_CONTINUE \<Rightarrow> retA (Next (active + 1))
             | SE_PIPELINE_HALT \<Rightarrow> retA (Return SE_PIPELINE_CONTINUE)
             | SE_PIPELINE_DISABLE \<Rightarrow> seqA (s_expr_child_terminate c a k) (retA (Next active))
             | SE_PIPELINE_TERMINATE \<Rightarrow>
                 seqA (s_expr_children_terminate_all c a) (retA (Return SE_PIPELINE_TERMINATE))
             | SE_PIPELINE_RESET \<Rightarrow>
                 seqA (s_expr_children_terminate_all c a)
                 (seqA (s_expr_children_reset_all c a) (retA (Return SE_PIPELINE_CONTINUE)))
             | SE_PIPELINE_SKIP_CONTINUE \<Rightarrow> retA (Leave (active + 1))
             | _ \<Rightarrow> retA (Next (active + 1)))))))"

definition se_chain_flow :: "'w ctx \<Rightarrow> ('w, s_expr_result) node_fn" where
  "se_chain_flow c a ev event_id event_data =
     (case ev of
       SE_EVENT_TERMINATE \<Rightarrow> answer (s_expr_children_terminate_all c a) SE_PIPELINE_CONTINUE
     | SE_EVENT_INIT \<Rightarrow> retA SE_PIPELINE_CONTINUE
     | SE_EVENT_TICK \<Rightarrow>
         bindA (child_count c a) (\<lambda>count.
         afterA (forA (se_chain_flow_body c a) [0..<count] 0) (\<lambda>active.
           retA (if active = 0 then SE_PIPELINE_DISABLE else SE_PIPELINE_CONTINUE))))"

section \<open>while\<close>

abbreviation SE_WHILE_STATE_EVAL_PRED :: nat where "SE_WHILE_STATE_EVAL_PRED \<equiv> 0"
abbreviation SE_WHILE_STATE_RUN_BODY :: nat where "SE_WHILE_STATE_RUN_BODY \<equiv> 1"

definition while_run_body :: "'w ctx \<Rightarrow> slice \<Rightarrow> ('w, s_expr_result) iact" where
  "while_run_body c a =
     bindA (s_expr_child_invoke c a 1) (\<lambda>r.
     let restart = seqA (terminate_reset_rec c a 1) (s_expr_set_state SE_WHILE_STATE_EVAL_PRED) in
     if below_pipeline r then retA r
     else case r of
       SE_PIPELINE_CONTINUE \<Rightarrow> retA SE_FUNCTION_HALT
     | SE_PIPELINE_HALT \<Rightarrow> retA SE_FUNCTION_HALT
     | SE_PIPELINE_SKIP_CONTINUE \<Rightarrow> retA SE_FUNCTION_HALT
     | SE_PIPELINE_DISABLE \<Rightarrow> answer restart SE_PIPELINE_HALT
     | SE_PIPELINE_TERMINATE \<Rightarrow> answer restart SE_PIPELINE_HALT
     | SE_PIPELINE_RESET \<Rightarrow> answer restart SE_PIPELINE_HALT
     | _ \<Rightarrow> excA ''se_while: unknown result code'')"

definition se_while :: "'w ctx \<Rightarrow> ('w, s_expr_result) node_fn" where
  "se_while c a ev event_id event_data =
     (case ev of
       SE_EVENT_TERMINATE \<Rightarrow>
         bindA (s_expr_child_is_initialized c a 1) (\<lambda>ini.
         answer (if ini then s_expr_child_terminate c a 1 else retA ()) SE_PIPELINE_CONTINUE)
     | SE_EVENT_INIT \<Rightarrow> answer (s_expr_set_state SE_WHILE_STATE_EVAL_PRED) SE_PIPELINE_CONTINUE
     | SE_EVENT_TICK \<Rightarrow>
         bindA s_expr_get_state (\<lambda>state.
         if state = SE_WHILE_STATE_EVAL_PRED then
           bindA (s_expr_child_invoke_pred c a 0) (\<lambda>cond.
           if \<not> cond then retA SE_PIPELINE_DISABLE
           else seqA (s_expr_child_reset_recursive c a 1)
             (seqA (s_expr_set_state SE_WHILE_STATE_RUN_BODY) (while_run_body c a)))
         else if state = SE_WHILE_STATE_RUN_BODY then while_run_body c a
         else excA ''se_while: invalid state''))"

end
