(* ===== verification/SE_Leaf.thy ===== *)
theory SE_Leaf
  imports SE_Pred SE_Flow
begin

text \<open>
  The builtin leaves: delays and waits (\<open>s_engine_builtins_delays.h\<close>), the checks with an error
  handler (\<open>s_engine_builtins_verify.h\<close>), the functions that return a constant code
  (\<open>s_engine_builtins_return_codes.h\<close>), the oneshots on the blackboard, the stack and the event
  queue (\<open>s_engine_builtins_oneshot.h\<close>). The time-based delays, which compute with \<open>double\<close>,
  and the logging oneshots, whose only effect is on the console, are not modelled.
\<close>

section \<open>Delays and waits\<close>

text \<open>\<open>ticks\<close> is a \<open>uint32_t\<close>: one more than the parameter, modulo \<open>2 ^ 32\<close>.\<close>

definition se_tick_delay :: "'w ctx \<Rightarrow> ('w, s_expr_result) node_fn" where
  "se_tick_delay c a ev event_id event_data =
     (case ev of
        SE_EVENT_INIT \<Rightarrow>
          bindA (if s_count a > 0 then bindA (rdA c a 0) (\<lambda>p. retA (p_union p)) else retA 0) (\<lambda>ticks.
          answer (s_expr_set_u64 (ucast (ticks + 1))) SE_PIPELINE_CONTINUE)
      | SE_EVENT_TERMINATE \<Rightarrow> retA SE_PIPELINE_CONTINUE
      | SE_EVENT_TICK \<Rightarrow>
          bindA s_expr_get_u64 (\<lambda>remaining.
          if remaining > 0 then answer (s_expr_set_u64 (remaining - 1)) SE_FUNCTION_HALT
          else retA SE_PIPELINE_DISABLE))"

definition se_wait_event :: "'w ctx \<Rightarrow> ('w, s_expr_result) node_fn" where
  "se_wait_event c a ev event_id event_data =
     (case ev of
        SE_EVENT_TERMINATE \<Rightarrow> retA SE_PIPELINE_CONTINUE
      | SE_EVENT_INIT \<Rightarrow>
          if s_count a < 2 then excA ''se_wait_event: requires 2 parameters (target_event, count)''
          else bindA (rdA c a 0) (\<lambda>p0. bindA (rdA c a 1) (\<lambda>p1.
            answer (s_expr_set_user_u64 (push_bit 32 (ucast (p_union p0)) OR ucast (p_union p1)))
              SE_PIPELINE_CONTINUE))
      | SE_EVENT_TICK \<Rightarrow>
          bindA s_expr_get_user_u64 (\<lambda>state.
          let target_event = (ucast (drop_bit 32 state) :: 32 word);
              remaining = (ucast (state AND 0xFFFFFFFF) :: 32 word)
          in if remaining = 0 then retA SE_PIPELINE_DISABLE
             else if event_id = unat target_event then
               seqA (s_expr_set_user_u64 (push_bit 32 (ucast target_event) OR ucast (remaining - 1)))
               (retA (if remaining - 1 = 0 then SE_PIPELINE_DISABLE else SE_PIPELINE_HALT))
             else retA SE_PIPELINE_HALT))"

definition se_nop :: "'w ctx \<Rightarrow> ('w, s_expr_result) node_fn" where
  "se_nop c a ev event_id event_data = retA SE_DISABLE"

definition se_wait :: "'w ctx \<Rightarrow> ('w, s_expr_result) node_fn" where
  "se_wait c a ev event_id event_data =
     (case ev of
        SE_EVENT_TERMINATE \<Rightarrow> retA SE_PIPELINE_CONTINUE
      | SE_EVENT_INIT \<Rightarrow>
          if s_count a < 1 then excA ''se_wait: requires 1 parameter'' else retA SE_PIPELINE_CONTINUE
      | SE_EVENT_TICK \<Rightarrow>
          bindA (s_expr_child_invoke_pred c a 0) (\<lambda>b.
          retA (if b then SE_PIPELINE_DISABLE else SE_PIPELINE_HALT)))"

section \<open>Checks\<close>

text \<open>The error handler is reset, so that it fires again, and invoked.\<close>

definition report_error :: "'w ctx \<Rightarrow> slice \<Rightarrow> nat \<Rightarrow> bool \<Rightarrow> ('w, s_expr_result) iact" where
  "report_error c a k reset_flag =
     seqA (s_expr_child_reset c a k)
     (seqA (s_expr_child_invoke_oneshot c a k)
     (retA (if reset_flag then SE_PIPELINE_RESET else SE_PIPELINE_TERMINATE)))"

definition se_verify_and_check_elapsed_events :: "'w ctx \<Rightarrow> ('w, s_expr_result) node_fn" where
  "se_verify_and_check_elapsed_events c a ev event_id event_data =
     (case ev of
        SE_EVENT_TERMINATE \<Rightarrow> retA SE_PIPELINE_CONTINUE
      | SE_EVENT_INIT \<Rightarrow>
          if s_count a < 4 then excA ''se_verify_and_check_elapsed_events: requires 4 parameters''
          else answer (s_expr_set_user_u64 0) SE_PIPELINE_CONTINUE
      | SE_EVENT_TICK \<Rightarrow>
          bindA (rdA c a 0) (\<lambda>p0. bindA (rdA c a 1) (\<lambda>p1. bindA (rdA c a 2) (\<lambda>p2.
          if event_id \<noteq> uint_val p0 then retA SE_PIPELINE_CONTINUE
          else bindA s_expr_get_user_u64 (\<lambda>n.
            seqA (s_expr_set_user_u64 (n + 1))
            (if unat (n + 1) > uint_val p1 then report_error c a 3 (int_val p2 \<noteq> 0)
             else retA SE_PIPELINE_CONTINUE))))))"

definition se_verify :: "'w ctx \<Rightarrow> ('w, s_expr_result) node_fn" where
  "se_verify c a ev event_id event_data =
     (case ev of
        SE_EVENT_TERMINATE \<Rightarrow> retA SE_PIPELINE_CONTINUE
      | SE_EVENT_INIT \<Rightarrow>
          if s_count a < 3 then excA ''se_verify: requires 3 parameters'' else retA SE_PIPELINE_CONTINUE
      | SE_EVENT_TICK \<Rightarrow>
          if event_id \<noteq> SE_EVENT_TICK_ID then retA SE_PIPELINE_CONTINUE
          else bindA (child_index c a 1) (\<lambda>i.
            if i = UINT16_MAX then excA ''se_verify: reset_flag not found''
            else bindA (rdA c a i) (\<lambda>p.
              bindA (s_expr_child_invoke_pred c a 0) (\<lambda>b.
              if b then retA SE_PIPELINE_CONTINUE else report_error c a 2 (int_val p \<noteq> 0)))))"

section \<open>Return codes\<close>

definition se_return_continue :: "'w ctx \<Rightarrow> ('w, s_expr_result) node_fn" where
  "se_return_continue c a ev event_id event_data = retA SE_CONTINUE"

definition se_return_halt :: "'w ctx \<Rightarrow> ('w, s_expr_result) node_fn" where
  "se_return_halt c a ev event_id event_data = retA SE_HALT"

definition se_return_terminate :: "'w ctx \<Rightarrow> ('w, s_expr_result) node_fn" where
  "se_return_terminate c a ev event_id event_data = retA SE_TERMINATE"

definition se_return_reset :: "'w ctx \<Rightarrow> ('w, s_expr_result) node_fn" where
  "se_return_reset c a ev event_id event_data = retA SE_RESET"

definition se_return_disable :: "'w ctx \<Rightarrow> ('w, s_expr_result) node_fn" where
  "se_return_disable c a ev event_id event_data = retA SE_DISABLE"

definition se_return_skip_continue :: "'w ctx \<Rightarrow> ('w, s_expr_result) node_fn" where
  "se_return_skip_continue c a ev event_id event_data = retA SE_SKIP_CONTINUE"

definition se_return_function_continue :: "'w ctx \<Rightarrow> ('w, s_expr_result) node_fn" where
  "se_return_function_continue c a ev event_id event_data = retA SE_FUNCTION_CONTINUE"

definition se_return_function_halt :: "'w ctx \<Rightarrow> ('w, s_expr_result) node_fn" where
  "se_return_function_halt c a ev event_id event_data = retA SE_FUNCTION_HALT"

definition se_return_function_terminate :: "'w ctx \<Rightarrow> ('w, s_expr_result) node_fn" where
  "se_return_function_terminate c a ev event_id event_data = retA SE_FUNCTION_TERMINATE"

definition se_return_function_reset :: "'w ctx \<Rightarrow> ('w, s_expr_result) node_fn" where
  "se_return_function_reset c a ev event_id event_data = retA SE_FUNCTION_RESET"

definition se_return_function_disable :: "'w ctx \<Rightarrow> ('w, s_expr_result) node_fn" where
  "se_return_function_disable c a ev event_id event_data = retA SE_FUNCTION_DISABLE"

definition se_return_function_skip_continue :: "'w ctx \<Rightarrow> ('w, s_expr_result) node_fn" where
  "se_return_function_skip_continue c a ev event_id event_data = retA SE_FUNCTION_SKIP_CONTINUE"

definition se_return_pipeline_continue :: "'w ctx \<Rightarrow> ('w, s_expr_result) node_fn" where
  "se_return_pipeline_continue c a ev event_id event_data = retA SE_PIPELINE_CONTINUE"

definition se_return_pipeline_halt :: "'w ctx \<Rightarrow> ('w, s_expr_result) node_fn" where
  "se_return_pipeline_halt c a ev event_id event_data = retA SE_PIPELINE_HALT"

definition se_return_pipeline_terminate :: "'w ctx \<Rightarrow> ('w, s_expr_result) node_fn" where
  "se_return_pipeline_terminate c a ev event_id event_data = retA SE_PIPELINE_TERMINATE"

definition se_return_pipeline_reset :: "'w ctx \<Rightarrow> ('w, s_expr_result) node_fn" where
  "se_return_pipeline_reset c a ev event_id event_data = retA SE_PIPELINE_RESET"

definition se_return_pipeline_disable :: "'w ctx \<Rightarrow> ('w, s_expr_result) node_fn" where
  "se_return_pipeline_disable c a ev event_id event_data = retA SE_PIPELINE_DISABLE"

definition se_return_pipeline_skip_continue :: "'w ctx \<Rightarrow> ('w, s_expr_result) node_fn" where
  "se_return_pipeline_skip_continue c a ev event_id event_data = retA SE_PIPELINE_SKIP_CONTINUE"

section \<open>Oneshots\<close>

definition field_update :: "(32 word \<Rightarrow> s_expr_param \<Rightarrow> 32 word res) \<Rightarrow> bool \<Rightarrow> 'w ctx \<Rightarrow> slice \<Rightarrow> ('w, unit) iact" where
  "field_update f reads c a =
     (if s_count a < 2 then retA ()
      else bindA (rdA c a 0) (\<lambda>p0.
        bindA (getA (\<lambda>s. S_EXPR_GET_FIELD s p0)) (\<lambda>ptr.
        if ptr = None then retA ()
        else bindA (rdA c a 1) (\<lambda>p1.
          bindA (if reads then field_read ptr else retA 0) (\<lambda>old.
          bindA (liftA (f old p1)) (field_write ptr))))))"

definition se_set_field :: "'w ctx \<Rightarrow> ('w, unit) node_fn" where
  "se_set_field c a ev event_id event_data = field_update (\<lambda>_ p. Ret (p_union p)) False c a"

definition se_set_field_float :: "'w ctx \<Rightarrow> ('w, unit) node_fn" where
  "se_set_field_float c a ev event_id event_data = field_update (\<lambda>_ p. Ret (p_union p)) False c a"

definition se_set_hash :: "'w ctx \<Rightarrow> ('w, unit) node_fn" where
  "se_set_hash c a ev event_id event_data = field_update (\<lambda>_ p. Ret (p_union p)) False c a"

definition sub_i32 :: "32 word \<Rightarrow> 32 word \<Rightarrow> 32 word res" where
  "sub_i32 x y = (if - (2 ^ 31) \<le> sint x - sint y \<and> sint x - sint y < 2 ^ 31 then Ret (x - y)
     else Trap (Fault ''signed integer overflow''))"

definition se_inc_field :: "'w ctx \<Rightarrow> ('w, unit) node_fn" where
  "se_inc_field c a ev event_id event_data = field_update (\<lambda>v p. add_i32 v (p_union p)) True c a"

definition se_dec_field :: "'w ctx \<Rightarrow> ('w, unit) node_fn" where
  "se_dec_field c a ev event_id event_data = field_update (\<lambda>v p. sub_i32 v (p_union p)) True c a"

abbreviation S_EXPR_PARAM_STACK_TOS :: "8 word" where "S_EXPR_PARAM_STACK_TOS \<equiv> 0x18"
abbreviation S_EXPR_PARAM_STACK_LOCAL :: "8 word" where "S_EXPR_PARAM_STACK_LOCAL \<equiv> 0x19"

definition stack_offset :: "s_expr_param \<Rightarrow> nat" where
  "stack_offset p = unat (p_union p) mod 65536"

text \<open>The value behind a stack pointer, none for \<open>NULL\<close>.\<close>

definition stack_deref :: "nat option \<Rightarrow> ('w, s_expr_param) iact" where
  "stack_deref z = (\<lambda>s. case (z, inst_stack s) of
     (None, _) \<Rightarrow> Ret (zero_param, s)
   | (Some i, Some st) \<Rightarrow> if i < length (stk_data st) then Ret (stk_data st ! i, s)
       else Trap (Fault ''stack data read out of bounds'')
   | _ \<Rightarrow> Trap (Fault ''stack read through NULL''))"

definition se_push_stack :: "'w ctx \<Rightarrow> ('w, unit) node_fn" where
  "se_push_stack c a ev event_id event_data =
     bindA (getA inst_stack) (\<lambda>z.
     if z = None \<or> s_count a < 1 then retA ()
     else bindA (rdA c a 0) (\<lambda>p.
       let push = (\<lambda>v. bindA (on_inst_stack (s_expr_stack_push (Some v))) (\<lambda>_. retA ())) in
       if opcode p = S_EXPR_PARAM_INT \<or> opcode p = S_EXPR_PARAM_UINT \<or> opcode p = S_EXPR_PARAM_FLOAT
          \<or> opcode p = S_EXPR_PARAM_STR_HASH then push p
       else if opcode p = S_EXPR_PARAM_FIELD then
         bindA (getA blackboard) (\<lambda>bb.
         if bb \<noteq> None \<and> (field_size p = 4 \<or> field_size p = 8) then
           bindA (field_read (Some (field_offset p))) (\<lambda>v.
             push (zero_param \<lparr> p_type := S_EXPR_PARAM_UINT, p_union := v \<rparr>))
         else push zero_param)
       else if opcode p = S_EXPR_PARAM_STACK_TOS then
         bindA (stack_deref (s_expr_stack_peek_tos z (stack_offset p))) push
       else if opcode p = S_EXPR_PARAM_STACK_LOCAL then
         bindA (liftA (s_expr_stack_get_local z (stack_offset p))) (\<lambda>i. bindA (stack_deref i) push)
       else retA ()))"

definition se_queue_event :: "'w ctx \<Rightarrow> ('w, unit) node_fn" where
  "se_queue_event c a ev event_id event_data =
     bindA (rdA c a 0) (\<lambda>p0. bindA (rdA c a 1) (\<lambda>p1.
     bindA (if s_count a > 2 then
              bindA (rdA c a 2) (\<lambda>p2. retA (if opcode p2 = S_EXPR_PARAM_FIELD then field_offset p2 else 0))
            else retA 0) (\<lambda>ev_data.
     on_inst_queue (s_expr_event_push (uint_val p0 mod 65536) (uint_val p1 mod 65536) ev_data))))"

end
