(* ===== verification/SE_Quads.thy ===== *)
theory SE_Quads
  imports SE_Leaf "HOL-Library.Signed_Division"
begin

text \<open>
  Three-address instructions (\<open>s_engine_builtins_quads.h\<close>): \<open>dest = op(src1, src2)\<close> over fields of
  the blackboard, slots of the parameter stack, constants and literals, as the oneshot \<open>se_quad\<close>
  and as the predicate \<open>se_p_quad\<close>.

  Floats are kept as their bit patterns. The rounding arithmetic of the target, its mathematical
  library and its conversions are the record \<open>fl_ops\<close>; comparison, sign and absolute value, which do not
  round, are defined on the bits. An integer operation whose result C leaves undefined is a \<open>Fault\<close>.
\<close>

section \<open>Opcodes\<close>

abbreviation (input) SE_QUAD_IADD :: nat where "SE_QUAD_IADD \<equiv> 0x00"
abbreviation (input) SE_QUAD_ISUB :: nat where "SE_QUAD_ISUB \<equiv> 0x01"
abbreviation (input) SE_QUAD_IMUL :: nat where "SE_QUAD_IMUL \<equiv> 0x02"
abbreviation (input) SE_QUAD_IDIV :: nat where "SE_QUAD_IDIV \<equiv> 0x03"
abbreviation (input) SE_QUAD_IMOD :: nat where "SE_QUAD_IMOD \<equiv> 0x04"
abbreviation (input) SE_QUAD_INEG :: nat where "SE_QUAD_INEG \<equiv> 0x05"
abbreviation (input) SE_QUAD_FADD :: nat where "SE_QUAD_FADD \<equiv> 0x08"
abbreviation (input) SE_QUAD_FSUB :: nat where "SE_QUAD_FSUB \<equiv> 0x09"
abbreviation (input) SE_QUAD_FMUL :: nat where "SE_QUAD_FMUL \<equiv> 0x0A"
abbreviation (input) SE_QUAD_FDIV :: nat where "SE_QUAD_FDIV \<equiv> 0x0B"
abbreviation (input) SE_QUAD_FMOD :: nat where "SE_QUAD_FMOD \<equiv> 0x0C"
abbreviation (input) SE_QUAD_FNEG :: nat where "SE_QUAD_FNEG \<equiv> 0x0D"
abbreviation (input) SE_QUAD_BIT_AND :: nat where "SE_QUAD_BIT_AND \<equiv> 0x10"
abbreviation (input) SE_QUAD_BIT_OR :: nat where "SE_QUAD_BIT_OR \<equiv> 0x11"
abbreviation (input) SE_QUAD_BIT_XOR :: nat where "SE_QUAD_BIT_XOR \<equiv> 0x12"
abbreviation (input) SE_QUAD_BIT_NOT :: nat where "SE_QUAD_BIT_NOT \<equiv> 0x13"
abbreviation (input) SE_QUAD_BIT_SHL :: nat where "SE_QUAD_BIT_SHL \<equiv> 0x14"
abbreviation (input) SE_QUAD_BIT_SHR :: nat where "SE_QUAD_BIT_SHR \<equiv> 0x15"
abbreviation (input) SE_QUAD_ICMP_EQ :: nat where "SE_QUAD_ICMP_EQ \<equiv> 0x20"
abbreviation (input) SE_QUAD_ICMP_NE :: nat where "SE_QUAD_ICMP_NE \<equiv> 0x21"
abbreviation (input) SE_QUAD_ICMP_LT :: nat where "SE_QUAD_ICMP_LT \<equiv> 0x22"
abbreviation (input) SE_QUAD_ICMP_LE :: nat where "SE_QUAD_ICMP_LE \<equiv> 0x23"
abbreviation (input) SE_QUAD_ICMP_GT :: nat where "SE_QUAD_ICMP_GT \<equiv> 0x24"
abbreviation (input) SE_QUAD_ICMP_GE :: nat where "SE_QUAD_ICMP_GE \<equiv> 0x25"
abbreviation (input) SE_QUAD_FCMP_EQ :: nat where "SE_QUAD_FCMP_EQ \<equiv> 0x28"
abbreviation (input) SE_QUAD_FCMP_NE :: nat where "SE_QUAD_FCMP_NE \<equiv> 0x29"
abbreviation (input) SE_QUAD_FCMP_LT :: nat where "SE_QUAD_FCMP_LT \<equiv> 0x2A"
abbreviation (input) SE_QUAD_FCMP_LE :: nat where "SE_QUAD_FCMP_LE \<equiv> 0x2B"
abbreviation (input) SE_QUAD_FCMP_GT :: nat where "SE_QUAD_FCMP_GT \<equiv> 0x2C"
abbreviation (input) SE_QUAD_FCMP_GE :: nat where "SE_QUAD_FCMP_GE \<equiv> 0x2D"
abbreviation (input) SE_QUAD_LOG_AND :: nat where "SE_QUAD_LOG_AND \<equiv> 0x30"
abbreviation (input) SE_QUAD_LOG_OR :: nat where "SE_QUAD_LOG_OR \<equiv> 0x31"
abbreviation (input) SE_QUAD_LOG_NOT :: nat where "SE_QUAD_LOG_NOT \<equiv> 0x32"
abbreviation (input) SE_QUAD_LOG_NAND :: nat where "SE_QUAD_LOG_NAND \<equiv> 0x33"
abbreviation (input) SE_QUAD_LOG_NOR :: nat where "SE_QUAD_LOG_NOR \<equiv> 0x34"
abbreviation (input) SE_QUAD_LOG_XOR :: nat where "SE_QUAD_LOG_XOR \<equiv> 0x35"
abbreviation (input) SE_QUAD_MOVE :: nat where "SE_QUAD_MOVE \<equiv> 0x40"
abbreviation (input) SE_QUAD_FSQRT :: nat where "SE_QUAD_FSQRT \<equiv> 0x50"
abbreviation (input) SE_QUAD_FPOW :: nat where "SE_QUAD_FPOW \<equiv> 0x51"
abbreviation (input) SE_QUAD_FEXP :: nat where "SE_QUAD_FEXP \<equiv> 0x52"
abbreviation (input) SE_QUAD_FLOG :: nat where "SE_QUAD_FLOG \<equiv> 0x53"
abbreviation (input) SE_QUAD_FLOG10 :: nat where "SE_QUAD_FLOG10 \<equiv> 0x54"
abbreviation (input) SE_QUAD_FLOG2 :: nat where "SE_QUAD_FLOG2 \<equiv> 0x55"
abbreviation (input) SE_QUAD_FABS :: nat where "SE_QUAD_FABS \<equiv> 0x56"
abbreviation (input) SE_QUAD_FSIN :: nat where "SE_QUAD_FSIN \<equiv> 0x58"
abbreviation (input) SE_QUAD_FCOS :: nat where "SE_QUAD_FCOS \<equiv> 0x59"
abbreviation (input) SE_QUAD_FTAN :: nat where "SE_QUAD_FTAN \<equiv> 0x5A"
abbreviation (input) SE_QUAD_FASIN :: nat where "SE_QUAD_FASIN \<equiv> 0x5B"
abbreviation (input) SE_QUAD_FACOS :: nat where "SE_QUAD_FACOS \<equiv> 0x5C"
abbreviation (input) SE_QUAD_FATAN :: nat where "SE_QUAD_FATAN \<equiv> 0x5D"
abbreviation (input) SE_QUAD_FATAN2 :: nat where "SE_QUAD_FATAN2 \<equiv> 0x5E"
abbreviation (input) SE_QUAD_FSINH :: nat where "SE_QUAD_FSINH \<equiv> 0x60"
abbreviation (input) SE_QUAD_FCOSH :: nat where "SE_QUAD_FCOSH \<equiv> 0x61"
abbreviation (input) SE_QUAD_FTANH :: nat where "SE_QUAD_FTANH \<equiv> 0x62"
abbreviation (input) SE_QUAD_IABS :: nat where "SE_QUAD_IABS \<equiv> 0x68"
abbreviation (input) SE_QUAD_IMIN :: nat where "SE_QUAD_IMIN \<equiv> 0x69"
abbreviation (input) SE_QUAD_IMAX :: nat where "SE_QUAD_IMAX \<equiv> 0x6A"
abbreviation (input) SE_QUAD_FMIN :: nat where "SE_QUAD_FMIN \<equiv> 0x6C"
abbreviation (input) SE_QUAD_FMAX :: nat where "SE_QUAD_FMAX \<equiv> 0x6D"
abbreviation (input) SE_QUAD_MOV :: nat where "SE_QUAD_MOV \<equiv> 0x6E"

text \<open>The predicate shares the numbers from 0x10 to 0x35; its accumulating comparisons are its own.\<close>

abbreviation (input) SE_P_QUAD_BIT_SHL :: nat where "SE_P_QUAD_BIT_SHL \<equiv> 0x14"
abbreviation (input) SE_P_QUAD_BIT_SHR :: nat where "SE_P_QUAD_BIT_SHR \<equiv> 0x15"
abbreviation (input) SE_P_QUAD_ICMP_EQ_ACC :: nat where "SE_P_QUAD_ICMP_EQ_ACC \<equiv> 0x40"
abbreviation (input) SE_P_QUAD_ICMP_NE_ACC :: nat where "SE_P_QUAD_ICMP_NE_ACC \<equiv> 0x41"
abbreviation (input) SE_P_QUAD_ICMP_LT_ACC :: nat where "SE_P_QUAD_ICMP_LT_ACC \<equiv> 0x42"
abbreviation (input) SE_P_QUAD_ICMP_LE_ACC :: nat where "SE_P_QUAD_ICMP_LE_ACC \<equiv> 0x43"
abbreviation (input) SE_P_QUAD_ICMP_GT_ACC :: nat where "SE_P_QUAD_ICMP_GT_ACC \<equiv> 0x44"
abbreviation (input) SE_P_QUAD_ICMP_GE_ACC :: nat where "SE_P_QUAD_ICMP_GE_ACC \<equiv> 0x45"
abbreviation (input) SE_P_QUAD_FCMP_EQ_ACC :: nat where "SE_P_QUAD_FCMP_EQ_ACC \<equiv> 0x48"
abbreviation (input) SE_P_QUAD_FCMP_NE_ACC :: nat where "SE_P_QUAD_FCMP_NE_ACC \<equiv> 0x49"
abbreviation (input) SE_P_QUAD_FCMP_LT_ACC :: nat where "SE_P_QUAD_FCMP_LT_ACC \<equiv> 0x4A"
abbreviation (input) SE_P_QUAD_FCMP_LE_ACC :: nat where "SE_P_QUAD_FCMP_LE_ACC \<equiv> 0x4B"
abbreviation (input) SE_P_QUAD_FCMP_GT_ACC :: nat where "SE_P_QUAD_FCMP_GT_ACC \<equiv> 0x4C"
abbreviation (input) SE_P_QUAD_FCMP_GE_ACC :: nat where "SE_P_QUAD_FCMP_GE_ACC \<equiv> 0x4D"

abbreviation S_EXPR_PARAM_CONST_REF :: "8 word" where "S_EXPR_PARAM_CONST_REF \<equiv> 0x0E"
abbreviation S_EXPR_PARAM_STACK_PUSH :: "8 word" where "S_EXPR_PARAM_STACK_PUSH \<equiv> 0x1B"
abbreviation S_EXPR_PARAM_STACK_POP :: "8 word" where "S_EXPR_PARAM_STACK_POP \<equiv> 0x1C"

definition const_index :: "s_expr_param \<Rightarrow> nat" where
  "const_index p = unat (p_union p) mod 65536"

definition const_size :: "s_expr_param \<Rightarrow> nat" where
  "const_size p = unat (p_union p) div 65536"

section \<open>Arithmetic\<close>

text \<open>The operations of the target on \<open>float\<close>, as functions of bit patterns.\<close>

record fl_ops =
  fl_add :: "32 word \<Rightarrow> 32 word \<Rightarrow> 32 word"
  fl_sub :: "32 word \<Rightarrow> 32 word \<Rightarrow> 32 word"
  fl_mul :: "32 word \<Rightarrow> 32 word \<Rightarrow> 32 word"
  fl_div :: "32 word \<Rightarrow> 32 word \<Rightarrow> 32 word"
  fl_fmodf :: "32 word \<Rightarrow> 32 word \<Rightarrow> 32 word"
  fl_powf :: "32 word \<Rightarrow> 32 word \<Rightarrow> 32 word"
  fl_atan2f :: "32 word \<Rightarrow> 32 word \<Rightarrow> 32 word"
  fl_sqrtf :: "32 word \<Rightarrow> 32 word"
  fl_expf :: "32 word \<Rightarrow> 32 word"
  fl_logf :: "32 word \<Rightarrow> 32 word"
  fl_log10f :: "32 word \<Rightarrow> 32 word"
  fl_log2f :: "32 word \<Rightarrow> 32 word"
  fl_sinf :: "32 word \<Rightarrow> 32 word"
  fl_cosf :: "32 word \<Rightarrow> 32 word"
  fl_tanf :: "32 word \<Rightarrow> 32 word"
  fl_asinf :: "32 word \<Rightarrow> 32 word"
  fl_acosf :: "32 word \<Rightarrow> 32 word"
  fl_atanf :: "32 word \<Rightarrow> 32 word"
  fl_sinhf :: "32 word \<Rightarrow> 32 word"
  fl_coshf :: "32 word \<Rightarrow> 32 word"
  fl_tanhf :: "32 word \<Rightarrow> 32 word"
  fl_of_int :: "32 word \<Rightarrow> 32 word"
  fl_of_uint :: "32 word \<Rightarrow> 32 word"
  fl_of_double :: "64 word \<Rightarrow> 32 word"
  fl_to_double :: "32 word \<Rightarrow> 64 word"

text \<open>Comparison of IEEE singles: both zeros are equal, a not-a-number compares with nothing.\<close>

definition f_nan :: "32 word \<Rightarrow> bool" where
  "f_nan w = (w AND 0x7FFFFFFF > 0x7F800000)"

definition f_key :: "32 word \<Rightarrow> int" where
  "f_key w = (let m = uint (w AND 0x7FFFFFFF) in if bit w 31 then - m else m)"

definition f_eq :: "32 word \<Rightarrow> 32 word \<Rightarrow> bool" where
  "f_eq a b = (\<not> f_nan a \<and> \<not> f_nan b \<and> f_key a = f_key b)"

definition f_lt :: "32 word \<Rightarrow> 32 word \<Rightarrow> bool" where
  "f_lt a b = (\<not> f_nan a \<and> \<not> f_nan b \<and> f_key a < f_key b)"

definition f_le :: "32 word \<Rightarrow> 32 word \<Rightarrow> bool" where
  "f_le a b = (\<not> f_nan a \<and> \<not> f_nan b \<and> f_key a \<le> f_key b)"

definition f_neg :: "32 word \<Rightarrow> 32 word" where
  "f_neg w = w XOR 0x80000000"

definition f_abs :: "32 word \<Rightarrow> 32 word" where
  "f_abs w = w AND 0x7FFFFFFF"

text \<open>Signed results that fit into 32 bits, and the others.\<close>

definition i32 :: "int \<Rightarrow> 32 word res" where
  "i32 v = (if - (2 ^ 31) \<le> v \<and> v < 2 ^ 31 then Ret (word_of_int v)
     else Trap (Fault ''signed integer overflow''))"

definition mul_i32 :: "32 word \<Rightarrow> 32 word \<Rightarrow> 32 word res" where
  "mul_i32 a b = i32 (sint a * sint b)"

text \<open>C divides towards zero; the remainder has the sign of the dividend.\<close>

definition c_quot :: "int \<Rightarrow> int \<Rightarrow> int" where
  "c_quot a b = (if (a < 0) = (b < 0) then \<bar>a\<bar> div \<bar>b\<bar> else - (\<bar>a\<bar> div \<bar>b\<bar>))"

definition div_i32 :: "32 word \<Rightarrow> 32 word \<Rightarrow> 32 word res" where
  "div_i32 a b = (if b \<noteq> 0 then i32 (c_quot (sint a) (sint b)) else Ret 0)"

definition mod_i32 :: "32 word \<Rightarrow> 32 word \<Rightarrow> 32 word res" where
  "mod_i32 a b = (if b \<noteq> 0 then
       res_bind (i32 (c_quot (sint a) (sint b))) (\<lambda>_. Ret (word_of_int (c_rem (sint a) \<bar>sint b\<bar>)))
     else Ret 0)"

definition neg_i32 :: "32 word \<Rightarrow> 32 word res" where
  "neg_i32 a = i32 (- sint a)"

definition abs_i32 :: "32 word \<Rightarrow> 32 word res" where
  "abs_i32 a = (if sint a < 0 then neg_i32 a else Ret a)"

definition shl_i32 :: "32 word \<Rightarrow> 32 word \<Rightarrow> 32 word res" where
  "shl_i32 a b = (if sint b < 0 \<or> sint b \<ge> 32 \<or> sint a < 0 then Trap (Fault ''shift left out of range'')
     else i32 (sint a * 2 ^ nat (sint b)))"

definition shr_i32 :: "32 word \<Rightarrow> 32 word \<Rightarrow> 32 word res" where
  "shr_i32 a b = (if sint b < 0 \<or> sint b \<ge> 32 then Trap (Fault ''shift right out of range'')
     else Ret (word_of_int (sint a div 2 ^ nat (sint b))))"

definition of_flag :: "bool \<Rightarrow> 32 word" where
  "of_flag b = (if b then 1 else 0)"

section \<open>Operands\<close>

text \<open>
  What the instructions use of the module beside its trees: the float operations and the constants,
  where \<open>None\<close> is a \<open>NULL\<close> entry.
\<close>

record qenv =
  q_fl :: fl_ops
  q_consts :: "8 word list option list"

definition const_of :: "qenv \<Rightarrow> s_expr_param \<Rightarrow> 8 word list option" where
  "const_of Q p = (if const_index p < length (q_consts Q) then q_consts Q ! const_index p else None)"

definition const_read :: "8 word list \<Rightarrow> 32 word res" where
  "const_read cdata = (if 4 \<le> length cdata then Ret (le32 cdata 0) else Trap (Fault ''constant read out of bounds''))"

definition le64 :: "8 word list \<Rightarrow> nat \<Rightarrow> 64 word" where
  "le64 bb k = push_bit 32 (ucast (le32 bb (k + 4))) OR ucast (le32 bb k)"

definition put64 :: "8 word list \<Rightarrow> nat \<Rightarrow> 64 word \<Rightarrow> 8 word list" where
  "put64 bb k v = put32 (put32 bb k (ucast v)) (k + 4) (ucast (drop_bit 32 v))"

definition field_read64 :: "nat \<Rightarrow> ('w, 64 word) iact" where
  "field_read64 k = (\<lambda>s. case blackboard s of
     None \<Rightarrow> Trap (Fault ''blackboard read through NULL'')
   | Some bb \<Rightarrow> if k + 8 \<le> length bb then Ret (le64 bb k, s) else Trap (Fault ''blackboard read out of bounds''))"

definition field_write64 :: "nat \<Rightarrow> 64 word \<Rightarrow> ('w, unit) iact" where
  "field_write64 k v = (\<lambda>s. case blackboard s of
     None \<Rightarrow> Trap (Fault ''blackboard written through NULL'')
   | Some bb \<Rightarrow> if k + 8 \<le> length bb then Ret ((), s \<lparr> blackboard := Some (put64 bb k v) \<rparr>)
       else Trap (Fault ''blackboard written out of bounds''))"

definition float_to_int :: "32 word \<Rightarrow> 32 word res" where
  "float_to_int w = (case float_trunc w of
     None \<Rightarrow> Trap (Fault ''float out of the range of int32_t'')
   | Some v \<Rightarrow> if - (2 ^ 31) \<le> v \<and> v < 2 ^ 31 then Ret (word_of_int v)
       else Trap (Fault ''float out of the range of int32_t''))"

text \<open>The three kinds of stack operand: the union of the parameter found, whatever its type.\<close>

definition stack_operand :: "s_expr_param \<Rightarrow> ('w, 32 word) iact" where
  "stack_operand p =
     (if opcode p = S_EXPR_PARAM_STACK_TOS then
        bindA (getA inst_stack) (\<lambda>z. bindA (stack_deref (s_expr_stack_peek_tos z (stack_offset p))) (\<lambda>v. retA (p_union v)))
      else if opcode p = S_EXPR_PARAM_STACK_LOCAL then
        bindA (getA inst_stack) (\<lambda>z. bindA (liftA (s_expr_stack_get_local z (stack_offset p))) (\<lambda>i.
          bindA (stack_deref i) (\<lambda>v. retA (p_union v))))
      else bindA (on_inst_stack s_expr_stack_pop) (\<lambda>i. bindA (stack_deref (Some i)) (\<lambda>v. retA (p_union v))))"

definition is_stack_operand :: "s_expr_param \<Rightarrow> bool" where
  "is_stack_operand p = (opcode p = S_EXPR_PARAM_STACK_TOS \<or> opcode p = S_EXPR_PARAM_STACK_LOCAL \<or> opcode p = S_EXPR_PARAM_STACK_POP)"

definition quad_read_int :: "qenv \<Rightarrow> s_expr_param \<Rightarrow> ('w, 32 word) iact" where
  "quad_read_int Q p =
     (if opcode p = S_EXPR_PARAM_INT then retA (p_union p)
      else if opcode p = S_EXPR_PARAM_UINT then retA (p_union p)
      else if opcode p = S_EXPR_PARAM_FLOAT then liftA (float_to_int (p_union p))
      else if opcode p = S_EXPR_PARAM_FIELD then
        bindA (getA blackboard) (\<lambda>bb.
          if bb \<noteq> None \<and> (field_size p = 4 \<or> field_size p = 8) then field_read (Some (field_offset p)) else retA 0)
      else if is_stack_operand p then stack_operand p
      else if opcode p = S_EXPR_PARAM_CONST_REF then
        (case const_of Q p of None \<Rightarrow> retA 0
         | Some cdata \<Rightarrow> if const_size p \<ge> 4 then liftA (const_read cdata) else retA 0)
      else retA 0)"

definition quad_read_float :: "qenv \<Rightarrow> s_expr_param \<Rightarrow> ('w, 32 word) iact" where
  "quad_read_float Q p =
     (if opcode p = S_EXPR_PARAM_FLOAT then retA (p_union p)
      else if opcode p = S_EXPR_PARAM_INT then retA (fl_of_int (q_fl Q) (p_union p))
      else if opcode p = S_EXPR_PARAM_UINT then retA (fl_of_uint (q_fl Q) (p_union p))
      else if opcode p = S_EXPR_PARAM_FIELD then
        bindA (getA blackboard) (\<lambda>bb.
          if bb \<noteq> None \<and> field_size p = 4 then field_read (Some (field_offset p))
          else if bb \<noteq> None \<and> field_size p = 8 then
            bindA (field_read64 (field_offset p)) (\<lambda>d. retA (fl_of_double (q_fl Q) d))
          else retA 0)
      else if is_stack_operand p then stack_operand p
      else if opcode p = S_EXPR_PARAM_CONST_REF then
        (case const_of Q p of None \<Rightarrow> retA 0
         | Some cdata \<Rightarrow>
             if const_size p = 4 then liftA (const_read cdata)
             else if const_size p = 8 then
               (if 8 \<le> length cdata then retA (fl_of_double (q_fl Q) (le64 cdata 0)) else trapA (Fault ''constant read out of bounds''))
             else retA 0)
      else retA 0)"

text \<open>The stack destinations: a parameter of the given type and bits.\<close>

definition stack_result :: "8 word \<Rightarrow> s_expr_param \<Rightarrow> 32 word \<Rightarrow> ('w, unit) iact" where
  "stack_result type dest val =
     (let p = zero_param \<lparr> p_type := type, p_union := val \<rparr> in
      if opcode dest = S_EXPR_PARAM_STACK_LOCAL then
        bindA (on_inst_stack (s_expr_stack_set_local (stack_offset dest) (Some p))) (\<lambda>_. retA ())
      else if opcode dest = S_EXPR_PARAM_STACK_TOS then
        bindA (on_inst_stack (s_expr_stack_poke (stack_offset dest) (Some p))) (\<lambda>_. retA ())
      else if opcode dest = S_EXPR_PARAM_STACK_PUSH then
        bindA (on_inst_stack (s_expr_stack_push (Some p))) (\<lambda>_. retA ())
      else retA ())"

definition quad_write_int :: "s_expr_param \<Rightarrow> 32 word \<Rightarrow> ('w, unit) iact" where
  "quad_write_int dest val =
     (if opcode dest = S_EXPR_PARAM_FIELD then
        bindA (getA blackboard) (\<lambda>bb.
          if bb \<noteq> None \<and> (field_size dest = 4 \<or> field_size dest = 8) then field_write (Some (field_offset dest)) val
          else retA ())
      else stack_result S_EXPR_PARAM_INT dest val)"

definition quad_write_float :: "qenv \<Rightarrow> s_expr_param \<Rightarrow> 32 word \<Rightarrow> ('w, unit) iact" where
  "quad_write_float Q dest val =
     (if opcode dest = S_EXPR_PARAM_FIELD then
        bindA (getA blackboard) (\<lambda>bb.
          if bb \<noteq> None \<and> field_size dest = 4 then field_write (Some (field_offset dest)) val
          else if bb \<noteq> None \<and> field_size dest = 8 then field_write64 (field_offset dest) (fl_to_double (q_fl Q) val)
          else retA ())
      else stack_result S_EXPR_PARAM_FLOAT dest val)"

section \<open>The instruction\<close>

text \<open>
  The cases of the switch: which operands are read, as integers or as floats, and which kind of
  result is written.
\<close>

datatype quad_op =
    II_I "32 word \<Rightarrow> 32 word \<Rightarrow> 32 word res"
  | I_I "32 word \<Rightarrow> 32 word res"
  | FF_F "32 word \<Rightarrow> 32 word \<Rightarrow> 32 word"
  | F_F "32 word \<Rightarrow> 32 word"
  | FF_I "32 word \<Rightarrow> 32 word \<Rightarrow> bool"

abbreviation icmp :: "(int \<Rightarrow> int \<Rightarrow> bool) \<Rightarrow> quad_op" where
  "icmp r \<equiv> II_I (\<lambda>a b. Ret (of_flag (r (sint a) (sint b))))"

definition quad_arith_ops :: "(nat \<times> quad_op) list" where
  "quad_arith_ops =
     [(SE_QUAD_IADD, II_I add_i32), (SE_QUAD_ISUB, II_I sub_i32), (SE_QUAD_IMUL, II_I mul_i32),
      (SE_QUAD_IDIV, II_I div_i32), (SE_QUAD_IMOD, II_I mod_i32), (SE_QUAD_INEG, I_I neg_i32)]"

definition quad_move_ops :: "(nat \<times> quad_op) list" where
  "quad_move_ops = [(SE_QUAD_MOVE, I_I Ret), (SE_QUAD_MOV, I_I Ret)]"

definition quad_imath_ops :: "(nat \<times> quad_op) list" where
  "quad_imath_ops =
     [(SE_QUAD_IABS, I_I abs_i32),
      (SE_QUAD_IMIN, II_I (\<lambda>a b. Ret (if sint a < sint b then a else b))),
      (SE_QUAD_IMAX, II_I (\<lambda>a b. Ret (if sint a > sint b then a else b)))]"

definition quad_int_ops :: "(nat \<times> quad_op) list" where
  "quad_int_ops = quad_arith_ops @ quad_move_ops @ quad_imath_ops"

definition quad_shift_ops :: "(nat \<times> quad_op) list" where
  "quad_shift_ops = [(SE_QUAD_BIT_SHL, II_I shl_i32), (SE_QUAD_BIT_SHR, II_I shr_i32)]"

definition quad_bit_ops :: "(nat \<times> quad_op) list" where
  "quad_bit_ops =
     [(SE_QUAD_BIT_AND, II_I (\<lambda>a b. Ret (a AND b))), (SE_QUAD_BIT_OR, II_I (\<lambda>a b. Ret (a OR b))),
      (SE_QUAD_BIT_XOR, II_I (\<lambda>a b. Ret (a XOR b))), (SE_QUAD_BIT_NOT, I_I (\<lambda>a. Ret (NOT a)))]"

definition quad_cmp_ops :: "(nat \<times> quad_op) list" where
  "quad_cmp_ops =
     [(SE_QUAD_ICMP_EQ, icmp (\<lambda>a b. a = b)), (SE_QUAD_ICMP_NE, icmp (\<lambda>a b. a \<noteq> b)),
      (SE_QUAD_ICMP_LT, icmp (\<lambda>a b. a < b)), (SE_QUAD_ICMP_LE, icmp (\<lambda>a b. a \<le> b)),
      (SE_QUAD_ICMP_GT, icmp (\<lambda>a b. a > b)), (SE_QUAD_ICMP_GE, icmp (\<lambda>a b. a \<ge> b)),
      (SE_QUAD_FCMP_EQ, FF_I f_eq), (SE_QUAD_FCMP_NE, FF_I (\<lambda>a b. \<not> f_eq a b)),
      (SE_QUAD_FCMP_LT, FF_I f_lt), (SE_QUAD_FCMP_LE, FF_I f_le),
      (SE_QUAD_FCMP_GT, FF_I (\<lambda>a b. f_lt b a)), (SE_QUAD_FCMP_GE, FF_I (\<lambda>a b. f_le b a)),
      (SE_QUAD_LOG_AND, icmp (\<lambda>a b. a \<noteq> 0 \<and> b \<noteq> 0)), (SE_QUAD_LOG_OR, icmp (\<lambda>a b. a \<noteq> 0 \<or> b \<noteq> 0)),
      (SE_QUAD_LOG_NOT, I_I (\<lambda>a. Ret (of_flag (a = 0)))),
      (SE_QUAD_LOG_NAND, icmp (\<lambda>a b. \<not> (a \<noteq> 0 \<and> b \<noteq> 0))), (SE_QUAD_LOG_NOR, icmp (\<lambda>a b. \<not> (a \<noteq> 0 \<or> b \<noteq> 0))),
      (SE_QUAD_LOG_XOR, icmp (\<lambda>a b. (a = 0) \<noteq> (b = 0)))]"

text \<open>The operations that the two forms share: the bitwise ones without the shifts, the comparisons, the connectives.\<close>

definition quad_test_ops :: "(nat \<times> quad_op) list" where
  "quad_test_ops = quad_bit_ops @ quad_cmp_ops"

definition quad_farith_ops :: "fl_ops \<Rightarrow> (nat \<times> quad_op) list" where
  "quad_farith_ops F =
     [(SE_QUAD_FADD, FF_F (fl_add F)), (SE_QUAD_FSUB, FF_F (fl_sub F)), (SE_QUAD_FMUL, FF_F (fl_mul F)),
      (SE_QUAD_FDIV, FF_F (\<lambda>a b. if \<not> f_eq b 0 then fl_div F a b else 0)),
      (SE_QUAD_FMOD, FF_F (\<lambda>a b. if \<not> f_eq b 0 then fl_fmodf F a b else 0)), (SE_QUAD_FNEG, F_F f_neg)]"

definition quad_fmath_ops :: "fl_ops \<Rightarrow> (nat \<times> quad_op) list" where
  "quad_fmath_ops F =
     [(SE_QUAD_FSQRT, F_F (fl_sqrtf F)), (SE_QUAD_FPOW, FF_F (fl_powf F)), (SE_QUAD_FEXP, F_F (fl_expf F)),
      (SE_QUAD_FLOG, F_F (fl_logf F)), (SE_QUAD_FLOG10, F_F (fl_log10f F)), (SE_QUAD_FLOG2, F_F (fl_log2f F)),
      (SE_QUAD_FABS, F_F f_abs), (SE_QUAD_FSIN, F_F (fl_sinf F)), (SE_QUAD_FCOS, F_F (fl_cosf F)),
      (SE_QUAD_FTAN, F_F (fl_tanf F)), (SE_QUAD_FASIN, F_F (fl_asinf F)), (SE_QUAD_FACOS, F_F (fl_acosf F)),
      (SE_QUAD_FATAN, F_F (fl_atanf F)), (SE_QUAD_FATAN2, FF_F (fl_atan2f F)), (SE_QUAD_FSINH, F_F (fl_sinhf F)),
      (SE_QUAD_FCOSH, F_F (fl_coshf F)), (SE_QUAD_FTANH, F_F (fl_tanhf F))]"

definition quad_fminmax_ops :: "(nat \<times> quad_op) list" where
  "quad_fminmax_ops =
     [(SE_QUAD_FMIN, FF_F (\<lambda>a b. if f_lt a b then a else b)), (SE_QUAD_FMAX, FF_F (\<lambda>a b. if f_lt b a then a else b))]"

definition quad_op_of :: "fl_ops \<Rightarrow> nat \<Rightarrow> quad_op option" where
  "quad_op_of F op1 = map_of (quad_test_ops @ quad_int_ops @ quad_shift_ops @
     quad_farith_ops F @ quad_fmath_ops F @ quad_fminmax_ops) op1"

definition se_quad :: "qenv \<Rightarrow> 'w ctx \<Rightarrow> ('w, unit) node_fn" where
  "se_quad Q c a ev event_id event_data =
     (if s_count a < 4 then retA ()
      else bindA (rdA c a 0) (\<lambda>p0. bindA (rdA c a 1) (\<lambda>src1. bindA (rdA c a 2) (\<lambda>src2. bindA (rdA c a 3) (\<lambda>dest.
        case quad_op_of (q_fl Q) (uint_val p0) of
          Some (II_I f) \<Rightarrow> bindA (quad_read_int Q src1) (\<lambda>i1. bindA (quad_read_int Q src2) (\<lambda>i2.
            bindA (liftA (f i1 i2)) (quad_write_int dest)))
        | Some (I_I f) \<Rightarrow> bindA (quad_read_int Q src1) (\<lambda>i1. bindA (liftA (f i1)) (quad_write_int dest))
        | Some (FF_F f) \<Rightarrow> bindA (quad_read_float Q src1) (\<lambda>f1. bindA (quad_read_float Q src2) (\<lambda>f2.
            quad_write_float Q dest (f f1 f2)))
        | Some (F_F f) \<Rightarrow> bindA (quad_read_float Q src1) (\<lambda>f1. quad_write_float Q dest (f f1))
        | Some (FF_I f) \<Rightarrow> bindA (quad_read_float Q src1) (\<lambda>f1. bindA (quad_read_float Q src2) (\<lambda>f2.
            quad_write_int dest (of_flag (f f1 f2))))
        | None \<Rightarrow> retA ())))))"

section \<open>The predicate\<close>

text \<open>Its shifts: the count is masked, and to the right the shift is logical.\<close>

definition p_shift_ops :: "(nat \<times> quad_op) list" where
  "p_shift_ops =
     [(SE_P_QUAD_BIT_SHL, II_I (\<lambda>a b. shl_i32 a (b AND 0x1F))),
      (SE_P_QUAD_BIT_SHR, II_I (\<lambda>a b. Ret (drop_bit (unat (b AND 0x1F)) a)))]"

definition p_acc_ops :: "(nat \<times> quad_op) list" where
  "p_acc_ops =
     [(SE_P_QUAD_ICMP_EQ_ACC, icmp (\<lambda>a b. a = b)), (SE_P_QUAD_ICMP_NE_ACC, icmp (\<lambda>a b. a \<noteq> b)),
      (SE_P_QUAD_ICMP_LT_ACC, icmp (\<lambda>a b. a < b)), (SE_P_QUAD_ICMP_LE_ACC, icmp (\<lambda>a b. a \<le> b)),
      (SE_P_QUAD_ICMP_GT_ACC, icmp (\<lambda>a b. a > b)), (SE_P_QUAD_ICMP_GE_ACC, icmp (\<lambda>a b. a \<ge> b)),
      (SE_P_QUAD_FCMP_EQ_ACC, FF_I f_eq), (SE_P_QUAD_FCMP_NE_ACC, FF_I (\<lambda>a b. \<not> f_eq a b)),
      (SE_P_QUAD_FCMP_LT_ACC, FF_I f_lt), (SE_P_QUAD_FCMP_LE_ACC, FF_I f_le),
      (SE_P_QUAD_FCMP_GT_ACC, FF_I (\<lambda>a b. f_lt b a)), (SE_P_QUAD_FCMP_GE_ACC, FF_I (\<lambda>a b. f_le b a))]"

text \<open>The value of a case on operands that have been read in both ways.\<close>

definition quad_result :: "quad_op \<Rightarrow> 32 word \<Rightarrow> 32 word \<Rightarrow> 32 word \<Rightarrow> 32 word \<Rightarrow> 32 word res" where
  "quad_result q i1 i2 f1 f2 = (case q of
     II_I f \<Rightarrow> f i1 i2 | I_I f \<Rightarrow> f i1 | FF_I f \<Rightarrow> Ret (of_flag (f f1 f2)) | FF_F f \<Rightarrow> Ret (f f1 f2) | F_F f \<Rightarrow> Ret (f f1))"

definition se_p_quad :: "qenv \<Rightarrow> 'w ctx \<Rightarrow> ('w, bool) node_fn" where
  "se_p_quad Q c a ev event_id event_data =
     (if s_count a < 4 then retA False
      else bindA (rdA c a 0) (\<lambda>p0. bindA (rdA c a 1) (\<lambda>src1. bindA (rdA c a 2) (\<lambda>src2. bindA (rdA c a 3) (\<lambda>dest.
        bindA (quad_read_int Q src1) (\<lambda>i1. bindA (quad_read_int Q src2) (\<lambda>i2.
        bindA (quad_read_float Q src1) (\<lambda>f1. bindA (quad_read_float Q src2) (\<lambda>f2.
        case map_of (quad_test_ops @ p_shift_ops) (uint_val p0) of
          Some q \<Rightarrow> bindA (liftA (quad_result q i1 i2 f1 f2)) (\<lambda>v.
            seqA (quad_write_int dest v) (retA (v \<noteq> 0)))
        | None \<Rightarrow>
            (case map_of p_acc_ops (uint_val p0) of
               Some q \<Rightarrow> bindA (liftA (quad_result q i1 i2 f1 f2)) (\<lambda>cmp.
                 bindA (quad_read_int Q dest) (\<lambda>v. bindA (liftA (add_i32 v cmp)) (\<lambda>w.
                 seqA (quad_write_int dest w) (retA (cmp \<noteq> 0)))))
             | None \<Rightarrow> excA ''SE_P_QUAD: unknown opcode''))))))))))"

section \<open>Reading without effect\<close>

text \<open>
  A predicate reads each operand twice, as an integer and as a float. Every operand but a pop can be
  read so without changing the instance.
\<close>

lemma read_pure:
  assumes "opcode p \<noteq> S_EXPR_PARAM_STACK_POP"
  shows "quad_read_int Q p s = Ret (v, s') \<Longrightarrow> s' = s" "quad_read_float Q p s = Ret (v, s') \<Longrightarrow> s' = s"
  using assms
  by (auto simp: quad_read_int_def quad_read_float_def stack_operand_def is_stack_operand_def stack_deref_def field_read_def field_read64_def
      split: if_splits option.splits)

definition reads_as :: "qenv \<Rightarrow> 'w inst \<Rightarrow> s_expr_param \<Rightarrow> 32 word \<Rightarrow> 32 word \<Rightarrow> bool" where
  "reads_as Q s p i f = (quad_read_int Q p s = Ret (i, s) \<and> quad_read_float Q p s = Ret (f, s))"

text \<open>The four parameters of an instruction.\<close>

definition quad_params :: "'w ctx \<Rightarrow> slice \<Rightarrow> nat \<Rightarrow> s_expr_param \<Rightarrow> s_expr_param \<Rightarrow> s_expr_param \<Rightarrow> bool" where
  "quad_params c a op1 src1 src2 dest = (4 \<le> s_count a \<and>
     (\<exists>p0. rd (tree_params c) a 0 = Ret p0 \<and> uint_val p0 = op1) \<and> rd (tree_params c) a 1 = Ret src1 \<and>
     rd (tree_params c) a 2 = Ret src2 \<and> rd (tree_params c) a 3 = Ret dest)"

lemma se_quad_params:
  assumes "quad_params c a op1 src1 src2 dest"
  shows "se_quad Q c a ev e d s = (case quad_op_of (q_fl Q) op1 of
      Some (II_I f) \<Rightarrow> bindA (quad_read_int Q src1) (\<lambda>i1. bindA (quad_read_int Q src2) (\<lambda>i2. bindA (liftA (f i1 i2)) (quad_write_int dest))) s
    | Some (I_I f) \<Rightarrow> bindA (quad_read_int Q src1) (\<lambda>i1. bindA (liftA (f i1)) (quad_write_int dest)) s
    | Some (FF_F f) \<Rightarrow> bindA (quad_read_float Q src1) (\<lambda>f1. bindA (quad_read_float Q src2) (\<lambda>f2. quad_write_float Q dest (f f1 f2))) s
    | Some (F_F f) \<Rightarrow> bindA (quad_read_float Q src1) (\<lambda>f1. quad_write_float Q dest (f f1)) s
    | Some (FF_I f) \<Rightarrow> bindA (quad_read_float Q src1) (\<lambda>f1. bindA (quad_read_float Q src2) (\<lambda>f2. quad_write_int dest (of_flag (f f1 f2)))) s
    | None \<Rightarrow> Ret ((), s))"
  using assms by (auto simp: quad_params_def se_quad_def rdA_def split: option.split quad_op.split)

text \<open>The operations of this table always have a result, and write an integer.\<close>

fun total_int_op :: "quad_op \<Rightarrow> bool" where
  "total_int_op (II_I f) = (\<forall>a b. returns (f a b))"
| "total_int_op (I_I f) = (\<forall>a. returns (f a))"
| "total_int_op (FF_I f) = True"
| "total_int_op _ = False"

lemma test_op_total:
  assumes "map_of quad_test_ops op1 = Some q"
  shows "total_int_op q"
proof -
  have "list_all (\<lambda>(k, q). total_int_op q) quad_test_ops" by (simp add: quad_test_ops_def quad_bit_ops_def quad_cmp_ops_def returns_def)
  then show ?thesis using map_of_SomeD [OF assms] by (auto simp: list_all_iff)
qed

lemma total_int_op_cases:
  assumes "total_int_op q"
  obtains v where "quad_result q i1 i2 f1 f2 = Ret v"
    "case q of II_I f \<Rightarrow> f i1 i2 = Ret v | I_I f \<Rightarrow> f i1 = Ret v | FF_I f \<Rightarrow> v = of_flag (f f1 f2) | _ \<Rightarrow> False"
  using assms by (cases q) (auto simp: quad_result_def returns_iff)

section \<open>The two forms agree\<close>

text \<open>
  C19. The statement and the predicate form of a bitwise operation other than a shift, a comparison or a
  connective do the same on operands that can be read both as an integer and as a float, each without effect
  (which excludes pops, operands whose reading faults, and float literals outside the range of an \<open>int32_t\<close>, on
  which the forms differ: the predicate reads every operand as both): the predicate
  leaves the instance as the statement does and answers whether the value written is not zero.
\<close>

theorem quad_forms_agree:
  assumes "quad_params c a op1 src1 src2 dest" "map_of quad_test_ops op1 = Some q"
    "reads_as Q s src1 i1 f1" "reads_as Q s src2 i2 f2"
  shows "\<exists>v. quad_result q i1 i2 f1 f2 = Ret v \<and>
    se_quad Q c a ev e d s = quad_write_int dest v s \<and>
    se_p_quad Q c a ev e d s = res_bind (se_quad Q c a ev e d s) (\<lambda>(_, t). Ret (v \<noteq> 0, t))"
proof -
  have q: "quad_op_of (q_fl Q) op1 = Some q" "map_of (quad_test_ops @ p_shift_ops) op1 = Some q"
    using assms(2) by (simp_all add: quad_op_of_def map_add_def)
  obtain v where v: "quad_result q i1 i2 f1 f2 = Ret v"
    "case q of II_I f \<Rightarrow> f i1 i2 = Ret v | I_I f \<Rightarrow> f i1 = Ret v | FF_I f \<Rightarrow> v = of_flag (f f1 f2) | _ \<Rightarrow> False"
    using total_int_op_cases [OF test_op_total [OF assms(2)]] by blast
  have w: "se_quad Q c a ev e d s = quad_write_int dest v s"
    using v assms(3,4) by (simp add: se_quad_params [OF assms(1)] q reads_as_def split: quad_op.splits)
  obtain p0 where p: "rd (tree_params c) a 0 = Ret p0" "uint_val p0 = op1" "\<not> s_count a < 4"
    "rd (tree_params c) a 1 = Ret src1" "rd (tree_params c) a 2 = Ret src2" "rd (tree_params c) a 3 = Ret dest"
    using assms(1) by (auto simp: quad_params_def)
  have "se_p_quad Q c a ev e d s = res_bind (quad_write_int dest v s) (\<lambda>(_, t). Ret (v \<noteq> 0, t))"
    using assms(3,4) by (simp add: se_p_quad_def rdA_def p p(4) [unfolded One_nat_def] reads_as_def q(2) v(1) del: map_of_append)
  then show ?thesis using v(1) w by simp
qed

section \<open>Integer arithmetic is exact\<close>

text \<open>The operations on the integers; division and remainder are those of the library, towards zero.\<close>

definition int_spec :: "(nat \<times> (int \<Rightarrow> int \<Rightarrow> int)) list" where
  "int_spec =
     [(SE_QUAD_IADD, \<lambda>a b. a + b), (SE_QUAD_ISUB, \<lambda>a b. a - b), (SE_QUAD_IMUL, \<lambda>a b. a * b),
      (SE_QUAD_IDIV, \<lambda>a b. if b = 0 then 0 else a sdiv b), (SE_QUAD_IMOD, \<lambda>a b. if b = 0 then 0 else a smod b),
      (SE_QUAD_INEG, \<lambda>a b. - a), (SE_QUAD_IABS, \<lambda>a b. \<bar>a\<bar>), (SE_QUAD_IMIN, min), (SE_QUAD_IMAX, max),
      (SE_QUAD_MOVE, \<lambda>a b. a), (SE_QUAD_MOV, \<lambda>a b. a)]"

lemma sint_bounds: "- (2 ^ 31) \<le> sint (w :: 32 word)" "sint (w :: 32 word) < 2 ^ 31"
  using sint_range_size [of w] by (simp_all add: word_size)

lemma i32_sint [simp]: "i32 (sint w) = Ret w"
  using sint_bounds [of w] by (simp add: i32_def)

lemma sint_of_range: "- (2 ^ 31) \<le> v \<Longrightarrow> v < 2 ^ 31 \<Longrightarrow> sint (word_of_int v :: 32 word) = v"
  by (simp add: signed_of_int signed_take_bit_int_eq_self)

lemma c_quot_sdiv: "b \<noteq> 0 \<Longrightarrow> c_quot a b = a sdiv b"
  by (auto simp: c_quot_def signed_divide_int_def sgn_if)

lemma c_rem_smod: "c_rem a \<bar>b\<bar> = a smod b"
  by (auto simp: c_rem_def signed_modulo_int_def sgn_if)

lemma smod_range: "- (2 ^ 31) \<le> a \<Longrightarrow> a < 2 ^ 31 \<Longrightarrow> - (2 ^ 31) \<le> a smod b \<and> a smod b < 2 ^ 31" for a b :: int
proof -
  assume a: "- (2 ^ 31) \<le> a" "a < 2 ^ 31"
  have "\<bar>a\<bar> mod \<bar>b\<bar> \<le> \<bar>a\<bar>" "0 \<le> \<bar>a\<bar> mod \<bar>b\<bar>"
    using pos_mod_sign [of "\<bar>b\<bar>" "\<bar>a\<bar>"] by (cases "b = 0"; simp add: zmod_le_nonneg_dividend)+
  then show ?thesis using a by (auto simp: signed_modulo_int_def sgn_if)
qed

lemma sdiv_range:
  fixes a b :: int
  assumes "- (2 ^ 31) \<le> a" "a < 2 ^ 31" "b \<noteq> 0" "\<not> (a = - (2 ^ 31) \<and> b = - 1)"
  shows "- (2 ^ 31) \<le> a sdiv b \<and> a sdiv b < 2 ^ 31"
proof (cases "\<bar>b\<bar> = 1")
  case True
  then show ?thesis using assms by (auto simp: abs_if split: if_splits)
next
  case False
  then have "\<bar>a\<bar> div \<bar>b\<bar> \<le> \<bar>a\<bar> div 2" using assms(3) by (intro zdiv_mono2) auto
  then have "\<bar>a\<bar> div \<bar>b\<bar> \<le> 2 ^ 30" "0 \<le> \<bar>a\<bar> div \<bar>b\<bar>" using assms(1-3) by (auto simp: pos_imp_zdiv_nonneg_iff)
  then show ?thesis by (auto simp: signed_divide_int_def sgn_if)
qed

text \<open>Every operation of the table is its specification on the integers, or overflows.\<close>

lemma int_op_spec:
  assumes "map_of int_spec op1 = Some g" "op1 = SE_QUAD_IMOD \<longrightarrow> \<not> (sint a = - (2 ^ 31) \<and> sint b = - 1)"
  shows "\<exists>q. quad_op_of F op1 = Some q \<and> (case q of II_I f \<Rightarrow> f a b = i32 (g (sint a) (sint b))
    | I_I f \<Rightarrow> f a = i32 (g (sint a) (sint b)) | _ \<Rightarrow> False)"
proof -
  note r = sint_bounds [of a] sint_bounds [of b] and rs = sint_bounds [of a, simplified] sint_bounds [of b, simplified]
  have z: "(sint b = 0) = (b = 0)" by (simp add: signed_eq_0_iff)
  have ops: "add_i32 a b = i32 (sint a + sint b)" "sub_i32 a b = i32 (sint a - sint b)"
    "div_i32 a b = i32 (if sint b = 0 then 0 else sint a sdiv sint b)"
    "abs_i32 a = i32 \<bar>sint a\<bar>" "neg_i32 a = i32 (- sint a)" "mul_i32 a b = i32 (sint a * sint b)"
    "Ret (if sint a < sint b then a else b) = i32 (min (sint a) (sint b))"
    "Ret (if sint a > sint b then a else b) = i32 (max (sint a) (sint b))"
    by (auto simp: add_i32_def sub_i32_def i32_def div_i32_def mul_i32_def z c_quot_sdiv abs_i32_def neg_i32_def rs min_def max_def dest: signed_word_eqI)
  have m: "mod_i32 a b = i32 (if sint b = 0 then 0 else sint a smod sint b)" if "\<not> (sint a = - (2 ^ 31) \<and> sint b = - 1)"
  proof (cases "b = 0")
    case False
    then have "- (2 ^ 31) \<le> sint a sdiv sint b \<and> sint a sdiv sint b < 2 ^ 31"
      using sdiv_range [OF r(1,2), of "sint b"] that z by blast
    then show ?thesis using smod_range [OF r(1,2)] False by (simp add: mod_i32_def c_quot_sdiv z c_rem_smod i32_def)
  qed (simp add: mod_i32_def i32_def)
  have "(op1, g) \<in> set int_spec" using assms(1) by (rule map_of_SomeD)
  then show ?thesis using assms(2)
    unfolding int_spec_def list.set insert_iff empty_iff prod.inject
    by (elim disjE conjE FalseE; hypsubst; simp add: quad_op_of_def quad_test_ops_def quad_bit_ops_def quad_cmp_ops_def quad_int_ops_def quad_arith_ops_def quad_move_ops_def quad_imath_ops_def ops m)
qed

text \<open>
  C20. Integer instructions are exact. The result in the destination field is the sum, difference,
  product, quotient towards zero, remainder, negation, absolute value, minimum, maximum or copy of the
  operands as integers, a zero divisor giving 0, whenever that fits 32 bits, and no other byte
  changes; otherwise the signed overflow of C is reached.
\<close>

theorem quad_integer_exact:
  assumes "quad_params c a op1 src1 src2 dest" "map_of int_spec op1 = Some g"
    "reads_as Q s src1 i1 f1" "reads_as Q s src2 i2 f2"
    "op1 = SE_QUAD_IMOD \<longrightarrow> \<not> (sint i1 = - (2 ^ 31) \<and> sint i2 = - 1)"
    "opcode dest = S_EXPR_PARAM_FIELD" "field_size dest = 4 \<or> field_size dest = 8"
    "blackboard s = Some bb" "field_offset dest + 4 \<le> length bb"
  shows "if - (2 ^ 31) \<le> g (sint i1) (sint i2) \<and> g (sint i1) (sint i2) < 2 ^ 31
    then \<exists>bb'. se_quad Q c a ev e d s = Ret ((), s \<lparr> blackboard := Some bb' \<rparr>) \<and>
      sint (le32 bb' (field_offset dest)) = g (sint i1) (sint i2) \<and> length bb' = length bb \<and>
      (\<forall>k. k < field_offset dest \<or> field_offset dest + 4 \<le> k \<longrightarrow> bb' ! k = bb ! k)
    else se_quad Q c a ev e d s = Trap (Fault ''signed integer overflow'')"
proof -
  let ?v = "g (sint i1) (sint i2)" and ?k = "field_offset dest"
  obtain q where q: "quad_op_of (q_fl Q) op1 = Some q"
    "case q of II_I f \<Rightarrow> f i1 i2 = i32 ?v | I_I f \<Rightarrow> f i1 = i32 ?v | _ \<Rightarrow> False"
    using int_op_spec [OF assms(2,5)] by blast
  have e: "se_quad Q c a ev e d s = bindA (liftA (i32 ?v)) (quad_write_int dest) s"
    using q assms(3,4) by (simp add: se_quad_params [OF assms(1)] reads_as_def split: quad_op.splits)
  have w: "quad_write_int dest w s = Ret ((), s \<lparr> blackboard := Some (put32 bb ?k w) \<rparr>)" for w
    using assms(6-9) by (simp add: quad_write_int_def field_write_def)
  have o1: "put32 bb ?k w ! k = bb ! k" if "k < ?k \<or> ?k + 4 \<le> k" for k w
    using that by (auto simp: put32_def nth_list_update)
  have l: "length (put32 bb ?k w) = length bb" for w by (simp add: put32_def)
  show ?thesis
  proof (cases "- (2 ^ 31) \<le> ?v \<and> ?v < 2 ^ 31")
    case True
    then have "se_quad Q c a ev e d s = Ret ((), s \<lparr> blackboard := Some (put32 bb ?k (word_of_int ?v)) \<rparr>)"
      by (simp add: e w i32_def)
    moreover have "sint (le32 (put32 bb ?k (word_of_int ?v)) ?k) = ?v"
      using True by (simp only: le32_put32 [OF assms(9)] sint_of_range)
    ultimately show ?thesis using True o1 l by auto
  next
    case False
    then have "i32 ?v = Trap (Fault ''signed integer overflow'')" unfolding i32_def by (rule if_not_P)
    then show ?thesis unfolding if_not_P [OF False] e by simp
  qed
qed

section \<open>A popped operand\<close>

text \<open>
  The predicate pops an operand for each of its two readings. From a stack with the one value the
  instruction needs, the statement writes its result and the predicate stops with an underflow.
\<close>

theorem quad_pop_twice:
  assumes "quad_params c a op1 src1 src2 dest" "map_of quad_test_ops op1 = Some (II_I f)"
    "opcode src1 = S_EXPR_PARAM_STACK_POP" "opcode src2 = S_EXPR_PARAM_INT"
    "inst_stack s = Some st" "sp st = 1" "stk_ok st"
  shows "se_quad Q c a ev e d s = res_bind (f (p_union (stk_data st ! 0)) (p_union src2))
      (\<lambda>v. quad_write_int dest v (s \<lparr> inst_stack := Some (st \<lparr> sp := 0 \<rparr>) \<rparr>)) \<and>
    se_p_quad Q c a ev e d s = Trap (Exception ''s_expr_stack_pop: underflow'')"
proof -
  have d: "0 < length (stk_data st)" using assms(6,7) by (auto simp: stk_ok_def)
  let ?s = "s \<lparr> inst_stack := Some (st \<lparr> sp := 0 \<rparr>) \<rparr>"
  have r: "quad_read_int Q src1 s = Ret (p_union (stk_data st ! 0), ?s)"
    using assms(3,5,6) d by (simp add: quad_read_int_def is_stack_operand_def stack_operand_def on_inst_stack_def s_expr_stack_pop_def stack_deref_def)
  have t: "quad_read_float Q src1 ?s = Trap (Exception ''s_expr_stack_pop: underflow'')"
    using assms(3) by (simp add: quad_read_float_def is_stack_operand_def stack_operand_def on_inst_stack_def s_expr_stack_pop_def)
  have i: "quad_read_int Q src2 u = Ret (p_union src2, u)" for u :: "'a inst"
    using assms(4) by (simp add: quad_read_int_def)
  have q: "quad_op_of (q_fl Q) op1 = Some (II_I f)" using assms(2) by (simp add: quad_op_of_def)
  obtain p0 where p: "rd (tree_params c) a 0 = Ret p0" "\<not> s_count a < 4"
    "rd (tree_params c) a 1 = Ret src1" "rd (tree_params c) a 2 = Ret src2" "rd (tree_params c) a 3 = Ret dest"
    using assms(1) by (auto simp: quad_params_def)
  have "se_p_quad Q c a ev e d s = Trap (Exception ''s_expr_stack_pop: underflow'')"
    by (simp add: se_p_quad_def rdA_def p p(3) [unfolded One_nat_def] r i t)
  moreover have "se_quad Q c a ev e d s = res_bind (f (p_union (stk_data st ! 0)) (p_union src2)) (\<lambda>v. quad_write_int dest v ?s)"
    by (cases "f (p_union (stk_data st ! 0)) (p_union src2)") (simp_all add: se_quad_params [OF assms(1)] q r i)
  ultimately show ?thesis by blast
qed

section \<open>Concrete instructions\<close>

text \<open>An instruction on a field and a literal, into another field.\<close>

definition demo_fl :: fl_ops where
  "demo_fl = \<lparr> fl_add = (+), fl_sub = (-), fl_mul = (*), fl_div = (div), fl_fmodf = (mod), fl_powf = (\<lambda>a b. a),
     fl_atan2f = (\<lambda>a b. a), fl_sqrtf = id, fl_expf = id, fl_logf = id, fl_log10f = id, fl_log2f = id, fl_sinf = id, fl_cosf = id,
     fl_tanf = id, fl_asinf = id, fl_acosf = id, fl_atanf = id, fl_sinhf = id, fl_coshf = id, fl_tanhf = id,
     fl_of_int = id, fl_of_uint = id, fl_of_double = ucast, fl_to_double = ucast \<rparr>"

definition demo_quad_env :: qenv where
  "demo_quad_env = \<lparr> q_fl = demo_fl, q_consts = [] \<rparr>"

definition quad_lit :: "8 word \<Rightarrow> 32 word \<Rightarrow> s_expr_param" where
  "quad_lit t v = \<lparr> p_type = t, index_to_pointer = 0, p_union = v \<rparr>"

definition demo_quad_ctx :: "nat \<Rightarrow> s_expr_param \<Rightarrow> unit ctx" where
  "demo_quad_ctx op1 src = \<lparr> tree_params = [quad_lit S_EXPR_PARAM_UINT (of_nat op1), src, quad_lit S_EXPR_PARAM_INT (- 2), quad_lit S_EXPR_PARAM_FIELD 0x00040004],
     main_fns = [], pred_fns = [], oneshot_fns = [] \<rparr>"

definition demo_quad_slice :: slice where
  "demo_quad_slice = \<lparr> s_base = Some 0, s_count = 4 \<rparr>"

definition demo_quad_inst :: "unit inst" where
  "demo_quad_inst = \<lparr> node_states = [], pointer_array = None, blackboard = Some [7, 0, 0, 0, 0, 0, 0, 0], current_node_index = 0, current_event_id = 0,
     current_event_data = 0, in_pointer_call = False, pointer_base = 0, evq_state = empty_evq,
     inst_stack = Some \<lparr> stk_data = [quad_lit S_EXPR_PARAM_INT 9, zero_param], capacity = 2, sp = 1, frames = replicate 16 zero_frame, frame_count = 0 \<rparr>,
     tick_type = 0, current_dict = None, user_ctx = () \<rparr>"

lemma demo_quad_params:
  "op1 < 65536 \<Longrightarrow> quad_params (demo_quad_ctx op1 src) demo_quad_slice op1 src (quad_lit S_EXPR_PARAM_INT (- 2)) (quad_lit S_EXPR_PARAM_FIELD 0x00040004)"
  by (simp add: quad_params_def demo_quad_ctx_def demo_quad_slice_def rd_def quad_lit_def uint_val_def unat_of_nat)

lemma demo_lits:
  "opcode (quad_lit S_EXPR_PARAM_FIELD v) = S_EXPR_PARAM_FIELD" "opcode (quad_lit S_EXPR_PARAM_INT v) = S_EXPR_PARAM_INT"
  "opcode (quad_lit S_EXPR_PARAM_STACK_POP v) = S_EXPR_PARAM_STACK_POP"
  "field_size (quad_lit t 0x00040004) = 4" "field_offset (quad_lit t 0x00040004) = 4"
  "field_size (quad_lit t 0x00040000) = 4" "field_offset (quad_lit t 0x00040000) = 0"
  "p_union (quad_lit t v) = v"
  by (simp_all add: quad_lit_def opcode_def field_size_def field_offset_def)

lemma demo_bb: "blackboard demo_quad_inst = Some [7, 0, 0, 0, 0, 0, 0, 0]"
  by (simp add: demo_quad_inst_def)

lemma demo_reads:
  "reads_as demo_quad_env demo_quad_inst (quad_lit S_EXPR_PARAM_FIELD 0x00040000) 7 7"
  "reads_as demo_quad_env demo_quad_inst (quad_lit S_EXPR_PARAM_INT (- 2)) (- 2) (- 2)"
  by (simp_all add: reads_as_def quad_read_int_def quad_read_float_def demo_lits demo_bb field_read_def le32_def demo_quad_env_def demo_fl_def)

theorem quad_integer_exact_witness:
  "\<exists>bb'. se_quad demo_quad_env (demo_quad_ctx SE_QUAD_IDIV (quad_lit S_EXPR_PARAM_FIELD 0x00040000)) demo_quad_slice SE_EVENT_TICK 0 0 demo_quad_inst
      = Ret ((), demo_quad_inst \<lparr> blackboard := Some bb' \<rparr>) \<and> sint (le32 bb' 4) = - 3 \<and> bb' ! 0 = 7"
proof -
  have m: "map_of int_spec SE_QUAD_IDIV = Some (\<lambda>a b. if b = 0 then 0 else a sdiv b)" by (simp add: int_spec_def)
  have d: "opcode (quad_lit S_EXPR_PARAM_FIELD 0x00040004) = S_EXPR_PARAM_FIELD" "field_size (quad_lit S_EXPR_PARAM_FIELD 0x00040004) = 4"
    "field_offset (quad_lit S_EXPR_PARAM_FIELD 0x00040004) = 4"
    by (rule demo_lits)+
  have v: "sint (7 :: 32 word) = 7" "sint (- 2 :: 32 word) = - 2" "(7 :: int) sdiv - 2 = - 3" by (simp_all add: signed_divide_int_def)
  have i: "SE_QUAD_IDIV = SE_QUAD_IMOD \<longrightarrow> P" for P by simp
  have "(SE_QUAD_IDIV) < 65536" by simp
  note r = quad_integer_exact [OF demo_quad_params [OF this] m demo_reads i d(1) disjI1 [OF d(2)] demo_bb, of SE_EVENT_TICK 0 0, unfolded d(3) v]
  then obtain bb' where "se_quad demo_quad_env (demo_quad_ctx SE_QUAD_IDIV (quad_lit S_EXPR_PARAM_FIELD 0x00040000)) demo_quad_slice SE_EVENT_TICK 0 0 demo_quad_inst
      = Ret ((), demo_quad_inst \<lparr> blackboard := Some bb' \<rparr>)" "sint (le32 bb' 4) = - 3"
    "\<forall>k. k < 4 \<or> 4 + 4 \<le> k \<longrightarrow> bb' ! k = [7, 0, 0, 0, 0, 0, 0, 0] ! k"
    by (auto simp: v)
  then show ?thesis by auto
qed

theorem quad_forms_agree_witness:
  "se_p_quad demo_quad_env (demo_quad_ctx SE_QUAD_ICMP_GT (quad_lit S_EXPR_PARAM_FIELD 0x00040000)) demo_quad_slice SE_EVENT_TICK 0 0 demo_quad_inst
     = Ret (True, demo_quad_inst \<lparr> blackboard := Some [7, 0, 0, 0, 1, 0, 0, 0] \<rparr>)"
proof -
  have m: "map_of quad_test_ops SE_QUAD_ICMP_GT = Some (icmp (\<lambda>a b. a > b))" by (simp add: quad_test_ops_def quad_bit_ops_def quad_cmp_ops_def)
  have v: "quad_result (icmp (\<lambda>a b. a > b)) 7 (- 2) 7 (- 2) = Ret 1"
    "quad_write_int (quad_lit S_EXPR_PARAM_FIELD 0x00040004) 1 demo_quad_inst = Ret ((), demo_quad_inst \<lparr> blackboard := Some [7, 0, 0, 0, 1, 0, 0, 0] \<rparr>)"
    by (simp_all add: quad_result_def of_flag_def quad_write_int_def demo_lits demo_bb field_write_def put32_def)
  have "(SE_QUAD_ICMP_GT) < 65536" by simp
  from quad_forms_agree [OF demo_quad_params [OF this] m demo_reads, of SE_EVENT_TICK 0 0] v show ?thesis by auto
qed

theorem quad_pop_twice_witness:
  "se_p_quad demo_quad_env (demo_quad_ctx SE_QUAD_ICMP_GT (quad_lit S_EXPR_PARAM_STACK_POP 0)) demo_quad_slice SE_EVENT_TICK 0 0 demo_quad_inst
     = Trap (Exception ''s_expr_stack_pop: underflow'')"
proof -
  have m: "map_of quad_test_ops SE_QUAD_ICMP_GT = Some (icmp (\<lambda>a b. a > b))" by (simp add: quad_test_ops_def quad_bit_ops_def quad_cmp_ops_def)
  have d: "opcode (quad_lit S_EXPR_PARAM_STACK_POP 0) = S_EXPR_PARAM_STACK_POP" "opcode (quad_lit S_EXPR_PARAM_INT (- 2)) = S_EXPR_PARAM_INT"
    by (rule demo_lits)+
  have i: "inst_stack demo_quad_inst = Some (the (inst_stack demo_quad_inst))" "sp (the (inst_stack demo_quad_inst)) = 1" "stk_ok (the (inst_stack demo_quad_inst))"
    by (simp_all add: demo_quad_inst_def stk_ok_def)
  have "(SE_QUAD_ICMP_GT) < 65536" by simp
  from quad_pop_twice [OF demo_quad_params [OF this] m d i, of demo_quad_env SE_EVENT_TICK 0 0] show ?thesis by (rule conjunct2)
qed

end
