(* ===== verification/SE_Dict.thy ===== *)
theory SE_Dict
  imports SE_Quads
begin

text \<open>
  Dictionaries inside the parameter array: lookup by hashed key (\<open>se_dict_hash.c\<close>, \<open>se_dict_hash.h\<close>)
  and by dotted path (\<open>se_dict_string.c\<close>, \<open>se_dict_string.h\<close>), typed extraction, iteration.

  A \<open>const s_expr_param_t *\<close> is the index of the parameter it points to, \<open>None\<close> for \<open>NULL\<close>; reading past
  the array is a \<open>Fault\<close>. A \<open>const char *\<close> is the list of its bytes, \<open>None\<close> for \<open>NULL\<close>; what
  follows the list is the terminating zero. The two files repeat the same private functions; where a
  body is the same text, the second is defined by the first.
\<close>

section \<open>Parameters by pointer\<close>

type_synonym pptr = "nat option"
type_synonym cstr = "8 word list option"

abbreviation S_EXPR_PARAM_STR_IDX :: "8 word" where "S_EXPR_PARAM_STR_IDX \<equiv> 0x0D"

definition str_hash :: "s_expr_param \<Rightarrow> 32 word" where
  "str_hash p = p_union p"

definition str_index :: "s_expr_param \<Rightarrow> nat" where
  "str_index p = unat (p_union p) mod 65536"

definition str_len :: "s_expr_param \<Rightarrow> nat" where
  "str_len p = unat (p_union p) div 65536"

definition deref :: "s_expr_param list \<Rightarrow> nat \<Rightarrow> s_expr_param res" where
  "deref P i = (if i < length P then Ret (P ! i) else Trap (Fault ''params read out of bounds''))"

section \<open>Hashes\<close>

abbreviation FNV_OFFSET :: "32 word" where "FNV_OFFSET \<equiv> 0x811C9DC5"
abbreviation FNV_PRIME :: "32 word" where "FNV_PRIME \<equiv> 0x01000193"

definition fnv_step :: "32 word \<Rightarrow> 8 word \<Rightarrow> 32 word" where
  "fnv_step hash c = (hash XOR ucast c) * FNV_PRIME"

definition se_dicts_hash_segment :: "8 word list \<Rightarrow> 32 word" where
  "se_dicts_hash_segment str = foldl fnv_step FNV_OFFSET str"

text \<open>A string ends at its first zero.\<close>

definition s_expr_hash :: "8 word list \<Rightarrow> 32 word" where
  "s_expr_hash str = foldl fnv_step FNV_OFFSET (takeWhile (\<lambda>c. c \<noteq> 0) str)"

definition index_hash_table :: "32 word list" where
  "index_hash_table =
     [0x350CA8AF, 0x340CA71C, 0x370CABD5, 0x360CAA42, 0x310CA263, 0x300CA0D0, 0x330CA589, 0x320CA3F6,
      0x3D0CB547, 0x3C0CB3B4, 0x1BEB2A44, 0x1CEB2BD7, 0x1DEB2D6A, 0x1EEB2EFD, 0x17EB23F8, 0x18EB258B]"

text \<open>The digits in the order the loop writes them, at most seven.\<close>

fun index_digits :: "nat \<Rightarrow> nat \<Rightarrow> 8 word list" where
  "index_digits 0 n = []"
| "index_digits (Suc room) n =
     of_nat (48 + n mod 10) # (if n div 10 > 0 then index_digits room (n div 10) else [])"

definition se_dicth_index_hash :: "nat \<Rightarrow> 32 word" where
  "se_dicth_index_hash index =
     (if index < 16 then index_hash_table ! index
      else foldl fnv_step FNV_OFFSET (rev (index_digits 7 index)))"

section \<open>One level\<close>

definition skip_value :: "s_expr_param list \<Rightarrow> pptr \<Rightarrow> nat \<Rightarrow> pptr res" where
  "skip_value P p e =
     (case p of
        None \<Rightarrow> Ret None
      | Some i \<Rightarrow>
          if i \<ge> e then Ret None
          else res_bind (deref P i) (\<lambda>x.
            if opcode x = S_EXPR_PARAM_OPEN_DICT \<or> opcode x = S_EXPR_PARAM_OPEN_ARRAY \<or>
               opcode x = S_EXPR_PARAM_OPEN_TUPLE \<or> opcode x = S_EXPR_PARAM_OPEN \<or>
               opcode x = S_EXPR_PARAM_OPEN_CALL
            then Ret (Some (i + brace_idx x + 1))
            else Ret (Some (i + 1))))"

text \<open>
  The loops move a pointer forward below an end that is at most 65535 parameters away, so that
  \<open>nav_fuel\<close> iterations are never used up.
\<close>

definition find_step :: "s_expr_param list \<Rightarrow> nat \<Rightarrow> 32 word \<Rightarrow> nat \<Rightarrow> (nat + pptr) res" where
  "find_step P dict_end key_hash p =
     res_bind (deref P p) (\<lambda>x.
       if opcode x = S_EXPR_PARAM_OPEN_KEY then
         if str_hash x = key_hash then Ret (Inr (Some (p + 1)))
         else res_bind (skip_value P (Some (p + 1)) dict_end) (\<lambda>q.
           case q of
             None \<Rightarrow> Ret (Inr None)
           | Some i \<Rightarrow>
               if i < dict_end then
                 res_bind (deref P i) (\<lambda>y.
                   Ret (Inl (if opcode y = S_EXPR_PARAM_CLOSE_KEY then i + 1 else i)))
               else Ret (Inl i))
       else if opcode x = S_EXPR_PARAM_CLOSE_DICT then Ret (Inr None)
       else Ret (Inl (p + 1)))"

definition se_dicth_find :: "s_expr_param list \<Rightarrow> pptr \<Rightarrow> 32 word \<Rightarrow> pptr res" where
  "se_dicth_find P dict key_hash =
     (case dict of
        None \<Rightarrow> Ret None
      | Some d \<Rightarrow>
          res_bind (deref P d) (\<lambda>x.
            if opcode x \<noteq> S_EXPR_PARAM_OPEN_DICT then Ret None
            else
              let dict_end = d + brace_idx x in
              res_bind (whileR nav_fuel (\<lambda>p. p < dict_end) (find_step P dict_end key_hash) (d + 1)) (\<lambda>r.
              case r of Inl _ \<Rightarrow> Ret None | Inr z \<Rightarrow> Ret z)))"

definition se_dicts_find :: "s_expr_param list \<Rightarrow> pptr \<Rightarrow> cstr \<Rightarrow> pptr res" where
  "se_dicts_find P dict key =
     (case key of None \<Rightarrow> Ret None | Some k \<Rightarrow> se_dicth_find P dict (se_dicts_hash_segment k))"

definition se_dicts_find_hash :: "s_expr_param list \<Rightarrow> pptr \<Rightarrow> 32 word \<Rightarrow> pptr res" where
  "se_dicts_find_hash = se_dicth_find"

text \<open>The loop over the elements of an array: the visited element is given to \<open>stop\<close>.\<close>

definition array_step :: "s_expr_param list \<Rightarrow> nat \<Rightarrow> (nat \<Rightarrow> bool) \<Rightarrow> nat \<times> nat \<Rightarrow> ((nat \<times> nat) + nat \<times> pptr) res" where
  "array_step P array_end stop = (\<lambda>(p, count).
     res_bind (deref P p) (\<lambda>x.
       if opcode x = S_EXPR_PARAM_CLOSE_ARRAY then Ret (Inr (count, None))
       else if stop count then Ret (Inr (count, Some p))
       else res_bind (skip_value P (Some p) array_end) (\<lambda>q.
         case q of None \<Rightarrow> Ret (Inr (count, None)) | Some i \<Rightarrow> Ret (Inl (i, u16 (count + 1))))))"

definition array_scan :: "s_expr_param list \<Rightarrow> pptr \<Rightarrow> (nat \<Rightarrow> bool) \<Rightarrow> (nat \<times> pptr) res" where
  "array_scan P array stop =
     (case array of
        None \<Rightarrow> Ret (0, None)
      | Some d \<Rightarrow>
          res_bind (deref P d) (\<lambda>x.
            if opcode x \<noteq> S_EXPR_PARAM_OPEN_ARRAY then Ret (0, None)
            else
              let array_end = d + brace_idx x in
              res_bind (whileR nav_fuel (\<lambda>(p, count). p < array_end) (array_step P array_end stop) (d + 1, 0)) (\<lambda>r.
              case r of Inl (p, count) \<Rightarrow> Ret (count, None) | Inr z \<Rightarrow> Ret z)))"

definition se_dicth_array_count :: "s_expr_param list \<Rightarrow> pptr \<Rightarrow> nat res" where
  "se_dicth_array_count P array = res_bind (array_scan P array (\<lambda>_. False)) (\<lambda>(count, p). Ret count)"

definition se_dicth_array_get :: "s_expr_param list \<Rightarrow> pptr \<Rightarrow> nat \<Rightarrow> pptr res" where
  "se_dicth_array_get P array index =
     res_bind (array_scan P array (\<lambda>count. count = index)) (\<lambda>(count, p). Ret p)"

definition se_dicts_array_count :: "s_expr_param list \<Rightarrow> pptr \<Rightarrow> nat res" where
  "se_dicts_array_count = se_dicth_array_count"

definition se_dicts_array_get :: "s_expr_param list \<Rightarrow> pptr \<Rightarrow> nat \<Rightarrow> pptr res" where
  "se_dicts_array_get = se_dicth_array_get"

section \<open>Paths of hashes\<close>

datatype se_pathh_status =
    SE_PATHH_OK | SE_PATHH_NOT_FOUND | SE_PATHH_TYPE_MISMATCH | SE_PATHH_INVALID_INDEX
  | SE_PATHH_NULL_DICT | SE_PATHH_NULL_PATH | SE_PATHH_ZERO_DEPTH

record se_pathh_context =
  hc_result :: pptr
  hc_status :: se_pathh_status
  hc_depth :: nat
  hc_failed_hash :: "32 word"

definition se_pathh_context_init :: se_pathh_context where
  "se_pathh_context_init = \<lparr> hc_result = None, hc_status = SE_PATHH_OK, hc_depth = 0, hc_failed_hash = 0 \<rparr>"

text \<open>A failure at segment \<open>i\<close>, with what it leaves in the context.\<close>

definition pathh_fail :: "se_pathh_status \<Rightarrow> nat \<Rightarrow> 32 word \<Rightarrow> pptr \<times> se_pathh_context" where
  "pathh_fail st i h = (None, \<lparr> hc_result = None, hc_status = st, hc_depth = i, hc_failed_hash = h \<rparr>)"

text \<open>The search for the index below 256 with the given hash.\<close>

definition index_of_hash :: "32 word \<Rightarrow> nat option" where
  "index_of_hash h = find (\<lambda>idx. se_dicth_index_hash idx = h) [0..<256]"

definition hash_at :: "32 word list \<Rightarrow> nat \<Rightarrow> 32 word res" where
  "hash_at hs i = (if i < length hs then Ret (hs ! i) else Trap (Fault ''path read out of bounds''))"

definition resolveh_step :: "s_expr_param list \<Rightarrow> 32 word list \<Rightarrow> nat \<times> nat \<Rightarrow> ((nat \<times> nat) + pptr \<times> se_pathh_context) res" where
  "resolveh_step P path_hashes = (\<lambda>(i, current).
     res_bind (deref P current) (\<lambda>x.
     res_bind (hash_at path_hashes i) (\<lambda>h.
       if opcode x = S_EXPR_PARAM_OPEN_DICT then
         res_bind (se_dicth_find P (Some current) h) (\<lambda>r.
           case r of
             None \<Rightarrow> Ret (Inr (pathh_fail SE_PATHH_NOT_FOUND i h))
           | Some c \<Rightarrow> Ret (Inl (u16 (i + 1), c)))
       else if opcode x = S_EXPR_PARAM_OPEN_ARRAY then
         (case index_of_hash h of
            None \<Rightarrow> Ret (Inr (pathh_fail SE_PATHH_INVALID_INDEX i h))
          | Some index \<Rightarrow>
              res_bind (se_dicth_array_get P (Some current) index) (\<lambda>r.
                case r of
                  None \<Rightarrow> Ret (Inr (pathh_fail SE_PATHH_INVALID_INDEX i h))
                | Some c \<Rightarrow> Ret (Inl (u16 (i + 1), c))))
       else Ret (Inr (pathh_fail SE_PATHH_TYPE_MISMATCH i h)))))"

text \<open>
  The result with the context the caller may pass; every exit fills all its fields. The pointer is
  never \<open>NULL\<close> inside the loop, so that the guard at its head does nothing.
\<close>

definition se_dicth_resolve :: "s_expr_param list \<Rightarrow> pptr \<Rightarrow> 32 word list option \<Rightarrow> nat \<Rightarrow> (pptr \<times> se_pathh_context) res" where
  "se_dicth_resolve P dict path_hashes path_depth =
     (case dict of
        None \<Rightarrow> Ret (None, se_pathh_context_init \<lparr> hc_status := SE_PATHH_NULL_DICT \<rparr>)
      | Some d \<Rightarrow>
        (case path_hashes of
           None \<Rightarrow> Ret (None, se_pathh_context_init \<lparr> hc_status := SE_PATHH_NULL_PATH \<rparr>)
         | Some hs \<Rightarrow>
             if path_depth = 0 then Ret (None, se_pathh_context_init \<lparr> hc_status := SE_PATHH_ZERO_DEPTH \<rparr>)
             else
               res_bind (whileR nav_fuel (\<lambda>(i, current). i < path_depth) (resolveh_step P hs) (0, d)) (\<lambda>r.
               case r of
                 Inl (i, current) \<Rightarrow> Ret (Some current, \<lparr> hc_result = Some current, hc_status = SE_PATHH_OK,
                   hc_depth = path_depth, hc_failed_hash = 0 \<rparr>)
               | Inr z \<Rightarrow> Ret z)))"

section \<open>Dotted paths\<close>

datatype se_paths_status =
    SE_PATHS_OK | SE_PATHS_NOT_FOUND | SE_PATHS_TYPE_MISMATCH | SE_PATHS_INVALID_INDEX
  | SE_PATHS_INVALID_PATH | SE_PATHS_NULL_DICT | SE_PATHS_NULL_PATH | SE_PATHS_NULL_MODULE

record se_paths_context =
  sc_result :: pptr
  sc_status :: se_paths_status
  sc_depth :: nat
  sc_failed_segment_start :: nat
  sc_failed_segment_len :: nat
  sc_failed_hash :: "32 word"

definition se_paths_context_init :: se_paths_context where
  "se_paths_context_init = \<lparr> sc_result = None, sc_status = SE_PATHS_OK, sc_depth = 0,
     sc_failed_segment_start = 0, sc_failed_segment_len = 0, sc_failed_hash = 0 \<rparr>"

fun numeric_from :: "8 word list \<Rightarrow> nat \<Rightarrow> nat option" where
  "numeric_from [] value = Some value"
| "numeric_from (c # cs) value =
     (if c < 48 \<or> c > 57 then None
      else let v = value * 10 + unat (c - 48) in
        if v > 65535 then None else numeric_from cs v)"

definition se_dicts_is_numeric :: "8 word list \<Rightarrow> nat option" where
  "se_dicts_is_numeric segment = (if segment = [] then None else numeric_from segment 0)"

definition path_at :: "8 word list \<Rightarrow> nat \<Rightarrow> 8 word" where
  "path_at path pos = (if pos < length path then path ! pos else 0)"

definition segment :: "8 word list \<Rightarrow> nat \<Rightarrow> nat \<Rightarrow> 8 word list" where
  "segment path start n = take n (drop start path)"

definition paths_fail :: "se_paths_status \<Rightarrow> nat \<Rightarrow> nat \<Rightarrow> nat \<Rightarrow> 32 word \<Rightarrow> pptr \<times> se_paths_context" where
  "paths_fail st depth start n h = (None, \<lparr> sc_result = None, sc_status = st, sc_depth = depth,
     sc_failed_segment_start = start, sc_failed_segment_len = n, sc_failed_hash = h \<rparr>)"

text \<open>One segment from \<open>start\<close>, \<open>n\<close> bytes long, at the parameter \<open>current\<close>.\<close>

definition resolve_segment :: "s_expr_param list \<Rightarrow> 8 word list \<Rightarrow> nat \<Rightarrow> nat \<Rightarrow> nat \<Rightarrow> nat \<Rightarrow>
    (nat + pptr \<times> se_paths_context) res" where
  "resolve_segment P path current start n depth =
     (let seg = segment path start n; h = se_dicts_hash_segment seg in
      if n = 0 then Ret (Inr (paths_fail SE_PATHS_INVALID_PATH depth start 0 0))
      else res_bind (deref P current) (\<lambda>x.
        if opcode x = S_EXPR_PARAM_OPEN_DICT then
          res_bind (se_dicts_find P (Some current) (Some seg)) (\<lambda>r.
            case r of
              None \<Rightarrow> Ret (Inr (paths_fail SE_PATHS_NOT_FOUND depth start n h))
            | Some c \<Rightarrow> Ret (Inl c))
        else if opcode x = S_EXPR_PARAM_OPEN_ARRAY then
          (case se_dicts_is_numeric seg of
             None \<Rightarrow> Ret (Inr (paths_fail SE_PATHS_INVALID_INDEX depth start n 0))
           | Some index \<Rightarrow>
               res_bind (se_dicts_array_get P (Some current) index) (\<lambda>r.
                 case r of
                   None \<Rightarrow> Ret (Inr (paths_fail SE_PATHS_INVALID_INDEX depth start n 0))
                 | Some c \<Rightarrow> Ret (Inl c)))
        else Ret (Inr (paths_fail SE_PATHS_TYPE_MISMATCH depth start n h))))"

text \<open>
  The loop over the bytes of the path with its locals \<open>current\<close>, \<open>segment_start\<close>, \<open>pos\<close> and
  \<open>depth\<close>. A position is a \<open>uint16_t\<close>, so that a longer segment makes it run forever.
\<close>

definition resolves_step :: "s_expr_param list \<Rightarrow> 8 word list \<Rightarrow> nat \<times> nat \<times> nat \<times> nat \<Rightarrow>
    ((nat \<times> nat \<times> nat \<times> nat) + pptr \<times> se_paths_context) res" where
  "resolves_step P path = (\<lambda>(current, start, pos, depth).
     let c = path_at path pos in
     if c = 46 \<or> c = 0 then
       res_bind (resolve_segment P path current start (u16 (65536 + pos - start)) depth) (\<lambda>r.
         case r of
           Inr z \<Rightarrow> Ret (Inr z)
         | Inl nxt \<Rightarrow>
             if c = 0 then
               Ret (Inr (Some nxt, \<lparr> sc_result = Some nxt, sc_status = SE_PATHS_OK, sc_depth = u16 (depth + 1),
                 sc_failed_segment_start = 0, sc_failed_segment_len = 0, sc_failed_hash = 0 \<rparr>))
             else Ret (Inl (nxt, u16 (pos + 1), u16 (pos + 1), u16 (depth + 1))))
     else Ret (Inl (current, start, u16 (pos + 1), depth)))"

definition se_dicts_resolve :: "s_expr_param list \<Rightarrow> pptr \<Rightarrow> cstr \<Rightarrow> (pptr \<times> se_paths_context) res" where
  "se_dicts_resolve P dict path =
     (case dict of
        None \<Rightarrow> Ret (None, se_paths_context_init \<lparr> sc_status := SE_PATHS_NULL_DICT \<rparr>)
      | Some d \<Rightarrow>
        (case path of
           None \<Rightarrow> Ret (None, se_paths_context_init \<lparr> sc_status := SE_PATHS_NULL_PATH \<rparr>)
         | Some s \<Rightarrow>
             if path_at s 0 = 0 then Ret (None, se_paths_context_init \<lparr> sc_status := SE_PATHS_NULL_PATH \<rparr>)
             else
               res_bind (whileR nav_fuel (\<lambda>_. True) (resolves_step P s) (d, 0, 0, 0)) (\<lambda>r.
               case r of Inl _ \<Rightarrow> Diverge | Inr z \<Rightarrow> Ret z)))"

section \<open>Typed extraction\<close>

text \<open>
  What the extraction uses of the world beside the array: the target's rounding conversions to
  floats, the module's string table, \<open>None\<close> for a module without definition, and the address of the
  array, for the pointers that are kept in blackboard fields.
\<close>

record denv =
  d_fl :: fl_ops
  d_strings :: "cstr list option"
  d_base :: nat

definition float_to_uint :: "32 word \<Rightarrow> 32 word res" where
  "float_to_uint w = (case float_trunc w of
     None \<Rightarrow> Trap (Fault ''float out of the range of uint32_t'')
   | Some v \<Rightarrow> if 0 \<le> v \<and> v < 2 ^ 32 then Ret (word_of_int v)
       else Trap (Fault ''float out of the range of uint32_t''))"

definition se_dicth_is_dict :: "s_expr_param \<Rightarrow> bool" where
  "se_dicth_is_dict x = (opcode x = S_EXPR_PARAM_OPEN_DICT)"

definition se_dicth_is_array :: "s_expr_param \<Rightarrow> bool" where
  "se_dicth_is_array x = (opcode x = S_EXPR_PARAM_OPEN_ARRAY)"

definition se_dicth_is_callable :: "s_expr_param \<Rightarrow> bool" where
  "se_dicth_is_callable x = (opcode x = S_EXPR_PARAM_OPEN_CALL)"

definition se_dicth_is_scalar :: "s_expr_param \<Rightarrow> bool" where
  "se_dicth_is_scalar x = (opcode x = S_EXPR_PARAM_INT \<or> opcode x = S_EXPR_PARAM_UINT \<or>
     opcode x = S_EXPR_PARAM_FLOAT \<or> opcode x = S_EXPR_PARAM_STR_HASH)"

text \<open>The value behind a pointer, or the default.\<close>

definition param_or :: "s_expr_param list \<Rightarrow> pptr \<Rightarrow> 'a \<Rightarrow> (s_expr_param \<Rightarrow> 'a res) \<Rightarrow> 'a res" where
  "param_or P p def f = (case p of None \<Rightarrow> Ret def | Some i \<Rightarrow> res_bind (deref P i) f)"

definition se_dicth_param_int :: "s_expr_param list \<Rightarrow> pptr \<Rightarrow> 32 word \<Rightarrow> 32 word res" where
  "se_dicth_param_int P p def = param_or P p def (\<lambda>x.
     if opcode x = S_EXPR_PARAM_INT then Ret (p_union x)
     else if opcode x = S_EXPR_PARAM_UINT then Ret (p_union x)
     else if opcode x = S_EXPR_PARAM_FLOAT then float_to_int (p_union x)
     else Ret def)"

definition se_dicth_param_uint :: "s_expr_param list \<Rightarrow> pptr \<Rightarrow> 32 word \<Rightarrow> 32 word res" where
  "se_dicth_param_uint P p def = param_or P p def (\<lambda>x.
     if opcode x = S_EXPR_PARAM_UINT then Ret (p_union x)
     else if opcode x = S_EXPR_PARAM_INT then Ret (p_union x)
     else if opcode x = S_EXPR_PARAM_FLOAT then float_to_uint (p_union x)
     else Ret def)"

definition se_dicth_param_float :: "denv \<Rightarrow> s_expr_param list \<Rightarrow> pptr \<Rightarrow> 32 word \<Rightarrow> 32 word res" where
  "se_dicth_param_float D P p def = param_or P p def (\<lambda>x.
     if opcode x = S_EXPR_PARAM_FLOAT then Ret (p_union x)
     else if opcode x = S_EXPR_PARAM_INT then Ret (fl_of_int (d_fl D) (p_union x))
     else if opcode x = S_EXPR_PARAM_UINT then Ret (fl_of_uint (d_fl D) (p_union x))
     else Ret def)"

definition se_dicth_param_bool :: "s_expr_param list \<Rightarrow> pptr \<Rightarrow> bool \<Rightarrow> bool res" where
  "se_dicth_param_bool P p def = param_or P p def (\<lambda>x.
     if opcode x = S_EXPR_PARAM_INT then Ret (p_union x \<noteq> 0)
     else if opcode x = S_EXPR_PARAM_UINT then Ret (p_union x \<noteq> 0)
     else if opcode x = S_EXPR_PARAM_FLOAT then Ret (\<not> f_eq (p_union x) 0)
     else Ret def)"

definition se_dicth_param_hash :: "s_expr_param list \<Rightarrow> pptr \<Rightarrow> 32 word \<Rightarrow> 32 word res" where
  "se_dicth_param_hash P p def = param_or P p def (\<lambda>x.
     Ret (if opcode x = S_EXPR_PARAM_STR_HASH then str_hash x else def))"

text \<open>The part of \<open>get_hash\<close> after the path is resolved, the same in both files.\<close>

definition value_hash :: "denv \<Rightarrow> s_expr_param \<Rightarrow> 32 word \<Rightarrow> 32 word" where
  "value_hash D x def =
     (let str = (if opcode x = S_EXPR_PARAM_STR_IDX then
          (case d_strings D of
             None \<Rightarrow> None
           | Some tab \<Rightarrow> if str_index x < length tab then tab ! str_index x else None) else None)
      in
        if opcode x = S_EXPR_PARAM_STR_HASH then str_hash x
        else case str of
          Some s \<Rightarrow> s_expr_hash s
        | None \<Rightarrow>
            if opcode x = S_EXPR_PARAM_INT \<or> opcode x = S_EXPR_PARAM_UINT then p_union x else def)"

definition get_string_from_table :: "denv \<Rightarrow> nat \<Rightarrow> cstr" where
  "get_string_from_table D i = (case d_strings D of None \<Rightarrow> None
     | Some tab \<Rightarrow> if i \<ge> length tab then None else tab ! i)"

definition pointed :: "s_expr_param list \<Rightarrow> (s_expr_param \<Rightarrow> bool) \<Rightarrow> pptr \<Rightarrow> pptr res" where
  "pointed P q p = param_or P p None (\<lambda>x. Ret (if q x then p else None))"

definition string_ref :: "s_expr_param list \<Rightarrow> pptr \<Rightarrow> (nat \<times> nat) option res" where
  "string_ref P p = param_or P p None (\<lambda>x.
     Ret (if opcode x \<noteq> S_EXPR_PARAM_STR_IDX then None else Some (str_index x, str_len x)))"

text \<open>By path of hashes.\<close>

definition resolveh :: "s_expr_param list \<Rightarrow> pptr \<Rightarrow> 32 word list option \<Rightarrow> nat \<Rightarrow> pptr res" where
  "resolveh P dict hs n = res_bind (se_dicth_resolve P dict hs n) (\<lambda>(p, _). Ret p)"

definition se_dicth_get_int :: "s_expr_param list \<Rightarrow> pptr \<Rightarrow> 32 word list option \<Rightarrow> nat \<Rightarrow> 32 word \<Rightarrow> 32 word res" where
  "se_dicth_get_int P dict hs n def = res_bind (resolveh P dict hs n) (\<lambda>p. se_dicth_param_int P p def)"

definition se_dicth_get_uint :: "s_expr_param list \<Rightarrow> pptr \<Rightarrow> 32 word list option \<Rightarrow> nat \<Rightarrow> 32 word \<Rightarrow> 32 word res" where
  "se_dicth_get_uint P dict hs n def = res_bind (resolveh P dict hs n) (\<lambda>p. se_dicth_param_uint P p def)"

definition se_dicth_get_float :: "denv \<Rightarrow> s_expr_param list \<Rightarrow> pptr \<Rightarrow> 32 word list option \<Rightarrow> nat \<Rightarrow> 32 word \<Rightarrow> 32 word res" where
  "se_dicth_get_float D P dict hs n def = res_bind (resolveh P dict hs n) (\<lambda>p. se_dicth_param_float D P p def)"

definition se_dicth_get_bool :: "s_expr_param list \<Rightarrow> pptr \<Rightarrow> 32 word list option \<Rightarrow> nat \<Rightarrow> bool \<Rightarrow> bool res" where
  "se_dicth_get_bool P dict hs n def = res_bind (resolveh P dict hs n) (\<lambda>p. se_dicth_param_bool P p def)"

definition se_dicth_get_hash :: "denv \<Rightarrow> s_expr_param list \<Rightarrow> pptr \<Rightarrow> 32 word list option \<Rightarrow> nat \<Rightarrow> 32 word \<Rightarrow> 32 word res" where
  "se_dicth_get_hash D P dict hs n def = res_bind (resolveh P dict hs n) (\<lambda>p. param_or P p def (\<lambda>x. Ret (value_hash D x def)))"

definition se_dicth_get_dict :: "s_expr_param list \<Rightarrow> pptr \<Rightarrow> 32 word list option \<Rightarrow> nat \<Rightarrow> pptr res" where
  "se_dicth_get_dict P dict hs n = res_bind (resolveh P dict hs n) (pointed P se_dicth_is_dict)"

definition se_dicth_get_array :: "s_expr_param list \<Rightarrow> pptr \<Rightarrow> 32 word list option \<Rightarrow> nat \<Rightarrow> pptr res" where
  "se_dicth_get_array P dict hs n = res_bind (resolveh P dict hs n) (pointed P se_dicth_is_array)"

definition se_dicth_get_callable :: "s_expr_param list \<Rightarrow> pptr \<Rightarrow> 32 word list option \<Rightarrow> nat \<Rightarrow> pptr res" where
  "se_dicth_get_callable P dict hs n = res_bind (resolveh P dict hs n) (pointed P se_dicth_is_callable)"

definition se_dicth_get_string :: "s_expr_param list \<Rightarrow> pptr \<Rightarrow> 32 word list option \<Rightarrow> nat \<Rightarrow> (nat \<times> nat) option res" where
  "se_dicth_get_string P dict hs n = res_bind (resolveh P dict hs n) (string_ref P)"

text \<open>By dotted path.\<close>

definition resolves :: "s_expr_param list \<Rightarrow> pptr \<Rightarrow> cstr \<Rightarrow> pptr res" where
  "resolves P dict path = res_bind (se_dicts_resolve P dict path) (\<lambda>(p, _). Ret p)"

definition se_dicts_get_int :: "s_expr_param list \<Rightarrow> pptr \<Rightarrow> cstr \<Rightarrow> 32 word \<Rightarrow> 32 word res" where
  "se_dicts_get_int P dict path def = res_bind (resolves P dict path) (\<lambda>p. se_dicth_param_int P p def)"

definition se_dicts_get_uint :: "s_expr_param list \<Rightarrow> pptr \<Rightarrow> cstr \<Rightarrow> 32 word \<Rightarrow> 32 word res" where
  "se_dicts_get_uint P dict path def = res_bind (resolves P dict path) (\<lambda>p. se_dicth_param_uint P p def)"

definition se_dicts_get_float :: "denv \<Rightarrow> s_expr_param list \<Rightarrow> pptr \<Rightarrow> cstr \<Rightarrow> 32 word \<Rightarrow> 32 word res" where
  "se_dicts_get_float D P dict path def = res_bind (resolves P dict path) (\<lambda>p. se_dicth_param_float D P p def)"

definition se_dicts_get_bool :: "s_expr_param list \<Rightarrow> pptr \<Rightarrow> cstr \<Rightarrow> bool \<Rightarrow> bool res" where
  "se_dicts_get_bool P dict path def = res_bind (resolves P dict path) (\<lambda>p. se_dicth_param_bool P p def)"

definition se_dicts_get_hash :: "denv \<Rightarrow> s_expr_param list \<Rightarrow> pptr \<Rightarrow> cstr \<Rightarrow> 32 word \<Rightarrow> 32 word res" where
  "se_dicts_get_hash D P dict path def = res_bind (resolves P dict path) (\<lambda>p. param_or P p def (\<lambda>x. Ret (value_hash D x def)))"

definition se_dicts_get_dict :: "s_expr_param list \<Rightarrow> pptr \<Rightarrow> cstr \<Rightarrow> pptr res" where
  "se_dicts_get_dict P dict path = res_bind (resolves P dict path) (pointed P se_dicth_is_dict)"

definition se_dicts_get_array :: "s_expr_param list \<Rightarrow> pptr \<Rightarrow> cstr \<Rightarrow> pptr res" where
  "se_dicts_get_array P dict path = res_bind (resolves P dict path) (pointed P se_dicth_is_array)"

definition se_dicts_get_callable :: "s_expr_param list \<Rightarrow> pptr \<Rightarrow> cstr \<Rightarrow> pptr res" where
  "se_dicts_get_callable P dict path = res_bind (resolves P dict path) (pointed P se_dicth_is_callable)"

definition se_dicts_get_string :: "s_expr_param list \<Rightarrow> pptr \<Rightarrow> cstr \<Rightarrow> (nat \<times> nat) option res" where
  "se_dicts_get_string P dict path = res_bind (resolves P dict path) (string_ref P)"

definition se_dicts_get_string_ptr :: "denv \<Rightarrow> s_expr_param list \<Rightarrow> pptr \<Rightarrow> cstr \<Rightarrow> cstr res" where
  "se_dicts_get_string_ptr D P dict path = res_bind (se_dicts_get_string P dict path) (\<lambda>r.
     Ret (case r of None \<Rightarrow> None | Some (i, n) \<Rightarrow> get_string_from_table D i))"

section \<open>Iteration\<close>

record dict_iter =
  it_dict :: pptr
  it_current :: pptr
  it_end :: pptr
  it_index :: nat

definition iter_init :: "(s_expr_param \<Rightarrow> bool) \<Rightarrow> s_expr_param list \<Rightarrow> pptr \<Rightarrow> dict_iter res" where
  "iter_init q P dict =
     (case dict of
        None \<Rightarrow> Ret \<lparr> it_dict = None, it_current = None, it_end = None, it_index = 0 \<rparr>
      | Some d \<Rightarrow> res_bind (deref P d) (\<lambda>x.
          Ret (if \<not> q x then \<lparr> it_dict = dict, it_current = None, it_end = None, it_index = 0 \<rparr>
            else \<lparr> it_dict = dict, it_current = Some (d + 1), it_end = Some (d + brace_idx x), it_index = 0 \<rparr>)))"

definition iter_reset :: "dict_iter \<Rightarrow> dict_iter" where
  "iter_reset it = (case it_dict it of None \<Rightarrow> it
     | Some d \<Rightarrow> it \<lparr> it_current := Some (d + 1), it_index := 0 \<rparr>)"

definition se_dicth_iter_init :: "s_expr_param list \<Rightarrow> pptr \<Rightarrow> dict_iter res" where
  "se_dicth_iter_init = iter_init se_dicth_is_dict"

definition iter_key :: "s_expr_param list \<Rightarrow> nat \<Rightarrow> nat \<Rightarrow> (nat + nat \<times> (32 word \<times> nat) option) res" where
  "iter_key P dict_end c =
     res_bind (deref P c) (\<lambda>x.
       if opcode x = S_EXPR_PARAM_OPEN_KEY then
         res_bind (skip_value P (Some (c + 1)) dict_end) (\<lambda>after.
           case after of
             None \<Rightarrow> Ret (Inr (dict_end, Some (str_hash x, c + 1)))
           | Some a \<Rightarrow> res_bind (deref P a) (\<lambda>y.
               Ret (Inr (if opcode y = S_EXPR_PARAM_CLOSE_KEY then a + 1 else a, Some (str_hash x, c + 1)))))
       else if opcode x = S_EXPR_PARAM_CLOSE_DICT then Ret (Inr (c, None))
       else Ret (Inl (c + 1)))"

text \<open>The next key with the pointer to its value, or the end.\<close>

definition se_dicth_iter_next :: "s_expr_param list \<Rightarrow> dict_iter \<Rightarrow> ((32 word \<times> nat) option \<times> dict_iter) res" where
  "se_dicth_iter_next P it =
     (case it_current it of
        None \<Rightarrow> Ret (None, it)
      | Some c \<Rightarrow>
        (case it_end it of
           None \<Rightarrow> Ret (None, it)
         | Some e \<Rightarrow>
             if \<not> c < e then Ret (None, it)
             else res_bind (whileR nav_fuel (\<lambda>c. c < e) (iter_key P e) c) (\<lambda>r.
               case r of
                 Inl c' \<Rightarrow> Ret (None, it \<lparr> it_current := Some c' \<rparr>)
               | Inr (c', None) \<Rightarrow> Ret (None, it \<lparr> it_current := Some c' \<rparr>)
               | Inr (c', Some kv) \<Rightarrow>
                   Ret (Some kv, it \<lparr> it_current := Some c', it_index := u16 (it_index it + 1) \<rparr>))))"

definition se_dicth_iter_reset :: "dict_iter \<Rightarrow> dict_iter" where
  "se_dicth_iter_reset = iter_reset"

definition se_arrayh_iter_init :: "s_expr_param list \<Rightarrow> pptr \<Rightarrow> dict_iter res" where
  "se_arrayh_iter_init = iter_init se_dicth_is_array"

definition se_arrayh_iter_next :: "s_expr_param list \<Rightarrow> dict_iter \<Rightarrow> ((nat \<times> nat) option \<times> dict_iter) res" where
  "se_arrayh_iter_next P it =
     (case it_current it of
        None \<Rightarrow> Ret (None, it)
      | Some c \<Rightarrow>
        (case it_end it of
           None \<Rightarrow> Ret (None, it)
         | Some e \<Rightarrow>
             if \<not> c < e then Ret (None, it)
             else res_bind (deref P c) (\<lambda>x.
               if opcode x = S_EXPR_PARAM_CLOSE_ARRAY then Ret (None, it)
               else res_bind (skip_value P (Some c) e) (\<lambda>q.
                 Ret (Some (c, it_index it),
                   it \<lparr> it_current := (case q of None \<Rightarrow> Some e | Some i \<Rightarrow> Some i),
                        it_index := u16 (it_index it + 1) \<rparr>)))))"

definition se_arrayh_iter_reset :: "dict_iter \<Rightarrow> dict_iter" where
  "se_arrayh_iter_reset = iter_reset"

end
