(* ===== verification/SE_Dispatch.thy ===== *)
theory SE_Dispatch
  imports SE_Flow
begin

text \<open>
  The dispatching composites (\<open>s_engine_builtins_dispatch.h\<close>): by event, by the value of a
  blackboard field as a state machine, by the value of a field as a switch. A parameter list is
  a row of \<open>[int, action]\<close> pairs; the value -1 is the default.
\<close>

section \<open>The search for a case\<close>

text \<open>
  The loop of all three: \<open>Inr i\<close> is the action of the first pair whose value is \<open>v\<close>, \<open>Inl d\<close> the
  end of the loop with the index of the last default's action, 0 when there was none.
\<close>

definition case_search :: "'w ctx \<Rightarrow> slice \<Rightarrow> int \<Rightarrow> nat \<Rightarrow> (nat + nat) res" where
  "case_search c a v start =
     (let P = tree_params c in
      res_bind (whileR nav_fuel (\<lambda>(idx, dflt). idx < s_count a)
        (\<lambda>(idx, dflt).
           res_bind (rd P a idx) (\<lambda>p.
           if opcode p = S_EXPR_PARAM_INT \<or> opcode p = S_EXPR_PARAM_UINT then
             let this_action = u16 (idx + 1) in
             if this_action < s_count a \<and> int_val p = v then Ret (Inr this_action)
             else
               let dflt' = (if this_action < s_count a \<and> int_val p = -1 then this_action else dflt) in
               res_bind (s_expr_skip_param P a idx) (\<lambda>j.
               res_bind (s_expr_skip_param P a j) (\<lambda>k. Ret (Inl (k, dflt'))))
           else res_bind (s_expr_skip_param P a idx) (\<lambda>j. Ret (Inl (j, dflt))))) (start, 0))
        (\<lambda>r. case r of Inl (idx, dflt) \<Rightarrow> Ret (Inl dflt) | Inr i \<Rightarrow> Ret (Inr i)))"

section \<open>Event dispatch\<close>

definition invoke_and_handle_result :: "'w ctx \<Rightarrow> slice \<Rightarrow> nat \<Rightarrow> ('w, s_expr_result) iact" where
  "invoke_and_handle_result c a action_idx =
     bindA (s_expr_invoke_any c a action_idx) (\<lambda>r.
     let finish = seqA (terminate_action_at_index c a action_idx) (s_expr_reset_recursive_at c a action_idx) in
     if below_pipeline r then retA r
     else case r of
       SE_PIPELINE_CONTINUE \<Rightarrow> retA r
     | SE_PIPELINE_HALT \<Rightarrow> retA r
     | SE_PIPELINE_DISABLE \<Rightarrow> answer finish SE_PIPELINE_CONTINUE
     | SE_PIPELINE_TERMINATE \<Rightarrow> answer finish SE_PIPELINE_CONTINUE
     | SE_PIPELINE_RESET \<Rightarrow> answer finish SE_PIPELINE_CONTINUE
     | SE_PIPELINE_SKIP_CONTINUE \<Rightarrow> retA SE_PIPELINE_CONTINUE
     | _ \<Rightarrow> excA ''se_event_dispatch: unknown result code'')"

definition se_event_dispatch :: "'w ctx \<Rightarrow> ('w, s_expr_result) node_fn" where
  "se_event_dispatch c a ev event_id event_data =
     (if ev = SE_EVENT_INIT \<or> ev = SE_EVENT_TERMINATE then retA SE_PIPELINE_CONTINUE
      else bindA (liftA (case_search c a (int event_id) 0)) (\<lambda>r.
        case r of
          Inr action_idx \<Rightarrow> invoke_and_handle_result c a action_idx
        | Inl default_idx \<Rightarrow>
            if default_idx > 0 then invoke_and_handle_result c a default_idx
            else excA ''se_event_dispatch: no matching event handler''))"

section \<open>Field dispatch\<close>

text \<open>
  The steps the two field composites share: leaving the branch kept in the user data on
  TERMINATE, the case of the field's value on a tick, the change of branch.
\<close>

definition leave_branch :: "'w ctx \<Rightarrow> slice \<Rightarrow> nat \<Rightarrow> ('w, unit) iact" where
  "leave_branch c a prev =
     seqA (if prev > 0 \<and> prev \<noteq> 0xFFFF then terminate_action_at_index c a prev else retA ())
     (s_expr_set_user_flags 0xFFFF)"

definition field_case :: "string \<Rightarrow> 'w ctx \<Rightarrow> slice \<Rightarrow> ('w, nat) iact" where
  "field_case who c a =
     bindA (rdA c a 0) (\<lambda>p0.
     bindA (getA (\<lambda>s. S_EXPR_GET_FIELD s p0)) (\<lambda>ptr.
     if ptr = None then excA (who @ '': field not found'')
     else bindA (field_read ptr) (\<lambda>v.
       bindA (liftA (s_expr_skip_param (tree_params c) a 0)) (\<lambda>start.
       bindA (liftA (case_search c a (sint v) start)) (\<lambda>r.
       let action_idx = (case r of Inr i \<Rightarrow> i | Inl d \<Rightarrow> d) in
       if action_idx = 0 then excA (who @ '': no matching case'') else retA action_idx)))))"

definition switch_branch :: "'w ctx \<Rightarrow> slice \<Rightarrow> nat \<Rightarrow> nat \<Rightarrow> ('w, unit) iact" where
  "switch_branch c a prev action_idx =
     (if action_idx \<noteq> prev then
        seqA (if prev > 0 \<and> prev \<noteq> 0xFFFF then
                seqA (terminate_action_at_index c a prev) (reset_action_at_index c a prev)
              else retA ())
        (seqA (reset_action_at_index c a action_idx) (s_expr_set_user_flags action_idx))
      else retA ())"

definition se_state_machine :: "'w ctx \<Rightarrow> ('w, s_expr_result) node_fn" where
  "se_state_machine c a ev event_id event_data =
     bindA s_expr_get_user_flags (\<lambda>prev.
     case ev of
       SE_EVENT_TERMINATE \<Rightarrow> answer (leave_branch c a prev) SE_PIPELINE_CONTINUE
     | SE_EVENT_INIT \<Rightarrow>
         if s_count a < 3 then excA ''se_state_machine: need field_ref and at least one case''
         else answer (s_expr_set_user_flags 0xFFFF) SE_PIPELINE_CONTINUE
     | SE_EVENT_TICK \<Rightarrow>
         bindA (field_case ''se_state_machine'' c a) (\<lambda>action_idx.
         seqA (switch_branch c a prev action_idx)
         (bindA (s_expr_invoke_any c a action_idx) (\<lambda>r.
          let finish = seqA (terminate_action_at_index c a action_idx) (reset_action_at_index c a action_idx) in
          if r = SE_FUNCTION_HALT then retA SE_PIPELINE_HALT
          else if below_pipeline r then retA r
          else case r of
            SE_PIPELINE_CONTINUE \<Rightarrow> retA r
          | SE_PIPELINE_HALT \<Rightarrow> retA r
          | SE_PIPELINE_DISABLE \<Rightarrow> answer finish SE_PIPELINE_CONTINUE
          | SE_PIPELINE_TERMINATE \<Rightarrow> answer finish SE_PIPELINE_CONTINUE
          | SE_PIPELINE_RESET \<Rightarrow> answer finish SE_PIPELINE_CONTINUE
          | SE_PIPELINE_SKIP_CONTINUE \<Rightarrow> retA SE_PIPELINE_CONTINUE
          | _ \<Rightarrow> excA ''se_state_machine: unknown result code''))))"

definition se_field_dispatch :: "'w ctx \<Rightarrow> ('w, s_expr_result) node_fn" where
  "se_field_dispatch c a ev event_id event_data =
     bindA s_expr_get_user_flags (\<lambda>prev.
     case ev of
       SE_EVENT_TERMINATE \<Rightarrow> answer (leave_branch c a prev) SE_CONTINUE
     | SE_EVENT_INIT \<Rightarrow>
         if s_count a < 3 then excA ''se_field_dispatch: need field_ref and at least one case''
         else answer (s_expr_set_user_flags 0xFFFF) SE_PIPELINE_CONTINUE
     | SE_EVENT_TICK \<Rightarrow>
         bindA (field_case ''se_field_dispatch'' c a) (\<lambda>action_idx.
         seqA (switch_branch c a prev action_idx)
         (bindA (s_expr_invoke_any c a action_idx) (\<lambda>r.
          if r = SE_PIPELINE_RESET \<or> r = SE_PIPELINE_DISABLE \<or> r = SE_PIPELINE_TERMINATE then
            seqA (terminate_action_at_index c a action_idx)
            (seqA (reset_action_at_index c a action_idx)
            (seqA (s_expr_set_user_flags 0xFFFF) (retA SE_PIPELINE_CONTINUE)))
          else retA r))))"

end
