(* ===== verification/SE_Run.thy ===== *)
theory SE_Run
  imports SE_Dispatch SE_Leaf
begin

text \<open>
  Running a tree. The node functions call each other through the tables of the module, so the
  interpreter is a recursion through them: a module (\<open>env\<close>) gives every table entry as a
  function of the context it runs in, and \<open>mk_ctx\<close> ties the knot, the nesting of calls of node
  functions bounded by its fuel. The builtin tables are those of \<open>s_engine_builtins.c\<close> without
  the entries that are not modelled; a user function is any other entry.
\<close>

section \<open>Tying the knot\<close>

record 'w env =
  env_params :: "s_expr_param list"
  env_main :: "('w ctx \<Rightarrow> ('w, s_expr_result) node_fn) option list"
  env_pred :: "('w ctx \<Rightarrow> ('w, bool) node_fn) option list"
  env_oneshot :: "('w ctx \<Rightarrow> ('w, unit) node_fn) option list"

definition stuck :: "('w, 'a) node_fn" where
  "stuck a ev event_id event_data = (\<lambda>_. Diverge)"

fun mk_ctx :: "'w env \<Rightarrow> nat \<Rightarrow> 'w ctx" where
  "mk_ctx e 0 = \<lparr> tree_params = env_params e,
     main_fns = map (map_option (\<lambda>_. stuck)) (env_main e),
     pred_fns = map (map_option (\<lambda>_. stuck)) (env_pred e),
     oneshot_fns = map (map_option (\<lambda>_. stuck)) (env_oneshot e) \<rparr>"
| "mk_ctx e (Suc n) = \<lparr> tree_params = env_params e,
     main_fns = map (map_option (\<lambda>f. f (mk_ctx e n))) (env_main e),
     pred_fns = map (map_option (\<lambda>f. f (mk_ctx e n))) (env_pred e),
     oneshot_fns = map (map_option (\<lambda>f. f (mk_ctx e n))) (env_oneshot e) \<rparr>"

lemma tree_params_mk_ctx [simp]: "tree_params (mk_ctx e n) = env_params e"
  by (cases n) simp_all

section \<open>The builtin tables\<close>

definition builtin_oneshot_entries :: "('w ctx \<Rightarrow> ('w, unit) node_fn) list" where
  "builtin_oneshot_entries =
     [se_set_field, se_set_field_float, se_inc_field, se_dec_field, se_set_hash,
      se_queue_event, se_push_stack]"

definition builtin_main_entries :: "('w ctx \<Rightarrow> ('w, s_expr_result) node_fn) list" where
  "builtin_main_entries =
     [se_tick_delay, se_wait_event, se_nop, se_if_then_else, se_trigger_on_change,
      se_state_machine, se_field_dispatch, se_event_dispatch, se_function_interface,
      se_sequence, se_sequence_once, se_fork, se_fork_join, se_chain_flow, se_while, se_cond,
      se_verify_and_check_elapsed_events, se_verify, se_wait,
      se_return_continue, se_return_halt, se_return_terminate, se_return_reset,
      se_return_disable, se_return_skip_continue,
      se_return_function_continue, se_return_function_halt, se_return_function_reset,
      se_return_function_terminate, se_return_function_disable, se_return_function_skip_continue,
      se_return_pipeline_continue, se_return_pipeline_terminate, se_return_pipeline_reset,
      se_return_pipeline_disable, se_return_pipeline_skip_continue, se_return_pipeline_halt]"

definition builtin_pred_entries :: "('w ctx \<Rightarrow> ('w, bool) node_fn) list" where
  "builtin_pred_entries =
     [se_pred_and, se_pred_or, se_pred_not, se_pred_nor, se_pred_nand, se_pred_xor,
      se_true, se_false, se_check_event,
      se_field_eq, se_field_ne, se_field_gt, se_field_ge, se_field_lt, se_field_le,
      se_field_in_range, se_field_increment_and_test, se_state_increment_and_test]"

definition builtin_env :: "s_expr_param list \<Rightarrow> 'w env" where
  "builtin_env P = \<lparr> env_params = P, env_main = map Some builtin_main_entries,
     env_pred = map Some builtin_pred_entries, env_oneshot = map Some builtin_oneshot_entries \<rparr>"

section \<open>Small trees\<close>

text \<open>
  Concrete parameters and instances, on which the properties are instantiated: a parameter
  from its opcode and the two halves of its union, an instance with \<open>k\<close> fresh nodes.
\<close>

definition mkp :: "8 word \<Rightarrow> nat \<Rightarrow> nat \<Rightarrow> s_expr_param" where
  "mkp t lo hi = \<lparr> p_type = t, index_to_pointer = 0, p_union = of_nat (lo + 65536 * hi) \<rparr>"

lemma mkp_simps [simp]:
  "opcode (mkp t lo hi) = t AND 0x3F" "p_type (mkp t lo hi) = t"
  "has_pointer (mkp t lo hi) = (t AND 0x80 \<noteq> 0)" "survives_reset (mkp t lo hi) = (t AND 0x40 \<noteq> 0)"
  "index_to_pointer (mkp t lo hi) = 0"
  by (simp_all add: mkp_def opcode_def has_pointer_def survives_reset_def)

lemma mkp_unat:
  assumes "lo < 65536" "hi < 65536"
  shows "unat (p_union (mkp t lo hi)) = lo + 65536 * hi"
proof -
  have "lo + 65536 * hi < 2 ^ LENGTH(32)" using assms by simp
  then show ?thesis by (simp add: mkp_def unat_of_nat take_bit_nat_eq_self del: of_nat_add of_nat_mult)
qed

lemma mkp_fields [simp]:
  assumes "lo < 65536" "hi < 65536"
  shows "brace_idx (mkp t lo hi) = lo" "node_index (mkp t lo hi) = lo" "func_index (mkp t lo hi) = hi"
    "field_offset (mkp t lo hi) = lo" "uint_val (mkp t lo hi) = lo + 65536 * hi"
  using assms
  by (simp_all add: brace_idx_def node_index_def func_index_def field_offset_def uint_val_def mkp_unat)

definition fresh_inst :: "nat \<Rightarrow> 'w \<Rightarrow> 'w inst" where
  "fresh_inst k w = \<lparr> node_states = replicate k ns_fresh, pointer_array = Some [0, 0],
     blackboard = Some (replicate 8 0), current_node_index = 0, current_event_id = 0,
     current_event_data = 0, in_pointer_call = False, pointer_base = 0, evq_state = empty_evq,
     inst_stack = None, tick_type = 0, current_dict = None, user_ctx = w \<rparr>"

text \<open>A call of function \<open>f\<close> as node \<open>n\<close> with the given arguments.\<close>

definition call_of :: "8 word \<Rightarrow> nat \<Rightarrow> nat \<Rightarrow> sexp list \<Rightarrow> sexp" where
  "call_of t n f args = Brace (mkp S_EXPR_PARAM_OPEN_CALL (length (flats args) + 2) 0)
     (Atom (mkp t n f) # args) (mkp S_EXPR_PARAM_CLOSE 0 0)"

end
