(* ===== verification/SE_Frame.thy ===== *)
theory SE_Frame
  imports SE_Run
begin

text \<open>
  The frame of the interpreter: what no node function changes, however deep the calls go. The
  interface between the dispatcher and the node functions is the locale \<open>framed_ctx\<close>: every
  function in the tables keeps \<open>frame\<close>. Inside it the node API and every builtin keep the
  frame; the interpretation on \<open>mk_ctx\<close> closes the loop by induction on the nesting.
\<close>

section \<open>The frame\<close>

text \<open>
  The sizes that pointers into the instance rely on, and the invariants of its parts; the
  event context; the node context.
\<close>

definition shape :: "'w inst \<Rightarrow> 'w inst \<Rightarrow> bool" where
  "shape s t =
     (length (node_states t) = length (node_states s) \<and>
      map_option length (pointer_array t) = map_option length (pointer_array s) \<and>
      map_option length (blackboard t) = map_option length (blackboard s) \<and>
      (evq_ok (evq_state s) \<longrightarrow> evq_ok (evq_state t)) \<and>
      (case inst_stack s of None \<Rightarrow> inst_stack t = None
       | Some st \<Rightarrow> (\<exists>st'. inst_stack t = Some st' \<and> (stk_ok st \<longrightarrow> stk_ok st'))))"

text \<open>The frames that are open on the stack, with their number.\<close>

definition open_frames :: "'w inst \<Rightarrow> (nat \<times> s_expr_stack_frame list) option" where
  "open_frames s = map_option (\<lambda>st. (frame_count st, take (frame_count st) (frames st))) (inst_stack s)"

definition frame_in :: "'w inst \<Rightarrow> 'w inst \<Rightarrow> bool" where
  "frame_in s t = (shape s t \<and> open_frames t = open_frames s \<and> current_event_id t = current_event_id s \<and>
     current_event_data t = current_event_data s)"

definition frame_node :: "'w inst \<Rightarrow> 'w inst \<Rightarrow> bool" where
  "frame_node s t = (frame_in s t \<and> in_pointer_call t = in_pointer_call s \<and> pointer_base t = pointer_base s)"

definition frame :: "'w inst \<Rightarrow> 'w inst \<Rightarrow> bool" where
  "frame s t = (frame_node s t \<and> current_node_index t = current_node_index s)"

lemma shape_refl [simp]: "shape s s"
  by (auto simp: shape_def split: option.splits)

lemma shape_trans: "shape s t \<Longrightarrow> shape t u \<Longrightarrow> shape s u"
  by (auto simp: shape_def split: option.splits)

lemma open_frames_context [simp]:
  "open_frames (s \<lparr> current_node_index := i \<rparr>) = open_frames s"
  "open_frames (s \<lparr> in_pointer_call := b \<rparr>) = open_frames s"
  "open_frames (s \<lparr> pointer_base := n \<rparr>) = open_frames s"
  "open_frames (s \<lparr> current_event_id := e \<rparr>) = open_frames s"
  "open_frames (s \<lparr> current_event_data := d \<rparr>) = open_frames s"
  "open_frames (s \<lparr> node_states := ns \<rparr>) = open_frames s"
  "open_frames (s \<lparr> pointer_array := pa \<rparr>) = open_frames s"
  "open_frames (s \<lparr> blackboard := bb \<rparr>) = open_frames s"
  "open_frames (s \<lparr> evq_state := q \<rparr>) = open_frames s"
  by (simp_all add: open_frames_def)

text \<open>The context fields are not part of the shape.\<close>

lemma shape_context [simp]:
  "shape (s \<lparr> current_node_index := i \<rparr>) t = shape s t"
  "shape (s \<lparr> in_pointer_call := b \<rparr>) t = shape s t"
  "shape (s \<lparr> pointer_base := n \<rparr>) t = shape s t"
  "shape (s \<lparr> current_event_id := e \<rparr>) t = shape s t"
  "shape (s \<lparr> current_event_data := d \<rparr>) t = shape s t"
  "shape s (t \<lparr> current_node_index := i \<rparr>) = shape s t"
  "shape s (t \<lparr> in_pointer_call := b \<rparr>) = shape s t"
  "shape s (t \<lparr> pointer_base := n \<rparr>) = shape s t"
  "shape s (t \<lparr> current_event_id := e \<rparr>) = shape s t"
  "shape s (t \<lparr> current_event_data := d \<rparr>) = shape s t"
  by (simp_all add: shape_def cong: option.case_cong)

lemma preorder_frames [simp]:
  "preorder_rel shape" "preorder_rel frame_in" "preorder_rel frame_node" "preorder_rel frame"
  by (intro preorder_relI; auto simp: frame_in_def frame_node_def frame_def intro: shape_trans)+

lemma keeps_mono: "keeps R m \<Longrightarrow> (\<And>s t. R s t \<Longrightarrow> Q s t) \<Longrightarrow> keeps Q m"
  by (auto simp: keeps_def)

lemma frame_weaken: "keeps frame m \<Longrightarrow> keeps frame_node m" "keeps frame_node m \<Longrightarrow> keeps frame_in m"
  "keeps frame m \<Longrightarrow> keeps frame_in m"
  by (auto elim!: keeps_mono simp: frame_def frame_node_def)

named_theorems framed "acts of the engine that keep the frame"

text \<open>The unconditional steps.\<close>

lemma framed_basic [framed]:
  "keeps frame (upd_node i f)" "keeps frame (set_node i n)" "keeps frame (upd_cur g)"
  "keeps frame (map_nodes h)" "keeps frame (slot_set j v)" "keeps frame (field_write p w)"
  unfolding upd_node_def set_node_def upd_cur_def map_nodes_def slot_set_def field_write_def put32_def
  by (auto simp: keeps_def frame_def frame_node_def frame_in_def shape_def split: option.splits if_splits)

lemma framed_reads [framed]:
  "keeps frame (rdA c a i)" "keeps frame (get_node_state i)" "keeps frame (slot_get i)"
  "keeps frame (field_read p)" "keeps frame (user_slot m)" "keeps frame (module_slot m)"
  "keeps frame s_expr_get_state" "keeps frame s_expr_get_user_flags"
  "keeps frame s_expr_get_system_flags" "keeps frame get_current_state"
  "keeps frame (child_count c a)" "keeps frame (child_index c a k)" "keeps frame (stack_deref z)"
  unfolding rdA_def get_node_state_def slot_get_def field_read_def user_slot_def module_slot_def
    s_expr_get_state_def s_expr_get_user_flags_def s_expr_get_system_flags_def get_current_state_def
    child_count_def child_index_def stack_deref_def
  by (auto simp: keeps_def frame_def frame_node_def frame_in_def split: option.splits if_splits)

lemma framed_parts [framed]:
  "keeps frame (on_inst_stack (s_expr_stack_push v))"
  "keeps frame (on_inst_queue (s_expr_event_push t i d))"
proof -
  show "keeps frame (on_inst_stack (s_expr_stack_push v))"
  proof (rule keepsI)
    fix s x s'
    assume "on_inst_stack (s_expr_stack_push v) s = Ret (x, s')"
    then obtain z where z: "s_expr_stack_push v (inst_stack s) = Ret (x, z)" "s' = s \<lparr> inst_stack := z \<rparr>"
      by (auto simp: on_inst_stack_def)
    moreover have "\<exists>st st'. inst_stack s = Some st \<and> z = Some st' \<and> (stk_ok st \<longrightarrow> stk_ok st') \<and>
        frame_count st' = frame_count st \<and> frames st' = frames st"
    proof (cases "inst_stack s")
      case (Some st)
      with z have "\<exists>st'. z = Some st' \<and> frame_count st' = frame_count st \<and> frames st' = frames st"
        by (auto simp: s_expr_stack_push_def push_raw_def within_Ret_iff split: option.splits if_splits)
      moreover have "stk_ok st \<Longrightarrow> fine_op (s_expr_stack_push v (Some st))" by (rule fine_ops)
      ultimately show ?thesis using z Some by auto
    qed (use z in \<open>simp add: s_expr_stack_push_def\<close>)
    ultimately show "frame s s'" by (auto simp: frame_def frame_node_def frame_in_def shape_def open_frames_def)
  qed
  show "keeps frame (on_inst_queue (s_expr_event_push t i d))"
    by (auto simp: keeps_def on_inst_queue_def s_expr_event_push_def Let_def frame_def frame_node_def
        frame_in_def shape_def evq_ok_def split: option.splits if_splits)
qed

lemma keeps_result [keeps]:
  assumes "keeps R m1" "keeps R m2" "keeps R m3" "keeps R m4" "keeps R m5" "keeps R m6"
    "keeps R m7" "keeps R m8" "keeps R m9" "keeps R m10" "keeps R m11" "keeps R m12"
    "keeps R m13" "keeps R m14" "keeps R m15" "keeps R m16" "keeps R m17" "keeps R m18"
    "\<And>n. keeps R (f n)"
  shows "keeps R (case r of SE_CONTINUE \<Rightarrow> m1 | SE_HALT \<Rightarrow> m2 | SE_TERMINATE \<Rightarrow> m3 | SE_RESET \<Rightarrow> m4
    | SE_DISABLE \<Rightarrow> m5 | SE_SKIP_CONTINUE \<Rightarrow> m6 | SE_FUNCTION_CONTINUE \<Rightarrow> m7 | SE_FUNCTION_HALT \<Rightarrow> m8
    | SE_FUNCTION_TERMINATE \<Rightarrow> m9 | SE_FUNCTION_RESET \<Rightarrow> m10 | SE_FUNCTION_DISABLE \<Rightarrow> m11
    | SE_FUNCTION_SKIP_CONTINUE \<Rightarrow> m12 | SE_PIPELINE_CONTINUE \<Rightarrow> m13 | SE_PIPELINE_HALT \<Rightarrow> m14
    | SE_PIPELINE_TERMINATE \<Rightarrow> m15 | SE_PIPELINE_RESET \<Rightarrow> m16 | SE_PIPELINE_DISABLE \<Rightarrow> m17
    | SE_PIPELINE_SKIP_CONTINUE \<Rightarrow> m18 | SE_OTHER n \<Rightarrow> f n)"
  using assms by (cases r) simp_all

lemma keeps_event [keeps]:
  "keeps R m1 \<Longrightarrow> keeps R m2 \<Longrightarrow> keeps R m3 \<Longrightarrow>
   keeps R (case ev of SE_EVENT_TICK \<Rightarrow> m1 | SE_EVENT_INIT \<Rightarrow> m2 | SE_EVENT_TERMINATE \<Rightarrow> m3)"
  by (cases ev) simp_all

text \<open>Looking a function up in a table.\<close>

lemma keeps_lookup:
  assumes "\<And>fn. Some fn \<in> set tab \<Longrightarrow> keeps R (f fn)" "keeps R m1" "keeps R m2"
  shows "keeps R (if b \<or> length tab \<le> k then m1 else case tab ! k of None \<Rightarrow> m2 | Some fn \<Rightarrow> f fn)"
    "keeps R (if length tab \<le> k then m1 else case tab ! k of None \<Rightarrow> m2 | Some fn \<Rightarrow> f fn)"
  using assms by (auto split: option.split) (metis not_le nth_mem)+

section \<open>Scopes\<close>

text \<open>Acts that end with a given node context or a given current node.\<close>

definition restores :: "node_context \<Rightarrow> ('w, 'a) iact \<Rightarrow> bool" where
  "restores k = keeps (\<lambda>s t. frame_in s t \<and> node_context_of t = k)"

definition restores_cur :: "nat \<Rightarrow> ('w, 'a) iact \<Rightarrow> bool" where
  "restores_cur i = keeps (\<lambda>s t. frame_node s t \<and> current_node_index t = i)"

named_theorems scoped "rules for restores and restores_cur"

lemma frame_in_trans: "frame_in s t \<Longrightarrow> frame_in t u \<Longrightarrow> frame_in s u"
  and frame_node_trans: "frame_node s t \<Longrightarrow> frame_node t u \<Longrightarrow> frame_node s u"
  by (auto simp: frame_node_def frame_in_def intro: shape_trans)

lemma restores_bindA [scoped]:
  "keeps frame_in m \<Longrightarrow> (\<And>x. restores k (f x)) \<Longrightarrow> restores k (bindA m f)"
  "keeps frame_in m \<Longrightarrow> restores k n \<Longrightarrow> restores k (seqA m n)"
  by (auto simp: restores_def keeps_def) (blast intro: frame_in_trans)+

lemma restores_cur_bindA [scoped]:
  "keeps frame_node m \<Longrightarrow> (\<And>x. restores_cur k (f x)) \<Longrightarrow> restores_cur k (bindA m f)"
  "keeps frame_node m \<Longrightarrow> restores_cur k n \<Longrightarrow> restores_cur k (seqA m n)"
  by (auto simp: restores_cur_def keeps_def) (blast intro: frame_node_trans)+

lemma restores_exc [scoped]: "restores k (excA msg)" "restores_cur i (excA msg)"
  by (simp_all add: restores_def restores_cur_def keeps)

lemma restores_here [scoped]:
  "keeps frame m \<Longrightarrow> restores k (seqA (restore_node_context k) m)"
  by (fastforce simp: restores_def keeps_def restore_node_context_def node_context_of_def frame_def
      frame_node_def frame_in_def)

lemma restores_cur_here [scoped]:
  "keeps frame m \<Longrightarrow> restores_cur i (seqA (set_current_node i) m)" "restores_cur i (set_current_node i)"
  by (fastforce simp: restores_cur_def keeps_def set_current_node_def frame_def
      frame_node_def frame_in_def)+

lemma restores_lookup [scoped]:
  assumes "\<And>fn. Some fn \<in> set tab \<Longrightarrow> restores k (f fn)"
  shows "restores k (if length tab \<le> j then excA msg else case tab ! j of None \<Rightarrow> excA msg' | Some fn \<Rightarrow> f fn)"
  using assms unfolding restores_def by (intro keeps_lookup keeps) auto

lemma restores_cur_lookup [scoped]:
  assumes "\<And>fn. Some fn \<in> set tab \<Longrightarrow> restores_cur k (f fn)"
  shows "restores_cur k (if length tab \<le> j then excA msg else case tab ! j of None \<Rightarrow> excA msg' | Some fn \<Rightarrow> f fn)"
  using assms unfolding restores_cur_def by (intro keeps_lookup keeps) auto

lemma keeps_enter: "keeps frame_in (enter_node fp)" "keeps frame_node (set_current_node i)"
  by (auto simp: keeps_def enter_node_def set_current_node_def Let_def frame_node_def frame_in_def)

lemma keeps_node_scope:
  assumes "\<And>k. restores k (body k)"
  shows "keeps frame (bindA (getA node_context_of) body)"
  using assms by (fastforce simp: keeps_def restores_def frame_def frame_node_def node_context_of_def)

lemma keeps_cur_scope:
  assumes "\<And>k. restores_cur k (body k)"
  shows "keeps frame (bindA (getA current_node_index) body)"
  using assms by (fastforce simp: keeps_def restores_cur_def frame_def)

lemma keeps_with_event:
  assumes "keeps frame m"
  shows "keeps frame (with_event e m)"
  using assms
  by (fastforce simp: keeps_def with_event_def save_event_context_def set_event_context_def
      restore_event_context_def frame_def frame_node_def frame_in_def)

section \<open>The interface of the node functions\<close>

lemmas frame_rules = preorder_frames keeps keeps_with_event

lemma framed_setters [framed]:
  "keeps frame (s_expr_set_state v)" "keeps frame (s_expr_set_user_flags v)"
  "keeps frame (s_expr_set_system_flags w)"
  unfolding s_expr_set_state_def s_expr_set_user_flags_def s_expr_set_system_flags_def
  by (intro framed)+

lemma framed_slots [framed]:
  "keeps frame s_expr_get_u64" "keeps frame (s_expr_set_u64 v)"
  "keeps frame s_expr_get_user_u64" "keeps frame (s_expr_set_user_u64 v)"
  unfolding s_expr_get_u64_def s_expr_set_u64_def s_expr_get_user_u64_def s_expr_set_user_u64_def
  by (intro frame_rules framed)+

lemma framed_callable [framed]:
  "keeps frame (get_callable_state c a i)" "keeps frame (reset_callable c a i)"
  "keeps frame (child_at msg c a k)"
  unfolding reset_callable_def get_callable_state_def child_at_def by (intro frame_rules framed)+

lemma framed_reset_all_rec [framed]: "keeps frame (reset_all_rec n c a)"
  by (induction n arbitrary: a)
    (simp_all only: reset_all_rec.simps, (intro frame_rules framed | assumption)+)

lemma framed_reset [framed]:
  "keeps frame (reset_all_recursive c a)" "keeps frame (s_expr_reset_recursive_at c a i)"
  "keeps frame (reset_action_at_index c a i)" "keeps frame (s_expr_child_reset c a k)"
  "keeps frame (s_expr_child_reset_recursive c a k)" "keeps frame (s_expr_children_reset_all c a)"
  unfolding reset_action_at_index_def reset_all_recursive_def s_expr_reset_recursive_at_def
    s_expr_child_reset_def s_expr_child_reset_recursive_def s_expr_children_reset_all_def
  by (intro frame_rules framed)+

lemma framed_looks [framed]:
  "keeps frame (s_expr_child_is_callable c a k)" "keeps frame (s_expr_child_func_type c a k)"
  "keeps frame (s_expr_child_is_active c a k)" "keeps frame (s_expr_child_is_initialized c a k)"
  "keeps frame (reset_callable_children c a n)" "keeps frame (active_main_count c a n)"
  unfolding s_expr_child_is_callable_def s_expr_child_func_type_def s_expr_child_is_active_def
    s_expr_child_is_initialized_def child_flag_def reset_callable_children_def active_main_count_def
  by (intro frame_rules framed)+

text \<open>
  What the dispatcher relies on: every function a table holds leaves the frame alone. What it
  gives back is the same for everything built on it.
\<close>

locale framed_ctx =
  fixes c :: "'w ctx"
  assumes main_framed: "Some fn \<in> set (main_fns c) \<Longrightarrow> keeps frame (fn a ev i d)"
    and pred_framed: "Some fp \<in> set (pred_fns c) \<Longrightarrow> keeps frame (fp a ev i d)"
    and oneshot_framed: "Some fo \<in> set (oneshot_fns c) \<Longrightarrow> keeps frame (fo a ev i d)"
begin

lemma dispatch_framed [framed]:
  "keeps frame (dispatch_main c p args ev i d)" "keeps frame (dispatch_pred c p args ev i d)"
  "keeps frame (dispatch_oneshot c p args ev i d)"
proof -
  show "keeps frame (dispatch_main c p args ev i d)"
    unfolding dispatch_main_def
    by (rule keeps_node_scope restores_here scoped keeps_enter frame_weaken(3)
        | rule frame_rules framed | erule main_framed)+
  show "keeps frame (dispatch_pred c p args ev i d)"
    unfolding dispatch_pred_def
    by (rule keeps_cur_scope restores_cur_here scoped keeps_enter frame_weaken(1)
        | rule frame_rules framed | erule pred_framed)+
  show "keeps frame (dispatch_oneshot c p args ev i d)"
    unfolding dispatch_oneshot_def
    by (rule keeps_cur_scope restores_cur_here scoped keeps_enter frame_weaken(1)
        | rule frame_rules framed | erule oneshot_framed)+
qed

lemma call_terminate_framed:
  assumes "Some fn \<in> set (main_fns c)"
  shows "keeps frame (call_terminate c a i p fn)"
  unfolding call_terminate_def
  by (rule keeps_node_scope restores_here scoped keeps_enter frame_weaken(3)
      | rule frame_rules framed main_framed [OF assms])+

lemma terminate_framed [framed]:
  "keeps frame (terminate_at_physical_index c a i)" "keeps frame (terminate_action_at_index c a i)"
  unfolding terminate_at_physical_index_def terminate_action_at_index_def
  by (rule keeps_lookup | rule frame_rules framed | erule call_terminate_framed)+

lemma invoke_framed [framed]:
  "keeps frame (s_expr_invoke_main c a i)" "keeps frame (s_expr_invoke_oneshot c a i)"
  "keeps frame (s_expr_invoke_pred c a i)"
  unfolding s_expr_invoke_main_def s_expr_invoke_oneshot_def s_expr_invoke_pred_def
  by (rule frame_rules framed)+

lemma invoke_any_framed [framed]: "keeps frame (s_expr_invoke_any c a i)"
  unfolding s_expr_invoke_any_def invoke_as_def by (rule frame_rules framed)+

lemma children_framed [framed]:
  "keeps frame (s_expr_child_terminate c a k)" "keeps frame (s_expr_children_terminate_all c a)"
  "keeps frame (terminate_initialized c a n)"
  unfolding s_expr_child_terminate_def s_expr_children_terminate_all_def terminate_initialized_def
  by (rule frame_rules framed)+

lemma child_invoke_framed [framed]:
  "keeps frame (s_expr_child_invoke c a k)" "keeps frame (s_expr_child_invoke_main c a k)"
  "keeps frame (s_expr_child_invoke_pred c a k)" "keeps frame (s_expr_child_invoke_oneshot c a k)"
  unfolding s_expr_child_invoke_def s_expr_child_invoke_main_def s_expr_child_invoke_pred_def
    s_expr_child_invoke_oneshot_def
  by (rule frame_rules framed)+

lemma child_invoke_ex_framed [framed]:
  "keeps frame (s_expr_child_invoke_ex c a k i d)" "keeps frame (s_expr_child_invoke_main_ex c a k i d)"
  "keeps frame (s_expr_child_invoke_pred_ex c a k i d)"
  "keeps frame (s_expr_child_invoke_oneshot_ex c a k i d)"
  "keeps frame (s_expr_invoke_params c a i d)"
  unfolding s_expr_child_invoke_ex_def s_expr_child_invoke_main_ex_def s_expr_child_invoke_pred_ex_def
    s_expr_child_invoke_oneshot_ex_def s_expr_invoke_params_def
  by (rule frame_rules framed)+

lemma steps_framed [framed]:
  "keeps frame (terminate_reset c a k)" "keeps frame (terminate_reset_rec c a k)"
  unfolding terminate_reset_def terminate_reset_rec_def
  by (rule frame_rules framed)+

lemma answer_framed [framed]: "keeps frame m \<Longrightarrow> keeps frame (answer m r)"
  unfolding answer_def by (rule frame_rules framed | assumption)+

lemma flow_framed:
  "keeps frame (se_if_then_else c a ev i d)" "keeps frame (se_cond c a ev i d)"
  "keeps frame (se_trigger_on_change c a ev i d)" "keeps frame (se_sequence c a ev i d)"
  "keeps frame (se_sequence_once c a ev i d)"
  unfolding se_if_then_else_def se_cond_def cond_search_def se_trigger_on_change_def fire_edge_def
    se_sequence_def se_sequence_step_def seq_advance_def se_sequence_once_def Let_def
  by (rule frame_rules framed)+

lemma fork_framed:
  "keeps frame (se_function_interface c a ev i d)" "keeps frame (se_fork c a ev i d)"
  "keeps frame (se_fork_join c a ev i d)" "keeps frame (se_chain_flow c a ev i d)"
  "keeps frame (se_while c a ev i d)"
  unfolding se_function_interface_def se_fork_def se_fork_body_def fork_select_def se_fork_join_def
    se_fork_join_body_def se_chain_flow_def se_chain_flow_body_def se_while_def while_run_body_def Let_def
  by (rule frame_rules framed)+

lemma dispatch_fns_framed:
  "keeps frame (se_state_machine c a ev i d)" "keeps frame (se_field_dispatch c a ev i d)"
  "keeps frame (se_event_dispatch c a ev i d)"
  unfolding se_state_machine_def se_field_dispatch_def se_event_dispatch_def field_case_def
    switch_branch_def leave_branch_def invoke_and_handle_result_def Let_def
  by (rule frame_rules framed)+

lemma pred_fns_framed:
  "keeps frame (se_pred_and c a ev i d)" "keeps frame (se_pred_or c a ev i d)"
  "keeps frame (se_pred_not c a ev i d)" "keeps frame (se_pred_nor c a ev i d)"
  "keeps frame (se_pred_nand c a ev i d)" "keeps frame (se_pred_xor c a ev i d)"
  unfolding se_pred_and_def se_pred_or_def se_pred_not_def se_pred_nor_def se_pred_nand_def
    se_pred_xor_def pred_loop_def
  by (rule frame_rules framed)+

lemma field_fns_framed:
  "keeps frame (se_true c a ev i d)" "keeps frame (se_false c a ev i d)"
  "keeps frame (se_check_event c a ev i d)" "keeps frame (se_field_eq c a ev i d)"
  "keeps frame (se_field_ne c a ev i d)" "keeps frame (se_field_gt c a ev i d)"
  "keeps frame (se_field_ge c a ev i d)" "keeps frame (se_field_lt c a ev i d)"
  "keeps frame (se_field_le c a ev i d)" "keeps frame (se_field_in_range c a ev i d)"
  "keeps frame (se_field_increment_and_test c a ev i d)"
  "keeps frame (se_state_increment_and_test c a ev i d)"
  unfolding se_true_def se_false_def se_check_event_def se_field_eq_def se_field_ne_def
    se_field_gt_def se_field_ge_def se_field_lt_def se_field_le_def se_field_in_range_def
    field_compare_def se_field_increment_and_test_def se_state_increment_and_test_def first_time_def
  by (rule frame_rules framed)+

lemma leaf_framed:
  "keeps frame (se_tick_delay c a ev i d)" "keeps frame (se_wait_event c a ev i d)"
  "keeps frame (se_nop c a ev i d)" "keeps frame (se_wait c a ev i d)"
  "keeps frame (se_verify_and_check_elapsed_events c a ev i d)" "keeps frame (se_verify c a ev i d)"
  unfolding se_tick_delay_def se_wait_event_def se_nop_def se_wait_def
    se_verify_and_check_elapsed_events_def se_verify_def report_error_def
  by (rule frame_rules framed)+

lemma oneshot_fns_framed:
  "keeps frame (se_set_field c a ev i d)" "keeps frame (se_set_field_float c a ev i d)"
  "keeps frame (se_inc_field c a ev i d)" "keeps frame (se_dec_field c a ev i d)"
  "keeps frame (se_set_hash c a ev i d)" "keeps frame (se_queue_event c a ev i d)"
  "keeps frame (se_push_stack c a ev i d)"
  unfolding se_set_field_def se_set_field_float_def se_inc_field_def se_dec_field_def
    se_set_hash_def field_update_def se_queue_event_def se_push_stack_def Let_def
  by (rule frame_rules framed)+

end

section \<open>Closing the loop\<close>

text \<open>
  A module is well-behaved when its functions keep the frame in every context that does:
  what the builtins have been shown to do, and what is asked of the user's functions.
\<close>

definition framed_entry :: "('w ctx \<Rightarrow> ('w, 'a) node_fn) \<Rightarrow> bool" where
  "framed_entry f = (\<forall>c a ev i d. framed_ctx c \<longrightarrow> keeps frame (f c a ev i d))"

definition framed_env :: "'w env \<Rightarrow> bool" where
  "framed_env e =
     ((\<forall>f. Some f \<in> set (env_main e) \<longrightarrow> framed_entry f) \<and>
      (\<forall>f. Some f \<in> set (env_pred e) \<longrightarrow> framed_entry f) \<and>
      (\<forall>f. Some f \<in> set (env_oneshot e) \<longrightarrow> framed_entry f))"

lemma framed_stuck [simp]: "keeps R (stuck a ev i d)"
  by (simp add: keeps_def stuck_def)

lemma framed_mk_ctx:
  assumes "framed_env e"
  shows "framed_ctx (mk_ctx e n)"
proof (induction n)
  case 0
  show ?case
    by unfold_locales (auto simp: eq_commute [of "Some z" "map_option g x" for z g x])
next
  case (Suc n)
  show ?case
    by unfold_locales
      (use Suc assms in \<open>auto simp: framed_env_def framed_entry_def
         eq_commute [of "Some z" "map_option g x" for z g x]\<close>)
qed

lemma framed_return_codes:
  "f \<in> {se_return_continue, se_return_halt, se_return_terminate, se_return_reset,
      se_return_disable, se_return_skip_continue,
      se_return_function_continue, se_return_function_halt, se_return_function_reset,
      se_return_function_terminate, se_return_function_disable, se_return_function_skip_continue,
      se_return_pipeline_continue, se_return_pipeline_terminate, se_return_pipeline_reset,
      se_return_pipeline_disable, se_return_pipeline_skip_continue, se_return_pipeline_halt} \<Longrightarrow>
   framed_entry f"
  by (auto simp: framed_entry_def keeps_def frame_def frame_node_def frame_in_def
      se_return_continue_def se_return_halt_def se_return_terminate_def se_return_reset_def
      se_return_disable_def se_return_skip_continue_def se_return_function_continue_def
      se_return_function_halt_def se_return_function_reset_def se_return_function_terminate_def
      se_return_function_disable_def se_return_function_skip_continue_def
      se_return_pipeline_continue_def se_return_pipeline_terminate_def se_return_pipeline_reset_def
      se_return_pipeline_disable_def se_return_pipeline_skip_continue_def se_return_pipeline_halt_def)

lemmas builtin_framed = framed_ctx.flow_framed framed_ctx.fork_framed framed_ctx.dispatch_fns_framed
  framed_ctx.pred_fns_framed framed_ctx.field_fns_framed framed_ctx.leaf_framed
  framed_ctx.oneshot_fns_framed

lemma framed_builtin_main: "f \<in> set builtin_main_entries \<Longrightarrow> framed_entry f"
proof -
  assume f: "f \<in> set builtin_main_entries"
  show ?thesis
  proof (rule ccontr)
    assume "\<not> framed_entry f"
    with f framed_return_codes [of f] show False
      unfolding builtin_main_entries_def
      by (auto simp: framed_entry_def builtin_framed)
  qed
qed

lemma framed_builtin_pred: "f \<in> set builtin_pred_entries \<Longrightarrow> framed_entry f"
  unfolding builtin_pred_entries_def by (auto simp: framed_entry_def builtin_framed)

lemma framed_builtin_oneshot: "f \<in> set builtin_oneshot_entries \<Longrightarrow> framed_entry f"
  unfolding builtin_oneshot_entries_def by (auto simp: framed_entry_def builtin_framed)

lemma framed_builtin_env: "framed_env (builtin_env P)"
  by (auto simp: framed_env_def builtin_env_def framed_builtin_main framed_builtin_pred framed_builtin_oneshot)

interpretation builtins: framed_ctx "mk_ctx (builtin_env P) n" for P n
  by (rule framed_mk_ctx [OF framed_builtin_env])

section \<open>Properties\<close>

definition shape_node :: "'w inst \<Rightarrow> 'w inst \<Rightarrow> bool" where
  "shape_node s t = (shape s t \<and> node_context_of t = node_context_of s)"

lemma preorder_shape_node [simp]: "preorder_rel shape_node"
  by (intro preorder_relI) (auto simp: shape_node_def intro: shape_trans)

lemma shape_node_frame: "keeps frame m \<Longrightarrow> keeps shape_node m"
  by (erule keeps_mono) (simp add: frame_def frame_node_def frame_in_def shape_node_def node_context_of_def)

lemma shape_node_steps:
  "keeps shape_node (set_event_context e)" "keeps shape_node (on_inst_stack s_expr_tree_reset_stack)"
  by (auto simp: keeps_def set_event_context_def shape_node_def node_context_of_def on_inst_stack_def
      s_expr_tree_reset_stack_def on_stack_def shape_def stk_ok_def split: option.splits)

text \<open>
  C3. Running a tree never breaks the instance: whatever the tree does in a tick, with any
  mix of builtin functions and of user functions that keep the frame themselves, the node
  table, the pointer slots and the blackboard keep their sizes, the event queue and the stack
  keep their invariants, and the node context the tick started in is back in place.
\<close>

theorem tick_keeps_shape:
  assumes "framed_env e" "keeps frame wdt" "s_expr_node_tick (mk_ctx e n) wdt i d s = Ret (r, s')"
  shows "shape s s' \<and> node_context_of s' = node_context_of s"
proof -
  have c: "framed_ctx (mk_ctx e n)" by (rule framed_mk_ctx [OF assms(1)])
  have "keeps shape_node (s_expr_node_tick (mk_ctx e n) wdt i d)"
    unfolding s_expr_node_tick_def
    by (rule preorder_shape_node keeps shape_node_steps shape_node_frame [OF assms(2)]
        shape_node_frame [OF framed_ctx.invoke_framed(1) [OF c]]
        shape_node_frame [OF framed_reads(1)])+
  from keepsD [OF this assms(3)] show ?thesis by (simp add: shape_node_def)
qed

definition demo_env :: "nat env" where
  "demo_env = \<lparr> env_params = flats [call_of S_EXPR_PARAM_MAIN 0 0 []],
     env_main = [Some se_return_pipeline_halt], env_pred = [], env_oneshot = [] \<rparr>"

theorem tick_keeps_shape_witness:
  "\<exists>s'. s_expr_node_tick (mk_ctx demo_env 1) (retA ()) 4 0 (fresh_inst 1 0) = Ret (SE_PIPELINE_HALT, s') \<and>
     shape (fresh_inst 1 (0 :: nat)) s'"
proof -
  have e: "framed_env demo_env"
    by (auto simp: framed_env_def demo_env_def framed_return_codes)
  have "\<exists>s'. s_expr_node_tick (mk_ctx demo_env 1) (retA ()) 4 0 (fresh_inst 1 0) = Ret (SE_PIPELINE_HALT, s')"
    by (simp add: s_expr_node_tick_def demo_env_def call_of_def flats_def fresh_inst_def rdA_def rd_def
        tree_slice_def node_count_def ns_fresh_def is_active_def s_expr_invoke_main_def
        s_expr_call_args_def dispatch_main_def get_node_state_def is_initialized_def u16_def
        enter_node_def set_event_context_def upd_node_def node_context_of_def restore_node_context_def
        se_return_pipeline_halt_def)
  then show ?thesis using tick_keeps_shape [OF e] by (metis keeps_retA preorder_frames(4))
qed

end
