(* ===== verification/SE_DictOps.thy ===== *)
theory SE_DictOps
  imports SE_Dict SE_Frame
begin

text \<open>
  The builtins on dictionaries: loading a pointer into a blackboard field and extracting values by
  path (\<open>s_engine_builtins_dict.h\<close>, \<open>s_engine_builtins_oneshot.h\<close>), and the dictionaries of functions,
  whose entries are run by key (\<open>s_engine_builtins_spawn.h\<close>); then, that they keep the frame.

  A pointer in a 64-bit field is an address: \<open>d_base\<close> is the address of the parameter array, whose
  elements have eight bytes. Pointers of the target have 32 bits. A number that is not the address of
  a parameter stands for an index past the array, where every read is a \<open>Fault\<close>.
\<close>

section \<open>Pointers in fields\<close>

definition addr_of :: "denv \<Rightarrow> pptr \<Rightarrow> 64 word" where
  "addr_of D p = (case p of None \<Rightarrow> 0 | Some i \<Rightarrow> of_nat (d_base D + 8 * i))"

definition ptr_of :: "denv \<Rightarrow> s_expr_param list \<Rightarrow> 32 word \<Rightarrow> pptr" where
  "ptr_of D P w =
     (if w = 0 then None
      else if d_base D \<le> unat w \<and> (unat w - d_base D) mod 8 = 0 then Some ((unat w - d_base D) div 8)
      else Some (length P))"

text \<open>A store of the low \<open>n\<close> bytes of a number.\<close>

definition bb_store :: "nat \<Rightarrow> nat \<Rightarrow> 64 word \<Rightarrow> ('w, unit) iact" where
  "bb_store k n v = (\<lambda>s. case blackboard s of
     None \<Rightarrow> Trap (Fault ''blackboard written through NULL'')
   | Some bb \<Rightarrow>
       if k + n \<le> length bb then
         Ret ((), s \<lparr> blackboard := Some (take k bb @ map (\<lambda>i. ucast (drop_bit (8 * i) v)) [0..<n] @ drop (k + n) bb) \<rparr>)
       else Trap (Fault ''blackboard written out of bounds''))"

definition get_dict_from_field :: "denv \<Rightarrow> 'w ctx \<Rightarrow> s_expr_param \<Rightarrow> ('w, pptr) iact" where
  "get_dict_from_field D c fp = bindA (getA blackboard) (\<lambda>bb.
     if bb = None then retA None
     else if opcode fp \<noteq> S_EXPR_PARAM_FIELD then retA None
     else bindA (field_read64 (field_offset fp)) (\<lambda>v. retA (ptr_of D (tree_params c) (ucast v))))"

definition get_string :: "denv \<Rightarrow> s_expr_param \<Rightarrow> cstr" where
  "get_string D p = (case d_strings D of None \<Rightarrow> None
     | Some tab \<Rightarrow> if opcode p \<noteq> S_EXPR_PARAM_STR_IDX then None
         else if str_index p \<ge> length tab then None else tab ! str_index p)"

text \<open>The stores by size; other sizes write nothing. The argument is a 32-bit value.\<close>

definition field_guarded :: "s_expr_param \<Rightarrow> ('w, unit) iact \<Rightarrow> ('w, unit) iact" where
  "field_guarded fp m = bindA (getA blackboard) (\<lambda>bb.
     if bb = None \<or> opcode fp \<noteq> S_EXPR_PARAM_FIELD then retA () else m)"

definition write_int_to_field :: "s_expr_param \<Rightarrow> 32 word \<Rightarrow> ('w, unit) iact" where
  "write_int_to_field fp v = field_guarded fp
     (if field_size fp \<in> {1, 2, 4, 8} then bb_store (field_offset fp) (field_size fp) (scast v) else retA ())"

definition write_uint_to_field :: "s_expr_param \<Rightarrow> 32 word \<Rightarrow> ('w, unit) iact" where
  "write_uint_to_field fp v = field_guarded fp
     (if field_size fp \<in> {1, 2, 4, 8} then bb_store (field_offset fp) (field_size fp) (ucast v) else retA ())"

definition write_float_to_field :: "denv \<Rightarrow> s_expr_param \<Rightarrow> 32 word \<Rightarrow> ('w, unit) iact" where
  "write_float_to_field D fp v = field_guarded fp
     (if field_size fp = 4 then bb_store (field_offset fp) 4 (ucast v)
      else if field_size fp = 8 then bb_store (field_offset fp) 8 (fl_to_double (d_fl D) v)
      else retA ())"

definition write_hash_to_field :: "s_expr_param \<Rightarrow> 32 word \<Rightarrow> ('w, unit) iact" where
  "write_hash_to_field fp v = field_guarded fp
     (if field_size fp = 4 \<or> field_size fp = 8 then bb_store (field_offset fp) (field_size fp) (ucast v) else retA ())"

text \<open>The last field among the parameters, or the first parameter.\<close>

fun dest_search :: "s_expr_param list \<Rightarrow> slice \<Rightarrow> nat \<Rightarrow> nat res" where
  "dest_search P a 0 = Ret 0"
| "dest_search P a (Suc i) = res_bind (rd P a (Suc i)) (\<lambda>p.
     if opcode p \<noteq> S_EXPR_PARAM_FIELD then dest_search P a i else Ret (Suc i))"

definition find_dest_field_index :: "s_expr_param list \<Rightarrow> slice \<Rightarrow> nat res" where
  "find_dest_field_index P a = dest_search P a (s_count a - 1)"

text \<open>The hashes of a path; the empty list where the code returns a depth of 0.\<close>

fun collect_from :: "s_expr_param list \<Rightarrow> slice \<Rightarrow> nat \<Rightarrow> nat \<Rightarrow> 32 word list option res" where
  "collect_from P a i 0 = Ret (Some [])"
| "collect_from P a i (Suc n) = res_bind (rd P a i) (\<lambda>p.
     if opcode p \<noteq> S_EXPR_PARAM_STR_HASH then Ret None
     else res_bind (collect_from P a (i + 1) n) (\<lambda>hs. Ret (map_option (\<lambda>l. str_hash p # l) hs)))"

definition collect_path_hashes :: "s_expr_param list \<Rightarrow> slice \<Rightarrow> nat \<Rightarrow> nat \<Rightarrow> nat \<Rightarrow> 32 word list res" where
  "collect_path_hashes P a start_idx end_idx max_depth =
     (let depth = end_idx - start_idx in
      if depth = 0 \<or> depth > max_depth then Ret []
      else res_bind (collect_from P a start_idx depth) (\<lambda>hs. Ret (case hs of None \<Rightarrow> [] | Some l \<Rightarrow> l)))"

section \<open>Loading\<close>

definition se_load_dictionary :: "denv \<Rightarrow> 'w ctx \<Rightarrow> ('w, unit) node_fn" where
  "se_load_dictionary D c a ev event_id event_data =
     (if s_count a < 2 then retA ()
      else bindA (getA blackboard) (\<lambda>bb.
        if bb = None then retA ()
        else bindA (rdA c a 0) (\<lambda>fp.
          if opcode fp \<noteq> S_EXPR_PARAM_FIELD then retA ()
          else bindA (rdA c a 1) (\<lambda>dp.
            if opcode dp \<noteq> S_EXPR_PARAM_OPEN_DICT then retA ()
            else field_write64 (field_offset fp) (addr_of D (map_option (\<lambda>b. b + 1) (s_base a)))))))"

definition load_checked :: "string \<Rightarrow> string \<Rightarrow> string \<Rightarrow> string \<Rightarrow> 8 word \<Rightarrow> denv \<Rightarrow> 'w ctx \<Rightarrow> slice \<Rightarrow> ('w, unit) iact" where
  "load_checked m1 m2 m3 m4 opc D c a =
     (if s_count a < 2 then excA m1
      else bindA (getA blackboard) (\<lambda>bb.
        if bb = None then excA m2
        else bindA (rdA c a 0) (\<lambda>fp.
          if opcode fp \<noteq> S_EXPR_PARAM_FIELD then excA m3
          else bindA (rdA c a 1) (\<lambda>dp.
            if opcode dp \<noteq> opc then excA m4
            else field_write64 (field_offset fp) (addr_of D (map_option (\<lambda>b. b + 1) (s_base a)))))))"

definition se_load_function_dict :: "denv \<Rightarrow> 'w ctx \<Rightarrow> ('w, unit) node_fn" where
  "se_load_function_dict D c a ev event_id event_data =
     load_checked ''se_load_function_dict: expected 2 params (field_ref, dict)''
       ''se_load_function_dict: NULL instance or blackboard'' ''se_load_function_dict: param[0] is not a FIELD''
       ''se_load_function_dict: param[1] is not OPEN_DICT'' S_EXPR_PARAM_OPEN_DICT D c a"

definition se_load_function :: "denv \<Rightarrow> 'w ctx \<Rightarrow> ('w, unit) node_fn" where
  "se_load_function D c a ev event_id event_data =
     load_checked ''se_load_function: expected 2 params (field_ref, callable)''
       ''se_load_function: NULL instance or blackboard'' ''se_load_function: param[0] is not a FIELD''
       ''se_load_function: param[1] is not a callable'' S_EXPR_PARAM_OPEN_CALL D c a"

section \<open>Extracting by dotted path\<close>

definition extract_by_path :: "denv \<Rightarrow> 'w ctx \<Rightarrow> slice \<Rightarrow> (pptr \<Rightarrow> cstr \<Rightarrow> 'v res) \<Rightarrow> (s_expr_param \<Rightarrow> 'v \<Rightarrow> ('w, unit) iact) \<Rightarrow>
    ('w, unit) iact" where
  "extract_by_path D c a get write =
     (if s_count a < 3 then retA ()
      else bindA (rdA c a 0) (\<lambda>fp. bindA (get_dict_from_field D c fp) (\<lambda>dict.
        if dict = None then retA ()
        else bindA (rdA c a 1) (\<lambda>sp.
          if get_string D sp = None then retA ()
          else bindA (liftA (get dict (get_string D sp))) (\<lambda>v. bindA (rdA c a 2) (\<lambda>dp. write dp v))))))"

definition se_dict_extract_int :: "denv \<Rightarrow> 'w ctx \<Rightarrow> ('w, unit) node_fn" where
  "se_dict_extract_int D c a ev event_id event_data =
     extract_by_path D c a (\<lambda>d p. se_dicts_get_int (tree_params c) d p 0) write_int_to_field"

text \<open>The unsigned one reads the type of the dictionary for a line on the console, before the path.\<close>

definition se_dict_extract_uint :: "denv \<Rightarrow> 'w ctx \<Rightarrow> ('w, unit) node_fn" where
  "se_dict_extract_uint D c a ev event_id event_data =
     (if s_count a < 3 then retA ()
      else bindA (rdA c a 0) (\<lambda>fp. bindA (get_dict_from_field D c fp) (\<lambda>dict. bindA (rdA c a 1) (\<lambda>sp.
        case dict of
          None \<Rightarrow> retA ()
        | Some d \<Rightarrow> bindA (liftA (deref (tree_params c) d)) (\<lambda>_.
            if get_string D sp = None then retA ()
            else bindA (liftA (se_dicts_get_uint (tree_params c) dict (get_string D sp) 0)) (\<lambda>v.
              bindA (rdA c a 2) (\<lambda>dp. write_uint_to_field dp v)))))))"

definition se_dict_extract_float :: "denv \<Rightarrow> 'w ctx \<Rightarrow> ('w, unit) node_fn" where
  "se_dict_extract_float D c a ev event_id event_data =
     extract_by_path D c a (\<lambda>d p. se_dicts_get_float D (tree_params c) d p 0) (write_float_to_field D)"

definition se_dict_extract_bool :: "denv \<Rightarrow> 'w ctx \<Rightarrow> ('w, unit) node_fn" where
  "se_dict_extract_bool D c a ev event_id event_data =
     extract_by_path D c a (\<lambda>d p. se_dicts_get_bool (tree_params c) d p False)
       (\<lambda>dp v. write_int_to_field dp (if v then 1 else 0))"

definition se_dict_extract_hash :: "denv \<Rightarrow> 'w ctx \<Rightarrow> ('w, unit) node_fn" where
  "se_dict_extract_hash D c a ev event_id event_data =
     extract_by_path D c a (\<lambda>d p. se_dicts_get_hash D (tree_params c) d p 0) write_hash_to_field"

text \<open>The pointer is stored whatever the type of the destination, a failed lookup as \<open>NULL\<close>.\<close>

definition se_dict_store_ptr :: "denv \<Rightarrow> 'w ctx \<Rightarrow> ('w, unit) node_fn" where
  "se_dict_store_ptr D c a ev event_id event_data =
     (if s_count a < 3 then retA ()
      else bindA (getA blackboard) (\<lambda>bb.
        if bb = None then retA ()
        else extract_by_path D c a
          (\<lambda>d p. res_bind (resolves (tree_params c) d p) (\<lambda>e.
             res_bind (param_or (tree_params c) e () (\<lambda>_. Ret ())) (\<lambda>_. Ret e)))
          (\<lambda>dp e. field_write64 (field_offset dp) (addr_of D e))))"

section \<open>Extracting by path of hashes\<close>

definition extract_by_hashes :: "denv \<Rightarrow> 'w ctx \<Rightarrow> slice \<Rightarrow> (pptr \<Rightarrow> 32 word list option \<Rightarrow> nat \<Rightarrow> 'v res) \<Rightarrow>
    (s_expr_param \<Rightarrow> 'v \<Rightarrow> ('w, unit) iact) \<Rightarrow> ('w, unit) iact" where
  "extract_by_hashes D c a get write =
     (if s_count a < 3 then retA ()
      else bindA (rdA c a 0) (\<lambda>fp. bindA (get_dict_from_field D c fp) (\<lambda>dict.
        if dict = None then retA ()
        else bindA (liftA (find_dest_field_index (tree_params c) a)) (\<lambda>dest_idx.
          if dest_idx \<le> 1 then retA ()
          else bindA (liftA (collect_path_hashes (tree_params c) a 1 dest_idx 16)) (\<lambda>hs.
            if hs = [] then retA ()
            else bindA (liftA (get dict (Some hs) (length hs))) (\<lambda>v.
              bindA (rdA c a dest_idx) (\<lambda>dp. write dp v)))))))"

definition se_dict_extract_int_h :: "denv \<Rightarrow> 'w ctx \<Rightarrow> ('w, unit) node_fn" where
  "se_dict_extract_int_h D c a ev event_id event_data =
     extract_by_hashes D c a (\<lambda>d hs n. se_dicth_get_int (tree_params c) d hs n 0) write_int_to_field"

definition se_dict_extract_uint_h :: "denv \<Rightarrow> 'w ctx \<Rightarrow> ('w, unit) node_fn" where
  "se_dict_extract_uint_h D c a ev event_id event_data =
     extract_by_hashes D c a (\<lambda>d hs n. se_dicth_get_uint (tree_params c) d hs n 0) write_uint_to_field"

definition se_dict_extract_float_h :: "denv \<Rightarrow> 'w ctx \<Rightarrow> ('w, unit) node_fn" where
  "se_dict_extract_float_h D c a ev event_id event_data =
     extract_by_hashes D c a (\<lambda>d hs n. se_dicth_get_float D (tree_params c) d hs n 0) (write_float_to_field D)"

definition se_dict_extract_bool_h :: "denv \<Rightarrow> 'w ctx \<Rightarrow> ('w, unit) node_fn" where
  "se_dict_extract_bool_h D c a ev event_id event_data =
     extract_by_hashes D c a (\<lambda>d hs n. se_dicth_get_bool (tree_params c) d hs n False)
       (\<lambda>dp v. write_int_to_field dp (if v then 1 else 0))"

definition se_dict_extract_hash_h :: "denv \<Rightarrow> 'w ctx \<Rightarrow> ('w, unit) node_fn" where
  "se_dict_extract_hash_h D c a ev event_id event_data =
     extract_by_hashes D c a (\<lambda>d hs n. se_dicth_get_hash D (tree_params c) d hs n 0) write_hash_to_field"

definition se_dict_store_ptr_h :: "denv \<Rightarrow> 'w ctx \<Rightarrow> ('w, unit) node_fn" where
  "se_dict_store_ptr_h D c a ev event_id event_data =
     (if s_count a < 3 then retA ()
      else bindA (getA blackboard) (\<lambda>bb.
        if bb = None then retA ()
        else extract_by_hashes D c a (resolveh (tree_params c))
          (\<lambda>dp e. field_write64 (field_offset dp) (addr_of D e))))"

section \<open>Dictionaries of functions\<close>

text \<open>A pointer to parameters that comes without a count; nothing below reads the count.\<close>

definition from_ptr :: "nat \<Rightarrow> slice" where
  "from_ptr i = \<lparr> s_base = Some i, s_count = UINT16_MAX \<rparr>"

definition se_exec_fn :: "denv \<Rightarrow> 'w ctx \<Rightarrow> ('w, s_expr_result) node_fn" where
  "se_exec_fn D c a ev event_id event_data =
     (if s_count a < 1 then excA ''se_exec_fn: expected 1 param (field_ref)''
      else if ev = SE_EVENT_INIT then
        bindA (getA blackboard) (\<lambda>bb.
          if bb = None then excA ''se_exec_fn: no blackboard bound''
          else bindA (rdA c a 0) (\<lambda>fp. bindA (field_read (Some (field_offset fp))) (\<lambda>w.
            if w = 0 then excA ''se_exec_fn: NULL s-expression pointer in blackboard''
            else seqA (s_expr_set_user_u64 (ucast w)) (retA SE_PIPELINE_CONTINUE))))
      else if ev = SE_EVENT_TERMINATE then retA SE_PIPELINE_CONTINUE
      else bindA s_expr_get_user_u64 (\<lambda>v.
        case ptr_of D (tree_params c) (ucast v) of
          None \<Rightarrow> excA ''se_exec_fn: NULL cached s-expression''
        | Some i \<Rightarrow> bindA (rdA c (from_ptr i) 0) (\<lambda>x.
            seqA (if opcode x = S_EXPR_PARAM_OPEN_CALL then s_expr_reset_recursive_at c (from_ptr i) 0 else retA ())
            (bindA (s_expr_invoke_any c (from_ptr i) 0) (\<lambda>r.
              retA (if r = SE_PIPELINE_DISABLE then SE_PIPELINE_CONTINUE else r))))))"

text \<open>
  What the three functions do with the entry they have found: look for its end, reset every call in
  it, run the calls in order. A \<open>ONESHOT\<close> or a predicate does not count; a \<open>MAIN\<close> call ends the run
  unless it continues or is disabled.
\<close>

definition entry_end :: "'w ctx \<Rightarrow> nat \<Rightarrow> ('w, nat) iact" where
  "entry_end c v = bindA (whileA nav_fuel (\<lambda>_. True) (\<lambda>n. bindA (rdA c (from_ptr v) n) (\<lambda>x.
       if opcode x = S_EXPR_PARAM_CLOSE_KEY then retA (Inr n)
       else bindA (liftA (s_expr_skip_param (tree_params c) (from_ptr v) n)) (\<lambda>j. retA (Inl j)))) 0)
     (\<lambda>r. case r of Inl n \<Rightarrow> retA n | Inr n \<Rightarrow> retA n)"

definition reset_entry :: "'w ctx \<Rightarrow> nat \<Rightarrow> nat \<Rightarrow> ('w, unit) iact" where
  "reset_entry c v content_count = bindA (whileA nav_fuel (\<lambda>idx. idx < content_count)
     (\<lambda>idx. bindA (rdA c (from_ptr v) idx) (\<lambda>x.
        seqA (if opcode x = S_EXPR_PARAM_OPEN_CALL then s_expr_reset_recursive_at c (from_ptr v) idx else retA ())
        (bindA (liftA (s_expr_skip_param (tree_params c) (from_ptr v) idx)) (\<lambda>j. retA (Inl j :: nat + unit))))) 0)
     (\<lambda>_. retA ())"

definition entry_step :: "'w ctx \<Rightarrow> nat \<Rightarrow> nat \<times> s_expr_result \<Rightarrow> ('w, (nat \<times> s_expr_result) + s_expr_result) iact" where
  "entry_step c v = (\<lambda>(idx, result). bindA (rdA c (from_ptr v) idx) (\<lambda>x.
     let onward = (\<lambda>r. bindA (liftA (s_expr_skip_param (tree_params c) (from_ptr v) idx)) (\<lambda>j. retA (Inl (j, r)))) in
     if opcode x = S_EXPR_PARAM_OPEN_CALL then
       bindA (rdA c (from_ptr v) (idx + 1)) (\<lambda>fp.
       bindA (s_expr_invoke_any c (from_ptr v) idx) (\<lambda>r.
         if opcode fp = S_EXPR_PARAM_ONESHOT \<or> opcode fp = S_EXPR_PARAM_PRED then onward result
         else if r \<noteq> SE_PIPELINE_CONTINUE \<and> r \<noteq> SE_PIPELINE_DISABLE then retA (Inr r)
         else onward r))
     else onward result))"

definition run_entry :: "'w ctx \<Rightarrow> nat \<Rightarrow> nat \<Rightarrow> ('w, s_expr_result) iact" where
  "run_entry c v content_count = bindA (whileA nav_fuel (\<lambda>(idx, result). idx < content_count) (entry_step c v)
       (0, SE_PIPELINE_CONTINUE))
     (\<lambda>z. let result = (case z of Inl (idx, r) \<Rightarrow> r | Inr r \<Rightarrow> r) in
        retA (if result = SE_PIPELINE_DISABLE then SE_PIPELINE_CONTINUE else result))"

definition exec_key :: "string \<Rightarrow> string \<Rightarrow> 'w ctx \<Rightarrow> nat \<Rightarrow> 32 word \<Rightarrow> ('w, s_expr_result) iact" where
  "exec_key not_found no_content c dict key_hash =
     bindA (liftA (se_dicth_find (tree_params c) (Some dict) key_hash)) (\<lambda>value.
       case value of
         None \<Rightarrow> excA not_found
       | Some v \<Rightarrow> bindA (entry_end c v) (\<lambda>content_count.
           if content_count = 0 then excA no_content
           else seqA (reset_entry c v content_count) (run_entry c v content_count)))"

definition se_exec_dict_internal :: "'w ctx \<Rightarrow> ('w, s_expr_result) node_fn" where
  "se_exec_dict_internal c a ev event_id event_data =
     (if s_count a < 1 then excA ''se_exec_dict_internal: expected 1 param (key_hash)''
      else if ev = SE_EVENT_INIT \<or> ev = SE_EVENT_TERMINATE then retA SE_PIPELINE_CONTINUE
      else bindA (getA current_dict) (\<lambda>cd. case cd of
        None \<Rightarrow> excA ''se_exec_dict_internal: no dictionary context''
      | Some d \<Rightarrow> bindA (rdA c a 0) (\<lambda>kp.
          exec_key ''se_exec_dict_internal: key not found'' ''se_exec_dict_internal: empty key'' c d (str_hash kp))))"

text \<open>INIT and TERMINATE of the two functions that take the dictionary from a field.\<close>

definition set_current_dict :: "pptr \<Rightarrow> ('w, unit) iact" where
  "set_current_dict p = modA (\<lambda>s. s \<lparr> current_dict := p \<rparr>)"

definition enter_dict :: "string \<Rightarrow> string \<Rightarrow> string \<Rightarrow> denv \<Rightarrow> 'w ctx \<Rightarrow> slice \<Rightarrow> ('w, s_expr_result) iact" where
  "enter_dict m1 m2 m3 D c a = bindA (getA blackboard) (\<lambda>bb.
     if bb = None then excA m1
     else bindA (rdA c a 0) (\<lambda>fp. bindA (field_read (Some (field_offset fp))) (\<lambda>w.
       case ptr_of D (tree_params c) w of
         None \<Rightarrow> excA m2
       | Some d \<Rightarrow> bindA (liftA (deref (tree_params c) d)) (\<lambda>x.
           if \<not> se_dicth_is_dict x then excA m3
           else seqA (set_current_dict (Some d)) (retA SE_PIPELINE_CONTINUE)))))"

definition se_exec_dict_dispatch :: "denv \<Rightarrow> 'w ctx \<Rightarrow> ('w, s_expr_result) node_fn" where
  "se_exec_dict_dispatch D c a ev event_id event_data =
     (if s_count a < 2 then excA ''se_exec_dict_dispatch: expected 2 params (field_ref, key_hash)''
      else if ev = SE_EVENT_INIT then
        enter_dict ''se_exec_dict_dispatch: no blackboard bound'' ''se_exec_dict_dispatch: NULL dictionary pointer''
          ''se_exec_dict_dispatch: not a dictionary'' D c a
      else if ev = SE_EVENT_TERMINATE then seqA (set_current_dict None) (retA SE_PIPELINE_CONTINUE)
      else bindA (getA current_dict) (\<lambda>cd. case cd of
        None \<Rightarrow> excA ''se_exec_dict_dispatch: no dictionary context''
      | Some d \<Rightarrow> bindA (rdA c a 1) (\<lambda>kp.
          exec_key ''se_exec_dict_dispatch: key not found'' ''se_exec_dict_dispatch: empty key'' c d (str_hash kp))))"

definition se_exec_dict_fn_ptr :: "denv \<Rightarrow> 'w ctx \<Rightarrow> ('w, s_expr_result) node_fn" where
  "se_exec_dict_fn_ptr D c a ev event_id event_data =
     (if s_count a < 2 then excA ''se_exec_dict_fn_ptr: expected 2 params (dict_field, hash_field)''
      else if ev = SE_EVENT_INIT then
        enter_dict ''se_exec_dict_fn_ptr: no blackboard bound'' ''se_exec_dict_fn_ptr: NULL dictionary pointer''
          ''se_exec_dict_fn_ptr: not a dictionary'' D c a
      else if ev = SE_EVENT_TERMINATE then seqA (set_current_dict None) (retA SE_PIPELINE_CONTINUE)
      else bindA (getA current_dict) (\<lambda>cd. case cd of
        None \<Rightarrow> excA ''se_exec_dict_fn_ptr: no dictionary context''
      | Some d \<Rightarrow> bindA (rdA c a 1) (\<lambda>hp. bindA (getA (\<lambda>s. S_EXPR_GET_FIELD s hp)) (\<lambda>hash_ptr.
          if hash_ptr = None then excA ''se_exec_dict_fn_ptr: cannot read hash field''
          else bindA (field_read hash_ptr) (\<lambda>key_hash.
            exec_key ''se_exec_dict_fn_ptr: key not found'' ''se_exec_dict_fn_ptr: empty key'' c d key_hash)))))"

section \<open>The frame\<close>

lemma framed_dict_parts [framed]:
  "keeps frame (field_read64 k)" "keeps frame (field_write64 k w)" "keeps frame (bb_store k n w)"
  "keeps frame (set_current_dict p)"
proof -
  show "keeps frame (field_read64 k)" "keeps frame (field_write64 k w)"
    unfolding field_read64_def field_write64_def put64_def put32_def
    by (auto simp: keeps_def frame_def frame_node_def frame_in_def shape_def split: option.splits if_splits)
  show "keeps frame (bb_store k n w)"
    by (auto simp: bb_store_def keeps_def frame_def frame_node_def frame_in_def shape_def split: option.splits if_splits)
  show "keeps frame (set_current_dict p)"
    by (auto simp: set_current_dict_def keeps_def frame_def frame_node_def frame_in_def shape_def open_frames_def
        split: option.splits)
qed

lemma framed_field_writers [framed]:
  "keeps frame (write_int_to_field fp v)" "keeps frame (write_uint_to_field fp v)"
  "keeps frame (write_float_to_field D fp v)" "keeps frame (write_hash_to_field fp v)"
  "keeps frame (get_dict_from_field D c fp)"
  unfolding write_int_to_field_def write_uint_to_field_def write_float_to_field_def write_hash_to_field_def
    field_guarded_def get_dict_from_field_def
  by (intro frame_rules framed)+

lemma framed_extract:
  assumes "\<And>fp v. keeps frame (write fp v)"
  shows "keeps frame (extract_by_path D c a get write)" "keeps frame (extract_by_hashes D c a geth write)"
  unfolding extract_by_path_def extract_by_hashes_def
  by (intro frame_rules framed assms)+

lemma framed_dict_oneshots:
  "keeps frame (se_load_dictionary D c a ev i d)" "keeps frame (se_load_function_dict D c a ev i d)"
  "keeps frame (se_load_function D c a ev i d)"
  "keeps frame (se_dict_extract_int D c a ev i d)" "keeps frame (se_dict_extract_uint D c a ev i d)"
  "keeps frame (se_dict_extract_float D c a ev i d)" "keeps frame (se_dict_extract_bool D c a ev i d)"
  "keeps frame (se_dict_extract_hash D c a ev i d)"
  "keeps frame (se_dict_extract_int_h D c a ev i d)" "keeps frame (se_dict_extract_uint_h D c a ev i d)"
  "keeps frame (se_dict_extract_float_h D c a ev i d)" "keeps frame (se_dict_extract_bool_h D c a ev i d)"
  "keeps frame (se_dict_extract_hash_h D c a ev i d)"
  "keeps frame (se_dict_store_ptr D c a ev i d)" "keeps frame (se_dict_store_ptr_h D c a ev i d)"
  unfolding se_load_dictionary_def se_load_function_dict_def se_load_function_def load_checked_def
    se_dict_extract_int_def se_dict_extract_uint_def se_dict_extract_float_def se_dict_extract_bool_def
    se_dict_extract_hash_def se_dict_extract_int_h_def se_dict_extract_uint_h_def se_dict_extract_float_h_def
    se_dict_extract_bool_h_def se_dict_extract_hash_h_def se_dict_store_ptr_def se_dict_store_ptr_h_def
  by (rule frame_rules framed framed_extract)+

context framed_ctx
begin

lemma framed_entry_parts:
  "keeps frame (entry_end c v)" "keeps frame (reset_entry c v n)" "keeps frame (run_entry c v n)"
  unfolding entry_end_def reset_entry_def run_entry_def entry_step_def Let_def
  by (rule frame_rules framed | assumption)+

lemma dict_calls_framed:
  "keeps frame (se_exec_fn D c a ev i d)" "keeps frame (se_exec_dict_internal c a ev i d)"
  "keeps frame (se_exec_dict_dispatch D c a ev i d)" "keeps frame (se_exec_dict_fn_ptr D c a ev i d)"
  unfolding se_exec_fn_def se_exec_dict_internal_def se_exec_dict_dispatch_def se_exec_dict_fn_ptr_def
    exec_key_def enter_dict_def
  by (rule frame_rules framed framed_entry_parts)+

end

section \<open>Their part of the tables\<close>

definition dict_oneshot_entries :: "denv \<Rightarrow> ('w ctx \<Rightarrow> ('w, unit) node_fn) list" where
  "dict_oneshot_entries D =
     [se_dict_extract_int D, se_dict_extract_uint D, se_dict_extract_float D, se_dict_extract_bool D,
      se_dict_extract_hash D, se_dict_extract_int_h D, se_dict_extract_uint_h D, se_dict_extract_float_h D,
      se_dict_extract_bool_h D, se_dict_extract_hash_h D, se_dict_store_ptr D, se_dict_store_ptr_h D,
      se_load_dictionary D, se_load_function_dict D, se_load_function D]"

definition dict_main_entries :: "denv \<Rightarrow> ('w ctx \<Rightarrow> ('w, s_expr_result) node_fn) list" where
  "dict_main_entries D =
     [se_exec_fn D, se_exec_dict_internal, se_exec_dict_dispatch D, se_exec_dict_fn_ptr D]"

lemma framed_dict_entries:
  "f \<in> set (dict_oneshot_entries D) \<Longrightarrow> framed_entry f" "g \<in> set (dict_main_entries D) \<Longrightarrow> framed_entry g"
  unfolding dict_oneshot_entries_def dict_main_entries_def
  by (auto simp: framed_entry_def framed_dict_oneshots framed_ctx.dict_calls_framed)

end
