(* ===== verification/SE_Calls.thy ===== *)
theory SE_Calls
  imports SE_Quads SE_DictOps
begin

text \<open>
  Stack frames of called functions: \<open>se_stack_frame_instance\<close>, which holds a frame open between INIT and
  TERMINATE and hands results back (\<open>s_engine_builtins_quads.h\<close>), and \<open>se_frame_allocate\<close>, which runs
  its children inside a frame in every tick (\<open>s_engine_builtins_stack.h\<close>). The theory joins them
  and the three-address instructions to the builtin tables and shows that these, too, keep the frame of the
  interpreter, and that the composites leave the frames of the stack balanced.
\<close>

section \<open>A frame held open\<close>

text \<open>
  The entries of the return list from index \<open>i\<close> on, at most 16, each the value of a local; an index that is
  no local is passed over.
\<close>

fun return_vars :: "'w ctx \<Rightarrow> slice \<Rightarrow> nat list \<Rightarrow> s_expr_param list \<Rightarrow> ('w, s_expr_param list) iact" where
  "return_vars c a [] temp = retA temp"
| "return_vars c a (i # is) temp =
     (if length temp \<ge> 16 then retA temp
      else bindA (rdA c a i) (\<lambda>p.
        if opcode p = S_EXPR_PARAM_UINT \<or> opcode p = S_EXPR_PARAM_INT then
          bindA (getA inst_stack) (\<lambda>z. bindA (liftA (s_expr_stack_get_local z (uint_val p mod 65536))) (\<lambda>l.
          case l of None \<Rightarrow> return_vars c a is temp
          | Some k \<Rightarrow> bindA (stack_deref (Some k)) (\<lambda>v. return_vars c a is (temp @ [v]))))
        else return_vars c a is temp))"

fun push_all :: "s_expr_param list \<Rightarrow> ('w, unit) iact" where
  "push_all [] = retA ()"
| "push_all (v # vs) = seqA (on_inst_stack (s_expr_stack_push (Some v))) (push_all vs)"

text \<open>\<open>k\<close> is the index of the return list.\<close>

definition copy_return_vars_and_pop :: "'w ctx \<Rightarrow> slice \<Rightarrow> nat \<Rightarrow> ('w, unit) iact" where
  "copy_return_vars_and_pop c a k =
     bindA (getA inst_stack) (\<lambda>z.
     if z = None then retA ()
     else bindA (rdA c a k) (\<lambda>p.
       if opcode p \<noteq> S_EXPR_PARAM_OPEN then on_inst_stack s_expr_stack_pop_frame
       else bindA (return_vars c a [k + 1..<k + brace_idx p] []) (\<lambda>temp.
         seqA (on_inst_stack s_expr_stack_pop_frame) (push_all temp))))"

definition se_stack_frame_instance :: "'w ctx \<Rightarrow> ('w, s_expr_result) node_fn" where
  "se_stack_frame_instance c a ev event_id event_data =
     bindA (getA inst_stack) (\<lambda>z.
     if z = None \<or> s_count a < 4 then excA ''SE_STACK_FRAME_INSTANCE: invalid parameters''
     else bindA (rdA c a 0) (\<lambda>p0. bindA (rdA c a 1) (\<lambda>p1.
       let num_params = uint_val p0 mod 65536; num_locals = uint_val p1 mod 65536 in
       bindA s_expr_get_state (\<lambda>state.
       case ev of
         SE_EVENT_TERMINATE \<Rightarrow>
           seqA (if state = 1 then copy_return_vars_and_pop c a 3 else retA ())
             (answer (s_expr_set_state 0) SE_PIPELINE_CONTINUE)
       | SE_EVENT_INIT \<Rightarrow>
           bindA (on_inst_stack s_expr_stack_pop) (\<lambda>i. bindA (stack_deref (Some i)) (\<lambda>count_param.
           let passed_params = uint_val count_param mod 65536 in
           if passed_params \<noteq> num_params then excA ''SE_STACK_FRAME_INSTANCE: param mismatch''
           else bindA (on_inst_stack (s_expr_stack_push_frame num_params num_locals)) (\<lambda>pushed.
             if \<not> pushed then excA ''SE_STACK_FRAME_INSTANCE: failed to push frame''
             else answer (s_expr_set_state 1) SE_PIPELINE_CONTINUE)))
       | SE_EVENT_TICK \<Rightarrow> retA SE_PIPELINE_CONTINUE))))"

section \<open>A frame for every tick\<close>

fun push_scratch :: "nat \<Rightarrow> ('w, unit) iact" where
  "push_scratch 0 = retA ()"
| "push_scratch (Suc n) = seqA (on_inst_stack (s_expr_stack_push_int 0)) (push_scratch n)"

definition pop_and_return :: "s_expr_result \<Rightarrow> ('w, (nat, s_expr_result) ctl) iact" where
  "pop_and_return r = seqA (on_inst_stack s_expr_stack_pop_frame) (retA (Return r))"

definition se_frame_allocate_body :: "'w ctx \<Rightarrow> slice \<Rightarrow> nat \<Rightarrow> nat \<Rightarrow> ('w, (nat, s_expr_result) ctl) iact" where
  "se_frame_allocate_body c a k active =
     bindA (s_expr_child_is_callable c a k) (\<lambda>callable.
     if \<not> callable then retA (Next active)
     else bindA (s_expr_child_is_active c a k) (\<lambda>act.
       if \<not> act then retA (Next active)
       else bindA (child_index c a k) (\<lambda>i.
         if i = UINT16_MAX then retA (Next active)
         else bindA (s_expr_child_func_type c a k) (\<lambda>func_type.
           if func_type = S_EXPR_PARAM_ONESHOT \<or> func_type = S_EXPR_PARAM_PRED then
             bindA (s_expr_invoke_any c a i) (\<lambda>_.
             seqA (s_expr_child_terminate c a k) (retA (Next active)))
           else bindA (s_expr_invoke_any c a i) (\<lambda>r.
             if r = SE_FUNCTION_HALT then pop_and_return SE_PIPELINE_HALT
             else if below_pipeline r then pop_and_return r
             else case r of
               SE_PIPELINE_CONTINUE \<Rightarrow> retA (Next (active + 1))
             | SE_PIPELINE_HALT \<Rightarrow> pop_and_return SE_PIPELINE_CONTINUE
             | SE_PIPELINE_DISABLE \<Rightarrow> seqA (s_expr_child_terminate c a k) (retA (Next active))
             | SE_PIPELINE_TERMINATE \<Rightarrow>
                 seqA (s_expr_children_terminate_all c a) (pop_and_return SE_PIPELINE_TERMINATE)
             | SE_PIPELINE_RESET \<Rightarrow>
                 seqA (s_expr_children_terminate_all c a)
                 (seqA (s_expr_children_reset_all c a) (pop_and_return SE_PIPELINE_CONTINUE))
             | SE_PIPELINE_SKIP_CONTINUE \<Rightarrow> retA (Leave (active + 1))
             | _ \<Rightarrow> retA (Next (active + 1)))))))"

definition se_frame_allocate :: "'w ctx \<Rightarrow> ('w, s_expr_result) node_fn" where
  "se_frame_allocate c a ev event_id event_data =
     bindA (getA inst_stack) (\<lambda>z.
     if z = None \<or> s_count a < 4 then excA ''SE_FRAME_ALLOCATE: invalid parameters''
     else case ev of
       SE_EVENT_TERMINATE \<Rightarrow> answer (s_expr_children_terminate_all c a) SE_PIPELINE_CONTINUE
     | SE_EVENT_INIT \<Rightarrow> retA SE_PIPELINE_CONTINUE
     | SE_EVENT_TICK \<Rightarrow>
         bindA (child_count c a) (\<lambda>count.
         bindA (rdA c a 0) (\<lambda>p0. bindA (rdA c a 1) (\<lambda>p1. bindA (rdA c a 2) (\<lambda>p2.
         bindA (on_inst_stack (s_expr_stack_push_frame (uint_val p0 mod 65536) (uint_val p1 mod 65536))) (\<lambda>pushed.
         if \<not> pushed then excA ''SE_FRAME_ALLOCATE: stack push failed''
         else seqA (push_scratch (uint_val p2 mod 65536))
           (afterA (forA (se_frame_allocate_body c a) [3..<count] 0) (\<lambda>active.
             seqA (on_inst_stack s_expr_stack_pop_frame)
               (retA (if active = 0 then SE_PIPELINE_DISABLE else SE_PIPELINE_CONTINUE))))))))))"

text \<open>The second test of the code, for TERMINATE, is never reached.\<close>

definition se_frame_free :: "'w ctx \<Rightarrow> ('w, s_expr_result) node_fn" where
  "se_frame_free c a ev event_id event_data =
     (if ev \<noteq> SE_EVENT_INIT then retA SE_PIPELINE_CONTINUE
      else answer (on_inst_stack s_expr_stack_pop_frame) SE_PIPELINE_CONTINUE)"

section \<open>They keep the frame of the interpreter\<close>

text \<open>
  An operation of the stack that keeps its invariant and its open frames keeps the frame. Opening
  and closing a frame keep everything else: \<open>loose\<close> is the frame without the frames of the stack.
\<close>

definition loose :: "'w inst \<Rightarrow> 'w inst \<Rightarrow> bool" where
  "loose s t = (shape s t \<and> current_event_id t = current_event_id s \<and> current_event_data t = current_event_data s \<and>
     in_pointer_call t = in_pointer_call s \<and> pointer_base t = pointer_base s \<and> current_node_index t = current_node_index s)"

lemma frame_loose: "frame s t = (loose s t \<and> open_frames t = open_frames s)"
  by (auto simp: frame_def frame_node_def frame_in_def loose_def)

lemma loose_trans: "loose s t \<Longrightarrow> loose t u \<Longrightarrow> loose s u"
  by (auto simp: loose_def intro: shape_trans)

lemma loose_on_stack:
  assumes "on_inst_stack m s = Ret (x, s')"
    "\<And>z. inst_stack s = None \<Longrightarrow> m None = Ret (x, z) \<Longrightarrow> z = None"
    "\<And>st z. inst_stack s = Some st \<Longrightarrow> m (Some st) = Ret (x, z) \<Longrightarrow> \<exists>st'. z = Some st' \<and> (stk_ok st \<longrightarrow> stk_ok st')"
  shows "loose s s'"
proof -
  obtain z where z: "m (inst_stack s) = Ret (x, z)" "s' = s \<lparr> inst_stack := z \<rparr>"
    using assms(1) by (auto simp: on_inst_stack_def)
  show ?thesis
    using z assms(2)[of z] assms(3)[of _ z] by (cases "inst_stack s") (auto simp: loose_def shape_def)
qed

lemma framed_on_stack:
  assumes "\<And>st x z. stk_ok st \<Longrightarrow> m (Some st) = Ret (x, z) \<Longrightarrow> fine_op (m (Some st))"
    "\<And>x z. m None = Ret (x, z) \<Longrightarrow> z = None"
    "\<And>st x z. m (Some st) = Ret (x, z) \<Longrightarrow> \<exists>st'. z = Some st' \<and> frame_count st' = frame_count st \<and> frames st' = frames st"
  shows "keeps frame (on_inst_stack m)"
proof (rule keepsI)
  fix s x s' assume m: "on_inst_stack m s = Ret (x, s')"
  have l: "loose s s'"
  proof (rule loose_on_stack [OF m])
    fix st z assume z: "m (Some st) = Ret (x, z)"
    then obtain st' where "z = Some st'" using assms(3) by blast
    moreover have "stk_ok st \<Longrightarrow> stk_ok st'" using assms(1) [OF _ z] z calculation by simp
    ultimately show "\<exists>st'. z = Some st' \<and> (stk_ok st \<longrightarrow> stk_ok st')" by blast
  qed (use assms(2) in blast)
  obtain z where z: "m (inst_stack s) = Ret (x, z)" "s' = s \<lparr> inst_stack := z \<rparr>"
    using m by (auto simp: on_inst_stack_def)
  have "open_frames s' = open_frames s"
  proof (cases "inst_stack s")
    case None
    then show ?thesis using z assms(2) by (auto simp: open_frames_def)
  next
    case (Some st)
    then obtain st' where "z = Some st'" "frame_count st' = frame_count st" "frames st' = frames st"
      using assms(3) z(1) by metis
    then show ?thesis using Some z(2) by (simp add: open_frames_def)
  qed
  then show "frame s s'" using l by (simp add: frame_loose)
qed

lemma framed_stack_ops [framed]:
  "keeps frame (on_inst_stack s_expr_stack_pop)" "keeps frame (on_inst_stack (s_expr_stack_push_int w))"
  "keeps frame (on_inst_stack (s_expr_stack_set_local i v))" "keeps frame (on_inst_stack (s_expr_stack_poke i v))"
proof -
  show "keeps frame (on_inst_stack s_expr_stack_pop)"
    by (rule framed_on_stack, erule fine_ops) (auto simp: s_expr_stack_pop_def split: if_splits)
  show "keeps frame (on_inst_stack (s_expr_stack_push_int w))"
    by (rule framed_on_stack, erule fine_ops) (auto simp: s_expr_stack_push_int_def push_raw_def within_Ret_iff split: if_splits)
  show "keeps frame (on_inst_stack (s_expr_stack_set_local i v))"
    by (rule framed_on_stack, erule fine_ops) (auto simp: s_expr_stack_set_local_def Let_def within_Ret_iff split: if_splits)
  show "keeps frame (on_inst_stack (s_expr_stack_poke i v))"
  proof (rule framed_on_stack)
    fix st x z assume p: "stk_ok st" "s_expr_stack_poke i v (Some st) = Ret (x, z)"
    then have "frame_count st \<noteq> 0 \<or> v = None" by (auto simp: s_expr_stack_poke_def split: option.splits if_splits)
    from fine_frames(3) [OF p(1) this] show "fine_op (s_expr_stack_poke i v (Some st))" .
  qed (auto simp: s_expr_stack_poke_def Let_def within_Ret_iff split: if_splits option.splits)
qed

lemma framed_operands [framed]:
  "keeps frame (quad_read_int Q p)" "keeps frame (quad_read_float Q p)"
  "keeps frame (quad_write_int p v)" "keeps frame (quad_write_float Q p v)"
proof -
  have s: "keeps frame (stack_operand p)" unfolding stack_operand_def by (intro frame_rules framed)
  have w: "keeps frame (stack_result t p v)" for t
    unfolding stack_result_def Let_def by (intro frame_rules framed)
  show "keeps frame (quad_read_int Q p)" "keeps frame (quad_read_float Q p)"
    "keeps frame (quad_write_int p v)" "keeps frame (quad_write_float Q p v)"
    unfolding quad_read_int_def quad_read_float_def quad_write_int_def quad_write_float_def
    by (rule frame_rules framed s w)+
qed

lemma keeps_quad_op [keeps]:
  assumes "\<And>f. keeps R (m1 f)" "\<And>f. keeps R (m2 f)" "\<And>f. keeps R (m3 f)" "\<And>f. keeps R (m4 f)" "\<And>f. keeps R (m5 f)"
  shows "keeps R (case q of II_I f \<Rightarrow> m1 f | I_I f \<Rightarrow> m2 f | FF_F f \<Rightarrow> m3 f | F_F f \<Rightarrow> m4 f | FF_I f \<Rightarrow> m5 f)"
  using assms by (cases q) simp_all

lemma framed_quads [framed]:
  "keeps frame (se_quad Q c a ev i d)" "keeps frame (se_p_quad Q c a ev i d)"
  unfolding se_quad_def se_p_quad_def by (rule frame_rules keeps_quad_op framed)+

lemma framed_return_vars [framed]: "keeps frame (return_vars c a is temp)"
proof (induction "is" arbitrary: temp)
  case (Cons i "is")
  show ?case unfolding return_vars.simps by (rule frame_rules framed Cons.IH)+
qed (simp add: keeps)

lemma framed_pushes [framed]: "keeps frame (push_all vs)" "keeps frame (push_scratch n)"
  by (induction vs, simp_all only: push_all.simps, (rule frame_rules framed | assumption)+)
    (induction n, simp_all only: push_scratch.simps, (rule frame_rules framed | assumption)+)

section \<open>Opening and closing\<close>

definition pop_open :: "nat \<times> s_expr_stack_frame list \<Rightarrow> nat \<times> s_expr_stack_frame list" where
  "pop_open = (\<lambda>(n, F). (n - 1, butlast F))"

definition opens :: "'w inst \<Rightarrow> 'w inst \<Rightarrow> bool" where
  "opens s t = (loose s t \<and> map_option pop_open (open_frames t) = open_frames s)"

definition closes :: "'w inst \<Rightarrow> 'w inst \<Rightarrow> bool" where
  "closes s t = (loose s t \<and> open_frames t = map_option pop_open (open_frames s))"

lemma opens_closes: "opens s t \<Longrightarrow> frame t u \<Longrightarrow> closes u v \<Longrightarrow> frame s v"
  by (auto simp: opens_def closes_def frame_loose intro: loose_trans)

lemma frame_closes: "frame s t \<Longrightarrow> closes t u \<Longrightarrow> closes s u"
  by (auto simp: closes_def frame_loose intro: loose_trans)

lemma pop_frame_closes: "keeps closes (on_inst_stack s_expr_stack_pop_frame)"
proof (rule keepsI)
  fix s :: "'w inst" and x s' assume m: "on_inst_stack s_expr_stack_pop_frame s = Ret (x, s')"
  then obtain z where z: "s_expr_stack_pop_frame (inst_stack s) = Ret (x, z)" "s' = s \<lparr> inst_stack := z \<rparr>"
    by (auto simp: on_inst_stack_def)
  have "loose s s'"
  proof (rule loose_on_stack [OF m])
    fix st z assume z: "s_expr_stack_pop_frame (Some st) = Ret (x, z)"
    then obtain st' where "z = Some st'" by (auto simp: s_expr_stack_pop_frame_def split: if_splits)
    moreover have "stk_ok st \<Longrightarrow> stk_ok st'" using fine_frames(2) [of st] z calculation by simp
    ultimately show "\<exists>st'. z = Some st' \<and> (stk_ok st \<longrightarrow> stk_ok st')" by blast
  qed (auto simp: s_expr_stack_pop_frame_def)
  moreover have "open_frames s' = map_option pop_open (open_frames s)"
  proof (cases "inst_stack s")
    case (Some st)
    then show ?thesis using z unfolding Some
      by (auto simp: Some s_expr_stack_pop_frame_def open_frames_def pop_open_def butlast_take split: if_splits)
  qed (use z in \<open>simp add: s_expr_stack_pop_frame_def open_frames_def\<close>)
  ultimately show "closes s s'" by (simp add: closes_def)
qed

lemma zero_slots_frames [simp]: "frames (zero_slots n st) = frames st" "frame_count (zero_slots n st) = frame_count st"
  by (induction n arbitrary: st) simp_all

lemma push_frame_opens: "keeps opens (on_inst_stack (s_expr_stack_push_frame np nl))"
proof (rule keepsI)
  fix s :: "'w inst" and x s' assume m: "on_inst_stack (s_expr_stack_push_frame np nl) s = Ret (x, s')"
  then obtain z where z: "s_expr_stack_push_frame np nl (inst_stack s) = Ret (x, z)" "s' = s \<lparr> inst_stack := z \<rparr>"
    by (auto simp: on_inst_stack_def)
  have "loose s s'"
  proof (rule loose_on_stack [OF m])
    fix st z assume z: "s_expr_stack_push_frame np nl (Some st) = Ret (x, z)"
    then obtain st' where "z = Some st'" by (auto simp: s_expr_stack_push_frame_def within_Ret_iff split: if_splits)
    moreover have "stk_ok st \<Longrightarrow> stk_ok st'" using fine_frames(1) [of st np nl] z calculation by simp
    ultimately show "\<exists>st'. z = Some st' \<and> (stk_ok st \<longrightarrow> stk_ok st')" by blast
  qed (auto simp: s_expr_stack_push_frame_def)
  moreover have "map_option pop_open (open_frames s') = open_frames s"
    using z by (cases "inst_stack s")
      (auto simp: s_expr_stack_push_frame_def open_frames_def pop_open_def butlast_take Let_def within_Ret_iff split: if_splits)
  ultimately show "opens s s'" by (simp add: opens_def)
qed

text \<open>A body of the loop keeps the frame while the loop goes on, and closes it when the function returns.\<close>

definition exits :: "('w, ('a, 'r) ctl) iact \<Rightarrow> bool" where
  "exits m = (\<forall>s z t. m s = Ret (z, t) \<longrightarrow> (case z of Return r \<Rightarrow> closes s t | _ \<Rightarrow> frame s t))"

lemma exits_bind: "keeps frame m \<Longrightarrow> (\<And>x. exits (f x)) \<Longrightarrow> exits (bindA m f)"
  "keeps frame m \<Longrightarrow> exits n \<Longrightarrow> exits (seqA m n)"
  by (fastforce simp: exits_def keeps_def frame_closes split: ctl.splits intro: frame_closes preorder_trans [OF preorder_frames(4)])+

lemma exits_basic: "exits (retA (Next x))" "exits (retA (Leave x))" "exits (pop_and_return r)"
  "exits m1 \<Longrightarrow> exits m2 \<Longrightarrow> exits (if b then m1 else m2)"
  by (auto simp: exits_def frame_loose loose_def pop_and_return_def dest: keepsD [OF pop_frame_closes])

lemma exits_result:
  assumes "exits m1" "exits m2" "exits m3" "exits m4" "exits m5" "exits m6" "exits m7"
    "exits m8" "exits m9" "exits m10" "exits m11" "exits m12" "exits m13" "exits m14" "exits m15" "exits m16" "exits m17" "exits m18"
    "\<And>n. exits (f n)"
  shows "exits (case r of SE_CONTINUE \<Rightarrow> m1 | SE_HALT \<Rightarrow> m2 | SE_TERMINATE \<Rightarrow> m3 | SE_RESET \<Rightarrow> m4
    | SE_DISABLE \<Rightarrow> m5 | SE_SKIP_CONTINUE \<Rightarrow> m6 | SE_FUNCTION_CONTINUE \<Rightarrow> m7 | SE_FUNCTION_HALT \<Rightarrow> m8
    | SE_FUNCTION_TERMINATE \<Rightarrow> m9 | SE_FUNCTION_RESET \<Rightarrow> m10 | SE_FUNCTION_DISABLE \<Rightarrow> m11
    | SE_FUNCTION_SKIP_CONTINUE \<Rightarrow> m12 | SE_PIPELINE_CONTINUE \<Rightarrow> m13 | SE_PIPELINE_HALT \<Rightarrow> m14
    | SE_PIPELINE_TERMINATE \<Rightarrow> m15 | SE_PIPELINE_RESET \<Rightarrow> m16 | SE_PIPELINE_DISABLE \<Rightarrow> m17
    | SE_PIPELINE_SKIP_CONTINUE \<Rightarrow> m18 | SE_OTHER n \<Rightarrow> f n)"
  using assms by (cases r) simp_all

lemma exits_forA:
  assumes "\<And>i x. exits (body i x)"
  shows "exits (forA body is x)"
proof (induction "is" arbitrary: x)
  case (Cons i "is")
  show ?case
    unfolding exits_def
  proof (intro allI impI)
    fix s z t assume "forA body (i # is) x s = Ret (z, t)"
    then obtain y u where u: "body i x s = Ret (y, u)" "(case y of Next y \<Rightarrow> forA body is y | Leave q \<Rightarrow> retA y | Return r \<Rightarrow> retA y) u = Ret (z, t)"
      by auto
    have b: "case y of Return r \<Rightarrow> closes s u | _ \<Rightarrow> frame s u" using assms u(1) by (auto simp: exits_def)
    show "case z of Return r \<Rightarrow> closes s t | _ \<Rightarrow> frame s t"
    proof (cases y)
      case (Next y')
      with u(2) Cons.IH have "case z of Return r \<Rightarrow> closes u t | _ \<Rightarrow> frame u t" by (auto simp: exits_def)
      then show ?thesis using b Next
        by (cases z) (auto intro: frame_closes preorder_trans [OF preorder_frames(4)])
    qed (use b u(2) in auto)
  qed
qed (simp add: exits_basic)

lemma keeps_opened:
  assumes "exits m" "\<And>x. keeps closes (f x)"
  shows "keeps closes (afterA m f)"
proof (rule keepsI)
  fix s x t assume "afterA m f s = Ret (x, t)"
  then obtain z u where u: "m s = Ret (z, u)" "(case z of Next x \<Rightarrow> f x | Leave x \<Rightarrow> f x | Return r \<Rightarrow> retA r) u = Ret (x, t)"
    by (auto simp: afterA_def)
  have "case z of Return r \<Rightarrow> closes s u | _ \<Rightarrow> frame s u" using assms(1) u(1) by (auto simp: exits_def)
  then show "closes s t"
    using u(2) by (cases z) (auto intro: frame_closes dest: keepsD [OF assms(2)])
qed

lemma keeps_closes_seq: "keeps frame m \<Longrightarrow> keeps closes n \<Longrightarrow> keeps closes (seqA m n)"
  by (auto simp: keeps_def) (blast intro: frame_closes)

lemma keeps_open_close: "keeps opens m \<Longrightarrow> (\<And>x. keeps closes (f x)) \<Longrightarrow> keeps frame (bindA m f)"
  unfolding keeps_def bindA_app res_bind_Ret_iff
  by (clarsimp) (blast intro: opens_closes preorder_refl [OF preorder_frames(4)])

context framed_ctx
begin

lemma allocate_body_exits: "exits (se_frame_allocate_body c a k n)"
  unfolding se_frame_allocate_body_def
  by (rule exits_bind exits_basic exits_result framed)+

lemma allocate_framed: "keeps frame (se_frame_allocate c a ev i d)"
proof -
  have r: "keeps closes (seqA (on_inst_stack s_expr_stack_pop_frame) (retA x))" for x :: s_expr_result
    using pop_frame_closes by (auto simp: keeps_def)
  have t: "keeps closes (if \<not> pushed then excA msg else seqA (push_scratch n)
        (afterA (forA (se_frame_allocate_body c a) [3..<count] 0) (\<lambda>active.
          seqA (on_inst_stack s_expr_stack_pop_frame) (retA (if active = 0 then SE_PIPELINE_DISABLE else SE_PIPELINE_CONTINUE)))))"
    for pushed msg n count
    by (rule keeps_if keeps_closes_seq keeps_opened exits_forA allocate_body_exits framed r | simp add: keeps_def)+
  show ?thesis
    unfolding se_frame_allocate_def answer_def
    by (rule keeps_open_close [OF push_frame_opens t] frame_rules framed)+
qed

end

section \<open>The whole tables\<close>

text \<open>
  The builtin tables with the dictionaries, the instructions and the frame composite. \<open>se_stack_frame_instance\<close> and
  \<open>se_frame_free\<close>, which open and close a frame in different calls, are treated below.
\<close>

definition full_env :: "qenv \<Rightarrow> denv \<Rightarrow> s_expr_param list \<Rightarrow> 'w env" where
  "full_env Q D P = \<lparr> env_params = P,
     env_main = map Some (builtin_main_entries @ dict_main_entries D @ [se_frame_allocate]),
     env_pred = map Some (builtin_pred_entries @ [se_p_quad Q]),
     env_oneshot = map Some (builtin_oneshot_entries @ dict_oneshot_entries D @ [se_quad Q]) \<rparr>"

lemma framed_full_env: "framed_env (full_env Q D P)"
proof -
  have "framed_entry se_frame_allocate" "framed_entry (se_p_quad Q)" "framed_entry (se_quad Q)" for Q
    by (simp_all add: framed_entry_def framed_ctx.allocate_framed framed_quads)
  then show ?thesis
    by (auto simp: framed_env_def full_env_def framed_builtin_main framed_builtin_pred framed_builtin_oneshot framed_dict_entries)
qed

interpretation full: framed_ctx "mk_ctx (full_env Q D P) n" for Q D P n
  by (rule framed_mk_ctx [OF framed_full_env])

section \<open>No frame outlives a tick\<close>

definition same_open :: "'w inst \<Rightarrow> 'w inst \<Rightarrow> bool" where
  "same_open s t = (open_frames t = open_frames s)"

definition clears :: "'w inst \<Rightarrow> 'w inst \<Rightarrow> bool" where
  "clears s t = (open_frames t = map_option (\<lambda>_. (0, [])) (open_frames s))"

lemma preorder_same_open [simp]: "preorder_rel same_open"
  by (intro preorder_relI) (simp_all add: same_open_def)

lemma same_open_frame: "keeps frame m \<Longrightarrow> keeps same_open m"
  by (erule keeps_mono) (simp add: frame_loose same_open_def)

lemma clears_after: "keeps frame m \<Longrightarrow> keeps clears n \<Longrightarrow> keeps clears (seqA m n)"
  by (fastforce simp: keeps_def frame_loose clears_def)

lemma clears_reset:
  assumes "keeps same_open rest"
  shows "keeps clears (bindA (getA inst_stack) (\<lambda>z. seqA (if z \<noteq> None then on_inst_stack s_expr_tree_reset_stack else retA ()) rest))"
proof (rule keepsI)
  fix s x t
  assume r: "bindA (getA inst_stack) (\<lambda>z. seqA (if z \<noteq> None then on_inst_stack s_expr_tree_reset_stack else retA ()) rest) s = Ret (x, t)"
  show "clears s t"
  proof (cases "inst_stack s")
    case None
    then have "rest s = Ret (x, t)" using r by simp
    then show ?thesis using keepsD [OF assms] None by (auto simp: same_open_def clears_def open_frames_def)
  next
    case (Some st)
    then have "rest (s \<lparr> inst_stack := Some (st \<lparr> sp := 0, frame_count := 0 \<rparr>) \<rparr>) = Ret (x, t)"
      using r by (simp add: on_inst_stack_def s_expr_tree_reset_stack_def)
    from keepsD [OF assms this] show ?thesis using Some by (auto simp: same_open_def clears_def open_frames_def)
  qed
qed

text \<open>
  C18. No frame outlives a tick. A tick of a tree over the builtin functions, the three-address
  instructions, the frame composite and user functions that leave the frames as they found them ends
  with no frame open, whatever was open before: the tick clears the stack first, and the composite closes the
  frame it opens on every way out.
\<close>

theorem tick_closes_frames:
  assumes "framed_env e" "keeps frame wdt" "s_expr_node_tick (mk_ctx e n) wdt i d s = Ret (r, s')" "inst_stack s = Some st"
  shows "\<exists>st'. inst_stack s' = Some st' \<and> frame_count st' = 0"
proof -
  have c: "framed_ctx (mk_ctx e n)" by (rule framed_mk_ctx [OF assms(1)])
  have e: "keeps same_open (set_event_context k)" for k by (auto simp: keeps_def set_event_context_def same_open_def)
  have "keeps clears (s_expr_node_tick (mk_ctx e n) wdt i d)"
    unfolding s_expr_node_tick_def
    by (rule clears_after [OF assms(2)] clears_reset preorder_same_open keeps e
        same_open_frame [OF framed_ctx.invoke_framed(1) [OF c]] same_open_frame [OF framed_reads(1)])+
  from keepsD [OF this assms(3)] assms(4) show ?thesis by (auto simp: clears_def open_frames_def)
qed

text \<open>A tick of the tree of \<open>demo_env\<close> on a stack with a frame left open.\<close>

definition demo_frame_inst :: "nat inst" where
  "demo_frame_inst = (fresh_inst 1 0) \<lparr> inst_stack := Some (demo_stack \<lparr> frame_count := 1 \<rparr>) \<rparr>"

theorem tick_closes_frames_witness:
  "\<exists>s' st'. s_expr_node_tick (mk_ctx demo_env 1) (retA ()) 4 0 demo_frame_inst = Ret (SE_PIPELINE_HALT, s') \<and>
     inst_stack s' = Some st' \<and> frame_count st' = 0"
proof -
  have e: "framed_env demo_env"
    by (auto simp: framed_env_def demo_env_def framed_return_codes)
  have t: "\<exists>s'. s_expr_node_tick (mk_ctx demo_env 1) (retA ()) 4 0 demo_frame_inst = Ret (SE_PIPELINE_HALT, s')"
    by (simp add: s_expr_node_tick_def demo_env_def call_of_def flats_def fresh_inst_def demo_frame_inst_def rdA_def rd_def
        tree_slice_def node_count_def ns_fresh_def is_active_def s_expr_invoke_main_def on_inst_stack_def
        s_expr_tree_reset_stack_def s_expr_call_args_def dispatch_main_def get_node_state_def is_initialized_def u16_def
        enter_node_def set_event_context_def upd_node_def node_context_of_def restore_node_context_def
        se_return_pipeline_halt_def)
  have "inst_stack demo_frame_inst = Some (demo_stack \<lparr> frame_count := 1 \<rparr>)" by (simp add: demo_frame_inst_def)
  from t tick_closes_frames [OF e keeps_retA _ this] show ?thesis by (meson preorder_frames(4))
qed

section \<open>A call through a frame\<close>

lemma push_all_spec:
  assumes "inst_stack s = Some st" "stk_ok st" "sp st + length vs \<le> capacity st"
  shows "\<exists>st'. push_all vs s = Ret ((), s \<lparr> inst_stack := Some st' \<rparr>) \<and> stk_ok st' \<and> stk_elems st' = stk_elems st @ vs \<and>
    frame_count st' = frame_count st \<and> frames st' = frames st"
  using assms
proof (induction vs arbitrary: s st)
  case (Cons v vs)
  have lt: "sp st < capacity st" using Cons.prems(3) by simp
  let ?st = "st \<lparr> stk_data := (stk_data st)[sp st := v], sp := Suc (sp st) \<rparr>"
  let ?s = "s \<lparr> inst_stack := Some ?st \<rparr>"
  have p: "on_inst_stack (s_expr_stack_push (Some v)) s = Ret (True, ?s)"
    using Cons.prems(1) by (simp add: on_inst_stack_def s_expr_stack_push_def push_raw_spec(1) [OF Cons.prems(2) lt])
  obtain st' where st': "push_all vs ?s = Ret ((), ?s \<lparr> inst_stack := Some st' \<rparr>)" "stk_ok st'" "stk_elems st' = stk_elems ?st @ vs"
    "frame_count st' = frame_count ?st" "frames st' = frames ?st"
    using Cons.IH [of ?s ?st] push_raw_spec(2) [OF Cons.prems(2) lt] Cons.prems(3) by auto
  have "push_all (v # vs) s = Ret ((), s \<lparr> inst_stack := Some st' \<rparr>)" using p st'(1) by simp
  then show ?case using st'(2-) push_raw_spec(3) [OF Cons.prems(2) lt, of v] by (intro exI [of _ st'] conjI) simp_all
qed (auto intro!: exI)

text \<open>The entries of a return list at the indices \<open>is\<close> name the locals \<open>ks\<close>.\<close>

definition names_local :: "'w ctx \<Rightarrow> slice \<Rightarrow> nat \<Rightarrow> nat \<Rightarrow> bool" where
  "names_local c a i k = (\<exists>p. rd (tree_params c) a i = Ret p \<and> (opcode p = S_EXPR_PARAM_UINT \<or> opcode p = S_EXPR_PARAM_INT) \<and>
     uint_val p mod 65536 = k)"

lemma return_vars_spec:
  assumes "inst_stack s = Some st" "frame_count st \<noteq> 0" "frame_count st \<le> length (frames st)"
    "frames st ! (frame_count st - 1) = \<lparr> base_ptr = b, num_params = np, num_locals = nl, scratch_base = sb \<rparr>"
    "b + np + nl \<le> length (stk_data st)" "list_all2 (names_local c a) is ks" "\<forall>k \<in> set ks. k < np + nl" "length temp + length ks \<le> 16"
  shows "return_vars c a is temp s = Ret (temp @ map (\<lambda>k. stk_data st ! (b + k)) ks, s)"
  using assms(6-8)
proof (induction "is" ks arbitrary: temp rule: list_all2_induct)
  case (Cons i "is" k ks)
  then obtain p where p: "rd (tree_params c) a i = Ret p" "opcode p = S_EXPR_PARAM_UINT \<or> opcode p = S_EXPR_PARAM_INT" "uint_val p mod 65536 = k"
    by (auto simp: names_local_def)
  have k: "k < np + nl" "b + k < length (stk_data st)" using Cons.prems(1) assms(5) by auto
  have l: "s_expr_stack_get_local (Some st) k = Ret (Some (b + k))"
    using assms(2-4) k(1) by (simp add: s_expr_stack_get_local_def)
  have t: "\<not> length temp \<ge> 16" using Cons.prems(2) by simp
  have "return_vars c a (i # is) temp s = return_vars c a is (temp @ [stk_data st ! (b + k)]) s"
    using p k(2) l assms(1) t by (simp add: rdA_def stack_deref_def)
  also have "\<dots> = Ret ((temp @ [stk_data st ! (b + k)]) @ map (\<lambda>k. stk_data st ! (b + k)) ks, s)"
    using Cons.prems by (intro Cons.IH) auto
  finally show ?case by simp
qed simp

text \<open>A frame instance with its parameters: \<open>np\<close> arguments, \<open>nl\<close> locals, the return list at index 3.\<close>

definition frame_params :: "'w ctx \<Rightarrow> slice \<Rightarrow> nat \<Rightarrow> nat \<Rightarrow> nat list \<Rightarrow> bool" where
  "frame_params c a np nl ks = (4 \<le> s_count a \<and>
     (\<exists>p0 p1 p3. rd (tree_params c) a 0 = Ret p0 \<and> uint_val p0 mod 65536 = np \<and> rd (tree_params c) a 1 = Ret p1 \<and> uint_val p1 mod 65536 = nl \<and>
       rd (tree_params c) a 3 = Ret p3 \<and> opcode p3 = S_EXPR_PARAM_OPEN \<and> list_all2 (names_local c a) [4..<3 + brace_idx p3] ks))"

definition call_frame :: "nat \<Rightarrow> nat \<Rightarrow> nat \<Rightarrow> s_expr_stack_frame" where
  "call_frame b np nl = \<lparr> base_ptr = b, num_params = np, num_locals = nl, scratch_base = b + np + nl \<rparr>"

lemma set_state_spec:
  "\<exists>t. s_expr_set_state v s = Ret ((), t) \<and> inst_stack t = inst_stack s \<and>
     (current_node_index s < node_count s \<longrightarrow> s_expr_get_state t = Ret (v mod 256, t))"
  by (auto simp: s_expr_set_state_def upd_cur_def s_expr_get_state_def cur_node_def node_count_def unat_of_nat)

lemma frame_enter:
  assumes "frame_params c a np nl ks" "inst_stack s = Some st" "stk_ok st" "stk_elems st = xs @ args @ [cnt]" "length args = np"
    "uint_val cnt mod 65536 = np" "frame_count st < S_EXPR_MAX_FRAMES" "length xs + np + nl \<le> capacity st"
  shows "\<exists>s1 st1. se_stack_frame_instance c a SE_EVENT_INIT e d s = Ret (SE_PIPELINE_CONTINUE, s1) \<and> inst_stack s1 = Some st1 \<and>
    stk_ok st1 \<and> stk_elems st1 = xs @ args @ replicate nl zero_param \<and> frame_count st1 = Suc (frame_count st) \<and>
    frames st1 ! frame_count st = call_frame (length xs) np nl \<and>
    (current_node_index s < node_count s \<longrightarrow> s_expr_get_state s1 = Ret (1, s1))"
proof -
  have sp: "sp st = length xs + np + 1" using length_stk_elems [OF assms(3)] assms(4,5) by simp
  have cnt: "stk_data st ! (sp st - 1) = cnt" using stk_elems_nth [of "sp st - 1" st] assms(4,5) sp by (simp add: nth_append)
  have d: "sp st - 1 < length (stk_data st)" using stk_okD [OF assms(3)] sp by simp
  let ?st0 = "st \<lparr> sp := sp st - 1 \<rparr>" and ?s0 = "s \<lparr> inst_stack := Some (st \<lparr> sp := sp st - 1 \<rparr>) \<rparr>"
  have ok0: "stk_ok ?st0" using assms(3) stk_okD(3) [OF assms(3)] by (intro stk_ok_sp) auto
  have e0: "stk_elems ?st0 = xs @ args" using assms(4,5) sp by (simp add: stk_elems_sp)
  have pop: "on_inst_stack s_expr_stack_pop s = Ret (sp st - 1, ?s0)"
    using assms(2) sp by (simp add: on_inst_stack_def s_expr_stack_pop_def)
  obtain st1 where st1: "s_expr_stack_push_frame np nl (Some ?st0) = Ret (True, Some st1)" "stk_ok st1"
    "frame_count st1 = Suc (frame_count st)" "frames st1 ! frame_count st = call_frame (length xs) np nl"
    "stk_elems st1 = xs @ args @ replicate nl zero_param"
    using push_frame_spec [OF ok0, of nl np] assms(7,8) sp e0 by (auto simp: call_frame_def)
  let ?s1 = "s \<lparr> inst_stack := Some st1 \<rparr>"
  have push: "on_inst_stack (s_expr_stack_push_frame np nl) ?s0 = Ret (True, ?s1)"
    using st1(1) by (simp add: on_inst_stack_def)
  obtain t where t: "s_expr_set_state 1 ?s1 = Ret ((), t)" "inst_stack t = Some st1"
    "current_node_index s < node_count s \<longrightarrow> s_expr_get_state t = Ret (1, t)"
    using set_state_spec [of 1 ?s1] by (auto simp: node_count_def)
  obtain p0 p1 where p: "rd (tree_params c) a 0 = Ret p0" "uint_val p0 mod 65536 = np" "rd (tree_params c) a 1 = Ret p1"
    "uint_val p1 mod 65536 = nl" "\<not> s_count a < 4"
    using assms(1) by (auto simp: frame_params_def)
  have g: "\<exists>v. s_expr_get_state s = Ret (v, s)" by (simp add: s_expr_get_state_def)
  then obtain v where g: "s_expr_get_state s = Ret (v, s)" by blast
  have "se_stack_frame_instance c a SE_EVENT_INIT e d s = Ret (SE_PIPELINE_CONTINUE, t)"
    using assms(2,6) cnt d p g pop push t(1)
    by (simp add: se_stack_frame_instance_def rdA_def p(3) [unfolded One_nat_def] stack_deref_def answer_def)
  then show ?thesis using t st1 by blast
qed

lemma frame_leave:
  assumes "frame_params c a np nl ks" "inst_stack s = Some st" "stk_ok st" "frame_count st = Suc n" "frames st ! n = call_frame b np nl"
    "s_expr_get_state s = Ret (1, s)" "length ks \<le> 16" "\<forall>k \<in> set ks. k < np + nl" "b + length ks \<le> capacity st"
  shows "\<exists>s1 st1. se_stack_frame_instance c a SE_EVENT_TERMINATE e d s = Ret (SE_PIPELINE_CONTINUE, s1) \<and> inst_stack s1 = Some st1 \<and>
    stk_ok st1 \<and> stk_elems st1 = take b (stk_data st) @ map (\<lambda>k. stk_data st ! (b + k)) ks \<and> frame_count st1 = n"
proof -
  have fr: "b + np + nl \<le> capacity st" using frame_ok_top [OF assms(3)] assms(4,5) by (simp add: frame_ok_def call_frame_def)
  have len: "length (stk_data st) = capacity st" "frame_count st \<le> length (frames st)" using assms(3) by (simp_all add: stk_ok_def)
  obtain p0 p1 p3 where p: "rd (tree_params c) a 0 = Ret p0" "rd (tree_params c) a 1 = Ret p1" "\<not> s_count a < 4"
    "rd (tree_params c) a 3 = Ret p3" "opcode p3 = S_EXPR_PARAM_OPEN" "list_all2 (names_local c a) [4..<3 + brace_idx p3] ks"
    using assms(1) by (auto simp: frame_params_def)
  let ?vs = "map (\<lambda>k. stk_data st ! (b + k)) ks"
  have rv: "return_vars c a [4..<3 + brace_idx p3] [] s = Ret (?vs, s)"
    using return_vars_spec [OF assms(2) _ len(2) _ _ p(6) assms(8), of b "b + np + nl" "[]"] assms(4,5,7) fr len(1)
    by (simp add: call_frame_def)
  let ?st0 = "st \<lparr> frame_count := n, sp := b \<rparr>" and ?s0 = "s \<lparr> inst_stack := Some (st \<lparr> frame_count := n, sp := b \<rparr>) \<rparr>"
  have popf: "s_expr_stack_pop_frame (Some st) = Ret ((), Some ?st0)"
    using assms(4,5) len(2) by (simp add: s_expr_stack_pop_frame_def call_frame_def)
  then have pop: "on_inst_stack s_expr_stack_pop_frame s = Ret ((), ?s0)" using assms(2) by (simp add: on_inst_stack_def)
  have ok0: "stk_ok ?st0" using fine_frames(2) [OF assms(3)] popf by simp
  obtain st1 where st1: "push_all ?vs ?s0 = Ret ((), s \<lparr> inst_stack := Some st1 \<rparr>)" "stk_ok st1"
    "stk_elems st1 = take b (stk_data st) @ ?vs" "frame_count st1 = n"
    using push_all_spec [of ?s0 ?st0 ?vs] ok0 assms(9) by (auto simp: stk_elems_def)
  obtain t where t: "s_expr_set_state 0 (s \<lparr> inst_stack := Some st1 \<rparr>) = Ret ((), t)" "inst_stack t = Some st1"
    using set_state_spec [of 0 "s \<lparr> inst_stack := Some st1 \<rparr>"] by auto
  have "copy_return_vars_and_pop c a 3 s = Ret ((), s \<lparr> inst_stack := Some st1 \<rparr>)"
    using assms(2) p(4,5) rv pop st1(1) by (simp add: copy_return_vars_and_pop_def rdA_def)
  then have "se_stack_frame_instance c a SE_EVENT_TERMINATE e d s = Ret (SE_PIPELINE_CONTINUE, t)"
    using assms(2,6) p(1-3) t(1)
    by (simp add: se_stack_frame_instance_def rdA_def p(2) [unfolded One_nat_def] answer_def)
  then show ?thesis using t(2) st1 by blast
qed

text \<open>
  C17. A call through a frame. INIT takes the arguments and their number from the stack and opens a frame with
  zeroed locals above the arguments. Whatever the body does meanwhile, as long as it leaves the open frames,
  the node and what lies below the arguments as they are, TERMINATE leaves exactly what was below the
  arguments and above it the values the named locals then have, in the order of the list.
\<close>

theorem frame_call:
  assumes "frame_params c a np nl ks" "inst_stack s = Some st" "stk_ok st" "stk_elems st = xs @ args @ [cnt]" "length args = np"
    "uint_val cnt mod 65536 = np" "frame_count st < S_EXPR_MAX_FRAMES" "length xs + np + nl \<le> capacity st"
    "length ks \<le> 16" "\<forall>k \<in> set ks. k < np + nl"
  shows "\<exists>s1 st1. se_stack_frame_instance c a SE_EVENT_INIT e d s = Ret (SE_PIPELINE_CONTINUE, s1) \<and> inst_stack s1 = Some st1 \<and>
    stk_elems st1 = xs @ args @ replicate nl zero_param \<and>
    (\<forall>s2 st2. frame s1 s2 \<and> s_expr_get_state s2 = Ret (1, s2) \<and> inst_stack s2 = Some st2 \<and> take (length xs) (stk_data st2) = xs \<and>
        length xs + length ks \<le> capacity st2 \<longrightarrow>
      (\<exists>s3 st3. se_stack_frame_instance c a SE_EVENT_TERMINATE e d s2 = Ret (SE_PIPELINE_CONTINUE, s3) \<and> inst_stack s3 = Some st3 \<and>
        stk_elems st3 = xs @ map (\<lambda>k. stk_data st2 ! (length xs + k)) ks \<and> frame_count st3 = frame_count st))"
proof -
  obtain s1 st1 where i: "se_stack_frame_instance c a SE_EVENT_INIT e d s = Ret (SE_PIPELINE_CONTINUE, s1)" "inst_stack s1 = Some st1"
    "stk_ok st1" "stk_elems st1 = xs @ args @ replicate nl zero_param" "frame_count st1 = Suc (frame_count st)"
    "frames st1 ! frame_count st = call_frame (length xs) np nl"
    using frame_enter [OF assms(1-8), of e d] by blast
  have "\<exists>s3 st3. se_stack_frame_instance c a SE_EVENT_TERMINATE e d s2 = Ret (SE_PIPELINE_CONTINUE, s3) \<and> inst_stack s3 = Some st3 \<and>
        stk_elems st3 = xs @ map (\<lambda>k. stk_data st2 ! (length xs + k)) ks \<and> frame_count st3 = frame_count st"
    if h: "frame s1 s2" "s_expr_get_state s2 = Ret (1, s2)" "inst_stack s2 = Some st2" "take (length xs) (stk_data st2) = xs"
      "length xs + length ks \<le> capacity st2" for s2 st2
  proof -
    have "shape s1 s2" "open_frames s2 = open_frames s1" using h(1) by (simp_all add: frame_loose loose_def)
    then have o2: "stk_ok st2" "frame_count st2 = Suc (frame_count st)"
      "take (Suc (frame_count st)) (frames st2) = take (Suc (frame_count st)) (frames st1)"
      using i(2,3,5) h(3) by (auto simp: shape_def open_frames_def)
    have "frames st2 ! frame_count st = call_frame (length xs) np nl"
      using i(6) arg_cong [OF o2(3), of "\<lambda>l. l ! frame_count st"] by simp
    from frame_leave [OF assms(1) h(3) o2(1,2) this h(2) assms(9,10) h(5), of e d] h(4) show ?thesis by auto
  qed
  then show ?thesis using i by blast
qed

text \<open>A call with one argument and one local, whose local is returned.\<close>

definition demo_call_ctx :: "unit ctx" where
  "demo_call_ctx = \<lparr> tree_params = [mkp S_EXPR_PARAM_UINT 1 0, mkp S_EXPR_PARAM_UINT 1 0, mkp S_EXPR_PARAM_UINT 0 0,
     mkp S_EXPR_PARAM_OPEN 2 0, mkp S_EXPR_PARAM_INT 1 0, mkp S_EXPR_PARAM_CLOSE 2 0], main_fns = [], pred_fns = [], oneshot_fns = [] \<rparr>"

definition demo_call_slice :: slice where
  "demo_call_slice = \<lparr> s_base = Some 0, s_count = 6 \<rparr>"

definition demo_call_stack :: s_expr_stack where
  "demo_call_stack = \<lparr> stk_data = [mkp S_EXPR_PARAM_INT 20 0, mkp S_EXPR_PARAM_INT 5 0, mkp S_EXPR_PARAM_UINT 1 0, zero_param],
     capacity = 4, sp = 3, frames = replicate 16 zero_frame, frame_count = 0 \<rparr>"

definition demo_call_inst :: "unit inst" where
  "demo_call_inst = (fresh_inst 1 ()) \<lparr> inst_stack := Some demo_call_stack \<rparr>"

lemma demo_call:
  "frame_params demo_call_ctx demo_call_slice 1 1 [1]" "inst_stack demo_call_inst = Some demo_call_stack" "stk_ok demo_call_stack"
  "stk_elems demo_call_stack = [mkp S_EXPR_PARAM_INT 20 0] @ [mkp S_EXPR_PARAM_INT 5 0] @ [mkp S_EXPR_PARAM_UINT 1 0]"
  "frame_count demo_call_stack < S_EXPR_MAX_FRAMES" "capacity demo_call_stack = 4"
proof -
  have u: "[4..<5 :: nat] = [4]" by (simp add: upt_rec)
  show "frame_params demo_call_ctx demo_call_slice 1 1 [1]"
    by (simp add: frame_params_def demo_call_ctx_def demo_call_slice_def rd_def names_local_def u)
qed (simp_all add: demo_call_inst_def demo_call_stack_def stk_ok_def stk_elems_def)

theorem frame_call_witness:
  "\<exists>s1 st1. se_stack_frame_instance demo_call_ctx demo_call_slice SE_EVENT_INIT 0 0 demo_call_inst = Ret (SE_PIPELINE_CONTINUE, s1) \<and>
     inst_stack s1 = Some st1 \<and> stk_elems st1 = [mkp S_EXPR_PARAM_INT 20 0, mkp S_EXPR_PARAM_INT 5 0, zero_param]"
proof -
  have c: "length [mkp S_EXPR_PARAM_INT 5 0] = 1" "uint_val (mkp S_EXPR_PARAM_UINT 1 0) mod 65536 = 1"
    "length [mkp S_EXPR_PARAM_INT 20 0] + 1 + 1 \<le> capacity demo_call_stack" "length [1 :: nat] \<le> 16" "\<forall>k \<in> set [1 :: nat]. k < 1 + 1"
    by (simp_all add: demo_call(6))
  from frame_call [OF demo_call(1-4) c(1,2) demo_call(5) c(3-5), of 0 0] show ?thesis by auto
qed

section \<open>A call that spans a tick\<close>

lemma return_vars_frameless:
  assumes "inst_stack s = Some st" "frame_count st = 0" "list_all2 (names_local c a) is ks" "length temp < 16"
  shows "return_vars c a is temp s = Ret (temp, s)"
  using assms(3)
proof (induction "is" ks rule: list_all2_induct)
  case (Cons i "is" k ks)
  then obtain p where "rd (tree_params c) a i = Ret p" "opcode p = S_EXPR_PARAM_UINT \<or> opcode p = S_EXPR_PARAM_INT"
    by (auto simp: names_local_def)
  then show ?case using Cons assms(1,2,4) by (simp add: rdA_def s_expr_stack_get_local_def)
qed simp

text \<open>
  C38. A call that is still running when the next tick starts loses its results. The tick clears the stack, so that
  TERMINATE finds no frame: it answers as ever and leaves an empty stack, without the values of the return list.
\<close>

theorem call_lost_by_tick:
  assumes "frame_params c a np nl ks" "inst_stack s = Some st" "s_expr_get_state s = Ret (1, s)"
  shows "\<exists>s2 s3 st3. on_inst_stack s_expr_tree_reset_stack s = Ret ((), s2) \<and>
    se_stack_frame_instance c a SE_EVENT_TERMINATE e d s2 = Ret (SE_PIPELINE_CONTINUE, s3) \<and> inst_stack s3 = Some st3 \<and> stk_elems st3 = []"
proof -
  let ?st = "st \<lparr> sp := 0, frame_count := 0 \<rparr>" and ?s = "s \<lparr> inst_stack := Some (st \<lparr> sp := 0, frame_count := 0 \<rparr>) \<rparr>"
  have r: "on_inst_stack s_expr_tree_reset_stack s = Ret ((), ?s)"
    using assms(2) by (simp add: on_inst_stack_def s_expr_tree_reset_stack_def)
  obtain p0 p1 p3 where p: "rd (tree_params c) a 0 = Ret p0" "rd (tree_params c) a 1 = Ret p1" "\<not> s_count a < 4"
    "rd (tree_params c) a 3 = Ret p3" "opcode p3 = S_EXPR_PARAM_OPEN" "list_all2 (names_local c a) [4..<3 + brace_idx p3] ks"
    using assms(1) by (auto simp: frame_params_def)
  have g: "s_expr_get_state ?s = Ret (1, ?s)" using assms(3) by (auto simp: s_expr_get_state_def cur_node_def node_count_def split: if_splits)
  have v: "return_vars c a [4..<3 + brace_idx p3] [] ?s = Ret ([], ?s)"
    by (rule return_vars_frameless [where st = ?st, OF _ _ p(6)]) simp_all
  have "copy_return_vars_and_pop c a 3 ?s = Ret ((), ?s)"
    using p(4,5) v by (simp add: copy_return_vars_and_pop_def rdA_def on_inst_stack_def s_expr_stack_pop_frame_def)
  moreover obtain t where t: "s_expr_set_state 0 ?s = Ret ((), t)" "inst_stack t = Some ?st"
    using set_state_spec [of 0 ?s] by auto
  ultimately have "se_stack_frame_instance c a SE_EVENT_TERMINATE e d ?s = Ret (SE_PIPELINE_CONTINUE, t)"
    using p(1-3) g by (simp add: se_stack_frame_instance_def rdA_def p(2) [unfolded One_nat_def] answer_def)
  then show ?thesis using r t(2) by (intro exI conjI) (assumption | simp add: stk_elems_def)+
qed

theorem call_lost_by_tick_witness:
  "\<exists>s st3. s_expr_get_state s = Ret (1, s) \<and>
    (\<exists>s2 s3. on_inst_stack s_expr_tree_reset_stack s = Ret ((), s2) \<and>
      se_stack_frame_instance demo_call_ctx demo_call_slice SE_EVENT_TERMINATE 0 0 s2 = Ret (SE_PIPELINE_CONTINUE, s3) \<and>
      inst_stack s3 = Some st3 \<and> stk_elems st3 = [])"
proof -
  obtain t :: "unit inst" where "inst_stack t = Some demo_call_stack" "s_expr_get_state t = Ret (1, t)"
    using set_state_spec [of 1 demo_call_inst] demo_call(2)
    by (auto simp: demo_call_inst_def fresh_inst_def node_count_def)
  from call_lost_by_tick [OF demo_call(1) this, of 0 0] this(2) show ?thesis by blast
qed

end
