(* ===== verification/SE_DictHash.thy ===== *)
theory SE_DictHash
  imports SE_Dict
begin

text \<open>
  The hashes of array indices: the stored ones are those the loop computes, and the indices to 256
  have different hashes, so that the search for an index finds the one that was meant. The hashes
  are computed on integers; \<open>hash_int\<close> is the hash of an index below 1000.
\<close>

definition fnv_int :: "int \<Rightarrow> int \<Rightarrow> int" where
  "fnv_int h c = (h XOR c) * 0x01000193 mod 0x100000000"

definition digits_int :: "int \<Rightarrow> int list" where
  "digits_int k = (if k < 10 then [48 + k] else if k < 100 then [48 + k div 10, 48 + k mod 10]
     else [48 + k div 100, 48 + k div 10 mod 10, 48 + k mod 10])"

definition hash_int :: "int \<Rightarrow> int" where
  "hash_int k = foldl fnv_int 0x811C9DC5 (digits_int k)"

fun quick_distinct :: "int list \<Rightarrow> bool" where
  "quick_distinct [] = True"
| "quick_distinct (x # xs) = (list_all (\<lambda>y. y \<noteq> x) xs \<and>
     quick_distinct (filter (\<lambda>y. y < x) xs) \<and> quick_distinct (filter (\<lambda>y. x < y) xs))"

lemma distinct_sides:
  "x \<notin> set xs \<Longrightarrow> distinct (filter (\<lambda>y. y < x) xs) \<Longrightarrow> distinct (filter (\<lambda>y. (x :: int) < y) xs) \<Longrightarrow> distinct xs"
  by (induction xs) (auto split: if_splits)

lemma quick_distinct: "quick_distinct xs \<Longrightarrow> distinct xs"
proof (induction xs rule: quick_distinct.induct)
  case (2 x xs)
  then have "x \<notin> set xs" by (auto simp: list_all_iff)
  with 2 show ?case by (auto intro: distinct_sides)
qed simp

lemma hashes_quick: "quick_distinct (map hash_int [0..256])" by code_simp

lemma hashes_distinct: "distinct (map hash_int [0..256])" by (rule quick_distinct [OF hashes_quick])

lemma uint_fnv_step: "uint (fnv_step h c) = fnv_int (uint h) (uint c)"
  by (simp add: fnv_step_def fnv_int_def uint_word_ariths unsigned_xor_eq uint_up_ucast is_up)

lemma uint_fnv: "uint (foldl fnv_step h cs) = foldl fnv_int (uint h) (map uint cs)"
  by (induction cs arbitrary: h) (simp_all add: uint_fnv_step)

lemma index_table: "map (\<lambda>k. foldl fnv_step FNV_OFFSET (rev (index_digits 7 k))) [0..<16] = index_hash_table"
  by code_simp

lemma index_hash_computed: "se_dicth_index_hash k = foldl fnv_step FNV_OFFSET (rev (index_digits 7 k))"
proof (cases "k < 16")
  case True
  then have "index_hash_table ! k = foldl fnv_step FNV_OFFSET (rev (index_digits 7 k))"
    by (simp add: index_table [symmetric])
  with True show ?thesis by (simp add: se_dicth_index_hash_def)
qed (simp add: se_dicth_index_hash_def)

lemma digits_1: "n < 10 \<Longrightarrow> index_digits (Suc r) n = [of_nat (48 + n)]"
  by simp

lemma digits_more: "10 \<le> n \<Longrightarrow> index_digits (Suc r) n = of_nat (48 + n mod 10) # index_digits r (n div 10)"
  by (simp add: div_greater_zero_iff)

lemma uint_digit: "d < 10 \<Longrightarrow> uint (of_nat (48 + d) :: 8 word) = 48 + int d"
  by (simp add: uint_nat unat_of_nat take_bit_nat_eq_self del: of_nat_add)

lemma index_digits_small:
  "k < 10 \<Longrightarrow> index_digits 7 k = [of_nat (48 + k)]"
  "10 \<le> k \<Longrightarrow> k < 100 \<Longrightarrow> index_digits 7 k = [of_nat (48 + k mod 10), of_nat (48 + k div 10)]"
  "100 \<le> k \<Longrightarrow> k < 1000 \<Longrightarrow>
     index_digits 7 k = [of_nat (48 + k mod 10), of_nat (48 + k div 10 mod 10), of_nat (48 + k div 100)]"
proof -
  have seven: "(7::nat) = Suc (Suc (Suc 4))" by simp
  show "k < 10 \<Longrightarrow> index_digits 7 k = [of_nat (48 + k)]"
    unfolding seven by (rule digits_1)
  show "10 \<le> k \<Longrightarrow> k < 100 \<Longrightarrow> index_digits 7 k = [of_nat (48 + k mod 10), of_nat (48 + k div 10)]"
    unfolding seven by (subst digits_more, assumption, subst digits_1) auto
  assume k: "100 \<le> k" "k < 1000"
  have e: "k div 10 div 10 = k div 100" using div_mult2_eq [of k 10 10] by simp
  have l: "10 \<le> k div 10" "k div 100 < 10" "10 \<le> k" using k by auto
  show "index_digits 7 k = [of_nat (48 + k mod 10), of_nat (48 + k div 10 mod 10), of_nat (48 + k div 100)]"
    unfolding seven by (simp only: digits_more [OF l(3)] digits_more [OF l(1)] e digits_1 [OF l(2)])
qed

lemma uint_digits: "k < 1000 \<Longrightarrow> map uint (rev (index_digits 7 k)) = digits_int (int k)"
proof -
  assume k: "k < 1000"
  have d: "k mod 10 < 10" "k div 10 mod 10 < 10" by simp_all
  consider "k < 10" | "10 \<le> k" "k < 100" | "100 \<le> k" by linarith
  then show ?thesis
  proof cases
    case 1
    then have "digits_int (int k) = [48 + int k]" by (simp add: digits_int_def)
    with 1 show ?thesis by (simp only: index_digits_small uint_digit rev.simps append.simps list.map)
  next
    case 2
    then have "k div 10 < 10" by simp
    moreover from 2 have "digits_int (int k) = [48 + int (k div 10), 48 + int (k mod 10)]"
      by (simp add: digits_int_def zdiv_int zmod_int)
    ultimately show ?thesis using 2 d
      by (simp only: index_digits_small uint_digit rev.simps append.simps list.map)
  next
    case 3
    then have "k div 100 < 10" "k < 1000" using k by auto
    moreover from 3 have "digits_int (int k) = [48 + int (k div 100), 48 + int (k div 10 mod 10), 48 + int (k mod 10)]"
      by (simp add: digits_int_def zdiv_int zmod_int)
    ultimately show ?thesis using 3 d
      by (simp only: index_digits_small uint_digit rev.simps append.simps list.map)
  qed
qed

lemma uint_index_hash: "k < 1000 \<Longrightarrow> uint (se_dicth_index_hash k) = hash_int (int k)"
  by (simp add: index_hash_computed uint_fnv uint_digits hash_int_def)

lemma index_hash_inj:
  assumes "j \<le> 256" "k \<le> 256" "se_dicth_index_hash j = se_dicth_index_hash k"
  shows "j = k"
proof -
  have "hash_int (int j) = hash_int (int k)"
    using assms uint_index_hash [of j] uint_index_hash [of k] by simp
  moreover have "inj_on hash_int {0..256}" using hashes_distinct by (simp add: distinct_map)
  ultimately show ?thesis using assms(1,2) by (auto dest: inj_onD)
qed

lemma index_of_index_hash: "k < 256 \<Longrightarrow> index_of_hash (se_dicth_index_hash k) = Some k"
  unfolding index_of_hash_def find_Some_iff
  by (intro exI [of _ k]) (auto dest: index_hash_inj [rotated 2])

lemma index_of_256: "index_of_hash (se_dicth_index_hash 256) = None"
proof -
  have "se_dicth_index_hash j \<noteq> se_dicth_index_hash 256" if "j < 256" for j
    using that index_hash_inj [of j 256] by auto
  then show ?thesis by (auto simp: index_of_hash_def find_None_iff)
qed

lemma index_of_hash_none:
  assumes "list_all (\<lambda>k. hash_int k \<noteq> uint h) [0..255]"
  shows "index_of_hash h = None"
proof -
  have "se_dicth_index_hash k \<noteq> h" if "k < 256" for k
    using assms that uint_index_hash [of k] by (auto simp: list_all_iff dest: bspec [where x = "int k"])
  then show ?thesis by (auto simp: index_of_hash_def find_None_iff)
qed

lemma index_of_hash_less: "index_of_hash h = Some k \<Longrightarrow> k < 256 \<and> se_dicth_index_hash k = h"
  by (auto simp: index_of_hash_def find_Some_iff)

end
