(* ===== verification/SE_DictTrees.thy ===== *)
theory SE_DictTrees
  imports SE_DictHash
begin

text \<open>
  Dictionaries as nested values: what the lookups on the flat array find in the value the array
  encodes, which paths find which value, and where hashed and dotted paths agree.
\<close>

section \<open>Values\<close>

text \<open>
  A leaf is a single parameter or a block of code that is skipped as a whole; a dictionary and an
  array keep their brackets, an entry its key and the bracket after its value. In a dictionary of
  functions an entry is a sequence of calls: those after the first are kept as they stand, and may
  not contain a dictionary of their own, since the lookup walks through them parameter by parameter.
\<close>

datatype dval =
    DLeaf "s_expr_param list"
  | DDict s_expr_param "dentry list" s_expr_param
  | DArr s_expr_param "dval list" s_expr_param
and dentry = DKey s_expr_param dval "s_expr_param list" s_expr_param

fun enc :: "dval \<Rightarrow> s_expr_param list" and enc_entry :: "dentry \<Rightarrow> s_expr_param list" where
  "enc (DLeaf ps) = ps"
| "enc (DDict o1 es c) = o1 # concat (map enc_entry es) @ [c]"
| "enc (DArr o1 vs c) = o1 # concat (map enc vs) @ [c]"
| "enc_entry (DKey k v rst c) = k # enc v @ rst @ [c]"

definition is_block :: "s_expr_param \<Rightarrow> bool" where
  "is_block x = (opcode x = S_EXPR_PARAM_OPEN \<or> opcode x = S_EXPR_PARAM_OPEN_TUPLE \<or> opcode x = S_EXPR_PARAM_OPEN_CALL)"

definition wf_leaf :: "s_expr_param list \<Rightarrow> bool" where
  "wf_leaf ps = (case ps of
     [] \<Rightarrow> False
   | x # xs \<Rightarrow> opcode x \<noteq> S_EXPR_PARAM_OPEN_DICT \<and> opcode x \<noteq> S_EXPR_PARAM_OPEN_ARRAY \<and>
       opcode x \<noteq> S_EXPR_PARAM_CLOSE_ARRAY \<and> length xs = (if is_block x then brace_idx x else 0))"

fun wf_val :: "dval \<Rightarrow> bool" and wf_entry :: "dentry \<Rightarrow> bool" where
  "wf_val (DLeaf ps) = wf_leaf ps"
| "wf_val (DDict o1 es c) = (opcode o1 = S_EXPR_PARAM_OPEN_DICT \<and> opcode c = S_EXPR_PARAM_CLOSE_DICT \<and>
     brace_idx o1 = Suc (length (concat (map enc_entry es))) \<and> list_all wf_entry es)"
| "wf_val (DArr o1 vs c) = (opcode o1 = S_EXPR_PARAM_OPEN_ARRAY \<and> opcode c = S_EXPR_PARAM_CLOSE_ARRAY \<and>
     brace_idx o1 = Suc (length (concat (map enc vs))) \<and> list_all wf_val vs)"
| "wf_entry (DKey k v rst c) = (opcode k = S_EXPR_PARAM_OPEN_KEY \<and> opcode c = S_EXPR_PARAM_CLOSE_KEY \<and> wf_val v \<and>
     list_all (\<lambda>x. opcode x \<notin> {S_EXPR_PARAM_OPEN_KEY, S_EXPR_PARAM_CLOSE_KEY, S_EXPR_PARAM_CLOSE_DICT}) rst)"

fun entry_key :: "dentry \<Rightarrow> 32 word" where
  "entry_key (DKey k v rst c) = str_hash k"

fun entry_val :: "dentry \<Rightarrow> dval" where
  "entry_val (DKey k v rst c) = v"

definition entry_of :: "dentry list \<Rightarrow> 32 word \<Rightarrow> dval option" where
  "entry_of es h = map_of (map (\<lambda>e. (entry_key e, entry_val e)) es) h"

text \<open>The value stands in the array at an index.\<close>

definition stored :: "s_expr_param list \<Rightarrow> nat \<Rightarrow> dval \<Rightarrow> bool" where
  "stored P i v = (wf_val v \<and> (\<exists>pre post. P = pre @ enc v @ post \<and> length pre = i))"

lemma storedI: "wf_val v \<Longrightarrow> P = pre @ enc v @ post \<Longrightarrow> i = length pre \<Longrightarrow> stored P i v"
  unfolding stored_def by blast

lemma deref_here [simp]: "deref (pre @ x # post) (length pre) = Ret x"
  by (simp add: deref_def)

lemma deref_at: "P = pre @ x # post \<Longrightarrow> i = length pre \<Longrightarrow> deref P i = Ret x"
  by simp

lemma enc_pos: "wf_val v \<Longrightarrow> 0 < length (enc v)"
  by (cases v) (auto simp: wf_leaf_def split: list.splits)

lemma enc_first:
  assumes "wf_val v"
  obtains x xs where "enc v = x # xs" "opcode x \<noteq> S_EXPR_PARAM_CLOSE_ARRAY"
    "length (enc v) = (if is_block x \<or> opcode x = S_EXPR_PARAM_OPEN_DICT \<or> opcode x = S_EXPR_PARAM_OPEN_ARRAY
       then brace_idx x + 1 else 1)"
  using assms by (cases v) (auto simp: wf_leaf_def split: list.splits if_splits)

lemma skip_stored:
  assumes "wf_val v" "P = pre @ enc v @ post" "i = length pre" "i < e"
  shows "skip_value P (Some i) e = Ret (Some (i + length (enc v)))"
proof -
  from assms(1) obtain x xs where x: "enc v = x # xs" "opcode x \<noteq> S_EXPR_PARAM_CLOSE_ARRAY"
    "length (enc v) = (if is_block x \<or> opcode x = S_EXPR_PARAM_OPEN_DICT \<or> opcode x = S_EXPR_PARAM_OPEN_ARRAY
       then brace_idx x + 1 else 1)" by (rule enc_first)
  have "deref P i = Ret x" using assms(2,3) x(1) by simp
  then show ?thesis using assms(4) x(3) by (auto simp: skip_value_def is_block_def)
qed

section \<open>One level\<close>

lemma find_pass:
  assumes "list_all (\<lambda>x. opcode x \<noteq> S_EXPR_PARAM_OPEN_KEY \<and> opcode x \<noteq> S_EXPR_PARAM_CLOSE_DICT) xs"
    "P = pre @ xs @ post" "p = length pre" "p + length xs \<le> e" "length xs \<le> n"
  shows "whileR n (\<lambda>p. p < e) (find_step P e h) p = whileR (n - length xs) (\<lambda>p. p < e) (find_step P e h) (p + length xs)"
  using assms
proof (induction xs arbitrary: pre p n)
  case (Cons x xs)
  have "deref P p = Ret x" using Cons.prems(2,3) by simp
  then have "find_step P e h p = Ret (Inl (p + 1))" using Cons.prems(1) by (simp add: find_step_def)
  then have "whileR n (\<lambda>p. p < e) (find_step P e h) p = whileR (n - 1) (\<lambda>p. p < e) (find_step P e h) (p + 1)"
    using Cons.prems(4,5) by (subst whileR.simps) simp
  also have "\<dots> = whileR (n - 1 - length xs) (\<lambda>p. p < e) (find_step P e h) (p + 1 + length xs)"
    by (rule Cons.IH [where pre = "pre @ [x]"]) (use Cons.prems in auto)
  finally show ?case by simp
qed simp

lemma find_loop:
  assumes "list_all wf_entry es" "P = pre @ concat (map enc_entry es) @ post" "p = length pre"
    "e = p + length (concat (map enc_entry es))" "length (concat (map enc_entry es)) \<le> n"
  shows "case entry_of es h of
      None \<Rightarrow> whileR n (\<lambda>p. p < e) (find_step P e h) p = Ret (Inl e)
    | Some v \<Rightarrow> \<exists>j. whileR n (\<lambda>p. p < e) (find_step P e h) p = Ret (Inr (Some j)) \<and> stored P j v"
  using assms
proof (induction es arbitrary: pre p n)
  case Nil
  then show ?case by (simp add: entry_of_def whileR_stop)
next
  case (Cons en es)
  obtain k v rst c where en: "en = DKey k v rst c" by (cases en)
  have w: "opcode k = S_EXPR_PARAM_OPEN_KEY" "opcode c = S_EXPR_PARAM_CLOSE_KEY" "wf_val v" "list_all wf_entry es"
    "list_all (\<lambda>x. opcode x \<notin> {S_EXPR_PARAM_OPEN_KEY, S_EXPR_PARAM_CLOSE_KEY, S_EXPR_PARAM_CLOSE_DICT}) rst"
    using Cons.prems(1) by (auto simp: en)
  have P: "P = pre @ k # enc v @ rst @ c # concat (map enc_entry es) @ post" using Cons.prems(2) by (simp add: en)
  have lt: "p < e" "0 < n" using Cons.prems(4,5) by (auto simp: en)
  have dk: "deref P p = Ret k" using P Cons.prems(3) by simp
  show ?case
  proof (cases "str_hash k = h")
    case True
    have "stored P (p + 1) v"
      by (rule storedI [where pre = "pre @ [k]", OF w(3)]) (use P Cons.prems(3) in auto)
    moreover have "find_step P e h p = Ret (Inr (Some (p + 1)))" using dk w(1) True by (simp add: find_step_def)
    ultimately show ?thesis using lt True by (auto simp: entry_of_def en whileR_exit)
  next
    case False
    let ?i = "p + 1 + length (enc v)" and ?q = "p + 1 + length (enc v) + length rst + 1"
    let ?W = "\<lambda>n p. whileR n (\<lambda>p. p < e) (find_step P e h) p"
    have sk: "skip_value P (Some (p + 1)) e = Ret (Some ?i)"
      using w(3) P Cons.prems(3,4) by (intro skip_stored [where pre = "pre @ [k]"]) (auto simp: en)
    have ie: "?q \<le> e" using Cons.prems(4) by (simp add: en)
    obtain m where m: "?W n p = ?W m ?q" "length (concat (map enc_entry es)) \<le> m"
    proof (cases rst)
      case Nil
      have dc: "deref P ?i = Ret c"
        by (rule deref_at [where pre = "pre @ k # enc v"]) (use P Cons.prems(3) Nil in auto)
      have "find_step P e h p = Ret (Inl ?q)"
        using dk w(1,2) False sk dc ie Nil by (simp add: find_step_def)
      then have "?W n p = ?W (n - 1) ?q" using lt by (subst whileR.simps) simp
      then show thesis by (rule that) (use Cons.prems(5) in \<open>simp add: en\<close>)
    next
      case (Cons x xs)
      have dx: "deref P ?i = Ret x"
        by (rule deref_at [where pre = "pre @ k # enc v"]) (use P Cons.prems(3) Cons in auto)
      have "opcode x \<noteq> S_EXPR_PARAM_CLOSE_KEY" using w(5) Cons by simp
      then have "find_step P e h p = Ret (Inl ?i)"
        using dk w(1) False sk dx ie by (simp add: find_step_def)
      then have "?W n p = ?W (n - 1) ?i" using lt by (subst whileR.simps) simp
      also have "\<dots> = ?W (n - 1 - length (rst @ [c])) (?i + length (rst @ [c]))"
        by (rule find_pass [where pre = "pre @ k # enc v" and post = "concat (map enc_entry es) @ post"])
          (use w(2,5) P Cons.prems(3,5) ie in \<open>auto simp: en list_all_iff\<close>)
      finally show thesis
        by (intro that [of "n - 1 - length (rst @ [c])"]) (use Cons.prems(5) enc_pos [OF w(3)] in \<open>auto simp: en add.assoc\<close>)
    qed
    have IH: "case entry_of es h of
        None \<Rightarrow> ?W m ?q = Ret (Inl e)
      | Some v \<Rightarrow> \<exists>j. ?W m ?q = Ret (Inr (Some j)) \<and> stored P j v"
      by (rule Cons.IH [OF w(4), of "pre @ k # enc v @ rst @ [c]"]) (use P Cons.prems(3,4) m(2) in \<open>auto simp: en\<close>)
    have "entry_of (en # es) h = entry_of es h" using False by (simp add: entry_of_def en)
    with IH show ?thesis by (simp only: m(1))
  qed
qed

lemma vals_length: "list_all wf_val vs \<Longrightarrow> length vs \<le> length (concat (map enc vs))"
proof (induction vs)
  case (Cons v vs)
  then show ?case using enc_pos [of v] by (simp add: Suc_le_eq add_strict_increasing)
qed simp

lemma find_stored:
  assumes "stored P d (DDict o1 es c)"
  shows "case entry_of es h of
      None \<Rightarrow> se_dicth_find P (Some d) h = Ret None
    | Some v \<Rightarrow> \<exists>j. se_dicth_find P (Some d) h = Ret (Some j) \<and> stored P j v"
proof -
  from assms obtain pre post where P: "P = pre @ o1 # concat (map enc_entry es) @ c # post" "length pre = d"
    and w: "opcode o1 = S_EXPR_PARAM_OPEN_DICT" "opcode c = S_EXPR_PARAM_CLOSE_DICT"
      "brace_idx o1 = Suc (length (concat (map enc_entry es)))" "list_all wf_entry es"
    by (auto simp: stored_def)
  have "length (concat (map enc_entry es)) \<le> nav_fuel"
    using brace_idx_less [of o1] w(3) unfolding nav_fuel_def by linarith
  moreover have "deref P d = Ret o1" using P by (intro deref_at [where pre = pre]) auto
  ultimately show ?thesis
    using find_loop [of es P "pre @ [o1]" "c # post" "d + 1" "d + brace_idx o1" nav_fuel h] P w
    by (auto simp: se_dicth_find_def split: option.splits)
qed

text \<open>The loop over an array passes the elements at which it is not told to stop.\<close>

lemma scan_pass:
  assumes "list_all wf_val ys" "P = pre @ concat (map enc ys) @ post" "p = length pre"
    "p + length (concat (map enc ys)) \<le> e" "length ys \<le> n" "k + length ys < 65536"
    "\<And>i. i < length ys \<Longrightarrow> \<not> stop (k + i)"
  shows "whileR n (\<lambda>(p, count). p < e) (array_step P e stop) (p, k) =
    whileR (n - length ys) (\<lambda>(p, count). p < e) (array_step P e stop)
      (p + length (concat (map enc ys)), k + length ys)"
  using assms
proof (induction ys arbitrary: pre p n k)
  case (Cons v ys)
  have w: "wf_val v" "list_all wf_val ys" and P: "P = pre @ enc v @ concat (map enc ys) @ post"
    using Cons.prems(1,2) by auto
  have l: "0 < length (enc v)" by (rule enc_pos [OF w(1)])
  have lt: "p < e" "0 < n" using Cons.prems(4,5) l by (auto simp del: length_greater_0_conv)
  from w(1) obtain x xs where x: "enc v = x # xs" "opcode x \<noteq> S_EXPR_PARAM_CLOSE_ARRAY" by (rule enc_first)
  have dx: "deref P p = Ret x" using P Cons.prems(3) x(1) by simp
  have sk: "skip_value P (Some p) e = Ret (Some (p + length (enc v)))"
    by (rule skip_stored [OF w(1) P Cons.prems(3) lt(1)])
  have ns: "\<not> stop k" using Cons.prems(7) [of 0] by simp
  have st: "array_step P e stop (p, k) = Ret (Inl (p + length (enc v), k + 1))"
    using dx x(2) ns sk Cons.prems(6) by (simp add: array_step_def u16_id)
  have IH: "whileR (n - 1) (\<lambda>(p, count). p < e) (array_step P e stop) (p + length (enc v), k + 1) =
    whileR (n - 1 - length ys) (\<lambda>(p, count). p < e) (array_step P e stop)
      (p + length (enc v) + length (concat (map enc ys)), k + 1 + length ys)"
  proof (rule Cons.IH [OF w(2)])
    show "P = (pre @ enc v) @ concat (map enc ys) @ post" using P by simp
    show "\<not> stop (k + 1 + i)" if "i < length ys" for i
      using Cons.prems(7) [of "Suc i"] that by simp
  qed (use Cons.prems(3-6) in auto)
  have "whileR n (\<lambda>(p, count). p < e) (array_step P e stop) (p, k) =
      whileR (n - 1) (\<lambda>(p, count). p < e) (array_step P e stop) (p + length (enc v), k + 1)"
    by (rule whileR_step) (use lt st in auto)
  also note IH
  finally show ?case by (simp add: add.assoc)
qed simp

lemma array_open:
  assumes "stored P d (DArr o1 vs c)"
  obtains pre post where "P = (pre @ [o1]) @ concat (map enc vs) @ c # post" "length pre = d" "deref P d = Ret o1"
    "opcode o1 = S_EXPR_PARAM_OPEN_ARRAY" "brace_idx o1 = Suc (length (concat (map enc vs)))" "list_all wf_val vs"
    "length vs \<le> nav_fuel" "length vs < 65536"
proof -
  from assms obtain pre post where P: "P = pre @ o1 # concat (map enc vs) @ c # post" "length pre = d"
    and w: "opcode o1 = S_EXPR_PARAM_OPEN_ARRAY" "brace_idx o1 = Suc (length (concat (map enc vs)))" "list_all wf_val vs"
    by (auto simp: stored_def)
  have "length vs < 65536" using vals_length [OF w(3)] brace_idx_less [of o1] w(2) by linarith
  moreover have "deref P d = Ret o1" using P by (intro deref_at [where pre = pre]) auto
  ultimately show thesis using P w by (intro that) (auto simp: nav_fuel_def)
qed

lemma count_stored:
  assumes "stored P d (DArr o1 vs c)"
  shows "se_dicth_array_count P (Some d) = Ret (length vs)"
proof -
  from assms obtain pre post where *: "P = (pre @ [o1]) @ concat (map enc vs) @ c # post" "length pre = d"
    "deref P d = Ret o1" "opcode o1 = S_EXPR_PARAM_OPEN_ARRAY"
    "brace_idx o1 = Suc (length (concat (map enc vs)))" "list_all wf_val vs"
    "length vs \<le> nav_fuel" "length vs < 65536" by (rule array_open)
  have "whileR nav_fuel (\<lambda>(p, count). p < d + brace_idx o1) (array_step P (d + brace_idx o1) (\<lambda>_. False)) (d + 1, 0) =
      Ret (Inl (d + brace_idx o1, length vs))"
    by (subst scan_pass [OF *(6,1)]) (use * in \<open>auto simp: whileR_stop\<close>)
  then show ?thesis using *(3,4) by (simp add: se_dicth_array_count_def array_scan_def)
qed

lemma get_stored:
  assumes "stored P d (DArr o1 vs c)"
  shows "if k < length vs then \<exists>j. se_dicth_array_get P (Some d) k = Ret (Some j) \<and> stored P j (vs ! k)
    else se_dicth_array_get P (Some d) k = Ret None"
proof -
  from assms obtain pre post where *: "P = (pre @ [o1]) @ concat (map enc vs) @ c # post" "length pre = d"
    "deref P d = Ret o1" "opcode o1 = S_EXPR_PARAM_OPEN_ARRAY"
    "brace_idx o1 = Suc (length (concat (map enc vs)))" "list_all wf_val vs"
    "length vs \<le> nav_fuel" "length vs < 65536" by (rule array_open)
  let ?e = "d + brace_idx o1" and ?C = "\<lambda>(p, count). p < d + brace_idx o1"
  show ?thesis
  proof (cases "k < length vs")
    case True
    let ?ys = "take k vs" and ?v = "vs ! k" and ?zs = "drop (Suc k) vs"
    let ?p = "d + 1 + length (concat (map enc ?ys))"
    have split: "vs = ?ys @ ?v # ?zs" using True by (simp add: id_take_nth_drop)
    have w: "list_all wf_val ?ys" "wf_val ?v" using *(6) by (subst (asm) split, simp)+
    have body: "concat (map enc vs) = concat (map enc ?ys) @ enc ?v @ concat (map enc ?zs)"
      by (subst split) simp
    have P: "P = (pre @ [o1]) @ concat (map enc ?ys) @ enc ?v @ concat (map enc ?zs) @ c # post"
      using *(1) body by simp
    have st: "stored P ?p ?v"
      by (rule storedI [OF w(2), where pre = "(pre @ [o1]) @ concat (map enc ?ys)"]) (use P *(2) in auto)
    from w(2) obtain x xs where x: "enc ?v = x # xs" "opcode x \<noteq> S_EXPR_PARAM_CLOSE_ARRAY" by (rule enc_first)
    have dx: "deref P ?p = Ret x"
      by (rule deref_at [where pre = "(pre @ [o1]) @ concat (map enc ?ys)"]) (use P *(2) x(1) in auto)
    have lt: "?p < ?e" using *(5) body x(1) by simp
    have "whileR nav_fuel ?C (array_step P ?e (\<lambda>count. count = k)) (d + 1, 0) =
        whileR (nav_fuel - k) ?C (array_step P ?e (\<lambda>count. count = k)) (?p, k)"
      by (subst scan_pass [OF w(1) P]) (use * True lt in auto)
    also have "\<dots> = Ret (Inr (k, Some ?p))"
      by (rule whileR_exit) (use lt dx x(2) *(7) True in \<open>auto simp: array_step_def\<close>)
    finally show ?thesis using *(3,4) st True by (auto simp: se_dicth_array_get_def array_scan_def)
  next
    case False
    have "whileR nav_fuel ?C (array_step P ?e (\<lambda>count. count = k)) (d + 1, 0) = Ret (Inl (?e, length vs))"
      by (subst scan_pass [OF *(6,1)]) (use * False in \<open>auto simp: whileR_stop\<close>)
    then show ?thesis using *(3,4) False by (simp add: se_dicth_array_get_def array_scan_def)
  qed
qed

section \<open>Paths of hashes\<close>

text \<open>
  The resolution as a recursion over the path: one level gives the next parameter or the status it
  fails with.
\<close>

definition level_h :: "s_expr_param list \<Rightarrow> nat \<Rightarrow> 32 word \<Rightarrow> (se_pathh_status + nat) res" where
  "level_h P current h =
     res_bind (deref P current) (\<lambda>x.
       if opcode x = S_EXPR_PARAM_OPEN_DICT then
         res_bind (se_dicth_find P (Some current) h) (\<lambda>r.
           Ret (case r of None \<Rightarrow> Inl SE_PATHH_NOT_FOUND | Some c \<Rightarrow> Inr c))
       else if opcode x = S_EXPR_PARAM_OPEN_ARRAY then
         (case index_of_hash h of
            None \<Rightarrow> Ret (Inl SE_PATHH_INVALID_INDEX)
          | Some index \<Rightarrow> res_bind (se_dicth_array_get P (Some current) index) (\<lambda>r.
              Ret (case r of None \<Rightarrow> Inl SE_PATHH_INVALID_INDEX | Some c \<Rightarrow> Inr c)))
       else Ret (Inl SE_PATHH_TYPE_MISMATCH))"

fun run_h :: "s_expr_param list \<Rightarrow> nat \<Rightarrow> 32 word list \<Rightarrow> nat \<Rightarrow> (pptr \<times> se_pathh_context) res" where
  "run_h P current [] i = Ret (Some current, \<lparr> hc_result = Some current, hc_status = SE_PATHH_OK,
     hc_depth = i, hc_failed_hash = 0 \<rparr>)"
| "run_h P current (h # hs) i = res_bind (level_h P current h) (\<lambda>r.
     case r of Inl st \<Rightarrow> Ret (pathh_fail st i h) | Inr c \<Rightarrow> run_h P c hs (i + 1))"

lemma step_level_h:
  assumes "i < length hs" "i + 1 < 65536"
  shows "resolveh_step P hs (i, current) = res_bind (level_h P current (hs ! i)) (\<lambda>r.
    Ret (case r of Inl st \<Rightarrow> Inr (pathh_fail st i (hs ! i)) | Inr c \<Rightarrow> Inl (i + 1, c)))"
  using assms
  by (cases "deref P current"; cases "se_dicth_find P (Some current) (hs ! i)"; cases "index_of_hash (hs ! i)";
      cases "se_dicth_array_get P (Some current) (the (index_of_hash (hs ! i)))")
    (auto simp: resolveh_step_def level_h_def hash_at_def u16_id split: option.splits)

lemma resolveh_loop:
  assumes "length gs + length hs < 65536" "length hs \<le> n"
  shows "res_bind (whileR n (\<lambda>(i, current). i < length (gs @ hs)) (resolveh_step P (gs @ hs)) (length gs, current)) (\<lambda>r.
      case r of
        Inl (i, current) \<Rightarrow> Ret (Some current, \<lparr> hc_result = Some current, hc_status = SE_PATHH_OK,
          hc_depth = length (gs @ hs), hc_failed_hash = 0 \<rparr>)
      | Inr z \<Rightarrow> Ret z) = run_h P current hs (length gs)"
  using assms
proof (induction hs arbitrary: gs n current)
  case (Cons h hs)
  have IH: "res_bind (whileR (n - 1) (\<lambda>(i, current). i < length ((gs @ [h]) @ hs)) (resolveh_step P ((gs @ [h]) @ hs)) (length (gs @ [h]), c)) (\<lambda>r.
      case r of
        Inl (i, current) \<Rightarrow> Ret (Some current, \<lparr> hc_result = Some current, hc_status = SE_PATHH_OK,
          hc_depth = length ((gs @ [h]) @ hs), hc_failed_hash = 0 \<rparr>)
      | Inr z \<Rightarrow> Ret z) = run_h P c hs (length (gs @ [h]))" for c
    by (rule Cons.IH) (use Cons.prems in auto)
  have st: "resolveh_step P (gs @ h # hs) (length gs, current) = res_bind (level_h P current h) (\<lambda>r.
      Ret (case r of Inl st \<Rightarrow> Inr (pathh_fail st (length gs) h) | Inr c \<Rightarrow> Inl (length gs + 1, c)))"
    using Cons.prems step_level_h [of "length gs" "gs @ h # hs" P current, unfolded nth_append_length] by simp
  show ?case
    using IH Cons.prems st by (subst whileR.simps) (cases "level_h P current h"; auto split: sum.splits)
qed (simp add: whileR_stop)

lemma resolve_run_h:
  assumes "hs \<noteq> []" "length hs < 65536"
  shows "se_dicth_resolve P (Some d) (Some hs) (length hs) = run_h P d hs 0"
  using resolveh_loop [of "[]" hs nav_fuel P d] assms by (simp add: se_dicth_resolve_def nav_fuel_def)

text \<open>The same on values.\<close>

fun look :: "dval \<Rightarrow> 32 word \<Rightarrow> se_pathh_status + dval" where
  "look (DLeaf ps) h = Inl SE_PATHH_TYPE_MISMATCH"
| "look (DDict o1 es c) h = (case entry_of es h of None \<Rightarrow> Inl SE_PATHH_NOT_FOUND | Some v \<Rightarrow> Inr v)"
| "look (DArr o1 vs c) h = (case index_of_hash h of
     Some k \<Rightarrow> if k < length vs then Inr (vs ! k) else Inl SE_PATHH_INVALID_INDEX
   | None \<Rightarrow> Inl SE_PATHH_INVALID_INDEX)"

fun walk :: "dval \<Rightarrow> 32 word list \<Rightarrow> nat \<Rightarrow> (se_pathh_status \<times> nat \<times> 32 word) + dval" where
  "walk v [] i = Inr v"
| "walk v (h # hs) i = (case look v h of Inl st \<Rightarrow> Inl (st, i, h) | Inr w \<Rightarrow> walk w hs (i + 1))"

lemma level_stored:
  assumes "stored P d v"
  shows "case look v h of
      Inl st \<Rightarrow> level_h P d h = Ret (Inl st)
    | Inr w \<Rightarrow> \<exists>j. level_h P d h = Ret (Inr j) \<and> stored P j w"
proof (cases v)
  case (DLeaf ps)
  then obtain x xs pre post where x: "ps = x # xs" "P = pre @ x # xs @ post" "length pre = d"
    "opcode x \<noteq> S_EXPR_PARAM_OPEN_DICT" "opcode x \<noteq> S_EXPR_PARAM_OPEN_ARRAY"
    using assms by (auto simp: stored_def wf_leaf_def split: list.splits)
  then have "deref P d = Ret x" by (intro deref_at [where pre = pre]) auto
  then show ?thesis using x DLeaf by (simp add: level_h_def)
next
  case (DDict o1 es c)
  then obtain pre post where x: "P = pre @ o1 # concat (map enc_entry es) @ c # post" "length pre = d"
    "opcode o1 = S_EXPR_PARAM_OPEN_DICT" using assms by (auto simp: stored_def)
  then have "deref P d = Ret o1" by (intro deref_at [where pre = pre]) auto
  moreover have "stored P d (DDict o1 es c)" using assms DDict by simp
  ultimately show ?thesis using find_stored [of P d o1 es c h] x DDict
    by (auto simp: level_h_def split: option.splits simp del: res_bind_Ret_iff)
next
  case (DArr o1 vs c)
  then obtain pre post where x: "P = pre @ o1 # concat (map enc vs) @ c # post" "length pre = d"
    "opcode o1 = S_EXPR_PARAM_OPEN_ARRAY" using assms by (auto simp: stored_def)
  then have "deref P d = Ret o1" by (intro deref_at [where pre = pre]) auto
  moreover have "stored P d (DArr o1 vs c)" using assms DArr by simp
  ultimately show ?thesis using get_stored [of P d o1 vs c "the (index_of_hash h)"] x DArr
    by (auto simp: level_h_def split: option.splits if_splits simp del: res_bind_Ret_iff)
qed

lemma run_stored:
  assumes "stored P d v"
  shows "case walk v hs i of
      Inl (st, k, h) \<Rightarrow> run_h P d hs i = Ret (pathh_fail st k h)
    | Inr w \<Rightarrow> \<exists>j. run_h P d hs i = Ret (Some j, \<lparr> hc_result = Some j, hc_status = SE_PATHH_OK,
        hc_depth = i + length hs, hc_failed_hash = 0 \<rparr>) \<and> stored P j w"
  using assms
proof (induction hs arbitrary: d v i)
  case (Cons h hs)
  show ?case
  proof (cases "look v h")
    case (Inl st)
    then show ?thesis using level_stored [OF Cons.prems, of h] by simp
  next
    case (Inr w)
    then obtain j where "level_h P d h = Ret (Inr j)" "stored P j w"
      using level_stored [OF Cons.prems, of h] by auto
    then show ?thesis using Cons.IH [of j w "i + 1"] Inr by (auto split: sum.splits)
  qed
qed simp

section \<open>Dotted paths\<close>

text \<open>Following a path by single levels, where only the pointer is of interest.\<close>

fun follow :: "(nat \<Rightarrow> 'k \<Rightarrow> pptr res) \<Rightarrow> nat \<Rightarrow> 'k list \<Rightarrow> pptr res" where
  "follow f current [] = Ret (Some current)"
| "follow f current (k # ks) = res_bind (f current k) (\<lambda>r. case r of None \<Rightarrow> Ret None | Some c \<Rightarrow> follow f c ks)"

lemma follow_cong:
  assumes "\<And>c k. k \<in> set ks \<Longrightarrow> f c (a k) = g c (b k)"
  shows "follow f current (map a ks) = follow g current (map b ks)"
  using assms
proof (induction ks arbitrary: current)
  case (Cons k ks)
  then show ?case by (cases "g current (b k)") (auto split: option.splits)
qed simp

definition next_h :: "s_expr_param list \<Rightarrow> nat \<Rightarrow> 32 word \<Rightarrow> pptr res" where
  "next_h P current h = res_bind (level_h P current h) (\<lambda>r. Ret (case r of Inl st \<Rightarrow> None | Inr c \<Rightarrow> Some c))"

definition next_s :: "s_expr_param list \<Rightarrow> nat \<Rightarrow> 8 word list \<Rightarrow> pptr res" where
  "next_s P current seg = res_bind (deref P current) (\<lambda>x.
     if opcode x = S_EXPR_PARAM_OPEN_DICT then se_dicth_find P (Some current) (se_dicts_hash_segment seg)
     else if opcode x = S_EXPR_PARAM_OPEN_ARRAY then
       (case se_dicts_is_numeric seg of None \<Rightarrow> Ret None | Some index \<Rightarrow> se_dicth_array_get P (Some current) index)
     else Ret None)"

lemma run_h_follow: "res_bind (run_h P current hs i) (\<lambda>(p, _). Ret p) = follow (next_h P) current hs"
proof (induction hs arbitrary: current i)
  case (Cons h hs)
  then show ?case
    by (cases "level_h P current h") (auto simp: next_h_def pathh_fail_def simp del: res_bind_Ret_iff split: sum.splits)
qed simp

lemma resolveh_follow:
  assumes "hs \<noteq> []" "length hs < 65536"
  shows "resolveh P (Some d) (Some hs) (length hs) = follow (next_h P) d hs"
  by (simp only: resolveh_def resolve_run_h [OF assms] run_h_follow)

lemma resolve_segment_next:
  assumes "n \<noteq> 0"
  shows "\<exists>f. resolve_segment P path current start n depth =
    res_bind (next_s P current (segment path start n)) (\<lambda>r.
      Ret (case r of None \<Rightarrow> Inr (None, f) | Some c \<Rightarrow> Inl c))"
proof (cases "deref P current")
  case (Ret x)
  consider "opcode x = S_EXPR_PARAM_OPEN_DICT" | "opcode x = S_EXPR_PARAM_OPEN_ARRAY"
    | "opcode x \<noteq> S_EXPR_PARAM_OPEN_DICT" "opcode x \<noteq> S_EXPR_PARAM_OPEN_ARRAY" by blast
  then show ?thesis
  proof cases
    case 1
    then show ?thesis using Ret assms
      by (cases "se_dicth_find P (Some current) (se_dicts_hash_segment (segment path start n))")
        (auto simp: resolve_segment_def next_s_def se_dicts_find_def paths_fail_def split: option.splits)
  next
    case 2
    show ?thesis
    proof (cases "se_dicts_is_numeric (segment path start n)")
      case None
      then show ?thesis using 2 Ret assms by (auto simp: resolve_segment_def next_s_def paths_fail_def)
    next
      case (Some k)
      then show ?thesis using 2 Ret assms
        by (cases "se_dicth_array_get P (Some current) k")
          (auto simp: resolve_segment_def next_s_def se_dicts_array_get_def paths_fail_def split: option.splits)
    qed
  qed (use Ret assms in \<open>auto simp: resolve_segment_def next_s_def paths_fail_def\<close>)
qed (use assms in \<open>auto simp: resolve_segment_def next_s_def\<close>)

text \<open>A path is its segments with a dot between them.\<close>

fun join_path :: "8 word list list \<Rightarrow> 8 word list" where
  "join_path [] = []"
| "join_path [s] = s"
| "join_path (s # t # ss) = s @ 46 # join_path (t # ss)"

definition proper_segment :: "8 word list \<Rightarrow> bool" where
  "proper_segment s = (s \<noteq> [] \<and> list_all (\<lambda>c. c \<noteq> 46 \<and> c \<noteq> 0) s)"

lemma bytes_pass:
  assumes "list_all (\<lambda>c. c \<noteq> 46 \<and> c \<noteq> 0) s" "path = pre @ s @ rest" "length pre + length s < 65536" "length s \<le> n"
  shows "whileR n (\<lambda>_. True) (resolves_step P path) (current, start, length pre, depth) =
    whileR (n - length s) (\<lambda>_. True) (resolves_step P path) (current, start, length pre + length s, depth)"
  using assms
proof (induction s arbitrary: pre n)
  case (Cons b s)
  have "path_at path (length pre) = b" using Cons.prems(2) by (simp add: path_at_def)
  then have "resolves_step P path (current, start, length pre, depth) =
      Ret (Inl (current, start, length pre + 1, depth))"
    using Cons.prems(1,3) by (simp add: resolves_step_def u16_id)
  then have "whileR n (\<lambda>_. True) (resolves_step P path) (current, start, length pre, depth) =
      whileR (n - 1) (\<lambda>_. True) (resolves_step P path) (current, start, length (pre @ [b]), depth)"
    using Cons.prems(4) by (subst whileR.simps) simp
  also have "\<dots> = whileR (n - 1 - length s) (\<lambda>_. True) (resolves_step P path) (current, start, length (pre @ [b]) + length s, depth)"
    by (rule Cons.IH) (use Cons.prems in auto)
  finally show ?case by simp
qed simp

lemma step_end:
  assumes "proper_segment s" "path = pre @ s @ rest" "rest = [] \<or> hd rest = 46" "length path < 65536"
  shows "\<exists>f g. resolves_step P path (current, length pre, length pre + length s, depth) =
    res_bind (next_s P current s) (\<lambda>r. Ret (case r of
      None \<Rightarrow> Inr (None, f)
    | Some c \<Rightarrow> if rest = [] then Inr (Some c, g c)
        else Inl (c, length pre + length s + 1, length pre + length s + 1, u16 (depth + 1))))"
proof -
  let ?c = "path_at path (length pre + length s)"
  have c: "?c = (if rest = [] then 0 else 46)" "segment path (length pre) (length s) = s"
    using assms(2,3) by (cases rest; auto simp: path_at_def segment_def nth_append)+
  have l: "u16 (65536 + length s) = length s" "rest \<noteq> [] \<Longrightarrow> length pre + length s + 1 < 65536"
    using assms(2,4) by (cases rest; auto simp: u16_def)+
  have "length s \<noteq> 0" using assms(1) by (simp add: proper_segment_def)
  from resolve_segment_next [OF this, of P path current "length pre" depth]
  obtain f where f: "resolve_segment P path current (length pre) (length s) depth =
      res_bind (next_s P current s) (\<lambda>r. Ret (case r of None \<Rightarrow> Inr (None, f) | Some c \<Rightarrow> Inl c))"
    by (auto simp: c)
  show ?thesis
    by (intro exI [of _ f] exI [of _ "\<lambda>c. \<lparr> sc_result = Some c, sc_status = SE_PATHS_OK, sc_depth = u16 (depth + 1),
        sc_failed_segment_start = 0, sc_failed_segment_len = 0, sc_failed_hash = 0 \<rparr>"])
      (use l(2) in \<open>cases "next_s P current s"; auto simp: resolves_step_def c l(1) f u16_id
        simp del: res_bind_Ret_iff split: option.splits\<close>)
qed

lemma resolves_loop:
  assumes "list_all proper_segment ss" "ss \<noteq> []" "path = pre @ join_path ss" "length path < 65536"
    "length (join_path ss) < n"
  shows "res_bind (whileR n (\<lambda>_. True) (resolves_step P path) (current, length pre, length pre, depth)) (\<lambda>r.
      case r of Inl _ \<Rightarrow> Diverge | Inr (p, _) \<Rightarrow> Ret p) = follow (next_s P) current ss"
  using assms
proof (induction ss arbitrary: pre n current depth rule: join_path.induct)
  case (2 s)
  have w: "list_all (\<lambda>c. c \<noteq> 46 \<and> c \<noteq> 0) s" using "2.prems"(1) by (auto simp: proper_segment_def)
  have path: "path = pre @ s @ []" "length pre + length s < 65536" and le: "length s \<le> n" "0 < n - length s"
    using "2.prems"(3-5) by auto
  have "path = pre @ s @ []" "[] = [] \<or> hd [] = (46 :: 8 word)" using path by auto
  from step_end [OF _ this "2.prems"(4), of P current depth] "2.prems"(1)
  obtain f g where st: "resolves_step P path (current, length pre, length pre + length s, depth) =
      res_bind (next_s P current s) (\<lambda>r. Ret (case r of
        None \<Rightarrow> Inr (None, f)
      | Some c \<Rightarrow> if ([] :: 8 word list) = [] then Inr (Some c, g c)
          else Inl (c, length pre + length s + 1, length pre + length s + 1, u16 (depth + 1))))"
    by auto
  show ?case
    unfolding bytes_pass [OF w path le(1)] whileR.simps [of "n - length s"]
    using le(2) st by (cases "next_s P current s") (auto simp del: res_bind_Ret_iff split: option.splits)
next
  case (3 s t ss)
  have w: "list_all (\<lambda>c. c \<noteq> 46 \<and> c \<noteq> 0) s" using "3.prems"(1) by (auto simp: proper_segment_def)
  have path: "path = pre @ s @ 46 # join_path (t # ss)" "length pre + length s < 65536"
    and le: "length s \<le> n" "0 < n - length s" using "3.prems"(3-5) by auto
  from step_end [OF _ path(1) _ "3.prems"(4), of P current depth] "3.prems"(1)
  obtain f g where st: "resolves_step P path (current, length pre, length pre + length s, depth) =
      res_bind (next_s P current s) (\<lambda>r. Ret (case r of
        None \<Rightarrow> Inr (None, f)
      | Some c \<Rightarrow> if 46 # join_path (t # ss) = [] then Inr (Some c, g c)
          else Inl (c, length pre + length s + 1, length pre + length s + 1, u16 (depth + 1))))"
    by auto
  have IH: "res_bind (whileR (n - length s - 1) (\<lambda>_. True) (resolves_step P path)
      (c, length (pre @ s @ [46]), length (pre @ s @ [46]), k)) (\<lambda>r.
      case r of Inl _ \<Rightarrow> Diverge | Inr (p, _) \<Rightarrow> Ret p) = follow (next_s P) c (t # ss)" for c k
    by (rule "3.IH") (use "3.prems" in auto)
  show ?case
    unfolding bytes_pass [OF w path le(1)] whileR.simps [of "n - length s"]
    using le(2) st IH by (cases "next_s P current s") (auto simp: add.assoc simp del: res_bind_Ret_iff split: option.splits)
qed simp

lemma resolves_follow:
  assumes "list_all proper_segment ss" "ss \<noteq> []" "length (join_path ss) < 65536"
  shows "resolves P (Some d) (Some (join_path ss)) = follow (next_s P) d ss"
proof -
  obtain s rest where "ss = s # rest" using assms(2) by (cases ss) auto
  then obtain b bs where "join_path ss = b # bs" "b \<noteq> 0"
    using assms(1) by (cases s; cases rest) (auto simp: proper_segment_def)
  then have "path_at (join_path ss) 0 \<noteq> 0" by (simp add: path_at_def)
  then show ?thesis
    using resolves_loop [of ss "join_path ss" "[]" nav_fuel P d 0] assms
    by (cases "whileR nav_fuel (\<lambda>_. True) (resolves_step P (join_path ss)) (d, 0, 0, 0)")
      (auto simp: resolves_def se_dicts_resolve_def nav_fuel_def simp del: res_bind_Ret_iff split: sum.splits)
qed

lemma next_agree:
  assumes "se_dicts_is_numeric s = index_of_hash (se_dicts_hash_segment s)"
  shows "next_s P c s = next_h P c (se_dicts_hash_segment s)"
proof (cases "deref P c")
  case (Ret x)
  then show ?thesis using assms
    by (cases "se_dicth_find P (Some c) (se_dicts_hash_segment s)"; cases "index_of_hash (se_dicts_hash_segment s)";
        cases "se_dicth_array_get P (Some c) (the (index_of_hash (se_dicts_hash_segment s)))")
      (auto simp: next_s_def next_h_def level_h_def simp del: res_bind_Ret_iff split: option.splits)
qed (simp_all add: next_s_def next_h_def level_h_def)

section \<open>Lookups end\<close>

text \<open>Not running out of fuel, with the rules for the parts of a body.\<close>

definition ends :: "'a res \<Rightarrow> bool" where
  "ends r = (r \<noteq> Diverge)"

lemma ends_basic: "ends (Ret x)" "ends (Trap t)" "ends (deref P i)"
  by (simp_all add: ends_def deref_def)

lemma ends_bind: "ends r \<Longrightarrow> (\<And>x. ends (f x)) \<Longrightarrow> ends (res_bind r f)"
  by (cases r) (auto simp: ends_def)

lemma ends_if: "ends r \<Longrightarrow> ends r' \<Longrightarrow> ends (if b then r else r')"
  by simp

lemma ends_option: "ends r \<Longrightarrow> (\<And>x. ends (f x)) \<Longrightarrow> ends (case z of None \<Rightarrow> r | Some x \<Rightarrow> f x)"
  by (cases z) auto

lemma ends_sum: "(\<And>x. ends (f x)) \<Longrightarrow> (\<And>y. ends (g y)) \<Longrightarrow> ends (case z of Inl x \<Rightarrow> f x | Inr y \<Rightarrow> g y)"
  by (cases z) auto

lemma ends_prod: "(\<And>x y. ends (f x y)) \<Longrightarrow> ends (case z of (x, y) \<Rightarrow> f x y)"
  by (cases z) auto

lemma ends_Let: "(\<And>x. ends (f x)) \<Longrightarrow> ends (Let z f)"
  by simp

lemmas ends_rules = ends_basic ends_bind ends_if ends_option ends_sum ends_prod ends_Let

lemma ends_whileR:
  assumes "\<And>i. I i \<Longrightarrow> c i \<Longrightarrow> ends (body i) \<and> 0 < m i"
    "\<And>i j. I i \<Longrightarrow> c i \<Longrightarrow> body i = Ret (Inl j) \<Longrightarrow> I j \<and> m j < (m i :: nat)" "I i" "m i \<le> n"
  shows "ends (whileR n c body i)"
  using assms(3,4)
proof (induction n arbitrary: i)
  case 0
  then show ?case using assms(1) [of i] by (auto simp: whileR.simps ends_basic)
next
  case (Suc n)
  show ?case
  proof (cases "c i")
    case True
    have b: "ends (body i)" using assms(1) Suc.prems True by blast
    have "ends (case z of Inl j \<Rightarrow> whileR n c body j | Inr r \<Rightarrow> Ret (Inr r))" if "body i = Ret z" for z
      using assms(2) [OF Suc.prems(1) True, of "projl z"] Suc.IH [of "projl z"] Suc.prems(2) that
      by (cases z) (auto simp: ends_basic)
    then show ?thesis using True b
      by (subst whileR.simps) (cases "body i"; auto simp: ends_def)
  qed (simp add: whileR_stop ends_basic)
qed

lemma whileR_forever: "whileR n (\<lambda>_. True) body i \<noteq> Ret (Inl j)"
proof (induction n arbitrary: i)
  case (Suc n)
  then show ?case by (subst whileR.simps) (auto split: sum.splits)
qed (simp add: whileR.simps)

lemma ends_skip_value: "ends (skip_value P p e)"
  unfolding skip_value_def by (intro ends_rules)

lemma skip_value_more: "skip_value P (Some i) e = Ret (Some j) \<Longrightarrow> i < j"
  by (auto simp: skip_value_def split: if_splits)

lemma ends_find_step: "ends (find_step P e h p)"
  unfolding find_step_def by (intro ends_rules ends_skip_value)

lemma find_step_more: "find_step P e h p = Ret (Inl q) \<Longrightarrow> p < q"
  by (auto simp: find_step_def split: if_splits option.splits dest!: skip_value_more)

lemma ends_find: "ends (se_dicth_find P dict h)"
proof -
  have loop: "ends (whileR nav_fuel (\<lambda>p. p < d + brace_idx x) (find_step P (d + brace_idx x) h) (d + 1))" for d x
  proof (rule ends_whileR [where I = "\<lambda>_. True" and m = "\<lambda>p. d + brace_idx x - p"])
    show "d + brace_idx x - (d + 1) \<le> nav_fuel" using brace_idx_less [of x] unfolding nav_fuel_def by linarith
  qed (auto simp: ends_find_step dest: find_step_more)
  show ?thesis unfolding se_dicth_find_def Let_def by (intro ends_rules loop)
qed

lemma ends_array_step: "ends (array_step P e stop x)"
  unfolding array_step_def by (intro ends_rules ends_skip_value)

lemma array_step_more: "array_step P e stop (p, k) = Ret (Inl (q, k')) \<Longrightarrow> p < q"
  by (auto simp: array_step_def split: if_splits option.splits dest!: skip_value_more)

lemma ends_array_scan: "ends (array_scan P array stop)"
proof -
  have loop: "ends (whileR nav_fuel (\<lambda>(p, count). p < d + brace_idx x) (array_step P (d + brace_idx x) stop) (d + 1, 0))" for d x
  proof (rule ends_whileR [where I = "\<lambda>_. True" and m = "\<lambda>(p, count). d + brace_idx x - p"])
    show "(case (d + 1, 0) of (p, count) \<Rightarrow> d + brace_idx x - p) \<le> nav_fuel"
      using brace_idx_less [of x] unfolding nav_fuel_def prod.case by linarith
  qed (auto simp: ends_array_step dest: array_step_more)
  show ?thesis unfolding array_scan_def Let_def by (intro ends_rules loop)
qed

lemma ends_array_get: "ends (se_dicth_array_get P array k)"
  unfolding se_dicth_array_get_def by (intro ends_rules ends_array_scan)

lemma ends_resolveh_step: "ends (resolveh_step P hs x)"
  unfolding resolveh_step_def hash_at_def by (intro ends_rules ends_find ends_array_get)

lemma resolveh_step_more:
  "resolveh_step P hs (i, c) = Ret (Inl (j, c')) \<Longrightarrow> i + 1 < 65536 \<Longrightarrow> j = i + 1"
  by (auto simp: resolveh_step_def u16_id split: if_splits option.splits)

lemma ends_resolves_step: "ends (resolves_step P path x)"
  unfolding resolves_step_def resolve_segment_def se_dicts_find_def se_dicts_array_get_def Let_def
  by (intro ends_rules ends_find ends_array_get)

lemma resolves_step_more:
  assumes "resolves_step P path (c, start, pos, depth) = Ret (Inl (c', start', pos', depth'))"
    "pos \<le> length path" "length path < 65536"
  shows "pos' = pos + 1 \<and> pos < length path"
proof -
  have "pos < length path"
    using assms(1,2) by (cases "pos = length path") (auto simp: resolves_step_def path_at_def split: sum.splits, metis sum.exhaust surj_pair)
  then show ?thesis using assms(1,3) by (auto simp: resolves_step_def u16_id Let_def split: if_splits sum.splits)
    (metis sum.exhaust surj_pair)+
qed

section \<open>Iteration\<close>

text \<open>Calling the iterator until it has no more.\<close>

fun iter_all :: "nat \<Rightarrow> s_expr_param list \<Rightarrow> dict_iter \<Rightarrow> (32 word \<times> nat) list res" where
  "iter_all 0 P it = Diverge"
| "iter_all (Suc n) P it = res_bind (se_dicth_iter_next P it) (\<lambda>(kv, it').
     case kv of None \<Rightarrow> Ret [] | Some x \<Rightarrow> res_bind (iter_all n P it') (\<lambda>xs. Ret (x # xs)))"

lemma iter_pass:
  assumes "list_all (\<lambda>x. opcode x \<noteq> S_EXPR_PARAM_OPEN_KEY \<and> opcode x \<noteq> S_EXPR_PARAM_CLOSE_DICT) xs"
    "P = pre @ xs @ post" "p = length pre" "p + length xs \<le> e" "length xs \<le> n"
  shows "whileR n (\<lambda>p. p < e) (iter_key P e) p = whileR (n - length xs) (\<lambda>p. p < e) (iter_key P e) (p + length xs)"
  using assms
proof (induction xs arbitrary: pre p n)
  case (Cons x xs)
  have "deref P p = Ret x" using Cons.prems(2,3) by simp
  then have "iter_key P e p = Ret (Inl (p + 1))" using Cons.prems(1) by (simp add: iter_key_def)
  then have "whileR n (\<lambda>p. p < e) (iter_key P e) p = whileR (n - 1) (\<lambda>p. p < e) (iter_key P e) (p + 1)"
    using Cons.prems(4,5) by (subst whileR.simps) simp
  also have "\<dots> = whileR (n - 1 - length xs) (\<lambda>p. p < e) (iter_key P e) (p + 1 + length xs)"
    by (rule Cons.IH [where pre = "pre @ [x]"]) (use Cons.prems in auto)
  finally show ?case by simp
qed simp

text \<open>The iterator may stand on what is left of the entry before.\<close>

lemma iter_loop:
  assumes "list_all wf_entry es" "P = pre @ xs @ concat (map enc_entry es) @ post"
    "list_all (\<lambda>x. opcode x \<noteq> S_EXPR_PARAM_OPEN_KEY \<and> opcode x \<noteq> S_EXPR_PARAM_CLOSE_DICT) xs"
    "it_current it = Some (length pre)" "it_end it = Some e"
    "e = length pre + length xs + length (concat (map enc_entry es))" "length es < n" "length xs < nav_fuel"
    "length (concat (map enc_entry es)) < nav_fuel"
  shows "\<exists>js. iter_all n P it = Ret (zip (map entry_key es) js) \<and> list_all2 (stored P) js (map entry_val es)"
  using assms
proof (induction es arbitrary: pre xs it n)
  case Nil
  have "whileR nav_fuel (\<lambda>p. p < e) (iter_key P e) (length pre) = Ret (Inl e)"
    by (subst iter_pass [OF Nil.prems(3,2)]) (use Nil.prems in \<open>auto simp: whileR_stop\<close>)
  then show ?case using Nil.prems by (cases n) (auto simp: se_dicth_iter_next_def simp del: res_bind_Ret_iff)
next
  case (Cons en es)
  obtain k v rst c where en: "en = DKey k v rst c" by (cases en)
  obtain m where n: "n = Suc m" using Cons.prems(7) by (cases n) auto
  have w: "opcode k = S_EXPR_PARAM_OPEN_KEY" "opcode c = S_EXPR_PARAM_CLOSE_KEY" "wf_val v" "list_all wf_entry es"
    "list_all (\<lambda>x. opcode x \<notin> {S_EXPR_PARAM_OPEN_KEY, S_EXPR_PARAM_CLOSE_KEY, S_EXPR_PARAM_CLOSE_DICT}) rst"
    using Cons.prems(1) by (auto simp: en)
  have P: "P = pre @ xs @ k # enc v @ rst @ c # concat (map enc_entry es) @ post" using Cons.prems(2) by (simp add: en)
  let ?p = "length pre + length xs" and ?i = "length pre + length xs + 1 + length (enc v)"
  have lt: "?p < e" "length pre < e" using Cons.prems(6) by (auto simp: en)
  have dk: "deref P ?p = Ret k" by (rule deref_at [where pre = "pre @ xs"]) (use P in auto)
  have sk: "skip_value P (Some (?p + 1)) e = Ret (Some ?i)"
    using w(3) P Cons.prems(6) by (intro skip_stored [where pre = "pre @ xs @ [k]"]) (auto simp: en)
  let ?J = "if rst = [] then [] else rst @ [c]" and ?pre = "if rst = [] then pre @ xs @ k # enc v @ [c] else pre @ xs @ k # enc v"
  have st: "iter_key P e ?p = Ret (Inr (length ?pre, Some (str_hash k, ?p + 1)))"
  proof (cases rst)
    case Nil
    then have "deref P ?i = Ret c" by (intro deref_at [where pre = "pre @ xs @ k # enc v"]) (use P in auto)
    then show ?thesis using dk w(1,2) sk Nil by (simp add: iter_key_def)
  next
    case (Cons x ys)
    then have "deref P ?i = Ret x" by (intro deref_at [where pre = "pre @ xs @ k # enc v"]) (use P in auto)
    then show ?thesis using dk w(1,5) sk Cons by (simp add: iter_key_def)
  qed
  let ?it = "it \<lparr> it_current := Some (length ?pre), it_index := u16 (it_index it + 1) \<rparr>"
  have "whileR nav_fuel (\<lambda>p. p < e) (iter_key P e) (length pre) = Ret (Inr (length ?pre, Some (str_hash k, ?p + 1)))"
    by (subst iter_pass [OF Cons.prems(3,2)]) (use Cons.prems(6,8) lt st in \<open>auto intro: whileR_exit simp: en simp del: length_append\<close>)
  then have nx: "se_dicth_iter_next P it = Ret (Some (str_hash k, ?p + 1), ?it)"
    using Cons.prems(4,5) lt(2) by (simp add: se_dicth_iter_next_def del: res_bind_Ret_iff)
  have sv: "stored P (?p + 1) v"
    by (rule storedI [where pre = "pre @ xs @ [k]", OF w(3)]) (use P in auto)
  have "\<exists>js. iter_all m P ?it = Ret (zip (map entry_key es) js) \<and> list_all2 (stored P) js (map entry_val es)"
    by (rule Cons.IH [OF w(4), of ?pre ?J]) (use P Cons.prems(5-9) n w(2,5) in \<open>auto simp: en list_all_iff\<close>)
  then obtain js where js: "iter_all m P ?it = Ret (zip (map entry_key es) js)"
    "list_all2 (stored P) js (map entry_val es)" by blast
  show ?case
    by (rule exI [of _ "(?p + 1) # js"]) (use n nx js sv en in \<open>simp del: res_bind_Ret_iff\<close>)
qed

section \<open>What the lookups promise\<close>

inductive at_path :: "dval \<Rightarrow> 32 word list \<Rightarrow> dval \<Rightarrow> bool" where
  here: "at_path v [] v"
| key: "DKey k v rst c \<in> set es \<Longrightarrow> at_path v hs w \<Longrightarrow> at_path (DDict o1 es c') (str_hash k # hs) w"
| elem: "k < length vs \<Longrightarrow> at_path (vs ! k) hs w \<Longrightarrow> at_path (DArr o1 vs c) (se_dicth_index_hash k # hs) w"

text \<open>No key twice in a dictionary, and no array longer than the indices a hash can name.\<close>

fun keyed :: "dval \<Rightarrow> bool" and keyed_entry :: "dentry \<Rightarrow> bool" where
  "keyed (DLeaf ps) = True"
| "keyed (DDict o1 es c) = (distinct (map entry_key es) \<and> list_all keyed_entry es)"
| "keyed (DArr o1 vs c) = (length vs \<le> 256 \<and> list_all keyed vs)"
| "keyed_entry (DKey k v rst c) = keyed v"

lemma entry_of_distinct:
  assumes "DKey k v rst c \<in> set es" "distinct (map entry_key es)"
  shows "entry_of es (str_hash k) = Some v"
proof -
  have "(str_hash k, v) \<in> set (map (\<lambda>e. (entry_key e, entry_val e)) es)"
    using assms(1) by force
  moreover have "distinct (map fst (map (\<lambda>e. (entry_key e, entry_val e)) es))" using assms(2) by (simp add: comp_def)
  ultimately show ?thesis unfolding entry_of_def by (intro map_of_is_SomeI)
qed

lemma walk_at_path: "at_path v hs w \<Longrightarrow> keyed v \<Longrightarrow> walk v hs i = Inr w"
proof (induction arbitrary: i rule: at_path.induct)
  case (key k v rst c es hs w o1 c')
  then show ?case using entry_of_distinct [of k v rst c es] by (auto simp: list_all_iff)
next
  case (elem k vs hs w o1 c)
  then show ?case using index_of_index_hash [of k] by (auto simp: list_all_iff)
qed simp

text \<open>
  A small dictionary \<open>{a: 7, b: {c: [10, 20]}}\<close> after one parameter of other code, as the array
  holds it, and the segments \<open>b\<close>, \<open>c\<close>, \<open>1\<close>.
\<close>

definition dparam :: "8 word \<Rightarrow> 32 word \<Rightarrow> s_expr_param" where
  "dparam t v = \<lparr> p_type = t, index_to_pointer = 0, p_union = v \<rparr>"

definition demo_array :: dval where
  "demo_array = DArr (dparam S_EXPR_PARAM_OPEN_ARRAY 3)
     [DLeaf [dparam S_EXPR_PARAM_INT 10], DLeaf [dparam S_EXPR_PARAM_INT 20]] (dparam S_EXPR_PARAM_CLOSE_ARRAY 0)"

definition demo_dict :: dval where
  "demo_dict = DDict (dparam S_EXPR_PARAM_OPEN_DICT 14)
     [DKey (dparam S_EXPR_PARAM_OPEN_KEY (se_dicts_hash_segment [97])) (DLeaf [dparam S_EXPR_PARAM_INT 7]) [] (dparam S_EXPR_PARAM_CLOSE_KEY 0),
      DKey (dparam S_EXPR_PARAM_OPEN_KEY (se_dicts_hash_segment [98]))
        (DDict (dparam S_EXPR_PARAM_OPEN_DICT 7)
           [DKey (dparam S_EXPR_PARAM_OPEN_KEY (se_dicts_hash_segment [99])) demo_array [] (dparam S_EXPR_PARAM_CLOSE_KEY 0)]
           (dparam S_EXPR_PARAM_CLOSE_DICT 0))
        [] (dparam S_EXPR_PARAM_CLOSE_KEY 0)]
     (dparam S_EXPR_PARAM_CLOSE_DICT 0)"

definition demo_store :: "s_expr_param list" where
  "demo_store = dparam S_EXPR_PARAM_INT 1 # enc demo_dict"

lemma dparam_simps [simp]:
  "opcode (dparam t v) = t AND 0x3F" "str_hash (dparam t v) = v" "brace_idx (dparam t v) = unat v mod 65536"
  "p_union (dparam t v) = v"
  by (simp_all add: dparam_def opcode_def str_hash_def brace_idx_def)

lemma demo_stored: "stored demo_store 1 demo_dict"
  unfolding demo_store_def
  by (rule storedI [where pre = "[dparam S_EXPR_PARAM_INT 1]" and post = "[]"])
    (simp_all add: demo_dict_def demo_array_def wf_leaf_def is_block_def)

lemma demo_keyed: "keyed demo_dict"
  by (simp add: demo_dict_def demo_array_def se_dicts_hash_segment_def fnv_step_def)

lemma demo_path:
  "at_path demo_dict [se_dicts_hash_segment [98], se_dicts_hash_segment [99], se_dicth_index_hash 1]
     (DLeaf [dparam S_EXPR_PARAM_INT 20])"
proof -
  have "at_path demo_array [se_dicth_index_hash 1] (DLeaf [dparam S_EXPR_PARAM_INT 20])"
    unfolding demo_array_def by (rule elem) (auto intro: at_path.here)
  then have "at_path (DDict (dparam S_EXPR_PARAM_OPEN_DICT 7)
      [DKey (dparam S_EXPR_PARAM_OPEN_KEY (se_dicts_hash_segment [99])) demo_array [] (dparam S_EXPR_PARAM_CLOSE_KEY 0)]
      (dparam S_EXPR_PARAM_CLOSE_DICT 0))
    [str_hash (dparam S_EXPR_PARAM_OPEN_KEY (se_dicts_hash_segment [99])), se_dicth_index_hash 1]
    (DLeaf [dparam S_EXPR_PARAM_INT 20])"
    by (intro key) (auto simp only: list.set insert_iff)
  then have "at_path demo_dict [str_hash (dparam S_EXPR_PARAM_OPEN_KEY (se_dicts_hash_segment [98])),
      str_hash (dparam S_EXPR_PARAM_OPEN_KEY (se_dicts_hash_segment [99])), se_dicth_index_hash 1]
    (DLeaf [dparam S_EXPR_PARAM_INT 20])"
    unfolding demo_dict_def by (intro key) (auto simp only: list.set insert_iff)
  then show ?thesis by simp
qed

text \<open>C9. On an array that encodes a value, the resolution of a path of hashes is the walk through the
  value: it returns a pointer to the value the walk arrives at, or fails with the status, the depth and
  the hash at which the walk fails.\<close>

theorem dict_resolve_refines:
  assumes "stored P d v" "hs \<noteq> []" "length hs < 65536"
  shows "case walk v hs 0 of
      Inl (st, k, h) \<Rightarrow> se_dicth_resolve P (Some d) (Some hs) (length hs) =
        Ret (None, \<lparr> hc_result = None, hc_status = st, hc_depth = k, hc_failed_hash = h \<rparr>)
    | Inr w \<Rightarrow> \<exists>j. se_dicth_resolve P (Some d) (Some hs) (length hs) =
        Ret (Some j, \<lparr> hc_result = Some j, hc_status = SE_PATHH_OK, hc_depth = length hs, hc_failed_hash = 0 \<rparr>) \<and>
        stored P j w"
  using run_stored [OF assms(1), of hs 0] resolve_run_h [OF assms(2,3)]
  by (auto simp: pathh_fail_def split: sum.splits)

theorem dict_resolve_refines_witness:
  "se_dicth_resolve demo_store (Some 1) (Some [se_dicts_hash_segment [97], 5]) 2 =
     Ret (None, \<lparr> hc_result = None, hc_status = SE_PATHH_TYPE_MISMATCH, hc_depth = 1, hc_failed_hash = 5 \<rparr>)"
proof -
  have "walk demo_dict [se_dicts_hash_segment [97], 5] 0 = Inl (SE_PATHH_TYPE_MISMATCH, 1, 5)"
    by (simp add: demo_dict_def entry_of_def)
  then show ?thesis using dict_resolve_refines [OF demo_stored, of "[se_dicts_hash_segment [97], 5]"]
    by (simp add: numeral_2_eq_2)
qed

text \<open>C10. In a dictionary without repeated keys and without arrays of more than 256 elements, the path to
  every value inside it, with \<open>se_dicth_index_hash\<close> for the elements of arrays, resolves to that value.\<close>

theorem dict_paths_found:
  assumes "stored P d v" "keyed v" "at_path v hs w" "hs \<noteq> []" "length hs < 65536"
  shows "\<exists>j. se_dicth_resolve P (Some d) (Some hs) (length hs) =
      Ret (Some j, \<lparr> hc_result = Some j, hc_status = SE_PATHH_OK, hc_depth = length hs, hc_failed_hash = 0 \<rparr>) \<and>
      stored P j w"
  using run_stored [OF assms(1), of hs 0] walk_at_path [OF assms(3,2), of 0] resolve_run_h [OF assms(4,5)] by simp

theorem dict_paths_found_witness:
  "\<exists>j. resolveh demo_store (Some 1)
       (Some [se_dicts_hash_segment [98], se_dicts_hash_segment [99], se_dicth_index_hash 1]) 3 = Ret (Some j) \<and>
     stored demo_store j (DLeaf [dparam S_EXPR_PARAM_INT 20])"
  using dict_paths_found [OF demo_stored demo_keyed demo_path]
  by (auto simp: resolveh_def numeral_3_eq_3 simp del: One_nat_def)

lemmas accessors = se_dicts_get_int_def se_dicth_get_int_def
  se_dicts_get_uint_def se_dicth_get_uint_def
  se_dicts_get_float_def se_dicth_get_float_def
  se_dicts_get_bool_def se_dicth_get_bool_def
  se_dicts_get_hash_def se_dicth_get_hash_def
  se_dicts_get_dict_def se_dicth_get_dict_def
  se_dicts_get_array_def se_dicth_get_array_def
  se_dicts_get_callable_def se_dicth_get_callable_def
  se_dicts_get_string_def se_dicth_get_string_def

text \<open>C11. On any parameter array a dotted path of fewer than 65536 bytes finds what the path of the hashes of
  its segments finds, and so does each of the typed accessors (integer, unsigned, float, boolean, hash,
  dictionary, array, callable, string), provided that each segment is read alike by both: the index it names,
  if it names one, is the one its hash stands for.\<close>

theorem dotted_paths_agree:
  assumes "ss \<noteq> []" "list_all proper_segment ss" "length (join_path ss) < 65536"
    "list_all (\<lambda>s. se_dicts_is_numeric s = index_of_hash (se_dicts_hash_segment s)) ss"
  shows "resolves P dict (Some (join_path ss)) = resolveh P dict (Some (map se_dicts_hash_segment ss)) (length ss) \<and>
    se_dicts_get_int P dict (Some (join_path ss)) z =
      se_dicth_get_int P dict (Some (map se_dicts_hash_segment ss)) (length ss) z \<and>
    se_dicts_get_uint P dict (Some (join_path ss)) z =
      se_dicth_get_uint P dict (Some (map se_dicts_hash_segment ss)) (length ss) z \<and>
    se_dicts_get_float D P dict (Some (join_path ss)) z =
      se_dicth_get_float D P dict (Some (map se_dicts_hash_segment ss)) (length ss) z \<and>
    se_dicts_get_bool P dict (Some (join_path ss)) b =
      se_dicth_get_bool P dict (Some (map se_dicts_hash_segment ss)) (length ss) b \<and>
    se_dicts_get_hash D P dict (Some (join_path ss)) z =
      se_dicth_get_hash D P dict (Some (map se_dicts_hash_segment ss)) (length ss) z \<and>
    se_dicts_get_dict P dict (Some (join_path ss)) =
      se_dicth_get_dict P dict (Some (map se_dicts_hash_segment ss)) (length ss) \<and>
    se_dicts_get_array P dict (Some (join_path ss)) =
      se_dicth_get_array P dict (Some (map se_dicts_hash_segment ss)) (length ss) \<and>
    se_dicts_get_callable P dict (Some (join_path ss)) =
      se_dicth_get_callable P dict (Some (map se_dicts_hash_segment ss)) (length ss) \<and>
    se_dicts_get_string P dict (Some (join_path ss)) =
      se_dicth_get_string P dict (Some (map se_dicts_hash_segment ss)) (length ss)"
proof -
  have len: "length ss \<le> length (join_path ss)"
    using assms(2) by (induction ss rule: join_path.induct) (auto simp: proper_segment_def Suc_le_eq)
  have main: "resolves P dict (Some (join_path ss)) = resolveh P dict (Some (map se_dicts_hash_segment ss)) (length ss)"
  proof (cases dict)
    case (Some d)
    have "follow (next_s P) d (map (\<lambda>s. s) ss) = follow (next_h P) d (map se_dicts_hash_segment ss)"
      by (rule follow_cong) (use assms(4) in \<open>auto simp: list_all_iff intro: next_agree\<close>)
    then show ?thesis
      using resolves_follow [OF assms(2,1,3), of P d] resolveh_follow [of "map se_dicts_hash_segment ss" P d] assms(1,3) len Some
      by simp
  qed (simp add: resolves_def resolveh_def se_dicts_resolve_def se_dicth_resolve_def)
  then show ?thesis
    by (simp only: accessors simp_thms)
qed

theorem dotted_paths_agree_witness:
  "resolves demo_store (Some 1) (Some [98, 46, 99, 46, 49]) =
     resolveh demo_store (Some 1) (Some (map se_dicts_hash_segment [[98], [99], [49]])) 3"
proof -
  have h: "index_of_hash (se_dicts_hash_segment [98]) = None" "index_of_hash (se_dicts_hash_segment [99]) = None"
    by (rule index_of_hash_none, simp add: se_dicts_hash_segment_def uint_fnv del: foldl_Cons, code_simp)+
  have "se_dicts_hash_segment [49] = se_dicth_index_hash 1"
    by (simp add: se_dicts_hash_segment_def se_dicth_index_hash_def index_hash_table_def fnv_step_def)
  then have o1: "index_of_hash (se_dicts_hash_segment [49]) = Some 1" by (simp add: index_of_index_hash)
  have "list_all (\<lambda>s. se_dicts_is_numeric s = index_of_hash (se_dicts_hash_segment s)) [[98], [99], [49]]"
    by (simp add: h o1 se_dicts_is_numeric_def Let_def)
  from dotted_paths_agree [OF _ _ _ this, of demo_store "Some 1"] show ?thesis
    by (simp add: proper_segment_def numeral_3_eq_3)
qed

text \<open>The parts of the accessors behind the resolution.\<close>

lemma ends_param_or: "(\<And>x. ends (f x)) \<Longrightarrow> ends (param_or P p z f)"
  unfolding param_or_def by (intro ends_rules)

lemma ends_floats: "ends (float_to_int w)" "ends (float_to_uint w)"
  unfolding float_to_int_def float_to_uint_def by (intro ends_rules)+

lemma ends_params:
  "ends (se_dicth_param_int P p z)" "ends (se_dicth_param_uint P p z)" "ends (se_dicth_param_float D P p z)"
  "ends (se_dicth_param_bool P p b)" "ends (pointed P q p)" "ends (string_ref P p)"
  unfolding se_dicth_param_int_def se_dicth_param_uint_def se_dicth_param_float_def se_dicth_param_bool_def pointed_def string_ref_def
  by (intro ends_param_or ends_rules ends_floats)+

lemma ends_resolve_h:
  assumes "n < 65536"
  shows "ends (se_dicth_resolve P dict hs n)"
proof -
  have h: "ends (whileR nav_fuel (\<lambda>(i, current). i < n) (resolveh_step P gs) (0, d))" for gs d
    by (rule ends_whileR [where I = "\<lambda>_. True" and m = "\<lambda>(i, c). n - i"])
      (use assms in \<open>auto simp: ends_resolveh_step nav_fuel_def dest!: resolveh_step_more\<close>)
  show ?thesis unfolding se_dicth_resolve_def by (intro ends_rules h)
qed

lemma ends_resolve_s:
  assumes "length path < 65536"
  shows "ends (se_dicts_resolve P dict (Some path))"
proof -
  have s: "ends (whileR nav_fuel (\<lambda>_. True) (resolves_step P path) (d, 0, 0, 0))" for d
    by (rule ends_whileR [where I = "\<lambda>(c, start, pos, depth). pos \<le> length path"
          and m = "\<lambda>(c, start, pos, depth). Suc (length path) - pos"])
      (use assms in \<open>auto simp: ends_resolves_step nav_fuel_def dest!: resolves_step_more\<close>)
  have "res_bind (whileR nav_fuel (\<lambda>_. True) (resolves_step P path) (d, 0, 0, 0)) (\<lambda>r.
      case r of Inl _ \<Rightarrow> Diverge | Inr z \<Rightarrow> Ret z) \<noteq> Diverge" for d
    using s [of d] whileR_forever [of nav_fuel "resolves_step P path" "(d, 0, 0, 0)"]
    by (cases "whileR nav_fuel (\<lambda>_. True) (resolves_step P path) (d, 0, 0, 0)") (auto simp: ends_def split: sum.splits)
  then show ?thesis by (cases dict) (simp_all add: se_dicts_resolve_def ends_def)
qed

text \<open>C12. Every lookup ends on every parameter array, well formed or not: the search of a key, the count and
  the element of an array, and, for paths of fewer than 65536 hashes or bytes, both resolutions and every
  typed accessor of both kinds of path. To end is to return or to stop at a fault (a read outside the array,
  a float outside the integer's range); no loop runs for ever.\<close>

theorem dict_lookup_ends:
  assumes "n < 65536" "length path < 65536"
  shows "ends (se_dicth_find P dict h) \<and> ends (se_dicth_array_count P dict) \<and> ends (se_dicth_array_get P dict k) \<and>
    ends (se_dicth_resolve P dict hs n) \<and> ends (se_dicts_resolve P dict (Some path)) \<and>
    ends (se_dicth_get_int P dict hs n z) \<and> ends (se_dicts_get_int P dict (Some path) z) \<and>
    ends (se_dicth_get_uint P dict hs n z) \<and> ends (se_dicts_get_uint P dict (Some path) z) \<and>
    ends (se_dicth_get_float D P dict hs n z) \<and> ends (se_dicts_get_float D P dict (Some path) z) \<and>
    ends (se_dicth_get_bool P dict hs n b) \<and> ends (se_dicts_get_bool P dict (Some path) b) \<and>
    ends (se_dicth_get_hash D P dict hs n z) \<and> ends (se_dicts_get_hash D P dict (Some path) z) \<and>
    ends (se_dicth_get_dict P dict hs n) \<and> ends (se_dicts_get_dict P dict (Some path)) \<and>
    ends (se_dicth_get_array P dict hs n) \<and> ends (se_dicts_get_array P dict (Some path)) \<and>
    ends (se_dicth_get_callable P dict hs n) \<and> ends (se_dicts_get_callable P dict (Some path)) \<and>
    ends (se_dicth_get_string P dict hs n) \<and> ends (se_dicts_get_string P dict (Some path))"
proof -
  note h = ends_resolve_h [OF assms(1), of P dict hs] and s = ends_resolve_s [OF assms(2), of P dict]
  have "ends (resolveh P dict hs n)" "ends (resolves P dict (Some path))"
    unfolding resolveh_def resolves_def by (intro ends_rules h s)+
  note rs = this
  have "ends (se_dicth_array_count P dict)" unfolding se_dicth_array_count_def by (intro ends_rules ends_array_scan)
  then show ?thesis unfolding accessors
    by (intro conjI h s ends_find ends_array_get ends_bind rs ends_params ends_param_or ends_rules)
qed

theorem dict_lookup_ends_witness:
  "ends (se_dicth_resolve demo_store (Some 4) (Some [1, 2]) 2) \<and>
   ends (se_dicts_get_int demo_store (Some 4) (Some [98, 46, 46]) 0)"
  using dict_lookup_ends [of 2 "[98, 46, 46]" demo_store "Some 4" 0 0 "Some [1, 2]"] by simp

text \<open>
  An array may be longer than 256 elements. The element 256 is found by its index and by a dotted path,
  but no path of hashes leads to it: its hash is not among those that are searched.
\<close>

lemma array_index_limit:
  assumes "stored P d (DArr o1 vs c)" "256 < length vs"
  shows "\<exists>j. se_dicth_array_get P (Some d) 256 = Ret (Some j) \<and>
    resolves P (Some d) (Some [50, 53, 54]) = Ret (Some j) \<and>
    resolveh P (Some d) (Some [se_dicth_index_hash 256]) 1 = Ret None"
proof -
  obtain j where j: "se_dicth_array_get P (Some d) 256 = Ret (Some j)"
    using get_stored [OF assms(1), of 256] assms(2) by auto
  from assms(1) obtain pre post where *: "P = (pre @ [o1]) @ concat (map enc vs) @ c # post" "length pre = d"
    "deref P d = Ret o1" "opcode o1 = S_EXPR_PARAM_OPEN_ARRAY" by (rule array_open)
  have "resolves P (Some d) (Some (join_path [[50, 53, 54]])) = follow (next_s P) d [[50, 53, 54]]"
    by (rule resolves_follow) (simp_all add: proper_segment_def)
  then have "resolves P (Some d) (Some [50, 53, 54]) = Ret (Some j)"
    using j * by (simp add: next_s_def se_dicts_is_numeric_def Let_def)
  moreover have "resolveh P (Some d) (Some [se_dicth_index_hash 256]) (length [se_dicth_index_hash 256]) =
      follow (next_h P) d [se_dicth_index_hash 256]"
    by (rule resolveh_follow) simp_all
  then have "resolveh P (Some d) (Some [se_dicth_index_hash 256]) 1 = Ret None"
    using * by (simp add: next_h_def level_h_def index_of_256)
  ultimately show ?thesis using j by blast
qed

lemma dict_iterates:
  assumes "stored P d (DDict o1 es c)"
  shows "\<exists>it js. se_dicth_iter_init P (Some d) = Ret it \<and>
    iter_all (Suc (length es)) P it = Ret (zip (map entry_key es) js) \<and> list_all2 (stored P) js (map entry_val es)"
proof -
  from assms obtain pre post where P: "P = pre @ o1 # concat (map enc_entry es) @ c # post" "length pre = d"
    and w: "opcode o1 = S_EXPR_PARAM_OPEN_DICT" "brace_idx o1 = Suc (length (concat (map enc_entry es)))" "list_all wf_entry es"
    by (auto simp: stored_def)
  have "deref P d = Ret o1" using P by (intro deref_at [where pre = pre]) auto
  moreover have "\<exists>js. iter_all (Suc (length es)) P
      \<lparr> it_dict = Some d, it_current = Some (d + 1), it_end = Some (d + brace_idx o1), it_index = 0 \<rparr> =
      Ret (zip (map entry_key es) js) \<and> list_all2 (stored P) js (map entry_val es)"
    by (rule iter_loop [OF w(3), of P "pre @ [o1]" "[]" "c # post"])
      (use P w brace_idx_less [of o1] in \<open>auto simp: nav_fuel_def simp del: brace_idx_less\<close>)
  ultimately show ?thesis using w(1) by (auto simp: se_dicth_iter_init_def iter_init_def se_dicth_is_dict_def)
qed

text \<open>
  A dictionary of functions may have a dictionary among the arguments of a call. When that call is not
  the first of its entry, the lookup of any later key ends inside it: here the key 2 is not found.
\<close>

definition hiding_dict :: "s_expr_param list" where
  "hiding_dict =
     [dparam S_EXPR_PARAM_OPEN_DICT 12,
      dparam S_EXPR_PARAM_OPEN_KEY 1, dparam S_EXPR_PARAM_INT 0,
        dparam S_EXPR_PARAM_OPEN_CALL 4, dparam S_EXPR_PARAM_ONESHOT 0,
          dparam S_EXPR_PARAM_OPEN_DICT 1, dparam S_EXPR_PARAM_CLOSE_DICT 0,
        dparam S_EXPR_PARAM_CLOSE 0, dparam S_EXPR_PARAM_CLOSE_KEY 0,
      dparam S_EXPR_PARAM_OPEN_KEY 2, dparam S_EXPR_PARAM_INT 0, dparam S_EXPR_PARAM_CLOSE_KEY 0,
      dparam S_EXPR_PARAM_CLOSE_DICT 0]"

lemma nested_dict_hides:
  "se_dicth_find hiding_dict (Some 0) 1 = Ret (Some 2)" "se_dicth_find hiding_dict (Some 0) 2 = Ret None"
  by (simp_all add: hiding_dict_def se_dicth_find_def nav_fuel_def whileR.simps find_step_def skip_value_def deref_def)

end
