(* ===== verification/SE_Trees.thy ===== *)
theory SE_Trees
  imports SE_Run
begin

text \<open>
  The navigation and the recursive reset over trees: what the index loops do on the flat
  array is what the list operations do on the trees the array was compiled from.
\<close>

section \<open>Calls of a tree\<close>

text \<open>
  The nodes of the calls that the recursive reset reaches: the calls of the slice and the calls nested in
  them through calls only. The loop of \<open>reset_all_recursive\<close> descends into the arguments of a call and skips
  every other bracket as a whole, so that a call inside a list, a dictionary or an array is not reset, although
  the comment above it (\<open>s_engine_node.c\<close>, "Recursively reset all callables in params") promises all of them.
\<close>

fun call_nodes :: "sexp \<Rightarrow> nat list" where
  "call_nodes (Brace opn (Atom f # args) cls) =
     (if opcode opn = S_EXPR_PARAM_OPEN_CALL then node_index f # concat (map call_nodes args) else [])"
| "call_nodes x = []"

fun wf_calls :: "sexp \<Rightarrow> bool" where
  "wf_calls (Brace opn (Atom f # args) cls) =
     (opcode opn = S_EXPR_PARAM_OPEN_CALL \<longrightarrow> list_all wf_calls args)"
| "wf_calls (Brace opn xs cls) = (opcode opn \<noteq> S_EXPR_PARAM_OPEN_CALL)"
| "wf_calls (Atom p) = (opcode p \<noteq> S_EXPR_PARAM_OPEN_CALL)"

definition calls_of :: "sexp list \<Rightarrow> nat list" where
  "calls_of xs = concat (map call_nodes xs)"

lemma calls_of_simps [simp]: "calls_of [] = []" "calls_of (x # xs) = call_nodes x @ calls_of xs"
  by (simp_all add: calls_of_def)

definition reset_nodes :: "nat list \<Rightarrow> 'w inst \<Rightarrow> 'w inst" where
  "reset_nodes N s = s \<lparr> node_states := map (\<lambda>i. if i \<in> set N then ns_reset (node_states s ! i)
     else node_states s ! i) [0..<length (node_states s)] \<rparr>"

lemma node_count_reset_nodes [simp]: "node_count (reset_nodes N s) = node_count s"
  by (simp add: reset_nodes_def node_count_def)

lemma reset_nodes_Nil [simp]: "reset_nodes [] s = s"
  by (simp add: reset_nodes_def map_nth)

lemma reset_nodes_append: "reset_nodes M (reset_nodes N s) = reset_nodes (N @ M) s"
  by (auto simp: reset_nodes_def)

lemma upd_node_reset:
  "n < node_count s \<Longrightarrow> upd_node n ns_reset s = Ret ((), reset_nodes [n] s)"
  by (auto simp: upd_node_def reset_nodes_def node_count_def nth_list_update intro!: arg_cong [of _ _ "\<lambda>x. s \<lparr> node_states := x \<rparr>"] nth_equalityI)

lemma holds_mid:
  assumes "holds P a (ys @ Brace opn (x # args) cls # zs)"
  shows "rd P a (length (flats ys)) = Ret opn"
    and "rd P a (Suc (length (flats ys))) = Ret (hd (flat x))"
proof -
  have l: "0 < length (flat x)" by simp
  show "rd P a (length (flats ys)) = Ret opn"
    using holds_rd [OF assms, of "length (flats ys)"] by (simp add: nth_append)
  have "flats (ys @ Brace opn (x # args) cls # zs) ! Suc (length (flats ys)) = hd (flat x)"
    using l by (simp add: nth_append hd_conv_nth)
  then show "rd P a (Suc (length (flats ys))) = Ret (hd (flat x))"
    using holds_rd [OF assms, of "Suc (length (flats ys))"] by simp
qed

lemma rdA_holds: "rd (tree_params c) a i = Ret p \<Longrightarrow> rdA c a i s = Ret (p, s)"
  by (simp add: rdA_def)

text \<open>Resetting the call at a position of a slice.\<close>

lemma reset_callable_call:
  assumes "holds (tree_params c) a (ys @ Brace opn (Atom f # args) cls # zs)"
    "opcode opn = S_EXPR_PARAM_OPEN_CALL" "node_index f < node_count s"
  shows "reset_callable c a (length (flats ys)) s = Ret ((), reset_nodes [node_index f] s)"
  using holds_mid [OF assms(1)] assms(2,3)
  by (simp add: reset_callable_def get_callable_state_def rdA_def upd_node_reset)

lemma reset_all_rec_holds:
  assumes "holds (tree_params c) a xs" "list_all wf_calls xs" "\<forall>n\<in>set (calls_of xs). n < node_count s"
    "length (flats xs) < fuel"
  shows "reset_all_rec fuel c a s = Ret ((), reset_nodes (calls_of xs) s)"
  using assms
proof (induction fuel arbitrary: a xs s)
  case (Suc fuel)
  let ?P = "tree_params c"
  let ?body = "\<lambda>idx. bindA (rdA c a idx) (\<lambda>p.
      seqA (if opcode p = S_EXPR_PARAM_OPEN_CALL then
              seqA (reset_callable c a idx)
              (bindA (liftA (s_expr_call_args ?P a idx)) (\<lambda>child_args.
               if s_base child_args \<noteq> None \<and> s_count child_args > 0
               then reset_all_rec fuel c child_args else retA ()))
            else retA ())
      (bindA (liftA (skip_logical_param ?P a idx)) (\<lambda>j. retA (Inl j :: nat + unit))))"
  have step: "?body (length (flats ys)) s = Ret (Inl (length (flats (ys @ [z]))), reset_nodes (call_nodes z) s)"
    if h: "holds ?P a (ys @ z # zs)" and xs: "xs = ys @ z # zs" and n: "\<forall>n\<in>set (call_nodes z). n < node_count s"
    for ys z zs s
  proof -
    have sk: "skip_logical_param ?P a (length (flats ys)) = Ret (length (flats (ys @ [z])))"
      using holds_skip [OF h] by simp
    have wz: "wf_calls z" and lz: "length (flat z) \<le> fuel" using Suc.prems xs by auto
    show ?thesis
    proof (cases "\<exists>opn f args cls. z = Brace opn (Atom f # args) cls \<and> opcode opn = S_EXPR_PARAM_OPEN_CALL")
      case True
      then obtain opn f args cls where z: "z = Brace opn (Atom f # args) cls" "opcode opn = S_EXPR_PARAM_OPEN_CALL"
        by blast
      note h' = h [unfolded z(1)]
      obtain a' where a': "s_expr_call_args ?P a (length (flats ys)) = Ret a'" "holds ?P a' args"
        using holds_inside [OF h'] by blast
      let ?s1 = "reset_nodes [node_index f] s"
      have s1: "reset_callable c a (length (flats ys)) s = Ret ((), ?s1)"
        using reset_callable_call [OF h' z(2), of s] n z by simp
      have "(if s_base a' \<noteq> None \<and> s_count a' > 0 then reset_all_rec fuel c a' else retA ()) ?s1 =
          Ret ((), reset_nodes (calls_of args) ?s1)"
      proof (cases "s_base a' \<noteq> None \<and> s_count a' > 0")
        case True
        have "reset_all_rec fuel c a' ?s1 = Ret ((), reset_nodes (calls_of args) ?s1)"
          by (rule Suc.IH [OF a'(2)]) (use wz n z lz in \<open>auto simp: calls_of_def flats_def\<close>)
        then show ?thesis using True by simp
      next
        case False
        then have "args = []" using a'(2) by (auto simp: holds_def split: option.splits)
        then show ?thesis using False by auto
      qed
      then show ?thesis
        using holds_mid(1) [OF h'] s1 a'(1) sk z
        by (simp add: rdA_def reset_nodes_append calls_of_def del: reset_all_rec.simps)
    next
      case False
      have "rd ?P a (length (flats ys)) = Ret (hd (flat z))"
        using holds_rd [OF h, of "length (flats ys)"] by (simp add: nth_append hd_conv_nth)
      moreover have "opcode (hd (flat z)) \<noteq> S_EXPR_PARAM_OPEN_CALL \<and> call_nodes z = []"
        using False wz by (cases z rule: wf_calls.cases) auto
      ultimately show ?thesis using sk by (simp add: rdA_def)
    qed
  qed
  have loop: "whileA m (\<lambda>idx. idx < s_count a) ?body (length (flats ys)) s =
      Ret (Inl (length (flats xs)), reset_nodes (calls_of zs) s)"
    if "xs = ys @ zs" "length zs \<le> m" "\<forall>n\<in>set (calls_of zs). n < node_count s" for ys zs m s
    using that
  proof (induction zs arbitrary: ys m s)
    case Nil
    then show ?case using Suc.prems(1) by (simp add: whileA_stop holds_def)
  next
    case (Cons z zs)
    have h: "holds ?P a (ys @ z # zs)" using Suc.prems(1) Cons.prems(1) by simp
    have lt: "length (flats ys) < s_count a" using h by (auto simp: holds_def)
    have b: "?body (length (flats ys)) s = Ret (Inl (length (flats (ys @ [z]))), reset_nodes (call_nodes z) s)"
      by (rule step [OF h Cons.prems(1)]) (use Cons.prems(3) in auto)
    have "whileA m (\<lambda>idx. idx < s_count a) ?body (length (flats ys)) s =
        whileA (m - 1) (\<lambda>idx. idx < s_count a) ?body (length (flats (ys @ [z]))) (reset_nodes (call_nodes z) s)"
      by (rule whileA_step [where c = "\<lambda>idx. idx < s_count a" and body = ?body and i = "length (flats ys)",
            OF _ _ b]) (use lt Cons.prems(2) in auto)
    also have "\<dots> = Ret (Inl (length (flats xs)), reset_nodes (calls_of zs) (reset_nodes (call_nodes z) s))"
      by (rule Cons.IH) (use Cons.prems in auto)
    finally show ?case by (simp only: reset_nodes_append calls_of_simps)
  qed
  have "length xs \<le> nav_fuel"
    using Suc.prems(1) length_le_flats [of xs] by (simp add: holds_def nav_fuel_def)
  from loop [OF _ this, of "[]" s] Suc.prems(3)
  have L: "whileA nav_fuel (\<lambda>idx. idx < s_count a) ?body 0 s =
      Ret (Inl (length (flats xs)), reset_nodes (calls_of xs) s)"
    by (simp only: append_Nil flats_simps list.size)
  show ?case
    unfolding reset_all_rec.simps
    by (subst bindA_app) (simp only: L res_bind.simps prod.case retA_app)
qed simp

section \<open>Predicate children\<close>

text \<open>
  A predicate function that reads the blackboard and the world and changes nothing; the value
  of a child under an assignment of values to such functions, none for a child that is no
  predicate.
\<close>

definition reading :: "(8 word list option \<Rightarrow> 'w \<Rightarrow> bool) \<Rightarrow> ('w, bool) node_fn" where
  "reading v a ev event_id event_data = (\<lambda>s. Ret (v (blackboard s) (user_ctx s), s))"

fun pred_ref :: "sexp \<Rightarrow> s_expr_param option" where
  "pred_ref (Atom p) = (if opcode p = S_EXPR_PARAM_PRED then Some p else None)"
| "pred_ref (Brace opn (Atom f # args) cls) =
     (if opcode opn = S_EXPR_PARAM_OPEN_CALL \<and> opcode f = S_EXPR_PARAM_PRED then Some f else None)"
| "pred_ref x = None"

definition preds_of :: "(nat \<Rightarrow> bool) \<Rightarrow> sexp list \<Rightarrow> bool list" where
  "preds_of val xs = map (\<lambda>p. val (func_index p)) (List.map_filter pred_ref xs)"

lemma preds_of_simps [simp]: "preds_of val [] = []"
  "preds_of val (x # xs) = (case pred_ref x of None \<Rightarrow> [] | Some p \<Rightarrow> [val (func_index p)]) @ preds_of val xs"
  by (auto simp: preds_of_def map_filter_simps split: option.split)

definition pure_preds :: "(nat \<Rightarrow> 8 word list option \<Rightarrow> 'w \<Rightarrow> bool) \<Rightarrow> 'w ctx \<Rightarrow> sexp list \<Rightarrow> bool" where
  "pure_preds v c xs = (\<forall>x\<in>set xs. wf_calls x \<and> (\<forall>p. pred_ref x = Some p \<longrightarrow>
     func_index p < length (pred_fns c) \<and> pred_fns c ! func_index p = Some (reading (v (func_index p)))))"

lemma dispatch_pred_reading:
  assumes "func_index p < length (pred_fns c)" "pred_fns c ! func_index p = Some (reading v)"
  shows "dispatch_pred c p args ev i d s = Ret (v (blackboard s) (user_ctx s), s)"
  using assms by (cases s) (simp add: dispatch_pred_def set_current_node_def reading_def)

lemma invoke_pred_reading:
  assumes "holds (tree_params c) a (ys @ x # zs)" "pure_preds v c (ys @ x # zs)" "pred_ref x = Some p"
  shows "s_expr_invoke_pred c a (length (flats ys)) s = Ret (v (func_index p) (blackboard s) (user_ctx s), s)"
proof -
  have b: "s_base a \<noteq> None" using assms(1) by (auto simp: holds_def split: option.splits)
  have f: "func_index p < length (pred_fns c)" "pred_fns c ! func_index p = Some (reading (v (func_index p)))"
    using assms(2,3) by (auto simp: pure_preds_def)
  show ?thesis
  proof (cases x)
    case (Atom q)
    have "rd (tree_params c) a (length (flats ys)) = Ret q"
      using holds_rd [OF assms(1), of "length (flats ys)"] Atom by (simp add: nth_append)
    then show ?thesis
      using Atom assms(3) b dispatch_pred_reading [OF f]
      by (simp add: s_expr_invoke_pred_def rdA_def split: if_splits)
  next
    case (Brace opn ws cls)
    then obtain f args where x: "x = Brace opn (Atom f # args) cls" "opcode opn = S_EXPR_PARAM_OPEN_CALL" "p = f"
      using assms(3) by (cases x rule: pred_ref.cases) (auto split: if_splits)
    note h = assms(1) [unfolded x(1)]
    obtain a' where "s_expr_call_args (tree_params c) a (length (flats ys)) = Ret a'"
      using holds_inside [OF h] by blast
    then show ?thesis
      using b holds_mid [OF h] x dispatch_pred_reading [OF f]
      by (simp add: s_expr_invoke_pred_def rdA_def)
  qed
qed

lemma is_predicate_holds:
  assumes "holds P a (ys @ x # zs)" "wf_calls x"
  shows "s_expr_param_is_predicate P a (length (flats ys)) = Ret (pred_ref x \<noteq> None)"
proof (cases x)
  case (Atom q)
  have "rd P a (length (flats ys)) = Ret q"
    using holds_rd [OF assms(1), of "length (flats ys)"] Atom by (simp add: nth_append)
  then show ?thesis using Atom assms(2) by (simp add: s_expr_param_is_predicate_def param_kind_is_def)
next
  case (Brace opn ws cls)
  have r: "rd P a (length (flats ys)) = Ret opn"
    using holds_rd [OF assms(1), of "length (flats ys)"] Brace by (simp add: nth_append)
  have no: "opcode opn \<noteq> S_EXPR_PARAM_PRED"
    using assms(1) Brace by (auto simp: holds_def is_brace_open_def)
  show ?thesis
  proof (cases "opcode opn = S_EXPR_PARAM_OPEN_CALL")
    case True
    with Brace assms(2) obtain f args where x: "x = Brace opn (Atom f # args) cls"
      by (cases x rule: wf_calls.cases) auto
    show ?thesis using r True holds_mid(2) [OF assms(1) [unfolded x]] x
      by (simp add: s_expr_param_is_predicate_def param_kind_is_def)
  next
    case False
    with Brace have "pred_ref x = None" by (cases x rule: pred_ref.cases) auto
    then show ?thesis using r no False by (simp add: s_expr_param_is_predicate_def param_kind_is_def)
  qed
qed

text \<open>The loop of the connectives as a fold over the values of the predicate children.\<close>

fun pred_fold :: "('l \<Rightarrow> bool \<Rightarrow> 'l + bool) \<Rightarrow> ('l \<Rightarrow> bool) \<Rightarrow> 'l \<Rightarrow> bool list \<Rightarrow> bool" where
  "pred_fold f g l [] = g l"
| "pred_fold f g l (b # bs) = (case f l b of Inl l' \<Rightarrow> pred_fold f g l' bs | Inr r \<Rightarrow> r)"

lemma pred_loop_fold:
  assumes "holds (tree_params c) a xs" "pure_preds v c xs"
  shows "pred_loop c a f g l s = Ret (pred_fold f g l (preds_of (\<lambda>k. v k (blackboard s) (user_ctx s)) xs), s)"
proof -
  let ?val = "\<lambda>k. v k (blackboard s) (user_ctx s)"
  let ?body = "\<lambda>(i, l). bindA (liftA (s_expr_param_is_predicate (tree_params c) a i)) (\<lambda>is_pred.
      bindA (if is_pred then bindA (s_expr_invoke_pred c a i) (\<lambda>b. retA (f l b)) else retA (Inl l)) (\<lambda>z.
      case z of Inr b \<Rightarrow> retA (Inr b)
      | Inl l' \<Rightarrow> bindA (liftA (s_expr_skip_param (tree_params c) a i)) (\<lambda>j. retA (Inl (j, l')))))"
  have loop: "\<exists>r. whileA m (\<lambda>(i, l). i < s_count a) ?body (length (flats ys), l) s = Ret (r, s) \<and>
      (case r of Inl (i, l) \<Rightarrow> g l | Inr b \<Rightarrow> b) = pred_fold f g l (preds_of ?val zs)"
    if "xs = ys @ zs" "length zs \<le> m" for ys zs m l
    using that
  proof (induction zs arbitrary: ys m l)
    case Nil
    then show ?case using assms(1) by (simp add: whileA_stop holds_def)
  next
    case (Cons z zs)
    have h: "holds (tree_params c) a (ys @ z # zs)" and p: "pure_preds v c (ys @ z # zs)"
      using assms Cons.prems(1) by simp_all
    have lt: "(\<lambda>(i, l). i < s_count a) (length (flats ys), l)" and m: "0 < m"
      using h Cons.prems(2) by (auto simp: holds_def)
    have isp: "s_expr_param_is_predicate (tree_params c) a (length (flats ys)) = Ret (pred_ref z \<noteq> None)"
      using is_predicate_holds [OF h] p by (simp add: pure_preds_def)
    have sk: "s_expr_skip_param (tree_params c) a (length (flats ys)) = Ret (length (flats (ys @ [z])))"
      using holds_skip [OF h] by (simp add: s_expr_skip_param_eq)
    have go: ?case if b: "?body (length (flats ys), l) s = Ret (Inl (length (flats (ys @ [z])), l'), s)"
      and q: "pred_fold f g l (preds_of ?val (z # zs)) = pred_fold f g l' (preds_of ?val zs)" for l'
      unfolding whileA_step [where c = "\<lambda>(i, l). i < s_count a" and body = ?body, OF lt m b] q
      by (rule Cons.IH) (use Cons.prems in auto)
    show ?case
    proof (cases "pred_ref z")
      case None
      show ?thesis by (rule go [of l]) (simp_all add: isp sk None)
    next
      case (Some r)
      note inv = invoke_pred_reading [OF h p Some, of s]
      show ?thesis
      proof (cases "f l (?val (func_index r))")
        case (Inl l')
        show ?thesis by (rule go [of l']) (simp_all add: isp sk Some inv Inl)
      next
        case (Inr b)
        have e: "?body (length (flats ys), l) s = Ret (Inr b, s)" by (simp add: isp Some inv Inr)
        show ?thesis
          unfolding whileA_exit [where c = "\<lambda>(i, l). i < s_count a" and body = ?body, OF lt m e]
          by (simp add: Some Inr)
      qed
    qed
  qed
  have "length xs \<le> nav_fuel"
    using assms(1) length_le_flats [of xs] by (simp add: holds_def nav_fuel_def)
  from loop [OF _ this, of "[]" l] obtain r where
    "whileA nav_fuel (\<lambda>(i, l). i < s_count a) ?body (0, l) s = Ret (r, s)"
    "(case r of Inl (i, l) \<Rightarrow> g l | Inr b \<Rightarrow> b) = pred_fold f g l (preds_of ?val xs)"
    by (auto simp del: bindA_app)
  then show ?thesis
    unfolding pred_loop_def
    by (subst bindA_app) (simp only: res_bind.simps prod.case, cases r, auto)
qed

section \<open>Properties\<close>

definition slice_of :: "sexp list \<Rightarrow> slice" where
  "slice_of xs = \<lparr> s_base = Some 0, s_count = length (flats xs) \<rparr>"

definition ctx_of :: "sexp list \<Rightarrow> (nat \<Rightarrow> 8 word list option \<Rightarrow> 'w \<Rightarrow> bool) \<Rightarrow> 'w ctx" where
  "ctx_of xs v = \<lparr> tree_params = flats xs, main_fns = [],
     pred_fns = map (\<lambda>k. Some (reading (v k))) [0..<8], oneshot_fns = [] \<rparr>"

lemma holds_slice_of:
  "list_all wf_sexp xs \<Longrightarrow> length (flats xs) < 65536 \<Longrightarrow> holds (flats xs) (slice_of xs) xs"
  using holdsI [of xs "flats xs" "[]" "[]"] by (simp add: slice_of_def)

text \<open>A row of a predicate, a constant, and a predicate with another below it.\<close>

definition demo_row :: "sexp list" where
  "demo_row = [call_of S_EXPR_PARAM_PRED 1 0 [], Atom (mkp S_EXPR_PARAM_INT 7 0),
     call_of S_EXPR_PARAM_PRED 2 1 [call_of S_EXPR_PARAM_PRED 3 2 []]]"

lemma demo_row_simps [simp]:
  "list_all wf_sexp demo_row" "list_all wf_calls demo_row" "length (flats demo_row) = 10"
  "calls_of demo_row = [1, 2, 3]" "length demo_row = 3"
  by (simp_all add: demo_row_def call_of_def flats_def is_brace_open_def)

lemma demo_row_holds: "holds (flats demo_row) (slice_of demo_row) demo_row"
  by (rule holds_slice_of) simp_all

text \<open>
  C7. Navigation: on a slice that holds a list of well-formed trees, the number of logical
  children is the number of trees, the physical index of a child is the length of what comes
  before it, an index past the end gives \<open>UINT16_MAX\<close>, and the arguments of a call are a slice
  that holds its argument trees.
\<close>

theorem navigation_refines_trees:
  assumes "holds P a xs"
  shows "s_expr_child_count P a = Ret (length xs) \<and>
    s_expr_child_index P a k = Ret (if k < length xs then length (flats (take k xs)) else UINT16_MAX) \<and>
    (\<forall>ys opn f args cls zs. xs = ys @ Brace opn (Atom f # args) cls # zs \<longrightarrow>
      (\<exists>a'. s_expr_call_args P a (length (flats ys)) = Ret a' \<and> holds P a' args))"
  using child_count_holds [OF assms] child_index_holds [OF assms, of k] holds_inside [of P a] assms
  by blast

theorem navigation_refines_trees_witness:
  "s_expr_child_count (flats demo_row) (slice_of demo_row) = Ret 3 \<and>
   s_expr_child_index (flats demo_row) (slice_of demo_row) 2 = Ret 4"
  using navigation_refines_trees [OF demo_row_holds, of 2]
  by (simp add: demo_row_def call_of_def flats_def numeral_2_eq_2)

text \<open>
  C4. The recursive reset of a slice of well-formed parameters, whose reached calls have their nodes in the
  instance, comes to an end, resets the slice's calls and the calls nested in them through
  the arguments of calls to active and uninitialized with their EVER_INIT flag kept, and touches no
  other node and nothing else of the instance. In particular a call that stands inside a list, a dictionary or
  an array is neither reached nor reset.
\<close>

theorem reset_all_recursive_exact:
  assumes "holds (tree_params c) a xs" "list_all wf_calls xs" "\<forall>n\<in>set (calls_of xs). n < node_count s"
  shows "\<exists>s'. reset_all_recursive c a s = Ret ((), s') \<and> s' = s \<lparr> node_states := node_states s' \<rparr> \<and>
    node_count s' = node_count s \<and>
    (\<forall>i < node_count s. node_states s' ! i =
       (if i \<in> set (calls_of xs) then ns_reset (node_states s ! i) else node_states s ! i))"
proof -
  have "length (flats xs) \<le> length (tree_params c)"
    using assms(1) by (auto simp: holds_def split: option.splits)
  then have "reset_all_recursive c a s = Ret ((), reset_nodes (calls_of xs) s)"
    unfolding reset_all_recursive_def by (intro reset_all_rec_holds [OF assms]) simp
  then show ?thesis by (auto simp: reset_nodes_def node_count_def)
qed

theorem reset_all_recursive_exact_witness:
  "\<exists>s'. reset_all_recursive (ctx_of demo_row (\<lambda>_ _ _. True)) (slice_of demo_row)
      (fresh_inst 5 () \<lparr> node_states := replicate 5 ns_clear \<rparr>) = Ret ((), s') \<and>
    \<not> is_active (node_states s' ! 0) \<and> is_active (node_states s' ! 3) \<and> \<not> is_active (node_states s' ! 4)"
proof -
  let ?s = "fresh_inst 5 () \<lparr> node_states := replicate 5 ns_clear \<rparr>"
  have "holds (tree_params (ctx_of demo_row (\<lambda>_ _ _. True))) (slice_of demo_row) demo_row"
    using demo_row_holds by (simp add: ctx_of_def)
  from reset_all_recursive_exact [OF this, of ?s] obtain s' where
    "reset_all_recursive (ctx_of demo_row (\<lambda>_ _ _. True)) (slice_of demo_row) ?s = Ret ((), s')"
    "\<forall>i < 5. node_states s' ! i = (if i \<in> {1, 2, 3} then ns_reset (node_states ?s ! i) else node_states ?s ! i)"
    by (auto simp: node_count_def)
  then show ?thesis by auto
qed

text \<open>
  The connectives compute the Boolean functions of their predicate children, whatever
  other parameters are mixed in: \<open>and\<close> and \<open>or\<close> with the neutral value for no children,
  \<open>not\<close> of the first child, \<open>nand\<close> and \<open>nor\<close> as their complements, \<open>xor\<close> as exactly one; the
  instance is unchanged.
\<close>

theorem connectives_boolean:
  assumes "holds (tree_params c) a xs" "pure_preds v c xs"
    and bs: "bs = preds_of (\<lambda>k. v k (blackboard s) (user_ctx s)) xs"
  shows "se_pred_and c a ev i d s = Ret (\<forall>b\<in>set bs. b, s) \<and>
    se_pred_or c a ev i d s = Ret (\<exists>b\<in>set bs. b, s) \<and>
    se_pred_not c a ev i d s = Ret (bs = [] \<or> \<not> hd bs, s) \<and>
    se_pred_nand c a ev i d s = Ret (\<exists>b\<in>set bs. \<not> b, s) \<and>
    se_pred_nor c a ev i d s = Ret (\<forall>b\<in>set bs. \<not> b, s) \<and>
    se_pred_xor c a ev i d s = Ret (length (filter id bs) = 1, s)"
proof -
  note loop = pred_loop_fold [OF assms(1,2), of _ _ _ s, folded bs]
  have a: "pred_fold (\<lambda>_ b. if \<not> b then Inr False else Inl ()) (\<lambda>_. True) () bs = (\<forall>b\<in>set bs. b)"
    by (induction bs) auto
  have o: "pred_fold (\<lambda>_ b. if b then Inr True else Inl ()) (\<lambda>_. False) () bs = (\<exists>b\<in>set bs. b)"
    by (induction bs) auto
  have x: "pred_fold (\<lambda>n b. if b then (if n + 1 > 1 then Inr False else Inl (n + 1)) else Inl n)
      (\<lambda>n. n = (1 :: nat)) n bs = (n + length (filter id bs) = 1)" if "n \<le> 1" for n
    using that by (induction bs arbitrary: n) auto
  show ?thesis
    using x [of 0] a o
    by (cases bs)
      (auto simp: se_pred_and_def se_pred_or_def se_pred_not_def se_pred_nand_def se_pred_nor_def
        se_pred_xor_def loop)
qed

theorem connectives_boolean_witness:
  "se_pred_and (ctx_of demo_row (\<lambda>k _ _. k = 0)) (slice_of demo_row) SE_EVENT_TICK 4 0 (fresh_inst 5 ()) =
     Ret (False, fresh_inst 5 ()) \<and>
   se_pred_xor (ctx_of demo_row (\<lambda>k _ _. k = 0)) (slice_of demo_row) SE_EVENT_TICK 4 0 (fresh_inst 5 ()) =
     Ret (True, fresh_inst 5 ())"
proof -
  let ?c = "ctx_of demo_row (\<lambda>k _ (_ :: unit). k = 0)"
  have h: "holds (tree_params ?c) (slice_of demo_row) demo_row"
    using demo_row_holds by (simp add: ctx_of_def)
  have p: "pure_preds (\<lambda>k _ _. k = 0) ?c demo_row"
    by (auto simp: pure_preds_def demo_row_def call_of_def ctx_of_def)
  show ?thesis
    using connectives_boolean [OF h p, where s = "fresh_inst 5 ()" and ev = SE_EVENT_TICK and i = 4 and d = 0, OF refl]
    by (simp add: demo_row_def call_of_def)
qed

end
