(* ===== verification/SE_Compose.thy ===== *)
theory SE_Compose
  imports SE_Trees
begin

text \<open>
  The composites over trees: what the index searches of their loops see of a child, when a
  fork is complete, and the sequence as a recursion over the children it has left.
\<close>

section \<open>What a composite sees of a child\<close>

text \<open>The function reference of a call, none for a parameter that is no call.\<close>

fun callee :: "sexp \<Rightarrow> s_expr_param option" where
  "callee (Brace opn (Atom f # args) cls) = (if opcode opn = S_EXPR_PARAM_OPEN_CALL then Some f else None)"
| "callee x = None"

lemma child_rd:
  assumes "holds P a xs" "list_all wf_calls xs" "k < length xs"
  shows "\<exists>p. rd P a (length (flats (take k xs))) = Ret p \<and>
    (opcode p = S_EXPR_PARAM_OPEN_CALL) = (callee (xs ! k) \<noteq> None) \<and>
    (\<forall>f. callee (xs ! k) = Some f \<longrightarrow> rd P a (Suc (length (flats (take k xs)))) = Ret f)"
proof -
  have xs: "take k xs @ xs ! k # drop (Suc k) xs = xs" using assms(3) by (rule id_take_nth_drop [symmetric])
  have h: "holds P a (take k xs @ xs ! k # drop (Suc k) xs)" using assms(1) xs by simp
  have w: "wf_calls (xs ! k)" using assms(2,3) by (simp add: list_all_length)
  have r: "rd P a (length (flats (take k xs))) = Ret (hd (flat (xs ! k)))"
    using holds_rd [OF h, of "length (flats (take k xs))"] by (simp add: nth_append hd_conv_nth)
  show ?thesis
  proof (cases "callee (xs ! k)")
    case None
    then have "opcode (hd (flat (xs ! k))) \<noteq> S_EXPR_PARAM_OPEN_CALL"
      using w by (cases "xs ! k" rule: wf_calls.cases) (auto split: if_splits)
    then show ?thesis using r None by simp
  next
    case (Some f)
    then obtain opn args cls where x: "xs ! k = Brace opn (Atom f # args) cls" "opcode opn = S_EXPR_PARAM_OPEN_CALL"
      by (cases "xs ! k" rule: callee.cases) (auto split: if_splits)
    show ?thesis using r holds_mid(2) [OF h [unfolded x(1)]] x by simp
  qed
qed

lemma child_seen:
  assumes "holds (tree_params c) a xs" "list_all wf_calls xs" "k < length xs"
  shows "s_expr_child_is_callable c a k s = Ret (callee (xs ! k) \<noteq> None, s)"
    and "callee (xs ! k) = Some f \<Longrightarrow> s_expr_child_func_type c a k s = Ret (opcode f, s)"
    and "callee (xs ! k) = Some f \<Longrightarrow> child_flag b c a k s =
      (if node_index f < node_count s then Ret (b (node_states s ! node_index f), s)
       else Trap (Exception ''get_callable_state: node_index out of range''))"
proof -
  from child_rd [OF assms] obtain p where p: "rd (tree_params c) a (length (flats (take k xs))) = Ret p"
    "(opcode p = S_EXPR_PARAM_OPEN_CALL) = (callee (xs ! k) \<noteq> None)"
    "\<And>f. callee (xs ! k) = Some f \<Longrightarrow> rd (tree_params c) a (Suc (length (flats (take k xs)))) = Ret f" by blast
  have i: "s_expr_child_index (tree_params c) a k = Ret (length (flats (take k xs)))"
    using child_index_holds [OF assms(1), of k] assms(3) by simp
  have "length (flats (take k xs)) < length (flats xs)"
    using arg_cong [OF id_take_nth_drop [OF assms(3)], of "length \<circ> flats"] by simp
  then have n: "length (flats (take k xs)) \<noteq> UINT16_MAX"
    using assms(1) by (auto simp: holds_def UINT16_MAX_def)
  show "s_expr_child_is_callable c a k s = Ret (callee (xs ! k) \<noteq> None, s)"
    using p(1,2) i n by (simp add: s_expr_child_is_callable_def rdA_def)
  show "s_expr_child_func_type c a k s = Ret (opcode f, s)" if "callee (xs ! k) = Some f"
    using that p i n by (simp add: s_expr_child_func_type_def rdA_def)
  show "child_flag b c a k s = (if node_index f < node_count s then Ret (b (node_states s ! node_index f), s)
       else Trap (Exception ''get_callable_state: node_index out of range''))" if "callee (xs ! k) = Some f"
    using that p i n by (simp add: child_flag_def get_callable_state_def rdA_def)
qed

text \<open>The place of a child, and what invoking and terminating the call there amounts to.\<close>

definition place :: "sexp list \<Rightarrow> nat \<Rightarrow> nat" where
  "place xs k = length (flats (take k xs))"

lemma place_less:
  assumes "holds P a xs" "k < length xs"
  shows "place xs k < s_count a" "place xs k \<noteq> UINT16_MAX" "place xs k < 65535"
proof -
  have "place xs k < length (flats xs)"
    using arg_cong [OF id_take_nth_drop [OF assms(2)], of "length \<circ> flats"] by (simp add: place_def)
  then show "place xs k < s_count a" "place xs k \<noteq> UINT16_MAX" "place xs k < 65535"
    using assms(1) by (auto simp: holds_def UINT16_MAX_def)
qed

lemma place_strict_mono: "j < k \<Longrightarrow> k \<le> length xs \<Longrightarrow> place xs j < place xs k"
proof -
  assume "j < k" "k \<le> length xs"
  then have "take k xs = take j xs @ take (k - j) (drop j xs)" "take (k - j) (drop j xs) \<noteq> []"
    by (metis take_add le_add_diff_inverse less_imp_le_nat) (use \<open>j < k\<close> \<open>k \<le> length xs\<close> in auto)
  then show ?thesis by (simp add: place_def)
qed

lemma child_index_place:
  assumes "holds (tree_params c) a xs" "k < length xs"
  shows "child_index c a k s = Ret (place xs k, s)"
  using child_index_holds [OF assms(1), of k] assms(2) by (simp add: child_index_def place_def)

text \<open>The argument slice of the call of a child.\<close>

definition args_at :: "'w ctx \<Rightarrow> slice \<Rightarrow> nat \<Rightarrow> slice" where
  "args_at c a i = (case s_expr_call_args (tree_params c) a i of Ret z \<Rightarrow> z | _ \<Rightarrow> a)"

lemma call_args_at:
  assumes "holds (tree_params c) a xs" "list_all wf_calls xs" "k < length xs" "callee (xs ! k) = Some f"
  shows "s_expr_call_args (tree_params c) a (place xs k) = Ret (args_at c a (place xs k))"
proof -
  obtain opn args cls where x: "xs ! k = Brace opn (Atom f # args) cls"
    using assms(4) by (cases "xs ! k" rule: callee.cases) (auto split: if_splits)
  have "holds (tree_params c) a (take k xs @ Brace opn (Atom f # args) cls # drop (Suc k) xs)"
    using assms(1) id_take_nth_drop [OF assms(3)] x by simp
  from holds_inside [OF this] show ?thesis by (auto simp: args_at_def place_def)
qed

lemma child_invoked:
  assumes "holds (tree_params c) a xs" "list_all wf_calls xs" "k < length xs" "callee (xs ! k) = Some f"
  shows "opcode f = S_EXPR_PARAM_MAIN \<Longrightarrow> s_expr_invoke_any c a (place xs k) s =
      dispatch_main c f (args_at c a (place xs k)) SE_EVENT_TICK (current_event_id s) (current_event_data s) s"
    and "opcode f = S_EXPR_PARAM_PRED \<Longrightarrow> s_expr_invoke_pred c a (place xs k) s =
      dispatch_pred c f (args_at c a (place xs k)) SE_EVENT_TICK (current_event_id s) (current_event_data s) s"
    and "opcode f = S_EXPR_PARAM_MAIN \<Longrightarrow> terminate_action_at_index c a (place xs k) s =
      (if node_index f \<ge> node_count s \<or> \<not> is_initialized (node_states s ! node_index f) \<or>
          func_index f \<ge> length (main_fns c) then Ret ((), s)
       else case main_fns c ! func_index f of
         None \<Rightarrow> Ret ((), s)
       | Some fn \<Rightarrow> call_terminate c a (place xs k) f fn s)"
proof -
  obtain b where b: "s_base a = Some b" using assms(1,3) by (auto simp: holds_def split: option.splits)
  from child_rd [OF assms(1-3)] assms(4) obtain p where
    p: "rd (tree_params c) a (place xs k) = Ret p" "opcode p = S_EXPR_PARAM_OPEN_CALL"
    "rd (tree_params c) a (Suc (place xs k)) = Ret f"
    by (auto simp: place_def)
  note ca = call_args_at [OF assms]
  show "opcode f = S_EXPR_PARAM_MAIN \<Longrightarrow> s_expr_invoke_any c a (place xs k) s =
      dispatch_main c f (args_at c a (place xs k)) SE_EVENT_TICK (current_event_id s) (current_event_data s) s"
    using b p ca by (simp add: s_expr_invoke_any_def invoke_as_def s_expr_invoke_main_def rdA_def)
  show "opcode f = S_EXPR_PARAM_PRED \<Longrightarrow> s_expr_invoke_pred c a (place xs k) s =
      dispatch_pred c f (args_at c a (place xs k)) SE_EVENT_TICK (current_event_id s) (current_event_data s) s"
    using b p ca by (simp add: s_expr_invoke_pred_def rdA_def)
  show "opcode f = S_EXPR_PARAM_MAIN \<Longrightarrow> terminate_action_at_index c a (place xs k) s =
      (if node_index f \<ge> node_count s \<or> \<not> is_initialized (node_states s ! node_index f) \<or>
          func_index f \<ge> length (main_fns c) then Ret ((), s)
       else case main_fns c ! func_index f of
         None \<Rightarrow> Ret ((), s)
       | Some fn \<Rightarrow> call_terminate c a (place xs k) f fn s)"
    using p ca by (simp add: terminate_action_at_index_def rdA_def split: option.split)
qed

lemma child_reset_at:
  assumes "holds (tree_params c) a xs" "list_all wf_calls xs" "k < length xs" "callee (xs ! k) = Some f"
    "\<forall>n\<in>set (call_nodes (xs ! k)). n < node_count s"
  shows "s_expr_reset_recursive_at c a (place xs k) s = Ret ((), reset_nodes (call_nodes (xs ! k)) s)"
proof -
  obtain opn args cls where x: "xs ! k = Brace opn (Atom f # args) cls" "opcode opn = S_EXPR_PARAM_OPEN_CALL"
    using assms(4) by (cases "xs ! k" rule: callee.cases) (auto split: if_splits)
  have h: "holds (tree_params c) a (take k xs @ Brace opn (Atom f # args) cls # drop (Suc k) xs)"
    using assms(1) id_take_nth_drop [OF assms(3)] x by simp
  have w: "list_all wf_calls args" using assms(2,3) x by (auto simp: list_all_length)
  obtain a' where a': "s_expr_call_args (tree_params c) a (place xs k) = Ret a'" "holds (tree_params c) a' args"
    using holds_inside [OF h] by (auto simp: place_def)
  have r: "rd (tree_params c) a (place xs k) = Ret opn"
    using holds_mid(1) [OF h] by (simp add: place_def)
  let ?s1 = "reset_nodes [node_index f] s"
  have s1: "reset_callable c a (place xs k) s = Ret ((), ?s1)"
    using reset_callable_call [OF h x(2), of s] assms(5) x by (simp add: place_def)
  have "(if s_base a' \<noteq> None \<and> s_count a' > 0 then reset_all_recursive c a' else retA ()) ?s1 =
      Ret ((), reset_nodes (calls_of args) ?s1)"
  proof (cases "s_base a' \<noteq> None \<and> s_count a' > 0")
    case True
    have l: "length (flats args) < Suc (length (tree_params c))"
      using a'(2) by (auto simp: holds_def split: option.splits)
    have "reset_all_recursive c a' ?s1 = Ret ((), reset_nodes (calls_of args) ?s1)"
      unfolding reset_all_recursive_def
      by (rule reset_all_rec_holds [OF a'(2) w _ l]) (use assms(5) x in \<open>auto simp: calls_of_def\<close>)
    then show ?thesis using True by simp
  next
    case False
    then have "args = []" using a'(2) by (auto simp: holds_def split: option.splits)
    then show ?thesis using False by auto
  qed
  then show ?thesis
    using r s1 a'(1) x by (simp add: s_expr_reset_recursive_at_def rdA_def reset_nodes_append calls_of_def)
qed

section \<open>Completion of forks\<close>

definition main_active :: "'w inst \<Rightarrow> sexp \<Rightarrow> bool" where
  "main_active s x = (case callee x of None \<Rightarrow> False
     | Some f \<Rightarrow> opcode f = S_EXPR_PARAM_MAIN \<and> is_active (node_states s ! node_index f))"

lemma forA_Return:
  assumes "forA body is x s = Ret (Return r, s')"
    and "\<And>i x s s'. body i x s = Ret (Return r, s') \<Longrightarrow> Q r"
  shows "Q r"
  using assms(1)
proof (induction "is" arbitrary: x s)
  case (Cons i "is")
  from Cons.prems obtain z s1 where z: "body i x s = Ret (z, s1)"
    "(case z of Next y \<Rightarrow> forA body is y | Leave y \<Rightarrow> retA z | Return r \<Rightarrow> retA z) s1 = Ret (Return r, s')"
    by auto
  show ?case
  proof (cases z)
    case (Next y)
    then show ?thesis using z(2) Cons.IH [of y s1] by simp
  next
    case (Return r')
    then show ?thesis using z assms(2) by simp
  qed (use z(2) in simp)
qed simp

lemma active_main_count_counts:
  assumes "holds (tree_params c) a xs" "list_all wf_calls xs"
    "active_main_count c a (length xs) s = Ret (n, s')"
  shows "s' = s \<and> n = length (filter (main_active s) xs)"
proof -
  let ?body = "\<lambda>k n. bindA (s_expr_child_is_callable c a k) (\<lambda>callable.
       if \<not> callable then retA (Next n)
       else bindA (s_expr_child_func_type c a k) (\<lambda>func_type.
         if func_type \<noteq> S_EXPR_PARAM_MAIN then retA (Next n)
         else bindA (s_expr_child_is_active c a k) (\<lambda>act.
           retA (Next (if act then n + 1 else n) :: (nat, nat) ctl))))"
  have body: "z = Next (if main_active s (xs ! k) then m + 1 else m) \<and> s' = s"
    if "k < length xs" "?body k m s = Ret (z, s')" for k m z s s'
    using that child_seen [OF assms(1,2) that(1), where s = s]
    by (cases "callee (xs ! k)") (auto simp: main_active_def s_expr_child_is_active_def split: if_splits)
  have loop: "z = Next (m + length (filter (main_active s) (drop j xs))) \<and> s' = s"
    if "j \<le> length xs" "forA ?body [j..<length xs] m s = Ret (z, s')" for j m z s s'
    using that
  proof (induction "length xs - j" arbitrary: j m s)
    case 0
    then show ?case by simp
  next
    case (Suc d)
    then have j: "j < length xs" by simp
    from Suc.prems(2) obtain z1 s1 where b: "?body j m s = Ret (z1, s1)"
      "(case z1 of Next y \<Rightarrow> forA ?body [Suc j..<length xs] y | Leave y \<Rightarrow> retA z1 | Return r \<Rightarrow> retA z1) s1 = Ret (z, s')"
      unfolding upt_conv_Cons [OF j] forA.simps by (subst (asm) bindA_app) (auto simp only: res_bind_Ret_iff)
    from body [OF j b(1)] have z1: "z1 = Next (if main_active s (xs ! j) then m + 1 else m)" "s1 = s" by auto
    from Suc.hyps(1) [of "Suc j" "if main_active s (xs ! j) then m + 1 else m" s] Suc.hyps(2) j b(2) z1
    show ?case by (simp add: Cons_nth_drop_Suc [symmetric] del: bindA_app)
  qed
  from assms(3) obtain z s1 where "forA ?body [0..<length xs] 0 s = Ret (z, s1)"
    "(case z of Next x \<Rightarrow> retA x | Leave x \<Rightarrow> retA x | Return r \<Rightarrow> retA r) s1 = Ret (n, s')"
    unfolding active_main_count_def afterA_def by (subst (asm) bindA_app) (auto simp only: res_bind_Ret_iff)
  with loop [of 0 0 s z s1] show ?thesis by auto
qed

text \<open>The codes a fork hands on from a child at once.\<close>

definition handed_on :: "s_expr_result \<Rightarrow> bool" where
  "handed_on r = (below_pipeline r \<and> r \<noteq> SE_FUNCTION_HALT)"

lemma fork_body_Return:
  "se_fork_body c a k u s = Ret (Return r, s') \<Longrightarrow> handed_on r"
  "se_fork_join_body c a k u s = Ret (Return r, s') \<Longrightarrow> handed_on r"
  by (auto simp: se_fork_body_def se_fork_join_body_def handed_on_def Let_def
      split: option.splits if_splits s_expr_result.splits)

lemma main_active_set_state:
  assumes "s_expr_set_state v s = Ret (u, s')"
  shows "main_active s' x = main_active s x"
  using assms
  by (auto simp: s_expr_set_state_def upd_cur_def main_active_def is_active_def nth_list_update
      node_count_def split: option.splits if_splits)

lemma answer_retA: "(if b then answer (retA ()) r else retA r') = retA (if b then r else r')"
  by (simp add: answer_def fun_eq_iff)

lemma fork_check:
  assumes "holds (tree_params c) a xs" "list_all wf_calls xs"
    "bindA (active_main_count c a (length xs)) (\<lambda>n.
      if n = 0 then answer m r0 else retA r1) s = Ret (r, s')"
    "\<And>s u s' x. m s = Ret (u, s') \<Longrightarrow> main_active s' x = main_active s x"
  shows "r = (if \<exists>x\<in>set xs. main_active s' x then r1 else r0)"
proof -
  from assms(3) obtain n s1 where n: "active_main_count c a (length xs) s = Ret (n, s1)"
    "(if n = 0 then answer m r0 else retA r1) s1 = Ret (r, s')" by auto
  from active_main_count_counts [OF assms(1,2) n(1)]
  have "s1 = s" "(n = 0) = (\<forall>x\<in>set xs. \<not> main_active s x)" by (auto simp: filter_empty_conv)
  then show ?thesis
    using n(2) assms(4) by (auto simp: answer_def split: if_splits)
qed

lemma afterA_cases:
  assumes "afterA m f s = Ret (r, s')"
  obtains (ret) s1 where "m s = Ret (Return r, s1)" | (go) x s1 where "f x s1 = Ret (r, s')"
proof -
  from assms obtain z s1 where z: "m s = Ret (z, s1)"
    "(case z of Next x \<Rightarrow> f x | Leave x \<Rightarrow> f x | Return r \<Rightarrow> retA r) s1 = Ret (r, s')"
    by (auto simp: afterA_def)
  show thesis by (cases z) (use z ret go in auto)
qed

text \<open>
  A fork is complete exactly when no \<open>MAIN\<close> child is active: a running fork that gets to
  the end of a tick answers DISABLE if no \<open>MAIN\<close> child is left active and CONTINUE otherwise,
  a fork-join DISABLE or FUNCTION_HALT, whatever the children do; the only other answers are
  the codes below the pipeline codes, without FUNCTION_HALT, that it hands on from a child.
\<close>

theorem fork_completion:
  assumes "holds (tree_params c) a xs" "list_all wf_calls xs"
  shows "(\<forall>r s'. s_expr_get_state s = Ret (FORK_STATE_RUNNING, s) \<longrightarrow>
      se_fork c a SE_EVENT_TICK i d s = Ret (r, s') \<longrightarrow> \<not> handed_on r \<longrightarrow>
      r = (if \<exists>x\<in>set xs. main_active s' x then SE_PIPELINE_CONTINUE else SE_PIPELINE_DISABLE)) \<and>
    (\<forall>r s'. se_fork_join c a SE_EVENT_TICK i d s = Ret (r, s') \<longrightarrow> \<not> handed_on r \<longrightarrow>
      r = (if \<exists>x\<in>set xs. main_active s' x then SE_FUNCTION_HALT else SE_PIPELINE_DISABLE))"
proof (intro conjI allI impI)
  fix r s'
  assume st: "s_expr_get_state s = Ret (FORK_STATE_RUNNING, s)" and np: "\<not> handed_on r"
    and run: "se_fork c a SE_EVENT_TICK i d s = Ret (r, s')"
  have "afterA (forA (se_fork_body c a) [0..<length xs] ()) (\<lambda>_.
           bindA (active_main_count c a (length xs)) (\<lambda>n.
           if n = 0 then answer (s_expr_set_state FORK_STATE_COMPLETE) SE_PIPELINE_DISABLE
           else retA SE_PIPELINE_CONTINUE)) s = Ret (r, s')"
    using run st child_count_holds [OF assms(1)]
    by (simp add: se_fork_def child_count_def del: active_main_count_def)
  then show "r = (if \<exists>x\<in>set xs. main_active s' x then SE_PIPELINE_CONTINUE else SE_PIPELINE_DISABLE)"
  proof (cases rule: afterA_cases)
    case (ret s1)
    then show ?thesis using np forA_Return [OF ret] fork_body_Return(1) by metis
  next
    case (go x s1)
    show ?thesis by (rule fork_check [OF assms go]) (rule main_active_set_state)
  qed
next
  fix r s'
  assume np: "\<not> handed_on r" and run: "se_fork_join c a SE_EVENT_TICK i d s = Ret (r, s')"
  show "r = (if \<exists>x\<in>set xs. main_active s' x then SE_FUNCTION_HALT else SE_PIPELINE_DISABLE)"
  proof -
    have "afterA (forA (se_fork_join_body c a) [0..<length xs] ()) (\<lambda>_.
           bindA (active_main_count c a (length xs)) (\<lambda>n.
           if n = 0 then answer (retA ()) SE_PIPELINE_DISABLE else retA SE_FUNCTION_HALT)) s = Ret (r, s')"
      using run child_count_holds [OF assms(1)]
      by (simp add: se_fork_join_def child_count_def answer_retA)
    then show ?thesis
    proof (cases rule: afterA_cases)
      case (ret s1)
      then show ?thesis using np forA_Return [OF ret] fork_body_Return(2) by metis
    next
      case (go x s1)
      show ?thesis by (rule fork_check [OF assms go]) simp
    qed
  qed
qed

text \<open>A fork of two children: one that goes on and one that disables itself.\<close>

definition fork_row :: "sexp list" where
  "fork_row = [call_of S_EXPR_PARAM_MAIN 1 0 [], call_of S_EXPR_PARAM_MAIN 2 1 []]"

definition fork_ctx :: "'w ctx" where
  "fork_ctx = \<lparr> tree_params = flats fork_row,
     main_fns = [Some (\<lambda>a ev i d. retA SE_PIPELINE_HALT), Some (\<lambda>a ev i d. retA SE_PIPELINE_DISABLE)],
     pred_fns = [], oneshot_fns = [] \<rparr>"

lemma fork_row_holds: "holds (tree_params fork_ctx) (slice_of fork_row) fork_row" "list_all wf_calls fork_row"
  "length fork_row = 2" "callee (fork_row ! 0) = Some (mkp S_EXPR_PARAM_MAIN 1 0)"
  "callee (fork_row ! Suc 0) = Some (mkp S_EXPR_PARAM_MAIN 2 1)"
proof -
  show "holds (tree_params fork_ctx) (slice_of fork_row) fork_row"
    unfolding fork_ctx_def
    by (simp, rule holds_slice_of) (simp_all add: fork_row_def call_of_def flats_def is_brace_open_def)
qed (simp_all add: fork_row_def call_of_def)

theorem fork_completion_witness:
  "\<exists>s'. se_fork_join fork_ctx (slice_of fork_row) SE_EVENT_TICK 4 0 (fresh_inst 3 ()) = Ret (SE_FUNCTION_HALT, s') \<and>
     (\<exists>x\<in>set fork_row. main_active s' x)"
proof -
  note h = fork_row_holds(1) and w = fork_row_holds(2)
  have k: "0 < length fork_row" "Suc 0 < length fork_row" by (simp_all add: fork_row_holds)
  note eval = child_seen(1) [OF h w k(1)] child_seen(1) [OF h w k(2)]
    child_seen(2,3) [OF h w k(1) fork_row_holds(4)] child_seen(2,3) [OF h w k(2) fork_row_holds(5)]
    child_index_place [OF h k(1)] child_index_place [OF h k(2)] place_less(2) [OF h k(1)] place_less(2) [OF h k(2)]
    child_invoked [OF h w k(1) fork_row_holds(4)] child_invoked [OF h w k(2) fork_row_holds(5)]
  have main: "main_fns fork_ctx = [Some (\<lambda>a ev i d. retA SE_PIPELINE_HALT), Some (\<lambda>a ev i d. retA SE_PIPELINE_DISABLE)]"
    by (simp add: fork_ctx_def)
  note call = call_args_at [OF h w k(1) fork_row_holds(4)] call_args_at [OF h w k(2) fork_row_holds(5)]
  have "\<exists>s'. se_fork_join fork_ctx (slice_of fork_row) SE_EVENT_TICK 4 0 (fresh_inst 3 ()) = Ret (SE_FUNCTION_HALT, s')"
    by (simp add: se_fork_join_def child_count_def child_count_holds [OF h] fork_row_holds
      upt_rec afterA_def se_fork_join_body_def fork_select_def eval s_expr_child_is_active_def
      main fresh_inst_def node_count_def ns_fresh_def active_main_count_def call_terminate_def call
      set_node_def nth_list_update is_active_def is_initialized_def ns_clear_def
      dispatch_main_def get_node_state_def enter_node_def upd_node_def restore_node_context_def node_context_of_def
      set_flag_def clear_active_def
      del: res_bind_Ret_iff)
  then show ?thesis
    using fork_completion [OF fork_row_holds(1,2), of "fresh_inst 3 ()" 4 0]
    by (auto simp: handed_on_def split: if_splits)
qed

section \<open>The sequence as a recursion\<close>

text \<open>The answer of a sequence whose child is still running or hands on a code.\<close>

definition paused :: "s_expr_result \<Rightarrow> ('w, s_expr_result) iact" where
  "paused r = (if r = SE_FUNCTION_HALT then retA SE_PIPELINE_HALT
     else if below_pipeline r then retA r
     else if r \<in> {SE_PIPELINE_CONTINUE, SE_PIPELINE_HALT, SE_PIPELINE_SKIP_CONTINUE} then retA SE_PIPELINE_CONTINUE
     else excA ''se_sequence: unknown result code'')"

text \<open>
  The children left, each with its place and its function reference: parameters that are no
  calls are passed over, oneshots and predicates are invoked and passed over, a \<open>MAIN\<close> child
  keeps the sequence until it is done. The number of the child it stands at is in its state.
\<close>

fun sequence_from :: "'w ctx \<Rightarrow> slice \<Rightarrow> (nat \<times> s_expr_param option) list \<Rightarrow> nat \<Rightarrow> ('w, s_expr_result) iact" where
  "sequence_from c a [] k = retA SE_PIPELINE_DISABLE"
| "sequence_from c a ((i, z) # rest) k =
     (let next = seqA (s_expr_set_state (k + 1)) (sequence_from c a rest (k + 1)) in
      case z of
        None \<Rightarrow> next
      | Some f \<Rightarrow>
          if opcode f = S_EXPR_PARAM_ONESHOT \<or> opcode f = S_EXPR_PARAM_PRED then
            bindA (s_expr_invoke_any c a i) (\<lambda>_. next)
          else bindA (s_expr_invoke_any c a i) (\<lambda>r.
            if r \<in> {SE_PIPELINE_DISABLE, SE_PIPELINE_TERMINATE, SE_PIPELINE_RESET}
            then seqA (s_expr_child_terminate c a k) next
            else paused r))"

definition children_of :: "sexp list \<Rightarrow> (nat \<times> s_expr_param option) list" where
  "children_of xs = map (\<lambda>k. (place xs k, callee (xs ! k))) [0..<length xs]"

lemma children_of_drop:
  "k < length xs \<Longrightarrow> drop k (children_of xs) = (place xs k, callee (xs ! k)) # drop (Suc k) (children_of xs)"
  by (simp add: children_of_def Cons_nth_drop_Suc [symmetric])

lemma set_state_returns: "\<exists>s'. s_expr_set_state v s = Ret ((), s')"
  by (simp add: s_expr_set_state_def upd_cur_def)

lemma sequence_step_cases:
  assumes "holds (tree_params c) a xs" "list_all wf_calls xs" "k < length xs"
  shows "se_sequence_step c a k s = (case callee (xs ! k) of
      None \<Rightarrow> seq_advance k s
    | Some f \<Rightarrow>
        if opcode f = S_EXPR_PARAM_ONESHOT \<or> opcode f = S_EXPR_PARAM_PRED then
          bindA (s_expr_invoke_any c a (place xs k)) (\<lambda>_. seq_advance k) s
        else bindA (s_expr_invoke_any c a (place xs k)) (\<lambda>r.
          if r \<in> {SE_PIPELINE_DISABLE, SE_PIPELINE_TERMINATE, SE_PIPELINE_RESET}
          then seqA (s_expr_child_terminate c a k) (seq_advance k)
          else bindA (paused r) (\<lambda>r. retA (Inr r))) s)"
proof (cases "callee (xs ! k)")
  case None
  then show ?thesis using child_seen(1) [OF assms, of s] by (simp add: se_sequence_step_def)
next
  case (Some f)
  have body: "(if rnum r \<le> rnum SE_SKIP_CONTINUE then retA (Inr r)
           else if rnum SE_FUNCTION_CONTINUE \<le> rnum r \<and> rnum r \<le> rnum SE_FUNCTION_SKIP_CONTINUE then
             retA (Inr (if r = SE_FUNCTION_HALT then SE_PIPELINE_HALT else r))
           else case r of
             SE_PIPELINE_CONTINUE \<Rightarrow> retA (Inr SE_PIPELINE_CONTINUE)
           | SE_PIPELINE_HALT \<Rightarrow> retA (Inr SE_PIPELINE_CONTINUE)
           | SE_PIPELINE_DISABLE \<Rightarrow> seqA (s_expr_child_terminate c a k) (seq_advance k)
           | SE_PIPELINE_TERMINATE \<Rightarrow> seqA (s_expr_child_terminate c a k) (seq_advance k)
           | SE_PIPELINE_RESET \<Rightarrow> seqA (s_expr_child_terminate c a k) (seq_advance k)
           | SE_PIPELINE_SKIP_CONTINUE \<Rightarrow> retA (Inr SE_PIPELINE_CONTINUE)
           | _ \<Rightarrow> excA ''se_sequence: unknown result code'') =
      (if r \<in> {SE_PIPELINE_DISABLE, SE_PIPELINE_TERMINATE, SE_PIPELINE_RESET}
          then seqA (s_expr_child_terminate c a k) (seq_advance k)
          else bindA (paused r) (\<lambda>r. retA (Inr r)))" for r
    by (cases r) (auto simp: paused_def fun_eq_iff)
  show ?thesis
    unfolding se_sequence_step_def
    using child_seen(1,2) [OF assms] child_index_place [OF assms(1,3)] place_less(2) [OF assms(1,3)] Some
    by (simp add: body [simplified])
qed

lemma seq_advance_small: "k < 255 \<Longrightarrow> seq_advance k s = bindA (s_expr_set_state (k + 1)) (\<lambda>_. retA (Inl (k + 1))) s"
  by (simp add: seq_advance_def seqA_def Let_def)

lemma sequence_loop:
  assumes "holds (tree_params c) a xs" "list_all wf_calls xs" "length xs < 256"
    "k \<le> length xs" "length xs - k \<le> m"
  shows "bindA (whileA m (\<lambda>state. state < length xs) (se_sequence_step c a) k)
      (\<lambda>r. case r of Inl _ \<Rightarrow> retA SE_PIPELINE_DISABLE | Inr x \<Rightarrow> retA x) s =
    sequence_from c a (drop k (children_of xs)) k s"
  using assms(4,5)
proof (induction m arbitrary: k s)
  case 0
  then show ?case by (simp add: whileA.simps children_of_def)
next
  case (Suc m)
  let ?post = "\<lambda>r :: nat + s_expr_result. case r of Inl _ \<Rightarrow> retA SE_PIPELINE_DISABLE | Inr x \<Rightarrow> retA x"
  show ?case
  proof (cases "k < length xs")
    case False
    then show ?thesis using Suc.prems(1) by (simp add: whileA_stop children_of_def)
  next
    case True
    have k: "k < 255" using True assms(3) by simp
    have adv: "res_bind (seq_advance k s) (\<lambda>(x, s'). bindA (case x of Inl j \<Rightarrow> whileA m (\<lambda>state. state < length xs) (se_sequence_step c a) j
        | Inr r \<Rightarrow> retA (Inr r)) ?post s') =
      bindA (s_expr_set_state (k + 1)) (\<lambda>_. sequence_from c a (drop (Suc k) (children_of xs)) (k + 1)) s" for s
    proof -
      obtain s' where s': "s_expr_set_state (k + 1) s = Ret ((), s')" using set_state_returns by blast
      have "bindA (whileA m (\<lambda>state. state < length xs) (se_sequence_step c a) (k + 1)) ?post s' =
          sequence_from c a (drop (k + 1) (children_of xs)) (k + 1) s'"
        by (rule Suc.IH) (use True Suc.prems in auto)
      then show ?thesis using s' k by (simp add: seq_advance_small)
    qed
    have "bindA (whileA (Suc m) (\<lambda>state. state < length xs) (se_sequence_step c a) k) ?post s =
      res_bind (se_sequence_step c a k s) (\<lambda>(x, s'). bindA (case x of Inl j \<Rightarrow> whileA m (\<lambda>state. state < length xs) (se_sequence_step c a) j
        | Inr r \<Rightarrow> retA (Inr r)) ?post s')"
      using True by (cases "se_sequence_step c a k s") (auto simp: whileA.simps [of "Suc m"])
    also have "\<dots> = sequence_from c a (drop k (children_of xs)) k s"
    proof (cases "callee (xs ! k)")
      case None
      then show ?thesis
        using adv [of s] by (simp add: sequence_step_cases [OF assms(1,2) True] children_of_drop [OF True])
    next
      case (Some f)
      show ?thesis
      proof (cases "s_expr_invoke_any c a (place xs k) s")
        case (Ret y)
        obtain r s1 where y: "y = (r, s1)" by (cases y)
        have "res_bind (bindA (paused r) (\<lambda>r. retA (Inr r)) s1) (\<lambda>(x, s'). bindA (case x of Inl j \<Rightarrow> whileA m (\<lambda>state. state < length xs) (se_sequence_step c a) j
            | Inr r \<Rightarrow> retA (Inr r)) ?post s') = paused r s1"
          by (auto simp: paused_def)
        moreover have "res_bind (seqA (s_expr_child_terminate c a k) (seq_advance k) s1) (\<lambda>(x, s'). bindA (case x of Inl j \<Rightarrow> whileA m (\<lambda>state. state < length xs) (se_sequence_step c a) j
            | Inr r \<Rightarrow> retA (Inr r)) ?post s') =
          seqA (s_expr_child_terminate c a k) (seqA (s_expr_set_state (k + 1)) (sequence_from c a (drop (Suc k) (children_of xs)) (k + 1))) s1"
          by (cases "s_expr_child_terminate c a k s1") (auto simp: adv [simplified])
        ultimately show ?thesis
          using Ret y Some adv [of s1]
          by (simp add: sequence_step_cases [OF assms(1,2) True] children_of_drop [OF True])
      qed (use Some in \<open>simp_all add: sequence_step_cases [OF assms(1,2) True] children_of_drop [OF True]\<close>)
    qed
    finally show ?thesis .
  qed
qed

text \<open>
  C16. A tick of a sequence with fewer than 256 children is a recursion over the children it has
  left from the one in its node state: it passes over what is no call, invokes oneshots and
  predicates once, stays at a \<open>MAIN\<close> child until that is done, and answers DISABLE past the
  last child. In particular the loop ends within its fuel.
\<close>

theorem sequence_recursion:
  assumes "holds (tree_params c) a xs" "list_all wf_calls xs" "length xs < 256"
    "s_expr_get_state s = Ret (k, s)"
  shows "se_sequence c a SE_EVENT_TICK i d s = sequence_from c a (drop k (children_of xs)) k s"
proof -
  have run: "se_sequence c a SE_EVENT_TICK i d s =
      bindA (whileA nav_fuel (\<lambda>state. state < length xs) (se_sequence_step c a) k)
        (\<lambda>r. case r of Inl _ \<Rightarrow> retA SE_PIPELINE_DISABLE | Inr x \<Rightarrow> retA x) s"
    using assms(4) child_count_holds [OF assms(1)] by (simp add: se_sequence_def child_count_def)
  show ?thesis
  proof (cases "k \<le> length xs")
    case True
    show ?thesis
      unfolding run by (rule sequence_loop [OF assms(1-3) True]) (use assms(3) in \<open>simp add: nav_fuel_def\<close>)
  next
    case False
    then show ?thesis unfolding run by (simp add: whileA_stop children_of_def)
  qed
qed

theorem sequence_recursion_witness:
  "se_sequence fork_ctx (slice_of fork_row) SE_EVENT_TICK 4 0 (fresh_inst 3 ()) =
     sequence_from fork_ctx (slice_of fork_row)
       [(0, Some (mkp S_EXPR_PARAM_MAIN 1 0)), (3, Some (mkp S_EXPR_PARAM_MAIN 2 1))] 0 (fresh_inst 3 ())"
proof -
  have "s_expr_get_state (fresh_inst 3 ()) = Ret (0, fresh_inst 3 ())"
    by (simp add: s_expr_get_state_def cur_node_def fresh_inst_def node_count_def ns_fresh_def)
  note run = sequence_recursion [OF fork_row_holds(1,2) _ this, of 4 0]
  have "children_of fork_row = [(0, Some (mkp S_EXPR_PARAM_MAIN 1 0)), (3, Some (mkp S_EXPR_PARAM_MAIN 2 1))]"
    by (simp add: children_of_def place_def fork_row_def call_of_def flats_def upt_rec)
  with run show ?thesis by (simp add: fork_row_holds(3) del: sequence_from.simps)
qed

text \<open>
  A sequence of 256 parameters or more that are no calls never comes to the end of its
  first tick: the child number is a byte and wraps before it reaches the number of children.
\<close>

theorem sequence_overflow_diverges:
  assumes "holds (tree_params c) a xs" "list_all wf_calls xs" "256 \<le> length xs"
    "\<forall>k < 256. callee (xs ! k) = None"
  shows "se_sequence c a SE_EVENT_TICK i d s = Diverge"
proof -
  have loop: "whileA m (\<lambda>state. state < length xs) (se_sequence_step c a) k s = Diverge" if "k < 256" for m k s
    using that
  proof (induction m arbitrary: k s)
    case 0
    then show ?case using assms(3) by (simp add: whileA.simps)
  next
    case (Suc m)
    then have k: "k < length xs" "callee (xs ! k) = None" using assms(3,4) by auto
    obtain s' where "s_expr_set_state ((k + 1) mod 256) s = Ret ((), s')" using set_state_returns by blast
    then have "se_sequence_step c a k s = Ret (Inl ((k + 1) mod 256), s')"
      by (simp add: sequence_step_cases [OF assms(1,2) k(1)] k(2) seq_advance_def Let_def)
    then show ?case using k(1) Suc.IH [of "(k + 1) mod 256" s']
      by (simp add: whileA.simps [of "Suc m"])
  qed
  obtain k where k: "s_expr_get_state s = Ret (k, s)" "k < 256"
  proof -
    have "unat (ns_state n) < 256" for n using unsigned_less [of "ns_state n"] by simp
    then show thesis using that by (cases "cur_node s") (auto simp: s_expr_get_state_def)
  qed
  then show ?thesis
    using loop [OF k(2)] child_count_holds [OF assms(1)] by (simp add: se_sequence_def child_count_def)
qed

theorem sequence_overflow_diverges_witness:
  "se_sequence (ctx_of (replicate 256 (Atom (mkp S_EXPR_PARAM_INT 0 0))) (\<lambda>_ _ _. True))
     (slice_of (replicate 256 (Atom (mkp S_EXPR_PARAM_INT 0 0)))) SE_EVENT_TICK 4 0 (fresh_inst 1 ()) = Diverge"
proof -
  let ?xs = "replicate 256 (Atom (mkp S_EXPR_PARAM_INT 0 0))"
  have "holds (flats ?xs) (slice_of ?xs) ?xs"
    by (rule holds_slice_of)
      (simp_all add: list_all_length is_brace_open_def flats_def map_replicate_const sum_list_replicate
        length_concat)
  then have h: "holds (tree_params (ctx_of ?xs (\<lambda>_ _ (_ :: unit). True))) (slice_of ?xs) ?xs"
    by (simp add: ctx_of_def)
  show ?thesis
    by (rule sequence_overflow_diverges [OF h]) (simp_all add: list_all_length)
qed

end
