(* ===== verification/SE_Lifecycle.thy ===== *)
theory SE_Lifecycle
  imports SE_Run
begin

text \<open>
  The life cycle of nodes: which events the function of a \<open>MAIN\<close> node receives from one
  dispatch, and how often the function of a \<open>ONESHOT\<close> runs. The functions observed are
  arbitrary functions of the events they have seen, which log every call in \<open>user_ctx\<close>.
\<close>

section \<open>Flags\<close>

lemma set_flag_simps [simp]:
  "is_active (set_flag S_EXPR_NODE_FLAG_INITIALIZED n) = is_active n"
  "is_initialized (set_flag S_EXPR_NODE_FLAG_INITIALIZED n)"
  "is_ever_init (set_flag S_EXPR_NODE_FLAG_INITIALIZED n) = is_ever_init n"
  "is_active (set_flag S_EXPR_NODE_FLAG_EVER_INIT n) = is_active n"
  "is_initialized (set_flag S_EXPR_NODE_FLAG_EVER_INIT n) = is_initialized n"
  "is_ever_init (set_flag S_EXPR_NODE_FLAG_EVER_INIT n)"
  "\<not> is_active (clear_active n)" "is_initialized (clear_active n) = is_initialized n"
  "is_ever_init (clear_active n) = is_ever_init n"
  by (simp_all add: is_active_def is_initialized_def is_ever_init_def set_flag_def clear_active_def
      flag_bit bit_simps)

section \<open>Logging functions\<close>

type_synonym event_log = "s_expr_event_type list"

definition logging :: "(s_expr_event_type \<Rightarrow> event_log \<Rightarrow> s_expr_result) \<Rightarrow> (event_log, s_expr_result) node_fn" where
  "logging g a ev event_id event_data =
     (\<lambda>s. Ret (g ev (user_ctx s), s \<lparr> user_ctx := user_ctx s @ [ev] \<rparr>))"

text \<open>The events and the result of one dispatch, as the life cycle prescribes them.\<close>

definition lifecycle ::
    "(s_expr_event_type \<Rightarrow> event_log \<Rightarrow> s_expr_result) \<Rightarrow> bool \<Rightarrow> s_expr_event_type \<Rightarrow> event_log \<Rightarrow> event_log \<times> s_expr_result" where
  "lifecycle g ini ev log =
     (let log1 = (if ini then log else log @ [SE_EVENT_INIT]);
          r = g ev log1;
          log2 = log1 @ [ev]
      in (if r = SE_PIPELINE_DISABLE then log2 @ [SE_EVENT_TERMINATE] else log2, r))"

lemma dispatch_main_logging:
  assumes "k < length (main_fns c)" "main_fns c ! k = Some (logging g)"
    "func_index fp = k" "node_index fp = n" "n < node_count s" "is_active (node_states s ! n)"
    "lifecycle g (is_initialized (node_states s ! n)) ev (user_ctx s) = (log', r)"
  shows "dispatch_main c fp args ev i d s = Ret (r, s \<lparr> user_ctx := log',
      node_states := (node_states s)[n :=
        (if r = SE_PIPELINE_DISABLE then clear_active else id)
          (if is_initialized (node_states s ! n) then node_states s ! n
           else set_flag S_EXPR_NODE_FLAG_INITIALIZED (node_states s ! n))] \<rparr>)"
  using assms
  by (cases s)
    (auto simp: dispatch_main_def get_node_state_def node_count_def enter_node_def logging_def
      upd_node_def restore_node_context_def node_context_of_def lifecycle_def Let_def
      split: if_splits)

section \<open>Oneshots\<close>

datatype oneshot_op = Invoke | Reset

definition counting :: "(nat, unit) node_fn" where
  "counting a ev event_id event_data = (\<lambda>s. Ret ((), s \<lparr> user_ctx := user_ctx s + 1 \<rparr>))"

fun oneshot_run :: "nat ctx \<Rightarrow> s_expr_param \<Rightarrow> oneshot_op list \<Rightarrow> (nat, unit) iact" where
  "oneshot_run c fp [] = retA ()"
| "oneshot_run c fp (Invoke # ops) =
     seqA (dispatch_oneshot c fp \<lparr> s_base = None, s_count = 0 \<rparr> SE_EVENT_TICK 0 0) (oneshot_run c fp ops)"
| "oneshot_run c fp (Reset # ops) = seqA (upd_node (node_index fp) ns_reset) (oneshot_run c fp ops)"

text \<open>The firings the flags allow: one after each reset, or one in all if it survives resets.\<close>

fun firings :: "bool \<Rightarrow> bool \<Rightarrow> oneshot_op list \<Rightarrow> nat" where
  "firings survives fired [] = 0"
| "firings survives fired (Invoke # ops) = (if fired then 0 else 1) + firings survives True ops"
| "firings survives fired (Reset # ops) = firings survives (fired \<and> survives) ops"

lemma firings_survives: "firings True True ops = 0" "firings True b ops \<le> 1"
proof -
  show f: "firings True True ops = 0" for ops
    by (induction "True" "True" ops rule: firings.induct) auto
  show "firings True b ops \<le> 1"
    by (induction "True" b ops rule: firings.induct) (auto simp: f)
qed

lemma firings_unreset:
  "Reset \<notin> set ops \<Longrightarrow> firings False True ops = 0"
  "Reset \<notin> set ops \<Longrightarrow> Invoke \<in> set ops \<Longrightarrow> firings False False ops = 1"
proof -
  show f: "Reset \<notin> set ops \<Longrightarrow> firings False True ops = 0" for ops
    by (induction "False" "True" ops rule: firings.induct) auto
  show "Reset \<notin> set ops \<Longrightarrow> Invoke \<in> set ops \<Longrightarrow> firings False False ops = 1"
    by (rule firings.cases [of "(False, False, ops)"]) (auto simp: f)
qed

definition fired :: "s_expr_param \<Rightarrow> s_expr_node_state \<Rightarrow> bool" where
  "fired fp n = (if survives_reset fp then is_ever_init n else is_initialized n)"

lemma fired_simps [simp]:
  "fired fp (ns_reset n) = (fired fp n \<and> survives_reset fp)"
  "fired fp (set_flag (if survives_reset fp then S_EXPR_NODE_FLAG_EVER_INIT
                       else S_EXPR_NODE_FLAG_INITIALIZED) n)"
  by (simp_all add: fired_def)

lemma dispatch_oneshot_counting:
  assumes "func_index fp < length (oneshot_fns c)" "oneshot_fns c ! func_index fp = Some counting"
    "node_index fp < node_count s"
  shows "\<exists>s'. dispatch_oneshot c fp a ev i d s = Ret ((), s') \<and> node_count s' = node_count s \<and>
    fired fp (node_states s' ! node_index fp) \<and>
    user_ctx s' = user_ctx s + (if fired fp (node_states s ! node_index fp) then 0 else 1)"
proof -
  have f: "(ns_flags n AND (if survives_reset fp then S_EXPR_NODE_FLAG_EVER_INIT
      else S_EXPR_NODE_FLAG_INITIALIZED) \<noteq> 0) = fired fp n" for n
    by (simp add: fired_def is_ever_init_def is_initialized_def)
  show ?thesis
  proof (cases "fired fp (node_states s ! node_index fp)")
    case True
    then show ?thesis
      using assms by (simp add: dispatch_oneshot_def get_node_state_def Let_def f)
  next
    case False
    then show ?thesis
      using assms
      by (simp add: dispatch_oneshot_def get_node_state_def Let_def f counting_def upd_node_def
          set_current_node_def node_count_def)
  qed
qed

lemma oneshot_run_firings:
  assumes "func_index fp < length (oneshot_fns c)" "oneshot_fns c ! func_index fp = Some counting"
    "node_index fp < node_count s"
  shows "\<exists>s'. oneshot_run c fp ops s = Ret ((), s') \<and>
    user_ctx s' = user_ctx s + firings (survives_reset fp) (fired fp (node_states s ! node_index fp)) ops"
  using assms(3)
proof (induction ops arbitrary: s)
  case (Cons op ops)
  show ?case
  proof (cases op)
    case Invoke
    from dispatch_oneshot_counting [OF assms(1,2) Cons.prems]
    obtain s1 where s1: "dispatch_oneshot c fp \<lparr> s_base = None, s_count = 0 \<rparr> SE_EVENT_TICK 0 0 s = Ret ((), s1)"
      "node_count s1 = node_count s" "fired fp (node_states s1 ! node_index fp)"
      "user_ctx s1 = user_ctx s + (if fired fp (node_states s ! node_index fp) then 0 else 1)" by blast
    with Cons.IH [of s1] Cons.prems Invoke show ?thesis by auto
  next
    case Reset
    let ?s1 = "s \<lparr> node_states := (node_states s)[node_index fp := ns_reset (node_states s ! node_index fp)] \<rparr>"
    have "node_index fp < node_count ?s1" using Cons.prems by (simp add: node_count_def)
    from Cons.IH [OF this] Reset Cons.prems show ?thesis by (auto simp: upd_node_def node_count_def)
  qed
qed simp

section \<open>Properties\<close>

text \<open>
  C1. One dispatch of a \<open>MAIN\<close> node: an inactive node is left alone and the pipeline goes on;
  an active node's function is called with INIT if it was not initialized, then with the event,
  then with TERMINATE if the result disables it. The result is what the function returned for
  the event; afterwards the node is initialized, active unless disabled, and nothing else of
  the instance has changed.
\<close>

theorem dispatch_main_lifecycle:
  assumes "func_index fp < length (main_fns c)" "main_fns c ! func_index fp = Some (logging g)"
    "node_index fp < node_count s"
    "lifecycle g (is_initialized (node_states s ! node_index fp)) ev (user_ctx s) = (log', r)"
  shows "if is_active (node_states s ! node_index fp)
    then \<exists>n'. dispatch_main c fp args ev i d s =
        Ret (r, s \<lparr> user_ctx := log', node_states := (node_states s)[node_index fp := n'] \<rparr>) \<and>
      is_initialized n' \<and> is_active n' = (r \<noteq> SE_PIPELINE_DISABLE)
    else dispatch_main c fp args ev i d s = Ret (SE_PIPELINE_CONTINUE, s)"
proof (cases "is_active (node_states s ! node_index fp)")
  case True
  let ?n = "node_states s ! node_index fp"
  let ?n' = "(if r = SE_PIPELINE_DISABLE then clear_active else id)
    (if is_initialized ?n then ?n else set_flag S_EXPR_NODE_FLAG_INITIALIZED ?n)"
  have "is_initialized ?n'" "is_active ?n' = (r \<noteq> SE_PIPELINE_DISABLE)" using True by auto
  with dispatch_main_logging [OF assms(1,2) refl refl assms(3) True assms(4), of args i d] True
  show ?thesis by (simp only: if_True) blast
next
  case False
  then show ?thesis using assms(3) by (simp add: dispatch_main_def get_node_state_def)
qed

definition log_ctx :: "(s_expr_event_type \<Rightarrow> event_log \<Rightarrow> s_expr_result) \<Rightarrow> event_log ctx" where
  "log_ctx g = \<lparr> tree_params = flats [call_of S_EXPR_PARAM_MAIN 0 0 []],
     main_fns = [Some (logging g)], pred_fns = [], oneshot_fns = [] \<rparr>"

theorem dispatch_main_lifecycle_witness:
  "\<exists>s'. dispatch_main (log_ctx (\<lambda>_ _. SE_PIPELINE_DISABLE)) (mkp S_EXPR_PARAM_MAIN 0 0)
     \<lparr> s_base = None, s_count = 0 \<rparr> SE_EVENT_TICK 4 0 (fresh_inst 1 []) = Ret (SE_PIPELINE_DISABLE, s') \<and>
     user_ctx s' = [SE_EVENT_INIT, SE_EVENT_TICK, SE_EVENT_TERMINATE]"
proof -
  let ?s = "fresh_inst 1 [] :: event_log inst" and ?g = "\<lambda>_ _. SE_PIPELINE_DISABLE"
  have "is_active (node_states ?s ! 0)" "\<not> is_initialized (node_states ?s ! 0)"
    by (simp_all add: fresh_inst_def ns_fresh_def is_active_def is_initialized_def)
  moreover have "func_index (mkp S_EXPR_PARAM_MAIN 0 0) < length (main_fns (log_ctx ?g))"
    "main_fns (log_ctx ?g) ! func_index (mkp S_EXPR_PARAM_MAIN 0 0) = Some (logging ?g)"
    "node_index (mkp S_EXPR_PARAM_MAIN 0 0) < node_count ?s" "user_ctx ?s = []"
    by (simp_all add: log_ctx_def node_count_def fresh_inst_def)
  ultimately show ?thesis
    using dispatch_main_lifecycle [of "mkp S_EXPR_PARAM_MAIN 0 0" "log_ctx ?g" ?g ?s SE_EVENT_TICK
        "[SE_EVENT_INIT, SE_EVENT_TICK, SE_EVENT_TERMINATE]" SE_PIPELINE_DISABLE
        "\<lparr> s_base = None, s_count = 0 \<rparr>" 4 0]
    by (auto simp: lifecycle_def)
qed

text \<open>
  C2. A \<open>ONESHOT\<close> runs once between resets of its node, and a \<open>ONESHOT\<close> that survives resets
  runs once in all: over any sequence of invocations and resets its function is called exactly
  as often as \<open>firings\<close> says, which is at most once when it survives resets.
\<close>

theorem oneshot_fires_once:
  assumes "func_index fp < length (oneshot_fns c)" "oneshot_fns c ! func_index fp = Some counting"
    "node_index fp < node_count s"
  shows "(\<exists>s'. oneshot_run c fp ops s = Ret ((), s') \<and>
      user_ctx s' = user_ctx s + firings (survives_reset fp) (fired fp (node_states s ! node_index fp)) ops) \<and>
    firings True b ops \<le> 1 \<and> (Invoke \<notin> set ops \<or> Reset \<in> set ops \<or> firings False False ops = 1)"
proof -
  have "firings True b ops \<le> 1" by (rule firings_survives)
  moreover have "Invoke \<notin> set ops \<or> Reset \<in> set ops \<or> firings False False ops = 1"
    using firings_unreset(2) by blast
  ultimately show ?thesis using oneshot_run_firings [OF assms, of ops] by blast
qed

theorem oneshot_fires_once_witness:
  "\<exists>s'. oneshot_run \<lparr> tree_params = [], main_fns = [], pred_fns = [], oneshot_fns = [Some counting] \<rparr>
      (mkp S_EXPR_PARAM_ONESHOT 0 0) [Invoke, Invoke, Reset, Invoke] (fresh_inst 1 0) = Ret ((), s') \<and>
    user_ctx s' = 2"
  using oneshot_fires_once [of "mkp S_EXPR_PARAM_ONESHOT 0 0"
      "\<lparr> tree_params = [], main_fns = [], pred_fns = [], oneshot_fns = [Some counting] \<rparr>" "fresh_inst 1 0"
      "[Invoke, Invoke, Reset, Invoke]"]
  by (simp add: fresh_inst_def node_count_def fired_def ns_fresh_def is_initialized_def
      numeral_2_eq_2 del: oneshot_run.simps)

end
