(* ===== verification/SE_DictRuns.thy ===== *)
theory SE_DictRuns
  imports SE_DictTrees SE_DictOps SE_Compose SE_Lifecycle
begin

text \<open>
  Dictionaries at work: a dictionary whose pointer is loaded into a field and a value extracted from
  it into another, and the entry of a dictionary of functions that is run by its key.
\<close>

section \<open>Bytes of a field\<close>

lemma le32_other:
  assumes "j + 4 \<le> k \<or> k + 4 \<le> j"
  shows "le32 (put32 bb k v) j = le32 bb j"
  using assms by (auto simp: le32_def put32_def nth_list_update)

lemma length_put32 [simp]: "length (put32 bb k v) = length bb"
  by (simp add: put32_def)

lemma length_put64 [simp]: "length (put64 bb k v) = length bb"
  by (simp add: put64_def)

lemma halves: "push_bit 32 (ucast (ucast (drop_bit 32 v) :: 32 word)) OR ucast (ucast v :: 32 word) = (v :: 64 word)"
proof (rule bit_word_eqI)
  fix n assume "n < LENGTH(64)"
  then consider "n < 32" | "32 \<le> n" "n < 64" by force
  then show "bit (push_bit 32 (ucast (ucast (drop_bit 32 v) :: 32 word)) OR ucast (ucast v :: 32 word) :: 64 word) n = bit v n"
    by cases (auto simp: bit_simps)
qed

lemma le64_put64:
  assumes "k + 8 \<le> length bb"
  shows "le64 (put64 bb k v) k = v"
proof -
  have "le32 (put64 bb k v) (k + 4) = ucast (drop_bit 32 v)"
    unfolding put64_def by (rule le32_put32) (use assms in simp)
  moreover have "le32 (put64 bb k v) k = ucast v"
    using assms by (simp add: put64_def le32_other le32_put32)
  ultimately show ?thesis by (simp only: le64_def halves)
qed

text \<open>The four bytes that a store of a 32-bit value writes.\<close>

lemma low_bytes:
  "map (\<lambda>i. ucast (drop_bit (8 * i) (scast v :: 64 word)) :: 8 word) [0..<4] =
    [ucast v, ucast (drop_bit 8 v), ucast (drop_bit 16 v), ucast (drop_bit 24 (v :: 32 word))]"
proof -
  have "(ucast (drop_bit k (scast v :: 64 word)) :: 8 word) = ucast (drop_bit k v)" if "k \<le> 24" for k
  proof (rule bit_word_eqI)
    fix n assume "n < LENGTH(8)"
    then have "31 \<le> k + n \<Longrightarrow> k + n = 31" "k + n < 64" using that by simp_all
    then show "bit (ucast (drop_bit k (scast v :: 64 word)) :: 8 word) n = bit (ucast (drop_bit k v) :: 8 word) n"
      by (auto simp: bit_simps bit_signed_iff min_def)
  qed
  from this [of 0] this [of 8] this [of 16] this [of 24] show ?thesis
    by (simp add: upt_rec)
qed

lemma store_four:
  assumes "k + 4 \<le> length bb"
  shows "take k bb @ [b0, b1, b2, b3] @ drop (k + 4) bb = bb[k := b0, k + 1 := b1, k + 2 := b2, k + 3 := b3]"
proof (rule nth_equalityI)
  fix i assume "i < length (take k bb @ [b0, b1, b2, b3] @ drop (k + 4) bb)"
  then have i: "i < length bb" using assms by simp
  consider "i < k" | "i = k" | "i = k + 1" | "i = k + 2" | "i = k + 3" | "k + 4 \<le> i" by linarith
  then show "(take k bb @ [b0, b1, b2, b3] @ drop (k + 4) bb) ! i = bb[k := b0, k + 1 := b1, k + 2 := b2, k + 3 := b3] ! i"
    using i assms by cases (auto simp: nth_append nth_Cons' nth_list_update)
qed (use assms in simp)

lemma write_int_four:
  assumes "opcode fp = S_EXPR_PARAM_FIELD" "field_size fp = 4" "blackboard s = Some bb" "field_offset fp + 4 \<le> length bb"
  shows "write_int_to_field fp v s = Ret ((), s \<lparr> blackboard := Some (put32 bb (field_offset fp) v) \<rparr>)"
  using assms store_four [OF assms(4)]
  by (simp add: write_int_to_field_def field_guarded_def bb_store_def low_bytes put32_def)

section \<open>Loading and extracting\<close>

lemma ptr_of_addr:
  assumes "0 < d_base D" "d_base D + 8 * i < 2 ^ 32"
  shows "ptr_of D P (ucast (addr_of D (Some i))) = Some i"
proof -
  have "unat (ucast (addr_of D (Some i)) :: 32 word) = d_base D + 8 * i"
    using assms(2) by (simp add: addr_of_def unsigned_ucast_eq unsigned_of_nat take_bit_nat_def del: of_nat_add of_nat_mult)
  moreover from this have "(ucast (addr_of D (Some i)) :: 32 word) \<noteq> 0"
    using assms(1) by (metis add_is_0 less_numeral_extra(3) unat_0)
  ultimately show ?thesis by (simp add: ptr_of_def)
qed

text \<open>The field parameters and the path of an extraction, as they stand in its slice.\<close>

definition extract_slice :: "s_expr_param list \<Rightarrow> slice \<Rightarrow> s_expr_param \<Rightarrow> 32 word list \<Rightarrow> s_expr_param \<Rightarrow> bool" where
  "extract_slice P a src hs dst = (s_count a = length hs + 2 \<and> rd P a 0 = Ret src \<and>
     (\<forall>i < length hs. \<exists>p. rd P a (i + 1) = Ret p \<and> opcode p = S_EXPR_PARAM_STR_HASH \<and> str_hash p = hs ! i) \<and>
     rd P a (length hs + 1) = Ret dst \<and> opcode dst = S_EXPR_PARAM_FIELD)"

lemma collect_slice:
  assumes "\<And>i. i < n \<Longrightarrow> \<exists>p. rd P a (k + i) = Ret p \<and> opcode p = S_EXPR_PARAM_STR_HASH \<and> str_hash p = f i"
  shows "collect_from P a k n = Ret (Some (map f [0..<n]))"
  using assms
proof (induction n arbitrary: k f)
  case (Suc n)
  from Suc.prems [of 0] obtain p where p: "rd P a k = Ret p" "opcode p = S_EXPR_PARAM_STR_HASH" "str_hash p = f 0" by auto
  have "collect_from P a (k + 1) n = Ret (Some (map (\<lambda>i. f (Suc i)) [0..<n]))"
    by (rule Suc.IH) (use Suc.prems [of "Suc _"] in auto)
  moreover have "map f [0..<Suc n] = f 0 # map (\<lambda>i. f (Suc i)) [0..<n]"
    by (simp add: upt_conv_Cons map_Suc_upt [symmetric] comp_def del: upt_Suc)
  ultimately show ?case using p by simp
qed simp

lemma dest_slice:
  "s_count a = length hs + 2 \<Longrightarrow> extract_slice P a src hs dst \<Longrightarrow> find_dest_field_index P a = Ret (length hs + 1)"
  by (simp add: find_dest_field_index_def extract_slice_def)

lemma extract_run:
  assumes "extract_slice (tree_params c) a src hs dst" "hs \<noteq> []" "length hs \<le> 16"
    "get_dict_from_field D c src s = Ret (Some d, s)" "get (Some d) (Some hs) (length hs) = Ret v"
  shows "extract_by_hashes D c a get write s = write dst v s"
proof -
  have n: "s_count a = length hs + 2" and r: "rd (tree_params c) a 0 = Ret src" "rd (tree_params c) a (length hs + 1) = Ret dst"
    and h: "\<And>i. i < length hs \<Longrightarrow> \<exists>p. rd (tree_params c) a (1 + i) = Ret p \<and> opcode p = S_EXPR_PARAM_STR_HASH \<and> str_hash p = hs ! i"
    using assms(1) by (auto simp: extract_slice_def)
  have "collect_path_hashes (tree_params c) a 1 (length hs + 1) 16 = Ret hs"
    using collect_slice [where f = "\<lambda>i. hs ! i", OF h] assms(2,3) by (simp add: collect_path_hashes_def map_nth)
  then show ?thesis
    using n r dest_slice [OF n assms(1)] assms(2,4,5)
    by (simp add: extract_by_hashes_def rdA_def Suc_le_eq)
qed

text \<open>
  The integer a walk arrives at: the payload of an integer, signed or unsigned; a float truncated towards
  zero (undefined outside the range of an \<open>int32_t\<close>); 0 where there is no number.
\<close>

definition int_found :: "(se_pathh_status \<times> nat \<times> 32 word) + dval \<Rightarrow> 32 word res" where
  "int_found r = (case r of Inl _ \<Rightarrow> Ret 0
     | Inr w \<Rightarrow> let x = hd (enc w) in
         if opcode x \<in> {S_EXPR_PARAM_INT, S_EXPR_PARAM_UINT} then Ret (p_union x)
         else if opcode x = S_EXPR_PARAM_FLOAT then float_to_int (p_union x) else Ret 0)"

lemma get_int_found:
  assumes "stored P d v" "hs \<noteq> []" "length hs < 65536"
  shows "se_dicth_get_int P (Some d) (Some hs) (length hs) 0 = int_found (walk v hs 0)"
proof (cases "walk v hs 0")
  case (Inl e)
  then show ?thesis using run_stored [OF assms(1), of hs 0] resolve_run_h [OF assms(2,3)]
    by (auto simp: se_dicth_get_int_def resolveh_def pathh_fail_def se_dicth_param_int_def param_or_def int_found_def
        split: prod.splits)
next
  case (Inr w)
  then obtain j where j: "resolveh P (Some d) (Some hs) (length hs) = Ret (Some j)" "stored P j w"
    using run_stored [OF assms(1), of hs 0] resolve_run_h [OF assms(2,3)] by (auto simp: resolveh_def)
  then have "wf_val w" by (simp add: stored_def)
  then obtain x xs where x: "enc w = x # xs" by (rule enc_first)
  obtain pre post where "P = pre @ enc w @ post" "length pre = j" using j(2) by (auto simp: stored_def)
  then have "deref P j = Ret x" using x by (intro deref_at [where pre = pre]) auto
  then show ?thesis using j(1) x Inr
    by (auto simp: se_dicth_get_int_def se_dicth_param_int_def param_or_def int_found_def)
qed

lemma put_elsewhere:
  "i < k \<or> k + 4 \<le> i \<Longrightarrow> put32 bb k w ! i = bb ! i" "i < k \<or> k + 8 \<le> i \<Longrightarrow> put64 bb k u ! i = bb ! i"
  by (auto simp: put64_def put32_def nth_list_update)

text \<open>C13. Loading a dictionary into a pointer field and extracting an integer from it by a path of 1 to 16
  hashes into a field of four bytes writes, into the destination and nowhere else beside the pointer field,
  the integer that the walk through the dictionary arrives at: the payload of an integer, signed or not, a
  float of the range of an \<open>int32_t\<close> truncated towards zero, and 0 if the path leads nowhere or to something
  that is no number. (A float outside that range is undefined behaviour in C and is left out.)\<close>

theorem dict_value_extracted:
  assumes "stored (tree_params c) (b + 1) (DDict o1 es c1)" "s_base la = Some b" "2 \<le> s_count la"
    "rd (tree_params c) la 0 = Ret src" "opcode src = S_EXPR_PARAM_FIELD"
    "0 < d_base D" "d_base D + 8 * (b + 1) < 2 ^ 32"
    "extract_slice (tree_params c) a src hs dst" "hs \<noteq> []" "length hs \<le> 16"
    "int_found (walk (DDict o1 es c1) hs 0) = Ret n"
    "blackboard s = Some bb" "field_offset src + 8 \<le> length bb" "field_offset dst + 4 \<le> length bb" "field_size dst = 4"
  shows "\<exists>bb'. seqA (se_load_dictionary D c la ev1 i1 x1) (se_dict_extract_int_h D c a ev2 i2 x2) s =
      Ret ((), s \<lparr> blackboard := Some bb' \<rparr>) \<and>
    le32 bb' (field_offset dst) = n \<and> length bb' = length bb \<and>
    (\<forall>i. (i < field_offset src \<or> field_offset src + 8 \<le> i) \<longrightarrow> (i < field_offset dst \<or> field_offset dst + 4 \<le> i) \<longrightarrow>
      bb' ! i = bb ! i)"
proof -
  let ?v = "DDict o1 es c1" and ?P = "tree_params c"
  let ?bb1 = "put64 bb (field_offset src) (addr_of D (Some (b + 1)))"
  let ?s1 = "s \<lparr> blackboard := Some ?bb1 \<rparr>" and ?bb2 = "put32 ?bb1 (field_offset dst) n"
  obtain pre post where P: "?P = pre @ o1 # concat (map enc_entry es) @ c1 # post" "length pre = b + 1"
    "opcode o1 = S_EXPR_PARAM_OPEN_DICT" using assms(1) by (auto simp: stored_def)
  then have "rd ?P la 1 = Ret o1" using assms(2) by (simp add: rd_def nth_append)
  then have load: "se_load_dictionary D c la ev1 i1 x1 s = Ret ((), ?s1)"
    using assms(2-5,12,13) P(3) by (simp add: se_load_dictionary_def rdA_def field_write64_def)
  have dict: "get_dict_from_field D c src ?s1 = Ret (Some (b + 1), ?s1)"
    using assms(5,13) le64_put64 [OF assms(13)] ptr_of_addr [OF assms(6,7)]
    by (simp add: get_dict_from_field_def field_read64_def)
  have n: "se_dicth_get_int ?P (Some (b + 1)) (Some hs) (length hs) 0 = Ret n"
    using get_int_found [OF assms(1,9)] assms(10,11) by simp
  have "se_dict_extract_int_h D c a ev2 i2 x2 ?s1 = write_int_to_field dst n ?s1"
    unfolding se_dict_extract_int_h_def by (rule extract_run [where get = "\<lambda>d hs n. se_dicth_get_int ?P d hs n 0", OF assms(8-10) dict n])
  also have "\<dots> = Ret ((), s \<lparr> blackboard := Some ?bb2 \<rparr>)"
    using assms(8,14,15) by (subst write_int_four [where bb = ?bb1]) (auto simp: extract_slice_def)
  finally have "seqA (se_load_dictionary D c la ev1 i1 x1) (se_dict_extract_int_h D c a ev2 i2 x2) s =
      Ret ((), s \<lparr> blackboard := Some ?bb2 \<rparr>)" using load by simp
  moreover have "le32 ?bb2 (field_offset dst) = n" by (rule le32_put32) (use assms(14) in simp)
  moreover have "\<forall>i. (i < field_offset src \<or> field_offset src + 8 \<le> i) \<longrightarrow> (i < field_offset dst \<or> field_offset dst + 4 \<le> i) \<longrightarrow>
      ?bb2 ! i = bb ! i" by (simp add: put_elsewhere)
  ultimately show ?thesis by (intro exI [of _ ?bb2]) simp
qed

text \<open>
  The dictionary of the small example, in a tree: parameters of a load (a field at 0 and the dictionary)
  followed by those of an extraction (the field, the path \<open>b.c.1\<close> as hashes, a field of four bytes at 8).
\<close>

definition demo_fields :: "s_expr_param list" where
  "demo_fields = dparam S_EXPR_PARAM_FIELD 0 # enc demo_dict @
     [dparam S_EXPR_PARAM_FIELD 0, dparam S_EXPR_PARAM_STR_HASH (se_dicts_hash_segment [98]),
      dparam S_EXPR_PARAM_STR_HASH (se_dicts_hash_segment [99]), dparam S_EXPR_PARAM_STR_HASH (se_dicth_index_hash 1),
      dparam S_EXPR_PARAM_FIELD 0x00040008]"

definition demo_dict_ctx :: "unit ctx" where
  "demo_dict_ctx = \<lparr> tree_params = demo_fields, main_fns = [], pred_fns = [], oneshot_fns = [] \<rparr>"

definition demo_denv :: "fl_ops \<Rightarrow> denv" where
  "demo_denv F = \<lparr> d_fl = F, d_strings = None, d_base = 0x08001000 \<rparr>"

lemma demo_fields_stored: "stored demo_fields 1 demo_dict"
  using demo_stored unfolding demo_fields_def
  by (intro storedI [where pre = "[dparam S_EXPR_PARAM_FIELD 0]"]) (auto simp: stored_def)

lemma demo_length: "length (enc demo_dict) = 15"
  by (simp add: demo_dict_def demo_array_def)

lemma demo_extract:
  "extract_slice demo_fields \<lparr> s_base = Some 16, s_count = 5 \<rparr> (dparam S_EXPR_PARAM_FIELD 0)
     [se_dicts_hash_segment [98], se_dicts_hash_segment [99], se_dicth_index_hash 1] (dparam S_EXPR_PARAM_FIELD 0x00040008)"
  unfolding extract_slice_def demo_fields_def rd_def
  by (auto simp: nth_append demo_length less_Suc_eq numeral_3_eq_3)

theorem dict_value_extracted_witness:
  "\<exists>s. (\<exists>bb. blackboard s = Some bb \<and> le32 bb 8 = 20) \<and>
    seqA (se_load_dictionary (demo_denv demo_fl) demo_dict_ctx \<lparr> s_base = Some 0, s_count = 16 \<rparr> SE_EVENT_TICK 4 0)
      (se_dict_extract_int_h (demo_denv demo_fl) demo_dict_ctx \<lparr> s_base = Some 16, s_count = 5 \<rparr> SE_EVENT_TICK 4 0)
      (fresh_inst 1 () \<lparr> blackboard := Some (replicate 12 0) \<rparr>) = Ret ((), s)"
proof -
  have w: "walk demo_dict [se_dicts_hash_segment [98], se_dicts_hash_segment [99], se_dicth_index_hash 1] 0 =
      Inr (DLeaf [dparam S_EXPR_PARAM_INT 20])"
    by (rule walk_at_path [OF demo_path demo_keyed])
  obtain o1 es c1 where d: "demo_dict = DDict o1 es c1" by (simp add: demo_dict_def)
  have st: "stored (tree_params demo_dict_ctx) (0 + 1) (DDict o1 es c1)"
    using demo_fields_stored d by (simp add: demo_dict_ctx_def)
  have f: "field_offset (dparam S_EXPR_PARAM_FIELD 0) = 0" "field_offset (dparam S_EXPR_PARAM_FIELD 0x00040008) = 8"
    "field_size (dparam S_EXPR_PARAM_FIELD 0x00040008) = 4"
    by (simp_all add: field_offset_def field_size_def dparam_def)
  from dict_value_extracted [OF st, of "\<lparr> s_base = Some 0, s_count = 16 \<rparr>" "dparam S_EXPR_PARAM_FIELD 0" "demo_denv demo_fl"
      "\<lparr> s_base = Some 16, s_count = 5 \<rparr>"
      "[se_dicts_hash_segment [98], se_dicts_hash_segment [99], se_dicth_index_hash 1]" "dparam S_EXPR_PARAM_FIELD 0x00040008" 20
      "fresh_inst 1 () \<lparr> blackboard := Some (replicate 12 0) \<rparr>" "replicate 12 0" SE_EVENT_TICK 4 0 SE_EVENT_TICK 4 0]
  obtain bb' where "seqA (se_load_dictionary (demo_denv demo_fl) demo_dict_ctx \<lparr> s_base = Some 0, s_count = 16 \<rparr> SE_EVENT_TICK 4 0)
      (se_dict_extract_int_h (demo_denv demo_fl) demo_dict_ctx \<lparr> s_base = Some 16, s_count = 5 \<rparr> SE_EVENT_TICK 4 0)
      (fresh_inst 1 () \<lparr> blackboard := Some (replicate 12 0) \<rparr>) =
      Ret ((), fresh_inst 1 () \<lparr> blackboard := Some (replicate 12 0), blackboard := Some bb' \<rparr>)" "le32 bb' 8 = 20"
    using demo_extract w d f
    by (auto simp: demo_dict_ctx_def demo_denv_def rd_def demo_fields_def int_found_def simp del: seqA_app)
  then show ?thesis
    by (intro exI [of _ "fresh_inst 1 () \<lparr> blackboard := Some (replicate 12 0), blackboard := Some bb' \<rparr>"] conjI exI [of _ bb'])
      (simp_all del: seqA_app)
qed

section \<open>Running an entry\<close>

text \<open>The node API reads parameters through the base of a slice only.\<close>

lemma rd_base: "s_base a = s_base a' \<Longrightarrow> rd P a i = rd P a' i"
  by (simp add: rd_def)

lemma api_base:
  assumes "s_base a = s_base a'"
  shows "s_expr_skip_param P a i = s_expr_skip_param P a' i" "s_expr_call_args P a i = s_expr_call_args P a' i"
    "s_expr_reset_recursive_at c a i = s_expr_reset_recursive_at c a' i" "s_expr_invoke_any c a i = s_expr_invoke_any c a' i"
proof -
  have rd: "rd P a = rd P a'" for P using rd_base [OF assms] by (simp add: fun_eq_iff)
  have r: "rdA c a = rdA c a'" for c :: "'a ctx" unfolding rdA_def rd ..
  show "s_expr_skip_param P a i = s_expr_skip_param P a' i" unfolding s_expr_skip_param_def rd ..
  have ca: "s_expr_call_args P a = s_expr_call_args P a'" for P
    by (simp only: fun_eq_iff s_expr_call_args_def rd assms) simp
  then show "s_expr_call_args P a i = s_expr_call_args P a' i" by simp
  have rc: "reset_callable c a = reset_callable c a'"
    by (simp only: fun_eq_iff reset_callable_def get_callable_state_def r) simp
  show "s_expr_reset_recursive_at c a i = s_expr_reset_recursive_at c a' i"
    unfolding s_expr_reset_recursive_at_def r rc ca ..
  have iv: "invoke_as c opc msg a = invoke_as c opc msg a'" for opc msg
    by (simp only: fun_eq_iff invoke_as_def s_expr_invoke_main_def s_expr_invoke_oneshot_def s_expr_invoke_pred_def r ca assms) simp
  show "s_expr_invoke_any c a i = s_expr_invoke_any c a' i"
    unfolding s_expr_invoke_any_def r iv assms ..
qed

definition entry_slice :: "nat \<Rightarrow> sexp list \<Rightarrow> slice" where
  "entry_slice v xs = \<lparr> s_base = Some v, s_count = length (flats xs) \<rparr>"

lemma entry_base [simp]: "s_base (from_ptr v) = Some v" "s_base (entry_slice v xs) = Some v"
  "s_count (entry_slice v xs) = length (flats xs)"
  by (simp_all add: from_ptr_def entry_slice_def)

text \<open>An entry in the array: well-formed parameters and calls up to the bracket that closes the key.\<close>

definition entry_holds :: "s_expr_param list \<Rightarrow> nat \<Rightarrow> sexp list \<Rightarrow> bool" where
  "entry_holds P v xs = (xs \<noteq> [] \<and> holds P (entry_slice v xs) xs \<and> list_all wf_calls xs \<and>
     list_all (\<lambda>x. opcode (hd (flat x)) \<noteq> S_EXPR_PARAM_CLOSE_KEY) xs \<and>
     (\<exists>q. rd P (from_ptr v) (length (flats xs)) = Ret q \<and> opcode q = S_EXPR_PARAM_CLOSE_KEY))"

lemma entry_at:
  assumes "entry_holds P v (ys @ x # zs)"
  shows "rd P (from_ptr v) (length (flats ys)) = Ret (hd (flat x))"
    "s_expr_skip_param P (from_ptr v) (length (flats ys)) = Ret (length (flats (ys @ [x])))"
    "opcode (hd (flat x)) \<noteq> S_EXPR_PARAM_CLOSE_KEY" "length (flats ys) < length (flats (ys @ x # zs))"
    "length (flats (ys @ x # zs)) < 65536"
proof -
  have h: "holds P (entry_slice v (ys @ x # zs)) (ys @ x # zs)" using assms by (simp add: entry_holds_def)
  have "rd P (entry_slice v (ys @ x # zs)) (length (flats ys)) = Ret (hd (flat x))"
    using holds_rd [OF h, of "length (flats ys)"] by (simp add: nth_append hd_conv_nth)
  then show "rd P (from_ptr v) (length (flats ys)) = Ret (hd (flat x))"
    using rd_base [of "from_ptr v" "entry_slice v (ys @ x # zs)" P] by simp
  show "s_expr_skip_param P (from_ptr v) (length (flats ys)) = Ret (length (flats (ys @ [x])))"
    using holds_skip [OF h] api_base(1) [of "from_ptr v" "entry_slice v (ys @ x # zs)" P]
    by (simp add: s_expr_skip_param_eq)
qed (use assms in \<open>auto simp: entry_holds_def holds_def\<close>)

lemma entry_end_holds:
  assumes "entry_holds (tree_params c) v xs"
  shows "entry_end c v s = Ret (length (flats xs), s)"
proof -
  let ?body = "\<lambda>n. bindA (rdA c (from_ptr v) n) (\<lambda>x.
       if opcode x = S_EXPR_PARAM_CLOSE_KEY then retA (Inr n :: nat + nat)
       else bindA (liftA (s_expr_skip_param (tree_params c) (from_ptr v) n)) (\<lambda>j. retA (Inl j)))"
  have loop: "whileA m (\<lambda>_. True) ?body (length (flats ys)) s = Ret (Inr (length (flats xs)), s)"
    if "xs = ys @ zs" "length zs < m" for ys zs m
    using that
  proof (induction zs arbitrary: ys m)
    case Nil
    then obtain q where "rd (tree_params c) (from_ptr v) (length (flats ys)) = Ret q" "opcode q = S_EXPR_PARAM_CLOSE_KEY"
      using assms by (auto simp: entry_holds_def)
    then show ?case using Nil by (subst whileA.simps) (simp add: rdA_def del: res_bind_Ret_iff)
  next
    case (Cons z zs)
    note e = entry_at [OF assms [unfolded Cons.prems(1)]]
    have "whileA m (\<lambda>_. True) ?body (length (flats ys)) s = whileA (m - 1) (\<lambda>_. True) ?body (length (flats (ys @ [z]))) s"
      by (rule whileA_step) (use e(1-3) Cons.prems(2) in \<open>simp_all add: rdA_def\<close>)
    also have "\<dots> = Ret (Inr (length (flats xs)), s)" by (rule Cons.IH) (use Cons.prems in auto)
    finally show ?case .
  qed
  have "length xs < nav_fuel"
    using assms length_le_flats [of xs] by (auto simp: entry_holds_def holds_def nav_fuel_def)
  from loop [of "[]" xs, OF _ this] show ?thesis by (simp add: entry_end_def)
qed

lemma entry_child:
  assumes "entry_holds (tree_params c) v (ys @ x # zs)"
  shows "(opcode (hd (flat x)) = S_EXPR_PARAM_OPEN_CALL) = (callee x \<noteq> None)"
    "callee x = Some f \<Longrightarrow> rd (tree_params c) (from_ptr v) (Suc (length (flats ys))) = Ret f"
    "callee x \<noteq> None \<Longrightarrow> \<forall>n\<in>set (call_nodes x). n < node_count s \<Longrightarrow>
      s_expr_reset_recursive_at c (from_ptr v) (length (flats ys)) s = Ret ((), reset_nodes (call_nodes x) s)"
    "callee x = None \<Longrightarrow> call_nodes x = []"
proof -
  let ?xs = "ys @ x # zs"
  have h: "holds (tree_params c) (entry_slice v ?xs) ?xs" "list_all wf_calls ?xs" "length ys < length ?xs" "?xs ! length ys = x"
    "take (length ys) ?xs = ys" using assms by (auto simp: entry_holds_def)
  from child_rd [OF h(1-3)] h(4,5) obtain p where
    p: "rd (tree_params c) (entry_slice v ?xs) (length (flats ys)) = Ret p"
      "(opcode p = S_EXPR_PARAM_OPEN_CALL) = (callee x \<noteq> None)"
      "\<forall>f. callee x = Some f \<longrightarrow> rd (tree_params c) (entry_slice v ?xs) (Suc (length (flats ys))) = Ret f" by auto
  have b: "rd (tree_params c) (from_ptr v) i = rd (tree_params c) (entry_slice v ?xs) i" for i by (rule rd_base) simp
  show "(opcode (hd (flat x)) = S_EXPR_PARAM_OPEN_CALL) = (callee x \<noteq> None)"
    using p(1,2) entry_at(1) [OF assms] b by simp
  show "callee x = Some f \<Longrightarrow> rd (tree_params c) (from_ptr v) (Suc (length (flats ys))) = Ret f" using p(3) b by simp
  show "s_expr_reset_recursive_at c (from_ptr v) (length (flats ys)) s = Ret ((), reset_nodes (call_nodes x) s)"
    if f: "callee x \<noteq> None" and n: "\<forall>n\<in>set (call_nodes x). n < node_count s"
  proof -
    obtain g where "callee (?xs ! length ys) = Some g" using f h(4) by auto
    from child_reset_at [OF h(1-3) this, of s] n h(4,5)
    show ?thesis using api_base(3) [of "from_ptr v" "entry_slice v ?xs" c] by (simp add: place_def)
  qed
  show "callee x = None \<Longrightarrow> call_nodes x = []"
    by (cases x rule: call_nodes.cases) (auto split: if_splits)
qed

lemma reset_entry_holds:
  assumes "entry_holds (tree_params c) v xs" "\<forall>n\<in>set (calls_of xs). n < node_count s"
  shows "reset_entry c v (length (flats xs)) s = Ret ((), reset_nodes (calls_of xs) s)"
proof -
  let ?body = "\<lambda>idx. bindA (rdA c (from_ptr v) idx) (\<lambda>x.
        seqA (if opcode x = S_EXPR_PARAM_OPEN_CALL then s_expr_reset_recursive_at c (from_ptr v) idx else retA ())
        (bindA (liftA (s_expr_skip_param (tree_params c) (from_ptr v) idx)) (\<lambda>j. retA (Inl j :: nat + unit))))"
  have loop: "whileA m (\<lambda>idx. idx < length (flats xs)) ?body (length (flats ys)) s =
      Ret (Inl (length (flats xs)), reset_nodes (calls_of zs) s)"
    if "xs = ys @ zs" "length zs \<le> m" "\<forall>n\<in>set (calls_of zs). n < node_count s" for ys zs m s
    using that
  proof (induction zs arbitrary: ys m s)
    case Nil
    then show ?case by (simp add: whileA_stop)
  next
    case (Cons z zs)
    have eh: "entry_holds (tree_params c) v (ys @ z # zs)" using assms(1) Cons.prems(1) by simp
    note e = entry_at [OF eh] and k = entry_child [OF eh]
    have b: "?body (length (flats ys)) s = Ret (Inl (length (flats (ys @ [z]))), reset_nodes (call_nodes z) s)"
    proof (cases "callee z")
      case None
      then show ?thesis using e(1,2) k(1,4) by (simp add: rdA_def del: res_bind_Ret_iff)
    next
      case (Some f)
      moreover have "\<forall>n\<in>set (call_nodes z). n < node_count s" using Cons.prems(3) by simp
      ultimately show ?thesis using e(1,2) k(1) k(3) [of s] by (simp add: rdA_def del: res_bind_Ret_iff)
    qed
    have "whileA m (\<lambda>idx. idx < length (flats xs)) ?body (length (flats ys)) s =
        whileA (m - 1) (\<lambda>idx. idx < length (flats xs)) ?body (length (flats (ys @ [z]))) (reset_nodes (call_nodes z) s)"
      by (rule whileA_step [where body = ?body, OF _ _ b]) (use e(4) Cons.prems(1,2) in auto)
    also have "\<dots> = Ret (Inl (length (flats xs)), reset_nodes (calls_of zs) (reset_nodes (call_nodes z) s))"
      by (rule Cons.IH) (use Cons.prems in auto)
    finally show ?case by (simp only: reset_nodes_append calls_of_simps)
  qed
  have "length xs \<le> nav_fuel"
    using assms(1) length_le_flats [of xs] by (auto simp: entry_holds_def holds_def nav_fuel_def)
  from loop [of "[]" xs, OF _ this assms(2)] show ?thesis by (simp add: reset_entry_def)
qed

text \<open>
  The run of an entry as a recursion over its parameters, each with its place and its function
  reference. \<open>r\<close> is the result so far.
\<close>

fun run_calls :: "'w ctx \<Rightarrow> nat \<Rightarrow> (nat \<times> s_expr_param option) list \<Rightarrow> s_expr_result \<Rightarrow> ('w, s_expr_result) iact" where
  "run_calls c v [] r = retA r"
| "run_calls c v ((i, z) # rest) r = (case z of
     None \<Rightarrow> run_calls c v rest r
   | Some f \<Rightarrow> bindA (s_expr_invoke_any c (from_ptr v) i) (\<lambda>q.
       if opcode f \<in> {S_EXPR_PARAM_ONESHOT, S_EXPR_PARAM_PRED} then run_calls c v rest r
       else if q \<in> {SE_PIPELINE_CONTINUE, SE_PIPELINE_DISABLE} then run_calls c v rest q
       else retA q))"

definition after_run :: "s_expr_result \<Rightarrow> s_expr_result" where
  "after_run r = (if r = SE_PIPELINE_DISABLE then SE_PIPELINE_CONTINUE else r)"

lemma entry_step_cases:
  assumes "entry_holds (tree_params c) v (ys @ x # zs)"
  shows "entry_step c v (length (flats ys), r) s = (case callee x of
      None \<Rightarrow> Ret (Inl (length (flats (ys @ [x])), r), s)
    | Some f \<Rightarrow> bindA (s_expr_invoke_any c (from_ptr v) (length (flats ys))) (\<lambda>q.
        if opcode f \<in> {S_EXPR_PARAM_ONESHOT, S_EXPR_PARAM_PRED} then retA (Inl (length (flats (ys @ [x])), r))
        else if q \<in> {SE_PIPELINE_CONTINUE, SE_PIPELINE_DISABLE} then retA (Inl (length (flats (ys @ [x])), q))
        else retA (Inr q)) s)"
proof (cases "callee x")
  case None
  then show ?thesis using entry_at(1,2) [OF assms] entry_child(1) [OF assms]
    by (simp add: entry_step_def rdA_def del: res_bind_Ret_iff)
next
  case (Some f)
  have onward: "bindA (liftA (s_expr_skip_param (tree_params c) (from_ptr v) (length (flats ys)))) (\<lambda>j. retA (Inl (j, q))) =
      retA (Inl (length (flats (ys @ [x])), q))" for q
    using entry_at(2) [OF assms] by (simp add: fun_eq_iff)
  have "entry_step c v (length (flats ys), r) s = bindA (s_expr_invoke_any c (from_ptr v) (length (flats ys))) (\<lambda>q.
        if opcode f = S_EXPR_PARAM_ONESHOT \<or> opcode f = S_EXPR_PARAM_PRED then retA (Inl (length (flats (ys @ [x])), r))
        else if q \<noteq> SE_PIPELINE_CONTINUE \<and> q \<noteq> SE_PIPELINE_DISABLE then retA (Inr q)
        else retA (Inl (length (flats (ys @ [x])), q))) s"
  proof -
    have read: "bindA (rdA c (from_ptr v) (length (flats ys))) k = k (hd (flat x))"
      "bindA (rdA c (from_ptr v) (length (flats ys) + 1)) k' = k' f" for k k'
      using entry_at(1) [OF assms] entry_child(2) [OF assms Some] by (simp_all add: rdA_def fun_eq_iff)
    show ?thesis using entry_child(1) [OF assms] Some
      by (simp only: entry_step_def Let_def onward read prod.case) simp
  qed
  also have "\<dots> = bindA (s_expr_invoke_any c (from_ptr v) (length (flats ys))) (\<lambda>q.
        if opcode f \<in> {S_EXPR_PARAM_ONESHOT, S_EXPR_PARAM_PRED} then retA (Inl (length (flats (ys @ [x])), r))
        else if q \<in> {SE_PIPELINE_CONTINUE, SE_PIPELINE_DISABLE} then retA (Inl (length (flats (ys @ [x])), q))
        else retA (Inr q)) s"
    by (rule arg_cong [where f = "\<lambda>k. bindA (s_expr_invoke_any c (from_ptr v) (length (flats ys))) k s"]) auto
  finally show ?thesis using Some by simp
qed

lemma run_entry_holds:
  assumes "entry_holds (tree_params c) v xs"
  shows "run_entry c v (length (flats xs)) s =
    bindA (run_calls c v (children_of xs) SE_PIPELINE_CONTINUE) (\<lambda>r. retA (after_run r)) s"
proof -
  let ?post = "\<lambda>z :: (nat \<times> s_expr_result) + s_expr_result. case z of Inl (idx, r) \<Rightarrow> r | Inr r \<Rightarrow> r"
  let ?more = "\<lambda>(idx :: nat, result :: s_expr_result). idx < length (flats xs)"
  have loop: "bindA (whileA m ?more (entry_step c v) (length (flats ys), r)) (\<lambda>z. retA (?post z)) s =
      run_calls c v (drop (length ys) (children_of xs)) r s"
    if "xs = ys @ zs" "length zs \<le> m" for ys zs m r s
    using that
  proof (induction zs arbitrary: ys m r s)
    case Nil
    then show ?case by (simp add: whileA_stop children_of_def)
  next
    case (Cons x zs)
    have eh: "entry_holds (tree_params c) v (ys @ x # zs)" using assms Cons.prems(1) by simp
    have le: "length (flats ys) < length (flats xs)" using entry_at(4) [OF eh] Cons.prems(1) by simp
    have here: "drop (length ys) (children_of xs) =
        (length (flats ys), callee x) # drop (length (ys @ [x])) (children_of xs)"
      using children_of_drop [of "length ys" xs] Cons.prems(1) by (simp add: place_def)
    have m: "whileA m ?more (entry_step c v) (length (flats ys), r) s =
        bindA (entry_step c v (length (flats ys), r)) (\<lambda>z. case z of
          Inl j \<Rightarrow> whileA (m - 1) ?more (entry_step c v) j | Inr q \<Rightarrow> retA (Inr q)) s" for r s
      using le Cons.prems(2) by (subst whileA.simps) simp
    have ih: "res_bind (whileA (m - 1) ?more (entry_step c v) (length (flats (ys @ [x])), r) s)
        (\<lambda>(z, s'). Ret (?post z, s')) = run_calls c v (drop (length (ys @ [x])) (children_of xs)) r s" for r s
      using Cons.IH [of "ys @ [x]" "m - 1" r s] Cons.prems by (simp add: retA_def)
    show ?case
    proof (cases "callee x")
      case None
      then show ?thesis using ih [of r s] m [of r s] entry_step_cases [OF eh, of r s] here
        by (simp add: retA_def del: res_bind_Ret_iff)
    next
      case (Some f)
      show ?thesis
      proof (cases "s_expr_invoke_any c (from_ptr v) (length (flats ys)) s")
        case (Ret y)
        obtain q s1 where y: "y = (q, s1)" by (cases y)
        show ?thesis
          using ih [of r s1] ih [of q s1] m [of r s] entry_step_cases [OF eh, of r s] here Some Ret y
          by (simp add: retA_def del: res_bind_Ret_iff split: if_split)
      qed (use m [of r s] entry_step_cases [OF eh, of r s] here Some in simp_all)
    qed
  qed
  have n: "length xs \<le> nav_fuel"
    using assms(1) length_le_flats [of xs] by (auto simp: entry_holds_def holds_def nav_fuel_def)
  have "run_entry c v (length (flats xs)) s =
      bindA (bindA (whileA nav_fuel ?more (entry_step c v) (length (flats ([] :: sexp list)), SE_PIPELINE_CONTINUE))
        (\<lambda>z. retA (?post z))) (\<lambda>r. retA (after_run r)) s"
    by (simp add: run_entry_def after_run_def Let_def)
      (cases "whileA nav_fuel ?more (entry_step c v) (0, SE_PIPELINE_CONTINUE) s"; simp add: case_prod_beta)
  also have "\<dots> = bindA (run_calls c v (children_of xs) SE_PIPELINE_CONTINUE) (\<lambda>r. retA (after_run r)) s"
    by (subst bindA_app, subst loop [of "[]" xs, OF _ n]) (simp_all add: retA_def)
  finally show ?thesis .
qed

lemma exec_key_run:
  assumes "se_dicth_find (tree_params c) (Some d) k = Ret (Some v)" "entry_holds (tree_params c) v xs"
    "\<forall>n\<in>set (calls_of xs). n < node_count s"
  shows "exec_key m1 m2 c d k s = bindA (run_calls c v (children_of xs) SE_PIPELINE_CONTINUE)
    (\<lambda>r. retA (after_run r)) (reset_nodes (calls_of xs) s)"
proof -
  have "length (flats xs) \<noteq> 0" using assms(2) length_le_flats [of xs] by (auto simp: entry_holds_def)
  then show ?thesis
    using assms(1) entry_end_holds [OF assms(2), of s] reset_entry_holds [OF assms(2,3)]
      run_entry_holds [OF assms(2), of "reset_nodes (calls_of xs) s"]
    by (simp add: exec_key_def del: res_bind_Ret_iff)
qed

text \<open>A dispatch of key 7 on a dictionary with one entry, a main call of the first function.\<close>

definition demo_call :: sexp where
  "demo_call = call_of S_EXPR_PARAM_MAIN 0 0 []"

definition demo_fn_params :: "s_expr_param list" where
  "demo_fn_params = [dparam S_EXPR_PARAM_FIELD 0, dparam S_EXPR_PARAM_STR_HASH 7,
     dparam S_EXPR_PARAM_OPEN_DICT 6, dparam S_EXPR_PARAM_OPEN_KEY 7] @ flats [demo_call] @
     [dparam S_EXPR_PARAM_CLOSE_KEY 0, dparam S_EXPR_PARAM_CLOSE_DICT 0]"

definition demo_fn_ctx :: "s_expr_result \<Rightarrow> event_log ctx" where
  "demo_fn_ctx r = \<lparr> tree_params = demo_fn_params, main_fns = [Some (logging (\<lambda>_ _. r))],
     pred_fns = [], oneshot_fns = [] \<rparr>"

definition demo_fn_inst :: "event_log inst" where
  "demo_fn_inst = (fresh_inst 1 []) \<lparr> current_dict := Some 2 \<rparr>"

lemma demo_fn_facts:
  "rd (tree_params (demo_fn_ctx r)) \<lparr> s_base = Some 0, s_count = 2 \<rparr> 1 = Ret (dparam S_EXPR_PARAM_STR_HASH 7)"
  "current_dict demo_fn_inst = Some 2" "callee demo_call = Some (mkp S_EXPR_PARAM_MAIN 0 0)"
  "\<forall>n\<in>set (call_nodes demo_call). n < node_count demo_fn_inst" "user_ctx demo_fn_inst = []"
  by (simp_all add: demo_fn_ctx_def demo_fn_params_def rd_def demo_fn_inst_def demo_call_def call_of_def fresh_inst_def
      node_count_def)

lemma demo_fn_found: "se_dicth_find (tree_params (demo_fn_ctx r)) (Some 2) (str_hash (dparam S_EXPR_PARAM_STR_HASH 7)) = Ret (Some 4)"
  by (simp add: se_dicth_find_def deref_def demo_fn_ctx_def demo_fn_params_def dparam_def brace_idx_def str_hash_def
      opcode_def whileR.simps find_step_def nav_fuel_def)

lemma demo_fn_entry: "entry_holds (tree_params (demo_fn_ctx r)) 4 [demo_call]"
proof -
  let ?pre = "[dparam S_EXPR_PARAM_FIELD 0, dparam S_EXPR_PARAM_STR_HASH 7, dparam S_EXPR_PARAM_OPEN_DICT 6, dparam S_EXPR_PARAM_OPEN_KEY 7]"
  have "holds demo_fn_params \<lparr> s_base = Some (length ?pre), s_count = length (flats [demo_call]) \<rparr> [demo_call]"
    by (rule holdsI [where post = "[dparam S_EXPR_PARAM_CLOSE_KEY 0, dparam S_EXPR_PARAM_CLOSE_DICT 0]"])
      (simp_all add: demo_fn_params_def demo_call_def call_of_def flats_def is_brace_open_def)
  then have h: "holds (tree_params (demo_fn_ctx r)) (entry_slice 4 [demo_call]) [demo_call]"
    by (simp add: demo_fn_ctx_def entry_slice_def numeral_eq_Suc)
  have q: "rd (tree_params (demo_fn_ctx r)) (from_ptr 4) (length (flats [demo_call])) = Ret (dparam S_EXPR_PARAM_CLOSE_KEY 0)"
    by (simp add: demo_fn_ctx_def demo_fn_params_def rd_def demo_call_def call_of_def flats_def from_ptr_def)
  have "opcode (dparam S_EXPR_PARAM_CLOSE_KEY 0) = S_EXPR_PARAM_CLOSE_KEY"
    "wf_calls demo_call" "opcode (hd (flat demo_call)) \<noteq> S_EXPR_PARAM_CLOSE_KEY"
    by (simp_all add: dparam_def opcode_def demo_call_def call_of_def)
  then show ?thesis using h q by (simp add: entry_holds_def)
qed

text \<open>C14. A tick of a dictionary dispatch finds the entry of its key in the dictionary it remembers, resets every
  call in the entry and below, and runs the entry's calls in order: what is no call is passed over, oneshots and
  predicates do not count, a main call that neither continues nor is disabled ends the run with its result, and
  a disabled last call counts as a continuation.\<close>

theorem dict_entry_run:
  assumes "2 \<le> s_count a" "rd (tree_params c) a 1 = Ret kp" "current_dict s = Some d"
    "se_dicth_find (tree_params c) (Some d) (str_hash kp) = Ret (Some v)"
    "entry_holds (tree_params c) v xs" "\<forall>n\<in>set (calls_of xs). n < node_count s"
  shows "se_exec_dict_dispatch D c a SE_EVENT_TICK i x s =
    bindA (run_calls c v (children_of xs) SE_PIPELINE_CONTINUE) (\<lambda>r. retA (after_run r)) (reset_nodes (calls_of xs) s)"
proof -
  have "se_exec_dict_dispatch D c a SE_EVENT_TICK i x s =
      exec_key ''se_exec_dict_dispatch: key not found'' ''se_exec_dict_dispatch: empty key'' c d (str_hash kp) s"
    using assms(1-3) by (simp add: se_exec_dict_dispatch_def rdA_def)
  then show ?thesis by (simp only: exec_key_run [OF assms(4-6)])
qed

theorem dict_entry_run_witness:
  "\<exists>s'. se_exec_dict_dispatch (demo_denv demo_fl) (demo_fn_ctx SE_PIPELINE_HALT) \<lparr> s_base = Some 0, s_count = 2 \<rparr> SE_EVENT_TICK 4 0 demo_fn_inst =
     bindA (run_calls (demo_fn_ctx SE_PIPELINE_HALT) 4 [(0, Some (mkp S_EXPR_PARAM_MAIN 0 0))] SE_PIPELINE_CONTINUE)
       (\<lambda>r. retA (after_run r)) s' \<and> s' = reset_nodes [0] demo_fn_inst"
proof -
  have "children_of [demo_call] = [(0, Some (mkp S_EXPR_PARAM_MAIN 0 0))]" "calls_of [demo_call] = [0]"
    by (simp_all add: children_of_def place_def demo_call_def call_of_def)
  then show ?thesis
    using dict_entry_run [OF _ demo_fn_facts(1,2) demo_fn_found demo_fn_entry, where D = "demo_denv demo_fl" and i = 4 and x = 0] demo_fn_facts(4)
    by (simp del: run_calls.simps bindA_app)
qed

section \<open>Ticks of an entry\<close>

fun dict_ticks :: "denv \<Rightarrow> 'w ctx \<Rightarrow> slice \<Rightarrow> nat \<Rightarrow> ('w, s_expr_result list) iact" where
  "dict_ticks D c a 0 = retA []"
| "dict_ticks D c a (Suc n) = bindA (se_exec_dict_dispatch D c a SE_EVENT_TICK 4 0) (\<lambda>r.
     bindA (dict_ticks D c a n) (\<lambda>rs. retA (r # rs)))"

lemma invoke_any_base: "s_base a = s_base a' \<Longrightarrow> s_expr_invoke_any c a i s = s_expr_invoke_any c a' i s"
  by (simp only: api_base(4) [of a a'])

lemma entry_call_invoked:
  assumes "entry_holds (tree_params c) v [x]" "callee x = Some f" "opcode f = S_EXPR_PARAM_MAIN"
  shows "s_expr_invoke_any c (from_ptr v) 0 s = dispatch_main c f (args_at c (entry_slice v [x]) 0) SE_EVENT_TICK
    (current_event_id s) (current_event_data s) s"
proof -
  have h: "holds (tree_params c) (entry_slice v [x]) [x]" "list_all wf_calls [x]" "0 < length [x]" "callee ([x] ! 0) = Some f"
    using assms(1,2) by (simp_all add: entry_holds_def)
  have "place [x] 0 = 0" by (simp add: place_def)
  with child_invoked(1) [OF h assms(3), of s] invoke_any_base [of "from_ptr v" "entry_slice v [x]" c 0 s]
  show ?thesis by simp
qed

text \<open>C40. A dictionary entry of one main call that is not disabled begins again on every tick: each tick resets the
  call without terminating it, so that over n ticks the call receives INIT and TICK n times, TERMINATE never,
  whatever it answers. A call that needs several ticks to finish never does.\<close>

theorem dict_entry_restarts:
  assumes "2 \<le> s_count a" "rd (tree_params c) a 1 = Ret kp" "current_dict s = Some d"
    "se_dicth_find (tree_params c) (Some d) (str_hash kp) = Ret (Some v)"
    "entry_holds (tree_params c) v [x]" "callee x = Some f" "opcode f = S_EXPR_PARAM_MAIN"
    "\<forall>n\<in>set (call_nodes x). n < node_count s"
    "func_index f < length (main_fns c)" "main_fns c ! func_index f = Some (logging (\<lambda>_ _. r))"
    "r \<noteq> SE_PIPELINE_DISABLE"
  shows "\<exists>s'. dict_ticks D c a n s = Ret (replicate n r, s') \<and>
    user_ctx s' = user_ctx s @ concat (replicate n [SE_EVENT_INIT, SE_EVENT_TICK])"
  using assms(3,8)
proof (induction n arbitrary: s)
  case (Suc n)
  let ?s0 = "reset_nodes (call_nodes x) s"
  have nx: "node_index f \<in> set (call_nodes x)" using assms(6)
    by (cases x rule: callee.cases) (auto split: if_splits)
  then have k: "node_index f < node_count ?s0" using Suc.prems(2) by simp
  have st: "is_active (node_states ?s0 ! node_index f)" "\<not> is_initialized (node_states ?s0 ! node_index f)"
    using nx k by (simp_all add: reset_nodes_def node_count_def nth_map)
  have log: "user_ctx ?s0 = user_ctx s" "current_dict ?s0 = current_dict s" by (simp_all add: reset_nodes_def)
  have lc: "lifecycle (\<lambda>_ _. r) (is_initialized (node_states ?s0 ! node_index f)) SE_EVENT_TICK (user_ctx ?s0) =
      (user_ctx s @ [SE_EVENT_INIT, SE_EVENT_TICK], r)"
    using st(2) log assms(11) by (simp add: lifecycle_def Let_def)
  obtain s1 where s1: "s_expr_invoke_any c (from_ptr v) 0 ?s0 = Ret (r, s1)"
      "user_ctx s1 = user_ctx s @ [SE_EVENT_INIT, SE_EVENT_TICK]" "current_dict s1 = Some d" "node_count s1 = node_count s"
    using dispatch_main_logging [OF assms(9,10) refl refl k st(1) lc] Suc.prems(1) log(2)
      entry_call_invoked [OF assms(5-7), of ?s0]
    by (auto simp: node_count_def reset_nodes_def)
  have "opcode f \<notin> {S_EXPR_PARAM_ONESHOT, S_EXPR_PARAM_PRED}" using assms(7) by simp
  then have "run_calls c v (children_of [x]) SE_PIPELINE_CONTINUE ?s0 = Ret (r, s1)"
    using s1(1) assms(6) by (simp add: children_of_def place_def retA_def)
  then have t: "se_exec_dict_dispatch D c a SE_EVENT_TICK 4 0 s = Ret (r, s1)"
    using exec_key_run [OF assms(4,5)] assms(1,2,11) Suc.prems
    by (simp add: se_exec_dict_dispatch_def rdA_def after_run_def)
  obtain s' where "dict_ticks D c a n s1 = Ret (replicate n r, s')"
      "user_ctx s' = user_ctx s1 @ concat (replicate n [SE_EVENT_INIT, SE_EVENT_TICK])"
    using Suc.IH [of s1] s1(3,4) Suc.prems(2) by auto
  then show ?case using t s1(2) by simp
qed simp

theorem dict_entry_restarts_witness:
  "\<exists>s'. dict_ticks (demo_denv demo_fl) (demo_fn_ctx SE_PIPELINE_HALT) \<lparr> s_base = Some 0, s_count = 2 \<rparr> 2 demo_fn_inst =
       Ret ([SE_PIPELINE_HALT, SE_PIPELINE_HALT], s') \<and>
     user_ctx s' = [SE_EVENT_INIT, SE_EVENT_TICK, SE_EVENT_INIT, SE_EVENT_TICK]"
proof -
  let ?c = "demo_fn_ctx SE_PIPELINE_HALT"
  have "opcode (mkp S_EXPR_PARAM_MAIN 0 0) = S_EXPR_PARAM_MAIN" "func_index (mkp S_EXPR_PARAM_MAIN 0 0) < length (main_fns ?c)"
    "main_fns ?c ! func_index (mkp S_EXPR_PARAM_MAIN 0 0) = Some (logging (\<lambda>_ _. SE_PIPELINE_HALT))"
    by (simp_all add: demo_fn_ctx_def)
  then show ?thesis
    using dict_entry_restarts [OF _ demo_fn_facts(1,2) demo_fn_found demo_fn_entry demo_fn_facts(3) _ demo_fn_facts(4),
        where r = SE_PIPELINE_HALT and D = "demo_denv demo_fl" and n = 2] demo_fn_facts(5)
    by (simp add: numeral_2_eq_2 del: dict_ticks.simps)
qed

end
