(* ===== verification/SE_Timing.thy ===== *)
theory SE_Timing
  imports SE_Lifecycle
begin

text \<open>
  The leaves that count: how many dispatches a tick delay takes, and on which event a wait
  ends. Both are run through \<open>dispatch_main\<close>, one dispatch for every event of a list.
\<close>

section \<open>Runs of a counting leaf\<close>

text \<open>The node as a \<open>pt_m_call\<close> of the function \<open>fn\<close> with a slot of its own.\<close>

definition slot_call :: "'w ctx \<Rightarrow> s_expr_param \<Rightarrow> ('w, s_expr_result) node_fn \<Rightarrow> 'w inst \<Rightarrow> bool" where
  "slot_call c fp fn s = (func_index fp < length (main_fns c) \<and> main_fns c ! func_index fp = Some fn \<and>
     has_pointer fp \<and> node_index fp < node_count s \<and>
     (\<exists>arr. pointer_array s = Some arr \<and> unat (index_to_pointer fp) < length arr))"

definition slot_of :: "s_expr_param \<Rightarrow> 'w inst \<Rightarrow> 64 word" where
  "slot_of fp s = the (pointer_array s) ! unat (index_to_pointer fp)"

definition node_of :: "s_expr_param \<Rightarrow> 'w inst \<Rightarrow> s_expr_node_state" where
  "node_of fp s = node_states s ! node_index fp"

lemmas slot_steps = dispatch_main_def get_node_state_def node_context_of_def enter_node_def
  restore_node_context_def upd_node_def node_count_def slot_of_def node_of_def answer_def
  s_expr_set_u64_def s_expr_get_u64_def s_expr_set_user_u64_def s_expr_get_user_u64_def
  module_slot_def user_slot_def slot_get_def slot_set_def Let_def

section \<open>Tick delays\<close>

text \<open>Before the dispatch \<open>j\<close> of a delay of \<open>n\<close> ticks.\<close>

definition delaying :: "nat \<Rightarrow> 'w ctx \<Rightarrow> 'w ctx \<Rightarrow> s_expr_param \<Rightarrow> nat \<Rightarrow> 'w inst \<Rightarrow> bool" where
  "delaying n c b fp j s = (slot_call c fp (se_tick_delay b) s \<and>
     (if j = 0 then is_active (node_of fp s) \<and> \<not> is_initialized (node_of fp s)
      else if j \<le> n + 1 then is_active (node_of fp s) \<and> is_initialized (node_of fp s) \<and>
        unat (slot_of fp s) = n + 1 - j
      else \<not> is_active (node_of fp s)))"

definition delay_answer :: "nat \<Rightarrow> nat \<Rightarrow> s_expr_result" where
  "delay_answer n j = (if j \<le> n then SE_FUNCTION_HALT
     else if j = n + 1 then SE_PIPELINE_DISABLE else SE_PIPELINE_CONTINUE)"

lemma tick_delay_calls:
  assumes "in_pointer_call s" "pointer_array s = Some arr" "pointer_base s < length arr"
  shows "s_count a > 0 \<Longrightarrow> rd (tree_params c) a 0 = Ret p \<Longrightarrow>
      se_tick_delay c a SE_EVENT_INIT i d s = Ret (SE_PIPELINE_CONTINUE,
        s \<lparr> pointer_array := Some (arr[pointer_base s := ucast (p_union p + 1)]) \<rparr>)"
    and "se_tick_delay c a SE_EVENT_TICK i d s =
      (if arr ! pointer_base s > 0 then Ret (SE_FUNCTION_HALT,
         s \<lparr> pointer_array := Some (arr[pointer_base s := arr ! pointer_base s - 1]) \<rparr>)
       else Ret (SE_PIPELINE_DISABLE, s))"
    and "se_tick_delay c a SE_EVENT_TERMINATE i d s = Ret (SE_PIPELINE_CONTINUE, s)"
  using assms by (simp_all add: se_tick_delay_def rdA_def answer_def s_expr_set_u64_def s_expr_get_u64_def
      module_slot_def slot_get_def slot_set_def)

lemma unat_up: "unat (ucast (x :: 32 word) :: 64 word) = unat x"
proof -
  have "unat x < 2 ^ LENGTH(32)" by (rule unsigned_less)
  then show ?thesis by (simp add: unsigned_ucast_eq unsigned_take_bit_eq take_bit_nat_eq_self)
qed

lemma delay_step:
  assumes "delaying n c b fp j s" "s_count args > 0" "rd (tree_params b) args 0 = Ret p"
    "unat (p_union p) = n" "n < 2 ^ 32 - 1"
  shows "\<exists>s'. dispatch_main c fp args SE_EVENT_TICK i d s = Ret (delay_answer n j, s') \<and>
    delaying n c b fp (Suc j) s'"
proof -
  from assms(1) obtain arr where s: "func_index fp < length (main_fns c)"
    "main_fns c ! func_index fp = Some (se_tick_delay b)" "has_pointer fp"
    "node_index fp < length (node_states s)" "pointer_array s = Some arr"
    "unat (index_to_pointer fp) < length arr"
    by (auto simp: delaying_def slot_call_def node_count_def)
  have w: "unat (ucast (p_union p + 1) :: 64 word) = n + 1"
  proof -
    have "unat (p_union p + 1) = n + 1"
      using assms(4,5) by (simp add: unat_word_ariths)
    then show ?thesis by (simp add: unat_up)
  qed
  have dec: "unat (v - 1) = unat v - 1" if "0 < unat v" for v :: "64 word"
    using that by (intro unat_minus_one) auto
  consider "j = 0" | "j = n + 1" | "j \<le> n" "j > 0" | "j > n + 1" by linarith
  then show ?thesis
  proof cases
    case 1
    then show ?thesis
      using assms s w dec
      by (simp add: dispatch_main_def get_node_state_def node_context_of_def enter_node_def
        restore_node_context_def upd_node_def node_count_def slot_of_def node_of_def
        delaying_def slot_call_def delay_answer_def tick_delay_calls word_less_nat_alt Let_def)
  next
    case 2
    then show ?thesis
      using assms s w dec
      by (simp add: dispatch_main_def get_node_state_def node_context_of_def enter_node_def
        restore_node_context_def upd_node_def node_count_def slot_of_def node_of_def
        delaying_def slot_call_def delay_answer_def tick_delay_calls word_less_nat_alt Let_def)
  next
    case 3
    then show ?thesis
      using assms s w dec
      by (simp add: dispatch_main_def get_node_state_def node_context_of_def enter_node_def
        restore_node_context_def upd_node_def node_count_def slot_of_def node_of_def
        delaying_def slot_call_def delay_answer_def tick_delay_calls word_less_nat_alt Let_def)
  next
    case 4
    then show ?thesis
      using assms s w dec
      by (simp add: dispatch_main_def get_node_state_def node_context_of_def enter_node_def
        restore_node_context_def upd_node_def node_count_def slot_of_def node_of_def
        delaying_def slot_call_def delay_answer_def tick_delay_calls word_less_nat_alt Let_def)
  qed
qed

section \<open>Waiting for events\<close>

text \<open>How often the event \<open>e\<close> is among the first \<open>j\<close> of a list.\<close>

definition seen :: "nat \<Rightarrow> (nat \<times> cptr) list \<Rightarrow> nat \<Rightarrow> nat" where
  "seen e evs j = length (filter (\<lambda>x. fst x = e) (take j evs))"

lemma seen_Suc: "j < length evs \<Longrightarrow> seen e evs (Suc j) = seen e evs j + (if fst (evs ! j) = e then 1 else 0)"
  by (simp add: seen_def take_Suc_conv_app_nth)

lemma seen_0 [simp]: "seen e evs 0 = 0"
  by (simp add: seen_def)

text \<open>The packing of target and count into the slot.\<close>

definition pack :: "32 word \<Rightarrow> 32 word \<Rightarrow> 64 word" where
  "pack x y = (push_bit 32 (ucast x) OR ucast y)"

lemma pack_simps:
  "ucast (drop_bit 32 (pack x y)) = x" "ucast (pack x y AND 0xFFFFFFFF) = y"
proof -
  show "ucast (drop_bit 32 (pack x y)) = x"
    unfolding pack_def by (rule bit_word_eqI) (auto simp: bit_simps dest: bit_imp_le_length)
  have m: "(0xFFFFFFFF :: 64 word) = mask 32" by (simp add: mask_eq_exp_minus_1)
  show "ucast (pack x y AND 0xFFFFFFFF) = y"
    unfolding m pack_def by (rule bit_word_eqI) (auto simp: bit_simps)
qed

definition waiting :: "nat \<Rightarrow> nat \<Rightarrow> (nat \<times> cptr) list \<Rightarrow> 'w ctx \<Rightarrow> 'w ctx \<Rightarrow> s_expr_param \<Rightarrow> nat \<Rightarrow> 'w inst \<Rightarrow> bool" where
  "waiting e n evs c b fp j s = (slot_call c fp (se_wait_event b) s \<and>
     (if j = 0 then is_active (node_of fp s) \<and> \<not> is_initialized (node_of fp s)
      else if seen e evs j < n then is_active (node_of fp s) \<and> is_initialized (node_of fp s) \<and>
        slot_of fp s = pack (of_nat e) (of_nat (n - seen e evs j))
      else \<not> is_active (node_of fp s)))"

definition wait_answer :: "nat \<Rightarrow> nat \<Rightarrow> (nat \<times> cptr) list \<Rightarrow> nat \<Rightarrow> s_expr_result" where
  "wait_answer e n evs j = (if seen e evs (Suc j) < n then SE_PIPELINE_HALT
     else if seen e evs j < n then SE_PIPELINE_DISABLE else SE_PIPELINE_CONTINUE)"

lemma wait_event_calls:
  assumes "in_pointer_call s" "pointer_array s = Some arr" "pointer_base s < length arr"
  shows "s_count a \<ge> 2 \<Longrightarrow> rd (tree_params c) a 0 = Ret p0 \<Longrightarrow> rd (tree_params c) a 1 = Ret p1 \<Longrightarrow>
      se_wait_event c a SE_EVENT_INIT i d s = Ret (SE_PIPELINE_CONTINUE,
        s \<lparr> pointer_array := Some (arr[pointer_base s := pack (p_union p0) (p_union p1)]) \<rparr>)"
    and "arr ! pointer_base s = pack x y \<Longrightarrow> se_wait_event c a SE_EVENT_TICK i d s =
      (if y = 0 then Ret (SE_PIPELINE_DISABLE, s)
       else if i = unat x then Ret (if y - 1 = 0 then SE_PIPELINE_DISABLE else SE_PIPELINE_HALT,
         s \<lparr> pointer_array := Some (arr[pointer_base s := pack x (y - 1)]) \<rparr>)
       else Ret (SE_PIPELINE_HALT, s))"
    and "se_wait_event c a SE_EVENT_TERMINATE i d s = Ret (SE_PIPELINE_CONTINUE, s)"
  using assms by (simp_all add: se_wait_event_def rdA_def answer_def s_expr_set_user_u64_def s_expr_get_user_u64_def
      user_slot_def slot_get_def slot_set_def pack_simps pack_def [symmetric] Let_def)

lemma wait_step:
  assumes "waiting e n evs c b fp j s" "j < length evs" "s_count args \<ge> 2"
    "rd (tree_params b) args 0 = Ret p0" "rd (tree_params b) args 1 = Ret p1"
    "unat (p_union p0) = e" "unat (p_union p1) = n" "0 < n" "evs ! j = (i, d)"
  shows "\<exists>s'. dispatch_main c fp args SE_EVENT_TICK i d s = Ret (wait_answer e n evs j, s') \<and>
    waiting e n evs c b fp (Suc j) s'"
proof -
  from assms(1) obtain arr where s: "func_index fp < length (main_fns c)"
    "main_fns c ! func_index fp = Some (se_wait_event b)" "has_pointer fp"
    "node_index fp < length (node_states s)" "pointer_array s = Some arr"
    "unat (index_to_pointer fp) < length arr"
    by (auto simp: waiting_def slot_call_def node_count_def)
  let ?k = "seen e evs j"
  have p: "p_union p0 = of_nat e" "p_union p1 = of_nat n" using assms(6,7) by auto
  have "e < 2 ^ 32" "n < 2 ^ 32"
    using assms(6,7) unsigned_less [of "p_union p0"] unsigned_less [of "p_union p1"] by auto
  then have u: "unat (of_nat e :: 32 word) = e"
    and small: "m \<le> n \<Longrightarrow> unat (of_nat m :: 32 word) = m" for m
    by (simp_all add: unat_of_nat take_bit_nat_eq_self)
  have z: "(of_nat m = (0 :: 32 word)) = (m = 0)" "(of_nat m = (1 :: 32 word)) = (m = 1)" if "m \<le> n" for m
    using small [OF that] by (auto simp: word_unat_eq_iff)
  have z': "(of_nat (n - ?k) = (0 :: 32 word)) = (n - ?k = 0)" "(of_nat (n - ?k) = (1 :: 32 word)) = (n - ?k = 1)"
    "(of_nat n = (0 :: 32 word)) = (n = 0)" "(of_nat n = (1 :: 32 word)) = (n = 1)"
    "(of_nat (n - Suc 0) = (0 :: 32 word)) = (n - Suc 0 = 0)"
    "(of_nat (n - Suc ?k) = (0 :: 32 word)) = (n - Suc ?k = 0)"
    by (rule z, simp)+
  have dec: "(of_nat m :: 32 word) - 1 = of_nat (m - 1)" if "0 < m" for m
    using that by (cases m) simp_all
  have dec': "0 < n - ?k \<Longrightarrow> (of_nat (n - ?k) :: 32 word) - 1 = of_nat (n - ?k - 1)"
    "(of_nat n :: 32 word) - 1 = of_nat (n - 1)"
    using assms(8) by (simp_all only: dec)
  have ks: "seen e evs (Suc j) = ?k + (if i = e then 1 else 0)"
    using seen_Suc [OF assms(2)] assms(9) by simp
  note step = dispatch_main_def get_node_state_def node_context_of_def enter_node_def
        restore_node_context_def upd_node_def node_count_def slot_of_def node_of_def
        waiting_def slot_call_def wait_answer_def wait_event_calls Let_def
  consider "j = 0" "i = e" | "j = 0" "i \<noteq> e" | "j > 0" "?k < n" "i = e" | "j > 0" "?k < n" "i \<noteq> e" | "j > 0" "?k \<ge> n" by linarith
  then show ?thesis
  proof cases
    case 1
    then show ?thesis
      using assms s p u ks
      by (simp add: step z' dec' del: of_nat_diff)
  next
    case 2
    then show ?thesis
      using assms s p u ks
      by (simp add: step z' dec' del: of_nat_diff)
  next
    case 3
    then show ?thesis
      using assms s p u ks
      by (simp add: step z' dec' del: of_nat_diff)
  next
    case 4
    then show ?thesis
      using assms s p u ks
      by (simp add: step z' dec' del: of_nat_diff)
  next
    case 5
    then show ?thesis
      using assms s p u ks
      by (simp add: step z' dec' del: of_nat_diff)
  qed
qed

section \<open>Properties\<close>

text \<open>
  A delay of \<open>n\<close> ticks answers HALT to its first \<open>n + 1\<close> dispatches, disables itself on the
  dispatch after them, and is inactive from then on, whatever the events are. The parameter
  0xFFFFFFFF is excluded: its successor wraps to 0.
\<close>

theorem tick_delay_duration:
  assumes "slot_call c fp (se_tick_delay b) s" "is_active (node_of fp s)" "\<not> is_initialized (node_of fp s)"
    "s_count args > 0" "rd (tree_params b) args 0 = Ret p" "unat (p_union p) = n" "n < 2 ^ 32 - 1"
  shows "\<exists>s'. mapA (\<lambda>(i, d). dispatch_main c fp args SE_EVENT_TICK i d) evs s =
      Ret (map (\<lambda>j. if j \<le> n then SE_FUNCTION_HALT else if j = n + 1 then SE_PIPELINE_DISABLE
        else SE_PIPELINE_CONTINUE) [0..<length evs], s') \<and>
    (length evs \<ge> n + 2 \<longrightarrow> \<not> is_active (node_of fp s'))"
proof -
  have "\<exists>s'. mapA (\<lambda>(i, d). dispatch_main c fp args SE_EVENT_TICK i d) evs s =
      Ret (map (delay_answer n) [0..<length evs], s') \<and> delaying n c b fp (length evs) s'"
  proof (rule mapA_invariant)
    fix j s assume "delaying n c b fp j s"
    from delay_step [OF this assms(4-7)]
    show "\<exists>s'. (\<lambda>(i, d). dispatch_main c fp args SE_EVENT_TICK i d) (evs ! j) s = Ret (delay_answer n j, s') \<and>
        delaying n c b fp (Suc j) s'"
      by (cases "evs ! j") simp
  qed (use assms(1-3) in \<open>simp add: delaying_def\<close>)
  then show ?thesis by (auto simp: delaying_def delay_answer_def [abs_def] split: if_splits)
qed

text \<open>A tree of one leaf with two parameters in its slot call, and a context that runs it.\<close>

definition leaf_params :: "nat \<Rightarrow> nat \<Rightarrow> s_expr_param list" where
  "leaf_params x y = [mkp S_EXPR_PARAM_UINT x 0, mkp S_EXPR_PARAM_UINT y 0]"

definition leaf_ctx :: "('w ctx \<Rightarrow> ('w, s_expr_result) node_fn) \<Rightarrow> nat \<Rightarrow> nat \<Rightarrow> nat \<Rightarrow> 'w ctx" where
  "leaf_ctx f x y = mk_ctx \<lparr> env_params = leaf_params x y, env_main = [Some f], env_pred = [], env_oneshot = [] \<rparr>"

abbreviation leaf_call :: s_expr_param where
  "leaf_call \<equiv> mkp (S_EXPR_PARAM_MAIN OR S_EXPR_FLAG_POINTER) 0 0"

lemma leaf_ready:
  "slot_call (leaf_ctx f x y 1) leaf_call (f (leaf_ctx f x y 0)) (fresh_inst 1 w)"
  "is_active (node_of leaf_call (fresh_inst 1 w))" "\<not> is_initialized (node_of leaf_call (fresh_inst 1 w))"
  "rd (tree_params (leaf_ctx f x y n)) \<lparr> s_base = Some 0, s_count = 2 \<rparr> 0 = Ret (mkp S_EXPR_PARAM_UINT x 0)"
  "rd (tree_params (leaf_ctx f x y n)) \<lparr> s_base = Some 0, s_count = 2 \<rparr> 1 = Ret (mkp S_EXPR_PARAM_UINT y 0)"
  by (simp_all add: slot_call_def leaf_ctx_def fresh_inst_def node_count_def node_of_def ns_fresh_def
      is_active_def is_initialized_def rd_def leaf_params_def)

theorem tick_delay_duration_witness:
  "\<exists>s'. mapA (\<lambda>(i, d). dispatch_main (leaf_ctx se_tick_delay 2 0 1) leaf_call \<lparr> s_base = Some 0, s_count = 2 \<rparr>
       SE_EVENT_TICK i d) [(4, 0), (4, 0), (4, 0), (4, 0), (4, 0)] (fresh_inst 1 ()) =
     Ret ([SE_FUNCTION_HALT, SE_FUNCTION_HALT, SE_FUNCTION_HALT, SE_PIPELINE_DISABLE, SE_PIPELINE_CONTINUE], s')"
  using tick_delay_duration [OF leaf_ready(1) [where f = se_tick_delay and x = 2 and y = 0 and w = "()"] leaf_ready(2,3) _ leaf_ready(4), where n = 2 and evs = "[(4, 0), (4, 0), (4, 0), (4, 0), (4, 0)]"]
  by (simp add: mkp_unat upt_rec del: mapA.simps) blast

text \<open>
  A wait for the \<open>n\<close>-th event \<open>e\<close> answers HALT until the event that completes the count,
  disables itself on that event and is inactive from then on; other events do not count.
\<close>

theorem wait_event_counts:
  assumes "slot_call c fp (se_wait_event b) s" "is_active (node_of fp s)" "\<not> is_initialized (node_of fp s)"
    "s_count args \<ge> 2" "rd (tree_params b) args 0 = Ret p0" "rd (tree_params b) args 1 = Ret p1"
    "unat (p_union p0) = e" "unat (p_union p1) = n" "0 < n"
  shows "\<exists>s'. mapA (\<lambda>(i, d). dispatch_main c fp args SE_EVENT_TICK i d) evs s =
      Ret (map (\<lambda>j. if seen e evs (j + 1) < n then SE_PIPELINE_HALT
        else if seen e evs j < n then SE_PIPELINE_DISABLE else SE_PIPELINE_CONTINUE) [0..<length evs], s')"
proof -
  have "\<exists>s'. mapA (\<lambda>(i, d). dispatch_main c fp args SE_EVENT_TICK i d) evs s =
      Ret (map (wait_answer e n evs) [0..<length evs], s') \<and> waiting e n evs c b fp (length evs) s'"
  proof (rule mapA_invariant)
    fix j s assume j: "j < length evs" and w: "waiting e n evs c b fp j s"
    from wait_step [OF w j assms(4-9)]
    show "\<exists>s'. (\<lambda>(i, d). dispatch_main c fp args SE_EVENT_TICK i d) (evs ! j) s = Ret (wait_answer e n evs j, s') \<and>
        waiting e n evs c b fp (Suc j) s'"
      by (cases "evs ! j") simp
  qed (use assms(1-3) in \<open>simp add: waiting_def\<close>)
  then show ?thesis by (auto simp: wait_answer_def [abs_def])
qed

theorem wait_event_counts_witness:
  "\<exists>s'. mapA (\<lambda>(i, d). dispatch_main (leaf_ctx se_wait_event 7 2 1) leaf_call \<lparr> s_base = Some 0, s_count = 2 \<rparr>
       SE_EVENT_TICK i d) [(4, 0), (7, 0), (4, 0), (7, 0), (7, 0)] (fresh_inst 1 ()) =
     Ret ([SE_PIPELINE_HALT, SE_PIPELINE_HALT, SE_PIPELINE_HALT, SE_PIPELINE_DISABLE, SE_PIPELINE_CONTINUE], s')"
  using wait_event_counts [OF leaf_ready(1) [where f = se_wait_event and x = 7 and y = 2 and w = "()"] leaf_ready(2,3) _ leaf_ready(4,5), where e = 7 and n = 2 and evs = "[(4, 0), (7, 0), (4, 0), (7, 0), (7, 0)]"]
  by (simp add: mkp_unat seen_def upt_rec del: mapA.simps)

end
