(* ===== verification/SE_Switch.thy ===== *)
theory SE_Switch
  imports SE_Compose SE_Lifecycle
begin

text \<open>
  The dispatching composites over trees: which case a value selects, and what the branches of
  a state machine are told over a run of field values.
\<close>

section \<open>Rows of cases\<close>

text \<open>A parameter list of \<open>[int, action]\<close> pairs.\<close>

definition rows :: "(s_expr_param \<times> sexp) list \<Rightarrow> sexp list" where
  "rows prs = concat (map (\<lambda>(v, x). [Atom v, x]) prs)"

lemma rows_simps [simp]: "rows [] = []" "rows (r # prs) = Atom (fst r) # snd r # rows prs"
  "rows (prs @ qrs) = rows prs @ rows qrs"
  by (simp_all add: rows_def case_prod_beta)

lemma length_rows [simp]: "length (rows prs) = 2 * length prs"
  by (induction prs) auto

definition is_label :: "s_expr_param \<Rightarrow> bool" where
  "is_label p = (opcode p = S_EXPR_PARAM_INT \<or> opcode p = S_EXPR_PARAM_UINT)"

text \<open>The position of the action of row \<open>j\<close> behind the parameters \<open>ys\<close>.\<close>

definition action_pos :: "sexp list \<Rightarrow> (s_expr_param \<times> sexp) list \<Rightarrow> nat \<Rightarrow> nat" where
  "action_pos ys prs j = length (flats (ys @ rows (take j prs))) + 1"

text \<open>The row a value selects: the first with that label, else the last labelled -1.\<close>

definition branch_of :: "int list \<Rightarrow> int \<Rightarrow> nat option" where
  "branch_of ls v =
     (let m = filter (\<lambda>j. ls ! j = v) [0..<length ls]; d = filter (\<lambda>j. ls ! j = -1) [0..<length ls]
      in if m \<noteq> [] then Some (hd m) else if d \<noteq> [] then Some (last d) else None)"

text \<open>The same as the loop goes: \<open>d\<close> is the default found so far.\<close>

fun pick :: "int \<Rightarrow> int list \<Rightarrow> nat \<Rightarrow> nat option \<Rightarrow> nat option \<times> nat option" where
  "pick v [] j d = (None, d)"
| "pick v (l # ls) j d = (if l = v then (Some j, d) else pick v ls (j + 1) (if l = -1 then Some j else d))"

lemma filter_upt_Cons:
  "filter (\<lambda>i. (l # ls) ! i = v) [0..<Suc (length ls)] =
     (if l = v then [0] else []) @ map Suc (filter (\<lambda>i. ls ! i = v) [0..<length ls])"
proof -
  have "filter (\<lambda>i. (l # ls) ! i = v) [0..<Suc (length ls)] =
      filter (\<lambda>i. (l # ls) ! i = v) (0 # map Suc [0..<length ls])"
    by (simp only: map_Suc_upt upt_conv_Cons [OF zero_less_Suc])
  then show ?thesis by (simp add: filter_map comp_def del: upt_Suc)
qed

lemma pick_filter:
  "fst (pick v ls j d) = (case filter (\<lambda>i. ls ! i = v) [0..<length ls] of [] \<Rightarrow> None | i # _ \<Rightarrow> Some (j + i))"
  "fst (pick v ls j d) = None \<Longrightarrow> snd (pick v ls j d) =
     (let e = filter (\<lambda>i. ls ! i = -1) [0..<length ls] in if e = [] then d else Some (j + last e))"
  by (induction v ls j d rule: pick.induct)
    (auto simp: filter_upt_Cons last_map Let_def simp del: upt_Suc split: list.splits if_splits)

lemma pick_branch_of:
  "branch_of ls v = (case pick v ls 0 None of (Some j, d) \<Rightarrow> Some j | (None, d) \<Rightarrow> d)"
  using pick_filter [of v ls 0 None]
  by (auto simp: branch_of_def Let_def split: prod.splits if_splits option.splits list.splits)

lemma branch_of_less: "branch_of ls v = Some j \<Longrightarrow> j < length ls"
proof -
  assume b: "branch_of ls v = Some j"
  let ?m = "\<lambda>v. filter (\<lambda>i. ls ! i = v) [0..<length ls]"
  have "j \<in> set (?m v) \<or> j \<in> set (?m (-1))"
    using b hd_in_set [of "?m v"] last_in_set [of "?m (-1)"]
    by (auto simp: branch_of_def Let_def split: if_splits)
  then show ?thesis by auto
qed

section \<open>The search\<close>

lemma row_split: "j < length prs \<Longrightarrow>
    rows prs = rows (take j prs) @ Atom (fst (prs ! j)) # snd (prs ! j) # rows (drop (Suc j) prs)"
  by (subst id_take_nth_drop [of j prs]) simp_all

lemma case_row:
  assumes "holds P a (ys @ rows prs)" "j < length prs"
  defines "i \<equiv> length (flats (ys @ rows (take j prs)))"
  shows "i < s_count a" "rd P a i = Ret (fst (prs ! j))" "u16 (i + 1) = action_pos ys prs j"
    "action_pos ys prs j < s_count a" "s_expr_skip_param P a i = Ret (i + 1)"
    "s_expr_skip_param P a (i + 1) = Ret (length (flats (ys @ rows (take (Suc j) prs))))"
proof -
  let ?ys = "ys @ rows (take j prs)" and ?p = "fst (prs ! j)" and ?x = "snd (prs ! j)"
  have h: "holds P a (?ys @ Atom ?p # ?x # rows (drop (Suc j) prs))"
    using assms(1) row_split [OF assms(2)] by simp
  have h': "holds P a ((?ys @ [Atom ?p]) @ ?x # rows (drop (Suc j) prs))" using h by simp
  have l: "i + 1 < s_count a" "s_count a < 65536" using h by (auto simp: holds_def i_def)
  then show "i < s_count a" "u16 (i + 1) = action_pos ys prs j" "action_pos ys prs j < s_count a"
    by (simp_all add: u16_id action_pos_def i_def)
  show "rd P a i = Ret ?p" using holds_rd [OF h, of i] by (simp add: i_def nth_append)
  show "s_expr_skip_param P a i = Ret (i + 1)"
    using holds_skip [OF h] by (simp add: s_expr_skip_param_eq i_def)
  show "s_expr_skip_param P a (i + 1) = Ret (length (flats (ys @ rows (take (Suc j) prs))))"
    using holds_skip [OF h'] assms(2) by (simp add: s_expr_skip_param_eq i_def take_Suc_conv_app_nth)
qed

definition case_result :: "((nat \<times> nat) + nat) \<Rightarrow> nat" where
  "case_result r = (case r of Inr i \<Rightarrow> i | Inl (idx, d) \<Rightarrow> d)"

definition picked :: "(nat \<Rightarrow> nat) \<Rightarrow> nat option \<times> nat option \<Rightarrow> nat" where
  "picked pos z = (case z of (Some j, d) \<Rightarrow> pos j | (None, Some j) \<Rightarrow> pos j | (None, None) \<Rightarrow> 0)"

text \<open>The body of the search loop.\<close>

definition case_body :: "s_expr_param list \<Rightarrow> slice \<Rightarrow> int \<Rightarrow> nat \<times> nat \<Rightarrow> ((nat \<times> nat) + nat) res" where
  "case_body P a v = (\<lambda>(idx, dflt).
           res_bind (rd P a idx) (\<lambda>p.
           if opcode p = S_EXPR_PARAM_INT \<or> opcode p = S_EXPR_PARAM_UINT then
             let this_action = u16 (idx + 1) in
             if this_action < s_count a \<and> int_val p = v then Ret (Inr this_action)
             else
               let dflt' = (if this_action < s_count a \<and> int_val p = -1 then this_action else dflt) in
               res_bind (s_expr_skip_param P a idx) (\<lambda>j.
               res_bind (s_expr_skip_param P a j) (\<lambda>k. Ret (Inl (k, dflt'))))
           else res_bind (s_expr_skip_param P a idx) (\<lambda>j. Ret (Inl (j, dflt)))))"

lemma case_loop:
  assumes "holds P a (ys @ rows prs)" "list_all (is_label \<circ> fst) prs"
  assumes "length prs - j \<le> m" "j \<le> length prs"
  shows "\<exists>x. whileR m (\<lambda>(idx, dflt). idx < s_count a) (case_body P a v)
      (length (flats (ys @ rows (take j prs))), case d of None \<Rightarrow> 0 | Some i \<Rightarrow> action_pos ys prs i) = Ret x \<and>
    case_result x = picked (action_pos ys prs) (pick v (map (int_val \<circ> fst) (drop j prs)) j d) \<and> x \<noteq> Inr 0"
  using assms(3,4)
proof (induction "length prs - j" arbitrary: j d m)
  case 0
  then have "j = length prs" by simp
  then show ?case
    using assms(1) by (cases d) (auto simp: whileR_stop holds_def case_result_def picked_def)
next
  case (Suc n)
  then have j: "j < length prs" and m: "0 < m" by auto
  let ?st = "(length (flats (ys @ rows (take j prs))), case d of None \<Rightarrow> 0 | Some i \<Rightarrow> action_pos ys prs i)"
  note row = case_row [OF assms(1) j]
  have lab: "is_label (fst (prs ! j))" using assms(2) j by (simp add: list_all_length)
  have lt: "(\<lambda>(idx, dflt). idx < s_count a) ?st" using row(1) by simp
  have dr: "drop j prs = prs ! j # drop (Suc j) prs" using j by (simp add: Cons_nth_drop_Suc)
  show ?case
  proof (cases "int_val (fst (prs ! j)) = v")
    case True
    have "case_body P a v ?st = Ret (Inr (action_pos ys prs j))"
      using row lab True by (simp add: case_body_def is_label_def Let_def)
    from whileR_exit [where c = "\<lambda>(idx, dflt). idx < s_count a" and body = "case_body P a v" and i = ?st, OF lt m this] show ?thesis
      using True by (simp add: dr case_result_def picked_def action_pos_def)
  next
    case False
    let ?d = "if int_val (fst (prs ! j)) = -1 then Some j else d"
    have "case_body P a v ?st = Ret (Inl (length (flats (ys @ rows (take (Suc j) prs))),
        case ?d of None \<Rightarrow> 0 | Some i \<Rightarrow> action_pos ys prs i))"
      using row lab False by (simp add: case_body_def is_label_def Let_def)
    from whileR_step [where c = "\<lambda>(idx, dflt). idx < s_count a" and body = "case_body P a v" and i = ?st, OF lt m this]
      Suc.hyps(1) [of "Suc j" "m - 1" ?d] Suc.hyps(2) Suc.prems j
    show ?thesis using False by (simp add: dr)
  qed
qed

lemma case_search_picks:
  assumes "holds (tree_params c) a (ys @ rows prs)" "list_all (is_label \<circ> fst) prs"
  shows "\<exists>r. case_search c a v (length (flats ys)) = Ret r \<and>
    (case r of Inr i \<Rightarrow> i | Inl d \<Rightarrow> d) =
      (case branch_of (map (int_val \<circ> fst) prs) v of None \<Rightarrow> 0 | Some j \<Rightarrow> action_pos ys prs j) \<and> r \<noteq> Inr 0"
proof -
  have "length prs \<le> nav_fuel"
    using assms(1) length_le_flats [of "ys @ rows prs"] by (auto simp: holds_def nav_fuel_def)
  with case_loop [OF assms, where j = 0 and m = nav_fuel and d = None and v = v] obtain x where
    x: "whileR nav_fuel (\<lambda>(idx, dflt). idx < s_count a) (case_body (tree_params c) a v)
        (length (flats ys), 0) = Ret x"
    "case_result x = picked (action_pos ys prs) (pick v (map (int_val \<circ> fst) prs) 0 None)" "x \<noteq> Inr 0"
    by auto
  show ?thesis
    unfolding case_search_def pick_branch_of
    using x by (auto simp: case_body_def case_result_def picked_def Let_def split: sum.splits prod.splits option.splits)
qed

section \<open>State machines\<close>

text \<open>A branch that logs what it is told under its number and keeps running.\<close>

type_synonym branch_log = "(nat \<times> s_expr_event_type) list"

definition log_branch :: "nat \<Rightarrow> (branch_log, s_expr_result) node_fn" where
  "log_branch b a ev event_id event_data =
     (\<lambda>s. Ret (SE_PIPELINE_HALT, s \<lparr> user_ctx := user_ctx s @ [(b, ev)] \<rparr>))"

text \<open>What the branches are told when \<open>b\<close> is selected after \<open>prev\<close>, and over a run.\<close>

definition told :: "nat option \<Rightarrow> nat \<Rightarrow> branch_log" where
  "told prev b = (if prev = Some b then []
     else (case prev of None \<Rightarrow> [] | Some p \<Rightarrow> [(p, SE_EVENT_TERMINATE)]) @ [(b, SE_EVENT_INIT)]) @ [(b, SE_EVENT_TICK)]"

fun told_all :: "nat option \<Rightarrow> nat list \<Rightarrow> branch_log" where
  "told_all prev [] = []"
| "told_all prev (b # bs) = told prev b @ told_all (Some b) bs"

text \<open>A state machine on the field \<open>p0\<close> whose rows are calls of logging branches.\<close>

definition machine :: "branch_log ctx \<Rightarrow> slice \<Rightarrow> s_expr_param \<Rightarrow> (s_expr_param \<times> sexp) list \<Rightarrow>
    (nat \<Rightarrow> s_expr_param) \<Rightarrow> bool" where
  "machine c a p0 prs f =
     (holds (tree_params c) a (Atom p0 # rows prs) \<and> list_all wf_calls (Atom p0 # rows prs) \<and>
      list_all (is_label \<circ> fst) prs \<and> inj_on (node_index \<circ> f) {0..<length prs} \<and>
      (\<forall>j < length prs. callee (snd (prs ! j)) = Some (f j) \<and> call_nodes (snd (prs ! j)) = [node_index (f j)] \<and>
         opcode (f j) = S_EXPR_PARAM_MAIN \<and> func_index (f j) < length (main_fns c) \<and>
         main_fns c ! func_index (f j) = Some (log_branch j)))"

definition action_at :: "s_expr_param \<Rightarrow> (s_expr_param \<times> sexp) list \<Rightarrow> nat \<Rightarrow> nat" where
  "action_at p0 prs = action_pos [Atom p0] prs"

lemma machine_child:
  assumes "machine c a p0 prs f" "j < length prs"
  shows "2 * j + 2 < length (Atom p0 # rows prs)" "(Atom p0 # rows prs) ! (2 * j + 2) = snd (prs ! j)"
    "action_at p0 prs j = place (Atom p0 # rows prs) (2 * j + 2)"
    "0 < action_at p0 prs j" "action_at p0 prs j < 65535"
proof -
  have l: "length (rows (take j prs)) = 2 * j" using assms(2) by simp
  show k: "2 * j + 2 < length (Atom p0 # rows prs)" using assms(2) by simp
  have "rows prs ! (2 * j + 1) = snd (prs ! j)"
    unfolding row_split [OF assms(2)] using l by (simp add: nth_append)
  then show "(Atom p0 # rows prs) ! (2 * j + 2) = snd (prs ! j)" by simp
  have "take (2 * j + 1) (rows prs) = rows (take j prs) @ [Atom (fst (prs ! j))]"
    unfolding row_split [OF assms(2)] using l by simp
  then show e: "action_at p0 prs j = place (Atom p0 # rows prs) (2 * j + 2)"
    by (simp add: action_at_def action_pos_def place_def)
  show "action_at p0 prs j < 65535"
    unfolding e by (rule place_less(3) [OF _ k, where P = "tree_params c" and a = a]) (use assms(1) in \<open>simp add: machine_def\<close>)
  show "0 < action_at p0 prs j" by (simp add: action_at_def action_pos_def)
qed

lemma action_at_inj:
  assumes "machine c a p0 prs f" "j < length prs" "k < length prs" "action_at p0 prs j = action_at p0 prs k"
  shows "j = k"
proof -
  have "2 * j + 2 < length (Atom p0 # rows prs)" "2 * k + 2 < length (Atom p0 # rows prs)"
    using assms(2,3) by auto
  then show ?thesis
    using assms(4) machine_child(3) [OF assms(1,2)] machine_child(3) [OF assms(1,3)]
      place_strict_mono [of "2 * j + 2" "2 * k + 2" "Atom p0 # rows prs"]
      place_strict_mono [of "2 * k + 2" "2 * j + 2" "Atom p0 # rows prs"]
    by (cases j k rule: linorder_cases) auto
qed

lemma branch_ops:
  assumes "machine c a p0 prs f" "b < length prs" "node_index (f b) < length (node_states s)"
  shows "is_active (node_states s ! node_index (f b)) \<Longrightarrow> is_initialized (node_states s ! node_index (f b)) \<Longrightarrow>
      s_expr_invoke_any c a (action_at p0 prs b) s =
        Ret (SE_PIPELINE_HALT, s \<lparr> user_ctx := user_ctx s @ [(b, SE_EVENT_TICK)] \<rparr>)"
    and "is_active (node_states s ! node_index (f b)) \<Longrightarrow> \<not> is_initialized (node_states s ! node_index (f b)) \<Longrightarrow>
      s_expr_invoke_any c a (action_at p0 prs b) s =
        Ret (SE_PIPELINE_HALT, s \<lparr> user_ctx := user_ctx s @ [(b, SE_EVENT_INIT), (b, SE_EVENT_TICK)],
          node_states := (node_states s)[node_index (f b) :=
            set_flag S_EXPR_NODE_FLAG_INITIALIZED (node_states s ! node_index (f b))] \<rparr>)"
    and "is_initialized (node_states s ! node_index (f b)) \<Longrightarrow>
      terminate_action_at_index c a (action_at p0 prs b) s =
        Ret ((), s \<lparr> user_ctx := user_ctx s @ [(b, SE_EVENT_TERMINATE)],
          node_states := (node_states s)[node_index (f b) := ns_clear] \<rparr>)"
    and "reset_action_at_index c a (action_at p0 prs b) s =
        Ret ((), s \<lparr> node_states := (node_states s)[node_index (f b) := ns_reset (node_states s ! node_index (f b))] \<rparr>)"
proof -
  note ch = machine_child [OF assms(1,2)]
  have m: "holds (tree_params c) a (Atom p0 # rows prs)" "list_all wf_calls (Atom p0 # rows prs)"
    and f: "callee ((Atom p0 # rows prs) ! (2 * b + 2)) = Some (f b)" "call_nodes ((Atom p0 # rows prs) ! (2 * b + 2)) = [node_index (f b)]"
    "opcode (f b) = S_EXPR_PARAM_MAIN" "func_index (f b) < length (main_fns c)"
    "main_fns c ! func_index (f b) = Some (log_branch b)"
    using assms(1,2) unfolding ch(2) by (auto simp: machine_def)
  note inv = child_invoked [OF m ch(1) f(1), folded ch(3)]
  note dm = inv dispatch_main_def get_node_state_def enter_node_def upd_node_def restore_node_context_def
    node_context_of_def node_count_def log_branch_def Let_def
  show "is_active (node_states s ! node_index (f b)) \<Longrightarrow> is_initialized (node_states s ! node_index (f b)) \<Longrightarrow>
      s_expr_invoke_any c a (action_at p0 prs b) s =
        Ret (SE_PIPELINE_HALT, s \<lparr> user_ctx := user_ctx s @ [(b, SE_EVENT_TICK)] \<rparr>)"
    using assms(3) f by (cases s) (simp add: dm)
  show "is_active (node_states s ! node_index (f b)) \<Longrightarrow> \<not> is_initialized (node_states s ! node_index (f b)) \<Longrightarrow>
      s_expr_invoke_any c a (action_at p0 prs b) s =
        Ret (SE_PIPELINE_HALT, s \<lparr> user_ctx := user_ctx s @ [(b, SE_EVENT_INIT), (b, SE_EVENT_TICK)],
          node_states := (node_states s)[node_index (f b) :=
            set_flag S_EXPR_NODE_FLAG_INITIALIZED (node_states s ! node_index (f b))] \<rparr>)"
    using assms(3) f by (cases s) (simp add: dm)
  show "is_initialized (node_states s ! node_index (f b)) \<Longrightarrow>
      terminate_action_at_index c a (action_at p0 prs b) s =
        Ret ((), s \<lparr> user_ctx := user_ctx s @ [(b, SE_EVENT_TERMINATE)],
          node_states := (node_states s)[node_index (f b) := ns_clear] \<rparr>)"
    using assms(3) f call_args_at [OF m ch(1) f(1), folded ch(3)]
    by (cases s) (simp add: dm call_terminate_def set_node_def)
  show "reset_action_at_index c a (action_at p0 prs b) s =
        Ret ((), s \<lparr> node_states := (node_states s)[node_index (f b) := ns_reset (node_states s ! node_index (f b))] \<rparr>)"
    using child_reset_at [OF m ch(1) f(1), of s, folded ch(3)] upd_node_reset [of "node_index (f b)" s] assms(3) f(2)
    by (simp add: reset_action_at_index_def upd_node_def node_count_def)
qed

text \<open>The machine stands at \<open>prev\<close>: none before the first tick.\<close>

definition stands :: "s_expr_param \<Rightarrow> (s_expr_param \<times> sexp) list \<Rightarrow> (nat \<Rightarrow> s_expr_param) \<Rightarrow> nat option \<Rightarrow>
    branch_log inst \<Rightarrow> bool" where
  "stands p0 prs f prev s =
     (current_node_index s < length (node_states s) \<and>
      (\<forall>j < length prs. node_index (f j) < length (node_states s) \<and> node_index (f j) \<noteq> current_node_index s) \<and>
      (\<exists>bb. blackboard s = Some bb \<and> field_offset p0 + 4 \<le> length bb) \<and>
      unat (ns_user_data (node_states s ! current_node_index s)) =
        (case prev of None \<Rightarrow> 0xFFFF | Some p \<Rightarrow> action_at p0 prs p) \<and>
      (\<forall>p. prev = Some p \<longrightarrow> p < length prs \<and> is_active (node_states s ! node_index (f p)) \<and>
         is_initialized (node_states s ! node_index (f p))))"

lemma unat_u16: "n < 65536 \<Longrightarrow> unat (of_nat n :: 16 word) = n"
  by (simp add: unat_of_nat take_bit_nat_eq_self)

lemma field_case_selects:
  assumes "machine c a p0 prs f" "stands p0 prs f prev s"
  defines "v \<equiv> sint (le32 (the (blackboard s)) (field_offset p0))"
  shows "field_case who c a s = (case branch_of (map (int_val \<circ> fst) prs) v of
      None \<Rightarrow> Trap (Exception (who @ '': no matching case''))
    | Some j \<Rightarrow> Ret (action_at p0 prs j, s))"
proof -
  have h: "holds (tree_params c) a ([Atom p0] @ rows prs)" "list_all (is_label \<circ> fst) prs"
    using assms(1) by (auto simp: machine_def)
  have r: "rd (tree_params c) a 0 = Ret p0" using holds_rd [OF h(1), of 0] by simp
  have sk: "s_expr_skip_param (tree_params c) a 0 = Ret 1"
    using holds_skip [of "tree_params c" a "[]" "Atom p0" "rows prs"] h(1) by (simp add: s_expr_skip_param_eq)
  obtain bb where bb: "blackboard s = Some bb" "field_offset p0 + 4 \<le> length bb"
    using assms(2) by (auto simp: stands_def)
  from case_search_picks [OF h, of v] obtain z where z: "case_search c a v 1 = Ret z"
    "(case z of Inr i \<Rightarrow> i | Inl d \<Rightarrow> d) =
      (case branch_of (map (int_val \<circ> fst) prs) v of None \<Rightarrow> 0 | Some j \<Rightarrow> action_at p0 prs j)"
    unfolding action_at_def by auto
  show ?thesis
    using r sk bb z machine_child(4) [OF assms(1)] branch_of_less [of "map (int_val \<circ> fst) prs" v]
    by (cases "branch_of (map (int_val \<circ> fst) prs) v")
      (simp_all add: field_case_def rdA_def S_EXPR_GET_FIELD_def field_read_def v_def Let_def)
qed

lemma stands_after:
  assumes "stands p0 prs f prev s" "b < length prs"
    "current_node_index t = current_node_index s" "length (node_states t) = length (node_states s)"
    "blackboard t = blackboard s"
    "unat (ns_user_data (node_states t ! current_node_index s)) = action_at p0 prs b"
    "is_active (node_states t ! node_index (f b))" "is_initialized (node_states t ! node_index (f b))"
  shows "stands p0 prs f (Some b) t"
  using assms by (simp add: stands_def)

lemma machine_tick:
  assumes "machine c a p0 prs f" "stands p0 prs f prev s"
    "branch_of (map (int_val \<circ> fst) prs) (sint (le32 (the (blackboard s)) (field_offset p0))) = Some b"
  shows "\<exists>s'. se_state_machine c a SE_EVENT_TICK i d s = Ret (SE_PIPELINE_HALT, s') \<and>
    stands p0 prs f (Some b) s' \<and> user_ctx s' = user_ctx s @ told prev b"
proof -
  let ?cur = "current_node_index s"
  have b: "b < length prs" using branch_of_less [OF assms(3)] by simp
  have fc: "field_case ''se_state_machine'' c a s = Ret (action_at p0 prs b, s)"
    using field_case_selects [OF assms(1,2)] assms(3) by simp
  have cur: "?cur < length (node_states s)"
    and nodes: "\<And>j. j < length prs \<Longrightarrow> node_index (f j) < length (node_states s) \<and> node_index (f j) \<noteq> ?cur"
    using assms(2) by (auto simp: stands_def)
  have flags: "s_expr_get_user_flags s = Ret (case prev of None \<Rightarrow> 0xFFFF | Some p \<Rightarrow> action_at p0 prs p, s)"
    using assms(2) by (simp add: stands_def s_expr_get_user_flags_def cur_node_def node_count_def)
  have set_flags: "s_expr_set_user_flags v t = Ret ((), t \<lparr> node_states := (node_states t)[?cur :=
      (node_states t ! ?cur) \<lparr> ns_user_data := of_nat v \<rparr>] \<rparr>)"
    if "current_node_index t = ?cur" "length (node_states t) = length (node_states s)" for v t
    using that cur by (simp add: s_expr_set_user_flags_def upd_cur_def node_count_def)
  note ops = branch_ops [OF assms(1)] and pos = machine_child(4,5) [OF assms(1)]
  have run: "se_state_machine c a SE_EVENT_TICK i d s = Ret (SE_PIPELINE_HALT, t)"
    if "switch_branch c a (case prev of None \<Rightarrow> 0xFFFF | Some p \<Rightarrow> action_at p0 prs p) (action_at p0 prs b) s = Ret ((), u)"
      "s_expr_invoke_any c a (action_at p0 prs b) u = Ret (SE_PIPELINE_HALT, t)" for t u
    using that by (simp add: se_state_machine_def flags fc Let_def)
  consider "prev = Some b" | "prev = None" | p where "prev = Some p" "p \<noteq> b" by (cases prev) auto
  then show ?thesis
  proof cases
    case 1
    then have "is_active (node_states s ! node_index (f b))" "is_initialized (node_states s ! node_index (f b))"
      using assms(2) by (auto simp: stands_def)
    from run [OF _ ops(1) [OF b _ this]] show ?thesis
      using 1 nodes [OF b] assms(2) by (simp add: switch_branch_def told_def stands_def)
  next
    case 2
    let ?u = "s \<lparr> node_states := ((node_states s)[node_index (f b) := ns_reset (node_states s ! node_index (f b))])
      [?cur := (node_states s ! ?cur) \<lparr> ns_user_data := of_nat (action_at p0 prs b) \<rparr>] \<rparr>"
    have sw: "switch_branch c a 0xFFFF (action_at p0 prs b) s = Ret ((), ?u)"
      using pos [OF b] ops(4) [OF b, of s] nodes [OF b] by (simp add: switch_branch_def set_flags)
    have act: "is_active (node_states ?u ! node_index (f b))" "\<not> is_initialized (node_states ?u ! node_index (f b))"
      using nodes [OF b] by simp_all
    have nb: "node_index (f b) < length (node_states ?u)" using nodes [OF b] by simp
    have ud: "unat (of_nat (action_at p0 prs b) :: 16 word) = action_at p0 prs b"
      using pos [OF b] by (simp add: unat_u16)
    let ?t = "?u \<lparr> user_ctx := user_ctx ?u @ [(b, SE_EVENT_INIT), (b, SE_EVENT_TICK)],
      node_states := (node_states ?u)[node_index (f b) :=
        set_flag S_EXPR_NODE_FLAG_INITIALIZED (node_states ?u ! node_index (f b))] \<rparr>"
    have tick: "se_state_machine c a SE_EVENT_TICK i d s = Ret (SE_PIPELINE_HALT, ?t)"
      using run [OF _ ops(2) [OF b nb act]] sw 2 by simp
    have "stands p0 prs f (Some b) ?t"
      by (rule stands_after [OF assms(2) b]) (use nodes [OF b] cur ud act in simp_all)
    then show ?thesis using tick 2 by (simp add: told_def)
  next
    case 3
    then have p: "p < length prs" "is_initialized (node_states s ! node_index (f p))"
      and u: "prev = Some p" "p \<noteq> b" using assms(2) by (auto simp: stands_def)
    have ne: "node_index (f p) \<noteq> node_index (f b)"
      using assms(1) p(1) b u(2) by (auto simp: machine_def inj_on_def)
    have pe: "action_at p0 prs b \<noteq> action_at p0 prs p"
      using action_at_inj [OF assms(1) b p(1)] u(2) by auto
    let ?u = "s \<lparr> user_ctx := user_ctx s @ [(p, SE_EVENT_TERMINATE)],
      node_states := ((node_states s)[node_index (f p) := ns_reset ns_clear,
        node_index (f b) := ns_reset (node_states s ! node_index (f b)),
        ?cur := (node_states s ! ?cur) \<lparr> ns_user_data := of_nat (action_at p0 prs b) \<rparr>]) \<rparr>"
    have sw: "switch_branch c a (action_at p0 prs p) (action_at p0 prs b) s = Ret ((), ?u)"
      using pos [OF p(1)] pe ops(3) [OF p(1) _ p(2)] ops(4) [OF p(1)] ops(4) [OF b] nodes [OF b] nodes [OF p(1)] ne
      by (simp add: switch_branch_def set_flags)
    have act: "is_active (node_states ?u ! node_index (f b))" "\<not> is_initialized (node_states ?u ! node_index (f b))"
      and nb: "node_index (f b) < length (node_states ?u)"
      using nodes [OF b] by simp_all
    have ud: "unat (of_nat (action_at p0 prs b) :: 16 word) = action_at p0 prs b"
      using pos [OF b] by (simp add: unat_u16)
    let ?t = "?u \<lparr> user_ctx := user_ctx ?u @ [(b, SE_EVENT_INIT), (b, SE_EVENT_TICK)],
      node_states := (node_states ?u)[node_index (f b) :=
        set_flag S_EXPR_NODE_FLAG_INITIALIZED (node_states ?u ! node_index (f b))] \<rparr>"
    have tick: "se_state_machine c a SE_EVENT_TICK i d s = Ret (SE_PIPELINE_HALT, ?t)"
      using run [OF _ ops(2) [OF b nb act]] sw u by simp
    have "stands p0 prs f (Some b) ?t"
      by (rule stands_after [OF assms(2) b]) (use nodes [OF b] cur ud act in simp_all)
    then show ?thesis using tick u by (simp add: told_def)
  qed
qed

section \<open>The properties\<close>

lemma machine_tick_written:
  assumes "machine c a p0 prs f" "stands p0 prs f prev s" "branch_of (map (int_val \<circ> fst) prs) (sint v) = Some b"
  shows "\<exists>s'. seqA (field_write (Some (field_offset p0)) v) (se_state_machine c a SE_EVENT_TICK i d) s =
      Ret (SE_PIPELINE_HALT, s') \<and> stands p0 prs f (Some b) s' \<and> user_ctx s' = user_ctx s @ told prev b"
proof -
  obtain bb where bb: "blackboard s = Some bb" "field_offset p0 + 4 \<le> length bb"
    using assms(2) by (auto simp: stands_def)
  let ?s = "s \<lparr> blackboard := Some (put32 bb (field_offset p0) v) \<rparr>"
  have w: "field_write (Some (field_offset p0)) v s = Ret ((), ?s)"
    using bb by (simp add: field_write_def)
  have st: "stands p0 prs f prev ?s" using assms(2) bb by (simp add: stands_def put32_def)
  show ?thesis
    using machine_tick [OF assms(1) st, of b i d] assms(3) bb w by (simp add: le32_put32)
qed

text \<open>The memory a machine needs: nodes of its own and its field inside the blackboard.\<close>

definition machine_memory :: "s_expr_param \<Rightarrow> (s_expr_param \<times> sexp) list \<Rightarrow> (nat \<Rightarrow> s_expr_param) \<Rightarrow>
    branch_log inst \<Rightarrow> bool" where
  "machine_memory p0 prs f s =
     (current_node_index s < length (node_states s) \<and>
      list_all (\<lambda>j. node_index (f j) < length (node_states s) \<and> node_index (f j) \<noteq> current_node_index s)
        [0..<length prs] \<and>
      (case blackboard s of None \<Rightarrow> False | Some bb \<Rightarrow> field_offset p0 + 4 \<le> length bb))"

definition machine_run :: "branch_log ctx \<Rightarrow> slice \<Rightarrow> s_expr_param \<Rightarrow> 32 word list \<Rightarrow>
    (branch_log, s_expr_result list) iact" where
  "machine_run c a p0 vs =
     seqA (se_state_machine c a SE_EVENT_INIT 0 0)
     (mapA (\<lambda>v. seqA (field_write (Some (field_offset p0)) v) (se_state_machine c a SE_EVENT_TICK 0 0)) vs)"

lemma machine_count: "machine c a p0 prs f \<Longrightarrow> prs \<noteq> [] \<Longrightarrow> 3 \<le> s_count a"
  using length_le_flats [of "Atom p0 # rows prs"] by (cases prs) (auto simp: machine_def holds_def)

lemma machine_init:
  assumes "machine c a p0 prs f" "prs \<noteq> []" "machine_memory p0 prs f s"
  shows "\<exists>s'. se_state_machine c a SE_EVENT_INIT i d s = Ret (SE_PIPELINE_CONTINUE, s') \<and>
    stands p0 prs f None s' \<and> user_ctx s' = user_ctx s"
  using assms(3) machine_count [OF assms(1,2)]
  by (auto simp: se_state_machine_def s_expr_get_user_flags_def s_expr_set_user_flags_def cur_node_def
      upd_cur_def node_count_def machine_memory_def stands_def list_all_iff answer_def atLeast0LessThan
      split: option.splits)

lemma told_all_snoc: "told_all p (bs @ [b]) = told_all p bs @ told (if bs = [] then p else Some (last bs)) b"
  by (induction bs arbitrary: p) auto

text \<open>A machine of two states, labels 1 and -1 (the default), on the field at offset 4.\<close>

definition demo_machine :: "(s_expr_param \<times> sexp) list" where
  "demo_machine = [(mkp S_EXPR_PARAM_INT 1 0, call_of S_EXPR_PARAM_MAIN 1 0 []),
     (mkp S_EXPR_PARAM_INT 0xFFFF 0xFFFF, call_of S_EXPR_PARAM_MAIN 2 1 [])]"

definition demo_field :: s_expr_param where
  "demo_field = mkp S_EXPR_PARAM_FIELD 4 0"

definition demo_machine_ctx :: "branch_log ctx" where
  "demo_machine_ctx = \<lparr> tree_params = flats (Atom demo_field # rows demo_machine),
     main_fns = [Some (log_branch 0), Some (log_branch 1)], pred_fns = [], oneshot_fns = [] \<rparr>"

definition demo_branch :: "nat \<Rightarrow> s_expr_param" where
  "demo_branch j = mkp S_EXPR_PARAM_MAIN (if j = 0 then 1 else 2) j"

lemma demo_machine_ok:
  "machine demo_machine_ctx (slice_of (Atom demo_field # rows demo_machine)) demo_field demo_machine demo_branch"
  "machine_memory demo_field demo_machine demo_branch (fresh_inst 3 [])"
  "map (int_val \<circ> fst) demo_machine = [1, -1]"
proof -
  have "holds (flats (Atom demo_field # rows demo_machine)) (slice_of (Atom demo_field # rows demo_machine))
      (Atom demo_field # rows demo_machine)"
    by (rule holds_slice_of)
      (simp_all add: demo_machine_def demo_field_def call_of_def flats_def is_brace_open_def)
  then have h: "holds (tree_params demo_machine_ctx) (slice_of (Atom demo_field # rows demo_machine))
      (Atom demo_field # rows demo_machine)"
    by (simp only: demo_machine_ctx_def ctx.select_convs)
  have "inj_on (node_index \<circ> demo_branch) {0..<length demo_machine}"
    by (auto simp: inj_on_def demo_machine_def demo_branch_def mkp_simps)
  with h show "machine demo_machine_ctx (slice_of (Atom demo_field # rows demo_machine)) demo_field demo_machine demo_branch"
    by (auto simp: machine_def demo_machine_def demo_field_def demo_branch_def demo_machine_ctx_def
        call_of_def is_label_def less_Suc_eq)
  show "machine_memory demo_field demo_machine demo_branch (fresh_inst 3 [])"
    by (simp add: machine_memory_def demo_machine_def demo_branch_def demo_field_def fresh_inst_def upt_rec)
  show "map (int_val \<circ> fst) demo_machine = [1, -1]"
    by (simp add: demo_machine_def int_val_def mkp_def)
qed

text \<open>
  C15. Over a run of field values a state machine whose branches are calls of \<open>MAIN\<close> functions with nodes of
  their own, contain no nested calls, and answer every event with \<open>SE_PIPELINE_HALT\<close> tells its branches exactly
  what its design says. From an INIT, and for every sequence of values written to its field each of which
  selects a row, every tick answers \<open>SE_PIPELINE_HALT\<close> (the branches keep running), and
  the log of the branches is \<open>told_all\<close>: a tick for the selected branch, and at a change of
  branch before it a TERMINATE to the branch that is left and an INIT to the branch that is
  entered; nothing else reaches any branch. The selected row is the first one with the
  value's label, and the last default row if there is none.
\<close>

theorem state_machine_trace:
  assumes "machine c a p0 prs f" "prs \<noteq> []" "machine_memory p0 prs f s" "user_ctx s = []"
    "map (\<lambda>v. branch_of (map (int_val \<circ> fst) prs) (sint v)) vs = map Some bs"
  shows "\<exists>s'. machine_run c a p0 vs s = Ret (replicate (length vs) SE_PIPELINE_HALT, s') \<and>
    user_ctx s' = told_all None bs"
proof -
  let ?body = "\<lambda>v. seqA (field_write (Some (field_offset p0)) v) (se_state_machine c a SE_EVENT_TICK 0 0)"
  let ?prev = "\<lambda>j. if j = 0 then None else Some (bs ! (j - 1))"
  let ?I = "\<lambda>j t. stands p0 prs f (?prev j) t \<and> user_ctx t = told_all None (take j bs)"
  have len: "length bs = length vs" using assms(5) by (metis length_map)
  have sel: "branch_of (map (int_val \<circ> fst) prs) (sint (vs ! j)) = Some (bs ! j)" if "j < length vs" for j
    using arg_cong [OF assms(5), of "\<lambda>l. l ! j"] that len by simp
  from machine_init [OF assms(1-3), of 0 0] assms(4) obtain s1 where
    s1: "se_state_machine c a SE_EVENT_INIT 0 0 s = Ret (SE_PIPELINE_CONTINUE, s1)" "?I 0 s1" by auto
  have "\<exists>s'. mapA ?body vs s1 = Ret (map (\<lambda>_. SE_PIPELINE_HALT) [0..<length vs], s') \<and> ?I (length vs) s'"
  proof (rule mapA_invariant [where I = ?I and r = "\<lambda>_. SE_PIPELINE_HALT", OF _ s1(2)])
    fix j t assume j: "j < length vs" and I: "?I j t"
    have "told_all None (take (Suc j) bs) = told_all None (take j bs) @ told (?prev j) (bs ! j)"
      using j len by (auto simp: take_Suc_conv_app_nth told_all_snoc last_conv_nth min_def)
    with machine_tick_written [OF assms(1) conjunct1 [OF I] sel [OF j], of 0 0] I
    show "\<exists>s'. ?body (vs ! j) t = Ret (SE_PIPELINE_HALT, s') \<and> ?I (Suc j) s'" by auto
  qed
  then show ?thesis
    using s1(1) len by (auto simp: machine_run_def map_replicate_const simp del: mapA.simps)
qed

theorem state_machine_trace_witness:
  "\<exists>s'. machine_run demo_machine_ctx (slice_of (Atom demo_field # rows demo_machine)) demo_field [1, 1, 7, 1]
      (fresh_inst 3 []) = Ret (replicate 4 SE_PIPELINE_HALT, s') \<and>
    user_ctx s' = [(0, SE_EVENT_INIT), (0, SE_EVENT_TICK), (0, SE_EVENT_TICK),
      (0, SE_EVENT_TERMINATE), (1, SE_EVENT_INIT), (1, SE_EVENT_TICK),
      (1, SE_EVENT_TERMINATE), (0, SE_EVENT_INIT), (0, SE_EVENT_TICK)]"
proof -
  have "map (\<lambda>v. branch_of (map (int_val \<circ> fst) demo_machine) (sint v)) [1, 1, 7, 1 :: 32 word] = map Some [0, 0, 1, 0]"
    by (simp add: demo_machine_ok(3) branch_of_def upt_rec)
  moreover have "demo_machine \<noteq> []" "user_ctx (fresh_inst 3 []) = []"
    by (simp_all add: demo_machine_def fresh_inst_def)
  ultimately show ?thesis
    using state_machine_trace [OF demo_machine_ok(1) _ demo_machine_ok(2), of "[1, 1, 7, 1]" "[0, 0, 1, 0]"]
    by (simp add: told_def eval_nat_numeral del: res_bind_Ret_iff)
qed

text \<open>
  The event dispatcher runs the handler the table of cases says. For a parameter list of
  \<open>[event id, handler]\<close> pairs, whatever trees the handlers are, a tick with an event id runs
  the handler of the first row with that id, else that of the last default row (id -1), with
  the handling of its answer; if there is neither it ends in the exception "no matching event
  handler", and nothing has been run.
\<close>

theorem event_dispatch_selects:
  assumes "holds (tree_params c) a (rows prs)" "list_all (is_label \<circ> fst) prs"
  shows "se_event_dispatch c a SE_EVENT_TICK event_id event_data s =
    (case branch_of (map (int_val \<circ> fst) prs) (int event_id) of
       None \<Rightarrow> Trap (Exception ''se_event_dispatch: no matching event handler'')
     | Some j \<Rightarrow> invoke_and_handle_result c a (place (rows prs) (2 * j + 1)) s)"
proof -
  have h: "holds (tree_params c) a ([] @ rows prs)" using assms(1) by simp
  obtain z where z: "case_search c a (int event_id) 0 = Ret z"
    "(case z of Inr i \<Rightarrow> i | Inl d \<Rightarrow> d) = (case branch_of (map (int_val \<circ> fst) prs) (int event_id) of
        None \<Rightarrow> 0 | Some j \<Rightarrow> action_pos [] prs j)" "z \<noteq> Inr 0"
    using case_search_picks [OF h assms(2), of "int event_id"] by auto
  have pos: "action_pos [] prs j = place (rows prs) (2 * j + 1)" "0 < place (rows prs) (2 * j + 1)" if "j < length prs" for j
  proof -
    have "take (2 * j + 1) (rows prs) = rows (take j prs) @ [Atom (fst (prs ! j))]"
      unfolding row_split [OF that] using that by simp
    then show "action_pos [] prs j = place (rows prs) (2 * j + 1)" "0 < place (rows prs) (2 * j + 1)"
      by (simp_all add: action_pos_def place_def)
  qed
  with z pos branch_of_less [of "map (int_val \<circ> fst) prs" "int event_id"] show ?thesis
    by (cases "branch_of (map (int_val \<circ> fst) prs) (int event_id)"; cases z)
      (simp_all add: se_event_dispatch_def)
qed

theorem event_dispatch_selects_witness:
  "se_event_dispatch (demo_machine_ctx \<lparr> tree_params := flats (rows demo_machine) \<rparr>) (slice_of (rows demo_machine))
     SE_EVENT_TICK 9 0 (fresh_inst 3 []) =
   invoke_and_handle_result (demo_machine_ctx \<lparr> tree_params := flats (rows demo_machine) \<rparr>)
     (slice_of (rows demo_machine)) (place (rows demo_machine) 3) (fresh_inst 3 [])"
proof -
  let ?c = "demo_machine_ctx \<lparr> tree_params := flats (rows demo_machine) \<rparr>"
  have "holds (flats (rows demo_machine)) (slice_of (rows demo_machine)) (rows demo_machine)"
    by (rule holds_slice_of) (simp_all add: demo_machine_def call_of_def flats_def is_brace_open_def)
  moreover have "tree_params ?c = flats (rows demo_machine)" by simp
  ultimately have "holds (tree_params ?c) (slice_of (rows demo_machine)) (rows demo_machine)" by (simp only:)
  moreover have sel: "branch_of (map (int_val \<circ> fst) demo_machine) (int 9) = Some 1"
    by (simp add: demo_machine_ok(3) branch_of_def upt_rec)
  moreover have "list_all (is_label \<circ> fst) demo_machine" by (simp add: demo_machine_def is_label_def)
  ultimately show ?thesis
    using event_dispatch_selects [of ?c "slice_of (rows demo_machine)" demo_machine 9 0 "fresh_inst 3 []"]
    by (simp only: sel option.case) simp
qed

end
