(* ===== verification/Bus_Ring.thy ===== *)
theory Bus_Ring
  imports Fifo
begin

text \<open>
  The byte ring under the frame codec of the bus library (\<open>libcomm/frame.c\<close>): a buffer whose
  size is a power of two with two free-running 32-bit counters. The counters wrap; what the
  ring holds is read off their difference. The ring is an instance of the queue contract of
  \<open>Fifo\<close>, and the two-step write (reserve a span, fill it, commit) appends as a push does.
\<close>

section \<open>State and operations\<close>

text \<open>\<open>frame_ring_t\<close>; the storage the C pointer \<open>buf\<close> refers to is part of the ring.\<close>

record frame_ring =
  fr_buf :: "8 word list"
  fr_mask :: "32 word"
  fr_head :: "32 word"
  fr_tail :: "32 word"

definition frame_ring_init :: "8 word list \<Rightarrow> 32 word \<Rightarrow> frame_ring" where
  "frame_ring_init buf size_pow2 = \<lparr> fr_buf = buf, fr_mask = size_pow2 - 1, fr_head = 0, fr_tail = 0 \<rparr>"

definition frame_ring_used :: "frame_ring \<Rightarrow> 32 word" where
  "frame_ring_used r = fr_head r - fr_tail r"

definition frame_ring_free :: "frame_ring \<Rightarrow> 32 word" where
  "frame_ring_free r = (fr_mask r + 1) - frame_ring_used r"

text \<open>A counter's place in the buffer; an access outside the buffer is undefined.\<close>

definition ring_idx :: "frame_ring \<Rightarrow> 32 word \<Rightarrow> nat" where
  "ring_idx r n = unat (n AND fr_mask r)"

definition ring_read :: "frame_ring \<Rightarrow> 32 word \<Rightarrow> 8 word res" where
  "ring_read r n = (if ring_idx r n < length (fr_buf r) then Ret (fr_buf r ! ring_idx r n)
     else Trap (Fault ''ring buffer read out of bounds''))"

definition ring_write_byte_unchecked :: "8 word \<Rightarrow> (frame_ring, unit) act" where
  "ring_write_byte_unchecked b = (\<lambda>r.
     if ring_idx r (fr_head r) < length (fr_buf r) then
       Ret ((), r \<lparr> fr_buf := (fr_buf r)[ring_idx r (fr_head r) := b], fr_head := fr_head r + 1 \<rparr>)
     else Trap (Fault ''ring buffer written out of bounds''))"

text \<open>The reserved span starts at the returned index of the buffer (\<open>None\<close> is \<open>NULL\<close>).\<close>

definition frame_ring_write_reserve :: "frame_ring \<Rightarrow> 32 word \<times> nat option" where
  "frame_ring_write_reserve r =
     (let avail = frame_ring_free r in
      if avail = 0 then (0, None)
      else let head_idx = fr_head r AND fr_mask r; to_end = (fr_mask r + 1) - head_idx
        in (if avail < to_end then avail else to_end, Some (unat head_idx)))"

definition frame_ring_write_commit :: "32 word \<Rightarrow> frame_ring \<Rightarrow> frame_ring" where
  "frame_ring_write_commit n r = r \<lparr> fr_head := fr_head r + n \<rparr>"

definition frame_ring_write_byte :: "8 word \<Rightarrow> (frame_ring, int) act" where
  "frame_ring_write_byte b = bindA (getA frame_ring_free) (\<lambda>free.
     if free = 0 then retA 0 else seqA (ring_write_byte_unchecked b) (retA 1))"

definition frame_ring_read_byte :: "(frame_ring, int \<times> 8 word option) act" where
  "frame_ring_read_byte = (\<lambda>r.
     if fr_tail r = fr_head r then Ret ((0, None), r)
     else res_bind (ring_read r (fr_tail r)) (\<lambda>b.
       Ret ((1, Some b), r \<lparr> fr_tail := fr_tail r + 1 \<rparr>)))"

text \<open>The bytes a drain copies to \<open>dst\<close>, oldest first.\<close>

fun drain_bytes :: "frame_ring \<Rightarrow> nat \<Rightarrow> nat \<Rightarrow> 8 word list res" where
  "drain_bytes r i 0 = Ret []"
| "drain_bytes r i (Suc k) = res_bind (ring_read r (fr_tail r + of_nat i)) (\<lambda>b.
     res_bind (drain_bytes r (Suc i) k) (\<lambda>bs. Ret (b # bs)))"

definition frame_ring_read_drain :: "32 word \<Rightarrow> (frame_ring, 32 word \<times> 8 word list) act" where
  "frame_ring_read_drain max_n = (\<lambda>r.
     let avail = frame_ring_used r; n = (if avail < max_n then avail else max_n) in
     res_bind (drain_bytes r 0 (unat n)) (\<lambda>bs. Ret ((n, bs), r \<lparr> fr_tail := fr_tail r + n \<rparr>)))"

section \<open>What a ring holds\<close>

definition ring_ok :: "nat \<Rightarrow> frame_ring \<Rightarrow> bool" where
  "ring_ok k r = (k < 32 \<and> length (fr_buf r) = 2 ^ k \<and> fr_mask r = 2 ^ k - 1 \<and>
     unat (frame_ring_used r) \<le> 2 ^ k)"

definition ring_elems :: "frame_ring \<Rightarrow> 8 word list" where
  "ring_elems r = ring_list (fr_buf r) (unat (fr_tail r)) (unat (frame_ring_used r))"

lemma length_ring_elems [simp]: "length (ring_elems r) = unat (frame_ring_used r)"
  by (simp add: ring_elems_def)

lemma unat_and_mask: "unat (c AND (2 ^ k - 1 :: 32 word)) = unat c mod 2 ^ k"
proof -
  have "unat (take_bit k c) = unat c mod 2 ^ k"
    unfolding unsigned_take_bit_eq by (simp add: take_bit_eq_mod)
  then show ?thesis by (simp only: take_bit_eq_mask mask_eq_exp_minus_1)
qed

lemma mod_word32: "k \<le> 32 \<Longrightarrow> n mod 4294967296 mod 2 ^ k = n mod (2 ^ k :: nat)"
  using mod_mod_cancel [of "2 ^ k" "2 ^ 32" n] le_imp_power_dvd [of k 32 "2::nat"] by simp

lemma unat_plus_mod: "k \<le> 32 \<Longrightarrow> unat (a + b :: 32 word) mod 2 ^ k = (unat a + unat b) mod 2 ^ k"
  by (simp add: unat_word_ariths mod_word32)

lemma ring_idx_mod: "ring_ok k r \<Longrightarrow> ring_idx r c = unat c mod 2 ^ k"
  by (simp add: ring_ok_def ring_idx_def unat_and_mask)

lemma ring_idx_less: "ring_ok k r \<Longrightarrow> ring_idx r c < length (fr_buf r)"
  using ring_idx_mod [of k r c] by (simp add: ring_ok_def)

lemma unat_two_power: "k < 32 \<Longrightarrow> unat (2 ^ k :: 32 word) = 2 ^ k"
proof -
  assume "k < 32"
  then have "(2::nat) ^ k < 2 ^ 32" by (intro power_strict_increasing) auto
  then have "unat (of_nat (2 ^ k) :: 32 word) = 2 ^ k" by (simp only: unat_of_nat) simp
  then show ?thesis by simp
qed

lemma ring_free_unat: "ring_ok k r \<Longrightarrow> unat (frame_ring_free r) = 2 ^ k - unat (frame_ring_used r)"
  unfolding frame_ring_free_def ring_ok_def
  by (subst unat_sub) (auto simp: word_le_nat_alt unat_two_power)

lemma ring_free_zero: "ring_ok k r \<Longrightarrow> (frame_ring_free r = 0) = (length (ring_elems r) = 2 ^ k)"
  using ring_free_unat [of k r] by (auto simp: unat_eq_zero [symmetric] ring_ok_def)

lemma unat_succ_used:
  assumes "ring_ok k r" "unat (frame_ring_used r) + m \<le> 2 ^ k"
  shows "unat (frame_ring_used r + of_nat m) = unat (frame_ring_used r) + m"
proof -
  have "(2::nat) ^ k < 2 ^ 32" using assms(1) by (intro power_strict_increasing) (auto simp: ring_ok_def)
  then show ?thesis using assms(2) by (simp add: unat_word_ariths unat_of_nat)
qed

text \<open>The head counter stands \<open>used\<close> places behind the tail counter.\<close>

lemma head_place: "ring_ok k r \<Longrightarrow>
    unat (fr_head r) mod 2 ^ k = (unat (fr_tail r) + unat (frame_ring_used r)) mod 2 ^ k"
  using unat_plus_mod [of k "fr_tail r" "frame_ring_used r"]
  by (simp add: frame_ring_used_def ring_ok_def)

lemma ring_elems_init:
  assumes "k < 32" "length buf = 2 ^ k"
  shows "ring_ok k (frame_ring_init buf (2 ^ k))" "ring_elems (frame_ring_init buf (2 ^ k)) = []"
  using assms by (simp_all add: ring_ok_def ring_elems_def frame_ring_init_def frame_ring_used_def)

section \<open>The ring as a queue\<close>

lemma write_unchecked:
  assumes "ring_ok k r" "length (ring_elems r) < 2 ^ k"
  shows "\<exists>r'. ring_write_byte_unchecked b r = Ret ((), r') \<and> ring_ok k r' \<and>
    ring_elems r' = ring_elems r @ [b] \<and> fr_tail r' = fr_tail r \<and> fr_head r' = fr_head r + 1"
proof -
  let ?i = "ring_idx r (fr_head r)"
  let ?r = "r \<lparr> fr_buf := (fr_buf r)[?i := b], fr_head := fr_head r + 1 \<rparr>"
  have u: "frame_ring_used (r \<lparr> fr_buf := bs, fr_head := fr_head r + 1 \<rparr>) = frame_ring_used r + 1" for bs
    by (simp add: frame_ring_used_def)
  have n: "unat (frame_ring_used r + 1) = unat (frame_ring_used r) + 1"
    using unat_succ_used [OF assms(1), of 1] assms(2) by simp
  have i: "?i = (unat (fr_tail r) + unat (frame_ring_used r)) mod length (fr_buf r)"
    using ring_idx_mod [OF assms(1)] head_place [OF assms(1)] assms(1) by (simp add: ring_ok_def)
  have "ring_elems ?r = ring_elems r @ [b]"
    using ring_list_push [of "unat (frame_ring_used r)" "fr_buf r" "unat (fr_tail r)" b] assms
    by (simp add: ring_elems_def u n i ring_ok_def)
  moreover have "ring_ok k ?r" using assms by (simp add: ring_ok_def u n)
  ultimately show ?thesis
    using ring_idx_less [OF assms(1)] by (simp add: ring_write_byte_unchecked_def)
qed

lemma ring_list_mod: "ring_list buf (h mod length buf) n = ring_list buf h n"
  by (simp add: ring_list_def mod_simps)

lemma ring_read_nth:
  assumes "ring_ok k r" "i < unat (frame_ring_used r)"
  shows "ring_read r (fr_tail r + of_nat i) = Ret (ring_elems r ! i)"
proof -
  have "(2::nat) ^ k < 2 ^ 32" using assms(1) by (intro power_strict_increasing) (auto simp: ring_ok_def)
  then have "i < 4294967296" using assms by (simp add: ring_ok_def)
  then have "unat (of_nat i :: 32 word) = i" by (simp add: unat_of_nat)
  then have "unat (fr_tail r + of_nat i) mod 2 ^ k = (unat (fr_tail r) + i) mod 2 ^ k"
    using unat_plus_mod [of k "fr_tail r" "of_nat i"] assms(1) by (simp add: ring_ok_def)
  then show ?thesis
    using assms ring_idx_less [OF assms(1)] ring_idx_mod [OF assms(1)]
    by (simp add: ring_read_def ring_elems_def ring_list_def ring_ok_def)
qed

lemma ring_drop:
  assumes "ring_ok k r" "n \<le> unat (frame_ring_used r)"
  shows "ring_ok k (r \<lparr> fr_tail := fr_tail r + of_nat n \<rparr>)"
    "ring_elems (r \<lparr> fr_tail := fr_tail r + of_nat n \<rparr>) = drop n (ring_elems r)"
proof -
  let ?r = "r \<lparr> fr_tail := fr_tail r + of_nat n \<rparr>"
  have l: "unat (frame_ring_used r) < 2 ^ LENGTH(32)" by (rule unsigned_less)
  have n: "unat (of_nat n :: 32 word) = n"
    using assms(2) l by (simp add: unat_of_nat)
  have u: "frame_ring_used ?r = frame_ring_used r - of_nat n" by (simp add: frame_ring_used_def)
  have used: "unat (frame_ring_used ?r) = unat (frame_ring_used r) - n"
    unfolding u by (subst unat_sub) (use assms(2) n in \<open>simp_all add: word_le_nat_alt\<close>)
  have "unat (frame_ring_used r) - n \<le> 2 ^ k" using assms(1) by (auto simp: ring_ok_def intro: order_trans [OF diff_le_self])
  then show "ring_ok k ?r" using assms used by (simp add: ring_ok_def)
  have t: "unat (fr_tail r + of_nat n) mod 2 ^ k = (unat (fr_tail r) + n) mod 2 ^ k"
    using unat_plus_mod [of k "fr_tail r" "of_nat n"] assms(1) n by (simp add: ring_ok_def)
  have "(unat (fr_tail r + of_nat n) + i) mod 2 ^ k = (unat (fr_tail r) + (n + i)) mod 2 ^ k" for i
    using t by (metis add.assoc mod_add_left_eq)
  then show "ring_elems ?r = drop n (ring_elems r)"
    using assms(1) used
    by (intro nth_equalityI) (auto simp: ring_elems_def ring_list_def ring_ok_def)
qed

definition ring_push :: "8 word \<Rightarrow> frame_ring \<Rightarrow> frame_ring option" where
  "ring_push b r = (case frame_ring_write_byte b r of Ret (x, r') \<Rightarrow> if x = 1 then Some r' else None | _ \<Rightarrow> None)"

definition ring_pop :: "frame_ring \<Rightarrow> (8 word \<times> frame_ring) option" where
  "ring_pop r = (case frame_ring_read_byte r of Ret ((x, Some b), r') \<Rightarrow> Some (b, r') | _ \<Rightarrow> None)"

lemma write_byte_full: "ring_ok k r \<Longrightarrow> length (ring_elems r) = 2 ^ k \<Longrightarrow> frame_ring_write_byte b r = Ret (0, r)"
  by (simp add: frame_ring_write_byte_def ring_free_zero)

lemma write_byte_room:
  assumes "ring_ok k r" "length (ring_elems r) < 2 ^ k"
  shows "\<exists>r'. frame_ring_write_byte b r = Ret (1, r') \<and> ring_ok k r' \<and> ring_elems r' = ring_elems r @ [b]"
  using write_unchecked [OF assms, of b] ring_free_zero [OF assms(1)] assms(2)
  by (auto simp: frame_ring_write_byte_def simp del: res_bind_Ret_iff)

lemma ring_elems_Nil: "ring_elems r = [] \<longleftrightarrow> fr_tail r = fr_head r"
  unfolding length_0_conv [symmetric] by (auto simp: unat_eq_zero frame_ring_used_def)

lemma read_byte_empty: "ring_elems r = [] \<Longrightarrow> frame_ring_read_byte r = Ret ((0, None), r)"
  by (simp add: frame_ring_read_byte_def ring_elems_Nil)

lemma read_byte_cons:
  assumes "ring_ok k r" "ring_elems r = b # bs"
  shows "\<exists>r'. frame_ring_read_byte r = Ret ((1, Some b), r') \<and> ring_ok k r' \<and> ring_elems r' = bs"
proof -
  have n: "1 \<le> unat (frame_ring_used r)" using assms(2) length_ring_elems [of r] by simp
  show ?thesis
    using ring_read_nth [OF assms(1), of 0] ring_drop [OF assms(1) n] assms(2) n ring_elems_Nil [of r]
    by (auto simp: frame_ring_read_byte_def)
qed

interpretation byte_fifo: bounded_fifo "2 ^ k" "ring_ok k" ring_elems ring_push ring_pop for k
proof (unfold_locales, goal_cases)
  case (1 q)
  then show ?case by (simp add: ring_ok_def)
next
  case (2 q x)
  then show ?case using write_byte_room [of k q x] by (auto simp: ring_push_def)
next
  case (3 q x)
  then show ?case by (simp add: ring_push_def write_byte_full)
next
  case (4 q)
  then show ?case by (simp add: ring_pop_def read_byte_empty)
next
  case (5 q x xs)
  then show ?case using read_byte_cons [of k q x xs] by (auto simp: ring_pop_def)
qed

section \<open>Bulk operations\<close>

lemma drain_bytes_take:
  "ring_ok k r \<Longrightarrow> i + m \<le> unat (frame_ring_used r) \<Longrightarrow>
     drain_bytes r i m = Ret (take m (drop i (ring_elems r)))"
proof (induction m arbitrary: i)
  case (Suc m)
  then have "ring_read r (fr_tail r + of_nat i) = Ret (ring_elems r ! i)" by (simp add: ring_read_nth)
  moreover have "drop i (ring_elems r) = ring_elems r ! i # drop (Suc i) (ring_elems r)"
    using Suc.prems by (simp add: Cons_nth_drop_Suc)
  ultimately show ?case using Suc by simp
qed simp

lemma drain_elems:
  assumes "ring_ok k r" "n = min (length (ring_elems r)) (unat m)"
  shows "\<exists>r'. frame_ring_read_drain m r = Ret ((of_nat n, take n (ring_elems r)), r') \<and> ring_ok k r' \<and>
    ring_elems r' = drop n (ring_elems r)"
proof -
  have n: "(if frame_ring_used r < m then frame_ring_used r else m) = of_nat n"
    by (auto simp: assms(2) word_less_nat_alt min_def)
  have u: "unat (of_nat n :: 32 word) = n" unfolding n [symmetric] by (auto simp: assms(2) word_less_nat_alt)
  have le: "n \<le> unat (frame_ring_used r)" by (simp add: assms(2))
  show ?thesis
    using ring_drop [OF assms(1) le] drain_bytes_take [OF assms(1), of 0 n] le
    by (simp add: frame_ring_read_drain_def n u Let_def)
qed

text \<open>What a bulk writer leaves in the reserved span, and the commit of its first bytes.\<close>

definition fill_span :: "nat \<Rightarrow> 8 word list \<Rightarrow> frame_ring \<Rightarrow> frame_ring" where
  "fill_span i xs r = r \<lparr> fr_buf := take i (fr_buf r) @ xs @ drop (i + length xs) (fr_buf r) \<rparr>"

lemma reserve_span:
  assumes "ring_ok k r" "frame_ring_write_reserve r = (n, Some i)"
  shows "i = unat (fr_head r) mod 2 ^ k" "unat n = min (2 ^ k - length (ring_elems r)) (2 ^ k - i)"
proof -
  let ?h = "fr_head r AND fr_mask r"
  have h: "unat ?h = unat (fr_head r) mod 2 ^ k"
    using ring_idx_mod [OF assms(1), of "fr_head r"] by (simp add: ring_idx_def)
  show "i = unat (fr_head r) mod 2 ^ k"
    using assms(2) h by (auto simp: frame_ring_write_reserve_def Let_def split: if_splits)
  then have i: "unat ?h = i" using h by simp
  have m: "fr_mask r + 1 = 2 ^ k" using assms(1) by (simp add: ring_ok_def)
  have k: "k < 32" using assms(1) by (simp add: ring_ok_def)
  have "i < 2 ^ k" using h i by simp
  then have e: "unat (2 ^ k - ?h) = 2 ^ k - i"
    by (subst unat_sub) (use i k in \<open>auto simp: word_le_nat_alt unat_two_power\<close>)
  show "unat n = min (2 ^ k - length (ring_elems r)) (2 ^ k - i)"
    using assms(2) e ring_free_unat [OF assms(1)]
    by (auto simp: frame_ring_write_reserve_def Let_def m word_less_nat_alt min_def split: if_splits)
qed

lemma fill_places:
  fixes h :: nat
  assumes "u + m \<le> N" "i = (h + u) mod N" "i + m \<le> N"
  shows "d < m \<Longrightarrow> (h + (u + d)) mod N = i + d"
    and "j < u \<Longrightarrow> (h + j) mod N < i \<or> i + m \<le> (h + j) mod N"
proof -
  have place: "(h + (u + d)) mod N = i + d" if "d < m" for d
  proof -
    have "(h + (u + d)) mod N = (i + d) mod N" unfolding assms(2) by (simp add: mod_simps add.assoc)
    then show ?thesis using that assms(3) by simp
  qed
  then show "d < m \<Longrightarrow> (h + (u + d)) mod N = i + d" .
  show "(h + j) mod N < i \<or> i + m \<le> (h + j) mod N" if j: "j < u"
  proof (rule ccontr)
    assume "\<not> ?thesis"
    then obtain d where d: "d < m" "(h + j) mod N = i + d" by (metis add_less_cancel_left le_Suc_ex not_le)
    then have "j = u + d" using mod_add_inj [of j N "u + d" h] place [OF d(1)] j assms(1) by simp
    then show False using j by simp
  qed
qed

text \<open>
  The reserve-and-commit write appends. Whatever bytes the caller puts into the span it
  was given, up to its length, the commit of their number makes them the newest bytes of the
  ring in order and leaves what the ring held before as it was; the invariant of the ring holds
  again, for any value of the free-running counters, across their wrap and the buffer's.
\<close>

theorem reserve_commit_appends:
  assumes "ring_ok k r" "frame_ring_write_reserve r = (n, Some i)" "length xs \<le> unat n"
  shows "ring_ok k (frame_ring_write_commit (of_nat (length xs)) (fill_span i xs r)) \<and>
    ring_elems (frame_ring_write_commit (of_nat (length xs)) (fill_span i xs r)) = ring_elems r @ xs"
proof -
  let ?m = "length xs" and ?u = "unat (frame_ring_used r)" and ?h = "unat (fr_tail r)"
  let ?r = "frame_ring_write_commit (of_nat ?m) (fill_span i xs r)"
  note sp = reserve_span [OF assms(1,2)]
  have i: "i = (?h + ?u) mod 2 ^ k" using sp(1) head_place [OF assms(1)] by simp
  have i_less: "i < 2 ^ k" by (simp add: i)
  have room: "?u + ?m \<le> 2 ^ k" "i + ?m \<le> 2 ^ k"
    using sp(2) assms(1,3) i_less by (auto simp: ring_ok_def)
  have len: "length (fr_buf r) = 2 ^ k" using assms(1) by (simp add: ring_ok_def)
  have u: "frame_ring_used ?r = frame_ring_used r + of_nat ?m"
    by (simp add: frame_ring_used_def frame_ring_write_commit_def fill_span_def)
  have used: "unat (frame_ring_used ?r) = ?u + ?m"
    unfolding u by (rule unat_succ_used [OF assms(1) room(1)])
  have nth: "fr_buf ?r ! ((?h + j) mod 2 ^ k) = (ring_elems r @ xs) ! j" if j: "j < ?u + ?m" for j
  proof (cases "j < ?u")
    case True
    then have "(?h + j) mod 2 ^ k < i \<or> i + ?m \<le> (?h + j) mod 2 ^ k" "(?h + j) mod 2 ^ k < 2 ^ k"
      using fill_places(2) [OF room(1) i room(2)] by auto
    then show ?thesis
      using True len room(2) i_less
      by (auto simp: frame_ring_write_commit_def fill_span_def nth_append ring_elems_def ring_list_def min_def)
  next
    case False
    then obtain d where d: "j = ?u + d" "d < ?m" using j by (auto simp: not_less dest!: le_Suc_ex)
    then show ?thesis
      using fill_places(1) [OF room(1) i room(2) d(2)] len room(2)
      by (simp add: frame_ring_write_commit_def fill_span_def nth_append)
  qed
  have "length (fr_buf ?r) = 2 ^ k" "fr_mask ?r = fr_mask r" "fr_tail ?r = fr_tail r"
    using len room(2) by (simp_all add: frame_ring_write_commit_def fill_span_def)
  moreover have "ring_elems ?r = ring_elems r @ xs"
    using nth used calculation
    by (intro nth_equalityI) (simp_all add: ring_elems_def [of ?r] ring_list_def)
  ultimately show ?thesis using assms(1) used room(1) by (simp add: ring_ok_def)
qed

text \<open>A ring of eight bytes whose counters are about to wrap.\<close>

definition demo_ring :: frame_ring where
  "demo_ring = \<lparr> fr_buf = [7, 6, 5, 4, 3, 2, 1, 0], fr_mask = 7, fr_head = 0xFFFFFFFE, fr_tail = 0xFFFFFFFC \<rparr>"

lemma demo_ring_ok: "ring_ok 3 demo_ring" "ring_elems demo_ring = [3, 2]"
  by (simp_all add: ring_ok_def demo_ring_def frame_ring_used_def ring_elems_def ring_list_def upt_rec)

theorem reserve_commit_appends_witness:
  "frame_ring_write_reserve demo_ring = (2, Some 6) \<and>
   ring_elems (frame_ring_write_commit 2 (fill_span 6 [8, 9] demo_ring)) = [3, 2, 8, 9]"
proof -
  have "frame_ring_write_reserve demo_ring = (2, Some 6)"
    by (simp add: frame_ring_write_reserve_def demo_ring_def frame_ring_free_def frame_ring_used_def)
  then show ?thesis
    using reserve_commit_appends [OF demo_ring_ok(1), of 2 6 "[8, 9]"] demo_ring_ok(2) by simp
qed

text \<open>
  The ring is a queue of bytes. Over any run of single-byte writes and reads that are all
  accepted, what is read followed by what is left is what was there followed by what was
  written, in order; the ring never holds more than its size; and a write is refused exactly
  when the ring is full, a read exactly when it is empty.
\<close>

theorem byte_ring_fifo:
  assumes "ring_ok k r" "byte_fifo.fifo_run ops r = Some (out, r')"
  shows "ring_ok k r' \<and> out @ ring_elems r' = ring_elems r @ byte_fifo.pushed ops \<and>
    length (ring_elems r') \<le> 2 ^ k \<and>
    (ring_push b r' = None) = (length (ring_elems r') = 2 ^ k) \<and>
    (ring_pop r' = None) = (ring_elems r' = [])"
proof -
  have o: "ring_ok k r'" "out @ ring_elems r' = ring_elems r @ byte_fifo.pushed ops"
    using byte_fifo.fifo_order [OF assms] by auto
  have b: "length (ring_elems r') \<le> 2 ^ k" by (rule byte_fifo.elems_bound [OF o(1)])
  show ?thesis
    using o b byte_fifo.push_Some_iff [OF o(1), of b] byte_fifo.pop_Some_iff [OF o(1)]
    by (cases "ring_push b r'"; cases "ring_pop r'") auto
qed

theorem byte_ring_fifo_witness:
  "\<exists>r'. byte_fifo.fifo_run [Inl 8, Inr (), Inl 9] demo_ring = Some ([3], r') \<and> ring_elems r' = [2, 8, 9]"
proof -
  have "\<exists>r'. byte_fifo.fifo_run [Inl 8, Inr (), Inl 9] demo_ring = Some ([3], r')"
    by (simp add: ring_push_def ring_pop_def frame_ring_write_byte_def frame_ring_read_byte_def
        frame_ring_free_def frame_ring_used_def ring_write_byte_unchecked_def ring_read_def ring_idx_def
        demo_ring_def take_bit_eq_mod)
  then obtain r' where r': "byte_fifo.fifo_run [Inl 8, Inr (), Inl 9] demo_ring = Some ([3], r')" by blast
  show ?thesis using byte_ring_fifo [OF demo_ring_ok(1) r', of 0] r' demo_ring_ok(2) by auto
qed

end
