(* ===== verification/Bus_Frame.thy ===== *)
theory Bus_Frame
  imports Bus_Ring
begin

text \<open>
  The frame codec of the bus library (\<open>libcomm/frame.c\<close>): CRC-8/AUTOSAR, the SLIP encoder that
  writes a whole frame into the byte ring or nothing, and the decoder that is fed one byte at a
  time. The encoder is related to the list of bytes of a frame, the decoder to the frame these
  bytes came from, from any state the line noise before them may have left it in.
\<close>

section \<open>CRC-8/AUTOSAR\<close>

definition crc8_step :: "8 word \<Rightarrow> 8 word" where
  "crc8_step crc = (if crc AND 0x80 \<noteq> 0 then push_bit 1 crc XOR 0x2F else push_bit 1 crc)"

definition crc8_autosar_update :: "8 word \<Rightarrow> 8 word \<Rightarrow> 8 word" where
  "crc8_autosar_update crc byte = (crc8_step ^^ 8) (crc XOR byte)"

definition crc8_bytes :: "8 word \<Rightarrow> 8 word list \<Rightarrow> 8 word" where
  "crc8_bytes crc bs = fold (\<lambda>b c. crc8_autosar_update c b) bs crc"

definition crc8_autosar :: "8 word list \<Rightarrow> 8 word" where
  "crc8_autosar bs = crc8_bytes 0xFF bs XOR 0xFF"

section \<open>Frames\<close>

definition FRAME_END :: "8 word" where "FRAME_END = 0xC0"
definition FRAME_ESC :: "8 word" where "FRAME_ESC = 0xDB"
definition FRAME_ESC_END :: "8 word" where "FRAME_ESC_END = 0xDC"
definition FRAME_ESC_ESC :: "8 word" where "FRAME_ESC_ESC = 0xDD"
definition COMM_PAYLOAD_MAX :: nat where "COMM_PAYLOAD_MAX = 128"
definition FRAME_BUFFER_MAX :: nat where "FRAME_BUFFER_MAX = 7 + COMM_PAYLOAD_MAX + 1"

lemmas slip_consts = FRAME_END_def FRAME_ESC_def FRAME_ESC_END_def FRAME_ESC_ESC_def

datatype frame_dir = FRAME_DIR_M2S | FRAME_DIR_S2M

record frame_meta =
  fm_addr :: "8 word"
  fm_cmd :: "16 word"
  fm_seq :: "8 word"
  fm_ack_seq :: "8 word"
  fm_ack_status :: "8 word"
  fm_payload_len :: "8 word"

text \<open>The header on the wire, the command in little-endian order.\<close>

definition frame_header :: "frame_dir \<Rightarrow> frame_meta \<Rightarrow> 8 word list" where
  "frame_header dir meta = (case dir of
     FRAME_DIR_S2M \<Rightarrow> [fm_addr meta, ucast (fm_cmd meta AND 0xFF), ucast (drop_bit 8 (fm_cmd meta) AND 0xFF),
       fm_seq meta, fm_ack_seq meta, fm_ack_status meta, fm_payload_len meta]
   | FRAME_DIR_M2S \<Rightarrow> [fm_addr meta, ucast (fm_cmd meta AND 0xFF), ucast (drop_bit 8 (fm_cmd meta) AND 0xFF),
       fm_seq meta, fm_payload_len meta])"

section \<open>Encoder\<close>

definition slip_emit_byte :: "8 word \<Rightarrow> (frame_ring, int) act" where
  "slip_emit_byte b = bindA (getA frame_ring_free) (\<lambda>free.
     if b = FRAME_END then
       if free < 2 then retA (-1)
       else seqA (ring_write_byte_unchecked FRAME_ESC) (seqA (ring_write_byte_unchecked FRAME_ESC_END) (retA 0))
     else if b = FRAME_ESC then
       if free < 2 then retA (-1)
       else seqA (ring_write_byte_unchecked FRAME_ESC) (seqA (ring_write_byte_unchecked FRAME_ESC_ESC) (retA 0))
     else if free < 1 then retA (-1)
       else seqA (ring_write_byte_unchecked b) (retA 0))"

definition emit_end :: "(frame_ring, int) act" where
  "emit_end = bindA (getA frame_ring_free) (\<lambda>free.
     if free < 1 then retA (-1) else seqA (ring_write_byte_unchecked FRAME_END) (retA 0))"

text \<open>Go on with \<open>n\<close> unless \<open>m\<close> has failed, which is the jump to \<open>fail\<close>.\<close>

definition unless_failed :: "(frame_ring, int) act \<Rightarrow> (frame_ring, int) act \<Rightarrow> (frame_ring, int) act" where
  "unless_failed m n = bindA m (\<lambda>rc. if rc < 0 then retA rc else n)"

primrec slip_emit_bytes :: "8 word list \<Rightarrow> (frame_ring, int) act" where
  "slip_emit_bytes [] = retA 0"
| "slip_emit_bytes (b # bs) = unless_failed (slip_emit_byte b) (slip_emit_bytes bs)"

definition frame_encode_common :: "frame_meta \<Rightarrow> 8 word list \<Rightarrow> frame_dir \<Rightarrow> (frame_ring, int) act" where
  "frame_encode_common meta payload dir =
     (if unat (fm_payload_len meta) > COMM_PAYLOAD_MAX then retA (-1)
      else if length payload < unat (fm_payload_len meta) then trapA (Fault ''payload read out of bounds'')
      else bindA (getA fr_head) (\<lambda>saved_head.
        let hdr = frame_header dir meta; bytes = take (unat (fm_payload_len meta)) payload;
            crc = crc8_bytes (crc8_bytes 0xFF hdr) bytes XOR 0xFF in
        bindA (unless_failed emit_end (unless_failed (slip_emit_bytes hdr) (unless_failed (slip_emit_bytes bytes)
          (unless_failed (slip_emit_byte crc) emit_end)))) (\<lambda>rc.
        if rc < 0 then seqA (modA (fr_head_update (\<lambda>_. saved_head))) (retA (-1)) else retA 0)))"

definition frame_encode_m2s :: "frame_meta \<Rightarrow> 8 word list \<Rightarrow> (frame_ring, int) act" where
  "frame_encode_m2s meta payload = frame_encode_common meta payload FRAME_DIR_M2S"

definition frame_encode_s2m :: "frame_meta \<Rightarrow> 8 word list \<Rightarrow> (frame_ring, int) act" where
  "frame_encode_s2m meta payload = frame_encode_common meta payload FRAME_DIR_S2M"

section \<open>Decoder\<close>

datatype decode_result = FRAME_DECODE_NEED_MORE | FRAME_DECODE_FRAME_READY | FRAME_DECODE_BAD_CRC
  | FRAME_DECODE_OVERFLOW | FRAME_DECODE_BAD_LEN

record frame_decoder =
  fd_dir :: frame_dir
  fd_in_escape :: bool
  fd_in_frame :: bool
  fd_len :: nat
  fd_buf :: "8 word list"

definition frame_decoder_init :: "frame_dir \<Rightarrow> frame_decoder" where
  "frame_decoder_init dir = \<lparr> fd_dir = dir, fd_in_escape = False, fd_in_frame = False, fd_len = 0,
     fd_buf = replicate FRAME_BUFFER_MAX 0 \<rparr>"

definition decoder_reset_body :: "frame_decoder \<Rightarrow> frame_decoder" where
  "decoder_reset_body d = d \<lparr> fd_len := 0, fd_in_escape := False \<rparr>"

text \<open>The meta data and the payload bytes written through the two out pointers, if any are.\<close>

type_synonym decoded = "decode_result \<times> (frame_meta \<times> 8 word list) option"

definition hdr_len_of :: "frame_dir \<Rightarrow> nat" where
  "hdr_len_of dir = (if dir = FRAME_DIR_M2S then 5 else 7)"

text \<open>The checks at the trailing END, over the bytes collected.\<close>

definition validate_body :: "frame_dir \<Rightarrow> 8 word list \<Rightarrow> decoded" where
  "validate_body dir body =
     (let hdr_len = hdr_len_of dir in
      if length body < hdr_len + 1 then (FRAME_DECODE_BAD_LEN, None)
      else if crc8_bytes 0xFF (butlast body) XOR 0xFF \<noteq> last body then (FRAME_DECODE_BAD_CRC, None)
      else let declared_len = body ! (hdr_len - 1) in
        if unat declared_len > COMM_PAYLOAD_MAX \<or> hdr_len + unat declared_len + 1 \<noteq> length body
        then (FRAME_DECODE_BAD_LEN, None)
        else (FRAME_DECODE_FRAME_READY,
          Some (\<lparr> fm_addr = body ! 0, fm_cmd = ucast (body ! 1) OR push_bit 8 (ucast (body ! 2)), fm_seq = body ! 3,
              fm_ack_seq = (if dir = FRAME_DIR_M2S then 0 else body ! 4),
              fm_ack_status = (if dir = FRAME_DIR_M2S then 0 else body ! 5),
              fm_payload_len = declared_len \<rparr>,
            take (unat declared_len) (drop hdr_len body))))"

definition feed_end :: "(frame_decoder, decoded) act" where
  "feed_end = (\<lambda>d.
     if \<not> fd_in_frame d then Ret ((FRAME_DECODE_NEED_MORE, None), decoder_reset_body (d \<lparr> fd_in_frame := True \<rparr>))
     else if fd_len d = 0 then Ret ((FRAME_DECODE_NEED_MORE, None), d \<lparr> fd_in_escape := False \<rparr>)
     else if fd_len d > length (fd_buf d) then Trap (Fault ''decoder buffer read out of bounds'')
     else Ret (validate_body (fd_dir d) (take (fd_len d) (fd_buf d)), decoder_reset_body (d \<lparr> fd_in_frame := False \<rparr>)))"

definition collect_byte :: "8 word \<Rightarrow> (frame_decoder, decoded) act" where
  "collect_byte b = (\<lambda>d.
     if fd_len d \<ge> FRAME_BUFFER_MAX then
       Ret ((FRAME_DECODE_OVERFLOW, None), decoder_reset_body (d \<lparr> fd_in_frame := False \<rparr>))
     else if fd_len d < length (fd_buf d) then
       Ret ((FRAME_DECODE_NEED_MORE, None), d \<lparr> fd_buf := (fd_buf d)[fd_len d := b], fd_len := fd_len d + 1 \<rparr>)
     else Trap (Fault ''decoder buffer written out of bounds''))"

definition frame_decoder_feed :: "8 word \<Rightarrow> (frame_decoder, decoded) act" where
  "frame_decoder_feed byte = (\<lambda>d.
     if byte = FRAME_END then feed_end d
     else if \<not> fd_in_frame d then Ret ((FRAME_DECODE_NEED_MORE, None), d)
     else if fd_in_escape d then
       let d' = d \<lparr> fd_in_escape := False \<rparr> in
       if byte = FRAME_ESC_END then collect_byte FRAME_END d'
       else if byte = FRAME_ESC_ESC then collect_byte FRAME_ESC d'
       else Ret ((FRAME_DECODE_BAD_LEN, None), decoder_reset_body (d' \<lparr> fd_in_frame := False \<rparr>))
     else if byte = FRAME_ESC then Ret ((FRAME_DECODE_NEED_MORE, None), d \<lparr> fd_in_escape := True \<rparr>)
     else collect_byte byte d)"

section \<open>The bytes of a frame\<close>

definition slip :: "8 word \<Rightarrow> 8 word list" where
  "slip b = (if b = FRAME_END then [FRAME_ESC, FRAME_ESC_END]
     else if b = FRAME_ESC then [FRAME_ESC, FRAME_ESC_ESC] else [b])"

definition frame_body :: "frame_dir \<Rightarrow> frame_meta \<Rightarrow> 8 word list \<Rightarrow> 8 word list" where
  "frame_body dir meta payload = (let bs = frame_header dir meta @ payload in bs @ [crc8_autosar bs])"

definition wire :: "8 word list \<Rightarrow> 8 word list" where
  "wire body = FRAME_END # concat (map slip body) @ [FRAME_END]"

lemma wire_len: "length (wire body) \<le> 2 * length body + 2"
proof -
  have "length (concat (map slip body)) \<le> 2 * length body"
    by (induction body) (auto simp: slip_def)
  then show ?thesis by (simp add: wire_def)
qed

section \<open>The encoder writes a frame or nothing\<close>

text \<open>
  An emitter that appends \<open>ys\<close> if there is room for it; otherwise it fails, having written
  some part of it behind what the ring held.
\<close>

definition appends :: "nat \<Rightarrow> 8 word list \<Rightarrow> (frame_ring, int) act \<Rightarrow> bool" where
  "appends k ys m = (\<forall>r. ring_ok k r \<longrightarrow>
     (\<exists>r' zs. m r = Ret (if length (ring_elems r) + length ys \<le> 2 ^ k then 0 else -1, r') \<and>
        ring_ok k r' \<and> fr_tail r' = fr_tail r \<and> ring_elems r' = ring_elems r @ zs \<and>
        (length (ring_elems r) + length ys \<le> 2 ^ k \<longrightarrow> zs = ys)))"

lemma appends_cong: "appends k ys m \<Longrightarrow> ys = zs \<Longrightarrow> appends k zs m"
  by simp

lemma appends_nil: "appends k [] (retA 0)"
  by (auto simp: appends_def ring_ok_def)

lemma appends_unless_failed:
  assumes "appends k ys m" "appends k zs n"
  shows "appends k (ys @ zs) (unless_failed m n)"
  unfolding appends_def
proof (intro allI impI)
  fix r assume r: "ring_ok k r"
  let ?fits = "\<lambda>r ys. length (ring_elems r) + length ys \<le> 2 ^ k"
  from assms(1) r obtain r1 us where r1: "m r = Ret (if ?fits r ys then 0 else -1, r1)" "ring_ok k r1"
    "fr_tail r1 = fr_tail r" "ring_elems r1 = ring_elems r @ us" "?fits r ys \<longrightarrow> us = ys"
    unfolding appends_def by meson
  from assms(2) r1(2) obtain r2 vs where r2: "n r1 = Ret (if ?fits r1 zs then 0 else -1, r2)" "ring_ok k r2"
    "fr_tail r2 = fr_tail r1" "ring_elems r2 = ring_elems r1 @ vs" "?fits r1 zs \<longrightarrow> vs = zs"
    unfolding appends_def by meson
  show "\<exists>r' ws. unless_failed m n r = Ret (if ?fits r (ys @ zs) then 0 else -1, r') \<and> ring_ok k r' \<and>
      fr_tail r' = fr_tail r \<and> ring_elems r' = ring_elems r @ ws \<and> (?fits r (ys @ zs) \<longrightarrow> ws = ys @ zs)"
  proof (cases "?fits r ys")
    case True
    then have "length (ring_elems r1) = length (ring_elems r) + length ys" using r1 by simp
    then have f: "?fits r1 zs = ?fits r (ys @ zs)" by (simp add: add.assoc)
    show ?thesis using True r1 r2 unfolding f by (auto simp: unless_failed_def simp del: length_ring_elems)
  next
    case False
    then show ?thesis using r1 by (auto simp: unless_failed_def simp del: length_ring_elems)
  qed
qed

lemma free_less: "ring_ok k r \<Longrightarrow> n < 4294967296 \<Longrightarrow>
    (frame_ring_free r < of_nat n) = (2 ^ k < length (ring_elems r) + n)"
  using ring_free_unat [of k r]
  by (auto simp: word_less_nat_alt unat_of_nat ring_ok_def)

lemma appends_one:
  "appends k [b] (bindA (getA frame_ring_free) (\<lambda>free.
     if free < 1 then retA (-1) else seqA (ring_write_byte_unchecked b) (retA 0)))"
  unfolding appends_def
proof (intro allI impI)
  fix r assume r: "ring_ok k r"
  show "\<exists>r' zs. bindA (getA frame_ring_free) (\<lambda>free. if free < 1 then retA (-1)
        else seqA (ring_write_byte_unchecked b) (retA 0)) r =
      Ret (if length (ring_elems r) + length [b] \<le> 2 ^ k then 0 else -1, r') \<and> ring_ok k r' \<and>
      fr_tail r' = fr_tail r \<and> ring_elems r' = ring_elems r @ zs \<and>
      (length (ring_elems r) + length [b] \<le> 2 ^ k \<longrightarrow> zs = [b])"
    using free_less [OF r, of 1] write_unchecked [OF r, of b] r
    by (cases "length (ring_elems r) < 2 ^ k") (auto simp: simp del: length_ring_elems)
qed

lemma appends_two:
  "appends k [b, c] (bindA (getA frame_ring_free) (\<lambda>free. if free < 2 then retA (-1)
     else seqA (ring_write_byte_unchecked b) (seqA (ring_write_byte_unchecked c) (retA 0))))"
  unfolding appends_def
proof (intro allI impI)
  fix r assume r: "ring_ok k r"
  show "\<exists>r' zs. bindA (getA frame_ring_free) (\<lambda>free. if free < 2 then retA (-1)
        else seqA (ring_write_byte_unchecked b) (seqA (ring_write_byte_unchecked c) (retA 0))) r =
      Ret (if length (ring_elems r) + length [b, c] \<le> 2 ^ k then 0 else -1, r') \<and> ring_ok k r' \<and>
      fr_tail r' = fr_tail r \<and> ring_elems r' = ring_elems r @ zs \<and>
      (length (ring_elems r) + length [b, c] \<le> 2 ^ k \<longrightarrow> zs = [b, c])"
  proof (cases "length (ring_elems r) + 2 \<le> 2 ^ k")
    case True
    then obtain r1 where r1: "ring_write_byte_unchecked b r = Ret ((), r1)" "ring_ok k r1"
      "ring_elems r1 = ring_elems r @ [b]" "fr_tail r1 = fr_tail r"
      using write_unchecked [OF r, of b] by fastforce
    then have "length (ring_elems r1) < 2 ^ k" using True by simp
    from write_unchecked [OF r1(2) this, of c] r1 True free_less [OF r, of 2]
    show ?thesis by (auto simp: simp del: length_ring_elems)
  next
    case False
    then show ?thesis using free_less [OF r, of 2] r by (auto simp: simp del: length_ring_elems)
  qed
qed

lemma appends_byte: "appends k (slip b) (slip_emit_byte b)"
proof -
  have ne: "(FRAME_ESC = FRAME_END) = False" by (simp add: slip_consts)
  consider "b = FRAME_END" | "b = FRAME_ESC" | "b \<noteq> FRAME_END" "b \<noteq> FRAME_ESC" by blast
  then show ?thesis
    by cases (simp_all only: slip_emit_byte_def slip_def ne if_True if_False simp_thms appends_one appends_two)
qed

lemma appends_bytes: "appends k (concat (map slip bs)) (slip_emit_bytes bs)"
proof (induction bs)
  case Nil
  show ?case using appends_nil by (simp only: list.map concat.simps slip_emit_bytes.simps)
next
  case (Cons b bs)
  show ?case
    using appends_unless_failed [OF appends_byte Cons.IH] by (simp only: list.map concat.simps slip_emit_bytes.simps)
qed

lemma appends_end: "appends k [FRAME_END] emit_end"
  unfolding emit_end_def by (rule appends_one)

lemma crc8_append: "crc8_bytes c (xs @ ys) = crc8_bytes (crc8_bytes c xs) ys"
  by (simp add: crc8_bytes_def)

text \<open>Taking the head back gives up what was written behind it.\<close>

lemma restore_head:
  assumes "ring_ok k r" "ring_ok k r'" "fr_tail r' = fr_tail r" "ring_elems r' = ring_elems r @ zs"
  defines "u \<equiv> r' \<lparr> fr_head := fr_head r \<rparr>"
  shows "ring_ok k u \<and> ring_elems u = ring_elems r \<and> fr_head u = fr_head r \<and> fr_tail u = fr_tail r"
proof -
  have used: "frame_ring_used u = frame_ring_used r" using assms(3) by (simp add: u_def frame_ring_used_def)
  have le: "unat (frame_ring_used r) \<le> unat (frame_ring_used r')"
    using arg_cong [OF assms(4), of length] by simp
  have "ring_elems u = take (unat (frame_ring_used r)) (ring_elems r')"
    using le by (intro nth_equalityI) (simp_all add: used, simp add: ring_elems_def ring_list_def used, simp add: u_def)
  also have "\<dots> = ring_elems r" using assms(4) by simp
  finally show ?thesis using assms used by (simp add: ring_ok_def u_def)
qed

lemma encode_common_atomic:
  assumes "ring_ok k r" "unat (fm_payload_len meta) = n" "n \<le> length payload"
  shows "\<exists>rc r'. frame_encode_common meta payload dir r = Ret (rc, r') \<and> ring_ok k r' \<and>
    (if n \<le> 128 \<and> length (ring_elems r) + length (wire (frame_body dir meta (take n payload))) \<le> 2 ^ k
     then rc = 0 \<and> ring_elems r' = ring_elems r @ wire (frame_body dir meta (take n payload))
     else rc = -1 \<and> ring_elems r' = ring_elems r \<and> fr_head r' = fr_head r \<and> fr_tail r' = fr_tail r)"
proof (cases "n \<le> 128")
  case False
  then show ?thesis using assms by (simp add: frame_encode_common_def COMM_PAYLOAD_MAX_def)
next
  case n: True
  let ?bs = "take n payload" and ?hdr = "frame_header dir meta"
  let ?crc = "crc8_bytes (crc8_bytes 0xFF ?hdr) ?bs XOR 0xFF"
  let ?w = "wire (frame_body dir meta ?bs)" and ?fits = "length (ring_elems r) + length (wire (frame_body dir meta (take n payload))) \<le> 2 ^ k"
  let ?emit = "unless_failed emit_end (unless_failed (slip_emit_bytes ?hdr) (unless_failed (slip_emit_bytes ?bs)
    (unless_failed (slip_emit_byte ?crc) emit_end)))"
  have "[FRAME_END] @ concat (map slip ?hdr) @ concat (map slip ?bs) @ slip ?crc @ [FRAME_END] = ?w"
    by (simp add: wire_def frame_body_def crc8_autosar_def crc8_append Let_def)
  then have "appends k ?w ?emit"
    by (intro appends_cong [OF appends_unless_failed [OF appends_end appends_unless_failed [OF appends_bytes
      appends_unless_failed [OF appends_bytes appends_unless_failed [OF appends_byte appends_end]]]]])
  with assms(1) obtain r1 zs where r1: "?emit r = Ret (if ?fits then 0 else -1, r1)" "ring_ok k r1"
    "fr_tail r1 = fr_tail r" "ring_elems r1 = ring_elems r @ zs" "?fits \<longrightarrow> zs = ?w"
    unfolding appends_def by meson
  have run: "frame_encode_common meta payload dir r =
      (if ?fits then Ret (0, r1) else Ret (-1, r1 \<lparr> fr_head := fr_head r \<rparr>))"
    using r1(1) assms(2,3) n by (auto simp: frame_encode_common_def COMM_PAYLOAD_MAX_def Let_def simp del: length_ring_elems)
  show ?thesis
    unfolding run using n r1 restore_head [OF assms(1) r1(2-4)] by (auto simp del: length_ring_elems)
qed

text \<open>
  C24. The encoder is atomic. For a payload of at most 128 bytes it appends to the ring exactly
  the bytes of the frame, from its leading to its trailing END, and answers 0 if there is room
  for all of them; otherwise, wherever the ring fills up, it answers -1 and the ring holds what
  it held, with both counters as they were. A longer payload is refused with -1.
\<close>

theorem frame_encode_atomic:
  assumes "ring_ok k r" "unat (fm_payload_len meta) = n" "n \<le> length payload"
  shows "\<exists>rc r'. frame_encode_common meta payload dir r = Ret (rc, r') \<and> ring_ok k r' \<and>
    (if n \<le> 128 \<and> length (ring_elems r) + length (wire (frame_body dir meta (take n payload))) \<le> 2 ^ k
     then rc = 0 \<and> ring_elems r' = ring_elems r @ wire (frame_body dir meta (take n payload))
     else rc = -1 \<and> ring_elems r' = ring_elems r \<and> fr_head r' = fr_head r \<and> fr_tail r' = fr_tail r)"
  using encode_common_atomic [OF assms] .

definition idle_meta :: frame_meta where
  "idle_meta = \<lparr> fm_addr = 0xDB, fm_cmd = 1, fm_seq = 2, fm_ack_seq = 0, fm_ack_status = 0, fm_payload_len = 0 \<rparr>"

theorem frame_encode_atomic_witness:
  "\<exists>r'. frame_encode_common idle_meta [] FRAME_DIR_M2S demo_ring = Ret (-1, r') \<and> ring_elems r' = [3, 2]"
proof -
  have "8 < length (ring_elems demo_ring) + length (wire (frame_body FRAME_DIR_M2S idle_meta []))"
    by (simp add: wire_def frame_body_def frame_header_def idle_meta_def slip_def slip_consts Let_def demo_ring_ok
        del: length_ring_elems)
  then show ?thesis
    using frame_encode_atomic [OF demo_ring_ok(1), of idle_meta 0 "[]" FRAME_DIR_M2S] demo_ring_ok(2)
    by (auto simp: idle_meta_def simp del: length_ring_elems split: if_splits)
qed

section \<open>The decoder collects the bytes of a frame\<close>

definition fd_ok :: "frame_decoder \<Rightarrow> bool" where
  "fd_ok d = (length (fd_buf d) = FRAME_BUFFER_MAX \<and> fd_len d \<le> FRAME_BUFFER_MAX)"

text \<open>Between the ENDs of a frame with \<open>xs\<close> collected so far; and outside of any frame.\<close>

definition collecting :: "8 word list \<Rightarrow> frame_decoder \<Rightarrow> bool" where
  "collecting xs d = (fd_ok d \<and> fd_in_frame d \<and> \<not> fd_in_escape d \<and> fd_len d = length xs \<and>
     take (length xs) (fd_buf d) = xs)"

definition waiting_end :: "frame_decoder \<Rightarrow> bool" where
  "waiting_end d = (fd_ok d \<and> \<not> fd_in_frame d)"

definition feed_all :: "8 word list \<Rightarrow> (frame_decoder, decoded list) act" where
  "feed_all bs = mapA frame_decoder_feed bs"

abbreviation need_more :: decoded where
  "need_more \<equiv> (FRAME_DECODE_NEED_MORE, None)"

lemma mapA_append:
  "mapA f xs s = Ret (us, s1) \<Longrightarrow> mapA f ys s1 = Ret (vs, s2) \<Longrightarrow> mapA f (xs @ ys) s = Ret (us @ vs, s2)"
proof (induction xs arbitrary: us s)
  case (Cons x xs)
  then obtain u s' where "f x s = Ret (u, s')" "mapA f xs s' = Ret (tl us, s1)" "us = u # tl us" by auto
  with Cons.IH [of s' "tl us"] Cons.prems(2) show ?case by auto
qed simp

lemma feed_all_append:
  "feed_all xs d = Ret (us, d1) \<Longrightarrow> feed_all ys d1 = Ret (vs, d2) \<Longrightarrow> feed_all (xs @ ys) d = Ret (us @ vs, d2)"
  unfolding feed_all_def by (rule mapA_append)

lemma feed_all_Nil: "feed_all [] d = Ret ([], d)"
  by (simp add: feed_all_def)

lemma feed_all_one: "frame_decoder_feed b d = Ret (x, d') \<Longrightarrow> feed_all [b] d = Ret ([x], d')"
  by (simp add: feed_all_def)

lemma collect_one:
  assumes "collecting xs d" "length xs < FRAME_BUFFER_MAX"
  shows "\<exists>d'. collect_byte b d = Ret (need_more, d') \<and> collecting (xs @ [b]) d' \<and> fd_dir d' = fd_dir d"
  using assms by (auto simp: collecting_def collect_byte_def fd_ok_def take_Suc_conv_app_nth)

lemma feed_slip:
  assumes "collecting xs d" "length xs < FRAME_BUFFER_MAX"
  shows "\<exists>d'. feed_all (slip b) d = Ret (replicate (length (slip b)) need_more, d') \<and>
    collecting (xs @ [b]) d' \<and> fd_dir d' = fd_dir d"
proof -
  have d: "fd_in_frame d" "\<not> fd_in_escape d" using assms(1) by (simp_all add: collecting_def)
  have e: "collecting xs (d \<lparr> fd_in_escape := False \<rparr>)" using assms(1) by (simp add: collecting_def fd_ok_def)
  have ee: "d \<lparr> fd_in_escape := True, fd_in_escape := False \<rparr> = d \<lparr> fd_in_escape := False \<rparr>" by simp
  show ?thesis
    using collect_one [OF assms, of b] collect_one [OF e assms(2), of b] d
    by (auto simp: slip_def feed_all_def frame_decoder_feed_def slip_consts Let_def)
qed

lemma feed_slips:
  "collecting xs d \<Longrightarrow> length xs + length bs \<le> FRAME_BUFFER_MAX \<Longrightarrow>
   \<exists>d'. feed_all (concat (map slip bs)) d = Ret (replicate (length (concat (map slip bs))) need_more, d') \<and>
     collecting (xs @ bs) d' \<and> fd_dir d' = fd_dir d"
proof (induction bs arbitrary: xs d)
  case Nil
  then show ?case by (simp add: feed_all_Nil)
next
  case (Cons b bs)
  then have "length xs < FRAME_BUFFER_MAX" by simp
  from feed_slip [OF Cons.prems(1) this, of b] obtain d1 where d1:
    "feed_all (slip b) d = Ret (replicate (length (slip b)) need_more, d1)" "collecting (xs @ [b]) d1" "fd_dir d1 = fd_dir d"
    by blast
  from Cons.IH [OF d1(2)] Cons.prems(2) obtain d2 where d2:
    "feed_all (concat (map slip bs)) d1 = Ret (replicate (length (concat (map slip bs))) need_more, d2)"
    "collecting (xs @ b # bs) d2" "fd_dir d2 = fd_dir d" using d1(3) by auto
  show ?case using feed_all_append [OF d1(1) d2(1)] d2 by (auto simp: replicate_add)
qed

text \<open>A leading END: ready to collect from outside a frame, and from just behind another END.\<close>

lemma feed_leading:
  assumes "fd_ok d" "fd_in_frame d \<Longrightarrow> fd_len d = 0"
  shows "\<exists>d'. feed_all [FRAME_END] d = Ret ([need_more], d') \<and> collecting [] d' \<and> fd_dir d' = fd_dir d"
  using assms by (auto simp: feed_all_def frame_decoder_feed_def feed_end_def collecting_def fd_ok_def decoder_reset_body_def)

lemma feed_trailing:
  assumes "collecting xs d" "xs \<noteq> []"
  shows "\<exists>d'. feed_all [FRAME_END] d = Ret ([validate_body (fd_dir d) xs], d') \<and> waiting_end d' \<and> fd_dir d' = fd_dir d"
  using assms by (auto simp: feed_all_def frame_decoder_feed_def feed_end_def collecting_def fd_ok_def
      decoder_reset_body_def waiting_end_def)

lemma feed_wire:
  assumes "fd_ok d" "fd_in_frame d \<Longrightarrow> fd_len d = 0" "body \<noteq> []" "length body \<le> FRAME_BUFFER_MAX"
  shows "\<exists>d'. feed_all (wire body) d =
      Ret (replicate (length (wire body) - 1) need_more @ [validate_body (fd_dir d) body], d') \<and>
    waiting_end d' \<and> fd_dir d' = fd_dir d"
proof -
  from feed_leading [OF assms(1,2)] obtain d1 where d1: "feed_all [FRAME_END] d = Ret ([need_more], d1)"
    "collecting [] d1" "fd_dir d1 = fd_dir d" by blast
  from feed_slips [OF d1(2), of body] assms(4) obtain d2 where d2:
    "feed_all (concat (map slip body)) d1 = Ret (replicate (length (concat (map slip body))) need_more, d2)"
    "collecting body d2" "fd_dir d2 = fd_dir d" using d1(3) by auto
  from feed_trailing [OF d2(2) assms(3)] obtain d3 where d3:
    "feed_all [FRAME_END] d2 = Ret ([validate_body (fd_dir d) body], d3)" "waiting_end d3" "fd_dir d3 = fd_dir d"
    using d2(3) by auto
  from feed_all_append [OF d1(1) feed_all_append [OF d2(1) d3(1)]] d3(2,3) show ?thesis
    by (simp add: wire_def)
qed

section \<open>The checksum\<close>

lemma crc8_step_top: "crc8_step z = (if bit z 7 then push_bit 1 z XOR 0x2F else push_bit 1 z)"
  using and_exp_eq_0_iff_not_bit [of z 7] by (simp add: crc8_step_def)

lemma xor_self_cancel: "a XOR c = b XOR c \<Longrightarrow> a = (b :: 8 word)"
proof -
  assume "a XOR c = b XOR c"
  then have "(a XOR c) XOR c = (b XOR c) XOR c" by (rule arg_cong)
  then show "a = b" by (simp only: xor.assoc xor_self_eq xor.right_neutral)
qed

lemma crc8_step_inj:
  assumes e: "crc8_step x = crc8_step y"
  shows "x = y"
proof -
  have nb: "bit (push_bit 1 z) 0 = False" for z :: "8 word" by (simp only: bit_push_bit_iff) simp
  have "bit (crc8_step z) 0 = bit z 7" for z
    by (cases "bit z 7") (simp_all only: crc8_step_top if_True if_False bit_xor_iff nb, simp_all)
  then have top: "bit x 7 = bit y 7" using e by metis
  have "push_bit 1 x = push_bit 1 y"
  proof (cases "bit y 7")
    case True
    then have "push_bit 1 x XOR 0x2F = push_bit 1 y XOR 0x2F" using e top by (simp only: crc8_step_top if_True)
    then show ?thesis by (rule xor_self_cancel)
  next
    case False
    then show ?thesis using e top by (simp only: crc8_step_top if_False)
  qed
  then have "bit (push_bit 1 x) (Suc n) = bit (push_bit 1 y) (Suc n)" for n by simp
  then have low: "n < 7 \<Longrightarrow> bit x n = bit y n" for n
    unfolding bit_push_bit_iff by auto
  show "x = y"
  proof (rule bit_word_eqI)
    fix n assume "n < LENGTH(8)"
    then show "bit x n = bit y n" using low [of n] top by (cases "n = 7") auto
  qed
qed

lemma crc8_step_pow_inj: "(crc8_step ^^ n) x = (crc8_step ^^ n) y \<Longrightarrow> x = y"
  by (induction n) (auto dest: crc8_step_inj)

lemma crc8_update_inj: "crc8_autosar_update c a = crc8_autosar_update c b \<Longrightarrow> a = b"
  "crc8_autosar_update c a = crc8_autosar_update d a \<Longrightarrow> c = d"
proof -
  show "c = d" if "crc8_autosar_update c a = crc8_autosar_update d a"
    using that unfolding crc8_autosar_update_def by (intro xor_self_cancel [of c a d]) (rule crc8_step_pow_inj)
  have sym: "c XOR x = x XOR c" for x by (rule xor.commute)
  show "a = b" if "crc8_autosar_update c a = crc8_autosar_update c b"
    using that unfolding crc8_autosar_update_def sym by (intro xor_self_cancel [of a c b]) (rule crc8_step_pow_inj)
qed

lemma crc8_bytes_inj: "crc8_bytes c bs = crc8_bytes d bs \<Longrightarrow> c = d"
  by (induction bs arbitrary: c d) (auto simp: crc8_bytes_def dest: crc8_update_inj(2))

lemma crc8_one_byte:
  assumes "i < length bs" "b \<noteq> bs ! i"
  shows "crc8_bytes c (bs[i := b]) \<noteq> crc8_bytes c bs"
proof
  assume e: "crc8_bytes c (bs[i := b]) = crc8_bytes c bs"
  have bs: "bs = take i bs @ bs ! i # drop (Suc i) bs" using assms(1) by (rule id_take_nth_drop)
  have "bs[i := b] = take i bs @ b # drop (Suc i) bs" using assms(1) by (rule upd_conv_take_nth_drop)
  with e bs have "crc8_bytes (crc8_autosar_update (crc8_bytes c (take i bs)) b) (drop (Suc i) bs) =
      crc8_bytes (crc8_autosar_update (crc8_bytes c (take i bs)) (bs ! i)) (drop (Suc i) bs)"
    by (metis crc8_append crc8_bytes_def fold_simps(2))
  with assms(2) show False by (metis crc8_bytes_inj crc8_update_inj(1))
qed

lemma crc8_check_value: "crc8_autosar [0x31, 0x32, 0x33, 0x34, 0x35, 0x36, 0x37, 0x38, 0x39] = 0xDF"
  by code_simp

section \<open>Frames come back\<close>

lemma cmd_bytes: "ucast (ucast (c AND 0xFF) :: 8 word) OR push_bit 8 (ucast (ucast (drop_bit 8 c AND 0xFF) :: 8 word)) = (c :: 16 word)"
proof (rule bit_word_eqI)
  fix n assume n: "n < LENGTH(16)"
  have m: "bit (0xFF :: 16 word) k = (k < 8)" if "k < 16" for k
    using that bit_mask_iff [of 8 k, where 'a = "16 word"] by (simp add: mask_numeral)
  show "bit (ucast (ucast (c AND 0xFF) :: 8 word) OR push_bit 8 (ucast (ucast (drop_bit 8 c AND 0xFF) :: 8 word)) :: 16 word) n = bit c n"
    using n m [of n] m [of "n - 8"] by (auto simp: bit_simps not_less)
qed

text \<open>What the receiver sees of the meta data: acknowledgements travel from slave to master only.\<close>

definition received :: "frame_dir \<Rightarrow> frame_meta \<Rightarrow> frame_meta" where
  "received dir meta = (if dir = FRAME_DIR_M2S then meta \<lparr> fm_ack_seq := 0, fm_ack_status := 0 \<rparr> else meta)"

definition frame_fits :: "frame_meta \<times> 8 word list \<Rightarrow> bool" where
  "frame_fits = (\<lambda>(meta, payload). unat (fm_payload_len meta) = length payload \<and> length payload \<le> COMM_PAYLOAD_MAX)"

lemma frame_body_length: "length (frame_body dir meta payload) = hdr_len_of dir + length payload + 1"
  by (cases dir) (simp_all add: frame_body_def frame_header_def hdr_len_of_def Let_def)

lemma validate_frame:
  assumes "frame_fits (meta, payload)"
  shows "validate_body dir (frame_body dir meta payload) = (FRAME_DECODE_FRAME_READY, Some (received dir meta, payload))"
proof -
  have "butlast (frame_body dir meta payload) = frame_header dir meta @ payload"
    "last (frame_body dir meta payload) = crc8_autosar (frame_header dir meta @ payload)"
    by (simp_all add: frame_body_def Let_def butlast_append)
  then have crc: "crc8_bytes 0xFF (butlast (frame_body dir meta payload)) XOR 0xFF = last (frame_body dir meta payload)"
    by (simp add: crc8_autosar_def)
  show ?thesis
    using assms unfolding validate_body_def frame_body_length crc
    by (cases dir) (simp_all add: frame_fits_def hdr_len_of_def frame_body_def frame_header_def Let_def
        nth_append received_def cmd_bytes)
qed

text \<open>
  A frame comes back as it was sent. Fed the bytes of a frame, whatever its address,
  command, sequence numbers and payload of up to 128 bytes are (escapes included), a decoder
  that is outside a frame or just behind an END asks for more at every byte but the last and
  answers the last with the frame: the meta data that its direction carries, and the payload.
\<close>

theorem frame_roundtrip:
  assumes "fd_ok d" "fd_in_frame d \<Longrightarrow> fd_len d = 0" "frame_fits (meta, payload)"
  defines "w \<equiv> wire (frame_body (fd_dir d) meta payload)"
  shows "\<exists>d'. feed_all w d = Ret (replicate (length w - 1) need_more @
      [(FRAME_DECODE_FRAME_READY, Some (received (fd_dir d) meta, payload))], d') \<and>
    waiting_end d' \<and> fd_dir d' = fd_dir d"
proof -
  have "length (frame_body (fd_dir d) meta payload) \<le> FRAME_BUFFER_MAX" "frame_body (fd_dir d) meta payload \<noteq> []"
    using assms(3) frame_body_length [of "fd_dir d" meta payload]
    by (auto simp: frame_fits_def FRAME_BUFFER_MAX_def hdr_len_of_def COMM_PAYLOAD_MAX_def)
  from feed_wire [OF assms(1,2) this(2,1)] show ?thesis
    by (simp add: w_def validate_frame [OF assms(3)])
qed

definition demo_meta :: frame_meta where
  "demo_meta = \<lparr> fm_addr = 0xC0, fm_cmd = 0x12DB, fm_seq = 7, fm_ack_seq = 6, fm_ack_status = 1, fm_payload_len = 2 \<rparr>"

theorem frame_roundtrip_witness:
  "\<exists>d'. feed_all (wire (frame_body FRAME_DIR_M2S demo_meta [0xC0, 0xDB])) (frame_decoder_init FRAME_DIR_M2S) =
     Ret (replicate (length (wire (frame_body FRAME_DIR_M2S demo_meta [0xC0, 0xDB])) - 1) need_more @
       [(FRAME_DECODE_FRAME_READY, Some (demo_meta \<lparr> fm_ack_seq := 0, fm_ack_status := 0 \<rparr>, [0xC0, 0xDB]))], d')"
  using frame_roundtrip [of "frame_decoder_init FRAME_DIR_M2S" demo_meta "[0xC0, 0xDB]"]
  by (auto simp: frame_decoder_init_def fd_ok_def frame_fits_def demo_meta_def COMM_PAYLOAD_MAX_def received_def
      simp del: replicate_append_same)

lemma wrong_body_crc:
  assumes "i < length (frame_body dir meta payload)" "b \<noteq> frame_body dir meta payload ! i"
  shows "validate_body dir ((frame_body dir meta payload)[i := b]) = (FRAME_DECODE_BAD_CRC, None)"
proof -
  let ?h = "frame_header dir meta @ payload"
  let ?body = "frame_body dir meta payload"
  have body: "?body = ?h @ [crc8_autosar ?h]" by (simp add: frame_body_def Let_def)
  have "crc8_bytes 0xFF (butlast (?body[i := b])) XOR 0xFF \<noteq> last (?body[i := b])"
  proof (cases "i < length ?h")
    case True
    then have u: "?body[i := b] = ?h[i := b] @ [crc8_autosar ?h]" unfolding body by (rule list_update_append1)
    have "?body ! i = ?h ! i" unfolding body using True by (subst nth_append) (simp only: if_True)
    then have "b \<noteq> ?h ! i" using assms(2) by simp
    from crc8_one_byte [OF True this, of "0xFF"] show ?thesis
      unfolding u by (auto simp: crc8_autosar_def simp del: append.append_Cons dest: xor_self_cancel)
  next
    case False
    then have "i = length ?h" using assms(1) unfolding body by simp
    then have "?body[i := b] = ?h @ [b]" "b \<noteq> crc8_autosar ?h" using assms(2) unfolding body by (simp_all add: list_update_append)
    then show ?thesis by (auto simp: crc8_autosar_def butlast_append)
  qed
  then show ?thesis
    unfolding validate_body_def by (simp add: frame_body_length Let_def)
qed

lemma wrong_body_fed:
  assumes "fd_ok d" "fd_in_frame d \<Longrightarrow> fd_len d = 0" "length payload \<le> COMM_PAYLOAD_MAX"
    "i < length (frame_body (fd_dir d) meta payload)" "b \<noteq> frame_body (fd_dir d) meta payload ! i"
  defines "w \<equiv> wire ((frame_body (fd_dir d) meta payload)[i := b])"
  shows "\<exists>d'. feed_all w d = Ret (replicate (length w - 1) need_more @ [(FRAME_DECODE_BAD_CRC, None)], d') \<and>
    waiting_end d' \<and> fd_dir d' = fd_dir d"
proof -
  let ?body = "(frame_body (fd_dir d) meta payload)[i := b]"
  have "length ?body \<le> FRAME_BUFFER_MAX" "?body \<noteq> []"
    using assms(3,4) frame_body_length [of "fd_dir d" meta payload]
    by (auto simp: FRAME_BUFFER_MAX_def hdr_len_of_def)
  from feed_wire [OF assms(1,2) this(2,1)] show ?thesis
    by (simp add: w_def wrong_body_crc [OF assms(4,5)])
qed

text \<open>
  C23. One wrong byte never gets through. Take a frame with a payload of at most 128 bytes in which any
  single byte, of the header, the payload or the checksum, is replaced by another one before the escaping
  (whatever the change does to the declared length). Fed the escaped bytes between two ENDs, a decoder that
  is outside a frame or just behind an END asks for more at every byte but the last and answers the last
  with BAD_CRC and no frame; then it waits for the next frame. (An error on the wire that makes or
  destroys an END or an escape byte is not such a replacement: it changes where the frame ends or its
  length.)
\<close>

theorem wrong_byte_rejected:
  assumes "fd_ok d" "fd_in_frame d \<Longrightarrow> fd_len d = 0" "length payload \<le> COMM_PAYLOAD_MAX"
    "i < length (frame_body (fd_dir d) meta payload)" "b \<noteq> frame_body (fd_dir d) meta payload ! i"
  shows "\<exists>d'. feed_all (wire ((frame_body (fd_dir d) meta payload)[i := b])) d =
      Ret (replicate (length (wire ((frame_body (fd_dir d) meta payload)[i := b])) - 1) need_more @
        [(FRAME_DECODE_BAD_CRC, None)], d') \<and> waiting_end d' \<and> fd_dir d' = fd_dir d"
  using assms by (rule wrong_body_fed)

theorem wrong_byte_rejected_witness:
  "\<exists>d'. feed_all (wire ((frame_body FRAME_DIR_S2M demo_meta [1, 2])[6 := 3])) (frame_decoder_init FRAME_DIR_S2M) =
     Ret (replicate (length (wire ((frame_body FRAME_DIR_S2M demo_meta [1, 2])[6 := 3])) - 1) need_more @
       [(FRAME_DECODE_BAD_CRC, None)], d')"
proof -
  let ?d = "frame_decoder_init FRAME_DIR_S2M"
  have "6 < length (frame_body (fd_dir ?d) demo_meta [1, 2])" "3 \<noteq> frame_body (fd_dir ?d) demo_meta [1, 2] ! 6"
    by (simp_all add: frame_body_length hdr_len_of_def frame_decoder_init_def)
      (simp add: frame_body_def frame_header_def demo_meta_def Let_def)
  from wrong_byte_rejected [OF _ _ _ this] show ?thesis
    by (auto simp: frame_decoder_init_def fd_ok_def COMM_PAYLOAD_MAX_def simp del: replicate_append_same)
qed

text \<open>
  On the wire: a byte that is no END, no escape byte and not the second byte of an escape stands for itself,
  so that replacing it by another such byte replaces one byte of the frame.
\<close>

lemma plain_wire_byte:
  assumes "concat (map slip body) = us @ x # vs" "x \<notin> {FRAME_END, FRAME_ESC}" "us = [] \<or> last us \<noteq> FRAME_ESC"
    "y \<notin> {FRAME_END, FRAME_ESC}"
  shows "\<exists>i < length body. body ! i = x \<and> us @ y # vs = concat (map slip (body[i := y]))"
  using assms(1,3)
proof (induction body arbitrary: us)
  case (Cons z zs)
  consider (here) "us = []" "z = x" "vs = concat (map slip zs)" | (plain) us' where "us = z # us'" "slip z = [z]"
    | (escape) e us' where "us = FRAME_ESC # e # us'" "slip z = [FRAME_ESC, e]"
  proof (cases us)
    case Nil
    then show ?thesis using Cons.prems assms(2) by (intro here) (auto simp: slip_def [of z] split: if_splits)
  next
    case (Cons u us')
    show ?thesis
    proof (cases "slip z = [z]")
      case True
      then show ?thesis using Cons Cons.prems(1) by (intro plain) auto
    next
      case False
      then obtain e where e: "slip z = [FRAME_ESC, e]" by (auto simp: slip_def split: if_splits)
      with Cons Cons.prems have "us' \<noteq> []" by auto
      then show ?thesis using Cons Cons.prems(1) e by (cases us') (auto intro: escape)
    qed
  qed
  then show ?case
  proof cases
    case here
    then show ?thesis using assms(4) by (intro exI [of _ 0]) (simp add: slip_def [of y])
  next
    case plain
    with Cons.prems Cons.IH [of us'] obtain i where "i < length zs" "zs ! i = x" "us' @ y # vs = concat (map slip (zs[i := y]))"
      by (auto split: if_splits)
    then show ?thesis using plain by (intro exI [of _ "Suc i"]) simp
  next
    case escape
    with Cons.prems Cons.IH [of us'] obtain i where "i < length zs" "zs ! i = x" "us' @ y # vs = concat (map slip (zs[i := y]))"
      by (auto split: if_splits)
    then show ?thesis using escape by (intro exI [of _ "Suc i"]) simp
  qed
qed simp

lemma wrong_wire_byte_rejected:
  assumes "fd_ok d" "fd_in_frame d \<Longrightarrow> fd_len d = 0" "length payload \<le> COMM_PAYLOAD_MAX"
    "wire (frame_body (fd_dir d) meta payload) = us @ x # vs" "{x, y} \<inter> {FRAME_END, FRAME_ESC} = {}" "last us \<noteq> FRAME_ESC" "y \<noteq> x"
  shows "\<exists>d'. feed_all (us @ y # vs) d =
      Ret (replicate (length (us @ vs)) need_more @ [(FRAME_DECODE_BAD_CRC, None)], d') \<and> waiting_end d' \<and> fd_dir d' = fd_dir d"
proof -
  let ?body = "frame_body (fd_dir d) meta payload"
  obtain us' where us: "us = FRAME_END # us'" using assms(4,5) by (cases us) (auto simp: wire_def)
  obtain vs' where vs: "vs = vs' @ [FRAME_END]" using assms(4,5) by (cases vs rule: rev_cases) (auto simp: wire_def us)
  have body: "concat (map slip ?body) = us' @ x # vs'" using assms(4) by (simp add: wire_def us vs)
  have last: "us' = [] \<or> last us' \<noteq> FRAME_ESC" using assms(6) us by (cases us') simp_all
  have plain: "x \<notin> {FRAME_END, FRAME_ESC}" "y \<notin> {FRAME_END, FRAME_ESC}" using assms(5) by blast+
  from plain_wire_byte [OF body plain(1) last plain(2)] obtain i where
    i: "i < length ?body" "?body ! i = x" "us' @ y # vs' = concat (map slip (?body[i := y]))" by blast
  have w: "wire (?body[i := y]) = us @ y # vs" using i(3) [symmetric] by (simp add: wire_def us vs)
  have "y \<noteq> ?body ! i" using i(2) assms(7) by simp
  from wrong_body_fed [OF assms(1-3) i(1) this] show ?thesis unfolding w by simp
qed

section \<open>Any bytes at all\<close>

lemma validate_body_sound:
  assumes "validate_body dir body = (res, out)"
  shows "res \<noteq> FRAME_DECODE_NEED_MORE \<and> (out \<noteq> None \<longleftrightarrow> res = FRAME_DECODE_FRAME_READY) \<and>
    (\<forall>f. out = Some f \<longrightarrow> frame_fits f)"
  using assms
  by (auto simp: validate_body_def Let_def frame_fits_def hdr_len_of_def COMM_PAYLOAD_MAX_def split: if_splits)

lemma feed_ok:
  assumes "fd_ok d"
  shows "\<exists>res out d'. frame_decoder_feed b d = Ret ((res, out), d') \<and> fd_ok d' \<and> fd_dir d' = fd_dir d \<and>
    (out \<noteq> None \<longleftrightarrow> res = FRAME_DECODE_FRAME_READY) \<and> (\<forall>f. out = Some f \<longrightarrow> frame_fits f)"
proof -
  obtain r0 o0 where v: "validate_body (fd_dir d) (take (fd_len d) (fd_buf d)) = (r0, o0)" by fastforce
  show ?thesis
    using assms validate_body_sound [OF v]
    by (auto simp: frame_decoder_feed_def feed_end_def collect_byte_def fd_ok_def decoder_reset_body_def Let_def v)
qed

text \<open>
  C25. The decoder is safe on any input. Whatever bytes it is fed, it never leaves its buffer;
  a frame is delivered exactly with the answer FRAME_READY, and then its declared length is the
  length of its payload and at most 128.
\<close>

theorem decoder_safe:
  assumes "fd_ok d"
  shows "\<exists>xs d'. feed_all bs d = Ret (xs, d') \<and> fd_ok d' \<and> length xs = length bs \<and>
    list_all (\<lambda>(res, out). (out \<noteq> None) = (res = FRAME_DECODE_FRAME_READY) \<and> pred_option frame_fits out) xs"
  using assms
proof (induction bs arbitrary: d)
  case Nil
  then show ?case by (simp add: feed_all_Nil)
next
  case (Cons b bs)
  from feed_ok [OF Cons.prems, of b] obtain res out d1 where d1: "frame_decoder_feed b d = Ret ((res, out), d1)" "fd_ok d1"
    "(out \<noteq> None) = (res = FRAME_DECODE_FRAME_READY)" "\<forall>f. out = Some f \<longrightarrow> frame_fits f" by blast
  from Cons.IH [OF d1(2)] obtain xs d2 where d2: "feed_all bs d1 = Ret (xs, d2)" "fd_ok d2" "length xs = length bs"
    "list_all (\<lambda>(res, out). (out \<noteq> None) = (res = FRAME_DECODE_FRAME_READY) \<and> pred_option frame_fits out) xs" by blast
  have "pred_option frame_fits out" using d1(4) by (cases out) auto
  with feed_all_append [OF feed_all_one [OF d1(1)] d2(1)] d1 d2 show ?case by auto
qed

theorem decoder_safe_witness:
  "\<exists>xs d'. feed_all [0xC0, 0xDB, 0x00, 0xC0] (frame_decoder_init FRAME_DIR_S2M) = Ret (xs, d') \<and> fd_ok d' \<and> length xs = 4"
  using decoder_safe [of "frame_decoder_init FRAME_DIR_S2M" "[0xC0, 0xDB, 0x00, 0xC0]"]
  by (auto simp: frame_decoder_init_def fd_ok_def)

text \<open>Outside a frame everything but an END is passed over.\<close>

lemma feed_junk:
  assumes "waiting_end d" "FRAME_END \<notin> set bs"
  shows "feed_all bs d = Ret (replicate (length bs) need_more, d)"
  using assms
proof (induction bs)
  case (Cons b bs)
  then have "frame_decoder_feed b d = Ret (need_more, d)" by (auto simp: waiting_end_def frame_decoder_feed_def)
  from feed_all_append [OF feed_all_one [OF this]] Cons show ?case by fastforce
qed (simp add: feed_all_Nil)

lemma END_not_in_slips: "FRAME_END \<notin> set (concat (map slip bs))"
  by (induction bs) (auto simp: slip_def slip_consts)

text \<open>
  C22. The decoder finds its way back. In whatever state noise or a lost byte has left it, of two
  frames in a row the second one is always answered with what its own bytes validate to: at
  most one good frame is lost, and the decoder is outside a frame again.
\<close>

theorem decoder_resync:
  assumes "fd_ok d" "body1 \<noteq> []" "length body1 \<le> FRAME_BUFFER_MAX" "body2 \<noteq> []" "length body2 \<le> FRAME_BUFFER_MAX"
  shows "\<exists>xs d'. feed_all (wire body1 @ wire body2) d = Ret (xs @ [validate_body (fd_dir d) body2], d') \<and> waiting_end d'"
proof (cases "fd_in_frame d \<longrightarrow> fd_len d = 0")
  case True
  then obtain d1 xs where d1: "feed_all (wire body1) d = Ret (xs, d1)" "waiting_end d1" "fd_dir d1 = fd_dir d"
    using feed_wire [OF assms(1) _ assms(2,3)] by auto
  then obtain d2 ys where "feed_all (wire body2) d1 = Ret (ys @ [validate_body (fd_dir d) body2], d2)" "waiting_end d2"
    using feed_wire [of d1, OF _ _ assms(4,5)] by (auto simp: waiting_end_def)
  from feed_all_append [OF d1(1) this(1)] this(2) show ?thesis by auto
next
  case False
  let ?v = "validate_body (fd_dir d) (take (fd_len d) (fd_buf d))"
  let ?d1 = "decoder_reset_body (d \<lparr> fd_in_frame := False \<rparr>)"
  have feed: "frame_decoder_feed FRAME_END d = Ret (?v, ?d1)"
    using False assms(1) by (simp add: frame_decoder_feed_def feed_end_def fd_ok_def)
  have "waiting_end ?d1" "fd_dir ?d1 = fd_dir d"
    using assms(1) by (simp_all add: fd_ok_def decoder_reset_body_def waiting_end_def)
  then obtain d1 where d1: "feed_all [FRAME_END] d = Ret ([?v], d1)" "waiting_end d1" "fd_dir d1 = fd_dir d"
    using feed_all_one [OF feed] by blast
  let ?m = "concat (map slip body1)"
  have m: "feed_all ?m d1 = Ret (replicate (length ?m) need_more, d1)"
    by (rule feed_junk [OF d1(2) END_not_in_slips])
  obtain d2 where d2: "feed_all [FRAME_END] d1 = Ret ([need_more], d2)" "collecting [] d2" "fd_dir d2 = fd_dir d"
    using feed_leading [of d1] d1(2,3) by (auto simp: waiting_end_def)
  have w1: "feed_all (wire body1) d = Ret (?v # replicate (length ?m) need_more @ [need_more], d2)"
    using feed_all_append [OF d1(1) feed_all_append [OF m d2(1)]] by (simp add: wire_def)
  obtain d3 ys where "feed_all (wire body2) d2 = Ret (ys @ [validate_body (fd_dir d) body2], d3)" "waiting_end d3"
    using feed_wire [of d2, OF _ _ assms(4,5)] d2 by (auto simp: collecting_def)
  from feed_all_append [OF w1 this(1)] this(2) show ?thesis by auto
qed

theorem decoder_resync_witness:
  "\<exists>xs d'. feed_all (wire [1, 2, 3] @ wire (frame_body FRAME_DIR_M2S demo_meta [8, 9]))
     ((frame_decoder_init FRAME_DIR_M2S) \<lparr> fd_in_frame := True, fd_in_escape := True, fd_len := 4 \<rparr>) =
     Ret (xs @ [(FRAME_DECODE_FRAME_READY, Some (demo_meta \<lparr> fm_ack_seq := 0, fm_ack_status := 0 \<rparr>, [8, 9]))], d')"
proof -
  let ?d = "(frame_decoder_init FRAME_DIR_M2S) \<lparr> fd_in_frame := True, fd_in_escape := True, fd_len := 4 \<rparr>"
  let ?b = "frame_body FRAME_DIR_M2S demo_meta [8, 9]"
  have l: "length ?b = 8" by (simp add: frame_body_length hdr_len_of_def)
  then have "?b \<noteq> []" "length ?b \<le> FRAME_BUFFER_MAX" "fd_ok ?d" "fd_dir ?d = FRAME_DIR_M2S"
    by (auto simp: FRAME_BUFFER_MAX_def COMM_PAYLOAD_MAX_def fd_ok_def frame_decoder_init_def)
  moreover have "frame_fits (demo_meta, [8, 9])" by (simp add: frame_fits_def demo_meta_def COMM_PAYLOAD_MAX_def)
  ultimately show ?thesis
    using decoder_resync [of ?d "[1, 2, 3]" ?b] validate_frame [of demo_meta "[8, 9]" FRAME_DIR_M2S]
    by (auto simp: FRAME_BUFFER_MAX_def COMM_PAYLOAD_MAX_def received_def)
qed

section \<open>Encoder, ring and decoder together\<close>

definition send_frames :: "frame_dir \<Rightarrow> (frame_meta \<times> 8 word list) list \<Rightarrow> (frame_ring, int list) act" where
  "send_frames dir fs = mapA (\<lambda>(meta, payload). frame_encode_common meta payload dir) fs"

definition wire_of :: "frame_dir \<Rightarrow> frame_meta \<times> 8 word list \<Rightarrow> 8 word list" where
  "wire_of dir f = wire (frame_body dir (fst f) (snd f))"

definition delivered :: "decoded list \<Rightarrow> (frame_meta \<times> 8 word list) list" where
  "delivered xs = List.map_filter snd xs"

lemma delivered_simps [simp]: "delivered [] = []" "delivered (xs @ ys) = delivered xs @ delivered ys"
  "delivered (replicate n need_more) = []" "delivered ((res, out) # xs) = (case out of None \<Rightarrow> [] | Some f \<Rightarrow> [f]) @ delivered xs"
  by (induction n) (auto simp: delivered_def List.map_filter_def split: option.splits)

lemma send_one:
  assumes "ring_ok k r" "frame_fits f" "length (ring_elems r) + length (wire_of dir f) \<le> 2 ^ k"
  shows "\<exists>r'. frame_encode_common (fst f) (snd f) dir r = Ret (0, r') \<and> ring_ok k r' \<and>
    ring_elems r' = ring_elems r @ wire_of dir f"
  using frame_encode_atomic [OF assms(1), of "fst f" "length (snd f)" "snd f" dir] assms(2,3)
  by (auto simp: frame_fits_def wire_of_def COMM_PAYLOAD_MAX_def case_prod_beta simp del: length_ring_elems)

lemma send_frames_elems:
  assumes "ring_ok k r" "list_all frame_fits fs" "length (ring_elems r) + length (concat (map (wire_of dir) fs)) \<le> 2 ^ k"
  shows "\<exists>r'. send_frames dir fs r = Ret (replicate (length fs) 0, r') \<and> ring_ok k r' \<and>
    ring_elems r' = ring_elems r @ concat (map (wire_of dir) fs)"
  using assms
proof (induction fs arbitrary: r)
  case Nil
  then show ?case by (simp add: send_frames_def)
next
  case (Cons f fs)
  then obtain r1 where r1: "frame_encode_common (fst f) (snd f) dir r = Ret (0, r1)" "ring_ok k r1"
    "ring_elems r1 = ring_elems r @ wire_of dir f"
    using send_one [of k r f dir] by (auto simp del: length_ring_elems)
  with Cons.prems Cons.IH [OF r1(2)] obtain r2 where "send_frames dir fs r1 = Ret (replicate (length fs) 0, r2)"
    "ring_ok k r2" "ring_elems r2 = ring_elems r1 @ concat (map (wire_of dir) fs)"
    by (auto simp del: length_ring_elems)
  with r1 show ?case by (auto simp: send_frames_def case_prod_beta)
qed

lemma feed_frames:
  assumes "waiting_end d" "list_all frame_fits fs"
  shows "\<exists>xs d'. feed_all (concat (map (wire_of (fd_dir d)) fs)) d = Ret (xs, d') \<and> waiting_end d' \<and>
    delivered xs = map (\<lambda>(meta, payload). (received (fd_dir d) meta, payload)) fs"
  using assms
proof (induction fs arbitrary: d)
  case Nil
  then show ?case by (simp add: feed_all_Nil)
next
  case (Cons f fs)
  then obtain d1 where d1: "feed_all (wire_of (fd_dir d) f) d = Ret (replicate (length (wire_of (fd_dir d) f) - 1) need_more @
      [(FRAME_DECODE_FRAME_READY, Some (received (fd_dir d) (fst f), snd f))], d1)" "waiting_end d1" "fd_dir d1 = fd_dir d"
    using frame_roundtrip [of d "fst f" "snd f"] by (auto simp: waiting_end_def wire_of_def)
  from Cons.IH [OF d1(2)] Cons.prems(2) obtain xs d2 where d2:
    "feed_all (concat (map (wire_of (fd_dir d)) fs)) d1 = Ret (xs, d2)" "waiting_end d2"
    "delivered xs = map (\<lambda>(meta, payload). (received (fd_dir d) meta, payload)) fs" using d1(3) by auto
  from feed_all_append [OF d1(1) d2(1)] d2(2,3) show ?case by (auto simp: case_prod_beta)
qed

text \<open>
  C21. Encoder, ring and decoder deliver what is sent. Any list of frames whose bytes fit into the
  empty ring is accepted whole, frame by frame; draining the ring empties it, and feeding the
  drained bytes to a decoder of the same direction delivers exactly these frames, in order.
\<close>

theorem link_delivers:
  assumes "ring_ok k r" "ring_elems r = []" "list_all frame_fits fs"
    "length (concat (map (wire_of (fd_dir d)) fs)) \<le> 2 ^ k" "waiting_end d"
  shows "\<exists>r1 n bs r2 xs d'. send_frames (fd_dir d) fs r = Ret (replicate (length fs) 0, r1) \<and>
    frame_ring_read_drain 0xFFFFFFFF r1 = Ret ((n, bs), r2) \<and> ring_elems r2 = [] \<and>
    feed_all bs d = Ret (xs, d') \<and> delivered xs = map (\<lambda>(meta, payload). (received (fd_dir d) meta, payload)) fs"
proof -
  let ?bs = "concat (map (wire_of (fd_dir d)) fs)"
  obtain r1 where r1: "send_frames (fd_dir d) fs r = Ret (replicate (length fs) 0, r1)" "ring_ok k r1" "ring_elems r1 = ?bs"
    using send_frames_elems [OF assms(1,3), of "fd_dir d"] assms(2,4) by (auto simp del: length_ring_elems)
  have "unat (frame_ring_used r1) < 2 ^ LENGTH(32)" by (rule unsigned_less)
  then have "length ?bs = min (length (ring_elems r1)) (unat (0xFFFFFFFF :: 32 word))"
    unfolding r1(3) [symmetric] by simp
  from drain_elems [OF r1(2) this] obtain r2 where
    "frame_ring_read_drain 0xFFFFFFFF r1 = Ret ((of_nat (length ?bs), ?bs), r2)" "ring_elems r2 = []"
    unfolding r1(3) by auto
  with r1(1) feed_frames [OF assms(5,3)] show ?thesis by metis
qed

theorem link_delivers_witness:
  "\<exists>r1 n bs r2 xs d'. send_frames FRAME_DIR_S2M [(demo_meta, [0xC0, 8]), (idle_meta, [])] (frame_ring_init (replicate 64 0) 64) =
      Ret ([0, 0], r1) \<and> frame_ring_read_drain 0xFFFFFFFF r1 = Ret ((n, bs), r2) \<and>
    feed_all bs (frame_decoder_init FRAME_DIR_S2M) = Ret (xs, d') \<and>
    delivered xs = [(demo_meta, [0xC0, 8]), (idle_meta, [])]"
proof -
  let ?d = "frame_decoder_init FRAME_DIR_S2M" and ?fs = "[(demo_meta, [0xC0, 8]), (idle_meta, [])]"
  have d: "fd_dir ?d = FRAME_DIR_S2M" "waiting_end ?d"
    by (simp_all add: frame_decoder_init_def waiting_end_def fd_ok_def)
  have "length (concat (map (wire_of FRAME_DIR_S2M) ?fs)) \<le> 2 ^ 6"
    using wire_len [of "frame_body FRAME_DIR_S2M demo_meta [0xC0, 8]"] wire_len [of "frame_body FRAME_DIR_S2M idle_meta []"]
    by (simp add: wire_of_def frame_body_length hdr_len_of_def)
  moreover have "list_all frame_fits ?fs"
    by (simp add: frame_fits_def demo_meta_def idle_meta_def COMM_PAYLOAD_MAX_def)
  moreover have "ring_ok 6 (frame_ring_init (replicate 64 0) 64)" "ring_elems (frame_ring_init (replicate 64 0) 64) = []"
    using ring_elems_init [of 6 "replicate 64 0"] by simp_all
  ultimately show ?thesis
    using link_delivers [of 6 "frame_ring_init (replicate 64 0) 64" ?fs ?d] d
    by (simp add: received_def del: res_bind_Ret_iff) blast
qed

end
