(* ===== verification/Bus_Demux.thy ===== *)
theory Bus_Demux
  imports Bus_Frame "HOL-Library.Multiset"
begin

text \<open>
  The reply demultiplexer of the bus controller (\<open>linux/bus_controller/demux.c\<close>): it numbers
  the shell requests it sends over a link, keeps them in a table of 24 pending entries, and
  resolves each by its reply, by a timeout or by the loss of the link; every other frame goes
  to the event handler.

  What lies below the link seam and the clock are not part of this component. They are the
  fields of a \<open>port\<close>, acts on the whole state; \<open>env\<close> is the part of the state they own. The
  callbacks a client registers are names of type \<open>'cb\<close>; the code they stand for is the
  argument \<open>call\<close>, an act on the whole state, so that a callback may itself send requests, as
  the command tracker's does. A client extends the record with its own state.
\<close>

section \<open>State\<close>

record 'cb pending =
  pe_in_use :: bool
  pe_request_id :: "16 word"
  pe_cb :: "'cb option"
  pe_sent_ms :: "64 word"

record ('env, 'cb) demux =
  env :: 'env
  dx_next_id :: "32 word"
  dx_tx_seq :: "8 word"
  dx_pending :: "'cb pending list"

datatype link_state = LINK_DOWN | LINK_UP

type_synonym ('env, 'cb, 'z, 'a) dact = "(('env, 'cb, 'z) demux_scheme, 'a) act"

type_synonym bytes = "8 word list"

record 's port =
  link_send :: "frame_meta \<Rightarrow> bytes \<Rightarrow> ('s, int) act"
  mono_ms :: "('s, 64 word) act"
  on_event :: "(frame_meta \<Rightarrow> bytes option \<Rightarrow> ('s, unit) act) option"
  on_state :: "(link_state \<Rightarrow> ('s, unit) act) option"

type_synonym ('cb, 's) caller = "'cb \<Rightarrow> 16 word \<Rightarrow> 8 word \<Rightarrow> bytes \<Rightarrow> ('s, unit) act"

definition PENDING_MAX :: nat where "PENDING_MAX = 24"
definition OP_SHELL_REPLY :: "16 word" where "OP_SHELL_REPLY = 0x0011"
definition OP_SHELL_EXEC :: "16 word" where "OP_SHELL_EXEC = 0x0109"
definition OP_BUS_EXEC :: "16 word" where "OP_BUS_EXEC = 0x010B"
definition SHELL_EXEC_HDR :: nat where "SHELL_EXEC_HDR = 4"
definition BUS_EXEC_HDR :: nat where "BUS_EXEC_HDR = 6"
definition SHELL_REPLY_HDR :: nat where "SHELL_REPLY_HDR = 3"
definition DONGLE_ADDR :: "8 word" where "DONGLE_ADDR = 0"
definition DEMUX_STATUS_TIMEOUT :: "8 word" where "DEMUX_STATUS_TIMEOUT = 0xFF"
definition DEMUX_STATUS_LINK_DOWN :: "8 word" where "DEMUX_STATUS_LINK_DOWN = 0xFE"

definition free_entry :: "'cb pending" where
  "free_entry = \<lparr> pe_in_use = False, pe_request_id = 0, pe_cb = None, pe_sent_ms = 0 \<rparr>"

definition demux_create :: "'env \<Rightarrow> ('env, 'cb) demux" where
  "demux_create e = \<lparr> env = e, dx_next_id = 1, dx_tx_seq = 0, dx_pending = replicate PENDING_MAX free_entry \<rparr>"

section \<open>The pending table\<close>

text \<open>The first index of the table with the property, as the two search loops find it.\<close>

definition first_index :: "('a \<Rightarrow> bool) \<Rightarrow> 'a list \<Rightarrow> nat option" where
  "first_index P ps = (case filter (\<lambda>i. P (ps ! i)) [0..<length ps] of [] \<Rightarrow> None | i # _ \<Rightarrow> Some i)"

definition pending_find :: "16 word \<Rightarrow> ('env, 'cb, 'z) demux_scheme \<Rightarrow> nat option" where
  "pending_find rid s = first_index (\<lambda>p. pe_in_use p \<and> pe_request_id p = rid) (dx_pending s)"

definition pending_alloc :: "('env, 'cb, 'z) demux_scheme \<Rightarrow> nat option" where
  "pending_alloc s = first_index (\<lambda>p. \<not> pe_in_use p) (dx_pending s)"

text \<open>Freed before the callback runs, so that the callback may use the entry again.\<close>

definition resolve :: "('cb, ('env, 'cb, 'z) demux_scheme) caller \<Rightarrow> nat \<Rightarrow> 8 word \<Rightarrow> bytes \<Rightarrow> ('env, 'cb, 'z, unit) dact" where
  "resolve call i status result = (\<lambda>s.
     let p = dx_pending s ! i in
     seqA (modA (\<lambda>s. s \<lparr> dx_pending := (dx_pending s)[i := p \<lparr> pe_in_use := False \<rparr>] \<rparr>))
       (case pe_cb p of None \<Rightarrow> retA () | Some cb \<Rightarrow> call cb (pe_request_id p) status result) s)"

section \<open>Link endpoint handlers\<close>

definition le16 :: "8 word \<Rightarrow> 8 word \<Rightarrow> 16 word" where
  "le16 lo hi = ucast lo OR push_bit 8 (ucast hi)"

definition on_link_frame :: "('cb, ('env, 'cb, 'z) demux_scheme) caller \<Rightarrow> ('env, 'cb, 'z) demux_scheme port \<Rightarrow>
    frame_meta \<Rightarrow> bytes option \<Rightarrow> ('env, 'cb, 'z, unit) dact" where
  "on_link_frame call pt meta payload =
     (if fm_cmd meta = OP_SHELL_REPLY then
        case payload of
          None \<Rightarrow> retA ()
        | Some bs \<Rightarrow>
            if unat (fm_payload_len meta) < SHELL_REPLY_HDR then retA ()
            else if length bs < unat (fm_payload_len meta) then trapA (Fault ''payload read out of bounds'')
            else bindA (getA (pending_find (le16 (bs ! 0) (bs ! 1)))) (\<lambda>r. case r of
                None \<Rightarrow> retA ()
              | Some i \<Rightarrow> resolve call i (bs ! 2) (drop SHELL_REPLY_HDR (take (unat (fm_payload_len meta)) bs)))
      else case on_event pt of None \<Rightarrow> retA () | Some f \<Rightarrow> f meta payload)"

definition on_link_state :: "('cb, ('env, 'cb, 'z) demux_scheme) caller \<Rightarrow> ('env, 'cb, 'z) demux_scheme port \<Rightarrow>
    link_state \<Rightarrow> ('env, 'cb, 'z, unit) dact" where
  "on_link_state call pt state =
     seqA (if state = LINK_DOWN then
             eachA (\<lambda>i s. if pe_in_use (dx_pending s ! i) then resolve call i DEMUX_STATUS_LINK_DOWN [] s
               else Ret ((), s)) [0..<PENDING_MAX]
           else retA ())
     (case on_state pt of None \<Rightarrow> retA () | Some f \<Rightarrow> f state)"

section \<open>Sending\<close>

text \<open>The sweep of \<open>demux_poll\<close>; the pump of the endpoint before it is the link's own code.\<close>

definition sweep_timeouts :: "('cb, ('env, 'cb, 'z) demux_scheme) caller \<Rightarrow> ('env, 'cb, 'z) demux_scheme port \<Rightarrow>
    32 word \<Rightarrow> ('env, 'cb, 'z, unit) dact" where
  "sweep_timeouts call pt timeout_ms =
     (if timeout_ms \<noteq> 0 then
        bindA (mono_ms pt) (\<lambda>now.
        eachA (\<lambda>i s. if pe_in_use (dx_pending s ! i) \<and> now - pe_sent_ms (dx_pending s ! i) \<ge> ucast timeout_ms
          then resolve call i DEMUX_STATUS_TIMEOUT [] s else Ret ((), s)) [0..<PENDING_MAX])
      else retA ())"

definition demux_poll :: "('cb, ('env, 'cb, 'z) demux_scheme) caller \<Rightarrow> ('env, 'cb, 'z) demux_scheme port \<Rightarrow>
    ('env, 'cb, 'z, unit) dact \<Rightarrow> 32 word \<Rightarrow> ('env, 'cb, 'z, unit) dact" where
  "demux_poll call pt link_poll timeout_ms = seqA link_poll (sweep_timeouts call pt timeout_ms)"

definition send_frame_addr :: "('env, 'cb, 'z) demux_scheme port \<Rightarrow> 8 word \<Rightarrow> 16 word \<Rightarrow> bytes \<Rightarrow> ('env, 'cb, 'z, int) dact" where
  "send_frame_addr pt addr opc payload =
     bindA (getA dx_tx_seq) (\<lambda>seq.
     seqA (modA (\<lambda>s. s \<lparr> dx_tx_seq := seq + 1 \<rparr>))
     (link_send pt \<lparr> fm_addr = addr, fm_cmd = opc, fm_seq = seq, fm_ack_seq = 0, fm_ack_status = 0,
        fm_payload_len = of_nat (length payload) \<rparr> payload))"

definition demux_send_raw :: "('env, 'cb, 'z) demux_scheme port \<Rightarrow> 16 word \<Rightarrow> bytes \<Rightarrow> ('env, 'cb, 'z, int) dact" where
  "demux_send_raw pt opc payload = send_frame_addr pt DONGLE_ADDR opc payload"

definition lo8 :: "16 word \<Rightarrow> 8 word" where "lo8 w = ucast w"
definition hi8 :: "16 word \<Rightarrow> 8 word" where "hi8 w = ucast (drop_bit 8 w)"

text \<open>
  The two request senders differ in the header they put before the arguments. The guard is the
  code's: the length is truncated to 16 bits before it is compared, so that arguments of nearly
  65536 bytes pass it and overrun the 128-byte buffer on the stack.
\<close>

definition send_request :: "('env, 'cb, 'z) demux_scheme port \<Rightarrow> 8 word \<Rightarrow> 16 word \<Rightarrow> (16 word \<Rightarrow> bytes) \<Rightarrow> nat \<Rightarrow> bytes \<Rightarrow>
    'cb option \<Rightarrow> ('env, 'cb, 'z, 16 word) dact" where
  "send_request pt dest_addr opc header hdr_len args on_reply =
     (if u16 (hdr_len + length args) > COMM_PAYLOAD_MAX then retA 0xFFFF
      else bindA (getA pending_alloc) (\<lambda>r. case r of
          None \<Rightarrow> retA 0xFFFF
        | Some i \<Rightarrow>
            bindA (getA (\<lambda>s. ucast (dx_next_id s) :: 16 word)) (\<lambda>rid.
            seqA (modA (\<lambda>s. s \<lparr> dx_next_id := dx_next_id s + 1 \<rparr>))
            (if hdr_len + length args > COMM_PAYLOAD_MAX then trapA (Fault ''request buffer overrun'')
             else bindA (send_frame_addr pt dest_addr opc (header rid @ args)) (\<lambda>rc.
               if rc \<noteq> 0 then retA 0xFFFF
               else bindA (mono_ms pt) (\<lambda>now.
                 seqA (modA (\<lambda>s. s \<lparr> dx_pending := (dx_pending s)[i :=
                   \<lparr> pe_in_use = True, pe_request_id = rid, pe_cb = on_reply, pe_sent_ms = now \<rparr>] \<rparr>))
                 (retA rid)))))))"

definition demux_send_shell_to :: "('env, 'cb, 'z) demux_scheme port \<Rightarrow> 8 word \<Rightarrow> 16 word \<Rightarrow> bytes \<Rightarrow> 'cb option \<Rightarrow>
    ('env, 'cb, 'z, 16 word) dact" where
  "demux_send_shell_to pt dest_addr command_id args on_reply =
     send_request pt dest_addr OP_SHELL_EXEC (\<lambda>rid. [lo8 rid, hi8 rid, lo8 command_id, hi8 command_id])
       SHELL_EXEC_HDR args on_reply"

definition demux_send_shell :: "('env, 'cb, 'z) demux_scheme port \<Rightarrow> 16 word \<Rightarrow> bytes \<Rightarrow> 'cb option \<Rightarrow>
    ('env, 'cb, 'z, 16 word) dact" where
  "demux_send_shell pt command_id args on_reply = demux_send_shell_to pt DONGLE_ADDR command_id args on_reply"

definition demux_send_bus_exec :: "('env, 'cb, 'z) demux_scheme port \<Rightarrow> 8 word \<Rightarrow> 16 word \<Rightarrow> 16 word \<Rightarrow> bytes \<Rightarrow> 'cb option \<Rightarrow>
    ('env, 'cb, 'z, 16 word) dact" where
  "demux_send_bus_exec pt dest_addr command_id exec_timeout_ms args on_reply =
     send_request pt dest_addr OP_BUS_EXEC (\<lambda>rid. [lo8 exec_timeout_ms, hi8 exec_timeout_ms, lo8 rid, hi8 rid,
       lo8 command_id, hi8 command_id]) BUS_EXEC_HDR args on_reply"

section \<open>Ports and clients\<close>

text \<open>
  Hypotheses on the world below the seam. A \<open>quiet\<close> port keeps the contract that \<open>link_endpoint.h\<close> documents:
  a send or a reading of the clock returns, touches nothing of the demultiplexer or its client, and does not
  call back (callbacks fire from \<open>link_poll\<close>). A \<open>linked\<close> port may also do what \<open>usb_link.c\<close> does: a send whose
  write fails takes the link down, which calls the demultiplexer's \<open>on_link_state\<close> from inside \<open>link_send\<close>,
  and then returns. The client's own handlers leave the demultiplexer alone.
\<close>

definition quiet :: "('env, 'cb, 'z) demux_scheme port \<Rightarrow> bool" where
  "quiet pt = ((\<forall>m p s. \<exists>rc e. link_send pt m p s = Ret (rc, s \<lparr> env := e \<rparr>)) \<and>
     (\<forall>s. \<exists>t e. mono_ms pt s = Ret (t, s \<lparr> env := e \<rparr>)))"

lemma quiet_send: "quiet pt \<Longrightarrow> \<exists>rc e. link_send pt m p s = Ret (rc, s \<lparr> env := e \<rparr>)"
  and quiet_clock: "quiet pt \<Longrightarrow> \<exists>t e. mono_ms pt s = Ret (t, s \<lparr> env := e \<rparr>)"
  by (simp_all add: quiet_def)

definition handlers_apart :: "('env, 'cb, 'z) demux_scheme port \<Rightarrow> bool" where
  "handlers_apart pt = ((\<forall>f m p s. on_event pt = Some f \<longrightarrow> (\<exists>e. f m p s = Ret ((), s \<lparr> env := e \<rparr>))) \<and>
     (\<forall>f st s. on_state pt = Some f \<longrightarrow> (\<exists>e. f st s = Ret ((), s \<lparr> env := e \<rparr>))))"

definition linked :: "('cb, ('env, 'cb, 'z) demux_scheme) caller \<Rightarrow> ('env, 'cb, 'z) demux_scheme port \<Rightarrow> bool" where
  "linked call pt = (handlers_apart pt \<and>
     (\<forall>m p s. \<exists>rc e. link_send pt m p s = Ret (rc, s \<lparr> env := e \<rparr>) \<or>
        link_send pt m p s = seqA (on_link_state call pt LINK_DOWN) (retA rc) (s \<lparr> env := e \<rparr>)) \<and>
     (\<forall>s. \<exists>t e. mono_ms pt s = Ret (t, s \<lparr> env := e \<rparr>)))"

text \<open>A client that writes down every call of one of its callbacks; its callbacks send nothing.\<close>

record ('env, 'cb) logged = "('env, 'cb) demux" +
  dx_log :: "('cb \<times> 16 word \<times> 8 word \<times> bytes) list"

definition log_call :: "('cb, ('env, 'cb) logged) caller" where
  "log_call cb rid status result = modA (\<lambda>s. s \<lparr> dx_log := dx_log s @ [(cb, rid, status, result)] \<rparr>)"

datatype 'cb dx_op = Shell "8 word" "16 word" bytes 'cb | Bus_exec "8 word" "16 word" "16 word" bytes 'cb
  | Frame frame_meta "bytes option" | State link_state | Sweep "32 word"

text \<open>One operation; the requests it accepts, with the number the caller is given.\<close>

definition accept :: "'cb \<Rightarrow> (('env, 'cb) logged, 16 word) act \<Rightarrow> (('env, 'cb) logged, ('cb \<times> 16 word) list) act" where
  "accept cb m = bindA m (\<lambda>rid. retA (if rid = 0xFFFF then [] else [(cb, rid)]))"

fun dx_step :: "('env, 'cb) logged port \<Rightarrow> 'cb dx_op \<Rightarrow> (('env, 'cb) logged, ('cb \<times> 16 word) list) act" where
  "dx_step pt (Shell addr cmd args cb) = accept cb (demux_send_shell_to pt addr cmd args (Some cb))"
| "dx_step pt (Bus_exec addr cmd to args cb) = accept cb (demux_send_bus_exec pt addr cmd to args (Some cb))"
| "dx_step pt (Frame meta payload) = seqA (on_link_frame log_call pt meta payload) (retA [])"
| "dx_step pt (State st) = seqA (on_link_state log_call pt st) (retA [])"
| "dx_step pt (Sweep t) = seqA (sweep_timeouts log_call pt t) (retA [])"

definition dx_run :: "('env, 'cb) logged port \<Rightarrow> 'cb dx_op list \<Rightarrow> (('env, 'cb) logged, ('cb \<times> 16 word) list) act" where
  "dx_run pt ops = bindA (mapA (dx_step pt) ops) (\<lambda>xs. retA (concat xs))"

fun op_ok :: "'cb dx_op \<Rightarrow> bool" where
  "op_ok (Shell addr cmd args cb) = (length args < 65530)"
| "op_ok (Bus_exec addr cmd to args cb) = (length args < 65530)"
| "op_ok (Frame meta payload) = (case payload of None \<Rightarrow> True | Some bs \<Rightarrow> length bs = unat (fm_payload_len meta))"
| "op_ok _ = True"

fun sends :: "'cb dx_op \<Rightarrow> bool" where
  "sends (Shell addr cmd args cb) = True"
| "sends (Bus_exec addr cmd to args cb) = True"
| "sends _ = False"

section \<open>Every request is answered once\<close>

text \<open>The requests in the table and the requests resolved so far.\<close>

definition outstanding :: "('env, 'cb, 'z) demux_scheme \<Rightarrow> ('cb \<times> 16 word) multiset" where
  "outstanding s = image_mset (\<lambda>p. (the (pe_cb p), pe_request_id p)) (filter_mset pe_in_use (mset (dx_pending s)))"

definition answered :: "('env, 'cb) logged \<Rightarrow> ('cb \<times> 16 word) multiset" where
  "answered s = mset (map (\<lambda>(cb, rid, _). (cb, rid)) (dx_log s))"

text \<open>
  The invariant: \<open>n\<close> numbers have been given out, one after the other, and the requests
  accepted so far are the ones in the table and the ones resolved.
\<close>

definition dx_inv :: "nat \<Rightarrow> ('cb \<times> 16 word) list \<Rightarrow> ('env, 'cb) logged \<Rightarrow> bool" where
  "dx_inv n acc s = (length (dx_pending s) = PENDING_MAX \<and> unat (dx_next_id s) = n + 1 \<and>
     list_all (\<lambda>p. pe_in_use p \<longrightarrow> pe_cb p \<noteq> None) (dx_pending s) \<and>
     distinct (map snd acc) \<and> list_all (\<lambda>(cb, rid). unat rid \<le> n) acc \<and>
     mset acc = answered s + outstanding s)"

lemma first_index_Some:
  assumes "first_index P ps = Some i"
  shows "i < length ps" "P (ps ! i)"
proof -
  obtain js where js: "filter (\<lambda>i. P (ps ! i)) [0..<length ps] = i # js"
    using assms by (auto simp: first_index_def split: list.splits)
  have "i \<in> set (filter (\<lambda>i. P (ps ! i)) [0..<length ps])" unfolding js by simp
  then show "i < length ps" "P (ps ! i)" by auto
qed

lemma filter_mset_update:
  assumes "i < length xs"
  shows "add_mset (f y) (image_mset f (filter_mset P (mset (xs[i := x])))) + (if P (xs ! i) then {#f (xs ! i)#} else {#}) =
    add_mset (f y) (image_mset f (filter_mset P (mset xs))) + (if P x then {#f x#} else {#})"
proof -
  have "mset xs = add_mset (xs ! i) (mset (take i xs) + mset (drop (Suc i) xs))"
    by (subst id_take_nth_drop [OF assms]) simp
  moreover have "mset (xs[i := x]) = add_mset x (mset (take i xs) + mset (drop (Suc i) xs))"
    by (subst upd_conv_take_nth_drop [OF assms]) simp
  ultimately show ?thesis by auto
qed

lemma outstanding_set:
  assumes "i < length (dx_pending s)" "\<not> pe_in_use (dx_pending s ! i)" "pe_in_use p"
  shows "outstanding (s \<lparr> dx_pending := (dx_pending s)[i := p] \<rparr>) = add_mset (the (pe_cb p), pe_request_id p) (outstanding s)"
  using filter_mset_update [OF assms(1), where P = pe_in_use and f = "\<lambda>p. (the (pe_cb p), pe_request_id p)" and x = p and y = p] assms(2,3)
  by (simp add: outstanding_def)

lemma outstanding_clear:
  assumes "i < length (dx_pending s)" "pe_in_use (dx_pending s ! i)" "\<not> pe_in_use p"
  shows "outstanding s = add_mset (the (pe_cb (dx_pending s ! i)), pe_request_id (dx_pending s ! i))
    (outstanding (s \<lparr> dx_pending := (dx_pending s)[i := p] \<rparr>))"
  using filter_mset_update [OF assms(1), where P = pe_in_use and f = "\<lambda>p. (the (pe_cb p), pe_request_id p)" and x = p and y = p] assms(2,3)
  by (simp add: outstanding_def)

lemma resolve_inv:
  assumes "dx_inv n acc s" "i < PENDING_MAX" "pe_in_use (dx_pending s ! i)"
  defines "p \<equiv> dx_pending s ! i"
  shows "\<exists>s'. resolve log_call i status result s = Ret ((), s') \<and> dx_inv n acc s' \<and>
    dx_pending s' = (dx_pending s)[i := p \<lparr> pe_in_use := False \<rparr>] \<and>
    dx_log s' = dx_log s @ [(the (pe_cb p), pe_request_id p, status, result)]"
proof -
  have i: "i < length (dx_pending s)" using assms(1,2) by (simp add: dx_inv_def)
  obtain cb where cb: "pe_cb p = Some cb" using assms(1,3) i by (auto simp: dx_inv_def list_all_length p_def)
  let ?s = "s \<lparr> dx_pending := (dx_pending s)[i := p \<lparr> pe_in_use := False \<rparr>],
    dx_log := dx_log s @ [(cb, pe_request_id p, status, result)] \<rparr>"
  have out: "outstanding s = add_mset (cb, pe_request_id p) (outstanding ?s)"
    using outstanding_clear [of i s "p \<lparr> pe_in_use := False \<rparr>"] i assms(3) cb by (simp add: p_def outstanding_def)
  have "dx_inv n acc ?s"
    using assms(1,2) out by (auto simp: dx_inv_def answered_def list_all_length nth_list_update split: if_splits)
  then show ?thesis
    using cb by (simp add: resolve_def log_call_def p_def Let_def)
qed

text \<open>Resolving entries frees them and takes none.\<close>

definition frees :: "('env, 'cb, 'z) demux_scheme \<Rightarrow> ('env, 'cb, 'z) demux_scheme \<Rightarrow> bool" where
  "frees s s' = (\<forall>i < PENDING_MAX. pe_in_use (dx_pending s' ! i) \<longrightarrow> pe_in_use (dx_pending s ! i))"

lemma resolve_all_inv:
  fixes s :: "('env, 'cb) logged"
  assumes "dx_inv n acc s" and that: "\<And>(s :: ('env, 'cb) logged) i. C s i \<Longrightarrow> pe_in_use (dx_pending s ! i)"
  shows "\<exists>s'. eachA (\<lambda>i s. if C s i then resolve log_call i status [] s else Ret ((), s)) [0..<PENDING_MAX] s = Ret ((), s') \<and>
    dx_inv n acc s' \<and> frees s s'"
proof -
  have "\<exists>s'. eachA (\<lambda>i s. if C s i then resolve log_call i status [] s else Ret ((), s)) [0..<PENDING_MAX] s = Ret ((), s') \<and>
    (\<lambda>j t. dx_inv n acc t \<and> frees s t) (length [0..<PENDING_MAX]) s'"
  proof (rule eachA_invariant)
    fix j and t :: "('env, 'cb) logged" assume j: "j < length [0..<PENDING_MAX]" and t: "dx_inv n acc t \<and> frees s t"
    show "\<exists>s'. (if C t ([0..<PENDING_MAX] ! j) then resolve log_call ([0..<PENDING_MAX] ! j) status [] t else Ret ((), t)) =
        Ret ((), s') \<and> dx_inv n acc s' \<and> frees s s'"
    proof (cases "C t j")
      case True
      have len: "length (dx_pending t) = PENDING_MAX" using t by (simp add: dx_inv_def)
      from resolve_inv [of n acc t j status "[]"] that [OF True] j t obtain s' where
        "resolve log_call j status [] t = Ret ((), s')" "dx_inv n acc s'"
        "dx_pending s' = (dx_pending t)[j := (dx_pending t ! j) \<lparr> pe_in_use := False \<rparr>]" by auto
      then show ?thesis using True j t len by (auto simp: frees_def nth_list_update)
    qed (use j t in simp)
  qed (use assms(1) in \<open>simp add: frees_def\<close>)
  then show ?thesis by simp
qed

lemma dx_inv_env: "dx_inv n acc (s \<lparr> env := e \<rparr>) = dx_inv n acc s"
  by (simp add: dx_inv_def answered_def outstanding_def)

lemma dx_inv_seq: "dx_inv n acc (s \<lparr> dx_tx_seq := k \<rparr>) = dx_inv n acc s"
  by (simp add: dx_inv_def answered_def outstanding_def)

definition plain :: "('env, 'cb, 'z) demux_scheme port \<Rightarrow> bool" where
  "plain pt = (quiet pt \<and> on_event pt = None \<and> on_state pt = None)"

lemma plain_linked: "plain pt \<Longrightarrow> linked call pt"
  unfolding plain_def quiet_def linked_def handlers_apart_def by (metis option.distinct(1))

lemma linked_clock: "linked call pt \<Longrightarrow> \<exists>t e. mono_ms pt s = Ret (t, s \<lparr> env := e \<rparr>)"
  by (simp add: linked_def)

lemma frees_env: "frees s (t \<lparr> env := e \<rparr>) = frees s t" "frees (s \<lparr> env := e \<rparr>) t = frees s t"
  by (simp_all add: frees_def)

lemma link_state_inv:
  assumes "handlers_apart pt" "dx_inv n acc s"
  shows "\<exists>s'. on_link_state log_call pt st s = Ret ((), s') \<and> dx_inv n acc s' \<and> frees s s'"
proof -
  let ?sweep = "if st = LINK_DOWN then eachA (\<lambda>i s. if pe_in_use (dx_pending s ! i) then resolve log_call i DEMUX_STATUS_LINK_DOWN [] s
      else Ret ((), s)) [0..<PENDING_MAX] else retA ()"
  have "\<exists>s1. ?sweep s = Ret ((), s1) \<and> dx_inv n acc s1 \<and> frees s s1"
    using assms(2) resolve_all_inv [OF assms(2), of "\<lambda>s i. pe_in_use (dx_pending s ! i)" DEMUX_STATUS_LINK_DOWN]
    by (simp add: frees_def del: eachA.simps)
  then obtain s1 where 1: "?sweep s = Ret ((), s1)" "dx_inv n acc s1" "frees s s1" by blast
  show ?thesis
  proof (cases "on_state pt")
    case None
    then show ?thesis using 1 by (simp add: on_link_state_def del: if_act_app)
  next
    case (Some f)
    then obtain e where "f st s1 = Ret ((), s1 \<lparr> env := e \<rparr>)" using assms(1) unfolding handlers_apart_def by blast
    then show ?thesis using 1 Some by (simp add: on_link_state_def dx_inv_env frees_env del: if_act_app)
  qed
qed

lemma send_inv:
  assumes "linked log_call pt" "dx_inv n acc s"
  shows "\<exists>rc s'. link_send pt m p s = Ret (rc, s') \<and> dx_inv n acc s' \<and> frees s s'"
proof -
  obtain rc e where "link_send pt m p s = Ret (rc, s \<lparr> env := e \<rparr>) \<or>
      link_send pt m p s = seqA (on_link_state log_call pt LINK_DOWN) (retA rc) (s \<lparr> env := e \<rparr>)"
    using assms(1) unfolding linked_def by blast
  moreover have "dx_inv n acc (s \<lparr> env := e \<rparr>)" using assms(2) by (simp add: dx_inv_env)
  moreover from this obtain s1 where "on_link_state log_call pt LINK_DOWN (s \<lparr> env := e \<rparr>) = Ret ((), s1)" "dx_inv n acc s1" "frees s s1"
    using link_state_inv [of pt n acc "s \<lparr> env := e \<rparr>" LINK_DOWN] assms(1) by (auto simp: linked_def frees_env)
  ultimately show ?thesis by (auto simp: frees_def)
qed

text \<open>A request that fits takes the next number, and the entry that was free.\<close>

lemma enter_inv:
  assumes "dx_inv (n + 1) acc s" "i < PENDING_MAX" "\<not> pe_in_use (dx_pending s ! i)" "unat rid = n + 1" "list_all (\<lambda>(cb, r). unat r \<le> n) acc"
  shows "dx_inv (n + 1) (acc @ [(cb, rid)]) (s \<lparr> env := e, dx_pending := (dx_pending s)[i :=
    \<lparr> pe_in_use = True, pe_request_id = rid, pe_cb = Some cb, pe_sent_ms = t \<rparr>] \<rparr>)"
proof -
  let ?p = "\<lparr> pe_in_use = True, pe_request_id = rid, pe_cb = Some cb, pe_sent_ms = t \<rparr>"
  have i: "i < length (dx_pending s)" using assms(1,2) by (simp add: dx_inv_def)
  have "outstanding (s \<lparr> env := e, dx_pending := (dx_pending s)[i := ?p] \<rparr>) = add_mset (cb, rid) (outstanding s)"
    using outstanding_set [OF i assms(3), of ?p] by (simp add: outstanding_def)
  moreover have "rid \<notin> snd ` set acc" using assms(4,5) by (fastforce simp: list_all_iff)
  ultimately show ?thesis
    using assms(1,2,4) by (auto simp: dx_inv_def answered_def list_all_length nth_list_update nth_append list_all_iff)
qed

lemma send_request_inv:
  assumes "linked log_call pt" "dx_inv n acc s" "n < 65534" "hdr_len \<le> 6" "length args < 65530"
  shows "\<exists>rid s'. send_request pt addr opc header hdr_len args (Some cb) s = Ret (rid, s') \<and>
    (if rid = 0xFFFF then dx_inv n acc s' \<or> dx_inv (n + 1) acc s' else dx_inv (n + 1) (acc @ [(cb, rid)]) s')"
proof (cases "u16 (hdr_len + length args) > COMM_PAYLOAD_MAX \<or> pending_alloc s = None")
  case True
  then show ?thesis using assms(2) by (auto simp: send_request_def)
next
  case False
  then obtain i where i: "pending_alloc s = Some i" and fit: "\<not> hdr_len + length args > COMM_PAYLOAD_MAX"
    using assms(4,5) by (auto simp: u16_id)
  have lt: "i < PENDING_MAX" and free: "\<not> pe_in_use (dx_pending s ! i)"
    using first_index_Some [OF i [unfolded pending_alloc_def]] assms(2) by (simp_all add: dx_inv_def)
  let ?rid = "ucast (dx_next_id s) :: 16 word"
  have id: "unat (dx_next_id s) = n + 1" using assms(2) by (simp add: dx_inv_def)
  then have rid: "unat ?rid = n + 1" using assms(3) by (simp add: unsigned_ucast_eq take_bit_nat_eq_self)
  have nxt: "unat (dx_next_id s + 1) = n + 2" using id assms(3) by (simp add: unat_word_ariths)
  let ?s = "s \<lparr> dx_next_id := dx_next_id s + 1, dx_tx_seq := dx_tx_seq s + 1 \<rparr>"
  have "dx_inv (n + 1) acc ?s"
    using assms(2) nxt by (auto simp: dx_inv_def answered_def outstanding_def list_all_iff)
  from send_inv [OF assms(1) this] obtain rc s1 where
    snd: "link_send pt \<lparr> fm_addr = addr, fm_cmd = opc, fm_seq = dx_tx_seq s, fm_ack_seq = 0, fm_ack_status = 0,
      fm_payload_len = of_nat (length (header ?rid @ args)) \<rparr> (header ?rid @ args) ?s = Ret (rc, s1)"
    and s1: "dx_inv (n + 1) acc s1" "frees ?s s1" by blast
  obtain t e where clk: "mono_ms pt s1 = Ret (t, s1 \<lparr> env := e \<rparr>)" using linked_clock [OF assms(1), of s1] by blast
  have run: "send_request pt addr opc header hdr_len args (Some cb) s =
      (if rc \<noteq> 0 then Ret (0xFFFF, s1)
       else Ret (?rid, s1 \<lparr> env := e, dx_pending := (dx_pending s1)[i :=
         \<lparr> pe_in_use = True, pe_request_id = ?rid, pe_cb = Some cb, pe_sent_ms = t \<rparr>] \<rparr>))"
    using False fit i snd clk by (simp add: send_request_def send_frame_addr_def del: res_bind_Ret_iff)
  show ?thesis
  proof (cases "rc = 0")
    case False
    then show ?thesis unfolding run using s1(1) by simp
  next
    case True
    have ne: "?rid \<noteq> 0xFFFF" using rid assms(3) by (auto dest: arg_cong [of _ _ unat])
    have free1: "\<not> pe_in_use (dx_pending s1 ! i)" using s1(2) lt free by (auto simp: frees_def)
    have "list_all (\<lambda>(cb, r). unat r \<le> n) acc" using assms(2) by (simp add: dx_inv_def)
    from enter_inv [OF s1(1) lt free1 rid this] show ?thesis unfolding run using True ne by simp
  qed
qed

lemma accept_inv:
  assumes "linked log_call pt" "dx_inv n acc s" "n < 65534" "hdr_len \<le> 6" "length args < 65530"
  shows "\<exists>new s' m. accept cb (send_request pt addr opc header hdr_len args (Some cb)) s = Ret (new, s') \<and>
    dx_inv m (acc @ new) s' \<and> m \<le> n + 1"
proof -
  from send_request_inv [OF assms, of addr opc header cb] obtain rid s' where
    r: "send_request pt addr opc header hdr_len args (Some cb) s = Ret (rid, s')"
    "if rid = 0xFFFF then dx_inv n acc s' \<or> dx_inv (n + 1) acc s' else dx_inv (n + 1) (acc @ [(cb, rid)]) s'" by blast
  show ?thesis
  proof (cases "rid = 0xFFFF")
    case True
    with r show ?thesis by (auto simp: accept_def intro: le_SucI exI [of _ n] exI [of _ "Suc n"])
  next
    case False
    with r show ?thesis by (auto simp: accept_def intro: exI [of _ "Suc n"])
  qed
qed

lemma link_frame_inv:
  assumes "handlers_apart pt" "dx_inv n acc s" "case payload of None \<Rightarrow> True | Some bs \<Rightarrow> length bs = unat (fm_payload_len meta)"
  shows "\<exists>s'. on_link_frame log_call pt meta payload s = Ret ((), s') \<and> dx_inv n acc s'"
proof (cases "fm_cmd meta = OP_SHELL_REPLY")
  case False
  have "\<exists>e. f meta payload s = Ret ((), s \<lparr> env := e \<rparr>)" if "on_event pt = Some f" for f
    using assms(1) that by (auto simp: handlers_apart_def)
  then show ?thesis using False assms(2) dx_inv_env by (fastforce simp: on_link_frame_def split: option.splits)
next
  case reply: True
  show ?thesis
  proof (cases "pending_find (le16 (the payload ! 0) (the payload ! 1)) s")
    case None
    then show ?thesis using assms reply by (auto simp: on_link_frame_def not_less split: option.splits)
  next
    case (Some i)
    note f = first_index_Some [OF Some [unfolded pending_find_def]]
    have "i < PENDING_MAX" "pe_in_use (dx_pending s ! i)" using f assms(2) by (auto simp: dx_inv_def)
    from resolve_inv [OF assms(2) this] show ?thesis using Some assms reply
      by (fastforce simp: on_link_frame_def not_less split: option.splits)
  qed
qed

lemma dx_step_inv:
  assumes "linked log_call pt" "dx_inv n acc s" "op_ok op" "sends op \<longrightarrow> n < 65534"
  shows "\<exists>new s' m. dx_step pt op s = Ret (new, s') \<and> dx_inv m (acc @ new) s' \<and> m \<le> n + (if sends op then 1 else 0)"
proof (cases op)
  case (Shell addr cmd args cb)
  then show ?thesis using assms accept_inv [of pt n acc s SHELL_EXEC_HDR args]
    by (simp add: demux_send_shell_to_def SHELL_EXEC_HDR_def)
next
  case (Bus_exec addr cmd to args cb)
  then show ?thesis using assms accept_inv [of pt n acc s BUS_EXEC_HDR args]
    by (simp add: demux_send_bus_exec_def BUS_EXEC_HDR_def)
next
  case (Frame meta payload)
  then show ?thesis using assms link_frame_inv [where payload = payload and meta = meta and pt = pt and n = n and acc = acc and s = s] by (auto simp: linked_def)
next
  case (State st)
  then show ?thesis using assms link_state_inv [of pt n acc s st] by (auto simp: linked_def)
next
  case (Sweep t)
  obtain now e where clk: "mono_ms pt s = Ret (now, s \<lparr> env := e \<rparr>)" using linked_clock [OF assms(1), of s] by blast
  have "dx_inv n acc (s \<lparr> env := e \<rparr>)" using assms(2) by (simp add: dx_inv_env)
  from resolve_all_inv [OF this, of "\<lambda>s i. pe_in_use (dx_pending s ! i) \<and> now - pe_sent_ms (dx_pending s ! i) \<ge> ucast t" DEMUX_STATUS_TIMEOUT]
  show ?thesis using Sweep assms(2) clk by (auto simp: sweep_timeouts_def simp del: eachA.simps)
qed

lemma dx_run_inv:
  assumes "linked log_call pt" "dx_inv n acc s" "list_all op_ok ops" "n + length (filter sends ops) \<le> 65534"
  shows "\<exists>new s' m. dx_run pt ops s = Ret (new, s') \<and> dx_inv m (acc @ new) s'"
  using assms(2-)
proof (induction ops arbitrary: n acc s)
  case Nil
  then show ?case by (auto simp: dx_run_def)
next
  case (Cons op ops)
  have "op_ok op" "sends op \<longrightarrow> n < 65534" using Cons.prems(2,3) by auto
  from dx_step_inv [OF assms(1) Cons.prems(1) this] obtain new s1 m where
    s1: "dx_step pt op s = Ret (new, s1)" "dx_inv m (acc @ new) s1" "m \<le> n + (if sends op then 1 else 0)" by blast
  from Cons.IH [OF s1(2)] Cons.prems(2,3) s1(3) obtain new' s2 m' where
    "dx_run pt ops s1 = Ret (new', s2)" "dx_inv m' (acc @ new @ new') s2" by (auto split: if_splits)
  with s1(1) show ?case by (auto simp: dx_run_def)
qed

definition dx_start :: "'env \<Rightarrow> ('env, 'cb) logged" where
  "dx_start e = demux.extend (demux_create e) (logged.fields [])"

lemma dx_start_inv: "dx_inv 0 [] (dx_start e)"
  by (simp add: dx_inv_def dx_start_def demux_create_def demux.defs logged.defs free_entry_def answered_def
      outstanding_def list_all_iff)

text \<open>
  C26. Every request is answered exactly once. Take any run of requests (with arguments shorter than
  65530 bytes, at most 65534 of them, whose callbacks send nothing), inbound frames (well formed or not,
  known or not), link changes and timeout sweeps, over a link that takes or refuses each frame as it likes
  and may report its loss from inside a send, with event and state handlers that leave the demultiplexer
  alone. Every operation returns; the numbers handed out are all different, and the accepted requests are,
  one by one, those whose callback has been called (with its own number) and those still in the table, of
  which there are at most 24. Nothing is lost and no callback is called twice.
\<close>

theorem demux_exactly_once:
  assumes "linked log_call pt" "list_all op_ok ops" "length (filter sends ops) \<le> 65534"
  shows "\<exists>acc s'. dx_run pt ops (dx_start e) = Ret (acc, s') \<and> distinct (map snd acc) \<and>
    mset acc = answered s' + outstanding s' \<and> size (outstanding s') \<le> 24"
proof -
  obtain acc s' m where r: "dx_run pt ops (dx_start e) = Ret (acc, s')" "dx_inv m acc s'"
    using dx_run_inv [OF assms(1) dx_start_inv [of e] assms(2)] assms(3) by auto
  have "size (outstanding s') \<le> size (mset (dx_pending s'))"
    unfolding outstanding_def size_image_mset by (rule size_filter_mset_lesseq)
  then have "size (outstanding s') \<le> 24" using r(2) by (simp add: dx_inv_def PENDING_MAX_def)
  with r show ?thesis by (auto simp: dx_inv_def)
qed

text \<open>A port that takes every frame and whose clock stands still.\<close>

definition demo_port :: "(unit, nat) logged port" where
  "demo_port = \<lparr> link_send = (\<lambda>m p. retA 0), mono_ms = retA 5, on_event = None, on_state = None \<rparr>"

lemma demo_port_plain: "plain demo_port"
  by (auto simp: plain_def quiet_def demo_port_def intro: exI [of _ "()"])

text \<open>A port over which the write of every longer frame fails: the loss is reported and the send answers 0.\<close>

definition dropping_port :: "(unit, nat) logged port" where
  "dropping_port = demo_port \<lparr> link_send := (\<lambda>m p. if length p > 6 then seqA (on_link_state log_call demo_port LINK_DOWN) (retA 0) else retA 0) \<rparr>"

lemma dropping_port_linked: "linked log_call dropping_port"
proof -
  have "on_link_state log_call dropping_port = on_link_state log_call demo_port"
    by (simp add: fun_eq_iff on_link_state_def dropping_port_def)
  then have send: "link_send dropping_port m p s =
      (if length p > 6 then seqA (on_link_state log_call dropping_port LINK_DOWN) (retA 0) s else Ret (0, s))" for m p s
    by (simp add: dropping_port_def)
  have same: "s \<lparr> env := () \<rparr> = s" for s :: "(unit, nat) logged" by simp
  have "\<exists>rc e. link_send dropping_port m p s = Ret (rc, s \<lparr> env := e \<rparr>) \<or>
      link_send dropping_port m p s = seqA (on_link_state log_call dropping_port LINK_DOWN) (retA rc) (s \<lparr> env := e \<rparr>)" for m p s
    by (rule exI [of _ 0], rule exI [of _ "()"]) (simp only: send same split: if_split, simp)
  moreover have "mono_ms dropping_port s = Ret (5, s \<lparr> env := () \<rparr>)" for s by (simp add: dropping_port_def demo_port_def)
  moreover have "handlers_apart dropping_port" by (simp add: handlers_apart_def dropping_port_def demo_port_def)
  ultimately show ?thesis unfolding linked_def by blast
qed

definition demo_ops :: "nat dx_op list" where
  "demo_ops = [Shell 0 7 [] 100, Bus_exec 3 8 50 [1] 101, Frame \<lparr> fm_addr = 0, fm_cmd = OP_SHELL_REPLY, fm_seq = 0,
     fm_ack_seq = 0, fm_ack_status = 0, fm_payload_len = 4 \<rparr> (Some [2, 0, 0, 9]), State LINK_DOWN]"

theorem demux_exactly_once_witness:
  "\<exists>acc s'. dx_run dropping_port demo_ops (dx_start ()) = Ret (acc, s') \<and> distinct (map snd acc) \<and>
    mset acc = answered s' + outstanding s'"
  using demux_exactly_once [OF dropping_port_linked, of demo_ops "()"] by (auto simp: demo_ops_def)

text \<open>
  The cost of the loss inside a send: the request whose write failed is accepted and entered in the
  table after the loss has been reported, so that nothing but a timeout or a second loss answers it.
\<close>

lemma lost_request_stays:
  "\<exists>s'. dx_run dropping_port [Bus_exec 3 8 50 [1] 101] (dx_start ()) = Ret ([(101, 1)], s') \<and>
     dx_log s' = [] \<and> (101, 1) \<in># outstanding s'"
proof -
  have e: "eachA (\<lambda>i s. if pe_in_use (dx_pending s ! i) then resolve log_call i DEMUX_STATUS_LINK_DOWN [] s else Ret ((), s)) is
      (s :: (unit, nat) logged) = Ret ((), s)" if "\<forall>i \<in> set is. \<not> pe_in_use (dx_pending s ! i)" for "is" s
    using that by (induction "is") simp_all
  have p: "pending_alloc (dx_start () :: (unit, nat) logged) = Some 0"
    by (simp add: pending_alloc_def first_index_def dx_start_def demux_create_def demux.defs logged.defs
        PENDING_MAX_def eval_nat_numeral free_entry_def upt_rec)
  have f: "\<not> pe_in_use (dx_pending (dx_start () :: (unit, nat) logged) ! i)" if "i < PENDING_MAX" for i
    using that by (simp add: dx_start_def demux_create_def demux.defs logged.defs free_entry_def)
  let ?s = "(dx_start () :: (unit, nat) logged) \<lparr> dx_next_id := 2, dx_tx_seq := 1 \<rparr>"
  have st: "dx_next_id (dx_start () :: (unit, nat) logged) = 1" "dx_tx_seq (dx_start () :: (unit, nat) logged) = 0"
    "dx_log (dx_start () :: (unit, nat) logged) = []" "length (dx_pending (dx_start () :: (unit, nat) logged)) = PENDING_MAX"
    by (simp_all add: dx_start_def demux_create_def demux.defs logged.defs)
  have down: "on_link_state log_call demo_port LINK_DOWN ?s = Ret ((), ?s)"
    using e [of "[0..<PENDING_MAX]" ?s] f by (simp add: on_link_state_def demo_port_def del: eachA.simps)
  let ?p = "\<lparr> pe_in_use = True, pe_request_id = 1, pe_cb = Some 101, pe_sent_ms = 5 \<rparr>"
  have run: "demux_send_bus_exec dropping_port 3 8 50 [1] (Some 101) (dx_start ()) = Ret (1, ?s \<lparr> dx_pending := (dx_pending ?s)[0 := ?p] \<rparr>)"
    using p st down by (simp add: demux_send_bus_exec_def send_request_def send_frame_addr_def dropping_port_def BUS_EXEC_HDR_def
        COMM_PAYLOAD_MAX_def u16_id demo_port_def del: res_bind_Ret_iff)
  have "outstanding (?s \<lparr> dx_pending := (dx_pending ?s)[0 := ?p] \<rparr>) = add_mset (101, 1) (outstanding ?s)"
    using outstanding_set [of 0 ?s ?p] f [of 0] st by (simp add: PENDING_MAX_def)
  then show ?thesis using run st by (simp add: dx_run_def accept_def)
qed

section \<open>Which request a frame answers\<close>

lemma le16_bytes: "le16 (lo8 w) (hi8 w) = w"
  by (rule bit_word_eqI) (auto simp: le16_def lo8_def hi8_def bit_simps not_less)

lemma first_index_None: "first_index P ps = None \<longleftrightarrow> (\<forall>i < length ps. \<not> P (ps ! i))"
proof (cases "first_index P ps")
  case None
  then show ?thesis by (auto simp: first_index_def filter_empty_conv split: list.splits)
next
  case (Some i)
  then show ?thesis using first_index_Some [OF Some] by auto
qed

lemma outstanding_in: "x \<in># outstanding s \<longleftrightarrow>
    (\<exists>i < length (dx_pending s). pe_in_use (dx_pending s ! i) \<and>
      x = (the (pe_cb (dx_pending s ! i)), pe_request_id (dx_pending s ! i)))"
  by (auto simp: outstanding_def in_set_conv_nth)

lemma outstanding_unique:
  assumes "dx_inv n acc s" "(cb, rid) \<in># outstanding s" "(cb', rid) \<in># outstanding s"
  shows "cb' = cb"
proof -
  have "set_mset (mset acc) = set_mset (answered s + outstanding s)" using assms(1) by (simp add: dx_inv_def)
  then have "(cb, rid) \<in> set acc" "(cb', rid) \<in> set acc" using assms(2,3) by auto
  moreover have "inj_on snd (set acc)" using assms(1) by (simp add: dx_inv_def distinct_map)
  ultimately show ?thesis using inj_onD [of snd "set acc" "(cb, rid)" "(cb', rid)"] by auto
qed

text \<open>
  A reply resolves the request it names and no other. Whatever requests are in the table, a
  SHELL_REPLY frame with the number of one of them calls that request's callback, once, with the
  status and the bytes of the frame, and takes it out of the table; with any other number it is
  dropped and nothing changes.
\<close>

theorem reply_resolves:
  assumes "dx_inv n acc s" "fm_cmd meta = OP_SHELL_REPLY" "unat (fm_payload_len meta) = length payload"
    "payload = lo8 rid # hi8 rid # status # result"
  shows "(\<forall>cb. (cb, rid) \<in># outstanding s \<longrightarrow>
      (\<exists>s'. on_link_frame log_call pt meta (Some payload) s = Ret ((), s') \<and>
        dx_log s' = dx_log s @ [(cb, rid, status, result)] \<and> outstanding s = add_mset (cb, rid) (outstanding s'))) \<and>
    ((\<forall>cb. (cb, rid) \<notin># outstanding s) \<longrightarrow> on_link_frame log_call pt meta (Some payload) s = Ret ((), s))"
proof (intro conjI allI impI)
  have run: "on_link_frame log_call pt meta (Some payload) s =
      (case pending_find rid s of None \<Rightarrow> Ret ((), s) | Some i \<Rightarrow> resolve log_call i status result s)"
    using assms(2,3) by (simp add: assms(4) on_link_frame_def SHELL_REPLY_HDR_def le16_bytes split: option.split)
  {
    assume "\<forall>cb. (cb, rid) \<notin># outstanding s"
    then have "pending_find rid s = None"
      by (auto simp: pending_find_def first_index_None outstanding_in)
    then show "on_link_frame log_call pt meta (Some payload) s = Ret ((), s)" by (simp add: run)
  next
    fix cb assume cb: "(cb, rid) \<in># outstanding s"
    then obtain i where i: "pending_find rid s = Some i"
      by (cases "pending_find rid s") (auto simp: pending_find_def first_index_None outstanding_in)
    note f = first_index_Some [OF i [unfolded pending_find_def]]
    have "(the (pe_cb (dx_pending s ! i)), rid) \<in># outstanding s" using f by (auto simp: outstanding_in)
    then have this_cb: "the (pe_cb (dx_pending s ! i)) = cb" by (rule outstanding_unique [OF assms(1) cb])
    have lt: "i < PENDING_MAX" using f assms(1) by (simp add: dx_inv_def)
    from f(2) resolve_inv [OF assms(1) lt, of status result] obtain s' where
      s': "resolve log_call i status result s = Ret ((), s')"
      "dx_pending s' = (dx_pending s)[i := (dx_pending s ! i) \<lparr> pe_in_use := False \<rparr>]"
      "dx_log s' = dx_log s @ [(cb, rid, status, result)]" using this_cb by auto
    have "outstanding s = add_mset (cb, rid) (outstanding s')"
      using outstanding_clear [OF f(1), of "(dx_pending s ! i) \<lparr> pe_in_use := False \<rparr>"] f(2) s'(2) this_cb
      by (simp add: outstanding_def)
    then show "\<exists>s'. on_link_frame log_call pt meta (Some payload) s = Ret ((), s') \<and>
        dx_log s' = dx_log s @ [(cb, rid, status, result)] \<and> outstanding s = add_mset (cb, rid) (outstanding s')"
      using s'(1,3) by (simp add: run i)
  }
qed

definition demo_pending :: "(unit, nat) logged" where
  "demo_pending = (dx_start ()) \<lparr> dx_next_id := 8, dx_pending := (replicate PENDING_MAX free_entry)
     [3 := \<lparr> pe_in_use = True, pe_request_id = 7, pe_cb = Some 42, pe_sent_ms = 0 \<rparr>] \<rparr>"

lemma demo_pending_inv: "dx_inv 7 [(42, 7)] demo_pending" "outstanding demo_pending = {#(42, 7)#}"
proof -
  show o: "outstanding demo_pending = {#(42, 7)#}"
    by (simp add: demo_pending_def outstanding_def PENDING_MAX_def eval_nat_numeral free_entry_def)
  have "list_all (\<lambda>p. pe_in_use p \<longrightarrow> pe_cb p \<noteq> None) (dx_pending demo_pending)"
    by (simp add: demo_pending_def PENDING_MAX_def eval_nat_numeral free_entry_def)
  then show "dx_inv 7 [(42, 7)] demo_pending"
    by (simp add: dx_inv_def o) (simp add: demo_pending_def dx_start_def demux_create_def answered_def demux.defs logged.defs)
qed

theorem reply_resolves_witness:
  "\<exists>s'. on_link_frame log_call demo_port \<lparr> fm_addr = 0, fm_cmd = OP_SHELL_REPLY, fm_seq = 0, fm_ack_seq = 0,
     fm_ack_status = 0, fm_payload_len = 4 \<rparr> (Some [7, 0, 0, 9]) demo_pending = Ret ((), s') \<and>
     dx_log s' = [(42, 7, 0, [9])]"
proof -
  let ?m = "\<lparr> fm_addr = 0, fm_cmd = OP_SHELL_REPLY, fm_seq = 0, fm_ack_seq = 0, fm_ack_status = 0, fm_payload_len = 4 \<rparr>"
  have bs: "[7, 0, 0, 9] = lo8 7 # hi8 7 # 0 # [9]" by (simp add: lo8_def hi8_def)
  have m: "fm_cmd ?m = OP_SHELL_REPLY" "unat (fm_payload_len ?m) = length [7 :: 8 word, 0, 0, 9]" by simp_all
  have "(42, 7) \<in># outstanding demo_pending" by (simp add: demo_pending_inv(2))
  then obtain s' where "on_link_frame log_call demo_port ?m (Some [7, 0, 0, 9]) demo_pending = Ret ((), s')"
    "dx_log s' = dx_log demo_pending @ [(42, 7, 0, [9])]"
    using reply_resolves [OF demo_pending_inv(1) m bs] by blast
  then show ?thesis
    by (simp add: demo_pending_def dx_start_def demux_create_def demux.defs logged.defs)
qed

text \<open>
  The loss of the link answers everything. When the link goes down, every request in the
  table is resolved, each once, with LINK_DOWN and no bytes, and the table is empty.
\<close>

theorem link_down_answers_all:
  assumes "dx_inv n acc s" "on_state pt = None"
  shows "\<exists>new s'. on_link_state log_call pt LINK_DOWN s = Ret ((), s') \<and> outstanding s' = {#} \<and>
    dx_log s' = dx_log s @ new \<and> mset (map (\<lambda>(cb, rid, _). (cb, rid)) new) = outstanding s \<and>
    list_all (\<lambda>(_, _, status, result). status = DEMUX_STATUS_LINK_DOWN \<and> result = []) new"
proof -
  let ?body = "\<lambda>i s. if pe_in_use (dx_pending s ! i) then resolve log_call i DEMUX_STATUS_LINK_DOWN [] s else Ret ((), s)"
  let ?I = "\<lambda>j t. dx_inv n acc t \<and> (\<forall>k < j. \<not> pe_in_use (dx_pending t ! k)) \<and>
    (\<exists>new. dx_log t = dx_log s @ new \<and> list_all (\<lambda>(_, _, status, result). status = DEMUX_STATUS_LINK_DOWN \<and> result = []) new)"
  have "\<exists>s'. eachA ?body [0..<PENDING_MAX] s = Ret ((), s') \<and> ?I (length [0..<PENDING_MAX]) s'"
  proof (rule eachA_invariant)
    fix j t assume j: "j < length [0..<PENDING_MAX]" and I: "?I j t"
    show "\<exists>s'. ?body ([0..<PENDING_MAX] ! j) t = Ret ((), s') \<and> ?I (Suc j) s'"
    proof (cases "pe_in_use (dx_pending t ! j)")
      case False
      then show ?thesis using j I by (auto simp: less_Suc_eq)
    next
      case True
      have lt: "j < PENDING_MAX" using j by simp
      from resolve_inv [OF conjunct1 [OF I] lt True, of DEMUX_STATUS_LINK_DOWN "[]"] obtain t' where
        t': "resolve log_call j DEMUX_STATUS_LINK_DOWN [] t = Ret ((), t')" "dx_inv n acc t'"
        "dx_pending t' = (dx_pending t)[j := (dx_pending t ! j) \<lparr> pe_in_use := False \<rparr>]"
        "dx_log t' = dx_log t @ [(the (pe_cb (dx_pending t ! j)), pe_request_id (dx_pending t ! j), DEMUX_STATUS_LINK_DOWN, [])]"
        by blast
      have len: "length (dx_pending t) = PENDING_MAX" using I by (simp add: dx_inv_def)
      show ?thesis using True j lt I t' len by (auto simp: less_Suc_eq nth_list_update)
    qed
  qed (use assms(1) in auto)
  then obtain s' new where s': "eachA ?body [0..<PENDING_MAX] s = Ret ((), s')" "dx_inv n acc s'"
    "\<forall>k < PENDING_MAX. \<not> pe_in_use (dx_pending s' ! k)" "dx_log s' = dx_log s @ new"
    "list_all (\<lambda>(_, _, status, result). status = DEMUX_STATUS_LINK_DOWN \<and> result = []) new" by auto
  have len: "length (dx_pending s') = PENDING_MAX" using s'(2) by (simp add: dx_inv_def)
  have empty: "outstanding s' = {#}"
    using s'(3) outstanding_in [of _ s'] len by (metis multiset_nonemptyE)
  have "answered s' = answered s + mset (map (\<lambda>(cb, rid, _). (cb, rid)) new)" by (simp add: answered_def s'(4))
  then have "mset (map (\<lambda>(cb, rid, _). (cb, rid)) new) = outstanding s"
    using s'(2) assms(1) empty by (simp add: dx_inv_def)
  then show ?thesis using s' empty assms(2) by (auto simp: on_link_state_def)
qed

theorem link_down_answers_all_witness:
  "\<exists>new s'. on_link_state log_call demo_port LINK_DOWN demo_pending = Ret ((), s') \<and> outstanding s' = {#} \<and>
     mset (map (\<lambda>(cb, rid, _). (cb, rid)) new) = {#(42, 7)#} \<and> dx_log s' = dx_log demo_pending @ new"
  using link_down_answers_all [OF demo_pending_inv(1), of demo_port] by (auto simp: demo_port_def demo_pending_inv(2))

section \<open>Sending, for any client\<close>

text \<open>The table after a request: one entry for its callback, or nothing new.\<close>

definition table_step :: "'cb option \<Rightarrow> 'cb pending list \<Rightarrow> 'cb pending list \<Rightarrow> bool" where
  "table_step cb ps ps' = (ps' = ps \<or> (\<exists>j r t. ps' = ps[j := \<lparr> pe_in_use = True, pe_request_id = r, pe_cb = cb, pe_sent_ms = t \<rparr>]))"

lemma table_step_refl: "table_step cb ps ps"
  and table_step_set: "table_step cb ps (ps[j := \<lparr> pe_in_use = True, pe_request_id = r, pe_cb = cb, pe_sent_ms = t \<rparr>])"
  by (auto simp: table_step_def)

lemma table_step_all:
  assumes "table_step cb ps ps'" "list_all P ps" "\<And>r t. P \<lparr> pe_in_use = True, pe_request_id = r, pe_cb = cb, pe_sent_ms = t \<rparr>"
  shows "list_all P ps' \<and> length ps' = length ps"
  using assms by (auto simp: table_step_def list_all_iff dest!: set_update_subset_insert [THEN subsetD])

text \<open>Over a quiet port a request returns and changes nothing of the client's part of the state.\<close>

lemma send_request_total:
  assumes "quiet pt" "hdr_len \<le> 6" "length args < 65530"
  shows "\<exists>rid e n q ps. send_request pt addr opc header hdr_len args cb s =
    Ret (rid, s \<lparr> env := e, dx_next_id := n, dx_tx_seq := q, dx_pending := ps \<rparr>) \<and>
    table_step cb (dx_pending s) ps"
proof (cases "u16 (hdr_len + length args) > COMM_PAYLOAD_MAX \<or> pending_alloc s = None")
  case True
  then have "send_request pt addr opc header hdr_len args cb s = Ret (0xFFFF, s)" by (auto simp: send_request_def)
  moreover have "s = s \<lparr> env := env s, dx_next_id := dx_next_id s, dx_tx_seq := dx_tx_seq s, dx_pending := dx_pending s \<rparr>"
    by simp
  ultimately show ?thesis using table_step_refl [of cb "dx_pending s"] by metis
next
  case False
  then obtain i where i: "pending_alloc s = Some i" and fit: "\<not> hdr_len + length args > COMM_PAYLOAD_MAX"
    using assms(2,3) by (auto simp: u16_id)
  let ?rid = "ucast (dx_next_id s) :: 16 word"
  let ?s = "s \<lparr> dx_next_id := dx_next_id s + 1, dx_tx_seq := dx_tx_seq s + 1 \<rparr>"
  obtain rc e where snd: "link_send pt \<lparr> fm_addr = addr, fm_cmd = opc, fm_seq = dx_tx_seq s, fm_ack_seq = 0, fm_ack_status = 0,
      fm_payload_len = of_nat (length (header ?rid @ args)) \<rparr> (header ?rid @ args) ?s = Ret (rc, ?s \<lparr> env := e \<rparr>)"
    using quiet_send [OF assms(1)] by blast
  obtain t e' where clk: "mono_ms pt (?s \<lparr> env := e \<rparr>) = Ret (t, ?s \<lparr> env := e' \<rparr>)"
    using quiet_clock [OF assms(1), of "?s \<lparr> env := e \<rparr>"] by auto
  let ?ps = "(dx_pending s)[i := \<lparr> pe_in_use = True, pe_request_id = ?rid, pe_cb = cb, pe_sent_ms = t \<rparr>]"
  have run: "send_request pt addr opc header hdr_len args cb s =
      (if rc \<noteq> 0 then Ret (0xFFFF, ?s \<lparr> env := e, dx_pending := dx_pending s \<rparr>)
       else Ret (?rid, ?s \<lparr> env := e', dx_pending := ?ps \<rparr>))"
    using False fit i snd clk by (simp add: send_request_def send_frame_addr_def del: res_bind_Ret_iff)
  show ?thesis
  proof (cases "rc = 0")
    case True
    then show ?thesis unfolding run
      by (intro exI [of _ ?rid] exI [of _ e'] exI [of _ "dx_next_id s + 1"] exI [of _ "dx_tx_seq s + 1"] exI [of _ ?ps])
        (simp add: table_step_set)
  next
    case False
    then show ?thesis unfolding run
      by (intro exI [of _ "0xFFFF"] exI [of _ e] exI [of _ "dx_next_id s + 1"] exI [of _ "dx_tx_seq s + 1"]
        exI [of _ "dx_pending s"]) (simp add: table_step_refl)
  qed
qed

text \<open>
  The numbers do not last for ever. The request that gets the number 0xFFFF, the 65535th, is
  reported as failed although it has been sent and stands in the table: its callback will be
  called for a request its sender believes was never made.
\<close>

theorem last_request_id_reported_failed:
  assumes "quiet pt" "\<forall>m p s. \<exists>e. link_send pt m p s = Ret (0, s \<lparr> env := e \<rparr>)" "pending_alloc s = Some i"
    "ucast (dx_next_id s) = (0xFFFF :: 16 word)" "length args \<le> 100"
  shows "\<exists>s'. demux_send_bus_exec pt addr cmd to args (Some cb) s = Ret (0xFFFF, s') \<and> (cb, 0xFFFF) \<in># outstanding s'"
proof -
  let ?s = "s \<lparr> dx_next_id := dx_next_id s + 1, dx_tx_seq := dx_tx_seq s + 1 \<rparr>"
  let ?bs = "[lo8 to, hi8 to, lo8 0xFFFF, hi8 0xFFFF, lo8 cmd, hi8 cmd] @ args"
  obtain e where snd: "link_send pt \<lparr> fm_addr = addr, fm_cmd = OP_BUS_EXEC, fm_seq = dx_tx_seq s, fm_ack_seq = 0,
      fm_ack_status = 0, fm_payload_len = of_nat (length ?bs) \<rparr> ?bs ?s = Ret (0, ?s \<lparr> env := e \<rparr>)"
    using assms(2) by blast
  obtain t e' where clk: "mono_ms pt (?s \<lparr> env := e \<rparr>) = Ret (t, ?s \<lparr> env := e' \<rparr>)"
    using quiet_clock [OF assms(1), of "?s \<lparr> env := e \<rparr>"] by auto
  let ?p = "\<lparr> pe_in_use = True, pe_request_id = 0xFFFF, pe_cb = Some cb, pe_sent_ms = t \<rparr>"
  have len: "u16 (6 + length args) \<le> 128" "6 + length args \<le> 128" using assms(5) by (simp_all add: u16_id)
  have "demux_send_bus_exec pt addr cmd to args (Some cb) s = Ret (0xFFFF, ?s \<lparr> env := e', dx_pending := (dx_pending s)[i := ?p] \<rparr>)"
    using assms(3,4) len snd clk
    by (simp add: demux_send_bus_exec_def send_request_def send_frame_addr_def BUS_EXEC_HDR_def COMM_PAYLOAD_MAX_def
        del: res_bind_Ret_iff)
  moreover have "outstanding (?s \<lparr> env := e', dx_pending := (dx_pending s)[i := ?p] \<rparr>) = add_mset (cb, 0xFFFF) (outstanding s)"
    using outstanding_set [OF first_index_Some [OF assms(3) [unfolded pending_alloc_def]], of ?p] by (simp add: outstanding_def)
  ultimately show ?thesis by simp
qed

theorem last_request_id_reported_failed_witness:
  "\<exists>s'. demux_send_bus_exec demo_port 3 8 50 [] (Some 9) ((dx_start ()) \<lparr> dx_next_id := 0xFFFF \<rparr>) = Ret (0xFFFF, s') \<and>
     (9, 0xFFFF) \<in># outstanding s'"
proof (rule last_request_id_reported_failed)
  show "quiet demo_port" using demo_port_plain by (simp add: plain_def)
  show "\<forall>m p s. \<exists>e. link_send demo_port m p s = Ret (0, s \<lparr> env := e \<rparr>)"
    by (auto simp: demo_port_def intro: exI [of _ "()"])
  show "pending_alloc ((dx_start ()) \<lparr> dx_next_id := 0xFFFF \<rparr>) = Some 0"
    by (simp add: pending_alloc_def first_index_def dx_start_def demux_create_def demux.defs logged.defs
        PENDING_MAX_def eval_nat_numeral free_entry_def upt_rec)
qed simp_all

end
