(* ===== verification/Bus_Tracker.thy ===== *)
theory Bus_Tracker
  imports Bus_Demux
begin

text \<open>
  The command tracker of the bus controller (\<open>linux/bus_controller/cmd_tracker.c\<close>): per slave
  a queue of five commands and one command in flight, sent through the demultiplexer,
  acknowledged, resent, timed out and completed by a callback of the client.

  The tracker's state extends the demultiplexer's. Its reply callback is the one the tracker
  registers there, with the slot as its user pointer; the client's completion callbacks are
  names of type \<open>'d\<close>, and the code they stand for is the argument \<open>on_done\<close>.
\<close>

section \<open>State\<close>

datatype cmd_slot_state = CMD_SLOT_IDLE | CMD_SLOT_SENT | CMD_SLOT_INFLIGHT | CMD_SLOT_FAULTED

record 'd cmd_entry =
  ce_handle :: "32 word"
  ce_command_id :: "16 word"
  ce_exec_timeout_ms :: "32 word"
  ce_on_done :: "'d option"
  ce_args :: bytes

record 'd slot =
  sl_in_use :: bool
  sl_addr :: "8 word"
  sl_state :: cmd_slot_state
  sl_q :: "'d cmd_entry list"
  sl_qh :: nat
  sl_qn :: nat
  sl_has_inflight :: bool
  sl_inflight :: "'d cmd_entry"
  sl_inflight_rid :: "16 word"
  sl_sent_ms :: "64 word"
  sl_ack_ms :: "64 word"
  sl_retries :: nat
  sl_il_known :: bool
  sl_il_flags :: "8 word"
  sl_faulted :: bool
  sl_il_msg :: bytes
  sl_il_msg_len :: nat
  sl_il_msg_count :: "32 word"

datatype 'o reply_cb = On_tracker_reply nat | Other_reply 'o

record ('env, 'o, 'd) tracker = "('env, 'o reply_cb) demux" +
  ct_slots :: "'d slot list"
  ct_next_handle :: "32 word"
  ct_now :: "64 word"
  ct_total_acks :: "32 word"

type_synonym ('env, 'o, 'd, 'z, 'a) tact = "(('env, 'o, 'd, 'z) tracker_scheme, 'a) act"
type_synonym ('d, 's) done_fn = "'d \<Rightarrow> 32 word \<Rightarrow> 8 word \<Rightarrow> 8 word \<Rightarrow> bytes \<Rightarrow> ('s, unit) act"

definition SLOT_MAX :: nat where "SLOT_MAX = 16"
definition CMD_QUEUE_DEPTH :: nat where "CMD_QUEUE_DEPTH = 5"
definition CMD_ARG_MAX :: nat where "CMD_ARG_MAX = 96"
definition CMD_IL_MSG_MAX :: nat where "CMD_IL_MSG_MAX = 64"
definition ACK_TIMEOUT_MS :: "64 word" where "ACK_TIMEOUT_MS = 1500"
definition MAX_ACK_RETRIES :: nat where "MAX_ACK_RETRIES = 2"
definition EXEC_MARGIN_MS :: "64 word" where "EXEC_MARGIN_MS = 1000"
definition CMD_STATUS_BUSY :: "8 word" where "CMD_STATUS_BUSY = 0xFD"

definition zero_entry :: "'d cmd_entry" where
  "zero_entry = \<lparr> ce_handle = 0, ce_command_id = 0, ce_exec_timeout_ms = 0, ce_on_done = None, ce_args = [] \<rparr>"

text \<open>\<open>clear_slot\<close>: every field zero, and the slot idle; the owner pointer is the tracker itself.\<close>

definition clear_slot :: "'d slot" where
  "clear_slot = \<lparr> sl_in_use = False, sl_addr = 0, sl_state = CMD_SLOT_IDLE, sl_q = replicate CMD_QUEUE_DEPTH zero_entry,
     sl_qh = 0, sl_qn = 0, sl_has_inflight = False, sl_inflight = zero_entry, sl_inflight_rid = 0, sl_sent_ms = 0,
     sl_ack_ms = 0, sl_retries = 0, sl_il_known = False, sl_il_flags = 0, sl_faulted = False,
     sl_il_msg = replicate CMD_IL_MSG_MAX 0, sl_il_msg_len = 0, sl_il_msg_count = 0 \<rparr>"

definition cmd_tracker_create :: "'env \<Rightarrow> ('env, 'o, 'd) tracker" where
  "cmd_tracker_create e = demux.extend (demux_create e)
     (tracker.fields (replicate SLOT_MAX clear_slot) 1 0 0)"

definition upd_slot :: "nat \<Rightarrow> ('d slot \<Rightarrow> 'd slot) \<Rightarrow> ('env, 'o, 'd, 'z, unit) tact" where
  "upd_slot i f = modA (\<lambda>s. s \<lparr> ct_slots := (ct_slots s)[i := f (ct_slots s ! i)] \<rparr>)"

definition slot_for :: "8 word \<Rightarrow> ('env, 'o, 'd, 'z) tracker_scheme \<Rightarrow> nat option" where
  "slot_for addr s = first_index (\<lambda>sl. sl_in_use sl \<and> sl_addr sl = addr) (ct_slots s)"

section \<open>Sending and completing\<close>

definition complete_inflight :: "('d, ('env, 'o, 'd, 'z) tracker_scheme) done_fn \<Rightarrow> nat \<Rightarrow> 8 word \<Rightarrow> bytes \<Rightarrow>
    ('env, 'o, 'd, 'z, unit) tact" where
  "complete_inflight on_done i status result = (\<lambda>s.
     let sl = ct_slots s ! i; e = sl_inflight sl in
     if \<not> sl_has_inflight sl then Ret ((), s)
     else seqA (upd_slot i (\<lambda>sl. sl \<lparr> sl_has_inflight := False, sl_inflight_rid := 0, sl_state := CMD_SLOT_IDLE \<rparr>))
       (case ce_on_done e of None \<Rightarrow> retA () | Some d \<Rightarrow> on_done d (ce_handle e) (sl_addr sl) status result) s)"

definition wire_timeout :: "32 word \<Rightarrow> 16 word" where
  "wire_timeout t = (if t > 0xFFFF then 0xFFFF else ucast t)"

definition send_inflight :: "('env, 'o, 'd, 'z) tracker_scheme port \<Rightarrow> nat \<Rightarrow> ('env, 'o, 'd, 'z, int) tact" where
  "send_inflight pt i = (\<lambda>s.
     let sl = ct_slots s ! i; e = sl_inflight sl in
     bindA (demux_send_bus_exec pt (sl_addr sl) (ce_command_id e) (wire_timeout (ce_exec_timeout_ms e)) (ce_args e)
       (Some (On_tracker_reply i))) (\<lambda>rid.
     bindA (getA ct_now) (\<lambda>now.
     seqA (upd_slot i (\<lambda>sl. sl \<lparr> sl_sent_ms := now \<rparr>))
     (if rid = 0xFFFF then retA (-1)
      else seqA (upd_slot i (\<lambda>sl. sl \<lparr> sl_inflight_rid := rid, sl_state := CMD_SLOT_SENT, sl_ack_ms := 0 \<rparr>)) (retA 0)))) s)"

definition pump_slot :: "('env, 'o, 'd, 'z) tracker_scheme port \<Rightarrow> nat \<Rightarrow> ('env, 'o, 'd, 'z, unit) tact" where
  "pump_slot pt i = (\<lambda>s.
     let sl = ct_slots s ! i in
     if sl_faulted sl then Ret ((), s)
     else if sl_state sl \<noteq> CMD_SLOT_IDLE \<or> sl_qn sl = 0 then Ret ((), s)
     else if length (sl_q sl) \<le> sl_qh sl then Trap (Fault ''command queue read out of bounds'')
     else seqA (upd_slot i (\<lambda>sl. sl \<lparr> sl_inflight := sl_q sl ! sl_qh sl, sl_has_inflight := True, sl_retries := 0 \<rparr>))
       (bindA (send_inflight pt i) (\<lambda>rc.
        if rc \<noteq> 0 then upd_slot i (\<lambda>sl. sl \<lparr> sl_has_inflight := False \<rparr>)
        else upd_slot i (\<lambda>sl. sl \<lparr> sl_qh := (sl_qh sl + 1) mod CMD_QUEUE_DEPTH, sl_qn := sl_qn sl - 1 \<rparr>))) s)"

definition on_tracker_reply :: "('d, ('env, 'o, 'd, 'z) tracker_scheme) done_fn \<Rightarrow> ('env, 'o, 'd, 'z) tracker_scheme port \<Rightarrow>
    nat \<Rightarrow> 16 word \<Rightarrow> 8 word \<Rightarrow> bytes \<Rightarrow> ('env, 'o, 'd, 'z, unit) tact" where
  "on_tracker_reply on_done pt i rid status result = (\<lambda>s.
     let sl = ct_slots s ! i in
     if \<not> sl_has_inflight sl \<or> rid \<noteq> sl_inflight_rid sl then Ret ((), s)
     else seqA (complete_inflight on_done i status result) (pump_slot pt i) s)"

text \<open>The code the demultiplexer's callbacks stand for.\<close>

definition reply_call :: "('d, ('env, 'o, 'd, 'z) tracker_scheme) done_fn \<Rightarrow> ('env, 'o, 'd, 'z) tracker_scheme port \<Rightarrow>
    ('o, ('env, 'o, 'd, 'z) tracker_scheme) caller \<Rightarrow> ('o reply_cb, ('env, 'o, 'd, 'z) tracker_scheme) caller" where
  "reply_call on_done pt other cb rid status result = (case cb of
     On_tracker_reply i \<Rightarrow> on_tracker_reply on_done pt i rid status result
   | Other_reply o1 \<Rightarrow> other o1 rid status result)"

section \<open>Operations\<close>

definition drop_queued :: "('d, ('env, 'o, 'd, 'z) tracker_scheme) done_fn \<Rightarrow> nat \<Rightarrow> 8 word \<Rightarrow>
    ('env, 'o, 'd, 'z, unit) tact" where
  "drop_queued on_done i abort_status = (\<lambda>s.
     let sl = ct_slots s ! i; e = sl_q sl ! sl_qh sl in
     if length (sl_q sl) \<le> sl_qh sl then Trap (Fault ''command queue read out of bounds'')
     else seqA (case ce_on_done e of None \<Rightarrow> retA () | Some d \<Rightarrow> on_done d (ce_handle e) (sl_addr sl) abort_status [])
       (upd_slot i (\<lambda>sl. sl \<lparr> sl_qh := (sl_qh sl + 1) mod CMD_QUEUE_DEPTH, sl_qn := sl_qn sl - 1 \<rparr>)) s)"

text \<open>
  The loop over the queue ends unless a completion callback submits again; the fuel is one
  iteration per entry, which is enough when it does not.
\<close>

fun drop_all_queued :: "nat \<Rightarrow> ('d, ('env, 'o, 'd, 'z) tracker_scheme) done_fn \<Rightarrow> nat \<Rightarrow> 8 word \<Rightarrow>
    ('env, 'o, 'd, 'z, unit) tact" where
  "drop_all_queued fuel on_done i abort_status = (\<lambda>s.
     if sl_qn (ct_slots s ! i) > 0 then
       (case fuel of 0 \<Rightarrow> Diverge
        | Suc n \<Rightarrow> seqA (drop_queued on_done i abort_status) (drop_all_queued n on_done i abort_status) s)
     else Ret ((), s))"

definition cmd_tracker_reset :: "('d, ('env, 'o, 'd, 'z) tracker_scheme) done_fn \<Rightarrow> 8 word \<Rightarrow> ('env, 'o, 'd, 'z, unit) tact" where
  "cmd_tracker_reset on_done abort_status =
     eachA (\<lambda>i s. if sl_in_use (ct_slots s ! i)
       then seqA (complete_inflight on_done i abort_status [])
         (seqA (drop_all_queued CMD_QUEUE_DEPTH on_done i abort_status) (upd_slot i (\<lambda>_. clear_slot))) s
       else Ret ((), s)) [0..<SLOT_MAX]"

definition cmd_tracker_add_slave :: "8 word \<Rightarrow> ('env, 'o, 'd, 'z, int) tact" where
  "cmd_tracker_add_slave addr = (\<lambda>s.
     if slot_for addr s \<noteq> None then Ret (0, s)
     else case first_index (\<lambda>sl. \<not> sl_in_use sl) (ct_slots s) of
         None \<Rightarrow> Ret (-1, s)
       | Some i \<Rightarrow> seqA (upd_slot i (\<lambda>_. clear_slot \<lparr> sl_in_use := True, sl_addr := addr \<rparr>)) (retA 0) s)"

definition cmd_tracker_submit :: "('env, 'o, 'd, 'z) tracker_scheme port \<Rightarrow> 8 word \<Rightarrow> 16 word \<Rightarrow> bytes \<Rightarrow> 32 word \<Rightarrow> 'd option \<Rightarrow>
    ('env, 'o, 'd, 'z, 32 word) tact" where
  "cmd_tracker_submit pt addr command_id args exec_timeout_ms cb = (\<lambda>s.
     if length args > CMD_ARG_MAX then Ret (0, s)
     else case slot_for addr s of
         None \<Rightarrow> Ret (0, s)
       | Some i \<Rightarrow>
           if sl_qn (ct_slots s ! i) \<ge> CMD_QUEUE_DEPTH then Ret (0, s)
           else let handle = ct_next_handle s; tail = (sl_qh (ct_slots s ! i) + sl_qn (ct_slots s ! i)) mod CMD_QUEUE_DEPTH;
               e = \<lparr> ce_handle = handle, ce_command_id = command_id, ce_exec_timeout_ms = exec_timeout_ms,
                 ce_on_done = cb, ce_args = args \<rparr>
             in seqA (modA (\<lambda>s. s \<lparr> ct_next_handle := handle + 1 \<rparr>))
               (seqA (upd_slot i (\<lambda>sl. sl \<lparr> sl_q := (sl_q sl)[tail := e], sl_qn := sl_qn sl + 1 \<rparr>))
               (seqA (pump_slot pt i) (retA handle))) s)"

text \<open>The slot that waits for the acknowledgement of \<open>req_id\<close>.\<close>

definition awaiting_ack :: "8 word \<Rightarrow> 16 word \<Rightarrow> ('env, 'o, 'd, 'z) tracker_scheme \<Rightarrow> nat option" where
  "awaiting_ack addr req_id s = (case slot_for addr s of
     None \<Rightarrow> None
   | Some i \<Rightarrow> if sl_state (ct_slots s ! i) \<noteq> CMD_SLOT_SENT \<or> sl_inflight_rid (ct_slots s ! i) \<noteq> req_id then None else Some i)"

definition cmd_tracker_on_ack :: "8 word \<Rightarrow> 16 word \<Rightarrow> ('env, 'o, 'd, 'z, unit) tact" where
  "cmd_tracker_on_ack addr req_id = (\<lambda>s. case awaiting_ack addr req_id s of
     None \<Rightarrow> Ret ((), s)
   | Some i \<Rightarrow> seqA (upd_slot i (\<lambda>sl. sl \<lparr> sl_state := CMD_SLOT_INFLIGHT, sl_ack_ms := ct_now s, sl_retries := 0 \<rparr>))
       (modA (\<lambda>s. s \<lparr> ct_total_acks := ct_total_acks s + 1 \<rparr>)) s)"

text \<open>Resend up to the cap, else give up with the status and go on with the queue.\<close>

definition resend_or_fail :: "('d, ('env, 'o, 'd, 'z) tracker_scheme) done_fn \<Rightarrow> ('env, 'o, 'd, 'z) tracker_scheme port \<Rightarrow>
    nat \<Rightarrow> 8 word \<Rightarrow> ('env, 'o, 'd, 'z, unit) tact" where
  "resend_or_fail on_done pt i status = (\<lambda>s.
     if sl_retries (ct_slots s ! i) < MAX_ACK_RETRIES
     then seqA (upd_slot i (\<lambda>sl. sl \<lparr> sl_retries := sl_retries sl + 1 \<rparr>)) (seqA (send_inflight pt i) (retA ())) s
     else seqA (complete_inflight on_done i status []) (pump_slot pt i) s)"

definition cmd_tracker_on_nak :: "('d, ('env, 'o, 'd, 'z) tracker_scheme) done_fn \<Rightarrow> ('env, 'o, 'd, 'z) tracker_scheme port \<Rightarrow>
    8 word \<Rightarrow> 16 word \<Rightarrow> ('env, 'o, 'd, 'z, unit) tact" where
  "cmd_tracker_on_nak on_done pt addr req_id = (\<lambda>s. case awaiting_ack addr req_id s of
     None \<Rightarrow> Ret ((), s)
   | Some i \<Rightarrow> resend_or_fail on_done pt i CMD_STATUS_BUSY s)"

definition cmd_tracker_on_flagged :: "('env, 'o, 'd, 'z) tracker_scheme port \<Rightarrow> 8 word \<Rightarrow> 8 word \<Rightarrow> ('env, 'o, 'd, 'z, unit) tact" where
  "cmd_tracker_on_flagged pt addr flags = (\<lambda>s. case slot_for addr s of
     None \<Rightarrow> Ret ((), s)
   | Some i \<Rightarrow>
       let tripped = (flags AND 1 \<noteq> 0); was = sl_faulted (ct_slots s ! i) in
       seqA (upd_slot i (\<lambda>sl. sl \<lparr> sl_il_known := True, sl_il_flags := flags, sl_faulted := tripped \<rparr>))
         (if was \<and> \<not> tripped then pump_slot pt i else retA ()) s)"

definition cmd_tracker_on_interlock_msg :: "8 word \<Rightarrow> bytes option \<Rightarrow> nat \<Rightarrow> ('env, 'o, 'd, 'z, unit) tact" where
  "cmd_tracker_on_interlock_msg addr msg len = (\<lambda>s. case slot_for addr s of
     None \<Rightarrow> Ret ((), s)
   | Some i \<Rightarrow> let n = min len CMD_IL_MSG_MAX in
       upd_slot i (\<lambda>sl. sl \<lparr>
         sl_il_msg := (case msg of None \<Rightarrow> sl_il_msg sl | Some m \<Rightarrow> take n m @ drop n (sl_il_msg sl)),
         sl_il_msg_len := n, sl_il_msg_count := sl_il_msg_count sl + 1 \<rparr>) s)"

text \<open>The poll's turn of one slot.\<close>

definition poll_slot :: "('d, ('env, 'o, 'd, 'z) tracker_scheme) done_fn \<Rightarrow> ('env, 'o, 'd, 'z) tracker_scheme port \<Rightarrow>
    64 word \<Rightarrow> nat \<Rightarrow> ('env, 'o, 'd, 'z, unit) tact" where
  "poll_slot on_done pt now_ms i = (\<lambda>s. let sl = ct_slots s ! i in
     if \<not> sl_in_use sl then Ret ((), s)
     else if sl_state sl = CMD_SLOT_SENT \<and> now_ms - sl_sent_ms sl \<ge> ACK_TIMEOUT_MS
       then resend_or_fail on_done pt i DEMUX_STATUS_TIMEOUT s
     else if sl_state sl = CMD_SLOT_INFLIGHT then
       if now_ms - sl_ack_ms sl \<ge> ucast (ce_exec_timeout_ms (sl_inflight sl)) + EXEC_MARGIN_MS
       then seqA (complete_inflight on_done i DEMUX_STATUS_TIMEOUT []) (pump_slot pt i) s
       else Ret ((), s)
     else if sl_state sl = CMD_SLOT_IDLE then pump_slot pt i s
     else Ret ((), s))"

definition cmd_tracker_poll :: "('d, ('env, 'o, 'd, 'z) tracker_scheme) done_fn \<Rightarrow> ('env, 'o, 'd, 'z) tracker_scheme port \<Rightarrow>
    64 word \<Rightarrow> ('env, 'o, 'd, 'z, unit) tact" where
  "cmd_tracker_poll on_done pt now_ms =
     seqA (modA (\<lambda>s. s \<lparr> ct_now := now_ms \<rparr>)) (eachA (poll_slot on_done pt now_ms) [0..<SLOT_MAX])"

section \<open>Observers\<close>

definition cmd_tracker_interlock_msg :: "('env, 'o, 'd, 'z) tracker_scheme \<Rightarrow> 8 word \<Rightarrow> nat \<Rightarrow> bytes \<times> 32 word option" where
  "cmd_tracker_interlock_msg s addr cap = (case slot_for addr s of
     None \<Rightarrow> ([], None)
   | Some i \<Rightarrow> let sl = ct_slots s ! i in (take (min (sl_il_msg_len sl) cap) (sl_il_msg sl), Some (sl_il_msg_count sl)))"

definition cmd_tracker_interlock :: "('env, 'o, 'd, 'z) tracker_scheme \<Rightarrow> 8 word \<Rightarrow> (bool \<times> 8 word) option" where
  "cmd_tracker_interlock s addr = (case slot_for addr s of
     None \<Rightarrow> None
   | Some i \<Rightarrow> let sl = ct_slots s ! i in
       if \<not> sl_il_known sl then None else Some (sl_il_flags sl AND 1 \<noteq> 0, sl_il_flags sl))"

definition cmd_tracker_state :: "('env, 'o, 'd, 'z) tracker_scheme \<Rightarrow> 8 word \<Rightarrow> cmd_slot_state" where
  "cmd_tracker_state s addr = (case slot_for addr s of
     None \<Rightarrow> CMD_SLOT_IDLE
   | Some i \<Rightarrow> let sl = ct_slots s ! i in if sl_faulted sl then CMD_SLOT_FAULTED else sl_state sl)"

definition cmd_tracker_qdepth :: "('env, 'o, 'd, 'z) tracker_scheme \<Rightarrow> 8 word \<Rightarrow> nat" where
  "cmd_tracker_qdepth s addr = (case slot_for addr s of None \<Rightarrow> 0 | Some i \<Rightarrow> sl_qn (ct_slots s ! i))"

definition cmd_tracker_total_acks :: "('env, 'o, 'd, 'z) tracker_scheme \<Rightarrow> 32 word" where
  "cmd_tracker_total_acks s = ct_total_acks s"

section \<open>What a slot holds\<close>

text \<open>The commands of a slot in the order they were submitted: the one in flight, then the queue.\<close>

definition entries :: "'d slot \<Rightarrow> 'd cmd_entry list" where
  "entries sl = (if sl_has_inflight sl then [sl_inflight sl] else []) @ ring_list (sl_q sl) (sl_qh sl) (sl_qn sl)"

definition entry_ok :: "'d cmd_entry \<Rightarrow> bool" where
  "entry_ok e = (ce_on_done e \<noteq> None \<and> length (ce_args e) \<le> CMD_ARG_MAX)"

definition slot_ok :: "'d slot \<Rightarrow> bool" where
  "slot_ok sl = (length (sl_q sl) = CMD_QUEUE_DEPTH \<and> sl_qh sl < CMD_QUEUE_DEPTH \<and> sl_qn sl \<le> CMD_QUEUE_DEPTH \<and>
     sl_has_inflight sl = (sl_state sl \<noteq> CMD_SLOT_IDLE) \<and> sl_state sl \<noteq> CMD_SLOT_FAULTED \<and>
     sl_retries sl \<le> MAX_ACK_RETRIES \<and> (\<not> sl_in_use sl \<longrightarrow> entries sl = []) \<and> list_all entry_ok (entries sl))"

text \<open>The command queue of a slot is a queue.\<close>

type_synonym 'd ring = "'d cmd_entry list \<times> nat \<times> nat"

definition cq_ok :: "'d ring \<Rightarrow> bool" where
  "cq_ok = (\<lambda>(q, qh, qn). length q = CMD_QUEUE_DEPTH \<and> qh < CMD_QUEUE_DEPTH \<and> qn \<le> CMD_QUEUE_DEPTH)"

definition cq_elems :: "'d ring \<Rightarrow> 'd cmd_entry list" where
  "cq_elems = (\<lambda>(q, qh, qn). ring_list q qh qn)"

definition cq_push :: "'d cmd_entry \<Rightarrow> 'd ring \<Rightarrow> 'd ring option" where
  "cq_push e = (\<lambda>(q, qh, qn). if qn \<ge> CMD_QUEUE_DEPTH then None
     else Some (q[(qh + qn) mod CMD_QUEUE_DEPTH := e], qh, qn + 1))"

definition cq_pop :: "'d ring \<Rightarrow> ('d cmd_entry \<times> 'd ring) option" where
  "cq_pop = (\<lambda>(q, qh, qn). if qn = 0 then None else Some (q ! qh, (q, (qh + 1) mod CMD_QUEUE_DEPTH, qn - 1)))"

interpretation cmd_fifo: bounded_fifo CMD_QUEUE_DEPTH cq_ok cq_elems cq_push cq_pop
proof (unfold_locales, goal_cases)
  case (1 q)
  then show ?case by (auto simp: cq_ok_def cq_elems_def)
next
  case (2 q x)
  then show ?case using ring_list_push [of "snd (snd q)" "fst q" "fst (snd q)" x]
    by (auto simp: cq_ok_def cq_elems_def cq_push_def)
next
  case (3 q x)
  then show ?case by (cases q) (auto simp: cq_elems_def cq_push_def)
next
  case (4 q)
  then show ?case by (cases q) (auto simp: cq_elems_def cq_pop_def dest: arg_cong [of _ _ length])
next
  case (5 q x xs)
  obtain b h n where q: "q = (b, h, n)" by (cases q) auto
  with 5 obtain m where n: "n = Suc m" by (cases n) (auto simp: cq_elems_def)
  show ?case using 5 ring_list_pop [of h b m]
    by (auto simp: q n cq_ok_def cq_elems_def cq_pop_def)
qed

lemma slot_queue_pop:
  assumes "slot_ok sl" "sl_qn sl \<noteq> 0"
  shows "ring_list (sl_q sl) (sl_qh sl) (sl_qn sl) = sl_q sl ! sl_qh sl #
    ring_list (sl_q sl) ((sl_qh sl + 1) mod CMD_QUEUE_DEPTH) (sl_qn sl - 1)"
  using assms cmd_fifo.pop_inv [of "(sl_q sl, sl_qh sl, sl_qn sl)"]
  by (simp add: slot_ok_def cq_ok_def cq_elems_def cq_pop_def)

lemma slot_queue_push:
  assumes "slot_ok sl" "sl_qn sl < CMD_QUEUE_DEPTH"
  shows "ring_list ((sl_q sl)[(sl_qh sl + sl_qn sl) mod CMD_QUEUE_DEPTH := e]) (sl_qh sl) (sl_qn sl + 1) =
    ring_list (sl_q sl) (sl_qh sl) (sl_qn sl) @ [e]"
  using assms cmd_fifo.push_inv [of "(sl_q sl, sl_qh sl, sl_qn sl)" e]
  by (simp add: slot_ok_def cq_ok_def cq_elems_def cq_push_def)

section \<open>A client that writes down the completions\<close>

record ('env, 'o, 'd) tlogged = "('env, 'o, 'd) tracker" +
  ct_log :: "(8 word \<times> 32 word \<times> 8 word \<times> bytes \<times> 'd) list"

definition log_done :: "('d, ('env, 'o, 'd) tlogged) done_fn" where
  "log_done d handle addr status result = modA (\<lambda>s. s \<lparr> ct_log := ct_log s @ [(addr, handle, status, result, d)] \<rparr>)"

definition completed :: "('env, 'o, 'd) tlogged \<Rightarrow> 8 word \<Rightarrow> 32 word list" where
  "completed s a = map (\<lambda>(_, h, _). h) (filter (\<lambda>(b, _). b = a) (ct_log s))"

definition held :: "('env, 'o, 'd) tlogged \<Rightarrow> 8 word \<Rightarrow> 32 word list" where
  "held s a = (case slot_for a s of None \<Rightarrow> [] | Some i \<Rightarrow> map ce_handle (entries (ct_slots s ! i)))"

definition ledger :: "('env, 'o, 'd) tlogged \<Rightarrow> 8 word \<Rightarrow> 32 word list" where
  "ledger s a = completed s a @ held s a"

definition tr_ok :: "('env, 'o, 'd) tlogged \<Rightarrow> bool" where
  "tr_ok s = (length (ct_slots s) = SLOT_MAX \<and> list_all slot_ok (ct_slots s) \<and>
     (\<forall>i < SLOT_MAX. \<forall>j < SLOT_MAX. sl_in_use (ct_slots s ! i) \<longrightarrow> sl_in_use (ct_slots s ! j) \<longrightarrow>
        sl_addr (ct_slots s ! i) = sl_addr (ct_slots s ! j) \<longrightarrow> i = j))"

lemma tr_ok_slot: "tr_ok s \<Longrightarrow> i < SLOT_MAX \<Longrightarrow> slot_ok (ct_slots s ! i)"
  by (simp add: tr_ok_def list_all_length)

lemma first_index_eq:
  assumes "i < length ps" "P (ps ! i)" "\<And>j. j < length ps \<Longrightarrow> P (ps ! j) \<Longrightarrow> j = i"
  shows "first_index P ps = Some i"
proof (cases "first_index P ps")
  case None
  then show ?thesis using assms(1,2) by (auto simp: first_index_None)
next
  case (Some j)
  then show ?thesis using assms(3) first_index_Some [OF Some] by simp
qed

lemma slot_for_iff:
  assumes "tr_ok s"
  shows "slot_for a s = Some i \<longleftrightarrow> i < SLOT_MAX \<and> sl_in_use (ct_slots s ! i) \<and> sl_addr (ct_slots s ! i) = a"
proof
  assume "slot_for a s = Some i"
  from first_index_Some [OF this [unfolded slot_for_def]] assms
  show "i < SLOT_MAX \<and> sl_in_use (ct_slots s ! i) \<and> sl_addr (ct_slots s ! i) = a" by (simp add: tr_ok_def)
next
  assume "i < SLOT_MAX \<and> sl_in_use (ct_slots s ! i) \<and> sl_addr (ct_slots s ! i) = a"
  with assms show "slot_for a s = Some i"
    unfolding slot_for_def by (intro first_index_eq) (auto simp: tr_ok_def)
qed

text \<open>The demultiplexer's entries name slots that exist.\<close>

definition pend_ok :: "('env, 'o, 'd) tlogged \<Rightarrow> bool" where
  "pend_ok s = (length (dx_pending s) = PENDING_MAX \<and>
     list_all (\<lambda>p. case pe_cb p of Some (On_tracker_reply i) \<Rightarrow> i < SLOT_MAX | _ \<Rightarrow> True) (dx_pending s))"

text \<open>
  A step on slot \<open>i\<close> that completes the commands \<open>out\<close> of the slot: they go to the log, the
  rest stays in order. Most steps complete nothing.
\<close>

definition slot_step :: "nat \<Rightarrow> 32 word list \<Rightarrow> ('env, 'o, 'd) tlogged \<Rightarrow> ('env, 'o, 'd) tlogged \<Rightarrow> bool" where
  "slot_step i out s s' = (\<exists>sl'. ct_slots s' = (ct_slots s)[i := sl'] \<and> slot_ok sl' \<and>
     sl_in_use sl' = sl_in_use (ct_slots s ! i) \<and> sl_addr sl' = sl_addr (ct_slots s ! i) \<and>
     map ce_handle (entries (ct_slots s ! i)) = out @ map ce_handle (entries sl') \<and>
     map (\<lambda>(b, h, _). (b, h)) (ct_log s') = map (\<lambda>(b, h, _). (b, h)) (ct_log s) @ map (Pair (sl_addr (ct_slots s ! i))) out \<and>
     (\<exists>new. ct_log s' = ct_log s @ new) \<and> (pend_ok s \<longrightarrow> pend_ok s') \<and>
     ct_next_handle s' = ct_next_handle s \<and> ct_now s' = ct_now s)"

lemma slot_step_pend: "slot_step i out s s' \<Longrightarrow> pend_ok s \<Longrightarrow> pend_ok s'"
  and slot_step_next: "slot_step i out s s' \<Longrightarrow> ct_next_handle s' = ct_next_handle s"
  and slot_step_now: "slot_step i out s s' \<Longrightarrow> ct_now s' = ct_now s"
  and slot_step_log: "slot_step i out s s' \<Longrightarrow> \<exists>new. ct_log s' = ct_log s @ new"
  unfolding slot_step_def by blast+

lemma slot_step_ok:
  assumes "tr_ok s" "i < SLOT_MAX" "slot_step i out s s'"
  shows "tr_ok s'"
proof -
  from assms(3) obtain sl' where sl': "ct_slots s' = (ct_slots s)[i := sl']" "slot_ok sl'"
    "sl_in_use sl' = sl_in_use (ct_slots s ! i)" "sl_addr sl' = sl_addr (ct_slots s ! i)" unfolding slot_step_def by blast
  have len: "length (ct_slots s) = SLOT_MAX" using assms(1) by (simp add: tr_ok_def)
  have "sl_in_use (ct_slots s' ! k) = sl_in_use (ct_slots s ! k)" "sl_addr (ct_slots s' ! k) = sl_addr (ct_slots s ! k)"
    "slot_ok (ct_slots s' ! k)" if "k < SLOT_MAX" for k
    using sl' len that assms(2) tr_ok_slot [OF assms(1) that] by (auto simp: nth_list_update)
  then show ?thesis using assms(1) sl'(1) len by (auto simp: tr_ok_def list_all_length)
qed

lemma completed_pairs: "completed s a = map snd (filter (\<lambda>(b, _). b = a) (map (\<lambda>(b, h, _). (b, h)) (ct_log s)))"
  by (simp add: completed_def filter_map comp_def split_def)

lemma slot_step_ledger:
  assumes "tr_ok s" "i < SLOT_MAX" "slot_step i out s s'"
  shows "ledger s' a = ledger s a"
proof -
  let ?sl = "ct_slots s ! i"
  from assms(3) obtain sl' where sl': "ct_slots s' = (ct_slots s)[i := sl']" "slot_ok sl'" "sl_in_use sl' = sl_in_use ?sl"
    "sl_addr sl' = sl_addr ?sl" "map ce_handle (entries ?sl) = out @ map ce_handle (entries sl')"
    "map (\<lambda>(b, h, _). (b, h)) (ct_log s') = map (\<lambda>(b, h, _). (b, h)) (ct_log s) @ map (Pair (sl_addr ?sl)) out"
    unfolding slot_step_def by blast
  have ok': "tr_ok s'" by (rule slot_step_ok [OF assms])
  have len: "length (ct_slots s) = SLOT_MAX" using assms(1) by (simp add: tr_ok_def)
  have same: "slot_for a s' = slot_for a s"
  proof -
    have "slot_for a s' = Some j \<longleftrightarrow> slot_for a s = Some j" for j
      unfolding slot_for_iff [OF ok'] slot_for_iff [OF assms(1)] using sl' len assms(2) by (cases "i = j") auto
    then show ?thesis by (metis option.exhaust)
  qed
  have comp: "completed s' a = completed s a @ (if sl_addr ?sl = a then out else [])"
    unfolding completed_pairs sl'(6) by (simp add: filter_map comp_def)
  show ?thesis
  proof (cases "slot_for a s = Some i")
    case True
    then have "sl_addr ?sl = a" using slot_for_iff [OF assms(1)] by simp
    then show ?thesis using True same comp sl' len assms(2) by (simp add: ledger_def held_def)
  next
    case False
    have "out = []" if "sl_addr ?sl = a"
    proof -
      have "\<not> sl_in_use ?sl" using False that slot_for_iff [OF assms(1)] assms(2) by auto
      then have "entries ?sl = []" using tr_ok_slot [OF assms(1,2)] by (simp add: slot_ok_def)
      then show ?thesis using sl'(5) by simp
    qed
    then show ?thesis using False same comp sl' by (auto simp: ledger_def held_def split: option.splits)
  qed
qed

section \<open>Every step keeps the ledger\<close>

lemma send_inflight_run:
  assumes "quiet pt" "i < length (ct_slots s)" "length (ce_args (sl_inflight (ct_slots s ! i))) \<le> CMD_ARG_MAX"
  shows "\<exists>rc sl' e n q ps. send_inflight pt i s = Ret (rc, s \<lparr> env := e, dx_next_id := n, dx_tx_seq := q, dx_pending := ps,
      ct_slots := (ct_slots s)[i := sl'] \<rparr>) \<and>
    (if rc = 0 then \<exists>rid. sl' = (ct_slots s ! i) \<lparr> sl_sent_ms := ct_now s, sl_inflight_rid := rid, sl_state := CMD_SLOT_SENT, sl_ack_ms := 0 \<rparr>
     else sl' = (ct_slots s ! i) \<lparr> sl_sent_ms := ct_now s \<rparr>) \<and>
    table_step (Some (On_tracker_reply i)) (dx_pending s) ps"
proof -
  let ?sl = "ct_slots s ! i" and ?e = "sl_inflight (ct_slots s ! i)"
  have "length (ce_args ?e) < 65530" using assms(3) by (simp add: CMD_ARG_MAX_def)
  from send_request_total [OF assms(1) _ this, of BUS_EXEC_HDR "sl_addr ?sl" OP_BUS_EXEC
      "\<lambda>rid. [lo8 (wire_timeout (ce_exec_timeout_ms ?e)), hi8 (wire_timeout (ce_exec_timeout_ms ?e)), lo8 rid, hi8 rid,
       lo8 (ce_command_id ?e), hi8 (ce_command_id ?e)]" "Some (On_tracker_reply i)" s]
  obtain rid e n q ps where snd: "demux_send_bus_exec pt (sl_addr ?sl) (ce_command_id ?e)
      (wire_timeout (ce_exec_timeout_ms ?e)) (ce_args ?e) (Some (On_tracker_reply i)) s =
      Ret (rid, s \<lparr> env := e, dx_next_id := n, dx_tx_seq := q, dx_pending := ps \<rparr>)"
    "table_step (Some (On_tracker_reply i)) (dx_pending s) ps"
    by (auto simp: demux_send_bus_exec_def BUS_EXEC_HDR_def)
  show ?thesis
  proof (cases "rid = 0xFFFF")
    case True
    then show ?thesis using snd
      by (intro exI [of _ "-1"] exI [of _ "?sl \<lparr> sl_sent_ms := ct_now s \<rparr>"] exI [of _ e] exI [of _ n] exI [of _ q] exI [of _ ps])
        (simp add: send_inflight_def upd_slot_def Let_def)
  next
    case False
    then show ?thesis using snd assms(2)
      by (intro exI [of _ "0"] exI [of _ "?sl \<lparr> sl_sent_ms := ct_now s, sl_inflight_rid := rid, sl_state := CMD_SLOT_SENT, sl_ack_ms := 0 \<rparr>"]
        exI [of _ e] exI [of _ n] exI [of _ q] exI [of _ ps]) (auto simp: send_inflight_def upd_slot_def Let_def)
  qed
qed

lemma pend_ok_set:
  assumes "pend_ok s" "i < SLOT_MAX" "dx_pending s' = ps"
    "table_step (Some (On_tracker_reply i)) (dx_pending s) ps"
  shows "pend_ok s'"
  using table_step_all [OF assms(4), where P = "\<lambda>p. case pe_cb p of Some (On_tracker_reply i) \<Rightarrow> i < SLOT_MAX | _ \<Rightarrow> True"]
    assms(1-3) by (simp add: pend_ok_def)

lemma slot_step_trans:
  assumes "i < length (ct_slots s)" "slot_step i out s s1" "slot_step i out' s1 s2"
  shows "slot_step i (out @ out') s s2"
proof -
  obtain sl1 where a: "ct_slots s1 = (ct_slots s)[i := sl1]" "sl_in_use sl1 = sl_in_use (ct_slots s ! i)"
    "sl_addr sl1 = sl_addr (ct_slots s ! i)" "map ce_handle (entries (ct_slots s ! i)) = out @ map ce_handle (entries sl1)"
    "map (\<lambda>(b, h, _). (b, h)) (ct_log s1) = map (\<lambda>(b, h, _). (b, h)) (ct_log s) @ map (Pair (sl_addr (ct_slots s ! i))) out"
    using assms(2) unfolding slot_step_def by blast
  obtain sl2 where b: "ct_slots s2 = (ct_slots s1)[i := sl2]" "slot_ok sl2" "sl_in_use sl2 = sl_in_use (ct_slots s1 ! i)"
    "sl_addr sl2 = sl_addr (ct_slots s1 ! i)" "map ce_handle (entries (ct_slots s1 ! i)) = out' @ map ce_handle (entries sl2)"
    "map (\<lambda>(b, h, _). (b, h)) (ct_log s2) = map (\<lambda>(b, h, _). (b, h)) (ct_log s1) @ map (Pair (sl_addr (ct_slots s1 ! i))) out'"
    using assms(3) unfolding slot_step_def by blast
  have "\<exists>new. ct_log s2 = ct_log s @ new" using slot_step_log [OF assms(2)] slot_step_log [OF assms(3)] by auto
  then show ?thesis
    using a b assms slot_step_pend slot_step_next slot_step_now
    unfolding slot_step_def by (intro exI [of _ sl2]) auto
qed

lemma slot_step_refl: "tr_ok s \<Longrightarrow> i < SLOT_MAX \<Longrightarrow> slot_step i [] s s"
  unfolding slot_step_def by (rule exI [of _ "ct_slots s ! i"]) (auto simp: tr_ok_slot)

lemma entry_args: "tr_ok s \<Longrightarrow> i < SLOT_MAX \<Longrightarrow> e \<in> set (entries (ct_slots s ! i)) \<Longrightarrow>
    length (ce_args e) \<le> CMD_ARG_MAX \<and> (\<exists>d. ce_on_done e = Some d)"
  using tr_ok_slot [of s i] by (auto simp: slot_ok_def entry_ok_def list_all_iff)

lemma entries_q_irrelevant [simp]:
  "entries (sl \<lparr> sl_sent_ms := t \<rparr>) = entries sl" "entries (sl \<lparr> sl_retries := n \<rparr>) = entries sl"
  "entries (sl \<lparr> sl_state := st \<rparr>) = entries sl" "entries (sl \<lparr> sl_inflight_rid := r \<rparr>) = entries sl"
  "entries (sl \<lparr> sl_ack_ms := t \<rparr>) = entries sl"
  "entries (sl \<lparr> sl_il_known := b \<rparr>) = entries sl" "entries (sl \<lparr> sl_il_flags := w \<rparr>) = entries sl"
  "entries (sl \<lparr> sl_faulted := b \<rparr>) = entries sl" "entries (sl \<lparr> sl_il_msg := m \<rparr>) = entries sl"
  "entries (sl \<lparr> sl_il_msg_len := n \<rparr>) = entries sl" "entries (sl \<lparr> sl_il_msg_count := k \<rparr>) = entries sl"
  by (simp_all add: entries_def)

lemma pump_slot_step:
  assumes "quiet pt" "tr_ok s" "i < SLOT_MAX"
  shows "\<exists>s'. pump_slot pt i s = Ret ((), s') \<and> slot_step i [] s s'"
proof -
  let ?sl = "ct_slots s ! i"
  note ok = tr_ok_slot [OF assms(2,3)]
  have len: "i < length (ct_slots s)" using assms(2,3) by (simp add: tr_ok_def)
  show ?thesis
  proof (cases "sl_faulted ?sl \<or> sl_state ?sl \<noteq> CMD_SLOT_IDLE \<or> sl_qn ?sl = 0")
    case True
    then show ?thesis using slot_step_refl [OF assms(2,3)] by (auto simp: pump_slot_def Let_def)
  next
    case False
    then have idle: "\<not> sl_has_inflight ?sl" "sl_state ?sl = CMD_SLOT_IDLE" "sl_qn ?sl \<noteq> 0" using ok by (auto simp: slot_ok_def)
    note pop = slot_queue_pop [OF ok idle(3)]
    let ?front = "sl_q ?sl ! sl_qh ?sl"
    have ent: "entries ?sl = ?front # ring_list (sl_q ?sl) ((sl_qh ?sl + 1) mod CMD_QUEUE_DEPTH) (sl_qn ?sl - 1)"
      using idle pop by (simp add: entries_def)
    let ?sl1 = "?sl \<lparr> sl_inflight := ?front, sl_has_inflight := True, sl_retries := 0 \<rparr>"
    let ?s1 = "s \<lparr> ct_slots := (ct_slots s)[i := ?sl1] \<rparr>"
    have args: "length (ce_args ?front) \<le> CMD_ARG_MAX"
      using entry_args [OF assms(2,3), of ?front] ent by simp
    have "i < length (ct_slots ?s1)" "length (ce_args (sl_inflight (ct_slots ?s1 ! i))) \<le> CMD_ARG_MAX"
      using len args by simp_all
    from send_inflight_run [OF assms(1) this] obtain rc sl' e n q ps where
      snd: "send_inflight pt i ?s1 = Ret (rc, ?s1 \<lparr> env := e, dx_next_id := n, dx_tx_seq := q, dx_pending := ps,
        ct_slots := (ct_slots ?s1)[i := sl'] \<rparr>)"
      "if rc = 0 then \<exists>rid. sl' = (ct_slots ?s1 ! i) \<lparr> sl_sent_ms := ct_now ?s1, sl_inflight_rid := rid, sl_state := CMD_SLOT_SENT, sl_ack_ms := 0 \<rparr>
       else sl' = (ct_slots ?s1 ! i) \<lparr> sl_sent_ms := ct_now ?s1 \<rparr>"
      "table_step (Some (On_tracker_reply i)) (dx_pending ?s1) ps" by blast
    have qh: "sl_qh ?sl < length (sl_q ?sl)" using ok by (simp add: slot_ok_def)
    let ?sl2 = "if rc = 0 then sl' \<lparr> sl_qh := (sl_qh sl' + 1) mod CMD_QUEUE_DEPTH, sl_qn := sl_qn sl' - 1 \<rparr>
      else sl' \<lparr> sl_has_inflight := False \<rparr>"
    obtain sl2 where sl2_eq: "sl2 = ?sl2" by blast
    let ?s2 = "s \<lparr> env := e, dx_next_id := n, dx_tx_seq := q, dx_pending := ps, ct_slots := (ct_slots s)[i := sl2] \<rparr>"
    have run: "pump_slot pt i s = Ret ((), ?s2)"
      using False idle(3) qh snd(1) len by (simp add: pump_slot_def upd_slot_def Let_def sl2_eq)
    have sl2: "entries sl2 = entries ?sl \<and> sl_in_use sl2 = sl_in_use ?sl \<and> sl_addr sl2 = sl_addr ?sl \<and>
        length (sl_q sl2) = length (sl_q ?sl) \<and> sl_qh sl2 < CMD_QUEUE_DEPTH \<and> sl_qn sl2 \<le> CMD_QUEUE_DEPTH \<and>
        sl_has_inflight sl2 = (sl_state sl2 \<noteq> CMD_SLOT_IDLE) \<and> sl_state sl2 \<noteq> CMD_SLOT_FAULTED \<and> sl_retries sl2 \<le> MAX_ACK_RETRIES"
    proof (cases "rc = 0")
      case True
      then show ?thesis using snd(2) sl2_eq len ent ok idle(2) by (auto simp: entries_def slot_ok_def CMD_QUEUE_DEPTH_def)
    next
      case False
      then show ?thesis using snd(2) sl2_eq len ok idle by (auto simp: entries_def slot_ok_def)
    qed
    then have sok: "slot_ok sl2" using ok by (simp add: slot_ok_def)
    have pend: "pend_ok s \<longrightarrow> pend_ok ?s2"
      using snd(3) assms(3) by (auto intro: pend_ok_set [where ps = ps and i = i])
    have "slot_step i [] s ?s2"
      unfolding slot_step_def by (rule exI [of _ sl2]) (use sl2 sok pend in simp)
    with run show ?thesis by blast
  qed
qed

lemma complete_inflight_step:
  assumes "tr_ok s" "i < SLOT_MAX"
  shows "\<exists>s'. complete_inflight log_done i status result s = Ret ((), s') \<and>
    slot_step i (if sl_has_inflight (ct_slots s ! i) then [ce_handle (sl_inflight (ct_slots s ! i))] else []) s s' \<and>
    \<not> sl_has_inflight (ct_slots s' ! i)"
proof (cases "sl_has_inflight (ct_slots s ! i)")
  case False
  then show ?thesis using slot_step_refl [OF assms] by (simp add: complete_inflight_def Let_def)
next
  case True
  let ?sl = "ct_slots s ! i"
  note ok = tr_ok_slot [OF assms]
  have "sl_inflight ?sl \<in> set (entries ?sl)" using True by (simp add: entries_def)
  then obtain d where d: "ce_on_done (sl_inflight ?sl) = Some d" using entry_args [OF assms] by blast
  let ?sl' = "?sl \<lparr> sl_has_inflight := False, sl_inflight_rid := 0, sl_state := CMD_SLOT_IDLE \<rparr>"
  let ?s' = "s \<lparr> ct_slots := (ct_slots s)[i := ?sl'],
    ct_log := ct_log s @ [(sl_addr ?sl, ce_handle (sl_inflight ?sl), status, result, d)] \<rparr>"
  have run: "complete_inflight log_done i status result s = Ret ((), ?s')"
    using True d by (simp add: complete_inflight_def upd_slot_def log_done_def Let_def)
  have "slot_ok ?sl'" "entries ?sl = sl_inflight ?sl # entries ?sl'"
    using ok True by (auto simp: slot_ok_def entries_def)
  then have "slot_step i [ce_handle (sl_inflight ?sl)] s ?s'"
    unfolding slot_step_def by (intro exI [of _ ?sl']) (simp add: pend_ok_def)
  moreover have "i < length (ct_slots s)" using assms by (simp add: tr_ok_def)
  ultimately show ?thesis using run True by auto
qed

text \<open>The world the handlers keep, and acts that return, keep it and keep every ledger.\<close>

definition world_ok :: "('env, 'o, 'd) tlogged \<Rightarrow> bool" where
  "world_ok s = (tr_ok s \<and> pend_ok s)"

definition fair :: "('env, 'o, 'd) tlogged \<Rightarrow> ('a \<times> ('env, 'o, 'd) tlogged) res \<Rightarrow> bool" where
  "fair s r = (\<exists>x s'. r = Ret (x, s') \<and> world_ok s' \<and> ledger s' = ledger s \<and> ct_next_handle s' = ct_next_handle s)"

definition works :: "(('env, 'o, 'd) tlogged, 'a) act \<Rightarrow> bool" where
  "works m = (\<forall>s. world_ok s \<longrightarrow> fair s (m s))"

lemma worksD: "works m \<Longrightarrow> world_ok s \<Longrightarrow> fair s (m s)"
  and worksI: "(\<And>s. world_ok s \<Longrightarrow> fair s (m s)) \<Longrightarrow> works m"
  by (auto simp: works_def)

lemma fair_Ret: "world_ok s \<Longrightarrow> fair s (Ret (x, s))"
  by (simp add: fair_def)

lemma fair_step: "world_ok s \<Longrightarrow> i < SLOT_MAX \<Longrightarrow> slot_step i out s s' \<Longrightarrow> fair s (Ret (x, s'))"
  unfolding fair_def world_ok_def using slot_step_ok slot_step_ledger slot_step_pend slot_step_next by blast

lemma fair_bind:
  assumes "fair s (m s)" "\<And>x s'. world_ok s' \<Longrightarrow> fair s' (f x s')"
  shows "fair s (bindA m f s)"
  using assms unfolding fair_def by (fastforce simp: bindA_def)

lemma fair_seq: "fair s (m s) \<Longrightarrow> works n \<Longrightarrow> fair s (seqA m n s)"
  unfolding seqA_def by (rule fair_bind) (auto dest: worksD)

lemma works_retA: "works (retA x)"
  by (rule worksI) (simp add: fair_Ret)

lemma works_eachA:
  assumes "\<And>i. i \<in> set is \<Longrightarrow> works (body i)"
  shows "works (eachA body is)"
  using assms
proof (induction "is")
  case (Cons i "is")
  then show ?case by (auto intro!: worksI fair_seq dest: worksD simp del: seqA_app)
qed (simp add: works_retA)

lemma works_complete: "i < SLOT_MAX \<Longrightarrow> works (complete_inflight log_done i status result)"
proof (rule worksI)
  fix s assume i: "i < SLOT_MAX" and ok: "world_ok s"
  then obtain s' out where "complete_inflight log_done i status result s = Ret ((), s')" "slot_step i out s s'"
    using complete_inflight_step [of s i status result] unfolding world_ok_def by blast
  then show "fair s (complete_inflight log_done i status result s)" using fair_step [OF ok i] by auto
qed

lemma works_pump:
  fixes pt :: "('env, 'o, 'd) tlogged port"
  assumes q: "quiet pt" and i: "i < SLOT_MAX"
  shows "works (pump_slot pt i)"
proof (rule worksI)
  fix s :: "('env, 'o, 'd) tlogged" assume ok: "world_ok s"
  obtain s' where "pump_slot pt i s = Ret ((), s')" "slot_step i [] s s'"
    using q i ok pump_slot_step [of pt s i] unfolding world_ok_def by blast
  then show "fair s (pump_slot pt i s)" using fair_step [OF ok i] by auto
qed

lemma works_complete_pump:
  "quiet pt \<Longrightarrow> i < SLOT_MAX \<Longrightarrow> works (seqA (complete_inflight log_done i status result) (pump_slot pt i))"
  by (rule worksI, rule fair_seq) (auto intro: worksD works_complete works_pump)

lemma works_reply: "quiet pt \<Longrightarrow> i < SLOT_MAX \<Longrightarrow> works (on_tracker_reply log_done pt i rid status result)"
  by (rule worksI) (auto simp: on_tracker_reply_def Let_def simp del: seqA_app
      intro: fair_Ret worksD [OF works_complete_pump])

text \<open>An update of one slot that leaves its commands alone.\<close>

lemma upd_slot_step:
  assumes "tr_ok s" "i < SLOT_MAX" "slot_ok (f (ct_slots s ! i))" "sl_in_use (f (ct_slots s ! i)) = sl_in_use (ct_slots s ! i)"
    "sl_addr (f (ct_slots s ! i)) = sl_addr (ct_slots s ! i)" "entries (f (ct_slots s ! i)) = entries (ct_slots s ! i)"
  shows "\<exists>s'. upd_slot i f s = Ret ((), s') \<and> slot_step i [] s s'"
  using assms by (auto simp: upd_slot_def slot_step_def pend_ok_def)

lemma send_inflight_step:
  assumes "quiet pt" "tr_ok s" "i < SLOT_MAX" "sl_has_inflight (ct_slots s ! i)"
  shows "\<exists>rc s'. send_inflight pt i s = Ret (rc, s') \<and> slot_step i [] s s'"
proof -
  let ?sl = "ct_slots s ! i"
  note ok = tr_ok_slot [OF assms(2,3)]
  have len: "i < length (ct_slots s)" using assms(2,3) by (simp add: tr_ok_def)
  have "length (ce_args (sl_inflight ?sl)) \<le> CMD_ARG_MAX"
    using entry_args [OF assms(2,3), of "sl_inflight ?sl"] assms(4) by (simp add: entries_def)
  from send_inflight_run [OF assms(1) len this] obtain rc sl' e n q ps where
    snd: "send_inflight pt i s = Ret (rc, s \<lparr> env := e, dx_next_id := n, dx_tx_seq := q, dx_pending := ps,
      ct_slots := (ct_slots s)[i := sl'] \<rparr>)"
    "if rc = 0 then \<exists>rid. sl' = ?sl \<lparr> sl_sent_ms := ct_now s, sl_inflight_rid := rid, sl_state := CMD_SLOT_SENT, sl_ack_ms := 0 \<rparr>
     else sl' = ?sl \<lparr> sl_sent_ms := ct_now s \<rparr>" "table_step (Some (On_tracker_reply i)) (dx_pending s) ps" by blast
  let ?s' = "s \<lparr> env := e, dx_next_id := n, dx_tx_seq := q, dx_pending := ps, ct_slots := (ct_slots s)[i := sl'] \<rparr>"
  have "slot_ok sl' \<and> entries sl' = entries ?sl \<and> sl_in_use sl' = sl_in_use ?sl \<and> sl_addr sl' = sl_addr ?sl"
    using snd(2) ok assms(4) by (auto simp: slot_ok_def split: if_splits)
  moreover have "pend_ok s \<longrightarrow> pend_ok ?s'"
    using snd(3) assms(3) by (auto intro: pend_ok_set [where ps = ps and i = i])
  ultimately have "slot_step i [] s ?s'" unfolding slot_step_def by (intro exI [of _ sl']) simp
  with snd(1) show ?thesis by blast
qed

lemma complete_pump_step:
  assumes "quiet pt" "tr_ok s" "i < SLOT_MAX"
  shows "\<exists>s1 s' out. complete_inflight log_done i status result s = Ret ((), s1) \<and> pump_slot pt i s1 = Ret ((), s') \<and>
    slot_step i [] s1 s' \<and> slot_step i out s s'"
proof -
  obtain s1 out where s1: "complete_inflight log_done i status result s = Ret ((), s1)" "slot_step i out s s1"
    using complete_inflight_step [OF assms(2,3), of status result] by blast
  obtain s2 where s2: "pump_slot pt i s1 = Ret ((), s2)" "slot_step i [] s1 s2"
    using pump_slot_step [OF assms(1) slot_step_ok [OF assms(2,3) s1(2)] assms(3)] by blast
  have "i < length (ct_slots s)" using assms(2,3) by (simp add: tr_ok_def)
  from slot_step_trans [OF this s1(2) s2(2)] s1 s2 show ?thesis by auto
qed

lemma resend_step:
  assumes "quiet pt" "tr_ok s" "i < SLOT_MAX" "sl_state (ct_slots s ! i) \<noteq> CMD_SLOT_IDLE"
  shows "\<exists>s' out. resend_or_fail log_done pt i status s = Ret ((), s') \<and> slot_step i out s s'"
proof (cases "sl_retries (ct_slots s ! i) < MAX_ACK_RETRIES")
  case False
  then show ?thesis using complete_pump_step [OF assms(1-3), of status "[]"] by (auto simp: resend_or_fail_def)
next
  case True
  have len: "i < length (ct_slots s)" using assms(2,3) by (simp add: tr_ok_def)
  note ok = tr_ok_slot [OF assms(2,3)]
  let ?s1 = "s \<lparr> ct_slots := (ct_slots s)[i := (ct_slots s ! i) \<lparr> sl_retries := sl_retries (ct_slots s ! i) + 1 \<rparr>] \<rparr>"
  have st1: "slot_step i [] s ?s1"
    using ok True unfolding slot_step_def
    by (intro exI [of _ "(ct_slots s ! i) \<lparr> sl_retries := sl_retries (ct_slots s ! i) + 1 \<rparr>"]) (simp add: slot_ok_def pend_ok_def)
  have "sl_has_inflight (ct_slots ?s1 ! i)" using ok assms(4) len by (simp add: slot_ok_def)
  from send_inflight_step [OF assms(1) slot_step_ok [OF assms(2,3) st1] assms(3) this] obtain rc s2 where
    s2: "send_inflight pt i ?s1 = Ret (rc, s2)" "slot_step i [] ?s1 s2" by blast
  have "resend_or_fail log_done pt i status s = Ret ((), s2)"
    using True s2(1) by (simp add: resend_or_fail_def upd_slot_def)
  with slot_step_trans [OF len st1 s2(2)] show ?thesis by auto
qed

lemma resend_fair:
  assumes "quiet pt" "world_ok s" "i < SLOT_MAX" "sl_state (ct_slots s ! i) \<noteq> CMD_SLOT_IDLE"
  shows "fair s (resend_or_fail log_done pt i status s)"
proof -
  obtain s' out where "resend_or_fail log_done pt i status s = Ret ((), s')" "slot_step i out s s'"
    using resend_step [OF assms(1) _ assms(3,4)] assms(2) unfolding world_ok_def by blast
  then show ?thesis using fair_step [OF assms(2,3)] by auto
qed

lemma slot_for_less: "tr_ok s \<Longrightarrow> slot_for a s = Some i \<Longrightarrow> i < SLOT_MAX"
  by (simp add: slot_for_iff)

lemma works_nak: "quiet pt \<Longrightarrow> works (cmd_tracker_on_nak log_done pt addr req_id)"
  by (rule worksI) (auto simp: cmd_tracker_on_nak_def awaiting_ack_def world_ok_def slot_for_less
      intro!: fair_Ret resend_fair split: option.splits)

lemma works_ack: "works (cmd_tracker_on_ack addr req_id)"
proof (rule worksI)
  fix s :: "('env, 'o, 'd) tlogged" assume w: "world_ok s"
  then have tr: "tr_ok s" by (simp add: world_ok_def)
  show "fair s (cmd_tracker_on_ack addr req_id s)"
  proof (cases "awaiting_ack addr req_id s")
    case None
    then show ?thesis using w by (simp add: cmd_tracker_on_ack_def fair_Ret)
  next
    case (Some i)
    then have i: "i < SLOT_MAX" "sl_state (ct_slots s ! i) = CMD_SLOT_SENT"
      using slot_for_less [OF tr] by (auto simp: awaiting_ack_def split: option.splits if_splits)
    let ?sl = "(ct_slots s ! i) \<lparr> sl_state := CMD_SLOT_INFLIGHT, sl_ack_ms := ct_now s, sl_retries := 0 \<rparr>"
    let ?s' = "s \<lparr> ct_slots := (ct_slots s)[i := ?sl], ct_total_acks := ct_total_acks s + 1 \<rparr>"
    have "slot_step i [] s ?s'"
      unfolding slot_step_def by (rule exI [of _ ?sl]) (use tr_ok_slot [OF tr i(1)] i(2) in \<open>simp add: slot_ok_def pend_ok_def\<close>)
    from fair_step [OF w i(1) this] show ?thesis using Some
      by (simp add: cmd_tracker_on_ack_def upd_slot_def)
  qed
qed

lemma upd_slot_fair:
  assumes "world_ok s" "i < SLOT_MAX" "slot_ok (f (ct_slots s ! i))" "sl_in_use (f (ct_slots s ! i)) = sl_in_use (ct_slots s ! i)"
    "sl_addr (f (ct_slots s ! i)) = sl_addr (ct_slots s ! i)" "entries (f (ct_slots s ! i)) = entries (ct_slots s ! i)"
  shows "fair s (upd_slot i f s)"
proof -
  obtain s' where "upd_slot i f s = Ret ((), s')" "slot_step i [] s s'"
    using upd_slot_step [of s i f] assms unfolding world_ok_def by blast
  then show ?thesis using fair_step [OF assms(1,2)] by auto
qed

lemma works_flagged:
  fixes pt :: "('env, 'o, 'd) tlogged port"
  assumes "quiet pt"
  shows "works (cmd_tracker_on_flagged pt addr flags)"
proof (rule worksI)
  fix s :: "('env, 'o, 'd) tlogged" assume w: "world_ok s"
  then have tr: "tr_ok s" by (simp add: world_ok_def)
  show "fair s (cmd_tracker_on_flagged pt addr flags s)"
  proof (cases "slot_for addr s")
    case None
    then show ?thesis using w by (simp add: cmd_tracker_on_flagged_def fair_Ret)
  next
    case (Some i)
    then have i: "i < SLOT_MAX" using slot_for_less [OF tr] by blast
    show ?thesis
      unfolding cmd_tracker_on_flagged_def Some option.case Let_def
      by (intro fair_seq upd_slot_fair [OF w i])
        (use tr_ok_slot [OF tr i] in \<open>auto simp: slot_ok_def works_pump [OF assms i] works_retA\<close>)
  qed
qed

lemma works_il_msg: "works (cmd_tracker_on_interlock_msg addr msg len)"
proof (rule worksI)
  fix s :: "('env, 'o, 'd) tlogged" assume w: "world_ok s"
  then have tr: "tr_ok s" by (simp add: world_ok_def)
  show "fair s (cmd_tracker_on_interlock_msg addr msg len s)"
  proof (cases "slot_for addr s")
    case None
    then show ?thesis using w by (simp add: cmd_tracker_on_interlock_msg_def fair_Ret)
  next
    case (Some i)
    then have i: "i < SLOT_MAX" using slot_for_less [OF tr] by blast
    show ?thesis
      unfolding cmd_tracker_on_interlock_msg_def Some option.case Let_def
      by (intro upd_slot_fair [OF w i]) (use tr_ok_slot [OF tr i] in \<open>auto simp: slot_ok_def\<close>)
  qed
qed

lemma works_set_now: "works (modA (\<lambda>s. s \<lparr> ct_now := t \<rparr>))"
  by (rule worksI) (auto simp: fair_def world_ok_def tr_ok_def pend_ok_def ledger_def completed_def held_def slot_for_def fun_eq_iff
      split: option.splits)

lemma works_poll:
  fixes pt :: "('env, 'o, 'd) tlogged port"
  assumes "quiet pt"
  shows "works (cmd_tracker_poll log_done pt now_ms)"
  unfolding cmd_tracker_poll_def
proof (rule worksI, rule fair_seq)
  show "fair s (modA (\<lambda>s. s \<lparr> ct_now := now_ms \<rparr>) s)" if "world_ok s" for s :: "('env, 'o, 'd) tlogged"
    by (rule worksD [OF works_set_now that])
qed (intro works_eachA worksI; auto simp: poll_slot_def Let_def simp del: seqA_app intro!: fair_Ret resend_fair [OF assms]
    worksD [OF works_pump [OF assms]] worksD [OF works_complete_pump [OF assms]])

section \<open>Slots come and go\<close>

lemma replace_idle_slot:
  assumes "world_ok s" "i < SLOT_MAX" "entries (ct_slots s ! i) = []" "slot_ok sl'" "entries sl' = []"
    "sl_in_use sl' \<Longrightarrow> slot_for (sl_addr sl') s = None"
  defines "s' \<equiv> s \<lparr> ct_slots := (ct_slots s)[i := sl'] \<rparr>"
  shows "world_ok s' \<and> ledger s' = ledger s \<and> ct_next_handle s' = ct_next_handle s"
proof -
  have tr: "tr_ok s" using assms(1) by (simp add: world_ok_def)
  have len: "length (ct_slots s) = SLOT_MAX" using tr by (simp add: tr_ok_def)
  have nth: "ct_slots s' ! k = (if k = i then sl' else ct_slots s ! k)" if "k < SLOT_MAX" for k
    using that len assms(2) by (simp add: s'_def)
  have fresh: "sl_addr (ct_slots s ! k) \<noteq> sl_addr sl'" if "sl_in_use sl'" "k < SLOT_MAX" "sl_in_use (ct_slots s ! k)" for k
    using assms(6) [OF that(1)] slot_for_iff [OF tr, of "sl_addr sl'" k] that(2,3) by auto
  have "tr_ok s'"
    unfolding tr_ok_def list_all_length
  proof (intro conjI allI impI)
    show "length (ct_slots s') = SLOT_MAX" using len by (simp add: s'_def)
    show "slot_ok (ct_slots s' ! k)" if "k < length (ct_slots s')" for k
    proof -
      have "k < SLOT_MAX" using that len by (simp add: s'_def)
      then show ?thesis using tr_ok_slot [OF tr, of k] assms(4) nth [of k] by simp
    qed
    fix j k assume "j < SLOT_MAX" "k < SLOT_MAX" "sl_in_use (ct_slots s' ! j)" "sl_in_use (ct_slots s' ! k)"
      "sl_addr (ct_slots s' ! j) = sl_addr (ct_slots s' ! k)"
    then show "j = k" using nth fresh tr by (auto simp: tr_ok_def split: if_splits; metis)
  qed
  moreover have "held s' a = held s a" for a
  proof (cases "slot_for a s'")
    case None
    have "j = i" if "slot_for a s = Some j" for j
    proof (rule ccontr)
      assume "j \<noteq> i"
      with that nth [of j] have "slot_for a s' = Some j" unfolding slot_for_iff [OF tr] slot_for_iff [OF \<open>tr_ok s'\<close>] by auto
      then show False using None by simp
    qed
    then have "slot_for a s = None \<or> slot_for a s = Some i" by (cases "slot_for a s") auto
    then show ?thesis using None assms(3) by (auto simp: held_def)
  next
    case (Some j)
    then have j: "j < SLOT_MAX" "sl_in_use (ct_slots s' ! j)" "sl_addr (ct_slots s' ! j) = a"
      using slot_for_iff [OF \<open>tr_ok s'\<close>] by auto
    show ?thesis
    proof (cases "j = i")
      case True
      then have "slot_for a s = None" using j nth [OF assms(2)] assms(6) by simp
      then show ?thesis using Some True nth [OF assms(2)] assms(5) by (simp add: held_def)
    next
      case False
      then have "slot_for a s = Some j" using j nth slot_for_iff [OF tr] by simp
      then show ?thesis using Some False nth [OF j(1)] by (simp add: held_def)
    qed
  qed
  ultimately show ?thesis using assms(1)
    by (auto simp: world_ok_def ledger_def completed_def fun_eq_iff s'_def pend_ok_def)
qed

lemma clear_slot_ok: "slot_ok (clear_slot :: 'd slot)" "entries (clear_slot \<lparr> sl_in_use := True, sl_addr := a \<rparr> :: 'd slot) = []"
  "entries (clear_slot :: 'd slot) = []" "slot_ok (clear_slot \<lparr> sl_in_use := True, sl_addr := a \<rparr> :: 'd slot)"
  by (simp_all add: slot_ok_def clear_slot_def entries_def CMD_QUEUE_DEPTH_def)

lemma works_add: "works (cmd_tracker_add_slave addr)"
proof (rule worksI)
  fix s :: "('env, 'o, 'd) tlogged" assume w: "world_ok s"
  then have tr: "tr_ok s" by (simp add: world_ok_def)
  show "fair s (cmd_tracker_add_slave addr s)"
  proof (cases "slot_for addr s = None \<and> first_index (\<lambda>sl. \<not> sl_in_use sl) (ct_slots s) \<noteq> None")
    case False
    then show ?thesis using w by (auto simp: cmd_tracker_add_slave_def fair_Ret split: option.splits)
  next
    case True
    then obtain i where fi: "first_index (\<lambda>sl. \<not> sl_in_use sl) (ct_slots s) = Some i" by auto
    have i: "i < SLOT_MAX" "\<not> sl_in_use (ct_slots s ! i)" using first_index_Some [OF fi] tr by (auto simp: tr_ok_def)
    have e: "entries (ct_slots s ! i) = []" using tr_ok_slot [OF tr i(1)] i(2) by (simp add: slot_ok_def)
    from replace_idle_slot [OF w i(1) e clear_slot_ok(4) [of addr] clear_slot_ok(2)] True
    show ?thesis using fi by (simp add: cmd_tracker_add_slave_def upd_slot_def fair_def)
  qed
qed

lemma drop_queued_step:
  assumes "tr_ok s" "i < SLOT_MAX" "\<not> sl_has_inflight (ct_slots s ! i)" "sl_qn (ct_slots s ! i) > 0"
  shows "\<exists>s' out. drop_queued log_done i status s = Ret ((), s') \<and> slot_step i out s s' \<and>
    \<not> sl_has_inflight (ct_slots s' ! i) \<and> sl_qn (ct_slots s' ! i) = sl_qn (ct_slots s ! i) - 1"
proof -
  let ?sl = "ct_slots s ! i"
  let ?e = "sl_q ?sl ! sl_qh ?sl" and ?sl' = "?sl \<lparr> sl_qh := (sl_qh ?sl + 1) mod CMD_QUEUE_DEPTH, sl_qn := sl_qn ?sl - 1 \<rparr>"
  note ok = tr_ok_slot [OF assms(1,2)]
  have len: "i < length (ct_slots s)" using assms(1,2) by (simp add: tr_ok_def)
  have ent: "entries ?sl = ?e # entries ?sl'"
    using slot_queue_pop [OF ok] assms(3,4) by (simp add: entries_def)
  obtain d where d: "ce_on_done ?e = Some d" using entry_args [OF assms(1,2), of ?e] ent by auto
  let ?s' = "s \<lparr> ct_log := ct_log s @ [(sl_addr ?sl, ce_handle ?e, status, [], d)], ct_slots := (ct_slots s)[i := ?sl'] \<rparr>"
  have run: "drop_queued log_done i status s = Ret ((), ?s')"
    using ok d by (simp add: drop_queued_def upd_slot_def log_done_def slot_ok_def Let_def)
  have "slot_ok ?sl'" using ok ent assms(3) by (auto simp: slot_ok_def CMD_QUEUE_DEPTH_def)
  then have "slot_step i [ce_handle ?e] s ?s'"
    unfolding slot_step_def by (intro exI [of _ ?sl']) (simp add: ent pend_ok_def)
  with run assms(3) len show ?thesis by auto
qed

lemma drop_all_fair:
  assumes "world_ok s" "i < SLOT_MAX" "\<not> sl_has_inflight (ct_slots s ! i)" "sl_qn (ct_slots s ! i) \<le> fuel"
  shows "\<exists>s'. drop_all_queued fuel log_done i status s = Ret ((), s') \<and> fair s (Ret ((), s')) \<and> entries (ct_slots s' ! i) = []"
  using assms
proof (induction fuel arbitrary: s)
  case 0
  then show ?case by (auto simp: fair_Ret entries_def)
next
  case (Suc fuel)
  show ?case
  proof (cases "sl_qn (ct_slots s ! i) > 0")
    case False
    then show ?thesis using Suc.prems by (auto simp: fair_Ret entries_def)
  next
    case True
    then obtain s1 out where s1: "drop_queued log_done i status s = Ret ((), s1)" "slot_step i out s s1"
      "\<not> sl_has_inflight (ct_slots s1 ! i)" "sl_qn (ct_slots s1 ! i) = sl_qn (ct_slots s ! i) - 1"
      using drop_queued_step [of s i status] Suc.prems unfolding world_ok_def by blast
    have f1: "fair s (Ret ((), s1))" by (rule fair_step [OF Suc.prems(1,2) s1(2)])
    then have "world_ok s1" by (simp add: fair_def)
    moreover have "sl_qn (ct_slots s1 ! i) \<le> fuel" using s1(4) Suc.prems(4) by simp
    ultimately obtain s2 where
      s2: "drop_all_queued fuel log_done i status s1 = Ret ((), s2)" "fair s1 (Ret ((), s2))" "entries (ct_slots s2 ! i) = []"
      using Suc.IH [OF _ Suc.prems(2) s1(3)] by blast
    have "drop_all_queued (Suc fuel) log_done i status s = Ret ((), s2)"
      using s1(1) s2(1) True by (subst drop_all_queued.simps) (simp del: drop_all_queued.simps)
    moreover have "fair s (Ret ((), s2))" using f1 s2(2) by (simp add: fair_def)
    ultimately show ?thesis using s2(3) by blast
  qed
qed

lemma works_reset: "works (cmd_tracker_reset log_done status)"
  unfolding cmd_tracker_reset_def
proof (rule works_eachA, rule worksI)
  fix i and s :: "('env, 'o, 'd) tlogged" assume "i \<in> set [0..<SLOT_MAX]" and w: "world_ok s"
  then have i: "i < SLOT_MAX" by simp
  have tr: "tr_ok s" using w by (simp add: world_ok_def)
  show "fair s (if sl_in_use (ct_slots s ! i) then seqA (complete_inflight log_done i status [])
      (seqA (drop_all_queued CMD_QUEUE_DEPTH log_done i status) (upd_slot i (\<lambda>_. clear_slot))) s else Ret ((), s))"
  proof (cases "sl_in_use (ct_slots s ! i)")
    case False
    then show ?thesis using w by (simp add: fair_Ret)
  next
    case True
    obtain s1 out where s1: "complete_inflight log_done i status [] s = Ret ((), s1)" "slot_step i out s s1"
      "\<not> sl_has_inflight (ct_slots s1 ! i)" using complete_inflight_step [OF tr i, of status "[]"] by blast
    have f1: "fair s (Ret ((), s1))" by (rule fair_step [OF w i s1(2)])
    then have w1: "world_ok s1" by (simp add: fair_def)
    have "sl_qn (ct_slots s1 ! i) \<le> CMD_QUEUE_DEPTH"
      using tr_ok_slot [of s1 i] w1 i by (simp add: world_ok_def slot_ok_def)
    from drop_all_fair [OF w1 i s1(3) this, of status] obtain s2 where
      s2: "drop_all_queued CMD_QUEUE_DEPTH log_done i status s1 = Ret ((), s2)" "fair s1 (Ret ((), s2))" "entries (ct_slots s2 ! i) = []"
      by blast
    have w2: "world_ok s2" using s2(2) by (simp add: fair_def)
    have "\<not> sl_in_use (clear_slot :: 'd slot)" by (simp add: clear_slot_def)
    then have r: "world_ok (s2 \<lparr> ct_slots := (ct_slots s2)[i := clear_slot] \<rparr>) \<and>
        ledger (s2 \<lparr> ct_slots := (ct_slots s2)[i := clear_slot] \<rparr>) = ledger s2 \<and>
        ct_next_handle (s2 \<lparr> ct_slots := (ct_slots s2)[i := clear_slot] \<rparr>) = ct_next_handle s2"
      by (intro replace_idle_slot [OF w2 i s2(3) clear_slot_ok(1,3)]) simp
    show ?thesis using True s1(1) s2 f1 r by (auto simp: fair_def upd_slot_def simp del: drop_all_queued.simps)
  qed
qed

section \<open>The demultiplexer's side\<close>

abbreviation tracker_call :: "('env, 'o, 'd) tlogged port \<Rightarrow> ('o reply_cb, ('env, 'o, 'd) tlogged) caller" where
  "tracker_call pt \<equiv> reply_call log_done pt (\<lambda>_ _ _ _. retA ())"

lemma fair_mod_world:
  assumes "world_ok s" "ct_slots s' = ct_slots s" "ct_log s' = ct_log s" "ct_next_handle s' = ct_next_handle s" "pend_ok s'"
  shows "fair s (Ret (x, s'))"
  using assms by (auto simp: fair_def world_ok_def tr_ok_def ledger_def completed_def held_def slot_for_def fun_eq_iff
      split: option.splits)

lemma works_getA_bind: "(\<And>x. works (f x)) \<Longrightarrow> works (bindA (getA g) f)"
  by (auto simp: works_def)

lemma works_resolve:
  fixes pt :: "('env, 'o, 'd) tlogged port"
  assumes "quiet pt" "i < PENDING_MAX"
  shows "works (resolve (tracker_call pt) i status result)"
proof (rule worksI)
  fix s :: "('env, 'o, 'd) tlogged" assume w: "world_ok s"
  let ?p = "dx_pending s ! i"
  let ?s1 = "s \<lparr> dx_pending := (dx_pending s)[i := ?p \<lparr> pe_in_use := False \<rparr>] \<rparr>"
  have pend: "pend_ok s" and len: "i < length (dx_pending s)" using w assms(2) by (auto simp: world_ok_def pend_ok_def)
  then have p: "case pe_cb ?p of Some (On_tracker_reply k) \<Rightarrow> k < SLOT_MAX | _ \<Rightarrow> True"
    unfolding pend_ok_def list_all_length by blast
  have "pend_ok ?s1"
    using pend p len unfolding pend_ok_def list_all_length by (simp add: nth_list_update)
  then have f1: "fair s (Ret ((), ?s1))" by (intro fair_mod_world [OF w]) simp_all
  then have w1: "world_ok ?s1" by (simp add: fair_def)
  have "fair ?s1 ((case pe_cb ?p of None \<Rightarrow> retA () | Some cb \<Rightarrow> tracker_call pt cb (pe_request_id ?p) status result) ?s1)"
    using p w1 worksD [OF works_reply [OF assms(1)] w1]
    by (auto simp: reply_call_def fair_Ret split: option.splits reply_cb.splits)
  with f1 show "fair s (resolve (tracker_call pt) i status result s)"
    by (auto simp: resolve_def fair_def Let_def)
qed

lemma works_demux_events:
  fixes pt :: "('env, 'o, 'd) tlogged port"
  assumes "plain pt"
  shows "works (on_link_state (tracker_call pt) pt st)"
    and "works (sweep_timeouts (tracker_call pt) pt t)"
    and "(\<And>bs. payload = Some bs \<Longrightarrow> length bs = unat (fm_payload_len meta)) \<Longrightarrow>
      works (on_link_frame (tracker_call pt) pt meta payload)"
proof -
  have q: "quiet pt" using assms by (simp add: plain_def)
  note res = works_resolve [OF q]
  show "works (on_link_state (tracker_call pt) pt st)"
    by (rule worksI) (use assms in \<open>auto simp: on_link_state_def plain_def works_retA simp del: seqA_app
      intro!: fair_seq fair_Ret worksD [OF works_eachA] worksI [of "\<lambda>s. if pe_in_use (dx_pending s ! _) then _ s else _ s"]
        worksD [OF res]\<close>)
  show "works (sweep_timeouts (tracker_call pt) pt t)"
  proof (rule worksI)
    fix s :: "('env, 'o, 'd) tlogged" assume w: "world_ok s"
    obtain now e where clk: "mono_ms pt s = Ret (now, s \<lparr> env := e \<rparr>)" using quiet_clock [OF q] by blast
    have f: "fair s (Ret (now, s \<lparr> env := e \<rparr>))"
      by (intro fair_mod_world [OF w]) (use w in \<open>simp_all add: world_ok_def pend_ok_def\<close>)
    let ?body = "\<lambda>i s. if pe_in_use (dx_pending s ! i) \<and> now - pe_sent_ms (dx_pending s ! i) \<ge> ucast t
      then resolve (tracker_call pt) i DEMUX_STATUS_TIMEOUT [] s else Ret ((), s)"
    have each: "works (eachA ?body [0..<PENDING_MAX])"
      by (rule works_eachA, rule worksI) (auto simp: fair_Ret intro: worksD [OF res])
    show "fair s (sweep_timeouts (tracker_call pt) pt t s)"
      using w clk worksD [OF each, of "s \<lparr> env := e \<rparr>"] f
      by (cases "t = 0") (simp_all add: sweep_timeouts_def fair_def del: eachA.simps split_paired_Ex)
  qed
  show "works (on_link_frame (tracker_call pt) pt meta payload)"
    if len: "\<And>bs. payload = Some bs \<Longrightarrow> length bs = unat (fm_payload_len meta)"
  proof (rule worksI)
    fix s :: "('env, 'o, 'd) tlogged" assume w: "world_ok s"
    have "pending_find r s = Some i \<Longrightarrow> i < PENDING_MAX" for r i
      using first_index_Some(1) [of _ "dx_pending s" i] w by (auto simp: pending_find_def world_ok_def pend_ok_def)
    then show "fair s (on_link_frame (tracker_call pt) pt meta payload s)"
      using assms w len by (auto simp: on_link_frame_def plain_def not_less fair_Ret split: option.splits
          intro: worksD [OF res])
  qed
qed

section \<open>Submitting\<close>

lemma submit_step:
  fixes pt :: "('env, 'o, 'd) tlogged port"
  assumes "quiet pt" "world_ok s"
  shows "\<exists>h s'. cmd_tracker_submit pt addr cmd args t (Some d) s = Ret (h, s') \<and> world_ok s' \<and>
    (if h = 0 \<and> ct_next_handle s' = ct_next_handle s then ledger s' = ledger s
     else h = ct_next_handle s \<and> ct_next_handle s' = ct_next_handle s + 1 \<and>
       (\<forall>a. ledger s' a = ledger s a @ (if a = addr then [h] else [])))"
proof (cases "length args > CMD_ARG_MAX \<or> slot_for addr s = None \<or> sl_qn (ct_slots s ! the (slot_for addr s)) \<ge> CMD_QUEUE_DEPTH")
  case True
  then have "cmd_tracker_submit pt addr cmd args t (Some d) s = Ret (0, s)"
    by (cases "slot_for addr s") (auto simp: cmd_tracker_submit_def)
  then show ?thesis using assms(2) by auto
next
  case False
  then obtain i where i: "slot_for addr s = Some i" "sl_qn (ct_slots s ! i) < CMD_QUEUE_DEPTH" "length args \<le> CMD_ARG_MAX" by auto
  have tr: "tr_ok s" using assms(2) by (simp add: world_ok_def)
  have lt: "i < SLOT_MAX" and a: "sl_in_use (ct_slots s ! i)" "sl_addr (ct_slots s ! i) = addr"
    using i(1) slot_for_iff [OF tr] by auto
  have len: "length (ct_slots s) = SLOT_MAX" using tr by (simp add: tr_ok_def)
  note ok = tr_ok_slot [OF tr lt]
  let ?sl = "ct_slots s ! i" and ?h = "ct_next_handle s"
  let ?e = "\<lparr> ce_handle = ?h, ce_command_id = cmd, ce_exec_timeout_ms = t, ce_on_done = Some d, ce_args = args \<rparr>"
  let ?sl' = "?sl \<lparr> sl_q := (sl_q ?sl)[(sl_qh ?sl + sl_qn ?sl) mod CMD_QUEUE_DEPTH := ?e], sl_qn := sl_qn ?sl + 1 \<rparr>"
  let ?s1 = "s \<lparr> ct_next_handle := ?h + 1, ct_slots := (ct_slots s)[i := ?sl'] \<rparr>"
  have ent: "entries ?sl' = entries ?sl @ [?e]"
    using slot_queue_push [OF ok i(2), of ?e] by (simp add: entries_def)
  have sok: "slot_ok ?sl'"
    using ok ent a(1) i(2,3) by (simp add: slot_ok_def entry_ok_def)
  have nth: "ct_slots ?s1 ! k = (if k = i then ?sl' else ct_slots s ! k)" if "k < SLOT_MAX" for k
    using that len by simp
  have keep: "sl_in_use (ct_slots ?s1 ! k) = sl_in_use (ct_slots s ! k)" "sl_addr (ct_slots ?s1 ! k) = sl_addr (ct_slots s ! k)"
    if "k < SLOT_MAX" for k using nth [OF that] by simp_all
  have tr1: "tr_ok ?s1"
    unfolding tr_ok_def list_all_length
  proof (intro conjI allI impI)
    fix j k assume "j < SLOT_MAX" "k < SLOT_MAX" "sl_in_use (ct_slots ?s1 ! j)" "sl_in_use (ct_slots ?s1 ! k)"
      "sl_addr (ct_slots ?s1 ! j) = sl_addr (ct_slots ?s1 ! k)"
    then show "j = k" using tr keep by (simp add: tr_ok_def)
  next
    fix k assume "k < length (ct_slots ?s1)"
    then have "k < SLOT_MAX" using len by simp
    then show "slot_ok (ct_slots ?s1 ! k)" unfolding nth [OF \<open>k < SLOT_MAX\<close>] using sok tr_ok_slot [OF tr] by simp
  qed (use len in simp)
  have same: "slot_for b ?s1 = slot_for b s" for b
  proof -
    have "slot_for b ?s1 = Some j \<longleftrightarrow> slot_for b s = Some j" for j
      unfolding slot_for_iff [OF tr1] slot_for_iff [OF tr]
      by (cases "j < SLOT_MAX") (simp_all only: keep simp_thms)
    then show ?thesis by (metis option.exhaust)
  qed
  have w1: "world_ok ?s1" using assms(2) tr1 by (simp add: world_ok_def pend_ok_def)
  have led: "ledger ?s1 b = ledger s b @ (if b = addr then [?h] else [])" for b
  proof (cases "b = addr")
    case True
    then show ?thesis using same [of b] i(1) nth [OF lt] ent by (simp add: ledger_def completed_def held_def)
  next
    case False
    then have "slot_for b s \<noteq> Some i" using a slot_for_iff [OF tr] by auto
    then show ?thesis using same [of b] False by (auto simp: ledger_def completed_def held_def split: option.split)
  qed
  from worksD [OF works_pump [OF assms(1) lt] w1] obtain s2 where s2: "pump_slot pt i ?s1 = Ret ((), s2)" "world_ok s2"
    "ledger s2 = ledger ?s1" "ct_next_handle s2 = ?h + 1" by (auto simp: fair_def)
  have "cmd_tracker_submit pt addr cmd args t (Some d) s = Ret (?h, s2)"
    using i s2(1) by (simp add: cmd_tracker_submit_def upd_slot_def Let_def)
  then show ?thesis using s2 led by auto
qed

section \<open>Runs of the tracker\<close>

datatype 'd ct_op = Submit "8 word" "16 word" bytes "32 word" 'd | Add_slave "8 word" | Reset "8 word"
  | Ack "8 word" "16 word" | Nak "8 word" "16 word" | Flagged "8 word" "8 word" | Il_msg "8 word" bytes | Poll "64 word"
  | Link_frame frame_meta "bytes option" | Link_change link_state | Link_sweep "32 word"

fun ct_step :: "('env, 'o, 'd) tlogged port \<Rightarrow> 'd ct_op \<Rightarrow> (('env, 'o, 'd) tlogged, (8 word \<times> 32 word) list) act" where
  "ct_step pt (Submit addr cmd args t d) =
     bindA (cmd_tracker_submit pt addr cmd args t (Some d)) (\<lambda>h. retA (if h = 0 then [] else [(addr, h)]))"
| "ct_step pt (Add_slave addr) = seqA (cmd_tracker_add_slave addr) (retA [])"
| "ct_step pt (Reset status) = seqA (cmd_tracker_reset log_done status) (retA [])"
| "ct_step pt (Ack addr rid) = seqA (cmd_tracker_on_ack addr rid) (retA [])"
| "ct_step pt (Nak addr rid) = seqA (cmd_tracker_on_nak log_done pt addr rid) (retA [])"
| "ct_step pt (Flagged addr flags) = seqA (cmd_tracker_on_flagged pt addr flags) (retA [])"
| "ct_step pt (Il_msg addr msg) = seqA (cmd_tracker_on_interlock_msg addr (Some msg) (length msg)) (retA [])"
| "ct_step pt (Poll now) = seqA (cmd_tracker_poll log_done pt now) (retA [])"
| "ct_step pt (Link_frame meta payload) = seqA (on_link_frame (tracker_call pt) pt meta payload) (retA [])"
| "ct_step pt (Link_change st) = seqA (on_link_state (tracker_call pt) pt st) (retA [])"
| "ct_step pt (Link_sweep t) = seqA (sweep_timeouts (tracker_call pt) pt t) (retA [])"

definition ct_run :: "('env, 'o, 'd) tlogged port \<Rightarrow> 'd ct_op list \<Rightarrow> (('env, 'o, 'd) tlogged, (8 word \<times> 32 word) list) act" where
  "ct_run pt ops = bindA (mapA (ct_step pt) ops) (\<lambda>xs. retA (concat xs))"

fun inbound_ok :: "'d ct_op \<Rightarrow> bool" where
  "inbound_ok (Link_frame meta payload) = (case payload of None \<Rightarrow> True | Some bs \<Rightarrow> length bs = unat (fm_payload_len meta))"
| "inbound_ok _ = True"

fun submits :: "'d ct_op \<Rightarrow> bool" where
  "submits (Submit addr cmd args t d) = True"
| "submits _ = False"

definition for_slave :: "8 word \<Rightarrow> (8 word \<times> 32 word) list \<Rightarrow> 32 word list" where
  "for_slave a acc = map snd (filter (\<lambda>(b, _). b = a) acc)"

definition ct_start :: "'env \<Rightarrow> ('env, 'o, 'd) tlogged" where
  "ct_start e = tracker.extend (cmd_tracker_create e) (tlogged.fields [])"

lemma for_slave_append: "for_slave a (xs @ ys) = for_slave a xs @ for_slave a ys"
  by (simp add: for_slave_def)

lemma ct_step_fair:
  fixes pt :: "('env, 'o, 'd) tlogged port"
  assumes "plain pt" "world_ok s" "inbound_ok op" "\<not> submits op"
  shows "\<exists>s'. ct_step pt op s = Ret ([], s') \<and> world_ok s' \<and> ledger s' = ledger s \<and> ct_next_handle s' = ct_next_handle s"
proof -
  have q: "quiet pt" using assms(1) by (simp add: plain_def)
  have kept: "\<exists>s'. seqA m (retA []) s = Ret ([], s') \<and> world_ok s' \<and> ledger s' = ledger s \<and> ct_next_handle s' = ct_next_handle s"
    if "works m" for m :: "(('env, 'o, 'd) tlogged, 'x) act"
    using worksD [OF that assms(2)] by (auto simp: fair_def)
  note w = works_add works_reset works_ack works_nak [OF q] works_flagged [OF q] works_il_msg works_poll [OF q]
    works_demux_events(1,2) [OF assms(1)]
  show ?thesis
  proof (cases op)
    case (Link_frame meta payload)
    then have "works (on_link_frame (tracker_call pt) pt meta payload)"
      using assms(3) by (intro works_demux_events(3) [OF assms(1)]) simp
    from kept [OF this] show ?thesis unfolding Link_frame ct_step.simps .
  qed (use assms(4) in \<open>simp_all only: ct_step.simps submits.simps not_True_eq_False kept [OF w(1)] kept [OF w(2)] kept [OF w(3)]
    kept [OF w(4)] kept [OF w(5)] kept [OF w(6)] kept [OF w(7)] kept [OF w(8)] kept [OF w(9)]\<close>)
qed

text \<open>The invariant of a run: handles are given out one after the other, and the ledger is what was accepted.\<close>

definition ct_inv :: "nat \<Rightarrow> (8 word \<times> 32 word) list \<Rightarrow> ('env, 'o, 'd) tlogged \<Rightarrow> bool" where
  "ct_inv n acc s = (world_ok s \<and> unat (ct_next_handle s) = n + 1 \<and> (\<forall>a. for_slave a acc = ledger s a) \<and>
     distinct (map snd acc) \<and> (\<forall>(a, h) \<in> set acc. 0 < unat h \<and> unat h \<le> n))"

lemma ct_inv_nonzero: "ct_inv n acc s \<Longrightarrow> 0 \<notin> snd ` set acc"
  by (force simp: ct_inv_def)

lemma ct_step_inv:
  fixes pt :: "('env, 'o, 'd) tlogged port"
  assumes "plain pt" "ct_inv n acc s" "inbound_ok op" "submits op \<longrightarrow> n < 2 ^ 32 - 2"
  shows "\<exists>new s' m. ct_step pt op s = Ret (new, s') \<and> ct_inv m (acc @ new) s' \<and> m \<le> n + (if submits op then 1 else 0)"
proof (cases "submits op")
  case False
  from ct_step_fair [OF assms(1) _ assms(3) False] assms(2) obtain s' where
    "ct_step pt op s = Ret ([], s')" "world_ok s'" "ledger s' = ledger s" "ct_next_handle s' = ct_next_handle s"
    unfolding ct_inv_def by blast
  then show ?thesis using assms(2) by (auto simp: ct_inv_def)
next
  case True
  then obtain addr cmd args t d where op: "op = Submit addr cmd args t d" by (cases op) auto
  have q: "quiet pt" and w: "world_ok s" using assms(1,2) by (auto simp: plain_def ct_inv_def)
  obtain h s' where sub: "cmd_tracker_submit pt addr cmd args t (Some d) s = Ret (h, s')" "world_ok s'"
    "if h = 0 \<and> ct_next_handle s' = ct_next_handle s then ledger s' = ledger s
     else h = ct_next_handle s \<and> ct_next_handle s' = ct_next_handle s + 1 \<and>
       (\<forall>a. ledger s' a = ledger s a @ (if a = addr then [h] else []))"
    using submit_step [OF q w] by blast
  show ?thesis
  proof (cases "h = 0 \<and> ct_next_handle s' = ct_next_handle s")
    case True
    then show ?thesis using sub assms(2) by (auto simp: op ct_inv_def)
  next
    case False
    with sub(3) have h: "h = ct_next_handle s" "ct_next_handle s' = h + 1"
      "\<forall>a. ledger s' a = ledger s a @ (if a = addr then [h] else [])" by auto
    have n: "unat h = n + 1" using h(1) assms(2) by (simp add: ct_inv_def)
    have "h \<noteq> 0" using n by auto
    moreover have "unat (h + 1) = n + 2"
      using n assms(4) True by (simp add: unat_word_ariths)
    moreover have "h \<notin> snd ` set acc" using n assms(2) by (fastforce simp: ct_inv_def)
    ultimately have "ct_inv (n + 1) (acc @ [(addr, h)]) s'"
      using assms(2) sub(2) h n by (auto simp: ct_inv_def for_slave_append for_slave_def)
    then show ?thesis using sub(1) \<open>h \<noteq> 0\<close> True by (auto simp: op)
  qed
qed

lemma ct_run_inv:
  fixes pt :: "('env, 'o, 'd) tlogged port"
  assumes "plain pt" "ct_inv n acc s" "list_all inbound_ok ops" "n + length (filter submits ops) \<le> 2 ^ 32 - 2"
  shows "\<exists>new s' m. ct_run pt ops s = Ret (new, s') \<and> ct_inv m (acc @ new) s'"
  using assms(2-)
proof (induction ops arbitrary: n acc s)
  case Nil
  then show ?case by (auto simp: ct_run_def)
next
  case (Cons op ops)
  obtain new s1 m where s1: "ct_step pt op s = Ret (new, s1)" "ct_inv m (acc @ new) s1" "m \<le> n + (if submits op then 1 else 0)"
    using ct_step_inv [OF assms(1) Cons.prems(1)] Cons.prems(2,3) by (fastforce split: if_splits)
  from Cons.IH [OF s1(2)] Cons.prems(2,3) s1(3) obtain new' s2 m' where
    "ct_run pt ops s1 = Ret (new', s2)" "ct_inv m' (acc @ new @ new') s2" by (auto split: if_splits)
  with s1(1) show ?case by (auto simp: ct_run_def)
qed

lemma ct_start_inv: "ct_inv 0 [] (ct_start e :: ('env, 'o, 'd) tlogged)"
proof -
  let ?s = "ct_start e :: ('env, 'o, 'd) tlogged"
  have f: "ct_slots ?s = replicate SLOT_MAX clear_slot" "ct_log ?s = []" "ct_next_handle ?s = 1"
    "dx_pending ?s = replicate PENDING_MAX free_entry"
    by (simp_all add: ct_start_def cmd_tracker_create_def demux_create_def demux.defs tracker.defs tlogged.defs)
  have "\<not> sl_in_use (clear_slot :: 'd slot)" by (simp add: clear_slot_def)
  then have "slot_for a ?s = None" for a by (simp add: slot_for_def first_index_None f)
  moreover have "world_ok ?s"
    using clear_slot_ok(1) \<open>\<not> sl_in_use (clear_slot :: 'd slot)\<close>
    by (auto simp: world_ok_def tr_ok_def pend_ok_def f list_all_iff free_entry_def)
  ultimately show ?thesis by (simp add: ct_inv_def f for_slave_def ledger_def completed_def held_def)
qed

text \<open>
  C27. Every command is completed once and in order, over a link whose send never calls back (the
  contract of \<open>link_endpoint.h\<close>; \<open>usb_link.c\<close> breaks it when a write fails, and \<open>resend_link_loss\<close>
  shows what then happens), with no event or state handler of the client, and with completion callbacks
  that only write the completion down and submit nothing. Over any run of submissions, acknowledgements,
  refusals, replies, interlock reports, polls, timeouts, link losses reported between the operations,
  slaves being added and resets of the tracker (fewer than 2^32 - 1 submissions), where the link takes
  or refuses each frame as it likes: the run returns, the handles given out are
  all different and none is zero, and for every slave the handles accepted, in the order of
  acceptance, are those whose callback has been called, in the order it was, followed by those the
  slave's slot still holds (the command in flight, then the queue). So no command is lost,
  completed twice, or overtaken by a later one of the same slave, and no callback is called for a
  command that was not accepted.
\<close>

theorem tracker_exactly_once_in_order:
  fixes pt :: "('env, 'o, 'd) tlogged port"
  assumes "plain pt" "list_all inbound_ok ops" "length (filter submits ops) \<le> 2 ^ 32 - 2"
  shows "\<exists>acc s'. ct_run pt ops (ct_start e) = Ret (acc, s') \<and> distinct (map snd acc) \<and> 0 \<notin> snd ` set acc \<and>
    (\<forall>a. for_slave a acc = completed s' a @ held s' a \<and> length (held s' a) \<le> 6)"
proof -
  obtain acc s' m where r: "ct_run pt ops (ct_start e) = Ret (acc, s')" "ct_inv m acc s'"
    using ct_run_inv [OF assms(1) ct_start_inv [of e] assms(2)] assms(3) by auto
  have w: "tr_ok s'" using r(2) by (simp add: ct_inv_def world_ok_def)
  have "length (held s' a) \<le> 6" for a
  proof (cases "slot_for a s'")
    case (Some i)
    then have "sl_qn (ct_slots s' ! i) \<le> 5"
      using tr_ok_slot [OF w slot_for_less [OF w Some]] by (simp add: slot_ok_def CMD_QUEUE_DEPTH_def)
    then show ?thesis using Some by (simp add: held_def entries_def)
  qed (simp add: held_def)
  with r ct_inv_nonzero [OF r(2)] show ?thesis by (auto simp: ct_inv_def ledger_def)
qed

definition demo_tracker_port :: "(unit, nat, nat) tlogged port" where
  "demo_tracker_port = \<lparr> link_send = (\<lambda>m p. retA 0), mono_ms = retA 5, on_event = None, on_state = None \<rparr>"

lemma demo_tracker_port_plain: "plain demo_tracker_port"
  by (auto simp: plain_def quiet_def demo_tracker_port_def intro: exI [of _ "()"])

theorem tracker_exactly_once_in_order_witness:
  "\<exists>acc s'. ct_run demo_tracker_port [Add_slave 3, Submit 3 8 [1] 100 70, Submit 3 9 [] 100 71, Ack 3 1, Poll 5000,
      Link_change LINK_DOWN, Reset 0xFE] (ct_start ()) = Ret (acc, s') \<and> distinct (map snd acc) \<and>
    for_slave 3 acc = completed s' 3 @ held s' 3"
  using tracker_exactly_once_in_order [OF demo_tracker_port_plain,
      of "[Add_slave 3, Submit 3 8 [1] 100 70, Submit 3 9 [] 100 71, Ack 3 1, Poll 5000, Link_change LINK_DOWN, Reset 0xFE]" "()"]
  by auto

section \<open>A loss reported from inside a resend\<close>

text \<open>
  The same device once the link is down (it refuses every frame, as \<open>usb_send\<close> does then), and the device
  whose next write fails: \<open>usb_send\<close> takes the link down, calls the demultiplexer's \<open>on_link_state\<close> and
  returns 0.
\<close>

definition down_port :: "(unit, nat, nat) tlogged port" where
  "down_port = \<lparr> link_send = (\<lambda>m p. retA (-1)), mono_ms = retA 5, on_event = None, on_state = None \<rparr>"

definition failing_port :: "(unit, nat, nat) tlogged port" where
  "failing_port = down_port \<lparr> link_send := (\<lambda>m p. seqA (on_link_state (tracker_call down_port) down_port LINK_DOWN) (retA 0)) \<rparr>"

text \<open>Slave 3's command waits for its acknowledgement; its request, number 1, is in the table.\<close>

definition demo_sent :: "(unit, nat, nat) tlogged" where
  "demo_sent = (ct_start ()) \<lparr> dx_next_id := 2, dx_pending := (replicate PENDING_MAX free_entry)
       [0 := \<lparr> pe_in_use = True, pe_request_id = 1, pe_cb = Some (On_tracker_reply 0), pe_sent_ms = 0 \<rparr>],
     ct_slots := (replicate SLOT_MAX clear_slot) [0 := clear_slot
     \<lparr> sl_in_use := True, sl_addr := 3, sl_state := CMD_SLOT_SENT, sl_has_inflight := True, sl_inflight_rid := 1,
       sl_inflight := \<lparr> ce_handle = 1, ce_command_id = 8, ce_exec_timeout_ms = 100, ce_on_done = Some 70, ce_args = [] \<rparr> \<rparr>] \<rparr>"

text \<open>
  The resend completes the command with LINK_DOWN, and then marks its slot as waiting for an
  acknowledgement of a command that is no longer there.
\<close>

lemma resend_link_loss:
  "\<exists>s'. resend_or_fail log_done failing_port 0 DEMUX_STATUS_TIMEOUT demo_sent = Ret ((), s') \<and>
     ct_log s' = [(3, 1, DEMUX_STATUS_LINK_DOWN, [], 70)] \<and>
     sl_state (ct_slots s' ! 0) = CMD_SLOT_SENT \<and> \<not> sl_has_inflight (ct_slots s' ! 0)"
proof -
  let ?call = "tracker_call down_port" and ?sl = "ct_slots demo_sent ! 0" and ?p = "dx_pending demo_sent ! 0"
  let ?body = "\<lambda>i s. if pe_in_use (dx_pending s ! i) then resolve ?call i DEMUX_STATUS_LINK_DOWN [] s else Ret ((), s)"
  let ?s1 = "demo_sent \<lparr> dx_next_id := 3, dx_tx_seq := 1, ct_slots := (ct_slots demo_sent)[0 := ?sl \<lparr> sl_retries := Suc 0 \<rparr>] \<rparr>"
  let ?s2 = "?s1 \<lparr> dx_pending := (dx_pending demo_sent)[0 := ?p \<lparr> pe_in_use := False \<rparr>],
    ct_slots := (ct_slots demo_sent)[0 := ?sl \<lparr> sl_retries := Suc 0, sl_has_inflight := False, sl_inflight_rid := 0, sl_state := CMD_SLOT_IDLE \<rparr>],
    ct_log := [(3, 1, DEMUX_STATUS_LINK_DOWN, [], 70)] \<rparr>"
  have idle: "eachA ?body is u = Ret ((), u)" if "\<forall>i \<in> set is. \<not> pe_in_use (dx_pending u ! i)"
    for "is" and u :: "(unit, nat, nat) tlogged" using that by (induction "is") simp_all
  have f: "dx_next_id demo_sent = 2" "dx_tx_seq demo_sent = 0" "ct_log demo_sent = []" "ct_now demo_sent = 0"
    "length (ct_slots demo_sent) = SLOT_MAX" "length (dx_pending demo_sent) = PENDING_MAX"
    by (simp_all add: demo_sent_def ct_start_def cmd_tracker_create_def demux_create_def demux.defs tracker.defs tlogged.defs)
  have sl: "sl_addr ?sl = 3" "sl_retries ?sl = 0" "sl_has_inflight ?sl" "sl_inflight_rid ?sl = 1" "sl_qn ?sl = 0"
    "ce_args (sl_inflight ?sl) = []" "ce_handle (sl_inflight ?sl) = 1" "ce_on_done (sl_inflight ?sl) = Some 70"
    and p: "?p = \<lparr> pe_in_use = True, pe_request_id = 1, pe_cb = Some (On_tracker_reply 0), pe_sent_ms = 0 \<rparr>"
    by (simp_all add: demo_sent_def SLOT_MAX_def PENDING_MAX_def clear_slot_def)
  have free: "\<not> pe_in_use (dx_pending demo_sent ! i)" if "i \<in> set [1..<PENDING_MAX]" for i
    using that by (auto simp: demo_sent_def free_entry_def)
  have alloc: "pending_alloc demo_sent = Some 1"
    by (simp add: pending_alloc_def first_index_def demo_sent_def PENDING_MAX_def eval_nat_numeral free_entry_def upt_rec)
  have head: "?body 0 ?s1 = Ret ((), ?s2)"
    using f sl p by (simp add: resolve_def reply_call_def on_tracker_reply_def complete_inflight_def pump_slot_def upd_slot_def
        log_done_def SLOT_MAX_def PENDING_MAX_def Let_def)
  have tail: "eachA ?body [1..<PENDING_MAX] ?s2 = Ret ((), ?s2)" by (rule idle) (use free in auto)
  have cons: "eachA b (i # is) u = r" if "b i u = Ret ((), v)" "eachA b is v = r"
    for b i "is" r and u v :: "(unit, nat, nat) tlogged" using that by simp
  have upt: "[0..<PENDING_MAX] = 0 # [1..<PENDING_MAX]" by (simp add: PENDING_MAX_def upt_rec)
  have "eachA ?body [0..<PENDING_MAX] ?s1 = Ret ((), ?s2)" unfolding upt by (rule cons [OF head tail])
  moreover have "on_state down_port = None" by (simp add: down_port_def)
  ultimately have down: "on_link_state ?call down_port LINK_DOWN ?s1 = Ret ((), ?s2)"
    by (simp add: on_link_state_def del: if_split)
  let ?p2 = "\<lparr> pe_in_use = True, pe_request_id = 2, pe_cb = Some (On_tracker_reply 0), pe_sent_ms = 5 \<rparr>"
  let ?s0 = "demo_sent \<lparr> ct_slots := (ct_slots demo_sent)[0 := ?sl \<lparr> sl_retries := Suc 0 \<rparr>] \<rparr>"
  have alloc0: "pending_alloc ?s0 = Some 1" using alloc by (simp add: pending_alloc_def)
  have port: "link_send failing_port = (\<lambda>m p. seqA (on_link_state ?call down_port LINK_DOWN) (retA 0))" "mono_ms failing_port = retA 5"
    by (simp_all add: failing_port_def down_port_def)
  have "?s0 \<lparr> dx_next_id := 3, dx_tx_seq := 1 \<rparr> = ?s1" by simp
  then have lost: "on_link_state ?call down_port LINK_DOWN (?s0 \<lparr> dx_next_id := 3, dx_tx_seq := 1 \<rparr>) = Ret ((), ?s2)"
    using down by metis
  have send: "demux_send_bus_exec failing_port 3 cmd to [] (Some (On_tracker_reply 0)) ?s0 =
      Ret (2, ?s2 \<lparr> dx_pending := (dx_pending ?s2)[1 := ?p2] \<rparr>)" for cmd to
    using alloc0 f by (simp add: demux_send_bus_exec_def send_request_def send_frame_addr_def port BUS_EXEC_HDR_def
        COMM_PAYLOAD_MAX_def u16_id lost del: res_bind_Ret_iff)
  show ?thesis using f sl send
    by (simp add: resend_or_fail_def upd_slot_def send_inflight_def Let_def MAX_ACK_RETRIES_def SLOT_MAX_def)
qed

text \<open>
  Such a slot never becomes idle again: when its resends are used up, a poll has nothing to complete and
  leaves it, and the queue behind it, as they are (only a reset of the tracker clears it).
\<close>

lemma emptied_slot_stuck:
  assumes "sl_state (ct_slots s ! i) = CMD_SLOT_SENT" "\<not> sl_has_inflight (ct_slots s ! i)"
    "sl_retries (ct_slots s ! i) \<ge> MAX_ACK_RETRIES"
  shows "poll_slot log_done pt now i s = Ret ((), s)"
  using assms by (simp add: poll_slot_def resend_or_fail_def complete_inflight_def pump_slot_def Let_def)

section \<open>A command that is not acknowledged\<close>

lemma poll_slot_step:
  assumes "quiet pt" "tr_ok s" "i < SLOT_MAX"
  shows "\<exists>s' out. poll_slot log_done pt now i s = Ret ((), s') \<and> slot_step i out s s'"
  using resend_step [OF assms, of DEMUX_STATUS_TIMEOUT] complete_pump_step [OF assms, of DEMUX_STATUS_TIMEOUT "[]"]
    pump_slot_step [OF assms] slot_step_refl [OF assms(2,3)]
  by (auto simp: poll_slot_def Let_def; metis)

text \<open>A slot whose command has been sent and is not acknowledged.\<close>

definition unacked :: "8 word \<Rightarrow> 'd cmd_entry \<Rightarrow> nat \<Rightarrow> 64 word \<Rightarrow> 'd slot \<Rightarrow> bool" where
  "unacked a e r t sl = (sl_in_use sl \<and> sl_addr sl = a \<and> sl_state sl = CMD_SLOT_SENT \<and> sl_inflight sl = e \<and>
     sl_retries sl = r \<and> sl_sent_ms sl = t)"

definition gave_up :: "8 word \<Rightarrow> 'd cmd_entry \<Rightarrow> ('env, 'o, 'd) tlogged \<Rightarrow> bool" where
  "gave_up a e s = ((a, ce_handle e, DEMUX_STATUS_TIMEOUT, [], the (ce_on_done e)) \<in> set (ct_log s))"

lemma poll_slot_unacked:
  assumes "quiet pt" "tr_ok s" "i < SLOT_MAX" "unacked a e r t (ct_slots s ! i)" "now - t \<ge> ACK_TIMEOUT_MS" "ct_now s = now"
    "poll_slot log_done pt now i s = Ret ((), s')"
  shows "if r < MAX_ACK_RETRIES then unacked a e (r + 1) now (ct_slots s' ! i) else gave_up a e s'"
proof -
  let ?sl = "ct_slots s ! i"
  have u: "sl_in_use ?sl" "sl_addr ?sl = a" "sl_state ?sl = CMD_SLOT_SENT" "sl_inflight ?sl = e" "sl_retries ?sl = r"
    "sl_sent_ms ?sl = t" using assms(4) by (simp_all add: unacked_def)
  have run: "resend_or_fail log_done pt i DEMUX_STATUS_TIMEOUT s = Ret ((), s')"
    using assms(5,7) u by (simp add: poll_slot_def Let_def)
  have len: "i < length (ct_slots s)" using assms(2,3) by (simp add: tr_ok_def)
  have has: "sl_has_inflight ?sl" using tr_ok_slot [OF assms(2,3)] u(3) by (simp add: slot_ok_def)
  have "e \<in> set (entries ?sl)" using has u(4) by (simp add: entries_def)
  from entry_args [OF assms(2,3) this] obtain d where e: "length (ce_args e) \<le> CMD_ARG_MAX" "ce_on_done e = Some d" by blast
  show ?thesis
  proof (cases "r < MAX_ACK_RETRIES")
    case True
    let ?s1 = "s \<lparr> ct_slots := (ct_slots s)[i := ?sl \<lparr> sl_retries := r + 1 \<rparr>] \<rparr>"
    have "i < length (ct_slots ?s1)" "length (ce_args (sl_inflight (ct_slots ?s1 ! i))) \<le> CMD_ARG_MAX" using len e(1) u(4) by simp_all
    from send_inflight_run [OF assms(1) this] obtain rc sl' e' n q ps where
      "send_inflight pt i ?s1 = Ret (rc, ?s1 \<lparr> env := e', dx_next_id := n, dx_tx_seq := q, dx_pending := ps,
        ct_slots := (ct_slots ?s1)[i := sl'] \<rparr>)"
      "if rc = 0 then \<exists>rid. sl' = (ct_slots ?s1 ! i) \<lparr> sl_sent_ms := ct_now ?s1, sl_inflight_rid := rid, sl_state := CMD_SLOT_SENT, sl_ack_ms := 0 \<rparr>
       else sl' = (ct_slots ?s1 ! i) \<lparr> sl_sent_ms := ct_now ?s1 \<rparr>" by blast
    then show ?thesis
      using run True len u assms(6) by (auto simp: resend_or_fail_def upd_slot_def unacked_def split: if_splits)
  next
    case False
    let ?s1 = "s \<lparr> ct_slots := (ct_slots s)[i := ?sl \<lparr> sl_has_inflight := False, sl_inflight_rid := 0, sl_state := CMD_SLOT_IDLE \<rparr>],
      ct_log := ct_log s @ [(a, ce_handle e, DEMUX_STATUS_TIMEOUT, [], d)] \<rparr>"
    have c: "complete_inflight log_done i DEMUX_STATUS_TIMEOUT [] s = Ret ((), ?s1)"
      using has u e(2) by (simp add: complete_inflight_def upd_slot_def log_done_def Let_def)
    obtain s2 s3 where s2: "complete_inflight log_done i DEMUX_STATUS_TIMEOUT [] s = Ret ((), s2)"
      "pump_slot pt i s2 = Ret ((), s3)" "slot_step i [] s2 s3" using complete_pump_step [OF assms(1-3)] by blast
    then have "s2 = ?s1" "s3 = s'" using c run False u(5) by (simp_all add: resend_or_fail_def)
    then show ?thesis using slot_step_log [OF s2(3)] False e(2) by (auto simp: gave_up_def)
  qed
qed

lemma poll_unacked:
  fixes s :: "('env, 'o, 'd) tlogged" and pt :: "('env, 'o, 'd) tlogged port"
  assumes "quiet pt" "world_ok s" "i < SLOT_MAX" "unacked a e r t (ct_slots s ! i)" "now - t \<ge> ACK_TIMEOUT_MS"
  shows "\<exists>s'. cmd_tracker_poll log_done pt now s = Ret ((), s') \<and> world_ok s' \<and> (\<exists>new. ct_log s' = ct_log s @ new) \<and>
    (if r < MAX_ACK_RETRIES then unacked a e (r + 1) now (ct_slots s' ! i) else gave_up a e s')"
proof -
  let ?s0 = "s \<lparr> ct_now := now \<rparr>"
  let ?after = "\<lambda>t. if r < MAX_ACK_RETRIES then unacked a e (r + 1) now (ct_slots t ! i) else gave_up a e t"
  let ?I = "\<lambda>k (u :: ('env, 'o, 'd) tlogged). world_ok u \<and> ct_now u = now \<and> (\<exists>new. ct_log u = ct_log s @ new) \<and>
    (k \<le> i \<longrightarrow> ct_slots u ! i = ct_slots s ! i) \<and> (i < k \<longrightarrow> ?after u)"
  have "\<exists>s'. eachA (poll_slot log_done pt now) [0..<SLOT_MAX] ?s0 = Ret ((), s') \<and> ?I (length [0..<SLOT_MAX]) s'"
  proof (rule eachA_invariant)
    have "world_ok ?s0" using worksD [OF works_set_now assms(2), of now] by (auto simp: fair_def)
    then show "?I 0 ?s0" by simp
    fix k and u :: "('env, 'o, 'd) tlogged" assume k: "k < length [0..<SLOT_MAX]" and I: "?I k u"
    have lt: "k < SLOT_MAX" using k by simp
    have tr: "tr_ok u" using I by (simp add: world_ok_def)
    obtain u' out where u': "poll_slot log_done pt now k u = Ret ((), u')" "slot_step k out u u'"
      using poll_slot_step [OF assms(1) tr lt] by blast
    have w: "world_ok u'" using fair_step [OF conjunct1 [OF I] lt u'(2)] by (auto simp: fair_def)
    have other: "k \<noteq> i \<Longrightarrow> ct_slots u' ! i = ct_slots u ! i" using u'(2) by (auto simp: slot_step_def)
    obtain new where log: "ct_log u' = ct_log u @ new" using slot_step_log [OF u'(2)] by blast
    have "?after u'" if "i < Suc k"
    proof (cases "i = k")
      case True
      have "unacked a e r t (ct_slots u ! k)" "ct_now u = now" using assms(4) I True by simp_all
      from poll_slot_unacked [OF assms(1) tr lt this(1) assms(5) this(2) u'(1)] show ?thesis unfolding True .
    next
      case False
      then have "?after u" "ct_slots u' ! i = ct_slots u ! i" using that I other by auto
      then show ?thesis using log by (auto simp: gave_up_def)
    qed
    then show "\<exists>s'. poll_slot log_done pt now ([0..<SLOT_MAX] ! k) u = Ret ((), s') \<and> ?I (Suc k) s'"
      using u'(1) w lt I other log slot_step_now [OF u'(2)] by (intro exI [of _ u']) auto
  qed
  then show ?thesis using assms(3) by (auto simp: cmd_tracker_poll_def simp del: eachA.simps)
qed

text \<open>
  C28. A command that is never acknowledged does not wait for ever, over a link whose send never calls
  back and with completion callbacks that only write the completion down. Take a slot whose command has
  been sent and three polls, each at least 1500 ms after the one before and the first 1500 ms after
  the sending, with nothing between them: the polls return, and the command's callback has been called
  with TIMEOUT, whether the link takes or refuses the resent frames and whatever the other slots hold.
  A link that reports its loss from inside a resend completes the command with LINK_DOWN instead
  (\<open>resend_link_loss\<close>).
\<close>

theorem unacked_command_gives_up:
  fixes s :: "('env, 'o, 'd) tlogged" and pt :: "('env, 'o, 'd) tlogged port"
  assumes "quiet pt" "world_ok s" "i < SLOT_MAX" "unacked a e 0 t0 (ct_slots s ! i)"
    "t1 - t0 \<ge> ACK_TIMEOUT_MS" "t2 - t1 \<ge> ACK_TIMEOUT_MS" "t3 - t2 \<ge> ACK_TIMEOUT_MS"
  shows "\<exists>s'. eachA (cmd_tracker_poll log_done pt) [t1, t2, t3] s = Ret ((), s') \<and>
    (a, ce_handle e, DEMUX_STATUS_TIMEOUT, [], the (ce_on_done e)) \<in> set (ct_log s') \<and> world_ok s'"
proof -
  obtain s1 where s1: "cmd_tracker_poll log_done pt t1 s = Ret ((), s1)" "world_ok s1" "unacked a e 1 t1 (ct_slots s1 ! i)"
    using poll_unacked [OF assms(1-5)] by (auto simp: MAX_ACK_RETRIES_def)
  obtain s2 where s2: "cmd_tracker_poll log_done pt t2 s1 = Ret ((), s2)" "world_ok s2" "unacked a e 2 t2 (ct_slots s2 ! i)"
    using poll_unacked [OF assms(1) s1(2) assms(3) s1(3) assms(6)] by (auto simp: MAX_ACK_RETRIES_def numeral_2_eq_2)
  obtain s3 where "cmd_tracker_poll log_done pt t3 s2 = Ret ((), s3)" "world_ok s3" "gave_up a e s3"
    using poll_unacked [OF assms(1) s2(2) assms(3) s2(3) assms(7)] by (auto simp: MAX_ACK_RETRIES_def)
  with s1(1) s2(1) show ?thesis by (auto simp: gave_up_def)
qed

text \<open>One command sent to slave 3 at the clock's zero.\<close>

definition demo_unacked :: "(unit, nat, nat) tlogged" where
  "demo_unacked = (ct_start ()) \<lparr> ct_slots := (replicate SLOT_MAX clear_slot) [0 := clear_slot
     \<lparr> sl_in_use := True, sl_addr := 3, sl_state := CMD_SLOT_SENT, sl_has_inflight := True, sl_inflight_rid := 1,
       sl_inflight := \<lparr> ce_handle = 1, ce_command_id = 8, ce_exec_timeout_ms = 100, ce_on_done = Some 70, ce_args = [] \<rparr> \<rparr>] \<rparr>"

theorem unacked_command_gives_up_witness:
  "\<exists>s'. eachA (cmd_tracker_poll log_done demo_tracker_port) [1500, 3000, 4600] demo_unacked = Ret ((), s') \<and>
    (3, 1, DEMUX_STATUS_TIMEOUT, [], 70) \<in> set (ct_log s')"
proof -
  let ?e = "\<lparr> ce_handle = 1, ce_command_id = 8, ce_exec_timeout_ms = 100, ce_on_done = Some 70, ce_args = [] \<rparr> :: nat cmd_entry"
  have q: "quiet demo_tracker_port" using demo_tracker_port_plain by (simp add: plain_def)
  have slots: "ct_slots demo_unacked ! k = (if k = 0 then clear_slot
     \<lparr> sl_in_use := True, sl_addr := 3, sl_state := CMD_SLOT_SENT, sl_has_inflight := True, sl_inflight_rid := 1,
       sl_inflight := ?e \<rparr> else clear_slot)" if "k < SLOT_MAX" for k
    using that by (simp add: demo_unacked_def)
  have w: "world_ok demo_unacked"
  proof -
    have "pend_ok demo_unacked"
      using ct_start_inv [of "()", where 'o = nat and 'd = nat] by (simp add: ct_inv_def world_ok_def demo_unacked_def pend_ok_def)
    moreover have "slot_ok (ct_slots demo_unacked ! k)" if "k < SLOT_MAX" for k
      unfolding slots [OF that]
      by (simp add: slot_ok_def clear_slot_def entries_def CMD_QUEUE_DEPTH_def entry_ok_def)
    moreover have "k = 0" if "k < SLOT_MAX" "sl_in_use (ct_slots demo_unacked ! k)" for k
      using that(2) unfolding slots [OF that(1)] by (simp add: clear_slot_def split: if_splits)
    moreover have "length (ct_slots demo_unacked) = SLOT_MAX" by (simp add: demo_unacked_def)
    ultimately show ?thesis unfolding world_ok_def tr_ok_def list_all_length by metis
  qed
  have "unacked 3 ?e 0 0 (ct_slots demo_unacked ! 0)"
    by (simp add: slots SLOT_MAX_def unacked_def) (simp add: clear_slot_def)
  from unacked_command_gives_up [OF q w _ this, of 1500 3000 4600] show ?thesis
    by (auto simp: SLOT_MAX_def ACK_TIMEOUT_MS_def simp del: eachA.simps)
qed

end
