(* ===== verification/Bus_Controller.thy ===== *)
theory Bus_Controller
  imports Bus_Tracker
begin

text \<open>
  The bus controller (\<open>linux/bus_controller/controller.c\<close>, \<open>identity.c\<close>): the portable layer
  above the demultiplexer and the command tracker. It captures the identity the attached dongle
  announces, drives the synchronisation ladder, pushes the roster of slaves down to the dongle,
  turns what the bus reports into events of a queue, and heals lost interlock messages.

  The state extends the tracker's. The callbacks a client registers are names of type \<open>'u\<close>; the
  code they stand for is the argument \<open>cl\<close>, acts on the whole state.
\<close>

section \<open>Identity\<close>

definition REGISTER_V2_LEN :: nat where "REGISTER_V2_LEN = 38"
definition REGISTER_V2_VER :: "8 word" where "REGISTER_V2_VER = 2"
definition CLASS_ID_DONGLE :: "32 word" where "CLASS_ID_DONGLE = 0x5E588873"
definition CLASS_ID_BUS_CONTROLLER :: "32 word" where "CLASS_ID_BUS_CONTROLLER = 0x5E589000"
definition CLASS_ID_SLAVE :: "32 word" where "CLASS_ID_SLAVE = 0x5E589100"

datatype dongle_role = ROLE_UNKNOWN | ROLE_DONGLE | ROLE_BUS_CONTROLLER | ROLE_SLAVE

record dongle_identity =
  id_version :: "8 word"
  id_class_id :: "32 word"
  id_instance_id :: "32 word"
  id_commissioning_state :: "8 word"
  id_chip_uid :: bytes
  id_vid :: "16 word"
  id_pid :: "16 word"
  id_fw_version :: "32 word"
  id_build_date :: "32 word"

definition zero_identity :: dongle_identity where
  "zero_identity = \<lparr> id_version = 0, id_class_id = 0, id_instance_id = 0, id_commissioning_state = 0,
     id_chip_uid = replicate 16 0, id_vid = 0, id_pid = 0, id_fw_version = 0, id_build_date = 0 \<rparr>"

definition rd_u16 :: "bytes \<Rightarrow> nat \<Rightarrow> 16 word" where
  "rd_u16 p k = ucast (p ! k) OR push_bit 8 (ucast (p ! (k + 1)))"

definition rd_u32 :: "bytes \<Rightarrow> nat \<Rightarrow> 32 word" where
  "rd_u32 p k = ucast (p ! k) OR push_bit 8 (ucast (p ! (k + 1))) OR push_bit 16 (ucast (p ! (k + 2))) OR
     push_bit 24 (ucast (p ! (k + 3)))"

definition wr_u32le :: "32 word \<Rightarrow> bytes" where
  "wr_u32le v = [ucast v, ucast (drop_bit 8 v), ucast (drop_bit 16 v), ucast (drop_bit 24 v)]"

definition identity_parse_register :: "bytes option \<Rightarrow> nat \<Rightarrow> dongle_identity option" where
  "identity_parse_register payload len = (case payload of
     None \<Rightarrow> None
   | Some p \<Rightarrow>
       if len < REGISTER_V2_LEN then None
       else if p ! 0 \<noteq> REGISTER_V2_VER then None
       else Some \<lparr> id_version = p ! 0, id_class_id = rd_u32 p 1, id_instance_id = rd_u32 p 5,
         id_commissioning_state = p ! 9, id_chip_uid = take 16 (drop 10 p), id_vid = rd_u16 p 26, id_pid = rd_u16 p 28,
         id_fw_version = rd_u32 p 30, id_build_date = rd_u32 p 34 \<rparr>)"

definition identity_role :: "32 word \<Rightarrow> dongle_role" where
  "identity_role class_id =
     (if class_id = CLASS_ID_DONGLE then ROLE_DONGLE
      else if class_id = CLASS_ID_BUS_CONTROLLER then ROLE_BUS_CONTROLLER
      else if class_id = CLASS_ID_SLAVE then ROLE_SLAVE
      else ROLE_UNKNOWN)"

section \<open>State\<close>

text \<open>The roster's array and count are the list of the slaves in use.\<close>

record roster_slave =
  rs_addr :: "8 word"
  rs_class_id :: "32 word"
  rs_flags :: "8 word"

record roster =
  ro_poll_cfg_set :: bool
  ro_poll_period_ms :: "16 word"
  ro_max_misses :: "8 word"
  ro_tcp_retries :: "8 word"
  ro_slaves :: "roster_slave list"

datatype proto_state = PROTO_UNKNOWN | PROTO_BOOT | PROTO_L1_ACKED | PROTO_MANIFEST_OK | PROTO_OPERATIONAL
datatype prov_state = PROV_IDLE | PROV_CLEAR | PROV_REGISTER | PROV_SET_POLL | PROV_LIST | PROV_DONE | PROV_FAIL

record manifest =
  mf_valid :: bool
  mf_schema_hash :: "32 word"
  mf_fw_version :: "32 word"
  mf_m2s_count :: "8 word"

datatype ctrl_ev_kind = CTRL_EV_CMD_DONE | CTRL_EV_FLAGGED | CTRL_EV_INTERLOCK | CTRL_EV_LIVENESS | CTRL_EV_LINK

text \<open>The data pointer of an event is the number of the payload slot it points to.\<close>

record ctrl_event =
  ev_kind :: ctrl_ev_kind
  ev_addr :: "8 word"
  ev_status :: "8 word"
  ev_handle :: "32 word"
  ev_aux :: "32 word"
  ev_data :: "nat option"
  ev_data_len :: nat

datatype 'u ctl_reply = On_prov_reply | Ev_on_done_ungated | Client_reply 'u
datatype 'u ctl_done = Ev_on_done | Client_done 'u

record ('env, 'u) controller = "('env, 'u ctl_reply, 'u ctl_done) tracker" +
  cc_link :: link_state
  cc_have_identity :: bool
  cc_identity :: dongle_identity
  cc_proto :: proto_state
  cc_manifest :: manifest
  cc_last_ack_ms :: "64 word"
  cc_get_manifest_at :: "64 word"
  cc_get_manifest_pending :: bool
  cc_proto_cb :: "'u option"
  cc_liveness_cb :: "'u option"
  cc_flagged_cb :: "'u option"
  cc_have_roster :: bool
  cc_roster :: roster
  cc_prov :: prov_state
  cc_prov_idx :: nat
  cc_bc_total :: "8 word"
  cc_status_reports :: "32 word"
  cc_gap_since :: "64 word list"
  cc_repush_at :: "64 word list"
  cc_repushes :: "32 word"
  cc_evq :: "ctrl_event list"
  cc_evq_data :: "bytes list"
  cc_evq_head :: nat
  cc_evq_count :: nat

type_synonym ('env, 'u, 'z, 'a) cact = "(('env, 'u, 'z) controller_scheme, 'a) act"

record ('u, 's) client =
  cl_reply :: "('u, 's) caller"
  cl_done :: "('u, 's) done_fn"
  cl_proto :: "'u \<Rightarrow> proto_state \<Rightarrow> proto_state \<Rightarrow> ('s, unit) act"
  cl_liveness :: "'u \<Rightarrow> 8 word \<Rightarrow> bool \<Rightarrow> 32 word \<Rightarrow> ('s, unit) act"
  cl_flagged :: "'u \<Rightarrow> 8 word \<Rightarrow> 8 word \<Rightarrow> ('s, unit) act"

definition ROSTER_MAX_SLAVES :: nat where "ROSTER_MAX_SLAVES = 16"
definition CTRL_EVQ_CAP :: nat where "CTRL_EVQ_CAP = 128"
definition CTRL_EV_DATA_MAX :: nat where "CTRL_EV_DATA_MAX = 64"
definition OP_REGISTER :: "16 word" where "OP_REGISTER = 0x0001"
definition OP_HEARTBEAT :: "16 word" where "OP_HEARTBEAT = 0x0002"
definition OP_MANIFEST_REPLY :: "16 word" where "OP_MANIFEST_REPLY = 0x0008"
definition OP_REGISTER_ACK :: "16 word" where "OP_REGISTER_ACK = 0x0103"
definition OP_GET_MANIFEST :: "16 word" where "OP_GET_MANIFEST = 0x0107"
definition OP_OPERATIONAL_BEGIN :: "16 word" where "OP_OPERATIONAL_BEGIN = 0x0108"
definition ACK_THROTTLE_MS :: "64 word" where "ACK_THROTTLE_MS = 150"
definition MANIFEST_GAP_MS :: "64 word" where "MANIFEST_GAP_MS = 60"
definition CMD_BUS_REGISTER_SLAVE :: "16 word" where "CMD_BUS_REGISTER_SLAVE = 0x0160"
definition CMD_BUS_LIST_SLAVES :: "16 word" where "CMD_BUS_LIST_SLAVES = 0x0162"
definition CMD_BUS_SET_POLL :: "16 word" where "CMD_BUS_SET_POLL = 0x0163"
definition CMD_BUS_POLL_ENABLE :: "16 word" where "CMD_BUS_POLL_ENABLE = 0x0164"
definition CMD_BUS_CLEAR_ROSTER :: "16 word" where "CMD_BUS_CLEAR_ROSTER = 0x0165"
definition CMD_INTERLOCK_REPUSH :: "16 word" where "CMD_INTERLOCK_REPUSH = 0x0144"
definition IL_TF_FALSE_BYTE :: "8 word" where "IL_TF_FALSE_BYTE = 2"
definition GAP_SETTLE_MS :: "64 word" where "GAP_SETTLE_MS = 1500"
definition REPUSH_COOLDOWN_MS :: "64 word" where "REPUSH_COOLDOWN_MS = 2000"
definition OP_BUS_SLAVE_DOWN :: "16 word" where "OP_BUS_SLAVE_DOWN = 0x0015"
definition OP_BUS_SLAVE_UP :: "16 word" where "OP_BUS_SLAVE_UP = 0x0016"
definition OP_BUS_SLAVE_FLAGGED :: "16 word" where "OP_BUS_SLAVE_FLAGGED = 0x0017"
definition OP_BUS_CMD_ACK :: "16 word" where "OP_BUS_CMD_ACK = 0x0018"
definition OP_BUS_CMD_NAK :: "16 word" where "OP_BUS_CMD_NAK = 0x0019"
definition OP_BUS_INTERLOCK_MSG :: "16 word" where "OP_BUS_INTERLOCK_MSG = 0x001A"
definition OP_BUS_STATUS_REPORT :: "16 word" where "OP_BUS_STATUS_REPORT = 0x001B"

definition no_manifest :: manifest where
  "no_manifest = \<lparr> mf_valid = False, mf_schema_hash = 0, mf_fw_version = 0, mf_m2s_count = 0 \<rparr>"

definition no_roster :: roster where
  "no_roster = \<lparr> ro_poll_cfg_set = False, ro_poll_period_ms = 0, ro_max_misses = 0, ro_tcp_retries = 0, ro_slaves = [] \<rparr>"

definition no_event :: ctrl_event where
  "no_event = \<lparr> ev_kind = CTRL_EV_LINK, ev_addr = 0, ev_status = 0, ev_handle = 0, ev_aux = 0, ev_data = None, ev_data_len = 0 \<rparr>"

definition controller_fields where
  "controller_fields link = controller.fields link False zero_identity PROTO_UNKNOWN no_manifest 0 0 False None None None
     False no_roster PROV_IDLE 0 0 0 (replicate ROSTER_MAX_SLAVES 0) (replicate ROSTER_MAX_SLAVES 0) 0
     (replicate CTRL_EVQ_CAP no_event) (replicate CTRL_EVQ_CAP (replicate CTRL_EV_DATA_MAX 0)) 0 0"

definition controller_create :: "'env \<Rightarrow> link_state \<Rightarrow> ('env, 'u) controller" where
  "controller_create e link = tracker.extend (cmd_tracker_create e) (controller_fields link)"

section \<open>The event queue\<close>

text \<open>On overflow the event is dropped. No data or no length: the event points nowhere.\<close>

definition ctrl_evq_push :: "ctrl_ev_kind \<Rightarrow> 8 word \<Rightarrow> 8 word \<Rightarrow> 32 word \<Rightarrow> 32 word \<Rightarrow> bytes option \<Rightarrow> nat \<Rightarrow>
    ('env, 'u, 'z, unit) cact" where
  "ctrl_evq_push kind addr status handle aux data len = (\<lambda>c.
     if cc_evq_count c \<ge> CTRL_EVQ_CAP then Ret ((), c)
     else let i = (cc_evq_head c + cc_evq_count c) mod CTRL_EVQ_CAP; n = min len CTRL_EV_DATA_MAX in
       Ret ((), c \<lparr>
         cc_evq_data := (case data of None \<Rightarrow> cc_evq_data c
           | Some bs \<Rightarrow> (cc_evq_data c)[i := take n bs @ drop n (cc_evq_data c ! i)]),
         cc_evq := (cc_evq c)[i := \<lparr> ev_kind = kind, ev_addr = addr, ev_status = status, ev_handle = handle, ev_aux = aux,
           ev_data = (if n \<noteq> 0 then Some i else None), ev_data_len = n \<rparr>],
         cc_evq_count := cc_evq_count c + 1 \<rparr>))"

definition controller_drain :: "('env, 'u, 'z, ctrl_event option) cact" where
  "controller_drain = (\<lambda>c.
     if cc_evq_count c = 0 then Ret (None, c)
     else Ret (Some (cc_evq c ! cc_evq_head c),
       c \<lparr> cc_evq_head := (cc_evq_head c + 1) mod CTRL_EVQ_CAP, cc_evq_count := cc_evq_count c - 1 \<rparr>))"

definition ev_on_done :: "32 word \<Rightarrow> 8 word \<Rightarrow> 8 word \<Rightarrow> bytes \<Rightarrow> ('env, 'u, 'z, unit) cact" where
  "ev_on_done handle addr status result = ctrl_evq_push CTRL_EV_CMD_DONE addr status handle 0 (Some result) (length result)"

definition ev_on_done_ungated :: "16 word \<Rightarrow> 8 word \<Rightarrow> bytes \<Rightarrow> ('env, 'u, 'z, unit) cact" where
  "ev_on_done_ungated rid status result =
     ctrl_evq_push CTRL_EV_CMD_DONE 0 status (ucast rid OR 0x80000000) 0 (Some result) (length result)"

section \<open>Protocol state\<close>

definition set_proto :: "('u, ('env, 'u, 'z) controller_scheme) client \<Rightarrow> proto_state \<Rightarrow> ('env, 'u, 'z, unit) cact" where
  "set_proto cl to = (\<lambda>c.
     if cc_proto c = to then Ret ((), c)
     else seqA (modA (\<lambda>c. c \<lparr> cc_proto := to \<rparr>))
       (case cc_proto_cb c of None \<Rightarrow> retA () | Some u \<Rightarrow> cl_proto cl u (cc_proto c) to) c)"

definition reset_sync :: "('u, ('env, 'u, 'z) controller_scheme) client \<Rightarrow> ('env, 'u, 'z, unit) cact" where
  "reset_sync cl =
     seqA (modA (\<lambda>c. c \<lparr> cc_get_manifest_pending := False, cc_get_manifest_at := 0, cc_last_ack_ms := 0,
       cc_manifest := (cc_manifest c) \<lparr> mf_valid := False \<rparr>, cc_prov := PROV_IDLE, cc_prov_idx := 0, cc_bc_total := 0 \<rparr>))
     (set_proto cl PROTO_UNKNOWN)"

section \<open>Provisioning\<close>

definition ignoreA :: "('s, 'a) act \<Rightarrow> ('s, unit) act" where
  "ignoreA m = bindA m (\<lambda>_. retA ())"

definition prov_send :: "('env, 'u, 'z) controller_scheme port \<Rightarrow> 16 word \<Rightarrow> bytes \<Rightarrow> ('env, 'u, 'z, unit) cact" where
  "prov_send pt command_id args = ignoreA (demux_send_shell pt command_id args (Some (Other_reply On_prov_reply)))"

definition prov_send_clear :: "('env, 'u, 'z) controller_scheme port \<Rightarrow> ('env, 'u, 'z, unit) cact" where
  "prov_send_clear pt = prov_send pt CMD_BUS_CLEAR_ROSTER []"

definition register_args :: "roster_slave \<Rightarrow> bytes" where
  "register_args sl = rs_addr sl # wr_u32le (rs_class_id sl) @ [rs_flags sl]"

definition prov_send_register :: "('env, 'u, 'z) controller_scheme port \<Rightarrow> nat \<Rightarrow> ('env, 'u, 'z, unit) cact" where
  "prov_send_register pt i = (\<lambda>c.
     if length (ro_slaves (cc_roster c)) \<le> i then Trap (Fault ''roster read out of bounds'')
     else prov_send pt CMD_BUS_REGISTER_SLAVE (register_args (ro_slaves (cc_roster c) ! i)) c)"

definition setpoll_args :: "roster \<Rightarrow> bytes" where
  "setpoll_args r = [ucast (ro_poll_period_ms r), ucast (drop_bit 8 (ro_poll_period_ms r)), ro_max_misses r, ro_tcp_retries r]"

definition prov_send_setpoll :: "('env, 'u, 'z) controller_scheme port \<Rightarrow> ('env, 'u, 'z, unit) cact" where
  "prov_send_setpoll pt = (\<lambda>c. prov_send pt CMD_BUS_SET_POLL (setpoll_args (cc_roster c)) c)"

definition prov_send_list :: "('env, 'u, 'z) controller_scheme port \<Rightarrow> ('env, 'u, 'z, unit) cact" where
  "prov_send_list pt = prov_send pt CMD_BUS_LIST_SLAVES []"

definition set_prov :: "prov_state \<Rightarrow> ('env, 'u, 'z, unit) cact" where
  "set_prov p = modA (\<lambda>c. c \<lparr> cc_prov := p \<rparr>)"

definition prov_after_slaves :: "('env, 'u, 'z) controller_scheme port \<Rightarrow> ('env, 'u, 'z, unit) cact" where
  "prov_after_slaves pt = (\<lambda>c.
     if ro_poll_cfg_set (cc_roster c) then seqA (set_prov PROV_SET_POLL) (prov_send_setpoll pt) c
     else seqA (set_prov PROV_LIST) (prov_send_list pt) c)"

definition prov_start :: "('env, 'u, 'z) controller_scheme port \<Rightarrow> ('env, 'u, 'z, unit) cact" where
  "prov_start pt = seqA (modA (\<lambda>c. c \<lparr> cc_prov := PROV_CLEAR, cc_prov_idx := 0, cc_bc_total := 0 \<rparr>)) (prov_send_clear pt)"

text \<open>The request id of the reply is not looked at.\<close>

definition on_prov_reply :: "('env, 'u, 'z) controller_scheme port \<Rightarrow> 16 word \<Rightarrow> 8 word \<Rightarrow> bytes \<Rightarrow> ('env, 'u, 'z, unit) cact" where
  "on_prov_reply pt rid status result = (\<lambda>c.
     if status \<noteq> 0 then set_prov PROV_FAIL c
     else case cc_prov c of
       PROV_CLEAR \<Rightarrow>
         if length (ro_slaves (cc_roster c)) > 0
         then seqA (modA (\<lambda>c. c \<lparr> cc_prov := PROV_REGISTER, cc_prov_idx := 0 \<rparr>)) (prov_send_register pt 0) c
         else prov_after_slaves pt c
     | PROV_REGISTER \<Rightarrow>
         seqA (modA (\<lambda>c. c \<lparr> cc_prov_idx := cc_prov_idx c + 1 \<rparr>))
           (if cc_prov_idx c + 1 < length (ro_slaves (cc_roster c)) then prov_send_register pt (cc_prov_idx c + 1)
            else prov_after_slaves pt) c
     | PROV_SET_POLL \<Rightarrow> seqA (set_prov PROV_LIST) (prov_send_list pt) c
     | PROV_LIST \<Rightarrow>
         let total = (if length result \<ge> 1 then result ! 0 else 0) in
         Ret ((), c \<lparr> cc_bc_total := total,
           cc_prov := (if unat total \<ge> length (ro_slaves (cc_roster c)) then PROV_DONE else PROV_FAIL) \<rparr>)
     | _ \<Rightarrow> Ret ((), c))"

section \<open>Inbound events\<close>

definition drive_boot :: "('u, ('env, 'u, 'z) controller_scheme) client \<Rightarrow> ('env, 'u, 'z) controller_scheme port \<Rightarrow>
    ('env, 'u, 'z, unit) cact" where
  "drive_boot cl pt = bindA (mono_ms pt) (\<lambda>now. \<lambda>c.
     if cc_last_ack_ms c \<noteq> 0 \<and> now - cc_last_ack_ms c < ACK_THROTTLE_MS then Ret ((), c)
     else seqA (ignoreA (demux_send_raw pt OP_REGISTER_ACK []))
       (seqA (modA (\<lambda>c. c \<lparr> cc_last_ack_ms := now, cc_get_manifest_at := now + MANIFEST_GAP_MS, cc_get_manifest_pending := True \<rparr>))
       (set_proto cl PROTO_L1_ACKED)) c)"

text \<open>Reading the first \<open>n\<close> bytes of a payload.\<close>

definition with_payload :: "bytes option \<Rightarrow> nat \<Rightarrow> (bytes \<Rightarrow> ('s, 'a) act) \<Rightarrow> ('s, 'a) act" where
  "with_payload payload n f = (case payload of
     None \<Rightarrow> trapA (Fault ''null payload'')
   | Some p \<Rightarrow> if length p < n then trapA (Fault ''payload read out of bounds'') else f p)"

text \<open>Calling a client's callback, when there is one.\<close>

definition callback :: "(('env, 'u, 'z) controller_scheme \<Rightarrow> 'u option) \<Rightarrow> ('u \<Rightarrow> ('env, 'u, 'z, unit) cact) \<Rightarrow> ('env, 'u, 'z, unit) cact" where
  "callback cb f = (\<lambda>c. case cb c of None \<Rightarrow> Ret ((), c) | Some u \<Rightarrow> f u c)"

definition done_call :: "('u, ('env, 'u, 'z) controller_scheme) client \<Rightarrow> ('u ctl_done, ('env, 'u, 'z) controller_scheme) done_fn" where
  "done_call cl d = (case d of Ev_on_done \<Rightarrow> ev_on_done | Client_done u \<Rightarrow> cl_done cl u)"

definition on_event_register :: "('u, ('env, 'u, 'z) controller_scheme) client \<Rightarrow> ('env, 'u, 'z) controller_scheme port \<Rightarrow>
    frame_meta \<Rightarrow> bytes option \<Rightarrow> ('env, 'u, 'z, unit) cact" where
  "on_event_register cl pt meta payload =
     seqA (\<lambda>c. if cc_have_identity c then Ret ((), c)
         else case payload of
           Some p \<Rightarrow>
             if unat (fm_payload_len meta) \<ge> REGISTER_V2_LEN \<and> length p < REGISTER_V2_LEN then Trap (Fault ''payload read out of bounds'')
             else (case identity_parse_register payload (unat (fm_payload_len meta)) of
                 None \<Rightarrow> Ret ((), c)
               | Some i \<Rightarrow> Ret ((), c \<lparr> cc_identity := i, cc_have_identity := True \<rparr>))
         | None \<Rightarrow> Ret ((), c))
     (seqA (\<lambda>c. if cc_proto c = PROTO_OPERATIONAL \<or> cc_proto c = PROTO_MANIFEST_OK then reset_sync cl c else Ret ((), c))
     (seqA (\<lambda>c. if cc_proto c = PROTO_UNKNOWN then set_proto cl PROTO_BOOT c else Ret ((), c))
     (\<lambda>c. if cc_proto c = PROTO_BOOT \<or> cc_proto c = PROTO_L1_ACKED then drive_boot cl pt c else Ret ((), c))))"

definition on_event_manifest :: "('u, ('env, 'u, 'z) controller_scheme) client \<Rightarrow> ('env, 'u, 'z) controller_scheme port \<Rightarrow>
    frame_meta \<Rightarrow> bytes option \<Rightarrow> ('env, 'u, 'z, unit) cact" where
  "on_event_manifest cl pt meta payload =
     seqA (if fm_payload_len meta \<ge> 9
         then with_payload payload 9 (\<lambda>p. modA (\<lambda>c. c \<lparr> cc_manifest := \<lparr> mf_valid = True, mf_schema_hash = rd_u32 p 0,
           mf_fw_version = rd_u32 p 4, mf_m2s_count = p ! 8 \<rparr> \<rparr>))
         else retA ())
     (seqA (modA (\<lambda>c. c \<lparr> cc_get_manifest_pending := False \<rparr>))
     (seqA (ignoreA (demux_send_raw pt OP_OPERATIONAL_BEGIN []))
     (set_proto cl PROTO_MANIFEST_OK)))"

definition ctl_on_event :: "('u, ('env, 'u, 'z) controller_scheme) client \<Rightarrow> ('env, 'u, 'z) controller_scheme port \<Rightarrow>
    frame_meta \<Rightarrow> bytes option \<Rightarrow> ('env, 'u, 'z, unit) cact" where
  "ctl_on_event cl pt meta payload = (let len = fm_payload_len meta in
     if fm_cmd meta = OP_REGISTER then on_event_register cl pt meta payload
     else if fm_cmd meta = OP_MANIFEST_REPLY then on_event_manifest cl pt meta payload
     else if fm_cmd meta = OP_HEARTBEAT then
       (\<lambda>c. if cc_proto c \<noteq> PROTO_OPERATIONAL
         then seqA (modA (\<lambda>c. c \<lparr> cc_get_manifest_pending := False \<rparr>)) (set_proto cl PROTO_OPERATIONAL) c
         else Ret ((), c))
     else if fm_cmd meta = OP_BUS_SLAVE_DOWN then
       (if len \<ge> 1 then with_payload payload 1 (\<lambda>p.
          seqA (ctrl_evq_push CTRL_EV_LIVENESS (p ! 0) 0 0 0 None 0)
            (callback cc_liveness_cb (\<lambda>u. cl_liveness cl u (p ! 0) False 0)))
        else retA ())
     else if fm_cmd meta = OP_BUS_SLAVE_UP then
       (if len \<ge> 5 then with_payload payload 5 (\<lambda>p.
          seqA (ctrl_evq_push CTRL_EV_LIVENESS (p ! 0) 1 0 (rd_u32 p 1) None 0)
            (callback cc_liveness_cb (\<lambda>u. cl_liveness cl u (p ! 0) True (rd_u32 p 1))))
        else retA ())
     else if fm_cmd meta = OP_BUS_SLAVE_FLAGGED then
       (if len \<ge> 2 then with_payload payload 2 (\<lambda>p.
          seqA (cmd_tracker_on_flagged pt (p ! 0) (p ! 1))
            (seqA (ctrl_evq_push CTRL_EV_FLAGGED (p ! 0) 0 0 (ucast (p ! 1)) None 0)
            (callback cc_flagged_cb (\<lambda>u. cl_flagged cl u (p ! 0) (p ! 1)))))
        else retA ())
     else if fm_cmd meta = OP_BUS_CMD_ACK then
       (if len \<ge> 3 then with_payload payload 3 (\<lambda>p. cmd_tracker_on_ack (p ! 0) (le16 (p ! 1) (p ! 2))) else retA ())
     else if fm_cmd meta = OP_BUS_CMD_NAK then
       (if len \<ge> 3 then with_payload payload 3 (\<lambda>p. cmd_tracker_on_nak (done_call cl) pt (p ! 0) (le16 (p ! 1) (p ! 2)))
        else retA ())
     else if fm_cmd meta = OP_BUS_INTERLOCK_MSG then
       (if (case payload of None \<Rightarrow> False | Some p \<Rightarrow> length p < min (unat len) CMD_IL_MSG_MAX)
        then trapA (Fault ''payload read out of bounds'')
        else seqA (cmd_tracker_on_interlock_msg (fm_addr meta) payload (unat len))
          (ctrl_evq_push CTRL_EV_INTERLOCK (fm_addr meta) 0 0 0 payload (unat len)))
     else if fm_cmd meta = OP_BUS_STATUS_REPORT then
       (if len \<ge> 2 then with_payload payload 2 (\<lambda>p.
          seqA (cmd_tracker_on_flagged pt (p ! 0) (p ! 1))
            (modA (\<lambda>c. c \<lparr> cc_status_reports := cc_status_reports c + 1 \<rparr>)))
        else retA ())
     else retA ())"

definition ctl_on_state :: "('u, ('env, 'u, 'z) controller_scheme) client \<Rightarrow> link_state \<Rightarrow> ('env, 'u, 'z, unit) cact" where
  "ctl_on_state cl state =
     seqA (modA (\<lambda>c. c \<lparr> cc_link := state \<rparr>))
     (seqA (ctrl_evq_push CTRL_EV_LINK 0 0 0 (if state = LINK_UP then 1 else 0) None 0)
     (if state = LINK_DOWN
      then seqA (modA (\<lambda>c. c \<lparr> cc_have_identity := False, cc_identity := zero_identity \<rparr>)) (reset_sync cl)
      else retA ()))"

section \<open>Wiring\<close>

text \<open>The handlers the controller installs on the demultiplexer, and the code its callbacks stand for.\<close>

definition ctl_port :: "('u, ('env, 'u, 'z) controller_scheme) client \<Rightarrow> ('env, 'u, 'z) controller_scheme port \<Rightarrow>
    ('env, 'u, 'z) controller_scheme port" where
  "ctl_port cl pt = pt \<lparr> on_event := Some (ctl_on_event cl pt), on_state := Some (ctl_on_state cl) \<rparr>"

definition ctl_call :: "('u, ('env, 'u, 'z) controller_scheme) client \<Rightarrow> ('env, 'u, 'z) controller_scheme port \<Rightarrow>
    ('u ctl_reply reply_cb, ('env, 'u, 'z) controller_scheme) caller" where
  "ctl_call cl pt = reply_call (done_call cl) pt (\<lambda>cb rid status result. case cb of
       On_prov_reply \<Rightarrow> on_prov_reply pt rid status result
     | Ev_on_done_ungated \<Rightarrow> ev_on_done_ungated rid status result
     | Client_reply u \<Rightarrow> cl_reply cl u rid status result)"

section \<open>Operations of the client\<close>

definition controller_send_shell :: "('env, 'u, 'z) controller_scheme port \<Rightarrow> 16 word \<Rightarrow> bytes \<Rightarrow> 'u option \<Rightarrow>
    ('env, 'u, 'z, 16 word) cact" where
  "controller_send_shell pt command_id args on_reply =
     demux_send_shell pt command_id args (map_option (Other_reply \<circ> Client_reply) on_reply)"

definition controller_send_shell_to :: "('env, 'u, 'z) controller_scheme port \<Rightarrow> 8 word \<Rightarrow> 16 word \<Rightarrow> bytes \<Rightarrow>
    'u ctl_reply option \<Rightarrow> ('env, 'u, 'z, 16 word) cact" where
  "controller_send_shell_to pt dest_addr command_id args on_reply =
     demux_send_shell_to pt dest_addr command_id args (map_option Other_reply on_reply)"

definition controller_set_poll_enable :: "('env, 'u, 'z) controller_scheme port \<Rightarrow> bool \<Rightarrow> ('env, 'u, 'z, 16 word) cact" where
  "controller_set_poll_enable pt on = demux_send_shell pt CMD_BUS_POLL_ENABLE [if on then 1 else 0] None"

definition controller_submit_command :: "('env, 'u, 'z) controller_scheme port \<Rightarrow> 8 word \<Rightarrow> 16 word \<Rightarrow> bytes \<Rightarrow> 32 word \<Rightarrow>
    'u option \<Rightarrow> ('env, 'u, 'z, 32 word) cact" where
  "controller_submit_command pt addr command_id args exec_timeout_ms on_done =
     cmd_tracker_submit pt addr command_id args exec_timeout_ms (map_option Client_done on_done)"

definition controller_submit_command_ev :: "('env, 'u, 'z) controller_scheme port \<Rightarrow> 8 word \<Rightarrow> 16 word \<Rightarrow> bytes \<Rightarrow> 32 word \<Rightarrow>
    ('env, 'u, 'z, 32 word) cact" where
  "controller_submit_command_ev pt addr command_id args exec_timeout_ms =
     cmd_tracker_submit pt addr command_id args exec_timeout_ms (Some Ev_on_done)"

definition controller_submit_command_ungated_ev :: "('env, 'u, 'z) controller_scheme port \<Rightarrow> 8 word \<Rightarrow> 16 word \<Rightarrow> bytes \<Rightarrow>
    ('env, 'u, 'z, 32 word) cact" where
  "controller_submit_command_ungated_ev pt addr command_id args =
     bindA (controller_send_shell_to pt addr command_id args (Some Ev_on_done_ungated)) (\<lambda>rid.
       retA (if rid = 0xFFFF then 0 else ucast rid OR 0x80000000))"

definition controller_attach_roster :: "('u, ('env, 'u, 'z) controller_scheme) client \<Rightarrow> roster option \<Rightarrow>
    ('env, 'u, 'z, unit) cact" where
  "controller_attach_roster cl r =
     seqA (modA (\<lambda>c. c \<lparr> cc_roster := (case r of None \<Rightarrow> no_roster | Some ro \<Rightarrow> ro), cc_have_roster := (r \<noteq> None),
       cc_prov := PROV_IDLE, cc_prov_idx := 0, cc_bc_total := 0 \<rparr>))
     (seqA (cmd_tracker_reset (done_call cl) DEMUX_STATUS_LINK_DOWN)
     (seqA (\<lambda>c. eachA (\<lambda>sl. ignoreA (cmd_tracker_add_slave (rs_addr sl))) (ro_slaves (cc_roster c)) c)
     (modA (\<lambda>c. c \<lparr> cc_gap_since := replicate ROSTER_MAX_SLAVES 0, cc_repush_at := replicate ROSTER_MAX_SLAVES 0 \<rparr>))))"

definition controller_set_proto_cb :: "'u option \<Rightarrow> ('env, 'u, 'z, unit) cact" where
  "controller_set_proto_cb cb = modA (\<lambda>c. c \<lparr> cc_proto_cb := cb \<rparr>)"

definition controller_set_liveness_cb :: "'u option \<Rightarrow> ('env, 'u, 'z, unit) cact" where
  "controller_set_liveness_cb cb = modA (\<lambda>c. c \<lparr> cc_liveness_cb := cb \<rparr>)"

definition controller_set_flagged_cb :: "'u option \<Rightarrow> ('env, 'u, 'z, unit) cact" where
  "controller_set_flagged_cb cb = modA (\<lambda>c. c \<lparr> cc_flagged_cb := cb \<rparr>)"

section \<open>The poll\<close>

text \<open>One slave's turn of the reconciliation, at the time \<open>now\<close>.\<close>

definition reconcile_slave :: "('env, 'u, 'z) controller_scheme port \<Rightarrow> 64 word \<Rightarrow> nat \<Rightarrow> ('env, 'u, 'z, unit) cact" where
  "reconcile_slave pt now i = (\<lambda>c.
     let addr = rs_addr (ro_slaves (cc_roster c) ! i) in
     case cmd_tracker_interlock c addr of
       None \<Rightarrow> Ret ((), c \<lparr> cc_gap_since := (cc_gap_since c)[i := 0] \<rparr>)
     | Some (tripped, _) \<Rightarrow>
         let msg = fst (cmd_tracker_interlock_msg c addr CMD_IL_MSG_MAX);
             msg_tripped = (length msg \<ge> 6 \<and> msg ! 5 = IL_TF_FALSE_BYTE) in
         if tripped = msg_tripped then Ret ((), c \<lparr> cc_gap_since := (cc_gap_since c)[i := 0] \<rparr>)
         else
           let since = (if cc_gap_since c ! i = 0 then now else cc_gap_since c ! i) in
           seqA (modA (\<lambda>c. c \<lparr> cc_gap_since := (cc_gap_since c)[i := since] \<rparr>))
           (if now - since < GAP_SETTLE_MS then retA ()
            else if cc_repush_at c ! i \<noteq> 0 \<and> now - cc_repush_at c ! i < REPUSH_COOLDOWN_MS then retA ()
            else seqA (ignoreA (controller_send_shell_to pt addr CMD_INTERLOCK_REPUSH [] None))
              (modA (\<lambda>c. c \<lparr> cc_repush_at := (cc_repush_at c)[i := now], cc_repushes := cc_repushes c + 1 \<rparr>))) c)"

definition reconcile_interlocks :: "('env, 'u, 'z) controller_scheme port \<Rightarrow> ('env, 'u, 'z, unit) cact" where
  "reconcile_interlocks pt = (\<lambda>c.
     if \<not> cc_have_roster c then Ret ((), c)
     else bindA (mono_ms pt) (\<lambda>now. eachA (reconcile_slave pt now) [0..<length (ro_slaves (cc_roster c))]) c)"

definition controller_role :: "('env, 'u, 'z) controller_scheme \<Rightarrow> dongle_role" where
  "controller_role c = (if cc_have_identity c then identity_role (id_class_id (cc_identity c)) else ROLE_UNKNOWN)"

definition fire_get_manifest :: "('env, 'u, 'z) controller_scheme port \<Rightarrow> ('env, 'u, 'z, unit) cact" where
  "fire_get_manifest pt = (\<lambda>c.
     if cc_get_manifest_pending c then bindA (mono_ms pt) (\<lambda>now. \<lambda>c.
       if now \<ge> cc_get_manifest_at c
       then seqA (ignoreA (demux_send_raw pt OP_GET_MANIFEST []))
         (modA (\<lambda>c. c \<lparr> cc_get_manifest_pending := False \<rparr>)) c
       else Ret ((), c)) c
     else Ret ((), c))"

definition start_provisioning :: "('env, 'u, 'z) controller_scheme port \<Rightarrow> ('env, 'u, 'z, unit) cact" where
  "start_provisioning pt = (\<lambda>c.
     if cc_have_roster c \<and> cc_prov c = PROV_IDLE \<and> cc_proto c = PROTO_OPERATIONAL \<and> cc_have_identity c then
       (if controller_role c = ROLE_BUS_CONTROLLER then prov_start pt c else set_prov PROV_FAIL c)
     else Ret ((), c))"

text \<open>The pump of the link endpoint is the argument \<open>link_poll\<close>.\<close>

definition controller_poll :: "('u, ('env, 'u, 'z) controller_scheme) client \<Rightarrow> ('env, 'u, 'z) controller_scheme port \<Rightarrow>
    ('env, 'u, 'z, unit) cact \<Rightarrow> ('env, 'u, 'z, unit) cact" where
  "controller_poll cl pt link_poll =
     seqA (demux_poll (ctl_call cl pt) (ctl_port cl pt) link_poll 2500)
     (seqA (fire_get_manifest pt)
     (seqA (start_provisioning pt)
     (seqA (bindA (mono_ms pt) (cmd_tracker_poll (done_call cl) pt))
     (reconcile_interlocks pt))))"

section \<open>Observers\<close>

definition controller_identity :: "('env, 'u, 'z) controller_scheme \<Rightarrow> dongle_identity option" where
  "controller_identity c = (if cc_have_identity c then Some (cc_identity c) else None)"

definition controller_manifest :: "('env, 'u, 'z) controller_scheme \<Rightarrow> manifest option" where
  "controller_manifest c = (if mf_valid (cc_manifest c) then Some (cc_manifest c) else None)"

definition controller_is_operational :: "('env, 'u, 'z) controller_scheme \<Rightarrow> bool" where
  "controller_is_operational c = (cc_proto c = PROTO_OPERATIONAL)"

definition controller_slave_state :: "('env, 'u, 'z) controller_scheme \<Rightarrow> 8 word \<Rightarrow> cmd_slot_state" where
  "controller_slave_state c addr = cmd_tracker_state c addr"

definition controller_slave_qdepth :: "('env, 'u, 'z) controller_scheme \<Rightarrow> 8 word \<Rightarrow> nat" where
  "controller_slave_qdepth c addr = cmd_tracker_qdepth c addr"

definition controller_interlock_state :: "('env, 'u, 'z) controller_scheme \<Rightarrow> 8 word \<Rightarrow> int \<times> 8 word option" where
  "controller_interlock_state c addr = (case cmd_tracker_interlock c addr of
     None \<Rightarrow> (-1, None)
   | Some (tripped, flags) \<Rightarrow> (if tripped then 1 else 0, Some flags))"

section \<open>The event queue delivers\<close>

text \<open>
  What the queue promises: a list of at most 128 events with their data, the data cut to 64
  bytes, an event that finds the queue full is dropped, and draining returns the oldest.
\<close>

type_synonym ev_view = "ctrl_ev_kind \<times> 8 word \<times> 8 word \<times> 32 word \<times> 32 word \<times> bytes"

datatype ev_op = Push ctrl_ev_kind "8 word" "8 word" "32 word" "32 word" bytes | Drain

fun ev_spec :: "ev_op list \<Rightarrow> ev_view list \<Rightarrow> ev_view option list" where
  "ev_spec [] q = []"
| "ev_spec (Push k a st h x d # ops) q =
     ev_spec ops (if length q < CTRL_EVQ_CAP then q @ [(k, a, st, h, x, take CTRL_EV_DATA_MAX d)] else q)"
| "ev_spec (Drain # ops) [] = None # ev_spec ops []"
| "ev_spec (Drain # ops) (e # q) = Some e # ev_spec ops q"

text \<open>What the client sees of an event when it reads its data at once.\<close>

definition ev_view :: "bytes list \<Rightarrow> ctrl_event \<Rightarrow> ev_view" where
  "ev_view store e = (ev_kind e, ev_addr e, ev_status e, ev_handle e, ev_aux e,
     case ev_data e of None \<Rightarrow> [] | Some i \<Rightarrow> take (ev_data_len e) (store ! i))"

fun ev_exec :: "ev_op \<Rightarrow> ('env, 'u, 'z, ev_view option list) cact" where
  "ev_exec (Push k a st h x d) = seqA (ctrl_evq_push k a st h x (Some d) (length d)) (retA [])"
| "ev_exec Drain = bindA controller_drain (\<lambda>e. \<lambda>c. Ret ([map_option (ev_view (cc_evq_data c)) e], c))"

definition ev_run :: "ev_op list \<Rightarrow> ('env, 'u, 'z, ev_view option list) cact" where
  "ev_run ops = bindA (mapA ev_exec ops) (\<lambda>xs. retA (concat xs))"

definition ctrl_evq_ok :: "('env, 'u, 'z) controller_scheme \<Rightarrow> bool" where
  "ctrl_evq_ok c = (length (cc_evq c) = CTRL_EVQ_CAP \<and> length (cc_evq_data c) = CTRL_EVQ_CAP \<and> cc_evq_head c < CTRL_EVQ_CAP \<and>
     cc_evq_count c \<le> CTRL_EVQ_CAP \<and> list_all (\<lambda>bs. length bs = CTRL_EV_DATA_MAX) (cc_evq_data c) \<and>
     (\<forall>k < cc_evq_count c. let i = (cc_evq_head c + k) mod CTRL_EVQ_CAP in
        ev_data (cc_evq c ! i) = None \<or> ev_data (cc_evq c ! i) = Some i))"

definition evq_views :: "('env, 'u, 'z) controller_scheme \<Rightarrow> ev_view list" where
  "evq_views c = map (ev_view (cc_evq_data c)) (ring_list (cc_evq c) (cc_evq_head c) (cc_evq_count c))"

lemma list_all_update: "list_all P xs \<Longrightarrow> P y \<Longrightarrow> list_all P (xs[i := y])"
  by (auto simp: list_all_iff dest!: set_update_subset_insert [THEN subsetD])

lemma ctrl_evq_push_full: "ctrl_evq_ok c \<Longrightarrow> length (evq_views c) = CTRL_EVQ_CAP \<Longrightarrow> ctrl_evq_push k a st h x d n c = Ret ((), c)"
  by (simp add: ctrl_evq_push_def evq_views_def)

lemma ctrl_evq_push_room:
  assumes "ctrl_evq_ok c" "length (evq_views c) < CTRL_EVQ_CAP"
  shows "\<exists>c'. ctrl_evq_push k a st h x (Some d) (length d) c = Ret ((), c') \<and> ctrl_evq_ok c' \<and>
    evq_views c' = evq_views c @ [(k, a, st, h, x, take CTRL_EV_DATA_MAX d)]"
proof -
  let ?i = "(cc_evq_head c + cc_evq_count c) mod CTRL_EVQ_CAP" and ?n = "min (length d) CTRL_EV_DATA_MAX"
  let ?D = "(cc_evq_data c)[?i := take ?n d @ drop ?n (cc_evq_data c ! ?i)]"
  let ?e = "\<lparr> ev_kind = k, ev_addr = a, ev_status = st, ev_handle = h, ev_aux = x,
    ev_data = (if ?n \<noteq> 0 then Some ?i else None), ev_data_len = ?n \<rparr>"
  let ?c' = "c \<lparr> cc_evq_data := ?D, cc_evq := (cc_evq c)[?i := ?e], cc_evq_count := cc_evq_count c + 1 \<rparr>"
  have ok: "length (cc_evq c) = CTRL_EVQ_CAP" "length (cc_evq_data c) = CTRL_EVQ_CAP" "cc_evq_count c < CTRL_EVQ_CAP"
    "list_all (\<lambda>bs. length bs = CTRL_EV_DATA_MAX) (cc_evq_data c)"
    using assms by (auto simp: ctrl_evq_ok_def evq_views_def)
  have i: "?i < CTRL_EVQ_CAP" by (simp add: CTRL_EVQ_CAP_def)
  then have len: "length (cc_evq_data c ! ?i) = CTRL_EV_DATA_MAX" using ok by (simp add: list_all_length)
  have run: "ctrl_evq_push k a st h x (Some d) (length d) c = Ret ((), ?c')"
    using ok(3) by (simp add: ctrl_evq_push_def Let_def)
  have other: "(cc_evq_head c + j) mod CTRL_EVQ_CAP \<noteq> ?i" if "j < cc_evq_count c" for j
    using mod_add_inj [of j CTRL_EVQ_CAP "cc_evq_count c" "cc_evq_head c"] that ok(3) by auto
  have dlen: "list_all (\<lambda>bs. length bs = CTRL_EV_DATA_MAX) ?D"
    using ok(4) len by (intro list_all_update) simp_all
  have own: "ev_data ((cc_evq c)[?i := ?e] ! ((cc_evq_head c + j) mod CTRL_EVQ_CAP)) = None \<or>
      ev_data ((cc_evq c)[?i := ?e] ! ((cc_evq_head c + j) mod CTRL_EVQ_CAP)) = Some ((cc_evq_head c + j) mod CTRL_EVQ_CAP)"
    if "j < cc_evq_count c + 1" for j
  proof (cases "j = cc_evq_count c")
    case True
    then show ?thesis using i ok(1) by simp
  next
    case False
    then have j: "j < cc_evq_count c" using that by simp
    show ?thesis using assms(1) j other [OF j] by (auto simp: ctrl_evq_ok_def Let_def)
  qed
  have ok': "ctrl_evq_ok ?c'"
    using assms(1) ok dlen own by (simp add: ctrl_evq_ok_def Let_def)
  have "ring_list ((cc_evq c)[?i := ?e]) (cc_evq_head c) (Suc (cc_evq_count c)) =
      ring_list (cc_evq c) (cc_evq_head c) (cc_evq_count c) @ [?e]"
    using ring_list_push [of "cc_evq_count c" "cc_evq c" "cc_evq_head c" ?e] ok by simp
  moreover have "ev_view ?D e = ev_view (cc_evq_data c) e"
    if mem: "e \<in> set (ring_list (cc_evq c) (cc_evq_head c) (cc_evq_count c))" for e
  proof -
    obtain j where j: "j < cc_evq_count c" "e = cc_evq c ! ((cc_evq_head c + j) mod CTRL_EVQ_CAP)"
      using mem unfolding ring_list_def ok(1) by auto
    then have "ev_data e = None \<or> ev_data e = Some ((cc_evq_head c + j) mod CTRL_EVQ_CAP)"
      using assms(1) by (auto simp: ctrl_evq_ok_def Let_def)
    then show ?thesis using other [OF j(1)] by (auto simp: ev_view_def)
  qed
  moreover have "ev_view ?D ?e = (k, a, st, h, x, take CTRL_EV_DATA_MAX d)"
    using i ok(2) by (cases "length d = 0") (auto simp: ev_view_def min_def CTRL_EV_DATA_MAX_def)
  ultimately have "evq_views ?c' = evq_views c @ [(k, a, st, h, x, take CTRL_EV_DATA_MAX d)]"
    by (simp add: evq_views_def)
  with run ok' show ?thesis by blast
qed

lemma evq_drain_cons:
  assumes "ctrl_evq_ok c" "evq_views c = v # vs"
  shows "\<exists>c' e. controller_drain c = Ret (Some e, c') \<and> ev_view (cc_evq_data c') e = v \<and> ctrl_evq_ok c' \<and> evq_views c' = vs"
proof -
  obtain n where n: "cc_evq_count c = Suc n"
    using assms(2) by (cases "cc_evq_count c") (auto simp: evq_views_def)
  have ok: "length (cc_evq c) = CTRL_EVQ_CAP" "cc_evq_head c < CTRL_EVQ_CAP" using assms(1) by (auto simp: ctrl_evq_ok_def)
  let ?c' = "c \<lparr> cc_evq_head := (cc_evq_head c + 1) mod CTRL_EVQ_CAP, cc_evq_count := n \<rparr>"
  have run: "controller_drain c = Ret (Some (cc_evq c ! cc_evq_head c), ?c')"
    using n by (simp add: controller_drain_def)
  have pop: "ring_list (cc_evq c) (cc_evq_head c) (Suc n) =
      cc_evq c ! cc_evq_head c # ring_list (cc_evq c) ((cc_evq_head c + 1) mod CTRL_EVQ_CAP) n"
    using ring_list_pop [of "cc_evq_head c" "cc_evq c" n] ok by simp
  have "((cc_evq_head c + 1) mod CTRL_EVQ_CAP + k) mod CTRL_EVQ_CAP = (cc_evq_head c + Suc k) mod CTRL_EVQ_CAP" for k
    by (simp add: mod_simps)
  then have "ctrl_evq_ok ?c'" using assms(1) n by (auto simp: ctrl_evq_ok_def Let_def)
  moreover have "ev_view (cc_evq_data c) (cc_evq c ! cc_evq_head c) = v" "evq_views ?c' = vs"
    using assms(2) pop by (simp_all add: evq_views_def n)
  ultimately show ?thesis using run by auto
qed

lemma ev_run_spec: "ctrl_evq_ok c \<Longrightarrow> \<exists>c'. ev_run ops c = Ret (ev_spec ops (evq_views c), c') \<and> ctrl_evq_ok c'"
proof (induction ops arbitrary: c)
  case Nil
  then show ?case by (simp add: ev_run_def)
next
  case (Cons op ops)
  have step: "\<exists>c'. ev_run (op # ops) c = Ret (out @ ev_spec ops q, c') \<and> ctrl_evq_ok c'"
    if "ev_exec op c = Ret (out, c1)" "ctrl_evq_ok c1" "evq_views c1 = q" for out c1 q
    using Cons.IH [OF that(2)] that(1,3) by (auto simp: ev_run_def)
  show ?case
  proof (cases op)
    case (Push k a st h x d)
    show ?thesis
    proof (cases "length (evq_views c) < CTRL_EVQ_CAP")
      case True
      from ctrl_evq_push_room [OF Cons.prems True, of k a st h x d] obtain c1 where
        "ctrl_evq_push k a st h x (Some d) (length d) c = Ret ((), c1)" "ctrl_evq_ok c1"
        "evq_views c1 = evq_views c @ [(k, a, st, h, x, take CTRL_EV_DATA_MAX d)]" by blast
      then show ?thesis using step [of "[]" c1] True Push by simp
    next
      case False
      then have "length (evq_views c) = CTRL_EVQ_CAP" using Cons.prems by (auto simp: ctrl_evq_ok_def evq_views_def)
      from ctrl_evq_push_full [OF Cons.prems this, of k a st h x "Some d" "length d"]
      show ?thesis using step [of "[]" c] Cons.prems False Push by simp
    qed
  next
    case Drain
    show ?thesis
    proof (cases "evq_views c")
      case Nil
      then have "length (ring_list (cc_evq c) (cc_evq_head c) (cc_evq_count c)) = 0" by (simp add: evq_views_def)
      then have "controller_drain c = Ret (None, c)" by (simp add: controller_drain_def)
      then show ?thesis using step [of "[None]" c] Cons.prems Nil Drain by simp
    next
      case (Cons v vs)
      from evq_drain_cons [OF Cons.prems this] obtain c1 e where "controller_drain c = Ret (Some e, c1)"
        "ev_view (cc_evq_data c1) e = v" "ctrl_evq_ok c1" "evq_views c1 = vs" by blast
      then show ?thesis using step [of "[Some v]" c1] Cons Drain by simp
    qed
  qed
qed

text \<open>
  C30. The event queue delivers. From a fresh controller and over any run of events raised and
  events drained, each drain gives what a list of at most 128 events gives: the oldest event not
  yet drained, with its own data cut to 64 bytes although the data lie in a store of slots that
  are used again, or nothing when there is none; an event raised while 128 wait is dropped.
\<close>

theorem event_queue_delivers:
  "\<exists>c'. ev_run ops (controller_create e link :: ('env, 'u) controller) = Ret (ev_spec ops [], c')"
proof -
  let ?c = "controller_create e link :: ('env, 'u) controller"
  have f: "cc_evq ?c = replicate CTRL_EVQ_CAP no_event" "cc_evq_data ?c = replicate CTRL_EVQ_CAP (replicate CTRL_EV_DATA_MAX 0)"
    "cc_evq_head ?c = 0" "cc_evq_count ?c = 0"
    by (simp_all add: controller_create_def controller_fields_def cmd_tracker_create_def demux_create_def demux.defs
        tracker.defs controller.defs)
  have "ctrl_evq_ok ?c" "evq_views ?c = []"
    by (simp_all add: ctrl_evq_ok_def evq_views_def f list_all_iff) (simp add: CTRL_EVQ_CAP_def)
  then show ?thesis using ev_run_spec [of ?c ops] by auto
qed

text \<open>
  The data of a drained event last until the next event is raised, not until the next drain:
  when the queue was full, that event is put where the drained one lay.
\<close>

lemma drained_data_overwritten:
  assumes "ctrl_evq_ok c" "cc_evq_count c = CTRL_EVQ_CAP" "ev_data (cc_evq c ! cc_evq_head c) = Some j"
    "ev_data_len (cc_evq c ! cc_evq_head c) = length d" "length d \<le> CTRL_EV_DATA_MAX" "d \<noteq> []"
  shows "\<exists>c1 e c2. controller_drain c = Ret (Some e, c1) \<and> ctrl_evq_push k a st h x (Some d) (length d) c1 = Ret ((), c2) \<and>
    ev_view (cc_evq_data c2) e = (ev_kind e, ev_addr e, ev_status e, ev_handle e, ev_aux e, d)"
proof -
  let ?h = "cc_evq_head c" and ?e = "cc_evq c ! cc_evq_head c"
  have ok: "length (cc_evq c) = CTRL_EVQ_CAP" "?h < CTRL_EVQ_CAP" "length (cc_evq_data c) = CTRL_EVQ_CAP"
    using assms(1) by (auto simp: ctrl_evq_ok_def)
  have "ev_data (cc_evq c ! ((?h + 0) mod CTRL_EVQ_CAP)) = None \<or>
      ev_data (cc_evq c ! ((?h + 0) mod CTRL_EVQ_CAP)) = Some ((?h + 0) mod CTRL_EVQ_CAP)"
    using assms(1,2) ok(2) unfolding ctrl_evq_ok_def Let_def by (metis gr_zeroI less_nat_zero_code)
  then have j: "j = ?h" using assms(3) ok(2) by simp
  have slot: "((?h + 1) mod CTRL_EVQ_CAP + (CTRL_EVQ_CAP - 1)) mod CTRL_EVQ_CAP = ?h"
    using ok(2) by (simp add: mod_simps CTRL_EVQ_CAP_def)
  show ?thesis
    using assms(2-6) ok slot j by (simp add: controller_drain_def ctrl_evq_push_def Let_def ev_view_def) (simp add: CTRL_EVQ_CAP_def)
qed

end
