(* ===== verification/Bus_Sync.thy ===== *)
theory Bus_Sync
  imports Bus_Controller
begin

text \<open>
  Runs of the bus controller against a dongle: the push of the roster and the synchronisation
  ladder, over a link that takes every frame and writes it down, and a clock that stands still
  between the controller's steps. The dongle's side is played by the frames it sends.
\<close>

section \<open>A world that writes down\<close>

record world =
  w_sent :: "(frame_meta \<times> bytes) list"
  w_clock :: "64 word"

definition rec_port :: "(world, 'u, 'z) controller_scheme port" where
  "rec_port = \<lparr> link_send = (\<lambda>m p. seqA (modA (\<lambda>c. c \<lparr> env := (env c) \<lparr> w_sent := w_sent (env c) @ [(m, p)] \<rparr> \<rparr>)) (retA 0)),
     mono_ms = getA (\<lambda>c. w_clock (env c)), on_event = None, on_state = None \<rparr>"

lemma rec_send: "link_send rec_port m p c = Ret (0, c \<lparr> env := (env c) \<lparr> w_sent := w_sent (env c) @ [(m, p)] \<rparr> \<rparr>)"
  and rec_clock: "mono_ms rec_port c = Ret (w_clock (env c), c)"
  by (simp_all add: rec_port_def getA_def)

lemma ctl_clock: "mono_ms (ctl_port cl rec_port) c = Ret (w_clock (env c), c)"
  by (simp add: ctl_port_def rec_clock)

lemma rec_raw:
  "demux_send_raw rec_port opc payload c = Ret (0, c \<lparr> dx_tx_seq := dx_tx_seq c + 1, env := (env c) \<lparr> w_sent := w_sent (env c) @
     [(\<lparr> fm_addr = DONGLE_ADDR, fm_cmd = opc, fm_seq = dx_tx_seq c, fm_ack_seq = 0, fm_ack_status = 0,
        fm_payload_len = of_nat (length payload) \<rparr>, payload)] \<rparr> \<rparr>)"
  by (simp add: demux_send_raw_def send_frame_addr_def rec_send)

definition none_pending :: "'cb pending list \<Rightarrow> bool" where
  "none_pending ps = (length ps = PENDING_MAX \<and> list_all (\<lambda>p. \<not> pe_in_use p) ps)"

lemma none_pending_alloc: "none_pending (dx_pending c) \<Longrightarrow> pending_alloc c = Some 0"
  by (simp add: pending_alloc_def first_index_def none_pending_def list_all_length PENDING_MAX_def upt_conv_Cons)

section \<open>Sending a provisioning request\<close>

definition after_send :: "16 word \<Rightarrow> bytes \<Rightarrow> (world, 'u, 'z) controller_scheme \<Rightarrow> (world, 'u, 'z) controller_scheme" where
  "after_send cmd args c = (let rid = ucast (dx_next_id c) :: 16 word; p = [lo8 rid, hi8 rid, lo8 cmd, hi8 cmd] @ args in
     c \<lparr> env := (env c) \<lparr> w_sent := w_sent (env c) @ [(\<lparr> fm_addr = DONGLE_ADDR, fm_cmd = OP_SHELL_EXEC, fm_seq = dx_tx_seq c,
           fm_ack_seq = 0, fm_ack_status = 0, fm_payload_len = of_nat (length p) \<rparr>, p)] \<rparr>,
       dx_next_id := dx_next_id c + 1, dx_tx_seq := dx_tx_seq c + 1,
       dx_pending := (dx_pending c)[0 := \<lparr> pe_in_use = True, pe_request_id = rid,
         pe_cb = Some (Other_reply On_prov_reply), pe_sent_ms = w_clock (env c) \<rparr>] \<rparr>)"

lemma prov_send_run:
  assumes "none_pending (dx_pending c)" "length args \<le> 100"
  shows "prov_send rec_port cmd args c = Ret ((), after_send cmd args c)"
  using assms(2) none_pending_alloc [OF assms(1)]
  by (simp add: prov_send_def ignoreA_def demux_send_shell_def demux_send_shell_to_def send_request_def send_frame_addr_def
      rec_send rec_clock after_send_def Let_def SHELL_EXEC_HDR_def COMM_PAYLOAD_MAX_def u16_id)

text \<open>The request a frame carries: its addressee, opcode, command and arguments.\<close>

type_synonym request = "8 word \<times> 16 word \<times> 16 word \<times> bytes"

definition request :: "frame_meta \<times> bytes \<Rightarrow> request" where
  "request f = (fm_addr (fst f), fm_cmd (fst f), le16 (snd f ! 2) (snd f ! 3), drop 4 (snd f))"

definition dongle_exec :: "16 word \<times> bytes \<Rightarrow> request" where
  "dongle_exec q = (DONGLE_ADDR, OP_SHELL_EXEC, fst q, snd q)"

text \<open>One request is in the table, of number \<open>rid\<close>.\<close>

definition awaiting :: "16 word \<Rightarrow> (world, 'u, 'z) controller_scheme \<Rightarrow> bool" where
  "awaiting rid c = (\<exists>ps t. none_pending ps \<and> dx_pending c = ps[0 := \<lparr> pe_in_use = True, pe_request_id = rid,
     pe_cb = Some (Other_reply On_prov_reply), pe_sent_ms = t \<rparr>])"

lemma after_send_simps [simp]:
  "cc_roster (after_send cmd args c) = cc_roster c" "cc_prov (after_send cmd args c) = cc_prov c"
  "cc_prov_idx (after_send cmd args c) = cc_prov_idx c"
  by (simp_all add: after_send_def Let_def)

lemma after_send_frame:
  "\<exists>f. w_sent (env (after_send cmd args c)) = w_sent (env c) @ [f] \<and> request f = dongle_exec (cmd, args) \<and>
     snd f ! 0 = lo8 (ucast (dx_next_id c)) \<and> snd f ! 1 = hi8 (ucast (dx_next_id c))"
  by (simp add: after_send_def Let_def request_def dongle_exec_def le16_bytes)

lemma after_send_waiting: "none_pending (dx_pending c) \<Longrightarrow> awaiting (ucast (dx_next_id c)) (after_send cmd args c)"
  by (auto simp: after_send_def Let_def awaiting_def)

section \<open>The dongle answers\<close>

definition reply_meta :: "nat \<Rightarrow> frame_meta" where
  "reply_meta n = \<lparr> fm_addr = DONGLE_ADDR, fm_cmd = OP_SHELL_REPLY, fm_seq = 0, fm_ack_seq = 0, fm_ack_status = 0,
     fm_payload_len = of_nat n \<rparr>"

definition dongle_answer :: "('u, (world, 'u, 'z) controller_scheme) client \<Rightarrow> 8 word \<Rightarrow> bytes \<Rightarrow> (world, 'u, 'z, unit) cact" where
  "dongle_answer cl status result = (\<lambda>c. let p = snd (last (w_sent (env c))) in
     on_link_frame (ctl_call cl rec_port) (ctl_port cl rec_port) (reply_meta (3 + length result))
       (Some (p ! 0 # p ! 1 # status # result)) c)"

lemma reply_meta_len: "n < 256 \<Longrightarrow> unat (fm_payload_len (reply_meta n)) = n"
  unfolding reply_meta_def frame_meta.simps unat_of_nat by (simp add: take_bit_nat_eq_self)

lemma reply_meta_cmd [simp]: "fm_cmd (reply_meta n) = OP_SHELL_REPLY"
  by (simp add: reply_meta_def)

lemma dongle_answer_run:
  assumes "awaiting rid c" "w_sent (env c) = fs @ [f]" "snd f ! 0 = lo8 rid" "snd f ! 1 = hi8 rid" "length result \<le> 100"
  shows "\<exists>ps. none_pending ps \<and>
    dongle_answer cl status result c = on_prov_reply rec_port rid status result (c \<lparr> dx_pending := ps \<rparr>)"
proof -
  obtain ps t where w: "none_pending ps" "dx_pending c = ps[0 := \<lparr> pe_in_use = True, pe_request_id = rid,
     pe_cb = Some (Other_reply On_prov_reply), pe_sent_ms = t \<rparr>]" using assms(1) by (auto simp: awaiting_def)
  have len: "length ps = 24" using w(1) by (simp add: none_pending_def PENDING_MAX_def)
  then have 0: "dx_pending c ! 0 = \<lparr> pe_in_use = True, pe_request_id = rid, pe_cb = Some (Other_reply On_prov_reply),
     pe_sent_ms = t \<rparr>" using w(2) by simp
  have find: "pending_find rid c = Some 0"
    using len 0 w(2) by (simp add: pending_find_def first_index_def upt_conv_Cons)
  let ?ps = "(dx_pending c)[0 := (dx_pending c ! 0) \<lparr> pe_in_use := False \<rparr>]"
  have free: "none_pending ?ps"
    using w 0 by (auto simp: none_pending_def intro: list_all_update)
  have "unat (fm_payload_len (reply_meta (3 + length result))) = 3 + length result"
    by (rule reply_meta_len) (use assms(5) in simp)
  then have "dongle_answer cl status result c = on_prov_reply rec_port rid status result (c \<lparr> dx_pending := ?ps \<rparr>)"
    using assms(2-4) find 0
    by (simp add: dongle_answer_def on_link_frame_def SHELL_REPLY_HDR_def le16_bytes resolve_def Let_def
        ctl_call_def reply_call_def)
  with free show ?thesis by blast
qed

section \<open>The push, stage by stage\<close>

definition requests :: "roster \<Rightarrow> (16 word \<times> bytes) list" where
  "requests r = (CMD_BUS_CLEAR_ROSTER, []) # map (\<lambda>sl. (CMD_BUS_REGISTER_SLAVE, register_args sl)) (ro_slaves r) @
     (if ro_poll_cfg_set r then [(CMD_BUS_SET_POLL, setpoll_args r)] else []) @ [(CMD_BUS_LIST_SLAVES, [])]"

definition phase :: "roster \<Rightarrow> nat \<Rightarrow> prov_state" where
  "phase r k = (if k = 0 then PROV_CLEAR else if k \<le> length (ro_slaves r) then PROV_REGISTER
     else if ro_poll_cfg_set r \<and> k = length (ro_slaves r) + 1 then PROV_SET_POLL else PROV_LIST)"

definition at_stage :: "(frame_meta \<times> bytes) list \<Rightarrow> roster \<Rightarrow> nat \<Rightarrow> (world, 'u, 'z) controller_scheme \<Rightarrow> bool" where
  "at_stage pre r k c = (cc_roster c = r \<and> cc_prov c = phase r k \<and> (phase r k = PROV_REGISTER \<longrightarrow> cc_prov_idx c + 1 = k) \<and>
     (\<exists>rid fs f. awaiting rid c \<and> w_sent (env c) = pre @ fs @ [f] \<and> snd f ! 0 = lo8 rid \<and> snd f ! 1 = hi8 rid \<and>
        map request (fs @ [f]) = map dongle_exec (take (Suc k) (requests r))))"

lemma request_args: "q \<in> set (requests r) \<Longrightarrow> length (snd q) \<le> 100"
  by (auto simp: requests_def register_args_def setpoll_args_def wr_u32le_def)

lemma stage_send:
  assumes "none_pending (dx_pending c)" "k < length (requests r)" "requests r ! k = (cmd, args)" "cc_roster c = r"
    "cc_prov c = phase r k" "phase r k = PROV_REGISTER \<longrightarrow> cc_prov_idx c + 1 = k" "w_sent (env c) = pre @ fs"
    "map request fs = map dongle_exec (take k (requests r))"
  shows "\<exists>c'. prov_send rec_port cmd args c = Ret ((), c') \<and> at_stage pre r k c'"
proof -
  have "length args \<le> 100" using request_args [OF nth_mem [OF assms(2)]] assms(3) by simp
  note run = prov_send_run [OF assms(1) this, of cmd]
  obtain f where f: "w_sent (env (after_send cmd args c)) = w_sent (env c) @ [f]" "request f = dongle_exec (cmd, args)"
    "snd f ! 0 = lo8 (ucast (dx_next_id c))" "snd f ! 1 = hi8 (ucast (dx_next_id c))" using after_send_frame [of cmd args c] by blast
  have "map request (fs @ [f]) = map dongle_exec (take (Suc k) (requests r))"
    using f(2) assms(2,3,8) by (simp add: take_Suc_conv_app_nth)
  then have "at_stage pre r k (after_send cmd args c)"
    using assms(4-7) f(1,3,4) after_send_waiting [OF assms(1), of cmd args] unfolding at_stage_def
    by (intro conjI exI [of _ "ucast (dx_next_id c)"] exI [of _ fs] exI [of _ f]) simp_all
  with run show ?thesis by blast
qed

lemma requests_nth:
  "requests r ! 0 = (CMD_BUS_CLEAR_ROSTER, [])"
  "i < length (ro_slaves r) \<Longrightarrow> requests r ! Suc i = (CMD_BUS_REGISTER_SLAVE, register_args (ro_slaves r ! i))"
  "ro_poll_cfg_set r \<Longrightarrow> requests r ! Suc (length (ro_slaves r)) = (CMD_BUS_SET_POLL, setpoll_args r)"
  "ro_poll_cfg_set r \<Longrightarrow> requests r ! Suc (Suc (length (ro_slaves r))) = (CMD_BUS_LIST_SLAVES, [])"
  "\<not> ro_poll_cfg_set r \<Longrightarrow> requests r ! Suc (length (ro_slaves r)) = (CMD_BUS_LIST_SLAVES, [])"
  "length (requests r) = length (ro_slaves r) + (if ro_poll_cfg_set r then 3 else 2)"
  by (simp_all add: requests_def nth_append)

text \<open>After the last slave: the poll configuration, or the read-back.\<close>

lemma after_slaves_stage:
  assumes "none_pending (dx_pending c)" "cc_roster c = r" "w_sent (env c) = pre @ fs"
    "map request fs = map dongle_exec (take (Suc (length (ro_slaves r))) (requests r))"
  shows "\<exists>c'. prov_after_slaves rec_port c = Ret ((), c') \<and> at_stage pre r (Suc (length (ro_slaves r))) c'"
proof (cases "ro_poll_cfg_set r")
  case True
  have "\<exists>c'. prov_send rec_port CMD_BUS_SET_POLL (setpoll_args r) (c \<lparr> cc_prov := PROV_SET_POLL \<rparr>) = Ret ((), c') \<and>
      at_stage pre r (Suc (length (ro_slaves r))) c'"
    by (rule stage_send) (use assms True in \<open>simp_all add: requests_nth phase_def\<close>)
  then show ?thesis using True assms(2) by (simp add: prov_after_slaves_def set_prov_def prov_send_setpoll_def)
next
  case False
  have "\<exists>c'. prov_send rec_port CMD_BUS_LIST_SLAVES [] (c \<lparr> cc_prov := PROV_LIST \<rparr>) = Ret ((), c') \<and>
      at_stage pre r (Suc (length (ro_slaves r))) c'"
    by (rule stage_send) (use assms False in \<open>simp_all add: requests_nth phase_def\<close>)
  then show ?thesis using False assms(2) by (simp add: prov_after_slaves_def set_prov_def prov_send_list_def)
qed

lemma stage_answer:
  fixes c :: "(world, 'u, 'z) controller_scheme" and cl :: "('u, (world, 'u, 'z) controller_scheme) client"
  assumes "at_stage pre r k c" "Suc k < length (requests r)"
  shows "\<exists>c'. dongle_answer cl 0 [] c = Ret ((), c') \<and> at_stage pre r (Suc k) c'"
proof -
  obtain rid fs f where at: "awaiting rid c" "w_sent (env c) = pre @ fs @ [f]" "snd f ! 0 = lo8 rid" "snd f ! 1 = hi8 rid"
    "map request (fs @ [f]) = map dongle_exec (take (Suc k) (requests r))" "cc_roster c = r" "cc_prov c = phase r k"
    "phase r k = PROV_REGISTER \<longrightarrow> cc_prov_idx c + 1 = k"
    using assms(1) by (auto simp: at_stage_def)
  have sent: "w_sent (env c) = (pre @ fs) @ [f]" using at(2) by simp
  obtain ps where ps: "none_pending ps"
    "dongle_answer cl 0 [] c = on_prov_reply rec_port rid 0 [] (c \<lparr> dx_pending := ps \<rparr>)"
    using dongle_answer_run [OF at(1) sent at(3,4), where result = "[]" and cl = cl and status = 0] by auto
  let ?c = "c \<lparr> dx_pending := ps \<rparr>" and ?n = "length (ro_slaves r)"
  let ?reg = "\<lambda>i. ?c \<lparr> cc_prov := PROV_REGISTER, cc_prov_idx := i \<rparr>"
  have reg: "\<exists>c'. prov_send_register rec_port k (?reg k) = Ret ((), c') \<and> at_stage pre r (Suc k) c'" if "k < ?n"
  proof -
    have "\<exists>c'. prov_send rec_port CMD_BUS_REGISTER_SLAVE (register_args (ro_slaves r ! k)) (?reg k) = Ret ((), c') \<and>
        at_stage pre r (Suc k) c'"
      by (rule stage_send [where fs = "fs @ [f]"]) (use that at ps(1) assms(2) in \<open>simp_all add: requests_nth phase_def\<close>)
    then show ?thesis using that at(6) by (simp add: prov_send_register_def)
  qed
  have slaves: "\<exists>c'. prov_after_slaves rec_port c1 = Ret ((), c') \<and> at_stage pre r (Suc k) c'"
    if "k = ?n" "dx_pending c1 = ps" "cc_roster c1 = r" "env c1 = env c" for c1 :: "(world, 'u, 'z) controller_scheme"
    unfolding that(1)
    by (rule after_slaves_stage [where fs = "fs @ [f]"]) (use that at ps(1) in simp_all)
  consider "k = 0" "?n = 0" | "k = 0" "0 < ?n" | "0 < k" "k < ?n" | "0 < k" "k = ?n" | "k = Suc ?n" "ro_poll_cfg_set r"
  proof -
    have "k \<le> ?n \<or> k = Suc ?n \<and> ro_poll_cfg_set r"
      using assms(2) unfolding requests_nth(6) by (cases "ro_poll_cfg_set r") (auto simp: less_Suc_eq_le le_Suc_eq)
    then show thesis using that by (cases "k = 0"; cases "k = ?n") auto
  qed
  then have "\<exists>c'. on_prov_reply rec_port rid 0 [] ?c = Ret ((), c') \<and> at_stage pre r (Suc k) c'"
  proof cases
    case 1
    then show ?thesis using slaves [of ?c] at(6,7) by (simp add: on_prov_reply_def phase_def)
  next
    case 2
    then show ?thesis using reg at(6,7) by (simp add: on_prov_reply_def phase_def)
  next
    case 3
    then have "cc_prov c = PROV_REGISTER" using at(7) by (simp add: phase_def)
    then have eq: "?reg k = ?c \<lparr> cc_prov_idx := k \<rparr>" by (simp flip: \<open>cc_prov c = PROV_REGISTER\<close>)
    from 3 show ?thesis using reg [unfolded eq] at(6-8) by (simp add: on_prov_reply_def phase_def)
  next
    case 4
    then show ?thesis using slaves [of "?c \<lparr> cc_prov_idx := k \<rparr>"] at(6-8) by (simp add: on_prov_reply_def phase_def)
  next
    case 5
    have "\<exists>c'. prov_send rec_port CMD_BUS_LIST_SLAVES [] (?c \<lparr> cc_prov := PROV_LIST \<rparr>) = Ret ((), c') \<and>
        at_stage pre r (Suc k) c'"
      by (rule stage_send [where fs = "fs @ [f]"]) (use 5 at ps(1) in \<open>simp_all add: requests_nth phase_def\<close>)
    then show ?thesis using 5 at(6,7) by (simp add: on_prov_reply_def phase_def set_prov_def prov_send_list_def)
  qed
  with ps(2) show ?thesis by simp
qed

lemma push_stages:
  fixes c :: "(world, 'u, 'z) controller_scheme" and cl :: "('u, (world, 'u, 'z) controller_scheme) client"
  assumes "at_stage pre r k c" "k + n < length (requests r)"
  shows "\<exists>c'. eachA (\<lambda>_. dongle_answer cl 0 []) [0..<n] c = Ret ((), c') \<and> at_stage pre r (k + n) c'"
proof -
  have "\<exists>c'. eachA (\<lambda>_. dongle_answer cl 0 []) [0..<n] c = Ret ((), c') \<and> at_stage pre r (k + length [0..<n]) c'"
    by (rule eachA_invariant [where I = "\<lambda>j. at_stage pre r (k + j)"]) (use assms stage_answer [where cl = cl] in auto)
  then show ?thesis by simp
qed

text \<open>
  C29. The roster is pushed down as it stands. Take an operational controller whose dongle is a bus
  controller, with a roster attached and nothing pending, and a dongle that answers every request
  with OK: the controller sends, each after the answer to the one before, the request that clears
  the dongle's roster, one registration per slave in the order of the roster with its address,
  class and flags, the poll configuration if there is one, and the request to list, and nothing
  else; then the push is done if the dongle lists at least as many slaves as the roster has, and
  has failed otherwise.
\<close>

theorem provisioning_pushes_roster:
  fixes c :: "(world, 'u, 'z) controller_scheme" and cl :: "('u, (world, 'u, 'z) controller_scheme) client"
  assumes "cc_have_roster c" "cc_prov c = PROV_IDLE" "cc_proto c = PROTO_OPERATIONAL" "cc_have_identity c"
    "id_class_id (cc_identity c) = CLASS_ID_BUS_CONTROLLER" "none_pending (dx_pending c)" "length rest \<le> 99"
  defines "reqs \<equiv> requests (cc_roster c)"
  shows "\<exists>c1 c2 fs.
    seqA (start_provisioning rec_port) (eachA (\<lambda>_. dongle_answer cl 0 []) [0..<length reqs - 1]) c = Ret ((), c1) \<and>
    w_sent (env c1) = w_sent (env c) @ fs \<and> map request fs = map dongle_exec reqs \<and>
    dongle_answer cl 0 (listed # rest) c1 = Ret ((), c2) \<and> env c2 = env c1 \<and>
    cc_prov c2 = (if length (ro_slaves (cc_roster c)) \<le> unat listed then PROV_DONE else PROV_FAIL)"
proof -
  let ?r = "cc_roster c" and ?pre = "w_sent (env c)"
  let ?c0 = "c \<lparr> cc_prov := PROV_CLEAR, cc_prov_idx := 0, cc_bc_total := 0 \<rparr>"
  have "\<exists>c'. prov_send rec_port CMD_BUS_CLEAR_ROSTER [] ?c0 = Ret ((), c') \<and> at_stage ?pre ?r 0 c'"
    by (rule stage_send [where fs = "[]"]) (use assms(6) in \<open>simp_all add: requests_nth phase_def\<close>)
  then obtain c0 where c0: "start_provisioning rec_port c = Ret ((), c0)" "at_stage ?pre ?r 0 c0"
    using assms(1-5)
    by (auto simp: start_provisioning_def controller_role_def identity_role_def CLASS_ID_BUS_CONTROLLER_def CLASS_ID_DONGLE_def
        prov_start_def prov_send_clear_def)
  have pos: "0 < length reqs" by (simp add: reqs_def requests_def)
  obtain c1 where c1: "eachA (\<lambda>_. dongle_answer cl 0 []) [0..<length reqs - 1] c0 = Ret ((), c1)"
    "at_stage ?pre ?r (length reqs - 1) c1"
    using push_stages [OF c0(2), of "length reqs - 1" cl] pos unfolding reqs_def by auto
  from c1(2) obtain rid fs f where at: "awaiting rid c1" "w_sent (env c1) = (?pre @ fs) @ [f]" "snd f ! 0 = lo8 rid"
    "snd f ! 1 = hi8 rid" "map request (fs @ [f]) = map dongle_exec reqs" "cc_roster c1 = ?r" "cc_prov c1 = PROV_LIST"
    unfolding at_stage_def reqs_def using pos
    by (auto simp: reqs_def requests_nth phase_def split: if_splits)
  have "length (listed # rest) \<le> 100" using assms(7) by simp
  from dongle_answer_run [OF at(1-4) this, of cl 0] obtain ps where
    "dongle_answer cl 0 (listed # rest) c1 = on_prov_reply rec_port rid 0 (listed # rest) (c1 \<lparr> dx_pending := ps \<rparr>)" by blast
  then have "dongle_answer cl 0 (listed # rest) c1 = Ret ((), c1 \<lparr> dx_pending := ps, cc_bc_total := listed,
      cc_prov := (if length (ro_slaves ?r) \<le> unat listed then PROV_DONE else PROV_FAIL) \<rparr>)"
    using at(6,7) by (simp add: on_prov_reply_def Let_def)
  moreover have "seqA (start_provisioning rec_port) (eachA (\<lambda>_. dongle_answer cl 0 []) [0..<length reqs - 1]) c = Ret ((), c1)"
    using c0(1) c1(1) by simp
  ultimately show ?thesis using at(2,5)
    by (intro exI [of _ c1] exI [of _ "c1 \<lparr> dx_pending := ps, cc_bc_total := listed,
      cc_prov := (if length (ro_slaves ?r) \<le> unat listed then PROV_DONE else PROV_FAIL) \<rparr>"] exI [of _ "fs @ [f]"]) simp
qed

section \<open>The ladder\<close>

text \<open>A controller with nothing to do: no request pending, no slave, no roster, no callback.\<close>

definition bare :: "(world, 'u, 'z) controller_scheme \<Rightarrow> bool" where
  "bare c = (none_pending (dx_pending c) \<and> length (ct_slots c) = SLOT_MAX \<and> list_all (\<lambda>sl. \<not> sl_in_use sl) (ct_slots c) \<and>
     \<not> cc_have_roster c \<and> cc_proto_cb c = None)"

lemma eachA_idle: "(\<And>i. i \<in> set xs \<Longrightarrow> body i s = Ret ((), s)) \<Longrightarrow> eachA body xs s = Ret ((), s)"
  by (induction xs) auto

lemma sweep_idle:
  assumes "none_pending (dx_pending c)"
  shows "sweep_timeouts call (ctl_port cl rec_port) t c = Ret ((), c)"
proof -
  have "\<not> pe_in_use (dx_pending c ! i)" if "i < PENDING_MAX" for i
    using assms that by (simp add: none_pending_def list_all_length)
  then show ?thesis
    by (simp add: sweep_timeouts_def ctl_clock) (intro impI eachA_idle; simp)
qed

lemma bare_tracker_poll:
  assumes "bare c"
  shows "cmd_tracker_poll done pt now c = Ret ((), c \<lparr> ct_now := now \<rparr>)"
proof -
  have "poll_slot done pt now i (c \<lparr> ct_now := now \<rparr>) = Ret ((), c \<lparr> ct_now := now \<rparr>)" if "i < SLOT_MAX" for i
    using assms that by (simp add: poll_slot_def bare_def list_all_length Let_def)
  then show ?thesis by (simp add: cmd_tracker_poll_def) (intro eachA_idle; simp)
qed

definition recv :: "('u, (world, 'u, 'z) controller_scheme) client \<Rightarrow> frame_meta \<Rightarrow> bytes \<Rightarrow> (world, 'u, 'z, unit) cact" where
  "recv cl meta p = on_link_frame (ctl_call cl rec_port) (ctl_port cl rec_port) meta (Some p)"

text \<open>One turn of the owner's loop: time passes, then the controller polls and finds the frames in the link.\<close>

definition turn :: "('u, (world, 'u, 'z) controller_scheme) client \<Rightarrow> 64 word \<times> (frame_meta \<times> bytes) list \<Rightarrow> (world, 'u, 'z, unit) cact" where
  "turn cl ev = seqA (modA (\<lambda>c. c \<lparr> env := (env c) \<lparr> w_clock := fst ev \<rparr> \<rparr>))
     (controller_poll cl rec_port (eachA (\<lambda>(m, p). recv cl m p) (snd ev)))"

definition manifest_due :: "(world, 'u, 'z) controller_scheme \<Rightarrow> bool" where
  "manifest_due c = (cc_get_manifest_pending c \<and> w_clock (env c) \<ge> cc_get_manifest_at c)"

definition after_fire :: "(world, 'u, 'z) controller_scheme \<Rightarrow> (world, 'u, 'z) controller_scheme" where
  "after_fire c = (if manifest_due c then c \<lparr> dx_tx_seq := dx_tx_seq c + 1, env := (env c) \<lparr> w_sent := w_sent (env c) @
       [(\<lparr> fm_addr = DONGLE_ADDR, fm_cmd = OP_GET_MANIFEST, fm_seq = dx_tx_seq c, fm_ack_seq = 0, fm_ack_status = 0,
          fm_payload_len = 0 \<rparr>, [])] \<rparr>, cc_get_manifest_pending := False \<rparr> else c)"

lemma fire_run: "fire_get_manifest rec_port c = Ret ((), after_fire c)"
  by (simp add: fire_get_manifest_def after_fire_def manifest_due_def rec_clock rec_raw ignoreA_def)

lemma bare_after_fire: "bare c \<Longrightarrow> bare (after_fire c)"
  by (simp add: bare_def after_fire_def)

lemma bare_turn:
  assumes "eachA (\<lambda>(m, p). recv cl m p) fs (c \<lparr> env := (env c) \<lparr> w_clock := t \<rparr> \<rparr>) = Ret ((), c1)" "bare c1" "w_clock (env c1) = t"
  shows "turn cl (t, fs) c = Ret ((), (after_fire c1) \<lparr> ct_now := t \<rparr>)"
proof -
  let ?c2 = "after_fire c1"
  have b: "bare ?c2" by (rule bare_after_fire [OF assms(2)])
  have t: "w_clock (env ?c2) = t" using assms(3) by (simp add: after_fire_def)
  have "none_pending (dx_pending c1)" using assms(2) by (simp add: bare_def)
  then have "demux_poll (ctl_call cl rec_port) (ctl_port cl rec_port) (eachA (\<lambda>(m, p). recv cl m p) fs) 2500
      (c \<lparr> env := (env c) \<lparr> w_clock := t \<rparr> \<rparr>) = Ret ((), c1)"
    using assms(1) by (simp add: demux_poll_def sweep_idle)
  moreover have "\<not> cc_have_roster ?c2" using b by (simp add: bare_def)
  ultimately show ?thesis
    by (simp add: turn_def controller_poll_def fire_run start_provisioning_def rec_clock bare_tracker_poll [OF b] t
        reconcile_interlocks_def)
qed

lemma recv_event:
  "fm_cmd m \<noteq> OP_SHELL_REPLY \<Longrightarrow> recv cl m p c = ctl_on_event cl rec_port m (Some p) c"
  by (simp add: recv_def on_link_frame_def ctl_port_def)

lemmas opcodes = OP_REGISTER_def OP_MANIFEST_REPLY_def OP_HEARTBEAT_def OP_SHELL_REPLY_def

definition sent_raw :: "16 word \<Rightarrow> (world, 'u, 'z) controller_scheme \<Rightarrow> (world, 'u, 'z) controller_scheme" where
  "sent_raw opc c = c \<lparr> dx_tx_seq := dx_tx_seq c + 1, env := (env c) \<lparr> w_sent := w_sent (env c) @
     [(\<lparr> fm_addr = DONGLE_ADDR, fm_cmd = opc, fm_seq = dx_tx_seq c, fm_ack_seq = 0, fm_ack_status = 0, fm_payload_len = 0 \<rparr>, [])] \<rparr> \<rparr>"

lemma recv_register:
  assumes "fm_cmd m = OP_REGISTER" "unat (fm_payload_len m) = length p" "length p \<ge> 38" "p ! 0 = 2"
    "cc_proto c = PROTO_UNKNOWN" "\<not> cc_have_identity c" "cc_last_ack_ms c = 0" "cc_proto_cb c = None"
  shows "recv cl m p c = Ret ((), (sent_raw OP_REGISTER_ACK c) \<lparr> cc_identity := the (identity_parse_register (Some p) (length p)),
    cc_have_identity := True, cc_last_ack_ms := w_clock (env c), cc_get_manifest_at := w_clock (env c) + MANIFEST_GAP_MS,
    cc_get_manifest_pending := True, cc_proto := PROTO_L1_ACKED \<rparr>)"
  using assms
  by (simp add: recv_event opcodes ctl_on_event_def on_event_register_def identity_parse_register_def REGISTER_V2_LEN_def
      REGISTER_V2_VER_def set_proto_def drive_boot_def rec_clock rec_raw ignoreA_def sent_raw_def Let_def)

lemma recv_manifest:
  assumes "fm_cmd m = OP_MANIFEST_REPLY" "unat (fm_payload_len m) = length p" "length p \<ge> 9"
    "cc_proto c = PROTO_L1_ACKED" "cc_proto_cb c = None"
  shows "recv cl m p c = Ret ((), (sent_raw OP_OPERATIONAL_BEGIN c) \<lparr> cc_manifest := \<lparr> mf_valid = True,
    mf_schema_hash = rd_u32 p 0, mf_fw_version = rd_u32 p 4, mf_m2s_count = p ! 8 \<rparr>, cc_get_manifest_pending := False,
    cc_proto := PROTO_MANIFEST_OK \<rparr>)"
proof -
  have "9 \<le> fm_payload_len m" using assms(2,3) by (simp add: word_le_nat_alt)
  then show ?thesis using assms
    by (simp add: recv_event opcodes ctl_on_event_def on_event_manifest_def with_payload_def set_proto_def rec_raw ignoreA_def
        sent_raw_def Let_def)
qed

lemma recv_heartbeat:
  assumes "fm_cmd m = OP_HEARTBEAT" "cc_proto c = PROTO_MANIFEST_OK" "cc_proto_cb c = None"
  shows "recv cl m p c = Ret ((), c \<lparr> cc_get_manifest_pending := False, cc_proto := PROTO_OPERATIONAL \<rparr>)"
  using assms by (simp add: recv_event opcodes ctl_on_event_def set_proto_def Let_def)

text \<open>
  C31. The ladder is climbed. A fresh controller over a link that is up meets a dongle that
  announces itself with REGISTER, then, some turns of the loop later, sends its manifest and a
  heartbeat. Whatever the times of the turns, if the second is at least 60 ms after the first: the
  controller has sent REGISTER_ACK, GET_MANIFEST and OPERATIONAL_BEGIN, in this order and nothing
  else, it is operational, and it holds the identity and the manifest the dongle sent.
\<close>

theorem sync_ladder_climbs:
  fixes cl :: "('u, (world, 'u) controller) client"
  assumes "fm_cmd m1 = OP_REGISTER" "unat (fm_payload_len m1) = length p1" "length p1 \<ge> 38" "p1 ! 0 = 2"
    "fm_cmd m2 = OP_MANIFEST_REPLY" "unat (fm_payload_len m2) = length p2" "length p2 \<ge> 9"
    "fm_cmd m3 = OP_HEARTBEAT" "t1 < t1 + MANIFEST_GAP_MS" "t1 + MANIFEST_GAP_MS \<le> t2"
  shows "\<exists>c. eachA (turn cl) [(t1, [(m1, p1)]), (t2, []), (t3, [(m2, p2)]), (t4, [(m3, p3)])]
      (controller_create \<lparr> w_sent = [], w_clock = t0 \<rparr> LINK_UP) = Ret ((), c) \<and>
    map (fm_cmd \<circ> fst) (w_sent (env c)) = [OP_REGISTER_ACK, OP_GET_MANIFEST, OP_OPERATIONAL_BEGIN] \<and>
    controller_is_operational c \<and> controller_identity c = identity_parse_register (Some p1) (length p1) \<and>
    controller_manifest c = Some \<lparr> mf_valid = True, mf_schema_hash = rd_u32 p2 0, mf_fw_version = rd_u32 p2 4, mf_m2s_count = p2 ! 8 \<rparr>"
proof -
  let ?c0 = "controller_create \<lparr> w_sent = [], w_clock = t0 \<rparr> LINK_UP :: (world, 'u) controller"
  note create = controller_create_def controller_fields_def cmd_tracker_create_def demux_create_def demux.defs tracker.defs
    controller.defs
  have f0: "cc_proto ?c0 = PROTO_UNKNOWN" "\<not> cc_have_identity ?c0" "cc_last_ack_ms ?c0 = 0" "cc_proto_cb ?c0 = None"
    "w_sent (env ?c0) = []" by (simp_all add: create)
  have b0: "bare ?c0"
    by (simp add: bare_def create none_pending_def list_all_iff free_entry_def clear_slot_def)
  let ?set = "\<lambda>t c. c \<lparr> env := (env c) \<lparr> w_clock := t \<rparr> \<rparr>"
  let ?r1 = "(sent_raw OP_REGISTER_ACK (?set t1 ?c0)) \<lparr> cc_identity := the (identity_parse_register (Some p1) (length p1)),
    cc_have_identity := True, cc_last_ack_ms := t1, cc_get_manifest_at := t1 + MANIFEST_GAP_MS,
    cc_get_manifest_pending := True, cc_proto := PROTO_L1_ACKED \<rparr>"
  let ?c1 = "?r1 \<lparr> ct_now := t1 \<rparr>"
  have "recv cl m1 p1 (?set t1 ?c0) = Ret ((), ?r1)"
    using recv_register [where m = m1 and p = p1 and c = "?set t1 ?c0" and cl = cl] assms(1-4) f0 by simp
  moreover have "bare ?r1" using b0 by (simp add: bare_def sent_raw_def)
  moreover have "after_fire ?r1 = ?r1" using assms(9) by (simp add: after_fire_def manifest_due_def sent_raw_def not_le)
  ultimately have turn1: "turn cl (t1, [(m1, p1)]) ?c0 = Ret ((), ?c1)"
    using bare_turn [where cl = cl and fs = "[(m1, p1)]" and c = ?c0 and t = t1 and ?c1.0 = ?r1] by (simp add: sent_raw_def)
  let ?r2 = "?set t2 ?c1"
  let ?c2 = "(after_fire ?r2) \<lparr> ct_now := t2 \<rparr>"
  have b2: "bare ?r2" using b0 by (simp add: bare_def sent_raw_def)
  have turn2: "turn cl (t2, []) ?c1 = Ret ((), ?c2)"
    using bare_turn [where cl = cl and fs = "[]" and c = ?c1 and t = t2 and ?c1.0 = ?r2] b2 by simp
  have f2: "cc_proto ?c2 = PROTO_L1_ACKED" "cc_proto_cb ?c2 = None" "cc_have_identity ?c2"
    "cc_identity ?c2 = the (identity_parse_register (Some p1) (length p1))" "bare ?c2"
    "map (fm_cmd \<circ> fst) (w_sent (env ?c2)) = [OP_REGISTER_ACK, OP_GET_MANIFEST]"
    using assms(10) f0(4,5) bare_after_fire [OF b2] by (simp_all add: after_fire_def manifest_due_def sent_raw_def bare_def)
  obtain c2 where c2: "c2 = ?c2" by blast
  note f2 = f2 [folded c2] and turn2 = turn2 [folded c2]
  let ?r3 = "(sent_raw OP_OPERATIONAL_BEGIN (?set t3 c2)) \<lparr> cc_manifest := \<lparr> mf_valid = True,
    mf_schema_hash = rd_u32 p2 0, mf_fw_version = rd_u32 p2 4, mf_m2s_count = p2 ! 8 \<rparr>, cc_get_manifest_pending := False,
    cc_proto := PROTO_MANIFEST_OK \<rparr>"
  have "recv cl m2 p2 (?set t3 c2) = Ret ((), ?r3)"
    using recv_manifest [where m = m2 and p = p2 and c = "?set t3 c2" and cl = cl] assms(5-7) f2(1,2) by simp
  moreover have b3: "bare ?r3" using f2(5) by (simp add: bare_def sent_raw_def)
  moreover have "after_fire ?r3 = ?r3" by (simp add: after_fire_def manifest_due_def)
  ultimately have turn3: "turn cl (t3, [(m2, p2)]) c2 = Ret ((), ?r3 \<lparr> ct_now := t3 \<rparr>)"
    using bare_turn [where cl = cl and fs = "[(m2, p2)]" and c = c2 and t = t3 and ?c1.0 = ?r3] by (simp add: sent_raw_def)
  let ?c3 = "?r3 \<lparr> ct_now := t3 \<rparr>"
  let ?r4 = "(?set t4 ?c3) \<lparr> cc_get_manifest_pending := False, cc_proto := PROTO_OPERATIONAL \<rparr>"
  have "recv cl m3 p3 (?set t4 ?c3) = Ret ((), ?r4)"
    using recv_heartbeat [where m = m3 and p = p3 and c = "?set t4 ?c3" and cl = cl] assms(8) f2(2) by (simp add: sent_raw_def)
  moreover have "bare ?r4" using b3 by (simp add: bare_def)
  moreover have "after_fire ?r4 = ?r4" by (simp add: after_fire_def manifest_due_def)
  ultimately have turn4: "turn cl (t4, [(m3, p3)]) ?c3 = Ret ((), ?r4 \<lparr> ct_now := t4 \<rparr>)"
    using bare_turn [where cl = cl and fs = "[(m3, p3)]" and c = ?c3 and t = t4 and ?c1.0 = ?r4] by simp
  have "identity_parse_register (Some p1) (length p1) \<noteq> None"
    using assms(3,4) by (simp add: identity_parse_register_def REGISTER_V2_LEN_def REGISTER_V2_VER_def)
  with turn1 turn2 turn3 turn4 f2 show ?thesis
    by (intro exI [of _ "?r4 \<lparr> ct_now := t4 \<rparr>"])
      (auto simp: sent_raw_def controller_is_operational_def controller_identity_def controller_manifest_def)
qed

definition demo_client :: "(unit, (world, unit) controller) client" where
  "demo_client = \<lparr> cl_reply = (\<lambda>_ _ _ _. retA ()), cl_done = (\<lambda>_ _ _ _ _. retA ()), cl_proto = (\<lambda>_ _ _. retA ()),
     cl_liveness = (\<lambda>_ _ _ _. retA ()), cl_flagged = (\<lambda>_ _ _. retA ()) \<rparr>"

theorem sync_ladder_climbs_witness:
  "\<exists>c. eachA (turn demo_client) [(1000, [((reply_meta 38) \<lparr> fm_cmd := OP_REGISTER \<rparr>, 2 # replicate 37 0)]), (1060, []),
      (1100, [((reply_meta 9) \<lparr> fm_cmd := OP_MANIFEST_REPLY \<rparr>, replicate 9 0)]),
      (2000, [((reply_meta 0) \<lparr> fm_cmd := OP_HEARTBEAT \<rparr>, [])])]
      (controller_create \<lparr> w_sent = [], w_clock = 0 \<rparr> LINK_UP) = Ret ((), c) \<and> controller_is_operational c"
proof -
  have l: "unat (fm_payload_len ((reply_meta 38) \<lparr> fm_cmd := OP_REGISTER \<rparr>)) = length (2 # replicate 37 (0 :: 8 word))"
    "unat (fm_payload_len ((reply_meta 9) \<lparr> fm_cmd := OP_MANIFEST_REPLY \<rparr>)) = length (replicate 9 (0 :: 8 word))"
    by (simp_all add: reply_meta_def)
  have m: "fm_cmd ((reply_meta 38) \<lparr> fm_cmd := OP_REGISTER \<rparr>) = OP_REGISTER"
    "fm_cmd ((reply_meta 9) \<lparr> fm_cmd := OP_MANIFEST_REPLY \<rparr>) = OP_MANIFEST_REPLY"
    "fm_cmd ((reply_meta 0) \<lparr> fm_cmd := OP_HEARTBEAT \<rparr>) = OP_HEARTBEAT" by simp_all
  have t: "(1000 :: 64 word) < 1000 + MANIFEST_GAP_MS" "1000 + MANIFEST_GAP_MS \<le> 1060" by (simp_all add: MANIFEST_GAP_MS_def)
  have p: "length (2 # replicate 37 (0 :: 8 word)) \<ge> 38" "(2 # replicate 37 (0 :: 8 word)) ! 0 = 2"
    "length (replicate 9 (0 :: 8 word)) \<ge> 9" by simp_all
  from sync_ladder_climbs [OF m(1) l(1) p(1,2) m(2) l(2) p(3) m(3) t, where cl = demo_client and ?t0.0 = 0 and ?t3.0 = 1100
      and ?t4.0 = 2000 and ?p3.0 = "[]"] show ?thesis
    by (simp del: eachA.simps) blast
qed

text \<open>A controller over a bus of two slaves, ready to push the roster.\<close>

definition demo_roster :: roster where
  "demo_roster = \<lparr> ro_poll_cfg_set = True, ro_poll_period_ms = 500, ro_max_misses = 3, ro_tcp_retries = 2,
     ro_slaves = [\<lparr> rs_addr = 10, rs_class_id = 0x5E589100, rs_flags = 3 \<rparr>, \<lparr> rs_addr = 11, rs_class_id = 0x5E589100, rs_flags = 3 \<rparr>] \<rparr>"

definition demo_ready :: "(world, unit) controller" where
  "demo_ready = (controller_create \<lparr> w_sent = [], w_clock = 9000 \<rparr> LINK_UP) \<lparr> cc_have_roster := True, cc_roster := demo_roster,
     cc_proto := PROTO_OPERATIONAL, cc_have_identity := True,
     cc_identity := zero_identity \<lparr> id_class_id := CLASS_ID_BUS_CONTROLLER \<rparr> \<rparr>"

lemma unat_numeral_2: "unat (2 :: 8 word) = 2"
  by simp

lemma demo_ready_fields: "cc_have_roster demo_ready" "cc_prov demo_ready = PROV_IDLE" "cc_proto demo_ready = PROTO_OPERATIONAL"
  "cc_have_identity demo_ready" "id_class_id (cc_identity demo_ready) = CLASS_ID_BUS_CONTROLLER"
  "none_pending (dx_pending demo_ready)" "cc_roster demo_ready = demo_roster" "w_sent (env demo_ready) = []"
  by (simp_all add: demo_ready_def controller_create_def controller_fields_def cmd_tracker_create_def demux_create_def
      demux.defs tracker.defs controller.defs none_pending_def free_entry_def list_all_iff)

theorem provisioning_pushes_roster_witness:
  "\<exists>c1 c2 fs. w_sent (env c1) = fs \<and>
    map request fs = map dongle_exec [(CMD_BUS_CLEAR_ROSTER, []), (CMD_BUS_REGISTER_SLAVE, [10, 0, 0x91, 0x58, 0x5E, 3]),
      (CMD_BUS_REGISTER_SLAVE, [11, 0, 0x91, 0x58, 0x5E, 3]), (CMD_BUS_SET_POLL, [0xF4, 1, 3, 2]), (CMD_BUS_LIST_SLAVES, [])] \<and>
    dongle_answer demo_client 0 [2, 2] c1 = Ret ((), c2) \<and> cc_prov c2 = PROV_DONE"
proof -
  have "length [2 :: 8 word] \<le> 99" by simp
  from provisioning_pushes_roster [OF demo_ready_fields(1-6) this, of demo_client 2] obtain c1 c2 fs where
    "w_sent (env c1) = w_sent (env demo_ready) @ fs" "map request fs = map dongle_exec (requests demo_roster)"
    "dongle_answer demo_client 0 [2, 2] c1 = Ret ((), c2)"
    "cc_prov c2 = (if length (ro_slaves demo_roster) \<le> unat (2 :: 8 word) then PROV_DONE else PROV_FAIL)"
    unfolding demo_ready_fields(7) by blast
  moreover have "map dongle_exec (requests demo_roster) = map dongle_exec [(CMD_BUS_CLEAR_ROSTER, []),
      (CMD_BUS_REGISTER_SLAVE, [10, 0, 0x91, 0x58, 0x5E, 3]), (CMD_BUS_REGISTER_SLAVE, [11, 0, 0x91, 0x58, 0x5E, 3]),
      (CMD_BUS_SET_POLL, [0xF4, 1, 3, 2]), (CMD_BUS_LIST_SLAVES, [])]"
    by (simp add: requests_def demo_roster_def register_args_def setpoll_args_def wr_u32le_def dongle_exec_def)
  moreover have "length (ro_slaves demo_roster) = 2" by (simp add: demo_roster_def)
  ultimately show ?thesis using demo_ready_fields(8) by (metis append_Nil order_refl unat_numeral_2)
qed

section \<open>A reply of an earlier push\<close>

text \<open>
  A lost reply of an earlier push spoils a later one. A resynchronisation starts the push
  again but leaves the request that was pending in the table, and the handler does not look at
  the number of the request it is called for: when that old request times out, the push that is
  running fails, although none of its own requests has failed and its own request is still
  pending; no reply moves it any more, and no poll starts it again.
\<close>

theorem stale_reply_fails_push:
  assumes "length (dx_pending c) = PENDING_MAX" "k < PENDING_MAX" "pe_in_use (dx_pending c ! k)"
    "pe_cb (dx_pending c ! k) = Some (Other_reply On_prov_reply)" "w_clock (env c) - pe_sent_ms (dx_pending c ! k) \<ge> 2500"
    "\<forall>i < PENDING_MAX. i \<noteq> k \<longrightarrow> pe_in_use (dx_pending c ! i) \<longrightarrow> w_clock (env c) - pe_sent_ms (dx_pending c ! i) < 2500"
  shows "\<exists>c'. sweep_timeouts (ctl_call cl rec_port) (ctl_port cl rec_port) 2500 c = Ret ((), c') \<and> cc_prov c' = PROV_FAIL \<and>
    (\<forall>i < PENDING_MAX. i \<noteq> k \<longrightarrow> dx_pending c' ! i = dx_pending c ! i) \<and>
    on_prov_reply rec_port rid 0 result c' = Ret ((), c') \<and> start_provisioning rec_port c' = Ret ((), c')"
proof -
  let ?now = "w_clock (env c)"
  let ?body = "\<lambda>i s. if pe_in_use (dx_pending s ! i) \<and> ?now - pe_sent_ms (dx_pending s ! i) \<ge> 2500
    then resolve (ctl_call cl rec_port) i DEMUX_STATUS_TIMEOUT [] s else Ret ((), s)"
  let ?c1 = "c \<lparr> dx_pending := (dx_pending c)[k := (dx_pending c ! k) \<lparr> pe_in_use := False \<rparr>], cc_prov := PROV_FAIL \<rparr>"
  have hit: "?body k c = Ret ((), ?c1)"
    using assms(3-5) by (simp add: resolve_def Let_def ctl_call_def reply_call_def on_prov_reply_def set_prov_def
        DEMUX_STATUS_TIMEOUT_def)
  have "\<exists>s'. eachA ?body [0..<PENDING_MAX] c = Ret ((), s') \<and> s' = (if k < length [0..<PENDING_MAX] then ?c1 else c)"
  proof (rule eachA_invariant [where I = "\<lambda>j s. s = (if k < j then ?c1 else c)"])
    fix j s assume j: "j < length [0..<PENDING_MAX]" and s: "s = (if k < j then ?c1 else c)"
    have "j = k \<or> \<not> (pe_in_use (dx_pending s ! j) \<and> ?now - pe_sent_ms (dx_pending s ! j) \<ge> 2500)"
      using assms(6) j s by (auto simp: not_le)
    then show "\<exists>s'. ?body ([0..<PENDING_MAX] ! j) s = Ret ((), s') \<and> s' = (if k < Suc j then ?c1 else c)"
      using hit j s by (cases "j = k") auto
  qed simp
  then have "sweep_timeouts (ctl_call cl rec_port) (ctl_port cl rec_port) 2500 c = Ret ((), ?c1)"
    using assms(2) by (simp add: sweep_timeouts_def ctl_clock del: eachA.simps)
  then show ?thesis
    by (intro exI [of _ ?c1]) (simp add: on_prov_reply_def start_provisioning_def)
qed

definition demo_stale :: "(world, unit) controller" where
  "demo_stale = demo_ready \<lparr> cc_prov := PROV_REGISTER, dx_pending := (dx_pending demo_ready)
     [0 := \<lparr> pe_in_use = True, pe_request_id = 3, pe_cb = Some (Other_reply On_prov_reply), pe_sent_ms = 6000 \<rparr>,
      1 := \<lparr> pe_in_use = True, pe_request_id = 7, pe_cb = Some (Other_reply On_prov_reply), pe_sent_ms = 8900 \<rparr>] \<rparr>"

theorem stale_reply_fails_push_witness:
  "\<exists>c'. sweep_timeouts (ctl_call demo_client rec_port) (ctl_port demo_client rec_port) 2500 demo_stale = Ret ((), c') \<and>
    cc_prov c' = PROV_FAIL"
proof -
  have len: "length (dx_pending demo_ready) = PENDING_MAX" "\<And>i. i < PENDING_MAX \<Longrightarrow> \<not> pe_in_use (dx_pending demo_ready ! i)"
    using demo_ready_fields(6) by (auto simp: none_pending_def list_all_length)
  have clk: "w_clock (env demo_stale) = 9000"
    by (simp add: demo_stale_def demo_ready_def controller_create_def controller_fields_def cmd_tracker_create_def
        demux_create_def demux.defs tracker.defs controller.defs)
  have pend: "dx_pending demo_stale = (dx_pending demo_ready)
     [0 := \<lparr> pe_in_use = True, pe_request_id = 3, pe_cb = Some (Other_reply On_prov_reply), pe_sent_ms = 6000 \<rparr>,
      1 := \<lparr> pe_in_use = True, pe_request_id = 7, pe_cb = Some (Other_reply On_prov_reply), pe_sent_ms = 8900 \<rparr>]"
    by (simp add: demo_stale_def)
  have "\<exists>c'. sweep_timeouts (ctl_call demo_client rec_port) (ctl_port demo_client rec_port) 2500 demo_stale = Ret ((), c') \<and>
    cc_prov c' = PROV_FAIL \<and> (\<forall>i < PENDING_MAX. i \<noteq> 0 \<longrightarrow> dx_pending c' ! i = dx_pending demo_stale ! i) \<and>
    on_prov_reply rec_port 7 0 [] c' = Ret ((), c') \<and> start_provisioning rec_port c' = Ret ((), c')"
  proof (rule stale_reply_fails_push)
    show "\<forall>i < PENDING_MAX. i \<noteq> 0 \<longrightarrow> pe_in_use (dx_pending demo_stale ! i) \<longrightarrow>
        w_clock (env demo_stale) - pe_sent_ms (dx_pending demo_stale ! i) < 2500"
      using len by (auto simp: pend clk nth_list_update)
  qed (use len in \<open>simp_all add: pend clk PENDING_MAX_def\<close>)
  then show ?thesis by blast
qed

end
