(* ===== verification/CFL_Engine.thy ===== *)
theory CFL_Engine
  imports Fifo
begin

text \<open>
  The event-driven chain-flow engine for AVR chips (\<open>cfl_avr/runtime/cfl_engine.c\<close>): chains of
  nodes, a queue of events, and a pump that hands every event to every enabled chain.

  The module, constant and in flash, is the argument \<open>md\<close>. The engine's state is a record that an
  application extends with its own; its functions are acts on the extended state, named by type
  \<open>'f\<close> in the module's table, and the code behind the names is the argument \<open>user\<close>. A panic calls the
  application's hook, which resets the chip, and never returns: it is an \<open>Exception\<close>.
\<close>

section \<open>Module and engine\<close>

datatype cfl_status = CFL_CONTINUE | CFL_HALT | CFL_DISABLE | CFL_RESET | CFL_TERMINATE | CFL_OTHER "16 word"

definition CFL_KIND_NOP :: "8 word" where "CFL_KIND_NOP = 0"
definition CFL_KIND_M_CALL :: "8 word" where "CFL_KIND_M_CALL = 1"
definition CFL_KIND_ONE_SHOT :: "8 word" where "CFL_KIND_ONE_SHOT = 2"
definition CFL_KIND_TIME_DELAY :: "8 word" where "CFL_KIND_TIME_DELAY = 3"
definition CFL_KIND_ENABLE_CHAINS :: "8 word" where "CFL_KIND_ENABLE_CHAINS = 4"
definition CFL_KIND_DISABLE_CHAINS :: "8 word" where "CFL_KIND_DISABLE_CHAINS = 5"
definition CFL_KIND_RESET_SELF :: "8 word" where "CFL_KIND_RESET_SELF = 6"
definition CFL_KIND_TERMINATE_SELF :: "8 word" where "CFL_KIND_TERMINATE_SELF = 10"
definition CFL_KIND_WHILE :: "8 word" where "CFL_KIND_WHILE = 7"
definition CFL_KIND_VERIFY :: "8 word" where "CFL_KIND_VERIFY = 8"
definition CFL_KIND_INIT_TERM :: "8 word" where "CFL_KIND_INIT_TERM = 9"
definition CFL_FN_NONE :: "8 word" where "CFL_FN_NONE = 0xFF"
definition CFL_EVENT_INIT :: "8 word" where "CFL_EVENT_INIT = 0"
definition CFL_EVENT_TERMINATE :: "8 word" where "CFL_EVENT_TERMINATE = 1"
definition CFL_EVENT_TIME_TICK :: "8 word" where "CFL_EVENT_TIME_TICK = 2"
definition CFL_EVENT_QUEUE_SIZE :: nat where "CFL_EVENT_QUEUE_SIZE = 16"
definition CFL_EVENT_QUEUE_MASK :: "8 word" where "CFL_EVENT_QUEUE_MASK = 15"
definition NO_CHAIN :: "8 word" where "NO_CHAIN = 0xFF"

record cfl_node_desc =
  nd_kind :: "8 word"
  nd_fn_idx :: "8 word"
  nd_fn_idx_2 :: "8 word"
  nd_param_count :: "8 word"
  nd_param_off :: "16 word"

record cfl_chain_desc =
  cd_node_first :: "8 word"
  cd_node_count :: "8 word"
  cd_auto_start :: "8 word"

record 'f cfl_module =
  md_chains :: "cfl_chain_desc list"
  md_nodes :: "cfl_node_desc list"
  md_params_pool :: "16 word list"
  md_user_fns :: "'f option list"
  md_chain_count :: "8 word"
  md_node_count :: "8 word"

type_synonym cfl_queued_event = "8 word \<times> 16 word"

record cfl_engine =
  en_chain_enable :: "8 word list"
  en_node_enable :: "8 word list"
  en_node_initialized :: "8 word list"
  en_node_scratch :: "16 word list"
  en_queue :: "cfl_queued_event list"
  en_q_rx :: "8 word"
  en_q_tx :: "8 word"
  en_q_count :: "8 word"
  en_current_chain :: "8 word"

type_synonym ('z, 'a) eact = "('z cfl_engine_scheme, 'a) act"
type_synonym ('f, 's) user_code = "'f \<Rightarrow> 8 word \<Rightarrow> 8 word \<Rightarrow> 16 word \<Rightarrow> ('s, cfl_status) act"

datatype cfl_panic_code = CFL_PANIC_QUEUE_OVERFLOW | CFL_PANIC_INVALID_KIND | CFL_PANIC_INVALID_CHAIN | CFL_PANIC_SELF_MODIFY

definition panic_text :: "cfl_panic_code \<Rightarrow> string" where
  "panic_text code = (case code of
     CFL_PANIC_QUEUE_OVERFLOW \<Rightarrow> ''queue overflow'' | CFL_PANIC_INVALID_KIND \<Rightarrow> ''invalid kind''
   | CFL_PANIC_INVALID_CHAIN \<Rightarrow> ''invalid chain'' | CFL_PANIC_SELF_MODIFY \<Rightarrow> ''self modify'')"

definition cfl_panic :: "cfl_panic_code \<Rightarrow> ('s, 'a) act" where
  "cfl_panic code = excA (panic_text code)"

text \<open>Reading an array of flash or RAM at an index that C does not check.\<close>

definition readA :: "string \<Rightarrow> ('s \<Rightarrow> 'b list) \<Rightarrow> nat \<Rightarrow> ('s, 'b) act" where
  "readA what f i = (\<lambda>s. if i < length (f s) then Ret (f s ! i, s) else Trap (Fault (what @ '' read out of bounds'')))"

section \<open>Bitmaps\<close>

definition bm_get :: "8 word list \<Rightarrow> 8 word \<Rightarrow> bool" where
  "bm_get bm idx = (drop_bit (unat (idx AND 7)) (bm ! unat (drop_bit 3 idx)) AND 1 \<noteq> 0)"

definition bm_set :: "8 word list \<Rightarrow> 8 word \<Rightarrow> 8 word list" where
  "bm_set bm idx = bm[unat (drop_bit 3 idx) := bm ! unat (drop_bit 3 idx) OR push_bit (unat (idx AND 7)) 1]"

definition bm_clr :: "8 word list \<Rightarrow> 8 word \<Rightarrow> 8 word list" where
  "bm_clr bm idx = bm[unat (drop_bit 3 idx) := bm ! unat (drop_bit 3 idx) AND NOT (push_bit (unat (idx AND 7)) 1)]"

definition bm_zero :: "8 word list \<Rightarrow> 8 word \<Rightarrow> 8 word list" where
  "bm_zero bm nbits = (let bytes = (unat nbits + 7) div 8 in replicate bytes 0 @ drop bytes bm)"

definition bm_room :: "8 word list \<Rightarrow> 8 word \<Rightarrow> bool" where
  "bm_room bm idx = (unat (drop_bit 3 idx) < length bm)"

definition guardA :: "string \<Rightarrow> ('s \<Rightarrow> bool) \<Rightarrow> ('s, 'a) act \<Rightarrow> ('s, 'a) act" where
  "guardA what ok m = (\<lambda>s. if ok s then m s else Trap (Fault (what @ '' out of bounds'')))"

definition chain_on :: "8 word \<Rightarrow> ('z, unit) eact" where
  "chain_on c = guardA ''chain bitmap'' (\<lambda>e. bm_room (en_chain_enable e) c)
     (modA (\<lambda>e. e \<lparr> en_chain_enable := bm_set (en_chain_enable e) c \<rparr>))"

definition chain_off :: "8 word \<Rightarrow> ('z, unit) eact" where
  "chain_off c = guardA ''chain bitmap'' (\<lambda>e. bm_room (en_chain_enable e) c)
     (modA (\<lambda>e. e \<lparr> en_chain_enable := bm_clr (en_chain_enable e) c \<rparr>))"

definition chain_is_on :: "8 word \<Rightarrow> ('z, bool) eact" where
  "chain_is_on c = guardA ''chain bitmap'' (\<lambda>e. bm_room (en_chain_enable e) c) (getA (\<lambda>e. bm_get (en_chain_enable e) c))"

text \<open>The node bitmaps and the scratch slot of a node.\<close>

definition node_room :: "8 word \<Rightarrow> 'z cfl_engine_scheme \<Rightarrow> bool" where
  "node_room n e = (bm_room (en_node_enable e) n \<and> bm_room (en_node_initialized e) n \<and> unat n < length (en_node_scratch e))"

definition node_upd :: "8 word \<Rightarrow> ('z cfl_engine_scheme \<Rightarrow> 'z cfl_engine_scheme) \<Rightarrow> ('z, unit) eact" where
  "node_upd n f = guardA ''node tables'' (node_room n) (modA f)"

definition arm_node :: "8 word \<Rightarrow> ('z, unit) eact" where
  "arm_node n = node_upd n (\<lambda>e. e \<lparr> en_node_enable := bm_set (en_node_enable e) n,
     en_node_initialized := bm_clr (en_node_initialized e) n, en_node_scratch := (en_node_scratch e)[unat n := 0] \<rparr>)"

definition clear_node :: "8 word \<Rightarrow> ('z, unit) eact" where
  "clear_node n = node_upd n (\<lambda>e. e \<lparr> en_node_enable := bm_clr (en_node_enable e) n,
     en_node_initialized := bm_clr (en_node_initialized e) n, en_node_scratch := (en_node_scratch e)[unat n := 0] \<rparr>)"

definition mark_initialized :: "8 word \<Rightarrow> ('z, unit) eact" where
  "mark_initialized n = node_upd n (\<lambda>e. e \<lparr> en_node_initialized := bm_set (en_node_initialized e) n \<rparr>)"

definition is_enabled :: "8 word \<Rightarrow> ('z, bool) eact" where
  "is_enabled n = guardA ''node tables'' (node_room n) (getA (\<lambda>e. bm_get (en_node_enable e) n))"

definition is_inited :: "8 word \<Rightarrow> ('z, bool) eact" where
  "is_inited n = guardA ''node tables'' (node_room n) (getA (\<lambda>e. bm_get (en_node_initialized e) n))"

section \<open>Helpers of user functions\<close>

definition node_desc :: "'f cfl_module \<Rightarrow> 8 word \<Rightarrow> ('s, cfl_node_desc) act" where
  "node_desc md n = readA ''node table'' (\<lambda>_. md_nodes md) (unat n)"

definition chain_desc :: "'f cfl_module \<Rightarrow> 8 word \<Rightarrow> ('s, cfl_chain_desc) act" where
  "chain_desc md c = readA ''chain table'' (\<lambda>_. md_chains md) (unat c)"

definition cfl_node_param :: "'f cfl_module \<Rightarrow> 8 word \<Rightarrow> 8 word \<Rightarrow> ('s, 16 word) act" where
  "cfl_node_param md n p = bindA (node_desc md n) (\<lambda>d.
     readA ''parameter pool'' (\<lambda>_. md_params_pool md) (unat (nd_param_off d) + unat p))"

definition cfl_node_param_count :: "'f cfl_module \<Rightarrow> 8 word \<Rightarrow> ('s, 8 word) act" where
  "cfl_node_param_count md n = bindA (node_desc md n) (\<lambda>d. retA (nd_param_count d))"

definition cfl_node_scratch_get :: "8 word \<Rightarrow> ('z, 16 word) eact" where
  "cfl_node_scratch_get n = readA ''scratch'' en_node_scratch (unat n)"

definition cfl_node_scratch_set :: "8 word \<Rightarrow> 16 word \<Rightarrow> ('z, unit) eact" where
  "cfl_node_scratch_set n v = guardA ''scratch'' (\<lambda>e. unat n < length (en_node_scratch e))
     (modA (\<lambda>e. e \<lparr> en_node_scratch := (en_node_scratch e)[unat n := v] \<rparr>))"

definition node_fn_at :: "'f cfl_module \<Rightarrow> 8 word \<Rightarrow> nat \<Rightarrow> ('s, 'f option) act" where
  "node_fn_at md n which = bindA (node_desc md n) (\<lambda>d.
     let fi = (if which = 0 then nd_fn_idx d else nd_fn_idx_2 d) in
     if fi = CFL_FN_NONE then retA None else readA ''user function table'' (\<lambda>_. md_user_fns md) (unat fi))"

text \<open>Calling a node's function: the answer when there is none is \<open>none\<close>.\<close>

definition call_fn :: "('f, 's) user_code \<Rightarrow> 'f cfl_module \<Rightarrow> nat \<Rightarrow> cfl_status \<Rightarrow> 8 word \<Rightarrow> 8 word \<Rightarrow> 16 word \<Rightarrow>
    ('s, cfl_status) act" where
  "call_fn user md which none n event_id event_data = bindA (node_fn_at md n which) (\<lambda>f.
     case f of None \<Rightarrow> retA none | Some g \<Rightarrow> user g n event_id event_data)"

section \<open>Node kinds without chain control\<close>

definition sat16 :: "nat \<Rightarrow> nat" where "sat16 x = min x 0xFFFF"

definition time_delay :: "'f cfl_module \<Rightarrow> 8 word \<Rightarrow> 8 word \<Rightarrow> 16 word \<Rightarrow> ('z, cfl_status) eact" where
  "time_delay md n event_id event_data =
     (if event_id = CFL_EVENT_INIT then seqA (cfl_node_scratch_set n 0) (retA CFL_CONTINUE)
      else if event_id = CFL_EVENT_TERMINATE then retA CFL_CONTINUE
      else if event_id = CFL_EVENT_TIME_TICK then
        bindA (cfl_node_param md n 0) (\<lambda>target.
        bindA (cfl_node_scratch_get n) (\<lambda>acc.
        let sum = sat16 (unat acc + unat event_data) in
        seqA (cfl_node_scratch_set n (of_nat sum)) (retA (if sum \<ge> unat target then CFL_DISABLE else CFL_HALT))))
      else retA CFL_HALT)"

section \<open>Chain control\<close>

definition self_modify_guard :: "8 word \<Rightarrow> ('z, unit) eact" where
  "self_modify_guard c = (\<lambda>e. if en_current_chain e \<noteq> NO_CHAIN \<and> en_current_chain e = c then cfl_panic CFL_PANIC_SELF_MODIFY e
     else Ret ((), e))"

text \<open>The nodes of a chain; the index is computed in a byte.\<close>

definition chain_nodes :: "cfl_chain_desc \<Rightarrow> 8 word list" where
  "chain_nodes cd = map (\<lambda>i. cd_node_first cd + of_nat i) [0..<unat (cd_node_count cd)]"

definition chain_enable_internal :: "'f cfl_module \<Rightarrow> 8 word \<Rightarrow> ('z, unit) eact" where
  "chain_enable_internal md c = bindA (chain_desc md c) (\<lambda>cd. seqA (chain_on c) (eachA arm_node (chain_nodes cd)))"

definition cfl_chain_enable :: "'f cfl_module \<Rightarrow> 8 word \<Rightarrow> ('z, unit) eact" where
  "cfl_chain_enable md c =
     (if c \<ge> md_chain_count md then cfl_panic CFL_PANIC_INVALID_CHAIN
      else seqA (self_modify_guard c) (chain_enable_internal md c))"

text \<open>
  The node handler. On TERMINATE no kind controls a chain, so that the handler of a TERMINATE
  (\<open>node_terminate\<close>), which the disabling of a chain calls, comes before it.
\<close>

definition node_terminate :: "('f, 'z cfl_engine_scheme) user_code \<Rightarrow> 'f cfl_module \<Rightarrow> 8 word \<Rightarrow> 8 word \<Rightarrow> 16 word \<Rightarrow> ('z, cfl_status) eact" where
  "node_terminate user md n kind event_data =
     (if kind = CFL_KIND_M_CALL then call_fn user md 0 CFL_CONTINUE n CFL_EVENT_TERMINATE event_data
      else if kind = CFL_KIND_INIT_TERM then
        bindA (call_fn user md 1 CFL_CONTINUE n CFL_EVENT_TERMINATE event_data) (\<lambda>_. retA CFL_CONTINUE)
      else if kind \<in> {CFL_KIND_NOP, CFL_KIND_ONE_SHOT, CFL_KIND_TIME_DELAY, CFL_KIND_ENABLE_CHAINS, CFL_KIND_DISABLE_CHAINS,
        CFL_KIND_RESET_SELF, CFL_KIND_TERMINATE_SELF, CFL_KIND_WHILE, CFL_KIND_VERIFY} then retA CFL_CONTINUE
      else cfl_panic CFL_PANIC_INVALID_KIND)"

definition node_synth_terminate :: "('f, 'z cfl_engine_scheme) user_code \<Rightarrow> 'f cfl_module \<Rightarrow> 8 word \<Rightarrow> ('z, unit) eact" where
  "node_synth_terminate user md n = bindA (is_inited n) (\<lambda>b.
     if \<not> b then retA ()
     else bindA (node_desc md n) (\<lambda>d. bindA (node_terminate user md n (nd_kind d) 0) (\<lambda>_. retA ())))"

definition chain_disable_internal :: "('f, 'z cfl_engine_scheme) user_code \<Rightarrow> 'f cfl_module \<Rightarrow> 8 word \<Rightarrow> ('z, unit) eact" where
  "chain_disable_internal user md c = bindA (chain_desc md c) (\<lambda>cd.
     seqA (eachA (node_synth_terminate user md) (rev (chain_nodes cd)))
     (seqA (chain_off c) (eachA clear_node (chain_nodes cd))))"

definition cfl_chain_disable :: "('f, 'z cfl_engine_scheme) user_code \<Rightarrow> 'f cfl_module \<Rightarrow> 8 word \<Rightarrow> ('z, unit) eact" where
  "cfl_chain_disable user md c =
     (if c \<ge> md_chain_count md then cfl_panic CFL_PANIC_INVALID_CHAIN
      else seqA (self_modify_guard c) (chain_disable_internal user md c))"

definition cfl_chain_reset :: "('f, 'z cfl_engine_scheme) user_code \<Rightarrow> 'f cfl_module \<Rightarrow> 8 word \<Rightarrow> ('z, unit) eact" where
  "cfl_chain_reset user md c =
     (if c \<ge> md_chain_count md then cfl_panic CFL_PANIC_INVALID_CHAIN
      else seqA (self_modify_guard c) (seqA (chain_disable_internal user md c) (chain_enable_internal md c)))"

definition chain_reset_self :: "('f, 'z cfl_engine_scheme) user_code \<Rightarrow> 'f cfl_module \<Rightarrow> 8 word \<Rightarrow> ('z, unit) eact" where
  "chain_reset_self user md c = seqA (chain_disable_internal user md c) (chain_enable_internal md c)"

definition chain_terminate_self :: "('f, 'z cfl_engine_scheme) user_code \<Rightarrow> 'f cfl_module \<Rightarrow> 8 word \<Rightarrow> ('z, unit) eact" where
  "chain_terminate_self user md c = chain_disable_internal user md c"

section \<open>The node handler\<close>

text \<open>The chain ids of a node's parameters, truncated to bytes, given to \<open>f\<close> one by one.\<close>

definition for_chains :: "'f cfl_module \<Rightarrow> 8 word \<Rightarrow> (8 word \<Rightarrow> ('s, unit) act) \<Rightarrow> ('s, unit) act" where
  "for_chains md n f = bindA (cfl_node_param_count md n) (\<lambda>pc.
     eachA (\<lambda>i. bindA (cfl_node_param md n (of_nat i)) (\<lambda>cid. f (ucast cid))) [0..<unat pc])"

definition node_handle :: "('f, 'z cfl_engine_scheme) user_code \<Rightarrow> 'f cfl_module \<Rightarrow> 8 word \<Rightarrow> 8 word \<Rightarrow> 8 word \<Rightarrow> 16 word \<Rightarrow>
    ('z, cfl_status) eact" where
  "node_handle user md n kind event_id event_data =
     (if event_id = CFL_EVENT_TERMINATE then node_terminate user md n kind event_data
      else if kind = CFL_KIND_NOP then retA CFL_CONTINUE
      else if kind = CFL_KIND_M_CALL then call_fn user md 0 CFL_CONTINUE n event_id event_data
      else if kind = CFL_KIND_ONE_SHOT then
        (if event_id = CFL_EVENT_INIT
         then bindA (call_fn user md 0 CFL_CONTINUE n event_id event_data) (\<lambda>_. retA CFL_CONTINUE)
         else retA CFL_DISABLE)
      else if kind = CFL_KIND_TIME_DELAY then time_delay md n event_id event_data
      else if kind = CFL_KIND_ENABLE_CHAINS then
        (if event_id = CFL_EVENT_INIT then seqA (for_chains md n (cfl_chain_enable md)) (retA CFL_CONTINUE) else retA CFL_DISABLE)
      else if kind = CFL_KIND_DISABLE_CHAINS then
        (if event_id = CFL_EVENT_INIT then seqA (for_chains md n (cfl_chain_disable user md)) (retA CFL_CONTINUE)
         else retA CFL_DISABLE)
      else if kind = CFL_KIND_RESET_SELF then retA (if event_id = CFL_EVENT_INIT then CFL_CONTINUE else CFL_RESET)
      else if kind = CFL_KIND_TERMINATE_SELF then retA (if event_id = CFL_EVENT_INIT then CFL_CONTINUE else CFL_TERMINATE)
      else if kind = CFL_KIND_WHILE then
        (if event_id = CFL_EVENT_INIT then retA CFL_CONTINUE
         else bindA (call_fn user md 0 CFL_DISABLE n event_id event_data) (\<lambda>r. retA (if r = CFL_CONTINUE then CFL_HALT else r)))
      else if kind = CFL_KIND_VERIFY then
        (if event_id = CFL_EVENT_INIT then retA CFL_CONTINUE
         else bindA (call_fn user md 0 CFL_CONTINUE n event_id event_data) (\<lambda>r. retA (if r = CFL_CONTINUE then CFL_CONTINUE else CFL_RESET)))
      else if kind = CFL_KIND_INIT_TERM then
        (if event_id = CFL_EVENT_INIT
         then bindA (call_fn user md 0 CFL_CONTINUE n event_id event_data) (\<lambda>_. retA CFL_CONTINUE)
         else retA CFL_CONTINUE)
      else cfl_panic CFL_PANIC_INVALID_KIND)"

section \<open>Event queue\<close>

definition cfl_send_event_isr :: "8 word \<Rightarrow> 16 word \<Rightarrow> ('z, unit) eact" where
  "cfl_send_event_isr event_id data = (\<lambda>e.
     if unat (en_q_count e) \<ge> CFL_EVENT_QUEUE_SIZE then cfl_panic CFL_PANIC_QUEUE_OVERFLOW e
     else if length (en_queue e) \<le> unat (en_q_rx e) then Trap (Fault ''event queue out of bounds'')
     else Ret ((), e \<lparr> en_queue := (en_queue e)[unat (en_q_rx e) := (event_id, data)],
       en_q_rx := (en_q_rx e + 1) AND CFL_EVENT_QUEUE_MASK, en_q_count := en_q_count e + 1 \<rparr>))"

text \<open>The interrupt guard around the push has no effect on the state.\<close>

definition cfl_send_event :: "8 word \<Rightarrow> 16 word \<Rightarrow> ('z, unit) eact" where
  "cfl_send_event event_id data = cfl_send_event_isr event_id data"

definition cfl_engine_time_tick :: "16 word \<Rightarrow> ('z, unit) eact" where
  "cfl_engine_time_tick elapsed_ms = cfl_send_event CFL_EVENT_TIME_TICK elapsed_ms"

definition queue_pop :: "('z, cfl_queued_event option) eact" where
  "queue_pop = (\<lambda>e.
     if en_q_count e = 0 then Ret (None, e)
     else if length (en_queue e) \<le> unat (en_q_tx e) then Trap (Fault ''event queue out of bounds'')
     else Ret (Some (en_queue e ! unat (en_q_tx e)),
       e \<lparr> en_q_tx := (en_q_tx e + 1) AND CFL_EVENT_QUEUE_MASK, en_q_count := en_q_count e - 1 \<rparr>))"

section \<open>Start, dispatch and pump\<close>

text \<open>\<open>[0, 1, ...]\<close> up to a byte-sized count.\<close>

definition bytes_below :: "8 word \<Rightarrow> 8 word list" where
  "bytes_below n = map of_nat [0..<unat n]"

definition cfl_engine_init :: "'f cfl_module \<Rightarrow> ('z, unit) eact" where
  "cfl_engine_init md = (let cc = md_chain_count md; nc = md_node_count md in
     seqA (guardA ''node tables'' (\<lambda>e. (unat cc + 7) div 8 \<le> length (en_chain_enable e) \<and>
         (unat nc + 7) div 8 \<le> length (en_node_enable e) \<and> (unat nc + 7) div 8 \<le> length (en_node_initialized e) \<and>
         unat nc \<le> length (en_node_scratch e))
       (modA (\<lambda>e. e \<lparr> en_chain_enable := bm_zero (en_chain_enable e) cc, en_node_enable := bm_zero (en_node_enable e) nc,
          en_node_initialized := bm_zero (en_node_initialized e) nc,
          en_node_scratch := replicate (unat nc) 0 @ drop (unat nc) (en_node_scratch e),
          en_q_rx := 0, en_q_tx := 0, en_q_count := 0, en_current_chain := NO_CHAIN \<rparr>)))
     (eachA (\<lambda>c. bindA (chain_desc md c) (\<lambda>cd. if cd_auto_start cd \<noteq> 0 then chain_enable_internal md c else retA ()))
        (bytes_below cc)))"

text \<open>One node's turn: \<open>None\<close> goes on with the next node, \<open>Some ()\<close> leaves the chain.\<close>

definition dispatch_node :: "('f, 'z cfl_engine_scheme) user_code \<Rightarrow> 'f cfl_module \<Rightarrow> 8 word \<Rightarrow> 8 word \<Rightarrow> 16 word \<Rightarrow> 8 word \<Rightarrow>
    ('z, unit option) eact" where
  "dispatch_node user md c event_id event_data n = bindA (is_enabled n) (\<lambda>on.
     if \<not> on then retA None
     else bindA (node_desc md n) (\<lambda>d.
       bindA (is_inited n) (\<lambda>ini.
       seqA (if \<not> ini then bindA (node_handle user md n (nd_kind d) CFL_EVENT_INIT 0) (\<lambda>_. mark_initialized n) else retA ())
       (bindA (node_handle user md n (nd_kind d) event_id event_data) (\<lambda>r. case r of
           CFL_CONTINUE \<Rightarrow> retA None
         | CFL_HALT \<Rightarrow> retA (Some ())
         | CFL_DISABLE \<Rightarrow> seqA (node_synth_terminate user md n) (seqA (clear_node n) (retA None))
         | CFL_RESET \<Rightarrow> seqA (chain_reset_self user md c) (retA (Some ()))
         | CFL_TERMINATE \<Rightarrow> seqA (chain_terminate_self user md c) (retA (Some ()))
         | CFL_OTHER x \<Rightarrow> cfl_panic CFL_PANIC_INVALID_KIND)))))"

definition dispatch_chain :: "('f, 'z cfl_engine_scheme) user_code \<Rightarrow> 'f cfl_module \<Rightarrow> 8 word \<Rightarrow> 8 word \<Rightarrow> 16 word \<Rightarrow>
    ('z, unit) eact" where
  "dispatch_chain user md c event_id event_data = bindA (chain_desc md c) (\<lambda>cd.
     bindA (loopA (dispatch_node user md c event_id event_data) (chain_nodes cd)) (\<lambda>_. retA ()))"

definition dispatch_event :: "('f, 'z cfl_engine_scheme) user_code \<Rightarrow> 'f cfl_module \<Rightarrow> cfl_queued_event \<Rightarrow> ('z, unit) eact" where
  "dispatch_event user md ev =
     seqA (eachA (\<lambda>c. bindA (chain_is_on c) (\<lambda>on.
         if \<not> on then retA ()
         else seqA (modA (\<lambda>e. e \<lparr> en_current_chain := c \<rparr>)) (dispatch_chain user md c (fst ev) (snd ev))))
       (bytes_below (md_chain_count md)))
     (modA (\<lambda>e. e \<lparr> en_current_chain := NO_CHAIN \<rparr>))"

text \<open>
  The pump runs until the queue is empty; an application whose functions send an event for every
  event keeps it running, so that it has fuel: one unit per event it takes.
\<close>

fun cfl_engine_pump :: "nat \<Rightarrow> ('f, 'z cfl_engine_scheme) user_code \<Rightarrow> 'f cfl_module \<Rightarrow> ('z, unit) eact" where
  "cfl_engine_pump fuel user md = bindA queue_pop (\<lambda>r. case r of
     None \<Rightarrow> retA ()
   | Some ev \<Rightarrow> (case fuel of 0 \<Rightarrow> (\<lambda>_. Diverge) | Suc n \<Rightarrow> seqA (dispatch_event user md ev) (cfl_engine_pump n user md)))"

declare cfl_engine_pump.simps [simp del]

end
