(* ===== verification/CFL_Runs.thy ===== *)
theory CFL_Runs
  imports CFL_Engine
begin

text \<open>
  What the chain-flow engine does over time: its queue is a queue, the pump drains it and hands
  the events over one after the other, and what a node acquires at INIT it releases at TERMINATE.
\<close>

section \<open>Bitmaps are sets\<close>

lemma byte_index: "unat (drop_bit 3 (idx :: 8 word)) = unat idx div 8" "unat (idx AND 7) = unat idx mod 8"
proof -
  show "unat (drop_bit 3 idx) = unat idx div 8"
    by (simp add: drop_bit_eq_div unat_div)
  have "idx AND 7 = take_bit 3 idx" by (simp add: take_bit_eq_mask mask_eq_decr_exp)
  then show "unat (idx AND 7) = unat idx mod 8"
    by (simp add: take_bit_eq_mod unat_mod)
qed

lemma bm_get_bit: "bm_get bm idx = bit (bm ! (unat idx div 8)) (unat idx mod 8)"
  by (simp add: bm_get_def byte_index bit_iff_odd_drop_bit and_one_eq mod_2_eq_odd)

lemma same_bit: "unat (i :: 8 word) div 8 = unat j div 8 \<Longrightarrow> unat i mod 8 = unat j mod 8 \<Longrightarrow> i = j"
  by (metis div_mod_decomp word_unat_eq_iff)

lemma bm_room_iff: "bm_room bm i \<longleftrightarrow> unat i div 8 < length bm"
  by (simp add: bm_room_def byte_index)

lemma length_bm [simp]: "length (bm_set bm i) = length bm" "length (bm_clr bm i) = length bm"
  by (simp_all add: bm_set_def bm_clr_def)

lemma bm_room_upd [simp]: "bm_room (bm_set bm i) j = bm_room bm j" "bm_room (bm_clr bm i) j = bm_room bm j"
  by (simp_all add: bm_room_iff)

lemma bm_get_set: "bm_room bm i \<Longrightarrow> bm_get (bm_set bm i) j = (i = j \<or> bm_get bm j)"
  by (cases "unat i div 8 = unat j div 8")
    (auto simp: bm_get_bit bm_set_def byte_index bm_room_iff bit_or_iff bit_exp_iff dest: same_bit)

lemma bm_get_clr: "bm_room bm i \<Longrightarrow> bm_get (bm_clr bm i) j = (i \<noteq> j \<and> bm_get bm j)"
  by (cases "unat i div 8 = unat j div 8")
    (auto simp: bm_get_bit bm_clr_def byte_index bm_room_iff bit_and_iff bit_not_iff bit_exp_iff dest: same_bit)

section \<open>The event queue is a queue\<close>

definition queue_ok :: "'z cfl_engine_scheme \<Rightarrow> bool" where
  "queue_ok e = (length (en_queue e) = CFL_EVENT_QUEUE_SIZE \<and> unat (en_q_tx e) < CFL_EVENT_QUEUE_SIZE \<and>
     unat (en_q_count e) \<le> CFL_EVENT_QUEUE_SIZE \<and>
     unat (en_q_rx e) = (unat (en_q_tx e) + unat (en_q_count e)) mod CFL_EVENT_QUEUE_SIZE)"

definition queued :: "'z cfl_engine_scheme \<Rightarrow> cfl_queued_event list" where
  "queued e = ring_list (en_queue e) (unat (en_q_tx e)) (unat (en_q_count e))"

definition send_opt :: "cfl_queued_event \<Rightarrow> 'z cfl_engine_scheme \<Rightarrow> 'z cfl_engine_scheme option" where
  "send_opt ev e = (case cfl_send_event (fst ev) (snd ev) e of Ret (_, e') \<Rightarrow> Some e' | _ \<Rightarrow> None)"

definition pop_opt :: "'z cfl_engine_scheme \<Rightarrow> (cfl_queued_event \<times> 'z cfl_engine_scheme) option" where
  "pop_opt e = (case queue_pop e of Ret (Some ev, e') \<Rightarrow> Some (ev, e') | _ \<Rightarrow> None)"

lemma next_index: "unat ((x + 1) AND CFL_EVENT_QUEUE_MASK) = (unat x + 1) mod CFL_EVENT_QUEUE_SIZE" if "unat x < CFL_EVENT_QUEUE_SIZE"
proof -
  have "(x + 1) AND 15 = take_bit 4 (x + 1)" by (simp add: take_bit_eq_mask mask_eq_decr_exp)
  moreover have "unat (x + 1) = unat x + 1" using that by (simp add: unat_word_ariths CFL_EVENT_QUEUE_SIZE_def)
  ultimately show ?thesis
    by (simp add: CFL_EVENT_QUEUE_MASK_def CFL_EVENT_QUEUE_SIZE_def take_bit_eq_mod unat_mod)
qed

lemma count_arith: "unat (en_q_count e) < CFL_EVENT_QUEUE_SIZE \<Longrightarrow> unat (en_q_count e + 1) = unat (en_q_count e) + 1"
  "en_q_count e \<noteq> 0 \<Longrightarrow> unat (en_q_count e - 1) = unat (en_q_count e) - 1"
  by (simp_all add: unat_word_ariths CFL_EVENT_QUEUE_SIZE_def unat_minus_one)

lemma queue_pop_empty: "queued e = [] \<Longrightarrow> queue_pop e = Ret (None, e)"
  by (auto simp: queued_def queue_pop_def unat_eq_0 dest: arg_cong [of _ _ length])

lemma queue_pop_cons:
  assumes "queue_ok e" "queued e = ev # evs"
  shows "\<exists>t n. queue_pop e = Ret (Some ev, e \<lparr> en_q_tx := t, en_q_count := n \<rparr>) \<and>
    queue_ok (e \<lparr> en_q_tx := t, en_q_count := n \<rparr>) \<and> queued (e \<lparr> en_q_tx := t, en_q_count := n \<rparr>) = evs"
proof -
  have ne: "en_q_count e \<noteq> 0" using assms(2) by (auto simp: queued_def)
  then obtain m where m: "unat (en_q_count e) = Suc m" by (metis gr0_implies_Suc unat_gt_0)
  have len: "length (en_queue e) = CFL_EVENT_QUEUE_SIZE" "unat (en_q_tx e) < CFL_EVENT_QUEUE_SIZE"
    using assms(1) by (auto simp: queue_ok_def)
  let ?t = "(en_q_tx e + 1) AND CFL_EVENT_QUEUE_MASK" and ?n = "en_q_count e - 1"
  let ?e = "e \<lparr> en_q_tx := ?t, en_q_count := ?n \<rparr>"
  have n: "unat ?n = m" using count_arith(2) [OF ne] m by simp
  have pop: "queued e = en_queue e ! unat (en_q_tx e) # queued ?e"
    using ring_list_pop [of "unat (en_q_tx e)" "en_queue e" m] len
    by (simp add: queued_def m n next_index)
  have "queue_ok ?e" using assms(1) m n
    by (simp add: queue_ok_def next_index) (simp add: mod_simps CFL_EVENT_QUEUE_SIZE_def)
  then show ?thesis using pop assms(2) ne len
    by (intro exI [of _ ?t] exI [of _ ?n]) (simp add: queue_pop_def)
qed

lemma send_room:
  assumes "queue_ok e" "length (queued e) < CFL_EVENT_QUEUE_SIZE"
  shows "\<exists>e'. cfl_send_event i d e = Ret ((), e') \<and> queue_ok e' \<and> queued e' = queued e @ [(i, d)]"
proof -
  have n: "unat (en_q_count e) < CFL_EVENT_QUEUE_SIZE" using assms(2) by (simp add: queued_def)
  have rx: "unat (en_q_rx e) = (unat (en_q_tx e) + unat (en_q_count e)) mod CFL_EVENT_QUEUE_SIZE"
    "length (en_queue e) = CFL_EVENT_QUEUE_SIZE" using assms(1) by (auto simp: queue_ok_def)
  have lt: "unat (en_q_rx e) < CFL_EVENT_QUEUE_SIZE" unfolding rx(1) by (simp add: CFL_EVENT_QUEUE_SIZE_def)
  let ?e = "e \<lparr> en_queue := (en_queue e)[unat (en_q_rx e) := (i, d)],
    en_q_rx := (en_q_rx e + 1) AND CFL_EVENT_QUEUE_MASK, en_q_count := en_q_count e + 1 \<rparr>"
  have "queued ?e = queued e @ [(i, d)]"
    using ring_list_push [of "unat (en_q_count e)" "en_queue e" "unat (en_q_tx e)" "(i, d)"] n rx
    by (simp add: queued_def count_arith)
  moreover have "queue_ok ?e" using assms(1) n rx
    by (simp add: queue_ok_def next_index [OF lt] count_arith mod_simps)
  ultimately show ?thesis using n lt rx(2) by (simp add: cfl_send_event_def cfl_send_event_isr_def)
qed

interpretation event_fifo: bounded_fifo CFL_EVENT_QUEUE_SIZE queue_ok queued send_opt pop_opt
proof (unfold_locales, goal_cases)
  case (1 e)
  then show ?case by (simp add: queue_ok_def queued_def)
next
  case (2 e ev)
  then show ?case using send_room [of e "fst ev" "snd ev"] by (auto simp: send_opt_def)
next
  case (3 e ev)
  then show ?case by (simp add: send_opt_def cfl_send_event_def cfl_send_event_isr_def queued_def cfl_panic_def)
next
  case (4 e)
  then show ?case by (simp add: pop_opt_def queue_pop_empty)
next
  case (5 e ev evs)
  then show ?case using queue_pop_cons [of e ev evs] by (auto simp: pop_opt_def)
qed

section \<open>Modules and tables that fit together\<close>

definition nodes_of :: "'f cfl_module \<Rightarrow> 8 word \<Rightarrow> 8 word list" where
  "nodes_of md c = chain_nodes (md_chains md ! unat c)"

definition desc_of :: "'f cfl_module \<Rightarrow> 8 word \<Rightarrow> cfl_node_desc" where
  "desc_of md n = md_nodes md ! unat n"

definition targets :: "'f cfl_module \<Rightarrow> 8 word \<Rightarrow> 8 word list" where
  "targets md n = (let d = desc_of md n in
     map (\<lambda>i. ucast (md_params_pool md ! (unat (nd_param_off d) + i))) [0..<unat (nd_param_count d)])"

definition fn_ok :: "'f cfl_module \<Rightarrow> 8 word \<Rightarrow> bool" where
  "fn_ok md fi = (fi = CFL_FN_NONE \<or> unat fi < length (md_user_fns md))"

definition node_ok :: "'f cfl_module \<Rightarrow> 8 word \<Rightarrow> 8 word \<Rightarrow> bool" where
  "node_ok md c n = (let d = desc_of md n in
     nd_kind d \<le> 10 \<and> fn_ok md (nd_fn_idx d) \<and> fn_ok md (nd_fn_idx_2 d) \<and>
     unat (nd_param_off d) + unat (nd_param_count d) \<le> length (md_params_pool md) \<and>
     (nd_kind d = CFL_KIND_TIME_DELAY \<longrightarrow> nd_param_count d \<noteq> 0) \<and>
     (nd_kind d \<in> {CFL_KIND_ENABLE_CHAINS, CFL_KIND_DISABLE_CHAINS} \<longrightarrow>
        (\<forall>d \<in> set (targets md n). d < md_chain_count md \<and> d \<noteq> c)))"

definition mod_ok :: "'f cfl_module \<Rightarrow> bool" where
  "mod_ok md = (length (md_chains md) = unat (md_chain_count md) \<and> length (md_nodes md) = unat (md_node_count md) \<and>
     list_all (\<lambda>cd. unat (cd_node_first cd) + unat (cd_node_count cd) \<le> unat (md_node_count md)) (md_chains md) \<and>
     list_all (\<lambda>c. list_all (node_ok md c) (nodes_of md c)) (bytes_below (md_chain_count md)))"

definition tables_ok :: "'f cfl_module \<Rightarrow> 'z cfl_engine_scheme \<Rightarrow> bool" where
  "tables_ok md e = (list_all (bm_room (en_chain_enable e)) (bytes_below (md_chain_count md)) \<and>
     list_all (\<lambda>n. node_room n e) (bytes_below (md_node_count md)))"

lemma bytes_below_set: "set (bytes_below k) = {c. c < k}"
proof -
  have "c \<in> set (bytes_below k) \<longleftrightarrow> c < k" for c
  proof
    assume "c \<in> set (bytes_below k)"
    then obtain i where "i < unat k" "c = of_nat i" by (auto simp: bytes_below_def)
    then show "c < k" using unsigned_less [of k] by (simp add: word_less_nat_alt unat_of_nat take_bit_nat_eq_self)
  next
    assume "c < k"
    then show "c \<in> set (bytes_below k)"
      unfolding bytes_below_def by (auto simp: word_less_nat_alt intro!: image_eqI [of _ _ "unat c"])
  qed
  then show ?thesis by blast
qed

lemma chain_node_facts:
  assumes "mod_ok md" "c < md_chain_count md"
  shows "unat c < length (md_chains md)" "distinct (nodes_of md c)"
    "n \<in> set (nodes_of md c) \<Longrightarrow> n < md_node_count md" "n \<in> set (nodes_of md c) \<Longrightarrow> node_ok md c n"
    "n \<in> set (nodes_of md c) \<Longrightarrow> unat n < length (md_nodes md)"
proof -
  let ?cd = "md_chains md ! unat c"
  show lt: "unat c < length (md_chains md)" using assms by (simp add: mod_ok_def word_less_nat_alt)
  then have fit: "unat (cd_node_first ?cd) + unat (cd_node_count ?cd) \<le> unat (md_node_count md)"
    using assms(1) by (simp add: mod_ok_def list_all_length)
  have u: "unat (cd_node_first ?cd + of_nat i) = unat (cd_node_first ?cd) + i" if "i < unat (cd_node_count ?cd)" for i
  proof -
    have "unat (md_node_count md) < 256" using unsigned_less [of "md_node_count md"] by simp
    then show ?thesis using that fit by (simp add: unat_word_ariths unat_of_nat)
  qed
  show "distinct (nodes_of md c)"
    unfolding nodes_of_def chain_nodes_def distinct_map
    by (auto intro!: inj_onI dest!: arg_cong [of _ _ unat] simp: u)
  have lt': "unat n < unat (md_node_count md)" if "n \<in> set (nodes_of md c)" for n
    using that fit u by (auto simp: nodes_of_def chain_nodes_def)
  then show "n \<in> set (nodes_of md c) \<Longrightarrow> n < md_node_count md" by (simp add: word_less_nat_alt)
  show "n \<in> set (nodes_of md c) \<Longrightarrow> unat n < length (md_nodes md)" using lt' assms(1) by (simp add: mod_ok_def)
  show "n \<in> set (nodes_of md c) \<Longrightarrow> node_ok md c n"
    using assms by (simp add: mod_ok_def list_all_iff bytes_below_set)
qed

lemma tables_room:
  "tables_ok md e \<Longrightarrow> c < md_chain_count md \<Longrightarrow> bm_room (en_chain_enable e) c"
  "tables_ok md e \<Longrightarrow> n < md_node_count md \<Longrightarrow> node_room n e"
  by (simp_all add: tables_ok_def list_all_iff bytes_below_set)

section \<open>Total correctness inside a chain\<close>

text \<open>
  What the handlers leave alone: the queue, the current chain and the sizes of the tables. A
  triple \<open>runs md cur P m Q\<close> says that from every state with tables that fit, with \<open>cur\<close> as current
  chain and with \<open>P\<close>, the act returns, leaves these alone and establishes \<open>Q\<close>.
\<close>

definition same_queue :: "'z cfl_engine_scheme \<Rightarrow> 'z cfl_engine_scheme \<Rightarrow> bool" where
  "same_queue e e' = (en_queue e' = en_queue e \<and> en_q_rx e' = en_q_rx e \<and> en_q_tx e' = en_q_tx e \<and>
     en_q_count e' = en_q_count e \<and> length (en_chain_enable e') = length (en_chain_enable e) \<and>
     length (en_node_enable e') = length (en_node_enable e) \<and>
     length (en_node_initialized e') = length (en_node_initialized e) \<and>
     length (en_node_scratch e') = length (en_node_scratch e))"

definition same_rest :: "'z cfl_engine_scheme \<Rightarrow> 'z cfl_engine_scheme \<Rightarrow> bool" where
  "same_rest e e' = (same_queue e e' \<and> en_current_chain e' = en_current_chain e)"

definition runs :: "'f cfl_module \<Rightarrow> 8 word \<Rightarrow> ('z cfl_engine_scheme \<Rightarrow> bool) \<Rightarrow> ('z, 'a) eact \<Rightarrow>
    ('a \<Rightarrow> 'z cfl_engine_scheme \<Rightarrow> bool) \<Rightarrow> bool" where
  "runs md cur P m Q = (\<forall>e. tables_ok md e \<longrightarrow> en_current_chain e = cur \<longrightarrow> P e \<longrightarrow>
     (\<exists>x e'. m e = Ret (x, e') \<and> same_rest e e' \<and> Q x e'))"

lemma same_queue_tables: "same_queue e e' \<Longrightarrow> tables_ok md e' = tables_ok md e"
  by (simp add: same_queue_def tables_ok_def node_room_def bm_room_iff list_all_iff)

lemma same_queue_queued: "same_queue e e' \<Longrightarrow> queued e' = queued e" "same_queue e e' \<Longrightarrow> queue_ok e' = queue_ok e"
  by (simp_all add: same_queue_def queued_def queue_ok_def)

lemma same_rest_refl [simp]: "same_rest e e" and same_queue_refl [simp]: "same_queue e e"
  by (simp_all add: same_rest_def same_queue_def)

lemma same_queue_trans: "same_queue e e1 \<Longrightarrow> same_queue e1 e2 \<Longrightarrow> same_queue e e2"
  and same_rest_trans: "same_rest e e1 \<Longrightarrow> same_rest e1 e2 \<Longrightarrow> same_rest e e2"
  by (simp_all add: same_rest_def same_queue_def)

lemma runsI: "(\<And>e. tables_ok md e \<Longrightarrow> en_current_chain e = cur \<Longrightarrow> P e \<Longrightarrow> \<exists>x e'. m e = Ret (x, e') \<and> same_rest e e' \<and> Q x e') \<Longrightarrow>
    runs md cur P m Q"
  by (simp add: runs_def)

lemma runsD: "runs md cur P m Q \<Longrightarrow> tables_ok md e \<Longrightarrow> en_current_chain e = cur \<Longrightarrow> P e \<Longrightarrow>
    \<exists>x e'. m e = Ret (x, e') \<and> same_rest e e' \<and> Q x e'"
  by (simp add: runs_def)

lemma runs_bind: "runs md cur P m R \<Longrightarrow> (\<And>x. runs md cur (R x) (f x) Q) \<Longrightarrow> runs md cur P (bindA m f) Q"
proof (rule runsI)
  fix e assume a: "runs md cur P m R" "\<And>x. runs md cur (R x) (f x) Q" "tables_ok md e" "en_current_chain e = cur" "P e"
  from runsD [OF a(1,3-5)] obtain x e1 where e1: "m e = Ret (x, e1)" "same_rest e e1" "R x e1" by blast
  have "tables_ok md e1" "en_current_chain e1 = cur"
    using e1(2) a(3,4) same_queue_tables [of e e1 md] by (auto simp: same_rest_def)
  from runsD [OF a(2) this e1(3)] e1 show "\<exists>x e'. bindA m f e = Ret (x, e') \<and> same_rest e e' \<and> Q x e'"
    using same_rest_trans by fastforce
qed

lemma runs_seq: "runs md cur P m (\<lambda>_. R) \<Longrightarrow> runs md cur R n Q \<Longrightarrow> runs md cur P (seqA m n) Q"
  unfolding seqA_def by (rule runs_bind)

lemma runs_ret: "(\<And>e. P e \<Longrightarrow> Q x e) \<Longrightarrow> runs md cur P (retA x) Q"
  by (rule runsI) simp

lemma runs_weaken: "runs md cur P m Q \<Longrightarrow> (\<And>e. P' e \<Longrightarrow> P e) \<Longrightarrow> (\<And>x e. Q x e \<Longrightarrow> Q' x e) \<Longrightarrow> runs md cur P' m Q'"
  by (rule runsI, drule runsD) blast+

lemma runs_if: "(b \<Longrightarrow> runs md cur P m Q) \<Longrightarrow> (\<not> b \<Longrightarrow> runs md cur P n Q) \<Longrightarrow> runs md cur P (if b then m else n) Q"
  by simp

lemma runs_each:
  assumes "\<And>i. i \<in> set is \<Longrightarrow> runs md cur P (body i) (\<lambda>_. P)"
  shows "runs md cur P (eachA body is) (\<lambda>_. P)"
  using assms by (induction "is") (auto intro!: runs_ret runs_seq simp del: retA_app)

lemma runs_loop:
  assumes "\<And>i. i \<in> set is \<Longrightarrow> runs md cur P (body i) (\<lambda>r e. if r = None then P e else Q e)"
  shows "runs md cur P (loopA body is) (\<lambda>r e. if r = None then P e else Q e)"
  using assms
proof (induction "is")
  case Nil
  show ?case by (rule runsI) simp
next
  case (Cons i "is")
  have "runs md cur (\<lambda>e. if r = None then P e else Q e) (case r of None \<Rightarrow> loopA body is | Some x \<Rightarrow> retA (Some x))
      (\<lambda>r e. if r = None then P e else Q e)" for r
    using Cons by (cases r) (auto simp: runs_def)
  moreover have "runs md cur P (body i) (\<lambda>r e. if r = None then P e else Q e)" using Cons.prems by simp
  ultimately show ?case unfolding loopA.simps by (rule runs_bind [rotated])
qed

lemma runs_get: "(\<And>e. P e \<Longrightarrow> Q (g e) e) \<Longrightarrow> runs md cur P (getA g) Q"
  by (rule runsI) simp

lemma runs_mod: "(\<And>e. P e \<Longrightarrow> same_rest e (f e) \<and> Q () (f e)) \<Longrightarrow> runs md cur P (modA f) Q"
  by (rule runsI) simp

lemma runs_guard:
  assumes "\<And>e. tables_ok md e \<Longrightarrow> ok e" "runs md cur (\<lambda>e. P e \<and> ok e) m Q"
  shows "runs md cur P (guardA what ok m) Q"
  using assms by (auto simp: runs_def guardA_def)

lemma runs_pure: "(\<And>e. m e = Ret (x, e)) \<Longrightarrow> runs md cur P (f x) Q \<Longrightarrow> runs md cur P (bindA m f) Q"
  by (rule runs_bind [where R = "\<lambda>y e. y = x \<and> P e"]) (auto simp: runs_def)

lemma runs_trap: "runs md cur (\<lambda>_. False) m Q"
  by (rule runsI) simp

lemma runs_upd:
  assumes "n < md_node_count md" "\<And>e. node_room n e \<Longrightarrow> P e \<Longrightarrow> same_rest e (f e) \<and> Q () (f e)"
  shows "runs md cur P (node_upd n f) Q"
  unfolding node_upd_def using assms by (auto intro!: runs_guard runs_mod tables_room)

lemma runs_test:
  assumes "n < md_node_count md" "\<And>b. runs md cur P (f b) Q"
  shows "runs md cur P (bindA (is_inited n) f) Q" "runs md cur P (bindA (is_enabled n) f) Q"
  unfolding is_inited_def is_enabled_def using assms
  by (auto intro!: runs_bind [OF _ assms(2)] runs_guard runs_get tables_room)

section \<open>What a property does not look at\<close>

text \<open>
  A property of states is \<open>blind\<close> to the nodes \<open>N\<close> and the chains \<open>C\<close> when the updates of these
  and the functions called for these return and keep it. A property that is blind to all an
  operation touches is kept by the operation.
\<close>

definition proper_status :: "cfl_status \<Rightarrow> bool" where
  "proper_status r = (case r of CFL_OTHER _ \<Rightarrow> False | _ \<Rightarrow> True)"

definition blind :: "('f, 'z cfl_engine_scheme) user_code \<Rightarrow> 'f cfl_module \<Rightarrow> 8 word set \<Rightarrow> 8 word set \<Rightarrow>
    ('z cfl_engine_scheme \<Rightarrow> bool) \<Rightarrow> bool" where
  "blind user md N C P = (\<forall>cur.
     (\<forall>n \<in> N. n < md_node_count md \<longrightarrow>
        (\<forall>m \<in> {arm_node n, clear_node n, mark_initialized n} \<union> range (cfl_node_scratch_set n). runs md cur P m (\<lambda>_. P)) \<and>
        (\<forall>g i d. runs md cur P (user g n i d) (\<lambda>r e. proper_status r \<and> P e))) \<and>
     (\<forall>c \<in> C. c < md_chain_count md \<longrightarrow> (\<forall>m \<in> {chain_on c, chain_off c}. runs md cur P m (\<lambda>_. P))))"

lemma blindD:
  assumes "blind user md N C P"
  shows "n \<in> N \<Longrightarrow> n < md_node_count md \<Longrightarrow> runs md cur P (arm_node n) (\<lambda>_. P)"
    "n \<in> N \<Longrightarrow> n < md_node_count md \<Longrightarrow> runs md cur P (clear_node n) (\<lambda>_. P)"
    "n \<in> N \<Longrightarrow> n < md_node_count md \<Longrightarrow> runs md cur P (mark_initialized n) (\<lambda>_. P)"
    "n \<in> N \<Longrightarrow> n < md_node_count md \<Longrightarrow> runs md cur P (cfl_node_scratch_set n v) (\<lambda>_. P)"
    "n \<in> N \<Longrightarrow> n < md_node_count md \<Longrightarrow> runs md cur P (user g n i d) (\<lambda>r e. proper_status r \<and> P e)"
    "c \<in> C \<Longrightarrow> c < md_chain_count md \<Longrightarrow> runs md cur P (chain_on c) (\<lambda>_. P)"
    "c \<in> C \<Longrightarrow> c < md_chain_count md \<Longrightarrow> runs md cur P (chain_off c) (\<lambda>_. P)"
  using assms by (simp_all add: blind_def)

definition node_in :: "'f cfl_module \<Rightarrow> 8 word set \<Rightarrow> 8 word \<Rightarrow> 8 word \<Rightarrow> bool" where
  "node_in md N c n = (n \<in> N \<and> n < md_node_count md \<and> unat n < length (md_nodes md) \<and> node_ok md c n)"

lemma node_desc_app: "unat n < length (md_nodes md) \<Longrightarrow> node_desc md n s = Ret (desc_of md n, s)"
  by (simp add: node_desc_def readA_def desc_of_def)

lemma chain_desc_app: "mod_ok md \<Longrightarrow> c < md_chain_count md \<Longrightarrow> chain_desc md c s = Ret (md_chains md ! unat c, s)"
  by (simp add: chain_desc_def readA_def mod_ok_def word_less_nat_alt)

lemma runs_call:
  fixes P :: "'z cfl_engine_scheme \<Rightarrow> bool"
  assumes "blind user md N C P" "node_in md N c n" "proper_status none"
  shows "runs md cur P (call_fn user md w none n i d) (\<lambda>r e. proper_status r \<and> P e)"
proof -
  have "\<exists>f. \<forall>s :: 'z cfl_engine_scheme. node_fn_at md n w s = Ret (f, s)"
    using assms(2) unfolding node_in_def node_ok_def fn_ok_def Let_def node_fn_at_def
    by (auto simp: node_desc_app readA_def)
  then obtain f where f: "\<And>s :: 'z cfl_engine_scheme. node_fn_at md n w s = Ret (f, s)" by blast
  have "runs md cur P (case f of None \<Rightarrow> retA none | Some g \<Rightarrow> user g n i d) (\<lambda>r e. proper_status r \<and> P e)"
    using assms by (cases f) (auto intro: runs_ret blindD(5) simp: node_in_def simp del: retA_app)
  then show ?thesis unfolding call_fn_def by (rule runs_pure [OF f])
qed

lemma small_kind: "(k :: 8 word) \<le> 10 \<Longrightarrow> k \<in> {0, 1, 2, 3, 4, 5, 6, 7, 8, 9, 10}"
  by (simp add: word_le_nat_alt word_unat_eq_iff) arith

lemmas kind_defs = CFL_KIND_NOP_def CFL_KIND_M_CALL_def CFL_KIND_ONE_SHOT_def CFL_KIND_TIME_DELAY_def
  CFL_KIND_ENABLE_CHAINS_def CFL_KIND_DISABLE_CHAINS_def CFL_KIND_RESET_SELF_def CFL_KIND_TERMINATE_SELF_def
  CFL_KIND_WHILE_def CFL_KIND_VERIFY_def CFL_KIND_INIT_TERM_def

lemma proper_simps [simp]: "proper_status CFL_CONTINUE" "proper_status CFL_HALT" "proper_status CFL_DISABLE" "proper_status CFL_RESET" "proper_status CFL_TERMINATE"
  by (simp_all add: proper_status_def)

lemma runs_proper: "proper_status x \<Longrightarrow> runs md cur P (retA x) (\<lambda>r e. proper_status r \<and> P e)"
  by (rule runs_ret) simp

lemma runs_after:
  assumes "runs md cur P m (\<lambda>r e. proper_status r \<and> P e)" "\<And>r. proper_status r \<Longrightarrow> runs md cur P (f r) Q"
  shows "runs md cur P (bindA m f) Q"
  by (rule runs_bind [OF assms(1)], rule runsI) (use assms(2) in \<open>auto dest: runsD\<close>)

lemma runs_terminate:
  assumes "blind user md N C P" "node_in md N c n"
  shows "runs md cur P (node_terminate user md n (nd_kind (desc_of md n)) d) (\<lambda>r e. proper_status r \<and> P e)"
proof -
  have "nd_kind (desc_of md n) \<le> 10" using assms(2) by (simp add: node_in_def node_ok_def Let_def)
  from small_kind [OF this] show ?thesis
    unfolding node_terminate_def kind_defs using runs_call [OF assms] by (auto intro!: runs_proper runs_after simp del: retA_app)
qed

lemma runs_synth:
  assumes "blind user md N C P" "node_in md N c n"
  shows "runs md cur P (node_synth_terminate user md n) (\<lambda>_. P)"
  unfolding node_synth_terminate_def using assms
  by (auto intro!: runs_test runs_ret runs_pure [OF node_desc_app] runs_after [OF runs_terminate [OF assms]]
    simp: node_in_def simp del: retA_app)

lemma runs_arm: "blind user md N C P \<Longrightarrow> node_in md N c n \<Longrightarrow> runs md cur P (arm_node n) (\<lambda>_. P)"
  and runs_clear: "blind user md N C P \<Longrightarrow> node_in md N c n \<Longrightarrow> runs md cur P (clear_node n) (\<lambda>_. P)"
  and runs_mark: "blind user md N C P \<Longrightarrow> node_in md N c n \<Longrightarrow> runs md cur P (mark_initialized n) (\<lambda>_. P)"
  by (simp_all add: node_in_def blindD)

definition chain_in :: "'f cfl_module \<Rightarrow> 8 word set \<Rightarrow> 8 word set \<Rightarrow> 8 word \<Rightarrow> bool" where
  "chain_in md N C c = (c \<in> C \<and> c < md_chain_count md \<and> set (nodes_of md c) \<subseteq> N)"

lemma chain_in_nodes: "mod_ok md \<Longrightarrow> chain_in md N C c \<Longrightarrow> n \<in> set (nodes_of md c) \<Longrightarrow> node_in md N c n"
  using chain_node_facts(3-5) [of md c n] by (auto simp: chain_in_def node_in_def)

lemma runs_chain_desc:
  "mod_ok md \<Longrightarrow> c < md_chain_count md \<Longrightarrow> runs md cur P (f (md_chains md ! unat c)) Q \<Longrightarrow>
   runs md cur P (bindA (chain_desc md c) f) Q"
  by (rule runs_pure [OF chain_desc_app])

lemma runs_enable_internal:
  assumes "mod_ok md" "blind user md N C P" "chain_in md N C c"
  shows "runs md cur P (chain_enable_internal md c) (\<lambda>_. P)"
  unfolding chain_enable_internal_def nodes_of_def [symmetric] using assms
  by (auto intro!: runs_chain_desc runs_seq [OF blindD(6)] runs_each runs_arm chain_in_nodes
    simp: chain_in_def nodes_of_def [symmetric])

lemma runs_disable_internal:
  assumes "mod_ok md" "blind user md N C P" "chain_in md N C c"
  shows "runs md cur P (chain_disable_internal user md c) (\<lambda>_. P)"
  unfolding chain_disable_internal_def using assms
  by (auto intro!: runs_chain_desc runs_seq [OF runs_each] runs_seq [OF blindD(7)] runs_each runs_clear runs_synth chain_in_nodes
    simp: chain_in_def nodes_of_def [symmetric])

lemma runs_guarded:
  assumes "cur = NO_CHAIN \<or> cur \<noteq> c" "runs md cur P m Q"
  shows "runs md cur P (seqA (self_modify_guard c) m) Q"
  by (rule runsI) (use assms in \<open>auto simp: self_modify_guard_def simp del: res_bind_Ret_iff dest: runsD\<close>)

lemma runs_cfl_enable:
  assumes "mod_ok md" "blind user md N C P" "chain_in md N C c" "cur = NO_CHAIN \<or> cur \<noteq> c"
  shows "runs md cur P (cfl_chain_enable md c) (\<lambda>_. P)"
  unfolding cfl_chain_enable_def using assms
  by (auto intro!: runs_guarded runs_enable_internal simp: chain_in_def)

lemma runs_cfl_disable:
  assumes "mod_ok md" "blind user md N C P" "chain_in md N C c" "cur = NO_CHAIN \<or> cur \<noteq> c"
  shows "runs md cur P (cfl_chain_disable user md c) (\<lambda>_. P)"
  unfolding cfl_chain_disable_def using assms
  by (auto intro!: runs_guarded runs_disable_internal simp: chain_in_def)

lemma runs_for_chains:
  assumes "unat n < length (md_nodes md)" "node_ok md c n" "\<And>t. t \<in> set (targets md n) \<Longrightarrow> runs md cur P (f t) (\<lambda>_. P)"
  shows "runs md cur P (for_chains md n f) (\<lambda>_. P)"
proof -
  let ?d = "desc_of md n"
  have fit: "unat (nd_param_off ?d) + unat (nd_param_count ?d) \<le> length (md_params_pool md)"
    using assms(2) by (simp add: node_ok_def Let_def)
  have small: "unat (nd_param_count ?d) < 256" using unsigned_less [of "nd_param_count ?d"] by simp
  have par: "cfl_node_param md n (of_nat i) s = Ret (md_params_pool md ! (unat (nd_param_off ?d) + i), s)"
    if "i < unat (nd_param_count ?d)" for i and s :: "'z cfl_engine_scheme"
    using that fit small assms(1) by (simp add: cfl_node_param_def node_desc_app readA_def unat_of_nat)
  have pc: "cfl_node_param_count md n s = Ret (nd_param_count ?d, s)" for s :: "'z cfl_engine_scheme"
    using assms(1) by (simp add: cfl_node_param_count_def node_desc_app)
  have "runs md cur P (bindA (cfl_node_param md n (of_nat i)) (\<lambda>cid. f (ucast cid))) (\<lambda>_. P)"
    if "i < unat (nd_param_count ?d)" for i
    using that by (intro runs_pure [OF par] assms(3)) (auto simp: targets_def Let_def)
  then show ?thesis unfolding for_chains_def by (intro runs_pure [OF pc] runs_each) simp
qed

lemma runs_time_delay:
  assumes "blind user md N C P" "node_in md N c n" "nd_kind (desc_of md n) = CFL_KIND_TIME_DELAY"
  shows "runs md cur P (time_delay md n i d) (\<lambda>r e. proper_status r \<and> P e)"
proof -
  have n: "n \<in> N" "n < md_node_count md" "unat n < length (md_nodes md)"
    "unat (nd_param_off (desc_of md n)) < length (md_params_pool md)"
    using assms(2,3) by (auto simp: node_in_def node_ok_def Let_def simp flip: unat_gt_0)
  have par: "cfl_node_param md n 0 s = Ret (md_params_pool md ! unat (nd_param_off (desc_of md n)), s)" for s :: "'z cfl_engine_scheme"
    using n by (simp add: cfl_node_param_def node_desc_app readA_def)
  have set: "runs md cur P (cfl_node_scratch_set n v) (\<lambda>_. P)" for v
    using blindD(4) [OF assms(1) n(1,2)] .
  have get: "runs md cur P (cfl_node_scratch_get n) (\<lambda>_. P)"
    by (rule runsI) (use n(2) in \<open>auto simp: cfl_node_scratch_get_def readA_def dest!: tables_room(2) simp: node_room_def\<close>)
  show ?thesis unfolding time_delay_def Let_def
    by (auto intro!: runs_proper runs_seq [OF set] runs_pure [OF par] runs_bind [OF get] simp del: retA_app)
qed

lemma runs_handle:
  assumes "blind user md N C P" "node_in md N c n"
    "nd_kind (desc_of md n) = CFL_KIND_ENABLE_CHAINS \<Longrightarrow>
       (\<And>t. t \<in> set (targets md n) \<Longrightarrow> runs md cur P (cfl_chain_enable md t) (\<lambda>_. P))"
    "nd_kind (desc_of md n) = CFL_KIND_DISABLE_CHAINS \<Longrightarrow>
       (\<And>t. t \<in> set (targets md n) \<Longrightarrow> runs md cur P (cfl_chain_disable user md t) (\<lambda>_. P))"
  shows "runs md cur P (node_handle user md n (nd_kind (desc_of md n)) i d) (\<lambda>r e. proper_status r \<and> P e)"
proof -
  let ?k = "nd_kind (desc_of md n)"
  have n: "unat n < length (md_nodes md)" "node_ok md c n" "?k \<le> 10"
    using assms(2) by (auto simp: node_in_def node_ok_def Let_def)
  have call: "proper_status none \<Longrightarrow> runs md cur P (call_fn user md w none n i d) (\<lambda>r e. proper_status r \<and> P e)" for w none i d
    using runs_call [OF assms(1,2)] .
  show ?thesis
  proof (cases "i = CFL_EVENT_TERMINATE")
    case True
    then show ?thesis unfolding node_handle_def using runs_terminate [OF assms(1,2)] by simp
  next
    case False
    consider "?k = CFL_KIND_ENABLE_CHAINS" | "?k = CFL_KIND_DISABLE_CHAINS" | "?k = CFL_KIND_TIME_DELAY"
      | "?k \<in> {0, 1, 2, 6, 7, 8, 9, 10}"
      using small_kind [OF n(3)] by (auto simp: kind_defs)
    then show ?thesis
    proof cases
      case 1
      show ?thesis unfolding node_handle_def 1 using False assms(3) [OF 1] n
        by (auto simp: kind_defs intro!: runs_proper runs_seq [OF runs_for_chains] simp del: retA_app)
    next
      case 2
      show ?thesis unfolding node_handle_def 2 using False assms(4) [OF 2] n
        by (auto simp: kind_defs intro!: runs_proper runs_seq [OF runs_for_chains] simp del: retA_app)
    next
      case 3
      show ?thesis unfolding node_handle_def using False runs_time_delay [OF assms(1,2) 3] 3
        by (auto simp: kind_defs)
    next
      case 4
      then show ?thesis unfolding node_handle_def kind_defs using False
        by (auto intro!: runs_proper runs_after [OF call] call simp del: retA_app)
    qed
  qed
qed

lemma runs_dispatch_node:
  assumes "blind user md N C P" "node_in md N c n"
    "\<And>i d. runs md cur P (node_handle user md n (nd_kind (desc_of md n)) i d) (\<lambda>r e. proper_status r \<and> P e)"
    "runs md cur P (chain_reset_self user md c) (\<lambda>_. P')" "runs md cur P (chain_terminate_self user md c) (\<lambda>_. P')"
    "\<And>e. P e \<Longrightarrow> P' e"
  shows "runs md cur P (dispatch_node user md c i d n) (\<lambda>r e. if r = None then P e else P' e)"
proof -
  let ?Q = "\<lambda>r e. if r = None then P e else P' e"
  have n: "n < md_node_count md" "unat n < length (md_nodes md)" using assms(2) by (auto simp: node_in_def)
  have tail: "runs md cur P (case r of CFL_CONTINUE \<Rightarrow> retA None | CFL_HALT \<Rightarrow> retA (Some ())
      | CFL_DISABLE \<Rightarrow> seqA (node_synth_terminate user md n) (seqA (clear_node n) (retA None))
      | CFL_RESET \<Rightarrow> seqA (chain_reset_self user md c) (retA (Some ()))
      | CFL_TERMINATE \<Rightarrow> seqA (chain_terminate_self user md c) (retA (Some ()))
      | CFL_OTHER x \<Rightarrow> cfl_panic CFL_PANIC_INVALID_KIND) ?Q" if "proper_status r" for r
    using that assms(6) by (cases r)
      (auto intro!: runs_ret runs_seq [OF assms(4)] runs_seq [OF assms(5)] runs_seq [OF runs_synth [OF assms(1,2)]]
        runs_seq [OF runs_clear [OF assms(1,2)]] simp: proper_status_def simp del: retA_app)
  have init: "runs md cur P (if \<not> b then bindA (node_handle user md n (nd_kind (desc_of md n)) CFL_EVENT_INIT 0) (\<lambda>_. mark_initialized n)
      else retA ()) (\<lambda>_. P)" for b
    by (rule runs_if [OF runs_after [OF assms(3) runs_mark [OF assms(1,2)]] runs_ret])
  have body: "runs md cur P (if \<not> on then retA None else bindA (node_desc md n) (\<lambda>de. bindA (is_inited n) (\<lambda>b.
      seqA (if \<not> b then bindA (node_handle user md n (nd_kind de) CFL_EVENT_INIT 0) (\<lambda>_. mark_initialized n) else retA ())
      (bindA (node_handle user md n (nd_kind de) i d) (\<lambda>r. case r of CFL_CONTINUE \<Rightarrow> retA None | CFL_HALT \<Rightarrow> retA (Some ())
      | CFL_DISABLE \<Rightarrow> seqA (node_synth_terminate user md n) (seqA (clear_node n) (retA None))
      | CFL_RESET \<Rightarrow> seqA (chain_reset_self user md c) (retA (Some ()))
      | CFL_TERMINATE \<Rightarrow> seqA (chain_terminate_self user md c) (retA (Some ()))
      | CFL_OTHER x \<Rightarrow> cfl_panic CFL_PANIC_INVALID_KIND))))) ?Q" for on
    by (rule runs_if, rule runs_ret, simp,
      rule runs_pure [OF node_desc_app [OF n(2)]], rule runs_test [OF n(1)],
      rule runs_seq [OF init], rule runs_after [OF assms(3)], rule tail)
  show ?thesis unfolding dispatch_node_def by (rule runs_test(2) [OF n(1) body])
qed

end
