(* ===== verification/CFL_Pump.thy ===== *)
theory CFL_Pump
  imports CFL_Runs
begin

text \<open>
  Dispatching an event to every chain (\<open>dispatch_event\<close>) and pumping the queue (\<open>cfl_engine_pump\<close>):
  with functions that return and send nothing, the pump returns with the queue empty, having
  dispatched the events in the order they were sent.
\<close>

section \<open>One event\<close>

lemma runs_dispatch_chain:
  assumes "mod_ok md" "c < md_chain_count md"
    "\<And>n. n \<in> set (nodes_of md c) \<Longrightarrow> runs md c P (dispatch_node user md c i d n) (\<lambda>r e. if r = None then P e else P' e)"
    "\<And>e. P e \<Longrightarrow> P' e"
  shows "runs md c P (dispatch_chain user md c i d) (\<lambda>_. P')"
proof -
  have "runs md c P (loopA (dispatch_node user md c i d) (nodes_of md c)) (\<lambda>r e. if r = None then P e else P' e)"
    by (rule runs_loop) (use assms(3) in simp)
  then have "runs md c P (loopA (dispatch_node user md c i d) (nodes_of md c)) (\<lambda>_. P')"
    by (rule runs_weaken) (auto simp: assms(4) split: if_splits)
  then show ?thesis unfolding dispatch_chain_def
    by (intro runs_chain_desc assms(1,2) runs_bind [where R = "\<lambda>_. P'"] runs_ret) (simp_all add: nodes_of_def)
qed

lemma eachA_returns:
  assumes "\<And>i e. i \<in> set is \<Longrightarrow> I e \<Longrightarrow> \<exists>e'. body i e = Ret ((), e') \<and> I e'" "I e"
  shows "\<exists>e'. eachA body is e = Ret ((), e') \<and> I e'"
  using assms
proof (induction "is" arbitrary: e)
  case (Cons i "is")
  from Cons.prems(1) [of i e] Cons.prems(2) obtain e1 where "body i e = Ret ((), e1)" "I e1" by auto
  then show ?case using Cons.IH [of e1] Cons.prems(1) by (auto simp del: res_bind_Ret_iff)
qed simp

text \<open>Properties of the tables and of the application's state alone.\<close>

definition off_queue :: "('z cfl_engine_scheme \<Rightarrow> bool) \<Rightarrow> bool" where
  "off_queue P = (\<forall>e c t n. P e \<longrightarrow> P (e \<lparr> en_current_chain := c \<rparr>) \<and> P (e \<lparr> en_q_tx := t, en_q_count := n \<rparr>))"

lemma same_queue_chain [simp]: "same_queue e (e \<lparr> en_current_chain := c \<rparr>)"
  by (simp add: same_queue_def)

lemma dispatch_event_returns:
  assumes "off_queue P" "tables_ok md e" "P e"
    "\<And>c. c < md_chain_count md \<Longrightarrow> runs md c (\<lambda>e. P e \<and> bm_get (en_chain_enable e) c) (dispatch_chain user md c (fst ev) (snd ev)) (\<lambda>_. P)"
  shows "\<exists>e'. dispatch_event user md ev e = Ret ((), e') \<and> same_queue e e' \<and> P e' \<and> en_current_chain e' = NO_CHAIN"
proof -
  let ?body = "\<lambda>c. bindA (chain_is_on c) (\<lambda>on. if \<not> on then retA ()
    else seqA (modA (\<lambda>e. e \<lparr> en_current_chain := c \<rparr>)) (dispatch_chain user md c (fst ev) (snd ev)))"
  have step: "\<exists>e2. ?body c e1 = Ret ((), e2) \<and> same_queue e e2 \<and> P e2"
    if c: "c \<in> set (bytes_below (md_chain_count md))" and e1: "same_queue e e1 \<and> P e1" for c e1
  proof -
    let ?e = "e1 \<lparr> en_current_chain := c \<rparr>"
    have t: "tables_ok md e1" "tables_ok md ?e" "P ?e" "c < md_chain_count md" "same_queue e ?e"
      using c e1 assms(1,2) same_queue_tables [of e e1 md] same_queue_tables [of e1 ?e md]
        same_queue_trans [of e e1 ?e] by (auto simp: bytes_below_set off_queue_def)
    show ?thesis
    proof (cases "bm_get (en_chain_enable e1) c")
      case True
      with runsD [OF assms(4) [OF t(4)] t(2)] t(3) obtain e2 where
        "dispatch_chain user md c (fst ev) (snd ev) ?e = Ret ((), e2)" "same_queue ?e e2" "P e2"
        by (auto simp: same_rest_def)
      then show ?thesis using True e1 t same_queue_trans [of e ?e e2]
        by (auto simp: chain_is_on_def guardA_def tables_room simp del: res_bind_Ret_iff)
    next
      case False
      then show ?thesis using e1 t by (simp add: chain_is_on_def guardA_def tables_room del: res_bind_Ret_iff)
    qed
  qed
  have "\<exists>e1. eachA ?body (bytes_below (md_chain_count md)) e = Ret ((), e1) \<and> same_queue e e1 \<and> P e1"
    by (rule eachA_returns [where I = "\<lambda>e1. same_queue e e1 \<and> P e1", OF step]) (simp_all add: assms(3))
  then obtain e1 where e1: "eachA ?body (bytes_below (md_chain_count md)) e = Ret ((), e1)" "same_queue e e1" "P e1"
    by blast
  then show ?thesis using assms(1) same_queue_trans [of e e1 "e1 \<lparr> en_current_chain := NO_CHAIN \<rparr>"]
    by (auto simp: dispatch_event_def off_queue_def simp del: res_bind_Ret_iff)
qed

section \<open>The whole queue\<close>

definition take_event :: "('z, unit) eact" where
  "take_event = bindA queue_pop (\<lambda>_. retA ())"

lemma pump_returns:
  assumes "off_queue P" "tables_ok md e" "queue_ok e" "P e" "length (queued e) \<le> fuel"
    "\<And>c ev. c < md_chain_count md \<Longrightarrow> ev \<in> set (queued e) \<Longrightarrow>
       runs md c (\<lambda>e. P e \<and> bm_get (en_chain_enable e) c) (dispatch_chain user md c (fst ev) (snd ev)) (\<lambda>_. P)"
  shows "\<exists>e'. cfl_engine_pump fuel user md e = Ret ((), e') \<and>
    eachA (\<lambda>ev. seqA take_event (dispatch_event user md ev)) (queued e) e = Ret ((), e') \<and>
    queued e' = [] \<and> queue_ok e' \<and> tables_ok md e' \<and> P e' \<and> en_current_chain e' \<in> {NO_CHAIN, en_current_chain e}"
  using assms(2-)
proof (induction "queued e" arbitrary: e fuel)
  case Nil
  from Nil.hyps [symmetric] show ?case using Nil.prems
    by (simp add: cfl_engine_pump.simps [of fuel] queue_pop_empty [OF Nil.hyps [symmetric]])
next
  case (Cons ev evs)
  from Cons.prems(4) Cons.hyps(2) [symmetric] obtain n where fuel: "fuel = Suc n" by (cases fuel) auto
  from queue_pop_cons [OF Cons.prems(2) Cons.hyps(2) [symmetric]] obtain t k where
    pop: "queue_pop e = Ret (Some ev, e \<lparr> en_q_tx := t, en_q_count := k \<rparr>)"
      "queue_ok (e \<lparr> en_q_tx := t, en_q_count := k \<rparr>)" "queued (e \<lparr> en_q_tx := t, en_q_count := k \<rparr>) = evs" by blast
  let ?e = "e \<lparr> en_q_tx := t, en_q_count := k \<rparr>"
  have e: "tables_ok md ?e" "P ?e"
    using Cons.prems(1,3) assms(1) by (simp_all add: tables_ok_def node_room_def off_queue_def)
  have "ev \<in> set (queued e)" using Cons.hyps(2) by (metis list.set_intros(1))
  from dispatch_event_returns [OF assms(1) e Cons.prems(5), OF _ this] obtain e1 where
    e1: "dispatch_event user md ev ?e = Ret ((), e1)" "same_queue ?e e1" "P e1" "en_current_chain e1 = NO_CHAIN" by blast
  have q: "queued e1 = evs" "queue_ok e1" "tables_ok md e1"
    using same_queue_queued [OF e1(2)] same_queue_tables [OF e1(2), of md] pop e by auto
  have "\<exists>e'. cfl_engine_pump n user md e1 = Ret ((), e') \<and>
    eachA (\<lambda>ev. seqA take_event (dispatch_event user md ev)) (queued e1) e1 = Ret ((), e') \<and>
    queued e' = [] \<and> queue_ok e' \<and> tables_ok md e' \<and> P e' \<and> en_current_chain e' \<in> {NO_CHAIN, en_current_chain e1}"
    using Cons.prems(4,5) Cons.hyps(2) [symmetric] q fuel e1(3) by (intro Cons.hyps(1)) auto
  then show ?case using pop(1) e1(1,4) q(1) Cons.hyps(2) [symmetric]
    by (auto simp: fuel cfl_engine_pump.simps [of "Suc n"] take_event_def simp del: res_bind_Ret_iff)
qed

section \<open>Functions that return and send nothing\<close>

definition tame :: "('f, 'z cfl_engine_scheme) user_code \<Rightarrow> 'f cfl_module \<Rightarrow> bool" where
  "tame user md = (\<forall>cur g n i d. runs md cur (\<lambda>_. True) (user g n i d) (\<lambda>r _. proper_status r))"

lemma same_rest_tables: "same_rest e (e \<lparr> en_node_scratch := (en_node_scratch e)[k := v] \<rparr>)"
  by (simp add: same_rest_def same_queue_def)

lemma tame_blind: "tame user md \<Longrightarrow> blind user md UNIV UNIV (\<lambda>_. True)"
  unfolding blind_def tame_def arm_node_def clear_node_def mark_initialized_def cfl_node_scratch_set_def chain_on_def chain_off_def
  by (auto intro!: runs_upd runs_guard runs_mod tables_room same_rest_tables dest: tables_room(2)
    simp: same_rest_def same_queue_def node_room_def)

lemma runs_tame_node:
  assumes "mod_ok md" "tame user md" "c < md_chain_count md" "n \<in> set (nodes_of md c)"
  shows "runs md c (\<lambda>_. True) (dispatch_node user md c i d n) (\<lambda>r e. if r = None then True else True)"
proof -
  note b = tame_blind [OF assms(2)]
  have all: "chain_in md UNIV UNIV c" if "c < md_chain_count md" for c using that by (simp add: chain_in_def)
  note n = chain_in_nodes [OF assms(1) all [OF assms(3)] assms(4)]
  have "t < md_chain_count md \<and> c \<noteq> t" if "t \<in> set (targets md n)"
    "nd_kind (desc_of md n) \<in> {CFL_KIND_ENABLE_CHAINS, CFL_KIND_DISABLE_CHAINS}" for t
    using n that by (auto simp: node_in_def node_ok_def Let_def)
  then have "runs md c (\<lambda>_. True) (node_handle user md n (nd_kind (desc_of md n)) i d) (\<lambda>r e. proper_status r \<and> True)" for i d
    by (intro runs_handle [OF b n] runs_cfl_enable [OF assms(1) b] runs_cfl_disable [OF assms(1) b] all) auto
  then show ?thesis
    unfolding chain_reset_self_def chain_terminate_self_def
    by (intro runs_dispatch_node [OF b n]) (auto simp: chain_reset_self_def chain_terminate_self_def
      intro!: runs_seq runs_enable_internal [OF assms(1) b] runs_disable_internal [OF assms(1) b] all assms(3))
qed

text \<open>
  C6. A pump returns: when the module's tables are consistent, the queue is a well-formed ring and
  the application's functions return a status and send no event, \<open>cfl_engine_pump\<close> ends after at most
  as many events as the queue holds, with the queue empty; it has taken and dispatched
  the queued events one after the other, in the order in which they were sent.
\<close>

theorem pump_drains:
  assumes "mod_ok md" "tame user md" "tables_ok md e" "queue_ok e"
  shows "\<exists>e'. cfl_engine_pump CFL_EVENT_QUEUE_SIZE user md e = Ret ((), e') \<and>
    eachA (\<lambda>ev. seqA take_event (dispatch_event user md ev)) (queued e) e = Ret ((), e') \<and>
    queued e' = [] \<and> queue_ok e' \<and> tables_ok md e'"
proof -
  have "length (queued e) \<le> CFL_EVENT_QUEUE_SIZE" using assms(4) by (simp add: queue_ok_def queued_def)
  moreover have "off_queue (\<lambda>_. True)" by (simp add: off_queue_def)
  moreover have "runs md c (\<lambda>e. True \<and> bm_get (en_chain_enable e) c) (dispatch_chain user md c (fst ev) (snd ev)) (\<lambda>_ _. True)"
    if "c < md_chain_count md" for c ev
    by (rule runs_weaken [OF runs_dispatch_chain [OF assms(1) that runs_tame_node [OF assms(1,2) that]]]) simp_all
  ultimately show ?thesis using pump_returns [of "\<lambda>_. True" md e CFL_EVENT_QUEUE_SIZE user] assms(3,4) by blast
qed

end
