(* ===== verification/CFL_Session.thy ===== *)
theory CFL_Session
  imports CFL_Pump
begin

text \<open>
  What an \<open>INIT_TERM\<close> node acquires it releases: over every sequence of events, pumps and chain
  commands, the calls of its two functions alternate. The application is one that logs the calls of
  its functions and answers as it pleases.
\<close>

section \<open>An application that logs its calls\<close>

record cfl_logged = cfl_engine +
  cl_log :: "(8 word \<times> 8 word) list"

definition logging_user :: "('f \<Rightarrow> 8 word \<Rightarrow> 8 word \<Rightarrow> 16 word \<Rightarrow> cfl_logged \<Rightarrow> cfl_status) \<Rightarrow> ('f, cfl_logged) user_code" where
  "logging_user ans g n i d = (\<lambda>e. Ret (ans g n i d e, e \<lparr> cl_log := cl_log e @ [(n, i)] \<rparr>))"

text \<open>A function answers a status of the engine, not another number.\<close>

definition answers_ok :: "('f \<Rightarrow> 8 word \<Rightarrow> 8 word \<Rightarrow> 16 word \<Rightarrow> cfl_logged \<Rightarrow> cfl_status) \<Rightarrow> bool" where
  "answers_ok ans = (\<forall>g n i d e. proper_status (ans g n i d e))"

definition events_of :: "8 word \<Rightarrow> cfl_logged \<Rightarrow> 8 word list" where
  "events_of n e = map snd (filter (\<lambda>x. fst x = n) (cl_log e))"

definition acquired :: "8 word \<Rightarrow> 'z cfl_engine_scheme \<Rightarrow> bool" where
  "acquired n e = bm_get (en_node_initialized e) n"

definition chain_running :: "8 word \<Rightarrow> 'z cfl_engine_scheme \<Rightarrow> bool" where
  "chain_running c e = bm_get (en_chain_enable e) c"

text \<open>Complete sessions: INIT, then TERMINATE, any number of times.\<close>

definition sessions :: "8 word list \<Rightarrow> bool" where
  "sessions evs = (\<exists>k. evs = concat (replicate k [CFL_EVENT_INIT, CFL_EVENT_TERMINATE]))"

definition sessions_open :: "8 word list \<Rightarrow> bool \<Rightarrow> bool" where
  "sessions_open evs h = (\<exists>k. evs = concat (replicate k [CFL_EVENT_INIT, CFL_EVENT_TERMINATE]) @ (if h then [CFL_EVENT_INIT] else []))"

lemma sessions_nil: "sessions []"
  unfolding sessions_def by (rule exI [of _ 0]) simp

lemma sessions_closed: "sessions_open evs False = sessions evs"
  by (simp add: sessions_open_def sessions_def)

lemma sessions_begin: "sessions evs \<Longrightarrow> sessions_open (evs @ [CFL_EVENT_INIT]) True"
  by (auto simp: sessions_open_def sessions_def)

lemma sessions_end: "sessions_open evs True \<Longrightarrow> sessions (evs @ [CFL_EVENT_TERMINATE])"
proof -
  assume "sessions_open evs True"
  then obtain k where "evs = concat (replicate k [CFL_EVENT_INIT, CFL_EVENT_TERMINATE]) @ [CFL_EVENT_INIT]"
    by (auto simp: sessions_open_def)
  then have "evs @ [CFL_EVENT_TERMINATE] = concat (replicate (Suc k) [CFL_EVENT_INIT, CFL_EVENT_TERMINATE])"
    by (simp only: replicate_append_same [symmetric] replicate_Suc concat_append) simp
  then show ?thesis unfolding sessions_def by blast
qed

section \<open>What concerns one node of one chain\<close>

definition node_view :: "8 word \<Rightarrow> 8 word \<Rightarrow> (8 word list \<Rightarrow> bool \<Rightarrow> bool \<Rightarrow> bool) \<Rightarrow> cfl_logged \<Rightarrow> bool" where
  "node_view n c Q e = Q (events_of n e) (acquired n e) (chain_running c e)"

lemma off_queue_view: "off_queue (node_view n c Q)"
  by (simp add: off_queue_def node_view_def events_of_def acquired_def chain_running_def)

lemmas node_updates = arm_node_def clear_node_def mark_initialized_def
lemmas view_defs = node_view_def events_of_def acquired_def chain_running_def

lemma blind_view:
  assumes "c \<notin> C \<or> (\<forall>l h a b. Q l h a = Q l h b)" "answers_ok ans"
  shows "blind (logging_user ans) md (- {n}) C (node_view n c Q)"
proof -
  have nodes: "runs md cur (node_view n c Q) m (\<lambda>_. node_view n c Q)"
    if "m \<in> {arm_node n', clear_node n', mark_initialized n'} \<union> range (cfl_node_scratch_set n')" "n' \<noteq> n"
      "n' < md_node_count md" for cur m n'
    using that unfolding node_updates cfl_node_scratch_set_def
    by (auto intro!: runs_upd runs_guard runs_mod dest: tables_room(2)
      simp: same_rest_def same_queue_def view_defs node_room_def bm_get_set bm_get_clr)
  have user: "runs md cur (node_view n c Q) (logging_user ans g n' i d) (\<lambda>r e. proper_status r \<and> node_view n c Q e)" if "n' \<noteq> n" for cur g n' i d
    by (rule runsI) (use that assms(2) in \<open>simp add: answers_ok_def logging_user_def same_rest_def same_queue_def view_defs\<close>)
  have upd: "node_view n c Q (e \<lparr> en_chain_enable := b \<rparr>) = node_view n c Q e" if "c \<notin> C \<Longrightarrow> bm_get b c = bm_get (en_chain_enable e) c" for e b
    using that assms(1) by (cases "c \<in> C") (auto simp: view_defs)
  have chains: "runs md cur (node_view n c Q) m (\<lambda>_. node_view n c Q)" if "m \<in> {chain_on c', chain_off c'}" "c' \<in> C" "c' < md_chain_count md" for cur m c'
  proof -
    have "runs md cur (node_view n c Q) (guardA w (\<lambda>e. bm_room (en_chain_enable e) c') (modA (\<lambda>e. e \<lparr> en_chain_enable := f (en_chain_enable e) c' \<rparr>)))
        (\<lambda>_. node_view n c Q)" if "f = bm_set \<or> f = bm_clr" for w f
    proof (intro runs_guard runs_mod conjI, goal_cases)
      case (3 e)
      then show ?case using that \<open>c' \<in> C\<close> by (subst upd) (auto simp: bm_get_set bm_get_clr)
    qed (use that \<open>c' < _\<close> in \<open>auto simp: tables_room same_rest_def same_queue_def\<close>)
    then show ?thesis using that(1) unfolding chain_on_def chain_off_def by auto
  qed
  show ?thesis unfolding blind_def by (intro allI conjI ballI impI) (rule nodes user chains; simp)+
qed


section \<open>The chain of the node\<close>

text \<open>
  The node \<open>n\<close> belongs to chain \<open>c\<close> alone and has its two functions, and no node enables
  chain \<open>c\<close>; nodes may disable it.
\<close>

definition has_fns :: "'f cfl_module \<Rightarrow> 8 word \<Rightarrow> bool" where
  "has_fns md n = (\<forall>fi \<in> {nd_fn_idx (desc_of md n), nd_fn_idx_2 (desc_of md n)}.
     fi \<noteq> CFL_FN_NONE \<and> md_user_fns md ! unat fi \<noteq> None)"

definition owned :: "'f cfl_module \<Rightarrow> 8 word \<Rightarrow> 8 word \<Rightarrow> bool" where
  "owned md c n = (c < md_chain_count md \<and> n \<in> set (nodes_of md c) \<and> nd_kind (desc_of md n) = CFL_KIND_INIT_TERM \<and> has_fns md n \<and>
     list_all (\<lambda>b. (b \<noteq> c \<longrightarrow> n \<notin> set (nodes_of md b)) \<and>
       list_all (\<lambda>m. nd_kind (desc_of md m) = CFL_KIND_ENABLE_CHAINS \<longrightarrow> c \<notin> set (targets md m)) (nodes_of md b))
       (bytes_below (md_chain_count md)))"

text \<open>Between sessions, during one, and the invariant of the whole.\<close>

definition idle :: "8 word \<Rightarrow> 8 word \<Rightarrow> cfl_logged \<Rightarrow> bool" where
  "idle n c = node_view n c (\<lambda>evs h _. sessions evs \<and> \<not> h)"

definition released :: "8 word \<Rightarrow> 8 word \<Rightarrow> cfl_logged \<Rightarrow> bool" where
  "released n c = node_view n c (\<lambda>evs _ _. sessions evs)"

definition working :: "8 word \<Rightarrow> 8 word \<Rightarrow> cfl_logged \<Rightarrow> bool" where
  "working n c = node_view n c (\<lambda>evs h on. sessions_open evs h \<and> on)"

definition paired :: "8 word \<Rightarrow> 8 word \<Rightarrow> cfl_logged \<Rightarrow> bool" where
  "paired n c = node_view n c (\<lambda>evs h on. sessions_open evs h \<and> (h \<longrightarrow> on))"

lemmas session_views = idle_def released_def working_def paired_def

lemma session_order: "idle n c e \<Longrightarrow> paired n c e" "working n c e \<Longrightarrow> paired n c e" "idle n c e \<Longrightarrow> released n c e"
  "paired n c e \<Longrightarrow> chain_running c e \<Longrightarrow> working n c e" "paired n c e \<Longrightarrow> \<not> acquired n e \<Longrightarrow> idle n c e"
  by (auto simp: session_views node_view_def sessions_closed)

lemma session_blind:
  assumes "answers_ok ans"
  shows "blind (logging_user ans) md (- {n}) UNIV (idle n c)" "blind (logging_user ans) md (- {n}) UNIV (released n c)"
    "blind (logging_user ans) md (- {n}) (- {c}) (working n c)" "blind (logging_user ans) md (- {n}) (- {c}) (paired n c)"
  unfolding session_views using assms by (simp_all add: blind_view)

lemma split_nodes:
  assumes "mod_ok md" "c < md_chain_count md" "n \<in> set (nodes_of md c)"
  shows "\<exists>us vs. nodes_of md c = us @ n # vs \<and> n \<notin> set us \<and> n \<notin> set vs \<and> (\<forall>m \<in> set us \<union> set vs. node_in md (- {n}) c m)"
proof -
  from split_list [OF assms(3)] obtain us vs where e: "nodes_of md c = us @ n # vs" by blast
  then have "n \<notin> set us" "n \<notin> set vs" using chain_node_facts(2) [OF assms(1,2)] by auto
  moreover have "node_in md (- {n}) c m" if "m \<in> set us \<union> set vs" for m
    using that e calculation chain_node_facts(3-5) [OF assms(1,2), of m] by (auto simp: node_in_def)
  ultimately show ?thesis using e by blast
qed

lemma eachA_append: "eachA f (us @ vs) e = res_bind (eachA f us e) (\<lambda>(_, e'). eachA f vs e')"
proof (induction us arbitrary: e)
  case (Cons u us)
  show ?case by (cases "f u e") (auto simp: Cons)
qed simp

lemma runs_eachA_append: "runs md cur P (eachA f us) (\<lambda>_. R) \<Longrightarrow> runs md cur R (eachA f vs) Q \<Longrightarrow> runs md cur P (eachA f (us @ vs)) Q"
  by (drule (1) runs_seq) (simp add: runs_def eachA_append)

lemma owned_facts:
  assumes "mod_ok md" "owned md c n"
  shows "c < md_chain_count md" "n \<in> set (nodes_of md c)" "n < md_node_count md" "unat n < length (md_nodes md)"
    "nd_kind (desc_of md n) = CFL_KIND_INIT_TERM" "node_ok md c n"
  using assms chain_node_facts(3-5) [of md c n] by (auto simp: owned_def)

lemma call_logged:
  assumes "mod_ok md" "owned md c n"
  shows "\<exists>g. \<forall>e. call_fn (logging_user ans) md w none n i d e = Ret (ans g n i d e, e \<lparr> cl_log := cl_log e @ [(n, i)] \<rparr>)"
  using owned_facts [OF assms] assms(2)
  by (auto simp: owned_def has_fns_def node_ok_def fn_ok_def Let_def call_fn_def node_fn_at_def node_desc_app readA_def logging_user_def)

lemma view_log: "node_view n c Q (e \<lparr> cl_log := cl_log e @ [(n, i)] \<rparr>) = Q (events_of n e @ [i]) (acquired n e) (chain_running c e)"
  by (simp add: view_defs)

lemma runs_release:
  assumes "mod_ok md" "owned md c n"
  shows "runs md cur (paired n c) (node_synth_terminate (logging_user ans) md n) (\<lambda>_. released n c)"
proof (rule runsI)
  fix e :: cfl_logged assume e: "tables_ok md e" "paired n c e"
  note n = owned_facts [OF assms]
  from call_logged [OF assms, of ans 1 CFL_CONTINUE CFL_EVENT_TERMINATE 0] obtain g where
    g: "\<And>e. call_fn (logging_user ans) md 1 CFL_CONTINUE n CFL_EVENT_TERMINATE 0 e =
      Ret (ans g n CFL_EVENT_TERMINATE 0 e, e \<lparr> cl_log := cl_log e @ [(n, CFL_EVENT_TERMINATE)] \<rparr>)" by blast
  have run: "node_synth_terminate (logging_user ans) md n e =
    Ret ((), if acquired n e then e \<lparr> cl_log := cl_log e @ [(n, CFL_EVENT_TERMINATE)] \<rparr> else e)"
    using tables_room(2) [OF e(1) n(3)] n(4,5)
    by (simp add: node_synth_terminate_def is_inited_def guardA_def acquired_def node_desc_app node_terminate_def g [unfolded One_nat_def] kind_defs)
  show "\<exists>x e'. node_synth_terminate (logging_user ans) md n e = Ret (x, e') \<and> same_rest e e' \<and> released n c e'"
  proof (cases "acquired n e")
    case True
    have "released n c (e \<lparr> cl_log := cl_log e @ [(n, CFL_EVENT_TERMINATE)] \<rparr>)"
      using e(2) True sessions_end unfolding released_def view_log by (auto simp: paired_def node_view_def)
    then show ?thesis using True run by (simp add: same_rest_def same_queue_def)
  next
    case False
    then show ?thesis using run e(2) session_order(3,5) [of n c e] by auto
  qed
qed

lemma runs_clear_own: "n < md_node_count md \<Longrightarrow> runs md cur (released n c) (clear_node n) (\<lambda>_. idle n c)"
  and runs_arm_own: "n < md_node_count md \<Longrightarrow> runs md cur (idle n c) (arm_node n) (\<lambda>_. idle n c)"
  and runs_mark_own: "n < md_node_count md \<Longrightarrow> runs md cur (node_view n c (\<lambda>evs h on. sessions_open evs True \<and> on)) (mark_initialized n) (\<lambda>_. working n c)"
  unfolding node_updates by (auto intro!: runs_upd
    simp: same_rest_def same_queue_def session_views view_defs node_room_def bm_get_set bm_get_clr)

lemma runs_disable_own:
  assumes "mod_ok md" "owned md c n" "answers_ok ans"
  shows "runs md cur (paired n c) (chain_disable_internal (logging_user ans) md c) (\<lambda>_. idle n c)"
proof -
  note n = owned_facts [OF assms(1,2)]
  note b = session_blind [OF assms(3), where md = md and n = n and c = c]
  obtain us vs where uv: "nodes_of md c = us @ n # vs" "\<forall>m \<in> set us \<union> set vs. node_in md (- {n}) c m"
    using split_nodes [OF assms(1) n(1,2)] by blast
  have "runs md cur (paired n c) (eachA (node_synth_terminate (logging_user ans) md) (rev vs @ [n] @ rev us)) (\<lambda>_. released n c)"
    using uv(2) runs_release [OF assms(1,2), of cur ans]
    by (intro runs_eachA_append [where R = "paired n c"] runs_eachA_append [where R = "released n c"] runs_each)
      (auto intro!: runs_synth [OF b(2)] runs_synth [OF b(4)] runs_seq runs_ret simp del: retA_app)
  moreover have "runs md cur (released n c) (chain_off c) (\<lambda>_. released n c)"
    using blindD(7) [OF b(2)] n(1) by simp
  moreover have "runs md cur (released n c) (eachA clear_node (us @ [n] @ vs)) (\<lambda>_. idle n c)"
    using uv(2) runs_clear_own [OF n(3)]
    by (intro runs_eachA_append [where R = "released n c"] runs_eachA_append [where R = "idle n c"] runs_each)
      (auto intro!: runs_clear [OF b(1)] runs_clear [OF b(2)] runs_seq runs_ret simp del: retA_app)
  ultimately show ?thesis
    unfolding chain_disable_internal_def using uv(1) n(1)
    by (intro runs_chain_desc [OF assms(1)] runs_seq [where R = "released n c"]) (simp_all add: nodes_of_def)
qed

lemma runs_enable_own:
  fixes md :: "'f cfl_module" and ans :: "'f \<Rightarrow> 8 word \<Rightarrow> 8 word \<Rightarrow> 16 word \<Rightarrow> cfl_logged \<Rightarrow> cfl_status"
  assumes "mod_ok md" "owned md c n" "answers_ok ans"
  shows "runs md cur (idle n c) (chain_enable_internal md c) (\<lambda>_. idle n c)"
proof -
  note n = owned_facts [OF assms(1,2)]
  note b = session_blind [OF assms(3), where md = md and n = n and c = c]
  have "runs md cur (idle n c) (arm_node m) (\<lambda>_. idle n c)" if "m \<in> set (nodes_of md c)" for m
    using runs_arm_own [OF n(3)] runs_arm [OF b(1)] chain_node_facts(3-5) [OF assms(1) n(1) that]
    by (cases "m = n") (auto simp: node_in_def)
  moreover have "runs md cur (idle n c) (chain_on c) (\<lambda>_. idle n c)"
    using blindD(6) [OF b(1)] n(1) by simp
  ultimately show ?thesis unfolding chain_enable_internal_def using n(1)
    by (intro runs_chain_desc [OF assms(1)] runs_seq) (auto intro!: runs_each simp: nodes_of_def)
qed

section \<open>Dispatching\<close>

lemma chain_apart:
  assumes "mod_ok md" "owned md c n" "b < md_chain_count md" "b \<noteq> c"
  shows "chain_in md (- {n}) (- {c}) b" "m \<in> set (nodes_of md b) \<Longrightarrow> node_in md (- {n}) b m"
    "m \<in> set (nodes_of md b) \<Longrightarrow> nd_kind (desc_of md m) = CFL_KIND_ENABLE_CHAINS \<Longrightarrow> c \<notin> set (targets md m)"
proof -
  show b: "chain_in md (- {n}) (- {c}) b"
    using assms by (auto simp: chain_in_def owned_def list_all_iff bytes_below_set)
  show "m \<in> set (nodes_of md b) \<Longrightarrow> node_in md (- {n}) b m" using chain_in_nodes [OF assms(1) b] .
  show "m \<in> set (nodes_of md b) \<Longrightarrow> nd_kind (desc_of md m) = CFL_KIND_ENABLE_CHAINS \<Longrightarrow> c \<notin> set (targets md m)"
    using assms by (auto simp: owned_def list_all_iff bytes_below_set)
qed

lemma node_targets:
  assumes "node_ok md b m" "t \<in> set (targets md m)"
    "nd_kind (desc_of md m) = CFL_KIND_ENABLE_CHAINS \<or> nd_kind (desc_of md m) = CFL_KIND_DISABLE_CHAINS"
  shows "t < md_chain_count md" "b \<noteq> t"
  using assms by (auto simp: node_ok_def Let_def)

lemma runs_reset_own:
  assumes "mod_ok md" "owned md c n" "answers_ok ans"
  shows "runs md cur (working n c) (chain_reset_self (logging_user ans) md c) (\<lambda>_. paired n c)"
    "runs md cur (working n c) (chain_terminate_self (logging_user ans) md c) (\<lambda>_. paired n c)"
    "runs md cur (paired n c) (seqA (chain_disable_internal (logging_user ans) md c) (chain_enable_internal md c)) (\<lambda>_. paired n c)"
proof -
  note dis = runs_disable_own [OF assms, where cur = cur] and en = runs_enable_own [OF assms, where cur = cur]
  show all: "runs md cur (paired n c) (seqA (chain_disable_internal (logging_user ans) md c) (chain_enable_internal md c)) (\<lambda>_. paired n c)"
    by (rule runs_weaken [OF runs_seq [OF dis en]]) (auto intro: session_order)
  show "runs md cur (working n c) (chain_reset_self (logging_user ans) md c) (\<lambda>_. paired n c)"
    unfolding chain_reset_self_def by (rule runs_weaken [OF all]) (auto intro: session_order)
  show "runs md cur (working n c) (chain_terminate_self (logging_user ans) md c) (\<lambda>_. paired n c)"
    unfolding chain_terminate_self_def by (rule runs_weaken [OF dis]) (auto intro: session_order)
qed

lemma runs_neighbour:
  assumes "mod_ok md" "owned md c n" "answers_ok ans" "m \<in> set (nodes_of md c)" "m \<noteq> n"
  shows "runs md c (working n c) (dispatch_node (logging_user ans) md c i d m) (\<lambda>r e. if r = None then working n c e else paired n c e)"
proof -
  note n = owned_facts [OF assms(1,2)]
  note b = session_blind(3) [OF assms(3), where md = md and n = n and c = c]
  have m: "node_in md (- {n}) c m" using assms(5) chain_node_facts(3-5) [OF assms(1) n(1) assms(4)] by (simp add: node_in_def)
  then have "node_ok md c m" by (simp add: node_in_def)
  note t = node_targets [OF this]
  have apart: "chain_in md (- {n}) (- {c}) t" if "t \<in> set (targets md m)"
    "nd_kind (desc_of md m) = CFL_KIND_ENABLE_CHAINS \<or> nd_kind (desc_of md m) = CFL_KIND_DISABLE_CHAINS" for t
    using t [OF that] chain_apart(1) [OF assms(1,2)] by auto
  show ?thesis
    using runs_reset_own [OF assms(1-3)] session_order(2) t apart
    by (intro runs_dispatch_node [OF b m] runs_handle [OF b m] runs_cfl_enable [OF assms(1) b] runs_cfl_disable [OF assms(1) b]) blast+
qed

lemma runs_elsewhere:
  assumes "mod_ok md" "owned md c n" "answers_ok ans" "b < md_chain_count md" "b \<noteq> c" "m \<in> set (nodes_of md b)"
  shows "runs md b (paired n c) (dispatch_node (logging_user ans) md b i d m) (\<lambda>r e. if r = None then paired n c e else paired n c e)"
proof -
  note bl = session_blind(4) [OF assms(3), where md = md and n = n and c = c]
  note m = chain_apart(2) [OF assms(1,2,4-6)]
  then have "node_ok md b m" by (simp add: node_in_def)
  note t = node_targets [OF this]
  have enable: "runs md b (paired n c) (cfl_chain_enable md t) (\<lambda>_. paired n c)"
    if "nd_kind (desc_of md m) = CFL_KIND_ENABLE_CHAINS" "t \<in> set (targets md m)" for t
    using that t [OF that(2)] chain_apart [OF assms(1,2)] assms(4-6)
    by (intro runs_cfl_enable [OF assms(1) bl]) blast+
  have disable: "runs md b (paired n c) (cfl_chain_disable (logging_user ans) md t) (\<lambda>_. paired n c)"
    if "nd_kind (desc_of md m) = CFL_KIND_DISABLE_CHAINS" "t \<in> set (targets md m)" for t
  proof (cases "t = c")
    case True
    have "runs md b (paired n c) (seqA (self_modify_guard c) (chain_disable_internal (logging_user ans) md c)) (\<lambda>_. paired n c)"
      by (rule runs_guarded [OF _ runs_weaken [OF runs_disable_own [OF assms(1-3)]]])
        (use assms(5) in \<open>auto intro: session_order\<close>)
    then show ?thesis using True owned_facts(1) [OF assms(1,2)] by (auto simp: cfl_chain_disable_def)
  next
    case False
    then show ?thesis using that t [OF that(2)] chain_apart(1) [OF assms(1,2)]
      by (intro runs_cfl_disable [OF assms(1) bl]) blast+
  qed
  have self: "chain_in md (- {n}) (- {c}) b" using chain_apart(1) [OF assms(1,2,4,5)] .
  show ?thesis
    by (rule runs_dispatch_node [OF bl m runs_handle [OF bl m enable disable]])
      (auto simp: chain_reset_self_def chain_terminate_self_def
        intro!: runs_seq runs_disable_internal [OF assms(1) bl self] runs_enable_internal [OF assms(1) bl self])
qed

lemma runs_own_node:
  assumes "mod_ok md" "owned md c n" "i \<noteq> CFL_EVENT_INIT" "i \<noteq> CFL_EVENT_TERMINATE"
  shows "runs md c (working n c) (dispatch_node (logging_user ans) md c i d n) (\<lambda>r e. if r = None then working n c e else paired n c e)"
proof (rule runsI)
  fix e :: cfl_logged assume e: "tables_ok md e" "working n c e"
  note n = owned_facts [OF assms(1,2)]
  have room: "node_room n e" using tables_room(2) [OF e(1) n(3)] .
  from call_logged [OF assms(1,2), of ans 0 CFL_CONTINUE CFL_EVENT_INIT 0] obtain g where
    g: "\<And>e. call_fn (logging_user ans) md 0 CFL_CONTINUE n CFL_EVENT_INIT 0 e =
      Ret (ans g n CFL_EVENT_INIT 0 e, e \<lparr> cl_log := cl_log e @ [(n, CFL_EVENT_INIT)] \<rparr>)" by blast
  let ?e1 = "e \<lparr> cl_log := cl_log e @ [(n, CFL_EVENT_INIT)] \<rparr>"
  let ?e2 = "?e1 \<lparr> en_node_initialized := bm_set (en_node_initialized ?e1) n \<rparr>"
  have room1: "node_room n ?e1" "node_room n ?e2" using room by (simp_all add: node_room_def)
  have init: "node_handle (logging_user ans) md n (nd_kind (desc_of md n)) CFL_EVENT_INIT 0 e = Ret (CFL_CONTINUE, ?e1)"
    unfolding n(5) by (simp add: node_handle_def g kind_defs CFL_EVENT_INIT_def CFL_EVENT_TERMINATE_def)
      (simp add: g [unfolded CFL_EVENT_INIT_def])
  have event: "node_handle (logging_user ans) md n (nd_kind (desc_of md n)) i d e' = Ret (CFL_CONTINUE, e')" for e'
    unfolding n(5) using assms(3,4) by (simp add: node_handle_def kind_defs)
  have mark: "mark_initialized n ?e1 = Ret ((), ?e2)"
    using room1(1) by (simp add: mark_initialized_def node_upd_def guardA_def)
  have work: "working n c ?e2" if "\<not> acquired n e"
    using that e(2) room sessions_begin sessions_closed
    by (auto simp: working_def view_defs node_room_def bm_get_set)
  have "dispatch_node (logging_user ans) md c i d n e = Ret (None, if bm_get (en_node_enable e) n \<and> \<not> acquired n e then ?e2 else e)"
    using room room1 init event mark n(4)
    by (simp add: dispatch_node_def is_enabled_def is_inited_def guardA_def acquired_def node_desc_app del: res_bind_Ret_iff)
  then show "\<exists>r e'. dispatch_node (logging_user ans) md c i d n e = Ret (r, e') \<and> same_rest e e' \<and> (if r = None then working n c e' else paired n c e')"
    using work e(2) by (simp add: same_rest_def same_queue_def)
qed

lemma runs_event:
  assumes "mod_ok md" "owned md c n" "answers_ok ans" "b < md_chain_count md" "i \<noteq> CFL_EVENT_INIT" "i \<noteq> CFL_EVENT_TERMINATE"
  shows "runs md b (\<lambda>e. paired n c e \<and> bm_get (en_chain_enable e) b) (dispatch_chain (logging_user ans) md b i d) (\<lambda>_. paired n c)"
proof (cases "b = c")
  case True
  have "runs md c (working n c) (dispatch_node (logging_user ans) md c i d m) (\<lambda>r e. if r = None then working n c e else paired n c e)"
    if "m \<in> set (nodes_of md c)" for m
    using that runs_own_node [OF assms(1,2,5,6)] runs_neighbour [OF assms(1-3)] by (cases "m = n") simp_all
  from runs_dispatch_chain [OF assms(1) owned_facts(1) [OF assms(1,2)] this session_order(2)]
  show ?thesis unfolding True by (rule runs_weaken) (auto intro: session_order simp: chain_running_def)
next
  case False
  show ?thesis
    by (rule runs_weaken [OF runs_dispatch_chain [OF assms(1,4) runs_elsewhere [OF assms(1-4) False]]]) simp_all
qed

section \<open>The life of an application\<close>

definition fresh :: "'f cfl_module \<Rightarrow> cfl_logged \<Rightarrow> bool" where
  "fresh md e = (tables_ok md e \<and> length (en_queue e) = CFL_EVENT_QUEUE_SIZE \<and> cl_log e = [])"

text \<open>
  What the application may do between two states, with the three restrictions of this section. It enables the
  chain \<open>c\<close> only while it is off: \<open>cfl_chain_enable\<close> has no such test, and enabling a running chain breaks the
  pairing (next section). The events it sends are above \<open>CFL_EVENT_TERMINATE\<close>: \<open>cfl_send_event\<close> does not test
  that either, and a node's function cannot tell a queued INIT or TERMINATE from the engine's own. And by
  \<open>owned\<close> no \<open>ENABLE_CHAINS\<close> node of the module names the chain \<open>c\<close>. Every other chain it may enable at any time.
\<close>

inductive app_reaches :: "('f \<Rightarrow> 8 word \<Rightarrow> 8 word \<Rightarrow> 16 word \<Rightarrow> cfl_logged \<Rightarrow> cfl_status) \<Rightarrow> 'f cfl_module \<Rightarrow> 8 word \<Rightarrow> cfl_logged \<Rightarrow> bool"
  for ans md c where
  start: "fresh md e \<Longrightarrow> cfl_engine_init md e = Ret ((), e') \<Longrightarrow> app_reaches ans md c e'"
| send: "app_reaches ans md c e \<Longrightarrow> i > CFL_EVENT_TERMINATE \<Longrightarrow> cfl_send_event i d e = Ret ((), e') \<Longrightarrow> app_reaches ans md c e'"
| pump: "app_reaches ans md c e \<Longrightarrow> cfl_engine_pump CFL_EVENT_QUEUE_SIZE (logging_user ans) md e = Ret ((), e') \<Longrightarrow> app_reaches ans md c e'"
| enable: "app_reaches ans md c e \<Longrightarrow> b \<noteq> c \<or> \<not> chain_running c e \<Longrightarrow> cfl_chain_enable md b e = Ret ((), e') \<Longrightarrow> app_reaches ans md c e'"
| disable: "app_reaches ans md c e \<Longrightarrow> cfl_chain_disable (logging_user ans) md b e = Ret ((), e') \<Longrightarrow> app_reaches ans md c e'"
| reset: "app_reaches ans md c e \<Longrightarrow> cfl_chain_reset (logging_user ans) md b e = Ret ((), e') \<Longrightarrow> app_reaches ans md c e'"

definition app_ok :: "'f cfl_module \<Rightarrow> 8 word \<Rightarrow> 8 word \<Rightarrow> cfl_logged \<Rightarrow> bool" where
  "app_ok md n c e = (tables_ok md e \<and> queue_ok e \<and> en_current_chain e = NO_CHAIN \<and>
     list_all (\<lambda>ev. fst ev > CFL_EVENT_TERMINATE) (queued e) \<and> paired n c e)"

lemma app_command:
  assumes "runs md NO_CHAIN P m (\<lambda>_. paired n c)" "app_ok md n c e" "P e" "m e = Ret ((), e')"
  shows "app_ok md n c e'"
  using runsD [OF assms(1)] assms(2-) same_queue_queued [of e e'] same_queue_tables [of e e' md]
  by (fastforce simp: app_ok_def same_rest_def)

lemma app_send: "app_ok md n c e \<Longrightarrow> i > CFL_EVENT_TERMINATE \<Longrightarrow> cfl_send_event i d e = Ret ((), e') \<Longrightarrow> app_ok md n c e'"
proof -
  assume a: "app_ok md n c e" "i > CFL_EVENT_TERMINATE" "cfl_send_event i d e = Ret ((), e')"
  then have "length (queued e) < CFL_EVENT_QUEUE_SIZE"
    by (auto simp: queued_def cfl_send_event_def cfl_send_event_isr_def cfl_panic_def split: if_splits)
  from send_room [OF _ this, of i d] a have "queue_ok e'" "queued e' = queued e @ [(i, d)]" by (auto simp: app_ok_def)
  moreover have "tables_ok md e' = tables_ok md e" "en_current_chain e' = en_current_chain e" "paired n c e' = paired n c e"
    using a(3) by (auto simp: cfl_send_event_def cfl_send_event_isr_def cfl_panic_def tables_ok_def node_room_def paired_def view_defs split: if_splits)
  ultimately show ?thesis using a by (simp add: app_ok_def)
qed

lemma bm_zero_facts:
  assumes "(unat k + 7) div 8 \<le> length bm"
  shows "length (bm_zero bm k) = length bm" "i < k \<Longrightarrow> \<not> bm_get (bm_zero bm k) i"
proof -
  show "length (bm_zero bm k) = length bm" using assms by (simp add: bm_zero_def Let_def)
  assume "i < k"
  then have "unat i div 8 < (unat k + 7) div 8" by (simp add: word_less_nat_alt)
  then show "\<not> bm_get (bm_zero bm k) i" by (simp add: bm_get_bit bm_zero_def Let_def nth_append)
qed

lemma tables_upd: "length (en_chain_enable e') = length (en_chain_enable e) \<Longrightarrow> length (en_node_enable e') = length (en_node_enable e) \<Longrightarrow>
    length (en_node_initialized e') = length (en_node_initialized e) \<Longrightarrow> length (en_node_scratch e') = length (en_node_scratch e) \<Longrightarrow>
    tables_ok md e' = tables_ok md e"
  by (simp add: tables_ok_def node_room_def bm_room_iff list_all_iff)

lemma app_start:
  assumes "mod_ok md" "owned md c n" "fresh md e" "cfl_engine_init md e = Ret ((), e')"
  shows "app_ok md n c e'"
proof -
  note own = owned_facts [OF assms(1,2)]
  let ?cc = "md_chain_count md" and ?nc = "md_node_count md"
  let ?e1 = "e \<lparr> en_chain_enable := bm_zero (en_chain_enable e) ?cc, en_node_enable := bm_zero (en_node_enable e) ?nc,
    en_node_initialized := bm_zero (en_node_initialized e) ?nc,
    en_node_scratch := replicate (unat ?nc) 0 @ drop (unat ?nc) (en_node_scratch e),
    en_q_rx := 0, en_q_tx := 0, en_q_count := 0, en_current_chain := NO_CHAIN \<rparr>"
  let ?each = "eachA (\<lambda>c. bindA (chain_desc md c) (\<lambda>cd. if cd_auto_start cd \<noteq> 0 then chain_enable_internal md c else retA ())) (bytes_below ?cc)"
  from assms(4) have len: "(unat ?cc + 7) div 8 \<le> length (en_chain_enable e)" "(unat ?nc + 7) div 8 \<le> length (en_node_enable e)"
      "(unat ?nc + 7) div 8 \<le> length (en_node_initialized e)" "unat ?nc \<le> length (en_node_scratch e)"
    and each: "?each ?e1 = Ret ((), e')"
    by (auto simp: cfl_engine_init_def Let_def guardA_def split: if_splits)
  have tab: "tables_ok md ?e1" using assms(3) len
    by (subst tables_upd [of _ e]) (simp_all add: fresh_def bm_zero_facts)
  have one: "app_ok md n c ?e1" "idle n c ?e1"
    using assms(3) tab bm_zero_facts [OF len(3)] own(3) sessions_nil
    by (auto simp: app_ok_def fresh_def queue_ok_def queued_def idle_def paired_def view_defs sessions_open_def sessions_def CFL_EVENT_QUEUE_SIZE_def
      intro!: exI [of _ "0 :: nat"])
  have bl: "blind (logging_user (\<lambda>_ _ _ _ _. CFL_CONTINUE)) md (- {n}) UNIV (idle n c)"
    by (rule session_blind(1)) (simp add: answers_ok_def)
  have "runs md NO_CHAIN (idle n c) (chain_enable_internal md b) (\<lambda>_. idle n c)" if "b < ?cc" for b
  proof (cases "b = c")
    case True
    then show ?thesis using runs_enable_own [OF assms(1,2), of "\<lambda>_ _ _ _ _. CFL_CONTINUE"] by (simp add: answers_ok_def)
  next
    case False
    then have "chain_in md (- {n}) UNIV b" using chain_apart(1) [OF assms(1,2) that] by (auto simp: chain_in_def)
    then show ?thesis by (rule runs_enable_internal [OF assms(1) bl])
  qed
  then have "runs md NO_CHAIN (idle n c) ?each (\<lambda>_. idle n c)"
    by (intro runs_each runs_chain_desc [OF assms(1)] runs_if runs_ret) (simp_all add: bytes_below_set)
  then have "runs md NO_CHAIN (idle n c) ?each (\<lambda>_. paired n c)"
    by (rule runs_weaken) (auto intro: session_order)
  from app_command [OF this one each] show ?thesis .
qed

lemma runs_command:
  assumes "mod_ok md" "owned md c n" "answers_ok ans" "b < md_chain_count md"
  shows "b \<noteq> c \<Longrightarrow> runs md NO_CHAIN (paired n c) (cfl_chain_enable md b) (\<lambda>_. paired n c)"
    "runs md NO_CHAIN (idle n c) (cfl_chain_enable md c) (\<lambda>_. paired n c)"
    "runs md NO_CHAIN (paired n c) (cfl_chain_disable (logging_user ans) md b) (\<lambda>_. paired n c)"
    "runs md NO_CHAIN (paired n c) (cfl_chain_reset (logging_user ans) md b) (\<lambda>_. paired n c)"
proof -
  note bl = session_blind(4) [OF assms(3), where md = md and n = n and c = c]
  note apart = chain_apart(1) [OF assms(1,2,4)] and own = owned_facts(1) [OF assms(1,2)]
  show "b \<noteq> c \<Longrightarrow> runs md NO_CHAIN (paired n c) (cfl_chain_enable md b) (\<lambda>_. paired n c)"
    using runs_cfl_enable [OF assms(1) bl apart] by simp
  have "runs md NO_CHAIN (idle n c) (seqA (self_modify_guard c) (chain_enable_internal md c)) (\<lambda>_. paired n c)"
    by (rule runs_guarded [OF _ runs_weaken [OF runs_enable_own [OF assms(1-3)]]]) (auto intro: session_order)
  then show "runs md NO_CHAIN (idle n c) (cfl_chain_enable md c) (\<lambda>_. paired n c)"
    using own by (auto simp: cfl_chain_enable_def)
  have dis: "runs md NO_CHAIN (paired n c) (chain_disable_internal (logging_user ans) md b) (\<lambda>_. paired n c)"
  proof (cases "b = c")
    case True
    show ?thesis unfolding True by (rule runs_weaken [OF runs_disable_own [OF assms(1-3)]]) (auto intro: session_order)
  qed (use runs_disable_internal [OF assms(1) bl apart] in blast)
  then show "runs md NO_CHAIN (paired n c) (cfl_chain_disable (logging_user ans) md b) (\<lambda>_. paired n c)"
    using assms(4) by (auto simp: cfl_chain_disable_def intro: runs_guarded)
  have "runs md NO_CHAIN (paired n c) (seqA (chain_disable_internal (logging_user ans) md b) (chain_enable_internal md b)) (\<lambda>_. paired n c)"
  proof (cases "b = c")
    case True
    show ?thesis unfolding True using runs_reset_own(3) [OF assms(1-3)] .
  qed (use runs_seq [OF runs_disable_internal [OF assms(1) bl apart] runs_enable_internal [OF assms(1) bl apart]] in blast)
  then show "runs md NO_CHAIN (paired n c) (cfl_chain_reset (logging_user ans) md b) (\<lambda>_. paired n c)"
    using assms(4) by (auto simp: cfl_chain_reset_def intro: runs_guarded)
qed

lemma app_reaches_ok:
  assumes "mod_ok md" "owned md c n" "answers_ok ans" "app_reaches ans md c e"
  shows "app_ok md n c e"
  using assms(4)
proof (induction rule: app_reaches.induct)
  case (start e e')
  then show ?case using app_start [OF assms(1,2)] by blast
next
  case (send e i d e')
  then show ?case using app_send by blast
next
  case (pump e e')
  have "runs md b (\<lambda>e. paired n c e \<and> bm_get (en_chain_enable e) b) (dispatch_chain (logging_user ans) md b (fst ev) (snd ev)) (\<lambda>_. paired n c)"
    if "b < md_chain_count md" "ev \<in> set (queued e)" for b ev
    using that pump.IH runs_event [OF assms(1-3) that(1), of "fst ev" "snd ev"]
    by (force simp: app_ok_def list_all_iff CFL_EVENT_INIT_def CFL_EVENT_TERMINATE_def)
  moreover have "length (queued e) \<le> CFL_EVENT_QUEUE_SIZE" "tables_ok md e" "queue_ok e" "paired n c e" "en_current_chain e = NO_CHAIN"
    using pump.IH by (auto simp: app_ok_def queue_ok_def queued_def)
  moreover have "off_queue (paired n c)" unfolding paired_def by (rule off_queue_view)
  ultimately show ?case using pump_returns [of "paired n c" md e CFL_EVENT_QUEUE_SIZE "logging_user ans"] pump.hyps(2)
    by (auto simp: app_ok_def)
next
  case (enable e b e')
  then have b: "b < md_chain_count md" by (auto simp: cfl_chain_enable_def cfl_panic_def split: if_splits)
  from runs_command(1,2) [OF assms(1-3) b] enable show ?case
    using app_command [of md "paired n c" _ n c e e'] app_command [of md "idle n c" _ n c e e'] session_order(5) [of n c e]
    by (cases "b = c") (auto simp: app_ok_def paired_def node_view_def)
next
  case (disable e b e')
  then have b: "b < md_chain_count md" by (auto simp: cfl_chain_disable_def cfl_panic_def split: if_splits)
  from app_command [OF runs_command(3) [OF assms(1-3) b] disable.IH _ disable.hyps(2)] disable.IH show ?case
    by (simp add: app_ok_def)
next
  case (reset e b e')
  then have b: "b < md_chain_count md" by (auto simp: cfl_chain_reset_def cfl_panic_def split: if_splits)
  from app_command [OF runs_command(4) [OF assms(1-3) b] reset.IH _ reset.hyps(2)] reset.IH show ?case
    by (simp add: app_ok_def)
qed

text \<open>
  C5. What a node acquires it releases, as long as nobody enables its chain while the chain runs. Take a
  node of kind \<open>INIT_TERM\<close> that stands in one chain only, a module none of whose \<open>ENABLE_CHAINS\<close> nodes names that
  chain, and an application that, from a cold start, sends events above \<open>CFL_EVENT_TERMINATE\<close>, pumps, disables
  and resets any chain, enables any other chain at any time and this one only while it is off. Whatever the
  sequence and whatever status the functions answer, the calls of the two
  functions of an \<open>INIT_TERM\<close> node alternate: complete INIT/TERMINATE sessions and one last INIT
  exactly while the node is initialized, and then its chain is running. The chain is started by its
  auto-start flag, by a reset, or by \<open>cfl_chain_enable\<close> while it is off.
\<close>

theorem acquire_release_paired:
  assumes "mod_ok md" "owned md c n" "answers_ok ans" "app_reaches ans md c e"
  shows "(\<exists>k. events_of n e = concat (replicate k [CFL_EVENT_INIT, CFL_EVENT_TERMINATE]) @ (if acquired n e then [CFL_EVENT_INIT] else [])) \<and>
    (acquired n e \<longrightarrow> chain_running c e)"
  using app_reaches_ok [OF assms] by (auto simp: app_ok_def paired_def node_view_def sessions_open_def)

section \<open>Enabling a chain that runs\<close>

lemma arms_all:
  assumes "\<And>m. m \<in> set ns \<Longrightarrow> m < md_node_count md" "tables_ok md e"
  shows "\<exists>e'. eachA arm_node ns e = Ret ((), e') \<and> tables_ok md e' \<and> en_chain_enable e' = en_chain_enable e \<and>
    cfl_engine.more e' = cfl_engine.more e \<and>
    (\<forall>m. acquired m e' = (acquired m e \<and> m \<notin> set ns)) \<and>
    (\<forall>m. bm_get (en_node_enable e') m = (bm_get (en_node_enable e) m \<or> m \<in> set ns))"
  using assms
proof (induction ns arbitrary: e)
  case (Cons n ns)
  let ?e1 = "e \<lparr> en_node_enable := bm_set (en_node_enable e) n,
     en_node_initialized := bm_clr (en_node_initialized e) n, en_node_scratch := (en_node_scratch e)[unat n := 0] \<rparr>"
  have room: "node_room n e" using Cons.prems(1) [of n] tables_room(2) [OF Cons.prems(2)] by simp
  have arm: "arm_node n e = Ret ((), ?e1)" using room by (simp add: arm_node_def node_upd_def guardA_def)
  have "tables_ok md ?e1" using Cons.prems(2) by (subst tables_upd [of _ e]) simp_all
  from Cons.IH [OF _ this] Cons.prems(1) obtain e' where e': "eachA arm_node ns ?e1 = Ret ((), e')" "tables_ok md e'"
    "en_chain_enable e' = en_chain_enable e" "cfl_engine.more e' = cfl_engine.more e"
    "\<forall>m. acquired m e' = (acquired m ?e1 \<and> m \<notin> set ns)" "\<forall>m. bm_get (en_node_enable e') m = (bm_get (en_node_enable ?e1) m \<or> m \<in> set ns)"
    by auto
  show ?case using e' arm room
    by (intro exI [of _ e']) (auto simp: acquired_def bm_get_set bm_get_clr node_room_def simp del: res_bind_Ret_iff)
qed simp

text \<open>
  C39. \<open>cfl_chain_enable\<close> on a running chain leaks what its nodes hold: every node of the chain is
  armed again and no longer counts as initialized, though no node has had a TERMINATE: no function
  has been called. The next event acquires a second time.
\<close>

theorem enable_running_chain_leaks:
  assumes "mod_ok md" "tables_ok md e" "en_current_chain e = NO_CHAIN" "c < md_chain_count md"
  shows "\<exists>e'. cfl_chain_enable md c e = Ret ((), e') \<and> chain_running c e' \<and> cl_log e' = cl_log e \<and>
    (\<forall>n \<in> set (nodes_of md c). \<not> acquired n e' \<and> bm_get (en_node_enable e') n) \<and>
    (\<forall>n. n \<notin> set (nodes_of md c) \<longrightarrow> acquired n e' = acquired n e)"
proof -
  let ?e1 = "e \<lparr> en_chain_enable := bm_set (en_chain_enable e) c \<rparr>"
  have room: "bm_room (en_chain_enable e) c" using assms(2,4) tables_room(1) by blast
  have "tables_ok md ?e1" using assms(2) by (subst tables_upd [of _ e]) simp_all
  from arms_all [OF _ this, of "nodes_of md c"] chain_node_facts(3) [OF assms(1,4)] obtain e' where
    e': "eachA arm_node (nodes_of md c) ?e1 = Ret ((), e')" "en_chain_enable e' = en_chain_enable ?e1"
      "cfl_engine.more e' = cfl_engine.more e" "\<forall>m. acquired m e' = (acquired m ?e1 \<and> m \<notin> set (nodes_of md c))"
      "\<forall>m. bm_get (en_node_enable e') m = (bm_get (en_node_enable ?e1) m \<or> m \<in> set (nodes_of md c))"
    by auto
  have "cfl_chain_enable md c e = Ret ((), e')"
    using assms(1,3) leD [of "md_chain_count md" c] assms(4) room e'(1)
    by (auto simp add: cfl_chain_enable_def self_modify_guard_def chain_enable_internal_def chain_desc_app chain_on_def guardA_def nodes_of_def
      simp del: res_bind_Ret_iff)
  then show ?thesis using e' room
    by (intro exI [of _ e']) (cases e, cases e', auto simp: acquired_def chain_running_def bm_get_set)
qed

section \<open>A small application\<close>

text \<open>
  Chain 0 holds a resource for 100 ms and starts over; chain 1 stops it after 250 ms.
\<close>

definition demo_md :: "string cfl_module" where
  "demo_md = \<lparr> md_chains = [\<lparr> cd_node_first = 0, cd_node_count = 3, cd_auto_start = 1 \<rparr>,
      \<lparr> cd_node_first = 3, cd_node_count = 3, cd_auto_start = 1 \<rparr>],
    md_nodes = [
      \<lparr> nd_kind = 9, nd_fn_idx = 0, nd_fn_idx_2 = 1, nd_param_count = 0, nd_param_off = 0 \<rparr>,
      \<lparr> nd_kind = 3, nd_fn_idx = 0xFF, nd_fn_idx_2 = 0xFF, nd_param_count = 1, nd_param_off = 0 \<rparr>,
      \<lparr> nd_kind = 6, nd_fn_idx = 0xFF, nd_fn_idx_2 = 0xFF, nd_param_count = 0, nd_param_off = 1 \<rparr>,
      \<lparr> nd_kind = 3, nd_fn_idx = 0xFF, nd_fn_idx_2 = 0xFF, nd_param_count = 1, nd_param_off = 1 \<rparr>,
      \<lparr> nd_kind = 5, nd_fn_idx = 0xFF, nd_fn_idx_2 = 0xFF, nd_param_count = 1, nd_param_off = 2 \<rparr>,
      \<lparr> nd_kind = 10, nd_fn_idx = 0xFF, nd_fn_idx_2 = 0xFF, nd_param_count = 0, nd_param_off = 3 \<rparr>],
    md_params_pool = [100, 250, 0], md_user_fns = [Some ''acquire'', Some ''release''], md_chain_count = 2, md_node_count = 6 \<rparr>"

definition demo_raw :: cfl_logged where
  "demo_raw = \<lparr> en_chain_enable = [0], en_node_enable = [0], en_node_initialized = [0], en_node_scratch = replicate 6 0,
    en_queue = replicate 16 (0, 0), en_q_rx = 0, en_q_tx = 0, en_q_count = 0, en_current_chain = 0, cl_log = [] \<rparr>"

definition demo_user :: "(string, cfl_logged) user_code" where
  "demo_user = logging_user (\<lambda>_ _ _ _ _. CFL_CONTINUE)"

text \<open>The application after its start, with a tick of 60 ms in the queue, and after the pump.\<close>

definition demo_queued :: cfl_logged where
  "demo_queued = demo_raw \<lparr> en_chain_enable := [3], en_node_enable := [63], en_current_chain := 0xFF,
    en_queue := (2, 60) # replicate 15 (0, 0), en_q_rx := 1, en_q_count := 1 \<rparr>"

definition demo_taken :: cfl_logged where
  "demo_taken = demo_queued \<lparr> en_q_tx := 1, en_q_count := 0 \<rparr>"

definition demo_pumped :: cfl_logged where
  "demo_pumped = demo_taken \<lparr> en_node_initialized := [11], en_node_scratch := [0, 60, 0, 60, 0, 0], cl_log := [(0, 0)] \<rparr>"

lemma demo_module: "mod_ok demo_md" by code_simp
lemma demo_owned: "owned demo_md 0 0" by code_simp
lemma demo_tables: "tables_ok demo_md demo_raw" by code_simp
lemma demo_start: "(case seqA (cfl_engine_init demo_md) (cfl_engine_time_tick 60) demo_raw of Ret (_, e) \<Rightarrow> e = demo_queued | _ \<Rightarrow> False)"
  by code_simp
lemma demo_take: "queue_pop demo_queued = Ret (Some (2, 60), demo_taken)" "queue_pop demo_pumped = Ret (None, demo_pumped)"
  by code_simp+


text \<open>The nodes' turns: the resource is acquired, and both delays hold their chain.\<close>

definition demo_acquired :: cfl_logged where
  "demo_acquired = demo_taken \<lparr> en_current_chain := 0, en_node_initialized := [1], cl_log := [(0, 0)] \<rparr>"

definition demo_waiting :: cfl_logged where
  "demo_waiting = demo_acquired \<lparr> en_node_initialized := [3], en_node_scratch := [0, 60, 0, 0, 0, 0] \<rparr>"

lemma demo_params: "cfl_node_param demo_md 1 0 s = Ret (100, s)" "cfl_node_param demo_md 3 0 s = Ret (250, s)"
  by (simp_all add: cfl_node_param_def node_desc_def readA_def demo_md_def)


lemma demo_inits:
  "time_delay demo_md 1 0 0 demo_acquired = Ret (CFL_CONTINUE, demo_acquired)"
  "time_delay demo_md 3 0 0 (demo_waiting \<lparr> en_current_chain := 1 \<rparr>) = Ret (CFL_CONTINUE, demo_waiting \<lparr> en_current_chain := 1 \<rparr>)"
  "mark_initialized 1 demo_acquired = Ret ((), demo_acquired \<lparr> en_node_initialized := [3] \<rparr>)"
  "mark_initialized 3 (demo_waiting \<lparr> en_current_chain := 1 \<rparr>) = Ret ((), demo_waiting \<lparr> en_current_chain := 1, en_node_initialized := [11] \<rparr>)"
  by code_simp+

lemma demo_scratch:
  "cfl_node_scratch_get 1 (demo_acquired \<lparr> en_node_initialized := [3] \<rparr>) = Ret (0, demo_acquired \<lparr> en_node_initialized := [3] \<rparr>)"
  "cfl_node_scratch_set 1 60 (demo_acquired \<lparr> en_node_initialized := [3] \<rparr>) = Ret ((), demo_waiting)"
  "cfl_node_scratch_get 3 (demo_waiting \<lparr> en_current_chain := 1, en_node_initialized := [11] \<rparr>) =
     Ret (0, demo_waiting \<lparr> en_current_chain := 1, en_node_initialized := [11] \<rparr>)"
  "cfl_node_scratch_set 3 60 (demo_waiting \<lparr> en_current_chain := 1, en_node_initialized := [11] \<rparr>) =
     Ret ((), demo_pumped \<lparr> en_current_chain := 1 \<rparr>)"
  by code_simp+

lemma demo_delays:
  "time_delay demo_md 1 2 60 (demo_acquired \<lparr> en_node_initialized := [3] \<rparr>) = Ret (CFL_HALT, demo_waiting)"
  "time_delay demo_md 3 2 60 (demo_waiting \<lparr> en_current_chain := 1, en_node_initialized := [11] \<rparr>) =
     Ret (CFL_HALT, demo_pumped \<lparr> en_current_chain := 1 \<rparr>)"
  by (simp_all add: time_delay_def demo_params demo_scratch sat16_def
    CFL_EVENT_INIT_def CFL_EVENT_TERMINATE_def CFL_EVENT_TIME_TICK_def del: res_bind_Ret_iff)

lemma demo_bits:
  "is_enabled 1 demo_acquired = Ret (True, demo_acquired)" "is_inited 1 demo_acquired = Ret (False, demo_acquired)"
  "is_enabled 3 (demo_waiting \<lparr> en_current_chain := 1 \<rparr>) = Ret (True, demo_waiting \<lparr> en_current_chain := 1 \<rparr>)"
  "is_inited 3 (demo_waiting \<lparr> en_current_chain := 1 \<rparr>) = Ret (False, demo_waiting \<lparr> en_current_chain := 1 \<rparr>)"
  by code_simp+

lemma demo_kinds: "1 < length (md_nodes demo_md)" "3 < length (md_nodes demo_md)"
  "nd_kind (desc_of demo_md 1) = 3" "nd_kind (desc_of demo_md 3) = 3"
  by code_simp+

lemma delay_handle: "node_handle user md n 3 0 d = time_delay md n 0 d" "node_handle user md n 3 2 d = time_delay md n 2 d"
  by (simp_all add: node_handle_def kind_defs CFL_EVENT_TERMINATE_def)

lemma demo_nodes:
  "dispatch_node demo_user demo_md 0 2 60 0 (demo_taken \<lparr> en_current_chain := 0 \<rparr>) = Ret (None, demo_acquired)"
  "dispatch_node demo_user demo_md 0 2 60 1 demo_acquired = Ret (Some (), demo_waiting)"
  "dispatch_node demo_user demo_md 1 2 60 3 (demo_waiting \<lparr> en_current_chain := 1 \<rparr>) = Ret (Some (), demo_pumped \<lparr> en_current_chain := 1 \<rparr>)"
  subgoal by code_simp
  subgoal by (simp add: dispatch_node_def demo_bits node_desc_app demo_kinds [unfolded One_nat_def] delay_handle demo_inits demo_delays CFL_EVENT_INIT_def
    del: res_bind_Ret_iff)
  subgoal by (simp add: dispatch_node_def demo_bits node_desc_app demo_kinds delay_handle demo_inits demo_delays CFL_EVENT_INIT_def
    del: res_bind_Ret_iff)
  done

lemma demo_chains: "chain_nodes (md_chains demo_md ! 0) = [0, 1, 2]" "chain_nodes (md_chains demo_md ! 1) = [3, 4, 5]"
  "bytes_below (md_chain_count demo_md) = [0, 1]" "0 < md_chain_count demo_md" "1 < md_chain_count demo_md"
  by code_simp+

lemma demo_on: "chain_is_on 0 demo_taken = Ret (True, demo_taken)" "chain_is_on 1 demo_waiting = Ret (True, demo_waiting)"
  "demo_pumped \<lparr> en_current_chain := NO_CHAIN \<rparr> = demo_pumped"
  by code_simp+

lemma demo_dispatch:
  "dispatch_chain demo_user demo_md 0 2 60 (demo_taken \<lparr> en_current_chain := 0 \<rparr>) = Ret ((), demo_waiting)"
  "dispatch_chain demo_user demo_md 1 2 60 (demo_waiting \<lparr> en_current_chain := 1 \<rparr>) = Ret ((), demo_pumped \<lparr> en_current_chain := 1 \<rparr>)"
  by (simp_all add: dispatch_chain_def chain_desc_app [OF demo_module demo_chains(4)] chain_desc_app [OF demo_module demo_chains(5)]
    demo_chains(1,2) demo_chains(2) [unfolded One_nat_def] demo_nodes del: res_bind_Ret_iff)

lemma demo_pump: "cfl_engine_pump CFL_EVENT_QUEUE_SIZE demo_user demo_md demo_queued = Ret ((), demo_pumped)"
proof -
  have "dispatch_event demo_user demo_md (2, 60) demo_taken = Ret ((), demo_pumped)"
    by (simp add: dispatch_event_def demo_chains demo_on demo_dispatch del: res_bind_Ret_iff)
  then show ?thesis
    by (simp add: CFL_EVENT_QUEUE_SIZE_def cfl_engine_pump.simps [of 16] cfl_engine_pump.simps [of 15] demo_take del: res_bind_Ret_iff)
qed

lemma demo_reaches: "app_reaches (\<lambda>_ _ _ _ _. CFL_CONTINUE) demo_md 0 demo_queued" "app_reaches (\<lambda>_ _ _ _ _. CFL_CONTINUE) demo_md 0 demo_pumped"
proof -
  have fresh: "fresh demo_md demo_raw"
    using demo_tables by (simp add: fresh_def) (simp add: demo_raw_def CFL_EVENT_QUEUE_SIZE_def)
  from demo_start obtain e1 where e1: "cfl_engine_init demo_md demo_raw = Ret ((), e1)" "cfl_engine_time_tick 60 e1 = Ret ((), demo_queued)"
    by (auto split: res.splits prod.splits simp del: res_bind_Ret_iff)
      (cases "cfl_engine_init demo_md demo_raw"; auto)
  show q: "app_reaches (\<lambda>_ _ _ _ _. CFL_CONTINUE) demo_md 0 demo_queued"
    using app_reaches.send [OF app_reaches.start [OF fresh e1(1)] _ e1(2) [unfolded cfl_engine_time_tick_def]]
    by (simp add: CFL_EVENT_TERMINATE_def CFL_EVENT_TIME_TICK_def)
  show "app_reaches (\<lambda>_ _ _ _ _. CFL_CONTINUE) demo_md 0 demo_pumped"
    using app_reaches.pump [OF q demo_pump [unfolded demo_user_def]] .
qed

lemma demo_answers: "answers_ok (\<lambda>_ _ _ _ _. CFL_CONTINUE)"
  by (simp add: answers_ok_def)

lemma acquire_release_paired_witness:
  "app_reaches (\<lambda>_ _ _ _ _. CFL_CONTINUE) demo_md 0 demo_pumped \<and> acquired 0 demo_pumped \<and> chain_running 0 demo_pumped \<and>
   (\<exists>k. events_of 0 demo_pumped = concat (replicate k [CFL_EVENT_INIT, CFL_EVENT_TERMINATE]) @ [CFL_EVENT_INIT])"
proof -
  have "acquired 0 demo_pumped" by code_simp
  then show ?thesis
    using acquire_release_paired [OF demo_module demo_owned demo_answers demo_reaches(2)] demo_reaches(2) by simp
qed

lemma enable_running_chain_leaks_witness:
  "acquired 0 demo_pumped \<and> (\<exists>e'. cfl_chain_enable demo_md 0 demo_pumped = Ret ((), e') \<and> cl_log e' = [(0, CFL_EVENT_INIT)] \<and> \<not> acquired 0 e')"
proof -
  have "acquired 0 demo_pumped" "cl_log demo_pumped = [(0, CFL_EVENT_INIT)]" "tables_ok demo_md demo_pumped"
    "en_current_chain demo_pumped = NO_CHAIN" "0 \<in> set (nodes_of demo_md 0)"
    by code_simp+
  then show ?thesis
    using enable_running_chain_leaks [OF demo_module _ _ demo_chains(4), of demo_pumped] by auto
qed

lemma pump_drains_witness:
  "queued demo_queued = [(2, 60)] \<and> (\<exists>e'. cfl_engine_pump CFL_EVENT_QUEUE_SIZE demo_user demo_md demo_queued = Ret ((), e') \<and> queued e' = [])"
proof -
  have "queued demo_queued = [(2, 60)]" "tables_ok demo_md demo_queued" "queue_ok demo_queued" by code_simp+
  moreover have "tame demo_user demo_md"
    by (simp add: tame_def demo_user_def runs_def logging_user_def same_rest_def same_queue_def)
  ultimately show ?thesis using pump_drains [OF demo_module, of demo_user demo_queued] by blast
qed

end
