(* ===== verification/IL_Pins.thy ===== *)
theory IL_Pins
  imports Prelude
begin

text \<open>
  The pins of the SAMD21 slave: the board's table of pin labels (\<open>samd21_pin_table.c\<close>) and the table
  of pin claims with the configuration of the port hardware (\<open>samd21_hal_pin.c\<close>).

  The registers of the two port groups are part of the state; reading the level of an input and a
  conversion of the ADC depend on the world outside and are arguments. Both tables are static
  arrays that the code indexes below their size, so that the operations are total functions.
\<close>

section \<open>The pin table of the board\<close>

definition BOARD_PIN_CAP_GPIO :: "8 word" where "BOARD_PIN_CAP_GPIO = 0x01"
definition BOARD_PIN_CAP_ADC :: "8 word" where "BOARD_PIN_CAP_ADC = 0x02"
definition BOARD_PIN_CAP_DAC :: "8 word" where "BOARD_PIN_CAP_DAC = 0x04"
definition BOARD_PIN_RESERVED :: "8 word" where "BOARD_PIN_RESERVED = 0x80"
definition BOARD_PIN_ADC_NONE :: "8 word" where "BOARD_PIN_ADC_NONE = 0xFF"

lemmas board_caps = BOARD_PIN_CAP_GPIO_def BOARD_PIN_CAP_ADC_def BOARD_PIN_CAP_DAC_def BOARD_PIN_RESERVED_def

definition BOARD_PHYS_PIN :: "8 word \<Rightarrow> 8 word \<Rightarrow> 8 word" where
  "BOARD_PHYS_PIN port pin = push_bit 5 port OR (pin AND 0x1F)"

definition BOARD_PHYS_PIN_PORT :: "8 word \<Rightarrow> 8 word" where
  "BOARD_PHYS_PIN_PORT pid = drop_bit 5 pid"

definition BOARD_PHYS_PIN_PIN :: "8 word \<Rightarrow> 8 word" where
  "BOARD_PHYS_PIN_PIN pid = pid AND 0x1F"

record board_pin =
  bp_label :: string
  bp_port :: "8 word"
  bp_pin :: "8 word"
  bp_adc_channel :: "8 word"
  bp_caps :: "8 word"

definition board_pin_phys_id :: "board_pin \<Rightarrow> 8 word" where
  "board_pin_phys_id p = BOARD_PHYS_PIN (bp_port p) (bp_pin p)"

definition board_pin_is_reserved :: "board_pin \<Rightarrow> bool" where
  "board_pin_is_reserved p = (bp_caps p AND BOARD_PIN_RESERVED \<noteq> 0)"

definition CAP_FREE_GPIO :: "8 word" where
  "CAP_FREE_GPIO = BOARD_PIN_CAP_GPIO OR BOARD_PIN_CAP_ADC"

definition CAP_RESV_DAC :: "8 word" where
  "CAP_RESV_DAC = BOARD_PIN_CAP_GPIO OR BOARD_PIN_CAP_ADC OR BOARD_PIN_CAP_DAC OR BOARD_PIN_RESERVED"

definition CAP_RESV_PERI :: "8 word" where
  "CAP_RESV_PERI = BOARD_PIN_CAP_GPIO OR BOARD_PIN_CAP_ADC OR BOARD_PIN_RESERVED"

definition g_board_pins :: "board_pin list" where
  "g_board_pins = [
    \<lparr> bp_label = ''D0'', bp_port = 0, bp_pin = 2, bp_adc_channel = 0, bp_caps = CAP_RESV_DAC \<rparr>,
    \<lparr> bp_label = ''D1'', bp_port = 0, bp_pin = 4, bp_adc_channel = 4, bp_caps = CAP_FREE_GPIO \<rparr>,
    \<lparr> bp_label = ''D2'', bp_port = 0, bp_pin = 10, bp_adc_channel = 18, bp_caps = CAP_FREE_GPIO \<rparr>,
    \<lparr> bp_label = ''D3'', bp_port = 0, bp_pin = 11, bp_adc_channel = 19, bp_caps = CAP_FREE_GPIO \<rparr>,
    \<lparr> bp_label = ''D4'', bp_port = 0, bp_pin = 8, bp_adc_channel = 16, bp_caps = CAP_RESV_PERI \<rparr>,
    \<lparr> bp_label = ''D5'', bp_port = 0, bp_pin = 9, bp_adc_channel = 17, bp_caps = CAP_RESV_PERI \<rparr>,
    \<lparr> bp_label = ''D6'', bp_port = 1, bp_pin = 8, bp_adc_channel = 2, bp_caps = CAP_RESV_PERI \<rparr>,
    \<lparr> bp_label = ''D7'', bp_port = 1, bp_pin = 9, bp_adc_channel = 3, bp_caps = CAP_RESV_PERI \<rparr>,
    \<lparr> bp_label = ''D8'', bp_port = 0, bp_pin = 7, bp_adc_channel = 7, bp_caps = CAP_FREE_GPIO \<rparr>,
    \<lparr> bp_label = ''D9'', bp_port = 0, bp_pin = 5, bp_adc_channel = 5, bp_caps = CAP_FREE_GPIO \<rparr>,
    \<lparr> bp_label = ''D10'', bp_port = 0, bp_pin = 6, bp_adc_channel = 6, bp_caps = CAP_FREE_GPIO \<rparr>,
    \<lparr> bp_label = ''A0'', bp_port = 0, bp_pin = 2, bp_adc_channel = 0, bp_caps = CAP_RESV_DAC \<rparr>,
    \<lparr> bp_label = ''A1'', bp_port = 0, bp_pin = 4, bp_adc_channel = 4, bp_caps = CAP_FREE_GPIO \<rparr>,
    \<lparr> bp_label = ''A2'', bp_port = 0, bp_pin = 10, bp_adc_channel = 18, bp_caps = CAP_FREE_GPIO \<rparr>,
    \<lparr> bp_label = ''A3'', bp_port = 0, bp_pin = 11, bp_adc_channel = 19, bp_caps = CAP_FREE_GPIO \<rparr>,
    \<lparr> bp_label = ''A4'', bp_port = 0, bp_pin = 8, bp_adc_channel = 16, bp_caps = CAP_RESV_PERI \<rparr>,
    \<lparr> bp_label = ''A5'', bp_port = 0, bp_pin = 9, bp_adc_channel = 17, bp_caps = CAP_RESV_PERI \<rparr>,
    \<lparr> bp_label = ''A6'', bp_port = 1, bp_pin = 8, bp_adc_channel = 2, bp_caps = CAP_RESV_PERI \<rparr>,
    \<lparr> bp_label = ''A7'', bp_port = 1, bp_pin = 9, bp_adc_channel = 3, bp_caps = CAP_RESV_PERI \<rparr>,
    \<lparr> bp_label = ''A8'', bp_port = 0, bp_pin = 7, bp_adc_channel = 7, bp_caps = CAP_FREE_GPIO \<rparr>,
    \<lparr> bp_label = ''A9'', bp_port = 0, bp_pin = 5, bp_adc_channel = 5, bp_caps = CAP_FREE_GPIO \<rparr>,
    \<lparr> bp_label = ''A10'', bp_port = 0, bp_pin = 6, bp_adc_channel = 6, bp_caps = CAP_FREE_GPIO \<rparr>]"

text \<open>A label is at most three characters, the size of the table's label field without its NUL.\<close>

definition board_pin_lookup :: "string \<Rightarrow> board_pin option" where
  "board_pin_lookup lbl = (if lbl = [] \<or> length lbl \<ge> 4 then None else find (\<lambda>p. bp_label p = lbl) g_board_pins)"

definition find_board_pin :: "8 word \<Rightarrow> board_pin option" where
  "find_board_pin phys_id = find (\<lambda>p. board_pin_phys_id p = phys_id) g_board_pins"

section \<open>Ports and claims\<close>

definition HAL_PIN_TABLE_SIZE :: nat where "HAL_PIN_TABLE_SIZE = 64"
definition HAL_PIN_MODE_UNCLAIMED :: "8 word" where "HAL_PIN_MODE_UNCLAIMED = 0"
definition HAL_PIN_MODE_GPIO_IN :: "8 word" where "HAL_PIN_MODE_GPIO_IN = 1"
definition HAL_PIN_MODE_GPIO_IN_PU :: "8 word" where "HAL_PIN_MODE_GPIO_IN_PU = 2"
definition HAL_PIN_MODE_GPIO_IN_PD :: "8 word" where "HAL_PIN_MODE_GPIO_IN_PD = 3"
definition HAL_PIN_MODE_GPIO_OUT :: "8 word" where "HAL_PIN_MODE_GPIO_OUT = 4"
definition HAL_PIN_MODE_ADC_SCAN :: "8 word" where "HAL_PIN_MODE_ADC_SCAN = 5"

lemmas hal_modes = HAL_PIN_MODE_UNCLAIMED_def HAL_PIN_MODE_GPIO_IN_def HAL_PIN_MODE_GPIO_IN_PU_def
  HAL_PIN_MODE_GPIO_IN_PD_def HAL_PIN_MODE_GPIO_OUT_def HAL_PIN_MODE_ADC_SCAN_def

datatype hal_pin_claim_status = HAL_PIN_CLAIM_OK | HAL_PIN_CLAIM_NO_SUCH_PIN | HAL_PIN_CLAIM_RESERVED | HAL_PIN_CLAIM_TAKEN
  | HAL_PIN_CLAIM_CAP_MISSING | HAL_PIN_CLAIM_BAD_MODE | HAL_PIN_CLAIM_VALUE_MISMATCH

primrec claim_code :: "hal_pin_claim_status \<Rightarrow> 8 word" where
  "claim_code HAL_PIN_CLAIM_OK = 0"
| "claim_code HAL_PIN_CLAIM_NO_SUCH_PIN = 1"
| "claim_code HAL_PIN_CLAIM_RESERVED = 2"
| "claim_code HAL_PIN_CLAIM_TAKEN = 3"
| "claim_code HAL_PIN_CLAIM_CAP_MISSING = 4"
| "claim_code HAL_PIN_CLAIM_BAD_MODE = 5"
| "claim_code HAL_PIN_CLAIM_VALUE_MISMATCH = 6"

record pincfg =
  pc_pmuxen :: bool
  pc_inen :: bool
  pc_pullen :: bool

record port_group =
  pg_dir :: "32 word"
  pg_out :: "32 word"
  pg_pincfg :: "pincfg list"

record hal_pin_claim_record =
  hc_slot_mask :: "8 word"
  hc_mode :: "8 word"
  hc_ok_value :: "8 word"
  hc_err_value :: "8 word"
  hc_oversample_exp :: "8 word"
  hc_sh_cyc :: "8 word"
  hc_adc_channel :: "8 word"

record hal =
  hp_claims :: "hal_pin_claim_record list"
  hp_claims_initialised :: bool
  hp_group :: "port_group list"

definition no_claim :: hal_pin_claim_record where
  "no_claim = \<lparr> hc_slot_mask = 0, hc_mode = HAL_PIN_MODE_UNCLAIMED, hc_ok_value = 0, hc_err_value = 0,
     hc_oversample_exp = 0, hc_sh_cyc = 0, hc_adc_channel = 0xFF \<rparr>"

definition ensure_initialised :: "'z hal_scheme \<Rightarrow> 'z hal_scheme" where
  "ensure_initialised h = (if hp_claims_initialised h then h
     else h \<lparr> hp_claims := replicate HAL_PIN_TABLE_SIZE no_claim, hp_claims_initialised := True \<rparr>)"

definition claim_at :: "8 word \<Rightarrow> 'z hal_scheme \<Rightarrow> hal_pin_claim_record" where
  "claim_at pid h = hp_claims h ! unat pid"

definition set_claim :: "8 word \<Rightarrow> (hal_pin_claim_record \<Rightarrow> hal_pin_claim_record) \<Rightarrow> 'z hal_scheme \<Rightarrow> 'z hal_scheme" where
  "set_claim pid f h = h \<lparr> hp_claims := (hp_claims h)[unat pid := f (claim_at pid h)] \<rparr>"

definition pin_mask :: "8 word \<Rightarrow> 32 word" where
  "pin_mask pin = push_bit (unat pin) 1"

definition upd_group :: "8 word \<Rightarrow> (port_group \<Rightarrow> port_group) \<Rightarrow> 'z hal_scheme \<Rightarrow> 'z hal_scheme" where
  "upd_group port f h = h \<lparr> hp_group := (hp_group h)[unat port := f (hp_group h ! unat port)] \<rparr>"

definition upd_cfg :: "8 word \<Rightarrow> (pincfg \<Rightarrow> pincfg) \<Rightarrow> port_group \<Rightarrow> port_group" where
  "upd_cfg pin f g = g \<lparr> pg_pincfg := (pg_pincfg g)[unat pin := f (pg_pincfg g ! unat pin)] \<rparr>"

text \<open>Writing the set and clear registers.\<close>

definition dirset :: "32 word \<Rightarrow> port_group \<Rightarrow> port_group" where "dirset m g = g \<lparr> pg_dir := pg_dir g OR m \<rparr>"
definition dirclr :: "32 word \<Rightarrow> port_group \<Rightarrow> port_group" where "dirclr m g = g \<lparr> pg_dir := pg_dir g AND NOT m \<rparr>"
definition outset :: "32 word \<Rightarrow> port_group \<Rightarrow> port_group" where "outset m g = g \<lparr> pg_out := pg_out g OR m \<rparr>"
definition outclr :: "32 word \<Rightarrow> port_group \<Rightarrow> port_group" where "outclr m g = g \<lparr> pg_out := pg_out g AND NOT m \<rparr>"

definition port_configure_input :: "8 word \<Rightarrow> 8 word \<Rightarrow> 8 word \<Rightarrow> 'z hal_scheme \<Rightarrow> 'z hal_scheme" where
  "port_configure_input port pin mode = upd_group port (\<lambda>g.
     let m = pin_mask pin; g1 = upd_cfg pin (\<lambda>c. c \<lparr> pc_pmuxen := False, pc_inen := True \<rparr>) (dirclr m g)
     in if mode = HAL_PIN_MODE_GPIO_IN_PU then outset m (upd_cfg pin (\<lambda>c. c \<lparr> pc_pullen := True \<rparr>) g1)
        else if mode = HAL_PIN_MODE_GPIO_IN_PD then outclr m (upd_cfg pin (\<lambda>c. c \<lparr> pc_pullen := True \<rparr>) g1)
        else upd_cfg pin (\<lambda>c. c \<lparr> pc_pullen := False \<rparr>) g1)"

definition port_configure_output :: "8 word \<Rightarrow> 8 word \<Rightarrow> 'z hal_scheme \<Rightarrow> 'z hal_scheme" where
  "port_configure_output port pin = upd_group port (\<lambda>g.
     dirset (pin_mask pin) (upd_cfg pin (\<lambda>c. c \<lparr> pc_pmuxen := False, pc_inen := False, pc_pullen := False \<rparr>) g))"

definition port_reset_to_safe :: "8 word \<Rightarrow> 8 word \<Rightarrow> 'z hal_scheme \<Rightarrow> 'z hal_scheme" where
  "port_reset_to_safe port pin = upd_group port (\<lambda>g. let m = pin_mask pin in
     outclr m (upd_cfg pin (\<lambda>c. c \<lparr> pc_inen := False, pc_pullen := False, pc_pmuxen := False \<rparr>) (dirclr m g)))"

section \<open>Claiming, releasing, driving\<close>

definition slot_bit :: "8 word \<Rightarrow> 8 word" where
  "slot_bit slot = push_bit (unat slot) 1"

definition hal_pin_claim :: "8 word \<Rightarrow> 8 word \<Rightarrow> 8 word \<Rightarrow> 'z hal_scheme \<Rightarrow> hal_pin_claim_status \<times> 'z hal_scheme" where
  "hal_pin_claim phys_id slot mode h0 = (let h = ensure_initialised h0 in
     if unat phys_id \<ge> HAL_PIN_TABLE_SIZE then (HAL_PIN_CLAIM_NO_SUCH_PIN, h)
     else if mode = HAL_PIN_MODE_UNCLAIMED \<or> mode > HAL_PIN_MODE_ADC_SCAN then (HAL_PIN_CLAIM_BAD_MODE, h)
     else if mode = HAL_PIN_MODE_GPIO_OUT then (HAL_PIN_CLAIM_BAD_MODE, h)
     else if mode = HAL_PIN_MODE_ADC_SCAN then (HAL_PIN_CLAIM_BAD_MODE, h)
     else (case find_board_pin phys_id of
       None \<Rightarrow> (HAL_PIN_CLAIM_NO_SUCH_PIN, h)
     | Some bp \<Rightarrow>
         if board_pin_is_reserved bp then (HAL_PIN_CLAIM_RESERVED, h)
         else let needs_gpio = (mode = HAL_PIN_MODE_GPIO_IN \<or> mode = HAL_PIN_MODE_GPIO_IN_PU \<or> mode = HAL_PIN_MODE_GPIO_IN_PD) in
         if needs_gpio \<and> bp_caps bp AND BOARD_PIN_CAP_GPIO = 0 then (HAL_PIN_CLAIM_CAP_MISSING, h)
         else if hc_slot_mask (claim_at phys_id h) \<noteq> 0 \<and> hc_slot_mask (claim_at phys_id h) \<noteq> slot_bit slot
         then (HAL_PIN_CLAIM_TAKEN, h)
         else (HAL_PIN_CLAIM_OK, set_claim phys_id
           (\<lambda>c. c \<lparr> hc_slot_mask := slot_bit slot, hc_mode := mode, hc_ok_value := 0, hc_err_value := 0 \<rparr>)
           (if needs_gpio then port_configure_input (bp_port bp) (bp_pin bp) mode h else h))))"

definition hal_pin_claim_adc :: "8 word \<Rightarrow> 8 word \<Rightarrow> 8 word \<Rightarrow> 8 word \<Rightarrow> 'z hal_scheme \<Rightarrow> hal_pin_claim_status \<times> 'z hal_scheme" where
  "hal_pin_claim_adc phys_id slot oversample_exp sh_cyc h0 = (let h = ensure_initialised h0 in
     if unat phys_id \<ge> HAL_PIN_TABLE_SIZE then (HAL_PIN_CLAIM_NO_SUCH_PIN, h)
     else if oversample_exp > 7 then (HAL_PIN_CLAIM_BAD_MODE, h)
     else if sh_cyc > 63 then (HAL_PIN_CLAIM_BAD_MODE, h)
     else (case find_board_pin phys_id of
       None \<Rightarrow> (HAL_PIN_CLAIM_NO_SUCH_PIN, h)
     | Some bp \<Rightarrow>
         if board_pin_is_reserved bp then (HAL_PIN_CLAIM_RESERVED, h)
         else if bp_caps bp AND BOARD_PIN_CAP_ADC = 0 then (HAL_PIN_CLAIM_CAP_MISSING, h)
         else if bp_adc_channel bp = BOARD_PIN_ADC_NONE then (HAL_PIN_CLAIM_CAP_MISSING, h)
         else let c = claim_at phys_id h in
         if hc_slot_mask c \<noteq> 0 \<and> hc_slot_mask c \<noteq> slot_bit slot then (HAL_PIN_CLAIM_TAKEN, h)
         else if hc_slot_mask c = slot_bit slot \<and> hc_mode c \<noteq> HAL_PIN_MODE_ADC_SCAN then (HAL_PIN_CLAIM_TAKEN, h)
         else (HAL_PIN_CLAIM_OK, set_claim phys_id (\<lambda>c. c \<lparr> hc_slot_mask := slot_bit slot, hc_mode := HAL_PIN_MODE_ADC_SCAN,
           hc_ok_value := 0, hc_err_value := 0, hc_oversample_exp := oversample_exp, hc_sh_cyc := sh_cyc,
           hc_adc_channel := bp_adc_channel bp \<rparr>) h)))"

definition hal_pin_claim_output :: "8 word \<Rightarrow> 8 word \<Rightarrow> 8 word \<Rightarrow> 8 word \<Rightarrow> 'z hal_scheme \<Rightarrow> hal_pin_claim_status \<times> 'z hal_scheme" where
  "hal_pin_claim_output phys_id slot ok_value err_value h0 = (let h = ensure_initialised h0 in
     if unat phys_id \<ge> HAL_PIN_TABLE_SIZE then (HAL_PIN_CLAIM_NO_SUCH_PIN, h)
     else if ok_value > 1 \<or> err_value > 1 then (HAL_PIN_CLAIM_BAD_MODE, h)
     else if ok_value = err_value then (HAL_PIN_CLAIM_VALUE_MISMATCH, h)
     else (case find_board_pin phys_id of
       None \<Rightarrow> (HAL_PIN_CLAIM_NO_SUCH_PIN, h)
     | Some bp \<Rightarrow>
         if board_pin_is_reserved bp then (HAL_PIN_CLAIM_RESERVED, h)
         else if bp_caps bp AND BOARD_PIN_CAP_GPIO = 0 then (HAL_PIN_CLAIM_CAP_MISSING, h)
         else let c = claim_at phys_id h in
         if hc_slot_mask c \<noteq> 0 then
           (if hc_mode c \<noteq> HAL_PIN_MODE_GPIO_OUT then (HAL_PIN_CLAIM_TAKEN, h)
            else if hc_ok_value c \<noteq> ok_value \<or> hc_err_value c \<noteq> err_value then (HAL_PIN_CLAIM_VALUE_MISMATCH, h)
            else (HAL_PIN_CLAIM_OK, set_claim phys_id (\<lambda>c. c \<lparr> hc_slot_mask := hc_slot_mask c OR slot_bit slot \<rparr>) h))
         else (HAL_PIN_CLAIM_OK, set_claim phys_id (\<lambda>c. c \<lparr> hc_slot_mask := slot_bit slot, hc_mode := HAL_PIN_MODE_GPIO_OUT,
           hc_ok_value := ok_value, hc_err_value := err_value \<rparr>) (port_configure_output (bp_port bp) (bp_pin bp) h))))"

text \<open>The body of the two loops over the claim table.\<close>

definition release_pin :: "8 word \<Rightarrow> 8 word \<Rightarrow> 'z hal_scheme \<Rightarrow> 'z hal_scheme" where
  "release_pin slot pid h =
     (if hc_slot_mask (claim_at pid h) AND slot_bit slot = 0 then h
      else let h1 = set_claim pid (\<lambda>c. c \<lparr> hc_slot_mask := hc_slot_mask c AND NOT (slot_bit slot) \<rparr>) h in
        if hc_slot_mask (claim_at pid h1) = 0 then
          set_claim pid (\<lambda>c. c \<lparr> hc_mode := HAL_PIN_MODE_UNCLAIMED, hc_ok_value := 0, hc_err_value := 0 \<rparr>)
            (port_reset_to_safe (BOARD_PHYS_PIN_PORT pid) (BOARD_PHYS_PIN_PIN pid) h1)
        else h1)"

definition all_pins :: "8 word list" where
  "all_pins = map of_nat [0..<HAL_PIN_TABLE_SIZE]"

definition hal_pin_release_slot :: "8 word \<Rightarrow> 'z hal_scheme \<Rightarrow> 'z hal_scheme" where
  "hal_pin_release_slot slot h = fold (release_pin slot) all_pins (ensure_initialised h)"

definition drive_pin :: "8 word \<Rightarrow> 8 word \<Rightarrow> 'z hal_scheme \<Rightarrow> 'z hal_scheme" where
  "drive_pin veto_mask pid h = (let c = claim_at pid h in
     if hc_slot_mask c = 0 then h
     else if hc_mode c \<noteq> HAL_PIN_MODE_GPIO_OUT then h
     else let val = (if hc_slot_mask c AND veto_mask \<noteq> 0 then hc_err_value c else hc_ok_value c);
              m = pin_mask (BOARD_PHYS_PIN_PIN pid)
       in upd_group (BOARD_PHYS_PIN_PORT pid) (if val \<noteq> 0 then outset m else outclr m) h)"

definition hal_pin_drive_outputs :: "8 word \<Rightarrow> 'z hal_scheme \<Rightarrow> 'z hal_scheme" where
  "hal_pin_drive_outputs veto_mask h = fold (drive_pin veto_mask) all_pins (ensure_initialised h)"

definition hal_pin_get_owners :: "8 word \<Rightarrow> 'z hal_scheme \<Rightarrow> 8 word \<times> 'z hal_scheme" where
  "hal_pin_get_owners phys_id h0 = (let h = ensure_initialised h0 in
     (if unat phys_id \<ge> HAL_PIN_TABLE_SIZE then 0 else hc_slot_mask (claim_at phys_id h), h))"

definition hal_pin_get_mode :: "8 word \<Rightarrow> 'z hal_scheme \<Rightarrow> 8 word \<times> 'z hal_scheme" where
  "hal_pin_get_mode phys_id h0 = (let h = ensure_initialised h0 in
     (if unat phys_id \<ge> HAL_PIN_TABLE_SIZE then HAL_PIN_MODE_UNCLAIMED else hc_mode (claim_at phys_id h), h))"

text \<open>Kernighan's loop; a byte has at most eight bits set.\<close>

fun popcount_loop :: "nat \<Rightarrow> 8 word \<Rightarrow> nat \<Rightarrow> nat" where
  "popcount_loop fuel m bits = (if m = 0 then bits else case fuel of 0 \<Rightarrow> bits | Suc k \<Rightarrow> popcount_loop k (m AND (m - 1)) (bits + 1))"

declare popcount_loop.simps [simp del]

definition hal_pin_check_consistency :: "'z hal_scheme \<Rightarrow> bool \<times> 'z hal_scheme" where
  "hal_pin_check_consistency h0 = (let h = ensure_initialised h0 in
     (list_all (\<lambda>pid. let c = claim_at pid h in
        hc_slot_mask c = 0 \<or> hc_mode c = HAL_PIN_MODE_GPIO_OUT \<or> \<not> popcount_loop 8 (hc_slot_mask c) 0 > 1) all_pins, h))"

text \<open>Reading: \<open>levels\<close> are the IN registers of the two groups, \<open>adc\<close> one conversion.\<close>

definition hal_pin_read :: "(8 word \<Rightarrow> 32 word) \<Rightarrow> 8 word \<Rightarrow> 'z hal_scheme \<Rightarrow> 8 word \<times> 'z hal_scheme" where
  "hal_pin_read levels phys_id h0 = (let h = ensure_initialised h0 in
     (if unat phys_id \<ge> HAL_PIN_TABLE_SIZE then 0
      else if levels (BOARD_PHYS_PIN_PORT phys_id) AND pin_mask (BOARD_PHYS_PIN_PIN phys_id) \<noteq> 0 then 1 else 0, h))"

definition hal_pin_read_adc :: "(8 word \<Rightarrow> 8 word \<Rightarrow> 8 word \<Rightarrow> 16 word) \<Rightarrow> 8 word \<Rightarrow> 'z hal_scheme \<Rightarrow> 16 word \<times> 'z hal_scheme" where
  "hal_pin_read_adc adc phys_id h0 = (let h = ensure_initialised h0 in
     if unat phys_id \<ge> HAL_PIN_TABLE_SIZE then (0, h)
     else let c = claim_at phys_id h in
       (if hc_mode c \<noteq> HAL_PIN_MODE_ADC_SCAN then 0
        else if hc_adc_channel c = 0xFF then 0
        else adc (hc_adc_channel c) (hc_oversample_exp c) (hc_sh_cyc c), h))"

end
