(* ===== verification/IL_Parse.thy ===== *)
theory IL_Parse
  imports IL_Pins
begin

text \<open>
  The recursive-descent parser of the interlock language (\<open>samd21_interlock_dsl.c\<close>).

  The parser's state is the text that is left; the C position is the length of the whole text minus
  the length of that. An identifier is the string its start and length delimit, the length being
  a byte. A parser function gives its status or its value, together with what is left, and the
  parsed interlock is passed along; its arrays with their counts are lists.
\<close>

section \<open>What the parser produces\<close>

definition IL_NAME_MAX :: nat where "IL_NAME_MAX = 16"
definition IL_DSL_MAX :: nat where "IL_DSL_MAX = 128"
definition IL_MAX_INPUTS :: nat where "IL_MAX_INPUTS = 4"
definition IL_MAX_WATCHES :: nat where "IL_MAX_WATCHES = 4"
definition IL_MAX_OUTPUTS :: nat where "IL_MAX_OUTPUTS = 2"

definition IL_PIN_MODE_IN :: "8 word" where "IL_PIN_MODE_IN = 0"
definition IL_PIN_MODE_IN_PU :: "8 word" where "IL_PIN_MODE_IN_PU = 1"
definition IL_PIN_MODE_IN_PD :: "8 word" where "IL_PIN_MODE_IN_PD = 2"
definition IL_PIN_MODE_OUT :: "8 word" where "IL_PIN_MODE_OUT = 3"
definition IL_PIN_MODE_ADC :: "8 word" where "IL_PIN_MODE_ADC = 4"
definition IL_PIN_MODE_VIRTUAL :: "8 word" where "IL_PIN_MODE_VIRTUAL = 5"

lemmas il_modes = IL_PIN_MODE_IN_def IL_PIN_MODE_IN_PU_def IL_PIN_MODE_IN_PD_def IL_PIN_MODE_OUT_def IL_PIN_MODE_ADC_def IL_PIN_MODE_VIRTUAL_def

definition IL_VIRT_T_SINCE_M2S :: "8 word" where "IL_VIRT_T_SINCE_M2S = 0xF0"
definition IL_VIRT_UPTIME :: "8 word" where "IL_VIRT_UPTIME = 0xF1"
definition IL_VIRT_STACK_HWM :: "8 word" where "IL_VIRT_STACK_HWM = 0xF2"

datatype il_compare_op = IL_OP_EQ | IL_OP_NE | IL_OP_LT | IL_OP_GT | IL_OP_LE | IL_OP_GE

definition IL_TF_UNEVALUATED :: "8 word" where "IL_TF_UNEVALUATED = 0"
definition IL_TF_TRUE :: "8 word" where "IL_TF_TRUE = 1"
definition IL_TF_FALSE :: "8 word" where "IL_TF_FALSE = 2"

record il_input =
  ii_phys_id :: "8 word"
  ii_mode :: "8 word"
  ii_oversample_exp :: "8 word"
  ii_sh_cyc :: "8 word"
  ii_debounce_depth :: "8 word"
  ii_hyst :: "16 word"

record il_watch =
  iw_input_idx :: nat
  iw_op :: il_compare_op
  iw_threshold :: "16 word"

record il_output =
  io_phys_id :: "8 word"
  io_ok_value :: "8 word"
  io_err_value :: "8 word"

record il_inst =
  in_name :: string
  in_tf_state :: "8 word"
  in_inputs :: "il_input list"
  in_watches :: "il_watch list"
  in_outputs :: "il_output list"

definition zero_inst :: il_inst where
  "zero_inst = \<lparr> in_name = [], in_tf_state = 0, in_inputs = [], in_watches = [], in_outputs = [] \<rparr>"

datatype il_parse_status = IL_PARSE_OK | IL_PARSE_UNEXPECTED_CHAR | IL_PARSE_UNEXPECTED_END | IL_PARSE_BAD_NUMBER
  | IL_PARSE_UNKNOWN_KEYWORD | IL_PARSE_UNKNOWN_PIN | IL_PARSE_UNKNOWN_MODE | IL_PARSE_TOO_MANY_INPUTS | IL_PARSE_TOO_MANY_WATCHES
  | IL_PARSE_TOO_MANY_OUTPUTS | IL_PARSE_NAME_TOO_LONG | IL_PARSE_DUPLICATE_PIN | IL_PARSE_WATCH_INPUT_UNDECL
  | IL_PARSE_OUTPUT_UNDECL | IL_PARSE_OUTPUT_VALUE_MISMATCH | IL_PARSE_MISSING_OUT_OK | IL_PARSE_MISSING_OUT_ERR | IL_PARSE_EMPTY
  | IL_PARSE_UNKNOWN_OP | IL_PARSE_OVERSAMPLE_OUT_OF_RANGE | IL_PARSE_SH_OUT_OF_RANGE | IL_PARSE_MODIFIER_ON_GPIO
  | IL_PARSE_THRESHOLD_OUT_OF_RANGE | IL_PARSE_HYST_NOT_ON_ADC | IL_PARSE_DEBOUNCE_NOT_ON_GPIO | IL_PARSE_DEBOUNCE_OUT_OF_RANGE
  | IL_PARSE_UNKNOWN_VIRTUAL | IL_PARSE_HYST_ON_EQ_NE

definition il_parse_statuses :: "il_parse_status list" where
  "il_parse_statuses = [IL_PARSE_OK, IL_PARSE_UNEXPECTED_CHAR, IL_PARSE_UNEXPECTED_END, IL_PARSE_BAD_NUMBER,
     IL_PARSE_UNKNOWN_KEYWORD, IL_PARSE_UNKNOWN_PIN, IL_PARSE_UNKNOWN_MODE, IL_PARSE_TOO_MANY_INPUTS, IL_PARSE_TOO_MANY_WATCHES,
     IL_PARSE_TOO_MANY_OUTPUTS, IL_PARSE_NAME_TOO_LONG, IL_PARSE_DUPLICATE_PIN, IL_PARSE_WATCH_INPUT_UNDECL,
     IL_PARSE_OUTPUT_UNDECL, IL_PARSE_OUTPUT_VALUE_MISMATCH, IL_PARSE_MISSING_OUT_OK, IL_PARSE_MISSING_OUT_ERR, IL_PARSE_EMPTY,
     IL_PARSE_UNKNOWN_OP, IL_PARSE_OVERSAMPLE_OUT_OF_RANGE, IL_PARSE_SH_OUT_OF_RANGE, IL_PARSE_MODIFIER_ON_GPIO,
     IL_PARSE_THRESHOLD_OUT_OF_RANGE, IL_PARSE_HYST_NOT_ON_ADC, IL_PARSE_DEBOUNCE_NOT_ON_GPIO, IL_PARSE_DEBOUNCE_OUT_OF_RANGE,
     IL_PARSE_UNKNOWN_VIRTUAL, IL_PARSE_HYST_ON_EQ_NE]"

text \<open>The number of a status is its place in the enumeration.\<close>

definition parse_code :: "il_parse_status \<Rightarrow> 8 word" where
  "parse_code st = of_nat (length (takeWhile (\<lambda>x. x \<noteq> st) il_parse_statuses))"

section \<open>Tokens\<close>

definition char_between :: "char \<Rightarrow> char \<Rightarrow> char \<Rightarrow> bool" where
  "char_between lo hi c = ((of_char lo :: nat) \<le> of_char c \<and> (of_char c :: nat) \<le> of_char hi)"

definition is_space :: "char \<Rightarrow> bool" where
  "is_space c = (c = CHR '' '' \<or> c = CHR 0x09 \<or> c = CHR 0x0D \<or> c = CHR 0x0A)"

definition skip_ws :: "string \<Rightarrow> string" where
  "skip_ws s = dropWhile is_space s"

text \<open>At the end \<open>peek\<close> gives NUL.\<close>

definition peek :: "string \<Rightarrow> char" where
  "peek s = (case s of [] \<Rightarrow> CHR 0x00 | c # _ \<Rightarrow> c)"

definition is_ident_start :: "char \<Rightarrow> bool" where
  "is_ident_start c = (char_between (CHR ''a'') (CHR ''z'') c \<or> char_between (CHR ''A'') (CHR ''Z'') c \<or> c = CHR ''_'')"

definition is_digit :: "char \<Rightarrow> bool" where
  "is_digit c = char_between (CHR ''0'') (CHR ''9'') c"

definition is_ident_cont :: "char \<Rightarrow> bool" where
  "is_ident_cont c = (is_ident_start c \<or> is_digit c)"

definition read_ident :: "string \<Rightarrow> string option \<times> string" where
  "read_ident s0 = (let s = skip_ws s0 in
     if s = [] \<or> \<not> is_ident_start (hd s) then (None, s)
     else let w = takeWhile is_ident_cont s in (Some (take (length w mod 256) w), dropWhile is_ident_cont s))"

definition digit_val :: "char \<Rightarrow> 32 word" where
  "digit_val c = of_nat (of_char c - of_char (CHR ''0''))"

definition hex_val :: "char \<Rightarrow> 32 word option" where
  "hex_val c = (if is_digit c then Some (digit_val c)
     else if char_between (CHR ''a'') (CHR ''f'') c then Some (of_nat (of_char c - of_char (CHR ''a'') + 10))
     else if char_between (CHR ''A'') (CHR ''F'') c then Some (of_nat (of_char c - of_char (CHR ''A'') + 10))
     else None)"

text \<open>The value is computed modulo 2 to the 32 and then truncated to 16 bits.\<close>

definition hex_number :: "string \<Rightarrow> 32 word" where
  "hex_number ds = fold (\<lambda>c v. push_bit 4 v OR the (hex_val c)) ds 0"

definition dec_number :: "string \<Rightarrow> 32 word" where
  "dec_number ds = fold (\<lambda>c v. v * 10 + digit_val c) ds 0"

definition read_number :: "string \<Rightarrow> 16 word option \<times> string" where
  "read_number s0 = (let s = skip_ws s0 in
     if s = [] then (None, s)
     else if length s \<ge> 2 \<and> s ! 0 = CHR ''0'' \<and> (s ! 1 = CHR ''x'' \<or> s ! 1 = CHR ''X'') then
       let t = drop 2 s; ds = takeWhile (\<lambda>c. hex_val c \<noteq> None) t
       in (if ds = [] then None else Some (ucast (hex_number ds)), drop (length ds) t)
     else let ds = takeWhile is_digit s in (if ds = [] then None else Some (ucast (dec_number ds)), drop (length ds) s))"

definition consume_char :: "char \<Rightarrow> string \<Rightarrow> bool \<times> string" where
  "consume_char want s0 = (let s = skip_ws s0 in
     if s = [] \<or> hd s \<noteq> want then (False, s) else (True, tl s))"

definition is_param_mod :: "string \<Rightarrow> string \<Rightarrow> bool" where
  "is_param_mod s lit_prefix = (length s > length lit_prefix \<and> take (length lit_prefix) s = lit_prefix \<and>
     list_all is_digit (drop (length lit_prefix) s))"

text \<open>The value of the digits, or \<open>None\<close> as soon as it exceeds 65535.\<close>

fun mod_value :: "32 word \<Rightarrow> string \<Rightarrow> 16 word option" where
  "mod_value v [] = Some (ucast v)"
| "mod_value v (c # cs) = (let v' = v * 10 + digit_val c in if v' > 65535 then None else mod_value v' cs)"

definition parse_param_mod_value :: "string \<Rightarrow> string \<Rightarrow> 16 word option" where
  "parse_param_mod_value s lit_prefix = mod_value 0 (drop (length lit_prefix) s)"

definition is_known_modifier :: "string \<Rightarrow> bool" where
  "is_known_modifier s = (s = ''in'' \<or> s = ''out'' \<or> s = ''adc'' \<or> s = ''up'' \<or> s = ''down'' \<or>
     is_param_mod s ''oversample_'' \<or> is_param_mod s ''sh_'' \<or> is_param_mod s ''hyst_'' \<or> is_param_mod s ''debounce_'')"

definition k_virt_pins :: "(string \<times> 8 word) list" where
  "k_virt_pins = [(''_t_since_m2s'', IL_VIRT_T_SINCE_M2S), (''_uptime'', IL_VIRT_UPTIME), (''_stack_hwm'', IL_VIRT_STACK_HWM)]"

definition virt_lookup :: "string \<Rightarrow> 8 word" where
  "virt_lookup s = (case map_of k_virt_pins s of Some v \<Rightarrow> v | None \<Rightarrow> 0xFF)"

definition samplenum_to_exp :: "16 word \<Rightarrow> 8 word" where
  "samplenum_to_exp n = (if n = 1 then 0 else if n = 2 then 1 else if n = 4 then 2 else if n = 8 then 3 else if n = 16 then 4 else 0xFF)"

section \<open>The cfg section\<close>

type_synonym 'a parsed = "(il_parse_status + 'a) \<times> string"

text \<open>The labels between parentheses; at most \<open>k\<close> more fit.\<close>

fun read_pins :: "nat \<Rightarrow> string \<Rightarrow> string list parsed" where
  "read_pins 0 s = (Inl IL_PARSE_TOO_MANY_INPUTS, s)"
| "read_pins (Suc k) s = (case read_ident s of
     (None, s1) \<Rightarrow> (Inl IL_PARSE_UNEXPECTED_CHAR, s1)
   | (Some lbl, s1) \<Rightarrow> (case consume_char (CHR '','') s1 of
       (True, s2) \<Rightarrow> (case read_pins k s2 of (Inl e, s3) \<Rightarrow> (Inl e, s3) | (Inr ls, s3) \<Rightarrow> (Inr (lbl # ls), s3))
     | (False, s2) \<Rightarrow> (case consume_char (CHR '')'') s2 of
         (True, s3) \<Rightarrow> (Inr [lbl], s3)
       | (False, s3) \<Rightarrow> (Inl IL_PARSE_UNEXPECTED_CHAR, s3))))"

definition read_pin_group :: "string \<Rightarrow> string list parsed" where
  "read_pin_group s0 = (case consume_char (CHR ''('') (skip_ws s0) of
     (True, s) \<Rightarrow> read_pins (IL_MAX_INPUTS + IL_MAX_OUTPUTS) s
   | (False, s) \<Rightarrow> (case read_ident s of
       (None, s1) \<Rightarrow> (Inl IL_PARSE_UNEXPECTED_CHAR, s1)
     | (Some lbl, s1) \<Rightarrow> (Inr [lbl], s1)))"

text \<open>
  The modes of a group, at most \<open>k\<close> more. The comma before the next group is consumed by the
  lookahead.
\<close>

fun read_mods :: "nat \<Rightarrow> string \<Rightarrow> string list parsed" where
  "read_mods 0 s = (Inl IL_PARSE_UNKNOWN_MODE, s)"
| "read_mods (Suc k) s = (case read_ident s of
     (None, s1) \<Rightarrow> (Inl IL_PARSE_UNEXPECTED_CHAR, s1)
   | (Some m, s1) \<Rightarrow> (case consume_char (CHR '','') s1 of
       (False, s2) \<Rightarrow> (Inr [m], s2)
     | (True, s2) \<Rightarrow> let s3 = skip_ws s2 in
         if peek s3 = CHR ''('' then (Inr [m], s3)
         else if \<not> is_ident_start (peek s3) then (Inr [m], s3)
         else (case read_ident s3 of
           (None, s4) \<Rightarrow> (Inl IL_PARSE_UNEXPECTED_CHAR, s4)
         | (Some n, s4) \<Rightarrow>
             if \<not> is_known_modifier n then (Inr [m], s3)
             else (case read_mods k s3 of (Inl e, s5) \<Rightarrow> (Inl e, s5) | (Inr ms, s5) \<Rightarrow> (Inr (m # ms), s5)))))"

record cfg_mode =
  cm_mode :: "8 word"
  cm_is_input :: bool
  cm_is_adc :: bool
  cm_oversample_exp :: "8 word"
  cm_sh_cyc :: "8 word"
  cm_hyst :: "16 word"
  cm_debounce :: "8 word"

definition first_mode :: "string \<Rightarrow> il_parse_status + cfg_mode" where
  "first_mode m = (let base = \<lparr> cm_mode = IL_PIN_MODE_IN, cm_is_input = True, cm_is_adc = False, cm_oversample_exp = 0, cm_sh_cyc = 4,
       cm_hyst = 0, cm_debounce = 0 \<rparr> in
     if m = ''in'' then Inr base
     else if m = ''out'' then Inr (base \<lparr> cm_mode := IL_PIN_MODE_OUT, cm_is_input := False \<rparr>)
     else if m = ''adc'' then Inr (base \<lparr> cm_mode := IL_PIN_MODE_ADC, cm_is_adc := True \<rparr>)
     else Inl IL_PARSE_UNKNOWN_MODE)"

definition adc_qualifier :: "string \<Rightarrow> cfg_mode \<Rightarrow> il_parse_status + cfg_mode" where
  "adc_qualifier ms cm =
     (if is_param_mod ms ''oversample_'' then (case parse_param_mod_value ms ''oversample_'' of
         None \<Rightarrow> Inl IL_PARSE_OVERSAMPLE_OUT_OF_RANGE
       | Some n \<Rightarrow> if samplenum_to_exp n = 0xFF then Inl IL_PARSE_OVERSAMPLE_OUT_OF_RANGE
           else Inr (cm \<lparr> cm_oversample_exp := samplenum_to_exp n \<rparr>))
      else if is_param_mod ms ''sh_'' then (case parse_param_mod_value ms ''sh_'' of
         None \<Rightarrow> Inl IL_PARSE_SH_OUT_OF_RANGE
       | Some n \<Rightarrow> if n > 63 then Inl IL_PARSE_SH_OUT_OF_RANGE else Inr (cm \<lparr> cm_sh_cyc := ucast n \<rparr>))
      else if is_param_mod ms ''hyst_'' then (case parse_param_mod_value ms ''hyst_'' of
         None \<Rightarrow> Inl IL_PARSE_THRESHOLD_OUT_OF_RANGE
       | Some n \<Rightarrow> Inr (cm \<lparr> cm_hyst := n \<rparr>))
      else if is_param_mod ms ''debounce_'' then Inl IL_PARSE_DEBOUNCE_NOT_ON_GPIO
      else Inl IL_PARSE_UNKNOWN_MODE)"

definition input_qualifier :: "string \<Rightarrow> cfg_mode \<Rightarrow> il_parse_status + cfg_mode" where
  "input_qualifier ms cm =
     (if ms = ''up'' then Inr (cm \<lparr> cm_mode := IL_PIN_MODE_IN_PU \<rparr>)
      else if ms = ''down'' then Inr (cm \<lparr> cm_mode := IL_PIN_MODE_IN_PD \<rparr>)
      else if is_param_mod ms ''debounce_'' then (case parse_param_mod_value ms ''debounce_'' of
         None \<Rightarrow> Inl IL_PARSE_DEBOUNCE_OUT_OF_RANGE
       | Some n \<Rightarrow> if n < 2 \<or> n > 15 then Inl IL_PARSE_DEBOUNCE_OUT_OF_RANGE else Inr (cm \<lparr> cm_debounce := ucast n \<rparr>))
      else if is_param_mod ms ''hyst_'' then Inl IL_PARSE_HYST_NOT_ON_ADC
      else if is_param_mod ms ''oversample_'' \<or> is_param_mod ms ''sh_'' then Inl IL_PARSE_MODIFIER_ON_GPIO
      else Inl IL_PARSE_UNKNOWN_MODE)"

definition out_qualifier :: "string \<Rightarrow> il_parse_status" where
  "out_qualifier ms =
     (if is_param_mod ms ''hyst_'' then IL_PARSE_HYST_NOT_ON_ADC
      else if is_param_mod ms ''debounce_'' then IL_PARSE_DEBOUNCE_NOT_ON_GPIO
      else if is_param_mod ms ''oversample_'' \<or> is_param_mod ms ''sh_'' then IL_PARSE_MODIFIER_ON_GPIO
      else IL_PARSE_UNKNOWN_MODE)"

fun qualifiers :: "string list \<Rightarrow> cfg_mode \<Rightarrow> il_parse_status + cfg_mode" where
  "qualifiers [] cm = Inr cm"
| "qualifiers (m # ms) cm =
     (case (if cm_is_adc cm then adc_qualifier m cm
            else if cm_is_input cm then input_qualifier m cm
            else Inl (out_qualifier m)) of
        Inl e \<Rightarrow> Inl e
      | Inr cm' \<Rightarrow> qualifiers ms cm')"

definition find_input_idx :: "il_inst \<Rightarrow> 8 word \<Rightarrow> nat option" where
  "find_input_idx inst pid = (let k = length (takeWhile (\<lambda>i. ii_phys_id i \<noteq> pid) (in_inputs inst)) in
     if k < length (in_inputs inst) then Some k else None)"

definition find_output_idx :: "il_inst \<Rightarrow> 8 word \<Rightarrow> nat option" where
  "find_output_idx inst pid = (let k = length (takeWhile (\<lambda>i. io_phys_id i \<noteq> pid) (in_outputs inst)) in
     if k < length (in_outputs inst) then Some k else None)"

definition record_pin :: "cfg_mode \<Rightarrow> string \<Rightarrow> il_inst \<Rightarrow> il_parse_status + il_inst" where
  "record_pin cm lbl inst = (case board_pin_lookup lbl of
     None \<Rightarrow> Inl IL_PARSE_UNKNOWN_PIN
   | Some bp \<Rightarrow> let pid = board_pin_phys_id bp in
       if find_input_idx inst pid \<noteq> None then Inl IL_PARSE_DUPLICATE_PIN
       else if find_output_idx inst pid \<noteq> None then Inl IL_PARSE_DUPLICATE_PIN
       else if cm_is_input cm then
         (if length (in_inputs inst) \<ge> IL_MAX_INPUTS then Inl IL_PARSE_TOO_MANY_INPUTS
          else Inr (inst \<lparr> in_inputs := in_inputs inst @ [\<lparr> ii_phys_id = pid, ii_mode = cm_mode cm,
            ii_oversample_exp = if cm_is_adc cm then cm_oversample_exp cm else 0,
            ii_sh_cyc = if cm_is_adc cm then cm_sh_cyc cm else 0,
            ii_debounce_depth = if cm_is_adc cm then 0 else cm_debounce cm,
            ii_hyst = if cm_is_adc cm then cm_hyst cm else 0 \<rparr>] \<rparr>))
       else if length (in_outputs inst) \<ge> IL_MAX_OUTPUTS then Inl IL_PARSE_TOO_MANY_OUTPUTS
       else Inr (inst \<lparr> in_outputs := in_outputs inst @ [\<lparr> io_phys_id = pid, io_ok_value = 0, io_err_value = 0 \<rparr>] \<rparr>))"

fun record_pins :: "cfg_mode \<Rightarrow> string list \<Rightarrow> il_inst \<Rightarrow> il_parse_status + il_inst" where
  "record_pins cm [] inst = Inr inst"
| "record_pins cm (l # ls) inst = (case record_pin cm l inst of Inl e \<Rightarrow> Inl e | Inr inst' \<Rightarrow> record_pins cm ls inst')"

text \<open>One group: its pins, a colon, its modes.\<close>

definition cfg_group :: "il_inst \<Rightarrow> string \<Rightarrow> il_inst parsed" where
  "cfg_group inst s0 = (case read_pin_group s0 of
     (Inl e, s1) \<Rightarrow> (Inl e, s1)
   | (Inr pins, s1) \<Rightarrow> (case consume_char (CHR '':'') s1 of
       (False, s2) \<Rightarrow> (Inl IL_PARSE_UNEXPECTED_CHAR, s2)
     | (True, s2) \<Rightarrow> (case read_mods 4 s2 of
         (Inl e, s3) \<Rightarrow> (Inl e, s3)
       | (Inr mods, s3) \<Rightarrow> (case first_mode (hd mods) of
           Inl e \<Rightarrow> (Inl e, s3)
         | Inr cm \<Rightarrow> (case qualifiers (tl mods) cm of
             Inl e \<Rightarrow> (Inl e, s3)
           | Inr cm' \<Rightarrow> (case record_pins cm' pins inst of Inl e \<Rightarrow> (Inl e, s3) | Inr inst' \<Rightarrow> (Inr inst', s3)))))))"

text \<open>No token function gives back more than it was given; these facts are what the loops end by.\<close>

lemma skip_ws_length: "length (skip_ws s) \<le> length s"
  by (simp add: skip_ws_def length_dropWhile_le)

lemma read_ident_length: "read_ident s = (r, s') \<Longrightarrow> length s' \<le> length s"
  using skip_ws_length [of s] length_dropWhile_le [of is_ident_cont "skip_ws s"]
  by (auto simp: read_ident_def Let_def split: if_splits)

lemma consume_length: "consume_char c s = (b, s') \<Longrightarrow> length s' \<le> length s"
  "consume_char c s = (True, s') \<Longrightarrow> length s' < length s"
  using skip_ws_length [of s] by (cases "skip_ws s"; auto simp: consume_char_def Let_def split: if_splits)+

lemma read_number_length: "read_number s = (r, s') \<Longrightarrow> length s' \<le> length s"
  using skip_ws_length [of s] by (auto simp: read_number_def Let_def split: if_splits)

lemma read_pins_length: "read_pins k s = (r, s') \<Longrightarrow> length s' \<le> length s"
  by (induction k arbitrary: s r s') (fastforce split: prod.splits option.splits bool.splits sum.splits dest!: read_ident_length consume_length(1))+

lemma read_pin_group_length: "read_pin_group s = (r, s') \<Longrightarrow> length s' \<le> length s"
  using skip_ws_length [of s]
  by (fastforce simp: read_pin_group_def split: prod.splits option.splits bool.splits dest!: read_ident_length consume_length(1) read_pins_length)

lemma read_mods_length: "read_mods k s = (r, s') \<Longrightarrow> length s' \<le> length s"
proof (induction k arbitrary: s r s')
  case (Suc k)
  show ?case using Suc.prems
    by (auto simp: Let_def split: prod.splits option.splits bool.splits sum.splits if_splits
        dest!: read_ident_length consume_length(1) Suc.IH)
      (meson order_trans skip_ws_length)+
qed simp

lemma cfg_group_length: "cfg_group inst s = (r, s') \<Longrightarrow> length s' \<le> length s"
  by (fastforce simp: cfg_group_def split: prod.splits bool.splits sum.splits
    dest!: read_pin_group_length consume_length(1) read_mods_length)

function parse_cfg :: "il_inst \<Rightarrow> string \<Rightarrow> il_inst parsed" where
  "parse_cfg inst s = (case cfg_group inst s of
     (Inl e, s1) \<Rightarrow> (Inl e, s1)
   | (Inr inst', s1) \<Rightarrow> (case consume_char (CHR '','') s1 of
       (True, s2) \<Rightarrow> parse_cfg inst' s2
     | (False, s2) \<Rightarrow> (Inr inst', s2)))"
  by auto
termination
  by (relation "measure (\<lambda>(_, s). length s)") (auto dest!: cfg_group_length [OF sym] consume_length(2) [OF sym])

section \<open>The watch and output sections\<close>

definition op_of :: "string \<Rightarrow> il_compare_op option" where
  "op_of s = (if s = ''eq'' then Some IL_OP_EQ else if s = ''ne'' then Some IL_OP_NE else if s = ''lt'' then Some IL_OP_LT
     else if s = ''gt'' then Some IL_OP_GT else if s = ''le'' then Some IL_OP_LE else if s = ''ge'' then Some IL_OP_GE else None)"

text \<open>The operator and its colon, if the next character is a letter; else an implicit equality.\<close>

definition watch_op :: "string \<Rightarrow> il_compare_op parsed" where
  "watch_op s0 = (let s = skip_ws s0 in
     if is_ident_start (peek s) then (case read_ident s of
       (None, s1) \<Rightarrow> (Inl IL_PARSE_UNEXPECTED_CHAR, s1)
     | (Some opstr, s1) \<Rightarrow> (case op_of opstr of
         None \<Rightarrow> (Inl IL_PARSE_UNKNOWN_OP, s1)
       | Some op \<Rightarrow> (case consume_char (CHR '':'') s1 of
           (False, s2) \<Rightarrow> (Inl IL_PARSE_UNEXPECTED_CHAR, s2)
         | (True, s2) \<Rightarrow> (Inr op, s2))))
     else (Inr IL_OP_EQ, s))"

definition virtual_input :: "8 word \<Rightarrow> il_input" where
  "virtual_input pid = \<lparr> ii_phys_id = pid, ii_mode = IL_PIN_MODE_VIRTUAL, ii_oversample_exp = 0, ii_sh_cyc = 0,
     ii_debounce_depth = 0, ii_hyst = 0 \<rparr>"

text \<open>The input a label names; a virtual one is declared by its first use.\<close>

definition watch_input :: "bool \<Rightarrow> string \<Rightarrow> il_inst \<Rightarrow> il_parse_status + nat \<times> il_inst" where
  "watch_input virt lbl inst =
     (if virt then let pid = virt_lookup lbl in
        if pid = 0xFF then Inl IL_PARSE_UNKNOWN_VIRTUAL
        else (case find_input_idx inst pid of
          Some i \<Rightarrow> Inr (i, inst)
        | None \<Rightarrow> if length (in_inputs inst) \<ge> IL_MAX_INPUTS then Inl IL_PARSE_TOO_MANY_INPUTS
            else Inr (length (in_inputs inst), inst \<lparr> in_inputs := in_inputs inst @ [virtual_input pid] \<rparr>))
      else (case board_pin_lookup lbl of
        None \<Rightarrow> Inl IL_PARSE_UNKNOWN_PIN
      | Some bp \<Rightarrow> (case find_input_idx inst (board_pin_phys_id bp) of
          None \<Rightarrow> Inl IL_PARSE_WATCH_INPUT_UNDECL
        | Some i \<Rightarrow> Inr (i, inst))))"

definition add_watch :: "nat \<Rightarrow> il_compare_op \<Rightarrow> 16 word \<Rightarrow> il_inst \<Rightarrow> il_parse_status + il_inst" where
  "add_watch i op v inst =
     (if ii_hyst (in_inputs inst ! i) \<noteq> 0 \<and> (op = IL_OP_EQ \<or> op = IL_OP_NE) then Inl IL_PARSE_HYST_ON_EQ_NE
      else if length (in_watches inst) \<ge> IL_MAX_WATCHES then Inl IL_PARSE_TOO_MANY_WATCHES
      else Inr (inst \<lparr> in_watches := in_watches inst @ [\<lparr> iw_input_idx = i, iw_op = op, iw_threshold = v \<rparr>] \<rparr>))"

definition watch_item :: "il_inst \<Rightarrow> string \<Rightarrow> il_inst parsed" where
  "watch_item inst s0 = (case read_ident s0 of
     (None, s1) \<Rightarrow> (Inl IL_PARSE_UNEXPECTED_CHAR, s1)
   | (Some lbl, s1) \<Rightarrow> (case consume_char (CHR '':'') s1 of
       (False, s2) \<Rightarrow> (Inl IL_PARSE_UNEXPECTED_CHAR, s2)
     | (True, s2) \<Rightarrow> (case watch_op s2 of
         (Inl e, s3) \<Rightarrow> (Inl e, s3)
       | (Inr op, s3) \<Rightarrow> (case read_number s3 of
           (None, s4) \<Rightarrow> (Inl IL_PARSE_BAD_NUMBER, s4)
         | (Some v, s4) \<Rightarrow> (case watch_input (peek (skip_ws s0) = CHR ''_'') lbl inst of
             Inl e \<Rightarrow> (Inl e, s4)
           | Inr (i, inst') \<Rightarrow> (case add_watch i op v inst' of Inl e \<Rightarrow> (Inl e, s4) | Inr inst'' \<Rightarrow> (Inr inst'', s4)))))))"

definition out_item :: "bool \<Rightarrow> il_inst \<Rightarrow> string \<Rightarrow> il_inst parsed" where
  "out_item is_ok inst s0 = (case read_ident s0 of
     (None, s1) \<Rightarrow> (Inl IL_PARSE_UNEXPECTED_CHAR, s1)
   | (Some lbl, s1) \<Rightarrow> (case consume_char (CHR '':'') s1 of
       (False, s2) \<Rightarrow> (Inl IL_PARSE_UNEXPECTED_CHAR, s2)
     | (True, s2) \<Rightarrow> (case read_number s2 of
         (None, s3) \<Rightarrow> (Inl IL_PARSE_BAD_NUMBER, s3)
       | (Some v, s3) \<Rightarrow>
           if v > 1 then (Inl IL_PARSE_BAD_NUMBER, s3)
           else (case board_pin_lookup lbl of
             None \<Rightarrow> (Inl IL_PARSE_UNKNOWN_PIN, s3)
           | Some bp \<Rightarrow> (case find_output_idx inst (board_pin_phys_id bp) of
               None \<Rightarrow> (Inl IL_PARSE_OUTPUT_UNDECL, s3)
             | Some i \<Rightarrow> (Inr (inst \<lparr> in_outputs := (in_outputs inst)[i :=
                 (if is_ok then (in_outputs inst ! i) \<lparr> io_ok_value := ucast v \<rparr>
                  else (in_outputs inst ! i) \<lparr> io_err_value := ucast v \<rparr>)] \<rparr>), s3))))))"

lemma watch_op_length: "watch_op s = (r, s') \<Longrightarrow> length s' \<le> length s"
  using skip_ws_length [of s]
  by (fastforce simp: watch_op_def Let_def split: prod.splits option.splits bool.splits if_splits dest!: read_ident_length consume_length(1))

lemma watch_item_length: "watch_item inst s = (r, s') \<Longrightarrow> length s' \<le> length s"
  by (fastforce simp: watch_item_def split: prod.splits option.splits bool.splits sum.splits
    dest!: read_ident_length consume_length(1) watch_op_length read_number_length)

lemma out_item_length: "out_item k inst s = (r, s') \<Longrightarrow> length s' \<le> length s"
  by (fastforce simp: out_item_def split: prod.splits option.splits bool.splits if_splits
    dest!: read_ident_length consume_length(1) read_number_length)

function parse_watch :: "il_inst \<Rightarrow> string \<Rightarrow> il_inst parsed" where
  "parse_watch inst s = (case watch_item inst s of
     (Inl e, s1) \<Rightarrow> (Inl e, s1)
   | (Inr inst', s1) \<Rightarrow> (case consume_char (CHR '','') s1 of
       (True, s2) \<Rightarrow> parse_watch inst' s2
     | (False, s2) \<Rightarrow> (Inr inst', s2)))"
  by auto
termination
  by (relation "measure (\<lambda>(_, s). length s)") (auto dest!: watch_item_length [OF sym] consume_length(2) [OF sym])

function parse_out_block :: "bool \<Rightarrow> il_inst \<Rightarrow> string \<Rightarrow> il_inst parsed" where
  "parse_out_block is_ok inst s = (case out_item is_ok inst s of
     (Inl e, s1) \<Rightarrow> (Inl e, s1)
   | (Inr inst', s1) \<Rightarrow> (case consume_char (CHR '','') s1 of
       (True, s2) \<Rightarrow> parse_out_block is_ok inst' s2
     | (False, s2) \<Rightarrow> (Inr inst', s2)))"
  by auto
termination
  by (relation "measure (\<lambda>(_, _, s). length s)") (auto dest!: out_item_length [OF sym] consume_length(2) [OF sym])

declare parse_cfg.simps [simp del] parse_watch.simps [simp del] parse_out_block.simps [simp del]

section \<open>The whole text\<close>

text \<open>What has been seen: \<open>out_ok\<close> and \<open>out_err\<close>.\<close>

record sections =
  sc_inst :: il_inst
  sc_seen_out_ok :: bool
  sc_seen_out_err :: bool

definition section_body :: "string \<Rightarrow> sections \<Rightarrow> string \<Rightarrow> sections parsed" where
  "section_body kw sc s =
     (if kw = ''cfg'' then (case parse_cfg (sc_inst sc) s of (Inl e, s1) \<Rightarrow> (Inl e, s1) | (Inr i, s1) \<Rightarrow> (Inr (sc \<lparr> sc_inst := i \<rparr>), s1))
      else if kw = ''watch'' then (case parse_watch (sc_inst sc) s of (Inl e, s1) \<Rightarrow> (Inl e, s1) | (Inr i, s1) \<Rightarrow> (Inr (sc \<lparr> sc_inst := i \<rparr>), s1))
      else if kw = ''out_ok'' then (case parse_out_block True (sc_inst sc) s of
        (Inl e, s1) \<Rightarrow> (Inl e, s1) | (Inr i, s1) \<Rightarrow> (Inr (sc \<lparr> sc_inst := i, sc_seen_out_ok := True \<rparr>), s1))
      else if kw = ''out_err'' then (case parse_out_block False (sc_inst sc) s of
        (Inl e, s1) \<Rightarrow> (Inl e, s1) | (Inr i, s1) \<Rightarrow> (Inr (sc \<lparr> sc_inst := i, sc_seen_out_err := True \<rparr>), s1))
      else (Inl IL_PARSE_UNKNOWN_KEYWORD, s))"

text \<open>A section after its semicolon.\<close>

definition parse_section :: "sections \<Rightarrow> string \<Rightarrow> sections parsed" where
  "parse_section sc s0 = (case read_ident s0 of
     (None, s1) \<Rightarrow> (Inl IL_PARSE_UNEXPECTED_CHAR, s1)
   | (Some kw, s1) \<Rightarrow> (case consume_char (CHR ''['') s1 of
       (False, s2) \<Rightarrow> (Inl IL_PARSE_UNEXPECTED_CHAR, s2)
     | (True, s2) \<Rightarrow> (case section_body kw sc s2 of
         (Inl e, s3) \<Rightarrow> (Inl e, s3)
       | (Inr sc', s3) \<Rightarrow> (case consume_char (CHR '']'') s3 of
           (False, s4) \<Rightarrow> (Inl IL_PARSE_UNEXPECTED_CHAR, s4)
         | (True, s4) \<Rightarrow> (Inr sc', s4)))))"

lemma parse_cfg_length: "parse_cfg inst s = (r, s') \<Longrightarrow> length s' \<le> length s"
proof (induction inst s arbitrary: r s' rule: parse_cfg.induct)
  case (1 inst s)
  then show ?case
    by (fastforce simp: parse_cfg.simps [of inst s] split: prod.splits sum.splits bool.splits dest: cfg_group_length consume_length(1))
qed

lemma parse_watch_length: "parse_watch inst s = (r, s') \<Longrightarrow> length s' \<le> length s"
proof (induction inst s arbitrary: r s' rule: parse_watch.induct)
  case (1 inst s)
  then show ?case
    by (fastforce simp: parse_watch.simps [of inst s] split: prod.splits sum.splits bool.splits dest: watch_item_length consume_length(1))
qed

lemma parse_out_block_length: "parse_out_block k inst s = (r, s') \<Longrightarrow> length s' \<le> length s"
proof (induction k inst s arbitrary: r s' rule: parse_out_block.induct)
  case (1 k inst s)
  then show ?case
    by (fastforce simp: parse_out_block.simps [of k inst s] split: prod.splits sum.splits bool.splits dest: out_item_length consume_length(1))
qed

lemma section_body_length: "section_body kw sc s = (r, s') \<Longrightarrow> length s' \<le> length s"
  by (auto simp: section_body_def split: if_splits prod.splits sum.splits dest!: parse_cfg_length parse_watch_length parse_out_block_length)

lemma parse_section_length: "parse_section sc s = (r, s') \<Longrightarrow> length s' \<le> length s"
  by (fastforce simp: parse_section_def split: prod.splits sum.splits bool.splits option.splits
    dest!: read_ident_length consume_length(1) section_body_length)

function parse_sections :: "sections \<Rightarrow> string \<Rightarrow> sections parsed" where
  "parse_sections sc s = (case consume_char (CHR '';'') s of
     (False, s1) \<Rightarrow> (Inr sc, s1)
   | (True, s1) \<Rightarrow> (case parse_section sc s1 of
       (Inl e, s2) \<Rightarrow> (Inl e, s2)
     | (Inr sc', s2) \<Rightarrow> parse_sections sc' s2))"
  by auto
termination
  by (relation "measure (\<lambda>(_, s). length s)") (auto dest!: parse_section_length [OF sym] consume_length(2) [OF sym])

declare parse_sections.simps [simp del]

definition final_check :: "sections \<Rightarrow> il_parse_status" where
  "final_check sc = (let inst = sc_inst sc in
     if in_outputs inst = [] then IL_PARSE_OK
     else if \<not> sc_seen_out_ok sc then IL_PARSE_MISSING_OUT_OK
     else if \<not> sc_seen_out_err sc then IL_PARSE_MISSING_OUT_ERR
     else if list_ex (\<lambda>o'. io_ok_value o' = io_err_value o') (in_outputs inst) then IL_PARSE_OUTPUT_VALUE_MISMATCH
     else IL_PARSE_OK)"

text \<open>
  The whole parse: a parsed interlock, or a status with the offset of the error where the code
  writes one.
\<close>

definition il_parse :: "string \<Rightarrow> (il_parse_status \<times> nat option) + il_inst" where
  "il_parse text = (let at = (\<lambda>rest. Some (length text - length rest)) in
     if text = [] then Inl (IL_PARSE_EMPTY, None)
     else (case read_ident text of
       (None, s) \<Rightarrow> Inl (IL_PARSE_UNEXPECTED_CHAR, at s)
     | (Some name, s) \<Rightarrow>
         if length name \<ge> IL_NAME_MAX then Inl (IL_PARSE_NAME_TOO_LONG, at s)
         else (case parse_sections \<lparr> sc_inst = zero_inst \<lparr> in_name := name \<rparr>, sc_seen_out_ok = False, sc_seen_out_err = False \<rparr> s of
           (Inl e, s1) \<Rightarrow> Inl (e, at s1)
         | (Inr sc, s1) \<Rightarrow> let s2 = skip_ws s1 in
             if s2 \<noteq> [] then Inl (IL_PARSE_UNEXPECTED_CHAR, at s2)
             else if final_check sc \<noteq> IL_PARSE_OK then Inl (final_check sc, None)
             else Inr ((sc_inst sc) \<lparr> in_tf_state := IL_TF_UNEVALUATED \<rparr>))))"

end
