(* ===== verification/IL_Slots.thy ===== *)
theory IL_Slots
  imports IL_Parse Bus_Frame
begin

text \<open>
  The interlock framework of the SAMD21 slave (\<open>samd21_interlocks.c\<close>): two slots, each empty, armed with
  an interlock or poisoned, in memory that a reset keeps; the boot decision; arming and disarming;
  the tick that evaluates the armed slots, drives the outputs and reports.

  The environment of a tick (clock, pin levels, ADC, stack mark) is an argument. A panic records
  the crash and resets the chip, so that it does not return; what it leaves in the kept memory is
  \<open>panic_record\<close>.
\<close>

section \<open>State\<close>

definition INTERLOCK_MAGIC :: "32 word" where "INTERLOCK_MAGIC = 0xCD51AC73"
definition INTERLOCK_MAX_SLOTS :: nat where "INTERLOCK_MAX_SLOTS = 2"
definition INTERLOCK_MAX_BOOT_ATTEMPTS :: "8 word" where "INTERLOCK_MAX_BOOT_ATTEMPTS = 3"
definition INTERLOCK_ID_NONE :: "8 word" where "INTERLOCK_ID_NONE = 0"
definition INTERLOCK_ID_NOOP :: "8 word" where "INTERLOCK_ID_NOOP = 1"
definition INTERLOCK_ID_DSL :: "8 word" where "INTERLOCK_ID_DSL = 2"
definition INTERLOCK_CRASHED_SLOT_NONE :: "8 word" where "INTERLOCK_CRASHED_SLOT_NONE = 0xFF"
definition INTERLOCK_PERSIST_VERSION :: "8 word" where "INTERLOCK_PERSIST_VERSION = 5"
definition INTERLOCK_SLOT_EMPTY :: "8 word" where "INTERLOCK_SLOT_EMPTY = 0"
definition INTERLOCK_SLOT_ARMED :: "8 word" where "INTERLOCK_SLOT_ARMED = 1"
definition INTERLOCK_SLOT_POISONED :: "8 word" where "INTERLOCK_SLOT_POISONED = 2"
definition IL_STATUS_BUFFER_VERSION :: "8 word" where "IL_STATUS_BUFFER_VERSION = 1"
definition IL_STATUS_SLOT_NAME_MAX :: nat where "IL_STATUS_SLOT_NAME_MAX = 8"
definition PANIC_NONE :: "8 word" where "PANIC_NONE = 0"
definition PANIC_PERSIST_MAGIC_BAD :: "8 word" where "PANIC_PERSIST_MAGIC_BAD = 2"
definition PANIC_PERSIST_VERSION_BAD :: "8 word" where "PANIC_PERSIST_VERSION_BAD = 3"
definition PANIC_PERSIST_SIZE_BAD :: "8 word" where "PANIC_PERSIST_SIZE_BAD = 4"
definition SHELL_STATUS_OK :: "8 word" where "SHELL_STATUS_OK = 0"
definition SHELL_STATUS_BAD_ARGS :: "8 word" where "SHELL_STATUS_BAD_ARGS = 2"
definition SHELL_STATUS_BUSY :: "8 word" where "SHELL_STATUS_BUSY = 5"
definition OP_EVENT :: "16 word" where "OP_EVENT = 0x0013"

lemmas slot_states = INTERLOCK_SLOT_EMPTY_def INTERLOCK_SLOT_ARMED_def INTERLOCK_SLOT_POISONED_def
lemmas slot_ids = INTERLOCK_ID_NONE_def INTERLOCK_ID_NOOP_def INTERLOCK_ID_DSL_def
lemmas shell_statuses = SHELL_STATUS_OK_def SHELL_STATUS_BAD_ARGS_def SHELL_STATUS_BUSY_def

text \<open>\<open>sizeof(interlock_persist_t)\<close> on the target.\<close>

definition PERSIST_SIZE :: "16 word" where "PERSIST_SIZE = 448"

record slot_persist =
  sl_state :: "8 word"
  sl_id :: "8 word"
  sl_boot_counter :: "8 word"

record crash_record =
  cr_last_pc :: "32 word"
  cr_last_lr :: "32 word"
  cr_last_rstsr :: "32 word"
  cr_last_crashed_slot :: "8 word"
  cr_panic_code :: "8 word"
  cr_panic_arg :: "32 word"
  cr_panic_sp :: "32 word"

record persist =
  ip_magic :: "32 word"
  ip_version :: "8 word"
  ip_self_size :: "16 word"
  ip_slots :: "slot_persist list"
  ip_crash :: crash_record
  ip_inst :: "il_inst list"
  ip_dsl_len :: "16 word list"
  ip_dsl_text :: "string list"

record status_slot =
  ss_state :: "8 word"
  ss_id :: "8 word"
  ss_tf :: "8 word"
  ss_bc :: "8 word"
  ss_name :: string
  ss_veto_mask :: "8 word"

record status_buffer =
  sb_version :: "8 word"
  sb_num_slots :: "8 word"
  sb_status_seq :: "16 word"
  sb_crash_panic_code :: "8 word"
  sb_stack_hwm_bytes :: "16 word"
  sb_slots :: "status_slot list"
  sb_input_vals :: "16 word list list"

record interlocks =
  il_hal :: hal
  il_persist :: persist
  il_active_slot :: "8 word"
  il_status :: status_buffer
  il_shift_reg :: "16 word list list"
  il_debounced :: "8 word list list"
  il_last_pass :: "8 word list list"
  il_tx :: frame_ring
  il_repush_req :: bool

record il_env =
  ie_millis :: "32 word"
  ie_last_m2s_rx_ms :: "32 word"
  ie_stack_hwm_bytes :: "16 word"
  ie_levels :: "8 word \<Rightarrow> 32 word"
  ie_adc :: "8 word \<Rightarrow> 8 word \<Rightarrow> 8 word \<Rightarrow> 16 word"

type_synonym 'a iact = "(interlocks, 'a) act"

text \<open>The slots as indices, and their fields.\<close>

definition slot_indices :: "8 word list" where
  "slot_indices = map of_nat [0..<INTERLOCK_MAX_SLOTS]"

definition slot_of :: "8 word \<Rightarrow> interlocks \<Rightarrow> slot_persist" where
  "slot_of slot st = ip_slots (il_persist st) ! unat slot"

definition inst_of :: "8 word \<Rightarrow> interlocks \<Rightarrow> il_inst" where
  "inst_of slot st = ip_inst (il_persist st) ! unat slot"

definition upd_persist :: "(persist \<Rightarrow> persist) \<Rightarrow> interlocks \<Rightarrow> interlocks" where
  "upd_persist f st = st \<lparr> il_persist := f (il_persist st) \<rparr>"

definition upd_slot_persist :: "8 word \<Rightarrow> (slot_persist \<Rightarrow> slot_persist) \<Rightarrow> interlocks \<Rightarrow> interlocks" where
  "upd_slot_persist slot f = upd_persist (\<lambda>p. p \<lparr> ip_slots := (ip_slots p)[unat slot := f (ip_slots p ! unat slot)] \<rparr>)"

definition set_inst :: "8 word \<Rightarrow> il_inst \<Rightarrow> interlocks \<Rightarrow> interlocks" where
  "set_inst slot inst = upd_persist (\<lambda>p. p \<lparr> ip_inst := (ip_inst p)[unat slot := inst] \<rparr>)"

definition set_active :: "8 word \<Rightarrow> interlocks \<Rightarrow> interlocks" where
  "set_active slot st = st \<lparr> il_active_slot := slot \<rparr>"

definition upd_hal :: "(hal \<Rightarrow> hal) \<Rightarrow> interlocks \<Rightarrow> interlocks" where
  "upd_hal f st = st \<lparr> il_hal := f (il_hal st) \<rparr>"

definition clear_slot_runtime :: "8 word \<Rightarrow> interlocks \<Rightarrow> interlocks" where
  "clear_slot_runtime slot st = st \<lparr>
     il_shift_reg := (il_shift_reg st)[unat slot := replicate IL_MAX_INPUTS 0],
     il_debounced := (il_debounced st)[unat slot := replicate IL_MAX_INPUTS 0],
     il_last_pass := (il_last_pass st)[unat slot := replicate IL_MAX_WATCHES 0] \<rparr>"

section \<open>The registry of compiled interlocks\<close>

definition interlock_set_slot_tf :: "8 word \<Rightarrow> 8 word \<Rightarrow> interlocks \<Rightarrow> interlocks" where
  "interlock_set_slot_tf slot tf st =
     (if unat slot \<ge> INTERLOCK_MAX_SLOTS then st else set_inst slot ((inst_of slot st) \<lparr> in_tf_state := tf \<rparr>) st)"

record interlock_def =
  id_name :: string
  id_init :: "8 word \<Rightarrow> interlocks \<Rightarrow> interlocks"
  id_tick :: "8 word \<Rightarrow> interlocks \<Rightarrow> interlocks"
  id_terminate :: "8 word \<Rightarrow> interlocks \<Rightarrow> interlocks"

definition noop_init :: "8 word \<Rightarrow> interlocks \<Rightarrow> interlocks" where "noop_init slot st = st"
definition noop_tick :: "8 word \<Rightarrow> interlocks \<Rightarrow> interlocks" where "noop_tick slot = interlock_set_slot_tf slot IL_TF_TRUE"
definition noop_terminate :: "8 word \<Rightarrow> interlocks \<Rightarrow> interlocks" where "noop_terminate slot st = st"

definition g_interlocks :: "interlock_def list" where
  "g_interlocks = [\<lparr> id_name = ''noop'', id_init = noop_init, id_tick = noop_tick, id_terminate = noop_terminate \<rparr>]"

definition g_interlock_count :: "8 word" where
  "g_interlock_count = of_nat (length g_interlocks)"

definition registered :: "8 word \<Rightarrow> interlock_def" where
  "registered i = g_interlocks ! (unat i - 1)"

section \<open>The kept memory\<close>

definition slot_valid :: "persist \<Rightarrow> 8 word \<Rightarrow> bool" where
  "slot_valid p i = (let s = ip_slots p ! unat i; L = ip_dsl_len p ! unat i in
     \<not> sl_state s > INTERLOCK_SLOT_POISONED \<and>
     (sl_id s = INTERLOCK_ID_NONE \<or> sl_id s = INTERLOCK_ID_NOOP \<or> sl_id s = INTERLOCK_ID_DSL) \<and>
     \<not> (sl_state s = INTERLOCK_SLOT_ARMED \<and> sl_id s = INTERLOCK_ID_NONE) \<and>
     \<not> (sl_state s = INTERLOCK_SLOT_ARMED \<and> sl_id s = INTERLOCK_ID_DSL \<and> (L = 0 \<or> unat L \<ge> IL_DSL_MAX)))"

definition persist_is_valid :: "persist \<Rightarrow> bool" where
  "persist_is_valid p = (ip_magic p = INTERLOCK_MAGIC \<and> ip_version p = INTERLOCK_PERSIST_VERSION \<and> ip_self_size p = PERSIST_SIZE \<and>
     list_all (slot_valid p) slot_indices \<and>
     (cr_last_crashed_slot (ip_crash p) = INTERLOCK_CRASHED_SLOT_NONE \<or> unat (cr_last_crashed_slot (ip_crash p)) < INTERLOCK_MAX_SLOTS))"

definition panic_record :: "8 word \<Rightarrow> 32 word \<Rightarrow> 32 word \<Rightarrow> 32 word \<Rightarrow> 32 word \<Rightarrow> interlocks \<Rightarrow> interlocks" where
  "panic_record code arg pc rcause sp st = upd_persist (\<lambda>p. p \<lparr> ip_crash := (ip_crash p) \<lparr> cr_last_pc := pc, cr_last_lr := 0,
     cr_last_rstsr := rcause, cr_last_crashed_slot := il_active_slot st, cr_panic_arg := arg, cr_panic_sp := sp, cr_panic_code := code \<rparr> \<rparr>) st"

definition panic :: "8 word \<Rightarrow> 32 word \<Rightarrow> 'a iact" where
  "panic code arg = excA (''panic '' @ [char_of (48 + unat code)])"

text \<open>The stack frame of the exception: LR and PC are words 5 and 6.\<close>

definition interlock_hardfault_record :: "32 word list \<Rightarrow> 32 word \<Rightarrow> interlocks \<Rightarrow> interlocks" where
  "interlock_hardfault_record msp rcause st = upd_persist (\<lambda>p. p \<lparr> ip_crash := (ip_crash p) \<lparr> cr_last_pc := msp ! 6, cr_last_lr := msp ! 5,
     cr_last_rstsr := rcause, cr_last_crashed_slot := il_active_slot st, cr_panic_code := PANIC_NONE \<rparr> \<rparr>) st"

definition verify_persist_or_panic :: "unit iact" where
  "verify_persist_or_panic = (\<lambda>st. let p = il_persist st in
     if ip_magic p \<noteq> INTERLOCK_MAGIC then panic PANIC_PERSIST_MAGIC_BAD (ip_magic p) st
     else if ip_version p \<noteq> INTERLOCK_PERSIST_VERSION then panic PANIC_PERSIST_VERSION_BAD (ucast (ip_version p)) st
     else if ip_self_size p \<noteq> PERSIST_SIZE then panic PANIC_PERSIST_SIZE_BAD (ucast (ip_self_size p)) st
     else Ret ((), st))"

definition no_crash :: crash_record where
  "no_crash = \<lparr> cr_last_pc = 0, cr_last_lr = 0, cr_last_rstsr = 0, cr_last_crashed_slot = INTERLOCK_CRASHED_SLOT_NONE,
     cr_panic_code = PANIC_NONE, cr_panic_arg = 0, cr_panic_sp = 0 \<rparr>"

definition persist_cold_init :: persist where
  "persist_cold_init = \<lparr> ip_magic = INTERLOCK_MAGIC, ip_version = INTERLOCK_PERSIST_VERSION, ip_self_size = PERSIST_SIZE,
     ip_slots = replicate INTERLOCK_MAX_SLOTS \<lparr> sl_state = INTERLOCK_SLOT_EMPTY, sl_id = INTERLOCK_ID_NONE, sl_boot_counter = 0 \<rparr>,
     ip_crash = no_crash, ip_inst = replicate INTERLOCK_MAX_SLOTS zero_inst, ip_dsl_len = replicate INTERLOCK_MAX_SLOTS 0,
     ip_dsl_text = replicate INTERLOCK_MAX_SLOTS (replicate IL_DSL_MAX (CHR 0x00)) \<rparr>"

definition boot_slot :: "slot_persist \<Rightarrow> slot_persist" where
  "boot_slot s = (if sl_state s = INTERLOCK_SLOT_ARMED then
       if sl_boot_counter s \<ge> INTERLOCK_MAX_BOOT_ATTEMPTS then s \<lparr> sl_state := INTERLOCK_SLOT_POISONED \<rparr>
       else s \<lparr> sl_boot_counter := sl_boot_counter s + 1 \<rparr>
     else s)"

definition boot_decided :: "persist \<Rightarrow> persist" where
  "boot_decided p = (if \<not> persist_is_valid p then persist_cold_init else p \<lparr> ip_slots := map boot_slot (ip_slots p) \<rparr>)"

definition interlock_boot_decide :: "interlocks \<Rightarrow> interlocks" where
  "interlock_boot_decide = upd_persist boot_decided"

definition interlock_armed_count :: "interlocks \<Rightarrow> nat" where
  "interlock_armed_count st = length (filter (\<lambda>i. sl_state (slot_of i st) = INTERLOCK_SLOT_ARMED) slot_indices)"

definition interlock_summary_flags :: "interlocks \<Rightarrow> 8 word" where
  "interlock_summary_flags st = (let sb = il_status st in
     if list_ex (\<lambda>i. i < sb_num_slots sb \<and> ss_state (sb_slots sb ! unat i) = INTERLOCK_SLOT_ARMED \<and>
       ss_tf (sb_slots sb ! unat i) = IL_TF_FALSE) slot_indices then 1 else 0)"

definition interlock_request_repush :: "interlocks \<Rightarrow> interlocks" where
  "interlock_request_repush st = st \<lparr> il_repush_req := True \<rparr>"

definition interlock_take_repush :: "interlocks \<Rightarrow> bool \<times> interlocks" where
  "interlock_take_repush st = (il_repush_req st, st \<lparr> il_repush_req := False \<rparr>)"

section \<open>Reading the slots\<close>

definition interlock_get_slot :: "8 word \<Rightarrow> slot_persist option iact" where
  "interlock_get_slot slot = seqA verify_persist_or_panic
     (getA (\<lambda>st. if unat slot \<ge> INTERLOCK_MAX_SLOTS then None else Some (slot_of slot st)))"

definition interlock_get_crash :: "crash_record iact" where
  "interlock_get_crash = seqA verify_persist_or_panic (getA (\<lambda>st. ip_crash (il_persist st)))"

text \<open>A name in a field of \<open>n\<close> characters, filled up with NULs.\<close>

definition padded :: "nat \<Rightarrow> string \<Rightarrow> string" where
  "padded n s = take n (s @ replicate n (CHR 0x00))"

definition chars :: "string \<Rightarrow> 8 word list" where
  "chars = map (\<lambda>c. of_nat (of_char c))"

definition le32_bytes :: "32 word \<Rightarrow> 8 word list" where
  "le32_bytes w = [ucast w, ucast (drop_bit 8 w), ucast (drop_bit 16 w), ucast (drop_bit 24 w)]"

definition status_v2_slot :: "8 word \<Rightarrow> 8 word list iact" where
  "status_v2_slot i = bindA (interlock_get_slot i) (\<lambda>r. case r of
     None \<Rightarrow> trapA (Fault ''null slot'')
   | Some s \<Rightarrow> getA (\<lambda>st.
       let tf = (if sl_id s = INTERLOCK_ID_DSL then in_tf_state (inst_of i st) else 0);
           nm = (if sl_id s = INTERLOCK_ID_DSL then in_name (inst_of i st) else if sl_id s = INTERLOCK_ID_NOOP then ''noop'' else [])
       in [sl_state s, sl_id s, sl_boot_counter s, tf] @ chars (padded IL_NAME_MAX nm)))"

definition interlock_build_status_v2 :: "8 word list iact" where
  "interlock_build_status_v2 = bindA (mapA status_v2_slot slot_indices) (\<lambda>slots. bindA interlock_get_crash (\<lambda>c.
     retA ([2, of_nat INTERLOCK_MAX_SLOTS] @ concat slots @ le32_bytes (cr_last_pc c) @ le32_bytes (cr_last_lr c) @
       le32_bytes (cr_last_rstsr c) @ [cr_last_crashed_slot c])))"

section \<open>Arming and disarming\<close>

definition interlock_arm_slot_compiled :: "8 word \<Rightarrow> 8 word \<Rightarrow> 8 word iact" where
  "interlock_arm_slot_compiled slot i = seqA verify_persist_or_panic (\<lambda>st.
     if unat slot \<ge> INTERLOCK_MAX_SLOTS then Ret (SHELL_STATUS_BAD_ARGS, st)
     else if i = INTERLOCK_ID_NONE then Ret (SHELL_STATUS_BAD_ARGS, st)
     else if i = INTERLOCK_ID_DSL then Ret (SHELL_STATUS_BAD_ARGS, st)
     else if i > g_interlock_count then Ret (SHELL_STATUS_BAD_ARGS, st)
     else if sl_state (slot_of slot st) = INTERLOCK_SLOT_ARMED then Ret (SHELL_STATUS_BUSY, st)
     else Ret (SHELL_STATUS_OK, set_active INTERLOCK_CRASHED_SLOT_NONE (id_init (registered i) slot (set_active slot
       (clear_slot_runtime slot (set_inst slot zero_inst
         (upd_slot_persist slot (\<lambda>s. s \<lparr> sl_state := INTERLOCK_SLOT_ARMED, sl_id := i, sl_boot_counter := 0 \<rparr>) st)))))))"

definition interlock_arm_slot_noop :: "8 word \<Rightarrow> 8 word iact" where
  "interlock_arm_slot_noop slot = interlock_arm_slot_compiled slot INTERLOCK_ID_NOOP"

definition disarm_terminate :: "8 word \<Rightarrow> interlocks \<Rightarrow> interlocks" where
  "disarm_terminate slot st = (let s = slot_of slot st in
     if sl_state s = INTERLOCK_SLOT_ARMED \<and> sl_id s \<noteq> INTERLOCK_ID_NONE \<and> sl_id s \<noteq> INTERLOCK_ID_DSL \<and> sl_id s \<le> g_interlock_count
     then set_active INTERLOCK_CRASHED_SLOT_NONE (id_terminate (registered (sl_id s)) slot (set_active slot st))
     else st)"

definition interlock_disarm_slot :: "8 word \<Rightarrow> 8 word iact" where
  "interlock_disarm_slot slot = seqA verify_persist_or_panic (\<lambda>st.
     if unat slot \<ge> INTERLOCK_MAX_SLOTS then Ret (SHELL_STATUS_BAD_ARGS, st)
     else Ret (SHELL_STATUS_OK, clear_slot_runtime slot
       (upd_persist (\<lambda>p. p \<lparr> ip_dsl_len := (ip_dsl_len p)[unat slot := 0] \<rparr>)
       (set_inst slot zero_inst
       (upd_slot_persist slot (\<lambda>s. s \<lparr> sl_state := INTERLOCK_SLOT_EMPTY, sl_id := INTERLOCK_ID_NONE, sl_boot_counter := 0 \<rparr>)
       (upd_hal (hal_pin_release_slot slot) (disarm_terminate slot st)))))))"

definition map_input_mode :: "8 word \<Rightarrow> 8 word" where
  "map_input_mode m = (if m = IL_PIN_MODE_IN then HAL_PIN_MODE_GPIO_IN
     else if m = IL_PIN_MODE_IN_PU then HAL_PIN_MODE_GPIO_IN_PU
     else if m = IL_PIN_MODE_IN_PD then HAL_PIN_MODE_GPIO_IN_PD
     else if m = IL_PIN_MODE_ADC then HAL_PIN_MODE_ADC_SCAN
     else HAL_PIN_MODE_UNCLAIMED)"

text \<open>The loops stop at the first claim that fails.\<close>

definition claim_input :: "8 word \<Rightarrow> il_input \<Rightarrow> hal \<Rightarrow> hal_pin_claim_status \<times> hal" where
  "claim_input slot i h =
     (if ii_mode i = IL_PIN_MODE_VIRTUAL then (HAL_PIN_CLAIM_OK, h)
      else if ii_mode i = IL_PIN_MODE_ADC then hal_pin_claim_adc (ii_phys_id i) slot (ii_oversample_exp i) (ii_sh_cyc i) h
      else if map_input_mode (ii_mode i) = HAL_PIN_MODE_UNCLAIMED then (HAL_PIN_CLAIM_BAD_MODE, h)
      else hal_pin_claim (ii_phys_id i) slot (map_input_mode (ii_mode i)) h)"

definition claim_one_output :: "8 word \<Rightarrow> il_output \<Rightarrow> hal \<Rightarrow> hal_pin_claim_status \<times> hal" where
  "claim_one_output slot out h = hal_pin_claim_output (io_phys_id out) slot (io_ok_value out) (io_err_value out) h"

fun claim_each :: "('i \<Rightarrow> hal \<Rightarrow> hal_pin_claim_status \<times> hal) \<Rightarrow> 'i list \<Rightarrow> hal \<Rightarrow> hal_pin_claim_status \<times> hal" where
  "claim_each f [] h = (HAL_PIN_CLAIM_OK, h)"
| "claim_each f (x # xs) h = (case f x h of (cs, h') \<Rightarrow> if cs \<noteq> HAL_PIN_CLAIM_OK then (cs, h') else claim_each f xs h')"

definition claim_inst_pins :: "8 word \<Rightarrow> il_inst \<Rightarrow> hal \<Rightarrow> hal_pin_claim_status \<times> hal" where
  "claim_inst_pins slot inst h = (case claim_each (claim_input slot) (in_inputs inst) h of (cs, h1) \<Rightarrow>
     if cs \<noteq> HAL_PIN_CLAIM_OK then (cs, hal_pin_release_slot slot h1)
     else (case claim_each (claim_one_output slot) (in_outputs inst) h1 of (cs', h2) \<Rightarrow>
       if cs' \<noteq> HAL_PIN_CLAIM_OK then (cs', hal_pin_release_slot slot h2) else (HAL_PIN_CLAIM_OK, h2)))"

text \<open>The answer carries the three bytes of the error payload.\<close>

definition store_text :: "8 word \<Rightarrow> string \<Rightarrow> interlocks \<Rightarrow> interlocks" where
  "store_text slot text = upd_persist (\<lambda>p. p \<lparr> ip_dsl_len := (ip_dsl_len p)[unat slot := of_nat (length text)],
     ip_dsl_text := (ip_dsl_text p)[unat slot := text @ [CHR 0x00] @ drop (length text + 1) (ip_dsl_text p ! unat slot)] \<rparr>)"

definition interlock_set_slot_dsl :: "8 word \<Rightarrow> string \<Rightarrow> (8 word \<times> 8 word list) iact" where
  "interlock_set_slot_dsl slot text = seqA verify_persist_or_panic (\<lambda>st.
     if unat slot \<ge> INTERLOCK_MAX_SLOTS then Ret ((SHELL_STATUS_BAD_ARGS, [0, 0, 0]), st)
     else if text = [] \<or> length text \<ge> IL_DSL_MAX then Ret ((SHELL_STATUS_BAD_ARGS, [0, 0, 0]), st)
     else if sl_state (slot_of slot st) = INTERLOCK_SLOT_ARMED then Ret ((SHELL_STATUS_BUSY, [0, 0, 0]), st)
     else (case il_parse text of
       Inl (pst, off) \<Rightarrow> let o' = (case off of None \<Rightarrow> 0 | Some n \<Rightarrow> n) in
         Ret ((SHELL_STATUS_BAD_ARGS, [parse_code pst, of_nat (o' mod 256), of_nat (o' div 256 mod 256)]), st)
     | Inr parsed \<Rightarrow> (case claim_inst_pins slot parsed (il_hal st) of (cs, h) \<Rightarrow>
         if cs \<noteq> HAL_PIN_CLAIM_OK then Ret ((SHELL_STATUS_BUSY, [0xFF, claim_code cs, 0]), st \<lparr> il_hal := h \<rparr>)
         else Ret ((SHELL_STATUS_OK, [0, 0, 0]), clear_slot_runtime slot
           (upd_slot_persist slot (\<lambda>s. s \<lparr> sl_state := INTERLOCK_SLOT_ARMED, sl_id := INTERLOCK_ID_DSL, sl_boot_counter := 0 \<rparr>)
           (store_text slot text (set_inst slot parsed (st \<lparr> il_hal := h \<rparr>))))))))"

definition poison :: "8 word \<Rightarrow> interlocks \<Rightarrow> interlocks" where
  "poison slot = upd_slot_persist slot (\<lambda>s. s \<lparr> sl_state := INTERLOCK_SLOT_POISONED \<rparr>)"

definition restore_slot :: "8 word \<Rightarrow> interlocks \<Rightarrow> interlocks" where
  "restore_slot slot st = (let s = slot_of slot st in
     if sl_state s \<noteq> INTERLOCK_SLOT_ARMED then st
     else if sl_id s \<noteq> INTERLOCK_ID_DSL then clear_slot_runtime slot
       (if sl_id s \<noteq> INTERLOCK_ID_NONE \<and> sl_id s \<le> g_interlock_count
        then set_active INTERLOCK_CRASHED_SLOT_NONE (id_init (registered (sl_id s)) slot (set_active slot st)) else st)
     else let L = ip_dsl_len (il_persist st) ! unat slot in
       if L = 0 \<or> unat L \<ge> IL_DSL_MAX then poison slot st
       else (case il_parse (take (unat L) (ip_dsl_text (il_persist st) ! unat slot)) of
         Inl _ \<Rightarrow> poison slot st
       | Inr parsed \<Rightarrow> (case claim_inst_pins slot parsed (il_hal st) of (cs, h) \<Rightarrow>
           if cs \<noteq> HAL_PIN_CLAIM_OK then poison slot (st \<lparr> il_hal := h \<rparr>)
           else clear_slot_runtime slot (set_inst slot (parsed \<lparr> in_tf_state := IL_TF_UNEVALUATED \<rparr>) (st \<lparr> il_hal := h \<rparr>)))))"

definition interlock_warm_restore :: "unit iact" where
  "interlock_warm_restore = seqA verify_persist_or_panic (modA (fold restore_slot slot_indices))"

section \<open>Evaluation\<close>

definition seconds_capped :: "32 word \<Rightarrow> 16 word" where
  "seconds_capped ms = (if ms div 1000 > 65535 then 65535 else ucast (ms div 1000))"

definition read_virtual_input :: "il_env \<Rightarrow> 8 word \<Rightarrow> 16 word" where
  "read_virtual_input env virt_id =
     (if virt_id = IL_VIRT_T_SINCE_M2S then seconds_capped (ie_millis env - ie_last_m2s_rx_ms env)
      else if virt_id = IL_VIRT_UPTIME then seconds_capped (ie_millis env)
      else if virt_id = IL_VIRT_STACK_HWM then ie_stack_hwm_bytes env
      else 0)"

definition set2 :: "'a list list \<Rightarrow> nat \<Rightarrow> nat \<Rightarrow> 'a \<Rightarrow> 'a list list" where
  "set2 xss i j x = xss[i := (xss ! i)[j := x]]"

definition debounce_mask :: "8 word \<Rightarrow> 16 word" where
  "debounce_mask depth = ucast (push_bit (unat depth) (1 :: 32 word) - 1)"

definition debounce :: "nat \<Rightarrow> nat \<Rightarrow> 8 word \<Rightarrow> 16 word \<Rightarrow> interlocks \<Rightarrow> 16 word \<times> interlocks" where
  "debounce slot i depth raw st =
     (let m = debounce_mask depth;
          sr = (push_bit 1 (il_shift_reg st ! slot ! i) OR (raw AND 1)) AND m;
          deb = (if sr = m then 1 else if sr = 0 then 0 else il_debounced st ! slot ! i)
      in (ucast deb, st \<lparr> il_shift_reg := set2 (il_shift_reg st) slot i sr, il_debounced := set2 (il_debounced st) slot i deb \<rparr>))"

definition sample :: "il_env \<Rightarrow> nat \<Rightarrow> nat \<Rightarrow> il_input \<Rightarrow> interlocks \<Rightarrow> 16 word \<times> interlocks" where
  "sample env slot i inp st =
     (if ii_mode inp = IL_PIN_MODE_ADC then
        (case hal_pin_read_adc (ie_adc env) (ii_phys_id inp) (il_hal st) of (v, h) \<Rightarrow> (v, st \<lparr> il_hal := h \<rparr>))
      else if ii_mode inp = IL_PIN_MODE_VIRTUAL then (read_virtual_input env (ii_phys_id inp), st)
      else (case hal_pin_read (ie_levels env) (ii_phys_id inp) (il_hal st) of (v, h) \<Rightarrow>
        let raw = ucast (v AND 1); st1 = st \<lparr> il_hal := h \<rparr>
        in if ii_debounce_depth inp \<ge> 2 then debounce slot i (ii_debounce_depth inp) raw st1 else (raw, st1)))"

fun sample_inputs :: "il_env \<Rightarrow> nat \<Rightarrow> nat \<Rightarrow> il_input list \<Rightarrow> interlocks \<Rightarrow> 16 word list \<times> interlocks" where
  "sample_inputs env slot i [] st = ([], st)"
| "sample_inputs env slot i (inp # rest) st = (case sample env slot i inp st of (v, st1) \<Rightarrow>
     (case sample_inputs env slot (i + 1) rest st1 of (vs, st2) \<Rightarrow> (v # vs, st2)))"

text \<open>The threshold a watch that passed the last time is held to.\<close>

definition watch_threshold :: "16 word \<Rightarrow> 8 word \<Rightarrow> il_compare_op \<Rightarrow> 16 word \<Rightarrow> 16 word" where
  "watch_threshold hyst passed op t =
     (if hyst \<noteq> 0 \<and> passed \<noteq> 0 then (case op of
          IL_OP_GT \<Rightarrow> if t > hyst then t - hyst else 0
        | IL_OP_GE \<Rightarrow> if t > hyst then t - hyst else 0
        | IL_OP_LT \<Rightarrow> if unat t + unat hyst > 65535 then 65535 else t + hyst
        | IL_OP_LE \<Rightarrow> if unat t + unat hyst > 65535 then 65535 else t + hyst
        | _ \<Rightarrow> t)
      else t)"

definition watch_pass :: "il_compare_op \<Rightarrow> 16 word \<Rightarrow> 16 word \<Rightarrow> 16 word \<Rightarrow> bool" where
  "watch_pass op v t teff = (case op of IL_OP_EQ \<Rightarrow> v = t | IL_OP_NE \<Rightarrow> v \<noteq> t | IL_OP_LT \<Rightarrow> v < teff | IL_OP_GT \<Rightarrow> v > teff
     | IL_OP_LE \<Rightarrow> v \<le> teff | IL_OP_GE \<Rightarrow> v \<ge> teff)"

definition eval_watch :: "nat \<Rightarrow> nat \<Rightarrow> il_inst \<Rightarrow> 16 word list \<Rightarrow> il_watch \<Rightarrow> interlocks \<Rightarrow> bool \<times> interlocks" where
  "eval_watch slot i inst vals w st =
     (let hyst = ii_hyst (in_inputs inst ! iw_input_idx w);
          teff = watch_threshold hyst (il_last_pass st ! slot ! i) (iw_op w) (iw_threshold w);
          pass = watch_pass (iw_op w) (vals ! iw_input_idx w) (iw_threshold w) teff
      in (pass, st \<lparr> il_last_pass := set2 (il_last_pass st) slot i (if pass then 1 else 0) \<rparr>))"

fun eval_watches :: "nat \<Rightarrow> nat \<Rightarrow> il_inst \<Rightarrow> 16 word list \<Rightarrow> il_watch list \<Rightarrow> interlocks \<Rightarrow> bool \<times> interlocks" where
  "eval_watches slot i inst vals [] st = (True, st)"
| "eval_watches slot i inst vals (w # ws) st = (case eval_watch slot i inst vals w st of (pass, st1) \<Rightarrow>
     (case eval_watches slot (i + 1) inst vals ws st1 of (rest, st2) \<Rightarrow> (pass \<and> rest, st2)))"

definition eval_slot :: "il_env \<Rightarrow> 8 word \<Rightarrow> interlocks \<Rightarrow> interlocks" where
  "eval_slot env slot st =
     (let inst = inst_of slot st in
      case sample_inputs env (unat slot) 0 (in_inputs inst) (set_active slot st) of (vs, st1) \<Rightarrow>
        let vals = vs @ replicate (IL_MAX_INPUTS - length vs) 0;
            st2 = st1 \<lparr> il_status := (il_status st1) \<lparr> sb_input_vals := (sb_input_vals (il_status st1))[unat slot := vals] \<rparr> \<rparr>
        in case eval_watches (unat slot) 0 inst vals (in_watches inst) st2 of (all_pass, st3) \<Rightarrow>
          set_inst slot (inst \<lparr> in_tf_state := if all_pass then IL_TF_TRUE else IL_TF_FALSE \<rparr>) st3)"

section \<open>The tick\<close>

definition on_tx :: "(frame_ring, 'a) act \<Rightarrow> 'a iact" where
  "on_tx m = (\<lambda>st. res_bind (m (il_tx st)) (\<lambda>(x, r). Ret (x, st \<lparr> il_tx := r \<rparr>)))"

definition event_payload :: "16 word \<Rightarrow> 8 word \<Rightarrow> 8 word \<Rightarrow> 8 word \<Rightarrow> 8 word \<Rightarrow> 8 word \<Rightarrow> 8 word list" where
  "event_payload sq slot old_state new_state old_tf new_tf =
     [ucast (sq AND 0xFF), ucast (drop_bit 8 sq AND 0xFF), slot, new_state, new_tf, push_bit 4 (old_state AND 0x0F) OR (old_tf AND 0x0F)]"

definition emit_op_event :: "16 word \<Rightarrow> 8 word \<Rightarrow> 8 word \<Rightarrow> 8 word \<Rightarrow> 8 word \<Rightarrow> 8 word \<Rightarrow> unit iact" where
  "emit_op_event sq slot old_state new_state old_tf new_tf = bindA (on_tx (frame_encode_s2m
     \<lparr> fm_addr = 1, fm_cmd = OP_EVENT, fm_seq = ucast (sq AND 0xFF), fm_ack_seq = 0, fm_ack_status = 0, fm_payload_len = 6 \<rparr>
     (event_payload sq slot old_state new_state old_tf new_tf))) (\<lambda>_. retA ())"

definition tick_slot :: "il_env \<Rightarrow> 8 word \<Rightarrow> interlocks \<Rightarrow> interlocks" where
  "tick_slot env slot st = (let s = slot_of slot st in
     if sl_state s \<noteq> INTERLOCK_SLOT_ARMED then st
     else if sl_id s = INTERLOCK_ID_DSL then eval_slot env slot st
     else if sl_id s \<noteq> INTERLOCK_ID_NONE \<and> sl_id s \<le> g_interlock_count then id_tick (registered (sl_id s)) slot (set_active slot st)
     else st)"

definition vetoes :: "interlocks \<Rightarrow> 8 word \<Rightarrow> bool" where
  "vetoes st slot = (sl_state (slot_of slot st) = INTERLOCK_SLOT_ARMED \<and> in_tf_state (inst_of slot st) = IL_TF_FALSE)"

definition veto_mask :: "interlocks \<Rightarrow> 8 word" where
  "veto_mask st = fold (\<lambda>slot m. if vetoes st slot then m OR slot_bit slot else m) slot_indices 0"

text \<open>The status of one slot; a change of state or result takes the next number and is announced.\<close>

definition slot_status :: "8 word \<Rightarrow> 8 word \<Rightarrow> interlocks \<Rightarrow> status_slot" where
  "slot_status veto slot st = (let s = slot_of slot st; armed = (sl_state s = INTERLOCK_SLOT_ARMED) in
     \<lparr> ss_state = sl_state s, ss_id = sl_id s, ss_tf = if armed then in_tf_state (inst_of slot st) else IL_TF_UNEVALUATED,
       ss_bc = sl_boot_counter s,
       ss_name = if armed \<and> sl_id s = INTERLOCK_ID_DSL then padded IL_STATUS_SLOT_NAME_MAX (in_name (inst_of slot st))
         else if armed \<and> sl_id s \<noteq> INTERLOCK_ID_NONE \<and> sl_id s \<le> g_interlock_count
         then padded IL_STATUS_SLOT_NAME_MAX (id_name (registered (sl_id s)))
         else padded IL_STATUS_SLOT_NAME_MAX [],
       ss_veto_mask = drop_bit (unat slot) veto AND 1 \<rparr>)"

definition report_slot :: "8 word \<Rightarrow> 8 word \<Rightarrow> 16 word \<Rightarrow> 16 word iact" where
  "report_slot veto slot sq = (\<lambda>st.
     let new = slot_status veto slot st; old = sb_slots (il_status st) ! unat slot;
         changed = (ss_state old \<noteq> ss_state new \<or> ss_tf old \<noteq> ss_tf new);
         sq' = (if changed then sq + 1 else sq)
     in seqA (if changed then emit_op_event sq' slot (ss_state old) (ss_state new) (ss_tf old) (ss_tf new) else retA ())
         (seqA (modA (\<lambda>t. t \<lparr> il_status := (il_status t) \<lparr> sb_slots := (sb_slots (il_status t))[unat slot := new] \<rparr> \<rparr>)) (retA sq')) st)"

fun report_slots :: "8 word \<Rightarrow> 8 word list \<Rightarrow> 16 word \<Rightarrow> 16 word iact" where
  "report_slots veto [] sq = retA sq"
| "report_slots veto (slot # rest) sq = bindA (report_slot veto slot sq) (report_slots veto rest)"

definition report :: "il_env \<Rightarrow> 8 word \<Rightarrow> unit iact" where
  "report env veto = bindA (getA (\<lambda>st. sb_status_seq (il_status st))) (\<lambda>sq. bindA (report_slots veto slot_indices sq) (\<lambda>sq'.
     modA (\<lambda>st. st \<lparr> il_status := (il_status st) \<lparr> sb_version := IL_STATUS_BUFFER_VERSION, sb_num_slots := of_nat INTERLOCK_MAX_SLOTS,
       sb_status_seq := sq', sb_crash_panic_code := cr_panic_code (ip_crash (il_persist st)),
       sb_stack_hwm_bytes := ie_stack_hwm_bytes env \<rparr> \<rparr>)))"

definition interlock_tick_all :: "il_env \<Rightarrow> unit iact" where
  "interlock_tick_all env = seqA verify_persist_or_panic
     (seqA (modA (\<lambda>st. set_active INTERLOCK_CRASHED_SLOT_NONE (fold (tick_slot env) slot_indices st)))
     (bindA (getA veto_mask) (\<lambda>veto. seqA (modA (upd_hal (hal_pin_drive_outputs veto))) (report env veto))))"

section \<open>The boot line\<close>

text \<open>The text so far and the size of the buffer; a character needs room for itself and a NUL.\<close>

definition emit_str :: "nat \<Rightarrow> string \<Rightarrow> string \<Rightarrow> string" where
  "emit_str cap s dst = dst @ take (cap - 1 - length dst) s"

definition hex_digit :: "32 word \<Rightarrow> char" where
  "hex_digit v = ''0123456789abcdef'' ! unat v"

definition emit_hex32 :: "nat \<Rightarrow> 32 word \<Rightarrow> string \<Rightarrow> string" where
  "emit_hex32 cap v dst = (if length dst + 10 \<ge> cap then dst
     else dst @ ''0x'' @ map (\<lambda>i. hex_digit (drop_bit (i * 4) v AND 0xF)) [7, 6, 5, 4, 3, 2, 1, 0])"

fun dec_digits :: "nat \<Rightarrow> nat \<Rightarrow> string" where
  "dec_digits 0 v = []"
| "dec_digits (Suc k) v = (if v = 0 then [] else char_of (48 + v mod 10) # dec_digits k (v div 10))"

definition emit_dec_small :: "nat \<Rightarrow> 8 word \<Rightarrow> string \<Rightarrow> string" where
  "emit_dec_small cap v dst = emit_str cap (if v = 0 then ''0'' else rev (dec_digits 4 (unat v))) dst"

definition slot_state_char :: "8 word \<Rightarrow> char" where
  "slot_state_char state = (if state = INTERLOCK_SLOT_EMPTY then CHR ''E'' else if state = INTERLOCK_SLOT_ARMED then CHR ''A''
     else if state = INTERLOCK_SLOT_POISONED then CHR ''P'' else CHR ''?'')"

definition boot_line_slot :: "nat \<Rightarrow> interlocks \<Rightarrow> 8 word \<Rightarrow> string \<Rightarrow> string" where
  "boot_line_slot cap st i p0 = (let s = slot_of i st in
     emit_dec_small cap (sl_boot_counter s) (emit_str cap '':'' (emit_dec_small cap (sl_id s) (emit_str cap '':''
       (emit_str cap [slot_state_char (sl_state s)] (emit_str cap ''='' (emit_dec_small cap i (emit_str cap '' sl'' p0))))))))"

definition interlock_format_boot_line :: "nat \<Rightarrow> interlocks \<Rightarrow> string" where
  "interlock_format_boot_line cap st = (if cap = 0 then [] else
     let c = ip_crash (il_persist st);
         p1 = fold (boot_line_slot cap st) slot_indices (emit_str cap ''[BOOT_IL]'' []);
         p2 = emit_hex32 cap (cr_last_pc c) (emit_str cap '' pc='' p1);
         p3 = emit_hex32 cap (cr_last_lr c) (emit_str cap '' lr='' p2);
         p4 = emit_str cap '' cs='' (emit_hex32 cap (cr_last_rstsr c) (emit_str cap '' rs='' p3));
         p5 = (if cr_last_crashed_slot c = INTERLOCK_CRASHED_SLOT_NONE then emit_str cap ''-'' p4
           else emit_dec_small cap (cr_last_crashed_slot c) p4)
     in if cr_panic_code c = PANIC_NONE then p5
        else emit_hex32 cap (cr_panic_sp c) (emit_str cap '' psp='' (emit_hex32 cap (cr_panic_arg c) (emit_str cap '' pa=''
          (emit_dec_small cap (cr_panic_code c) (emit_str cap '' pn='' p5))))))"

section \<open>Reset\<close>

text \<open>
  A reset keeps the kept memory; the rest of the RAM and the port registers start afresh. Then the
  firmware decides about the slots and restores the armed ones.
\<close>

definition hal_at_reset :: hal where
  "hal_at_reset = \<lparr> hp_claims = replicate HAL_PIN_TABLE_SIZE (no_claim \<lparr> hc_adc_channel := 0 \<rparr>), hp_claims_initialised = False,
     hp_group = replicate 2 \<lparr> pg_dir = 0, pg_out = 0, pg_pincfg = replicate 32 \<lparr> pc_pmuxen = False, pc_inen = False, pc_pullen = False \<rparr> \<rparr> \<rparr>"

definition status_at_reset :: status_buffer where
  "status_at_reset = \<lparr> sb_version = 0, sb_num_slots = 0, sb_status_seq = 0, sb_crash_panic_code = 0, sb_stack_hwm_bytes = 0,
     sb_slots = replicate INTERLOCK_MAX_SLOTS \<lparr> ss_state = 0, ss_id = 0, ss_tf = 0, ss_bc = 0, ss_name = replicate 8 (CHR 0x00), ss_veto_mask = 0 \<rparr>,
     sb_input_vals = replicate INTERLOCK_MAX_SLOTS (replicate IL_MAX_INPUTS 0) \<rparr>"

definition ram_at_reset :: "persist \<Rightarrow> frame_ring \<Rightarrow> interlocks" where
  "ram_at_reset p tx = \<lparr> il_hal = hal_at_reset, il_persist = p, il_active_slot = INTERLOCK_CRASHED_SLOT_NONE, il_status = status_at_reset,
     il_shift_reg = replicate INTERLOCK_MAX_SLOTS (replicate IL_MAX_INPUTS 0), il_debounced = replicate INTERLOCK_MAX_SLOTS (replicate IL_MAX_INPUTS 0),
     il_last_pass = replicate INTERLOCK_MAX_SLOTS (replicate IL_MAX_WATCHES 0), il_tx = tx, il_repush_req = False \<rparr>"

definition boot :: "persist \<Rightarrow> frame_ring \<Rightarrow> (unit \<times> interlocks) res" where
  "boot p tx = seqA (modA interlock_boot_decide) interlock_warm_restore (ram_at_reset p tx)"

end
