(* ===== verification/IL_Claims.thy ===== *)
theory IL_Claims
  imports IL_Pins
begin

text \<open>
  The claim table keeps its promises: inputs and ADC pins have one owner, the sharers of an output
  agree on its two values, reserved pins are never touched, and driving the outputs sets exactly
  the pins that are claimed as outputs.
\<close>

section \<open>Pins and their bits\<close>

lemma phys_index:
  assumes "unat pid < HAL_PIN_TABLE_SIZE"
  shows "unat (BOARD_PHYS_PIN_PORT pid) = unat pid div 32" "unat (BOARD_PHYS_PIN_PORT pid) < 2"
    "unat (BOARD_PHYS_PIN_PIN pid) = unat pid mod 32" "unat (BOARD_PHYS_PIN_PIN pid) < 32"
proof -
  show p: "unat (BOARD_PHYS_PIN_PORT pid) = unat pid div 32"
    by (simp add: BOARD_PHYS_PIN_PORT_def drop_bit_eq_div unat_div)
  show "unat (BOARD_PHYS_PIN_PORT pid) < 2" using assms p by (simp add: HAL_PIN_TABLE_SIZE_def)
  have "pid AND 0x1F = take_bit 5 pid" by (simp add: take_bit_eq_mask mask_eq_decr_exp)
  then show q: "unat (BOARD_PHYS_PIN_PIN pid) = unat pid mod 32"
    by (simp add: BOARD_PHYS_PIN_PIN_def take_bit_eq_mod unat_mod)
  show "unat (BOARD_PHYS_PIN_PIN pid) < 32" using q by simp
qed

lemma same_place:
  assumes "unat p < HAL_PIN_TABLE_SIZE" "unat q < HAL_PIN_TABLE_SIZE"
  shows "(unat (BOARD_PHYS_PIN_PORT p) = unat (BOARD_PHYS_PIN_PORT q) \<and> unat (BOARD_PHYS_PIN_PIN p) = unat (BOARD_PHYS_PIN_PIN q)) = (p = q)"
  using phys_index [OF assms(1)] phys_index [OF assms(2)] by (metis div_mod_decomp word_unat_eq_iff)

lemma all_pins_set: "set all_pins = {pid. unat pid < HAL_PIN_TABLE_SIZE}"
proof -
  have "pid \<in> set all_pins" if "unat pid < HAL_PIN_TABLE_SIZE" for pid
    using that unfolding all_pins_def by (auto intro!: image_eqI [of _ _ "unat pid"])
  moreover have "unat pid < HAL_PIN_TABLE_SIZE" if "pid \<in> set all_pins" for pid
    using that by (auto simp: all_pins_def HAL_PIN_TABLE_SIZE_def unat_of_nat)
  ultimately show ?thesis by blast
qed

lemma all_pins_distinct: "distinct all_pins"
  by (auto simp: all_pins_def distinct_map HAL_PIN_TABLE_SIZE_def unat_of_nat intro!: inj_onI dest!: arg_cong [of _ _ unat])

definition out_bit :: "8 word \<Rightarrow> 'z hal_scheme \<Rightarrow> bool" where
  "out_bit pid h = bit (pg_out (hp_group h ! unat (BOARD_PHYS_PIN_PORT pid))) (unat (BOARD_PHYS_PIN_PIN pid))"

definition dir_bit :: "8 word \<Rightarrow> 'z hal_scheme \<Rightarrow> bool" where
  "dir_bit pid h = bit (pg_dir (hp_group h ! unat (BOARD_PHYS_PIN_PORT pid))) (unat (BOARD_PHYS_PIN_PIN pid))"

lemma bit_pin_mask: "bit (pin_mask pin) k = (k = unat pin \<and> k < 32)"
  by (auto simp: pin_mask_def bit_exp_iff)

lemma group_regs [simp]:
  "pg_out (dirset m g) = pg_out g" "pg_out (dirclr m g) = pg_out g" "pg_dir (outset m g) = pg_dir g" "pg_dir (outclr m g) = pg_dir g"
  "pg_out (upd_cfg p f g) = pg_out g" "pg_dir (upd_cfg p f g) = pg_dir g"
  "pg_dir (dirset m g) = pg_dir g OR m" "pg_dir (dirclr m g) = pg_dir g AND NOT m"
  "pg_out (outset m g) = pg_out g OR m" "pg_out (outclr m g) = pg_out g AND NOT m"
  by (simp_all add: dirset_def dirclr_def outset_def outclr_def upd_cfg_def)

lemma upd_group_simps [simp]:
  "hp_claims (upd_group port f h) = hp_claims h" "hp_claims_initialised (upd_group port f h) = hp_claims_initialised h"
  "length (hp_group (upd_group port f h)) = length (hp_group h)" "claim_at q (upd_group port f h) = claim_at q h"
  "hal.more (upd_group port f h) = hal.more h"
  by (simp_all add: upd_group_def claim_at_def)

lemma set_claim_simps [simp]:
  "hp_group (set_claim p f h) = hp_group h" "hp_claims_initialised (set_claim p f h) = hp_claims_initialised h"
  "length (hp_claims (set_claim p f h)) = length (hp_claims h)" "out_bit q (set_claim p f h) = out_bit q h"
  "dir_bit q (set_claim p f h) = dir_bit q h" "hal.more (set_claim p f h) = hal.more h"
  by (simp_all add: set_claim_def out_bit_def dir_bit_def)

lemma claim_at_set: "unat p < length (hp_claims h) \<Longrightarrow> claim_at q (set_claim p f h) = (if q = p then f (claim_at p h) else claim_at q h)"
  by (auto simp: claim_at_def set_claim_def nth_list_update word_unat_eq_iff)

section \<open>The invariant of the claim table\<close>

definition usable :: "8 word \<Rightarrow> bool" where
  "usable pid = (case find_board_pin pid of None \<Rightarrow> False | Some bp \<Rightarrow> \<not> board_pin_is_reserved bp)"

definition one_slot :: "8 word \<Rightarrow> bool" where
  "one_slot m = list_ex (\<lambda>k. m = push_bit k 1) [0..<8]"

definition claim_ok :: "8 word \<Rightarrow> 'z hal_scheme \<Rightarrow> bool" where
  "claim_ok pid h = (let c = claim_at pid h in
     if hc_slot_mask c = 0 then hc_mode c = HAL_PIN_MODE_UNCLAIMED
     else usable pid \<and>
       (if hc_mode c = HAL_PIN_MODE_GPIO_OUT then hc_ok_value c \<noteq> hc_err_value c \<and> hc_ok_value c \<le> 1 \<and> hc_err_value c \<le> 1 \<and> dir_bit pid h
        else hc_mode c \<in> {HAL_PIN_MODE_GPIO_IN, HAL_PIN_MODE_GPIO_IN_PU, HAL_PIN_MODE_GPIO_IN_PD, HAL_PIN_MODE_ADC_SCAN} \<and>
          one_slot (hc_slot_mask c)))"

definition hal_ok :: "'z hal_scheme \<Rightarrow> bool" where
  "hal_ok h = (length (hp_group h) = 2 \<and>
     (hp_claims_initialised h \<longrightarrow> length (hp_claims h) = HAL_PIN_TABLE_SIZE \<and> list_all (\<lambda>pid. claim_ok pid h) all_pins))"

definition hal_up :: "'z hal_scheme \<Rightarrow> bool" where
  "hal_up h = (hal_ok h \<and> hp_claims_initialised h)"

lemma hal_up_init: "hal_ok h \<Longrightarrow> hal_up (ensure_initialised h)"
  by (auto simp: hal_up_def hal_ok_def ensure_initialised_def claim_ok_def claim_at_def no_claim_def list_all_iff all_pins_set)

lemma hal_up_id: "hal_up h \<Longrightarrow> ensure_initialised h = h"
  by (simp add: hal_up_def ensure_initialised_def)

lemma hal_upI:
  "length (hp_group h) = 2 \<Longrightarrow> hp_claims_initialised h \<Longrightarrow> length (hp_claims h) = HAL_PIN_TABLE_SIZE \<Longrightarrow>
   (\<And>pid. unat pid < HAL_PIN_TABLE_SIZE \<Longrightarrow> claim_ok pid h) \<Longrightarrow> hal_up h"
  by (simp add: hal_up_def hal_ok_def list_all_iff all_pins_set)

lemma hal_upD:
  assumes "hal_up h"
  shows "length (hp_group h) = 2" "hp_claims_initialised h" "length (hp_claims h) = HAL_PIN_TABLE_SIZE"
    "unat pid < HAL_PIN_TABLE_SIZE \<Longrightarrow> claim_ok pid h" "hal_ok h"
  using assms by (simp_all add: hal_up_def hal_ok_def list_all_iff all_pins_set)

lemma board_place: "find_board_pin pid = Some bp \<Longrightarrow> bp_port bp = BOARD_PHYS_PIN_PORT pid \<and> bp_pin bp = BOARD_PHYS_PIN_PIN pid \<and> unat pid < HAL_PIN_TABLE_SIZE"
proof -
  have "list_all (\<lambda>p. bp_port p = BOARD_PHYS_PIN_PORT (board_pin_phys_id p) \<and> bp_pin p = BOARD_PHYS_PIN_PIN (board_pin_phys_id p) \<and>
    unat (board_pin_phys_id p) < HAL_PIN_TABLE_SIZE) g_board_pins" by code_simp
  then show "find_board_pin pid = Some bp \<Longrightarrow> ?thesis"
    by (auto simp: find_board_pin_def find_Some_iff list_all_length)
qed

text \<open>A change of one port group at the place of one pin.\<close>

definition local_to :: "8 word \<Rightarrow> (port_group \<Rightarrow> port_group) \<Rightarrow> bool" where
  "local_to pin f = (\<forall>g k. k \<noteq> unat pin \<longrightarrow> bit (pg_out (f g)) k = bit (pg_out g) k \<and> bit (pg_dir (f g)) k = bit (pg_dir g) k)"

lemma local_bits:
  assumes "local_to (BOARD_PHYS_PIN_PIN p) f" "unat p < HAL_PIN_TABLE_SIZE" "unat q < HAL_PIN_TABLE_SIZE" "q \<noteq> p" "length (hp_group h) = 2"
  shows "out_bit q (upd_group (BOARD_PHYS_PIN_PORT p) f h) = out_bit q h" "dir_bit q (upd_group (BOARD_PHYS_PIN_PORT p) f h) = dir_bit q h"
  using assms same_place [OF assms(3,2)] phys_index(2) [OF assms(2)]
  by (auto simp: out_bit_def dir_bit_def upd_group_def nth_list_update local_to_def)

lemma here_bits:
  assumes "unat p < HAL_PIN_TABLE_SIZE" "length (hp_group h) = 2"
  shows "out_bit p (upd_group (BOARD_PHYS_PIN_PORT p) f h) = bit (pg_out (f (hp_group h ! unat (BOARD_PHYS_PIN_PORT p)))) (unat (BOARD_PHYS_PIN_PIN p))"
    "dir_bit p (upd_group (BOARD_PHYS_PIN_PORT p) f h) = bit (pg_dir (f (hp_group h ! unat (BOARD_PHYS_PIN_PORT p)))) (unat (BOARD_PHYS_PIN_PIN p))"
  using assms phys_index(2) [OF assms(1)] by (simp_all add: out_bit_def dir_bit_def upd_group_def)

section \<open>Every operation keeps it\<close>

lemma claim_ok_cong:
  "claim_at q h' = claim_at q h \<Longrightarrow> dir_bit q h' = dir_bit q h \<Longrightarrow> claim_ok q h' = claim_ok q h"
  by (simp add: claim_ok_def)

lemma hal_up_group:
  assumes "hal_up h" "unat p < HAL_PIN_TABLE_SIZE" "local_to (BOARD_PHYS_PIN_PIN p) f" "claim_ok p (set_claim p F (upd_group (BOARD_PHYS_PIN_PORT p) f h))"
  shows "hal_up (set_claim p F (upd_group (BOARD_PHYS_PIN_PORT p) f h))"
proof (rule hal_upI)
  note u = hal_upD [OF assms(1)]
  fix q :: "8 word" assume q: "unat q < HAL_PIN_TABLE_SIZE"
  show "claim_ok q (set_claim p F (upd_group (BOARD_PHYS_PIN_PORT p) f h))"
  proof (cases "q = p")
    case False
    then have "claim_ok q (set_claim p F (upd_group (BOARD_PHYS_PIN_PORT p) f h)) = claim_ok q h"
      using local_bits(2) [OF assms(3,2) q False u(1)] u(3) assms(2) by (intro claim_ok_cong) (simp_all add: claim_at_set)
    then show ?thesis using u(4) [OF q] by simp
  qed (use assms(4) in simp)
qed (use hal_upD [OF assms(1)] in simp_all)

lemma hal_up_claim:
  assumes "hal_up h" "unat p < HAL_PIN_TABLE_SIZE" "claim_ok p (set_claim p F h)"
  shows "hal_up (set_claim p F h)"
proof -
  have "upd_group (BOARD_PHYS_PIN_PORT p) (\<lambda>g. g) h = h" by (simp add: upd_group_def)
  then show ?thesis using hal_up_group [OF assms(1,2), of "\<lambda>g. g" F] assms(3) by (simp add: local_to_def)
qed

lemma one_slot_bit: "unat slot < 8 \<Longrightarrow> one_slot (slot_bit slot)" "unat slot < 8 \<Longrightarrow> slot_bit slot \<noteq> 0"
proof -
  assume s: "unat slot < 8"
  then show "one_slot (slot_bit slot)" by (auto simp: one_slot_def slot_bit_def list_ex_iff)
  have "bit (slot_bit slot) (unat slot)" using s by (simp add: slot_bit_def bit_exp_iff)
  then show "slot_bit slot \<noteq> 0" by (metis bit_0_eq bot_apply bot_bool_def)
qed

lemma bit_word32: "bit (w :: 32 word) k \<Longrightarrow> k < 32"
  using bit_imp_le_length [of w k] by simp

lemma local_configure:
  "local_to pin (\<lambda>g. dirset (pin_mask pin) (upd_cfg pin f g))"
  "local_to pin (\<lambda>g. outclr (pin_mask pin) (upd_cfg pin f (dirclr (pin_mask pin) g)))"
  "local_to pin (\<lambda>g. if b then outset (pin_mask pin) (upd_cfg pin f1 (upd_cfg pin f0 (dirclr (pin_mask pin) g)))
     else if b' then outclr (pin_mask pin) (upd_cfg pin f2 (upd_cfg pin f0 (dirclr (pin_mask pin) g)))
     else upd_cfg pin f3 (upd_cfg pin f0 (dirclr (pin_mask pin) g)))"
  by (auto simp: local_to_def bit_or_iff bit_and_iff bit_not_iff bit_pin_mask dest: bit_word32)

lemma board_found:
  assumes "find_board_pin pid = Some bp"
  shows "bp_port bp = BOARD_PHYS_PIN_PORT pid" "bp_pin bp = BOARD_PHYS_PIN_PIN pid" "unat pid < HAL_PIN_TABLE_SIZE"
    "\<not> board_pin_is_reserved bp \<Longrightarrow> usable pid"
  using board_place [OF assms] assms by (simp_all add: usable_def)

lemma input_claim:
  assumes "hal_up h" "unat pid < HAL_PIN_TABLE_SIZE" "usable pid" "unat slot < 8" "local_to (BOARD_PHYS_PIN_PIN pid) f"
    "mode \<in> {HAL_PIN_MODE_GPIO_IN, HAL_PIN_MODE_GPIO_IN_PU, HAL_PIN_MODE_GPIO_IN_PD}"
  shows "hal_up (set_claim pid (\<lambda>c. c \<lparr> hc_slot_mask := slot_bit slot, hc_mode := mode, hc_ok_value := 0, hc_err_value := 0 \<rparr>)
    (upd_group (BOARD_PHYS_PIN_PORT pid) f h))"
  using assms hal_upD(3) [OF assms(1)] one_slot_bit [OF assms(4)]
  by (intro hal_up_group) (auto simp: claim_ok_def Let_def claim_at_set hal_modes)

lemma claim_up:
  assumes "hal_ok h" "unat slot < 8"
  shows "hal_up (snd (hal_pin_claim pid slot mode h))"
proof (cases "fst (hal_pin_claim pid slot mode h) = HAL_PIN_CLAIM_OK")
  case True
  then obtain bp where bp: "find_board_pin pid = Some bp" "\<not> board_pin_is_reserved bp"
    "mode \<noteq> HAL_PIN_MODE_UNCLAIMED" "\<not> mode > HAL_PIN_MODE_ADC_SCAN" "mode \<noteq> HAL_PIN_MODE_GPIO_OUT" "mode \<noteq> HAL_PIN_MODE_ADC_SCAN"
    by (auto simp: hal_pin_claim_def Let_def split: if_splits option.splits)
  have mode: "mode \<in> {HAL_PIN_MODE_GPIO_IN, HAL_PIN_MODE_GPIO_IN_PU, HAL_PIN_MODE_GPIO_IN_PD}"
    using bp(3-6) by (simp add: hal_modes not_less word_le_nat_alt word_unat_eq_iff) arith
  have "snd (hal_pin_claim pid slot mode h) =
    set_claim pid (\<lambda>c. c \<lparr> hc_slot_mask := slot_bit slot, hc_mode := mode, hc_ok_value := 0, hc_err_value := 0 \<rparr>)
      (port_configure_input (BOARD_PHYS_PIN_PORT pid) (BOARD_PHYS_PIN_PIN pid) mode (ensure_initialised h))"
    using True mode board_found(1,2) [OF bp(1)] bp by (auto simp: hal_pin_claim_def Let_def split: if_splits)
  then show ?thesis
    unfolding port_configure_input_def Let_def
    using input_claim [OF hal_up_init [OF assms(1)] board_found(3,4) [OF bp(1)] assms(2) local_configure(3) mode] bp(2) by simp
next
  case False
  then have "snd (hal_pin_claim pid slot mode h) = ensure_initialised h"
    by (auto simp: hal_pin_claim_def Let_def split: if_splits option.splits)
  then show ?thesis using hal_up_init [OF assms(1)] by simp
qed

lemma claim_adc_up:
  assumes "hal_ok h" "unat slot < 8"
  shows "hal_up (snd (hal_pin_claim_adc pid slot ov sh h))"
proof (cases "fst (hal_pin_claim_adc pid slot ov sh h) = HAL_PIN_CLAIM_OK")
  case True
  then obtain bp where bp: "find_board_pin pid = Some bp" "\<not> board_pin_is_reserved bp"
    "snd (hal_pin_claim_adc pid slot ov sh h) = set_claim pid (\<lambda>c. c \<lparr> hc_slot_mask := slot_bit slot, hc_mode := HAL_PIN_MODE_ADC_SCAN,
       hc_ok_value := 0, hc_err_value := 0, hc_oversample_exp := ov, hc_sh_cyc := sh, hc_adc_channel := bp_adc_channel bp \<rparr>) (ensure_initialised h)"
    by (auto simp: hal_pin_claim_adc_def Let_def split: if_splits option.splits)
  note u = hal_up_init [OF assms(1)]
  show ?thesis
    unfolding bp(3) using u hal_upD(3) [OF u] one_slot_bit [OF assms(2)] board_found(3,4) [OF bp(1)] bp(2)
    by (intro hal_up_claim) (simp_all add: claim_ok_def Let_def claim_at_set hal_modes)
next
  case False
  then have "snd (hal_pin_claim_adc pid slot ov sh h) = ensure_initialised h"
    by (auto simp: hal_pin_claim_adc_def Let_def split: if_splits option.splits)
  then show ?thesis using hal_up_init [OF assms(1)] by simp
qed

lemma dir_configured:
  assumes "unat pid < HAL_PIN_TABLE_SIZE" "length (hp_group h) = 2"
  shows "dir_bit pid (upd_group (BOARD_PHYS_PIN_PORT pid) (\<lambda>g. dirset (pin_mask (BOARD_PHYS_PIN_PIN pid)) (upd_cfg (BOARD_PHYS_PIN_PIN pid) f g)) h)"
  using here_bits(2) [OF assms] phys_index(4) [OF assms(1)] by (simp add: bit_or_iff bit_pin_mask)

lemma claim_output_cases:
  "(\<exists>bp. find_board_pin pid = Some bp \<and> \<not> board_pin_is_reserved bp \<and> ok \<le> 1 \<and> err \<le> 1 \<and> ok \<noteq> err \<and>
      hc_slot_mask (claim_at pid (ensure_initialised h)) = 0 \<and>
      hal_pin_claim_output pid slot ok err h = (HAL_PIN_CLAIM_OK, set_claim pid (\<lambda>c. c \<lparr> hc_slot_mask := slot_bit slot,
        hc_mode := HAL_PIN_MODE_GPIO_OUT, hc_ok_value := ok, hc_err_value := err \<rparr>)
        (port_configure_output (bp_port bp) (bp_pin bp) (ensure_initialised h)))) \<or>
   (\<exists>bp. find_board_pin pid = Some bp \<and> hc_slot_mask (claim_at pid (ensure_initialised h)) \<noteq> 0 \<and>
      hc_mode (claim_at pid (ensure_initialised h)) = HAL_PIN_MODE_GPIO_OUT \<and>
      hal_pin_claim_output pid slot ok err h = (HAL_PIN_CLAIM_OK,
        set_claim pid (\<lambda>c. c \<lparr> hc_slot_mask := hc_slot_mask c OR slot_bit slot \<rparr>) (ensure_initialised h))) \<or>
   fst (hal_pin_claim_output pid slot ok err h) \<noteq> HAL_PIN_CLAIM_OK \<and> snd (hal_pin_claim_output pid slot ok err h) = ensure_initialised h"
  unfolding hal_pin_claim_output_def Let_def by (simp add: not_less split: option.split)

lemma claim_output_up:
  assumes "hal_ok h" "unat slot < 8"
  shows "hal_up (snd (hal_pin_claim_output pid slot ok err h))"
proof -
  note u = hal_up_init [OF assms(1)]
  note len = hal_upD(1,3) [OF u]
  let ?h = "ensure_initialised h" and ?r = "hal_pin_claim_output pid slot ok err h"
  consider (first) bp where "find_board_pin pid = Some bp" "\<not> board_pin_is_reserved bp" "ok \<le> 1" "err \<le> 1" "ok \<noteq> err"
      "snd ?r = set_claim pid (\<lambda>c. c \<lparr> hc_slot_mask := slot_bit slot, hc_mode := HAL_PIN_MODE_GPIO_OUT, hc_ok_value := ok, hc_err_value := err \<rparr>)
        (port_configure_output (bp_port bp) (bp_pin bp) ?h)"
    | (share) bp where "find_board_pin pid = Some bp" "hc_slot_mask (claim_at pid ?h) \<noteq> 0" "hc_mode (claim_at pid ?h) = HAL_PIN_MODE_GPIO_OUT"
      "snd ?r = set_claim pid (\<lambda>c. c \<lparr> hc_slot_mask := hc_slot_mask c OR slot_bit slot \<rparr>) ?h"
    | (none) "snd ?r = ?h"
    using claim_output_cases [of pid ok err h slot] by fastforce
  then show ?thesis
  proof cases
    case (first bp)
    note b = board_found [OF first(1)]
    show ?thesis
      unfolding first(6) b(1,2) port_configure_output_def
      using u len one_slot_bit [OF assms(2)] b(3,4) first(2-5) dir_configured [OF b(3) len(1)] local_configure(1)
      by (intro hal_up_group) (simp_all add: claim_ok_def Let_def claim_at_set)
  next
    case (share bp)
    note b = board_found [OF share(1)]
    have "claim_ok pid ?h" using hal_upD(4) [OF u] b(3) by blast
    then show ?thesis
      unfolding share(4) using u len share(2,3) b(3)
      by (intro hal_up_claim) (auto simp: claim_ok_def Let_def claim_at_set or_eq_0_iff)
  qed (use u in simp)
qed

section \<open>Releasing a slot\<close>

lemma clear_bit_slot: "m AND slot_bit slot = 0 \<Longrightarrow> m AND NOT (slot_bit slot) = m"
  by (rule bit_eqI) (metis bit_0_eq bit_and_iff bit_imp_le_length bit_not_iff bot_apply bot_bool_def impossible_bit)

lemma one_slot_clear:
  assumes "one_slot m" "m AND slot_bit slot \<noteq> 0"
  shows "m AND NOT (slot_bit slot) = 0"
proof -
  obtain k where k: "k < 8" "m = push_bit k 1" using assms(1) by (auto simp: one_slot_def list_ex_iff)
  then have "k = unat slot"
    using assms(2) by (auto simp: slot_bit_def bit_eq_iff bit_and_iff bit_exp_iff)
  then show ?thesis using k(2) by (simp add: slot_bit_def)
qed

lemma release_pin_up:
  assumes "hal_up h" "unat pid < HAL_PIN_TABLE_SIZE"
  shows "hal_up (release_pin slot pid h)"
    "hc_slot_mask (claim_at q (release_pin slot pid h)) =
      (if q = pid then hc_slot_mask (claim_at q h) AND NOT (slot_bit slot) else hc_slot_mask (claim_at q h))"
proof -
  note u = hal_upD [OF assms(1)]
  have ok: "claim_ok pid h" using u(4) [OF assms(2)] .
  let ?c = "claim_at pid h" and ?m = "hc_slot_mask (claim_at pid h) AND NOT (slot_bit slot)"
  let ?F = "\<lambda>c. c \<lparr> hc_slot_mask := hc_slot_mask c AND NOT (slot_bit slot) \<rparr>"
  let ?G = "\<lambda>c. c \<lparr> hc_mode := HAL_PIN_MODE_UNCLAIMED, hc_ok_value := 0, hc_err_value := 0 \<rparr>"
  show "hal_up (release_pin slot pid h)"
  proof (cases "hc_slot_mask ?c AND slot_bit slot = 0")
    case True
    then show ?thesis using assms(1) by (simp add: release_pin_def)
  next
    case owned: False
    show ?thesis
    proof (cases "?m = 0")
      case True
      have "set_claim pid ?G (port_reset_to_safe (BOARD_PHYS_PIN_PORT pid) (BOARD_PHYS_PIN_PIN pid) (set_claim pid ?F h)) =
        set_claim pid (\<lambda>c. ?G (?F c)) (port_reset_to_safe (BOARD_PHYS_PIN_PORT pid) (BOARD_PHYS_PIN_PIN pid) h)"
        using u(3) assms(2) by (simp add: set_claim_def port_reset_to_safe_def upd_group_def claim_at_def)
      moreover have "hal_up (set_claim pid (\<lambda>c. ?G (?F c)) (port_reset_to_safe (BOARD_PHYS_PIN_PORT pid) (BOARD_PHYS_PIN_PIN pid) h))"
        unfolding port_reset_to_safe_def Let_def
        by (rule hal_up_group [OF assms local_configure(2)]) (use True u(3) assms(2) in \<open>simp add: claim_ok_def Let_def claim_at_set\<close>)
      ultimately show ?thesis using owned True u(3) assms(2) by (simp add: release_pin_def Let_def claim_at_set)
    next
      case False
      have "hal_up (set_claim pid ?F h)"
        using ok owned False one_slot_clear [of "hc_slot_mask ?c" slot] u(3) assms(2)
        by (intro hal_up_claim [OF assms]) (auto simp: claim_ok_def Let_def claim_at_set split: if_splits)
      then show ?thesis using owned False u(3) assms(2) by (simp add: release_pin_def Let_def claim_at_set)
    qed
  qed
  show "hc_slot_mask (claim_at q (release_pin slot pid h)) =
      (if q = pid then hc_slot_mask (claim_at q h) AND NOT (slot_bit slot) else hc_slot_mask (claim_at q h))"
    using u(3) assms(2) clear_bit_slot [of "hc_slot_mask ?c" slot]
    by (auto simp: release_pin_def Let_def claim_at_set port_reset_to_safe_def)
qed

lemma release_up:
  assumes "hal_ok h"
  shows "hal_up (hal_pin_release_slot slot h)"
    "unat q < HAL_PIN_TABLE_SIZE \<Longrightarrow> hc_slot_mask (claim_at q (hal_pin_release_slot slot h)) =
       hc_slot_mask (claim_at q (ensure_initialised h)) AND NOT (slot_bit slot)"
proof -
  have *: "hal_up (fold (release_pin slot) ps h') \<and>
    hc_slot_mask (claim_at q (fold (release_pin slot) ps h')) =
      (if q \<in> set ps then hc_slot_mask (claim_at q h') AND NOT (slot_bit slot) else hc_slot_mask (claim_at q h'))"
    if "hal_up h'" "\<forall>p \<in> set ps. unat p < HAL_PIN_TABLE_SIZE" "distinct ps" for ps h'
    using that by (induction ps arbitrary: h') (auto simp: release_pin_up)
  have s: "\<forall>p \<in> set all_pins. unat p < HAL_PIN_TABLE_SIZE" by (simp add: all_pins_set)
  from * [OF hal_up_init [OF assms] s all_pins_distinct] show "hal_up (hal_pin_release_slot slot h)"
    "unat q < HAL_PIN_TABLE_SIZE \<Longrightarrow> hc_slot_mask (claim_at q (hal_pin_release_slot slot h)) =
       hc_slot_mask (claim_at q (ensure_initialised h)) AND NOT (slot_bit slot)"
    by (simp_all add: hal_pin_release_slot_def all_pins_set)
qed

section \<open>Driving the outputs\<close>

definition drives :: "8 word \<Rightarrow> 'z hal_scheme \<Rightarrow> bool" where
  "drives pid h = (hc_slot_mask (claim_at pid h) \<noteq> 0 \<and> hc_mode (claim_at pid h) = HAL_PIN_MODE_GPIO_OUT)"

definition level_for :: "8 word \<Rightarrow> hal_pin_claim_record \<Rightarrow> 8 word" where
  "level_for veto_mask c = (if hc_slot_mask c AND veto_mask \<noteq> 0 then hc_err_value c else hc_ok_value c)"

lemma drive_pin_facts:
  assumes "length (hp_group h) = 2" "unat pid < HAL_PIN_TABLE_SIZE" "unat q < HAL_PIN_TABLE_SIZE"
  shows "out_bit q (drive_pin v pid h) = (if q = pid \<and> drives pid h then level_for v (claim_at pid h) \<noteq> 0 else out_bit q h)"
    "dir_bit q (drive_pin v pid h) = dir_bit q h" "claim_at q (drive_pin v pid h) = claim_at q h"
    "length (hp_group (drive_pin v pid h)) = 2" "hp_claims (drive_pin v pid h) = hp_claims h"
    "hp_claims_initialised (drive_pin v pid h) = hp_claims_initialised h"
proof -
  let ?m = "pin_mask (BOARD_PHYS_PIN_PIN pid)"
  have loc: "local_to (BOARD_PHYS_PIN_PIN pid) (if b then outset ?m else outclr ?m)" for b
    by (auto simp: local_to_def bit_or_iff bit_and_iff bit_not_iff bit_pin_mask dest: bit_word32)
  have dir: "pg_dir ((if b then outset ?m else outclr ?m) g) = pg_dir g" for b g by simp
  have out: "bit (pg_out ((if b then outset ?m else outclr ?m) g)) (unat (BOARD_PHYS_PIN_PIN pid)) = b" for b g
    using phys_index(4) [OF assms(2)] by (auto simp: bit_or_iff bit_and_iff bit_not_iff bit_pin_mask)
  show "out_bit q (drive_pin v pid h) = (if q = pid \<and> drives pid h then level_for v (claim_at pid h) \<noteq> 0 else out_bit q h)"
    "dir_bit q (drive_pin v pid h) = dir_bit q h"
  proof -
    let ?b = "level_for v (claim_at pid h) \<noteq> 0"
    let ?u = "upd_group (BOARD_PHYS_PIN_PORT pid) (if ?b then outset ?m else outclr ?m) h"
    have d: "drive_pin v pid h = (if drives pid h then ?u else h)"
      by (simp add: drive_pin_def Let_def drives_def level_for_def)
    have here: "out_bit pid ?u = ?b" "dir_bit pid ?u = dir_bit pid h"
      using here_bits [OF assms(2,1), of "if ?b then outset ?m else outclr ?m"] out dir by (simp_all only: dir_bit_def)
    have there: "out_bit q ?u = out_bit q h" "dir_bit q ?u = dir_bit q h" if "q \<noteq> pid"
      using local_bits [OF loc assms(2,3) that assms(1)] by simp_all
    show "out_bit q (drive_pin v pid h) = (if q = pid \<and> drives pid h then ?b else out_bit q h)" "dir_bit q (drive_pin v pid h) = dir_bit q h"
      unfolding d using here there by (cases "q = pid"; simp)+
  qed
  show "claim_at q (drive_pin v pid h) = claim_at q h" "length (hp_group (drive_pin v pid h)) = 2" "hp_claims (drive_pin v pid h) = hp_claims h"
    "hp_claims_initialised (drive_pin v pid h) = hp_claims_initialised h"
    using assms(1) by (simp_all add: drive_pin_def Let_def)
qed

text \<open>Driving needs the two port groups and nothing of what they hold.\<close>

lemma drive_fold:
  assumes "length (hp_group h) = 2" "\<forall>p \<in> set ps. unat p < HAL_PIN_TABLE_SIZE"
  shows "length (hp_group (fold (drive_pin v) ps h)) = 2 \<and> hp_claims (fold (drive_pin v) ps h) = hp_claims h \<and>
    hp_claims_initialised (fold (drive_pin v) ps h) = hp_claims_initialised h \<and>
    (\<forall>q. unat q < HAL_PIN_TABLE_SIZE \<longrightarrow> dir_bit q (fold (drive_pin v) ps h) = dir_bit q h \<and>
      claim_at q (fold (drive_pin v) ps h) = claim_at q h \<and>
      out_bit q (fold (drive_pin v) ps h) = (if q \<in> set ps \<and> drives q h then level_for v (claim_at q h) \<noteq> 0 else out_bit q h))"
  using assms
proof (induction ps arbitrary: h)
  case (Cons p ps)
  have f: "length (hp_group (drive_pin v p h)) = 2" "hp_claims (drive_pin v p h) = hp_claims h"
    "hp_claims_initialised (drive_pin v p h) = hp_claims_initialised h"
    using drive_pin_facts(4-6) [OF Cons.prems(1)] Cons.prems(2) by auto
  have g: "dir_bit q (drive_pin v p h) = dir_bit q h" "claim_at q (drive_pin v p h) = claim_at q h"
    "out_bit q (drive_pin v p h) = (if q = p \<and> drives p h then level_for v (claim_at p h) \<noteq> 0 else out_bit q h)"
    if "unat q < HAL_PIN_TABLE_SIZE" for q
    using drive_pin_facts(1-3) [OF Cons.prems(1) _ that] Cons.prems(2) by auto
  have d: "drives q (drive_pin v p h) = drives q h" for q
    by (simp add: drives_def claim_at_def f(2))
  show ?case using Cons.IH [OF f(1)] Cons.prems(2) f g d by auto
qed simp

lemma drive_pins:
  assumes "length (hp_group h) = 2" "unat q < HAL_PIN_TABLE_SIZE"
  shows "dir_bit q (hal_pin_drive_outputs v h) = dir_bit q h"
    "out_bit q (hal_pin_drive_outputs v h) =
      (if drives q (ensure_initialised h) then level_for v (claim_at q (ensure_initialised h)) \<noteq> 0 else out_bit q h)"
    "claim_at q (hal_pin_drive_outputs v h) = claim_at q (ensure_initialised h)"
    "length (hp_group (hal_pin_drive_outputs v h)) = 2"
    "hp_claims (hal_pin_drive_outputs v h) = hp_claims (ensure_initialised h)" "hp_claims_initialised (hal_pin_drive_outputs v h)"
proof -
  have e: "length (hp_group (ensure_initialised h)) = 2" "dir_bit q (ensure_initialised h) = dir_bit q h"
    "out_bit q (ensure_initialised h) = out_bit q h" "hp_claims_initialised (ensure_initialised h)"
    using assms(1) by (simp_all add: ensure_initialised_def dir_bit_def out_bit_def)
  note r = drive_fold [OF e(1), of all_pins v, unfolded all_pins_set mem_Collect_eq, simplified]
  show "dir_bit q (hal_pin_drive_outputs v h) = dir_bit q h"
    "out_bit q (hal_pin_drive_outputs v h) =
      (if drives q (ensure_initialised h) then level_for v (claim_at q (ensure_initialised h)) \<noteq> 0 else out_bit q h)"
    "claim_at q (hal_pin_drive_outputs v h) = claim_at q (ensure_initialised h)"
    "length (hp_group (hal_pin_drive_outputs v h)) = 2"
    "hp_claims (hal_pin_drive_outputs v h) = hp_claims (ensure_initialised h)" "hp_claims_initialised (hal_pin_drive_outputs v h)"
    unfolding hal_pin_drive_outputs_def using r assms(2) e by simp_all
qed

lemma drive_facts:
  assumes "hal_ok h" "unat q < HAL_PIN_TABLE_SIZE"
  shows "hal_up (hal_pin_drive_outputs v h)"
    "claim_at q (hal_pin_drive_outputs v h) = claim_at q (ensure_initialised h)"
    "out_bit q (hal_pin_drive_outputs v h) =
      (if drives q (ensure_initialised h) then level_for v (claim_at q (ensure_initialised h)) \<noteq> 0 else out_bit q (ensure_initialised h))"
proof -
  note u = hal_upD [OF hal_up_init [OF assms(1)]]
  have len: "length (hp_group h) = 2" using assms(1) by (simp add: hal_ok_def)
  note r = drive_pins [OF len]
  have e: "dir_bit p (ensure_initialised h) = dir_bit p h" "out_bit p (ensure_initialised h) = out_bit p h" for p
    by (simp_all add: ensure_initialised_def dir_bit_def out_bit_def)
  show "claim_at q (hal_pin_drive_outputs v h) = claim_at q (ensure_initialised h)"
    "out_bit q (hal_pin_drive_outputs v h) =
      (if drives q (ensure_initialised h) then level_for v (claim_at q (ensure_initialised h)) \<noteq> 0 else out_bit q (ensure_initialised h))"
    using r(2,3) [OF assms(2)] e by simp_all
  show "hal_up (hal_pin_drive_outputs v h)"
  proof (rule hal_upI)
    show "length (hp_group (hal_pin_drive_outputs v h)) = 2" "hp_claims_initialised (hal_pin_drive_outputs v h)"
      "length (hp_claims (hal_pin_drive_outputs v h)) = HAL_PIN_TABLE_SIZE" using r(4,5,6) [OF assms(2)] u(3) by simp_all
    show "claim_ok p (hal_pin_drive_outputs v h)" if "unat p < HAL_PIN_TABLE_SIZE" for p
      using claim_ok_cong [of p "hal_pin_drive_outputs v h" "ensure_initialised h"] r(1,3) [OF that] u(4) [OF that] e by simp
  qed
qed

text \<open>The check at the end of the firmware's start finds the table consistent.\<close>

lemma popcount_one: "one_slot m \<Longrightarrow> \<not> popcount_loop 8 m 0 > 1"
proof -
  have "list_all (\<lambda>k. popcount_loop 8 (push_bit k 1) 0 = 1) [0..<8]" by code_simp
  then show "one_slot m \<Longrightarrow> ?thesis" by (auto simp: one_slot_def list_all_iff list_ex_iff)
qed

lemma consistency_holds: "hal_ok h \<Longrightarrow> fst (hal_pin_check_consistency h)"
  using hal_upD(4) [OF hal_up_init [of h]] popcount_one
  by (auto simp: hal_pin_check_consistency_def Let_def list_all_iff all_pins_set claim_ok_def split: if_splits)

end
