(* ===== verification/IL_Grammar.thy ===== *)
theory IL_Grammar
  imports IL_Parse
begin

text \<open>
  What the parser accepts is well formed: the counts stay within the arrays, every watch refers to
  a declared input, the options of an input fit its mode, no pin is declared twice and every output
  has two different values. The two texts at the end show where the language of the code and its
  description differ.
\<close>

section \<open>Well-formed interlocks\<close>

definition board_pin_id :: "8 word \<Rightarrow> bool" where
  "board_pin_id pid = (pid \<in> board_pin_phys_id ` set g_board_pins)"

definition input_ok :: "il_input \<Rightarrow> bool" where
  "input_ok i =
     (if ii_mode i = IL_PIN_MODE_VIRTUAL then
        ii_phys_id i \<in> snd ` set k_virt_pins \<and> ii_oversample_exp i = 0 \<and> ii_sh_cyc i = 0 \<and> ii_debounce_depth i = 0 \<and> ii_hyst i = 0
      else board_pin_id (ii_phys_id i) \<and>
        (if ii_mode i = IL_PIN_MODE_ADC then ii_oversample_exp i \<le> 4 \<and> ii_sh_cyc i \<le> 63 \<and> ii_debounce_depth i = 0
         else ii_mode i \<in> {IL_PIN_MODE_IN, IL_PIN_MODE_IN_PU, IL_PIN_MODE_IN_PD} \<and> ii_oversample_exp i = 0 \<and> ii_sh_cyc i = 0 \<and>
           ii_hyst i = 0 \<and> (ii_debounce_depth i = 0 \<or> 2 \<le> ii_debounce_depth i \<and> ii_debounce_depth i \<le> 15)))"

definition watch_ok :: "il_inst \<Rightarrow> il_watch \<Rightarrow> bool" where
  "watch_ok inst w = (iw_input_idx w < length (in_inputs inst) \<and>
     (ii_hyst (in_inputs inst ! iw_input_idx w) \<noteq> 0 \<longrightarrow> iw_op w \<noteq> IL_OP_EQ \<and> iw_op w \<noteq> IL_OP_NE))"

definition output_pre :: "il_output \<Rightarrow> bool" where
  "output_pre out = (board_pin_id (io_phys_id out) \<and> io_ok_value out \<le> 1 \<and> io_err_value out \<le> 1)"

definition inst_pre :: "il_inst \<Rightarrow> bool" where
  "inst_pre inst = (length (in_name inst) < IL_NAME_MAX \<and> length (in_inputs inst) \<le> IL_MAX_INPUTS \<and>
     length (in_watches inst) \<le> IL_MAX_WATCHES \<and> length (in_outputs inst) \<le> IL_MAX_OUTPUTS \<and>
     list_all input_ok (in_inputs inst) \<and> list_all (watch_ok inst) (in_watches inst) \<and> list_all output_pre (in_outputs inst) \<and>
     distinct (map ii_phys_id (in_inputs inst) @ map io_phys_id (in_outputs inst)))"

definition inst_ok :: "il_inst \<Rightarrow> bool" where
  "inst_ok inst = (inst_pre inst \<and> in_tf_state inst = IL_TF_UNEVALUATED \<and>
     list_all (\<lambda>out. io_ok_value out \<noteq> io_err_value out) (in_outputs inst))"

section \<open>The parser keeps it\<close>

lemma takeWhile_find: "length (takeWhile P xs) < length xs \<Longrightarrow> \<not> P (xs ! length (takeWhile P xs))"
  by (rule nth_length_takeWhile)

lemma takeWhile_all: "\<not> length (takeWhile P xs) < length xs \<Longrightarrow> x \<in> set xs \<Longrightarrow> P x"
  by (metis length_takeWhile_le nle_le order_le_less set_takeWhileD takeWhile_eq_all_conv takeWhile_eq_take take_all)

lemma find_input: "find_input_idx inst pid = Some i \<Longrightarrow> i < length (in_inputs inst) \<and> ii_phys_id (in_inputs inst ! i) = pid"
  "find_input_idx inst pid = None \<Longrightarrow> pid \<notin> set (map ii_phys_id (in_inputs inst))"
  using takeWhile_find [of "\<lambda>i. ii_phys_id i \<noteq> pid" "in_inputs inst"] takeWhile_all [of "\<lambda>i. ii_phys_id i \<noteq> pid" "in_inputs inst"]
  by (auto simp: find_input_idx_def Let_def split: if_splits)

lemma find_output: "find_output_idx inst pid = Some i \<Longrightarrow> i < length (in_outputs inst) \<and> io_phys_id (in_outputs inst ! i) = pid"
  "find_output_idx inst pid = None \<Longrightarrow> pid \<notin> set (map io_phys_id (in_outputs inst))"
  using takeWhile_find [of "\<lambda>i. io_phys_id i \<noteq> pid" "in_outputs inst"] takeWhile_all [of "\<lambda>i. io_phys_id i \<noteq> pid" "in_outputs inst"]
  by (auto simp: find_output_idx_def Let_def split: if_splits)

lemma board_lookup: "board_pin_lookup lbl = Some bp \<Longrightarrow> board_pin_id (board_pin_phys_id bp)"
  by (auto simp: board_pin_lookup_def board_pin_id_def find_Some_iff split: if_splits)

text \<open>The options collected for a group fit its mode.\<close>

definition cfg_ok :: "cfg_mode \<Rightarrow> bool" where
  "cfg_ok cm = (cm_oversample_exp cm \<le> 4 \<and> cm_sh_cyc cm \<le> 63 \<and> (cm_debounce cm = 0 \<or> 2 \<le> cm_debounce cm \<and> cm_debounce cm \<le> 15) \<and>
     (if cm_is_adc cm then cm_is_input cm \<and> cm_mode cm = IL_PIN_MODE_ADC
      else cm_is_input cm \<longrightarrow> cm_mode cm \<in> {IL_PIN_MODE_IN, IL_PIN_MODE_IN_PU, IL_PIN_MODE_IN_PD}))"

lemma first_mode_ok: "first_mode m = Inr cm \<Longrightarrow> cfg_ok cm"
  by (auto simp: first_mode_def Let_def cfg_ok_def split: if_splits)

lemma samplenum_le: "samplenum_to_exp n \<noteq> 0xFF \<Longrightarrow> samplenum_to_exp n \<le> 4"
  by (auto simp: samplenum_to_exp_def split: if_splits)

lemma ucast_small:
  assumes "n \<le> k" "k \<le> 63"
  shows "(ucast (n :: 16 word) :: 8 word) \<le> ucast k" "2 \<le> n \<Longrightarrow> (2 :: 8 word) \<le> ucast n"
proof -
  have u: "unat (ucast m :: 8 word) = unat m" if "m \<le> 63" for m :: "16 word"
    using that by (simp add: unsigned_ucast_eq take_bit_nat_eq_self word_le_nat_alt)
  have n: "n \<le> 63" using assms by (rule order_trans)
  show "(ucast n :: 8 word) \<le> ucast k" using assms(1) u [OF n] u [OF assms(2)] by (simp add: word_le_nat_alt)
  show "2 \<le> n \<Longrightarrow> (2 :: 8 word) \<le> ucast n" using u [OF n] by (simp add: word_le_nat_alt)
qed

lemma adc_qualifier_ok: "cfg_ok cm \<Longrightarrow> cm_is_adc cm \<Longrightarrow> adc_qualifier ms cm = Inr cm' \<Longrightarrow> cfg_ok cm'"
  using ucast_small(1) [of _ 63]
  by (auto simp: adc_qualifier_def cfg_ok_def samplenum_le not_less split: if_splits option.splits)

lemma input_qualifier_ok: "cfg_ok cm \<Longrightarrow> cm_is_input cm \<Longrightarrow> \<not> cm_is_adc cm \<Longrightarrow> input_qualifier ms cm = Inr cm' \<Longrightarrow> cfg_ok cm'"
  using ucast_small(1) [of _ 15] ucast_small(2) [of _ 15]
  by (auto simp: input_qualifier_def cfg_ok_def not_less split: if_splits option.splits)

lemma qualifiers_ok: "cfg_ok cm \<Longrightarrow> qualifiers ms cm = Inr cm' \<Longrightarrow> cfg_ok cm'"
proof (induction ms arbitrary: cm)
  case (Cons m ms)
  from Cons.prems(2) obtain c where c: "(if cm_is_adc cm then adc_qualifier m cm
      else if cm_is_input cm then input_qualifier m cm else Inl (out_qualifier m)) = Inr c" "qualifiers ms c = Inr cm'"
    by (simp split: sum.splits if_splits)
  have "cfg_ok c"
    using c(1) Cons.prems(1) adc_qualifier_ok [of cm m c] input_qualifier_ok [of cm m c]
    by (cases "cm_is_adc cm"; cases "cm_is_input cm"; simp)
  then show ?case using Cons.IH c(2) by blast
qed simp

lemma watch_ok_append: "watch_ok inst w \<Longrightarrow> watch_ok (inst \<lparr> in_inputs := in_inputs inst @ is \<rparr>) w"
  by (auto simp: watch_ok_def nth_append)

lemma inst_pre_input:
  assumes "inst_pre inst" "input_ok i" "length (in_inputs inst) < IL_MAX_INPUTS"
    "ii_phys_id i \<notin> set (map ii_phys_id (in_inputs inst))" "ii_phys_id i \<notin> set (map io_phys_id (in_outputs inst))"
  shows "inst_pre (inst \<lparr> in_inputs := in_inputs inst @ [i] \<rparr>)"
  using assms watch_ok_append [of inst] by (simp add: inst_pre_def list_all_iff)

lemma inst_pre_output:
  assumes "inst_pre inst" "output_pre out" "length (in_outputs inst) < IL_MAX_OUTPUTS"
    "io_phys_id out \<notin> set (map ii_phys_id (in_inputs inst))" "io_phys_id out \<notin> set (map io_phys_id (in_outputs inst))"
  shows "inst_pre (inst \<lparr> in_outputs := in_outputs inst @ [out] \<rparr>)"
  using assms by (simp add: inst_pre_def list_all_iff watch_ok_def)

lemma recorded_input_ok: "cfg_ok cm \<Longrightarrow> cm_is_input cm \<Longrightarrow> board_pin_id pid \<Longrightarrow>
    input_ok \<lparr> ii_phys_id = pid, ii_mode = cm_mode cm, ii_oversample_exp = if cm_is_adc cm then cm_oversample_exp cm else 0,
      ii_sh_cyc = if cm_is_adc cm then cm_sh_cyc cm else 0, ii_debounce_depth = if cm_is_adc cm then 0 else cm_debounce cm,
      ii_hyst = if cm_is_adc cm then cm_hyst cm else 0 \<rparr>"
  by (cases "cm_is_adc cm") (auto simp: cfg_ok_def input_ok_def il_modes)

lemma record_pin_pre:
  assumes "cfg_ok cm" "inst_pre inst" "record_pin cm l inst = Inr inst'"
  shows "inst_pre inst'"
proof -
  from assms(3) obtain bp where bp: "board_pin_lookup l = Some bp" "find_input_idx inst (board_pin_phys_id bp) = None"
    "find_output_idx inst (board_pin_phys_id bp) = None"
    by (auto simp: record_pin_def Let_def split: option.splits if_splits)
  note f = find_input(2) [OF bp(2)] find_output(2) [OF bp(3)] board_lookup [OF bp(1)]
  show ?thesis
  proof (cases "cm_is_input cm")
    case True
    then show ?thesis
      using assms bp f inst_pre_input [OF assms(2) recorded_input_ok [OF assms(1) True f(3)]]
      by (simp add: record_pin_def Let_def not_le split: if_splits)
  next
    case False
    then show ?thesis
      using assms bp f inst_pre_output [OF assms(2), of "\<lparr> io_phys_id = board_pin_phys_id bp, io_ok_value = 0, io_err_value = 0 \<rparr>"]
      by (simp add: record_pin_def Let_def not_le output_pre_def split: if_splits)
  qed
qed

lemma record_pins_pre: "cfg_ok cm \<Longrightarrow> inst_pre inst \<Longrightarrow> record_pins cm ls inst = Inr inst' \<Longrightarrow> inst_pre inst'"
  by (induction ls arbitrary: inst) (auto split: sum.splits dest: record_pin_pre)

lemma cfg_group_pre:
  assumes "inst_pre inst" "cfg_group inst s = (Inr inst', s')"
  shows "inst_pre inst'"
proof -
  from assms(2) obtain pins ms cm cm' where
    "first_mode (hd ms) = Inr cm" "qualifiers (tl ms) cm = Inr cm'" "record_pins cm' pins inst = Inr inst'"
    unfolding cfg_group_def by (auto split: prod.splits sum.splits bool.splits)
  then show ?thesis using assms(1) first_mode_ok qualifiers_ok record_pins_pre by blast
qed

lemma parse_cfg_pre: "inst_pre inst \<Longrightarrow> parse_cfg inst s = (Inr inst', s') \<Longrightarrow> inst_pre inst'"
proof (induction inst s arbitrary: inst' s' rule: parse_cfg.induct)
  case (1 inst s)
  from 1(3) obtain i1 s1 where g: "cfg_group inst s = (Inr i1, s1)"
    by (subst (asm) parse_cfg.simps) (auto split: prod.splits sum.splits)
  have pre: "inst_pre i1" using cfg_group_pre [OF 1(2) g] .
  obtain b s2 where c: "consume_char (CHR '','') s1 = (b, s2)" by fastforce
  have eq: "parse_cfg inst s = (if b then parse_cfg i1 s2 else (Inr i1, s2))" by (simp add: parse_cfg.simps [of inst s] g c)
  show ?case
  proof (cases b)
    case True
    then show ?thesis using 1(1) [OF g [symmetric] refl c [symmetric] iffD2 [OF eq_True True] pre] 1(3) eq by simp
  qed (use eq 1(3) pre in simp)
qed

lemma watch_input_pre:
  assumes "inst_pre inst" "watch_input virt lbl inst = Inr (i, inst')"
  shows "inst_pre inst'" "i < length (in_inputs inst')"
proof -
  have "inst_pre inst' \<and> i < length (in_inputs inst')"
  proof (cases "find_input_idx inst (virt_lookup lbl)")
    case None
    have ids: "virt_lookup lbl \<noteq> 0xFF \<Longrightarrow> virt_lookup lbl \<in> snd ` set k_virt_pins"
      by (auto simp: virt_lookup_def split: option.splits dest!: map_of_SomeD intro: rev_image_eqI)
    have apart: "pid \<in> snd ` set k_virt_pins \<Longrightarrow> \<not> board_pin_id pid" for pid
    proof -
      have "list_all (\<lambda>v. \<not> list_ex (\<lambda>bp. board_pin_phys_id bp = snd v) g_board_pins) k_virt_pins" by code_simp
      then show "pid \<in> snd ` set k_virt_pins \<Longrightarrow> \<not> board_pin_id pid"
        by (fastforce simp: board_pin_id_def list_all_iff list_ex_iff)
    qed
    have "virt_lookup lbl \<noteq> 0xFF \<Longrightarrow> virt_lookup lbl \<notin> set (map io_phys_id (in_outputs inst))"
      using assms(1) apart [OF ids] by (auto simp: inst_pre_def list_all_iff output_pre_def)
    then show ?thesis
      using assms find_input(2) [OF None] ids inst_pre_input [OF assms(1), of "virtual_input (virt_lookup lbl)"] None
      by (auto simp: watch_input_def Let_def virtual_input_def input_ok_def not_le split: if_splits option.splits dest: find_input(1))
  next
    case (Some k)
    then show ?thesis using assms by (auto simp: watch_input_def Let_def split: if_splits option.splits dest: find_input(1))
  qed
  then show "inst_pre inst'" "i < length (in_inputs inst')" by simp_all
qed

lemma add_watch_pre:
  assumes "inst_pre inst" "i < length (in_inputs inst)" "add_watch i op v inst = Inr inst'"
  shows "inst_pre inst'"
proof -
  from assms(3) have inst': "inst' = inst \<lparr> in_watches := in_watches inst @ [\<lparr> iw_input_idx = i, iw_op = op, iw_threshold = v \<rparr>] \<rparr>"
    "length (in_watches inst) < IL_MAX_WATCHES" "ii_hyst (in_inputs inst ! i) \<noteq> 0 \<Longrightarrow> op \<noteq> IL_OP_EQ \<and> op \<noteq> IL_OP_NE"
    by (auto simp: add_watch_def not_le split: if_splits)
  have "watch_ok inst' w" if "w \<in> set (in_watches inst')" for w
    using that assms(1,2) inst' by (auto simp: inst_pre_def list_all_iff watch_ok_def)
  then show ?thesis using assms(1) inst'(1,2) by (simp add: inst_pre_def list_all_iff)
qed

lemma watch_item_pre:
  assumes "inst_pre inst" "watch_item inst s = (Inr inst', s')"
  shows "inst_pre inst'"
proof -
  from assms(2) obtain virt lbl i i1 op v where "watch_input virt lbl inst = Inr (i, i1)" "add_watch i op v i1 = Inr inst'"
    unfolding watch_item_def by (auto split: prod.splits sum.splits bool.splits option.splits)
  then show ?thesis using assms(1) watch_input_pre add_watch_pre by blast
qed

lemma parse_watch_pre: "inst_pre inst \<Longrightarrow> parse_watch inst s = (Inr inst', s') \<Longrightarrow> inst_pre inst'"
proof (induction inst s arbitrary: inst' s' rule: parse_watch.induct)
  case (1 inst s)
  from 1(3) obtain i1 s1 where g: "watch_item inst s = (Inr i1, s1)"
    by (subst (asm) parse_watch.simps) (auto split: prod.splits sum.splits)
  have pre: "inst_pre i1" using watch_item_pre [OF 1(2) g] .
  obtain b s2 where c: "consume_char (CHR '','') s1 = (b, s2)" by fastforce
  have eq: "parse_watch inst s = (if b then parse_watch i1 s2 else (Inr i1, s2))" by (simp add: parse_watch.simps [of inst s] g c)
  show ?case
  proof (cases b)
    case True
    then show ?thesis using 1(1) [OF g [symmetric] refl c [symmetric] iffD2 [OF eq_True True] pre] 1(3) eq by simp
  qed (use eq 1(3) pre in simp)
qed

lemma inst_pre_out_update:
  assumes "inst_pre inst" "i < length (in_outputs inst)" "output_pre out" "io_phys_id out = io_phys_id (in_outputs inst ! i)"
  shows "inst_pre (inst \<lparr> in_outputs := (in_outputs inst)[i := out] \<rparr>)"
proof -
  have "map io_phys_id ((in_outputs inst)[i := out]) = map io_phys_id (in_outputs inst)"
    using assms(2,4) by (simp add: map_update) (metis list_update_id nth_map)
  then show ?thesis using assms
    by (simp add: inst_pre_def list_all_length nth_list_update watch_ok_def del: map_append)
qed

lemma out_values:
  assumes "inst_pre inst" "i < length (in_outputs inst)" "v \<le> (1 :: 16 word)"
  shows "inst_pre (inst \<lparr> in_outputs := (in_outputs inst)[i := (if k then (in_outputs inst ! i) \<lparr> io_ok_value := ucast v \<rparr>
    else (in_outputs inst ! i) \<lparr> io_err_value := ucast v \<rparr>)] \<rparr>)"
proof -
  let ?o = "if k then (in_outputs inst ! i) \<lparr> io_ok_value := ucast v \<rparr> else (in_outputs inst ! i) \<lparr> io_err_value := ucast v \<rparr>"
  have v: "(ucast v :: 8 word) \<le> 1" using ucast_small(1) [of v 1] assms(3) by simp
  have o: "output_pre (in_outputs inst ! i)" using assms(1,2) by (auto simp: inst_pre_def list_all_length)
  have "output_pre ?o" "io_phys_id ?o = io_phys_id (in_outputs inst ! i)" using o v by (auto simp: output_pre_def)
  then show ?thesis by (rule inst_pre_out_update [OF assms(1,2)])
qed

lemma out_item_pre:
  assumes "inst_pre inst" "out_item k inst s = (Inr inst', s')"
  shows "inst_pre inst'"
proof -
  from assms(2) obtain i v where "i < length (in_outputs inst)" "v \<le> (1 :: 16 word)"
    "inst' = inst \<lparr> in_outputs := (in_outputs inst)[i := (if k then (in_outputs inst ! i) \<lparr> io_ok_value := ucast v \<rparr>
      else (in_outputs inst ! i) \<lparr> io_err_value := ucast v \<rparr>)] \<rparr>"
    unfolding out_item_def
    by (auto split: prod.splits bool.splits option.splits if_splits dest!: find_output(1) simp: not_less)
  then show ?thesis using out_values [OF assms(1)] by blast
qed

lemma parse_out_block_pre: "inst_pre inst \<Longrightarrow> parse_out_block k inst s = (Inr inst', s') \<Longrightarrow> inst_pre inst'"
proof (induction k inst s arbitrary: inst' s' rule: parse_out_block.induct)
  case (1 k inst s)
  from 1(3) obtain i1 s1 where g: "out_item k inst s = (Inr i1, s1)"
    by (subst (asm) parse_out_block.simps) (auto split: prod.splits sum.splits)
  have pre: "inst_pre i1" using out_item_pre [OF 1(2) g] .
  obtain b s2 where c: "consume_char (CHR '','') s1 = (b, s2)" by fastforce
  have eq: "parse_out_block k inst s = (if b then parse_out_block k i1 s2 else (Inr i1, s2))" by (simp add: parse_out_block.simps [of k inst s] g c)
  show ?case
  proof (cases b)
    case True
    then show ?thesis using 1(1) [OF g [symmetric] refl c [symmetric] iffD2 [OF eq_True True] pre] 1(3) eq by simp
  qed (use eq 1(3) pre in simp)
qed

lemma parse_section_pre:
  assumes "inst_pre (sc_inst sc)" "parse_section sc s = (Inr sc', s')"
  shows "inst_pre (sc_inst sc')"
proof -
  from assms(2) obtain kw t t' where "section_body kw sc t = (Inr sc', t')"
    unfolding parse_section_def by (auto split: prod.splits sum.splits bool.splits option.splits)
  then show ?thesis using assms(1)
    by (auto simp: section_body_def split: if_splits prod.splits sum.splits dest: parse_cfg_pre parse_watch_pre parse_out_block_pre)
qed

lemma parse_sections_pre: "inst_pre (sc_inst sc) \<Longrightarrow> parse_sections sc s = (Inr sc', s') \<Longrightarrow> inst_pre (sc_inst sc')"
proof (induction sc s arbitrary: sc' s' rule: parse_sections.induct)
  case (1 sc s)
  obtain b s1 where c: "consume_char (CHR '';'') s = (b, s1)" by fastforce
  show ?case
  proof (cases b)
    case True
    from 1(3) obtain sc1 s2 where g: "parse_section sc s1 = (Inr sc1, s2)"
      by (auto simp: parse_sections.simps [of sc s] c True split: prod.splits sum.splits)
    have "parse_sections sc s = parse_sections sc1 s2" by (simp add: parse_sections.simps [of sc s] c True g)
    then show ?thesis
      using 1(1) [OF c [symmetric] iffD2 [OF eq_True True] g [symmetric] refl parse_section_pre [OF 1(2) g]] 1(3) by metis
  next
    case False
    then show ?thesis using 1(2,3) c by (simp add: parse_sections.simps [of sc s])
  qed
qed

lemma parse_gives_ok:
  assumes "il_parse text = Inr inst"
  shows "inst_ok inst"
proof -
  from assms obtain name s sc s1 where p: "length name < IL_NAME_MAX"
    "parse_sections \<lparr> sc_inst = zero_inst \<lparr> in_name := name \<rparr>, sc_seen_out_ok = False, sc_seen_out_err = False \<rparr> s = (Inr sc, s1)"
    "final_check sc = IL_PARSE_OK" "inst = (sc_inst sc) \<lparr> in_tf_state := IL_TF_UNEVALUATED \<rparr>"
    unfolding il_parse_def by (auto simp: Let_def not_le split: if_splits option.splits prod.splits sum.splits)
  have "inst_pre (zero_inst \<lparr> in_name := name \<rparr>)" using p(1) by (simp add: inst_pre_def zero_inst_def)
  then have pre: "inst_pre (sc_inst sc)" using parse_sections_pre [OF _ p(2)] by simp
  moreover have "list_all (\<lambda>out. io_ok_value out \<noteq> io_err_value out) (in_outputs (sc_inst sc))"
    using p(3) by (auto simp: final_check_def Let_def list_ex_iff list_all_iff split: if_splits)
  ultimately show ?thesis using p(4) by (simp add: inst_ok_def inst_pre_def watch_ok_def list_all_iff)
qed

text \<open>
  C37. The interlock parser ends on every text and what it accepts is well formed: the counts stay
  within the arrays, every watch refers to a declared input, the options fit the mode of their
  input, no pin is declared twice, and every output has two different levels.
\<close>

theorem parsed_interlock_ok:
  assumes "il_parse text = Inr inst"
  shows "inst_ok inst"
  by (rule parse_gives_ok [OF assms])

text \<open>The analog interlock that the bench test of the bus supervisor installs.\<close>

definition ana_text :: string where
  "ana_text = ''ana;cfg[(A1):adc];cfg[(D2):out];watch[A1:lt:600];out_ok[D2:0];out_err[D2:1]''"

definition ana_inst :: il_inst where
  "ana_inst = \<lparr> in_name = ''ana'', in_tf_state = 0,
     in_inputs = [\<lparr> ii_phys_id = 4, ii_mode = 4, ii_oversample_exp = 0, ii_sh_cyc = 4, ii_debounce_depth = 0, ii_hyst = 0 \<rparr>],
     in_watches = [\<lparr> iw_input_idx = 0, iw_op = IL_OP_LT, iw_threshold = 600 \<rparr>],
     in_outputs = [\<lparr> io_phys_id = 10, io_ok_value = 0, io_err_value = 1 \<rparr>] \<rparr>"

lemma ana_parsed: "il_parse ana_text = Inr ana_inst"
  by code_simp

lemma parsed_interlock_ok_witness: "il_parse ana_text = Inr ana_inst \<and> inst_ok ana_inst"
  using ana_parsed parsed_interlock_ok [OF ana_parsed] by simp

text \<open>
  Two texts on which code and description part. The grammar and its examples separate the groups
  of a cfg section by a comma, but the lookahead for the next group has consumed that comma
  when the loop over the groups asks for one: the second group is refused. And a
  threshold beyond 16 bits is not refused as out of range but truncated.
\<close>

lemma cfg_groups_refused:
  "il_parse ''g;cfg[(D1,D2):in,up,(D3):out];watch[D1:1];out_ok[D3:0];out_err[D3:1]'' = Inl (IL_PARSE_UNEXPECTED_CHAR, Some 20)"
  by code_simp

lemma threshold_truncated:
  "il_parse ''t;watch[_uptime:lt:70000]'' = Inr \<lparr> in_name = ''t'', in_tf_state = IL_TF_UNEVALUATED,
     in_inputs = [virtual_input IL_VIRT_UPTIME], in_watches = [\<lparr> iw_input_idx = 0, iw_op = IL_OP_LT, iw_threshold = 4464 \<rparr>],
     in_outputs = [] \<rparr>"
  by code_simp

end
