(* ===== verification/IL_Arm.thy ===== *)
theory IL_Arm
  imports IL_Slots IL_Claims IL_Grammar
begin

text \<open>
  Claiming the pins of an interlock: what a successful claim of all pins establishes, that it leaves
  the pins of the other slot alone, and that a failing one is undone, in the table of claims and in the
  port registers.
\<close>

section \<open>One claim\<close>

lemma ensure_idem [simp]: "ensure_initialised (ensure_initialised h) = ensure_initialised h"
  by (simp add: ensure_initialised_def)

text \<open>What is left of a claim record for the owners of the pin.\<close>

definition input_held :: "8 word \<Rightarrow> il_input \<Rightarrow> 'z hal_scheme \<Rightarrow> bool" where
  "input_held slot i h = (ii_mode i = IL_PIN_MODE_VIRTUAL \<or>
     unat (ii_phys_id i) < HAL_PIN_TABLE_SIZE \<and> hc_slot_mask (claim_at (ii_phys_id i) h) = slot_bit slot \<and>
     hc_mode (claim_at (ii_phys_id i) h) = map_input_mode (ii_mode i))"

definition output_held :: "8 word \<Rightarrow> il_output \<Rightarrow> 'z hal_scheme \<Rightarrow> bool" where
  "output_held slot out h = (let c = claim_at (io_phys_id out) h in
     unat (io_phys_id out) < HAL_PIN_TABLE_SIZE \<and> hc_slot_mask c AND slot_bit slot \<noteq> 0 \<and>
     hc_mode c = HAL_PIN_MODE_GPIO_OUT \<and> hc_ok_value c = io_ok_value out \<and> hc_err_value c = io_err_value out)"

definition pins_held :: "8 word \<Rightarrow> il_inst \<Rightarrow> 'z hal_scheme \<Rightarrow> bool" where
  "pins_held slot inst h = (list_all (\<lambda>i. input_held slot i h) (in_inputs inst) \<and> list_all (\<lambda>out. output_held slot out h) (in_outputs inst))"

text \<open>\<open>h\<close> has the claims of \<open>h0\<close> and some more of the slot, which had none.\<close>

definition claims_of_others :: "8 word \<Rightarrow> hal_pin_claim_record \<Rightarrow> hal_pin_claim_record \<Rightarrow> bool" where
  "claims_of_others slot c0 c = (hc_slot_mask c AND NOT (slot_bit slot) = hc_slot_mask c0 \<and>
     (hc_slot_mask c0 \<noteq> 0 \<longrightarrow> hc_mode c = hc_mode c0 \<and> hc_ok_value c = hc_ok_value c0 \<and> hc_err_value c = hc_err_value c0))"

definition extends_claims :: "8 word \<Rightarrow> hal \<Rightarrow> hal \<Rightarrow> bool" where
  "extends_claims slot h0 h = (hal_up h \<and> (\<forall>pid. unat pid < HAL_PIN_TABLE_SIZE \<longrightarrow> claims_of_others slot (claim_at pid h0) (claim_at pid h)))"

lemma input_modes:
  "input_ok i \<Longrightarrow> ii_mode i \<noteq> IL_PIN_MODE_VIRTUAL \<Longrightarrow> ii_mode i \<noteq> IL_PIN_MODE_ADC \<Longrightarrow>
   map_input_mode (ii_mode i) \<in> {HAL_PIN_MODE_GPIO_IN, HAL_PIN_MODE_GPIO_IN_PU, HAL_PIN_MODE_GPIO_IN_PD}"
  by (auto simp: input_ok_def map_input_mode_def split: if_splits)

text \<open>A claim that makes the slot the only owner of the pin.\<close>

definition took_pin :: "8 word \<Rightarrow> 8 word \<Rightarrow> 8 word \<Rightarrow> hal \<Rightarrow> hal \<Rightarrow> bool" where
  "took_pin slot pid mode h h' = (unat pid < HAL_PIN_TABLE_SIZE \<and> hal_up h' \<and>
     (hc_slot_mask (claim_at pid h) = 0 \<or> hc_slot_mask (claim_at pid h) = slot_bit slot) \<and>
     hc_slot_mask (claim_at pid h') = slot_bit slot \<and> hc_mode (claim_at pid h') = mode \<and> (\<forall>q. q \<noteq> pid \<longrightarrow> claim_at q h' = claim_at q h))"

lemma claim_result:
  "fst (hal_pin_claim pid slot mode h) = HAL_PIN_CLAIM_OK \<Longrightarrow> hal_up h \<Longrightarrow> unat slot < 8 \<Longrightarrow>
   took_pin slot pid mode h (snd (hal_pin_claim pid slot mode h))"
  using hal_upD(3) [of h] claim_up [of h slot pid mode] hal_upD(5) [of h] hal_up_id [of h]
  unfolding took_pin_def
  by (auto simp: hal_pin_claim_def Let_def claim_at_set port_configure_input_def split: if_splits option.splits)

lemma claim_adc_result:
  "fst (hal_pin_claim_adc pid slot ov sh h) = HAL_PIN_CLAIM_OK \<Longrightarrow> hal_up h \<Longrightarrow> unat slot < 8 \<Longrightarrow>
   took_pin slot pid HAL_PIN_MODE_ADC_SCAN h (snd (hal_pin_claim_adc pid slot ov sh h))"
  using hal_upD(3) [of h] claim_adc_up [of h slot pid ov sh] hal_upD(5) [of h] hal_up_id [of h]
  unfolding took_pin_def
  by (auto simp: hal_pin_claim_adc_def Let_def claim_at_set split: if_splits option.splits)

lemma claim_failed:
  "fst (hal_pin_claim pid slot mode h) \<noteq> HAL_PIN_CLAIM_OK \<Longrightarrow> snd (hal_pin_claim pid slot mode h) = ensure_initialised h"
  "fst (hal_pin_claim_adc pid slot ov sh h) \<noteq> HAL_PIN_CLAIM_OK \<Longrightarrow> snd (hal_pin_claim_adc pid slot ov sh h) = ensure_initialised h"
  by (auto simp: hal_pin_claim_def hal_pin_claim_adc_def Let_def split: if_splits option.splits)

lemma claim_output_result:
  assumes "fst (hal_pin_claim_output pid slot ok err h) = HAL_PIN_CLAIM_OK" "hal_ok h"
  shows "unat pid < HAL_PIN_TABLE_SIZE"
    "claim_at q (snd (hal_pin_claim_output pid slot ok err h)) = (if q \<noteq> pid then claim_at q (ensure_initialised h)
      else if hc_slot_mask (claim_at pid (ensure_initialised h)) = 0 then claim_at pid (ensure_initialised h)
        \<lparr> hc_slot_mask := slot_bit slot, hc_mode := HAL_PIN_MODE_GPIO_OUT, hc_ok_value := ok, hc_err_value := err \<rparr>
      else claim_at pid (ensure_initialised h) \<lparr> hc_slot_mask := hc_slot_mask (claim_at pid (ensure_initialised h)) OR slot_bit slot \<rparr>)"
    "hc_slot_mask (claim_at pid (ensure_initialised h)) \<noteq> 0 \<Longrightarrow> hc_mode (claim_at pid (ensure_initialised h)) = HAL_PIN_MODE_GPIO_OUT \<and>
      hc_ok_value (claim_at pid (ensure_initialised h)) = ok \<and> hc_err_value (claim_at pid (ensure_initialised h)) = err"
  using assms hal_upD(3) [OF hal_up_init [OF assms(2)]]
  by (auto simp: hal_pin_claim_output_def Let_def claim_at_set port_configure_output_def split: if_splits option.splits)

lemma claim_output_failed:
  "fst (hal_pin_claim_output pid slot ok err h) \<noteq> HAL_PIN_CLAIM_OK \<Longrightarrow> snd (hal_pin_claim_output pid slot ok err h) = ensure_initialised h"
  by (auto simp: hal_pin_claim_output_def Let_def split: if_splits option.splits)

section \<open>The claims of an interlock\<close>

lemma extends_up: "extends_claims slot h0 h \<Longrightarrow> hal_up h \<and> ensure_initialised h = h"
  by (simp add: extends_claims_def hal_up_id)

lemma extends_refl:
  assumes "hal_up h" "\<forall>pid. unat pid < HAL_PIN_TABLE_SIZE \<longrightarrow> hc_slot_mask (claim_at pid h) AND slot_bit slot = 0"
  shows "extends_claims slot h h"
  using assms clear_bit_slot by (auto simp: extends_claims_def claims_of_others_def)

lemma or_clear: "(m OR slot_bit slot) AND NOT (slot_bit slot) = m AND NOT (slot_bit slot)"
  by (rule bit_eqI) (auto simp: bit_simps)

lemma claim_input_step:
  assumes "extends_claims slot h0 h" "unat slot < 8" "claim_input slot i h = (cs, h')"
  shows "extends_claims slot h0 h'" "q \<noteq> ii_phys_id i \<or> ii_mode i = IL_PIN_MODE_VIRTUAL \<Longrightarrow> claim_at q h' = claim_at q h"
    "cs = HAL_PIN_CLAIM_OK \<Longrightarrow> input_held slot i h'"
proof -
  note u = extends_up [OF assms(1)]
  let ?pid = "ii_phys_id i"
  have shape: "h' = h \<and> (cs = HAL_PIN_CLAIM_OK \<longrightarrow> ii_mode i = IL_PIN_MODE_VIRTUAL) \<or>
    ii_mode i \<noteq> IL_PIN_MODE_VIRTUAL \<and> took_pin slot ?pid (map_input_mode (ii_mode i)) h h'"
  proof (cases "ii_mode i = IL_PIN_MODE_VIRTUAL \<or> ii_mode i \<noteq> IL_PIN_MODE_ADC \<and> map_input_mode (ii_mode i) = HAL_PIN_MODE_UNCLAIMED")
    case True
    then show ?thesis using assms(3) by (auto simp: claim_input_def split: if_splits)
  next
    case ph: False
    have m: "ii_mode i = IL_PIN_MODE_ADC \<Longrightarrow> map_input_mode (ii_mode i) = HAL_PIN_MODE_ADC_SCAN" by (simp add: map_input_mode_def il_modes)
    have r: "(if ii_mode i = IL_PIN_MODE_ADC then hal_pin_claim_adc ?pid slot (ii_oversample_exp i) (ii_sh_cyc i) h
      else hal_pin_claim ?pid slot (map_input_mode (ii_mode i)) h) = (cs, h')" using assms(3) ph by (auto simp: claim_input_def)
    show ?thesis
      using r u ph m claim_failed(1) [of ?pid slot "map_input_mode (ii_mode i)" h] claim_failed(2) [of ?pid slot "ii_oversample_exp i" "ii_sh_cyc i" h]
        claim_result [of ?pid slot "map_input_mode (ii_mode i)" h] claim_adc_result [of ?pid slot "ii_oversample_exp i" "ii_sh_cyc i" h] assms(2)
      by (cases "cs = HAL_PIN_CLAIM_OK"; cases "ii_mode i = IL_PIN_MODE_ADC") auto
  qed
  have "claims_of_others slot (claim_at q h0) (claim_at q h')" if "unat q < HAL_PIN_TABLE_SIZE" "took_pin slot ?pid (map_input_mode (ii_mode i)) h h'" for q
    using assms(1) that by (cases "q = ?pid") (auto simp: extends_claims_def claims_of_others_def took_pin_def)
  then show "extends_claims slot h0 h'" using shape assms(1) by (auto simp: extends_claims_def took_pin_def)
  show "q \<noteq> ii_phys_id i \<or> ii_mode i = IL_PIN_MODE_VIRTUAL \<Longrightarrow> claim_at q h' = claim_at q h" using shape by (auto simp: took_pin_def)
  show "cs = HAL_PIN_CLAIM_OK \<Longrightarrow> input_held slot i h'" using shape by (auto simp: input_held_def took_pin_def)
qed

lemma claim_output_step:
  assumes "extends_claims slot h0 h" "unat slot < 8" "claim_one_output slot out h = (cs, h')"
  shows "extends_claims slot h0 h'" "q \<noteq> io_phys_id out \<Longrightarrow> claim_at q h' = claim_at q h"
    "cs = HAL_PIN_CLAIM_OK \<Longrightarrow> output_held slot out h'"
proof -
  note u = extends_up [OF assms(1)]
  let ?pid = "io_phys_id out"
  have r: "hal_pin_claim_output ?pid slot (io_ok_value out) (io_err_value out) h = (cs, h')"
    using assms(3) by (simp add: claim_one_output_def)
  have up: "hal_up h'" using claim_output_up [OF hal_upD(5) [OF conjunct1 [OF u]] assms(2), of ?pid "io_ok_value out" "io_err_value out"] r by simp
  note res = claim_output_result [of ?pid slot "io_ok_value out" "io_err_value out" h, unfolded r fst_conv snd_conv conjunct2 [OF u], OF _ hal_upD(5) [OF conjunct1 [OF u]]]
  have failed: "cs \<noteq> HAL_PIN_CLAIM_OK \<Longrightarrow> h' = h"
    using claim_output_failed [of ?pid slot "io_ok_value out" "io_err_value out" h] r u by simp
  show same: "q \<noteq> ?pid \<Longrightarrow> claim_at q h' = claim_at q h" for q
    using failed res(2) [of q] by (cases "cs = HAL_PIN_CLAIM_OK") simp_all
  have "claims_of_others slot (claim_at q h0) (claim_at q h')" if "unat q < HAL_PIN_TABLE_SIZE" for q
  proof (cases "q = ?pid \<and> cs = HAL_PIN_CLAIM_OK")
    case True
    then show ?thesis using assms(1) that res(2) [of q]
      by (auto simp: extends_claims_def claims_of_others_def or_clear split: if_splits)
  next
    case False
    then have "claim_at q h' = claim_at q h" using same [of q] failed by auto
    then show ?thesis using assms(1) that by (simp add: extends_claims_def)
  qed
  then show "extends_claims slot h0 h'" using up by (simp add: extends_claims_def)
  show "output_held slot out h'" if "cs = HAL_PIN_CLAIM_OK"
    using res(1) [OF that] res(2) [OF that, of ?pid] res(3) [OF that] one_slot_bit(2) [OF assms(2)]
    by (auto simp: output_held_def Let_def or_eq_0_iff word_bw_comms split: if_splits)
qed

lemma claim_each_steps:
  assumes "\<And>x h cs h'. I h \<Longrightarrow> f x h = (cs, h') \<Longrightarrow>
      I h' \<and> (\<forall>q. q \<noteq> pid x \<longrightarrow> claim_at q h' = claim_at q h) \<and> (cs = HAL_PIN_CLAIM_OK \<longrightarrow> held x h')"
    and "\<And>x h h'. claim_at (pid x) h' = claim_at (pid x) h \<Longrightarrow> held x h \<Longrightarrow> held x h'"
  shows "distinct (map pid xs) \<Longrightarrow> I h \<Longrightarrow> claim_each f xs h = (cs, h') \<Longrightarrow>
    I h' \<and> (\<forall>q. q \<notin> pid ` set xs \<longrightarrow> claim_at q h' = claim_at q h) \<and> (cs = HAL_PIN_CLAIM_OK \<longrightarrow> (\<forall>x \<in> set xs. held x h'))"
proof (induction xs arbitrary: h)
  case (Cons x xs)
  obtain c1 h1 where step: "f x h = (c1, h1)" by fastforce
  note s = assms(1) [OF Cons.prems(2) step]
  show ?case
  proof (cases "c1 = HAL_PIN_CLAIM_OK")
    case True
    with Cons.prems(3) step have rest: "claim_each f xs h1 = (cs, h')" by simp
    from Cons.IH [OF _ _ rest] Cons.prems(1) s
    have ih: "I h'" "\<And>q. q \<notin> pid ` set xs \<Longrightarrow> claim_at q h' = claim_at q h1" "cs = HAL_PIN_CLAIM_OK \<longrightarrow> (\<forall>x \<in> set xs. held x h')" by auto
    have "held x h'" using assms(2) [of x h' h1] ih(2) [of "pid x"] Cons.prems(1) s True by auto
    then show ?thesis using ih s by auto
  next
    case False
    then show ?thesis using Cons.prems(3) step s by auto
  qed
qed simp

lemma held_local:
  "claim_at (ii_phys_id i) h' = claim_at (ii_phys_id i) h \<Longrightarrow> input_held slot i h \<Longrightarrow> input_held slot i h'"
  "claim_at (io_phys_id out) h' = claim_at (io_phys_id out) h \<Longrightarrow> output_held slot out h \<Longrightarrow> output_held slot out h'"
  by (simp_all add: input_held_def output_held_def Let_def)

text \<open>A release keeps the claims of the pins that still have an owner.\<close>

lemma release_pin_keeps:
  assumes "length (hp_claims h) = HAL_PIN_TABLE_SIZE" "unat pid < HAL_PIN_TABLE_SIZE"
  shows "length (hp_claims (release_pin slot pid h)) = HAL_PIN_TABLE_SIZE"
    "hc_slot_mask (claim_at q h) AND NOT (slot_bit slot) \<noteq> 0 \<Longrightarrow>
     \<exists>m. claim_at q (release_pin slot pid h) = claim_at q h \<lparr> hc_slot_mask := m \<rparr> \<and>
       m AND NOT (slot_bit slot) = hc_slot_mask (claim_at q h) AND NOT (slot_bit slot)"
proof -
  show "length (hp_claims (release_pin slot pid h)) = HAL_PIN_TABLE_SIZE"
    using assms by (simp add: release_pin_def Let_def port_reset_to_safe_def)
  have eq: "\<exists>m. claim_at q h = claim_at q h \<lparr> hc_slot_mask := m \<rparr> \<and>
       m AND NOT (slot_bit slot) = hc_slot_mask (claim_at q h) AND NOT (slot_bit slot)"
    by (rule exI [of _ "hc_slot_mask (claim_at q h)"]) simp
  show "hc_slot_mask (claim_at q h) AND NOT (slot_bit slot) \<noteq> 0 \<Longrightarrow>
     \<exists>m. claim_at q (release_pin slot pid h) = claim_at q h \<lparr> hc_slot_mask := m \<rparr> \<and>
       m AND NOT (slot_bit slot) = hc_slot_mask (claim_at q h) AND NOT (slot_bit slot)"
    using assms eq by (auto simp: release_pin_def Let_def claim_at_set port_reset_to_safe_def word_bw_assocs)
qed

lemma release_keeps:
  assumes "hal_ok h" "hc_slot_mask (claim_at q (ensure_initialised h)) AND NOT (slot_bit slot) \<noteq> 0"
  shows "hc_mode (claim_at q (hal_pin_release_slot slot h)) = hc_mode (claim_at q (ensure_initialised h))"
    "hc_ok_value (claim_at q (hal_pin_release_slot slot h)) = hc_ok_value (claim_at q (ensure_initialised h))"
    "hc_err_value (claim_at q (hal_pin_release_slot slot h)) = hc_err_value (claim_at q (ensure_initialised h))"
proof -
  have *: "\<exists>m. claim_at q (fold (release_pin slot) ps h') = claim_at q h' \<lparr> hc_slot_mask := m \<rparr>"
    if "length (hp_claims h') = HAL_PIN_TABLE_SIZE" "\<forall>p \<in> set ps. unat p < HAL_PIN_TABLE_SIZE"
      "hc_slot_mask (claim_at q h') AND NOT (slot_bit slot) \<noteq> 0" for ps h'
    using that
  proof (induction ps arbitrary: h')
    case Nil
    show ?case by (rule exI [of _ "hc_slot_mask (claim_at q h')"]) simp
  next
    case (Cons p ps)
    obtain m where m: "claim_at q (release_pin slot p h') = claim_at q h' \<lparr> hc_slot_mask := m \<rparr>"
      "m AND NOT (slot_bit slot) = hc_slot_mask (claim_at q h') AND NOT (slot_bit slot)"
      using release_pin_keeps(2) [OF Cons.prems(1), of p q slot] Cons.prems(2,3) by auto
    have "\<exists>m'. claim_at q (fold (release_pin slot) ps (release_pin slot p h')) = claim_at q (release_pin slot p h') \<lparr> hc_slot_mask := m' \<rparr>"
      using Cons.prems m release_pin_keeps(1) [OF Cons.prems(1), of p slot] by (intro Cons.IH) simp_all
    then show ?case using m(1) by auto
  qed
  from * [OF hal_upD(3) [OF hal_up_init [OF assms(1)]] _ assms(2), of all_pins]
  obtain m where "claim_at q (hal_pin_release_slot slot h) = claim_at q (ensure_initialised h) \<lparr> hc_slot_mask := m \<rparr>"
    by (auto simp: all_pins_set hal_pin_release_slot_def)
  then show "hc_mode (claim_at q (hal_pin_release_slot slot h)) = hc_mode (claim_at q (ensure_initialised h))"
    "hc_ok_value (claim_at q (hal_pin_release_slot slot h)) = hc_ok_value (claim_at q (ensure_initialised h))"
    "hc_err_value (claim_at q (hal_pin_release_slot slot h)) = hc_err_value (claim_at q (ensure_initialised h))" by simp_all
qed

text \<open>The claims as their owners see them; the port registers are \<open>same_ports\<close>.\<close>

definition same_claims :: "hal \<Rightarrow> hal \<Rightarrow> bool" where
  "same_claims h0 h = (\<forall>pid. unat pid < HAL_PIN_TABLE_SIZE \<longrightarrow> hc_slot_mask (claim_at pid h) = hc_slot_mask (claim_at pid h0) \<and>
     (hc_slot_mask (claim_at pid h0) \<noteq> 0 \<longrightarrow> hc_mode (claim_at pid h) = hc_mode (claim_at pid h0) \<and>
       hc_ok_value (claim_at pid h) = hc_ok_value (claim_at pid h0) \<and> hc_err_value (claim_at pid h) = hc_err_value (claim_at pid h0)))"

lemma release_undoes:
  assumes "extends_claims slot h0 h"
  shows "hal_up (hal_pin_release_slot slot h)" "same_claims h0 (hal_pin_release_slot slot h)"
proof -
  note u = extends_up [OF assms]
  note hok = hal_upD(5) [OF conjunct1 [OF u]]
  show "hal_up (hal_pin_release_slot slot h)" by (rule release_up(1) [OF hok])
  show "same_claims h0 (hal_pin_release_slot slot h)"
    using assms u release_up(2) [OF hok] release_keeps [OF hok, of _ slot]
    by (simp add: same_claims_def extends_claims_def claims_of_others_def)
qed

definition inst_pins :: "il_inst \<Rightarrow> 8 word set" where
  "inst_pins inst = ii_phys_id ` set (in_inputs inst) \<union> io_phys_id ` set (in_outputs inst)"

lemma claim_inst_up:
  assumes "hal_up h" "unat slot < 8" "inst_pre inst" "claim_inst_pins slot inst h = (cs, h')"
    "\<forall>pid. unat pid < HAL_PIN_TABLE_SIZE \<longrightarrow> hc_slot_mask (claim_at pid h) AND slot_bit slot = 0"
  shows "cs = HAL_PIN_CLAIM_OK \<Longrightarrow> extends_claims slot h h' \<and> pins_held slot inst h' \<and>
      (\<forall>q. q \<notin> inst_pins inst \<longrightarrow> claim_at q h' = claim_at q h)"
    "cs \<noteq> HAL_PIN_CLAIM_OK \<Longrightarrow> hal_up h' \<and> same_claims h h'"
proof -
  have d: "distinct (map ii_phys_id (in_inputs inst))" "distinct (map io_phys_id (in_outputs inst))"
    "ii_phys_id ` set (in_inputs inst) \<inter> io_phys_id ` set (in_outputs inst) = {}"
    using assms(3) by (auto simp: inst_pre_def)
  obtain c1 h1 where ins: "claim_each (claim_input slot) (in_inputs inst) h = (c1, h1)" by fastforce
  obtain c2 h2 where outs: "claim_each (claim_one_output slot) (in_outputs inst) h1 = (c2, h2)" by fastforce
  have a: "extends_claims slot h h1 \<and> (\<forall>q. q \<notin> ii_phys_id ` set (in_inputs inst) \<longrightarrow> claim_at q h1 = claim_at q h) \<and>
    (c1 = HAL_PIN_CLAIM_OK \<longrightarrow> (\<forall>i \<in> set (in_inputs inst). input_held slot i h1))"
    by (rule claim_each_steps [where I = "extends_claims slot h" and held = "input_held slot", OF _ held_local(1) d(1) extends_refl [OF assms(1,5)] ins])
      (use claim_input_step [OF _ assms(2)] in blast)
  then have b: "extends_claims slot h h2 \<and> (\<forall>q. q \<notin> io_phys_id ` set (in_outputs inst) \<longrightarrow> claim_at q h2 = claim_at q h1) \<and>
    (c2 = HAL_PIN_CLAIM_OK \<longrightarrow> (\<forall>out \<in> set (in_outputs inst). output_held slot out h2))"
    by (intro claim_each_steps [where I = "extends_claims slot h" and held = "output_held slot", OF _ held_local(2) d(2) _ outs]) (use claim_output_step [OF _ assms(2)] in blast)+
  have still: "input_held slot i h2" if "i \<in> set (in_inputs inst)" "c1 = HAL_PIN_CLAIM_OK" for i
  proof -
    have "ii_phys_id i \<notin> io_phys_id ` set (in_outputs inst)" using d(3) that(1) by blast
    then show ?thesis using a b that held_local(1) [of i h2 h1 slot] by blast
  qed
  have r: "(cs, h') = (if c1 \<noteq> HAL_PIN_CLAIM_OK then (c1, hal_pin_release_slot slot h1)
    else if c2 \<noteq> HAL_PIN_CLAIM_OK then (c2, hal_pin_release_slot slot h2) else (HAL_PIN_CLAIM_OK, h2))"
    using assms(4) ins outs by (auto simp: claim_inst_pins_def split: if_splits)
  show "cs = HAL_PIN_CLAIM_OK \<Longrightarrow> extends_claims slot h h' \<and> pins_held slot inst h' \<and>
      (\<forall>q. q \<notin> inst_pins inst \<longrightarrow> claim_at q h' = claim_at q h)"
    using r a b still by (auto simp: pins_held_def inst_pins_def list_all_iff split: if_splits)
  show "cs \<noteq> HAL_PIN_CLAIM_OK \<Longrightarrow> hal_up h' \<and> same_claims h h'"
    using r a b release_undoes by (auto split: if_splits)
qed

text \<open>The table is set up by the first operation that looks at it; that makes no difference to what follows.\<close>

lemma claim_set_up:
  "hal_pin_claim pid slot mode (ensure_initialised h) = hal_pin_claim pid slot mode h"
  "hal_pin_claim_adc pid slot ov sh (ensure_initialised h) = hal_pin_claim_adc pid slot ov sh h"
  "hal_pin_claim_output pid slot ok err (ensure_initialised h) = hal_pin_claim_output pid slot ok err h"
  "hal_pin_release_slot slot (ensure_initialised h) = hal_pin_release_slot slot h"
  "hal_pin_drive_outputs v (ensure_initialised h) = hal_pin_drive_outputs v h"
  by (simp_all add: hal_pin_claim_def hal_pin_claim_adc_def hal_pin_claim_output_def hal_pin_release_slot_def hal_pin_drive_outputs_def)

lemma claim_initialised:
  "hal_ok h \<Longrightarrow> unat slot < 8 \<Longrightarrow> ensure_initialised (snd (hal_pin_claim pid slot mode h)) = snd (hal_pin_claim pid slot mode h)"
  "hal_ok h \<Longrightarrow> unat slot < 8 \<Longrightarrow> ensure_initialised (snd (hal_pin_claim_adc pid slot ov sh h)) = snd (hal_pin_claim_adc pid slot ov sh h)"
  "hal_ok h \<Longrightarrow> unat slot < 8 \<Longrightarrow> ensure_initialised (snd (hal_pin_claim_output pid slot ok err h)) = snd (hal_pin_claim_output pid slot ok err h)"
  "hal_ok h \<Longrightarrow> ensure_initialised (hal_pin_release_slot slot h) = hal_pin_release_slot slot h"
  by (rule hal_up_id, rule claim_up claim_adc_up claim_output_up release_up; assumption)+

lemma claim_each_set_up:
  assumes "\<And>x h. hal_ok h \<Longrightarrow> f x (ensure_initialised h) = (fst (f x h), ensure_initialised (snd (f x h))) \<and> hal_ok (snd (f x h))"
  shows "hal_ok h \<Longrightarrow> claim_each f xs (ensure_initialised h) = (fst (claim_each f xs h), ensure_initialised (snd (claim_each f xs h))) \<and>
    hal_ok (snd (claim_each f xs h))"
proof (induction xs arbitrary: h)
  case (Cons x xs)
  obtain c h1 where "f x h = (c, h1)" by fastforce
  then show ?case using assms [OF Cons.prems, of x] Cons.IH [of h1] by simp
qed simp

lemma claim_inst_set_up:
  assumes "hal_ok h" "unat slot < 8"
  shows "claim_inst_pins slot inst (ensure_initialised h) = (fst (claim_inst_pins slot inst h), ensure_initialised (snd (claim_inst_pins slot inst h)))"
    "hal_ok (snd (claim_inst_pins slot inst h))"
proof -
  have a: "claim_input slot i (ensure_initialised h) = (fst (claim_input slot i h), ensure_initialised (snd (claim_input slot i h))) \<and>
    hal_ok (snd (claim_input slot i h))" if "hal_ok h" for i h
    using claim_initialised(1,2) [OF that assms(2)] that hal_upD(5) [OF claim_up [OF that assms(2)]] hal_upD(5) [OF claim_adc_up [OF that assms(2)]]
    by (simp add: claim_input_def claim_set_up prod_eq_iff)
  have b: "claim_one_output slot out (ensure_initialised h) = (fst (claim_one_output slot out h), ensure_initialised (snd (claim_one_output slot out h))) \<and>
    hal_ok (snd (claim_one_output slot out h))" if "hal_ok h" for out h
    using claim_initialised(3) [OF that assms(2)] hal_upD(5) [OF claim_output_up [OF that assms(2)]]
    by (simp add: claim_one_output_def claim_set_up prod_eq_iff)
  obtain c1 h1 where ins: "claim_each (claim_input slot) (in_inputs inst) h = (c1, h1)" by fastforce
  obtain c2 h2 where outs: "claim_each (claim_one_output slot) (in_outputs inst) h1 = (c2, h2)" by fastforce
  note e1 = claim_each_set_up [where f = "claim_input slot", OF a assms(1), of "in_inputs inst", unfolded ins fst_conv snd_conv]
  note e2 = claim_each_set_up [where f = "claim_one_output slot", OF b conjunct2 [OF e1], of "in_outputs inst", unfolded outs fst_conv snd_conv]
  show "claim_inst_pins slot inst (ensure_initialised h) = (fst (claim_inst_pins slot inst h), ensure_initialised (snd (claim_inst_pins slot inst h)))"
    "hal_ok (snd (claim_inst_pins slot inst h))"
    using ins outs e1 e2 claim_initialised(4) [of h1 slot] claim_initialised(4) [of h2 slot]
      hal_upD(5) [OF release_up(1), of h1 slot] hal_upD(5) [OF release_up(1), of h2 slot]
    by (simp_all add: claim_inst_pins_def claim_set_up)
qed

section \<open>The port registers of a claim that failed\<close>

text \<open>The direction, the output latch and the configuration of a pin.\<close>

definition pin_cfg :: "8 word \<Rightarrow> hal \<Rightarrow> pincfg option" where
  "pin_cfg pid h = (let cs = pg_pincfg (hp_group h ! unat (BOARD_PHYS_PIN_PORT pid)); k = unat (BOARD_PHYS_PIN_PIN pid) in
     if k < length cs then Some (cs ! k) else None)"

definition pin_regs :: "8 word \<Rightarrow> hal \<Rightarrow> bool \<times> bool \<times> pincfg option" where
  "pin_regs pid h = (dir_bit pid h, out_bit pid h, pin_cfg pid h)"

text \<open>What \<open>port_reset_to_safe\<close> leaves: an input without buffer, pull or peripheral, and a low latch.\<close>

definition pin_safe :: "8 word \<Rightarrow> hal \<Rightarrow> bool" where
  "pin_safe pid h = (\<not> dir_bit pid h \<and> \<not> out_bit pid h \<and>
     (\<forall>c \<in> set_option (pin_cfg pid h). c = \<lparr> pc_pmuxen = False, pc_inen = False, pc_pullen = False \<rparr>))"

definition local_cfg :: "8 word \<Rightarrow> (port_group \<Rightarrow> port_group) \<Rightarrow> bool" where
  "local_cfg pin f = (\<forall>g. length (pg_pincfg (f g)) = length (pg_pincfg g) \<and> (\<forall>k. k \<noteq> unat pin \<longrightarrow> pg_pincfg (f g) ! k = pg_pincfg g ! k))"

lemma group_cfgs [simp]:
  "pg_pincfg (dirset m g) = pg_pincfg g" "pg_pincfg (dirclr m g) = pg_pincfg g" "pg_pincfg (outset m g) = pg_pincfg g"
  "pg_pincfg (outclr m g) = pg_pincfg g" "pg_pincfg (upd_cfg pin f g) = (pg_pincfg g)[unat pin := f (pg_pincfg g ! unat pin)]"
  by (simp_all add: dirset_def dirclr_def outset_def outclr_def upd_cfg_def)

lemma pin_regs_simps [simp]:
  "pin_regs q (set_claim p f h) = pin_regs q h" "pin_regs q (ensure_initialised h) = pin_regs q h"
  "pin_safe q (set_claim p f h) = pin_safe q h"
  by (simp_all add: pin_regs_def pin_safe_def pin_cfg_def dir_bit_def out_bit_def ensure_initialised_def)

lemma regs_elsewhere:
  assumes "local_to (BOARD_PHYS_PIN_PIN p) f" "local_cfg (BOARD_PHYS_PIN_PIN p) f" "unat p < HAL_PIN_TABLE_SIZE" "unat q < HAL_PIN_TABLE_SIZE"
    "q \<noteq> p" "length (hp_group h) = 2"
  shows "pin_regs q (upd_group (BOARD_PHYS_PIN_PORT p) f h) = pin_regs q h"
proof -
  have "pin_cfg q (upd_group (BOARD_PHYS_PIN_PORT p) f h) = pin_cfg q h"
    using assms same_place [OF assms(4,3)] phys_index(2) [OF assms(3)]
    by (auto simp: pin_cfg_def Let_def upd_group_def nth_list_update local_cfg_def)
  then show ?thesis using local_bits [OF assms(1,3-6)] by (simp add: pin_regs_def)
qed

lemma configure_elsewhere:
  assumes "unat p < HAL_PIN_TABLE_SIZE" "unat q < HAL_PIN_TABLE_SIZE" "q \<noteq> p" "length (hp_group h) = 2"
  shows "pin_regs q (port_configure_input (BOARD_PHYS_PIN_PORT p) (BOARD_PHYS_PIN_PIN p) mode h) = pin_regs q h"
    "pin_regs q (port_configure_output (BOARD_PHYS_PIN_PORT p) (BOARD_PHYS_PIN_PIN p) h) = pin_regs q h"
    "pin_regs q (port_reset_to_safe (BOARD_PHYS_PIN_PORT p) (BOARD_PHYS_PIN_PIN p) h) = pin_regs q h"
  unfolding port_configure_input_def port_configure_output_def port_reset_to_safe_def Let_def
  by (rule regs_elsewhere [OF _ _ assms], rule local_configure, simp add: local_cfg_def)+

lemma reset_safe:
  assumes "unat p < HAL_PIN_TABLE_SIZE" "length (hp_group h) = 2"
  shows "pin_safe p (port_reset_to_safe (BOARD_PHYS_PIN_PORT p) (BOARD_PHYS_PIN_PIN p) h)"
proof -
  note i = phys_index(2,4) [OF assms(1)]
  show ?thesis
    unfolding port_reset_to_safe_def Let_def pin_safe_def here_bits [OF assms] pin_cfg_def
    using i assms(2) by (auto simp: bit_and_iff bit_not_iff bit_pin_mask upd_group_def)
qed

text \<open>
  All this needs of the tables is their sizes and the owner masks: other writers of the port registers do
  not matter. While the claims of a slot go on, only registers of pins that it has newly taken change.
\<close>

definition table_ok :: "hal \<Rightarrow> bool" where
  "table_ok h = (length (hp_group h) = 2 \<and> hp_claims_initialised h \<and> length (hp_claims h) = HAL_PIN_TABLE_SIZE)"

definition extends_masks :: "8 word \<Rightarrow> hal \<Rightarrow> hal \<Rightarrow> bool" where
  "extends_masks slot h0 h = (table_ok h \<and> (\<forall>pid. unat pid < HAL_PIN_TABLE_SIZE \<longrightarrow>
     hc_slot_mask (claim_at pid h) AND NOT (slot_bit slot) = hc_slot_mask (claim_at pid h0)))"

lemma table_up: "table_ok h \<Longrightarrow> ensure_initialised h = h"
  by (simp add: table_ok_def ensure_initialised_def)

lemma table_init: "length (hp_group h) = 2 \<Longrightarrow> (hp_claims_initialised h \<Longrightarrow> length (hp_claims h) = HAL_PIN_TABLE_SIZE) \<Longrightarrow> table_ok (ensure_initialised h)"
  by (simp add: table_ok_def ensure_initialised_def)

lemma extends_masks_set:
  assumes "extends_masks slot h0 h" "unat pid < HAL_PIN_TABLE_SIZE" "hp_claims u = hp_claims h" "hp_claims_initialised u = hp_claims_initialised h"
    "length (hp_group u) = length (hp_group h)"
    "hc_slot_mask (F (claim_at pid h)) AND NOT (slot_bit slot) = hc_slot_mask (claim_at pid h) AND NOT (slot_bit slot)"
  shows "extends_masks slot h0 (set_claim pid F u)"
proof -
  have "claim_at q u = claim_at q h" for q using assms(3) by (simp add: claim_at_def)
  then show ?thesis using assms by (simp add: extends_masks_def table_ok_def claim_at_set)
qed

definition ports_kept :: "8 word \<Rightarrow> hal \<Rightarrow> hal \<Rightarrow> bool" where
  "ports_kept slot h0 h = (\<forall>pid. unat pid < HAL_PIN_TABLE_SIZE \<longrightarrow>
     hc_slot_mask (claim_at pid h0) \<noteq> 0 \<or> hc_slot_mask (claim_at pid h) AND slot_bit slot = 0 \<longrightarrow> pin_regs pid h = pin_regs pid h0)"

definition same_ports :: "hal \<Rightarrow> hal \<Rightarrow> bool" where
  "same_ports h0 h = (\<forall>pid. unat pid < HAL_PIN_TABLE_SIZE \<longrightarrow>
     pin_regs pid h = pin_regs pid h0 \<or> hc_slot_mask (claim_at pid h0) = 0 \<and> pin_safe pid h)"

lemma ports_kept_step:
  assumes "ports_kept slot h0 h" "\<And>q. unat q < HAL_PIN_TABLE_SIZE \<Longrightarrow> q \<noteq> pid \<Longrightarrow> pin_regs q h' = pin_regs q h \<and> claim_at q h' = claim_at q h"
    "pin_regs pid h' = pin_regs pid h \<and> (hc_slot_mask (claim_at pid h') AND slot_bit slot = 0 \<longrightarrow> hc_slot_mask (claim_at pid h) AND slot_bit slot = 0) \<or>
     hc_slot_mask (claim_at pid h0) = 0 \<and> hc_slot_mask (claim_at pid h') AND slot_bit slot \<noteq> 0"
  shows "ports_kept slot h0 h'"
  unfolding ports_kept_def
proof (intro allI impI)
  fix q :: "8 word"
  assume q: "unat q < HAL_PIN_TABLE_SIZE" "hc_slot_mask (claim_at q h0) \<noteq> 0 \<or> hc_slot_mask (claim_at q h') AND slot_bit slot = 0"
  show "pin_regs q h' = pin_regs q h0"
    using assms(1,3) assms(2) [of q] q by (cases "q = pid") (auto simp: ports_kept_def)
qed

lemma ports_kept_refl: "ports_kept slot h h"
  by (simp add: ports_kept_def)

text \<open>A pin that the slot alone owns or nobody owns had no owner before.\<close>

lemma extends_fresh:
  "extends_masks slot h0 h \<Longrightarrow> unat pid < HAL_PIN_TABLE_SIZE \<Longrightarrow>
   hc_slot_mask (claim_at pid h) = 0 \<or> hc_slot_mask (claim_at pid h) = slot_bit slot \<Longrightarrow> hc_slot_mask (claim_at pid h0) = 0"
  by (auto simp: extends_masks_def)

lemma claim_cases:
  "(\<exists>bp u. find_board_pin pid = Some bp \<and> (hc_slot_mask (claim_at pid (ensure_initialised h)) = 0 \<or> hc_slot_mask (claim_at pid (ensure_initialised h)) = slot_bit slot) \<and>
      (u = ensure_initialised h \<or> u = port_configure_input (bp_port bp) (bp_pin bp) mode (ensure_initialised h)) \<and>
      snd (hal_pin_claim pid slot mode h) = set_claim pid (\<lambda>c. c \<lparr> hc_slot_mask := slot_bit slot, hc_mode := mode, hc_ok_value := 0, hc_err_value := 0 \<rparr>) u) \<or>
   snd (hal_pin_claim pid slot mode h) = ensure_initialised h"
  by (simp add: hal_pin_claim_def Let_def split: option.split) blast

lemma claim_adc_ports:
  "snd (hal_pin_claim_adc pid slot ov sh h) = ensure_initialised h \<or>
   (\<exists>F. unat pid < HAL_PIN_TABLE_SIZE \<and>
     (hc_slot_mask (claim_at pid (ensure_initialised h)) = 0 \<or> hc_slot_mask (claim_at pid (ensure_initialised h)) = slot_bit slot) \<and>
     snd (hal_pin_claim_adc pid slot ov sh h) = set_claim pid F (ensure_initialised h) \<and>
     (\<forall>c. hc_slot_mask (F c) = slot_bit slot))"
  by (auto simp: hal_pin_claim_adc_def Let_def split: option.split)

definition kept_or_new :: "8 word \<Rightarrow> hal \<Rightarrow> hal \<Rightarrow> bool" where
  "kept_or_new slot h0 h = (extends_masks slot h0 h \<and> ports_kept slot h0 h)"

lemma kept_take:
  assumes "kept_or_new slot h0 h" "unat slot < 8" "unat pid < HAL_PIN_TABLE_SIZE"
    "hc_slot_mask (claim_at pid h) = 0 \<or> hc_slot_mask (claim_at pid h) = slot_bit slot"
    "u = h \<or> u = port_configure_input (BOARD_PHYS_PIN_PORT pid) (BOARD_PHYS_PIN_PIN pid) mode h \<or>
     u = port_configure_output (BOARD_PHYS_PIN_PORT pid) (BOARD_PHYS_PIN_PIN pid) h"
    "\<And>c. hc_slot_mask (F c) = slot_bit slot"
  shows "kept_or_new slot h0 (set_claim pid F u)"
proof -
  have e: "extends_masks slot h0 h" "ports_kept slot h0 h" "length (hp_group h) = 2" "length (hp_claims h) = HAL_PIN_TABLE_SIZE"
    using assms(1) by (simp_all add: kept_or_new_def extends_masks_def table_ok_def)
  have c: "claim_at q u = claim_at q h" "hp_claims u = hp_claims h" "hp_claims_initialised u = hp_claims_initialised h"
    "length (hp_group u) = length (hp_group h)" for q
    using assms(5) by (auto simp: port_configure_input_def port_configure_output_def)
  have "ports_kept slot h0 (set_claim pid F u)"
  proof (rule ports_kept_step [OF e(2)])
    show "pin_regs q (set_claim pid F u) = pin_regs q h \<and> claim_at q (set_claim pid F u) = claim_at q h"
      if "unat q < HAL_PIN_TABLE_SIZE" "q \<noteq> pid" for q
      using configure_elsewhere(1,2) [OF assms(3) that e(3)] assms(3,5) that(2) e(4) c by (auto simp: claim_at_set)
    have "hc_slot_mask (claim_at pid (set_claim pid F u)) AND slot_bit slot \<noteq> 0"
      using assms(3,6) e(4) c one_slot_bit(2) [OF assms(2)] by (simp add: claim_at_set)
    then show "pin_regs pid (set_claim pid F u) = pin_regs pid h \<and>
        (hc_slot_mask (claim_at pid (set_claim pid F u)) AND slot_bit slot = 0 \<longrightarrow> hc_slot_mask (claim_at pid h) AND slot_bit slot = 0) \<or>
       hc_slot_mask (claim_at pid h0) = 0 \<and> hc_slot_mask (claim_at pid (set_claim pid F u)) AND slot_bit slot \<noteq> 0"
      using extends_fresh [OF e(1) assms(3,4)] by simp
  qed
  moreover have "extends_masks slot h0 (set_claim pid F u)"
    using assms(4,6) c by (intro extends_masks_set [OF e(1) assms(3)]) auto
  ultimately show ?thesis by (simp add: kept_or_new_def)
qed

lemma kept_share:
  assumes "kept_or_new slot h0 h" "unat slot < 8" "unat pid < HAL_PIN_TABLE_SIZE"
  shows "kept_or_new slot h0 (set_claim pid (\<lambda>c. c \<lparr> hc_slot_mask := hc_slot_mask c OR slot_bit slot \<rparr>) h)" (is "kept_or_new slot h0 ?u")
proof -
  have e: "extends_masks slot h0 h" "ports_kept slot h0 h" "length (hp_claims h) = HAL_PIN_TABLE_SIZE"
    using assms(1) by (simp_all add: kept_or_new_def extends_masks_def table_ok_def)
  have "ports_kept slot h0 ?u"
    by (rule ports_kept_step [OF e(2), of pid]) (use assms(3) e(3) one_slot_bit(2) [OF assms(2)] in \<open>simp_all add: claim_at_set\<close>)
  moreover have "extends_masks slot h0 ?u" by (rule extends_masks_set [OF e(1) assms(3)]) (simp_all add: or_clear)
  ultimately show ?thesis by (simp add: kept_or_new_def)
qed

lemma kept_input:
  assumes "kept_or_new slot h0 h" "unat slot < 8"
  shows "kept_or_new slot h0 (snd (claim_input slot i h))"
proof -
  have u: "ensure_initialised h = h" using assms(1) table_up by (simp add: kept_or_new_def extends_masks_def)
  let ?pid = "ii_phys_id i"
  have gpio: "kept_or_new slot h0 (snd (hal_pin_claim ?pid slot mode h))" for mode
    using claim_cases [of ?pid h slot mode] assms(1) kept_take [OF assms, of ?pid _ mode] board_found
    unfolding u by auto
  have adc: "kept_or_new slot h0 (snd (hal_pin_claim_adc ?pid slot ov sh h))" for ov sh
    using claim_adc_ports [of ?pid slot ov sh h] assms(1) kept_take [OF assms, of ?pid]
    unfolding u by auto
  show ?thesis using gpio adc assms(1) by (simp add: claim_input_def)
qed

lemma kept_output:
  assumes "kept_or_new slot h0 h" "unat slot < 8"
  shows "kept_or_new slot h0 (snd (claim_one_output slot out h))"
proof -
  have u: "ensure_initialised h = h" using assms(1) table_up by (simp add: kept_or_new_def extends_masks_def)
  let ?pid = "io_phys_id out" and ?r = "hal_pin_claim_output (io_phys_id out) slot (io_ok_value out) (io_err_value out) h"
  show ?thesis
    unfolding claim_one_output_def
    using claim_output_cases [of ?pid "io_ok_value out" "io_err_value out" h slot, unfolded u]
  proof (elim disjE exE conjE)
    fix bp
    assume bp: "find_board_pin ?pid = Some bp" "hc_slot_mask (claim_at ?pid h) = 0"
      "?r = (HAL_PIN_CLAIM_OK, set_claim ?pid (\<lambda>c. c \<lparr> hc_slot_mask := slot_bit slot,
        hc_mode := HAL_PIN_MODE_GPIO_OUT, hc_ok_value := io_ok_value out, hc_err_value := io_err_value out \<rparr>)
        (port_configure_output (bp_port bp) (bp_pin bp) h))"
    show "kept_or_new slot h0 (snd ?r)"
      unfolding bp(3) snd_conv using bp(2) board_found(1-3) [OF bp(1)] by (intro kept_take [OF assms]) simp_all
  next
    fix bp
    assume bp: "find_board_pin ?pid = Some bp"
      "?r = (HAL_PIN_CLAIM_OK, set_claim ?pid (\<lambda>c. c \<lparr> hc_slot_mask := hc_slot_mask c OR slot_bit slot \<rparr>) h)"
    show "kept_or_new slot h0 (snd ?r)"
      unfolding bp(2) snd_conv by (rule kept_share [OF assms board_found(3) [OF bp(1)]])
  next
    assume "snd ?r = h"
    then show "kept_or_new slot h0 (snd ?r)" using assms(1) by simp
  qed
qed

lemma claim_each_inv:
  "(\<And>x h. I h \<Longrightarrow> I (snd (f x h))) \<Longrightarrow> I h \<Longrightarrow> I (snd (claim_each f xs h))"
proof (induction xs arbitrary: h)
  case (Cons x xs)
  obtain c h1 where 1: "f x h = (c, h1)" by fastforce
  then have "I h1" using Cons.prems(1) [OF Cons.prems(2), of x] by simp
  then show ?case using 1 Cons.IH [OF Cons.prems(1)] by simp
qed simp

text \<open>A release resets the pins that lose their last owner and touches no other.\<close>

definition released :: "8 word \<Rightarrow> 8 word \<Rightarrow> hal \<Rightarrow> hal \<Rightarrow> bool" where
  "released slot pid h h' = (let m = hc_slot_mask (claim_at pid h) in
     if m AND slot_bit slot \<noteq> 0 \<and> m AND NOT (slot_bit slot) = 0 then pin_safe pid h' else pin_regs pid h' = pin_regs pid h)"

lemma release_pin_ports:
  assumes "table_ok h" "unat pid < HAL_PIN_TABLE_SIZE" "unat q < HAL_PIN_TABLE_SIZE"
  shows "table_ok (release_pin slot pid h)" "released slot pid h (release_pin slot pid h)"
    "q \<noteq> pid \<Longrightarrow> pin_regs q (release_pin slot pid h) = pin_regs q h \<and> hc_slot_mask (claim_at q (release_pin slot pid h)) = hc_slot_mask (claim_at q h)"
proof -
  have u: "length (hp_group h) = 2" "length (hp_claims h) = HAL_PIN_TABLE_SIZE" using assms(1) by (simp_all add: table_ok_def)
  have g: "length (hp_group (set_claim pid F h)) = 2" for F using u(1) by simp
  have c: "hp_claims (port_reset_to_safe p r k) = hp_claims k" "claim_at r' (port_reset_to_safe p r k) = claim_at r' k"
    "length (hp_group (port_reset_to_safe p r k)) = length (hp_group k)" "hp_claims_initialised (port_reset_to_safe p r k) = hp_claims_initialised k"
    for p r r' and k :: hal
    by (simp_all add: port_reset_to_safe_def)
  show "table_ok (release_pin slot pid h)" using assms(1) c by (simp add: table_ok_def release_pin_def Let_def)
  show "released slot pid h (release_pin slot pid h)"
    "q \<noteq> pid \<Longrightarrow> pin_regs q (release_pin slot pid h) = pin_regs q h \<and> hc_slot_mask (claim_at q (release_pin slot pid h)) = hc_slot_mask (claim_at q h)"
    using configure_elsewhere(3) [OF assms(2,3) _ g] reset_safe [OF assms(2) g] u(2) assms(2) c
    by (auto simp: release_pin_def released_def Let_def claim_at_set)
qed

lemma pin_safe_regs: "pin_regs q h' = pin_regs q h \<Longrightarrow> pin_safe q h' = pin_safe q h"
  by (simp add: pin_regs_def pin_safe_def)

lemma release_ports:
  assumes "table_ok h" "unat q < HAL_PIN_TABLE_SIZE"
  shows "released slot q h (hal_pin_release_slot slot h)"
proof -
  have *: "if q \<in> set ps then released slot q h' (fold (release_pin slot) ps h') else pin_regs q (fold (release_pin slot) ps h') = pin_regs q h'"
    if "table_ok h'" "\<forall>p \<in> set ps. unat p < HAL_PIN_TABLE_SIZE" "distinct ps" for ps h'
    using that
  proof (induction ps arbitrary: h')
    case (Cons p ps)
    have p: "unat p < HAL_PIN_TABLE_SIZE" using Cons.prems(2) by simp
    note r = release_pin_ports [OF Cons.prems(1) p assms(2), where slot = slot]
    have ih: "if q \<in> set ps then released slot q (release_pin slot p h') (fold (release_pin slot) ps (release_pin slot p h'))
      else pin_regs q (fold (release_pin slot) ps (release_pin slot p h')) = pin_regs q (release_pin slot p h')"
      using Cons.prems(2,3) by (intro Cons.IH [OF r(1)]) simp_all
    show ?case
    proof (cases "q = p")
      case True
      then have "pin_regs q (fold (release_pin slot) ps (release_pin slot p h')) = pin_regs q (release_pin slot p h')"
        using ih Cons.prems(3) by simp
      then show ?thesis using r(2) True pin_safe_regs [of q "fold (release_pin slot) ps (release_pin slot p h')" "release_pin slot p h'"]
        by (simp add: released_def Let_def)
    next
      case False
      then show ?thesis using r(3) [OF False] ih by (cases "q \<in> set ps") (simp_all add: released_def Let_def)
    qed
  qed simp
  from * [OF assms(1) _ all_pins_distinct] assms(2) show ?thesis
    by (simp add: hal_pin_release_slot_def table_up [OF assms(1)] all_pins_set)
qed

lemma release_restores:
  assumes "kept_or_new slot h0 h"
  shows "same_ports h0 (hal_pin_release_slot slot h)"
  unfolding same_ports_def
proof (intro allI impI)
  fix q :: "8 word" assume q: "unat q < HAL_PIN_TABLE_SIZE"
  have "hc_slot_mask (claim_at q h) AND NOT (slot_bit slot) = hc_slot_mask (claim_at q h0)" "table_ok h"
    using assms q by (simp_all add: kept_or_new_def extends_masks_def)
  then show "pin_regs q (hal_pin_release_slot slot h) = pin_regs q h0 \<or> hc_slot_mask (claim_at q h0) = 0 \<and> pin_safe q (hal_pin_release_slot slot h)"
    using release_ports [of h q slot] assms q
    by (auto simp: released_def Let_def kept_or_new_def ports_kept_def split: if_splits)
qed

lemma same_ports_init [simp]: "same_ports h0 (ensure_initialised h) = same_ports h0 h"
proof -
  have "pin_safe q (ensure_initialised h) = pin_safe q h" for q by (rule pin_safe_regs) simp
  then show ?thesis by (simp add: same_ports_def)
qed

lemma claim_sets_up:
  "snd (claim_input slot i (ensure_initialised h)) = ensure_initialised (snd (claim_input slot i h))"
  "snd (claim_one_output slot out (ensure_initialised h)) = ensure_initialised (snd (claim_one_output slot out h))"
proof -
  have e: "hp_claims_initialised (ensure_initialised k)" "hp_claims_initialised k \<Longrightarrow> ensure_initialised k = k" for k :: hal
    by (simp_all add: ensure_initialised_def)
  have "hp_claims_initialised (snd (hal_pin_claim pid slot mode h))" "hp_claims_initialised (snd (hal_pin_claim_adc pid slot ov sh h))"
    "hp_claims_initialised (snd (hal_pin_claim_output pid slot ok err h))" for pid mode ov sh ok err
    using e(1) by (simp_all add: hal_pin_claim_def hal_pin_claim_adc_def hal_pin_claim_output_def Let_def port_configure_input_def
        port_configure_output_def split: option.split)
  then show "snd (claim_input slot i (ensure_initialised h)) = ensure_initialised (snd (claim_input slot i h))"
    "snd (claim_one_output slot out (ensure_initialised h)) = ensure_initialised (snd (claim_one_output slot out h))"
    by (simp_all add: claim_input_def claim_one_output_def claim_set_up e(2))
qed

lemma claim_inst_ports:
  assumes "table_ok (ensure_initialised h)" "unat slot < 8" "claim_inst_pins slot inst h = (cs, h')" "cs \<noteq> HAL_PIN_CLAIM_OK"
    "\<forall>pid. unat pid < HAL_PIN_TABLE_SIZE \<longrightarrow> hc_slot_mask (claim_at pid (ensure_initialised h)) AND slot_bit slot = 0"
  shows "same_ports (ensure_initialised h) h'"
proof -
  let ?h = "ensure_initialised h"
  let ?I = "\<lambda>k. kept_or_new slot ?h (ensure_initialised k)"
  have masks: "hc_slot_mask (claim_at pid ?h) AND NOT (slot_bit slot) = hc_slot_mask (claim_at pid ?h)" if "unat pid < HAL_PIN_TABLE_SIZE" for pid
    using assms(5) that clear_bit_slot by blast
  have i0: "?I h" using assms(1) masks by (simp add: kept_or_new_def extends_masks_def ports_kept_refl)
  have ins: "?I k \<Longrightarrow> ?I (snd (claim_input slot i k))" "?I k \<Longrightarrow> ?I (snd (claim_one_output slot out k))" for i out k
    using kept_input [OF _ assms(2), of ?h "ensure_initialised k" i] kept_output [OF _ assms(2), of ?h "ensure_initialised k" out]
    by (simp_all add: claim_sets_up)
  obtain c1 h1 where 1: "claim_each (claim_input slot) (in_inputs inst) h = (c1, h1)" by fastforce
  obtain c2 h2 where 2: "claim_each (claim_one_output slot) (in_outputs inst) h1 = (c2, h2)" by fastforce
  have a: "?I h1" using claim_each_inv [where I = ?I and f = "claim_input slot", OF ins(1) i0, of "in_inputs inst"] 1 by simp
  have b: "?I h2" using claim_each_inv [where I = ?I and f = "claim_one_output slot", OF ins(2) a, of "in_outputs inst"] 2 by simp
  have "h' = hal_pin_release_slot slot h1 \<or> h' = hal_pin_release_slot slot h2"
    using assms(3,4) 1 2 by (auto simp: claim_inst_pins_def split: if_splits)
  then show ?thesis using release_restores [OF a] release_restores [OF b] by (auto simp: claim_set_up)
qed

section \<open>When all pins are claimed\<close>

lemma usable_board:
  assumes "usable pid"
  obtains bp where "find_board_pin pid = Some bp" "\<not> board_pin_is_reserved bp" "bp_caps bp AND BOARD_PIN_CAP_GPIO \<noteq> 0"
    "bp_caps bp AND BOARD_PIN_CAP_ADC \<noteq> 0" "bp_adc_channel bp \<noteq> BOARD_PIN_ADC_NONE" "unat pid < HAL_PIN_TABLE_SIZE"
proof -
  have "list_all (\<lambda>bp. board_pin_is_reserved bp \<or> bp_caps bp AND BOARD_PIN_CAP_GPIO \<noteq> 0 \<and> bp_caps bp AND BOARD_PIN_CAP_ADC \<noteq> 0 \<and>
    bp_adc_channel bp \<noteq> BOARD_PIN_ADC_NONE) g_board_pins" by code_simp
  moreover obtain bp where bp: "find_board_pin pid = Some bp" "\<not> board_pin_is_reserved bp"
    using assms by (auto simp: usable_def split: option.splits)
  moreover from bp(1) have "bp \<in> set g_board_pins" by (auto simp: find_board_pin_def find_Some_iff)
  ultimately show thesis using that board_found(3) [OF bp(1)] by (auto simp: list_all_iff)
qed

definition input_free :: "il_input \<Rightarrow> hal \<Rightarrow> bool" where
  "input_free i h = (ii_mode i = IL_PIN_MODE_VIRTUAL \<or> usable (ii_phys_id i) \<and> hc_slot_mask (claim_at (ii_phys_id i) h) = 0)"

definition output_free :: "il_output \<Rightarrow> hal \<Rightarrow> bool" where
  "output_free out h = (let c = claim_at (io_phys_id out) h in usable (io_phys_id out) \<and>
     (hc_slot_mask c = 0 \<or> hc_mode c = HAL_PIN_MODE_GPIO_OUT \<and> hc_ok_value c = io_ok_value out \<and> hc_err_value c = io_err_value out))"

lemma free_local:
  "claim_at (ii_phys_id i) h' = claim_at (ii_phys_id i) h \<Longrightarrow> input_free i h \<Longrightarrow> input_free i h'"
  "claim_at (io_phys_id out) h' = claim_at (io_phys_id out) h \<Longrightarrow> output_free out h \<Longrightarrow> output_free out h'"
  by (simp_all add: input_free_def output_free_def Let_def)

lemma not_gr: "a \<le> b \<Longrightarrow> \<not> b < (a :: 'a :: linorder)"
  by simp

lemma claim_input_free:
  assumes "hal_up h" "input_ok i" "input_free i h" "unat slot < 8"
  shows "fst (claim_input slot i h) = HAL_PIN_CLAIM_OK"
proof (cases "ii_mode i = IL_PIN_MODE_VIRTUAL")
  case False
  then obtain bp where bp: "find_board_pin (ii_phys_id i) = Some bp" "\<not> board_pin_is_reserved bp" "bp_caps bp AND BOARD_PIN_CAP_GPIO \<noteq> 0"
    "bp_caps bp AND BOARD_PIN_CAP_ADC \<noteq> 0" "bp_adc_channel bp \<noteq> BOARD_PIN_ADC_NONE" "unat (ii_phys_id i) < HAL_PIN_TABLE_SIZE"
    using assms(3) usable_board by (auto simp: input_free_def)
  show ?thesis
  proof (cases "ii_mode i = IL_PIN_MODE_ADC")
    case True
    then have "ii_oversample_exp i \<le> 4" "ii_sh_cyc i \<le> 63" using assms(2) False by (auto simp: input_ok_def)
    then have "\<not> ii_oversample_exp i > 7" "\<not> ii_sh_cyc i > 63" by (simp_all add: word_less_nat_alt word_le_nat_alt)
    then show ?thesis using bp True False assms(3) hal_up_id [OF assms(1)] one_slot_bit(2) [OF assms(4)]
      by (simp add: claim_input_def hal_pin_claim_adc_def input_free_def)
  next
    case gpio: False
    then have m: "map_input_mode (ii_mode i) \<in> {HAL_PIN_MODE_GPIO_IN, HAL_PIN_MODE_GPIO_IN_PU, HAL_PIN_MODE_GPIO_IN_PD}"
      using input_modes [OF assms(2) False] by simp
    then have "map_input_mode (ii_mode i) \<noteq> HAL_PIN_MODE_UNCLAIMED" "\<not> map_input_mode (ii_mode i) > HAL_PIN_MODE_ADC_SCAN"
      "map_input_mode (ii_mode i) \<noteq> HAL_PIN_MODE_GPIO_OUT" "map_input_mode (ii_mode i) \<noteq> HAL_PIN_MODE_ADC_SCAN" by (auto simp: hal_modes)
    then show ?thesis using bp gpio False assms(3) hal_up_id [OF assms(1)]
      by (simp add: claim_input_def hal_pin_claim_def input_free_def)
  qed
qed (simp add: claim_input_def)

lemma claim_output_free:
  assumes "hal_up h" "output_pre out" "io_ok_value out \<noteq> io_err_value out" "output_free out h"
  shows "fst (claim_one_output slot out h) = HAL_PIN_CLAIM_OK"
proof -
  obtain bp where bp: "find_board_pin (io_phys_id out) = Some bp" "\<not> board_pin_is_reserved bp" "bp_caps bp AND BOARD_PIN_CAP_GPIO \<noteq> 0"
    "unat (io_phys_id out) < HAL_PIN_TABLE_SIZE"
    using assms(4) usable_board by (auto simp: output_free_def Let_def)
  then show ?thesis using assms(2-4) hal_up_id [OF assms(1)]
    by (auto simp: claim_one_output_def hal_pin_claim_output_def output_free_def output_pre_def Let_def not_gr)
qed

lemma claim_each_ok:
  assumes "\<And>x h cs h'. x \<in> set xs \<Longrightarrow> I h \<Longrightarrow> free x h \<Longrightarrow> f x h = (cs, h') \<Longrightarrow> cs = HAL_PIN_CLAIM_OK \<and> I h' \<and> (\<forall>q. q \<noteq> pid x \<longrightarrow> claim_at q h' = claim_at q h)"
    and "\<And>x h h'. claim_at (pid x) h' = claim_at (pid x) h \<Longrightarrow> free x h \<Longrightarrow> free x h'"
  shows "distinct (map pid xs) \<Longrightarrow> I h \<Longrightarrow> \<forall>x \<in> set xs. free x h \<Longrightarrow> fst (claim_each f xs h) = HAL_PIN_CLAIM_OK \<and>
    (\<forall>q. q \<notin> pid ` set xs \<longrightarrow> claim_at q (snd (claim_each f xs h)) = claim_at q h) \<and> I (snd (claim_each f xs h))"
  using assms(1)
proof (induction xs arbitrary: h)
  case (Cons x xs)
  obtain c1 h1 where step: "f x h = (c1, h1)" by fastforce
  note s = Cons.prems(4) [of x h, OF _ Cons.prems(2) _ step]
  have "free y h1" if "y \<in> set xs" for y
    using assms(2) [of y h1 h] s that Cons.prems(1,3) by (metis distinct.simps(2) imageI list.set_map list.simps(9) list.set_intros)
  then have "fst (claim_each f xs h1) = HAL_PIN_CLAIM_OK \<and>
    (\<forall>q. q \<notin> pid ` set xs \<longrightarrow> claim_at q (snd (claim_each f xs h1)) = claim_at q h1) \<and> I (snd (claim_each f xs h1))"
    using Cons.prems(1,3) s by (intro Cons.IH Cons.prems(4)) auto
  then show ?case using s step Cons.prems(3) by simp
qed simp

text \<open>Every claim of \<open>h\<close> is one of \<open>h0\<close>.\<close>

definition claims_below :: "hal \<Rightarrow> hal \<Rightarrow> bool" where
  "claims_below h h0 = (\<forall>pid. unat pid < HAL_PIN_TABLE_SIZE \<longrightarrow>
     (\<forall>k. bit (hc_slot_mask (claim_at pid h)) k \<longrightarrow> bit (hc_slot_mask (claim_at pid h0)) k) \<and>
     (hc_slot_mask (claim_at pid h) \<noteq> 0 \<longrightarrow> hc_mode (claim_at pid h) = hc_mode (claim_at pid h0)) \<and>
     (hc_slot_mask (claim_at pid h) \<noteq> 0 \<and> hc_mode (claim_at pid h) = HAL_PIN_MODE_GPIO_OUT \<longrightarrow>
       hc_ok_value (claim_at pid h) = hc_ok_value (claim_at pid h0) \<and> hc_err_value (claim_at pid h) = hc_err_value (claim_at pid h0)))"

definition slot_free :: "8 word \<Rightarrow> hal \<Rightarrow> bool" where
  "slot_free slot h = (\<forall>pid. unat pid < HAL_PIN_TABLE_SIZE \<longrightarrow> hc_slot_mask (claim_at pid h) AND slot_bit slot = 0)"

lemma held_usable:
  assumes "hal_up h0" "unat pid < HAL_PIN_TABLE_SIZE" "hc_slot_mask (claim_at pid h0) \<noteq> 0"
  shows "usable pid"
  using hal_upD(4) [OF assms(1,2)] assms(3) by (simp add: claim_ok_def Let_def)

lemma bit_slot_bit: "bit (slot_bit slot) k = (k = unat slot \<and> k < 8)"
  by (auto simp: slot_bit_def bit_exp_iff)

lemma and_slot_bit: "unat slot < 8 \<Longrightarrow> (m AND slot_bit slot = 0) = (\<not> bit m (unat slot))"
  by (auto simp: bit_eq_iff [where 'a = "8 word"] bit_and_iff bit_slot_bit)

lemma clear_slot_bit: "bit (m AND NOT (slot_bit slot)) k = (bit m k \<and> k \<noteq> unat slot)"
  using bit_imp_le_length [of m k] by (auto simp: bit_and_iff bit_not_iff bit_slot_bit)

lemma pins_free:
  assumes "hal_up h0" "pins_held slot inst h0" "claims_below h h0" "slot_free slot h" "unat slot < 8"
  shows "i \<in> set (in_inputs inst) \<Longrightarrow> input_free i h" "out \<in> set (in_outputs inst) \<Longrightarrow> output_free out h"
proof -
  assume "i \<in> set (in_inputs inst)"
  then have held: "input_held slot i h0" using assms(2) by (simp add: pins_held_def list_all_iff)
  show "input_free i h"
  proof (cases "ii_mode i = IL_PIN_MODE_VIRTUAL")
    case False
    let ?m = "hc_slot_mask (claim_at (ii_phys_id i) h)"
    have p: "unat (ii_phys_id i) < HAL_PIN_TABLE_SIZE" "hc_slot_mask (claim_at (ii_phys_id i) h0) = slot_bit slot"
      using held False by (auto simp: input_held_def)
    then have "bit ?m k \<Longrightarrow> k = unat slot" for k using assms(3) by (auto simp: claims_below_def bit_slot_bit)
    moreover have "\<not> bit ?m (unat slot)" using assms(4) p(1) by (simp add: slot_free_def and_slot_bit [OF assms(5)])
    ultimately have "?m = 0" by (intro bit_word_eqI) auto
    then show ?thesis using held_usable [OF assms(1) p(1)] p(2) one_slot_bit(2) [OF assms(5)] by (simp add: input_free_def)
  qed (simp add: input_free_def)
next
  assume "out \<in> set (in_outputs inst)"
  then have held: "output_held slot out h0" using assms(2) by (simp add: pins_held_def list_all_iff)
  then have "unat (io_phys_id out) < HAL_PIN_TABLE_SIZE" "hc_slot_mask (claim_at (io_phys_id out) h0) \<noteq> 0" by (auto simp: output_held_def Let_def)
  then show "output_free out h" using assms(3) held held_usable [OF assms(1)] by (auto simp: output_free_def output_held_def Let_def claims_below_def)
qed

lemma claim_inst_again:
  assumes "hal_up h0" "pins_held slot inst h0" "inst_ok inst" "hal_up h" "claims_below h h0" "slot_free slot h" "unat slot < 8"
  shows "fst (claim_inst_pins slot inst h) = HAL_PIN_CLAIM_OK" "claims_below (snd (claim_inst_pins slot inst h)) h0"
proof -
  have d: "distinct (map ii_phys_id (in_inputs inst))" "distinct (map io_phys_id (in_outputs inst))"
    "ii_phys_id ` set (in_inputs inst) \<inter> io_phys_id ` set (in_outputs inst) = {}"
    and ok: "\<And>i. i \<in> set (in_inputs inst) \<Longrightarrow> input_ok i" "\<And>out. out \<in> set (in_outputs inst) \<Longrightarrow> output_pre out \<and> io_ok_value out \<noteq> io_err_value out"
    using assms(3) by (auto simp: inst_ok_def inst_pre_def list_all_iff)
  note free = pins_free [OF assms(1,2,5,6,7)]
  have refl: "extends_claims slot h h" using extends_refl [OF assms(4)] assms(6) by (simp add: slot_free_def)
  obtain c1 h1 where ins: "claim_each (claim_input slot) (in_inputs inst) h = (c1, h1)" by fastforce
  obtain c2 h2 where outs: "claim_each (claim_one_output slot) (in_outputs inst) h1 = (c2, h2)" by fastforce
  have a: "c1 = HAL_PIN_CLAIM_OK \<and> (\<forall>q. q \<notin> ii_phys_id ` set (in_inputs inst) \<longrightarrow> claim_at q h1 = claim_at q h) \<and> extends_claims slot h h1"
  proof -
    have "cs = HAL_PIN_CLAIM_OK \<and> extends_claims slot h k' \<and> (\<forall>q. q \<noteq> ii_phys_id i \<longrightarrow> claim_at q k' = claim_at q k)"
      if "i \<in> set (in_inputs inst)" "extends_claims slot h k" "input_free i k" "claim_input slot i k = (cs, k')" for i k cs k'
    proof -
      have "cs = HAL_PIN_CLAIM_OK"
        using claim_input_free [OF conjunct1 [OF extends_up [OF that(2)]] ok(1) [OF that(1)] that(3) assms(7)] that(4) by simp
      then show ?thesis using claim_input_step(1,2) [OF that(2) assms(7) that(4)] by blast
    qed
    from claim_each_ok [where f = "claim_input slot" and I = "extends_claims slot h" and free = input_free, OF this free_local(1) d(1) refl ballI [OF free(1)]]
    show ?thesis unfolding ins fst_conv snd_conv .
  qed
  have b: "c2 = HAL_PIN_CLAIM_OK"
  proof -
    have step: "cs = HAL_PIN_CLAIM_OK \<and> extends_claims slot h k' \<and> (\<forall>q. q \<noteq> io_phys_id out \<longrightarrow> claim_at q k' = claim_at q k)"
      if "out \<in> set (in_outputs inst)" "extends_claims slot h k" "output_free out k" "claim_one_output slot out k = (cs, k')" for out k cs k'
    proof -
      have "cs = HAL_PIN_CLAIM_OK"
        using claim_output_free [OF conjunct1 [OF extends_up [OF that(2)]] conjunct1 [OF ok(2) [OF that(1)]] conjunct2 [OF ok(2) [OF that(1)]] that(3), of slot] that(4)
        by simp
      then show ?thesis using claim_output_step(1,2) [OF that(2) assms(7) that(4)] by blast
    qed
    have "output_free out h1" if "out \<in> set (in_outputs inst)" for out
    proof -
      have "claim_at (io_phys_id out) h1 = claim_at (io_phys_id out) h" using a d(3) that by blast
      then show ?thesis using free(2) [OF that] by (simp add: output_free_def)
    qed
    from claim_each_ok [where f = "claim_one_output slot" and I = "extends_claims slot h" and free = output_free, OF step free_local(2) d(2)
      conjunct2 [OF conjunct2 [OF a]] ballI [OF this]] show ?thesis unfolding outs fst_conv snd_conv by (rule conjunct1)
  qed
  have res: "claim_inst_pins slot inst h = (HAL_PIN_CLAIM_OK, h2)" using a b ins outs by (simp add: claim_inst_pins_def)
  then show "fst (claim_inst_pins slot inst h) = HAL_PIN_CLAIM_OK" by simp
  have pre: "inst_pre inst" using assms(3) by (simp add: inst_ok_def)
  have e: "extends_claims slot h h2" "pins_held slot inst h2" "\<And>q. q \<notin> inst_pins inst \<Longrightarrow> claim_at q h2 = claim_at q h"
    using claim_inst_up(1) [OF assms(4,7) pre res] assms(6) by (simp_all add: slot_free_def)
  have "(\<forall>k. bit (hc_slot_mask (claim_at pid h2)) k \<longrightarrow> bit (hc_slot_mask (claim_at pid h0)) k) \<and>
     (hc_slot_mask (claim_at pid h2) \<noteq> 0 \<longrightarrow> hc_mode (claim_at pid h2) = hc_mode (claim_at pid h0)) \<and>
     (hc_slot_mask (claim_at pid h2) \<noteq> 0 \<and> hc_mode (claim_at pid h2) = HAL_PIN_MODE_GPIO_OUT \<longrightarrow>
       hc_ok_value (claim_at pid h2) = hc_ok_value (claim_at pid h0) \<and> hc_err_value (claim_at pid h2) = hc_err_value (claim_at pid h0))"
    if pid: "unat pid < HAL_PIN_TABLE_SIZE" for pid
  proof -
    consider (other) "claim_at pid h2 = claim_at pid h"
      | (inp) i where "i \<in> set (in_inputs inst)" "pid = ii_phys_id i" "ii_mode i \<noteq> IL_PIN_MODE_VIRTUAL"
      | (outp) out where "out \<in> set (in_outputs inst)" "pid = io_phys_id out"
    proof (cases "pid \<in> inst_pins inst")
      case True
      have "\<not> unat (0xF0 :: 8 word) < HAL_PIN_TABLE_SIZE" "\<not> unat (0xF1 :: 8 word) < HAL_PIN_TABLE_SIZE" "\<not> unat (0xF2 :: 8 word) < HAL_PIN_TABLE_SIZE"
        by (simp_all add: HAL_PIN_TABLE_SIZE_def)
      then have "ii_mode i \<noteq> IL_PIN_MODE_VIRTUAL" if "i \<in> set (in_inputs inst)" "pid = ii_phys_id i" for i
        using ok(1) [OF that(1)] pid that(2)
        by (auto simp: input_ok_def k_virt_pins_def IL_VIRT_T_SINCE_M2S_def IL_VIRT_UPTIME_def IL_VIRT_STACK_HWM_def)
      then show thesis using that True by (auto simp: inst_pins_def)
    qed (use that e(3) in blast)
    then show ?thesis
    proof cases
      case other
      then show ?thesis using assms(5) pid by (simp add: claims_below_def)
    next
      case inp
      then have "input_held slot i h2" "input_held slot i h0" using e(2) assms(2) by (simp_all add: pins_held_def list_all_iff)
      then show ?thesis using inp ok(1) [OF inp(1)] input_modes [of i]
        by (auto simp: input_held_def map_input_mode_def hal_modes il_modes split: if_splits)
    next
      case outp
      then have held: "output_held slot out h2" "output_held slot out h0" using e(2) assms(2) by (simp_all add: pins_held_def list_all_iff)
      have "hc_slot_mask (claim_at pid h2) AND NOT (slot_bit slot) = hc_slot_mask (claim_at pid h)"
        using e(1) pid by (simp add: extends_claims_def claims_of_others_def)
      then have "bit (hc_slot_mask (claim_at pid h2)) k \<Longrightarrow> k = unat slot \<or> bit (hc_slot_mask (claim_at pid h)) k" for k
        using clear_slot_bit [of "hc_slot_mask (claim_at pid h2)" slot k] by auto
      moreover have "bit (hc_slot_mask (claim_at pid h0)) (unat slot)"
        using held(2) outp(2) and_slot_bit [OF assms(7)] by (auto simp: output_held_def Let_def)
      ultimately show ?thesis using held assms(5) pid outp(2) by (auto simp: output_held_def Let_def claims_below_def)
    qed
  qed
  then show "claims_below (snd (claim_inst_pins slot inst h)) h0" unfolding res snd_conv claims_below_def by blast
qed

end
