(* ===== verification/IL_Safety.thy ===== *)
theory IL_Safety
  imports IL_Arm
begin

text \<open>
  What the interlock framework promises: in every state that a start of the chip and any sequence of
  commands and ticks can reach, a tick drives the declared outputs by the votes of the armed slots.
\<close>

section \<open>The invariant\<close>

definition armed_dsl :: "persist \<Rightarrow> 8 word \<Rightarrow> bool" where
  "armed_dsl p slot = (sl_state (ip_slots p ! unat slot) = INTERLOCK_SLOT_ARMED \<and> sl_id (ip_slots p ! unat slot) = INTERLOCK_ID_DSL)"

text \<open>The arrays of the kept memory; a byte pattern that a cold start finds there is of this form too.\<close>

definition persist_shape :: "persist \<Rightarrow> bool" where
  "persist_shape p = (length (ip_slots p) = INTERLOCK_MAX_SLOTS \<and> length (ip_inst p) = INTERLOCK_MAX_SLOTS \<and>
     length (ip_dsl_len p) = INTERLOCK_MAX_SLOTS \<and> length (ip_dsl_text p) = INTERLOCK_MAX_SLOTS)"

text \<open>The kept text of a slot is the text of its interlock, whose last result is apart.\<close>

definition text_kept :: "persist \<Rightarrow> 8 word \<Rightarrow> bool" where
  "text_kept p slot = (let L = ip_dsl_len p ! unat slot in L \<noteq> 0 \<and> unat L < IL_DSL_MAX \<and>
     il_parse (take (unat L) (ip_dsl_text p ! unat slot)) = Inr ((ip_inst p ! unat slot) \<lparr> in_tf_state := IL_TF_UNEVALUATED \<rparr>))"

definition only_pins :: "8 word \<Rightarrow> il_inst \<Rightarrow> hal \<Rightarrow> bool" where
  "only_pins slot inst h = (\<forall>pid. unat pid < HAL_PIN_TABLE_SIZE \<and> pid \<notin> inst_pins inst \<longrightarrow> hc_slot_mask (claim_at pid h) AND slot_bit slot = 0)"

definition slot_ok :: "persist \<Rightarrow> hal \<Rightarrow> 8 word \<Rightarrow> bool" where
  "slot_ok p h slot = (if armed_dsl p slot then text_kept p slot \<and> pins_held slot (ip_inst p ! unat slot) h \<and> only_pins slot (ip_inst p ! unat slot) h
     else slot_free slot h)"

definition slots_ok :: "persist \<Rightarrow> hal \<Rightarrow> bool" where
  "slots_ok p h = (\<forall>slot. unat slot < INTERLOCK_MAX_SLOTS \<longrightarrow> slot_ok p h slot)"

definition il_ok :: "interlocks \<Rightarrow> bool" where
  "il_ok st = (hal_ok (il_hal st) \<and> persist_shape (il_persist st) \<and> persist_is_valid (il_persist st) \<and>
     slots_ok (il_persist st) (ensure_initialised (il_hal st)) \<and> (\<exists>k. ring_ok k (il_tx st)) \<and>
     length (sb_slots (il_status st)) = INTERLOCK_MAX_SLOTS \<and> length (sb_input_vals (il_status st)) = INTERLOCK_MAX_SLOTS)"

lemma slot_below [simp]: "unat slot < INTERLOCK_MAX_SLOTS \<Longrightarrow> unat slot < 8"
  by (simp add: INTERLOCK_MAX_SLOTS_def)

lemma two_positive [simp]: "0 < INTERLOCK_MAX_SLOTS" "Suc 0 < INTERLOCK_MAX_SLOTS"
  by (simp_all add: INTERLOCK_MAX_SLOTS_def)

lemma slot_indices_set: "set slot_indices = {slot. unat slot < INTERLOCK_MAX_SLOTS}"
proof -
  have "slot \<in> set slot_indices" if "unat slot < INTERLOCK_MAX_SLOTS" for slot
    using that unfolding slot_indices_def by (auto intro!: image_eqI [of _ _ "unat slot"])
  moreover have "unat slot < INTERLOCK_MAX_SLOTS" if "slot \<in> set slot_indices" for slot
    using that by (auto simp: slot_indices_def INTERLOCK_MAX_SLOTS_def unat_of_nat)
  ultimately show ?thesis by blast
qed

lemma slot_indices_two: "slot_indices = [0, 1]"
  by (simp add: slot_indices_def INTERLOCK_MAX_SLOTS_def upt_rec)

lemma two_slots: "unat slot < INTERLOCK_MAX_SLOTS \<longleftrightarrow> slot = 0 \<or> slot = (1 :: 8 word)"
  using slot_indices_set slot_indices_two by (metis empty_set insert_iff list.simps(15) mem_Collect_eq singleton_iff)

lemma verify_ok: "persist_is_valid (il_persist st) \<Longrightarrow> verify_persist_or_panic st = Ret ((), st)"
  by (simp add: verify_persist_or_panic_def persist_is_valid_def)

text \<open>The result of a slot does not matter for the invariant.\<close>

definition set_tf :: "8 word \<Rightarrow> 8 word \<Rightarrow> persist \<Rightarrow> persist" where
  "set_tf slot tf p = p \<lparr> ip_inst := (ip_inst p)[unat slot := (ip_inst p ! unat slot) \<lparr> in_tf_state := tf \<rparr>] \<rparr>"

lemma set_tf_simps [simp]:
  "ip_slots (set_tf slot tf p) = ip_slots p" "ip_dsl_len (set_tf slot tf p) = ip_dsl_len p" "ip_dsl_text (set_tf slot tf p) = ip_dsl_text p"
  "ip_crash (set_tf slot tf p) = ip_crash p" "ip_magic (set_tf slot tf p) = ip_magic p" "ip_version (set_tf slot tf p) = ip_version p"
  "ip_self_size (set_tf slot tf p) = ip_self_size p" "length (ip_inst (set_tf slot tf p)) = length (ip_inst p)"
  "armed_dsl (set_tf slot tf p) q = armed_dsl p q" "persist_shape (set_tf slot tf p) = persist_shape p"
  by (simp_all add: set_tf_def armed_dsl_def persist_shape_def)

lemma set_tf_inst:
  "length (ip_inst p) = INTERLOCK_MAX_SLOTS \<Longrightarrow> unat slot < INTERLOCK_MAX_SLOTS \<Longrightarrow>
   ip_inst (set_tf slot tf p) ! unat q = (if q = slot then (ip_inst p ! unat q) \<lparr> in_tf_state := tf \<rparr> else ip_inst p ! unat q)"
  by (auto simp: set_tf_def nth_list_update word_unat_eq_iff)

lemma set_tf_ok:
  assumes "persist_shape p" "unat slot < INTERLOCK_MAX_SLOTS"
  shows "persist_is_valid (set_tf slot tf p) = persist_is_valid p" "slots_ok (set_tf slot tf p) h = slots_ok p h"
proof -
  show "persist_is_valid (set_tf slot tf p) = persist_is_valid p"
    by (simp add: persist_is_valid_def slot_valid_def Let_def cong: list.pred_cong)
  have "text_kept (set_tf slot tf p) q = text_kept p q" "pins_held q (ip_inst (set_tf slot tf p) ! unat q) h = pins_held q (ip_inst p ! unat q) h"
    "only_pins q (ip_inst (set_tf slot tf p) ! unat q) h = only_pins q (ip_inst p ! unat q) h" for q
    using set_tf_inst [of p slot tf q] assms by (simp_all add: text_kept_def pins_held_def only_pins_def inst_pins_def Let_def persist_shape_def)
  then show "slots_ok (set_tf slot tf p) h = slots_ok p h" by (simp add: slots_ok_def slot_ok_def)
qed

section \<open>Watches\<close>

text \<open>
  A watch holds if its comparison does. It is broken if the comparison fails even with the
  hysteresis of its input in its favour; between the two the last result decides.
\<close>

definition watch_holds :: "16 word \<Rightarrow> il_watch \<Rightarrow> bool" where
  "watch_holds v w = watch_pass (iw_op w) v (iw_threshold w) (iw_threshold w)"

definition watch_broken :: "nat \<Rightarrow> 16 word \<Rightarrow> il_watch \<Rightarrow> bool" where
  "watch_broken hyst v w = (let t = unat (iw_threshold w); n = unat v in case iw_op w of
     IL_OP_EQ \<Rightarrow> v \<noteq> iw_threshold w | IL_OP_NE \<Rightarrow> v = iw_threshold w | IL_OP_LT \<Rightarrow> n \<ge> t + hyst | IL_OP_LE \<Rightarrow> n > t + hyst
   | IL_OP_GT \<Rightarrow> n + hyst \<le> t | IL_OP_GE \<Rightarrow> n + hyst < t)"

lemma threshold_sum: "\<not> unat t + unat h > 65535 \<Longrightarrow> unat (t + h :: 16 word) = unat t + unat h"
  by (simp add: unat_plus_if')

lemma unat16_le: "unat (v :: 16 word) \<le> 65535"
proof -
  have "unat v < 2 ^ LENGTH(16)" by (rule unsigned_less)
  then show ?thesis by simp
qed

lemma word16_sub: "h < t \<Longrightarrow> unat (t - h :: 16 word) = unat t - unat h"
  by (simp add: unat_sub_if' word_less_nat_alt)

lemma relaxed_le:
  "(if h \<noteq> 0 \<and> b then if h < t then t - h else 0 else t) \<le> (t :: 16 word)"
  "unat v + unat h \<le> unat t \<Longrightarrow> v \<le> (if h \<noteq> 0 \<and> b then if h < t then t - h else 0 else t)"
  "unat v + unat h < unat t \<Longrightarrow> v < (if h \<noteq> 0 \<and> b then if h < t then t - h else 0 else t)"
  using word16_sub [of h t] by (auto simp: word_le_nat_alt word_less_nat_alt)

lemma raised_ge:
  "t \<le> (if h \<noteq> 0 \<and> b then if unat t + unat h > 65535 then 65535 else t + h else (t :: 16 word))"
  "unat t + unat h \<le> unat v \<Longrightarrow> (if h \<noteq> 0 \<and> b then if unat t + unat h > 65535 then 65535 else t + h else t) \<le> v"
  "unat t + unat h < unat v \<Longrightarrow> (if h \<noteq> 0 \<and> b then if unat t + unat h > 65535 then 65535 else t + h else t) < v"
  using threshold_sum [of t h] unat16_le [of t] unat16_le [of v] by (auto simp: word_le_nat_alt word_less_nat_alt)

lemma watch_decided:
  "watch_holds v w \<Longrightarrow> watch_pass (iw_op w) v (iw_threshold w) (watch_threshold hyst passed (iw_op w) (iw_threshold w))"
  "watch_broken (unat hyst) v w \<Longrightarrow> \<not> watch_pass (iw_op w) v (iw_threshold w) (watch_threshold hyst passed (iw_op w) (iw_threshold w))"
proof -
  let ?t = "iw_threshold w" and ?th = "\<lambda>op. watch_threshold hyst passed op (iw_threshold w)"
  obtain r where re: "r = (if hyst \<noteq> 0 \<and> passed \<noteq> 0 then if hyst < ?t then ?t - hyst else 0 else ?t)" by simp
  have r: "?th IL_OP_GT = r" "?th IL_OP_GE = r" by (simp_all add: re watch_threshold_def)
  note low = relaxed_le(1) [of hyst "passed \<noteq> 0" ?t, folded re] relaxed_le(2,3) [of v hyst ?t "passed \<noteq> 0", folded re]
  obtain s where se: "s = (if hyst \<noteq> 0 \<and> passed \<noteq> 0 then if unat ?t + unat hyst > 65535 then 65535 else ?t + hyst else ?t)" by simp
  have s: "?th IL_OP_LT = s" "?th IL_OP_LE = s" by (simp_all add: se watch_threshold_def)
  note high = raised_ge(1) [of ?t hyst "passed \<noteq> 0", folded se] raised_ge(2,3) [of ?t hyst v "passed \<noteq> 0", folded se]
  show "watch_holds v w \<Longrightarrow> watch_pass (iw_op w) v ?t (?th (iw_op w))"
    using r s low(1) high(1) by (cases "iw_op w") (simp_all add: watch_holds_def watch_pass_def)
  show "watch_broken (unat hyst) v w \<Longrightarrow> \<not> watch_pass (iw_op w) v ?t (?th (iw_op w))"
    using r s low(2,3) high(2,3)
    by (cases "iw_op w") (simp_all add: watch_broken_def watch_pass_def Let_def not_less not_le)
qed

section \<open>Evaluation\<close>

definition same_but_runtime :: "interlocks \<Rightarrow> interlocks \<Rightarrow> bool" where
  "same_but_runtime st st' = (il_persist st' = il_persist st \<and> il_tx st' = il_tx st \<and> il_status st' = il_status st \<and>
     (il_hal st' = il_hal st \<or> il_hal st' = ensure_initialised (il_hal st)))"

lemma same_but_runtime_refl [simp]: "same_but_runtime st st"
  by (simp add: same_but_runtime_def)

lemma same_but_runtime_trans: "same_but_runtime st st1 \<Longrightarrow> same_but_runtime st1 st2 \<Longrightarrow> same_but_runtime st st2"
  by (auto simp: same_but_runtime_def)

lemma read_hal:
  "hal_pin_read levels pid h = (v, h') \<Longrightarrow> h' = ensure_initialised h"
  "hal_pin_read_adc adc pid h = (x, h') \<Longrightarrow> h' = ensure_initialised h"
  by (auto simp: hal_pin_read_def hal_pin_read_adc_def Let_def split: if_splits)

lemma sample_same: "sample env slot i inp st = (v, st') \<Longrightarrow> same_but_runtime st st'"
  by (auto simp: sample_def same_but_runtime_def debounce_def Let_def dest: read_hal split: if_splits prod.splits)

lemma sample_inputs_same:
  "sample_inputs env slot i inps st = (vs, st') \<Longrightarrow> same_but_runtime st st' \<and> length vs = length inps"
proof (induction inps arbitrary: i st vs st')
  case (Cons inp inps)
  obtain v st1 where 1: "sample env slot i inp st = (v, st1)" by fastforce
  obtain ws st2 where 2: "sample_inputs env slot (i + 1) inps st1 = (ws, st2)" by fastforce
  from Cons.prems 1 2 have "vs = v # ws" "st' = st2" by auto
  then show ?case using Cons.IH [OF 2] sample_same [OF 1] same_but_runtime_trans by auto
qed simp

lemma eval_watches_same: "same_but_runtime st (snd (eval_watches slot i inst vals ws st))"
proof (induction ws arbitrary: i st)
  case (Cons w ws)
  obtain pass st1 where 1: "eval_watch slot i inst vals w st = (pass, st1)" by fastforce
  then have "same_but_runtime st st1" by (auto simp: eval_watch_def Let_def same_but_runtime_def)
  then show ?case using Cons.IH [of st1 "i + 1"] 1 by (auto split: prod.splits intro: same_but_runtime_trans)
qed simp

lemma eval_watches_Cons:
  obtains st1 passed where "fst (eval_watches slot i inst vals (w # ws) st) =
    (watch_pass (iw_op w) (vals ! iw_input_idx w) (iw_threshold w)
      (watch_threshold (ii_hyst (in_inputs inst ! iw_input_idx w)) passed (iw_op w) (iw_threshold w)) \<and>
     fst (eval_watches slot (i + 1) inst vals ws st1))"
proof -
  obtain pass st1 where "eval_watch slot i inst vals w st = (pass, st1)" by fastforce
  moreover from this have "pass = watch_pass (iw_op w) (vals ! iw_input_idx w) (iw_threshold w)
      (watch_threshold (ii_hyst (in_inputs inst ! iw_input_idx w)) (il_last_pass st ! slot ! i) (iw_op w) (iw_threshold w))"
    by (auto simp: eval_watch_def Let_def)
  ultimately show thesis using that [of "il_last_pass st ! slot ! i" st1] by (simp split: prod.splits)
qed

lemma eval_watches_result:
  "(\<forall>w \<in> set ws. watch_holds (vals ! iw_input_idx w) w) \<Longrightarrow> fst (eval_watches slot i inst vals ws st)"
  "(\<exists>w \<in> set ws. watch_broken (unat (ii_hyst (in_inputs inst ! iw_input_idx w))) (vals ! iw_input_idx w) w) \<Longrightarrow>
    \<not> fst (eval_watches slot i inst vals ws st)"
proof (induction ws arbitrary: i st)
  case (Cons w ws)
  { case 1
    obtain st1 passed where r: "fst (eval_watches slot i inst vals (w # ws) st) =
      (watch_pass (iw_op w) (vals ! iw_input_idx w) (iw_threshold w)
        (watch_threshold (ii_hyst (in_inputs inst ! iw_input_idx w)) passed (iw_op w) (iw_threshold w)) \<and>
       fst (eval_watches slot (i + 1) inst vals ws st1))" by (rule eval_watches_Cons)
    show ?case unfolding r using watch_decided(1) Cons.IH(1) 1 by auto }
  { case 2
    obtain st1 passed where r: "fst (eval_watches slot i inst vals (w # ws) st) =
      (watch_pass (iw_op w) (vals ! iw_input_idx w) (iw_threshold w)
        (watch_threshold (ii_hyst (in_inputs inst ! iw_input_idx w)) passed (iw_op w) (iw_threshold w)) \<and>
       fst (eval_watches slot (i + 1) inst vals ws st1))" by (rule eval_watches_Cons)
    show ?case unfolding r using watch_decided(2) Cons.IH(2) [where st = st1 and i = "i + 1"] 2 by auto }
qed simp_all

text \<open>What one slot's part of a tick does to the state.\<close>

definition slot_ticked :: "8 word \<Rightarrow> interlocks \<Rightarrow> interlocks \<Rightarrow> bool" where
  "slot_ticked slot st st' = (\<exists>tf vals.
     il_persist st' = set_tf slot tf (il_persist st) \<and> il_tx st' = il_tx st \<and>
     (il_hal st' = il_hal st \<or> il_hal st' = ensure_initialised (il_hal st)) \<and>
     sb_slots (il_status st') = sb_slots (il_status st) \<and>
     sb_input_vals (il_status st') = (sb_input_vals (il_status st))[unat slot := vals] \<and>
     (armed_dsl (il_persist st) slot \<longrightarrow> tf = IL_TF_TRUE \<or> tf = IL_TF_FALSE) \<and>
     (armed_dsl (il_persist st) slot \<longrightarrow> (\<forall>w \<in> set (in_watches (inst_of slot st)). watch_holds (vals ! iw_input_idx w) w) \<longrightarrow> tf = IL_TF_TRUE) \<and>
     (armed_dsl (il_persist st) slot \<longrightarrow> (\<exists>w \<in> set (in_watches (inst_of slot st)).
        watch_broken (unat (ii_hyst (in_inputs (inst_of slot st) ! iw_input_idx w))) (vals ! iw_input_idx w) w) \<longrightarrow> tf = IL_TF_FALSE))"

lemma set_tf_same: "persist_shape p \<Longrightarrow> unat slot < INTERLOCK_MAX_SLOTS \<Longrightarrow> set_tf slot (in_tf_state (ip_inst p ! unat slot)) p = p"
  by (simp add: set_tf_def persist_shape_def)

lemma eval_slot_ticked:
  assumes "armed_dsl (il_persist st) slot"
  shows "slot_ticked slot st (eval_slot env slot st)"
proof -
  let ?inst = "inst_of slot st"
  obtain vs st1 where 1: "sample_inputs env (unat slot) 0 (in_inputs ?inst) (set_active slot st) = (vs, st1)" by fastforce
  let ?vals = "vs @ replicate (IL_MAX_INPUTS - length vs) 0"
  let ?st2 = "st1 \<lparr> il_status := (il_status st1) \<lparr> sb_input_vals := (sb_input_vals (il_status st1))[unat slot := ?vals] \<rparr> \<rparr>"
  obtain all_pass st3 where 3: "eval_watches (unat slot) 0 ?inst ?vals (in_watches ?inst) ?st2 = (all_pass, st3)" by fastforce
  have r: "eval_slot env slot st = set_inst slot (?inst \<lparr> in_tf_state := if all_pass then IL_TF_TRUE else IL_TF_FALSE \<rparr>) st3"
    using 1 3 by (simp add: eval_slot_def Let_def)
  have s1: "same_but_runtime (set_active slot st) st1" using sample_inputs_same [OF 1] by simp
  have s3: "same_but_runtime ?st2 st3" using eval_watches_same [of ?st2 "unat slot" 0 ?inst ?vals "in_watches ?inst"] 3 by simp
  have tf: "(\<forall>w \<in> set (in_watches ?inst). watch_holds (?vals ! iw_input_idx w) w) \<Longrightarrow> all_pass"
    "(\<exists>w \<in> set (in_watches ?inst). watch_broken (unat (ii_hyst (in_inputs ?inst ! iw_input_idx w))) (?vals ! iw_input_idx w) w) \<Longrightarrow> \<not> all_pass"
    using eval_watches_result(1) [of "in_watches ?inst" ?vals "unat slot" 0 ?inst ?st2]
      eval_watches_result(2) [of "in_watches ?inst" ?inst ?vals "unat slot" 0 ?st2] 3 by simp_all
  have "il_persist (eval_slot env slot st) = set_tf slot (if all_pass then IL_TF_TRUE else IL_TF_FALSE) (il_persist st)"
    using s1 s3 by (simp add: r set_inst_def upd_persist_def set_tf_def same_but_runtime_def set_active_def inst_of_def)
  moreover have "il_hal (eval_slot env slot st) = il_hal st \<or> il_hal (eval_slot env slot st) = ensure_initialised (il_hal st)"
    using s1 s3 by (auto simp: r set_inst_def upd_persist_def same_but_runtime_def set_active_def)
  moreover have "il_tx (eval_slot env slot st) = il_tx st" "sb_slots (il_status (eval_slot env slot st)) = sb_slots (il_status st)"
    "sb_input_vals (il_status (eval_slot env slot st)) = (sb_input_vals (il_status st))[unat slot := ?vals]"
    using s1 s3 by (simp_all add: r set_inst_def upd_persist_def same_but_runtime_def set_active_def)
  ultimately show ?thesis unfolding slot_ticked_def using tf by (intro exI [of _ "if all_pass then _ else _"] exI [of _ ?vals] conjI impI) auto
qed

lemma tick_slot_ticked:
  assumes "persist_shape (il_persist st)" "unat slot < INTERLOCK_MAX_SLOTS" "persist_is_valid (il_persist st)"
  shows "slot_ticked slot st (tick_slot env slot st)"
proof -
  let ?s = "slot_of slot st"
  consider (idle) "sl_state ?s \<noteq> INTERLOCK_SLOT_ARMED" | (dsl) "armed_dsl (il_persist st) slot"
    | (noop) "sl_state ?s = INTERLOCK_SLOT_ARMED" "sl_id ?s = INTERLOCK_ID_NOOP"
    using assms(2,3) by (auto simp: persist_is_valid_def list_all_iff slot_indices_set slot_valid_def Let_def slot_of_def armed_dsl_def)
  then show ?thesis
  proof cases
    case idle
    then have "tick_slot env slot st = st" "\<not> armed_dsl (il_persist st) slot" by (simp_all add: tick_slot_def armed_dsl_def slot_of_def)
    then show ?thesis using set_tf_same [OF assms(1,2)]
      by (auto simp: slot_ticked_def intro!: exI [of _ "in_tf_state (ip_inst (il_persist st) ! unat slot)"]
          exI [of _ "sb_input_vals (il_status st) ! unat slot"])
  next
    case dsl
    then have "tick_slot env slot st = eval_slot env slot st" by (simp add: tick_slot_def armed_dsl_def slot_of_def)
    then show ?thesis using eval_slot_ticked [OF dsl] by simp
  next
    case noop
    then have "tick_slot env slot st = interlock_set_slot_tf slot IL_TF_TRUE (set_active slot st)" "\<not> armed_dsl (il_persist st) slot"
      by (simp_all add: tick_slot_def armed_dsl_def slot_of_def slot_ids g_interlock_count_def g_interlocks_def registered_def noop_tick_def)
    then show ?thesis using assms(2)
      by (auto simp: slot_ticked_def interlock_set_slot_tf_def set_inst_def upd_persist_def set_active_def inst_of_def set_tf_def
          intro!: exI [of _ IL_TF_TRUE] exI [of _ "sb_input_vals (il_status st) ! unat slot"])
  qed
qed

lemma slot_ticked_ok:
  assumes "il_ok st" "slot_ticked slot st st'" "unat slot < INTERLOCK_MAX_SLOTS"
  shows "il_ok st'" "ensure_initialised (il_hal st') = ensure_initialised (il_hal st)"
proof -
  from assms(2) obtain tf vals where t: "il_persist st' = set_tf slot tf (il_persist st)" "il_tx st' = il_tx st"
    "il_hal st' = il_hal st \<or> il_hal st' = ensure_initialised (il_hal st)" "sb_slots (il_status st') = sb_slots (il_status st)"
    "sb_input_vals (il_status st') = (sb_input_vals (il_status st))[unat slot := vals]"
    unfolding slot_ticked_def by blast
  show e: "ensure_initialised (il_hal st') = ensure_initialised (il_hal st)" using t(3) by auto
  have "hal_ok (il_hal st')" using t(3) assms(1) hal_upD(5) [OF hal_up_init] by (auto simp: il_ok_def)
  then show "il_ok st'" using assms(1) t e set_tf_ok [OF _ assms(3)] by (simp add: il_ok_def)
qed

section \<open>The report\<close>

definition same_but_report :: "interlocks \<Rightarrow> interlocks \<Rightarrow> bool" where
  "same_but_report st st' = (il_persist st' = il_persist st \<and> il_hal st' = il_hal st \<and> (\<exists>k. ring_ok k (il_tx st')) \<and>
     length (sb_slots (il_status st')) = length (sb_slots (il_status st)) \<and> sb_input_vals (il_status st') = sb_input_vals (il_status st))"

lemma same_but_report_trans: "same_but_report st st1 \<Longrightarrow> same_but_report st1 st2 \<Longrightarrow> same_but_report st st2"
  by (simp add: same_but_report_def)

lemma emit_returns:
  assumes "ring_ok k (il_tx st)"
  shows "\<exists>st'. emit_op_event sq slot os ns ot nt st = Ret ((), st') \<and> same_but_report st st'"
proof -
  let ?meta = "\<lparr> fm_addr = 1, fm_cmd = OP_EVENT, fm_seq = ucast (sq AND 0xFF), fm_ack_seq = 0, fm_ack_status = 0, fm_payload_len = 6 \<rparr>"
  let ?payload = "event_payload sq slot os ns ot nt"
  obtain rc r' where "frame_encode_s2m ?meta ?payload (il_tx st) = Ret (rc, r')" "ring_ok k r'"
    using encode_common_atomic [OF assms, of ?meta 6 ?payload FRAME_DIR_S2M] by (auto simp: frame_encode_s2m_def event_payload_def)
  then show ?thesis by (auto simp: emit_op_event_def on_tx_def same_but_report_def)
qed

lemma report_slot_returns:
  assumes "ring_ok k (il_tx st)"
  shows "\<exists>sq' st'. report_slot veto slot sq st = Ret (sq', st') \<and> same_but_report st st'"
proof -
  have emit: "\<exists>st1. (if b then emit_op_event s slot os ns ot nt else retA ()) st = Ret ((), st1) \<and> same_but_report st st1" for b s os ns ot nt
    using emit_returns [OF assms] assms by (cases b) (auto simp: same_but_report_def)
  let ?new = "slot_status veto slot st" and ?old = "sb_slots (il_status st) ! unat slot"
  let ?changed = "ss_state ?old \<noteq> ss_state ?new \<or> ss_tf ?old \<noteq> ss_tf ?new"
  let ?sq = "if ?changed then sq + 1 else sq"
  obtain st1 where 1: "(if ?changed then emit_op_event ?sq slot (ss_state ?old) (ss_state ?new) (ss_tf ?old) (ss_tf ?new) else retA ()) st = Ret ((), st1)"
    "same_but_report st st1" using emit by blast
  let ?st2 = "st1 \<lparr> il_status := (il_status st1) \<lparr> sb_slots := (sb_slots (il_status st1))[unat slot := ?new] \<rparr> \<rparr>"
  have "report_slot veto slot sq st = Ret (?sq, ?st2)"
    unfolding report_slot_def Let_def seqA_app 1(1) by simp
  moreover have "same_but_report st ?st2" using 1(2) by (simp add: same_but_report_def)
  ultimately show ?thesis by blast
qed

lemma report_slots_returns:
  "ring_ok k (il_tx st) \<Longrightarrow> \<exists>sq' st'. report_slots veto slots sq st = Ret (sq', st') \<and> same_but_report st st'"
proof (induction slots arbitrary: sq st k)
  case Nil
  then show ?case by (auto simp: same_but_report_def)
next
  case (Cons slot slots)
  obtain sq1 st1 where 1: "report_slot veto slot sq st = Ret (sq1, st1)" "same_but_report st st1"
    using report_slot_returns [OF Cons.prems] by blast
  then obtain k1 where "ring_ok k1 (il_tx st1)" by (auto simp: same_but_report_def)
  from Cons.IH [OF this, of sq1] obtain sq2 st2 where "report_slots veto slots sq1 st1 = Ret (sq2, st2)" "same_but_report st1 st2" by blast
  then show ?case using 1 same_but_report_trans by auto
qed

lemma report_returns:
  assumes "ring_ok k (il_tx st)"
  shows "\<exists>st'. report env veto st = Ret ((), st') \<and> same_but_report st st'"
proof -
  obtain sq' st1 where "report_slots veto slot_indices (sb_status_seq (il_status st)) st = Ret (sq', st1)" "same_but_report st st1"
    using report_slots_returns [OF assms] by blast
  then show ?thesis by (auto simp: report_def same_but_report_def)
qed

section \<open>A tick drives the outputs by the votes\<close>

text \<open>The votes against a pin: armed slots that declare it as an output and whose watches fail.\<close>

definition vetoed :: "persist \<Rightarrow> 8 word \<Rightarrow> bool" where
  "vetoed p pid = list_ex (\<lambda>slot. armed_dsl p slot \<and> in_tf_state (ip_inst p ! unat slot) = IL_TF_FALSE \<and>
     pid \<in> io_phys_id ` set (in_outputs (ip_inst p ! unat slot))) slot_indices"

lemma veto_mask_bits:
  "m AND veto_mask st \<noteq> 0 \<longleftrightarrow> (\<exists>slot. unat slot < INTERLOCK_MAX_SLOTS \<and> vetoes st slot \<and> m AND slot_bit slot \<noteq> 0)"
proof -
  have v: "veto_mask st = (if vetoes st 0 then slot_bit 0 else 0) OR (if vetoes st 1 then slot_bit 1 else 0)"
    by (simp add: veto_mask_def slot_indices_two word_bw_comms)
  show ?thesis unfolding v two_slots by (auto simp: word_ao_dist2 or_eq_0_iff)
qed

lemma tick_all_run:
  assumes "il_ok st"
  obtains st1 st2 st' where "slot_ticked 0 st st1" "slot_ticked 1 st1 st2" "st2 = tick_slot env 1 (tick_slot env 0 st)" "il_ok st1" "il_ok st2"
    "interlock_tick_all env st = Ret ((), st')" "il_ok st'" "il_persist st' = il_persist st2"
    "il_hal st' = hal_pin_drive_outputs (veto_mask st2) (ensure_initialised (il_hal st))"
    "sb_input_vals (il_status st') = sb_input_vals (il_status st2)"
proof -
  note shape = assms [unfolded il_ok_def]
  let ?st1 = "tick_slot env 0 st"
  have t1: "slot_ticked 0 st ?st1" using tick_slot_ticked [of st 0] shape by simp
  note ok1 = slot_ticked_ok [OF assms t1, simplified]
  let ?st2 = "tick_slot env 1 ?st1"
  have t2: "slot_ticked 1 ?st1 ?st2" using tick_slot_ticked [of ?st1 1] ok1(1) by (simp add: il_ok_def)
  note ok2 = slot_ticked_ok [OF ok1(1) t2, simplified]
  have v: "veto_mask (set_active a s) = veto_mask s" for a s
    by (simp add: veto_mask_def vetoes_def slot_of_def inst_of_def set_active_def)
  let ?st3 = "upd_hal (hal_pin_drive_outputs (veto_mask ?st2)) (set_active INTERLOCK_CRASHED_SLOT_NONE ?st2)"
  obtain k where "ring_ok k (il_tx ?st3)" using ok2(1) by (auto simp: il_ok_def upd_hal_def set_active_def)
  from report_returns [OF this, of env "veto_mask ?st2"]
  obtain st' where r: "report env (veto_mask ?st2) ?st3 = Ret ((), st')" "same_but_report ?st3 st'" by blast
  have run: "interlock_tick_all env st = Ret ((), st')"
    using shape verify_ok [of st] r(1) by (simp add: interlock_tick_all_def slot_indices_two v)
  have hal: "il_hal st' = hal_pin_drive_outputs (veto_mask ?st2) (ensure_initialised (il_hal st))"
    using r(2) ok1(2) ok2(2) claim_set_up(5) [of "veto_mask ?st2" "il_hal ?st2"] by (simp add: same_but_report_def upd_hal_def set_active_def)
  have "hal_ok (ensure_initialised (il_hal st))" using shape hal_upD(5) [OF hal_up_init] by blast
  note dr = drive_facts [OF this]
  have zero: "unat (0 :: 8 word) < HAL_PIN_TABLE_SIZE" by (simp add: HAL_PIN_TABLE_SIZE_def)
  have pins: "ensure_initialised (il_hal st') = il_hal st'" "hal_ok (il_hal st')"
    "unat q < HAL_PIN_TABLE_SIZE \<Longrightarrow> claim_at q (il_hal st') = claim_at q (ensure_initialised (il_hal st))" for q
    unfolding hal using hal_up_id [OF dr(1)] hal_upD(5) [OF dr(1)] zero by (blast, blast, simp add: dr(2))
  have "slots_ok p (il_hal st') = slots_ok p (ensure_initialised (il_hal st))" for p
    using pins(3) by (simp add: slots_ok_def slot_ok_def pins_held_def only_pins_def slot_free_def input_held_def output_held_def Let_def cong: conj_cong)
  then have "il_ok st'" using ok2 ok1(2) r(2) pins(1,2) by (simp add: il_ok_def same_but_report_def upd_hal_def set_active_def)
  then show thesis using that [OF t1 t2 refl ok1(1) ok2(1) run _ _ hal] r(2) by (simp add: same_but_report_def upd_hal_def set_active_def)
qed

lemma armed_inst:
  assumes "il_ok st" "armed_dsl (il_persist st) slot" "unat slot < INTERLOCK_MAX_SLOTS"
  shows "text_kept (il_persist st) slot" "pins_held slot (ip_inst (il_persist st) ! unat slot) (ensure_initialised (il_hal st))"
    "only_pins slot (ip_inst (il_persist st) ! unat slot) (ensure_initialised (il_hal st))"
    "inst_pre (ip_inst (il_persist st) ! unat slot)"
proof -
  show t: "text_kept (il_persist st) slot" "pins_held slot (ip_inst (il_persist st) ! unat slot) (ensure_initialised (il_hal st))"
    "only_pins slot (ip_inst (il_persist st) ! unat slot) (ensure_initialised (il_hal st))"
    using assms by (simp_all add: il_ok_def slots_ok_def slot_ok_def)
  have "inst_ok ((ip_inst (il_persist st) ! unat slot) \<lparr> in_tf_state := IL_TF_UNEVALUATED \<rparr>)"
    using t(1) parse_gives_ok by (auto simp: text_kept_def Let_def)
  then show "inst_pre (ip_inst (il_persist st) ! unat slot)" by (simp add: inst_ok_def inst_pre_def watch_ok_def list_all_iff)
qed

lemma virtual_beyond:
  "input_ok i \<Longrightarrow> ii_mode i = IL_PIN_MODE_VIRTUAL \<Longrightarrow> \<not> unat (ii_phys_id i) < HAL_PIN_TABLE_SIZE"
  by (auto simp: input_ok_def k_virt_pins_def IL_VIRT_T_SINCE_M2S_def IL_VIRT_UPTIME_def IL_VIRT_STACK_HWM_def HAL_PIN_TABLE_SIZE_def)

text \<open>The owners of an output pin are the armed slots that declare it as an output.\<close>

lemma output_owners:
  assumes "il_ok st" "armed_dsl (il_persist st) a" "unat a < INTERLOCK_MAX_SLOTS" "out \<in> set (in_outputs (ip_inst (il_persist st) ! unat a))"
    "unat b < INTERLOCK_MAX_SLOTS"
  shows "hc_slot_mask (claim_at (io_phys_id out) (ensure_initialised (il_hal st))) AND slot_bit b \<noteq> 0 \<longleftrightarrow>
    armed_dsl (il_persist st) b \<and> io_phys_id out \<in> io_phys_id ` set (in_outputs (ip_inst (il_persist st) ! unat b))"
proof -
  let ?p = "il_persist st" and ?h = "ensure_initialised (il_hal st)" and ?inst = "ip_inst (il_persist st) ! unat b"
  have held: "output_held a out ?h" using armed_inst(2) [OF assms(1-3)] assms(4) by (simp add: pins_held_def list_all_iff)
  then have pin: "unat (io_phys_id out) < HAL_PIN_TABLE_SIZE" by (simp add: output_held_def Let_def)
  show ?thesis
  proof
    assume own: "hc_slot_mask (claim_at (io_phys_id out) ?h) AND slot_bit b \<noteq> 0"
    then have b: "armed_dsl ?p b"
      using assms(1,5) pin by (auto simp: il_ok_def slots_ok_def slot_ok_def slot_free_def split: if_splits)
    note ai = armed_inst [OF assms(1) b assms(5)]
    have "io_phys_id out \<in> inst_pins ?inst" using own pin ai(3) by (auto simp: only_pins_def)
    moreover have "io_phys_id out \<noteq> ii_phys_id i" if i: "i \<in> set (in_inputs ?inst)" for i
    proof
      assume eq: "io_phys_id out = ii_phys_id i"
      have iok: "input_ok i" using ai(4) i by (auto simp: inst_pre_def list_all_iff)
      then have "ii_mode i \<noteq> IL_PIN_MODE_VIRTUAL" using virtual_beyond eq pin by metis
      moreover have "input_held b i ?h" using ai(2) i by (simp add: pins_held_def list_all_iff)
      ultimately show False using held eq input_modes [OF iok] by (auto simp: input_held_def output_held_def Let_def map_input_mode_def hal_modes split: if_splits)
    qed
    ultimately show "armed_dsl ?p b \<and> io_phys_id out \<in> io_phys_id ` set (in_outputs ?inst)" using b by (auto simp: inst_pins_def)
  next
    assume r: "armed_dsl ?p b \<and> io_phys_id out \<in> io_phys_id ` set (in_outputs ?inst)"
    then obtain out' where "out' \<in> set (in_outputs ?inst)" "io_phys_id out' = io_phys_id out" by force
    then show "hc_slot_mask (claim_at (io_phys_id out) ?h) AND slot_bit b \<noteq> 0"
      using armed_inst(2) [OF assms(1) _ assms(5)] r by (auto simp: pins_held_def list_all_iff output_held_def Let_def)
  qed
qed

lemma ticked_armed: "slot_ticked slot st st' \<Longrightarrow> armed_dsl (il_persist st') q = armed_dsl (il_persist st) q"
  by (auto simp: slot_ticked_def)

text \<open>The outputs after a tick.\<close>

definition outputs_voted :: "interlocks \<Rightarrow> bool" where
  "outputs_voted st = (\<forall>slot. unat slot < INTERLOCK_MAX_SLOTS \<and> armed_dsl (il_persist st) slot \<longrightarrow>
     list_all (\<lambda>out. dir_bit (io_phys_id out) (il_hal st) \<and>
       out_bit (io_phys_id out) (il_hal st) = ((if vetoed (il_persist st) (io_phys_id out) then io_err_value out else io_ok_value out) \<noteq> 0))
     (in_outputs (ip_inst (il_persist st) ! unat slot)))"

lemma set_tf_outputs [simp]:
  "unat slot < length (ip_inst p) \<Longrightarrow> in_outputs (ip_inst (set_tf slot tf p) ! unat q) = in_outputs (ip_inst p ! unat q)"
  by (cases "unat q = unat slot") (simp_all add: set_tf_def)

lemma ticked_outputs:
  "slot_ticked slot st st' \<Longrightarrow> il_ok st \<Longrightarrow> unat slot < INTERLOCK_MAX_SLOTS \<Longrightarrow>
   in_outputs (ip_inst (il_persist st') ! unat q) = in_outputs (ip_inst (il_persist st) ! unat q)"
  by (auto simp: slot_ticked_def il_ok_def persist_shape_def)

lemma tick_votes:
  assumes "il_ok st" "interlock_tick_all env st = Ret ((), st')"
  shows "outputs_voted st'"
proof -
  obtain st1 st2 where t: "slot_ticked 0 st st1" "slot_ticked 1 st1 st2" "il_ok st1" "il_ok st2" "il_ok st'" "il_persist st' = il_persist st2"
    "il_hal st' = hal_pin_drive_outputs (veto_mask st2) (ensure_initialised (il_hal st))"
    using tick_all_run [OF assms(1), of env] assms(2) by (metis Pair_inject res.inject(1))
  let ?h = "ensure_initialised (il_hal st)"
  have hok: "hal_ok ?h" using assms(1) hal_upD(5) [OF hal_up_init] by (auto simp: il_ok_def)
  have e2: "ensure_initialised (il_hal st2) = ?h" using slot_ticked_ok(2) [OF assms(1) t(1)] slot_ticked_ok(2) [OF t(3,2)] by simp
  have "dir_bit (io_phys_id out) (il_hal st') \<and>
       out_bit (io_phys_id out) (il_hal st') = ((if vetoed (il_persist st') (io_phys_id out) then io_err_value out else io_ok_value out) \<noteq> 0)"
    if slot: "unat slot < INTERLOCK_MAX_SLOTS" "armed_dsl (il_persist st') slot" "out \<in> set (in_outputs (ip_inst (il_persist st') ! unat slot))" for slot out
  proof -
    let ?pid = "io_phys_id out"
    have a2: "armed_dsl (il_persist st2) slot" using slot(2) t(6) by simp
    note own = output_owners [OF t(4) a2 slot(1) slot(3) [unfolded t(6)], unfolded e2]
    have held: "output_held slot out ?h" using armed_inst(2) [OF t(4) a2 slot(1)] slot(3) t(6) e2 by (simp add: pins_held_def list_all_iff)
    then have pin: "unat ?pid < HAL_PIN_TABLE_SIZE" by (simp add: output_held_def Let_def)
    have veto: "(hc_slot_mask (claim_at ?pid ?h) AND veto_mask st2 \<noteq> 0) = vetoed (il_persist st') ?pid"
      unfolding veto_mask_bits vetoed_def list_ex_iff slot_indices_set t(6) using own
      by (auto simp: vetoes_def slot_of_def inst_of_def armed_dsl_def)
    have dr: "drives ?pid ?h" using held by (auto simp: drives_def output_held_def Let_def)
    have cok: "claim_ok ?pid (il_hal st')" using drive_facts(1) [OF hok pin] hal_upD(4) pin t(7) by metis
    have "claim_at ?pid (il_hal st') = claim_at ?pid ?h" using drive_facts(2) [OF hok pin] t(7) by simp
    then have "dir_bit ?pid (il_hal st')" using cok dr by (simp add: claim_ok_def Let_def drives_def)
    moreover have "out_bit ?pid (il_hal st') = (level_for (veto_mask st2) (claim_at ?pid ?h) \<noteq> 0)"
      using drive_facts(3) [OF hok pin, of "veto_mask st2"] dr t(7) by simp
    ultimately show ?thesis using held veto by (simp add: level_for_def output_held_def Let_def)
  qed
  then show ?thesis by (auto simp: outputs_voted_def list_all_iff)
qed

section \<open>Commands keep the invariant\<close>

text \<open>What an operation on one slot leaves to the other slots.\<close>

definition other_claims :: "8 word \<Rightarrow> hal \<Rightarrow> hal \<Rightarrow> bool" where
  "other_claims slot h h' = (\<forall>pid. unat pid < HAL_PIN_TABLE_SIZE \<longrightarrow> (let c = claim_at pid h; c' = claim_at pid h'; m = hc_slot_mask c AND NOT (slot_bit slot) in
     hc_slot_mask c' AND NOT (slot_bit slot) = m \<and>
     (m \<noteq> 0 \<longrightarrow> hc_mode c' = hc_mode c \<and> hc_ok_value c' = hc_ok_value c \<and> hc_err_value c' = hc_err_value c)))"

definition other_slots :: "8 word \<Rightarrow> persist \<Rightarrow> persist \<Rightarrow> bool" where
  "other_slots slot p p' = (\<forall>q. unat q < INTERLOCK_MAX_SLOTS \<and> q \<noteq> slot \<longrightarrow> ip_slots p' ! unat q = ip_slots p ! unat q \<and>
     ip_inst p' ! unat q = ip_inst p ! unat q \<and> ip_dsl_len p' ! unat q = ip_dsl_len p ! unat q \<and> ip_dsl_text p' ! unat q = ip_dsl_text p ! unat q)"

lemma other_bit:
  assumes "m' AND NOT (slot_bit slot) = m AND NOT (slot_bit slot)" "q \<noteq> slot"
  shows "m' AND slot_bit q = m AND slot_bit q" "m AND slot_bit q \<noteq> 0 \<Longrightarrow> m AND NOT (slot_bit slot) \<noteq> 0"
proof -
  have b: "bit m' k = bit m k" if "k \<noteq> unat slot" for k
    using assms(1) that clear_slot_bit by metis
  have n: "unat q \<noteq> unat slot" using assms(2) by (simp add: word_unat_eq_iff)
  show "m' AND slot_bit q = m AND slot_bit q"
    by (rule bit_word_eqI) (use b n in \<open>auto simp: bit_and_iff bit_slot_bit\<close>)
  assume "m AND slot_bit q \<noteq> 0"
  then have "bit m (unat q)" by (auto simp: bit_eq_iff [where 'a = "8 word"] bit_and_iff bit_slot_bit)
  then have "bit (m AND NOT (slot_bit slot)) (unat q)" using n by (simp add: clear_slot_bit)
  then show "m AND NOT (slot_bit slot) \<noteq> 0" by auto
qed

lemma other_held:
  assumes "other_claims slot h h'" "q \<noteq> slot" "unat q < 8" "hal_up h'"
  shows "pins_held q inst h \<Longrightarrow> pins_held q inst h'" "only_pins q inst h \<Longrightarrow> only_pins q inst h'" "slot_free q h \<Longrightarrow> slot_free q h'"
proof -
  have b: "hc_slot_mask (claim_at pid h') AND slot_bit q = hc_slot_mask (claim_at pid h) AND slot_bit q"
    and k: "hc_slot_mask (claim_at pid h) AND slot_bit q \<noteq> 0 \<Longrightarrow> hc_mode (claim_at pid h') = hc_mode (claim_at pid h) \<and>
      hc_ok_value (claim_at pid h') = hc_ok_value (claim_at pid h) \<and> hc_err_value (claim_at pid h') = hc_err_value (claim_at pid h)"
    if "unat pid < HAL_PIN_TABLE_SIZE" for pid
    using assms(1,2) that other_bit [of "hc_slot_mask (claim_at pid h')" slot "hc_slot_mask (claim_at pid h)" q] by (auto simp: other_claims_def Let_def)
  show "only_pins q inst h \<Longrightarrow> only_pins q inst h'" "slot_free q h \<Longrightarrow> slot_free q h'"
    using b by (simp_all add: only_pins_def slot_free_def)
  have ins: "input_held q i h'" if held: "input_held q i h" for i
  proof (cases "ii_mode i = IL_PIN_MODE_VIRTUAL")
    case False
    let ?pid = "ii_phys_id i"
    have i: "unat ?pid < HAL_PIN_TABLE_SIZE" "hc_slot_mask (claim_at ?pid h) = slot_bit q" "hc_mode (claim_at ?pid h) = map_input_mode (ii_mode i)"
      using held False by (auto simp: input_held_def)
    have s: "slot_bit q AND slot_bit q \<noteq> 0" using one_slot_bit(2) [OF assms(3)] by simp
    have m: "hc_mode (claim_at ?pid h') = map_input_mode (ii_mode i)" using k [OF i(1)] i(2,3) s by simp
    have own: "hc_slot_mask (claim_at ?pid h') AND slot_bit q = slot_bit q" using b [OF i(1)] i(2) by simp
    have "claim_ok ?pid h'" using hal_upD(4) [OF assms(4) i(1)] .
    moreover have "hc_slot_mask (claim_at ?pid h') \<noteq> 0" using own s by auto
    moreover have "hc_mode (claim_at ?pid h') \<noteq> HAL_PIN_MODE_GPIO_OUT" using m by (auto simp: map_input_mode_def hal_modes split: if_splits)
    ultimately have "one_slot (hc_slot_mask (claim_at ?pid h'))" by (simp add: claim_ok_def Let_def)
    then have "hc_slot_mask (claim_at ?pid h') = slot_bit q"
    proof -
      assume "one_slot (hc_slot_mask (claim_at ?pid h'))"
      then obtain n where "hc_slot_mask (claim_at ?pid h') = push_bit n 1" by (auto simp: one_slot_def list_ex_iff)
      moreover have "bit (hc_slot_mask (claim_at ?pid h')) (unat q)"
        using own assms(3) by (metis bit_and_iff bit_slot_bit)
      ultimately show ?thesis by (auto simp: bit_exp_iff slot_bit_def push_bit_eq_mult)
    qed
    then show ?thesis using i(1) m by (simp add: input_held_def)
  qed (simp add: input_held_def)
  have outs: "output_held q out h'" if "output_held q out h" for out
    using that b [of "io_phys_id out"] k [of "io_phys_id out"] by (auto simp: output_held_def Let_def)
  show "pins_held q inst h \<Longrightarrow> pins_held q inst h'" using ins outs by (auto simp: pins_held_def list_all_iff)
qed

lemma slot_ok_other:
  assumes "slot_ok p h q" "q \<noteq> slot" "unat q < INTERLOCK_MAX_SLOTS" "other_claims slot h h'" "other_slots slot p p'" "hal_up h'"
  shows "slot_ok p' h' q"
proof -
  note o = assms(5) [unfolded other_slots_def, rule_format, OF conjI [OF assms(3,2)]]
  have "text_kept p' q = text_kept p q" "armed_dsl p' q = armed_dsl p q" using o by (simp_all add: armed_dsl_def text_kept_def Let_def)
  then show ?thesis using assms(1) o other_held [OF assms(4,2) slot_below [OF assms(3)] assms(6)] by (auto simp: slot_ok_def)
qed

lemma slots_ok_update:
  assumes "slots_ok p h" "other_claims slot h h'" "other_slots slot p p'" "hal_up h'" "unat slot < INTERLOCK_MAX_SLOTS" "slot_ok p' h' slot"
  shows "slots_ok p' h'"
  using assms slot_ok_other [OF _ _ _ assms(2,3,4)] by (metis slots_ok_def)

lemma release_others:
  assumes "hal_ok h"
  shows "other_claims slot (ensure_initialised h) (hal_pin_release_slot slot h)"
    "unat slot < 8 \<Longrightarrow> slot_free slot (hal_pin_release_slot slot h)"
  using release_up(2) [OF assms] release_keeps [OF assms, of _ slot]
  by (auto simp: other_claims_def Let_def slot_free_def and_slot_bit clear_slot_bit word_bw_assocs)

lemma extends_others: "extends_claims slot h h' \<Longrightarrow> slot_free slot h \<Longrightarrow> other_claims slot h h'"
  by (auto simp: extends_claims_def claims_of_others_def slot_free_def other_claims_def Let_def clear_bit_slot)

lemma same_others: "same_claims h h' \<Longrightarrow> other_claims slot h h'" "same_claims h h' \<Longrightarrow> slot_free slot h \<Longrightarrow> slot_free slot h'"
  by (auto simp: same_claims_def other_claims_def Let_def slot_free_def)

lemma unchanged_others: "other_claims slot h h" "other_slots slot p p"
  by (simp_all add: other_claims_def other_slots_def Let_def)

text \<open>The simplified states the commands leave.\<close>

lemma upd_simps [simp]:
  "il_persist (set_active a st) = il_persist st" "il_hal (set_active a st) = il_hal st" "il_tx (set_active a st) = il_tx st"
  "il_status (set_active a st) = il_status st"
  "il_persist (clear_slot_runtime slot st) = il_persist st" "il_hal (clear_slot_runtime slot st) = il_hal st"
  "il_tx (clear_slot_runtime slot st) = il_tx st" "il_status (clear_slot_runtime slot st) = il_status st"
  "il_persist (upd_persist f st) = f (il_persist st)" "il_hal (upd_persist f st) = il_hal st" "il_tx (upd_persist f st) = il_tx st"
  "il_status (upd_persist f st) = il_status st"
  "il_persist (upd_hal g st) = il_persist st" "il_hal (upd_hal g st) = g (il_hal st)" "il_tx (upd_hal g st) = il_tx st"
  "il_status (upd_hal g st) = il_status st"
  by (simp_all add: set_active_def clear_slot_runtime_def upd_persist_def upd_hal_def)

lemma valid_update:
  assumes "persist_is_valid p" "persist_shape p" "unat slot < INTERLOCK_MAX_SLOTS" "other_slots slot p p'" "slot_valid p' slot"
    "ip_magic p' = ip_magic p" "ip_version p' = ip_version p" "ip_self_size p' = ip_self_size p" "ip_crash p' = ip_crash p"
  shows "persist_is_valid p'"
proof -
  have "slot_valid p' q" if "q \<in> set slot_indices" for q
    using assms(1,4,5) that by (cases "q = slot") (auto simp: persist_is_valid_def list_all_iff slot_indices_set other_slots_def slot_valid_def Let_def)
  then show ?thesis using assms by (simp add: persist_is_valid_def list_all_iff)
qed

lemma il_ok_update:
  assumes "il_ok st" "unat slot < INTERLOCK_MAX_SLOTS" "hal_ok (il_hal st')" "other_claims slot (ensure_initialised (il_hal st)) (ensure_initialised (il_hal st'))"
    "other_slots slot (il_persist st) (il_persist st')" "slot_valid (il_persist st') slot" "persist_shape (il_persist st')"
    "ip_magic (il_persist st') = ip_magic (il_persist st)" "ip_version (il_persist st') = ip_version (il_persist st)"
    "ip_self_size (il_persist st') = ip_self_size (il_persist st)" "ip_crash (il_persist st') = ip_crash (il_persist st)"
    "il_tx st' = il_tx st" "il_status st' = il_status st"
    "slot_ok (il_persist st') (ensure_initialised (il_hal st')) slot"
  shows "il_ok st'"
  using assms(1,3,7,12,13) valid_update [OF _ _ assms(2,5,6,8-11)] slots_ok_update [OF _ assms(4,5) hal_up_init [OF assms(3)] assms(2,14)]
  by (simp add: il_ok_def)

lemma list_other: "unat q \<noteq> unat slot \<Longrightarrow> xs[unat slot := x] ! unat q = xs ! unat q"
  by simp

lemma slots_updated:
  assumes "persist_shape p" "unat slot < INTERLOCK_MAX_SLOTS"
  shows "other_slots slot p (p \<lparr> ip_slots := (ip_slots p)[unat slot := s], ip_inst := (ip_inst p)[unat slot := i],
     ip_dsl_len := (ip_dsl_len p)[unat slot := l], ip_dsl_text := (ip_dsl_text p)[unat slot := t] \<rparr>)"
    "persist_shape (p \<lparr> ip_slots := (ip_slots p)[unat slot := s], ip_inst := (ip_inst p)[unat slot := i],
     ip_dsl_len := (ip_dsl_len p)[unat slot := l], ip_dsl_text := (ip_dsl_text p)[unat slot := t] \<rparr>)"
  using assms by (auto simp: other_slots_def persist_shape_def word_unat_eq_iff)

text \<open>A change of all that the kept memory holds of one slot.\<close>

definition put_slot :: "8 word \<Rightarrow> slot_persist \<Rightarrow> il_inst \<Rightarrow> 16 word \<Rightarrow> string \<Rightarrow> persist \<Rightarrow> persist" where
  "put_slot slot s i l t p = p \<lparr> ip_slots := (ip_slots p)[unat slot := s], ip_inst := (ip_inst p)[unat slot := i],
     ip_dsl_len := (ip_dsl_len p)[unat slot := l], ip_dsl_text := (ip_dsl_text p)[unat slot := t] \<rparr>"

lemma put_slot_at:
  "persist_shape p \<Longrightarrow> unat slot < INTERLOCK_MAX_SLOTS \<Longrightarrow> ip_slots (put_slot slot s i l t p) ! unat slot = s \<and>
   ip_inst (put_slot slot s i l t p) ! unat slot = i \<and> ip_dsl_len (put_slot slot s i l t p) ! unat slot = l \<and>
   ip_dsl_text (put_slot slot s i l t p) ! unat slot = t"
  by (simp add: put_slot_def persist_shape_def)

lemma put_slot_ok:
  assumes "il_ok st" "unat slot < INTERLOCK_MAX_SLOTS" "hal_ok (il_hal st')" "other_claims slot (ensure_initialised (il_hal st)) (ensure_initialised (il_hal st'))"
    "il_persist st' = put_slot slot s i l t (il_persist st)" "slot_valid (il_persist st') slot" "il_tx st' = il_tx st" "il_status st' = il_status st"
    "slot_ok (il_persist st') (ensure_initialised (il_hal st')) slot"
  shows "il_ok st'"
proof -
  have sh: "persist_shape (il_persist st)" using assms(1) by (simp add: il_ok_def)
  show ?thesis
    by (rule il_ok_update [OF assms(1-4) _ assms(6) _ _ _ _ _ assms(7,8,9)])
      (simp_all add: assms(5) put_slot_def slots_updated [OF sh assms(2)])
qed

lemma put_slot_self:
  "persist_shape p \<Longrightarrow> unat slot < INTERLOCK_MAX_SLOTS \<Longrightarrow>
   p = put_slot slot (ip_slots p ! unat slot) (ip_inst p ! unat slot) (ip_dsl_len p ! unat slot) (ip_dsl_text p ! unat slot) p"
  by (simp add: put_slot_def persist_shape_def)

lemma arm_keeps:
  assumes "il_ok st"
  shows "\<exists>r st'. interlock_arm_slot_compiled slot i st = Ret (r, st') \<and> il_ok st'"
proof -
  have v: "verify_persist_or_panic st = Ret ((), st)" using assms verify_ok by (simp add: il_ok_def)
  have sh: "persist_shape (il_persist st)" using assms by (simp add: il_ok_def)
  show ?thesis
  proof (cases "unat slot \<ge> INTERLOCK_MAX_SLOTS \<or> i = INTERLOCK_ID_NONE \<or> i = INTERLOCK_ID_DSL \<or> i > g_interlock_count \<or>
      sl_state (slot_of slot st) = INTERLOCK_SLOT_ARMED")
    case True
    then show ?thesis using v assms by (auto simp: interlock_arm_slot_compiled_def)
  next
    case False
    then have slot: "unat slot < INTERLOCK_MAX_SLOTS" and i: "i = INTERLOCK_ID_NOOP"
      by (auto simp: g_interlock_count_def g_interlocks_def slot_ids not_less word_le_nat_alt word_unat_eq_iff)
    let ?st = "set_active INTERLOCK_CRASHED_SLOT_NONE (set_active slot
       (clear_slot_runtime slot (set_inst slot zero_inst
         (upd_slot_persist slot (\<lambda>s. s \<lparr> sl_state := INTERLOCK_SLOT_ARMED, sl_id := i, sl_boot_counter := 0 \<rparr>) st))))"
    have run: "interlock_arm_slot_compiled slot i st = Ret (SHELL_STATUS_OK, ?st)"
      using False v i by (simp add: interlock_arm_slot_compiled_def registered_def g_interlocks_def noop_init_def slot_ids)
    have p: "il_persist ?st = put_slot slot ((ip_slots (il_persist st) ! unat slot) \<lparr> sl_state := INTERLOCK_SLOT_ARMED, sl_id := i, sl_boot_counter := 0 \<rparr>)
        zero_inst (ip_dsl_len (il_persist st) ! unat slot) (ip_dsl_text (il_persist st) ! unat slot) (il_persist st)"
      using sh slot by (simp add: set_inst_def upd_slot_persist_def put_slot_def persist_shape_def)
    note at = put_slot_at [OF sh slot]
    have free: "slot_free slot (ensure_initialised (il_hal st))"
      using assms slot False by (auto simp: il_ok_def slots_ok_def slot_ok_def armed_dsl_def slot_of_def split: if_splits)
    have "il_ok ?st"
      by (rule put_slot_ok [OF assms slot _ _ p])
        (use assms free i at sh slot in \<open>simp_all add: p slot_valid_def Let_def slot_states slot_ids armed_dsl_def slot_ok_def unchanged_others il_ok_def set_inst_def upd_slot_persist_def persist_shape_def\<close>)
    then show ?thesis using run by blast
  qed
qed

lemma disarm_keeps:
  assumes "il_ok st"
  shows "\<exists>r st'. interlock_disarm_slot slot st = Ret (r, st') \<and> il_ok st'"
proof -
  have v: "verify_persist_or_panic st = Ret ((), st)" using assms verify_ok by (simp add: il_ok_def)
  have sh: "persist_shape (il_persist st)" and hok: "hal_ok (il_hal st)" using assms by (simp_all add: il_ok_def)
  show ?thesis
  proof (cases "unat slot < INTERLOCK_MAX_SLOTS")
    case False
    then show ?thesis using v assms by (simp add: interlock_disarm_slot_def)
  next
    case slot: True
    let ?st0 = "disarm_terminate slot st"
    have "sl_id (slot_of slot st) = INTERLOCK_ID_NONE \<or> sl_id (slot_of slot st) = INTERLOCK_ID_NOOP \<or> sl_id (slot_of slot st) = INTERLOCK_ID_DSL"
      using assms slot by (auto simp: il_ok_def persist_is_valid_def list_all_iff slot_indices_set slot_valid_def Let_def slot_of_def)
    then have t: "il_persist ?st0 = il_persist st" "il_hal ?st0 = il_hal st" "il_tx ?st0 = il_tx st" "il_status ?st0 = il_status st"
      by (auto simp: disarm_terminate_def Let_def registered_def g_interlocks_def g_interlock_count_def noop_terminate_def slot_ids)
    let ?st = "clear_slot_runtime slot (upd_persist (\<lambda>p. p \<lparr> ip_dsl_len := (ip_dsl_len p)[unat slot := 0] \<rparr>) (set_inst slot zero_inst
       (upd_slot_persist slot (\<lambda>s. s \<lparr> sl_state := INTERLOCK_SLOT_EMPTY, sl_id := INTERLOCK_ID_NONE, sl_boot_counter := 0 \<rparr>)
       (upd_hal (hal_pin_release_slot slot) ?st0))))"
    have run: "interlock_disarm_slot slot st = Ret (SHELL_STATUS_OK, ?st)"
      using slot v by (simp add: interlock_disarm_slot_def)
    have p: "il_persist ?st = put_slot slot ((ip_slots (il_persist st) ! unat slot) \<lparr> sl_state := INTERLOCK_SLOT_EMPTY, sl_id := INTERLOCK_ID_NONE, sl_boot_counter := 0 \<rparr>)
        zero_inst 0 (ip_dsl_text (il_persist st) ! unat slot) (il_persist st)"
      using sh slot by (simp add: set_inst_def upd_slot_persist_def put_slot_def persist_shape_def t)
    have h: "il_hal ?st = hal_pin_release_slot slot (il_hal st)" by (simp add: set_inst_def upd_slot_persist_def t)
    note at = put_slot_at [OF sh slot]
    have "il_ok ?st"
      by (rule put_slot_ok [OF assms slot _ _ p])
        (use release_others [OF hok] claim_initialised(4) [OF hok] hal_upD(5) [OF release_up(1) [OF hok]] slot at h sh
          in \<open>simp_all add: p slot_valid_def Let_def slot_states slot_ids armed_dsl_def slot_ok_def set_inst_def upd_slot_persist_def t persist_shape_def\<close>)
    then show ?thesis using run by blast
  qed
qed

lemma parsed_tf: "il_parse text = Inr inst \<Longrightarrow> inst \<lparr> in_tf_state := IL_TF_UNEVALUATED \<rparr> = inst \<and> inst_pre inst \<and> inst_ok inst"
  using parse_gives_ok [of "text" inst] by (auto simp: inst_ok_def)

lemma claim_inst_ok:
  assumes "hal_ok h" "unat slot < 8" "inst_pre inst" "slot_free slot (ensure_initialised h)" "claim_inst_pins slot inst h = (cs, h')"
  shows "hal_ok h'" "cs = HAL_PIN_CLAIM_OK \<Longrightarrow> extends_claims slot (ensure_initialised h) (ensure_initialised h') \<and>
      pins_held slot inst (ensure_initialised h') \<and> only_pins slot inst (ensure_initialised h')"
    "cs \<noteq> HAL_PIN_CLAIM_OK \<Longrightarrow> same_claims (ensure_initialised h) (ensure_initialised h')"
proof -
  note e = claim_inst_set_up [OF assms(1,2), of inst]
  have c: "claim_inst_pins slot inst (ensure_initialised h) = (cs, ensure_initialised h')" using e(1) assms(5) by simp
  note u = claim_inst_up [OF hal_up_init [OF assms(1)] assms(2,3) c]
  show "hal_ok h'" using e(2) assms(5) by simp
  show "cs = HAL_PIN_CLAIM_OK \<Longrightarrow> extends_claims slot (ensure_initialised h) (ensure_initialised h') \<and>
      pins_held slot inst (ensure_initialised h') \<and> only_pins slot inst (ensure_initialised h')"
    using u(1) assms(4) by (auto simp: slot_free_def only_pins_def)
  show "cs \<noteq> HAL_PIN_CLAIM_OK \<Longrightarrow> same_claims (ensure_initialised h) (ensure_initialised h')"
    using u(2) assms(4) by (simp add: slot_free_def)
qed

lemma set_dsl_run:
  assumes "il_ok st"
  shows "\<exists>r ps st'. interlock_set_slot_dsl slot text st = Ret ((r, ps), st') \<and> il_ok st' \<and>
    (if r = SHELL_STATUS_OK then unat slot < INTERLOCK_MAX_SLOTS \<and> armed_dsl (il_persist st') slot \<and>
       il_parse text = Inr (ip_inst (il_persist st') ! unat slot) \<and> sl_boot_counter (ip_slots (il_persist st') ! unat slot) = 0 \<and>
       other_slots slot (il_persist st) (il_persist st')
     else il_persist st' = il_persist st \<and> same_claims (ensure_initialised (il_hal st)) (ensure_initialised (il_hal st')))"
proof -
  have v: "verify_persist_or_panic st = Ret ((), st)" using assms verify_ok by (simp add: il_ok_def)
  have sh: "persist_shape (il_persist st)" and hok: "hal_ok (il_hal st)" using assms by (simp_all add: il_ok_def)
  have same: "same_claims h h" for h by (simp add: same_claims_def)
  show ?thesis
  proof (cases "unat slot \<ge> INTERLOCK_MAX_SLOTS \<or> (text = [] \<or> length text \<ge> IL_DSL_MAX) \<or> sl_state (slot_of slot st) = INTERLOCK_SLOT_ARMED")
    case True
    then show ?thesis using v assms same by (auto simp: interlock_set_slot_dsl_def shell_statuses)
  next
    case no_guard: False
    then have slot: "unat slot < INTERLOCK_MAX_SLOTS" and len: "text \<noteq> []" "length text < IL_DSL_MAX" by auto
    show ?thesis
    proof (cases "il_parse text")
      case (Inl e)
      then show ?thesis using v assms same no_guard by (cases e) (auto simp: interlock_set_slot_dsl_def shell_statuses Let_def)
    next
      case (Inr parsed)
      note pt = parsed_tf [OF Inr]
      obtain cs h where c: "claim_inst_pins slot parsed (il_hal st) = (cs, h)" by fastforce
      have free: "slot_free slot (ensure_initialised (il_hal st))"
        using assms slot no_guard by (auto simp: il_ok_def slots_ok_def slot_ok_def armed_dsl_def slot_of_def split: if_splits)
      note cl = claim_inst_ok [OF hok slot_below [OF slot] conjunct1 [OF conjunct2 [OF pt]] free c]
      show ?thesis
      proof (cases "cs = HAL_PIN_CLAIM_OK")
        case False
        let ?st = "st \<lparr> il_hal := h \<rparr>"
        have run: "interlock_set_slot_dsl slot text st = Ret ((SHELL_STATUS_BUSY, [0xFF, claim_code cs, 0]), ?st)"
          using v no_guard Inr c False by (auto simp: interlock_set_slot_dsl_def)
        have "\<not> armed_dsl (il_persist st) slot" using no_guard by (auto simp: armed_dsl_def slot_of_def)
        then have "il_ok ?st"
          by (intro il_ok_update [OF assms slot])
            (use cl(1,3) False free same_others unchanged_others(2) assms slot in
              \<open>auto simp: il_ok_def slot_ok_def persist_is_valid_def list_all_iff slot_indices_set\<close>)
        then show ?thesis using run cl(3) False by (auto simp: shell_statuses)
      next
        case True
        let ?st = "clear_slot_runtime slot (upd_slot_persist slot (\<lambda>s. s \<lparr> sl_state := INTERLOCK_SLOT_ARMED, sl_id := INTERLOCK_ID_DSL, sl_boot_counter := 0 \<rparr>)
           (store_text slot text (set_inst slot parsed (st \<lparr> il_hal := h \<rparr>))))"
        have run: "interlock_set_slot_dsl slot text st = Ret ((SHELL_STATUS_OK, [0, 0, 0]), ?st)"
          using v no_guard Inr c True by (auto simp: interlock_set_slot_dsl_def)
        have p: "il_persist ?st = put_slot slot ((ip_slots (il_persist st) ! unat slot) \<lparr> sl_state := INTERLOCK_SLOT_ARMED, sl_id := INTERLOCK_ID_DSL, sl_boot_counter := 0 \<rparr>)
            parsed (of_nat (length text)) (text @ [CHR 0x00] @ drop (length text + 1) (ip_dsl_text (il_persist st) ! unat slot)) (il_persist st)"
          by (simp add: set_inst_def upd_slot_persist_def store_text_def put_slot_def)
        have hal: "il_hal ?st = h" "il_tx ?st = il_tx st" "il_status ?st = il_status st"
          by (simp_all add: set_inst_def upd_slot_persist_def store_text_def)
        note at = put_slot_at [OF sh slot]
        have L: "unat (of_nat (length text) :: 16 word) = length text" using len(2) by (simp add: IL_DSL_MAX_def unat_of_nat)
        then have L0: "(of_nat (length text) :: 16 word) \<noteq> 0" using len(1) by auto
        have kept: "text_kept (il_persist ?st) slot" unfolding p text_kept_def Let_def using at L L0 len Inr pt by simp
        have valid: "slot_valid (il_persist ?st) slot" unfolding p slot_valid_def Let_def using at L L0 len by (simp add: slot_states slot_ids)
        have armed: "armed_dsl (il_persist ?st) slot" unfolding p armed_dsl_def using at by simp
        have inst: "ip_inst (il_persist ?st) ! unat slot = parsed" unfolding p using at by simp
        have "il_ok ?st"
          by (rule put_slot_ok [OF assms slot _ _ p valid hal(2,3)])
            (use cl(1,2) True extends_others [OF _ free] armed kept inst in \<open>simp_all only: hal slot_ok_def if_True simp_thms\<close>)
        moreover have "other_slots slot (il_persist st) (il_persist ?st)" unfolding p put_slot_def by (rule slots_updated(1) [OF sh slot])
        moreover have "sl_boot_counter (ip_slots (il_persist ?st) ! unat slot) = 0" unfolding p using at by simp
        ultimately show ?thesis using run slot armed Inr inst by (intro exI conjI) (assumption, assumption, simp)
      qed
    qed
  qed
qed

section \<open>A reset\<close>

lemma boot_slot_states:
  "sl_state (boot_slot s) = INTERLOCK_SLOT_ARMED \<Longrightarrow> sl_state s = INTERLOCK_SLOT_ARMED" "sl_id (boot_slot s) = sl_id s"
  "\<not> sl_state s > INTERLOCK_SLOT_POISONED \<Longrightarrow> \<not> sl_state (boot_slot s) > INTERLOCK_SLOT_POISONED"
  by (auto simp: boot_slot_def slot_states split: if_splits)

lemma boot_decided_ok:
  assumes "persist_shape p"
  shows "persist_shape (boot_decided p)" "persist_is_valid (boot_decided p)"
proof -
  show "persist_shape (boot_decided p)" using assms by (simp add: persist_shape_def boot_decided_def persist_cold_init_def)
  have cold: "persist_is_valid persist_cold_init"
    by (simp add: persist_is_valid_def persist_cold_init_def slot_indices_two slot_valid_def no_crash_def INTERLOCK_MAX_SLOTS_def slot_states slot_ids Let_def)
  have "slot_valid (p \<lparr> ip_slots := map boot_slot (ip_slots p) \<rparr>) slot" if "slot_valid p slot" "unat slot < INTERLOCK_MAX_SLOTS" for slot
    using that assms boot_slot_states(1) [of "ip_slots p ! unat slot"] boot_slot_states(3) [of "ip_slots p ! unat slot"]
    by (auto simp: slot_valid_def Let_def persist_shape_def boot_slot_states(2))
  then show "persist_is_valid (boot_decided p)" using cold by (auto simp: boot_decided_def persist_is_valid_def list_all_iff slot_indices_set)
qed

lemma restore_step:
  assumes "hal_ok (il_hal st)" "persist_shape (il_persist st)" "persist_is_valid (il_persist st)" "unat slot < INTERLOCK_MAX_SLOTS"
    "slot_free slot (ensure_initialised (il_hal st))"
  defines "st' \<equiv> restore_slot slot st" and "s \<equiv> ip_slots (il_persist st) ! unat slot"
  shows "hal_ok (il_hal st')" "persist_shape (il_persist st')" "persist_is_valid (il_persist st')" "il_tx st' = il_tx st" "il_status st' = il_status st"
    "slot_ok (il_persist st') (ensure_initialised (il_hal st')) slot"
    "other_claims slot (ensure_initialised (il_hal st)) (ensure_initialised (il_hal st'))" "other_slots slot (il_persist st) (il_persist st')"
proof -
  let ?p = "il_persist st"
  have valid: "slot_valid ?p slot" using assms(3,4) by (simp add: persist_is_valid_def list_all_iff slot_indices_set)
  have poisoned: "slot_valid (il_persist (poison slot u)) slot \<and> persist_shape (il_persist (poison slot u)) \<and> other_slots slot (il_persist u) (il_persist (poison slot u))
      \<and> \<not> armed_dsl (il_persist (poison slot u)) slot \<and> il_hal (poison slot u) = il_hal u \<and> il_tx (poison slot u) = il_tx u \<and> il_status (poison slot u) = il_status u"
    if "slot_valid (il_persist u) slot" "persist_shape (il_persist u)" for u
    using that assms(4) by (auto simp: poison_def upd_slot_persist_def slot_valid_def Let_def persist_shape_def armed_dsl_def slot_states other_slots_def word_unat_eq_iff)
  have same: "persist_is_valid (il_persist u')" if "other_slots slot ?p (il_persist u')" "slot_valid (il_persist u') slot"
    "ip_magic (il_persist u') = ip_magic ?p" "ip_version (il_persist u') = ip_version ?p" "ip_self_size (il_persist u') = ip_self_size ?p"
    "ip_crash (il_persist u') = ip_crash ?p" for u'
    using valid_update [OF assms(3,2,4) that] .
  have "hal_ok (il_hal st') \<and> persist_shape (il_persist st') \<and> persist_is_valid (il_persist st') \<and> il_tx st' = il_tx st \<and> il_status st' = il_status st \<and>
    slot_ok (il_persist st') (ensure_initialised (il_hal st')) slot \<and>
    other_claims slot (ensure_initialised (il_hal st)) (ensure_initialised (il_hal st')) \<and> other_slots slot (il_persist st) (il_persist st')"
  proof (cases "armed_dsl ?p slot")
    case False
    then have "il_persist st' = ?p \<and> il_hal st' = il_hal st \<and> il_tx st' = il_tx st \<and> il_status st' = il_status st"
      using valid
      by (auto simp: st'_def restore_slot_def Let_def slot_of_def armed_dsl_def registered_def g_interlocks_def g_interlock_count_def noop_init_def slot_valid_def slot_ids)
    then show ?thesis using assms(1-5) False unchanged_others by (simp add: slot_ok_def)
  next
    case True
    let ?L = "ip_dsl_len ?p ! unat slot" and ?text = "take (unat (ip_dsl_len ?p ! unat slot)) (ip_dsl_text ?p ! unat slot)"
    have L: "?L \<noteq> 0" "unat ?L < IL_DSL_MAX" using valid True by (auto simp: slot_valid_def Let_def armed_dsl_def)
    have run: "st' = (case il_parse ?text of Inl _ \<Rightarrow> poison slot st
       | Inr parsed \<Rightarrow> (case claim_inst_pins slot parsed (il_hal st) of (cs, h) \<Rightarrow>
           if cs \<noteq> HAL_PIN_CLAIM_OK then poison slot (st \<lparr> il_hal := h \<rparr>)
           else clear_slot_runtime slot (set_inst slot (parsed \<lparr> in_tf_state := IL_TF_UNEVALUATED \<rparr>) (st \<lparr> il_hal := h \<rparr>))))"
      using True L by (simp add: st'_def restore_slot_def Let_def slot_of_def armed_dsl_def not_le)
    show ?thesis
    proof (cases "il_parse ?text")
      case (Inl e)
      then have "st' = poison slot st" using run by simp
      moreover have "persist_is_valid (il_persist (poison slot st))"
        using poisoned [OF valid assms(2)] by (intro same) (auto simp: poison_def upd_slot_persist_def)
      ultimately show ?thesis using poisoned [OF valid assms(2)] assms(1,5) unchanged_others(1) by (simp add: slot_ok_def)
    next
      case (Inr parsed)
      note pt = parsed_tf [OF Inr]
      obtain cs h where c: "claim_inst_pins slot parsed (il_hal st) = (cs, h)" by fastforce
      note cl = claim_inst_ok [OF assms(1) slot_below [OF assms(4)] conjunct1 [OF conjunct2 [OF pt]] assms(5) c]
      show ?thesis
      proof (cases "cs = HAL_PIN_CLAIM_OK")
        case False
        let ?u = "st \<lparr> il_hal := h \<rparr>"
        have e: "st' = poison slot ?u" using run Inr c False by simp
        have po: "slot_valid (il_persist st') slot \<and> persist_shape (il_persist st') \<and> other_slots slot ?p (il_persist st')
          \<and> \<not> armed_dsl (il_persist st') slot \<and> il_hal st' = h \<and> il_tx st' = il_tx st \<and> il_status st' = il_status st"
          using poisoned [of ?u] valid assms(2) by (simp add: e)
        moreover have "persist_is_valid (il_persist st')"
          using po by (intro same) (auto simp: e poison_def upd_slot_persist_def)
        ultimately show ?thesis using cl(1) cl(3) [OF False] same_others assms(5) by (simp add: slot_ok_def)
      next
        case ok: True
        have e: "st' = clear_slot_runtime slot (set_inst slot parsed (st \<lparr> il_hal := h \<rparr>))" using run Inr c ok pt by simp
        have inst: "ip_inst (il_persist st') ! unat slot = parsed" "il_hal st' = h"
          using assms(2,4) by (simp_all add: e set_inst_def persist_shape_def)
        have shape: "persist_shape (il_persist st')" "other_slots slot ?p (il_persist st')" "slot_valid (il_persist st') slot"
          "armed_dsl (il_persist st') slot"
          using assms(2,4) valid True by (auto simp: e set_inst_def persist_shape_def other_slots_def slot_valid_def armed_dsl_def Let_def word_unat_eq_iff)
        moreover have "text_kept (il_persist st') slot" unfolding text_kept_def Let_def inst(1) using L Inr pt by (simp add: e set_inst_def)
        moreover have "persist_is_valid (il_persist st')" by (rule same [OF shape(2,3)]) (simp_all add: e set_inst_def)
        moreover have "il_tx st' = il_tx st" "il_status st' = il_status st" by (simp_all add: e set_inst_def)
        ultimately show ?thesis using cl(1,2) ok inst extends_others [OF _ assms(5)] by (simp add: slot_ok_def)
      qed
    qed
  qed
  then show "hal_ok (il_hal st')" "persist_shape (il_persist st')" "persist_is_valid (il_persist st')" "il_tx st' = il_tx st" "il_status st' = il_status st"
    "slot_ok (il_persist st') (ensure_initialised (il_hal st')) slot"
    "other_claims slot (ensure_initialised (il_hal st)) (ensure_initialised (il_hal st'))" "other_slots slot (il_persist st) (il_persist st')" by blast+
qed

lemma restore_again:
  assumes "il_ok st" "hal_ok (il_hal u)" "persist_shape (il_persist u)" "persist_is_valid (il_persist u)" "unat slot < INTERLOCK_MAX_SLOTS"
    "slot_free slot (ensure_initialised (il_hal u))" "claims_below (ensure_initialised (il_hal u)) (ensure_initialised (il_hal st))"
    "ip_slots (il_persist u) ! unat slot = boot_slot (ip_slots (il_persist st) ! unat slot)"
    "ip_inst (il_persist u) ! unat slot = ip_inst (il_persist st) ! unat slot" "ip_dsl_len (il_persist u) ! unat slot = ip_dsl_len (il_persist st) ! unat slot"
    "ip_dsl_text (il_persist u) ! unat slot = ip_dsl_text (il_persist st) ! unat slot"
  shows "ip_slots (il_persist (restore_slot slot u)) = ip_slots (il_persist u)"
    "claims_below (ensure_initialised (il_hal (restore_slot slot u))) (ensure_initialised (il_hal st))"
    "armed_dsl (il_persist u) slot \<Longrightarrow> ip_inst (il_persist (restore_slot slot u)) ! unat slot = (ip_inst (il_persist st) ! unat slot) \<lparr> in_tf_state := IL_TF_UNEVALUATED \<rparr>"
proof -
  let ?r = "restore_slot slot u" and ?p = "il_persist u" and ?h = "ensure_initialised (il_hal st)"
  have "ip_slots (il_persist ?r) = ip_slots ?p \<and> claims_below (ensure_initialised (il_hal ?r)) ?h \<and>
    (armed_dsl ?p slot \<longrightarrow> ip_inst (il_persist ?r) ! unat slot = (ip_inst (il_persist st) ! unat slot) \<lparr> in_tf_state := IL_TF_UNEVALUATED \<rparr>)"
  proof (cases "armed_dsl ?p slot")
    case False
    have "slot_valid ?p slot" using assms(4,5) by (simp add: persist_is_valid_def list_all_iff slot_indices_set)
    with False have "il_persist ?r = ?p \<and> il_hal ?r = il_hal u"
      by (auto simp: restore_slot_def Let_def slot_of_def armed_dsl_def registered_def g_interlocks_def g_interlock_count_def noop_init_def slot_valid_def slot_ids)
    then show ?thesis using assms(7) False by simp
  next
    case True
    let ?inst = "(ip_inst (il_persist st) ! unat slot) \<lparr> in_tf_state := IL_TF_UNEVALUATED \<rparr>"
    have old: "armed_dsl (il_persist st) slot" using True assms(8) boot_slot_states by (auto simp: armed_dsl_def)
    note ai = armed_inst [OF assms(1) old assms(5)]
    let ?L = "ip_dsl_len ?p ! unat slot"
    have L: "?L \<noteq> 0" "unat ?L < IL_DSL_MAX" "il_parse (take (unat ?L) (ip_dsl_text ?p ! unat slot)) = Inr ?inst"
      using ai(1) assms(10,11) by (simp_all add: text_kept_def Let_def)
    have iok: "inst_ok ?inst" using parsed_tf [OF L(3)] by simp
    have held: "pins_held slot ?inst ?h" using ai(2) by (simp add: pins_held_def)
    have hup: "hal_up ?h" using assms(1) hal_up_init by (auto simp: il_ok_def)
    note again = claim_inst_again [OF hup held iok hal_up_init [OF assms(2)] assms(7,6) slot_below [OF assms(5)]]
    note e = claim_inst_set_up [OF assms(2) slot_below [OF assms(5)], of ?inst]
    obtain h where c: "claim_inst_pins slot ?inst (il_hal u) = (HAL_PIN_CLAIM_OK, h)" "claims_below (ensure_initialised h) ?h"
      using again e(1) by (cases "claim_inst_pins slot ?inst (il_hal u)") simp
    have "?r = clear_slot_runtime slot (set_inst slot ?inst (u \<lparr> il_hal := h \<rparr>))"
      using True L c by (simp add: restore_slot_def Let_def slot_of_def armed_dsl_def not_le)
    then show ?thesis using c(2) assms(3,5) by (simp add: set_inst_def persist_shape_def)
  qed
  then show "ip_slots (il_persist ?r) = ip_slots ?p" "claims_below (ensure_initialised (il_hal ?r)) ?h"
    "armed_dsl ?p slot \<Longrightarrow> ip_inst (il_persist ?r) ! unat slot = (ip_inst (il_persist st) ! unat slot) \<lparr> in_tf_state := IL_TF_UNEVALUATED \<rparr>"
    by auto
qed

lemma reset_hal: "hal_ok hal_at_reset" "slot_free slot (ensure_initialised hal_at_reset)" "claims_below (ensure_initialised hal_at_reset) h"
proof -
  have c: "claim_at pid (ensure_initialised hal_at_reset) = no_claim" if "unat pid < HAL_PIN_TABLE_SIZE" for pid
    using that by (simp add: claim_at_def ensure_initialised_def hal_at_reset_def)
  show "hal_ok hal_at_reset" by (simp add: hal_ok_def hal_at_reset_def)
  show "slot_free slot (ensure_initialised hal_at_reset)" using c by (simp add: slot_free_def no_claim_def)
  show "claims_below (ensure_initialised hal_at_reset) h" using c by (simp add: claims_below_def no_claim_def)
qed

lemma boot_two:
  fixes tx :: frame_ring
  assumes "persist_shape p"
  defines "u \<equiv> interlock_boot_decide (ram_at_reset p tx)"
  shows "boot p tx = Ret ((), restore_slot 1 (restore_slot 0 u))" "il_persist u = boot_decided p" "il_hal u = hal_at_reset" "il_tx u = tx"
    "il_status u = status_at_reset"
proof -
  show p: "il_persist u = boot_decided p" "il_hal u = hal_at_reset" "il_tx u = tx" "il_status u = status_at_reset"
    by (simp_all add: u_def interlock_boot_decide_def ram_at_reset_def)
  have "verify_persist_or_panic u = Ret ((), u)" using boot_decided_ok(2) [OF assms(1)] p(1) verify_ok by simp
  then show "boot p tx = Ret ((), restore_slot 1 (restore_slot 0 u))"
    by (simp add: boot_def interlock_warm_restore_def u_def slot_indices_two)
qed

lemma boot_ok:
  assumes "persist_shape p" "ring_ok k tx" "boot p tx = Ret ((), st)"
  shows "il_ok st"
proof -
  let ?u = "interlock_boot_decide (ram_at_reset p tx)"
  note b = boot_two [OF assms(1), of tx]
  have z: "unat (0 :: 8 word) < INTERLOCK_MAX_SLOTS" "unat (1 :: 8 word) < INTERLOCK_MAX_SLOTS" by simp_all
  note r0 = restore_step [of ?u 0, unfolded b(2-5), OF reset_hal(1) boot_decided_ok [OF assms(1)] z(1) reset_hal(2)]
  let ?v = "restore_slot 0 ?u"
  have free: "slot_free 1 (ensure_initialised (il_hal ?v))"
    by (rule other_held(3) [OF r0(7) _ _ hal_up_init [OF r0(1)]]) (simp_all add: reset_hal)
  note r1 = restore_step [OF r0(1-3) z(2) free]
  have st: "st = restore_slot 1 ?v" using b(1) assms(3) by simp
  have "slot_ok (il_persist st) (ensure_initialised (il_hal st)) 0"
    unfolding st by (rule slot_ok_other [OF r0(6) _ z(1) r1(7,8) hal_up_init [OF r1(1)]]) simp
  then have "slots_ok (il_persist st) (ensure_initialised (il_hal st))" using r1(6) by (auto simp: slots_ok_def two_slots st)
  moreover have "length (sb_slots status_at_reset) = INTERLOCK_MAX_SLOTS" "length (sb_input_vals status_at_reset) = INTERLOCK_MAX_SLOTS"
    by (simp_all add: status_at_reset_def)
  ultimately show ?thesis using r1(1-5) r0(4,5) assms(2) by (auto simp: il_ok_def st)
qed

lemma restart_slots:
  assumes "il_ok st" "ring_ok k tx"
  shows "\<exists>st'. boot (il_persist st) tx = Ret ((), st') \<and> il_ok st' \<and> (\<forall>slot. unat slot < INTERLOCK_MAX_SLOTS \<longrightarrow>
    ip_slots (il_persist st') ! unat slot = boot_slot (ip_slots (il_persist st) ! unat slot) \<and>
    (armed_dsl (il_persist st') slot \<longrightarrow>
      ip_inst (il_persist st') ! unat slot = (ip_inst (il_persist st) ! unat slot) \<lparr> in_tf_state := IL_TF_UNEVALUATED \<rparr>))"
proof -
  let ?p = "il_persist st"
  have sh: "persist_shape ?p" and val: "persist_is_valid ?p" using assms(1) by (simp_all add: il_ok_def)
  have dec: "boot_decided ?p = ?p \<lparr> ip_slots := map boot_slot (ip_slots ?p) \<rparr>" using val by (simp add: boot_decided_def)
  let ?u = "interlock_boot_decide (ram_at_reset ?p tx)"
  note b = boot_two [OF sh, of tx]
  have z: "unat (0 :: 8 word) < INTERLOCK_MAX_SLOTS" "unat (1 :: 8 word) < INTERLOCK_MAX_SLOTS" by simp_all
  have at: "ip_slots (il_persist ?u) ! unat q = boot_slot (ip_slots ?p ! unat q)" "ip_inst (il_persist ?u) ! unat q = ip_inst ?p ! unat q"
    "ip_dsl_len (il_persist ?u) ! unat q = ip_dsl_len ?p ! unat q" "ip_dsl_text (il_persist ?u) ! unat q = ip_dsl_text ?p ! unat q"
    if "unat q < INTERLOCK_MAX_SLOTS" for q :: "8 word"
    using that sh by (simp_all add: b(2) dec persist_shape_def)
  have base: "hal_ok (il_hal ?u)" "persist_shape (il_persist ?u)" "persist_is_valid (il_persist ?u)" "slot_free q (ensure_initialised (il_hal ?u))"
    "claims_below (ensure_initialised (il_hal ?u)) (ensure_initialised (il_hal st))" for q
    unfolding b using reset_hal boot_decided_ok [OF sh] by blast+
  note r0 = restore_step [OF base(1-3) z(1) base(4)]
  note a0 = restore_again [OF assms(1) base(1-3) z(1) base(4,5) at [OF z(1)]]
  let ?v = "restore_slot 0 ?u"
  have free: "slot_free 1 (ensure_initialised (il_hal ?v))"
    by (rule other_held(3) [OF r0(7) _ _ hal_up_init [OF r0(1)] base(4)]) simp_all
  note o = r0(8) [unfolded other_slots_def, rule_format, of 1, simplified]
  note r1 = restore_step [OF r0(1-3) z(2) free]
  have at1: "ip_slots (il_persist ?v) ! unat 1 = boot_slot (ip_slots ?p ! unat 1)" "ip_inst (il_persist ?v) ! unat 1 = ip_inst ?p ! unat 1"
    "ip_dsl_len (il_persist ?v) ! unat 1 = ip_dsl_len ?p ! unat 1" "ip_dsl_text (il_persist ?v) ! unat 1 = ip_dsl_text ?p ! unat 1"
    using o at [OF z(2)] by simp_all
  note a1 = restore_again [OF assms(1) r0(1-3) z(2) free a0(2) at1]
  let ?w = "restore_slot 1 ?v"
  have slots: "ip_slots (il_persist ?w) = map boot_slot (ip_slots ?p)" using a0(1) a1(1) b(2) dec by simp
  note o1 = r1(8) [unfolded other_slots_def, rule_format, of 0, simplified]
  have arm: "armed_dsl (il_persist ?w) q = armed_dsl (il_persist ?u) q" "armed_dsl (il_persist ?w) q = armed_dsl (il_persist ?v) q" for q
    using a0(1) a1(1) by (simp_all add: armed_dsl_def)
  have "ip_slots (il_persist ?w) ! unat slot = boot_slot (ip_slots ?p ! unat slot) \<and> (armed_dsl (il_persist ?w) slot \<longrightarrow>
      ip_inst (il_persist ?w) ! unat slot = (ip_inst ?p ! unat slot) \<lparr> in_tf_state := IL_TF_UNEVALUATED \<rparr>)" if "unat slot < INTERLOCK_MAX_SLOTS" for slot
  proof -
    have "slot = 0 \<or> slot = 1" using that two_slots by simp
    then show ?thesis using a0(3) a1(3) arm o1 slots that sh by (auto simp: persist_shape_def)
  qed
  then show ?thesis using b(1) boot_ok [OF sh assms(2) b(1)] by blast
qed

end
