(* ===== verification/IL_Gpio.thy ===== *)
theory IL_Gpio
  imports IL_Safety
begin

text \<open>
  The GPIO commands of the slave's shell (\<open>samd21_commands.c\<close>) and the reader of their arguments
  (\<open>shell_commands.c\<close>). They write the registers of the ports that the interlocks drive, and do not look
  at the table of claims. The second half shows that the framework never reads those registers: whatever
  they hold, every command and every tick answers the same and leaves the same state apart from them.
\<close>

section \<open>The reader of a command's arguments\<close>

text \<open>What is left of the argument bytes, and whether a read ran past their end.\<close>

record shell_reader =
  sr_rest :: "8 word list"
  sr_overflow :: bool

definition sr_init :: "8 word list \<Rightarrow> shell_reader" where
  "sr_init buf = \<lparr> sr_rest = buf, sr_overflow = False \<rparr>"

definition sr_u8 :: "shell_reader \<Rightarrow> 8 word \<times> shell_reader" where
  "sr_u8 r = (case sr_rest r of [] \<Rightarrow> (0, r \<lparr> sr_overflow := True \<rparr>) | b # bs \<Rightarrow> (b, r \<lparr> sr_rest := bs \<rparr>))"

definition sr_remaining :: "shell_reader \<Rightarrow> 16 word" where
  "sr_remaining r = of_nat (length (sr_rest r))"

section \<open>The commands\<close>

definition GPIO_MODE_INPUT :: "8 word" where "GPIO_MODE_INPUT = 0"
definition GPIO_MODE_OUTPUT :: "8 word" where "GPIO_MODE_OUTPUT = 1"
definition GPIO_MODE_INPUT_PULLUP :: "8 word" where "GPIO_MODE_INPUT_PULLUP = 2"
definition GPIO_MODE_INPUT_PULLDOWN :: "8 word" where "GPIO_MODE_INPUT_PULLDOWN = 3"
definition SHELL_STATUS_RESULT_TOO_BIG :: "8 word" where "SHELL_STATUS_RESULT_TOO_BIG = 4"

lemmas gpio_modes = GPIO_MODE_INPUT_def GPIO_MODE_OUTPUT_def GPIO_MODE_INPUT_PULLUP_def GPIO_MODE_INPUT_PULLDOWN_def

definition validate_pin :: "8 word \<Rightarrow> 8 word \<Rightarrow> bool" where
  "validate_pin port pin = (port \<le> 1 \<and> pin \<le> 31)"

definition pin_is_reserved :: "8 word \<Rightarrow> 8 word \<Rightarrow> bool" where
  "pin_is_reserved port pin =
     (if port = 0 \<and> pin = 2 then True
      else if port = 0 \<and> pin = 8 then True
      else if port = 0 \<and> pin = 9 then True
      else if port = 1 \<and> pin = 8 then True
      else if port = 1 \<and> pin = 9 then True
      else False)"

definition gpio_configured :: "8 word \<Rightarrow> 8 word \<Rightarrow> port_group \<Rightarrow> port_group" where
  "gpio_configured pin mode g =
     (let m = pin_mask pin; g1 = upd_cfg pin (\<lambda>c. c \<lparr> pc_pmuxen := False \<rparr>) g
      in if mode = GPIO_MODE_OUTPUT then dirset m (upd_cfg pin (\<lambda>c. c \<lparr> pc_inen := False, pc_pullen := False \<rparr>) g1)
         else let g2 = upd_cfg pin (\<lambda>c. c \<lparr> pc_inen := True \<rparr>) (dirclr m g1)
           in if mode = GPIO_MODE_INPUT_PULLUP then outset m (upd_cfg pin (\<lambda>c. c \<lparr> pc_pullen := True \<rparr>) g2)
              else if mode = GPIO_MODE_INPUT_PULLDOWN then outclr m (upd_cfg pin (\<lambda>c. c \<lparr> pc_pullen := True \<rparr>) g2)
              else upd_cfg pin (\<lambda>c. c \<lparr> pc_pullen := False \<rparr>) g2)"

definition cmd_gpio_config :: "shell_reader \<Rightarrow> hal \<Rightarrow> 8 word \<times> hal" where
  "cmd_gpio_config args h = (case sr_u8 args of (port, a1) \<Rightarrow> case sr_u8 a1 of (pin, a2) \<Rightarrow> case sr_u8 a2 of (mode, a3) \<Rightarrow>
     if sr_overflow a3 then (SHELL_STATUS_BAD_ARGS, h)
     else if sr_remaining a3 \<noteq> 0 then (SHELL_STATUS_BAD_ARGS, h)
     else if \<not> validate_pin port pin then (SHELL_STATUS_BAD_ARGS, h)
     else if pin_is_reserved port pin then (SHELL_STATUS_BAD_ARGS, h)
     else if mode > GPIO_MODE_INPUT_PULLDOWN then (SHELL_STATUS_BAD_ARGS, h)
     else (SHELL_STATUS_OK, upd_group port (gpio_configured pin mode) h))"

definition cmd_gpio_write :: "shell_reader \<Rightarrow> hal \<Rightarrow> 8 word \<times> hal" where
  "cmd_gpio_write args h = (case sr_u8 args of (port, a1) \<Rightarrow> case sr_u8 a1 of (pin, a2) \<Rightarrow> case sr_u8 a2 of (level, a3) \<Rightarrow>
     if sr_overflow a3 then (SHELL_STATUS_BAD_ARGS, h)
     else if sr_remaining a3 \<noteq> 0 then (SHELL_STATUS_BAD_ARGS, h)
     else if \<not> validate_pin port pin then (SHELL_STATUS_BAD_ARGS, h)
     else if pin_is_reserved port pin then (SHELL_STATUS_BAD_ARGS, h)
     else if level > 1 then (SHELL_STATUS_BAD_ARGS, h)
     else let m = pin_mask pin in (SHELL_STATUS_OK, upd_group port (if level = 1 then outset m else outclr m) h))"

text \<open>\<open>levels\<close> are the IN registers, \<open>cap\<close> the room for the result.\<close>

definition cmd_gpio_read :: "(8 word \<Rightarrow> 32 word) \<Rightarrow> nat \<Rightarrow> shell_reader \<Rightarrow> 8 word \<times> 8 word list" where
  "cmd_gpio_read levels cap args = (case sr_u8 args of (port, a1) \<Rightarrow> case sr_u8 a1 of (pin, a2) \<Rightarrow>
     if sr_overflow a2 then (SHELL_STATUS_BAD_ARGS, [])
     else if sr_remaining a2 \<noteq> 0 then (SHELL_STATUS_BAD_ARGS, [])
     else if \<not> validate_pin port pin then (SHELL_STATUS_BAD_ARGS, [])
     else if pin_is_reserved port pin then (SHELL_STATUS_BAD_ARGS, [])
     else if cap < 1 then (SHELL_STATUS_RESULT_TOO_BIG, [])
     else (SHELL_STATUS_OK, [ucast (drop_bit (unat pin) (levels port) AND 1)]))"

text \<open>Both commands change port registers only.\<close>

lemma gpio_ports:
  "\<exists>g. snd (cmd_gpio_config args h) = h \<lparr> hp_group := g \<rparr> \<and> length g = length (hp_group h)"
  "\<exists>g. snd (cmd_gpio_write args h) = h \<lparr> hp_group := g \<rparr> \<and> length g = length (hp_group h)"
proof -
  have same: "\<exists>g. h = h \<lparr> hp_group := g \<rparr> \<and> length g = length (hp_group h)" by (rule exI [of _ "hp_group h"]) simp
  have upd: "\<exists>g. upd_group p f h = h \<lparr> hp_group := g \<rparr> \<and> length g = length (hp_group h)" for p f
    by (simp add: upd_group_def) (metis length_list_update)
  show "\<exists>g. snd (cmd_gpio_config args h) = h \<lparr> hp_group := g \<rparr> \<and> length g = length (hp_group h)"
    "\<exists>g. snd (cmd_gpio_write args h) = h \<lparr> hp_group := g \<rparr> \<and> length g = length (hp_group h)"
    using same upd by (simp_all add: cmd_gpio_config_def cmd_gpio_write_def Let_def split: prod.split)
qed

text \<open>\<open>gpio_config\<close> takes the drive off any pin that is not reserved, claimed or not.\<close>

lemma gpio_config_undrives:
  assumes "unat pid < HAL_PIN_TABLE_SIZE" "length (hp_group h) = 2"
    "\<not> pin_is_reserved (BOARD_PHYS_PIN_PORT pid) (BOARD_PHYS_PIN_PIN pid)"
  shows "\<exists>h'. cmd_gpio_config (sr_init [BOARD_PHYS_PIN_PORT pid, BOARD_PHYS_PIN_PIN pid, GPIO_MODE_INPUT]) h = (SHELL_STATUS_OK, h') \<and>
    \<not> dir_bit pid h' \<and> hp_claims h' = hp_claims h"
proof -
  note i = phys_index [OF assms(1)]
  have v: "validate_pin (BOARD_PHYS_PIN_PORT pid) (BOARD_PHYS_PIN_PIN pid)"
    using i(2,4) by (simp add: validate_pin_def word_le_nat_alt)
  let ?h = "upd_group (BOARD_PHYS_PIN_PORT pid) (gpio_configured (BOARD_PHYS_PIN_PIN pid) GPIO_MODE_INPUT) h"
  have "\<not> dir_bit pid ?h"
    using here_bits(2) [OF assms(1,2), of "gpio_configured (BOARD_PHYS_PIN_PIN pid) GPIO_MODE_INPUT"] i(4)
    by (simp add: gpio_configured_def Let_def gpio_modes bit_and_iff bit_not_iff bit_pin_mask)
  then show ?thesis using v assms(3) by (simp add: cmd_gpio_config_def sr_init_def sr_u8_def sr_remaining_def gpio_modes)
qed

section \<open>The framework is blind to the port registers\<close>

definition no_ports :: "hal \<Rightarrow> hal" where
  "no_ports h = h \<lparr> hp_group := [] \<rparr>"

lemma no_ports_simps [simp]:
  "claim_at pid (no_ports h) = claim_at pid h" "hp_claims_initialised (no_ports h) = hp_claims_initialised h"
  "hp_claims (no_ports h) = hp_claims h" "no_ports (no_ports h) = no_ports h"
  "ensure_initialised (no_ports h) = no_ports (ensure_initialised h)" "set_claim pid f (no_ports h) = no_ports (set_claim pid f h)"
  "upd_group p u (no_ports h) = no_ports h" "no_ports (upd_group p u h) = no_ports h"
  by (simp_all add: no_ports_def claim_at_def ensure_initialised_def set_claim_def upd_group_def)

lemma no_ports_write: "no_ports (h \<lparr> hp_group := g \<rparr>) = no_ports h"
  by (simp add: no_ports_def)

lemma no_ports_set_claim: "no_ports h = no_ports h' \<Longrightarrow> no_ports (set_claim pid f h) = no_ports (set_claim pid f h')"
  by (metis no_ports_simps(6))

lemma no_ports_configure [simp]:
  "no_ports (set_claim pid f (port_configure_input p q m h)) = no_ports (set_claim pid f h)"
  "no_ports (set_claim pid f (port_configure_output p q h)) = no_ports (set_claim pid f h)"
  "no_ports (set_claim pid f (port_reset_to_safe p q h)) = no_ports (set_claim pid f h)"
  "port_configure_input p q m (no_ports h) = no_ports h" "port_configure_output p q (no_ports h) = no_ports h"
  "port_reset_to_safe p q (no_ports h) = no_ports h"
  by (rule no_ports_set_claim no_ports_simps | simp add: port_configure_input_def port_configure_output_def port_reset_to_safe_def)+

lemma blind_claim [simp]:
  "hal_pin_claim pid slot mode (no_ports h) = apsnd no_ports (hal_pin_claim pid slot mode h)"
  "hal_pin_claim_adc pid slot ov sh (no_ports h) = apsnd no_ports (hal_pin_claim_adc pid slot ov sh h)"
  "hal_pin_claim_output pid slot ok err (no_ports h) = apsnd no_ports (hal_pin_claim_output pid slot ok err h)"
  by (simp add: hal_pin_claim_def Let_def split: option.split, simp add: hal_pin_claim_adc_def Let_def split: option.split,
    auto simp: hal_pin_claim_output_def Let_def split: option.split)

lemma blind_fold: "(\<And>x h. f x (no_ports h) = no_ports (f x h)) \<Longrightarrow> fold f xs (no_ports h) = no_ports (fold f xs h)"
  by (induction xs arbitrary: h) simp_all

lemma blind_release [simp]: "hal_pin_release_slot slot (no_ports h) = no_ports (hal_pin_release_slot slot h)"
proof -
  have "release_pin slot pid (no_ports h) = no_ports (release_pin slot pid h)" for pid h
    by (simp add: release_pin_def Let_def)
  from blind_fold [of "release_pin slot", OF this] show ?thesis by (simp add: hal_pin_release_slot_def)
qed

lemma blind_drive [simp]: "hal_pin_drive_outputs v (no_ports h) = no_ports (hal_pin_drive_outputs v h)"
proof -
  have "drive_pin v pid (no_ports h) = no_ports (drive_pin v pid h)" for pid h
    by (simp add: drive_pin_def Let_def)
  from blind_fold [of "drive_pin v", OF this] show ?thesis by (simp add: hal_pin_drive_outputs_def)
qed

lemma blind_read [simp]:
  "hal_pin_read levels pid (no_ports h) = apsnd no_ports (hal_pin_read levels pid h)"
  "hal_pin_read_adc adc pid (no_ports h) = apsnd no_ports (hal_pin_read_adc adc pid h)"
  by (simp_all add: hal_pin_read_def hal_pin_read_adc_def Let_def)

lemma blind_claim_each:
  "(\<And>x h. f x (no_ports h) = apsnd no_ports (f x h)) \<Longrightarrow> claim_each f xs (no_ports h) = apsnd no_ports (claim_each f xs h)"
  by (induction xs arbitrary: h) (simp_all split: prod.split)

lemma blind_claim_inst [simp]: "claim_inst_pins slot inst (no_ports h) = apsnd no_ports (claim_inst_pins slot inst h)"
proof -
  have "claim_input slot i (no_ports h) = apsnd no_ports (claim_input slot i h)"
    "claim_one_output slot out (no_ports h) = apsnd no_ports (claim_one_output slot out h)" for i out h
    by (simp_all add: claim_input_def claim_one_output_def)
  then have each: "claim_each (claim_input slot) xs (no_ports h) = apsnd no_ports (claim_each (claim_input slot) xs h)"
    "claim_each (claim_one_output slot) ys (no_ports h) = apsnd no_ports (claim_each (claim_one_output slot) ys h)" for xs ys h
    by (simp_all add: blind_claim_each)
  obtain c1 h1 where 1: "claim_each (claim_input slot) (in_inputs inst) h = (c1, h1)" by fastforce
  obtain c2 h2 where 2: "claim_each (claim_one_output slot) (in_outputs inst) h1 = (c2, h2)" by fastforce
  show ?thesis using 1 2 each by (simp add: claim_inst_pins_def)
qed

text \<open>An act is blind to the ports if without them it returns the same, and the same state without them.\<close>

definition portless :: "interlocks \<Rightarrow> interlocks" where
  "portless = upd_hal no_ports"

named_theorems blind "introduction rules for blind"

definition blind_act :: "'a iact \<Rightarrow> bool" where
  "blind_act m = (\<forall>st. m (portless st) = res_bind (m st) (\<lambda>(x, s). Ret (x, portless s)))"

lemma portless_simps [simp]:
  "il_persist (portless st) = il_persist st" "il_status (portless st) = il_status st" "il_tx (portless st) = il_tx st"
  "il_hal (portless st) = no_ports (il_hal st)" "slot_of slot (portless st) = slot_of slot st" "inst_of slot (portless st) = inst_of slot st"
  "il_shift_reg (portless st) = il_shift_reg st" "il_debounced (portless st) = il_debounced st" "il_last_pass (portless st) = il_last_pass st"
  "upd_persist f (portless st) = portless (upd_persist f st)" "set_active a (portless st) = portless (set_active a st)"
  "clear_slot_runtime slot (portless st) = portless (clear_slot_runtime slot st)"
  "set_inst slot inst (portless st) = portless (set_inst slot inst st)"
  "upd_slot_persist slot g (portless st) = portless (upd_slot_persist slot g st)"
  "store_text slot dsl (portless st) = portless (store_text slot dsl st)"
  "(portless st) \<lparr> il_hal := no_ports h \<rparr> = portless (st \<lparr> il_hal := h \<rparr>)" "veto_mask (portless st) = veto_mask st"
  "(portless st) \<lparr> il_status := sb \<rparr> = portless (st \<lparr> il_status := sb \<rparr>)" "(portless st) \<lparr> il_tx := tx \<rparr> = portless (st \<lparr> il_tx := tx \<rparr>)"
  "(portless st) \<lparr> il_last_pass := lp \<rparr> = portless (st \<lparr> il_last_pass := lp \<rparr>)"
  "(portless st) \<lparr> il_shift_reg := sr, il_debounced := db \<rparr> = portless (st \<lparr> il_shift_reg := sr, il_debounced := db \<rparr>)"
  by (simp_all add: portless_def upd_hal_def slot_of_def inst_of_def upd_persist_def set_active_def clear_slot_runtime_def set_inst_def
      upd_slot_persist_def store_text_def veto_mask_def vetoes_def)

lemma blind_actI: "(\<And>st. m (portless st) = res_bind (m st) (\<lambda>(x, s). Ret (x, portless s))) \<Longrightarrow> blind_act m"
  by (simp add: blind_act_def)

lemma blind_actD: "blind_act m \<Longrightarrow> m (portless st) = res_bind (m st) (\<lambda>(x, s). Ret (x, portless s))"
  by (simp add: blind_act_def)

lemma blind_retA [blind]: "blind_act (retA x)"
  by (simp add: blind_act_def)

lemma blind_getA [blind]: "(\<And>st. f (portless st) = f st) \<Longrightarrow> blind_act (getA f)"
  by (simp add: blind_act_def)

lemma blind_modA [blind]: "(\<And>st. f (portless st) = portless (f st)) \<Longrightarrow> blind_act (modA f)"
  by (simp add: blind_act_def)

lemma blind_bindA [blind]:
  assumes "blind_act m" "\<And>x. blind_act (f x)"
  shows "blind_act (bindA m f)"
proof (rule blind_actI)
  fix st
  show "bindA m f (portless st) = res_bind (bindA m f st) (\<lambda>(x, s). Ret (x, portless s))"
    using assms by (cases "m st") (auto simp: blind_act_def)
qed

lemma blind_seqA [blind]: "blind_act m \<Longrightarrow> blind_act n \<Longrightarrow> blind_act (seqA m n)"
  unfolding seqA_def by (intro blind)

lemma blind_verify [blind]: "blind_act verify_persist_or_panic"
  by (rule blind_actI) (simp add: verify_persist_or_panic_def panic_def Let_def)

section \<open>Commands and ticks\<close>

lemma registered_noop:
  "i \<noteq> INTERLOCK_ID_NONE \<Longrightarrow> \<not> i > g_interlock_count \<Longrightarrow> id_init (registered i) slot st = st \<and>
   id_tick (registered i) slot st = interlock_set_slot_tf slot IL_TF_TRUE st \<and> id_terminate (registered i) slot st = st"
  by (simp add: registered_def g_interlocks_def g_interlock_count_def noop_init_def noop_tick_def noop_terminate_def slot_ids not_less
      word_le_nat_alt word_unat_eq_iff)

lemma blind_arm: "blind_act (interlock_arm_slot_compiled slot i)"
  unfolding interlock_arm_slot_compiled_def
  by (intro blind, rule blind_actI) (simp add: registered_noop)

lemma blind_dsl: "blind_act (interlock_set_slot_dsl slot dsl)"
  unfolding interlock_set_slot_dsl_def
  by (intro blind, rule blind_actI) (auto split: sum.split prod.split option.split simp: Let_def)

lemma blind_disarm: "blind_act (interlock_disarm_slot slot)"
proof -
  have t: "disarm_terminate slot (portless st) = portless (disarm_terminate slot st)" for st
    by (simp add: disarm_terminate_def Let_def registered_noop not_less)
  have r: "upd_hal (hal_pin_release_slot slot) (portless st) = portless (upd_hal (hal_pin_release_slot slot) st)" for st
    by (simp add: portless_def upd_hal_def)
  show ?thesis
    unfolding interlock_disarm_slot_def
    by (intro blind, rule blind_actI) (simp add: t r)
qed

lemma blind_sample: "sample env slot i inp (portless st) = apsnd portless (sample env slot i inp st)"
  by (auto simp: sample_def debounce_def Let_def split: prod.split)

lemma blind_sample_inputs: "sample_inputs env slot i inps (portless st) = apsnd portless (sample_inputs env slot i inps st)"
proof (induction inps arbitrary: i st)
  case (Cons inp inps)
  obtain v st1 where 1: "sample env slot i inp st = (v, st1)" by fastforce
  obtain vs st2 where 2: "sample_inputs env slot (i + 1) inps st1 = (vs, st2)" by fastforce
  show ?case using 1 2 Cons.IH [of "i + 1" st1] blind_sample [of env slot i inp st] by simp
qed simp

lemma blind_watches: "eval_watches slot i inst vals ws (portless st) = apsnd portless (eval_watches slot i inst vals ws st)"
proof (induction ws arbitrary: i st)
  case (Cons w ws)
  obtain pass st1 where 1: "eval_watch slot i inst vals w st = (pass, st1)" by fastforce
  then have p: "eval_watch slot i inst vals w (portless st) = (pass, portless st1)" by (auto simp: eval_watch_def Let_def)
  obtain rest st2 where 2: "eval_watches slot (i + 1) inst vals ws st1 = (rest, st2)" by fastforce
  show ?case using 1 p 2 Cons.IH [of "i + 1" st1] by simp
qed simp

lemma blind_eval: "eval_slot env slot (portless st) = portless (eval_slot env slot st)"
proof -
  let ?inst = "inst_of slot st"
  obtain vs st1 where 1: "sample_inputs env (unat slot) 0 (in_inputs ?inst) (set_active slot st) = (vs, st1)" by fastforce
  let ?vals = "vs @ replicate (IL_MAX_INPUTS - length vs) 0"
  let ?st2 = "st1 \<lparr> il_status := (il_status st1) \<lparr> sb_input_vals := (sb_input_vals (il_status st1))[unat slot := ?vals] \<rparr> \<rparr>"
  obtain ok st3 where 3: "eval_watches (unat slot) 0 ?inst ?vals (in_watches ?inst) ?st2 = (ok, st3)" by fastforce
  show ?thesis using 1 3 blind_sample_inputs [of env "unat slot" 0 "in_inputs ?inst" "set_active slot st"]
      blind_watches [of "unat slot" 0 ?inst ?vals "in_watches ?inst" ?st2]
    by (simp add: eval_slot_def Let_def)
qed

lemma blind_tick_slot: "tick_slot env slot (portless st) = portless (tick_slot env slot st)"
  by (simp add: tick_slot_def Let_def blind_eval registered_noop not_less interlock_set_slot_tf_def)

lemma blind_report: "blind_act (report env veto)"
proof -
  have tx: "blind_act (on_tx m)" for m :: "(frame_ring, 'a) act"
  proof (rule blind_actI)
    fix st
    show "on_tx m (portless st) = res_bind (on_tx m st) (\<lambda>(x, s). Ret (x, portless s))"
      by (cases "m (il_tx st)") (auto simp: on_tx_def)
  qed
  have emit: "blind_act (if b then emit_op_event sq slot os ns ot nt else retA ())" for b sq slot os ns ot nt
    unfolding emit_op_event_def by (cases b) (simp_all only: if_True if_False, (intro blind tx)+)
  have one: "blind_act (report_slot veto slot sq)" for slot sq
  proof (rule blind_actI)
    fix st
    have s: "slot_status veto slot (portless st) = slot_status veto slot st" by (simp add: slot_status_def Let_def)
    show "report_slot veto slot sq (portless st) = res_bind (report_slot veto slot sq st) (\<lambda>(x, s). Ret (x, portless s))"
      unfolding report_slot_def Let_def s portless_simps(2) by (rule blind_actD, intro blind emit) simp
  qed
  have "blind_act (report_slots veto slots sq)" for slots sq
    by (induction slots arbitrary: sq) (simp_all only: report_slots.simps, (intro blind one | assumption)+)
  then show ?thesis unfolding report_def by (intro blind) simp_all
qed

lemma blind_tick: "blind_act (interlock_tick_all env)"
proof -
  have "fold (tick_slot env) slots (portless st) = portless (fold (tick_slot env) slots st)" for slots st
    by (induction slots arbitrary: st) (simp_all add: blind_tick_slot)
  moreover have "upd_hal (hal_pin_drive_outputs v) (portless st) = portless (upd_hal (hal_pin_drive_outputs v) st)" for v st
    by (simp add: portless_def upd_hal_def)
  ultimately show ?thesis unfolding interlock_tick_all_def by (intro blind blind_report) simp_all
qed

text \<open>Two states that differ in the ports only.\<close>

definition same_but_ports :: "interlocks \<Rightarrow> interlocks \<Rightarrow> bool" where
  "same_but_ports st st' = (portless st = portless st')"

lemma same_but_ports_act:
  assumes "blind_act m" "same_but_ports st st0" "m st = Ret (x, st')"
  shows "\<exists>st0'. m st0 = Ret (x, st0') \<and> same_but_ports st' st0'"
proof -
  have "m (portless st0) = Ret (x, portless st')"
    using assms by (simp add: same_but_ports_def blind_act_def flip: assms(2) [unfolded same_but_ports_def])
  then have "res_bind (m st0) (\<lambda>(x, s). Ret (x, portless s)) = Ret (x, portless st')"
    using assms(1) by (simp add: blind_act_def)
  then show ?thesis by (auto simp: same_but_ports_def)
qed

section \<open>There are always two port groups\<close>

definition group_count :: "hal \<Rightarrow> nat" where
  "group_count h = length (hp_group h)"

lemma group_count_simps [simp]:
  "group_count (ensure_initialised h) = group_count h" "group_count (set_claim pid f h) = group_count h"
  "group_count (upd_group p u h) = group_count h" "group_count (port_configure_input p q m h) = group_count h"
  "group_count (port_configure_output p q h) = group_count h" "group_count (port_reset_to_safe p q h) = group_count h"
  by (simp_all add: group_count_def ensure_initialised_def port_configure_input_def port_configure_output_def port_reset_to_safe_def)

lemma group_count_claim [simp]:
  "group_count (snd (hal_pin_claim pid slot mode h)) = group_count h"
  "group_count (snd (hal_pin_claim_adc pid slot ov sh h)) = group_count h"
  "group_count (snd (hal_pin_claim_output pid slot ok err h)) = group_count h"
  by (simp_all add: hal_pin_claim_def hal_pin_claim_adc_def hal_pin_claim_output_def Let_def split: option.split)

lemma group_count_fold: "(\<And>x h. group_count (f x h) = group_count h) \<Longrightarrow> group_count (fold f xs h) = group_count h"
  by (induction xs arbitrary: h) simp_all

lemma group_count_release [simp]: "group_count (hal_pin_release_slot slot h) = group_count h"
  and group_count_drive [simp]: "group_count (hal_pin_drive_outputs v h) = group_count h"
proof -
  have "group_count (release_pin slot pid h) = group_count h" "group_count (drive_pin v pid h) = group_count h" for pid h
    by (simp_all add: release_pin_def drive_pin_def Let_def)
  then show "group_count (hal_pin_release_slot slot h) = group_count h" "group_count (hal_pin_drive_outputs v h) = group_count h"
    by (simp_all add: hal_pin_release_slot_def hal_pin_drive_outputs_def group_count_fold)
qed

lemma group_count_claim_each:
  "(\<And>x h. group_count (snd (f x h)) = group_count h) \<Longrightarrow> group_count (snd (claim_each f xs h)) = group_count h"
proof (induction xs arbitrary: h)
  case (Cons x xs)
  obtain c h1 where 1: "f x h = (c, h1)" by fastforce
  show ?case using 1 Cons.prems [of x h] Cons.IH [OF Cons.prems, of h1] by simp
qed simp

lemma group_count_claim_inst [simp]: "group_count (snd (claim_inst_pins slot inst h)) = group_count h"
proof -
  have "group_count (snd (claim_input slot i h)) = group_count h" "group_count (snd (claim_one_output slot out h)) = group_count h" for i out h
    by (simp_all add: claim_input_def claim_one_output_def)
  note each = group_count_claim_each [where f = "claim_input slot", OF this(1)] group_count_claim_each [where f = "claim_one_output slot", OF this(2)]
  obtain c1 h1 where 1: "claim_each (claim_input slot) (in_inputs inst) h = (c1, h1)" by fastforce
  obtain c2 h2 where 2: "claim_each (claim_one_output slot) (in_outputs inst) h1 = (c2, h2)" by fastforce
  show ?thesis using 1 2 each(1) [of "in_inputs inst" h] each(2) [of "in_outputs inst" h1] by (simp add: claim_inst_pins_def)
qed

definition same_groups :: "interlocks \<Rightarrow> interlocks \<Rightarrow> bool" where
  "same_groups st st' = (group_count (il_hal st') = group_count (il_hal st))"

lemma same_groups_preorder [intro!]: "preorder_rel same_groups"
  by (rule preorder_relI) (simp_all add: same_groups_def)

lemma il_hal_simps [simp]:
  "il_hal (set_inst slot inst st) = il_hal st" "il_hal (upd_slot_persist slot g st) = il_hal st" "il_hal (store_text slot dsl st) = il_hal st"
  by (simp_all add: set_inst_def upd_slot_persist_def store_text_def)

lemma verify_keeps: "keeps same_groups verify_persist_or_panic"
  by (rule keepsI) (auto simp: verify_persist_or_panic_def panic_def Let_def same_groups_def split: if_splits)

lemma tick_slot_hal: "il_hal (tick_slot env slot st) = il_hal st \<or> il_hal (tick_slot env slot st) = ensure_initialised (il_hal st)"
proof (cases "sl_state (slot_of slot st) = INTERLOCK_SLOT_ARMED \<and> sl_id (slot_of slot st) = INTERLOCK_ID_DSL")
  case True
  then have "slot_ticked slot st (eval_slot env slot st)" by (intro eval_slot_ticked) (simp add: armed_dsl_def slot_of_def)
  then show ?thesis using True by (auto simp: tick_slot_def slot_ticked_def)
next
  case False
  then show ?thesis by (auto simp: tick_slot_def Let_def registered_noop not_less interlock_set_slot_tf_def)
qed

lemma report_keeps_hal: "keeps (\<lambda>st st'. il_hal st' = il_hal st) (report env veto)"
proof -
  have pre: "preorder_rel (\<lambda>st st'. il_hal st' = il_hal st)" by (rule preorder_relI) simp_all
  have tx: "keeps (\<lambda>st st'. il_hal st' = il_hal st) (on_tx m)" for m :: "(frame_ring, 'a) act"
    by (rule keepsI) (auto simp: on_tx_def)
  have one: "keeps (\<lambda>st st'. il_hal st' = il_hal st) (report_slot veto slot sq)" for slot sq
  proof (rule keepsI)
    fix st x st'
    have "keeps (\<lambda>st st'. il_hal st' = il_hal st) (seqA (if b then emit_op_event sq' slot os ns ot nt else retA ())
         (seqA (modA (\<lambda>t. t \<lparr> il_status := (il_status t) \<lparr> sb_slots := (sb_slots (il_status t))[unat slot := new] \<rparr> \<rparr>)) (retA sq'')))"
      for b sq' os ns ot nt new sq'' unfolding emit_op_event_def by (intro keeps pre tx keeps_modA) simp
    then show "report_slot veto slot sq st = Ret (x, st') \<Longrightarrow> il_hal st' = il_hal st"
      unfolding report_slot_def Let_def by (rule keepsD [where s = st])
  qed
  have "keeps (\<lambda>st st'. il_hal st' = il_hal st) (report_slots veto slots sq)" for slots sq
    by (induction slots arbitrary: sq) (simp_all only: report_slots.simps, (intro keeps pre one | assumption)+)
  then show ?thesis unfolding report_def by (intro keeps pre keeps_modA) simp_all
qed

lemma act_groups:
  "keeps same_groups (interlock_arm_slot_compiled slot i)" "keeps same_groups (interlock_set_slot_dsl slot dsl)"
  "keeps same_groups (interlock_disarm_slot slot)" "keeps same_groups (interlock_tick_all env)"
proof -
  show "keeps same_groups (interlock_arm_slot_compiled slot i)"
    unfolding interlock_arm_slot_compiled_def
    by (intro keeps verify_keeps same_groups_preorder, rule keepsI) (auto simp: same_groups_def registered_noop split: if_splits)
  have c: "claim_inst_pins slot inst h = (cs, h') \<Longrightarrow> group_count h' = group_count h" for inst h cs h'
    using group_count_claim_inst [of slot inst h] by simp
  have v: "verify_persist_or_panic st = Ret (u, st') \<Longrightarrow> st' = st" for st u st'
    by (auto simp: verify_persist_or_panic_def panic_def Let_def split: if_splits)
  show "keeps same_groups (interlock_set_slot_dsl slot dsl)"
    by (rule keepsI) (auto simp: interlock_set_slot_dsl_def same_groups_def Let_def split: if_splits sum.splits prod.splits dest!: v c)
  have t: "il_hal (disarm_terminate slot st) = il_hal st" for st
    by (simp add: disarm_terminate_def Let_def registered_noop not_less)
  show "keeps same_groups (interlock_disarm_slot slot)"
    unfolding interlock_disarm_slot_def
    by (intro keeps verify_keeps same_groups_preorder, rule keepsI) (auto simp: same_groups_def t split: if_splits)
  have ts: "group_count (il_hal (tick_slot env q st)) = group_count (il_hal st)" for q st
    using tick_slot_hal [of env q st] by auto
  have f: "group_count (il_hal (fold (tick_slot env) qs st)) = group_count (il_hal st)" for qs st
    by (induction qs arbitrary: st) (simp_all add: ts)
  have "keeps same_groups (report env veto)" for veto
    by (rule keepsI) (use keepsD [OF report_keeps_hal] in \<open>force simp: same_groups_def\<close>)
  then show "keeps same_groups (interlock_tick_all env)"
    unfolding interlock_tick_all_def by (intro keeps verify_keeps same_groups_preorder keeps_modA) (simp_all add: same_groups_def f)
qed

end
