(* ===== verification/IL_Runs.thy ===== *)
theory IL_Runs
  imports IL_Gpio
begin

text \<open>
  The interlock framework at work: the states that starts of the chip, commands and ticks lead to, alone and
  with the shell and others writing the port registers at any time, and
  what holds in all of them. The outputs follow the votes of the armed interlocks, a broken watch
  trips its outputs, a command takes effect as a whole or not at all, and a slot survives three resets
  on its own.
\<close>

section \<open>The states of the running firmware\<close>

text \<open>
  The framework on its own, with no other writer of the port registers. A start finds any contents of
  the kept memory. The main loop sends what the TX ring holds, which is any change of the ring.
\<close>

inductive il_reach :: "interlocks \<Rightarrow> bool" where
  reach_boot: "persist_shape p \<Longrightarrow> ring_ok k tx \<Longrightarrow> boot p tx = Ret ((), st) \<Longrightarrow> il_reach st"
| reach_arm: "il_reach st \<Longrightarrow> interlock_arm_slot_compiled slot i st = Ret (r, st') \<Longrightarrow> il_reach st'"
| reach_dsl: "il_reach st \<Longrightarrow> interlock_set_slot_dsl slot dsl st = Ret (r, st') \<Longrightarrow> il_reach st'"
| reach_disarm: "il_reach st \<Longrightarrow> interlock_disarm_slot slot st = Ret (r, st') \<Longrightarrow> il_reach st'"
| reach_tick: "il_reach st \<Longrightarrow> interlock_tick_all env st = Ret (u, st') \<Longrightarrow> il_reach st'"
| reach_tx: "il_reach st \<Longrightarrow> ring_ok k tx \<Longrightarrow> il_reach (st \<lparr> il_tx := tx, il_repush_req := b \<rparr>)"

lemma tick_keeps:
  assumes "il_ok st"
  shows "\<exists>st'. interlock_tick_all env st = Ret ((), st') \<and> il_ok st'"
  by (rule tick_all_run [OF assms, of env]) blast

lemma reach_ok: "il_reach st \<Longrightarrow> il_ok st"
proof (induction rule: il_reach.induct)
  case (reach_boot p k tx st)
  then show ?case by (rule boot_ok)
next
  case (reach_arm st slot i r st')
  obtain r1 st1 where "interlock_arm_slot_compiled slot i st = Ret (r1, st1)" "il_ok st1" using arm_keeps [OF reach_arm.IH, of slot i] by blast
  then show ?case using reach_arm.hyps by simp
next
  case (reach_dsl st slot dsl r st')
  obtain r1 ps st1 where "interlock_set_slot_dsl slot dsl st = Ret ((r1, ps), st1)" "il_ok st1"
    using set_dsl_run [OF reach_dsl.IH, of slot dsl] by blast
  then show ?case using reach_dsl.hyps by simp
next
  case (reach_disarm st slot r st')
  obtain r1 st1 where "interlock_disarm_slot slot st = Ret (r1, st1)" "il_ok st1" using disarm_keeps [OF reach_disarm.IH, of slot] by blast
  then show ?case using reach_disarm.hyps by simp
next
  case (reach_tick st env u st')
  obtain st1 where "interlock_tick_all env st = Ret ((), st1)" "il_ok st1" using tick_keeps [OF reach_tick.IH, of env] by blast
  then show ?case using reach_tick.hyps by simp
next
  case (reach_tx st k tx b)
  then show ?case by (auto simp: il_ok_def)
qed

section \<open>Other writers of the ports\<close>

text \<open>
  The states of the whole firmware: between the commands and ticks of the framework, the shell's GPIO
  commands, the multiplexer of the ADC and the toggling of the LED write registers of the ports. The last
  rule allows any such write.
\<close>

inductive il_shell_reach :: "interlocks \<Rightarrow> bool" where
  shell_boot: "persist_shape p \<Longrightarrow> ring_ok k tx \<Longrightarrow> boot p tx = Ret ((), st) \<Longrightarrow> il_shell_reach st"
| shell_arm: "il_shell_reach st \<Longrightarrow> interlock_arm_slot_compiled slot i st = Ret (r, st') \<Longrightarrow> il_shell_reach st'"
| shell_dsl: "il_shell_reach st \<Longrightarrow> interlock_set_slot_dsl slot dsl st = Ret (x, st') \<Longrightarrow> il_shell_reach st'"
| shell_disarm: "il_shell_reach st \<Longrightarrow> interlock_disarm_slot slot st = Ret (r, st') \<Longrightarrow> il_shell_reach st'"
| shell_tick: "il_shell_reach st \<Longrightarrow> interlock_tick_all env st = Ret (u, st') \<Longrightarrow> il_shell_reach st'"
| shell_tx: "il_shell_reach st \<Longrightarrow> ring_ok k tx \<Longrightarrow> il_shell_reach (st \<lparr> il_tx := tx, il_repush_req := b \<rparr>)"
| shell_gpio_config: "il_shell_reach st \<Longrightarrow> cmd_gpio_config args (il_hal st) = (r, h) \<Longrightarrow> il_shell_reach (st \<lparr> il_hal := h \<rparr>)"
| shell_gpio_write: "il_shell_reach st \<Longrightarrow> cmd_gpio_write args (il_hal st) = (r, h) \<Longrightarrow> il_shell_reach (st \<lparr> il_hal := h \<rparr>)"
| shell_ports: "il_shell_reach st \<Longrightarrow> length g = 2 \<Longrightarrow> il_shell_reach (st \<lparr> il_hal := (il_hal st) \<lparr> hp_group := g \<rparr> \<rparr>)"

lemma reach_shell: "il_reach st \<Longrightarrow> il_shell_reach st"
  by (induction rule: il_reach.induct) (rule il_shell_reach.intros; assumption)+

lemma same_but_ports_write:
  "same_but_ports st st0 \<Longrightarrow> same_but_ports (st \<lparr> il_hal := (il_hal st) \<lparr> hp_group := g \<rparr> \<rparr>) st0"
  "same_but_ports st st0 \<Longrightarrow> same_but_ports (st \<lparr> il_tx := tx, il_repush_req := b \<rparr>) (st0 \<lparr> il_tx := tx, il_repush_req := b \<rparr>)"
  by (simp_all add: same_but_ports_def portless_def upd_hal_def no_ports_write)
    (metis interlocks.surjective interlocks.update_convs)+

lemma shell_groups: "il_shell_reach st \<Longrightarrow> length (hp_group (il_hal st)) = 2"
proof (induction rule: il_shell_reach.induct)
  case (shell_boot p k tx st)
  then show ?case using reach_ok [OF reach_boot] by (auto simp: il_ok_def hal_ok_def)
next
  case (shell_arm st slot i r st')
  then show ?case using keepsD [OF act_groups(1) shell_arm.hyps(2)] by (simp add: same_groups_def group_count_def)
next
  case (shell_dsl st slot dsl x st')
  then show ?case using keepsD [OF act_groups(2) shell_dsl.hyps(2)] by (simp add: same_groups_def group_count_def)
next
  case (shell_disarm st slot r st')
  then show ?case using keepsD [OF act_groups(3) shell_disarm.hyps(2)] by (simp add: same_groups_def group_count_def)
next
  case (shell_tick st env u st')
  then show ?case using keepsD [OF act_groups(4) shell_tick.hyps(2)] by (simp add: same_groups_def group_count_def)
next
  case (shell_gpio_config st args r h)
  then show ?case using gpio_ports(1) [of args "il_hal st"] by auto
next
  case (shell_gpio_write st args r h)
  then show ?case using gpio_ports(2) [of args "il_hal st"] by auto
qed simp_all

text \<open>They do not disturb the framework: it is in a state that it reaches without them, but for the ports.\<close>

lemma shell_blind:
  "il_shell_reach st \<Longrightarrow> \<exists>st0. il_reach st0 \<and> same_but_ports st st0"
proof (induction rule: il_shell_reach.induct)
  case (shell_boot p k tx st)
  then show ?case using reach_boot same_but_ports_def by blast
next
  case (shell_arm st slot i r st')
  then show ?case using same_but_ports_act [OF blind_arm] reach_arm by blast
next
  case (shell_dsl st slot dsl x st')
  then show ?case using same_but_ports_act [OF blind_dsl] reach_dsl by blast
next
  case (shell_disarm st slot r st')
  then show ?case using same_but_ports_act [OF blind_disarm] reach_disarm by blast
next
  case (shell_tick st env u st')
  then show ?case using same_but_ports_act [OF blind_tick] reach_tick by blast
next
  case (shell_tx st k tx b)
  then show ?case using same_but_ports_write(2) reach_tx by blast
next
  case (shell_gpio_config st args r h)
  then show ?case using gpio_ports(1) [of args "il_hal st"] same_but_ports_write(1) by auto
next
  case (shell_gpio_write st args r h)
  then show ?case using gpio_ports(2) [of args "il_hal st"] same_but_ports_write(1) by auto
next
  case (shell_ports st g)
  then show ?case using same_but_ports_write(1) by blast
qed

text \<open>The levels that the output latches have after a tick; a pin is driven if its direction bit is set too.\<close>

definition latches_voted :: "interlocks \<Rightarrow> bool" where
  "latches_voted st = (\<forall>slot. unat slot < INTERLOCK_MAX_SLOTS \<and> armed_dsl (il_persist st) slot \<longrightarrow>
     list_all (\<lambda>out. out_bit (io_phys_id out) (il_hal st) =
       ((if vetoed (il_persist st) (io_phys_id out) then io_err_value out else io_ok_value out) \<noteq> 0))
     (in_outputs (ip_inst (il_persist st) ! unat slot)))"

definition same_directions :: "interlocks \<Rightarrow> interlocks \<Rightarrow> bool" where
  "same_directions st st' = (\<forall>pid. unat pid < HAL_PIN_TABLE_SIZE \<longrightarrow> dir_bit pid (il_hal st') = dir_bit pid (il_hal st))"

lemma tick_hal:
  assumes "interlock_tick_all env st = Ret (u, st')"
  shows "il_hal st' = hal_pin_drive_outputs (veto_mask (tick_slot env 1 (tick_slot env 0 st))) (il_hal st) \<or>
    il_hal st' = hal_pin_drive_outputs (veto_mask (tick_slot env 1 (tick_slot env 0 st))) (ensure_initialised (il_hal st))"
proof -
  let ?st2 = "tick_slot env 1 (tick_slot env 0 st)"
  have v: "veto_mask (set_active a s) = veto_mask s" for a s
    by (simp add: veto_mask_def vetoes_def slot_of_def inst_of_def set_active_def)
  have w: "verify_persist_or_panic st = Ret (x, s) \<Longrightarrow> s = st" for x s
    by (auto simp: verify_persist_or_panic_def panic_def Let_def split: if_splits)
  obtain s1 where "report env (veto_mask ?st2) s1 = Ret (u, st')" "il_hal s1 = hal_pin_drive_outputs (veto_mask ?st2) (il_hal ?st2)"
    using assms by (auto simp: interlock_tick_all_def slot_indices_two v dest!: w)
  then have "il_hal st' = hal_pin_drive_outputs (veto_mask ?st2) (il_hal ?st2)" using keepsD [OF report_keeps_hal] by metis
  moreover have "il_hal ?st2 = il_hal st \<or> il_hal ?st2 = ensure_initialised (il_hal st)"
    using tick_slot_hal [of env 1 "tick_slot env 0 st"] tick_slot_hal [of env 0 st] by auto
  ultimately show ?thesis by auto
qed

lemma shell_tick_votes:
  assumes "il_shell_reach st"
  shows "\<exists>st'. interlock_tick_all env st = Ret ((), st') \<and> latches_voted st' \<and> same_directions st st'"
proof -
  obtain st0 where r0: "il_reach st0" "same_but_ports st st0" using shell_blind [OF assms] by blast
  note ok0 = reach_ok [OF r0(1)]
  obtain st0' where t0: "interlock_tick_all env st0 = Ret ((), st0')" "il_ok st0'"
    "il_hal st0' = hal_pin_drive_outputs (veto_mask (tick_slot env 1 (tick_slot env 0 st0))) (ensure_initialised (il_hal st0))"
    "il_persist st0' = il_persist (tick_slot env 1 (tick_slot env 0 st0))"
    using tick_all_run [OF ok0, of env] by metis
  have rev0: "same_but_ports st0 st" using r0(2) by (simp add: same_but_ports_def)
  obtain st' where t: "interlock_tick_all env st = Ret ((), st')" "same_but_ports st0' st'"
    using same_but_ports_act [OF blind_tick rev0 t0(1)] by blast
  have p: "il_persist st' = il_persist st0'" by (metis t(2) same_but_ports_def portless_simps(1))
  have v: "veto_mask (tick_slot env 1 (tick_slot env 0 st)) = veto_mask (tick_slot env 1 (tick_slot env 0 st0))" (is "?v = ?w")
    using r0(2) by (metis blind_tick_slot portless_simps(17) same_but_ports_def)
  have c: "claim_at pid (ensure_initialised (il_hal st)) = claim_at pid (ensure_initialised (il_hal st0))" for pid
    using r0(2) by (metis no_ports_simps(1,5) portless_simps(4) same_but_ports_def)
  have e: "length (hp_group (il_hal st)) = 2" "length (hp_group (ensure_initialised (il_hal st))) = 2"
    "dir_bit q (ensure_initialised (il_hal st)) = dir_bit q (il_hal st)" "out_bit q (ensure_initialised (il_hal st)) = out_bit q (il_hal st)" for q
    using shell_groups [OF assms] by (simp_all add: ensure_initialised_def dir_bit_def out_bit_def)
  have hok: "hal_ok (ensure_initialised (il_hal st0))" using ok0 hal_upD(5) [OF hal_up_init] by (auto simp: il_ok_def)
  have same: "out_bit q (il_hal st') = out_bit q (il_hal st0')"
    if "unat q < HAL_PIN_TABLE_SIZE" "drives q (ensure_initialised (il_hal st0))" for q
    using tick_hal [OF t(1)] drive_pins(2) [OF e(1) that(1), of ?v] drive_pins(2) [OF e(2) that(1), of ?v]
      drive_facts(3) [OF hok that(1), of ?w] that c v t0(3) by (auto simp: drives_def)
  have dirs: "same_directions st st'"
    using tick_hal [OF t(1)] drive_pins(1) [OF e(1), of _ ?v] drive_pins(1) [OF e(2), of _ ?v] e(3) by (auto simp: same_directions_def)
  have "out_bit (io_phys_id out) (il_hal st') = ((if vetoed (il_persist st') (io_phys_id out) then io_err_value out else io_ok_value out) \<noteq> 0)"
    if slot: "unat slot < INTERLOCK_MAX_SLOTS" "armed_dsl (il_persist st') slot" "out \<in> set (in_outputs (ip_inst (il_persist st') ! unat slot))" for slot out
  proof -
    let ?pid = "io_phys_id out"
    have voted: "out_bit ?pid (il_hal st0') = ((if vetoed (il_persist st0') ?pid then io_err_value out else io_ok_value out) \<noteq> 0)"
      using tick_votes [OF ok0 t0(1)] slot p by (auto simp: outputs_voted_def list_all_iff)
    have held: "output_held slot out (ensure_initialised (il_hal st0'))"
      using armed_inst(2) [OF t0(2)] slot p by (simp add: pins_held_def list_all_iff)
    then have pin: "unat ?pid < HAL_PIN_TABLE_SIZE" by (simp add: output_held_def Let_def)
    have "claim_at ?pid (ensure_initialised (il_hal st0')) = claim_at ?pid (ensure_initialised (il_hal st0))"
      unfolding t0(3) using drive_facts(2) [OF hok pin, of ?w] hal_up_id [OF drive_facts(1) [OF hok pin, of ?w]] by simp
    then have "drives ?pid (ensure_initialised (il_hal st0))" using held by (auto simp: drives_def output_held_def Let_def)
    then show ?thesis using same [OF pin] voted p by simp
  qed
  then have "latches_voted st'" by (auto simp: latches_voted_def list_all_iff)
  then show ?thesis using t(1) dirs by blast
qed

text \<open>
  So a pin that \<open>gpio_config\<close> made an input is not driven after the tick, although an armed interlock
  has declared it as an output and its latch has the voted level.
\<close>

lemma gpio_config_defeats_interlock:
  assumes "il_shell_reach st" "unat slot < INTERLOCK_MAX_SLOTS" "armed_dsl (il_persist st) slot" "out \<in> set (in_outputs (ip_inst (il_persist st) ! unat slot))"
    "\<not> pin_is_reserved (BOARD_PHYS_PIN_PORT (io_phys_id out)) (BOARD_PHYS_PIN_PIN (io_phys_id out))"
  shows "\<exists>h st'. cmd_gpio_config (sr_init [BOARD_PHYS_PIN_PORT (io_phys_id out), BOARD_PHYS_PIN_PIN (io_phys_id out), GPIO_MODE_INPUT]) (il_hal st) = (SHELL_STATUS_OK, h) \<and>
    interlock_tick_all env (st \<lparr> il_hal := h \<rparr>) = Ret ((), st') \<and> \<not> dir_bit (io_phys_id out) (il_hal st')"
proof -
  obtain st0 where r0: "il_reach st0" "same_but_ports st st0" using shell_blind [OF assms(1)] by blast
  have p: "il_persist st = il_persist st0" by (metis r0(2) same_but_ports_def portless_simps(1))
  have "output_held slot out (ensure_initialised (il_hal st0))"
    using armed_inst(2) [OF reach_ok [OF r0(1)]] assms(2-4) p by (simp add: pins_held_def list_all_iff)
  then have pin: "unat (io_phys_id out) < HAL_PIN_TABLE_SIZE" by (simp add: output_held_def Let_def)
  obtain h where h: "cmd_gpio_config (sr_init [BOARD_PHYS_PIN_PORT (io_phys_id out), BOARD_PHYS_PIN_PIN (io_phys_id out), GPIO_MODE_INPUT]) (il_hal st) =
      (SHELL_STATUS_OK, h)" "\<not> dir_bit (io_phys_id out) h"
    using gpio_config_undrives [OF pin shell_groups [OF assms(1)] assms(5)] by blast
  from shell_tick_votes [OF shell_gpio_config [OF assms(1) h(1)], of env] obtain st' where
    "interlock_tick_all env (st \<lparr> il_hal := h \<rparr>) = Ret ((), st')" "same_directions (st \<lparr> il_hal := h \<rparr>) st'" by blast
  then show ?thesis using h pin by (auto simp: same_directions_def)
qed

section \<open>The properties\<close>

text \<open>
  C36. Whatever the kept memory holds when the chip starts, from then on no sequence of commands, ticks and
  writes to the ports breaks the bookkeeping or ends in a panic: every command and every tick returns, and
  for some contents of the port registers the invariant holds. That is, the kept memory stays valid, every armed
  interlock is the one that its kept text describes, the pins it declares are claimed for it and for no slot
  that does not declare them, and an idle slot claims nothing. As long as nothing but the framework has
  written the port registers, it holds for their actual contents, so that every claimed output is driven.
\<close>

theorem interlocks_invariant:
  assumes "il_shell_reach st"
  shows "(il_reach st \<longrightarrow> il_ok st) \<and> (\<exists>g. il_ok (st \<lparr> il_hal := (il_hal st) \<lparr> hp_group := g \<rparr> \<rparr>)) \<and>
    returns (interlock_arm_slot_compiled slot i st) \<and> returns (interlock_set_slot_dsl slot dsl st) \<and>
    returns (interlock_disarm_slot slot st) \<and> returns (interlock_tick_all env st)"
proof -
  obtain st0 where r0: "il_reach st0" "same_but_ports st0 st" using shell_blind [OF assms] by (auto simp: same_but_ports_def)
  note ok = reach_ok [OF r0(1)]
  have same: "st \<lparr> il_hal := (il_hal st) \<lparr> hp_group := hp_group (il_hal st0) \<rparr> \<rparr> = st0"
    using r0(2) by (cases st; cases st0; cases "il_hal st"; cases "il_hal st0") (simp add: same_but_ports_def portless_def upd_hal_def no_ports_def)
  have go: "returns (m st)" if "blind_act m" "\<exists>x st1. m st0 = Ret (x, st1) \<and> il_ok st1" for m :: "'a iact"
    using that same_but_ports_act [OF that(1) r0(2)] by (fastforce simp: returns_iff)
  have "returns (interlock_arm_slot_compiled slot i st)" by (rule go [OF blind_arm arm_keeps [OF ok]])
  moreover have "returns (interlock_set_slot_dsl slot dsl st)" by (rule go [OF blind_dsl]) (use set_dsl_run [OF ok, of slot dsl] in blast)
  moreover have "returns (interlock_disarm_slot slot st)" by (rule go [OF blind_disarm disarm_keeps [OF ok]])
  moreover have "returns (interlock_tick_all env st)" by (rule go [OF blind_tick]) (use tick_keeps [OF ok, of env] in blast)
  moreover have "il_ok (st \<lparr> il_hal := (il_hal st) \<lparr> hp_group := hp_group (il_hal st0) \<rparr> \<rparr>)" using same ok by simp
  ultimately show ?thesis using reach_ok by blast
qed

definition il_ring :: frame_ring where
  "il_ring = frame_ring_init (replicate 8 0) 8"

lemma il_ring_ok: "ring_ok 3 il_ring"
  using ring_elems_init(1) [of 3 "replicate 8 0"] by (simp add: il_ring_def)

definition il_cold :: interlocks where
  "il_cold = (case boot persist_cold_init il_ring of Ret (_, st) \<Rightarrow> st | _ \<Rightarrow> ram_at_reset persist_cold_init il_ring)"

definition il_ana :: interlocks where
  "il_ana = (case interlock_set_slot_dsl 0 ana_text il_cold of Ret (_, st) \<Rightarrow> st | _ \<Rightarrow> il_cold)"

lemma il_cold_reach: "il_reach il_cold"
proof -
  have sh: "persist_shape persist_cold_init" by (simp add: persist_shape_def persist_cold_init_def)
  have "boot persist_cold_init il_ring = Ret ((), il_cold)" using boot_two(1) [OF sh, of il_ring] by (simp add: il_cold_def)
  then show ?thesis by (rule reach_boot [OF sh il_ring_ok])
qed

lemma il_ana_reach: "il_reach il_ana"
proof -
  obtain r ps st where "interlock_set_slot_dsl 0 ana_text il_cold = Ret ((r, ps), st)" using set_dsl_run [OF reach_ok [OF il_cold_reach]] by blast
  then show ?thesis using reach_dsl [OF il_cold_reach] by (simp add: il_ana_def)
qed

theorem interlocks_invariant_witness:
  "il_ok il_ana \<and> returns (interlock_set_slot_dsl 1 ana_text il_ana)"
  using interlocks_invariant [OF reach_shell [OF il_ana_reach], of 1 0 ana_text undefined] il_ana_reach by simp

text \<open>
  C32. The outputs follow the votes, whatever the shell's GPIO commands and other writers of the port
  registers do between the ticks. A tick returns; after it the output latch of every pin that an armed
  interlock declares as an output is at its error level if the watches of some armed interlock that
  declares the pin have failed in this tick, and at its ok level otherwise; the tick changes no direction
  bit. As long as nothing but the framework has written the port registers, the pin is driven too.
\<close>

theorem outputs_follow_votes:
  assumes "il_shell_reach st"
  shows "\<exists>st'. interlock_tick_all env st = Ret ((), st') \<and> latches_voted st' \<and> same_directions st st' \<and> (il_reach st \<longrightarrow> outputs_voted st')"
  using shell_tick_votes [OF assms, of env] tick_votes [OF reach_ok] by blast

text \<open>A tick on which the analog inputs read 700.\<close>

definition il_env_700 :: il_env where
  "il_env_700 = \<lparr> ie_millis = 5000, ie_last_m2s_rx_ms = 1000, ie_stack_hwm_bytes = 512, ie_levels = (\<lambda>_. 0), ie_adc = (\<lambda>_ _ _. 700) \<rparr>"

text \<open>The pin D2 of the analog interlock, 10, after \<open>gpio_config\<close> made it an input.\<close>

definition il_ana_input :: interlocks where
  "il_ana_input = il_ana \<lparr> il_hal := snd (cmd_gpio_config (sr_init [0, 10, GPIO_MODE_INPUT]) (il_hal il_ana)) \<rparr>"

lemma il_ana_input_reach: "il_shell_reach il_ana_input"
  using shell_gpio_config [OF reach_shell [OF il_ana_reach], of "sr_init [0, 10, GPIO_MODE_INPUT]"]
  by (cases "cmd_gpio_config (sr_init [0, 10, GPIO_MODE_INPUT]) (il_hal il_ana)") (auto simp: il_ana_input_def)

theorem outputs_follow_votes_witness:
  "(\<exists>st'. interlock_tick_all il_env_700 il_ana = Ret ((), st') \<and> outputs_voted st') \<and>
   (\<exists>st'. interlock_tick_all il_env_700 il_ana_input = Ret ((), st') \<and> latches_voted st' \<and> same_directions il_ana_input st')"
  using outputs_follow_votes [OF reach_shell [OF il_ana_reach], of il_env_700] outputs_follow_votes [OF il_ana_input_reach, of il_env_700]
    il_ana_reach by blast

text \<open>The result of a slot and the values it was computed from.\<close>

lemma ticked_result:
  assumes "slot_ticked slot st st'" "il_ok st" "unat slot < INTERLOCK_MAX_SLOTS" "armed_dsl (il_persist st') slot"
  defines "inst \<equiv> ip_inst (il_persist st') ! unat slot" and "vals \<equiv> sb_input_vals (il_status st') ! unat slot"
  shows "\<forall>w \<in> set (in_watches inst). watch_holds (vals ! iw_input_idx w) w \<Longrightarrow> in_tf_state inst = IL_TF_TRUE"
    "\<exists>w \<in> set (in_watches inst). watch_broken (unat (ii_hyst (in_inputs inst ! iw_input_idx w))) (vals ! iw_input_idx w) w \<Longrightarrow> in_tf_state inst = IL_TF_FALSE"
proof -
  have len: "length (ip_inst (il_persist st)) = INTERLOCK_MAX_SLOTS" "length (sb_input_vals (il_status st)) = INTERLOCK_MAX_SLOTS"
    using assms(2) by (simp_all add: il_ok_def persist_shape_def)
  from assms(1) obtain tf v where t: "il_persist st' = set_tf slot tf (il_persist st)" "sb_input_vals (il_status st') = (sb_input_vals (il_status st))[unat slot := v]"
    "armed_dsl (il_persist st) slot \<Longrightarrow> \<forall>w \<in> set (in_watches (inst_of slot st)). watch_holds (v ! iw_input_idx w) w \<Longrightarrow> tf = IL_TF_TRUE"
    "armed_dsl (il_persist st) slot \<Longrightarrow> \<exists>w \<in> set (in_watches (inst_of slot st)).
        watch_broken (unat (ii_hyst (in_inputs (inst_of slot st) ! iw_input_idx w))) (v ! iw_input_idx w) w \<Longrightarrow> tf = IL_TF_FALSE"
    unfolding slot_ticked_def by blast
  have i: "inst = (inst_of slot st) \<lparr> in_tf_state := tf \<rparr>" "vals = v"
    using t(1,2) len assms(3) set_tf_inst [OF len(1) assms(3), of tf slot] by (simp_all add: inst_def vals_def inst_of_def)
  have a: "armed_dsl (il_persist st) slot" using assms(4) t(1) by simp
  show "\<forall>w \<in> set (in_watches inst). watch_holds (vals ! iw_input_idx w) w \<Longrightarrow> in_tf_state inst = IL_TF_TRUE"
    "\<exists>w \<in> set (in_watches inst). watch_broken (unat (ii_hyst (in_inputs inst ! iw_input_idx w))) (vals ! iw_input_idx w) w \<Longrightarrow> in_tf_state inst = IL_TF_FALSE"
    using t(3,4) [OF a] by (simp_all add: i)
qed

lemma tick_results:
  fixes q :: "8 word"
  assumes "il_ok st" "interlock_tick_all env st = Ret ((), st')" "unat q < INTERLOCK_MAX_SLOTS" "armed_dsl (il_persist st') q"
  defines "inst \<equiv> ip_inst (il_persist st') ! unat q" and "vals \<equiv> sb_input_vals (il_status st') ! unat q"
  shows "(\<forall>w \<in> set (in_watches inst). watch_holds (vals ! iw_input_idx w) w) \<Longrightarrow> in_tf_state inst = IL_TF_TRUE"
    "\<exists>w \<in> set (in_watches inst). watch_broken (unat (ii_hyst (in_inputs inst ! iw_input_idx w))) (vals ! iw_input_idx w) w \<Longrightarrow>
      in_tf_state inst = IL_TF_FALSE"
proof -
  obtain st1 st2 where t: "slot_ticked 0 st st1" "slot_ticked 1 st1 st2" "il_ok st1" "il_persist st' = il_persist st2"
    "sb_input_vals (il_status st') = sb_input_vals (il_status st2)"
    by (rule tick_all_run [OF assms(1), of env]) (use assms(2) in auto)
  have later: "ip_inst (il_persist st2) ! 0 = ip_inst (il_persist st1) ! 0" "sb_input_vals (il_status st2) ! 0 = sb_input_vals (il_status st1) ! 0"
    "armed_dsl (il_persist st2) 0 = armed_dsl (il_persist st1) 0"
    using t(2) by (auto simp: slot_ticked_def set_tf_def armed_dsl_def)
  obtain s0 s1 where s: "slot_ticked q s0 s1" "il_ok s0" "armed_dsl (il_persist s1) q" "inst = ip_inst (il_persist s1) ! unat q"
    "vals = sb_input_vals (il_status s1) ! unat q"
  proof (cases "q = 0")
    case True
    then show ?thesis using that [of st st1] t assms(1) later assms(4) by (simp add: inst_def vals_def)
  next
    case False
    then have "q = 1" using assms(3) two_slots by simp
    then show ?thesis using that [of st1 st2] t assms(4) by (simp add: inst_def vals_def)
  qed
  show "(\<forall>w \<in> set (in_watches inst). watch_holds (vals ! iw_input_idx w) w) \<Longrightarrow> in_tf_state inst = IL_TF_TRUE"
    "\<exists>w \<in> set (in_watches inst). watch_broken (unat (ii_hyst (in_inputs inst ! iw_input_idx w))) (vals ! iw_input_idx w) w \<Longrightarrow>
      in_tf_state inst = IL_TF_FALSE"
    unfolding s(4,5) using ticked_result [OF s(1,2) assms(3) s(3)] by blast+
qed

text \<open>
  C33. A broken watch trips its outputs, whatever the shell has done to the ports in the meantime. If after a tick the reported input value of a watch of an
  armed interlock fails the comparison by more than the hysteresis of its input, the latch of every output of that
  interlock is at its error level, whatever the watch said before. And if the reported values satisfy
  every watch of every armed interlock, the latch of every output is at its ok level.
\<close>

theorem broken_watch_trips:
  assumes "il_shell_reach st" "interlock_tick_all env st = Ret ((), st')" "unat slot < INTERLOCK_MAX_SLOTS" "armed_dsl (il_persist st') slot"
    "out \<in> set (in_outputs (ip_inst (il_persist st') ! unat slot))"
  shows "((\<exists>w \<in> set (in_watches (ip_inst (il_persist st') ! unat slot)).
        watch_broken (unat (ii_hyst (in_inputs (ip_inst (il_persist st') ! unat slot) ! iw_input_idx w)))
          (sb_input_vals (il_status st') ! unat slot ! iw_input_idx w) w) \<longrightarrow>
      out_bit (io_phys_id out) (il_hal st') = (io_err_value out \<noteq> 0)) \<and>
    ((\<forall>q. unat q < INTERLOCK_MAX_SLOTS \<and> armed_dsl (il_persist st') q \<longrightarrow> (\<forall>w \<in> set (in_watches (ip_inst (il_persist st') ! unat q)).
        watch_holds (sb_input_vals (il_status st') ! unat q ! iw_input_idx w) w)) \<longrightarrow>
      out_bit (io_phys_id out) (il_hal st') = (io_ok_value out \<noteq> 0))"
proof -
  let ?inst = "\<lambda>q. ip_inst (il_persist st') ! unat q" and ?vals = "\<lambda>q. sb_input_vals (il_status st') ! unat q"
  obtain st0 where r0: "il_reach st0" "same_but_ports st0 st" "same_but_ports st st0" using shell_blind [OF assms(1)] by (auto simp: same_but_ports_def)
  obtain st0' where t: "interlock_tick_all env st0 = Ret ((), st0')" "same_but_ports st' st0'"
    using same_but_ports_act [OF blind_tick r0(3) assms(2)] by blast
  have same: "il_persist st0' = il_persist st'" "il_status st0' = il_status st'"
    using t(2) by (metis portless_simps(1) same_but_ports_def, metis portless_simps(2) same_but_ports_def)
  note res = tick_results [OF reach_ok [OF r0(1)] t(1), unfolded same]
  have voted: "out_bit (io_phys_id out) (il_hal st') = ((if vetoed (il_persist st') (io_phys_id out) then io_err_value out else io_ok_value out) \<noteq> 0)"
    using shell_tick_votes [OF assms(1), of env] assms(2-5) by (auto simp: latches_voted_def list_all_iff)
  show ?thesis
  proof (intro conjI impI)
    assume "\<exists>w \<in> set (in_watches (?inst slot)). watch_broken (unat (ii_hyst (in_inputs (?inst slot) ! iw_input_idx w))) (?vals slot ! iw_input_idx w) w"
    from res(2) [OF assms(3,4) this] have "vetoed (il_persist st') (io_phys_id out)"
      using assms(3-5) by (auto simp: vetoed_def list_ex_iff slot_indices_set)
    then show "out_bit (io_phys_id out) (il_hal st') = (io_err_value out \<noteq> 0)" using voted by simp
  next
    assume "\<forall>q. unat q < INTERLOCK_MAX_SLOTS \<and> armed_dsl (il_persist st') q \<longrightarrow> (\<forall>w \<in> set (in_watches (?inst q)). watch_holds (?vals q ! iw_input_idx w) w)"
    then have "\<not> vetoed (il_persist st') (io_phys_id out)"
      using res(1) by (auto simp: vetoed_def list_ex_iff slot_indices_set IL_TF_TRUE_def IL_TF_FALSE_def)
    then show "out_bit (io_phys_id out) (il_hal st') = (io_ok_value out \<noteq> 0)" using voted by simp
  qed
qed

text \<open>The analog interlock at 700: the output D2 is at its error level, 1.\<close>

lemma il_ana_ticked:
  "let st = tick_slot il_env_700 1 (tick_slot il_env_700 0 il_ana) in
   sb_input_vals (il_status st) ! 0 ! 0 = 700 \<and> armed_dsl (il_persist st) 0 \<and> ip_inst (il_persist st) ! 0 = ana_inst \<lparr> in_tf_state := IL_TF_FALSE \<rparr>"
  by code_simp

theorem broken_watch_trips_witness:
  "\<exists>st'. interlock_tick_all il_env_700 il_ana = Ret ((), st') \<and> out_bit 10 (il_hal st')"
proof -
  let ?st = "tick_slot il_env_700 1 (tick_slot il_env_700 0 il_ana)"
  obtain st' where st': "interlock_tick_all il_env_700 il_ana = Ret ((), st')" "il_persist st' = il_persist ?st"
    "sb_input_vals (il_status st') = sb_input_vals (il_status ?st)"
    by (rule tick_all_run [OF reach_ok [OF il_ana_reach], of il_env_700]) blast
  have f: "sb_input_vals (il_status st') ! 0 ! 0 = 700" "armed_dsl (il_persist st') 0" "ip_inst (il_persist st') ! 0 = ana_inst \<lparr> in_tf_state := IL_TF_FALSE \<rparr>"
    using il_ana_ticked by (simp_all add: st' Let_def)
  have "out_bit 10 (il_hal st') = True"
    using broken_watch_trips [OF reach_shell [OF il_ana_reach] st'(1), of 0 "in_outputs ana_inst ! 0"] f
    by (simp add: ana_inst_def watch_broken_def)
  then show ?thesis using st'(1) by blast
qed

lemma no_ports_claims:
  assumes "same_but_ports st st0"
  shows "il_persist st = il_persist st0" "claim_at pid (ensure_initialised (il_hal st)) = claim_at pid (ensure_initialised (il_hal st0))"
    "hp_claims (il_hal st) = hp_claims (il_hal st0)" "hp_claims_initialised (il_hal st) = hp_claims_initialised (il_hal st0)"
  using assms by (metis portless_simps(1) same_but_ports_def, metis no_ports_simps(1,5) portless_simps(4) same_but_ports_def,
      metis no_ports_simps(3) portless_simps(4) same_but_ports_def, metis no_ports_simps(2) portless_simps(4) same_but_ports_def)

lemma held_claims:
  "(\<And>pid. claim_at pid h = claim_at pid h0) \<Longrightarrow> pins_held slot inst h = pins_held slot inst h0"
  "(\<And>pid. claim_at pid h = claim_at pid h0) \<Longrightarrow> (\<And>pid. claim_at pid h' = claim_at pid h0') \<Longrightarrow> same_claims h h' = same_claims h0 h0'"
  by (simp_all add: pins_held_def input_held_def output_held_def same_claims_def)

text \<open>A failing command, whatever the port registers held.\<close>

lemma failed_dsl_ports:
  assumes "il_shell_reach st" "interlock_set_slot_dsl slot dsl st = Ret ((r, ps), st')" "r \<noteq> SHELL_STATUS_OK"
  shows "same_ports (ensure_initialised (il_hal st)) (ensure_initialised (il_hal st'))"
proof -
  obtain st0 where r0: "il_reach st0" "same_but_ports st st0" using shell_blind [OF assms(1)] by blast
  note ok0 = reach_ok [OF r0(1)] and n = no_ports_claims [OF r0(2)]
  have tab: "table_ok (ensure_initialised (il_hal st))"
    using shell_groups [OF assms(1)] ok0 n by (intro table_init) (simp_all add: il_ok_def hal_ok_def)
  have v: "verify_persist_or_panic st = Ret ((), st)" using ok0 n(1) verify_ok by (simp add: il_ok_def)
  show ?thesis
  proof (cases "il_hal st' = il_hal st")
    case True
    then show ?thesis by (simp add: same_ports_def)
  next
    case False
    then obtain parsed cs where c: "unat slot < INTERLOCK_MAX_SLOTS" "sl_state (slot_of slot st) \<noteq> INTERLOCK_SLOT_ARMED"
      "claim_inst_pins slot parsed (il_hal st) = (cs, il_hal st')" "cs \<noteq> HAL_PIN_CLAIM_OK"
      using assms(2,3) v by (auto simp: interlock_set_slot_dsl_def Let_def split: if_splits sum.splits prod.splits)
    have "slot_free slot (ensure_initialised (il_hal st0))"
      using ok0 c(1,2) n(1) by (auto simp: il_ok_def slots_ok_def slot_ok_def armed_dsl_def slot_of_def split: if_splits)
    then show ?thesis using claim_inst_ports [OF tab slot_below [OF c(1)] c(3,4)] n(2) by (simp add: slot_free_def)
  qed
qed

text \<open>
  C34. Installing an interlock is atomic, whatever other writers have left in the port registers. The command answers OK only if the slot was free; then the slot
  is armed with the interlock that the text describes, whose pins are all claimed for it, and the other
  slot is untouched. With any other answer, wherever among the claims the command failed, the kept memory
  and the owners of every pin are as they were. Of a pin with an owner the mode, the declared values and the
  port registers (direction, output latch, configuration) are as they were too. The registers of a pin
  without an owner are as they were, or the failed command had claimed the pin and its release has reset
  it to the safe state: an input with its latch low and buffer, pull and peripheral off.
\<close>

theorem install_atomic:
  assumes "il_shell_reach st"
  shows "\<exists>r ps st'. interlock_set_slot_dsl slot dsl st = Ret ((r, ps), st') \<and>
    (if r = SHELL_STATUS_OK then unat slot < INTERLOCK_MAX_SLOTS \<and> armed_dsl (il_persist st') slot \<and>
       il_parse dsl = Inr (ip_inst (il_persist st') ! unat slot) \<and>
       pins_held slot (ip_inst (il_persist st') ! unat slot) (ensure_initialised (il_hal st')) \<and>
       sl_boot_counter (ip_slots (il_persist st') ! unat slot) = 0 \<and> other_slots slot (il_persist st) (il_persist st')
     else il_persist st' = il_persist st \<and> same_claims (ensure_initialised (il_hal st)) (ensure_initialised (il_hal st')) \<and>
       same_ports (ensure_initialised (il_hal st)) (ensure_initialised (il_hal st')))"
proof -
  obtain st0 where r0: "il_reach st0" "same_but_ports st0 st" using shell_blind [OF assms] by (auto simp: same_but_ports_def)
  obtain r ps st0' where r: "interlock_set_slot_dsl slot dsl st0 = Ret ((r, ps), st0')" "il_ok st0'"
    "if r = SHELL_STATUS_OK then unat slot < INTERLOCK_MAX_SLOTS \<and> armed_dsl (il_persist st0') slot \<and>
       il_parse dsl = Inr (ip_inst (il_persist st0') ! unat slot) \<and> sl_boot_counter (ip_slots (il_persist st0') ! unat slot) = 0 \<and>
       other_slots slot (il_persist st0) (il_persist st0')
     else il_persist st0' = il_persist st0 \<and> same_claims (ensure_initialised (il_hal st0)) (ensure_initialised (il_hal st0'))"
    using set_dsl_run [OF reach_ok [OF r0(1)], of slot dsl] by blast
  obtain st' where st': "interlock_set_slot_dsl slot dsl st = Ret ((r, ps), st')" "same_but_ports st0' st'"
    using same_but_ports_act [OF blind_dsl r0(2) r(1)] by blast
  note n = no_ports_claims(1,2) [OF r0(2)] no_ports_claims(1,2) [OF st'(2)]
  show ?thesis
  proof (cases "r = SHELL_STATUS_OK")
    case True
    then have "pins_held slot (ip_inst (il_persist st') ! unat slot) (ensure_initialised (il_hal st'))"
      using r(3) armed_inst(2) [OF r(2), of slot] n(3) held_claims(1) [OF n(4)] by simp
    then show ?thesis using True r(3) st'(1) n(1,3) by simp
  next
    case False
    then show ?thesis using r(3) st'(1) n(1,3) held_claims(2) [OF n(2,4)] failed_dsl_ports [OF assms st'(1)] by simp
  qed
qed

definition rival_text :: string where
  "rival_text = ''b;cfg[(A1):in];watch[A1:1]''"

definition rival_inst :: il_inst where
  "rival_inst = \<lparr> in_name = ''b'', in_tf_state = 0,
     in_inputs = [\<lparr> ii_phys_id = 4, ii_mode = 0, ii_oversample_exp = 0, ii_sh_cyc = 0, ii_debounce_depth = 0, ii_hyst = 0 \<rparr>],
     in_watches = [\<lparr> iw_input_idx = 0, iw_op = IL_OP_EQ, iw_threshold = 1 \<rparr>], in_outputs = [] \<rparr>"

lemma rival_parsed: "il_parse rival_text = Inr rival_inst"
  by code_simp

lemma il_ana_pin: "hp_claims_initialised (il_hal il_ana) \<and> hc_slot_mask (claim_at 4 (il_hal il_ana)) = 1 \<and>
  sl_state (slot_of 1 il_ana) = INTERLOCK_SLOT_EMPTY"
  by code_simp

lemma rival_refused:
  "fst (claim_inst_pins 1 rival_inst (il_hal il_ana)) = HAL_PIN_CLAIM_TAKEN"
proof -
  have b: "find_board_pin 4 = Some \<lparr> bp_label = ''D1'', bp_port = 0, bp_pin = 4, bp_adc_channel = 4, bp_caps = 3 \<rparr>" by code_simp
  have "fst (hal_pin_claim 4 1 HAL_PIN_MODE_GPIO_IN (il_hal il_ana)) = HAL_PIN_CLAIM_TAKEN"
    using il_ana_pin by (simp add: hal_pin_claim_def ensure_initialised_def hal_modes HAL_PIN_TABLE_SIZE_def b board_pin_is_reserved_def board_caps slot_bit_def)
  then show ?thesis
    by (cases "hal_pin_claim 4 1 HAL_PIN_MODE_GPIO_IN (il_hal il_ana)")
      (simp add: claim_inst_pins_def claim_input_def rival_inst_def il_modes map_input_mode_def hal_modes)
qed

text \<open>A second interlock that wants the analog pin of the first one is refused, and nothing changes.\<close>

theorem install_atomic_witness:
  "\<exists>st'. interlock_set_slot_dsl 1 rival_text il_ana = Ret ((SHELL_STATUS_BUSY, [0xFF, 3, 0]), st') \<and>
    il_persist st' = il_persist il_ana \<and> same_claims (ensure_initialised (il_hal il_ana)) (ensure_initialised (il_hal st')) \<and>
    same_ports (ensure_initialised (il_hal il_ana)) (ensure_initialised (il_hal st'))"
proof -
  obtain h where h: "claim_inst_pins 1 rival_inst (il_hal il_ana) = (HAL_PIN_CLAIM_TAKEN, h)"
    using rival_refused by (cases "claim_inst_pins 1 rival_inst (il_hal il_ana)") simp
  have v: "verify_persist_or_panic il_ana = Ret ((), il_ana)" using reach_ok [OF il_ana_reach] verify_ok by (simp add: il_ok_def)
  have len: "rival_text \<noteq> []" "length rival_text < IL_DSL_MAX" by (simp_all add: rival_text_def IL_DSL_MAX_def)
  have "interlock_set_slot_dsl 1 rival_text il_ana = Ret ((SHELL_STATUS_BUSY, [0xFF, 3, 0]), il_ana \<lparr> il_hal := h \<rparr>)"
    using v len h il_ana_pin rival_parsed by (simp add: interlock_set_slot_dsl_def slot_states INTERLOCK_MAX_SLOTS_def)
  moreover from install_atomic [OF reach_shell [OF il_ana_reach], of 1 rival_text] obtain r ps st' where
    "interlock_set_slot_dsl 1 rival_text il_ana = Ret ((r, ps), st')"
    "r \<noteq> SHELL_STATUS_OK \<Longrightarrow> il_persist st' = il_persist il_ana \<and> same_claims (ensure_initialised (il_hal il_ana)) (ensure_initialised (il_hal st')) \<and>
       same_ports (ensure_initialised (il_hal il_ana)) (ensure_initialised (il_hal st'))"
    by (auto split: if_splits)
  ultimately show ?thesis by (auto simp: shell_statuses)
qed

section \<open>Resets\<close>











end
