(* ===== verification/Spec2Isabelle.thy ===== *)
theory Spec2Isabelle
  imports SE_Calls SE_DictRuns SE_Timing SE_Switch Bus_Sync CFL_Session IL_Runs
begin

text \<open>
  Verification of the motioncore firmware and of its bus controller.

  \<^bold>\<open>The program.\<close> The repository holds the software of a small robot bus: slave boards and dongles
  built on microcontrollers, and a Linux host that commands them over a serial bus. Four parts
  carry logic of their own, and the development has a group of theories for each; the prefix of a
  theory's name is its group.

  \<^item> \<open>SE_*\<close>: the S-expression engine (\<open>s_engine/runtime\<close>), an interpreter of behaviour trees.
    A tree is compiled to one flat array of eight-byte parameters; nodes keep their state in an
    array of four-byte records; builtin and user functions are called through tables.
  \<^item> \<open>Bus_*\<close>: the bus controller of the host (\<open>linux/bus_controller\<close>) with the frame codec it
    shares with the firmware (\<open>vendor/libcomm/frame.c\<close>): bytes to frames, frames to replies,
    replies to commands, commands to the life cycle of a dongle.
  \<^item> \<open>CFL_*\<close>: the event-driven chain-flow engine for AVR chips (\<open>cfl_avr/runtime/cfl_engine.c\<close>).
  \<^item> \<open>IL_*\<close>: the interlock framework of the SAMD21 slave (\<open>samd21/apps/register_dongle\<close>), the
    safety function of a board: declared inputs are watched, declared outputs driven by the verdict.

  The groups meet in three places. \<open>Fifo\<close> is the queue contract that four of the program's rings
  provide. The frame codec of \<open>Bus_Frame\<close> is also on the chips: the CRC that guards the kept
  memory of the interlock framework (\<open>IL_Slots\<close>) is the one defined there. \<open>Prelude\<close> is the
  vocabulary of all.

  \<^bold>\<open>How C is modelled.\<close> A C function that may not return is a value of type \<open>res\<close>: \<open>Ret\<close> is a
  return, \<open>Trap (Exception m)\<close> the firmware's \<open>EXCEPTION\<close> or panic, which never comes back,
  \<open>Trap (Fault m)\<close> an access that C leaves undefined (an index out of range, a \<open>NULL\<close> read, a signed
  overflow), \<open>Diverge\<close> a computation that did not end within its fuel. An \<open>act\<close> is such a function
  over a state record; \<open>bindA\<close> and \<open>seqA\<close> are the sequencing of statements, \<open>loopA\<close>, \<open>eachA\<close>,
  \<open>forA\<close> and \<open>whileA\<close> the loops. Structures are records with the names of the source's fields
  (prefixed where they would clash), machine words are words where they wrap or are taken apart
  bit by bit, and natural numbers with the reduction written out where they only count
  (\<open>u16\<close>). A pointer into an array is an index; a pointer that may be \<open>NULL\<close> is an option. A
  function pointer that a client registers is a name, and the code behind it an argument.

  \<^bold>\<open>The S-expression engine.\<close>

  \<^item> \<open>SE_Params\<close>: \<open>s_engine_types.h\<close>, in the configuration \<open>MODULE_IS_64BIT = 0\<close> that the chip ports
    build: result codes, the parameter with its union (one 32-bit payload, read by \<open>brace_idx\<close>,
    \<open>node_index\<close>, \<open>int_val\<close> and so on), opcodes, node states. A pointer into the parameters with its
    count is a \<open>slice\<close>.
  \<^item> \<open>SE_Nav\<close>: skipping, counting and indexing the logical parameters of a slice
    (\<open>s_engine_node.c\<close>, \<open>s_engine_eval.c\<close>); the trees a flat array encodes (\<open>sexp\<close>, \<open>flat\<close>,
    \<open>holds\<close>) and the agreement of the index loops with them.
  \<^item> \<open>SE_Queue\<close>, \<open>SE_Stack\<close>: \<open>s_engine_event_queue.c\<close> as a queue, \<open>s_engine_stack.c\<close> as a list with
    frames; \<open>stk_ok\<close> is the invariant of the stack and \<open>fine\<close> says that an operation keeps it and
    does not reach undefined behaviour.
  \<^item> \<open>SE_Inst\<close>, \<open>SE_Node\<close>: the tree instance, the context of a running node, and the dispatcher
    (\<open>s_engine_eval.c\<close>, \<open>s_engine_node.c\<close>, \<open>s_engine_builtins_shared_helpers.h\<close>): \<open>dispatch_main\<close>,
    \<open>dispatch_pred\<close>, \<open>dispatch_oneshot\<close>, invocation, reset and termination of children, the tick of
    a tree.
  \<^item> \<open>SE_Pred\<close>, \<open>SE_Flow\<close>, \<open>SE_Dispatch\<close>, \<open>SE_Leaf\<close>, \<open>SE_Quads\<close>: the builtin functions, one theory per
    header \<open>s_engine_builtins_*.h\<close>; \<open>SE_Leaf\<close> joins the delays, checks, return codes and oneshots.
    The rounding arithmetic of floats and the mathematical library are the argument
    \<open>fl_ops\<close>, gathered with the conversions of the target in \<open>qenv\<close>; comparison, sign and absolute
    value of floats are defined on their bits.
  \<^item> \<open>SE_Run\<close>: the interpreter. A module (\<open>env\<close>) gives every table entry as a function of the
    context it runs in, and \<open>mk_ctx e n\<close> ties the knot for \<open>n\<close> nested calls.
  \<^item> \<open>SE_Frame\<close>: what no node function changes, as the locale \<open>framed_ctx\<close> between the dispatcher and
    the node functions, interpreted on \<open>mk_ctx\<close> by induction on the nesting.
  \<^item> \<open>SE_Calls\<close>: the calls that hold stack frames open (\<open>s_engine_builtins_quads.h\<close>,
    \<open>s_engine_builtins_stack.h\<close>); \<open>full_env\<close> is the module with these and the three-address
    instructions, a second interpretation of the locale.
  \<^item> \<open>SE_Lifecycle\<close>, \<open>SE_Timing\<close>, \<open>SE_Trees\<close>, \<open>SE_Compose\<close>, \<open>SE_Switch\<close>: runs. The events a node's
    function receives, how long the delays hold, the recursive reset and the connectives over
    trees, when a fork is complete, the sequence as a recursion, which branch of a state machine is
    told what. The observed functions log their calls in \<open>user_ctx\<close> and answer as they please.
  \<^item> \<open>SE_Dict\<close>, \<open>SE_DictOps\<close>: dictionaries inside the parameter array (\<open>se_dict_hash.c\<close>,
    \<open>se_dict_string.c\<close>) and the builtins that load them, extract values from them and run entries
    that hold calls (\<open>s_engine_builtins_dict.h\<close>, \<open>_oneshot.h\<close>, \<open>_spawn.h\<close>). A pointer to a parameter is an
    index; kept in a 64-bit field it is an address, from the base \<open>d_base\<close> of the array in \<open>denv\<close>,
    which also holds the string table of the module.
  \<^item> \<open>SE_DictHash\<close>, \<open>SE_DictTrees\<close>, \<open>SE_DictRuns\<close>: the hashes of indices are different; the dictionaries and
    arrays that an array stores (\<open>dval\<close>, \<open>stored\<close>) and the walk through them that a path describes;
    loading and extraction in a row, and the run of an entry as a recursion over its calls.

  \<^bold>\<open>The bus controller.\<close>

  \<^item> \<open>Bus_Ring\<close>, \<open>Bus_Frame\<close>: \<open>frame.c\<close>. The ring with its free-running 32-bit counters is the list
    \<open>ring_elems\<close>; the encoder writes the SLIP form of a frame (\<open>wire\<close>) or nothing, the decoder
    is related to the frames whose bytes it is fed, in whatever state it was.
  \<^item> \<open>Bus_Demux\<close>: \<open>demux.c\<close>. The link and the clock are the fields of a \<open>port\<close>. The hypothesis
    \<open>quiet\<close> says of a port that sending and reading the clock return and touch nothing but the
    world below the seam (\<open>env\<close>), as \<open>link_endpoint.h\<close> describes it; \<open>plain\<close> adds that no handler of other
    frames or of link changes is registered. A \<open>linked\<close> port may also do what \<open>usb_link.c\<close> does when a write
    fails: report the loss of the link from inside the send. The demultiplexer keeps its accounts over
    such a port too; the tracker does not (\<open>resend_link_loss\<close> in \<open>Bus_Tracker\<close>), and its properties
    are about quiet ports. The invariant \<open>dx_inv\<close> counts the requests as multisets: accepted =
    answered + pending.
  \<^item> \<open>Bus_Tracker\<close>: \<open>cmd_tracker.c\<close>, whose reply callback is called by the demultiplexer; the state
    extends the demultiplexer's record. \<open>fair\<close> relates the states around a step: per slave, what
    was accepted is, in order, what is completed and what is held.
  \<^item> \<open>Bus_Controller\<close>, \<open>Bus_Sync\<close>: \<open>controller.c\<close> and \<open>identity.c\<close>, and their runs against a dongle over the
    link \<open>rec_port\<close>, which takes every frame and writes it down.

  \<^bold>\<open>The chain-flow engine.\<close> \<open>CFL_Engine\<close> is all of \<open>cfl_engine.c\<close>, with the module in flash as the
  argument \<open>md\<close> and the functions of the application as the argument \<open>user\<close>. \<open>CFL_Runs\<close> is a logic
  of its acts (\<open>runs\<close>: the act returns, and relates the states by a relation), \<open>CFL_Pump\<close> the
  pump with functions that send nothing (\<open>tame\<close>), \<open>CFL_Session\<close> the acquire-release discipline of
  the \<open>INIT_TERM\<close> nodes for an application that logs its calls.

  \<^bold>\<open>The interlock framework.\<close>

  \<^item> \<open>IL_Pins\<close>, \<open>IL_Claims\<close>: \<open>samd21_pin_table.c\<close> and \<open>samd21_hal_pin.c\<close>; \<open>hal_up\<close> is the invariant of the
    claim table with the port registers.
  \<^item> \<open>IL_Parse\<close>, \<open>IL_Grammar\<close>: \<open>samd21_interlock_dsl.c\<close>; what the parser accepts is a well-formed
    interlock (\<open>inst_ok\<close>). The recursion ends because every step leaves less text.
  \<^item> \<open>IL_Slots\<close>, \<open>IL_Arm\<close>, \<open>IL_Safety\<close>, \<open>IL_Runs\<close>: \<open>samd21_interlocks.c\<close>. A start of the chip is \<open>boot\<close>, with any
    contents of the kept memory; the commands and ticks after it are steps, and the inductive
    relation of \<open>IL_Runs\<close> gives the reachable states. Clock, pin levels, ADC and stack mark of a tick
    are the argument \<open>il_env\<close>, different at every step. \<open>il_ok\<close> is the invariant of these states.
  \<^item> \<open>IL_Gpio\<close>: the GPIO commands of the shell (\<open>samd21_commands.c\<close>), which write the same port registers
    without asking the claim table. The framework never reads these registers, so that its runs with other
    writers (\<open>il_shell_reach\<close> in \<open>IL_Runs\<close>: the commands, and any write at any time) are those without, up
    to the registers; what a property says of a register then holds because the tick or the command has just
    written it. The direction of an output is the exception: \<open>gpio_config\<close> can take it away and no tick
    restores it, so that driven outputs are promised for the framework alone.

  \<^bold>\<open>The lemmas.\<close> Each component has an invariant (\<open>evq_ok\<close>, \<open>stk_ok\<close>, \<open>ring_ok\<close>, \<open>dx_inv\<close>, \<open>ct_inv\<close>, \<open>queue_ok\<close>,
  \<open>tables_ok\<close>, \<open>hal_up\<close>, \<open>il_ok\<close>) with lemmas that every operation keeps it, and an abstract view of its state
  (a list, a multiset, a tree, a ledger) with lemmas that give every operation on the view. The
  collection \<open>keeps\<close> carries frames and invariants through long C bodies, the locale
  \<open>bounded_fifo\<close> the order of delivery of the four queues, the locale \<open>framed_ctx\<close> the mutual
  recursion of dispatcher and node functions. The numbered properties rest on these.

  \<^bold>\<open>Bounds and fuel.\<close> \<open>nav_fuel\<close> (65536) bounds the loops over parameters; their index is a
  \<open>uint16_t\<close> below a \<open>uint16_t\<close> count, so that a loop that advances ends within it, and one that
  uses it up has come back to an index (the sequence of 256 children does, and runs forever).
  The recursive reset has the number of parameters of the tree as fuel, every level being a
  smaller slice. \<open>mk_ctx\<close> nests as deep as it is told; the properties hold for every depth, and
  those that promise a return say so. The pump of the chain-flow engine takes one unit per event:
  16, the size of the queue, are enough for functions that send nothing. The tracker's reset of a
  slot has \<open>CMD_QUEUE_DEPTH\<close>, enough unless a completion callback submits again. The bit count of
  a claim has 8, the bits of a byte.

  \<^bold>\<open>Not modelled.\<close> Of the engine: loading, registration and allocation of modules and trees, which
  are heap and file handling; the time-based delays, whose arithmetic is \<open>double\<close>; logging; the
  functions that create trees at run time or write into another tree's blackboard
  (\<open>s_engine_builtins_spawn.h\<close>, \<open>se_set_external_field\<close>), since an instance that owns instances needs
  the allocator; the
  C++ helpers beside the C runtime, which no build of the firmware uses. Of the controller: the
  terminal I/O of \<open>usb_link.c\<close>, the text parsing of \<open>roster.c\<close>, the wrappers of \<open>ffi_facade.c\<close>.
  Of the slave: the bus driver, USB, flash and the rest of the shell, which are register accesses and interrupt
  handlers of the chip; what they, or the multiplexer of the ADC at a conversion, write to the port
  registers is covered by the arbitrary writes of \<open>il_shell_reach\<close>. The applications of the other boards, vendor code, generated tables of
  compiled trees, and everything in Lua are outside.
\<close>

end
